(* ===== verification/Prelude.thy ===== *)
theory Prelude
  imports Main "HOL-Library.Word" "HOL-Library.Monad_Syntax"
begin

text \<open>
  Shared vocabulary of the development.

  The firmware is C for a 32-bit ARM core. A value of a fixed-width C type is a word of that
  width; lengths and indices (\<open>size_t\<close>, loop counters) are natural numbers, and the definitions
  say where a C counter can wrap. A C array is the list of its elements.

  An operation that the C code can leave undefined or abort (an access outside an array, a failed
  \<open>furi_check\<close> or \<open>furi_assert\<close>, a loop that never ends) has a result of type \<open>'a option\<close>, and
  \<open>None\<close> is that outcome. A theorem that says the result is \<open>Some\<close> is thus a memory-safety and
  no-crash statement. Error codes and \<open>bool\<close> results of the C code are ordinary values.
\<close>

unbundle bit_operations_syntax

type_synonym u8 = "8 word"
type_synonym u16 = "16 word"
type_synonym u32 = "32 word"
type_synonym u64 = "64 word"

named_theorems mem_simps "reads and writes of C arrays"
named_theorems bit_view "the bit sequence that a byte array holds"

section \<open>Memory and checks\<close>

definition rd :: "'a list \<Rightarrow> nat \<Rightarrow> 'a option" where
  "rd xs i = (if i < length xs then Some (xs ! i) else None)"

definition wr :: "'a list \<Rightarrow> nat \<Rightarrow> 'a \<Rightarrow> 'a list option" where
  "wr xs i v = (if i < length xs then Some (xs[i := v]) else None)"

definition furi_check :: "bool \<Rightarrow> unit option" where
  "furi_check b = (if b then Some () else None)"

text \<open>\<open>furi_assert\<close> is \<open>furi_check\<close> in a debug build; a release build drops it.\<close>

abbreviation furi_assert :: "bool \<Rightarrow> unit option" where
  "furi_assert \<equiv> furi_check"

text \<open>\<open>memcpy(dst + doff, src + soff, n)\<close> between two arrays.\<close>

definition memcpy :: "'a list \<Rightarrow> nat \<Rightarrow> 'a list \<Rightarrow> nat \<Rightarrow> nat \<Rightarrow> 'a list option" where
  "memcpy dst doff src soff n =
     (if doff + n \<le> length dst \<and> soff + n \<le> length src
      then Some (take doff dst @ take n (drop soff src) @ drop (doff + n) dst)
      else None)"

lemma rd_Some [mem_simps]: "i < length xs \<Longrightarrow> rd xs i = Some (xs ! i)"
  by (simp add: rd_def)

lemma rd_None [mem_simps]: "length xs \<le> i \<Longrightarrow> rd xs i = None"
  by (simp add: rd_def)

lemma wr_Some [mem_simps]: "i < length xs \<Longrightarrow> wr xs i v = Some (xs[i := v])"
  by (simp add: wr_def)

lemma wr_None [mem_simps]: "length xs \<le> i \<Longrightarrow> wr xs i v = None"
  by (simp add: wr_def)

lemma rd_eq_Some_iff: "rd xs i = Some v \<longleftrightarrow> i < length xs \<and> v = xs ! i"
  by (auto simp: rd_def)

lemma wr_eq_Some_iff: "wr xs i v = Some ys \<longleftrightarrow> i < length xs \<and> ys = xs[i := v]"
  by (auto simp: wr_def)

lemma furi_check_True [simp]: "furi_check True = Some ()"
  by (simp add: furi_check_def)

lemma furi_check_False [simp]: "furi_check False = None"
  by (simp add: furi_check_def)

lemma furi_check_eq_Some_iff [simp]: "furi_check b = Some u \<longleftrightarrow> b"
  by (simp add: furi_check_def)

lemma length_memcpy: "memcpy dst doff src soff n = Some r \<Longrightarrow> length r = length dst"
  by (auto simp: memcpy_def split: if_splits)

lemma memcpy_all: "n = length dst \<Longrightarrow> n \<le> length src \<Longrightarrow> memcpy dst 0 src 0 n = Some (take n src)"
  by (simp add: memcpy_def)

lemma nth_memcpy:
  assumes "memcpy dst doff src soff n = Some r" and "i < length dst"
  shows "r ! i = (if doff \<le> i \<and> i < doff + n then src ! (soff + (i - doff)) else dst ! i)"
proof -
  from assms(1) have b: "doff + n \<le> length dst" "soff + n \<le> length src"
    and r: "r = take doff dst @ take n (drop soff src) @ drop (doff + n) dst"
    by (auto simp: memcpy_def split: if_splits)
  consider "i < doff" | "doff \<le> i" "i < doff + n" | "doff + n \<le> i" by linarith
  then show ?thesis
    by cases (use b assms(2) in \<open>auto simp: r nth_append\<close>)
qed

section \<open>Counting loops\<close>

text \<open>
  \<open>for(i = a; i < a + n; i++) body\<close>: the body is a function of the index and the loop state.
\<close>

primrec for_loop :: "(nat \<Rightarrow> 's \<Rightarrow> 's option) \<Rightarrow> nat \<Rightarrow> nat \<Rightarrow> 's \<Rightarrow> 's option" where
  "for_loop f i 0 s = Some s"
| "for_loop f i (Suc n) s = (case f i s of None \<Rightarrow> None | Some s' \<Rightarrow> for_loop f (Suc i) n s')"

lemma for_loop_rule:
  assumes "P i s"
    and "\<And>j s. i \<le> j \<Longrightarrow> j < i + n \<Longrightarrow> P j s \<Longrightarrow> \<exists>s'. f j s = Some s' \<and> P (Suc j) s'"
  shows "\<exists>s'. for_loop f i n s = Some s' \<and> P (i + n) s'"
  using assms
proof (induction n arbitrary: i s)
  case 0
  then show ?case by simp
next
  case (Suc n)
  from Suc.prems obtain s1 where s1: "f i s = Some s1" "P (Suc i) s1"
    by (metis le_refl less_add_same_cancel1 zero_less_Suc)
  have "\<exists>s'. for_loop f (Suc i) n s1 = Some s' \<and> P (Suc i + n) s'"
    using s1(2) by (rule Suc.IH) (use Suc.prems(2) in simp)
  with s1(1) show ?case by simp
qed

lemma for_loop_fold:
  assumes "\<And>j s. i \<le> j \<Longrightarrow> j < i + n \<Longrightarrow> f j s = Some (g j s)"
  shows "for_loop f i n s = Some (fold g [i..<i + n] s)"
  using assms
proof (induction n arbitrary: i s)
  case (Suc n)
  then show ?case by (simp add: upt_conv_Cons del: upt_Suc)
qed simp

lemma for_loop_append:
  "for_loop f i (m + n) s = (case for_loop f i m s of None \<Rightarrow> None | Some s' \<Rightarrow> for_loop f (i + m) n s')"
  by (induction m arbitrary: i s) (auto split: option.split)

lemma for_loop_snoc:
  "for_loop f i (Suc n) s = (case for_loop f i n s of None \<Rightarrow> None | Some s' \<Rightarrow> f (i + n) s')"
proof -
  have "for_loop f i (Suc n) s = (case for_loop f i n s of None \<Rightarrow> None | Some s' \<Rightarrow> for_loop f (i + n) (Suc 0) s')"
    using for_loop_append [of f i n "Suc 0" s] by (simp del: for_loop.simps(2))
  also have "\<dots> = (case for_loop f i n s of None \<Rightarrow> None | Some s' \<Rightarrow> f (i + n) s')"
    by (simp split: option.split)
  finally show ?thesis .
qed

lemma for_loop_numeral:
  "for_loop f i (numeral k) s = (case f i s of None \<Rightarrow> None | Some s' \<Rightarrow> for_loop f (Suc i) (pred_numeral k) s')"
  by (simp add: numeral_eq_Suc)

lemma for_loop_cong:
  assumes "\<And>j s. i \<le> j \<Longrightarrow> j < i + n \<Longrightarrow> f j s = g j s"
  shows "for_loop f i n s = for_loop g i n s"
  using assms
proof (induction n arbitrary: i s)
  case (Suc n)
  have "f i s = g i s" by (rule Suc.prems) auto
  moreover have "for_loop f (Suc i) n s' = for_loop g (Suc i) n s'" for s'
    by (rule Suc.IH, rule Suc.prems) auto
  ultimately show ?case by (simp split: option.split)
qed simp

section \<open>Bits of bytes and of byte arrays\<close>

text \<open>Bit \<open>p\<close> of a byte array, most significant bit of each byte first.\<close>

definition bit_at :: "u8 list \<Rightarrow> nat \<Rightarrow> bool" where
  "bit_at d p = bit (d ! (p div 8)) (7 - p mod 8)"

definition to_bits :: "u8 list \<Rightarrow> bool list" where
  "to_bits d = map (bit_at d) [0..<8 * length d]"

text \<open>The number whose binary digits, most significant first, are the list.\<close>

definition num_of_bits :: "bool list \<Rightarrow> 'a::len word" where
  "num_of_bits bs = horner_sum of_bool 2 (rev bs)"

definition seg :: "nat \<Rightarrow> nat \<Rightarrow> 'a list \<Rightarrow> 'a list" where
  "seg p n xs = take n (drop p xs)"

lemma length_to_bits [simp]: "length (to_bits d) = 8 * length d"
  by (simp add: to_bits_def)

lemma nth_to_bits [bit_view]: "p < 8 * length d \<Longrightarrow> to_bits d ! p = bit_at d p"
  by (simp add: to_bits_def)

lemma length_seg [simp]: "p + n \<le> length xs \<Longrightarrow> length (seg p n xs) = n"
  by (simp add: seg_def)

lemma nth_seg [simp]: "p + n \<le> length xs \<Longrightarrow> i < n \<Longrightarrow> seg p n xs ! i = xs ! (p + i)"
  by (simp add: seg_def)

lemma seg_0 [simp]: "seg p 0 xs = []"
  by (simp add: seg_def)

lemma seg_add: "seg p (m + n) xs = seg p m xs @ seg (p + m) n xs"
  by (simp add: seg_def take_add add.commute)

lemma seg_Suc: "p + n < length xs \<Longrightarrow> seg p (Suc n) xs = seg p n xs @ [xs ! (p + n)]"
  by (simp add: seg_def take_Suc_conv_app_nth)

lemma seg_Cons: "p + n < length xs \<Longrightarrow> seg p (Suc n) xs = xs ! p # seg (Suc p) n xs"
  by (simp add: seg_def Cons_nth_drop_Suc [symmetric] take_Suc_Cons)

text \<open>Overwriting part of a list.\<close>

definition overwrite :: "nat \<Rightarrow> 'a list \<Rightarrow> 'a list \<Rightarrow> 'a list" where
  "overwrite p vs xs = take p xs @ vs @ drop (p + length vs) xs"

lemma overwrite_Nil [simp]: "overwrite p [] xs = xs"
  by (simp add: overwrite_def)

lemma length_overwrite [simp]: "p + length vs \<le> length xs \<Longrightarrow> length (overwrite p vs xs) = length xs"
  by (simp add: overwrite_def)

lemma nth_overwrite:
  assumes "p + length vs \<le> length xs" "i < length xs"
  shows "overwrite p vs xs ! i = (if p \<le> i \<and> i < p + length vs then vs ! (i - p) else xs ! i)"
  using assms by (auto simp: overwrite_def nth_append min_def)

lemma overwrite_snoc:
  assumes "p + length vs < length xs"
  shows "overwrite p (vs @ [v]) xs = (overwrite p vs xs)[p + length vs := v]"
  using assms by (intro nth_equalityI) (auto simp: nth_overwrite nth_list_update nth_append)

lemma overwrite_append:
  assumes "p + length us + length vs \<le> length xs"
  shows "overwrite (p + length us) vs (overwrite p us xs) = overwrite p (us @ vs) xs"
  using assms by (intro nth_equalityI) (auto simp: nth_overwrite nth_append)

lemma seg_overwrite [simp]:
  "p + length vs \<le> length xs \<Longrightarrow> seg p (length vs) (overwrite p vs xs) = vs"
  by (simp add: seg_def overwrite_def)

lemma to_bits_eqI:
  assumes "length d = length e" and "\<And>p. p < 8 * length d \<Longrightarrow> bit_at d p = bit_at e p"
  shows "to_bits d = to_bits e"
  using assms by (auto simp: to_bits_def)

lemma bit_position:
  assumes "n < 8"
  shows "(8 * i + 7 - n) div 8 = i" and "7 - (8 * i + 7 - n) mod 8 = (n::nat)"
proof -
  define m where "m = 7 - n"
  with assms have "8 * i + 7 - n = 8 * i + m" "m < 8" "7 - m = n" by simp_all
  then show "(8 * i + 7 - n) div 8 = i" and "7 - (8 * i + 7 - n) mod 8 = n" by simp_all
qed

lemma to_bits_inj: "to_bits d = to_bits e \<Longrightarrow> d = e"
proof -
  assume eq: "to_bits d = to_bits e"
  then have len: "length d = length e"
    by (metis length_to_bits mult_cancel1 zero_neq_numeral)
  show "d = e"
  proof (rule nth_equalityI [OF len], rule bit_word_eqI)
    fix i n assume i: "i < length d" and n: "n < LENGTH(8)"
    define p where "p = 8 * i + 7 - n"
    from i n have p: "p < 8 * length d" "p div 8 = i" "7 - p mod 8 = n"
      by (auto simp: p_def bit_position)
    from eq p(1) len have "bit_at d p = bit_at e p"
      by (metis nth_to_bits)
    with p show "bit (d ! i) n = bit (e ! i) n" by (simp add: bit_at_def)
  qed
qed

lemma bit_num_of_bits:
  "bit (num_of_bits bs :: 'a::len word) n \<longleftrightarrow> n < LENGTH('a) \<and> n < length bs \<and> bs ! (length bs - Suc n)"
  by (auto simp: num_of_bits_def bit_horner_sum_bit_word_iff rev_nth)

lemma num_of_bits_Nil [simp]: "num_of_bits [] = 0"
  by (simp add: num_of_bits_def)

lemma num_of_bits_append:
  "num_of_bits (xs @ ys) = (push_bit (length ys) (num_of_bits xs) OR num_of_bits ys :: 'a::len word)"
  by (rule bit_word_eqI) (auto simp: bit_num_of_bits bit_simps nth_append not_less Suc_diff_Suc
      intro: arg_cong2 [where f = nth])

lemma num_of_bits_snoc:
  "num_of_bits (xs @ [b]) = (push_bit 1 (num_of_bits xs) OR of_bool b :: 'a::len word)"
  by (simp add: num_of_bits_append) (simp add: num_of_bits_def)

lemma ucast_num_of_bits:
  "length bs \<le> LENGTH('a) \<Longrightarrow> ucast (num_of_bits bs :: 'a::len word) = (num_of_bits bs :: 'b::len word)"
  by (rule bit_word_eqI) (auto simp: bit_num_of_bits bit_simps)

text \<open>The byte at index \<open>i\<close> is the number of its eight bits.\<close>

lemma byte_num_of_bits: "i < length d \<Longrightarrow> d ! i = num_of_bits (seg (8 * i) 8 (to_bits d))"
  by (rule bit_word_eqI) (auto simp: bit_num_of_bits bit_view bit_at_def bit_position)

lemma less_8_cases: "(n::nat) < 8 \<longleftrightarrow> n \<in> {0, 1, 2, 3, 4, 5, 6, 7}"
  by auto

lemma less_16_cases: "(n::nat) < 16 \<longleftrightarrow> n \<in> {0, 1, 2, 3, 4, 5, 6, 7, 8, 9, 10, 11, 12, 13, 14, 15}"
  by (simp add: less_Suc_eq numeral_eq_Suc)

section \<open>Byte order\<close>

definition le_bytes :: "nat \<Rightarrow> 'a::len word \<Rightarrow> u8 list" where
  "le_bytes n w = map (\<lambda>i. ucast (drop_bit (8 * i) w)) [0..<n]"

definition of_le_bytes :: "u8 list \<Rightarrow> 'a::len word" where
  "of_le_bytes bs = foldr (\<lambda>b acc. ucast b OR push_bit 8 acc) bs 0"

lemma length_le_bytes [simp]: "length (le_bytes n w) = n"
  by (simp add: le_bytes_def)

lemma le_bytes_Suc: "le_bytes (Suc n) w = ucast w # le_bytes n (drop_bit 8 w)"
  unfolding le_bytes_def by (subst map_upt_Suc) (simp add: add.commute)

lemma of_le_bytes_Cons: "of_le_bytes (b # bs) = (ucast b OR push_bit 8 (of_le_bytes bs))"
  by (simp add: of_le_bytes_def)

lemma of_le_bytes_le_bytes:
  "of_le_bytes (le_bytes n w) = (take_bit (8 * n) w :: 'a::len word)"
proof (induction n arbitrary: w)
  case 0
  then show ?case by (simp add: of_le_bytes_def le_bytes_def)
next
  case (Suc n)
  show ?case
    by (rule bit_word_eqI)
      (auto simp: le_bytes_Suc of_le_bytes_Cons Suc.IH bit_simps not_less)
qed

lemma of_le_bytes_bound: "bit (of_le_bytes bs :: 'a::len word) k \<Longrightarrow> k < 8 * length bs"
proof (induction bs arbitrary: k)
  case Nil
  then show ?case by (simp add: of_le_bytes_def)
next
  case (Cons b bs)
  then show ?case by (cases "k < 8") (auto simp: of_le_bytes_Cons bit_simps not_less dest!: Cons.IH dest: bit_imp_le_length)
qed

lemma le_bytes_of_le_bytes:
  "8 * length bs \<le> LENGTH('a) \<Longrightarrow> le_bytes (length bs) (of_le_bytes bs :: 'a::len word) = bs"
proof (induction bs)
  case Nil
  then show ?case by (simp add: le_bytes_def)
next
  case (Cons b bs)
  have "ucast (ucast b OR push_bit 8 (of_le_bytes bs) :: 'a word) = b"
    using Cons.prems by (intro bit_word_eqI) (auto simp: bit_simps)
  moreover have "drop_bit 8 (ucast b OR push_bit 8 (of_le_bytes bs) :: 'a word) = of_le_bytes bs"
    using Cons.prems
    by (intro bit_word_eqI) (auto simp: bit_simps dest: bit_imp_le_length of_le_bytes_bound)
  ultimately show ?case using Cons by (simp add: le_bytes_Suc of_le_bytes_Cons)
qed

end
