(* ===== verification/BitLib.thy ===== *)
theory BitLib
  imports Prelude
begin

text \<open>
  The bit library, \<open>lib/bit_lib/bit_lib.c\<close>: single bits, bit fields, parity blocks, bit reversal,
  CRCs and byte-order conversions over byte arrays. Every radio protocol decoder of the firmware
  is written on top of these functions.

  A byte array is a \<open>u8 list\<close>; its abstract value is the bit sequence \<open>to_bits\<close>, most significant
  bit first. The lemmas say what each C routine does to that sequence. Arrays that a routine takes
  as two parameters are distinct objects here. A length that C passes as \<open>uint8_t\<close> is a natural
  number below 256: the theorems that depend on it say so. The two printing routines are not
  modelled.
\<close>

section \<open>Single bits and bit fields\<close>

definition bit_lib_push_bit :: "u8 list \<Rightarrow> nat \<Rightarrow> bool \<Rightarrow> u8 list option" where
  "bit_lib_push_bit data data_size b =
     (if data_size = 0 then None \<comment> \<open>\<open>last_index\<close> is \<open>SIZE_MAX\<close>: the loop leaves the array\<close>
      else let last_index = data_size - 1 in do {
        data' \<leftarrow> for_loop (\<lambda>i d. do {
            x \<leftarrow> rd d i;
            y \<leftarrow> rd d (i + 1);
            wr d i (push_bit 1 x OR (drop_bit 7 y AND 1)) }) 0 last_index data;
        x \<leftarrow> rd data' last_index;
        wr data' last_index (push_bit 1 x OR of_bool b) })"

definition bit_lib_set_bit :: "u8 list \<Rightarrow> nat \<Rightarrow> bool \<Rightarrow> u8 list option" where
  "bit_lib_set_bit data position b = do {
     x \<leftarrow> rd data (position div 8);
     (if b then wr data (position div 8) (x OR push_bit (7 - position mod 8) 1)
      else wr data (position div 8) (x AND NOT (push_bit (7 - position mod 8) 1))) }"

definition bit_lib_set_bits :: "u8 list \<Rightarrow> nat \<Rightarrow> u8 \<Rightarrow> nat \<Rightarrow> u8 list option" where
  "bit_lib_set_bits data position byte len = do {
     furi_check (len \<le> 8);
     furi_check (len > 0);
     for_loop (\<lambda>i d.
        let shift = (len - 1) - i in
        bit_lib_set_bit d (position + i) (drop_bit shift byte AND 1 = 1)) 0 len data }"

definition bit_lib_get_bit :: "u8 list \<Rightarrow> nat \<Rightarrow> bool option" where
  "bit_lib_get_bit data position = do {
     x \<leftarrow> rd data (position div 8);
     Some (drop_bit (7 - position mod 8) x AND 1 = 1) }"

definition bit_lib_get_bits :: "u8 list \<Rightarrow> nat \<Rightarrow> nat \<Rightarrow> u8 option" where
  "bit_lib_get_bits data position len =
     (if len > 8 then None \<comment> \<open>a negative shift distance\<close>
      else let shift = position mod 8 in
        if shift = 0 then do {
          x \<leftarrow> rd data (position div 8);
          Some (drop_bit (8 - len) x) }
        else do {
          x \<leftarrow> rd data (position div 8);
          y \<leftarrow> rd data (position div 8 + 1);
          Some (drop_bit (8 - len) (push_bit shift x OR drop_bit (8 - shift) y)) })"

definition bit_lib_get_bits_16 :: "u8 list \<Rightarrow> nat \<Rightarrow> nat \<Rightarrow> u16 option" where
  "bit_lib_get_bits_16 data position len =
     (if len \<le> 8 then map_option ucast (bit_lib_get_bits data position len)
      else do {
        b0 \<leftarrow> bit_lib_get_bits data position 8;
        b1 \<leftarrow> bit_lib_get_bits data (position + 8) (len - 8);
        Some (push_bit (len - 8) (ucast b0) OR ucast b1) })"

definition bit_lib_get_bits_32 :: "u8 list \<Rightarrow> nat \<Rightarrow> nat \<Rightarrow> u32 option" where
  "bit_lib_get_bits_32 data position len =
     (if len \<le> 8 then map_option ucast (bit_lib_get_bits data position len)
      else if len \<le> 16 then do {
        b0 \<leftarrow> bit_lib_get_bits data position 8;
        b1 \<leftarrow> bit_lib_get_bits data (position + 8) (len - 8);
        Some (push_bit (len - 8) (ucast b0) OR ucast b1) }
      else if len \<le> 24 then do {
        b0 \<leftarrow> bit_lib_get_bits data position 8;
        b1 \<leftarrow> bit_lib_get_bits data (position + 8) 8;
        b2 \<leftarrow> bit_lib_get_bits data (position + 16) (len - 16);
        Some (push_bit (len - 8) (ucast b0) OR push_bit (len - 16) (ucast b1) OR ucast b2) }
      else do {
        b0 \<leftarrow> bit_lib_get_bits data position 8;
        b1 \<leftarrow> bit_lib_get_bits data (position + 8) 8;
        b2 \<leftarrow> bit_lib_get_bits data (position + 16) 8;
        b3 \<leftarrow> bit_lib_get_bits data (position + 24) (len - 24);
        Some (push_bit (len - 8) (ucast b0) OR push_bit (len - 16) (ucast b1)
              OR push_bit (len - 24) (ucast b2) OR ucast b3) })"

definition bit_lib_get_bits_64 :: "u8 list \<Rightarrow> nat \<Rightarrow> nat \<Rightarrow> u64 option" where
  "bit_lib_get_bits_64 data position len =
     (if len \<le> 8 then map_option ucast (bit_lib_get_bits data position len)
      else if len \<le> 16 then do {
        b0 \<leftarrow> bit_lib_get_bits data position 8;
        b1 \<leftarrow> bit_lib_get_bits data (position + 8) (len - 8);
        Some (push_bit (len - 8) (ucast b0) OR ucast b1) }
      else if len \<le> 24 then do {
        b0 \<leftarrow> bit_lib_get_bits data position 8;
        b1 \<leftarrow> bit_lib_get_bits data (position + 8) 8;
        b2 \<leftarrow> bit_lib_get_bits data (position + 16) (len - 16);
        Some (push_bit (len - 8) (ucast b0) OR push_bit (len - 16) (ucast b1) OR ucast b2) }
      else if len \<le> 32 then do {
        b0 \<leftarrow> bit_lib_get_bits data position 8;
        b1 \<leftarrow> bit_lib_get_bits data (position + 8) 8;
        b2 \<leftarrow> bit_lib_get_bits data (position + 16) 8;
        b3 \<leftarrow> bit_lib_get_bits data (position + 24) (len - 24);
        Some (push_bit (len - 8) (ucast b0) OR push_bit (len - 16) (ucast b1)
              OR push_bit (len - 24) (ucast b2) OR ucast b3) }
      else if len \<le> 40 then do {
        b0 \<leftarrow> bit_lib_get_bits data position 8;
        b1 \<leftarrow> bit_lib_get_bits data (position + 8) 8;
        b2 \<leftarrow> bit_lib_get_bits data (position + 16) 8;
        b3 \<leftarrow> bit_lib_get_bits data (position + 24) 8;
        b4 \<leftarrow> bit_lib_get_bits data (position + 32) (len - 32);
        Some (push_bit (len - 8) (ucast b0) OR push_bit (len - 16) (ucast b1)
              OR push_bit (len - 24) (ucast b2) OR push_bit (len - 32) (ucast b3) OR ucast b4) }
      else if len \<le> 48 then do {
        b0 \<leftarrow> bit_lib_get_bits data position 8;
        b1 \<leftarrow> bit_lib_get_bits data (position + 8) 8;
        b2 \<leftarrow> bit_lib_get_bits data (position + 16) 8;
        b3 \<leftarrow> bit_lib_get_bits data (position + 24) 8;
        b4 \<leftarrow> bit_lib_get_bits data (position + 32) 8;
        b5 \<leftarrow> bit_lib_get_bits data (position + 40) (len - 40);
        Some (push_bit (len - 8) (ucast b0) OR push_bit (len - 16) (ucast b1)
              OR push_bit (len - 24) (ucast b2) OR push_bit (len - 32) (ucast b3)
              OR push_bit (len - 40) (ucast b4) OR ucast b5) }
      else if len \<le> 56 then do {
        b0 \<leftarrow> bit_lib_get_bits data position 8;
        b1 \<leftarrow> bit_lib_get_bits data (position + 8) 8;
        b2 \<leftarrow> bit_lib_get_bits data (position + 16) 8;
        b3 \<leftarrow> bit_lib_get_bits data (position + 24) 8;
        b4 \<leftarrow> bit_lib_get_bits data (position + 32) 8;
        b5 \<leftarrow> bit_lib_get_bits data (position + 40) 8;
        b6 \<leftarrow> bit_lib_get_bits data (position + 48) (len - 48);
        Some (push_bit (len - 8) (ucast b0) OR push_bit (len - 16) (ucast b1)
              OR push_bit (len - 24) (ucast b2) OR push_bit (len - 32) (ucast b3)
              OR push_bit (len - 40) (ucast b4) OR push_bit (len - 48) (ucast b5) OR ucast b6) }
      else do {
        b0 \<leftarrow> bit_lib_get_bits data position 8;
        b1 \<leftarrow> bit_lib_get_bits data (position + 8) 8;
        b2 \<leftarrow> bit_lib_get_bits data (position + 16) 8;
        b3 \<leftarrow> bit_lib_get_bits data (position + 24) 8;
        b4 \<leftarrow> bit_lib_get_bits data (position + 32) 8;
        b5 \<leftarrow> bit_lib_get_bits data (position + 40) 8;
        b6 \<leftarrow> bit_lib_get_bits data (position + 48) 8;
        b7 \<leftarrow> bit_lib_get_bits data (position + 56) (len - 56);
        Some (push_bit (len - 8) (ucast b0) OR push_bit (len - 16) (ucast b1)
              OR push_bit (len - 24) (ucast b2) OR push_bit (len - 32) (ucast b3)
              OR push_bit (len - 40) (ucast b4) OR push_bit (len - 48) (ucast b5)
              OR push_bit (len - 56) (ucast b6) OR ucast b7) })"

section \<open>Parity\<close>

datatype BitLibParity = BitLibParityEven | BitLibParityOdd | BitLibParityAlways0 | BitLibParityAlways1

text \<open>\<open>__builtin_parity\<close>, \<open>__builtin_popcount\<close>: the number of one bits, and its parity.\<close>

definition popcount :: "'a::len word \<Rightarrow> nat" where
  "popcount w = length (filter (bit w) [0..<LENGTH('a)])"

definition builtin_parity :: "'a::len word \<Rightarrow> bool" where
  "builtin_parity w = odd (popcount w)"

fun bit_lib_test_parity_32 :: "u32 \<Rightarrow> BitLibParity \<Rightarrow> bool option" where
  "bit_lib_test_parity_32 bits BitLibParityEven = Some (builtin_parity bits)"
| "bit_lib_test_parity_32 bits BitLibParityOdd = Some (\<not> builtin_parity bits)"
| "bit_lib_test_parity_32 bits _ = None"

fun test_parity_block :: "u8 list \<Rightarrow> nat \<Rightarrow> BitLibParity \<Rightarrow> nat \<Rightarrow> bool option" where
  "test_parity_block bits p BitLibParityAlways0 parity_length =
     map_option Not (bit_lib_get_bit bits (p + parity_length - 1))"
| "test_parity_block bits p BitLibParityAlways1 parity_length =
     bit_lib_get_bit bits (p + parity_length - 1)"
| "test_parity_block bits p parity parity_length = do {
     parity_block \<leftarrow> bit_lib_get_bits_32 bits p parity_length;
     bit_lib_test_parity_32 parity_block parity }"

primrec test_parity_blocks :: "u8 list \<Rightarrow> nat \<Rightarrow> BitLibParity \<Rightarrow> nat \<Rightarrow> nat \<Rightarrow> nat \<Rightarrow> bool option" where
  "test_parity_blocks bits position parity parity_length i 0 = Some True"
| "test_parity_blocks bits position parity parity_length i (Suc n) = do {
     result \<leftarrow> test_parity_block bits (position + i * parity_length) parity parity_length;
     (if \<not> result then Some False
      else test_parity_blocks bits position parity parity_length (Suc i) n) }"

definition bit_lib_test_parity ::
  "u8 list \<Rightarrow> nat \<Rightarrow> nat \<Rightarrow> BitLibParity \<Rightarrow> nat \<Rightarrow> bool option" where
  "bit_lib_test_parity bits position len parity parity_length =
     (if parity_length = 0 then None \<comment> \<open>a division by zero\<close>
      else test_parity_blocks bits position parity parity_length 0 (len div parity_length))"

fun parity_bit :: "BitLibParity \<Rightarrow> u32 \<Rightarrow> bool option" where
  "parity_bit BitLibParityAlways0 parity_word = Some False"
| "parity_bit BitLibParityAlways1 parity_word = Some True"
| "parity_bit parity parity_word = do {
     t \<leftarrow> bit_lib_test_parity_32 parity_word BitLibParityOdd;
     Some (\<not> (t \<noteq> (parity = BitLibParityOdd))) }"

definition add_parity_word ::
  "u8 list \<Rightarrow> nat \<Rightarrow> nat \<Rightarrow> BitLibParity \<Rightarrow> nat \<Rightarrow> nat \<Rightarrow> u8 list \<Rightarrow> u8 list option" where
  "add_parity_word data position dest_position parity parity_length j dest = do {
     (parity_word, dest) \<leftarrow> for_loop (\<lambda>b (w, d). do {
         x \<leftarrow> bit_lib_get_bit data (position + b);
         d \<leftarrow> bit_lib_set_bit d (dest_position + j + b) x;
         Some (push_bit 1 w OR of_bool x, d) }) 0 (parity_length - 1) (0, dest);
     pb \<leftarrow> parity_bit parity parity_word;
     bit_lib_set_bit dest (dest_position + j + (parity_length - 1)) pb }"

text \<open>
  The outer loop of \<open>bit_lib_add_parity\<close>; \<open>j\<close> counts the bits written and equals \<open>bit_count\<close>. With
  a \<open>parity_length\<close> below 2 the loop variable never passes \<open>source_length\<close> and the destination index
  grows without end.
\<close>

function add_parity_loop ::
  "u8 list \<Rightarrow> nat \<Rightarrow> nat \<Rightarrow> nat \<Rightarrow> nat \<Rightarrow> BitLibParity \<Rightarrow> nat \<Rightarrow> nat \<Rightarrow> u8 list \<Rightarrow> (u8 list \<times> nat) option"
where
  "add_parity_loop data position dest_position source_length parity_length parity word j dest =
     (if word < source_length then
        (if parity_length < 2 then None
         else do {
           dest \<leftarrow> add_parity_word data (position + word) dest_position parity parity_length j dest;
           add_parity_loop data position dest_position source_length parity_length parity
             (word + (parity_length - 1)) (j + parity_length) dest })
      else Some (dest, j))"
  by pat_completeness auto
termination
  by (relation "measure (\<lambda>(data, p, dp, sl, pl, par, word, j, dest). sl - word)") auto

declare add_parity_loop.simps [simp del]

definition bit_lib_add_parity ::
  "u8 list \<Rightarrow> nat \<Rightarrow> u8 list \<Rightarrow> nat \<Rightarrow> nat \<Rightarrow> nat \<Rightarrow> BitLibParity \<Rightarrow> (u8 list \<times> nat) option" where
  "bit_lib_add_parity data position dest dest_position source_length parity_length parity =
     add_parity_loop data position dest_position source_length parity_length parity 0 0 dest"

definition remove_bit_step ::
  "nat \<Rightarrow> nat \<Rightarrow> nat \<Rightarrow> u8 list \<times> nat \<times> u8 \<times> nat \<Rightarrow> (u8 list \<times> nat \<times> u8 \<times> nat) option" where
  "remove_bit_step position n counter st = (case st of (data, result_counter, bit_buffer, bit_counter) \<Rightarrow> do {
     (bit_buffer, bit_counter) \<leftarrow>
       (if (counter + 1) mod n \<noteq> 0 then do {
          x \<leftarrow> bit_lib_get_bit data (position + counter);
          Some (push_bit 1 bit_buffer OR of_bool x, bit_counter + 1) }
        else Some (bit_buffer, bit_counter));
     (if bit_counter = 8 then do {
        data \<leftarrow> bit_lib_set_bits data (position + result_counter) bit_buffer 8;
        Some (data, result_counter + 8, 0, 0) }
      else Some (data, result_counter, bit_buffer, bit_counter)) })"

definition bit_lib_remove_bit_every_nth ::
  "u8 list \<Rightarrow> nat \<Rightarrow> nat \<Rightarrow> nat \<Rightarrow> (u8 list \<times> nat) option" where
  "bit_lib_remove_bit_every_nth data position len n =
     (if len > 0 \<and> n = 0 then None \<comment> \<open>a division by zero\<close>
      else do {
        (data, result_counter, bit_buffer, bit_counter) \<leftarrow>
          for_loop (remove_bit_step position n) 0 len (data, 0, 0, 0);
        (if bit_counter \<noteq> 0 then do {
           data \<leftarrow> bit_lib_set_bits data (position + result_counter) bit_buffer bit_counter;
           Some (data, result_counter + bit_counter) }
         else Some (data, result_counter)) })"

section \<open>Copying and reversing\<close>

definition bit_lib_copy_bits :: "u8 list \<Rightarrow> nat \<Rightarrow> nat \<Rightarrow> u8 list \<Rightarrow> nat \<Rightarrow> u8 list option" where
  "bit_lib_copy_bits data position len source source_position =
     for_loop (\<lambda>i d. do {
        x \<leftarrow> bit_lib_get_bit source (source_position + i);
        bit_lib_set_bit d (position + i) x }) 0 len data"

function reverse_bits_loop :: "u8 list \<Rightarrow> nat \<Rightarrow> nat \<Rightarrow> nat \<Rightarrow> u8 list option" where
  "reverse_bits_loop data position i j =
     (if i < j then do {
        tmp \<leftarrow> bit_lib_get_bit data (position + i);
        x \<leftarrow> bit_lib_get_bit data (position + j);
        data \<leftarrow> bit_lib_set_bit data (position + i) x;
        data \<leftarrow> bit_lib_set_bit data (position + j) tmp;
        reverse_bits_loop data position (i + 1) (j - 1) }
      else Some data)"
  by pat_completeness auto
termination
  by (relation "measure (\<lambda>(data, p, i, j). j - i)") auto

declare reverse_bits_loop.simps [simp del]

text \<open>With length 0 the index \<open>j\<close> starts at \<open>SIZE_MAX\<close>.\<close>

definition bit_lib_reverse_bits :: "u8 list \<Rightarrow> nat \<Rightarrow> nat \<Rightarrow> u8 list option" where
  "bit_lib_reverse_bits data position len =
     reverse_bits_loop data position 0 (if len = 0 then 2 ^ 32 - 1 else len - 1)"

definition bit_lib_get_bit_count :: "u32 \<Rightarrow> u8" where
  "bit_lib_get_bit_count data = of_nat (popcount data)"

definition bit_lib_reverse_16_fast :: "u16 \<Rightarrow> u16" where
  "bit_lib_reverse_16_fast data =
     drop_bit 15 (data AND 0x8000) OR drop_bit 13 (data AND 0x4000)
     OR drop_bit 11 (data AND 0x2000) OR drop_bit 9 (data AND 0x1000)
     OR drop_bit 7 (data AND 0x0800) OR drop_bit 5 (data AND 0x0400)
     OR drop_bit 3 (data AND 0x0200) OR drop_bit 1 (data AND 0x0100)
     OR push_bit 1 (data AND 0x0080) OR push_bit 3 (data AND 0x0040)
     OR push_bit 5 (data AND 0x0020) OR push_bit 7 (data AND 0x0010)
     OR push_bit 9 (data AND 0x0008) OR push_bit 11 (data AND 0x0004)
     OR push_bit 13 (data AND 0x0002) OR push_bit 15 (data AND 0x0001)"

definition bit_lib_reverse_8_fast :: "u8 \<Rightarrow> u8" where
  "bit_lib_reverse_8_fast byte =
     (let byte = drop_bit 4 (byte AND 0xF0) OR push_bit 4 (byte AND 0x0F);
          byte = drop_bit 2 (byte AND 0xCC) OR push_bit 2 (byte AND 0x33);
          byte = drop_bit 1 (byte AND 0xAA) OR push_bit 1 (byte AND 0x55)
      in byte)"

section \<open>CRCs\<close>

definition reverse_byte :: "u8 \<Rightarrow> u8 option" where
  "reverse_byte b = do { r \<leftarrow> bit_lib_reverse_bits [b] 0 8; rd r 0 }"

definition crc8_bit :: "u8 \<Rightarrow> u8 \<Rightarrow> u8" where
  "crc8_bit polynom crc =
     (if crc AND push_bit (8 - 1) 1 \<noteq> 0 then push_bit 1 crc XOR polynom else push_bit 1 crc)"

definition bit_lib_crc8 ::
  "u8 list \<Rightarrow> nat \<Rightarrow> u8 \<Rightarrow> u8 \<Rightarrow> bool \<Rightarrow> bool \<Rightarrow> u8 \<Rightarrow> u16 option" where
  "bit_lib_crc8 data data_size polynom init ref_in ref_out xor_out = do {
     crc \<leftarrow> for_loop (\<lambda>i crc. do {
         b \<leftarrow> rd data i;
         byte \<leftarrow> (if ref_in then reverse_byte b else Some b);
         Some ((crc8_bit polynom ^^ 8) (crc XOR byte)) }) 0 data_size init;
     crc \<leftarrow> (if ref_out then reverse_byte crc else Some crc);
     Some (ucast (crc XOR xor_out)) }"

definition crc16_bit :: "u16 \<Rightarrow> u8 \<Rightarrow> nat \<Rightarrow> u16 \<Rightarrow> u16" where
  "crc16_bit polynom byte j crc =
     (let c15 = (drop_bit 15 crc AND 1 = 1); b = (drop_bit (7 - j) byte AND 1 = 1);
          crc = push_bit 1 crc
      in if c15 \<noteq> b then crc XOR polynom else crc)"

definition bit_lib_crc16 ::
  "u8 list \<Rightarrow> nat \<Rightarrow> u16 \<Rightarrow> u16 \<Rightarrow> bool \<Rightarrow> bool \<Rightarrow> u16 \<Rightarrow> u16 option" where
  "bit_lib_crc16 data data_size polynom init ref_in ref_out xor_out = do {
     crc \<leftarrow> for_loop (\<lambda>i crc. do {
         b \<leftarrow> rd data i;
         let byte = (if ref_in then ucast (drop_bit 8 (bit_lib_reverse_16_fast (ucast b))) else b);
         Some (fold (crc16_bit polynom byte) [0..<8] crc) }) 0 data_size init;
     let crc = (if ref_out then bit_lib_reverse_16_fast crc else crc);
     Some (crc XOR xor_out) }"

section \<open>Numbers and bytes\<close>

primrec num_to_bytes_be_loop :: "u64 \<Rightarrow> nat \<Rightarrow> u8 list \<Rightarrow> u8 list option" where
  "num_to_bytes_be_loop src 0 dest = Some dest"
| "num_to_bytes_be_loop src (Suc len) dest = do {
     dest \<leftarrow> wr dest len (ucast src);
     num_to_bytes_be_loop (drop_bit 8 src) len dest }"

definition bit_lib_num_to_bytes_be :: "u64 \<Rightarrow> nat \<Rightarrow> u8 list \<Rightarrow> u8 list option" where
  "bit_lib_num_to_bytes_be src len dest = do {
     furi_assert (len \<le> 8);
     num_to_bytes_be_loop src len dest }"

definition bit_lib_num_to_bytes_le :: "u64 \<Rightarrow> nat \<Rightarrow> u8 list \<Rightarrow> u8 list option" where
  "bit_lib_num_to_bytes_le src len dest = do {
     furi_assert (len \<le> 8);
     for_loop (\<lambda>i d. wr d i (ucast (drop_bit (8 * i) src))) 0 len dest }"

definition bit_lib_bytes_to_num_be :: "u8 list \<Rightarrow> nat \<Rightarrow> u64 option" where
  "bit_lib_bytes_to_num_be src len = do {
     furi_assert (len \<le> 8);
     for_loop (\<lambda>i res. do { b \<leftarrow> rd src i; Some (push_bit 8 res OR ucast b) }) 0 len 0 }"

definition bit_lib_bytes_to_num_le :: "u8 list \<Rightarrow> nat \<Rightarrow> u64 option" where
  "bit_lib_bytes_to_num_le src len = do {
     furi_assert (len \<le> 8);
     for_loop (\<lambda>i res. do { b \<leftarrow> rd src i; Some (res OR push_bit (8 * i) (ucast b)) }) 0 len 0 }"

definition bit_lib_bytes_to_num_bcd :: "u8 list \<Rightarrow> nat \<Rightarrow> (u64 \<times> bool) option" where
  "bit_lib_bytes_to_num_bcd src len = do {
     furi_assert (len \<le> 9);
     for_loop (\<lambda>i (res, is_bcd). do {
        b \<leftarrow> rd src i;
        let nibble_1 = b div 16;
        let nibble_2 = b mod 16;
        let is_bcd = (if nibble_1 > 9 \<or> nibble_2 > 9 then False else is_bcd);
        Some ((res * 10 + ucast nibble_1) * 10 + ucast nibble_2, is_bcd) }) 0 len (0, True) }"

section \<open>Lemmas\<close>

lemma and_1_eq_bit [simp]: "drop_bit k (x :: 'a::len word) AND 1 = 1 \<longleftrightarrow> bit x k"
  by (simp add: and_one_eq bit_iff_odd_drop_bit mod2_eq_if)

lemma bit_lib_get_bit_Some [mem_simps]:
  "p < 8 * length d \<Longrightarrow> bit_lib_get_bit d p = Some (to_bits d ! p)"
  by (auto simp: bit_lib_get_bit_def rd_def bit_view bit_at_def)

lemma bit_lib_get_bit_None: "8 * length d \<le> p \<Longrightarrow> bit_lib_get_bit d p = None"
  by (auto simp: bit_lib_get_bit_def rd_def)

definition upd_bit :: "u8 list \<Rightarrow> nat \<Rightarrow> bool \<Rightarrow> u8 list" where
  "upd_bit d p b = d[p div 8 := (if b then d ! (p div 8) OR push_bit (7 - p mod 8) 1
     else d ! (p div 8) AND NOT (push_bit (7 - p mod 8) 1))]"

lemma bit_lib_set_bit_Some [mem_simps]:
  "p < 8 * length d \<Longrightarrow> bit_lib_set_bit d p b = Some (upd_bit d p b)"
  by (auto simp: bit_lib_set_bit_def rd_def wr_def upd_bit_def)

lemma length_upd_bit [simp]: "length (upd_bit d p b) = length d"
  by (simp add: upd_bit_def)

lemma bit_word_exp: "bit (2 ^ j :: 'a::len word) k \<longleftrightarrow> k = j \<and> k < LENGTH('a)"
  by (auto simp: bit_exp_iff)

lemma bit_at_upd_bit:
  assumes "p < 8 * length d" "q < 8 * length d"
  shows "bit_at (upd_bit d p b) q = (if q = p then b else bit_at d q)"
proof (cases "q div 8 = p div 8")
  case True
  have "q = p \<longleftrightarrow> q mod 8 = p mod 8" using True by (metis div_mult_mod_eq)
  moreover have "q mod 8 < 8" "p mod 8 < 8" by simp_all
  then have "q mod 8 = p mod 8 \<longleftrightarrow> 7 - q mod 8 = 7 - p mod 8" by linarith
  ultimately have "q = p \<longleftrightarrow> 7 - q mod 8 = 7 - p mod 8" by simp
  moreover have "p div 8 < length d" using assms by auto
  ultimately show ?thesis using True
    by (auto simp: bit_at_def upd_bit_def bit_or_iff bit_and_iff bit_not_iff bit_word_exp less_Suc_eq_le)
next
  case False
  then show ?thesis by (auto simp: bit_at_def upd_bit_def nth_list_update)
qed

lemma to_bits_upd_bit [bit_view]: "p < 8 * length d \<Longrightarrow> to_bits (upd_bit d p b) = (to_bits d)[p := b]"
  by (rule nth_equalityI) (auto simp: bit_view bit_at_upd_bit nth_list_update)

lemma set_bit_loop:
  assumes "p + n \<le> 8 * length d"
  shows "\<exists>d'. for_loop (\<lambda>i d. bit_lib_set_bit d (p + i) (v i)) 0 n d = Some d' \<and> length d' = length d
    \<and> to_bits d' = overwrite p (map v [0..<n]) (to_bits d)"
  using for_loop_rule [where P = "\<lambda>i d'. length d' = length d
      \<and> to_bits d' = overwrite p (map v [0..<i]) (to_bits d)" and i = 0 and n = n and s = d
      and f = "\<lambda>i d. bit_lib_set_bit d (p + i) (v i)"] assms
  by (force simp: mem_simps bit_view overwrite_snoc)

lemma bit_lib_set_bits_spec:
  assumes "0 < n" "n \<le> 8" "p + n \<le> 8 * length d"
  shows "\<exists>d'. bit_lib_set_bits d p byte n = Some d' \<and> length d' = length d
    \<and> to_bits d' = overwrite p (map (\<lambda>i. bit byte (n - Suc i)) [0..<n]) (to_bits d)"
  using set_bit_loop [OF assms(3)] assms by (simp add: bit_lib_set_bits_def)

lemma bit_lib_copy_bits_spec:
  assumes "p + n \<le> 8 * length d" "q + n \<le> 8 * length src"
  shows "\<exists>d'. bit_lib_copy_bits d p n src q = Some d' \<and> length d' = length d
    \<and> to_bits d' = overwrite p (seg q n (to_bits src)) (to_bits d)"
proof -
  have "bit_lib_copy_bits d p n src q = for_loop (\<lambda>i d. bit_lib_set_bit d (p + i) (to_bits src ! (q + i))) 0 n d"
    unfolding bit_lib_copy_bits_def using assms(2) by (intro for_loop_cong) (simp add: mem_simps)
  moreover have "map (\<lambda>i. to_bits src ! (q + i)) [0..<n] = seg q n (to_bits src)"
    using assms(2) by (intro nth_equalityI) auto
  ultimately show ?thesis using set_bit_loop [OF assms(1)] by metis
qed

lemma num_of_bits_slice_split:
  assumes "8 < n" "p + n \<le> length bs"
  shows "(num_of_bits (seg p n bs) :: 'a::len word) =
    push_bit (n - 8) (num_of_bits (seg p 8 bs)) OR num_of_bits (seg (p + 8) (n - 8) bs)"
proof -
  have "seg p n bs = seg p 8 bs @ seg (p + 8) (n - 8) bs"
    using seg_add [of p 8 "n - 8" bs] assms by simp
  then show ?thesis using assms by (simp add: num_of_bits_append)
qed

definition bits_readable :: "u8 list \<Rightarrow> nat \<Rightarrow> nat \<Rightarrow> bool" where
  "bits_readable d p n \<longleftrightarrow> 0 < n \<and> p + n \<le> 8 * length d
     \<and> (p mod 8 = 0 \<or> p div 8 + (n - 1) div 8 + 1 < length d)"

lemma bit_at_add: "j < 8 \<Longrightarrow> bit_at d (8 * k + j) = bit (d ! k) (7 - j)"
  by (simp add: bit_at_def)

lemma bit_num_of_bits_slice:
  "p + n \<le> 8 * length d \<Longrightarrow> bit (num_of_bits (seg p n (to_bits d)) :: 'a::len word) m
     \<longleftrightarrow> m < LENGTH('a) \<and> m < n \<and> bit_at d (p + (n - Suc m))"
  by (auto simp: bit_num_of_bits bit_view)

lemma get_bits_aligned:
  assumes "n \<le> 8" "k < length d" 
  shows "drop_bit (8 - n) (d ! k) = num_of_bits (seg (8 * k) n (to_bits d))"
proof (rule bit_word_eqI)
  fix m assume "m < LENGTH(8)"
  have le: "8 * k + n \<le> 8 * length d" using assms by auto
  have "bit (num_of_bits (seg (8 * k) n (to_bits d)) :: u8) m \<longleftrightarrow> m < n \<and> bit (d ! k) (7 - (n - Suc m))"
    using assms \<open>m < LENGTH(8)\<close> by (auto simp: bit_num_of_bits_slice [OF le] bit_at_add)
  also have "\<dots> \<longleftrightarrow> bit (drop_bit (8 - n) (d ! k)) m"
    using assms by (cases "m < n") (auto simp: bit_drop_bit_eq intro!: arg_cong [where f = "bit (d ! k)"] dest: bit_imp_le_length)
  finally show "bit (drop_bit (8 - n) (d ! k)) m = bit (num_of_bits (seg (8 * k) n (to_bits d)) :: u8) m" by simp
qed

lemma get_bits_unaligned:
  assumes "n \<le> 8" "k + 1 < length d" "0 < s" "s < 8"
  shows "drop_bit (8 - n) (push_bit s (d ! k) OR drop_bit (8 - s) (d ! (k + 1)))
    = num_of_bits (seg (8 * k + s) n (to_bits d))"
proof (rule bit_word_eqI)
  fix m assume m: "m < LENGTH(8)"
  have le: "8 * k + s + n \<le> 8 * length d" using assms by auto
  show "bit (drop_bit (8 - n) (push_bit s (d ! k) OR drop_bit (8 - s) (d ! (k + 1)))) m
    = bit (num_of_bits (seg (8 * k + s) n (to_bits d)) :: u8) m"
  proof (cases "m < n")
    case False
    then show ?thesis by (auto simp: bit_num_of_bits_slice [OF le] bit_simps dest!: bit_imp_le_length)
  next
    case True
    define j where "j = n - Suc m"
    have j: "j < 8" "8 - n + m = 7 - j" using True assms by (auto simp: j_def)
    have L: "bit (drop_bit (8 - n) w) m = bit w (7 - j)" for w :: u8
      by (metis bit_drop_bit_eq comp_apply j(2))
    show ?thesis
    proof (cases "s + j < 8")
      case T: True
      have "bit_at d (8 * k + s + j) = bit (d ! k) (7 - j - s)"
        using bit_at_add [OF T] by (simp add: add.assoc diff_diff_left add.commute)
      moreover have "\<not> bit (d ! (k + 1)) (8 - s + (7 - j))"
        using T assms by (auto dest!: bit_imp_le_length)
      moreover have "s \<le> 7 - j" "7 - j < 8" using T by simp_all
      ultimately show ?thesis using True m assms j unfolding L
        by (simp add: bit_num_of_bits_slice [OF le] bit_simps j_def [symmetric])
    next
      case F: False
      have e: "8 * (k + 1) + (s + j - 8) = 8 * k + s + j" "7 - (s + j - 8) = 8 - s + (7 - j)"
        using F j assms by auto
      have "bit_at d (8 * k + s + j) = bit (d ! (k + 1)) (8 - s + (7 - j))"
        using bit_at_add [of "s + j - 8" d "k + 1"] j assms unfolding e by linarith
      moreover have "\<not> s \<le> 7 - j" using F j by linarith
      ultimately show ?thesis using True m assms j unfolding L
        by (simp add: bit_num_of_bits_slice [OF le] bit_simps j_def [symmetric])
    qed
  qed
qed

lemma bit_lib_get_bits_spec:
  assumes "n \<le> 8" "bits_readable d p n"
  shows "bit_lib_get_bits d p n = Some (num_of_bits (seg p n (to_bits d)))"
proof (cases "p mod 8 = 0")
  case True
  then obtain k where k: "p = 8 * k" by auto
  have "k < length d" using assms k by (auto simp: bits_readable_def)
  with k assms show ?thesis
    by (simp add: bit_lib_get_bits_def mem_simps get_bits_aligned)
next
  case False
  then have k: "p div 8 + 1 < length d" using assms by (auto simp: bits_readable_def)
  have "drop_bit (8 - n) (push_bit (p mod 8) (d ! (p div 8)) OR drop_bit (8 - p mod 8) (d ! (p div 8 + 1)))
    = num_of_bits (seg (8 * (p div 8) + p mod 8) n (to_bits d))"
    using assms k False by (intro get_bits_unaligned) auto
  then show ?thesis using k assms False
    by (simp add: bit_lib_get_bits_def mem_simps Let_def)
qed

lemma bits_readable_first: "8 < n \<Longrightarrow> bits_readable d p n \<Longrightarrow> bits_readable d p 8"
  by (auto simp: bits_readable_def)

lemma bits_readable_rest: "8 < n \<Longrightarrow> bits_readable d p n \<Longrightarrow> bits_readable d (p + 8) (n - 8)"
  unfolding bits_readable_def by (auto simp: div_add1_eq)

lemma get_bits_byte:
  "8 < n \<Longrightarrow> bits_readable d p n \<Longrightarrow> bit_lib_get_bits d p 8 = Some (num_of_bits (seg p 8 (to_bits d)))"
  by (rule bit_lib_get_bits_spec) (auto intro: bits_readable_first)

lemma ucast_num_of_bits_slice [simp]: "n \<le> 8 \<Longrightarrow> ucast (num_of_bits (seg p n bs) :: u8) = (num_of_bits (seg p n bs) :: 'a::len word)"
  by (rule ucast_num_of_bits) (simp add: seg_def)

lemma bits_readable_bound: "bits_readable d p n \<Longrightarrow> p + n \<le> length (to_bits d)"
  by (simp add: bits_readable_def)

lemma bit_lib_get_bits_16_spec:
  assumes "n \<le> 16" "bits_readable d p n"
  shows "bit_lib_get_bits_16 d p n = Some (num_of_bits (seg p n (to_bits d)))"
proof (cases "n \<le> 8")
  case True
  then show ?thesis using assms by (simp add: bit_lib_get_bits_16_def bit_lib_get_bits_spec)
next
  case False
  then show ?thesis using assms bits_readable_rest [of n d p]
    by (simp add: bit_lib_get_bits_16_def get_bits_byte [of n] bit_lib_get_bits_spec
        num_of_bits_slice_split [of n, OF _ bits_readable_bound])
qed

text \<open>Reading the tail of a field that starts with a whole byte.\<close>

lemma num_of_bits_slice_chunk:
  assumes "bits_readable d p n" "8 * k + 8 < n"
  shows "num_of_bits (seg (p + 8 * k) (n - 8 * k) (to_bits d)) =
    (push_bit (n - (8 * k + 8)) (num_of_bits (seg (p + 8 * k) 8 (to_bits d)))
     OR num_of_bits (seg (p + (8 * k + 8)) (n - (8 * k + 8)) (to_bits d)) :: 'a::len word)"
proof -
  have e: "n - 8 * k - 8 = n - (8 * k + 8)" "p + 8 * k + 8 = p + (8 * k + 8)" by simp_all
  have "8 < n - 8 * k" using assms(2) by linarith
  moreover have "p + 8 * k + (n - 8 * k) \<le> length (to_bits d)"
    using assms by (simp add: bits_readable_def)
  ultimately show ?thesis using num_of_bits_slice_split unfolding e by (metis e)
qed

lemma bits_readable_drop: "bits_readable d p n \<Longrightarrow> 8 * k < n \<Longrightarrow> bits_readable d (p + 8 * k) (n - 8 * k)"
proof (induction k)
  case (Suc k)
  then have "bits_readable d (p + 8 * k) (n - 8 * k)" "8 < n - 8 * k" by simp_all
  then show ?case using bits_readable_rest [of "n - 8 * k" d "p + 8 * k"] by (simp add: ac_simps)
qed simp

lemma get_bits_chunk:
  "bits_readable d p n \<Longrightarrow> 8 * k + 8 < n \<Longrightarrow>
    bit_lib_get_bits d (p + 8 * k) 8 = Some (num_of_bits (seg (p + 8 * k) 8 (to_bits d)))"
  using bits_readable_drop [of d p n k] by (intro get_bits_byte [of "n - 8 * k"]) auto

lemma get_bits_last:
  "bits_readable d p n \<Longrightarrow> 8 * k < n \<Longrightarrow> n \<le> 8 * k + 8 \<Longrightarrow>
    bit_lib_get_bits d (p + 8 * k) (n - 8 * k) = Some (num_of_bits (seg (p + 8 * k) (n - 8 * k) (to_bits d)))"
  using bits_readable_drop [of d p n k] by (intro bit_lib_get_bits_spec) auto

lemmas get_bits_chunks =
  get_bits_chunk [where k = 0, simplified] get_bits_chunk [where k = 1, simplified]
  get_bits_chunk [where k = 2, simplified] get_bits_chunk [where k = 3, simplified]
  get_bits_chunk [where k = 4, simplified] get_bits_chunk [where k = 5, simplified]
  get_bits_chunk [where k = 6, simplified]
  get_bits_last [where k = 0, simplified] get_bits_last [where k = 1, simplified]
  get_bits_last [where k = 2, simplified] get_bits_last [where k = 3, simplified]
  get_bits_last [where k = 4, simplified] get_bits_last [where k = 5, simplified]
  get_bits_last [where k = 6, simplified] get_bits_last [where k = 7, simplified]

lemmas num_of_bits_chunks =
  num_of_bits_slice_chunk [where k = 0, simplified] num_of_bits_slice_chunk [where k = 1, simplified]
  num_of_bits_slice_chunk [where k = 2, simplified] num_of_bits_slice_chunk [where k = 3, simplified]
  num_of_bits_slice_chunk [where k = 4, simplified] num_of_bits_slice_chunk [where k = 5, simplified]
  num_of_bits_slice_chunk [where k = 6, simplified]

lemma bits_readable_pos: "bits_readable d p n \<Longrightarrow> 0 < n"
  by (simp add: bits_readable_def)

lemma bit_lib_get_bits_32_spec:
  assumes "n \<le> 32" "bits_readable d p n"
  shows "bit_lib_get_bits_32 d p n = Some (num_of_bits (seg p n (to_bits d)))"
  using assms unfolding bit_lib_get_bits_32_def
  by (simp add: bits_readable_pos [OF assms(2)] get_bits_chunks [OF assms(2)]
      num_of_bits_chunks [OF assms(2)] or.assoc)

lemma bit_lib_get_bits_64_spec:
  assumes "n \<le> 64" "bits_readable d p n"
  shows "bit_lib_get_bits_64 d p n = Some (num_of_bits (seg p n (to_bits d)))"
  using assms unfolding bit_lib_get_bits_64_def
  by (simp add: bits_readable_pos [OF assms(2)] get_bits_chunks [OF assms(2)]
      num_of_bits_chunks [OF assms(2)] or.assoc)

lemma reverse_bits_loop_spec:
  assumes "p + j < 8 * length d"
  shows "\<exists>d'. reverse_bits_loop d p i j = Some d' \<and> length d' = length d
    \<and> (\<forall>q < 8 * length d. to_bits d' ! q =
         (if p + i \<le> q \<and> q \<le> p + j then to_bits d ! (p + i + (p + j) - q) else to_bits d ! q))"
  using assms
proof (induction d p i j rule: reverse_bits_loop.induct)
  case (1 d p i j)
  show ?case
  proof (cases "i < j")
    case False
    then have "p + i + (p + j) - q = q" if "p + i \<le> q" "q \<le> p + j" for q using that by linarith
    with False show ?thesis by (auto simp: reverse_bits_loop.simps [of d p i j])
  next
    case True
    define d1 where "d1 = upd_bit (upd_bit d (p + i) (to_bits d ! (p + j))) (p + j) (to_bits d ! (p + i))"
    have len: "length d1 = length d" by (simp add: d1_def)
    have bits: "to_bits d1 = (to_bits d)[p + i := to_bits d ! (p + j), p + j := to_bits d ! (p + i)]"
      using True "1.prems" by (simp add: d1_def bit_view)
    have step: "reverse_bits_loop d p i j = reverse_bits_loop d1 p (i + 1) (j - 1)"
      using True "1.prems" by (simp add: reverse_bits_loop.simps [of d p i j] mem_simps d1_def)
    have "\<exists>d'. reverse_bits_loop d1 p (i + 1) (j - 1) = Some d' \<and> length d' = length d1
      \<and> (\<forall>q < 8 * length d1. to_bits d' ! q =
         (if p + (i + 1) \<le> q \<and> q \<le> p + (j - 1) then to_bits d1 ! (p + (i + 1) + (p + (j - 1)) - q)
          else to_bits d1 ! q))"
      using True "1.prems" len by (intro "1.IH") (auto simp: mem_simps d1_def)
    then obtain d' where d': "reverse_bits_loop d1 p (i + 1) (j - 1) = Some d'" "length d' = length d"
      and q: "\<And>q. q < 8 * length d \<Longrightarrow> to_bits d' ! q =
         (if p + (i + 1) \<le> q \<and> q \<le> p + (j - 1) then to_bits d1 ! (p + (i + 1) + (p + (j - 1)) - q)
          else to_bits d1 ! q)" by (auto simp: len)
    have "to_bits d' ! q = (if p + i \<le> q \<and> q \<le> p + j then to_bits d ! (p + i + (p + j) - q) else to_bits d ! q)"
      if "q < 8 * length d" for q
    proof -
      have e: "p + (i + 1) + (p + (j - 1)) - q = p + i + (p + j) - q" using True by simp
      consider "q = p + i" | "q = p + j" | "p + (i + 1) \<le> q" "q \<le> p + (j - 1)" | "q < p + i" | "p + j < q"
        using True by linarith
      then show ?thesis
        by cases (use True "1.prems" that e in \<open>auto simp: q bits nth_list_update\<close>)
    qed
    with d' step show ?thesis by auto
  qed
qed

lemma bit_lib_reverse_bits_spec:
  assumes "0 < n" "p + n \<le> 8 * length d"
  shows "\<exists>d'. bit_lib_reverse_bits d p n = Some d' \<and> length d' = length d
    \<and> to_bits d' = overwrite p (rev (seg p n (to_bits d))) (to_bits d)"
proof -
  have "p + (n - 1) < 8 * length d" using assms by simp
  from reverse_bits_loop_spec [OF this, of 0] obtain d' where
    d': "bit_lib_reverse_bits d p n = Some d'" "length d' = length d"
    and q: "\<And>q. q < 8 * length d \<Longrightarrow> to_bits d' ! q =
      (if p \<le> q \<and> q \<le> p + (n - 1) then to_bits d ! (p + (p + (n - 1)) - q) else to_bits d ! q)"
    using assms by (auto simp: bit_lib_reverse_bits_def)
  have "to_bits d' = overwrite p (rev (seg p n (to_bits d))) (to_bits d)"
    using assms d'(2)
    by (intro nth_equalityI) (auto simp: q nth_overwrite rev_nth ac_simps)
  with d' show ?thesis by blast
qed

lemma push_bit_loop:
  assumes "n < length d"
  shows "\<exists>d'. for_loop (\<lambda>i e. do { x \<leftarrow> rd e i; y \<leftarrow> rd e (i + 1);
        wr e i (push_bit 1 x OR (drop_bit 7 y AND 1)) }) 0 n d = Some d' \<and> length d' = length d
    \<and> (\<forall>k < length d. d' ! k = (if k < n then push_bit 1 (d ! k) OR (drop_bit 7 (d ! (k + 1)) AND 1) else d ! k))"
    (is "\<exists>d'. for_loop ?f 0 n d = Some d' \<and> ?P n d'")
proof -
  have "\<exists>d'. for_loop ?f 0 n d = Some d' \<and> ?P (0 + n) d'"
  proof (rule for_loop_rule [where P = ?P])
    show "?P 0 d" by simp
  next
    fix i e assume i: "0 \<le> i" "i < 0 + n" and P: "?P i e"
    then have e: "e ! i = d ! i" "e ! (i + 1) = d ! (i + 1)" "length e = length d" using assms by auto
    have "?f i e = Some (e[i := push_bit 1 (d ! i) OR (drop_bit 7 (d ! (i + 1)) AND 1)])"
      using e i assms by (simp add: mem_simps)
    moreover have "?P (Suc i) (e[i := push_bit 1 (d ! i) OR (drop_bit 7 (d ! (i + 1)) AND 1)])"
      using P i assms by (auto simp: nth_list_update less_Suc_eq)
    ultimately show "\<exists>e'. ?f i e = Some e' \<and> ?P (Suc i) e'" by blast
  qed
  then show ?thesis by simp
qed

lemma bit_shift_in:
  "bit (push_bit 1 (x :: u8) OR (y AND 1)) m = (if m = 0 then bit y 0 else m < 8 \<and> bit x (m - 1))"
  "bit (push_bit 1 x OR of_bool b) m = (if m = 0 then b else m < 8 \<and> bit x (m - 1))"
  by (simp_all only: bit_or_iff bit_and_iff bit_push_bit_iff bit_1_iff bit_of_bool_iff possible_bit_word)
     (auto simp: not_le)

lemma bit_lib_push_bit_spec:
  assumes "d \<noteq> []"
  shows "\<exists>d'. bit_lib_push_bit d (length d) b = Some d' \<and> length d' = length d
    \<and> to_bits d' = tl (to_bits d) @ [b]"
proof -
  let ?f = "\<lambda>i e. do { x \<leftarrow> rd e i; y \<leftarrow> rd e (i + 1); wr e i (push_bit 1 x OR (drop_bit 7 y AND 1)) }"
  let ?n = "length d - 1"
  have "?n < length d" using assms by simp
  from push_bit_loop [OF this] obtain d1 where d1: "for_loop ?f 0 ?n d = Some d1" "length d1 = length d"
    and k: "\<And>k. k < length d \<Longrightarrow> d1 ! k = (if k < ?n then push_bit 1 (d ! k) OR (drop_bit 7 (d ! (k + 1)) AND 1) else d ! k)"
    by blast
  define g where "g k = push_bit 1 (d ! k) OR (drop_bit 7 (d ! (k + 1)) AND 1)" for k
  define h where "h = push_bit 1 (d ! ?n) OR of_bool b"
  define d' where "d' = d1[?n := h]"
  have k: "\<And>k. k < length d \<Longrightarrow> d1 ! k = (if k < ?n then g k else d ! k)"
    using k unfolding g_def .
  have "d1 ! ?n = d ! ?n" using k [of ?n] assms by simp
  then have "rd d1 ?n = Some (d ! ?n)" "wr d1 ?n h = Some d'"
    using assms d1(2) by (simp_all add: mem_simps d'_def)
  then have run: "bit_lib_push_bit d (length d) b = Some d'"
    using assms unfolding bit_lib_push_bit_def Let_def d1(1) h_def by simp
  have nth: "d' ! k = (if k < ?n then g k else h)" if "k < length d" for k
    using that d1(2) assms by (auto simp: d'_def k nth_list_update)
  have "to_bits d' = tl (to_bits d) @ [b]"
  proof (rule nth_equalityI)
    show "length (to_bits d') = length (tl (to_bits d) @ [b])"
      using assms d1 by (cases d) (auto simp: d'_def)
    fix p assume "p < length (to_bits d')"
    then have p: "p < 8 * length d" using d1 by (simp add: d'_def)
    define i where "i = p div 8"
    define j where "j = p mod 8"
    have pij: "p = 8 * i + j" "j < 8" "i < length d" using p by (auto simp: i_def j_def)
    have L: "to_bits d' ! p = bit (d' ! i) (7 - j)"
      using p d1 by (simp add: d'_def nth_to_bits bit_at_def i_def j_def)
    have R: "(tl (to_bits d) @ [b]) ! p = (if p + 1 < 8 * length d then bit_at d (p + 1) else b)"
      using p by (auto simp: nth_append nth_tl bit_view)
    have last: "i < ?n \<or> i = ?n" using pij(3) by linarith
    show "to_bits d' ! p = (tl (to_bits d) @ [b]) ! p"
    proof (cases "j < 7")
      case True
      then have "bit_at d (p + 1) = bit (d ! i) (7 - (j + 1))" using pij bit_at_add [of "j + 1" d i] by simp
      then show ?thesis using True pij last unfolding L R nth [OF pij(3)] g_def h_def
        by (auto simp only: bit_shift_in split: if_split) auto
    next
      case False
      then have j: "j = 7" using pij by simp
      then have "p + 1 = 8 * (i + 1) + 0" using pij by simp
      then have "bit_at d (p + 1) = bit (d ! (i + 1)) 7" by (simp add: bit_at_def)
      then show ?thesis using j pij last unfolding L R nth [OF pij(3)] g_def h_def
        by (auto simp only: bit_shift_in bit_drop_bit_eq split: if_split) auto
    qed
  qed
  with run d1 show ?thesis by (auto simp: d'_def)
qed

subsection \<open>Parity blocks\<close>

fun parity_spec :: "BitLibParity \<Rightarrow> bool list \<Rightarrow> bool" where
  "parity_spec BitLibParityAlways0 blk = False"
| "parity_spec BitLibParityAlways1 blk = True"
| "parity_spec BitLibParityEven blk = odd (length (filter id blk))"
| "parity_spec BitLibParityOdd blk = even (length (filter id blk))"

definition parity_blocks :: "BitLibParity \<Rightarrow> nat \<Rightarrow> nat \<Rightarrow> bool list \<Rightarrow> bool list" where
  "parity_blocks par m k bs = concat (map (\<lambda>i. let blk = seg (i * m) m bs in blk @ [parity_spec par blk]) [0..<k])"

definition drop_every_nth :: "nat \<Rightarrow> bool list \<Rightarrow> bool list" where
  "drop_every_nth n bs = map (nth bs) (filter (\<lambda>c. (c + 1) mod n \<noteq> 0) [0..<length bs])"

lemma parity_num_of_bits:
  assumes "length bs \<le> LENGTH('a)"
  shows "popcount (num_of_bits bs :: 'a::len word) = length (filter id bs)"
proof -
  have "{n. n < LENGTH('a) \<and> bit (num_of_bits bs :: 'a word) n} = (\<lambda>i. length bs - Suc i) ` {i. i < length bs \<and> bs ! i}"
    using assms by (force simp: bit_num_of_bits image_iff intro: exI [where x = "length bs - Suc _"])
  moreover have "inj_on (\<lambda>i. length bs - Suc i) {i. i < length bs \<and> bs ! i}"
    by (auto simp: inj_on_def)
  moreover have "popcount (num_of_bits bs :: 'a word) = card {n. n < LENGTH('a) \<and> bit (num_of_bits bs :: 'a word) n}"
    by (auto simp: popcount_def length_filter_conv_card intro!: arg_cong [where f = card])
  ultimately show ?thesis by (simp add: card_image length_filter_conv_card)
qed

lemma parity_bit_num_of_bits:
  assumes "length blk \<le> 32"
  shows "parity_bit par (num_of_bits blk) = Some (parity_spec par blk)"
  using assms by (cases par) (simp_all add: builtin_parity_def parity_num_of_bits)

lemma add_parity_word_spec:
  assumes "q + m \<le> 8 * length data" "dp + j + m < 8 * length dest" "m \<le> 32"
  shows "\<exists>d'. add_parity_word data q dp par (Suc m) j dest = Some d' \<and> length d' = length dest
    \<and> to_bits d' = overwrite (dp + j) (seg q m (to_bits data) @ [parity_spec par (seg q m (to_bits data))]) (to_bits dest)"
proof -
  let ?S = "to_bits data"
  let ?f = "\<lambda>b (w :: u32, d). do {
         x \<leftarrow> bit_lib_get_bit data (q + b);
         d \<leftarrow> bit_lib_set_bit d (dp + j + b) x;
         Some (push_bit 1 w OR of_bool x, d) }"
  let ?P = "\<lambda>b (w :: u32, d). w = num_of_bits (seg q b ?S) \<and> length d = length dest
     \<and> to_bits d = overwrite (dp + j) (seg q b ?S) (to_bits dest)"
  have "\<exists>s'. for_loop ?f 0 m (0, dest) = Some s' \<and> ?P (0 + m) s'"
  proof (rule for_loop_rule [where P = ?P])
    fix b s assume b: "0 \<le> b" "b < 0 + m" and P: "?P b s"
    obtain w d where s: "s = (w, d)" by force
    have "seg q (Suc b) ?S = seg q b ?S @ [?S ! (q + b)]" using b assms by (intro seg_Suc) auto
    then show "\<exists>s'. ?f b s = Some s' \<and> ?P (Suc b) s'"
      using b assms P unfolding s
      by (simp add: mem_simps num_of_bits_snoc bit_view overwrite_snoc)
  qed (simp add: num_of_bits_def)
  then obtain w d where "for_loop ?f 0 m (0, dest) = Some (w, d)" and P: "?P m (w, d)" by auto
  then have "add_parity_word data q dp par (Suc m) j dest = bit_lib_set_bit d (dp + j + m) (parity_spec par (seg q m ?S))"
    using assms by (simp add: add_parity_word_def parity_bit_num_of_bits)
  then show ?thesis using P assms by (simp add: mem_simps bit_view overwrite_snoc)
qed

lemma parity_blocks_Suc:
  "parity_blocks par m (Suc k) bs = parity_blocks par m k bs @ seg (k * m) m bs @ [parity_spec par (seg (k * m) m bs)]"
  by (simp add: parity_blocks_def Let_def)

lemma length_parity_blocks: "k * m \<le> length bs \<Longrightarrow> length (parity_blocks par m k bs) = k * Suc m"
  by (induction k) (simp_all add: parity_blocks_Suc, simp add: parity_blocks_def)

lemma add_parity_loop_spec:
  assumes "0 < m" "m \<le> 32" "i \<le> k" "(k - 1) * m < sl" "sl \<le> k * m"
    and "p + k * m \<le> 8 * length data" "dp + k * Suc m \<le> 8 * length dest0" 
    and "length dest = length dest0"
    and "to_bits dest = overwrite dp (parity_blocks par m i (seg p (k * m) (to_bits data))) (to_bits dest0)"
  shows "\<exists>d'. add_parity_loop data p dp sl (Suc m) par (i * m) (i * Suc m) dest = Some (d', k * Suc m)
     \<and> length d' = length dest0
     \<and> to_bits d' = overwrite dp (parity_blocks par m k (seg p (k * m) (to_bits data))) (to_bits dest0)"
  using assms(3,8,9)
proof (induction "k - i" arbitrary: i dest)
  case 0
  then have "i = k" by simp
  with 0 assms(5) show ?case by (simp add: add_parity_loop.simps [of data p dp sl "Suc m"])
next
  case (Suc r)
  then have ik: "i < k" by simp
  let ?B = "seg p (k * m) (to_bits data)"
  have "i * m \<le> (k - 1) * m" using ik by (intro mult_le_mono1) simp
  with assms(4) have lt: "i * m < sl" by (rule le_less_trans [rotated])
  have le: "i * m + m \<le> k * m" "i * Suc m + Suc m \<le> k * Suc m"
    using ik by (metis Suc_leI add.commute mult_Suc mult_le_mono1)+
  have seg: "seg (p + i * m) m (to_bits data) = seg (i * m) m ?B"
    using le assms(6) by (intro nth_equalityI) (auto simp: add.assoc)
  have len: "length (parity_blocks par m i ?B) = i * Suc m"
    using ik assms(6) by (intro length_parity_blocks) simp
  have "\<exists>d'. add_parity_word data (p + i * m) dp par (Suc m) (i * Suc m) dest = Some d' \<and> length d' = length dest
    \<and> to_bits d' = overwrite (dp + i * Suc m) (seg (p + i * m) m (to_bits data) @ [parity_spec par (seg (p + i * m) m (to_bits data))]) (to_bits dest)"
    using le assms Suc.prems by (intro add_parity_word_spec) auto
  then obtain d1 where d1: "add_parity_word data (p + i * m) dp par (Suc m) (i * Suc m) dest = Some d1"
      "length d1 = length dest0"
    and b1: "to_bits d1 = overwrite (dp + i * Suc m) (seg (i * m) m ?B @ [parity_spec par (seg (i * m) m ?B)]) (to_bits dest)"
    using Suc.prems by (auto simp: seg)
  have "to_bits d1 = overwrite dp (parity_blocks par m (Suc i) ?B) (to_bits dest0)"
    unfolding b1 Suc.prems(3) parity_blocks_Suc
    using le assms(6,7) overwrite_append [of dp "parity_blocks par m i ?B" "seg (i * m) m ?B @ [parity_spec par (seg (i * m) m ?B)]" "to_bits dest0"]
    by (simp add: len)
  moreover have "add_parity_loop data p dp sl (Suc m) par (i * m) (i * Suc m) dest
      = add_parity_loop data p dp sl (Suc m) par (Suc i * m) (Suc i * Suc m) d1"
    using lt d1 assms(1) by (subst add_parity_loop.simps) (simp add: ac_simps)
  ultimately show ?case
    using Suc.hyps(1) [of "Suc i" d1] Suc.hyps(2) ik d1 by simp
qed

lemma bit_lib_add_parity_spec:
  assumes "0 < m" "m \<le> 32" "0 < k" "p + k * m \<le> 8 * length data" "dp + k * Suc m \<le> 8 * length dest"
  shows "\<exists>d'. bit_lib_add_parity data p dest dp (k * m) (Suc m) par = Some (d', k * Suc m)
     \<and> length d' = length dest
     \<and> to_bits d' = overwrite dp (parity_blocks par m k (seg p (k * m) (to_bits data))) (to_bits dest)"
proof -
  have "(k - 1) * m < k * m" using assms by simp
  then show ?thesis
    using add_parity_loop_spec [of m 0 k "k * m" p data dp dest dest par] assms
    by (simp add: bit_lib_add_parity_def parity_blocks_def)
qed

subsection \<open>Removing parity bits\<close>

lemma drop_every_nth_append:
  assumes "n dvd length xs"
  shows "drop_every_nth n (xs @ ys) = drop_every_nth n xs @ drop_every_nth n ys"
proof -
  let ?l = "length xs"
  have shift: "(c + ?l + 1) mod n = (c + 1) mod n" for c
  proof -
    from assms obtain k where "?l = n * k" ..
    then have "c + ?l + 1 = c + 1 + n * k" by simp
    then show ?thesis by (simp only: mod_mult_self2)
  qed
  have "[?l..<?l + length ys] = map (\<lambda>i. i + ?l) [0..<length ys]"
    by (simp only: map_add_upt add.commute [of ?l "length ys"])
  then have "map (nth (xs @ ys)) (filter (\<lambda>c. (c + 1) mod n \<noteq> 0) [?l..<?l + length ys]) =
      map (\<lambda>c. (xs @ ys) ! (c + ?l)) (filter (\<lambda>c. (c + ?l + 1) mod n \<noteq> 0) [0..<length ys])"
    by (simp add: filter_map comp_def)
  moreover have nth: "(xs @ ys) ! (c + ?l) = ys ! c" for c by (simp add: nth_append)
  ultimately have "map (nth (xs @ ys)) (filter (\<lambda>c. (c + 1) mod n \<noteq> 0) [?l..<?l + length ys]) =
      map (\<lambda>c. ys ! c) (filter (\<lambda>c. (c + 1) mod n \<noteq> 0) [0..<length ys])"
    by (simp only: shift nth)
  also have "\<dots> = drop_every_nth n ys"
    by (simp add: drop_every_nth_def)
  finally have R: "map (nth (xs @ ys)) (filter (\<lambda>c. (c + 1) mod n \<noteq> 0) [?l..<?l + length ys]) = drop_every_nth n ys" .
  have L: "map (nth (xs @ ys)) (filter (\<lambda>c. (c + 1) mod n \<noteq> 0) [0..<?l]) = drop_every_nth n xs"
    by (auto simp: drop_every_nth_def nth_append)
  have "drop_every_nth n (xs @ ys) = map (nth (xs @ ys)) (filter (\<lambda>c. (c + 1) mod n \<noteq> 0) ([0..<?l] @ [?l..<?l + length ys]))"
    unfolding drop_every_nth_def length_append by (simp only: upt_add_eq_append [of 0 ?l, OF le0])
  then show ?thesis by (simp only: filter_append map_append L R)
qed

lemma drop_every_nth_snoc:
  "drop_every_nth n (bs @ [b]) = drop_every_nth n bs @ (if (length bs + 1) mod n \<noteq> 0 then [b] else [])"
  by (auto simp: drop_every_nth_def nth_append)

lemma drop_every_nth_block: "length blk = m \<Longrightarrow> drop_every_nth (Suc m) (blk @ [b]) = blk"
proof -
  assume len: "length blk = m"
  have "filter (\<lambda>c. (c + 1) mod Suc m \<noteq> 0) [0..<m] = [0..<m]"
    by (simp add: filter_id_conv)
  then have "drop_every_nth (Suc m) blk = blk"
    using len map_nth [of blk] by (simp add: drop_every_nth_def)
  with len show ?thesis by (simp add: drop_every_nth_snoc)
qed

lemma drop_parity_blocks:
  "k * m \<le> length bs \<Longrightarrow> drop_every_nth (Suc m) (parity_blocks par m k bs) = take (k * m) bs"
proof (induction k)
  case 0
  then show ?case by (simp add: parity_blocks_def drop_every_nth_def)
next
  case (Suc k)
  then have "k * m \<le> length bs" "length (seg (k * m) m bs) = m" by simp_all
  then have "drop_every_nth (Suc m) (parity_blocks par m (Suc k) bs) = take (k * m) bs @ seg (k * m) m bs"
    by (simp add: parity_blocks_Suc drop_every_nth_append length_parity_blocks drop_every_nth_block Suc.IH del: mult_Suc_right)
  then show ?case using seg_add [of 0 "k * m" m bs] by (simp add: seg_def add.commute)
qed

lemma length_drop_every_nth: "length (drop_every_nth n bs) \<le> length bs"
  by (simp add: drop_every_nth_def) (metis length_filter_le length_upt minus_nat.diff_0)

lemma bits_of_num_of_bits:
  "length bs \<le> 8 \<Longrightarrow> map (\<lambda>i. bit (num_of_bits bs :: u8) (length bs - Suc i)) [0..<length bs] = bs"
  by (intro nth_equalityI) (auto simp: bit_num_of_bits intro!: arg_cong [where f = "nth bs"])

lemma set_bits_num_of_bits:
  assumes "bs \<noteq> []" "length bs \<le> 8" "p + length bs \<le> 8 * length d"
  shows "\<exists>d'. bit_lib_set_bits d p (num_of_bits bs) (length bs) = Some d' \<and> length d' = length d
    \<and> to_bits d' = overwrite p bs (to_bits d)"
  using bit_lib_set_bits_spec [of "length bs" p d "num_of_bits bs"] assms
  by (simp add: bits_of_num_of_bits)

definition remove_inv :: "nat \<Rightarrow> nat \<Rightarrow> nat \<Rightarrow> u8 list \<Rightarrow> nat \<Rightarrow> u8 list \<times> nat \<times> u8 \<times> nat \<Rightarrow> bool" where
  "remove_inv p len n d0 c st = (case st of (d, rc, buf, bc) \<Rightarrow>
     let K = drop_every_nth n (seg p c (to_bits d0)) in
     length d = length d0 \<and> length K = rc + bc \<and> bc < 8 \<and> buf = num_of_bits (drop rc K)
     \<and> to_bits d = overwrite p (take rc K) (to_bits d0))"

lemma remove_bit_step_inv:
  assumes "p + len \<le> 8 * length d0" "c < len" "remove_inv p len n d0 c st"
  shows "\<exists>st'. remove_bit_step p n c st = Some st' \<and> remove_inv p len n d0 (Suc c) st'"
proof -
  obtain d rc buf bc where st: "st = (d, rc, buf, bc)" by (cases st) auto
  define B where "B = to_bits d0"
  define K where "K = drop_every_nth n (seg p c B)"
  define K' where "K' = drop_every_nth n (seg p (Suc c) B)"
  have lenB: "length B = 8 * length d0" by (simp add: B_def)
  have I: "length d = length d0" "length K = rc + bc" "bc < 8" "buf = num_of_bits (drop rc K)"
      "to_bits d = overwrite p (take rc K) B"
    using assms(3) by (simp_all add: remove_inv_def st K_def B_def Let_def)
  have K': "K' = K @ (if (c + 1) mod n \<noteq> 0 then [B ! (p + c)] else [])"
    using assms(1,2) lenB by (simp add: K'_def K_def seg_Suc drop_every_nth_snoc)
  have "length K \<le> c"
    using length_drop_every_nth [of n "seg p c B"] assms(1,2) lenB by (simp add: K_def)
  then have "to_bits d ! (p + c) = B ! (p + c)"
    using I assms(1,2) lenB by (simp add: nth_overwrite)
  then have read: "bit_lib_get_bit d (p + c) = Some (B ! (p + c))"
    using assms(1,2) I(1) by (simp add: mem_simps)
  show ?thesis
  proof (cases "(c + 1) mod n \<noteq> 0")
    case False
    then have "K' = K" using K' by simp
    then show ?thesis using False I
      by (simp add: remove_bit_step_def st remove_inv_def Let_def K'_def [symmetric] B_def [symmetric])
  next
    case True
    then have K'1: "K' = K @ [B ! (p + c)]" using K' by simp
    then have buf: "push_bit 1 buf OR of_bool (B ! (p + c)) = (num_of_bits (drop rc K') :: u8)"
      using I by (simp add: num_of_bits_snoc)
    show ?thesis
    proof (cases "bc = 7")
      case False
      then show ?thesis using True I K'1 buf read
        by (simp add: remove_bit_step_def st remove_inv_def Let_def K'_def [symmetric] B_def [symmetric])
    next
      case bc: True
      have len: "length (drop rc K') = 8" "rc + 8 = length K'" using I K'1 bc by simp_all
      have "p + rc + 8 \<le> 8 * length d" using len \<open>length K \<le> c\<close> K'1 assms(1,2) I(1) by simp
      then obtain d' where d': "bit_lib_set_bits d (p + rc) (num_of_bits (drop rc K')) 8 = Some d'"
        "length d' = length d" "to_bits d' = overwrite (p + rc) (drop rc K') (to_bits d)"
        using set_bits_num_of_bits [of "drop rc K'" "p + rc" d] len by force
      have "to_bits d' = overwrite p (take rc K @ drop rc K') B"
        using overwrite_append [of p "take rc K" "drop rc K'" B] I len d'(3) lenB
          \<open>p + rc + 8 \<le> 8 * length d\<close> by simp
      moreover have "take rc K @ drop rc K' = K'" using I K'1 by (simp add: append_assoc [symmetric] del: append_assoc)
      ultimately have bits: "to_bits d' = overwrite p K' B" by simp
      show ?thesis using True I(1-3) K'1 buf read bc d'(1,2) len bits
        by (simp add: remove_bit_step_def st remove_inv_def Let_def K'_def [symmetric] B_def [symmetric])
    qed
  qed
qed

lemma remove_inv_init: "remove_inv p len n d 0 (d, 0, 0, 0)"
  by (simp add: remove_inv_def drop_every_nth_def)

lemma remove_bit_loop:
  assumes "p + len \<le> 8 * length d"
  shows "\<exists>st. for_loop (remove_bit_step p n) 0 len (d, 0, 0, 0) = Some st \<and> remove_inv p len n d (0 + len) st"
  using remove_inv_init by (rule for_loop_rule [where P = "remove_inv p len n d"])
    (rule remove_bit_step_inv [OF assms], simp_all)

lemma bit_lib_remove_bit_every_nth_spec:
  assumes "0 < n" "p + len \<le> 8 * length d"
  defines "K \<equiv> drop_every_nth n (seg p len (to_bits d))"
  shows "\<exists>d'. bit_lib_remove_bit_every_nth d p len n = Some (d', length K) \<and> length d' = length d
    \<and> to_bits d' = overwrite p K (to_bits d)"
proof -
  from remove_bit_loop [OF assms(2)] obtain st where
    st: "for_loop (remove_bit_step p n) 0 len (d, 0, 0, 0) = Some st" "remove_inv p len n d (0 + len) st"
    by blast
  obtain d1 rc buf bc where eq: "st = (d1, rc, buf, bc)" by (cases st)
  have run: "for_loop (remove_bit_step p n) 0 len (d, 0, 0, 0) = Some (d1, rc, buf, bc)"
    using st(1) eq by simp
  from st(2) have "remove_inv p len n d len (d1, rc, buf, bc)" unfolding eq by simp
  then have I: "length d1 = length d" "length K = rc + bc" "bc < 8" "buf = num_of_bits (drop rc K)"
      "to_bits d1 = overwrite p (take rc K) (to_bits d)"
    by (simp_all add: remove_inv_def K_def Let_def)
  have K: "length K \<le> len"
    using length_drop_every_nth [of n "seg p len (to_bits d)"] assms(2) by (simp add: K_def)
  show ?thesis
  proof (cases "bc = 0")
    case True
    then show ?thesis using run I assms(1) by (simp add: bit_lib_remove_bit_every_nth_def)
  next
    case False
    have len: "length (drop rc K) = bc" using I by simp
    have "drop rc K \<noteq> []" "length (drop rc K) \<le> 8" "p + rc + length (drop rc K) \<le> 8 * length d1"
      using False I(1-3) K assms(2) by auto
    from set_bits_num_of_bits [OF this] obtain d' where
      d': "bit_lib_set_bits d1 (p + rc) (num_of_bits (drop rc K)) bc = Some d'"
        "length d' = length d1" "to_bits d' = overwrite (p + rc) (drop rc K) (to_bits d1)"
      unfolding len by blast
    have "to_bits d' = overwrite p K (to_bits d)"
      using overwrite_append [of p "take rc K" "drop rc K" "to_bits d"] I len d'(3) K assms(2) by simp
    then show ?thesis using False run I assms(1) d' by (simp add: bit_lib_remove_bit_every_nth_def)
  qed
qed

section \<open>Bitwise CRC steps\<close>

lemma bit_word_times_2: "bit (x * 2 :: 'a::len word) n \<longleftrightarrow> 0 < n \<and> n < LENGTH('a) \<and> bit x (n - 1)"
  using bit_push_bit_iff [of 1 x n] by (auto simp: Suc_le_eq dest: bit_imp_le_length)

lemma bit_reverse_16_fast: "bit (bit_lib_reverse_16_fast x) n \<longleftrightarrow> n < 16 \<and> bit x (15 - n)"
proof (cases "n < 16")
  case True
  then show ?thesis unfolding less_16_cases
    by (elim insertE emptyE) (simp_all add: bit_lib_reverse_16_fast_def bit_or_iff bit_drop_bit_eq bit_push_bit_iff bit_and_iff bit_word_times_2)
next
  case False
  then show ?thesis by (auto dest: bit_imp_le_length)
qed

lemma bit_reverse_8_fast: "bit (bit_lib_reverse_8_fast x) n \<longleftrightarrow> n < 8 \<and> bit x (7 - n)"
proof (cases "n < 8")
  case True
  then show ?thesis unfolding less_8_cases
    by (elim insertE emptyE) (simp_all add: bit_lib_reverse_8_fast_def Let_def bit_or_iff bit_drop_bit_eq bit_push_bit_iff bit_and_iff bit_word_times_2)
next
  case False
  then show ?thesis by (auto dest: bit_imp_le_length)
qed

definition msb_step :: "u16 \<Rightarrow> u16 \<Rightarrow> u16" where
  "msb_step poly x = push_bit 1 x XOR (if bit x 15 then poly else 0)"

definition lsb_step :: "u16 \<Rightarrow> u16 \<Rightarrow> u16" where
  "lsb_step poly x = drop_bit 1 x XOR (if bit x 0 then poly else 0)"

lemma crc16_bit_msb:
  assumes "j < 8"
  shows "crc16_bit poly byte j crc XOR push_bit (8 + Suc j) (ucast byte) = msb_step poly (crc XOR push_bit (8 + j) (ucast byte))"
proof -
  have b: "bit (push_bit (8 + j) (ucast byte) :: u16) 15 \<longleftrightarrow> bit byte (7 - j)"
  proof -
    have "15 - (8 + j) = 7 - j" "7 - j < 8" "8 + j \<le> 15" using assms by simp_all
    then show ?thesis by (simp only: bit_push_bit_iff bit_ucast_iff) simp
  qed
  have p: "push_bit 1 (crc XOR push_bit (8 + j) (ucast byte)) = push_bit 1 crc XOR (push_bit (8 + Suc j) (ucast byte) :: u16)"
    by (rule bit_word_eqI) (auto simp: bit_simps)
  show ?thesis
    unfolding msb_step_def p bit_xor_iff b crc16_bit_def Let_def and_1_eq_bit
    by (simp only: split: if_split) (auto simp: ac_simps)
qed

lemma crc16_bits_msb:
  "fold (crc16_bit poly byte) [0..<8] crc = (msb_step poly ^^ 8) (crc XOR push_bit 8 (ucast byte))"
proof -
  have "fold (crc16_bit poly byte) [0..<j] crc XOR push_bit (8 + j) (ucast byte) = (msb_step poly ^^ j) (crc XOR push_bit 8 (ucast byte))"
    if "j \<le> 8" for j using that
  proof (induction j)
    case (Suc j)
    then show ?case using crc16_bit_msb [of j poly byte "fold (crc16_bit poly byte) [0..<j] crc"] by simp
  qed simp
  from this [of 8] have "fold (crc16_bit poly byte) [0..<8] crc XOR push_bit 16 (ucast byte) = (msb_step poly ^^ 8) (crc XOR push_bit 8 (ucast byte))"
    by simp
  moreover have "push_bit 16 (ucast byte) = (0 :: u16)" by (rule bit_word_eqI) (auto simp: bit_simps dest: bit_imp_le_length)
  ultimately show ?thesis by simp
qed

lemma bit_msb_step: "bit (msb_step poly x) n \<longleftrightarrow> (0 < n \<and> n < 16 \<and> bit x (n - 1)) \<noteq> (bit x 15 \<and> bit poly n)"
  by (auto simp: msb_step_def bit_xor_iff bit_push_bit_iff Suc_le_eq simp del: push_bit_of_1 push_bit_Suc dest: bit_imp_le_length)

lemma bit_lsb_step: "bit (lsb_step poly x) n \<longleftrightarrow> bit x (n + 1) \<noteq> (bit x 0 \<and> bit poly n)"
  by (auto simp: lsb_step_def bit_xor_iff bit_drop_bit_eq add.commute)

text \<open>Reading the register backwards turns one kind of step into the other.\<close>

lemma reverse_msb_step:
  "bit_lib_reverse_16_fast (msb_step poly x) = lsb_step (bit_lib_reverse_16_fast poly) (bit_lib_reverse_16_fast x)"
proof (rule bit_word_eqI)
  fix n assume n: "n < LENGTH(16)"
  then have "0 < 15 - n \<and> 15 - n < 16 \<and> bit x (15 - n - 1) \<longleftrightarrow> n + 1 < 16 \<and> bit x (15 - (n + 1))" by auto
  then show "bit (bit_lib_reverse_16_fast (msb_step poly x)) n =
      bit (lsb_step (bit_lib_reverse_16_fast poly) (bit_lib_reverse_16_fast x)) n"
    using n unfolding bit_reverse_16_fast bit_msb_step bit_lsb_step by auto
qed

lemma reverse_msb_steps:
  "bit_lib_reverse_16_fast ((msb_step poly ^^ n) x) = (lsb_step (bit_lib_reverse_16_fast poly) ^^ n) (bit_lib_reverse_16_fast x)"
  by (induction n) (simp_all add: reverse_msb_step)

lemma reverse_16_xor: "bit_lib_reverse_16_fast (x XOR y) = bit_lib_reverse_16_fast x XOR bit_lib_reverse_16_fast y"
  by (rule bit_word_eqI) (auto simp: bit_reverse_16_fast bit_xor_iff)

lemma reverse_16_reverse_16 [simp]: "bit_lib_reverse_16_fast (bit_lib_reverse_16_fast x) = x"
  by (rule bit_word_eqI) (auto simp: bit_reverse_16_fast)

text \<open>The value \<open>bit_lib_crc16\<close> computes, as a fold over the bytes.\<close>

definition crc16_fold :: "u16 \<Rightarrow> bool \<Rightarrow> u8 list \<Rightarrow> u16 \<Rightarrow> u16" where
  "crc16_fold poly ref bs crc = fold (\<lambda>b crc. (msb_step poly ^^ 8)
     (crc XOR push_bit 8 (ucast (if ref then bit_lib_reverse_8_fast b else b)))) bs crc"

lemma reverse_16_byte: "ucast (drop_bit 8 (bit_lib_reverse_16_fast (ucast b))) = bit_lib_reverse_8_fast b"
  by (rule bit_word_eqI) (auto simp: bit_reverse_8_fast bit_reverse_16_fast bit_ucast_iff bit_drop_bit_eq)

lemma for_loop_bytes:
  assumes "n \<le> length d"
  shows "for_loop (\<lambda>i s. do { b \<leftarrow> rd d i; Some (f b s) }) 0 n s = Some (fold f (take n d) s)"
proof -
  have "for_loop (\<lambda>i s. do { b \<leftarrow> rd d i; Some (f b s) }) 0 n s = Some (fold (\<lambda>i. f (d ! i)) [0..<0 + n] s)"
    by (rule for_loop_fold) (use assms in \<open>simp add: mem_simps\<close>)
  moreover have "take n d = map ((!) d) [0..<n]" using assms by (metis map_nth take_map take_upt add_0 nth_equalityI length_map min_def)
  ultimately show ?thesis by (simp add: fold_map comp_def)
qed

lemma bit_lib_crc16_fold:
  assumes "n \<le> length d"
  shows "bit_lib_crc16 d n poly init ref_in ref_out xor_out =
    Some ((if ref_out then bit_lib_reverse_16_fast else id) (crc16_fold poly ref_in (take n d) init) XOR xor_out)"
proof -
  have "for_loop (\<lambda>i crc. do {
         b \<leftarrow> rd d i;
         let byte = (if ref_in then ucast (drop_bit 8 (bit_lib_reverse_16_fast (ucast b))) else b);
         Some (fold (crc16_bit poly byte) [0..<8] crc) }) 0 n init = Some (crc16_fold poly ref_in (take n d) init)"
    using for_loop_bytes [OF assms, of "\<lambda>b crc. (msb_step poly ^^ 8)
     (crc XOR push_bit 8 (ucast (if ref_in then bit_lib_reverse_8_fast b else b)))" init]
    unfolding Let_def reverse_16_byte crc16_bits_msb crc16_fold_def .
  then show ?thesis by (simp add: bit_lib_crc16_def)
qed

text \<open>With reflected input and output it is the least significant bit first CRC.\<close>

lemma push_8_reverse_8: "bit_lib_reverse_16_fast (push_bit 8 (ucast (bit_lib_reverse_8_fast b))) = ucast b"
proof (rule bit_word_eqI)
  fix n assume "n < LENGTH(16)"
  then show "bit (bit_lib_reverse_16_fast (push_bit 8 (ucast (bit_lib_reverse_8_fast b)))) n = bit (ucast b :: u16) n"
    using bit_imp_le_length [of b n]
    by (cases "n < 8") (auto simp: bit_reverse_8_fast bit_reverse_16_fast bit_ucast_iff bit_push_bit_iff)
qed

lemma crc16_fold_reflected:
  "bit_lib_reverse_16_fast (crc16_fold poly True bs crc) =
    fold (\<lambda>b crc. (lsb_step (bit_lib_reverse_16_fast poly) ^^ 8) (crc XOR ucast b)) bs (bit_lib_reverse_16_fast crc)"
  by (induction bs arbitrary: crc)
    (simp_all add: crc16_fold_def reverse_msb_steps reverse_16_xor push_8_reverse_8)

section \<open>Bytes of numbers\<close>

lemma num_to_bytes_be_loop_spec:
  "len \<le> length dest \<Longrightarrow> num_to_bytes_be_loop src len dest = Some (rev (le_bytes len src) @ drop len dest)"
proof (induction len arbitrary: src dest)
  case (Suc len)
  have "num_to_bytes_be_loop (drop_bit 8 src) len (dest[len := ucast src])
      = Some (rev (le_bytes len (drop_bit 8 src)) @ drop len (dest[len := ucast src]))"
    using Suc.prems by (intro Suc.IH) simp
  moreover have "drop len (dest[len := ucast src]) = ucast src # drop (Suc len) dest"
    using Suc.prems by (subst Cons_nth_drop_Suc [symmetric]) simp_all
  ultimately show ?case using Suc.prems by (simp add: mem_simps le_bytes_Suc)
qed (simp add: le_bytes_def)

lemma num_to_bytes_le_loop:
  assumes "len \<le> length dest"
  shows "for_loop (\<lambda>i d. wr d i (ucast (drop_bit (8 * i) src))) 0 len dest = Some (le_bytes len src @ drop len dest)"
proof -
  have "\<exists>d. for_loop (\<lambda>i d. wr d i (ucast (drop_bit (8 * i) src))) 0 len dest = Some d
    \<and> d = le_bytes (0 + len) src @ drop (0 + len) dest"
  proof (rule for_loop_rule)
    fix j and d :: "u8 list"
    assume j: "j < 0 + len" and d: "d = le_bytes j src @ drop j dest"
    have "drop j dest = dest ! j # drop (Suc j) dest" using j assms by (simp add: Cons_nth_drop_Suc)
    then have "d[j := ucast (drop_bit (8 * j) src)] = le_bytes (Suc j) src @ drop (Suc j) dest"
      by (simp add: d list_update_append) (simp add: le_bytes_def)
    then show "\<exists>s'. wr d j (ucast (drop_bit (8 * j) src)) = Some s' \<and> s' = le_bytes (Suc j) src @ drop (Suc j) dest"
      using j assms d by (simp add: mem_simps)
  qed (simp add: le_bytes_def)
  then show ?thesis by simp
qed

lemma of_le_bytes_foldr: "of_le_bytes bs = foldr (\<lambda>b acc. push_bit 8 acc OR ucast b) bs 0"
  by (simp add: of_le_bytes_def or.commute)

lemma of_le_bytes_snoc: "of_le_bytes (bs @ [b]) = (of_le_bytes bs OR push_bit (8 * length bs) (ucast b) :: 'a::len word)"
proof (induction bs)
  case (Cons a bs)
  then show ?case by (simp add: of_le_bytes_Cons push_bit_or or.assoc)
qed (simp add: of_le_bytes_def)

lemma bytes_to_num_be_spec: "n \<le> 8 \<Longrightarrow> n \<le> length d \<Longrightarrow> bit_lib_bytes_to_num_be d n = Some (of_le_bytes (rev (take n d)))"
  by (simp add: bit_lib_bytes_to_num_be_def for_loop_bytes of_le_bytes_foldr foldr_conv_fold)

lemma bytes_to_num_le_spec:
  assumes "n \<le> 8" "n \<le> length d"
  shows "bit_lib_bytes_to_num_le d n = Some (of_le_bytes (take n d))"
proof -
  have "\<exists>r. for_loop (\<lambda>i res. do { b \<leftarrow> rd d i; Some (res OR push_bit (8 * i) (ucast b)) }) 0 n 0 = Some r
    \<and> r = (of_le_bytes (take (0 + n) d) :: u64)"
  proof (rule for_loop_rule)
    fix j and s :: u64 assume j: "j < 0 + n" and "s = of_le_bytes (take j d)"
    then show "\<exists>s'. rd d j \<bind> (\<lambda>b. Some (s OR push_bit (8 * j) (ucast b))) = Some s' \<and> s' = of_le_bytes (take (Suc j) d)"
      using assms by (simp add: mem_simps take_Suc_conv_app_nth of_le_bytes_snoc min_def)
  qed (simp add: of_le_bytes_def)
  then show ?thesis using assms(1) by (simp add: bit_lib_bytes_to_num_le_def)
qed

text \<open>The decimal value of a byte list, two digits per byte.\<close>

definition bcd_value :: "u8 list \<Rightarrow> nat" where
  "bcd_value bs = fold (\<lambda>b v. (v * 10 + unat b div 16) * 10 + unat b mod 16) bs 0"

definition is_bcd_byte :: "u8 \<Rightarrow> bool" where
  "is_bcd_byte b \<longleftrightarrow> unat b div 16 \<le> 9 \<and> unat b mod 16 \<le> 9"

lemma bcd_value_snoc: "bcd_value (bs @ [b]) = (bcd_value bs * 10 + unat b div 16) * 10 + unat b mod 16"
  by (simp add: bcd_value_def)

lemma bcd_value_bound: "list_all is_bcd_byte bs \<Longrightarrow> bcd_value bs < 100 ^ length bs"
proof (induction bs rule: rev_induct)
  case (snoc b bs)
  then have "unat b div 16 \<le> 9" "unat b mod 16 \<le> 9" and "bcd_value bs < 100 ^ length bs"
    by (simp_all add: is_bcd_byte_def)
  moreover define p where "p = (100 :: nat) ^ length bs"
  ultimately have "bcd_value (bs @ [b]) < 100 * p" by (simp add: bcd_value_snoc)
  then show ?case by (simp add: p_def)
qed (simp add: bcd_value_def)

lemma bytes_to_num_bcd_spec:
  assumes "n \<le> 9" "n \<le> length d"
  shows "bit_lib_bytes_to_num_bcd d n = Some (of_nat (bcd_value (take n d)), list_all is_bcd_byte (take n d))"
proof -
  have u: "unat (b div 16) = unat b div 16" "unat (b mod 16) = unat b mod 16" for b :: u8
    by (simp_all add: unat_div unat_mod)
  have nib: "ucast (b div 16) = (of_nat (unat b div 16) :: u64)" "ucast (b mod 16) = (of_nat (unat b mod 16) :: u64)" for b :: u8
    by (simp_all flip: u)
  have gt: "b div 16 > 9 \<longleftrightarrow> unat b div 16 > 9" "b mod 16 > 9 \<longleftrightarrow> unat b mod 16 > 9" for b :: u8
    by (simp_all add: word_less_nat_alt u)
  have step: "(of_nat v * 10 + of_nat h) * 10 + of_nat l = (of_nat ((v * 10 + h) * 10 + l) :: u64)" for v h l by simp
  define f where "f = (\<lambda>i (res :: u64, is_bcd). do {
        b \<leftarrow> rd d i;
        let nibble_1 = b div 16;
        let nibble_2 = b mod 16;
        let is_bcd = (if nibble_1 > 9 \<or> nibble_2 > 9 then False else is_bcd);
        Some ((res * 10 + ucast nibble_1) * 10 + ucast nibble_2, is_bcd) })"
  define P where "P = (\<lambda>i r. r = (of_nat (bcd_value (take i d)) :: u64, list_all is_bcd_byte (take i d)))"
  have "\<exists>r. for_loop f 0 n (0, True) = Some r \<and> P (0 + n) r"
  proof (rule for_loop_rule [where P = P])
    fix j and s :: "u64 \<times> bool"
    assume j: "j < 0 + n" and "P j s"
    then have s: "s = (of_nat (bcd_value (take j d)), list_all is_bcd_byte (take j d))" by (simp add: P_def)
    have t: "take (Suc j) d = take j d @ [d ! j]" using j assms by (simp add: take_Suc_conv_app_nth)
    have rd: "rd d j = Some (d ! j)" using j assms by (simp add: mem_simps)
    show "\<exists>s'. f j s = Some s' \<and> P (Suc j) s'"
      unfolding f_def P_def s prod.case rd bind.bind_lunit Let_def nib gt step t bcd_value_snoc
      by (auto simp: is_bcd_byte_def)
  qed (simp add: P_def bcd_value_def)
  then show ?thesis using assms(1) unfolding bit_lib_bytes_to_num_bcd_def f_def [symmetric] by (simp add: P_def)
qed

section \<open>Bytes read backwards, and the 8-bit CRC\<close>

lemma reverse_byte_fast: "reverse_byte b = Some (bit_lib_reverse_8_fast b)"
proof -
  obtain r where r: "bit_lib_reverse_bits [b] 0 8 = Some r" "length r = 1"
      "to_bits r = overwrite 0 (rev (seg 0 8 (to_bits [b]))) (to_bits [b])"
    using bit_lib_reverse_bits_spec [of 8 0 "[b]"] by auto
  have "r ! 0 = bit_lib_reverse_8_fast b"
  proof (rule bit_word_eqI)
    fix n assume n: "n < LENGTH(8)"
    have "bit (r ! 0) n = to_bits r ! (7 - n)" using n r(2) by (simp add: nth_to_bits bit_at_def)
    also have "\<dots> = to_bits [b] ! n" unfolding r(3) using n by (auto simp: nth_overwrite rev_nth)
    also have "\<dots> = bit b (7 - n)" using n by (simp add: nth_to_bits bit_at_def)
    finally show "bit (r ! 0) n = bit (bit_lib_reverse_8_fast b) n" using n by (simp add: bit_reverse_8_fast)
  qed
  with r show ?thesis by (simp add: reverse_byte_def mem_simps)
qed

definition msb_step8 :: "u8 \<Rightarrow> u8 \<Rightarrow> u8" where
  "msb_step8 poly x = push_bit 1 x XOR (if bit x 7 then poly else 0)"

definition lsb_step8 :: "u8 \<Rightarrow> u8 \<Rightarrow> u8" where
  "lsb_step8 poly x = drop_bit 1 x XOR (if bit x 0 then poly else 0)"

lemma crc8_bit_step: "crc8_bit poly = msb_step8 poly"
proof
  fix x :: u8
  have "x AND 2 ^ 7 = 0 \<longleftrightarrow> \<not> bit x 7" by (rule and_exp_eq_0_iff_not_bit)
  moreover have "push_bit (8 - 1) 1 = (2 ^ 7 :: u8)" by simp
  ultimately show "crc8_bit poly x = msb_step8 poly x"
    unfolding msb_step8_def crc8_bit_def by (simp only: split: if_split) simp
qed

lemma reverse_msb_step8:
  "bit_lib_reverse_8_fast (msb_step8 poly x) = lsb_step8 (bit_lib_reverse_8_fast poly) (bit_lib_reverse_8_fast x)"
proof (rule bit_word_eqI)
  fix n assume n: "n < LENGTH(8)"
  have m: "bit (msb_step8 poly x) k \<longleftrightarrow> (0 < k \<and> k < 8 \<and> bit x (k - 1)) \<noteq> (bit x 7 \<and> bit poly k)" for k
    by (auto simp: msb_step8_def bit_xor_iff bit_push_bit_iff Suc_le_eq simp del: push_bit_of_1 push_bit_Suc dest: bit_imp_le_length)
  have l: "bit (lsb_step8 p y) k \<longleftrightarrow> bit y (k + 1) \<noteq> (bit y 0 \<and> bit p k)" for p y k
    by (auto simp: lsb_step8_def bit_xor_iff bit_drop_bit_eq add.commute)
  from n have "0 < 7 - n \<and> 7 - n < 8 \<and> bit x (7 - n - 1) \<longleftrightarrow> n + 1 < 8 \<and> bit x (7 - (n + 1))" by auto
  then show "bit (bit_lib_reverse_8_fast (msb_step8 poly x)) n =
      bit (lsb_step8 (bit_lib_reverse_8_fast poly) (bit_lib_reverse_8_fast x)) n"
    using n unfolding bit_reverse_8_fast m l by auto
qed

lemma reverse_msb_steps8:
  "bit_lib_reverse_8_fast ((msb_step8 poly ^^ n) x) = (lsb_step8 (bit_lib_reverse_8_fast poly) ^^ n) (bit_lib_reverse_8_fast x)"
  by (induction n) (simp_all add: reverse_msb_step8)

lemma reverse_8_xor: "bit_lib_reverse_8_fast (x XOR y) = bit_lib_reverse_8_fast x XOR bit_lib_reverse_8_fast y"
  by (rule bit_word_eqI) (auto simp: bit_reverse_8_fast bit_xor_iff)

lemma reverse_8_reverse_8 [simp]: "bit_lib_reverse_8_fast (bit_lib_reverse_8_fast x) = x"
  by (rule bit_word_eqI) (auto simp: bit_reverse_8_fast)

lemma bit_lib_crc8_reflected:
  assumes "n \<le> length d"
  shows "bit_lib_crc8 d n poly init True True xor_out =
    Some (ucast (fold (\<lambda>b crc. (lsb_step8 (bit_lib_reverse_8_fast poly) ^^ 8) (crc XOR b)) (take n d)
      (bit_lib_reverse_8_fast init) XOR xor_out))"
proof -
  define f where "f = (\<lambda>b crc. (msb_step8 poly ^^ 8) (crc XOR bit_lib_reverse_8_fast b))"
  have "for_loop (\<lambda>i crc. do { b \<leftarrow> rd d i; byte \<leftarrow> (if True then reverse_byte b else Some b);
      Some ((crc8_bit poly ^^ 8) (crc XOR byte)) }) 0 n init = Some (fold f (take n d) init)"
    using for_loop_bytes [OF assms, of f init] by (simp add: reverse_byte_fast crc8_bit_step f_def)
  moreover have "bit_lib_reverse_8_fast (fold f bs crc) =
      fold (\<lambda>b crc. (lsb_step8 (bit_lib_reverse_8_fast poly) ^^ 8) (crc XOR b)) bs (bit_lib_reverse_8_fast crc)" for bs crc
    by (induction bs arbitrary: crc) (simp_all add: f_def reverse_msb_steps8 reverse_8_xor)
  ultimately show ?thesis by (simp add: bit_lib_crc8_def reverse_byte_fast)
qed

section \<open>Properties\<close>

text \<open>C1: whatever the alignment of a bit field, the four routines that read it agree with the
  specification "the number written by these bits of the array, most significant first", each up to
  its own width. A field is readable when its bits, and the byte after an unaligned chunk, exist.\<close>

theorem get_bits_field:
  assumes "bits_readable d p n"
  shows "(n \<le> 8 \<longrightarrow> bit_lib_get_bits d p n = Some (num_of_bits (seg p n (to_bits d))))
    \<and> (n \<le> 16 \<longrightarrow> bit_lib_get_bits_16 d p n = Some (num_of_bits (seg p n (to_bits d))))
    \<and> (n \<le> 32 \<longrightarrow> bit_lib_get_bits_32 d p n = Some (num_of_bits (seg p n (to_bits d))))
    \<and> (n \<le> 64 \<longrightarrow> bit_lib_get_bits_64 d p n = Some (num_of_bits (seg p n (to_bits d))))"
  using assms by (simp add: bit_lib_get_bits_spec bit_lib_get_bits_16_spec bit_lib_get_bits_32_spec bit_lib_get_bits_64_spec)

theorem get_bits_field_witness:
  "bit_lib_get_bits_16 [0x12, 0x34, 0x56] 4 12 = Some (num_of_bits (seg 4 12 (to_bits [0x12, 0x34, 0x56])))"
proof -
  have "bits_readable [0x12, 0x34, 0x56] 4 12" by (simp add: bits_readable_def)
  from get_bits_field [OF this] show ?thesis by simp
qed

text \<open>\<open>bit_lib_get_bits\<close> looks at the byte after the one that holds the field even when the
  field ends inside it, so a field in the last byte that starts at an unaligned bit cannot be read:
  the access is out of bounds.\<close>

theorem get_bits_past_end:
  assumes "p mod 8 \<noteq> 0" "p div 8 + 1 = length d" "p + n \<le> 8 * length d"
  shows "bit_lib_get_bits d p n = None"
proof -
  have "p div 8 < length d" "length d \<le> p div 8 + 1" using assms(2) by simp_all
  then show ?thesis using assms(1) by (simp add: bit_lib_get_bits_def mem_simps)
qed

theorem get_bits_past_end_witness: "bit_lib_get_bits [0x12, 0x34] 12 4 = None"
  using get_bits_past_end [of 12 "[0x12, 0x34]" 4] by simp

text \<open>C2: adding a parity bit after every block of \<open>m\<close> bits and then dropping every
  \<open>(m + 1)\<close>-th bit gives the data back, whatever the parity rule; both routines succeed and report
  the number of bits they wrote.\<close>

theorem parity_round_trip:
  assumes "0 < m" "m \<le> 32" "0 < k" "k * Suc m < 256"
    and "p + k * m \<le> 8 * length data" "dp + k * Suc m \<le> 8 * length dest"
  shows "\<exists>d' d''. bit_lib_add_parity data p dest dp (k * m) (Suc m) par = Some (d', k * Suc m)
    \<and> bit_lib_remove_bit_every_nth d' dp (k * Suc m) (Suc m) = Some (d'', k * m)
    \<and> seg dp (k * m) (to_bits d'') = seg p (k * m) (to_bits data)"
proof -
  define src where "src = seg p (k * m) (to_bits data)"
  define blk where "blk = parity_blocks par m k src"
  have split: "k * Suc m = k + k * m" by simp
  have src: "length src = k * m" using assms(5) unfolding src_def by (intro length_seg) simp
  then have blk: "length blk = k * Suc m" unfolding blk_def by (intro length_parity_blocks) simp
  obtain d' where d': "bit_lib_add_parity data p dest dp (k * m) (Suc m) par = Some (d', k * Suc m)"
      "length d' = length dest" "to_bits d' = overwrite dp blk (to_bits dest)"
    using bit_lib_add_parity_spec [OF assms(1-3,5,6), of par] unfolding src_def [symmetric] blk_def [symmetric]
    by (elim exE conjE)
  have "seg dp (length blk) (to_bits d') = blk"
    unfolding d'(3) by (rule seg_overwrite) (use assms(6) blk in simp)
  then have K: "drop_every_nth (Suc m) (seg dp (k * Suc m) (to_bits d')) = src"
    using drop_parity_blocks [of k m src par] src unfolding blk blk_def [symmetric] by simp
  have le: "0 < Suc m" "dp + k * Suc m \<le> 8 * length d'" using assms(6) d'(2) by simp_all
  obtain d'' where d'': "bit_lib_remove_bit_every_nth d' dp (k * Suc m) (Suc m) = Some (d'', k * m)"
      "to_bits d'' = overwrite dp src (to_bits d')"
    using bit_lib_remove_bit_every_nth_spec [OF le] unfolding K src by (elim exE conjE)
  have "dp + length src \<le> length (to_bits d')" using le(2) unfolding src split by simp
  then have "seg dp (length src) (to_bits d'') = src" unfolding d''(2) by (rule seg_overwrite)
  then show ?thesis using d'(1) d''(1) unfolding src src_def [symmetric] by (intro exI conjI)
qed

theorem parity_round_trip_witness:
  "\<exists>d' d''. bit_lib_add_parity [0xA5, 0x5A] 0 [0, 0, 0] 0 (2 * 8) (Suc 8) BitLibParityOdd = Some (d', 2 * Suc 8)
    \<and> bit_lib_remove_bit_every_nth d' 0 (2 * Suc 8) (Suc 8) = Some (d'', 2 * 8)
    \<and> seg 0 (2 * 8) (to_bits d'') = seg 0 (2 * 8) (to_bits [0xA5, 0x5A])"
  by (rule parity_round_trip) simp_all

text \<open>C7: the two table-free reversals agree with the generic in-place one on their width.\<close>

theorem reverse_fast_generic:
  "bit_lib_reverse_bits [b] 0 8 = Some [bit_lib_reverse_8_fast b]
   \<and> bit_lib_reverse_bits [ucast (drop_bit 8 w), ucast w] 0 16
     = Some [ucast (drop_bit 8 (bit_lib_reverse_16_fast w)), ucast (bit_lib_reverse_16_fast w)]"
proof (intro conjI)
  obtain r where r: "bit_lib_reverse_bits [b] 0 8 = Some r" "length r = 1"
    using bit_lib_reverse_bits_spec [of 8 0 "[b]"] by auto
  then have "r = [bit_lib_reverse_8_fast b]"
    using reverse_byte_fast [of b] by (cases r) (auto simp: reverse_byte_def mem_simps)
  with r show "bit_lib_reverse_bits [b] 0 8 = Some [bit_lib_reverse_8_fast b]" by simp
next
  let ?d = "[ucast (drop_bit 8 w), ucast w] :: u8 list"
  let ?e = "[ucast (drop_bit 8 (bit_lib_reverse_16_fast w)), ucast (bit_lib_reverse_16_fast w)] :: u8 list"
  obtain r where r: "bit_lib_reverse_bits ?d 0 16 = Some r" "length r = 2"
      "to_bits r = overwrite 0 (rev (seg 0 16 (to_bits ?d))) (to_bits ?d)"
    using bit_lib_reverse_bits_spec [of 16 0 ?d] by auto
  have word: "bit_at [ucast (drop_bit 8 x), ucast x] q \<longleftrightarrow> bit x (15 - q)" if "q < 16" for x :: u16 and q
  proof (cases "q < 8")
    case True
    then show ?thesis by (auto simp: bit_at_def bit_ucast_iff bit_drop_bit_eq)
  next
    case False
    define j where "j = q - 8"
    with False that have "q = 8 + j" "j < 8" by simp_all
    then show ?thesis by (auto simp: bit_at_def bit_ucast_iff)
  qed
  have "to_bits r = to_bits ?e"
  proof (rule nth_equalityI)
    show "length (to_bits r) = length (to_bits ?e)" using r(2) by simp
    fix q assume "q < length (to_bits r)"
    then have q: "q < 16" using r(2) by simp
    then have "to_bits r ! q = to_bits ?d ! (15 - q)" unfolding r(3) by (auto simp: nth_overwrite rev_nth)
    also have "\<dots> = bit w q" using q by (auto simp: nth_to_bits word)
    also have "\<dots> = to_bits ?e ! q" using q by (auto simp: nth_to_bits word bit_reverse_16_fast)
    finally show "to_bits r ! q = to_bits ?e ! q" .
  qed
  then have "r = ?e" by (rule to_bits_inj)
  with r show "bit_lib_reverse_bits ?d 0 16 = Some ?e" by simp
qed

text \<open>A number stored big-endian or little-endian in up to eight bytes is read back modulo its
  width, and the bytes behind it are untouched.\<close>

theorem num_bytes_round_trip:
  assumes "len \<le> 8" "len \<le> length dest"
  shows "\<exists>be le. bit_lib_num_to_bytes_be src len dest = Some be \<and> bit_lib_num_to_bytes_le src len dest = Some le
    \<and> bit_lib_bytes_to_num_be be len = Some (take_bit (8 * len) src)
    \<and> bit_lib_bytes_to_num_le le len = Some (take_bit (8 * len) src)
    \<and> take len be = rev (take len le) \<and> drop len be = drop len dest \<and> drop len le = drop len dest"
  using assms
  by (simp add: bit_lib_num_to_bytes_be_def bit_lib_num_to_bytes_le_def num_to_bytes_be_loop_spec
      num_to_bytes_le_loop bytes_to_num_be_spec bytes_to_num_le_spec of_le_bytes_le_bytes)

theorem num_bytes_round_trip_witness:
  "\<exists>be le. bit_lib_num_to_bytes_be 0x123456 3 [0, 0, 0, 9] = Some be \<and> bit_lib_num_to_bytes_le 0x123456 3 [0, 0, 0, 9] = Some le
    \<and> bit_lib_bytes_to_num_be be 3 = Some (take_bit (8 * 3) 0x123456)
    \<and> bit_lib_bytes_to_num_le le 3 = Some (take_bit (8 * 3) 0x123456)
    \<and> take 3 be = rev (take 3 le) \<and> drop 3 be = drop 3 [0, 0, 0, 9] \<and> drop 3 le = drop 3 [0, 0, 0, 9]"
  by (rule num_bytes_round_trip) simp_all

text \<open>Reading up to nine bytes as packed decimal reports whether every nibble is a digit, and
  then gives the decimal value without overflow.\<close>

theorem bcd_number:
  assumes "n \<le> 9" "n \<le> length d"
  shows "\<exists>v. bit_lib_bytes_to_num_bcd d n = Some (v, list_all is_bcd_byte (take n d))
    \<and> (list_all is_bcd_byte (take n d) \<longrightarrow> unat v = bcd_value (take n d))"
proof -
  have "bcd_value (take n d) < 2 ^ 64" if "list_all is_bcd_byte (take n d)"
  proof -
    have "bcd_value (take n d) < 100 ^ n" using bcd_value_bound [OF that] assms(2) by simp
    also have "(100 :: nat) ^ n \<le> 100 ^ 9" by (rule power_increasing [OF assms(1)]) simp
    also have "(100 :: nat) ^ 9 \<le> 2 ^ 64" by simp
    finally show ?thesis .
  qed
  then show ?thesis by (simp add: bytes_to_num_bcd_spec [OF assms] unat_of_nat)
qed

theorem bcd_number_witness:
  "\<exists>v. bit_lib_bytes_to_num_bcd [0x12, 0x34] 2 = Some (v, True) \<and> unat v = 1234"
  using bcd_number [of 2 "[0x12, 0x34]"] by (simp add: is_bcd_byte_def bcd_value_def)

end
