(* ===== verification/BitBuffer.thy ===== *)
theory BitBuffer
  imports Prelude
begin

text \<open>
  The bit buffer, \<open>lib/toolbox/bit_buffer.c\<close>: the frame buffer of the NFC stack, a byte array with a
  length in bits and one parity bit per byte. The record \<open>BitBuffer\<close> is the C structure; each
  operation returns the updated buffer, or \<open>None\<close> where the C code asserts or leaves the array.
  The last part states the interface that the CRC codecs use as the locale \<open>byte_buffer\<close> and
  interprets it on these operations.
\<close>

section \<open>State and operations\<close>

record BitBuffer =
  bb_data :: "u8 list"
  bb_parity :: "u8 list"
  bb_capacity_bytes :: nat
  bb_size_bits :: nat

definition bit_buffer_get_size_bytes :: "BitBuffer \<Rightarrow> nat" where
  "bit_buffer_get_size_bytes buf =
     bb_size_bits buf div 8 + (if bb_size_bits buf mod 8 \<noteq> 0 then 1 else 0)"

definition bit_buffer_get_capacity_bytes :: "BitBuffer \<Rightarrow> nat" where
  "bit_buffer_get_capacity_bytes buf = bb_capacity_bytes buf"

definition bit_buffer_get_size :: "BitBuffer \<Rightarrow> nat" where
  "bit_buffer_get_size buf = bb_size_bits buf"

definition bit_buffer_get_data :: "BitBuffer \<Rightarrow> u8 list" where
  "bit_buffer_get_data buf = bb_data buf"

definition bit_buffer_get_parity :: "BitBuffer \<Rightarrow> u8 list" where
  "bit_buffer_get_parity buf = bb_parity buf"

text \<open>The firmware's \<open>malloc\<close> clears the memory it returns.\<close>

definition bit_buffer_alloc :: "nat \<Rightarrow> BitBuffer option" where
  "bit_buffer_alloc capacity_bytes = do {
     furi_assert (capacity_bytes \<noteq> 0);
     Some \<lparr>bb_data = replicate capacity_bytes 0,
           bb_parity = replicate ((capacity_bytes + 8 - 1) div 8) 0,
           bb_capacity_bytes = capacity_bytes, bb_size_bits = 0\<rparr> }"

definition bit_buffer_reset :: "BitBuffer \<Rightarrow> BitBuffer" where
  "bit_buffer_reset buf = buf\<lparr>bb_data := replicate (bb_capacity_bytes buf) 0,
     bb_parity := replicate ((bb_capacity_bytes buf + 8 - 1) div 8) 0, bb_size_bits := 0\<rparr>"

text \<open>A call with the same object twice returns at once, which is what copying it onto itself does.\<close>

definition bit_buffer_copy :: "BitBuffer \<Rightarrow> BitBuffer \<Rightarrow> BitBuffer option" where
  "bit_buffer_copy buf other = do {
     furi_assert (bb_capacity_bytes buf * 8 \<ge> bb_size_bits other);
     d \<leftarrow> memcpy (bb_data buf) 0 (bb_data other) 0 (bit_buffer_get_size_bytes other);
     Some (buf\<lparr>bb_data := d, bb_size_bits := bb_size_bits other\<rparr>) }"

definition bit_buffer_copy_right :: "BitBuffer \<Rightarrow> BitBuffer \<Rightarrow> nat \<Rightarrow> BitBuffer option" where
  "bit_buffer_copy_right buf other start_index = do {
     furi_assert (bit_buffer_get_size_bytes other > start_index);
     furi_assert (bb_capacity_bytes buf \<ge> bit_buffer_get_size_bytes other - start_index);
     d \<leftarrow> memcpy (bb_data buf) 0 (bb_data other) start_index (bit_buffer_get_size_bytes other - start_index);
     Some (buf\<lparr>bb_data := d, bb_size_bits := bb_size_bits other - start_index * 8\<rparr>) }"

definition bit_buffer_copy_left :: "BitBuffer \<Rightarrow> BitBuffer \<Rightarrow> nat \<Rightarrow> BitBuffer option" where
  "bit_buffer_copy_left buf other end_index = do {
     furi_assert (bit_buffer_get_capacity_bytes buf \<ge> end_index);
     furi_assert (bit_buffer_get_size_bytes other \<ge> end_index);
     d \<leftarrow> memcpy (bb_data buf) 0 (bb_data other) 0 end_index;
     Some (buf\<lparr>bb_data := d, bb_size_bits := end_index * 8\<rparr>) }"

definition bit_buffer_copy_bytes :: "BitBuffer \<Rightarrow> u8 list \<Rightarrow> nat \<Rightarrow> BitBuffer option" where
  "bit_buffer_copy_bytes buf data size_bytes = do {
     furi_assert (bb_capacity_bytes buf \<ge> size_bytes);
     d \<leftarrow> memcpy (bb_data buf) 0 data 0 size_bytes;
     Some (buf\<lparr>bb_data := d, bb_size_bits := size_bytes * 8\<rparr>) }"

definition bit_buffer_copy_bits :: "BitBuffer \<Rightarrow> u8 list \<Rightarrow> nat \<Rightarrow> BitBuffer option" where
  "bit_buffer_copy_bits buf data size_bits = do {
     furi_assert (bb_capacity_bytes buf * 8 \<ge> size_bits);
     d \<leftarrow> memcpy (bb_data buf) 0 data 0 ((size_bits + 8 - 1) div 8);
     Some (buf\<lparr>bb_data := d, bb_size_bits := size_bits\<rparr>) }"

text \<open>One turn of the loop of \<open>bit_buffer_copy_bytes_with_parity\<close>: \<open>bits_processed\<close> is nine times \<open>curr_byte\<close>.\<close>

definition copy_parity_step ::
  "u8 list \<Rightarrow> nat \<Rightarrow> u8 list \<times> u8 list \<Rightarrow> (u8 list \<times> u8 list) option" where
  "copy_parity_step data curr_byte st = (case st of (bdata, bparity) \<Rightarrow>
     let bits_processed = curr_byte * 9 in do {
       lo \<leftarrow> rd data (bits_processed div 8);
       bdata \<leftarrow> wr bdata curr_byte (drop_bit (bits_processed mod 8) lo);
       hi \<leftarrow> rd data (bits_processed div 8 + 1);
       b0 \<leftarrow> rd bdata curr_byte;
       bdata \<leftarrow> wr bdata curr_byte (b0 OR push_bit (8 - bits_processed mod 8) hi);
       let b = drop_bit (bits_processed mod 8) hi AND 1;
       bparity \<leftarrow>
         (if bits_processed mod 8 \<noteq> 0 then wr bparity (curr_byte div 8) b
          else do {
            p \<leftarrow> rd bparity (curr_byte div 8);
            wr bparity (curr_byte div 8) (p OR push_bit (bits_processed mod 8) b) });
       Some (bdata, bparity) })"

definition bit_buffer_copy_bytes_with_parity :: "BitBuffer \<Rightarrow> u8 list \<Rightarrow> nat \<Rightarrow> BitBuffer option" where
  "bit_buffer_copy_bytes_with_parity buf data size_bits =
     (if size_bits < 8 + 1 then do {
        x \<leftarrow> rd data 0;
        d \<leftarrow> wr (bb_data buf) 0 x;
        Some (buf\<lparr>bb_data := d, bb_size_bits := size_bits\<rparr>) }
      else do {
        furi_assert (size_bits mod 9 = 0);
        (d, p) \<leftarrow> for_loop (copy_parity_step data) 0 (size_bits div 9) (bb_data buf, bb_parity buf);
        Some (buf\<lparr>bb_data := d, bb_parity := p, bb_size_bits := size_bits div 9 * 8\<rparr>) })"

definition bit_buffer_write_bytes :: "BitBuffer \<Rightarrow> u8 list \<Rightarrow> nat \<Rightarrow> u8 list option" where
  "bit_buffer_write_bytes buf dest size_bytes = do {
     furi_assert (bit_buffer_get_size_bytes buf \<le> size_bytes);
     memcpy dest 0 (bb_data buf) 0 (bit_buffer_get_size_bytes buf) }"

text \<open>\<open>curr_bit_pos\<close> is a \<open>uint16_t\<close>.\<close>

definition write_parity_step ::
  "BitBuffer \<Rightarrow> nat \<Rightarrow> u8 list \<times> nat \<Rightarrow> (u8 list \<times> nat) option" where
  "write_parity_step buf i st = (case st of (bitstream, pos) \<Rightarrow> do {
     pb \<leftarrow> rd (bb_parity buf) (i div 8);
     let next_par_bit = drop_bit (i mod 8) pb AND 1;
     x \<leftarrow> rd (bb_data buf) i;
     (if pos mod 8 = 0 then do {
        bitstream \<leftarrow> wr bitstream (pos div 8) x;
        let pos = (pos + 8) mod 2 ^ 16;
        bitstream \<leftarrow> wr bitstream (pos div 8) next_par_bit;
        Some (bitstream, (pos + 1) mod 2 ^ 16) }
      else do {
        y \<leftarrow> rd bitstream (pos div 8);
        bitstream \<leftarrow> wr bitstream (pos div 8) (y OR push_bit (pos mod 8) x);
        bitstream \<leftarrow> wr bitstream (pos div 8 + 1) (drop_bit (8 - pos mod 8) x);
        z \<leftarrow> rd bitstream (pos div 8 + 1);
        bitstream \<leftarrow> wr bitstream (pos div 8 + 1) (z OR push_bit (pos mod 8) next_par_bit);
        Some (bitstream, (pos + 9) mod 2 ^ 16) }) })"

definition bit_buffer_write_bytes_with_parity ::
  "BitBuffer \<Rightarrow> u8 list \<Rightarrow> nat \<Rightarrow> (u8 list \<times> nat) option" where
  "bit_buffer_write_bytes_with_parity buf dest size_bytes =
     (let buf_size_bytes = bit_buffer_get_size_bytes buf in do {
        furi_assert ((buf_size_bytes * (8 + 1) + 8) div 8 \<le> size_bytes);
        for_loop (write_parity_step buf) 0 buf_size_bytes (dest, 0) })"

definition bit_buffer_write_bytes_mid :: "BitBuffer \<Rightarrow> u8 list \<Rightarrow> nat \<Rightarrow> nat \<Rightarrow> u8 list option" where
  "bit_buffer_write_bytes_mid buf dest start_index size_bytes = do {
     furi_assert (start_index + size_bytes \<le> bit_buffer_get_size_bytes buf);
     memcpy dest 0 (bb_data buf) start_index size_bytes }"

definition bit_buffer_has_partial_byte :: "BitBuffer \<Rightarrow> bool" where
  "bit_buffer_has_partial_byte buf = (bb_size_bits buf mod 8 \<noteq> 0)"

definition bit_buffer_starts_with_byte :: "BitBuffer \<Rightarrow> u8 \<Rightarrow> bool option" where
  "bit_buffer_starts_with_byte buf byte =
     (if bit_buffer_get_size_bytes buf \<noteq> 0 then map_option (\<lambda>x. x = byte) (rd (bb_data buf) 0)
      else Some False)"

definition bit_buffer_get_byte :: "BitBuffer \<Rightarrow> nat \<Rightarrow> u8 option" where
  "bit_buffer_get_byte buf index = do {
     furi_assert (bb_capacity_bytes buf > index);
     rd (bb_data buf) index }"

definition bit_buffer_get_byte_from_bit :: "BitBuffer \<Rightarrow> nat \<Rightarrow> u8 option" where
  "bit_buffer_get_byte_from_bit buf index_bits = do {
     furi_assert (bb_capacity_bytes buf * 8 > index_bits);
     let byte_index = index_bits div 8;
     let bit_offset = index_bits mod 8;
     lo \<leftarrow> rd (bb_data buf) byte_index;
     hi \<leftarrow> rd (bb_data buf) (byte_index + 1);
     Some (drop_bit bit_offset lo OR push_bit (8 - bit_offset) hi) }"

definition bit_buffer_set_byte :: "BitBuffer \<Rightarrow> nat \<Rightarrow> u8 \<Rightarrow> BitBuffer option" where
  "bit_buffer_set_byte buf index byte = do {
     furi_assert (bit_buffer_get_size_bytes buf > index);
     d \<leftarrow> wr (bb_data buf) index byte;
     Some (buf\<lparr>bb_data := d\<rparr>) }"

definition bit_buffer_set_byte_with_parity :: "BitBuffer \<Rightarrow> nat \<Rightarrow> u8 \<Rightarrow> bool \<Rightarrow> BitBuffer option" where
  "bit_buffer_set_byte_with_parity buff index byte parity = do {
     furi_assert (bb_size_bits buff div 8 > index);
     d \<leftarrow> wr (bb_data buff) index byte;
     p \<leftarrow> (if index mod 8 = 0 then wr (bb_parity buff) (index div 8) (of_bool parity)
          else do {
            x \<leftarrow> rd (bb_parity buff) (index div 8);
            wr (bb_parity buff) (index div 8) (x OR push_bit (index mod 8) (of_bool parity)) });
     Some (buff\<lparr>bb_data := d, bb_parity := p\<rparr>) }"

definition bit_buffer_set_size :: "BitBuffer \<Rightarrow> nat \<Rightarrow> BitBuffer option" where
  "bit_buffer_set_size buf new_size = do {
     furi_assert (bb_capacity_bytes buf * 8 \<ge> new_size);
     Some (buf\<lparr>bb_size_bits := new_size\<rparr>) }"

definition bit_buffer_set_size_bytes :: "BitBuffer \<Rightarrow> nat \<Rightarrow> BitBuffer option" where
  "bit_buffer_set_size_bytes buf new_size_bytes = do {
     furi_assert (bb_capacity_bytes buf \<ge> new_size_bytes);
     Some (buf\<lparr>bb_size_bits := new_size_bytes * 8\<rparr>) }"

text \<open>
  A \<open>start_index\<close> past the end makes the byte count wrap around; the assertion or the copy then
  fails. The bit count is 32-bit arithmetic: with a partial last byte the difference can be negative.
\<close>

definition bit_buffer_append_right :: "BitBuffer \<Rightarrow> BitBuffer \<Rightarrow> nat \<Rightarrow> BitBuffer option" where
  "bit_buffer_append_right buf other start_index =
     (if start_index > bit_buffer_get_size_bytes other then None
      else let size_bytes = bit_buffer_get_size_bytes buf;
               other_size_bytes = bit_buffer_get_size_bytes other - start_index in do {
        furi_assert (bb_capacity_bytes buf \<ge> size_bytes + other_size_bytes);
        d \<leftarrow> memcpy (bb_data buf) size_bytes (bb_data other) start_index other_size_bytes;
        Some (buf\<lparr>bb_data := d, bb_size_bits :=
          nat ((int (bb_size_bits buf) + (int (bb_size_bits other) - int (start_index * 8))) mod 2 ^ 32)\<rparr>) })"

definition bit_buffer_append :: "BitBuffer \<Rightarrow> BitBuffer \<Rightarrow> BitBuffer option" where
  "bit_buffer_append buf other = bit_buffer_append_right buf other 0"

definition bit_buffer_append_byte :: "BitBuffer \<Rightarrow> u8 \<Rightarrow> BitBuffer option" where
  "bit_buffer_append_byte buf byte =
     (let data_size_bytes = bit_buffer_get_size_bytes buf;
          new_data_size_bytes = data_size_bytes + 1 in do {
        furi_assert (new_data_size_bytes \<le> bb_capacity_bytes buf);
        d \<leftarrow> wr (bb_data buf) data_size_bytes byte;
        Some (buf\<lparr>bb_data := d, bb_size_bits := new_data_size_bytes * 8\<rparr>) })"

definition bit_buffer_append_bytes :: "BitBuffer \<Rightarrow> u8 list \<Rightarrow> nat \<Rightarrow> BitBuffer option" where
  "bit_buffer_append_bytes buf data size_bytes =
     (let buf_size_bytes = bit_buffer_get_size_bytes buf in do {
        furi_assert (bb_capacity_bytes buf \<ge> buf_size_bytes + size_bytes);
        d \<leftarrow> memcpy (bb_data buf) buf_size_bytes data 0 size_bytes;
        Some (buf\<lparr>bb_data := d, bb_size_bits := bb_size_bits buf + size_bytes * 8\<rparr>) })"

definition bit_buffer_append_bit :: "BitBuffer \<Rightarrow> bool \<Rightarrow> BitBuffer option" where
  "bit_buffer_append_bit buf b = do {
     furi_assert (bit_buffer_get_size_bytes buf \<le>
       bb_capacity_bytes buf - (if bit_buffer_has_partial_byte buf then 0 else 1));
     d \<leftarrow> (if b then do {
            x \<leftarrow> rd (bb_data buf) (bb_size_bits buf div 8);
            wr (bb_data buf) (bb_size_bits buf div 8) (x OR push_bit (bb_size_bits buf mod 8) 1) }
          else Some (bb_data buf));
     Some (buf\<lparr>bb_data := d, bb_size_bits := bb_size_bits buf + 1\<rparr>) }"

section \<open>Well-formed buffers\<close>

text \<open>The arrays have their allocated sizes and the length fits.\<close>

definition bb_wf :: "BitBuffer \<Rightarrow> bool" where
  "bb_wf buf \<longleftrightarrow> 0 < bb_capacity_bytes buf \<and> length (bb_data buf) = bb_capacity_bytes buf
     \<and> length (bb_parity buf) = (bb_capacity_bytes buf + 7) div 8
     \<and> bb_size_bits buf \<le> 8 * bb_capacity_bytes buf"

text \<open>The bytes a buffer holds.\<close>

definition bb_bytes :: "BitBuffer \<Rightarrow> u8 list" where
  "bb_bytes buf = take (bit_buffer_get_size_bytes buf) (bb_data buf)"

lemma size_bytes_ceil: "bit_buffer_get_size_bytes buf = (bb_size_bits buf + 7) div 8"
proof -
  define q r where "q = bb_size_bits buf div 8" and "r = bb_size_bits buf mod 8"
  then have n: "bb_size_bits buf = 8 * q + r" and r: "r < 8" by simp_all
  have "(8 * q + r + 7) div 8 = q + (r + 7) div 8" by simp
  moreover have "(r + 7) div 8 = (if r \<noteq> 0 then 1 else 0)" using r unfolding less_8_cases by auto
  ultimately show ?thesis unfolding bit_buffer_get_size_bytes_def n using r by simp
qed

lemma size_bytes_le_capacity: "bb_wf buf \<Longrightarrow> bit_buffer_get_size_bytes buf \<le> bb_capacity_bytes buf"
  by (auto simp: bb_wf_def size_bytes_ceil)

lemma length_bb_bytes: "bb_wf buf \<Longrightarrow> length (bb_bytes buf) = bit_buffer_get_size_bytes buf"
  using size_bytes_le_capacity [of buf] by (simp add: bb_bytes_def bb_wf_def)

lemma wf_update_data: "bb_wf buf \<Longrightarrow> length d = length (bb_data buf) \<Longrightarrow> n \<le> 8 * bb_capacity_bytes buf
    \<Longrightarrow> bb_wf (buf\<lparr>bb_data := d, bb_size_bits := n\<rparr>)"
  by (simp add: bb_wf_def)

text \<open>The operations that change a buffer, as one datatype.\<close>

datatype bb_op =
    OpReset | OpCopy BitBuffer | OpCopyRight BitBuffer nat | OpCopyLeft BitBuffer nat
  | OpCopyBytes "u8 list" nat | OpCopyBits "u8 list" nat | OpCopyBytesWithParity "u8 list" nat
  | OpSetByte nat u8 | OpSetByteWithParity nat u8 bool | OpSetSize nat | OpSetSizeBytes nat
  | OpAppend BitBuffer | OpAppendRight BitBuffer nat | OpAppendByte u8 | OpAppendBytes "u8 list" nat
  | OpAppendBit bool

fun bb_apply :: "bb_op \<Rightarrow> BitBuffer \<Rightarrow> BitBuffer option" where
  "bb_apply OpReset b = Some (bit_buffer_reset b)"
| "bb_apply (OpCopy o') b = bit_buffer_copy b o'"
| "bb_apply (OpCopyRight o' i) b = bit_buffer_copy_right b o' i"
| "bb_apply (OpCopyLeft o' i) b = bit_buffer_copy_left b o' i"
| "bb_apply (OpCopyBytes d n) b = bit_buffer_copy_bytes b d n"
| "bb_apply (OpCopyBits d n) b = bit_buffer_copy_bits b d n"
| "bb_apply (OpCopyBytesWithParity d n) b = bit_buffer_copy_bytes_with_parity b d n"
| "bb_apply (OpSetByte i x) b = bit_buffer_set_byte b i x"
| "bb_apply (OpSetByteWithParity i x p) b = bit_buffer_set_byte_with_parity b i x p"
| "bb_apply (OpSetSize n) b = bit_buffer_set_size b n"
| "bb_apply (OpSetSizeBytes n) b = bit_buffer_set_size_bytes b n"
| "bb_apply (OpAppend o') b = bit_buffer_append b o'"
| "bb_apply (OpAppendRight o' i) b = bit_buffer_append_right b o' i"
| "bb_apply (OpAppendByte x) b = bit_buffer_append_byte b x"
| "bb_apply (OpAppendBytes d n) b = bit_buffer_append_bytes b d n"
| "bb_apply (OpAppendBit x) b = bit_buffer_append_bit b x"

text \<open>
  The one call that the code does not guard: the source ends in a partial byte, all its bytes are skipped as if they were whole,
  and the destination has fewer bits than that takes away from its length.
\<close>

fun bb_op_wraps :: "bb_op \<Rightarrow> BitBuffer \<Rightarrow> bool" where
  "bb_op_wraps (OpAppendRight o' i) b \<longleftrightarrow> bb_size_bits b + bb_size_bits o' < 8 * i"
| "bb_op_wraps _ b \<longleftrightarrow> False"

lemma bind_unit_eq_Some [simp]: "(m :: unit option) \<bind> f = Some x \<longleftrightarrow> m = Some () \<and> f () = Some x"
  by (cases m) simp_all

lemma wr_length: "wr xs i v = Some ys \<Longrightarrow> length ys = length xs \<and> i < length xs"
  by (auto simp: wr_eq_Some_iff)

lemma copy_parity_step_length:
  assumes "copy_parity_step data i (d, p) = Some (d', p')"
  shows "length d' = length d \<and> length p' = length p \<and> i < length d"
proof -
  have *: "length p2 = length p"
    if "(if c then wr p k x else rd p k \<bind> (\<lambda>z. wr p k (y z))) = Some p2" for c k x y p2
    using that by (auto simp: bind_eq_Some_conv wr_eq_Some_iff split: if_splits)
  show ?thesis
    using assms unfolding copy_parity_step_def Let_def prod.case bind_eq_Some_conv
    by (elim exE conjE) (simp only: option.inject prod.inject, drule wr_length, drule wr_length, drule *, simp only: simp_thms)
qed

lemma copy_parity_loop_length:
  "for_loop (copy_parity_step data) i n (d, p) = Some (d', p')
    \<Longrightarrow> length d' = length d \<and> length p' = length p \<and> (n = 0 \<or> i + n \<le> length d)"
proof (induction n arbitrary: i d p)
  case (Suc n)
  then obtain s1 where s1: "copy_parity_step data i (d, p) = Some s1"
    and 1: "for_loop (copy_parity_step data) (Suc i) n s1 = Some (d', p')"
    by (cases "copy_parity_step data i (d, p)") simp_all
  obtain d1 p1 where s: "s1 = (d1, p1)" by (cases s1)
  note A = Suc.IH [OF 1 [unfolded s]] and B = copy_parity_step_length [OF s1 [unfolded s]]
  from A B have "length d' = length d \<and> length p' = length p" by argo
  moreover from A B have "i + Suc n \<le> length d" by linarith
  ultimately show ?case by blast
qed simp

lemma append_right_wf:
  assumes "bb_wf b" "bit_buffer_append_right b o' i = Some b'" "8 * i \<le> bb_size_bits b + bb_size_bits o'"
  shows "bb_wf b'"
proof -
  let ?n = "bb_size_bits b + bb_size_bits o' - i * 8"
  obtain d where d: "memcpy (bb_data b) (bit_buffer_get_size_bytes b) (bb_data o') i (bit_buffer_get_size_bytes o' - i) = Some d"
    and cap: "bit_buffer_get_size_bytes b + (bit_buffer_get_size_bytes o' - i) \<le> bb_capacity_bytes b"
    and i: "i \<le> bit_buffer_get_size_bytes o'"
    and b': "b' = b\<lparr>bb_data := d, bb_size_bits :=
          nat ((int (bb_size_bits b) + (int (bb_size_bits o') - int (i * 8))) mod 2 ^ 32)\<rparr>"
    using assms(2) by (auto simp: bit_buffer_append_right_def bind_eq_Some_conv Let_def split: if_splits)
  have e: "int (bb_size_bits b) + (int (bb_size_bits o') - int (i * 8)) = int ?n" using assms(3) by simp
  have "nat (int ?n mod 2 ^ 32) = ?n mod 2 ^ 32" by (simp add: nat_mod_distrib)
  then have "bb_size_bits b' = ?n mod 2 ^ 32" unfolding b' e by simp
  moreover have "?n \<le> 8 * bb_capacity_bytes b" using cap i unfolding size_bytes_ceil by linarith
  ultimately have "bb_size_bits b' \<le> 8 * bb_capacity_bytes b" by (metis le_trans mod_less_eq_dividend)
  then show ?thesis using assms(1) b' length_memcpy [OF d] by (simp add: bb_wf_def)
qed

lemma append_bit_wf:
  assumes "bb_wf b" "bit_buffer_append_bit b x = Some b'"
  shows "bb_wf b'"
proof -
  obtain d where chk: "bit_buffer_get_size_bytes b \<le> bb_capacity_bytes b - (if bit_buffer_has_partial_byte b then 0 else 1)"
    and d: "(if x then rd (bb_data b) (bb_size_bits b div 8) \<bind> (\<lambda>y. wr (bb_data b) (bb_size_bits b div 8)
        (y OR push_bit (bb_size_bits b mod 8) 1)) else Some (bb_data b)) = Some d"
    and b': "b' = b\<lparr>bb_data := d, bb_size_bits := bb_size_bits b + 1\<rparr>"
    using assms(2) unfolding bit_buffer_append_bit_def by (auto simp only: bind_unit_eq_Some furi_check_eq_Some_iff
        bind_eq_Some_conv option.inject)
  from d have len: "length d = length (bb_data b)"
    by (cases x) (auto simp: bind_eq_Some_conv wr_eq_Some_iff)
  have "bb_size_bits b < 8 * bb_capacity_bytes b"
  proof (cases "bb_size_bits b mod 8 = 0")
    case True
    then have "(bb_size_bits b + 7) div 8 \<le> bb_capacity_bytes b - 1"
      using chk by (simp add: size_bytes_ceil bit_buffer_has_partial_byte_def)
    then show ?thesis using assms(1) unfolding bb_wf_def by linarith
  next
    case False
    then have "bb_size_bits b \<noteq> 8 * bb_capacity_bytes b" by auto
    then show ?thesis using assms(1) unfolding bb_wf_def by linarith
  qed
  with assms(1) len b' show ?thesis by (simp add: bb_wf_def)
qed

lemma copy_bytes_with_parity_wf:
  assumes "bb_wf b" "bit_buffer_copy_bytes_with_parity b data n = Some b'"
  shows "bb_wf b'"
proof (cases "n < 9")
  case True
  with assms(2) obtain x d where d: "wr (bb_data b) 0 x = Some d" and b': "b' = b\<lparr>bb_data := d, bb_size_bits := n\<rparr>"
    by (auto simp: bit_buffer_copy_bytes_with_parity_def bind_eq_Some_conv)
  then show ?thesis using wr_length [OF d] True assms(1) by (simp add: bb_wf_def)
next
  case False
  define m where "m = n div 9"
  from False assms(2) have "furi_assert (n mod 9 = 0) \<bind> (\<lambda>_. for_loop (copy_parity_step data) 0 m (bb_data b, bb_parity b)
      \<bind> (\<lambda>(d, p). Some (b\<lparr>bb_data := d, bb_parity := p, bb_size_bits := m * 8\<rparr>))) = Some b'"
    by (simp only: bit_buffer_copy_bytes_with_parity_def m_def) simp
  then obtain d p where *: "for_loop (copy_parity_step data) 0 m (bb_data b, bb_parity b) = Some (d, p)"
    and b': "b' = b\<lparr>bb_data := d, bb_parity := p, bb_size_bits := m * 8\<rparr>"
    by (cases "for_loop (copy_parity_step data) 0 m (bb_data b, bb_parity b)") auto
  have "m \<le> length d" using copy_parity_loop_length [OF *] by (cases m) auto
  with copy_parity_loop_length [OF *] b' assms(1) show ?thesis by (simp add: bb_wf_def)
qed

lemma append_right_wraps:
  assumes "bit_buffer_append_right b o' i = Some b'" "bb_size_bits b + bb_size_bits o' < 8 * i"
  shows "2 ^ 32 - 8 < bb_size_bits b'" "bb_capacity_bytes b' = bb_capacity_bytes b"
proof -
  let ?z = "int (bb_size_bits b) + (int (bb_size_bits o') - int (i * 8))"
  have i: "i \<le> bit_buffer_get_size_bytes o'" and b': "bb_size_bits b' = nat (?z mod 2 ^ 32)" "bb_capacity_bytes b' = bb_capacity_bytes b"
    using assms(1) by (auto simp: bit_buffer_append_right_def bind_eq_Some_conv Let_def split: if_splits)
  have z: "- 8 < ?z" "?z < 0" using i assms(2) unfolding size_bytes_ceil by linarith+
  then have "?z mod 2 ^ 32 = ?z + 2 ^ 32" using mod_pos_pos_trivial [of "?z + 2 ^ 32" "2 ^ 32"] unfolding mod_add_self2 by simp
  with z(1) show "2 ^ 32 - 8 < bb_size_bits b'" unfolding b'(1) by simp
  show "bb_capacity_bytes b' = bb_capacity_bytes b" by (rule b'(2))
qed

lemma bb_apply_wf:
  assumes "bb_wf b" "bb_apply op b = Some b'" "\<not> bb_op_wraps op b"
  shows "bb_wf b'"
proof (cases op)
  case (OpAppend o')
  with assms show ?thesis by (auto simp: bit_buffer_append_def intro: append_right_wf)
next
  case (OpAppendBit x)
  with assms show ?thesis by (auto intro: append_bit_wf)
next
  case OpReset
  with assms show ?thesis by (auto simp: bb_wf_def bit_buffer_reset_def)
next
  case (OpCopy o')
  with assms show ?thesis by (auto simp: bb_wf_def bit_buffer_copy_def bind_eq_Some_conv dest: length_memcpy)
next
  case (OpCopyRight o' i)
  with assms show ?thesis
    by (auto simp: bb_wf_def bit_buffer_copy_right_def bind_eq_Some_conv size_bytes_ceil dest!: length_memcpy)
next
  case (OpCopyLeft o' i)
  with assms show ?thesis
    by (auto simp: bb_wf_def bit_buffer_copy_left_def bit_buffer_get_capacity_bytes_def bind_eq_Some_conv dest: length_memcpy)
next
  case (OpCopyBytes d n)
  with assms show ?thesis by (auto simp: bb_wf_def bit_buffer_copy_bytes_def bind_eq_Some_conv dest: length_memcpy)
next
  case (OpCopyBits d n)
  with assms show ?thesis by (auto simp: bb_wf_def bit_buffer_copy_bits_def bind_eq_Some_conv dest: length_memcpy)
next
  case (OpCopyBytesWithParity d n)
  with assms show ?thesis by (auto intro: copy_bytes_with_parity_wf)
next
  case (OpSetByte i x)
  with assms show ?thesis by (auto simp: bb_wf_def bit_buffer_set_byte_def bind_eq_Some_conv wr_eq_Some_iff)
next
  case (OpSetByteWithParity i x p)
  with assms show ?thesis
    by (auto simp: bb_wf_def bit_buffer_set_byte_with_parity_def bind_eq_Some_conv wr_eq_Some_iff split: if_splits)
next
  case (OpSetSize n)
  with assms show ?thesis by (auto simp: bb_wf_def bit_buffer_set_size_def)
next
  case (OpSetSizeBytes n)
  with assms show ?thesis by (auto simp: bb_wf_def bit_buffer_set_size_bytes_def)
next
  case (OpAppendRight o' i)
  with assms show ?thesis by (auto intro: append_right_wf)
next
  case (OpAppendByte x)
  with assms show ?thesis
    by (auto simp: bb_wf_def bit_buffer_append_byte_def bind_eq_Some_conv wr_eq_Some_iff Let_def)
next
  case (OpAppendBytes d n)
  with assms show ?thesis
    by (auto simp: bb_wf_def bit_buffer_append_bytes_def bind_eq_Some_conv size_bytes_ceil Let_def dest!: length_memcpy)
qed

section \<open>The byte contents\<close>

lemma memcpy_Some: "doff + n \<le> length dst \<Longrightarrow> soff + n \<le> length src \<Longrightarrow>
    memcpy dst doff src soff n = Some (take doff dst @ take n (drop soff src) @ drop (doff + n) dst)"
  by (simp add: memcpy_def)

lemma append_bytes_spec:
  assumes "bb_wf b" "n \<le> length d" "bit_buffer_get_size_bytes b + n \<le> bb_capacity_bytes b"
  shows "\<exists>b'. bit_buffer_append_bytes b d n = Some b' \<and> bb_wf b'
    \<and> bb_capacity_bytes b' = bb_capacity_bytes b \<and> bb_bytes b' = bb_bytes b @ take n d
    \<and> bb_size_bits b' = bb_size_bits b + 8 * n"
proof -
  let ?s = "bit_buffer_get_size_bytes b"
  let ?d = "take ?s (bb_data b) @ take n d @ drop (?s + n) (bb_data b)"
  define b' where "b' = b\<lparr>bb_data := ?d, bb_size_bits := bb_size_bits b + n * 8\<rparr>"
  have "memcpy (bb_data b) ?s d 0 n = Some ?d"
    using assms by (subst memcpy_Some) (simp_all add: bb_wf_def)
  then have run: "bit_buffer_append_bytes b d n = Some b'"
    using assms by (simp add: bit_buffer_append_bytes_def Let_def b'_def)
  moreover from this assms(1) have "bb_wf b'" using bb_apply_wf [of b "OpAppendBytes d n"] by simp
  moreover have "bit_buffer_get_size_bytes b' = ?s + n" by (simp add: b'_def size_bytes_ceil)
  then have "bb_bytes b' = bb_bytes b @ take n d"
    using assms by (simp add: b'_def bb_bytes_def bb_wf_def)
  ultimately show ?thesis by (simp add: b'_def)
qed

lemma append_byte_spec:
  assumes "bb_wf b" "bit_buffer_get_size_bytes b < bb_capacity_bytes b"
  shows "\<exists>b'. bit_buffer_append_byte b x = Some b' \<and> bb_wf b' \<and> bb_bytes b' = bb_bytes b @ [x]"
proof -
  let ?s = "bit_buffer_get_size_bytes b"
  define b' where "b' = b\<lparr>bb_data := (bb_data b)[?s := x], bb_size_bits := (?s + 1) * 8\<rparr>"
  have len: "length (bb_data b) = bb_capacity_bytes b" using assms(1) by (simp add: bb_wf_def)
  then have run: "bit_buffer_append_byte b x = Some b'"
    using assms(2) by (simp add: bit_buffer_append_byte_def Let_def mem_simps b'_def)
  moreover from this assms(1) have "bb_wf b'" using bb_apply_wf [of b "OpAppendByte x"] by simp
  moreover have "bit_buffer_get_size_bytes b' = Suc ?s" by (simp add: b'_def bit_buffer_get_size_bytes_def)
  then have "bb_bytes b' = bb_bytes b @ [x]"
    using assms(2) len by (simp add: b'_def bb_bytes_def take_Suc_conv_app_nth)
  ultimately show ?thesis by blast
qed

lemma copy_bytes_spec:
  assumes "bb_wf b" "n \<le> length d" "n \<le> bb_capacity_bytes b"
  shows "\<exists>b'. bit_buffer_copy_bytes b d n = Some b' \<and> bb_wf b' \<and> bb_bytes b' = take n d"
proof -
  define b' where "b' = b\<lparr>bb_data := take n d @ drop n (bb_data b), bb_size_bits := n * 8\<rparr>"
  have "bit_buffer_copy_bytes b d n = Some b'"
    using assms by (simp add: bit_buffer_copy_bytes_def memcpy_Some bb_wf_def b'_def)
  moreover from this assms(1) have "bb_wf b'" using bb_apply_wf [of b "OpCopyBytes d n"] by simp
  moreover have "bb_bytes b' = take n d"
    using assms(2) by (simp add: b'_def bb_bytes_def bit_buffer_get_size_bytes_def)
  ultimately show ?thesis by blast
qed

lemma append_spec:
  assumes "bb_wf b" "bb_wf c" "bb_size_bits b mod 8 = 0 \<or> bb_size_bits c mod 8 = 0"
    and "bit_buffer_get_size_bytes b + bit_buffer_get_size_bytes c \<le> bb_capacity_bytes b"
    and "bb_size_bits b + bb_size_bits c < 2 ^ 32"
  shows "\<exists>b'. bit_buffer_append b c = Some b' \<and> bb_wf b' \<and> bb_bytes b' = bb_bytes b @ bb_bytes c"
proof -
  let ?s = "bit_buffer_get_size_bytes b"
  let ?t = "bit_buffer_get_size_bytes c"
  let ?d = "take ?s (bb_data b) @ take ?t (bb_data c) @ drop (?s + ?t) (bb_data b)"
  define b' where "b' = b\<lparr>bb_data := ?d, bb_size_bits := bb_size_bits b + bb_size_bits c\<rparr>"
  have t: "?t \<le> length (bb_data c)" using size_bytes_le_capacity [OF assms(2)] assms(2) by (simp add: bb_wf_def)
  have "nat ((int (bb_size_bits b) + (int (bb_size_bits c) - int (0 * 8))) mod 2 ^ 32) = bb_size_bits b + bb_size_bits c"
    using assms(5) by (simp add: nat_eq_iff)
  moreover have "memcpy (bb_data b) ?s (bb_data c) 0 ?t = Some ?d"
    using assms(1,4) t by (subst memcpy_Some) (simp_all add: bb_wf_def)
  ultimately have run: "bit_buffer_append b c = Some b'"
    using assms(4) by (simp add: bit_buffer_append_def bit_buffer_append_right_def Let_def b'_def)
  moreover from this assms(1) have "bb_wf b'" using bb_apply_wf [of b "OpAppend c"] by simp
  moreover have "bit_buffer_get_size_bytes b' = ?s + ?t"
    using assms(3) unfolding b'_def size_bytes_ceil by auto
  then have "bb_bytes b' = bb_bytes b @ bb_bytes c"
    using assms(1,4) t by (simp add: b'_def bb_bytes_def bb_wf_def)
  ultimately show ?thesis by blast
qed

lemma set_size_bytes_spec:
  assumes "bb_wf b" "n \<le> bit_buffer_get_size_bytes b"
  shows "\<exists>b'. bit_buffer_set_size_bytes b n = Some b' \<and> bb_wf b'
    \<and> bb_capacity_bytes b' = bb_capacity_bytes b \<and> bb_bytes b' = take n (bb_bytes b)"
proof -
  define b' where "b' = b\<lparr>bb_size_bits := n * 8\<rparr>"
  have "bit_buffer_set_size_bytes b n = Some b'"
    using assms size_bytes_le_capacity [OF assms(1)] by (simp add: bit_buffer_set_size_bytes_def b'_def)
  moreover from this assms(1) have "bb_wf b'" using bb_apply_wf [of b "OpSetSizeBytes n"] by simp
  moreover have "bb_bytes b' = take n (bb_bytes b)"
    using assms(2) by (simp add: b'_def bb_bytes_def bit_buffer_get_size_bytes_def min_def)
  ultimately show ?thesis by (simp add: b'_def)
qed

lemma write_bytes_mid_spec:
  assumes "bb_wf b" "i + length dest \<le> bit_buffer_get_size_bytes b"
  shows "bit_buffer_write_bytes_mid b dest i (length dest) = Some (take (length dest) (drop i (bb_bytes b)))"
  using assms size_bytes_le_capacity [OF assms(1)]
  by (simp add: bit_buffer_write_bytes_mid_def memcpy_Some bb_wf_def bb_bytes_def drop_take min_def)

section \<open>Frames with parity\<close>

text \<open>A radio frame is the bytes, each least significant bit first and followed by its parity bit.\<close>

definition bit_lsb :: "u8 list \<Rightarrow> nat \<Rightarrow> bool" where
  "bit_lsb d p = bit (d ! (p div 8)) (p mod 8)"

lemma bit_lsb_add: "j < 8 \<Longrightarrow> bit_lsb d (8 * k + j) = bit (d ! k) j"
  by (simp add: bit_lsb_def)

definition parity_of :: "BitBuffer \<Rightarrow> nat \<Rightarrow> bool" where
  "parity_of buf k = bit (bb_parity buf ! (k div 8)) (k mod 8)"

definition frame_holds :: "BitBuffer \<Rightarrow> nat \<Rightarrow> u8 list \<Rightarrow> bool" where
  "frame_holds buf n d \<longleftrightarrow> (\<forall>k < n. (\<forall>j < 8. bit_lsb d (9 * k + j) = bit (bb_data buf ! k) j)
     \<and> bit_lsb d (9 * k + 8) = parity_of buf k)"

lemma word_bit_mod: "bit (x AND 1 :: u8) j \<longleftrightarrow> j = 0 \<and> bit x 0"
  by (auto simp: bit_and_iff bit_1_iff)

text \<open>The two bytes of the stream that one turn of \<open>write_parity_step\<close> touches.\<close>

definition frame_lo :: "nat \<Rightarrow> u8 \<Rightarrow> u8 \<Rightarrow> u8" where
  "frame_lo s y x = (if s = 0 then x else y OR push_bit s x)"

definition frame_hi :: "nat \<Rightarrow> u8 \<Rightarrow> u8 \<Rightarrow> u8" where
  "frame_hi s x p = (if s = 0 then p else drop_bit (8 - s) x OR push_bit s p)"

lemma bit_frame_lo:
  assumes "s < 8" "r < 8" "\<And>r. s \<le> r \<Longrightarrow> r < 8 \<Longrightarrow> s \<noteq> 0 \<Longrightarrow> \<not> bit y r"
  shows "bit (frame_lo s y x) r = (if r < s then bit y r else bit x (r - s))"
  using assms by (auto simp: frame_lo_def bit_or_iff bit_push_bit_iff)

lemma bit_frame_hi:
  assumes "s < 8" "r < 8" "\<And>j. bit p j \<longleftrightarrow> j = 0 \<and> b"
  shows "bit (frame_hi s x p) r = (if r < s then bit x (8 - s + r) else r = s \<and> b)"
  using assms(1,2) assms(3) [of "r - s"] assms(3) [of r] bit_imp_le_length [of x "8 - s + r"]
  by (auto simp: frame_hi_def bit_or_iff bit_push_bit_iff bit_drop_bit_eq)

lemma write_parity_step_run:
  assumes "i < length (bb_data buf)" "i div 8 < length (bb_parity buf)"
    and "8 * c + s + 9 < 2 ^ 16" "s < 8" "c + 1 < length bs"
  shows "write_parity_step buf i (bs, 8 * c + s) = Some
    (bs[c := frame_lo s (bs ! c) (bb_data buf ! i),
        c + 1 := frame_hi s (bb_data buf ! i) (drop_bit (i mod 8) (bb_parity buf ! (i div 8)) AND 1)],
     8 * c + s + 9)"
proof -
  have m: "(8 * c + s) div 8 = c" "(8 * c + s) mod 8 = s" using assms(4) by simp_all
  have w: "(8 * c + s + 9) mod 2 ^ 16 = 8 * c + s + 9" using assms(3) by (simp only: mod_less)
  have m8: "(8 * c + 8) div 8 = c + 1" by simp
  have rd: "rd (bb_parity buf) (i div 8) = Some (bb_parity buf ! (i div 8))" "rd (bb_data buf) i = Some (bb_data buf ! i)"
    using assms by (simp_all add: mem_simps)
  show ?thesis
  proof (cases "s = 0")
    case True
    with assms(3) have w8: "(8 * c + 8) mod 65536 = 8 * c + 8" "(9 + 8 * c) mod 65536 = 8 * c + 9" by simp_all
    from True assms(5) show ?thesis
      unfolding write_parity_step_def prod.case rd m bind.bind_lunit Let_def
      by (simp add: w8 m8 mem_simps frame_lo_def frame_hi_def)
  next
    case False
    with assms(5) show ?thesis
      unfolding write_parity_step_def prod.case rd m bind.bind_lunit Let_def w
      by (simp add: mem_simps frame_lo_def frame_hi_def)
  qed
qed

lemma write_parity_step_bits:
  assumes "i < length (bb_data buf)" "i div 8 < length (bb_parity buf)"
    and "P + 9 < 2 ^ 16" "P + 9 \<le> 8 * length bs"
    and z: "\<And>q. P \<le> q \<Longrightarrow> q < 8 * ((P + 7) div 8) \<Longrightarrow> \<not> bit_lsb bs q"
  shows "\<exists>bs'. write_parity_step buf i (bs, P) = Some (bs', P + 9) \<and> length bs' = length bs
    \<and> (\<forall>q < P. bit_lsb bs' q = bit_lsb bs q)
    \<and> (\<forall>j < 8. bit_lsb bs' (P + j) = bit (bb_data buf ! i) j)
    \<and> bit_lsb bs' (P + 8) = parity_of buf i
    \<and> (\<forall>q. P + 9 \<le> q \<longrightarrow> q < 8 * ((P + 9 + 7) div 8) \<longrightarrow> \<not> bit_lsb bs' q)"
proof -
  define c where "c = P div 8"
  define s where "s = P mod 8"
  define x where "x = bb_data buf ! i"
  define p where "p = drop_bit (i mod 8) (bb_parity buf ! (i div 8)) AND 1"
  have P: "P = 8 * c + s" and s: "s < 8" by (simp_all add: c_def s_def)
  have len: "c + 1 < length bs" using assms(4) s unfolding P by linarith
  define bs' where "bs' = bs[c := frame_lo s (bs ! c) x, c + 1 := frame_hi s x p]"
  have run: "write_parity_step buf i (bs, P) = Some (bs', P + 9)"
    using write_parity_step_run [OF assms(1,2) assms(3) [unfolded P] s len] by (simp add: P bs'_def x_def p_def)
  have pb: "bit p j \<longleftrightarrow> j = 0 \<and> parity_of buf i" for j
    by (simp add: p_def word_bit_mod bit_drop_bit_eq parity_of_def)
  have z': "\<not> bit (bs ! c) r" if "s \<le> r" "r < 8" "s \<noteq> 0" for r
  proof -
    have "(P + 7) div 8 = c + 1" using that(3) s unfolding P by (simp add: div_nat_eqI)
    then have "\<not> bit_lsb bs (8 * c + r)" using that by (intro z) (simp_all add: P)
    then show ?thesis using that by (simp add: bit_lsb_add)
  qed
  have lo: "bit_lsb bs' (8 * c + r) = (if r < s then bit (bs ! c) r else bit x (r - s))" if "r < 8" for r
    using that len bit_frame_lo [OF s that z'] by (simp add: bit_lsb_add bs'_def)
  have hi: "bit_lsb bs' (8 * (c + 1) + r) = (if r < s then bit x (8 - s + r) else r = s \<and> parity_of buf i)" if "r < 8" for r
    using that len bit_frame_hi [OF s that pb] by (simp only: bit_lsb_add) (simp add: bs'_def)
  have old: "bit_lsb bs' q = bit_lsb bs q" if "q < P" for q
  proof (cases "q < 8 * c")
    case True
    then show ?thesis by (simp add: bit_lsb_def bs'_def div_less_iff_less_mult mult.commute)
  next
    case False
    define r where "r = q - 8 * c"
    with False that P s have q: "q = 8 * c + r" and r: "r < s" "r < 8" by simp_all
    show ?thesis unfolding q lo [OF r(2)] using r by (simp add: bit_lsb_add)
  qed
  have data: "bit_lsb bs' (P + j) = bit x j" if "j < 8" for j
  proof (cases "s + j < 8")
    case True
    have "P + j = 8 * c + (s + j)" by (simp add: P)
    then show ?thesis by (simp only: lo [OF True]) simp
  next
    case False
    then have q: "P + j = 8 * (c + 1) + (s + j - 8)" and r: "s + j - 8 < 8" "s + j - 8 < s" "8 - s + (s + j - 8) = j"
      using that s by (simp_all add: P)
    show ?thesis unfolding q hi [OF r(1)] using r by simp
  qed
  have par: "bit_lsb bs' (P + 8) = parity_of buf i"
    using hi [OF s] by (simp add: P add.commute add.left_commute)
  have zero: "\<not> bit_lsb bs' q" if "P + 9 \<le> q" "q < 8 * ((P + 9 + 7) div 8)" for q
  proof -
    have "(P + 9 + 7) div 8 = c + 2" using s unfolding P by (intro div_nat_eqI) simp_all
    with that obtain r where q: "q = 8 * (c + 1) + r" and r: "r < 8" "s < r"
      using s by (intro that [of "q - 8 * (c + 1)"]) (simp_all add: P)
    show ?thesis unfolding q hi [OF r(1)] using r by simp
  qed
  have "length bs' = length bs" by (simp add: bs'_def)
  with run old data par zero show ?thesis unfolding x_def by blast
qed

lemma write_parity_loop:
  assumes "n \<le> length (bb_data buf)" "n \<le> 8 * length (bb_parity buf)" "9 * n < 2 ^ 16" "9 * n \<le> 8 * length dest"
  shows "\<exists>st. for_loop (write_parity_step buf) 0 n (dest, 0) = Some st \<and>
    snd st = 9 * n \<and> length (fst st) = length dest \<and> frame_holds buf n (fst st)"
proof -
  define P where "P = (\<lambda>k (st :: u8 list \<times> nat). snd st = 9 * k \<and> length (fst st) = length dest
    \<and> frame_holds buf k (fst st) \<and> (\<forall>q. 9 * k \<le> q \<longrightarrow> q < 8 * ((9 * k + 7) div 8) \<longrightarrow> \<not> bit_lsb (fst st) q))"
  have "\<exists>st. for_loop (write_parity_step buf) 0 n (dest, 0) = Some st \<and> P (0 + n) st"
  proof (rule for_loop_rule [where P = P])
    show "P 0 (dest, 0)" by (simp add: P_def frame_holds_def)
  next
    fix k and st :: "u8 list \<times> nat"
    assume k: "0 \<le> k" "k < 0 + n" and st: "P k st"
    obtain bs where s: "st = (bs, 9 * k)" and len: "length bs = length dest" and fr: "frame_holds buf k bs"
      and z: "\<And>q. 9 * k \<le> q \<Longrightarrow> q < 8 * ((9 * k + 7) div 8) \<Longrightarrow> \<not> bit_lsb bs q"
      using st unfolding P_def by (cases st) auto
    from k have k1: "9 * k + 9 \<le> 9 * n" by simp
    have "k < length (bb_data buf)" "9 * k + 9 < 2 ^ 16" "9 * k + 9 \<le> 8 * length bs"
      using k(2) assms k1 len by linarith+
    moreover have "k div 8 < length (bb_parity buf)" using k assms(2) by (simp add: div_less_iff_less_mult mult.commute)
    ultimately obtain bs' where run: "write_parity_step buf k (bs, 9 * k) = Some (bs', 9 * k + 9)"
      and l: "length bs' = length bs" and old: "\<And>q. q < 9 * k \<Longrightarrow> bit_lsb bs' q = bit_lsb bs q"
      and new: "\<And>j. j < 8 \<Longrightarrow> bit_lsb bs' (9 * k + j) = bit (bb_data buf ! k) j" "bit_lsb bs' (9 * k + 8) = parity_of buf k"
      and z': "\<And>q. 9 * k + 9 \<le> q \<Longrightarrow> q < 8 * ((9 * k + 9 + 7) div 8) \<Longrightarrow> \<not> bit_lsb bs' q"
      using write_parity_step_bits [of k buf "9 * k" bs] z by blast
    have "frame_holds buf (Suc k) bs'"
      unfolding frame_holds_def less_Suc_eq using fr old new by (auto simp: frame_holds_def)
    then have "P (Suc k) (bs', 9 * k + 9)" using l len z' by (simp add: P_def add.commute add.left_commute)
    with run show "\<exists>st'. write_parity_step buf k st = Some st' \<and> P (Suc k) st'" unfolding s by blast
  qed
  then show ?thesis by (auto simp: P_def)
qed

lemma bit_window:
  assumes "P div 8 + 1 < length d" "j < 8"
  shows "bit (drop_bit (P mod 8) (d ! (P div 8)) OR push_bit (8 - P mod 8) (d ! (P div 8 + 1))) j = bit_lsb d (P + j)"
proof -
  define c s where "c = P div 8" and "s = P mod 8"
  then have P: "P = 8 * c + s" and s: "s < 8" by simp_all
  show ?thesis
  proof (cases "s + j < 8")
    case True
    then have e: "P + j = 8 * c + (s + j)" by (simp add: P)
    from True have "\<not> 8 - s \<le> j" by simp
    then show ?thesis unfolding e bit_lsb_add [OF True]
      by (simp flip: c_def s_def add: bit_or_iff bit_drop_bit_eq bit_push_bit_iff)
  next
    case False
    with s assms(2) have e: "P + j = 8 * (c + 1) + (s + j - 8)" and r: "s + j - 8 < 8" "j - (8 - s) = s + j - 8"
      by (simp_all add: P)
    show ?thesis unfolding e bit_lsb_add [OF r(1)] using False assms(2) r(2) bit_imp_le_length [of "d ! c" "s + j"]
      by (auto simp flip: c_def s_def simp: bit_or_iff bit_drop_bit_eq bit_push_bit_iff)
  qed
qed

lemma copy_parity_step_run:
  assumes "i < length bd" "i div 8 < length bp" "i * 9 div 8 + 1 < length d"
  shows "\<exists>x b. copy_parity_step d i (bd, bp) = Some (bd[i := x], bp[i div 8 := b])
    \<and> (\<forall>j < 8. bit x j = bit_lsb d (9 * i + j))
    \<and> b = (if i mod 8 \<noteq> 0 then of_bool (bit_lsb d (9 * i + 8)) else bp ! (i div 8) OR of_bool (bit_lsb d (9 * i + 8)))"
proof -
  define c s where "c = i * 9 div 8" and "s = i * 9 mod 8"
  have "i * 9 = i + 8 * i" by simp
  then have s: "s = i mod 8" unfolding s_def by (simp only: mod_mult_self2)
  have i9: "9 * i = 8 * c + s" and "s < 8" by (simp_all add: c_def s_def mult.commute)
  define x where "x = drop_bit s (d ! c) OR push_bit (8 - s) (d ! (c + 1))"
  define q :: u8 where "q = drop_bit s (d ! (c + 1)) AND 1"
  define b where "b = (if s \<noteq> 0 then q else bp ! (i div 8) OR push_bit s q)"
  have q: "q = of_bool (bit_lsb d (9 * i + 8))"
    by (rule bit_word_eqI) (use \<open>s < 8\<close> bit_lsb_add [of s d "c + 1"] in \<open>simp add: q_def word_bit_mod bit_drop_bit_eq bit_1_iff i9 add.commute add.left_commute\<close>)
  have "copy_parity_step d i (bd, bp) = Some (bd[i := x], bp[i div 8 := b])"
    unfolding copy_parity_step_def prod.case Let_def x_def b_def q_def
    using assms by (simp flip: c_def s_def add: mem_simps)
  moreover have "\<forall>j < 8. bit x j = bit_lsb d (9 * i + j)"
    using bit_window [of "i * 9" d] assms(3) by (simp add: x_def mult.commute flip: c_def s_def)
  moreover have "b = (if i mod 8 \<noteq> 0 then of_bool (bit_lsb d (9 * i + 8)) else bp ! (i div 8) OR of_bool (bit_lsb d (9 * i + 8)))"
    using q s by (simp add: b_def)
  ultimately show ?thesis by blast
qed

lemma copy_parity_loop:
  assumes "n \<le> length bd" "n \<le> 8 * length bp" "9 * n \<le> 8 * length d"
  shows "\<exists>st. for_loop (copy_parity_step d) 0 n (bd, bp) = Some st
    \<and> length (fst st) = length bd \<and> length (snd st) = length bp
    \<and> (\<forall>k < n. \<forall>j < 8. bit (fst st ! k) j = bit_lsb d (9 * k + j))
    \<and> ((n - 1) mod 8 \<noteq> 0 \<longrightarrow> snd st ! ((n - 1) div 8) = of_bool (bit_lsb d (9 * (n - 1) + 8)))"
proof -
  define P where "P = (\<lambda>n (st :: u8 list \<times> u8 list). length (fst st) = length bd \<and> length (snd st) = length bp
    \<and> (\<forall>k < n. \<forall>j < 8. bit (fst st ! k) j = bit_lsb d (9 * k + j))
    \<and> ((n - 1) mod 8 \<noteq> 0 \<longrightarrow> snd st ! ((n - 1) div 8) = of_bool (bit_lsb d (9 * (n - 1) + 8))))"
  have "\<exists>st. for_loop (copy_parity_step d) 0 n (bd, bp) = Some st \<and> P (0 + n) st"
  proof (rule for_loop_rule [where P = P])
    show "P 0 (bd, bp)" by (simp add: P_def)
  next
    fix k and st :: "u8 list \<times> u8 list"
    assume k: "0 \<le> k" "k < 0 + n" and "P k st"
    then obtain x p where s: "st = (x, p)" and l: "length x = length bd" "length p = length bp"
      and ok: "\<And>k' j. k' < k \<Longrightarrow> j < 8 \<Longrightarrow> bit (x ! k') j = bit_lsb d (9 * k' + j)"
      unfolding P_def by (cases st) auto
    have kx: "k < length x" using k assms(1) l by linarith
    have kp: "k div 8 < length p" using k assms(2) l by (simp add: div_less_iff_less_mult mult.commute)
    have kd: "k * 9 div 8 + 1 < length d" using k assms(3) by linarith
    obtain y b where run: "copy_parity_step d k (x, p) = Some (x[k := y], p[k div 8 := b])"
      and y: "\<And>j. j < 8 \<Longrightarrow> bit y j = bit_lsb d (9 * k + j)"
      and b: "k mod 8 \<noteq> 0 \<Longrightarrow> b = of_bool (bit_lsb d (9 * k + 8))"
      using copy_parity_step_run [OF kx kp kd] by auto
    have "P (Suc k) (x[k := y], p[k div 8 := b])"
      using kx kp l ok y b by (auto simp: P_def less_Suc_eq nth_list_update)
    with run show "\<exists>st'. copy_parity_step d k st = Some st' \<and> P (Suc k) st'" unfolding s by blast
  qed
  then show ?thesis by (simp add: P_def)
qed

lemma copy_bytes_with_parity_spec:
  assumes "bb_wf b" "0 < n" "n \<le> bb_capacity_bytes b" "9 * n \<le> 8 * length d" 
  shows "\<exists>b'. bit_buffer_copy_bytes_with_parity b d (9 * n) = Some b' \<and> bb_wf b'
    \<and> bb_size_bits b' = 8 * n
    \<and> (\<forall>k < n. \<forall>j < 8. bit (bb_data b' ! k) j = bit_lsb d (9 * k + j))
    \<and> ((n - 1) mod 8 \<noteq> 0 \<longrightarrow> bb_parity b' ! ((n - 1) div 8) = of_bool (bit_lsb d (9 * (n - 1) + 8)))"
proof -
  have "n \<le> length (bb_data b)" "n \<le> 8 * length (bb_parity b)" using assms unfolding bb_wf_def by linarith+
  from copy_parity_loop [OF this assms(4)] obtain x p where
    run: "for_loop (copy_parity_step d) 0 n (bb_data b, bb_parity b) = Some (x, p)"
    and res: "(\<forall>k < n. \<forall>j < 8. bit (x ! k) j = bit_lsb d (9 * k + j))"
     "((n - 1) mod 8 \<noteq> 0 \<longrightarrow> p ! ((n - 1) div 8) = of_bool (bit_lsb d (9 * (n - 1) + 8)))"
    unfolding split_paired_Ex fst_conv snd_conv by blast
  define b' where "b' = b\<lparr>bb_data := x, bb_parity := p, bb_size_bits := n * 8\<rparr>"
  have c: "\<not> 9 * n < 8 + 1" "9 * n mod 9 = 0" "9 * n div 9 = n" using assms(2) by simp_all
  have cpy: "bit_buffer_copy_bytes_with_parity b d (9 * n) = Some b'"
    unfolding bit_buffer_copy_bytes_with_parity_def c run b'_def using assms(2) by simp
  then have "bb_wf b'" by (rule copy_bytes_with_parity_wf [OF assms(1)])
  with cpy res show ?thesis by (simp add: b'_def)
qed

lemma write_bytes_with_parity_spec:
  assumes "bb_wf b" "n = bit_buffer_get_size_bytes b" "(9 * n + 8) div 8 \<le> sz" "sz \<le> length dest" "9 * n < 2 ^ 16"
  shows "\<exists>d. bit_buffer_write_bytes_with_parity b dest sz = Some (d, 9 * n) \<and> length d = length dest \<and> frame_holds b n d"
proof -
  have "n \<le> length (bb_data b)" "n \<le> 8 * length (bb_parity b)" "9 * n \<le> 8 * length dest"
    using assms size_bytes_le_capacity [OF assms(1)] unfolding bb_wf_def by linarith+
  then obtain d where "for_loop (write_parity_step b) 0 n (dest, 0) = Some (d, 9 * n)" "length d = length dest" "frame_holds b n d"
    using write_parity_loop [of n b dest] assms(5) unfolding split_paired_Ex by auto
  moreover have "furi_check ((n * (8 + 1) + 8) div 8 \<le> sz) = Some ()" using assms(3) by (simp add: mult.commute)
  ultimately show ?thesis unfolding bit_buffer_write_bytes_with_parity_def Let_def assms(2) [symmetric]
    by (simp del: furi_check_eq_Some_iff)
qed

text \<open>What is written with parity is read back byte for byte.\<close>

lemma parity_frame_data:
  assumes "frame_holds b n d" "n = bit_buffer_get_size_bytes b" "bb_wf b" "bb_wf c" "bb_size_bits c = 8 * n"
    and "\<And>k j. k < n \<Longrightarrow> j < 8 \<Longrightarrow> bit (bb_data c ! k) j = bit_lsb d (9 * k + j)"
  shows "bb_bytes c = bb_bytes b"
proof (rule nth_equalityI)
  have n: "bit_buffer_get_size_bytes c = n" using assms(5) by (simp add: bit_buffer_get_size_bytes_def)
  then show l: "length (bb_bytes c) = length (bb_bytes b)"
    using assms by (simp add: length_bb_bytes)
  fix k assume "k < length (bb_bytes c)"
  then have k: "k < n" using n assms by (simp add: length_bb_bytes)
  have "bb_data c ! k = bb_data b ! k"
    by (rule bit_word_eqI) (use k assms(1,6) in \<open>auto simp: frame_holds_def\<close>)
  then show "bb_bytes c ! k = bb_bytes b ! k" using k n assms(2) by (simp add: bb_bytes_def)
qed

section \<open>The contract the radio code relies on\<close>

text \<open>
  What a client may assume of a byte buffer: a list of bytes and a capacity, appending, reading a
  part and truncating. \<open>invar\<close> is the provider's own invariant.
\<close>

locale byte_buffer =
  fixes invar :: "'b \<Rightarrow> bool" and bytes :: "'b \<Rightarrow> u8 list" and capacity :: "'b \<Rightarrow> nat"
    and get_data :: "'b \<Rightarrow> u8 list" and get_size_bytes :: "'b \<Rightarrow> nat"
    and append_bytes :: "'b \<Rightarrow> u8 list \<Rightarrow> nat \<Rightarrow> 'b option"
    and write_bytes_mid :: "'b \<Rightarrow> u8 list \<Rightarrow> nat \<Rightarrow> nat \<Rightarrow> u8 list option"
    and set_size_bytes :: "'b \<Rightarrow> nat \<Rightarrow> 'b option"
  assumes size_bytes: "invar b \<Longrightarrow> get_size_bytes b = length (bytes b)"
    and data_prefix: "invar b \<Longrightarrow> length (bytes b) \<le> length (get_data b) \<and> take (length (bytes b)) (get_data b) = bytes b"
    and append: "invar b \<Longrightarrow> n \<le> length d \<Longrightarrow> length (bytes b) + n \<le> capacity b \<Longrightarrow>
      \<exists>b'. append_bytes b d n = Some b' \<and> invar b' \<and> capacity b' = capacity b \<and> bytes b' = bytes b @ take n d"
    and write_mid: "invar b \<Longrightarrow> i + length dest \<le> length (bytes b) \<Longrightarrow>
      write_bytes_mid b dest i (length dest) = Some (take (length dest) (drop i (bytes b)))"
    and truncate: "invar b \<Longrightarrow> n \<le> length (bytes b) \<Longrightarrow>
      \<exists>b'. set_size_bytes b n = Some b' \<and> invar b' \<and> capacity b' = capacity b \<and> bytes b' = take n (bytes b)"
begin

lemma prefix_of_data: "invar b \<Longrightarrow> n \<le> length (bytes b) \<Longrightarrow> take n (get_data b) = take n (bytes b)"
  using data_prefix [of b] by (metis min_absorb1 take_take)

lemma append_then_truncate:
  assumes "invar b" "length (bytes b) + length d \<le> capacity b"
  shows "\<exists>b' b''. append_bytes b d (length d) = Some b' \<and> set_size_bytes b' (length (bytes b)) = Some b''
    \<and> invar b'' \<and> bytes b'' = bytes b"
proof -
  obtain b' where b': "append_bytes b d (length d) = Some b'" "invar b'" "bytes b' = bytes b @ d"
    using append [of b "length d" d] assms by auto
  with truncate [of b' "length (bytes b)"] show ?thesis by auto
qed

end

interpretation bb: byte_buffer bb_wf bb_bytes bb_capacity_bytes bb_data bit_buffer_get_size_bytes
  bit_buffer_append_bytes bit_buffer_write_bytes_mid bit_buffer_set_size_bytes
proof unfold_locales
  fix b assume wf: "bb_wf b"
  show "bit_buffer_get_size_bytes b = length (bb_bytes b)" using wf by (simp add: length_bb_bytes)
  show "length (bb_bytes b) \<le> length (bb_data b) \<and> take (length (bb_bytes b)) (bb_data b) = bb_bytes b"
    using size_bytes_le_capacity [OF wf] wf by (simp add: bb_bytes_def bb_wf_def min_def)
  fix n :: nat and d :: "u8 list"
  show "\<exists>b'. bit_buffer_append_bytes b d n = Some b' \<and> bb_wf b' \<and> bb_capacity_bytes b' = bb_capacity_bytes b
      \<and> bb_bytes b' = bb_bytes b @ take n d"
    if "n \<le> length d" "length (bb_bytes b) + n \<le> bb_capacity_bytes b"
    using append_bytes_spec [OF wf that(1)] that(2) wf by (auto simp: length_bb_bytes)
  show "\<exists>b'. bit_buffer_set_size_bytes b n = Some b' \<and> bb_wf b' \<and> bb_capacity_bytes b' = bb_capacity_bytes b
      \<and> bb_bytes b' = take n (bb_bytes b)" if "n \<le> length (bb_bytes b)"
    using set_size_bytes_spec [OF wf] that wf by (simp add: length_bb_bytes)
  fix i and dest :: "u8 list"
  show "bit_buffer_write_bytes_mid b dest i (length dest) = Some (take (length dest) (drop i (bb_bytes b)))"
    if "i + length dest \<le> length (bb_bytes b)"
    using write_bytes_mid_spec [OF wf] that wf by (simp add: length_bb_bytes)
qed

lemma append_bit_spec:
  assumes "bb_wf b" "bb_size_bits b < 8 * bb_capacity_bytes b"
  shows "\<exists>b'. bit_buffer_append_bit b x = Some b' \<and> bb_wf b' \<and> bb_size_bits b' = bb_size_bits b + 1
    \<and> (\<forall>q < bb_size_bits b. bit_lsb (bb_data b') q = bit_lsb (bb_data b) q)
    \<and> bit_lsb (bb_data b') (bb_size_bits b) = (x \<or> bit_lsb (bb_data b) (bb_size_bits b))"
proof -
  define c s where "c = bb_size_bits b div 8" and "s = bb_size_bits b mod 8"
  then have n: "bb_size_bits b = 8 * c + s" and s: "s < 8" by simp_all
  have c: "c < length (bb_data b)" using assms unfolding bb_wf_def n by linarith
  have chk: "bit_buffer_get_size_bytes b \<le> bb_capacity_bytes b - (if bit_buffer_has_partial_byte b then 0 else 1)"
    using assms(2) s unfolding n bit_buffer_get_size_bytes_def bit_buffer_has_partial_byte_def by auto
  define d where "d = (if x then (bb_data b)[c := bb_data b ! c OR push_bit s 1] else bb_data b)"
  define b' where "b' = b\<lparr>bb_data := d, bb_size_bits := bb_size_bits b + 1\<rparr>"
  have run: "bit_buffer_append_bit b x = Some b'"
    using chk c by (simp add: bit_buffer_append_bit_def b'_def d_def mem_simps flip: c_def s_def)
  have B: "bit_lsb d q = (bit_lsb (bb_data b) q \<or> q = 8 * c + s \<and> x)" for q
  proof -
    define e r where "e = q div 8" and "r = q mod 8"
    then have q: "q = 8 * e + r" and r: "r < 8" by simp_all
    have "q = 8 * c + s \<longleftrightarrow> e = c \<and> r = s" using s r q n unfolding e_def r_def by auto
    then show ?thesis using c r s unfolding q bit_lsb_add [OF r]
      by (auto simp: d_def nth_list_update bit_or_iff bit_push_bit_iff bit_exp_iff)
  qed
  have "bb_wf b'" by (rule append_bit_wf [OF assms(1) run])
  with run show ?thesis using B by (auto simp: b'_def n)
qed

section \<open>Properties\<close>

text \<open>C3: an operation that returns leaves the buffer well formed (arrays of the allocated sizes, length
  within the capacity), whatever its arguments, but for one case, and in that case it never does: skipping a partial last byte in
  \<open>bit_buffer_append_right\<close> may take more bits off the length than there are, which wraps it around to almost
  \<open>2 ^ 32\<close>, beyond every capacity.\<close>

theorem bit_buffer_invariant:
  assumes "bb_wf b" "bb_capacity_bytes b < 2 ^ 29" "bb_apply op b = Some b'"
  shows "(bb_wf b' \<longleftrightarrow> \<not> bb_op_wraps op b) \<and> (bb_wf b' \<longleftrightarrow> bit_buffer_get_size_bytes b' \<le> bb_capacity_bytes b')"
proof (cases "bb_op_wraps op b")
  case False
  with bb_apply_wf [OF assms(1,3)] size_bytes_le_capacity show ?thesis by blast
next
  case True
  then obtain o' i where op: "op = OpAppendRight o' i" "bb_size_bits b + bb_size_bits o' < 8 * i" by (cases op) simp_all
  have "2 ^ 32 - 8 < bb_size_bits b'" "bb_capacity_bytes b' = bb_capacity_bytes b"
    using append_right_wraps [of b o' i b'] assms(3) op by simp_all
  then have "\<not> bit_buffer_get_size_bytes b' \<le> bb_capacity_bytes b'" using assms(2) unfolding size_bytes_ceil by simp
  with True size_bytes_le_capacity show ?thesis by blast
qed

theorem bit_buffer_invariant_witness:
  "\<exists>b'. bb_apply (OpAppendByte 5) \<lparr>bb_data = [7, 0], bb_parity = [0], bb_capacity_bytes = 2, bb_size_bits = 8\<rparr> = Some b'
    \<and> bb_wf b' \<and> bit_buffer_get_size_bytes b' \<le> bb_capacity_bytes b'"
proof -
  let ?b = "\<lparr>bb_data = [7, 0], bb_parity = [0], bb_capacity_bytes = 2, bb_size_bits = 8\<rparr>"
  let ?b' = "\<lparr>bb_data = [7, 5], bb_parity = [0], bb_capacity_bytes = 2, bb_size_bits = 16\<rparr>"
  have wf: "bb_wf ?b" by (simp add: bb_wf_def)
  have run: "bb_apply (OpAppendByte 5) ?b = Some ?b'"
    by (simp add: bit_buffer_append_byte_def bit_buffer_get_size_bytes_def Let_def mem_simps)
  from bit_buffer_invariant [OF wf _ run] run show ?thesis by (intro exI [of _ ?b']) auto
qed

text \<open>A partial last byte makes \<open>bit_buffer_append_right\<close> wrap its length: with a source of one
  bit and \<open>start_index\<close> at its end the call passes both assertions and leaves a length of about
  \<open>2 ^ 32\<close> bits behind. This is the exception that the invariant states.\<close>

theorem append_right_underflow:
  assumes "bb_size_bits b = 0" "0 < bb_size_bits c" "bb_size_bits c < 8" "bb_capacity_bytes b \<le> length (bb_data b)"
    and "1 \<le> length (bb_data c)"
  shows "bit_buffer_append_right b c 1 = Some (b\<lparr>bb_size_bits := 2 ^ 32 + bb_size_bits c - 8\<rparr>)"
proof -
  have s: "bit_buffer_get_size_bytes b = 0" "bit_buffer_get_size_bytes c = 1"
    using assms(1-3) by (simp_all add: bit_buffer_get_size_bytes_def)
  have "(int (bb_size_bits c) - 8) mod 2 ^ 32 = 2 ^ 32 + int (bb_size_bits c) - 8"
    using assms(2,3) mod_pos_pos_trivial [of "int (bb_size_bits c) - 8 + 2 ^ 32" "2 ^ 32"]
    unfolding mod_add_self2 by simp
  moreover have "memcpy (bb_data b) 0 (bb_data c) 1 0 = Some (bb_data b)"
    using assms(5) by (simp add: memcpy_def)
  ultimately show ?thesis using assms(1-3)
    by (simp add: bit_buffer_append_right_def s Let_def nat_eq_iff)
qed

theorem append_right_underflow_witness:
  "bit_buffer_append_right \<lparr>bb_data = [0], bb_parity = [0], bb_capacity_bytes = 1, bb_size_bits = 0\<rparr>
      \<lparr>bb_data = [1], bb_parity = [0], bb_capacity_bytes = 1, bb_size_bits = 1\<rparr> 1
    = Some \<lparr>bb_data = [0], bb_parity = [0], bb_capacity_bytes = 1, bb_size_bits = 4294967289\<rparr>"
  using append_right_underflow [of "\<lparr>bb_data = [0], bb_parity = [0], bb_capacity_bytes = 1, bb_size_bits = 0\<rparr>"
      "\<lparr>bb_data = [1], bb_parity = [0], bb_capacity_bytes = 1, bb_size_bits = 1\<rparr>"] by simp

text \<open>C4: a frame written with parity into a large enough array and read back with parity gives the
  same bytes; and of the parity bits only the last survives when the frame has two to eight bytes,
  because each later bit overwrites the parity byte instead of being added to it.\<close>

theorem parity_frame_round_trip:
  assumes "bb_wf b" "bb_wf c" "n = bit_buffer_get_size_bytes b" "0 < n" "n \<le> bb_capacity_bytes c"
    and "(9 * n + 8) div 8 \<le> length dest" "9 * n < 2 ^ 16"
  shows "\<exists>d c'. bit_buffer_write_bytes_with_parity b dest (length dest) = Some (d, 9 * n)
    \<and> bit_buffer_copy_bytes_with_parity c d (9 * n) = Some c' \<and> bb_wf c' \<and> bb_bytes c' = bb_bytes b
    \<and> (1 < n \<and> n \<le> 8 \<longrightarrow> bb_parity c' ! 0 = of_bool (parity_of b (n - 1)))"
proof -
  obtain d where d: "bit_buffer_write_bytes_with_parity b dest (length dest) = Some (d, 9 * n)"
      "length d = length dest" "frame_holds b n d"
    using write_bytes_with_parity_spec [OF assms(1,3,6) order_refl assms(7)] by blast
  have "9 * n \<le> 8 * length d" using assms(6) d(2) by linarith
  from copy_bytes_with_parity_spec [OF assms(2,4,5) this] obtain c' where
    c': "bit_buffer_copy_bytes_with_parity c d (9 * n) = Some c'" "bb_wf c'" "bb_size_bits c' = 8 * n"
      "\<And>k j. k < n \<Longrightarrow> j < 8 \<Longrightarrow> bit (bb_data c' ! k) j = bit_lsb d (9 * k + j)"
      "(n - 1) mod 8 \<noteq> 0 \<Longrightarrow> bb_parity c' ! ((n - 1) div 8) = of_bool (bit_lsb d (9 * (n - 1) + 8))"
    by blast
  have bytes: "bb_bytes c' = bb_bytes b" by (rule parity_frame_data [OF d(3) assms(3,1) c'(2,3,4)])
  have "bb_parity c' ! 0 = of_bool (parity_of b (n - 1))" if "1 < n" "n \<le> 8"
  proof -
    have "(n - 1) mod 8 \<noteq> 0" "(n - 1) div 8 = 0" "n - 1 < n" using that by simp_all
    then show ?thesis using c'(5) d(3) unfolding frame_holds_def by simp
  qed
  with d(1) c'(1,2) bytes show ?thesis by blast
qed

theorem parity_frame_round_trip_witness:
  "\<exists>d c'. bit_buffer_write_bytes_with_parity
        \<lparr>bb_data = [0x26, 0x93], bb_parity = [1], bb_capacity_bytes = 2, bb_size_bits = 16\<rparr> [0, 0, 0] 3 = Some (d, 18)
    \<and> bit_buffer_copy_bytes_with_parity \<lparr>bb_data = [0, 0], bb_parity = [0], bb_capacity_bytes = 2, bb_size_bits = 0\<rparr> d 18 = Some c'
    \<and> bb_bytes c' = [0x26, 0x93] \<and> bb_parity c' ! 0 = 0"
proof -
  let ?b = "\<lparr>bb_data = [0x26, 0x93], bb_parity = [1], bb_capacity_bytes = 2, bb_size_bits = 16\<rparr> :: BitBuffer"
  let ?c = "\<lparr>bb_data = [0, 0], bb_parity = [0], bb_capacity_bytes = 2, bb_size_bits = 0\<rparr> :: BitBuffer"
  have wf: "bb_wf ?b" "bb_wf ?c" by (simp_all add: bb_wf_def)
  have n: "2 = bit_buffer_get_size_bytes ?b" by (simp add: bit_buffer_get_size_bytes_def)
  have b: "bb_bytes ?b = [0x26, 0x93]" "\<not> parity_of ?b (Suc 0)" by (simp_all add: bb_bytes_def n [symmetric] parity_of_def)
  show ?thesis using parity_frame_round_trip [OF wf n, of "[0, 0, 0]"] b by (simp add: numeral_3_eq_3) blast
qed

end
