(* ===== verification/NfcCrc.thy ===== *)
theory NfcCrc
  imports BitBuffer BitLib
begin

text \<open>
  The radio checksums: \<open>lib/nfc/helpers/iso14443_crc.c\<close>, \<open>felica_crc.c\<close>, \<open>iso13239_crc.c\<close> and
  \<open>lib/one_wire/maxim_crc.c\<close>. The three NFC codecs have the same shape (append, check, trim) on a
  bit buffer; the locale \<open>crc_codec\<close> states it over the interface \<open>byte_buffer\<close> and is
  interpreted on each of them.
\<close>

section \<open>ISO 14443\<close>

datatype Iso14443CrcType = Iso14443CrcTypeA | Iso14443CrcTypeB

definition ISO14443_CRC_SIZE :: nat where "ISO14443_CRC_SIZE = 2"

text \<open>One turn of the loop: \<open>byte ^= crc & 0xff; byte ^= byte << 4\<close> and the update of \<open>crc\<close>.\<close>

definition iso14443_crc_step :: "u8 \<Rightarrow> u16 \<Rightarrow> u16" where
  "iso14443_crc_step b crc =
     (let byte = b XOR ucast (crc AND 0xff);
          byte = byte XOR push_bit 4 byte
      in drop_bit 8 crc XOR push_bit 8 (ucast byte) XOR push_bit 3 (ucast byte) XOR ucast (drop_bit 4 byte))"

definition iso14443_crc_calculate :: "Iso14443CrcType \<Rightarrow> u8 list \<Rightarrow> nat \<Rightarrow> u16 option" where
  "iso14443_crc_calculate type data data_size = do {
     let crc = (case type of Iso14443CrcTypeA \<Rightarrow> 0x6363 | Iso14443CrcTypeB \<Rightarrow> 0xFFFF);
     crc \<leftarrow> for_loop (\<lambda>i crc. do { byte \<leftarrow> rd data i; Some (iso14443_crc_step byte crc) }) 0 data_size crc;
     Some (if type = Iso14443CrcTypeA then crc else NOT crc) }"

definition iso14443_crc_append :: "Iso14443CrcType \<Rightarrow> BitBuffer \<Rightarrow> BitBuffer option" where
  "iso14443_crc_append type buf = do {
     crc \<leftarrow> iso14443_crc_calculate type (bb_data buf) (bit_buffer_get_size_bytes buf);
     bit_buffer_append_bytes buf (le_bytes 2 crc) ISO14443_CRC_SIZE }"

definition iso14443_crc_check :: "Iso14443CrcType \<Rightarrow> BitBuffer \<Rightarrow> bool option" where
  "iso14443_crc_check type buf =
     (let data_size = bit_buffer_get_size_bytes buf in
      if data_size \<le> ISO14443_CRC_SIZE then Some False
      else do {
        crc_received \<leftarrow> bit_buffer_write_bytes_mid buf [0, 0] (data_size - ISO14443_CRC_SIZE) ISO14443_CRC_SIZE;
        crc_calc \<leftarrow> iso14443_crc_calculate type (bb_data buf) (data_size - ISO14443_CRC_SIZE);
        Some (crc_calc = of_le_bytes crc_received) })"

definition iso14443_crc_trim :: "BitBuffer \<Rightarrow> BitBuffer option" where
  "iso14443_crc_trim buf =
     (let data_size = bit_buffer_get_size_bytes buf in do {
        furi_assert (data_size > ISO14443_CRC_SIZE);
        bit_buffer_set_size_bytes buf (data_size - ISO14443_CRC_SIZE) })"

section \<open>FeliCa\<close>

definition FELICA_CRC_SIZE :: nat where "FELICA_CRC_SIZE = 2"

definition felica_crc_step :: "u8 \<Rightarrow> u16 \<Rightarrow> u16" where
  "felica_crc_step b crc =
     ((\<lambda>crc. if crc AND 0x8000 \<noteq> 0 then push_bit 1 crc XOR 0x1021 else push_bit 1 crc) ^^ 8)
       (crc XOR push_bit 8 (ucast b))"

definition felica_crc_calculate :: "u8 list \<Rightarrow> nat \<Rightarrow> u16 option" where
  "felica_crc_calculate data len = do {
     crc \<leftarrow> for_loop (\<lambda>i crc. do { b \<leftarrow> rd data i; Some (felica_crc_step b crc) }) 0 len 0;
     Some (push_bit 8 crc OR drop_bit 8 crc) }"

definition felica_crc_append :: "BitBuffer \<Rightarrow> BitBuffer option" where
  "felica_crc_append buf = do {
     crc \<leftarrow> felica_crc_calculate (bb_data buf) (bit_buffer_get_size_bytes buf);
     bit_buffer_append_bytes buf (le_bytes 2 crc) FELICA_CRC_SIZE }"

definition felica_crc_check :: "BitBuffer \<Rightarrow> bool option" where
  "felica_crc_check buf =
     (let data_size = bit_buffer_get_size_bytes buf in
      if data_size \<le> FELICA_CRC_SIZE then Some False
      else do {
        crc_received \<leftarrow> bit_buffer_write_bytes_mid buf [0, 0] (data_size - FELICA_CRC_SIZE) FELICA_CRC_SIZE;
        crc_calc \<leftarrow> felica_crc_calculate (bb_data buf) (data_size - FELICA_CRC_SIZE);
        Some (crc_calc = of_le_bytes crc_received) })"

definition felica_crc_trim :: "BitBuffer \<Rightarrow> BitBuffer option" where
  "felica_crc_trim buf =
     (let data_size = bit_buffer_get_size_bytes buf in do {
        furi_assert (data_size > FELICA_CRC_SIZE);
        bit_buffer_set_size_bytes buf (data_size - FELICA_CRC_SIZE) })"

section \<open>ISO 13239\<close>

datatype Iso13239CrcType = Iso13239CrcTypeDefault | Iso13239CrcTypePicopass

definition ISO13239_CRC_SIZE :: nat where "ISO13239_CRC_SIZE = 2"

definition iso13239_crc_step :: "u8 \<Rightarrow> u16 \<Rightarrow> u16" where
  "iso13239_crc_step b crc =
     ((\<lambda>crc. if crc AND 1 \<noteq> 0 then drop_bit 1 crc XOR 0x8408 else drop_bit 1 crc) ^^ 8) (crc XOR ucast b)"

definition iso13239_crc_calculate :: "Iso13239CrcType \<Rightarrow> u8 list \<Rightarrow> nat \<Rightarrow> u16 option" where
  "iso13239_crc_calculate type data data_size = do {
     let crc = (case type of Iso13239CrcTypeDefault \<Rightarrow> 0xFFFF | Iso13239CrcTypePicopass \<Rightarrow> 0xE012);
     crc \<leftarrow> for_loop (\<lambda>i crc. do { b \<leftarrow> rd data i; Some (iso13239_crc_step b crc) }) 0 data_size crc;
     Some (if type = Iso13239CrcTypePicopass then crc else NOT crc) }"

definition iso13239_crc_append :: "Iso13239CrcType \<Rightarrow> BitBuffer \<Rightarrow> BitBuffer option" where
  "iso13239_crc_append type buf = do {
     crc \<leftarrow> iso13239_crc_calculate type (bb_data buf) (bit_buffer_get_size_bytes buf);
     bit_buffer_append_bytes buf (le_bytes 2 crc) ISO13239_CRC_SIZE }"

definition iso13239_crc_check :: "Iso13239CrcType \<Rightarrow> BitBuffer \<Rightarrow> bool option" where
  "iso13239_crc_check type buf =
     (let data_size = bit_buffer_get_size_bytes buf in
      if data_size \<le> ISO13239_CRC_SIZE then Some False
      else do {
        crc_received \<leftarrow> bit_buffer_write_bytes_mid buf [0, 0] (data_size - ISO13239_CRC_SIZE) ISO13239_CRC_SIZE;
        crc_calc \<leftarrow> iso13239_crc_calculate type (bb_data buf) (data_size - ISO13239_CRC_SIZE);
        Some (crc_calc = of_le_bytes crc_received) })"

definition iso13239_crc_trim :: "BitBuffer \<Rightarrow> BitBuffer option" where
  "iso13239_crc_trim buf =
     (let data_size = bit_buffer_get_size_bytes buf in do {
        furi_assert (data_size > ISO13239_CRC_SIZE);
        bit_buffer_set_size_bytes buf (data_size - ISO13239_CRC_SIZE) })"

section \<open>Maxim 1-Wire\<close>

text \<open>The loop state is \<open>(crc, input_byte)\<close>; \<open>data_size\<close> is a \<open>uint8_t\<close>.\<close>

definition maxim_crc8_bit :: "u8 \<times> u8 \<Rightarrow> u8 \<times> u8" where
  "maxim_crc8_bit st = (case st of (crc, input_byte) \<Rightarrow>
     let mix = (crc XOR input_byte) AND 1;
         crc = drop_bit 1 crc;
         crc = (if mix \<noteq> 0 then crc XOR 0x8C else crc)
     in (crc, drop_bit 1 input_byte))"

definition maxim_crc8 :: "u8 list \<Rightarrow> u8 \<Rightarrow> u8 \<Rightarrow> u8 option" where
  "maxim_crc8 data data_size crc_init =
     for_loop (\<lambda>index crc. do { b \<leftarrow> rd data index; Some (fst ((maxim_crc8_bit ^^ 8) (crc, b))) })
       0 (unat data_size) crc_init"

section \<open>The shape of a codec\<close>

text \<open>
  A codec over a byte buffer: a checksum \<open>crc\<close> of a prefix of an array that is a function \<open>sum\<close> of
  the bytes of the prefix, and the three operations with the code's bodies.
\<close>

locale crc_codec = byte_buffer +
  fixes crc :: "u8 list \<Rightarrow> nat \<Rightarrow> u16 option" and sum :: "u8 list \<Rightarrow> u16"
    and crc_append :: "'a \<Rightarrow> 'a option" and crc_check :: "'a \<Rightarrow> bool option" and crc_trim :: "'a \<Rightarrow> 'a option"
  assumes crc: "n \<le> length d \<Longrightarrow> crc d n = Some (sum (take n d))"
    and append_body: "crc_append b = crc (get_data b) (get_size_bytes b) \<bind> (\<lambda>c. append_bytes b (le_bytes 2 c) 2)"
    and check_body: "crc_check b = (if get_size_bytes b \<le> 2 then Some False
      else write_bytes_mid b [0, 0] (get_size_bytes b - 2) 2 \<bind> (\<lambda>r.
        crc (get_data b) (get_size_bytes b - 2) \<bind> (\<lambda>c. Some (c = of_le_bytes r))))"
    and trim_body: "crc_trim b = furi_assert (2 < get_size_bytes b) \<bind> (\<lambda>_. set_size_bytes b (get_size_bytes b - 2))"
begin

lemma append_ok:
  assumes "invar b" "length (bytes b) + 2 \<le> capacity b"
  shows "\<exists>b'. crc_append b = Some b' \<and> invar b' \<and> capacity b' = capacity b
    \<and> bytes b' = bytes b @ le_bytes 2 (sum (bytes b))"
proof -
  have "crc (get_data b) (get_size_bytes b) = Some (sum (bytes b))"
    using crc [of "length (bytes b)" "get_data b"] data_prefix [OF assms(1)] size_bytes [OF assms(1)] by simp
  then show ?thesis
    using append [OF assms(1), of 2 "le_bytes 2 (sum (bytes b))"] assms(2) by (simp add: append_body)
qed

lemma check_iff:
  assumes "invar b"
  shows "crc_check b = Some (2 < length (bytes b)
    \<and> of_le_bytes (drop (length (bytes b) - 2) (bytes b)) = sum (take (length (bytes b) - 2) (bytes b)))"
proof (cases "length (bytes b) \<le> 2")
  case True
  then show ?thesis by (simp add: check_body size_bytes [OF assms])
next
  case False
  define n where "n = length (bytes b) - 2"
  have n: "n + length [0, 0 :: u8] \<le> length (bytes b)" using False by (simp add: n_def)
  have r: "write_bytes_mid b [0, 0] n 2 = Some (drop n (bytes b))"
    using write_mid [OF assms n] by (simp add: n_def eval_nat_numeral)
  have "crc (get_data b) n = Some (sum (take n (bytes b)))"
    using crc [of n "get_data b"] data_prefix [OF assms] prefix_of_data [OF assms, of n] n by simp
  with r False show ?thesis by (auto simp: check_body size_bytes [OF assms] simp flip: n_def)
qed

lemma trim_ok:
  assumes "invar b" "2 < length (bytes b)"
  shows "\<exists>b'. crc_trim b = Some b' \<and> invar b' \<and> bytes b' = take (length (bytes b) - 2) (bytes b)"
  using truncate [OF assms(1), of "length (bytes b) - 2"] assms by (auto simp: trim_body size_bytes)

text \<open>What is appended is accepted and taken off again.\<close>

lemma append_check_trim:
  assumes "invar b" "bytes b \<noteq> []" "length (bytes b) + 2 \<le> capacity b"
  shows "\<exists>b' b''. crc_append b = Some b' \<and> crc_check b' = Some True \<and> crc_trim b' = Some b''
    \<and> invar b'' \<and> bytes b'' = bytes b"
proof -
  obtain b' where b': "crc_append b = Some b'" "invar b'" "bytes b' = bytes b @ le_bytes 2 (sum (bytes b))"
    using append_ok [OF assms(1,3)] by blast
  have "of_le_bytes (le_bytes 2 (sum (bytes b))) = sum (bytes b)"
    unfolding of_le_bytes_le_bytes by (simp add: take_bit_word_eq_self)
  then have "crc_check b' = Some True" using assms(2) by (simp add: check_iff [OF b'(2)] b'(3))
  moreover obtain b'' where "crc_trim b' = Some b''" "invar b''" "bytes b'' = bytes b"
    using trim_ok [OF b'(2)] assms(2) b'(3) by auto
  ultimately show ?thesis using b'(1) by blast
qed

end

section \<open>The three codecs\<close>

definition iso14443_sum :: "Iso14443CrcType \<Rightarrow> u8 list \<Rightarrow> u16" where
  "iso14443_sum type bs =
     (if type = Iso14443CrcTypeA then fold iso14443_crc_step bs 0x6363 else NOT (fold iso14443_crc_step bs 0xFFFF))"

definition felica_sum :: "u8 list \<Rightarrow> u16" where
  "felica_sum bs = (let crc = fold felica_crc_step bs 0 in push_bit 8 crc OR drop_bit 8 crc)"

definition iso13239_sum :: "Iso13239CrcType \<Rightarrow> u8 list \<Rightarrow> u16" where
  "iso13239_sum type bs =
     (if type = Iso13239CrcTypePicopass then fold iso13239_crc_step bs 0xE012 else NOT (fold iso13239_crc_step bs 0xFFFF))"

interpretation iso14443: crc_codec bb_wf bb_bytes bb_capacity_bytes bb_data bit_buffer_get_size_bytes
  bit_buffer_append_bytes bit_buffer_write_bytes_mid bit_buffer_set_size_bytes
  "iso14443_crc_calculate type" "iso14443_sum type"
  "iso14443_crc_append type" "iso14443_crc_check type" iso14443_crc_trim for type
  by unfold_locales
    (auto simp: iso14443_crc_calculate_def iso14443_sum_def for_loop_bytes iso14443_crc_append_def
      iso14443_crc_check_def iso14443_crc_trim_def ISO14443_CRC_SIZE_def Let_def split: Iso14443CrcType.split)

interpretation felica: crc_codec bb_wf bb_bytes bb_capacity_bytes bb_data bit_buffer_get_size_bytes
  bit_buffer_append_bytes bit_buffer_write_bytes_mid bit_buffer_set_size_bytes
  felica_crc_calculate felica_sum felica_crc_append felica_crc_check felica_crc_trim
  by unfold_locales
    (simp_all add: felica_crc_calculate_def felica_sum_def for_loop_bytes felica_crc_append_def
      felica_crc_check_def felica_crc_trim_def FELICA_CRC_SIZE_def Let_def)

interpretation iso13239: crc_codec bb_wf bb_bytes bb_capacity_bytes bb_data bit_buffer_get_size_bytes
  bit_buffer_append_bytes bit_buffer_write_bytes_mid bit_buffer_set_size_bytes
  "iso13239_crc_calculate type" "iso13239_sum type"
  "iso13239_crc_append type" "iso13239_crc_check type" iso13239_crc_trim for type
  by unfold_locales
    (auto simp: iso13239_crc_calculate_def iso13239_sum_def for_loop_bytes iso13239_crc_append_def
      iso13239_crc_check_def iso13239_crc_trim_def ISO13239_CRC_SIZE_def Let_def split: Iso13239CrcType.split)

section \<open>The checksums against the generic routine\<close>

lemma lsb_step_code: "(if x AND 1 \<noteq> 0 then drop_bit 1 x XOR poly else drop_bit 1 x) = lsb_step poly x"
proof -
  have "x AND 1 \<noteq> 0 \<longleftrightarrow> bit x 0" by (simp add: and_one_eq bit_0 odd_iff_mod_2_eq_one)
  then show ?thesis by (simp add: lsb_step_def)
qed

lemma msb_step_code: "(if x AND 0x8000 \<noteq> 0 then push_bit 1 x XOR poly else push_bit 1 x) = msb_step poly x"
proof -
  have "x AND 2 ^ 15 = 0 \<longleftrightarrow> \<not> bit x 15" by (rule and_exp_eq_0_iff_not_bit)
  then have "x AND 0x8000 \<noteq> 0 \<longleftrightarrow> bit x 15" by simp
  then show ?thesis unfolding msb_step_def by (simp only: split: if_split) simp
qed

lemma lsb_step_xor: "lsb_step p (x XOR y) = lsb_step p x XOR lsb_step p y"
  by (rule bit_word_eqI) (auto simp: bit_lsb_step bit_xor_iff)

lemma lsb_steps_xor: "(lsb_step p ^^ n) (x XOR y) = (lsb_step p ^^ n) x XOR (lsb_step p ^^ n) y"
  by (induction n) (simp_all add: lsb_step_xor)

lemma lsb_steps_high: "k \<le> 8 \<Longrightarrow> (lsb_step p ^^ k) (push_bit 8 (drop_bit 8 y)) = push_bit (8 - k) (drop_bit 8 y)"
proof (induction k)
  case (Suc k)
  then have "(lsb_step p ^^ Suc k) (push_bit 8 (drop_bit 8 y)) = lsb_step p (push_bit (8 - k) (drop_bit 8 y))" by simp
  also have "\<dots> = push_bit (8 - Suc k) (drop_bit 8 y)"
    using Suc.prems by (intro bit_word_eqI) (auto simp: bit_lsb_step bit_push_bit_iff bit_drop_bit_eq dest: bit_imp_le_length)
  finally show ?case .
qed simp

definition nibble_table :: "u8 \<Rightarrow> u16" where
  "nibble_table l = (let byte = l XOR push_bit 4 l in push_bit 8 (ucast byte) XOR push_bit 3 (ucast byte) XOR ucast (drop_bit 4 byte))"

lemma linear_word_eq:
  fixes f g :: "'a::len word \<Rightarrow> 'b::len word"
  assumes f: "\<And>x y. f (x XOR y) = f x XOR f y" and g: "\<And>x y. g (x XOR y) = g x XOR g y"
    and base: "\<And>k. k < LENGTH('a) \<Longrightarrow> f (2 ^ k) = g (2 ^ k)"
  shows "f x = g x"
proof -
  have zero: "f 0 = 0" "g 0 = 0" using f [of 0 0] g [of 0 0] by simp_all
  have "f (take_bit k x) = g (take_bit k x)" if "k \<le> LENGTH('a)" for k
    using that
  proof (induction k)
    case (Suc k)
    have "take_bit (Suc k) x = take_bit k x XOR (if bit x k then 2 ^ k else 0)"
      by (rule bit_word_eqI) (auto simp: bit_take_bit_iff bit_xor_iff bit_exp_iff less_Suc_eq)
    then show ?case using Suc base [of k] by (simp add: f g zero)
  qed (simp add: zero)
  from this [of "LENGTH('a)"] show ?thesis by (simp add: take_bit_word_eq_self)
qed

lemma nibble_table_basis:
  "\<forall>k \<in> set [0..<8]. nibble_table (word_of_nat (2 ^ k)) = (lsb_step 0x8408 ^^ 8) (ucast (word_of_nat (2 ^ k) :: u8))"
  by code_simp

lemma nibble_table_xor: "nibble_table (x XOR y) = nibble_table x XOR nibble_table y"
  unfolding nibble_table_def Let_def push_bit_xor drop_bit_xor unsigned_xor_eq
  by (simp only: ac_simps)

lemma nibble_table_steps: "nibble_table l = (lsb_step 0x8408 ^^ 8) (ucast l)"
proof (rule linear_word_eq [where f = nibble_table])
  show "(lsb_step 0x8408 ^^ 8) (ucast (x XOR y :: u8)) = (lsb_step 0x8408 ^^ 8) (ucast x) XOR (lsb_step 0x8408 ^^ 8) (ucast y)" for x y
    unfolding lsb_steps_xor [symmetric] by (rule arg_cong [where f = "lsb_step 0x8408 ^^ 8"], rule bit_word_eqI) (auto simp: bit_simps)
  show "nibble_table (2 ^ k) = (lsb_step 0x8408 ^^ 8) (ucast (2 ^ k :: u8))" if "k < LENGTH(8)" for k
    using bspec [OF nibble_table_basis, of k] that by simp
qed (rule nibble_table_xor)

lemma iso14443_crc_step_bitwise: "iso14443_crc_step b crc = (lsb_step 0x8408 ^^ 8) (crc XOR ucast b)"
proof -
  define y where "y = crc XOR ucast b"
  have l: "b XOR ucast (crc AND 0xff) = ucast y"
  proof (rule bit_word_eqI)
    fix n assume "n < LENGTH(8)"
    then have "n \<in> {0, 1, 2, 3, 4, 5, 6, 7}" by (simp only: less_8_cases len_num0 len_num1 len_bit0 len_bit1) auto
    then have "bit (0xff :: u16) n" by (elim insertE emptyE) simp_all
    then show "bit (b XOR ucast (crc AND 0xff)) n = bit (ucast y :: u8) n"
      using \<open>n < LENGTH(8)\<close> by (auto simp: y_def bit_xor_iff bit_ucast_iff bit_and_iff)
  qed
  have h: "drop_bit 8 crc = drop_bit 8 y"
    by (rule bit_word_eqI) (auto simp: y_def bit_drop_bit_eq bit_xor_iff bit_ucast_iff dest: bit_imp_le_length)
  have "y = push_bit 8 (drop_bit 8 y) XOR ucast (ucast y :: u8)"
    by (rule bit_word_eqI) (auto simp: bit_push_bit_iff bit_drop_bit_eq bit_xor_iff bit_ucast_iff)
  then have "(lsb_step 0x8408 ^^ 8) y = (lsb_step 0x8408 ^^ 8) (push_bit 8 (drop_bit 8 y)) XOR (lsb_step 0x8408 ^^ 8) (ucast (ucast y :: u8))"
    by (metis lsb_steps_xor)
  also have "\<dots> = drop_bit 8 y XOR nibble_table (ucast y)"
    unfolding lsb_steps_high [OF order_refl] nibble_table_steps by simp
  finally show ?thesis unfolding y_def [symmetric] iso14443_crc_step_def Let_def l h nibble_table_def by (simp only: xor.assoc)
qed

lemma iso13239_crc_step_bitwise: "iso13239_crc_step b crc = (lsb_step 0x8408 ^^ 8) (crc XOR ucast b)"
  unfolding iso13239_crc_step_def lsb_step_code ..

lemma felica_crc_step_bitwise: "felica_crc_step b crc = (msb_step 0x1021 ^^ 8) (crc XOR push_bit 8 (ucast b))"
  unfolding felica_crc_step_def msb_step_code ..

lemma reverse_constants:
  "bit_lib_reverse_16_fast 0x1021 = 0x8408" "bit_lib_reverse_16_fast 0xFFFF = 0xFFFF" "bit_lib_reverse_16_fast 0xC6C6 = 0x6363"
  "bit_lib_reverse_16_fast 0x4807 = 0xE012"
  by code_simp+

lemma reflected_crc16:
  "n \<le> length d \<Longrightarrow> bit_lib_crc16 d n 0x1021 init True True xor_out =
    Some (fold (\<lambda>b crc. (lsb_step 0x8408 ^^ 8) (crc XOR ucast b)) (take n d) (bit_lib_reverse_16_fast init) XOR xor_out)"
  by (simp add: bit_lib_crc16_fold crc16_fold_reflected reverse_constants)

lemma xor_all_ones: "x XOR 0xFFFF = NOT (x :: u16)"
  by (rule bit_word_eqI) (auto simp: bit_xor_iff bit_not_iff less_16_cases)


text \<open>One bit of \<open>maxim_crc8\<close> is one least significant bit first step on \<open>crc XOR input_byte\<close>.\<close>

lemma maxim_crc8_bit_step:
  "snd (maxim_crc8_bit (c, b)) = drop_bit 1 b"
  "fst (maxim_crc8_bit (c, b)) XOR drop_bit 1 b = lsb_step8 0x8C (c XOR b)"
proof -
  have "(c XOR b) AND 1 \<noteq> 0 \<longleftrightarrow> bit (c XOR b) 0" by (simp add: and_one_eq bit_0 odd_iff_mod_2_eq_one)
  then show "snd (maxim_crc8_bit (c, b)) = drop_bit 1 b"
    and "fst (maxim_crc8_bit (c, b)) XOR drop_bit 1 b = lsb_step8 0x8C (c XOR b)"
    unfolding maxim_crc8_bit_def Let_def prod.case lsb_step8_def drop_bit_xor
    by (auto simp: ac_simps)
qed

lemma maxim_crc8_bits: "fst ((maxim_crc8_bit ^^ 8) (c, b)) = (lsb_step8 0x8C ^^ 8) (c XOR b)"
proof -
  have "snd ((maxim_crc8_bit ^^ j) (c, b)) = drop_bit j b
    \<and> fst ((maxim_crc8_bit ^^ j) (c, b)) XOR drop_bit j b = (lsb_step8 0x8C ^^ j) (c XOR b)" for j
  proof (induction j)
    case (Suc j)
    obtain c' b' where s: "(maxim_crc8_bit ^^ j) (c, b) = (c', b')" by fastforce
    from Suc have b': "b' = drop_bit j b" and c': "c' XOR b' = (lsb_step8 0x8C ^^ j) (c XOR b)" by (simp_all add: s)
    have "drop_bit 1 b' = drop_bit (Suc j) b" by (simp add: b')
    then show ?case using maxim_crc8_bit_step [of c' b'] by (simp add: s c')
  qed simp
  from this [of 8] have "fst ((maxim_crc8_bit ^^ 8) (c, b)) XOR drop_bit 8 b = (lsb_step8 0x8C ^^ 8) (c XOR b)" by blast
  moreover have "drop_bit 8 b = 0" by (rule bit_word_eqI) (auto simp: bit_drop_bit_eq dest: bit_imp_le_length)
  ultimately show ?thesis by simp
qed

lemma reverse_8_constant: "bit_lib_reverse_8_fast 0x31 = 0x8C"
  by code_simp

section \<open>Properties\<close>

text \<open>C5: the hand-unrolled and bitwise checksums of the three codecs are instances of the generic
  \<open>bit_lib_crc16\<close> with polynomial 0x1021: ISO 14443 type B and ISO 13239 are CRC-16/X-25, type A is
  the reflected CRC with initial value 0xC6C6, Picopass its own start value, and FeliCa is
  CRC-16/XMODEM with its two bytes swapped.\<close>

theorem nfc_crcs_generic:
  assumes "n \<le> length d"
  shows "iso14443_crc_calculate Iso14443CrcTypeA d n = bit_lib_crc16 d n 0x1021 0xC6C6 True True 0
    \<and> iso14443_crc_calculate Iso14443CrcTypeB d n = bit_lib_crc16 d n 0x1021 0xFFFF True True 0xFFFF
    \<and> iso13239_crc_calculate Iso13239CrcTypeDefault d n = bit_lib_crc16 d n 0x1021 0xFFFF True True 0xFFFF
    \<and> iso13239_crc_calculate Iso13239CrcTypePicopass d n = bit_lib_crc16 d n 0x1021 0x4807 True True 0
    \<and> felica_crc_calculate d n = map_option (\<lambda>c. push_bit 8 c OR drop_bit 8 c) (bit_lib_crc16 d n 0x1021 0 False False 0)"
proof -
  have bw: "iso14443_crc_step = (\<lambda>b crc. (lsb_step 0x8408 ^^ 8) (crc XOR ucast b))"
    "iso13239_crc_step = (\<lambda>b crc. (lsb_step 0x8408 ^^ 8) (crc XOR ucast b))"
    "felica_crc_step = (\<lambda>b crc. (msb_step 0x1021 ^^ 8) (crc XOR push_bit 8 (ucast b)))"
    by (intro ext, rule iso14443_crc_step_bitwise iso13239_crc_step_bitwise felica_crc_step_bitwise)+
  have "felica_crc_calculate d n = map_option (\<lambda>c. push_bit 8 c OR drop_bit 8 c) (bit_lib_crc16 d n 0x1021 0 False False 0)"
    by (simp add: bit_lib_crc16_fold [OF assms] crc16_fold_def felica.crc [OF assms] felica_sum_def bw(3) Let_def)
  then show ?thesis
    unfolding reflected_crc16 [OF assms] reverse_constants iso14443.crc [OF assms] iso13239.crc [OF assms]
      iso14443_sum_def iso13239_sum_def bw xor_all_ones
    by simp
qed

theorem nfc_crcs_generic_witness:
  "iso14443_crc_calculate Iso14443CrcTypeA [0x50, 0x00] 2 = bit_lib_crc16 [0x50, 0x00] 2 0x1021 0xC6C6 True True 0"
  using nfc_crcs_generic [of 2 "[0x50, 0x00]"] by simp

text \<open>C6: for each codec, a frame that carries data, once its checksum is appended, passes the
  check, and trimming it restores the data; no step fails when two bytes of capacity are left.\<close>

theorem crc_append_check_trim:
  assumes "bb_wf b" "bb_bytes b \<noteq> []" "length (bb_bytes b) + 2 \<le> bb_capacity_bytes b"
  shows "(\<exists>b' b''. iso14443_crc_append t b = Some b' \<and> iso14443_crc_check t b' = Some True
      \<and> iso14443_crc_trim b' = Some b'' \<and> bb_wf b'' \<and> bb_bytes b'' = bb_bytes b)
    \<and> (\<exists>b' b''. felica_crc_append b = Some b' \<and> felica_crc_check b' = Some True
      \<and> felica_crc_trim b' = Some b'' \<and> bb_wf b'' \<and> bb_bytes b'' = bb_bytes b)
    \<and> (\<exists>b' b''. iso13239_crc_append u b = Some b' \<and> iso13239_crc_check u b' = Some True
      \<and> iso13239_crc_trim b' = Some b'' \<and> bb_wf b'' \<and> bb_bytes b'' = bb_bytes b)"
  by (intro conjI iso14443.append_check_trim [OF assms] felica.append_check_trim [OF assms] iso13239.append_check_trim [OF assms])

theorem crc_append_check_trim_witness:
  "\<exists>b' b''. felica_crc_append \<lparr>bb_data = [7, 8, 0, 0], bb_parity = [0], bb_capacity_bytes = 4, bb_size_bits = 16\<rparr> = Some b'
    \<and> felica_crc_check b' = Some True \<and> felica_crc_trim b' = Some b'' \<and> bb_bytes b'' = [7, 8]"
proof -
  let ?b = "\<lparr>bb_data = [7, 8, 0, 0], bb_parity = [0], bb_capacity_bytes = 4, bb_size_bits = 16\<rparr>"
  have wf: "bb_wf ?b" by (simp add: bb_wf_def)
  have bytes: "bb_bytes ?b = [7, 8]" by (simp add: bb_bytes_def bit_buffer_get_size_bytes_def)
  have "bb_bytes ?b \<noteq> []" "length (bb_bytes ?b) + 2 \<le> bb_capacity_bytes ?b" by (simp_all add: bytes)
  from crc_append_check_trim [OF wf this] show ?thesis unfolding bytes by blast
qed

text \<open>The checks accept exactly the frames of at least three bytes whose last two bytes are the
  little-endian checksum of the rest, and never touch memory outside the frame.\<close>

theorem crc_check_exact:
  assumes "bb_wf b"
  defines "n \<equiv> length (bb_bytes b) - 2"
  shows "iso14443_crc_check t b = Some (2 < length (bb_bytes b)
      \<and> iso14443_crc_calculate t (bb_bytes b) n = Some (of_le_bytes (drop n (bb_bytes b))))
    \<and> felica_crc_check b = Some (2 < length (bb_bytes b)
      \<and> felica_crc_calculate (bb_bytes b) n = Some (of_le_bytes (drop n (bb_bytes b))))
    \<and> iso13239_crc_check u b = Some (2 < length (bb_bytes b)
      \<and> iso13239_crc_calculate u (bb_bytes b) n = Some (of_le_bytes (drop n (bb_bytes b))))"
proof -
  have n: "n \<le> length (bb_bytes b)" by (simp add: n_def)
  show ?thesis
    unfolding iso14443.check_iff [OF assms(1)] felica.check_iff [OF assms(1)] iso13239.check_iff [OF assms(1)]
      iso14443.crc [OF n] felica.crc [OF n] iso13239.crc [OF n] n_def [symmetric] option.inject
    by (simp only: eq_commute simp_thms)
qed

theorem crc_check_exact_witness:
  "felica_crc_check \<lparr>bb_data = [1, 2, 3, 4], bb_parity = [0], bb_capacity_bytes = 4, bb_size_bits = 8\<rparr> = Some False"
  using crc_check_exact [of "\<lparr>bb_data = [1, 2, 3, 4], bb_parity = [0], bb_capacity_bytes = 4, bb_size_bits = 8\<rparr>"]
  by (simp add: bb_wf_def bb_bytes_def bit_buffer_get_size_bytes_def)

text \<open>The 1-Wire checksum is the generic 8-bit CRC with polynomial 0x31, reflected.\<close>

theorem maxim_crc8_generic:
  assumes "unat n \<le> length d"
  shows "map_option ucast (maxim_crc8 d n init) =
    bit_lib_crc8 d (unat n) 0x31 (bit_lib_reverse_8_fast init) True True 0"
proof -
  have "maxim_crc8 d n init = Some (fold (\<lambda>b crc. (lsb_step8 0x8C ^^ 8) (crc XOR b)) (take (unat n) d) init)"
    unfolding maxim_crc8_def maxim_crc8_bits by (rule for_loop_bytes [OF assms])
  then show ?thesis by (simp add: bit_lib_crc8_reflected [OF assms] reverse_8_constant)
qed

theorem maxim_crc8_generic_witness:
  "map_option ucast (maxim_crc8 [0x28, 0xFF] 2 0) = bit_lib_crc8 [0x28, 0xFF] (unat (2 :: u8)) 0x31 (bit_lib_reverse_8_fast 0) True True 0"
  by (rule maxim_crc8_generic) simp
end
