(* ===== verification/Encodings.thy ===== *)
theory Encodings
  imports Prelude "HOL-Library.Signed_Division"
begin

text \<open>
  The small encodings of the toolbox: variable-length integers, \<open>lib/toolbox/varint.c\<close>, and
  hexadecimal text, \<open>lib/toolbox/hex.c\<close>.

  An \<open>int32_t\<close> is a \<open>32 word\<close> read with \<open>sint\<close>; a signed overflow and a shift by the width or more
  are undefined behaviour, hence \<open>None\<close>. A C string is the list of its bytes with the final zero. A
  routine that returns \<open>bool\<close> and stores its result only on success returns \<open>'a option\<close>; where it can
  also read out of bounds the outer option is the crash.
\<close>

section \<open>Variable-length integers\<close>

lemma drop_7_less: "(0x80 :: u32) \<le> value \<Longrightarrow> unat (drop_bit 7 value) < unat value"
proof -
  assume "(0x80 :: u32) \<le> value"
  then have "128 \<le> unat value" by (simp add: word_le_nat_alt)
  moreover have "unat (drop_bit 7 value) = unat value div 128" by (simp only: unat_drop_bit_eq) (simp add: drop_bit_eq_div)
  ultimately show ?thesis by simp
qed

function varint_pack_loop :: "u32 \<Rightarrow> u8 list \<Rightarrow> nat \<Rightarrow> (u8 list \<times> nat) option" where
  "varint_pack_loop value output pos =
     (if value \<ge> 0x80 then do {
        output \<leftarrow> wr output pos (ucast (value OR 0x80));
        varint_pack_loop (drop_bit 7 value) output (pos + 1) }
      else do {
        output \<leftarrow> wr output pos (ucast value);
        Some (output, pos + 1) })"
  by pat_completeness auto

termination
  by (relation "measure (\<lambda>(v, _, _). unat v)") (auto simp: drop_7_less not_less)

declare varint_pack_loop.simps [simp del]

text \<open>The length is the distance the output pointer moved.\<close>

definition varint_uint32_pack :: "u32 \<Rightarrow> u8 list \<Rightarrow> (u8 list \<times> nat) option" where
  "varint_uint32_pack value output = varint_pack_loop value output 0"

function varint_unpack_loop :: "u8 list \<Rightarrow> nat \<Rightarrow> nat \<Rightarrow> u32 \<Rightarrow> (u32 \<times> nat) option" where
  "varint_unpack_loop input input_size i parsed =
     (if i < input_size then do {
        b \<leftarrow> rd input i;
        (if 7 * i \<ge> 32 then None \<comment> \<open>shift by the width or more\<close>
         else
           let parsed = parsed OR push_bit (7 * i) (ucast b AND 0x7F) in
           if b AND 0x80 = 0 then Some (parsed, i + 1)
           else varint_unpack_loop input input_size (i + 1) parsed) }
      else Some (parsed, i + 1))"
  by pat_completeness auto
termination
  by (relation "measure (\<lambda>(_, n, i, _). n - i)") auto

declare varint_unpack_loop.simps [simp del]

definition varint_uint32_unpack :: "u8 list \<Rightarrow> nat \<Rightarrow> (u32 \<times> nat) option" where
  "varint_uint32_unpack input input_size = varint_unpack_loop input input_size 0 0"

function varint_length_loop :: "u32 \<Rightarrow> nat \<Rightarrow> nat" where
  "varint_length_loop value sz =
     (if value \<ge> 0x80 then varint_length_loop (drop_bit 7 value) (sz + 1) else sz + 1)"
  by pat_completeness auto
termination
  by (relation "measure (\<lambda>(v, _). unat v)") (auto simp: drop_7_less not_less)

declare varint_length_loop.simps [simp del]

definition varint_uint32_length :: "u32 \<Rightarrow> nat" where
  "varint_uint32_length value = varint_length_loop value 0"

text \<open>\<open>v = value * 2\<close> or \<open>v = (value * -2) - 1\<close> in \<open>int\<close> arithmetic.\<close>

definition varint_zigzag :: "32 word \<Rightarrow> u32 option" where
  "varint_zigzag value =
     (if 0 \<le> sint value
      then if sint value * 2 < 2 ^ 31 then Some (word_of_int (sint value * 2)) else None
      else if sint value * (- 2) < 2 ^ 31 then Some (word_of_int (sint value * (- 2) - 1)) else None)"

definition varint_int32_pack :: "32 word \<Rightarrow> u8 list \<Rightarrow> (u8 list \<times> nat) option" where
  "varint_int32_pack value output = do { v \<leftarrow> varint_zigzag value; varint_uint32_pack v output }"

definition varint_int32_unpack :: "u8 list \<Rightarrow> nat \<Rightarrow> (32 word \<times> nat) option" where
  "varint_int32_unpack input input_size = do {
     (v, sz) \<leftarrow> varint_uint32_unpack input input_size;
     Some (if v AND 1 \<noteq> 0 then word_of_int (sint (v + 1) sdiv (- 2)) else v div 2, sz) }"

definition varint_int32_length :: "32 word \<Rightarrow> nat option" where
  "varint_int32_length value = do { v \<leftarrow> varint_zigzag value; Some (varint_uint32_length v) }"

section \<open>Hexadecimal text\<close>

definition hex_char_to_hex_nibble :: "u8 \<Rightarrow> u8 option" where
  "hex_char_to_hex_nibble c =
     (if 48 \<le> c \<and> c \<le> 57 then Some (c - 48)
      else if 65 \<le> c \<and> c \<le> 70 then Some (c - 65 + 10)
      else if 97 \<le> c \<and> c \<le> 102 then Some (c - 97 + 10)
      else None)"

definition hex_char_to_uint8 :: "u8 \<Rightarrow> u8 \<Rightarrow> u8 option" where
  "hex_char_to_uint8 hi low = do {
     hi_nibble_value \<leftarrow> hex_char_to_hex_nibble hi;
     low_nibble_value \<leftarrow> hex_char_to_hex_nibble low;
     Some (push_bit 4 hi_nibble_value OR low_nibble_value) }"

text \<open>
  The loop of \<open>hex_chars_to_uint8\<close>: \<open>i\<close> is the position in the string, \<open>j\<close> the one in \<open>value\<close>. The
  result is the array and \<open>parse_success\<close>.
\<close>

function hex_chars_loop :: "u8 list \<Rightarrow> nat \<Rightarrow> u8 list \<Rightarrow> nat \<Rightarrow> bool \<Rightarrow> (u8 list \<times> bool) option" where
  "hex_chars_loop str i value j parse_success =
     (if i < length str then
        (if str ! i = 0 then Some (value, parse_success)
         else do {
           c \<leftarrow> rd str (i + 1);
           (if c = 0 then Some (value, parse_success)
            else case hex_char_to_uint8 (str ! i) c of
                None \<Rightarrow> Some (value, False)
              | Some b \<Rightarrow> do { value \<leftarrow> wr value j b; hex_chars_loop str (i + 2) value (j + 1) True }) })
      else None)"
  by pat_completeness auto
termination
  by (relation "measure (\<lambda>(str, i, _, _, _). length str - i)") auto

declare hex_chars_loop.simps [simp del]

definition hex_chars_to_uint8 :: "u8 list \<Rightarrow> u8 list \<Rightarrow> (u8 list \<times> bool) option" where
  "hex_chars_to_uint8 value_str value = hex_chars_loop value_str 0 value 0 False"

text \<open>The target is the eight bytes of the \<open>uint64_t\<close>, least significant first, as on the ARM core.\<close>

primrec hex_uint64_loop :: "u8 list \<Rightarrow> nat \<Rightarrow> nat \<Rightarrow> u8 list \<Rightarrow> (u8 list \<times> bool) option" where
  "hex_uint64_loop str i 0 v = Some (v, True)"
| "hex_uint64_loop str i (Suc n) v = do {
     hi \<leftarrow> rd str (i * 2);
     low \<leftarrow> rd str (i * 2 + 1);
     (case hex_char_to_uint8 hi low of
        None \<Rightarrow> Some (v, False)
      | Some b \<Rightarrow> do { v \<leftarrow> wr v (7 - i) b; hex_uint64_loop str (i + 1) n v }) }"

definition hex_chars_to_uint64 :: "u8 list \<Rightarrow> u8 list \<Rightarrow> (u8 list \<times> bool) option" where
  "hex_chars_to_uint64 value_str value = hex_uint64_loop value_str 0 8 value"

definition hex_digits :: "u8 list" where
  "hex_digits = [48, 49, 50, 51, 52, 53, 54, 55, 56, 57, 65, 66, 67, 68, 69, 70]"

primrec uint8_to_hex_chars :: "u8 list \<Rightarrow> u8 list \<Rightarrow> nat \<Rightarrow> u8 list option" where
  "uint8_to_hex_chars src target 0 = Some target"
| "uint8_to_hex_chars src target (Suc len) = do {
     b \<leftarrow> rd src (len div 2);
     c \<leftarrow> rd hex_digits (unat (drop_bit ((1 - len mod 2) * 4) b AND 0xF));
     target \<leftarrow> wr target len c;
     uint8_to_hex_chars src target len }"

section \<open>Lemmas\<close>

lemma bit_below:
  assumes "unat (v :: 'a::len word) < 2 ^ k" "bit v j"
  shows "j < k"
proof -
  have "take_bit k v = v"
    using assms(1) by (simp add: word_unat_eq_iff unsigned_take_bit_eq take_bit_nat_eq_self_iff)
  with assms(2) show ?thesis by (metis bit_take_bit_iff)
qed

lemma and_7f: "x AND 0x7F = take_bit 7 (x :: 'a::len word)"
  by (simp add: take_bit_eq_mask mask_eq_exp_minus_1)

function varint_bytes :: "u32 \<Rightarrow> u8 list" where
  "varint_bytes v = (if v \<ge> 0x80 then ucast (v OR 0x80) # varint_bytes (drop_bit 7 v) else [ucast v])"
  by pat_completeness auto
termination
  by (relation "measure unat") (auto simp: drop_7_less not_less)

declare varint_bytes.simps [simp del]

lemma varint_bytes_ne: "0 < length (varint_bytes v)"
  by (subst varint_bytes.simps) simp

lemma varint_pack_loop_spec:
  "pos + length (varint_bytes v) \<le> length out \<Longrightarrow>
    varint_pack_loop v out pos = Some (overwrite pos (varint_bytes v) out, pos + length (varint_bytes v))"
proof (induction v arbitrary: out pos rule: varint_bytes.induct)
  case (1 v)
  show ?case
  proof (cases "v \<ge> 0x80")
    case True
    let ?b = "ucast (v OR 0x80) :: u8"
    have bs: "varint_bytes v = [?b] @ varint_bytes (drop_bit 7 v)" using True by (subst varint_bytes.simps) simp
    have fits: "pos + 1 + length (varint_bytes (drop_bit 7 v)) \<le> length out" using "1.prems" by (simp add: bs)
    have w: "overwrite pos [?b] out = out[pos := ?b]" using overwrite_snoc [of pos "[]" out ?b] fits by simp
    have "varint_pack_loop (drop_bit 7 v) (out[pos := ?b]) (pos + 1)
      = Some (overwrite (pos + 1) (varint_bytes (drop_bit 7 v)) (overwrite pos [?b] out), pos + 1 + length (varint_bytes (drop_bit 7 v)))"
      unfolding w using fits by (intro "1.IH" [OF True]) simp
    also have "overwrite (pos + 1) (varint_bytes (drop_bit 7 v)) (overwrite pos [?b] out) = overwrite pos (varint_bytes v) out"
      using overwrite_append [of pos "[?b]" "varint_bytes (drop_bit 7 v)" out] fits by (simp add: bs)
    finally show ?thesis using True fits by (subst varint_pack_loop.simps) (simp add: mem_simps bs)
  next
    case False
    then have bs: "varint_bytes v = [ucast v]" by (subst varint_bytes.simps) simp
    with "1.prems" have "pos < length out" by simp
    with overwrite_snoc [of pos "[]" out "ucast v"] bs False show ?thesis
      by (subst varint_pack_loop.simps) (simp add: mem_simps)
  qed
qed

lemma varint_length_loop_spec: "varint_length_loop v n = n + length (varint_bytes v)"
proof (induction v arbitrary: n rule: varint_bytes.induct)
  case (1 v)
  show ?case
  proof (cases "v \<ge> 0x80")
    case True
    with 1 [OF True] show ?thesis by (subst varint_length_loop.simps, subst varint_bytes.simps) simp
  next
    case False
    then show ?thesis by (subst varint_length_loop.simps, subst varint_bytes.simps) simp
  qed
qed

lemma varint_bytes_length: "unat v < 2 ^ (7 * n) \<Longrightarrow> 0 < n \<Longrightarrow> length (varint_bytes v) \<le> n"
proof (induction n arbitrary: v)
  case (Suc n)
  show ?case
  proof (cases "v \<ge> 0x80")
    case True
    have u: "unat (drop_bit 7 v) = unat v div 128" by (simp only: unat_drop_bit_eq) (simp add: drop_bit_eq_div)
    have "0 < n" using Suc.prems(1) True by (cases n) (auto simp: word_le_nat_alt)
    moreover have "unat (drop_bit 7 v) < 2 ^ (7 * n)"
      unfolding u using Suc.prems(1) by (simp add: div_less_iff_less_mult power_add mult.commute)
    ultimately show ?thesis using Suc.IH True by (subst varint_bytes.simps) simp
  next
    case False
    then show ?thesis by (subst varint_bytes.simps) simp
  qed
qed simp

lemma varint_unpack_loop_spec:
  assumes "i + length (varint_bytes v) \<le> n" "n \<le> length d" "seg i (length (varint_bytes v)) d = varint_bytes v"
    and "i * 7 + 7 * length (varint_bytes v) < 39"
  shows "varint_unpack_loop d n i p = Some (p OR push_bit (7 * i) v, i + length (varint_bytes v))"
  using assms
proof (induction v arbitrary: i p rule: varint_bytes.induct)
  case (1 v)
  have i: "i < n" "i < length d" using "1.prems"(1,2) varint_bytes_ne [of v] by linarith+
  have b: "d ! i = hd (varint_bytes v)"
    using "1.prems"(1-3) varint_bytes_ne [of v] nth_seg [of i "length (varint_bytes v)" d 0] by (auto simp: hd_conv_nth)
  have s: "7 * i < 32" using "1.prems"(4) varint_bytes_ne [of v] by linarith
  show ?case
  proof (cases "v \<ge> 0x80")
    case True
    let ?r = "varint_bytes (drop_bit 7 v)"
    have bs: "varint_bytes v = ucast (v OR 0x80) # ?r" using True by (subst varint_bytes.simps) simp
    have "seg i (Suc (length ?r)) d = d ! i # seg (Suc i) (length ?r) d"
      using "1.prems"(1,2) by (intro seg_Cons) (simp add: bs)
    with "1.prems"(3) have r: "seg (Suc i) (length ?r) d = ?r" by (simp add: bs)
    have IH: "varint_unpack_loop d n (i + 1) q = Some (q OR push_bit (7 * (i + 1)) (drop_bit 7 v), i + 1 + length ?r)" for q
      by (rule "1.IH" [OF True]) (use "1.prems" r in \<open>simp_all add: bs\<close>)
    have d: "d ! i = ucast (v OR 0x80)" using b bs by simp
    have "bit (d ! i) 7" unfolding d by (simp add: bit_ucast_iff bit_or_iff)
    then have t: "d ! i AND 0x80 \<noteq> 0" using and_exp_eq_0_iff_not_bit [of "d ! i" 7] by simp
    have "push_bit (7 * i) (ucast (d ! i) AND 0x7F) OR push_bit (7 * (i + 1)) (drop_bit 7 v) = push_bit (7 * i) v"
    proof (rule bit_word_eqI)
      fix k assume k: "k < LENGTH(32)"
      have z: "\<not> bit (0x80 :: u32) j" if "j < 7" for j
        using that by (auto simp: numeral_eq_Suc less_Suc_eq)
      show "bit (push_bit (7 * i) (ucast (d ! i) AND 0x7F) OR push_bit (7 * (i + 1)) (drop_bit 7 v)) k = bit (push_bit (7 * i) v) k"
        using k z [of "k - 7 * i"] unfolding and_7f d
        by (cases "k < 7 * i + 7") (auto simp: bit_or_iff bit_push_bit_iff bit_take_bit_iff bit_ucast_iff bit_drop_bit_eq)
    qed
    moreover have "varint_unpack_loop d n i p
        = varint_unpack_loop d n (i + 1) (p OR push_bit (7 * i) (ucast (d ! i) AND 0x7F))"
      using i s t by (subst varint_unpack_loop.simps) (simp add: mem_simps)
    ultimately show ?thesis unfolding IH by (simp only: or.assoc bs list.size add_Suc_right) simp
  next
    case False
    then have bs: "varint_bytes v = [ucast v]" by (subst varint_bytes.simps) simp
    then have d: "d ! i = ucast v" using b by simp
    have v: "unat v < 2 ^ 7" using False by (simp add: word_le_nat_alt)
    have "\<not> bit v 7" using bit_below [OF v, of 7] by auto
    then have "\<not> bit (d ! i) 7" unfolding d by (simp add: bit_ucast_iff)
    then have t: "d ! i AND 0x80 = 0" using and_exp_eq_0_iff_not_bit [of "d ! i" 7] by simp
    have "ucast (d ! i) AND 0x7F = v"
      unfolding and_7f d by (rule bit_word_eqI) (auto simp: bit_take_bit_iff bit_ucast_iff dest: bit_below [OF v])
    moreover have "varint_unpack_loop d n i p = Some (p OR push_bit (7 * i) (ucast (d ! i) AND 0x7F), i + 1)"
      using i s t by (subst varint_unpack_loop.simps) (simp add: mem_simps)
    ultimately show ?thesis by (simp add: bs)
  qed
qed

text \<open>Zig-zag coding is inverted on every value that it codes without overflow.\<close>

lemma zigzag_Some: "- (2 ^ 30) < sint value \<Longrightarrow> sint value < 2 ^ 30 \<Longrightarrow> \<exists>v. varint_zigzag value = Some v"
  by (simp add: varint_zigzag_def)

lemma zigzag_decode:
  assumes "varint_zigzag value = Some v"
  shows "(if v AND 1 \<noteq> 0 then word_of_int (sint (v + 1) sdiv (- 2)) else v div 2) = value"
proof (cases "0 \<le> sint value")
  case True
  with assms have v: "v = word_of_int (sint value * 2)" and b: "sint value * 2 < 2 ^ 31"
    by (simp_all add: varint_zigzag_def split: if_splits)
  have uv: "uint v = sint value * 2"
    unfolding v uint_word_of_int using True b by (intro mod_pos_pos_trivial) simp_all
  have "uint (v AND 1) = uint v mod 2" by (simp add: and_one_eq uint_mod_distrib)
  then have "v AND 1 = 0" by (simp add: uv word_uint_eq_iff)
  moreover have "v div 2 = value"
  proof -
    have "uint (v div 2) = sint value" by (simp add: uint_div_distrib uv)
    have "v div 2 = word_of_int (uint (v div 2))" by simp
    also have "\<dots> = word_of_int (sint value)" by (simp only: \<open>uint (v div 2) = sint value\<close>)
    finally show ?thesis by simp
  qed
  ultimately show ?thesis by simp
next
  case False
  with assms have v: "v = word_of_int (sint value * (- 2) - 1)" and b: "sint value * (- 2) < 2 ^ 31"
    by (simp_all add: varint_zigzag_def split: if_splits)
  have v1: "v + 1 = word_of_int (sint value * (- 2))" unfolding v by simp
  have uv: "uint v = sint value * (- 2) - 1"
    unfolding v uint_word_of_int using False b by (intro mod_pos_pos_trivial) simp_all
  have "sint (v + 1) = sint value * (- 2)" unfolding v1 sint_sbintrunc' using False b
    by (intro signed_take_bit_int_eq_self) simp_all
  moreover have "- (sint value * 2) div 2 = - sint value" by linarith
  ultimately have q: "sint (v + 1) sdiv (- 2) = sint value" by (simp add: signed_divide_int_def sgn_if abs_if)
  have "uint (v AND 1) = uint v mod 2" by (simp add: and_one_eq uint_mod_distrib)
  moreover have "(- (sint value * 2) - 1) mod 2 = 1" by presburger
  ultimately have "v AND 1 \<noteq> 0" by (auto simp: uv word_uint_eq_iff)
  with q show ?thesis by simp
qed

subsection \<open>Hexadecimal digits\<close>

lemma nibble_16: "unat (x AND 0xF :: u8) < 16"
proof -
  have "x AND 0xF = take_bit 4 x" by (simp add: take_bit_eq_mask mask_eq_exp_minus_1)
  then show ?thesis using take_bit_nat_less_exp [of 4 "unat x"] by (simp add: unsigned_take_bit_eq)
qed

lemma hex_digit_nibble:
  "\<forall>n \<in> set [0..<16]. hex_char_to_hex_nibble (hex_digits ! n) = Some (word_of_nat n) \<and> hex_digits ! n \<noteq> 0"
  by code_simp

lemma hex_digits_nibble:
  "hex_char_to_hex_nibble (hex_digits ! unat (x AND 0xF)) = Some (x AND 0xF)" "hex_digits ! unat (x AND 0xF) \<noteq> 0"
  using bspec [OF hex_digit_nibble, of "unat (x AND 0xF)"] nibble_16 [of x] by simp_all

lemma byte_of_nibbles: "push_bit 4 (drop_bit 4 b AND 0xF) OR (b AND 0xF) = (b :: u8)"
proof (rule bit_word_eqI)
  fix n assume n: "n < LENGTH(8)"
  have F: "x AND 0xF = take_bit 4 x" for x :: u8 by (simp add: take_bit_eq_mask mask_eq_exp_minus_1)
  show "bit (push_bit 4 (drop_bit 4 b AND 0xF) OR (b AND 0xF)) n = bit b n"
    unfolding F using n by (auto simp: bit_or_iff bit_push_bit_iff bit_take_bit_iff bit_drop_bit_eq)
qed

text \<open>The two characters of a byte.\<close>

definition hex_pair :: "u8 \<Rightarrow> u8 list" where
  "hex_pair b = [hex_digits ! unat (drop_bit 4 b AND 0xF), hex_digits ! unat (b AND 0xF)]"

lemma hex_pair_decode: "hex_char_to_uint8 (hex_pair b ! 0) (hex_pair b ! 1) = Some b"
  by (simp add: hex_char_to_uint8_def hex_pair_def hex_digits_nibble byte_of_nibbles del: push_bit_and)

definition hex_text :: "u8 list \<Rightarrow> u8 list" where
  "hex_text bs = concat (map hex_pair bs)"

lemma length_hex_text [simp]: "length (hex_text bs) = 2 * length bs"
  by (induction bs) (simp_all add: hex_text_def hex_pair_def)

lemma nth_hex_text: "i < length bs \<Longrightarrow> hex_text bs ! (2 * i) = hex_pair (bs ! i) ! 0 \<and> hex_text bs ! (2 * i + 1) = hex_pair (bs ! i) ! 1"
proof (induction bs arbitrary: i)
  case (Cons b bs)
  then show ?case by (cases i) (simp_all add: hex_text_def hex_pair_def)
qed simp

lemma uint8_to_hex_loop:
  assumes "length target = 2 * length src"
  shows "n \<le> 2 * length src \<Longrightarrow> drop n target = drop n (hex_text src) \<Longrightarrow> uint8_to_hex_chars src target n = Some (hex_text src)"
  using assms
proof (induction n arbitrary: target)
  case 0
  then show ?case by simp
next
  case (Suc n)
  define i where "i = n div 2"
  have i: "i < length src" using Suc.prems(1) unfolding i_def by linarith
  have c: "hex_digits ! unat (drop_bit ((1 - n mod 2) * 4) (src ! i) AND 0xF) = hex_text src ! n"
  proof (cases "even n")
    case True
    then have "n = 2 * i" by (simp add: i_def)
    then show ?thesis using nth_hex_text [OF i] True by (simp add: hex_pair_def)
  next
    case False
    then have "n = 2 * i + 1" by (simp add: i_def)
    then show ?thesis using nth_hex_text [OF i] False by (simp add: hex_pair_def odd_iff_mod_2_eq_one)
  qed
  have "length hex_digits = 16" by (simp add: hex_digits_def)
  then have step: "uint8_to_hex_chars src target (Suc n) = uint8_to_hex_chars src (target[n := hex_text src ! n]) n"
    using Suc.prems(1,3) i nibble_16 [of "drop_bit ((1 - n mod 2) * 4) (src ! i)"] c by (simp add: mem_simps flip: i_def)
  have "drop n (target[n := hex_text src ! n]) = drop n (hex_text src)"
    using Suc.prems by (simp add: Cons_nth_drop_Suc [symmetric])
  then show ?case unfolding step using Suc.prems by (intro Suc.IH) simp_all
qed

lemma hex_chars_loop_spec:
  assumes "str = hex_text bs @ 0 # rest" "length val = length bs"
  shows "j \<le> length bs \<Longrightarrow> take j val = take j bs \<Longrightarrow> (j = 0 \<longrightarrow> ok = (bs = [])) \<Longrightarrow> (j > 0 \<longrightarrow> ok)
    \<Longrightarrow> hex_chars_loop str (2 * j) val j ok = Some (bs, True)"
  using assms(2)
proof (induction "length bs - j" arbitrary: j val ok)
  case 0
  then have "j = length bs" "val = bs" "ok" by (auto split: if_splits)
  then show ?case using assms(1) by (subst hex_chars_loop.simps) (simp add: nth_append)
next
  case (Suc k)
  then have j: "j < length bs" by simp
  have c: "str ! (2 * j) = hex_pair (bs ! j) ! 0" "str ! (2 * j + 1) = hex_pair (bs ! j) ! 1"
    using nth_hex_text [OF j] j by (simp_all add: assms(1) nth_append)
  have nz: "hex_pair (bs ! j) ! 0 \<noteq> 0" "hex_pair (bs ! j) ! 1 \<noteq> 0"
    by (simp_all add: hex_pair_def hex_digits_nibble)
  have len: "2 * j + 1 < length str" using j by (simp add: assms(1))
  have "hex_chars_loop str (2 * j) val j ok = hex_chars_loop str (2 * Suc j) (val[j := bs ! j]) (Suc j) True"
    using c nz len j Suc.prems(5) hex_pair_decode [of "bs ! j"]
    by (subst hex_chars_loop.simps) (simp add: mem_simps)
  also have "\<dots> = Some (bs, True)"
    using Suc.prems j Suc.hyps(2) by (intro Suc.hyps(1)) (simp_all add: take_Suc_conv_app_nth take_update_swap list_update_append)
  finally show ?case .
qed


lemma varint_bytes_max: "length (varint_bytes v) \<le> 5"
proof (rule varint_bytes_length)
  have "unat v < 2 ^ 32" using unsigned_less [of v] by simp
  then show "unat v < 2 ^ (7 * 5)" by simp
qed simp

lemma varint_pack_unpack:
  assumes "5 \<le> length out"
  shows "\<exists>d n. varint_uint32_pack v out = Some (d, n) \<and> n = varint_uint32_length v \<and> 0 < n \<and> n \<le> 5
    \<and> length d = length out \<and> drop n d = drop n out
    \<and> (\<forall>m. n \<le> m \<longrightarrow> m \<le> length d \<longrightarrow> varint_uint32_unpack d m = Some (v, n))"
proof -
  define bs where "bs = varint_bytes v"
  have n: "0 < length bs" "length bs \<le> 5" unfolding bs_def using varint_bytes_ne varint_bytes_max by simp_all
  then have fit: "0 + length bs \<le> length out" using assms by simp
  define d where "d = overwrite 0 bs out"
  have len: "length d = length out" using fit by (simp add: d_def)
  have run: "varint_uint32_pack v out = Some (d, length bs)"
    using varint_pack_loop_spec [of 0 v out] fit by (simp add: varint_uint32_pack_def d_def bs_def)
  have "seg 0 (length bs) d = bs" unfolding d_def using fit by (rule seg_overwrite)
  then have "varint_uint32_unpack d m = Some (v, length bs)" if "length bs \<le> m" "m \<le> length d" for m
    using varint_unpack_loop_spec [of 0 v m d 0] that n by (simp add: varint_uint32_unpack_def bs_def)
  moreover have "drop (length bs) d = drop (length bs) out" by (simp add: d_def overwrite_def)
  moreover have "varint_uint32_length v = length bs" by (simp add: varint_uint32_length_def varint_length_loop_spec bs_def)
  ultimately show ?thesis using run n len by simp
qed

lemma varint_unpack_more:
  assumes "\<forall>b \<in> set (take n d). b AND 0x80 \<noteq> 0" "n \<le> length d" "n \<le> 4"
  shows "i \<le> n \<Longrightarrow> \<exists>p'. varint_unpack_loop d n i p = Some (p', n + 1)"
proof (induction "n - i" arbitrary: i p)
  case 0
  then show ?case by (subst varint_unpack_loop.simps) simp
next
  case (Suc k)
  then have i: "i < n" by simp
  then have "d ! i \<in> set (take n d)" using assms(2) by (auto simp: in_set_conv_nth)
  then have "d ! i AND 0x80 \<noteq> 0" using assms(1) by blast
  then have "varint_unpack_loop d n i p = varint_unpack_loop d n (Suc i) (p OR push_bit (7 * i) (ucast (d ! i) AND 0x7F))"
    using i assms(2,3) by (subst varint_unpack_loop.simps) (simp add: mem_simps)
  then show ?case using Suc.hyps(1) [of "Suc i"] Suc.hyps(2) i by simp
qed

section \<open>Properties\<close>

text \<open>C8: packing any 32-bit number into at least five bytes writes as many bytes as
  \<open>varint_uint32_length\<close> announces, leaves the rest alone, and unpacking from any longer input gives
  the number and the same length.\<close>

theorem varint_round_trip:
  assumes "5 \<le> length out"
  shows "\<exists>d n. varint_uint32_pack v out = Some (d, n) \<and> n = varint_uint32_length v \<and> n \<le> 5
    \<and> drop n d = drop n out
    \<and> (\<forall>m. n \<le> m \<longrightarrow> m \<le> length d \<longrightarrow> varint_uint32_unpack d m = Some (v, n))"
  using varint_pack_unpack [OF assms, of v] by blast

theorem varint_round_trip_witness:
  "\<exists>d n. varint_uint32_pack 300 [0, 0, 0, 0, 0, 7] = Some (d, n) \<and> n = varint_uint32_length 300 \<and> n \<le> 5
    \<and> drop n d = drop n [0, 0, 0, 0, 0, 7]
    \<and> (\<forall>m. n \<le> m \<longrightarrow> m \<le> length d \<longrightarrow> varint_uint32_unpack d m = Some (300, n))"
  by (rule varint_round_trip) simp

text \<open>What a machine that wraps signed products around computes in the same place.\<close>

definition varint_zigzag_wrapped :: "32 word \<Rightarrow> u32" where
  "varint_zigzag_wrapped value = (if 0 \<le> sint value then value * 2 else value * (- 2) - 1)"

lemma zigzag_wrapped_eq: "varint_zigzag value = Some v \<Longrightarrow> varint_zigzag_wrapped value = v"
  by (auto simp: varint_zigzag_def varint_zigzag_wrapped_def split: if_splits)

lemma zigzag_None: "varint_zigzag value = None \<longleftrightarrow> \<not> (- (2 ^ 30) < sint value \<and> sint value < 2 ^ 30)"
  by (auto simp: varint_zigzag_def)

lemma zigzag_wrapped_decode:
  assumes "- (2 ^ 30) < sint value" "varint_zigzag_wrapped value = v"
  shows "(if v AND 1 \<noteq> 0 then word_of_int (sint (v + 1) sdiv (- 2)) else v div 2) = value"
proof (cases "sint value < 2 ^ 30")
  case True
  with assms(1) obtain v' where "varint_zigzag value = Some v'" using zigzag_Some by blast
  with zigzag_decode [OF this] zigzag_wrapped_eq [OF this] assms(2) show ?thesis by (simp only:)
next
  case False
  then have v: "v = value * 2" using assms(2) by (simp add: varint_zigzag_wrapped_def)
  have "sint value < 2 ^ 31" using sint_lt [of "value"] by simp
  moreover have "take_bit 32 (sint value) = sint value" using False calculation by (intro take_bit_int_eq_self) simp_all
  ultimately have u: "uint value < 2 ^ 31" by (simp add: uint_sint)
  then have uv: "uint v = uint value * 2" unfolding v by (simp add: uint_word_ariths)
  have "uint (v AND 1) = uint v mod 2" by (simp add: and_one_eq uint_mod_distrib)
  then have "v AND 1 = 0" by (simp add: uv word_uint_eq_iff)
  moreover have "v div 2 = value" by (simp add: word_uint_eq_iff uint_div_distrib uv)
  ultimately show ?thesis by simp
qed

text \<open>C9: the signed coding round trips on the open interval \<open>(-2^30, 2^30)\<close>, and that is all it is
  defined on: for every other value the product by two overflows \<open>int32_t\<close>, in packing and in the length.
  On the values from \<open>2^30\<close> on, which \<open>varint.h\<close> admits, only a machine that wraps the product around restores the number.\<close>

theorem varint_int32_round_trip:
  assumes "5 \<le> length out"
  shows "(if - (2 ^ 30) < sint value \<and> sint value < 2 ^ 30
      then \<exists>d n. varint_int32_pack value out = Some (d, n) \<and> varint_int32_length value = Some n
        \<and> varint_int32_unpack d n = Some (value, n)
      else varint_int32_pack value out = None \<and> varint_int32_length value = None)
    \<and> (- (2 ^ 30) < sint value \<longrightarrow> (\<exists>d n. varint_uint32_pack (varint_zigzag_wrapped value) out = Some (d, n)
        \<and> varint_int32_unpack d n = Some (value, n)))"
proof -
  have packed: "\<exists>d n. varint_uint32_pack v out = Some (d, n) \<and> n = varint_uint32_length v \<and> varint_uint32_unpack d n = Some (v, n)" for v
    using varint_pack_unpack [OF assms, of v] assms by fastforce
  show ?thesis
  proof (intro conjI impI)
    show "if - (2 ^ 30) < sint value \<and> sint value < 2 ^ 30
      then \<exists>d n. varint_int32_pack value out = Some (d, n) \<and> varint_int32_length value = Some n
        \<and> varint_int32_unpack d n = Some (value, n)
      else varint_int32_pack value out = None \<and> varint_int32_length value = None"
    proof (cases "varint_zigzag value")
      case None
      then show ?thesis using zigzag_None [of "value"] by (simp add: varint_int32_pack_def varint_int32_length_def)
    next
      case (Some v)
      note v = this
      show ?thesis using v packed [of v] zigzag_decode [OF v] zigzag_None [of "value"]
        by (auto simp: varint_int32_pack_def varint_int32_length_def varint_int32_unpack_def)
    qed
  next
    assume "- (2 ^ 30) < sint value"
    from zigzag_wrapped_decode [OF this refl] packed [of "varint_zigzag_wrapped value"]
    show "\<exists>d n. varint_uint32_pack (varint_zigzag_wrapped value) out = Some (d, n) \<and> varint_int32_unpack d n = Some (value, n)"
      by (auto simp: varint_int32_unpack_def)
  qed
qed

theorem varint_int32_round_trip_witness:
  "(\<exists>d n. varint_int32_pack (- 300) [0, 0, 0, 0, 0] = Some (d, n) \<and> varint_int32_length (- 300) = Some n
      \<and> varint_int32_unpack d n = Some (- 300, n))
    \<and> varint_int32_pack 0x7FFFFFFF [0, 0, 0, 0, 0] = None"
  using varint_int32_round_trip [of "[0, 0, 0, 0, 0]" "- 300"] varint_int32_round_trip [of "[0, 0, 0, 0, 0]" "0x7FFFFFFF"] by simp

text \<open>An input that ends inside a number is not reported: the length that comes back is one more
  than the number of bytes that were there.\<close>

theorem varint_truncated_input:
  assumes "\<forall>b \<in> set (take n d). b AND 0x80 \<noteq> 0" "n \<le> length d" "n \<le> 4"
  shows "\<exists>p. varint_uint32_unpack d n = Some (p, n + 1)"
  using varint_unpack_more [OF assms, of 0 0] by (simp add: varint_uint32_unpack_def)

theorem varint_truncated_input_witness: "\<exists>p. varint_uint32_unpack [0x80, 0xFF] 2 = Some (p, 3)"
  using varint_truncated_input [of 2 "[0x80, 0xFF]"] by simp

text \<open>C10: printing bytes as hexadecimal text and parsing the zero-terminated text gives the bytes
  back; every access stays inside the two arrays.\<close>

theorem hex_round_trip:
  assumes "length target = 2 * length bs" "length val = length bs" "bs \<noteq> []"
  shows "\<exists>str. uint8_to_hex_chars bs target (length target) = Some str
    \<and> hex_chars_to_uint8 (str @ [0]) val = Some (bs, True)"
proof -
  have "uint8_to_hex_chars bs target (length target) = Some (hex_text bs)"
    using assms(1) by (intro uint8_to_hex_loop) simp_all
  moreover have "hex_chars_loop (hex_text bs @ [0]) (2 * 0) val 0 False = Some (bs, True)"
    using assms(2,3) by (intro hex_chars_loop_spec [where rest = "[]"]) simp_all
  ultimately show ?thesis by (simp add: hex_chars_to_uint8_def)
qed

theorem hex_round_trip_witness:
  "\<exists>str. uint8_to_hex_chars [0x1A, 0xF0] [0, 0, 0, 0] (length [0, 0, 0, 0 :: u8]) = Some str
    \<and> hex_chars_to_uint8 (str @ [0]) [0, 0] = Some ([0x1A, 0xF0], True)"
  by (rule hex_round_trip) simp_all
end
