(* ===== verification/Manchester.thy ===== *)
theory Manchester
  imports Prelude
begin

text \<open>
  Manchester coding, \<open>lib/toolbox/manchester_decoder.c\<close> and \<open>manchester_encoder.c\<close>: the decoder turns
  pulse events into bits by a table of transitions, the encoder turns bits into pulses and says when
  it wants the next bit.
\<close>

section \<open>Decoder\<close>

datatype ManchesterEvent =
    ManchesterEventShortLow | ManchesterEventShortHigh | ManchesterEventLongLow
  | ManchesterEventLongHigh | ManchesterEventReset

datatype ManchesterState =
    ManchesterStateStart1 | ManchesterStateMid1 | ManchesterStateMid0 | ManchesterStateStart0

text \<open>The numbers that the C enumerations give to the constants.\<close>

primrec event_code :: "ManchesterEvent \<Rightarrow> nat" where
  "event_code ManchesterEventShortLow = 0"
| "event_code ManchesterEventShortHigh = 2"
| "event_code ManchesterEventLongLow = 4"
| "event_code ManchesterEventLongHigh = 6"
| "event_code ManchesterEventReset = 8"

primrec state_code :: "ManchesterState \<Rightarrow> nat" where
  "state_code ManchesterStateStart1 = 0"
| "state_code ManchesterStateMid1 = 1"
| "state_code ManchesterStateMid0 = 2"
| "state_code ManchesterStateStart0 = 3"

definition state_of_code :: "u8 \<Rightarrow> ManchesterState" where
  "state_of_code c = (if c = 0 then ManchesterStateStart1 else if c = 1 then ManchesterStateMid1
     else if c = 2 then ManchesterStateMid0 else ManchesterStateStart0)"

definition transitions :: "u8 list" where
  "transitions = [0b00000001, 0b10010001, 0b10011011, 0b11111011]"

definition manchester_reset_state :: ManchesterState where
  "manchester_reset_state = ManchesterStateMid1"

text \<open>The result is the next state and the bit, \<open>None\<close> when the function returns \<open>false\<close>.\<close>

definition manchester_advance :: "ManchesterState \<Rightarrow> ManchesterEvent \<Rightarrow> ManchesterState \<times> bool option" where
  "manchester_advance state event =
     (if event = ManchesterEventReset then (manchester_reset_state, None)
      else let new_state = state_of_code (drop_bit (event_code event) (transitions ! state_code state) AND 3) in
        if new_state = state then (manchester_reset_state, None)
        else if new_state = ManchesterStateMid0 then (new_state, Some False)
        else if new_state = ManchesterStateMid1 then (new_state, Some True)
        else (new_state, None))"

section \<open>Encoder\<close>

record ManchesterEncoderState =
  mes_prev_bit :: bool
  mes_step :: nat

datatype ManchesterEncoderResult =
    ManchesterEncoderResultShortLow | ManchesterEncoderResultLongLow
  | ManchesterEncoderResultLongHigh | ManchesterEncoderResultShortHigh

definition encoder_result_of :: "nat \<Rightarrow> ManchesterEncoderResult" where
  "encoder_result_of n = (if n = 0 then ManchesterEncoderResultShortLow else if n = 1 then ManchesterEncoderResultLongLow
     else if n = 2 then ManchesterEncoderResultLongHigh else ManchesterEncoderResultShortHigh)"

definition manchester_encoder_reset :: "ManchesterEncoderState \<Rightarrow> ManchesterEncoderState" where
  "manchester_encoder_reset st = st\<lparr>mes_step := 0\<rparr>"

text \<open>
  The result is the state, the pulse (\<open>None\<close> when \<open>*result\<close> is not written) and whether the
  encoder wants the next bit.
\<close>

definition manchester_encoder_advance ::
  "ManchesterEncoderState \<Rightarrow> bool \<Rightarrow> ManchesterEncoderState \<times> ManchesterEncoderResult option \<times> bool" where
  "manchester_encoder_advance st curr_bit =
     (if mes_step st = 0 then
        let st = st\<lparr>mes_prev_bit := curr_bit\<rparr> in
        (st\<lparr>mes_step := 1\<rparr>,
         Some (if mes_prev_bit st then ManchesterEncoderResultShortLow else ManchesterEncoderResultShortHigh), True)
      else if mes_step st = 1 then
        let result = encoder_result_of (2 * of_bool (mes_prev_bit st) + of_bool curr_bit) in
        if curr_bit = mes_prev_bit st then (st\<lparr>mes_step := 2\<rparr>, Some result, False)
        else (st\<lparr>mes_prev_bit := curr_bit\<rparr>, Some result, True)
      else if mes_step st = 2 then
        (st\<lparr>mes_prev_bit := curr_bit, mes_step := 1\<rparr>,
         Some (if curr_bit then ManchesterEncoderResultShortLow else ManchesterEncoderResultShortHigh), True)
      else (st, None, False))"

definition manchester_encoder_finish :: "ManchesterEncoderState \<Rightarrow> ManchesterEncoderState \<times> ManchesterEncoderResult" where
  "manchester_encoder_finish st =
     (st\<lparr>mes_step := 0\<rparr>, encoder_result_of (2 * of_bool (mes_prev_bit st) + of_bool (mes_prev_bit st)))"

section \<open>Runs\<close>

text \<open>How the protocols use the encoder: call it with the same bit until it asks for the next one.\<close>

definition encode_bit :: "ManchesterEncoderState \<Rightarrow> bool \<Rightarrow> ManchesterEncoderState \<times> ManchesterEncoderResult list" where
  "encode_bit st b = (case manchester_encoder_advance st b of (st1, r1, adv) \<Rightarrow>
     if adv then (st1, [the r1])
     else case manchester_encoder_advance st1 b of (st2, r2, _) \<Rightarrow> (st2, [the r1, the r2]))"

primrec encode_bits :: "ManchesterEncoderState \<Rightarrow> bool list \<Rightarrow> ManchesterEncoderResult list" where
  "encode_bits st [] = [snd (manchester_encoder_finish st)]"
| "encode_bits st (b # bs) = (case encode_bit st b of (st', rs) \<Rightarrow> rs @ encode_bits st' bs)"

primrec event_of_result :: "ManchesterEncoderResult \<Rightarrow> ManchesterEvent" where
  "event_of_result ManchesterEncoderResultShortLow = ManchesterEventShortLow"
| "event_of_result ManchesterEncoderResultLongLow = ManchesterEventLongLow"
| "event_of_result ManchesterEncoderResultLongHigh = ManchesterEventLongHigh"
| "event_of_result ManchesterEncoderResultShortHigh = ManchesterEventShortHigh"

primrec decode_events :: "ManchesterState \<Rightarrow> ManchesterEvent list \<Rightarrow> bool list" where
  "decode_events s [] = []"
| "decode_events s (e # es) = (case manchester_advance s e of (s', d) \<Rightarrow>
     (case d of None \<Rightarrow> [] | Some b \<Rightarrow> [b]) @ decode_events s' es)"

section \<open>Lemmas\<close>

text \<open>The transition table spelled out.\<close>

lemma advance_simps [simp]:
  "manchester_advance ManchesterStateStart1 ManchesterEventShortLow = (ManchesterStateMid1, Some True)"
  "manchester_advance ManchesterStateStart1 ManchesterEventShortHigh = (ManchesterStateMid1, None)"
  "manchester_advance ManchesterStateStart1 ManchesterEventLongLow = (ManchesterStateMid1, None)"
  "manchester_advance ManchesterStateStart1 ManchesterEventLongHigh = (ManchesterStateMid1, None)"
  "manchester_advance ManchesterStateStart1 ManchesterEventReset = (ManchesterStateMid1, None)"
  "manchester_advance ManchesterStateMid1 ManchesterEventShortLow = (ManchesterStateMid1, None)"
  "manchester_advance ManchesterStateMid1 ManchesterEventShortHigh = (ManchesterStateStart1, None)"
  "manchester_advance ManchesterStateMid1 ManchesterEventLongLow = (ManchesterStateMid1, None)"
  "manchester_advance ManchesterStateMid1 ManchesterEventLongHigh = (ManchesterStateMid0, Some False)"
  "manchester_advance ManchesterStateMid1 ManchesterEventReset = (ManchesterStateMid1, None)"
  "manchester_advance ManchesterStateMid0 ManchesterEventShortLow = (ManchesterStateStart0, None)"
  "manchester_advance ManchesterStateMid0 ManchesterEventShortHigh = (ManchesterStateMid1, None)"
  "manchester_advance ManchesterStateMid0 ManchesterEventLongLow = (ManchesterStateMid1, Some True)"
  "manchester_advance ManchesterStateMid0 ManchesterEventLongHigh = (ManchesterStateMid1, None)"
  "manchester_advance ManchesterStateMid0 ManchesterEventReset = (ManchesterStateMid1, None)"
  "manchester_advance ManchesterStateStart0 ManchesterEventShortLow = (ManchesterStateMid1, None)"
  "manchester_advance ManchesterStateStart0 ManchesterEventShortHigh = (ManchesterStateMid0, Some False)"
  "manchester_advance ManchesterStateStart0 ManchesterEventLongLow = (ManchesterStateMid1, None)"
  "manchester_advance ManchesterStateStart0 ManchesterEventLongHigh = (ManchesterStateMid1, None)"
  "manchester_advance ManchesterStateStart0 ManchesterEventReset = (ManchesterStateMid1, None)"
  by code_simp+

lemma advance_reset [simp]: "manchester_advance s ManchesterEventReset = (ManchesterStateMid1, None)"
  by (cases s) simp_all

definition mid_state :: "bool \<Rightarrow> ManchesterState" where
  "mid_state b = (if b then ManchesterStateMid1 else ManchesterStateMid0)"

lemma encode_decode_bit:
  "mes_step st = 1 \<Longrightarrow> mes_prev_bit st = p \<Longrightarrow> encode_bit st b = (st', rs) \<Longrightarrow>
    mes_step st' = 1 \<and> mes_prev_bit st' = b
    \<and> decode_events (mid_state p) (map event_of_result rs @ es) = b # decode_events (mid_state b) es"
  by (cases p; cases b)
    (auto simp: encode_bit_def manchester_encoder_advance_def encoder_result_of_def Let_def mid_state_def)

lemma encode_decode_bits:
  "mes_step st = 1 \<Longrightarrow> mes_prev_bit st = p \<Longrightarrow>
    decode_events (mid_state p) (map event_of_result (encode_bits st bs)) = bs"
proof (induction bs arbitrary: st p)
  case Nil
  then show ?case
    by (cases p) (simp_all add: manchester_encoder_finish_def encoder_result_of_def mid_state_def)
next
  case (Cons b bs)
  obtain st' rs where e: "encode_bit st b = (st', rs)" by fastforce
  show ?case using encode_decode_bit [OF Cons.prems e] Cons.IH [of st' b] by (simp add: e)
qed

text \<open>Before the first one bit the decoder is out of step by half a bit: it takes zeros for ones.\<close>

lemma encode_False:
  assumes "mes_step st = 1" "\<not> mes_prev_bit st" "encode_bit st False = (st', rs)"
  shows "mes_step st' = 1 \<and> \<not> mes_prev_bit st'
    \<and> decode_events ManchesterStateStart1 (map event_of_result rs @ es) = True # decode_events ManchesterStateStart1 es"
  using assms by (auto simp: encode_bit_def manchester_encoder_advance_def encoder_result_of_def Let_def)

lemma decode_unsynchronised:
  "mes_step st = 1 \<Longrightarrow> \<not> mes_prev_bit st \<Longrightarrow>
    decode_events ManchesterStateStart1 (map event_of_result (encode_bits st (replicate k False @ True # bs))) = replicate k True @ bs
    \<and> decode_events ManchesterStateStart1 (map event_of_result (encode_bits st (replicate k False))) = replicate (Suc k) True"
proof (induction k arbitrary: st)
  case 0
  obtain st' rs where e: "encode_bit st True = (st', rs)" by fastforce
  then have "mes_step st' = 1" "mes_prev_bit st'" "rs = [ManchesterEncoderResultLongLow]"
    using 0 by (auto simp: encode_bit_def manchester_encoder_advance_def encoder_result_of_def Let_def)
  then show ?case using 0 encode_decode_bits [of st' True bs]
    by (simp add: e mid_state_def manchester_encoder_finish_def encoder_result_of_def)
next
  case (Suc k)
  obtain st' rs where e: "encode_bit st False = (st', rs)" by fastforce
  show ?case using encode_False [OF Suc.prems e] Suc.IH [of st'] by (simp add: e)
qed

section \<open>Properties\<close>


text \<open>How many half-bit times an event spans.\<close>

primrec half_bits :: "ManchesterEvent \<Rightarrow> nat" where
  "half_bits ManchesterEventShortLow = 1"
| "half_bits ManchesterEventShortHigh = 1"
| "half_bits ManchesterEventLongLow = 2"
| "half_bits ManchesterEventLongHigh = 2"
| "half_bits ManchesterEventReset = 0"

text \<open>Whatever events come, from any state, every reported bit takes two half-bit times of the
  signal (one may have passed before the first event).\<close>

theorem manchester_bit_rate:
  "2 * length (decode_events s es) \<le> sum_list (map half_bits es) + (if s \<in> {ManchesterStateStart1, ManchesterStateStart0} then 1 else 0)"
proof (induction es arbitrary: s)
  case (Cons e es)
  show ?case
    using Cons [of ManchesterStateStart1] Cons [of ManchesterStateStart0] Cons [of ManchesterStateMid1] Cons [of ManchesterStateMid0]
    by (cases s; cases e) simp_all
qed simp
end
