(* ===== verification/Pulses.thy ===== *)
theory Pulses
  imports Prelude
begin

text \<open>
  Sequences of pulses (a level and a time): what a receiver sees of the pulses that a sender makes, and
  the half-bits of Manchester coding seen that way. Shared by the RFID and infrared protocols.
\<close>

text \<open>A reader sees one pulse where the level does not change.\<close>

fun merge :: "(bool \<times> nat) list \<Rightarrow> (bool \<times> nat) list" where
  "merge [] = []"
| "merge ((l, d) # ps) = (case merge ps of
     [] \<Rightarrow> [(l, d)]
   | (l', d') # qs \<Rightarrow> if l = l' then (l, d + d') # qs else (l, d) # (l', d') # qs)"

definition halves :: "nat \<Rightarrow> bool list \<Rightarrow> (bool \<times> nat) list" where
  "halves h bs = concat (map (\<lambda>b. [(b, h), (\<not> b, h)]) bs)"

text \<open>The pulses of the bits after a bit \<open>p\<close>, from the middle of \<open>p\<close> to the middle of the last one.\<close>

primrec pulses :: "nat \<Rightarrow> bool \<Rightarrow> bool list \<Rightarrow> (bool \<times> nat) list" where
  "pulses h p [] = []"
| "pulses h p (b # bs) = (if b = p then [(\<not> p, h), (b, h)] else [(b, h + h)]) @ pulses h b bs"

lemma halves_simps [simp]: "halves h [] = []" "halves h (b # bs) = (b, h) # (\<not> b, h) # halves h bs"
  "halves h (as @ bs) = halves h as @ halves h bs"
  by (simp_all add: halves_def)

lemma merge_halves: "merge ((\<not> p, h) # halves h bs) = pulses h p bs @ [(\<not> last (p # bs), h)]"
proof (induction bs arbitrary: p)
  case (Cons b bs)
  have "\<exists>d qs. pulses h b bs @ [(\<not> last (b # bs), h)] = (\<not> b, d) # qs"
    by (cases bs) auto
  with Cons.IH [of b] show ?case by auto
qed simp

end
