(* ===== verification/PulseJoiner.thy ===== *)
theory PulseJoiner
  imports Pulses
begin

text \<open>
  The pulse joiner, \<open>lib/toolbox/pulse_joiner.c\<close>: it collects pulses, each given as a polarity with
  the time it lasts and the rest of its period at the other level, and gives them out as whole periods (a high part and a low
  part). The library offers it beside \<open>pulse_glue\<close>; nothing in the repository calls it, so the sessions below follow the contract in
  \<open>pulse_joiner.h\<close>: the first low pulse is omitted, and a period is popped when, and as soon as, a push says so.
\<close>

section \<open>Operations\<close>

definition PULSE_MAX_COUNT :: nat where "PULSE_MAX_COUNT = 6"

record Pulse =
  polarity :: bool
  time :: u16

record PulseJoiner =
  pulse_index :: nat
  pulses :: "Pulse list"

definition pulse_joiner_alloc :: PulseJoiner where
  "pulse_joiner_alloc = \<lparr>pulse_index = 0, pulses = replicate PULSE_MAX_COUNT \<lparr>polarity = False, time = 0\<rparr>\<rparr>"

definition store_pulse :: "PulseJoiner \<Rightarrow> bool \<Rightarrow> u16 \<Rightarrow> PulseJoiner option" where
  "store_pulse j p t = do {
     ps \<leftarrow> wr (pulses j) (pulse_index j) \<lparr>polarity = p, time = t\<rparr>;
     Some \<lparr>pulse_index = pulse_index j + 1, pulses = ps\<rparr> }"

text \<open>The loop that counts the edges; the state is \<open>(edges_count, last_polarity)\<close>.\<close>

definition edge_step :: "Pulse list \<Rightarrow> nat \<Rightarrow> nat \<times> bool \<Rightarrow> (nat \<times> bool) option" where
  "edge_step ps i st = do {
     p \<leftarrow> rd ps i;
     Some (if polarity p \<noteq> snd st then (fst st + 1, polarity p) else st) }"

definition pulse_joiner_push_pulse :: "PulseJoiner \<Rightarrow> bool \<Rightarrow> nat \<Rightarrow> nat \<Rightarrow> (PulseJoiner \<times> bool) option" where
  "pulse_joiner_push_pulse j pol period pulse = do {
     furi_check (pulse_index j + 1 < PULSE_MAX_COUNT);
     j \<leftarrow> (if \<not> pol \<and> pulse_index j = 0 then Some j else store_pulse j pol (of_nat pulse));
     j \<leftarrow> (if period > pulse then store_pulse j (\<not> pol) (of_nat (period - pulse)) else Some j);
     (if pulse_index j \<ge> 4 then do {
        p0 \<leftarrow> rd (pulses j) 0;
        (edges_count, _) \<leftarrow> for_loop (edge_step (pulses j)) 1 (pulse_index j - 1) (0, polarity p0);
        Some (j, edges_count \<ge> 2) }
      else Some (j, False)) }"

text \<open>
  The first loop of \<open>pulse_joiner_pop_pulse\<close> from index \<open>i\<close>: edges so far, last polarity, the
  \<open>uint16_t\<close> sums and the index, a \<open>size_t\<close> that wraps at zero. It ends at the second edge or behind
  the last pulse; the result holds \<open>next_fist_pulse\<close>.
\<close>

function pop_loop :: "Pulse list \<Rightarrow> nat \<Rightarrow> nat \<Rightarrow> bool \<Rightarrow> u16 \<Rightarrow> u16 \<Rightarrow> nat \<Rightarrow> (nat \<times> u16 \<times> u16 \<times> nat) option" where
  "pop_loop ps i edges_count last_polarity tmp_period tmp_pulse idx =
     (if i < PULSE_MAX_COUNT then do {
        p \<leftarrow> rd ps i;
        let edges_count = (if polarity p \<noteq> last_polarity then edges_count + 1 else edges_count);
        (if edges_count = 2 then Some (i, tmp_period, tmp_pulse, idx)
         else pop_loop ps (i + 1) edges_count (polarity p) (tmp_period + time p)
                (if polarity p then tmp_pulse + time p else tmp_pulse) (if idx = 0 then 2 ^ 32 - 1 else idx - 1)) }
      else Some (0, tmp_period, tmp_pulse, idx))"
  by pat_completeness auto
termination
  by (relation "measure (\<lambda>(_, i, _). PULSE_MAX_COUNT - i)") auto

declare pop_loop.simps [simp del]

definition shift_pulses :: "nat \<Rightarrow> Pulse list \<Rightarrow> Pulse list option" where
  "shift_pulses k ps = for_loop (\<lambda>i ps. do { p \<leftarrow> rd ps (k + i); wr ps i p }) 0 (PULSE_MAX_COUNT - k) ps"

definition pulse_joiner_pop_pulse :: "PulseJoiner \<Rightarrow> (PulseJoiner \<times> u16 \<times> u16) option" where
  "pulse_joiner_pop_pulse j = do {
     furi_check (pulse_index j \<le> PULSE_MAX_COUNT + 1);
     p0 \<leftarrow> rd (pulses j) 0;
     (next_fist_pulse, period, pulse, idx) \<leftarrow> pop_loop (pulses j) 0 0 (polarity p0) 0 0 (pulse_index j);
     ps \<leftarrow> shift_pulses next_fist_pulse (pulses j);
     Some (\<lparr>pulse_index = idx, pulses = ps\<rparr>, period, pulse) }"

section \<open>Lemmas\<close>

text \<open>The pulses in use.\<close>

definition pending :: "PulseJoiner \<Rightarrow> Pulse list" where
  "pending j = take (pulse_index j) (pulses j)"

definition pj_wf :: "PulseJoiner \<Rightarrow> bool" where
  "pj_wf j \<longleftrightarrow> length (pulses j) = PULSE_MAX_COUNT \<and> pulse_index j \<le> PULSE_MAX_COUNT"

lemma shift_loop:
  assumes "k + n \<le> length ps"
  shows "for_loop (\<lambda>i ps. do { p \<leftarrow> rd ps (k + i); wr ps i p }) 0 n ps = Some (seg k n ps @ drop n ps)"
proof -
  define P where "P = (\<lambda>i qs. qs = seg k i ps @ drop i ps)"
  have "\<exists>r. for_loop (\<lambda>i ps. do { p \<leftarrow> rd ps (k + i); wr ps i p }) 0 n ps = Some r \<and> P (0 + n) r"
  proof (rule for_loop_rule [where P = P])
    fix i qs assume i: "i < 0 + n" and "P i qs"
    then have qs: "qs = seg k i ps @ drop i ps" by (simp add: P_def)
    have e: "qs ! (k + i) = ps ! (k + i)"
    proof (cases "k = 0")
      case True
      then have "qs = ps" by (simp add: qs seg_def)
      then show ?thesis by simp
    next
      case False
      with i assms show ?thesis by (auto simp: qs nth_append add.commute)
    qed
    have "drop i ps = ps ! i # drop (Suc i) ps" using i assms by (simp add: Cons_nth_drop_Suc)
    then have "qs[i := ps ! (k + i)] = seg k (Suc i) ps @ drop (Suc i) ps"
      using i assms seg_Suc [of k i ps] by (simp add: qs list_update_append)
    moreover have "length qs = length ps" using i assms by (simp add: qs)
    ultimately show "\<exists>r. rd qs (k + i) \<bind> wr qs i = Some r \<and> P (Suc i) r"
      using i assms e by (simp add: mem_simps P_def)
  qed (simp add: P_def seg_def)
  then show ?thesis by (simp add: P_def)
qed

lemma shift_pulses_spec:
  "length ps = PULSE_MAX_COUNT \<Longrightarrow> k \<le> PULSE_MAX_COUNT \<Longrightarrow> shift_pulses k ps = Some (drop k ps @ drop (PULSE_MAX_COUNT - k) ps)"
  using shift_loop [of k "PULSE_MAX_COUNT - k" ps] by (simp add: shift_pulses_def seg_def)

text \<open>The sums over a list of pulses.\<close>

definition total :: "Pulse list \<Rightarrow> u16" where
  "total ps = sum_list (map time ps)"

lemma pop_loop_run:
  assumes "i + length xs \<le> length ps" "length ps = PULSE_MAX_COUNT" "seg i (length xs) ps = xs" "\<forall>p \<in> set xs. polarity p = pol"
    and "c \<noteq> 2" "length xs \<le> idx"
  shows "pop_loop ps i c pol a b idx =
    pop_loop ps (i + length xs) c pol (a + total xs) (if pol then b + total xs else b) (idx - length xs)"
  using assms
proof (induction xs arbitrary: i a b idx)
  case (Cons x xs)
  have i: "i < length ps" "i < PULSE_MAX_COUNT" using Cons.prems(1,2) by simp_all
  have s: "seg i (Suc (length xs)) ps = ps ! i # seg (Suc i) (length xs) ps" using Cons.prems(1) by (intro seg_Cons) simp
  then have x: "ps ! i = x" and r: "seg (Suc i) (length xs) ps = xs" using Cons.prems(3) by simp_all
  have "pop_loop ps i c pol a b idx = pop_loop ps (Suc i) c pol (a + time x) (if pol then b + time x else b) (idx - 1)"
    using i x Cons.prems(4-6) by (subst pop_loop.simps) (simp add: mem_simps)
  also have "\<dots> = pop_loop ps (Suc i + length xs) c pol (a + time x + total xs)
      (if pol then (if pol then b + time x else b) + total xs else (if pol then b + time x else b)) (idx - 1 - length xs)"
    using Cons.prems r by (intro Cons.IH) simp_all
  finally show ?case by (simp add: total_def add.assoc)
qed (simp add: total_def)

lemma pop_loop_edge:
  assumes "i < length ps" "length ps = PULSE_MAX_COUNT" "polarity (ps ! i) \<noteq> pol" "c = 0"
  shows "pop_loop ps i c pol a b idx = pop_loop ps i 1 (\<not> pol) a b idx"
  using assms by (subst (1 2) pop_loop.simps) (auto simp: mem_simps)

lemma pop_loop_end:
  assumes "i < length ps" "length ps = PULSE_MAX_COUNT" "polarity (ps ! i) \<noteq> pol"
  shows "pop_loop ps i 1 pol a b idx = Some (i, a, b, idx)"
  using assms by (subst pop_loop.simps) (auto simp: mem_simps)

lemma pop_spec:
  assumes wf: "pj_wf j" and p: "pending j = hs @ ls @ x # rest"
    and h: "hs \<noteq> []" "\<forall>p \<in> set hs. polarity p" and l: "ls \<noteq> []" "\<forall>p \<in> set ls. \<not> polarity p" and x: "polarity x"
  shows "\<exists>j'. pulse_joiner_pop_pulse j = Some (j', total hs + total ls, total hs) \<and> pj_wf j' \<and> pending j' = x # rest"
proof -
  define ps where "ps = pulses j"
  define m n where "m = length hs" and "n = length ls"
  have len: "length ps = PULSE_MAX_COUNT" using wf by (simp add: pj_wf_def ps_def)
  have idx: "pulse_index j = m + (n + Suc (length rest))" "pulse_index j \<le> PULSE_MAX_COUNT"
    using wf arg_cong [OF p, of length] by (auto simp: pj_wf_def pending_def m_def n_def)
  have ps: "ps = hs @ ls @ (x # rest) @ drop (pulse_index j) ps"
    using append_take_drop_id [of "pulse_index j" ps] p unfolding pending_def ps_def [symmetric] by simp
  have mn: "0 < m" "0 < n" using h l by (simp_all add: m_def n_def)
  have sh: "seg 0 (length hs) ps = hs" by (subst ps) (simp add: seg_def)
  have sl: "seg m (length ls) ps = ls" by (subst ps) (simp add: seg_def m_def)
  have px: "ps ! (m + n) = x" by (subst ps) (simp add: nth_append m_def n_def)
  have p0: "polarity (ps ! 0)" using h by (subst ps) (simp add: nth_append)
  have pm: "\<not> polarity (ps ! m)" using l by (subst ps) (simp add: nth_append m_def)
  have "pop_loop ps 0 0 True 0 0 (pulse_index j) = pop_loop ps m 0 True (total hs) (total hs) (pulse_index j - m)"
    using pop_loop_run [of 0 hs ps True 0 "pulse_index j" 0 0] sh h(2) len idx by (simp add: m_def)
  also have "\<dots> = pop_loop ps m 1 False (total hs) (total hs) (pulse_index j - m)"
    using pop_loop_edge [of m ps True 0] pm len idx by simp
  also have "\<dots> = pop_loop ps (m + n) 1 False (total hs + total ls) (total hs) (pulse_index j - m - n)"
    using pop_loop_run [of m ls ps False 1 "pulse_index j - m" "total hs" "total hs"] sl l(2) len idx by (simp add: n_def)
  also have "\<dots> = Some (m + n, total hs + total ls, total hs, Suc (length rest))"
    using pop_loop_end [of "m + n" ps False] px x len idx by simp
  finally have run: "pop_loop ps 0 0 True 0 0 (pulse_index j) = Some (m + n, total hs + total ls, total hs, Suc (length rest))" .
  define ps' where "ps' = drop (m + n) ps @ drop (PULSE_MAX_COUNT - (m + n)) ps"
  have sh': "shift_pulses (m + n) ps = Some ps'" unfolding ps'_def using len idx by (intro shift_pulses_spec) simp_all
  define j' where "j' = \<lparr>pulse_index = Suc (length rest), pulses = ps'\<rparr>"
  have "pulse_joiner_pop_pulse j = Some (j', total hs + total ls, total hs)"
    using run sh' p0 idx len by (simp add: pulse_joiner_pop_pulse_def mem_simps j'_def PULSE_MAX_COUNT_def flip: ps_def)
  moreover have "pj_wf j'" using len idx by (simp add: pj_wf_def j'_def ps'_def)
  moreover have "take (Suc (length rest)) (drop (m + n) ps) = x # rest" by (subst ps) (simp add: m_def n_def)
  then have "pending j' = x # rest" using len idx by (simp add: pending_def j'_def ps'_def)
  ultimately show ?thesis by blast
qed

text \<open>Pushing: what becomes of the pending pulses, and when a period is complete.\<close>

fun edges :: "bool \<Rightarrow> bool list \<Rightarrow> nat" where
  "edges l [] = 0"
| "edges l (b # bs) = of_bool (b \<noteq> l) + edges b bs"

lemma edge_loop:
  "i + n \<le> length ps \<Longrightarrow> \<exists>l'. for_loop (edge_step ps) i n (c, l) = Some (c + edges l (map polarity (seg i n ps)), l')"
proof (induction n arbitrary: i c l)
  case (Suc n)
  then have "seg i (Suc n) ps = ps ! i # seg (Suc i) n ps" by (intro seg_Cons) simp
  moreover have "edge_step ps i (c, l) = Some (c + of_bool (polarity (ps ! i) \<noteq> l), polarity (ps ! i))"
    using Suc.prems by (auto simp: edge_step_def mem_simps)
  ultimately show ?case
    using Suc.IH [of "Suc i" "c + of_bool (polarity (ps ! i) \<noteq> l)" "polarity (ps ! i)"] Suc.prems by (simp add: add.assoc del: of_bool_eq_iff)
qed simp

lemma store_pulse_spec:
  assumes "pj_wf j" "pulse_index j < PULSE_MAX_COUNT"
  shows "\<exists>j'. store_pulse j p t = Some j' \<and> pj_wf j' \<and> pulse_index j' = Suc (pulse_index j)
    \<and> pending j' = pending j @ [\<lparr>polarity = p, time = t\<rparr>]"
  using assms by (simp add: store_pulse_def pj_wf_def mem_simps pending_def take_Suc_conv_app_nth)

definition pushed :: "PulseJoiner \<Rightarrow> bool \<Rightarrow> nat \<Rightarrow> nat \<Rightarrow> Pulse list" where
  "pushed j pol period pulse =
     (if \<not> pol \<and> pending j = [] then [] else [\<lparr>polarity = pol, time = of_nat pulse\<rparr>])
     @ (if period > pulse then [\<lparr>polarity = (\<not> pol), time = of_nat (period - pulse)\<rparr>] else [])"

lemma push_spec:
  assumes "pj_wf j" "pulse_index j + 1 < PULSE_MAX_COUNT"
  shows "\<exists>j'. pulse_joiner_push_pulse j pol period pulse = Some (j', 4 \<le> length (pending j')
      \<and> 2 \<le> edges (polarity (hd (pending j'))) (map polarity (tl (pending j'))))
    \<and> pj_wf j' \<and> pending j' = pending j @ pushed j pol period pulse"
proof -
  have e: "pending j = [] \<longleftrightarrow> pulse_index j = 0" using assms(1) by (auto simp: pending_def pj_wf_def PULSE_MAX_COUNT_def)
  obtain j1 where j1: "(if \<not> pol \<and> pulse_index j = 0 then Some j else store_pulse j pol (of_nat pulse)) = Some j1"
      "pj_wf j1" "pulse_index j1 \<le> Suc (pulse_index j)"
      "pending j1 = pending j @ (if \<not> pol \<and> pending j = [] then [] else [\<lparr>polarity = pol, time = of_nat pulse\<rparr>])"
    using store_pulse_spec [of j pol "of_nat pulse"] assms e by (cases "\<not> pol \<and> pulse_index j = 0") auto
  obtain j2 where j2: "(if period > pulse then store_pulse j1 (\<not> pol) (of_nat (period - pulse)) else Some j1) = Some j2"
      "pj_wf j2" "pending j2 = pending j @ pushed j pol period pulse"
    using store_pulse_spec [of j1 "\<not> pol" "of_nat (period - pulse)"] j1 assms(2)
    by (cases "period > pulse") (auto simp: pushed_def)
  have n: "length (pending j2) = pulse_index j2" using j2(2) by (simp add: pending_def pj_wf_def)
  have c: "furi_check (pulse_index j + 1 < PULSE_MAX_COUNT) = Some ()" using assms(2) by simp
  show ?thesis
  proof (cases "4 \<le> pulse_index j2")
    case False
    then have "pulse_joiner_push_pulse j pol period pulse = Some (j2, False)"
      unfolding pulse_joiner_push_pulse_def c bind.bind_lunit j1(1) j2(1) by simp
    with False j2 n show ?thesis by auto
  next
    case True
    define k where "k = pulse_index j2 - 1"
    have k: "pulse_index j2 = Suc k" "1 + k \<le> length (pulses j2)" using True j2(2) by (simp_all add: k_def pj_wf_def)
    have hd: "hd (pending j2) = pulses j2 ! 0" using k by (cases "pulses j2") (simp_all add: pending_def)
    have tl: "seg 1 k (pulses j2) = tl (pending j2)" using k by (cases "pulses j2") (simp_all add: pending_def seg_def)
    obtain l' where "for_loop (edge_step (pulses j2)) 1 k (0, polarity (hd (pending j2)))
        = Some (0 + edges (polarity (hd (pending j2))) (map polarity (tl (pending j2))), l')"
      using edge_loop [OF k(2), of 0 "polarity (hd (pending j2))"] unfolding tl by blast
    moreover have "rd (pulses j2) 0 = Some (hd (pending j2))" using k hd by (cases "pulses j2") (simp_all add: rd_def)
    ultimately have "pulse_joiner_push_pulse j pol period pulse
        = Some (j2, 2 \<le> edges (polarity (hd (pending j2))) (map polarity (tl (pending j2))))"
      unfolding pulse_joiner_push_pulse_def c bind.bind_lunit j1(1) j2(1) using True k(1) by simp
    with True j2 n show ?thesis by auto
  qed
qed

section \<open>Sessions\<close>

text \<open>The use that \<open>pulse_joiner.h\<close> describes: push a pulse, and take a period out when the call says that there is one.\<close>

definition joiner_step :: "bool \<times> nat \<times> nat \<Rightarrow> PulseJoiner \<Rightarrow> (PulseJoiner \<times> (u16 \<times> u16) list) option" where
  "joiner_step inp j = (case inp of (pol, period, pulse) \<Rightarrow> do {
     (j, ready) \<leftarrow> pulse_joiner_push_pulse j pol period pulse;
     (if ready then do { (j, per, pul) \<leftarrow> pulse_joiner_pop_pulse j; Some (j, [(per, pul)]) }
      else Some (j, [])) })"

primrec joiner_run :: "(bool \<times> nat \<times> nat) list \<Rightarrow> PulseJoiner \<Rightarrow> (PulseJoiner \<times> (u16 \<times> u16) list) option" where
  "joiner_run [] j = Some (j, [])"
| "joiner_run (i # is) j = do {
     (j, out) \<leftarrow> joiner_step i j;
     (j, outs) \<leftarrow> joiner_run is j;
     Some (j, out @ outs) }"

text \<open>The polarities that can be pending between two steps.\<close>

definition resting :: "bool list \<Rightarrow> bool" where
  "resting ps \<longleftrightarrow> ps \<in> {[], [True], [True, False], [True, True, False], [True, False, True]}"

lemma pending_length: "pj_wf j \<Longrightarrow> length (pending j) = pulse_index j"
  by (simp add: pending_def pj_wf_def)

lemma total_simps [simp]: "total [] = 0" "total (p # ps) = time p + total ps" "total (ps @ qs) = total ps + total qs"
  by (simp_all add: total_def)

text \<open>What a pop takes out of the pulses that were pending: a run of high and a run of low pulses in front of a high one.\<close>

definition taken :: "(u16 \<times> u16) list \<Rightarrow> Pulse list \<Rightarrow> Pulse list \<Rightarrow> bool" where
  "taken out ps qs \<longleftrightarrow> out = [] \<and> qs = ps \<or>
     (\<exists>hs ls. hs \<noteq> [] \<and> (\<forall>p \<in> set hs. polarity p) \<and> ls \<noteq> [] \<and> (\<forall>p \<in> set ls. \<not> polarity p) \<and> qs \<noteq> []
        \<and> ps = hs @ ls @ qs \<and> out = [(total hs + total ls, total hs)])"

definition step_ok :: "bool \<Rightarrow> nat \<Rightarrow> nat \<Rightarrow> PulseJoiner \<Rightarrow> bool" where
  "step_ok pol period pulse j \<longleftrightarrow> (\<exists>j' out. joiner_step (pol, period, pulse) j = Some (j', out) \<and> pj_wf j'
     \<and> resting (map polarity (pending j')) \<and> pending j' \<noteq> [] \<and> taken out (pending j @ pushed j pol period pulse) (pending j'))"

lemma step_keeps:
  assumes "pj_wf j" "pulse_index j + 1 < PULSE_MAX_COUNT" "ps = pending j @ pushed j pol period pulse"
    and "\<not> (4 \<le> length ps \<and> 2 \<le> edges (polarity (hd ps)) (map polarity (tl ps)))" "resting (map polarity ps)" "ps \<noteq> []"
  shows "step_ok pol period pulse j"
  using push_spec [OF assms(1,2), of pol period pulse] assms(3-6) by (auto simp: joiner_step_def step_ok_def taken_def)

lemma step_takes:
  assumes "pj_wf j" "pulse_index j + 1 < PULSE_MAX_COUNT" "hs @ ls @ x # rest = pending j @ pushed j pol period pulse"
    and "hs \<noteq> []" "\<forall>p \<in> set hs. polarity p" "ls \<noteq> []" "\<forall>p \<in> set ls. \<not> polarity p" "polarity x"
    and "4 \<le> length (hs @ ls @ x # rest)" "2 \<le> edges (polarity (hd hs)) (map polarity (tl (hs @ ls @ x # rest)))"
    and "resting (map polarity (x # rest))"
  shows "step_ok pol period pulse j"
proof -
  obtain j1 where j1: "pulse_joiner_push_pulse j pol period pulse = Some (j1, 4 \<le> length (pending j1)
      \<and> 2 \<le> edges (polarity (hd (pending j1))) (map polarity (tl (pending j1))))"
    and p: "pj_wf j1" "pending j1 = hs @ ls @ x # rest"
    using push_spec [OF assms(1,2), of pol period pulse] assms(3) by auto
  have h: "hd (hs @ ls @ x # rest) = hd hs" using assms(4) by simp
  obtain j2 where j2: "pulse_joiner_pop_pulse j1 = Some (j2, total hs + total ls, total hs)" "pj_wf j2" "pending j2 = x # rest"
    using pop_spec [OF p assms(4-8)] by blast
  have "joiner_step (pol, period, pulse) j = Some (j2, [(total hs + total ls, total hs)])"
    using j1 j2(1) unfolding p(2) h using assms(9,10) by (simp add: joiner_step_def)
  moreover have "taken [(total hs + total ls, total hs)] (pending j @ pushed j pol period pulse) (pending j2)"
    unfolding taken_def assms(3) [symmetric] j2(3) using assms(4-7) by blast
  ultimately show ?thesis using j2(2,3) assms(11) unfolding step_ok_def by auto
qed

text \<open>One step from a resting state.\<close>

lemma joiner_step_ok:
  assumes "pj_wf j" "resting (map polarity (pending j))" "pulse < period"
  shows "step_ok pol period pulse j"
proof -
  have len: "length (pending j) = pulse_index j" by (rule pending_length [OF assms(1)])
  let ?x = "\<lparr>polarity = pol, time = of_nat pulse :: u16\<rparr>" and ?y = "\<lparr>polarity = \<not> pol, time = of_nat (period - pulse) :: u16\<rparr>"
  note keeps = step_keeps [OF assms(1)] and takes = step_takes [OF assms(1)]
  from assms(2) consider (e) "pending j = []"
    | (a) a where "pending j = [a]" "polarity a"
    | (ab) a b where "pending j = [a, b]" "polarity a" "\<not> polarity b"
    | (aab) a b c where "pending j = [a, b, c]" "polarity a" "polarity b" "\<not> polarity c"
    | (aba) a b c where "pending j = [a, b, c]" "polarity a" "\<not> polarity b" "polarity c"
    unfolding resting_def by (auto simp: map_eq_Cons_conv)
  then show ?thesis
  proof cases
    case e
    with len assms(3) show ?thesis
      by (cases pol) (rule keeps [of "[?x, ?y]"] keeps [of "[?y]"], simp_all add: pushed_def resting_def PULSE_MAX_COUNT_def)+
  next
    case a
    with len assms(3) show ?thesis
      by (cases pol) (rule keeps [of "[a, ?x, ?y]"], simp_all add: pushed_def resting_def PULSE_MAX_COUNT_def)+
  next
    case ab
    with len assms(3) show ?thesis
      by (cases pol) (rule takes [of "[a]" "[b]" ?x "[?y]"] takes [of "[a]" "[b, ?x]" ?y "[]"],
        simp_all add: pushed_def resting_def PULSE_MAX_COUNT_def)+
  next
    case aab
    with len assms(3) show ?thesis
      by (cases pol) (rule takes [of "[a, b]" "[c]" ?x "[?y]"] takes [of "[a, b]" "[c, ?x]" ?y "[]"],
        simp_all add: pushed_def resting_def PULSE_MAX_COUNT_def)+
  next
    case aba
    with len assms(3) show ?thesis
      by (cases pol) (rule takes [of "[a]" "[b]" c "[?x, ?y]"], simp_all add: pushed_def resting_def PULSE_MAX_COUNT_def)+
  qed
qed

subsection \<open>Waveforms\<close>

text \<open>Levels and times of what is pushed, of what is pending and of what is taken out.\<close>

definition pushed_wave :: "(bool \<times> nat \<times> nat) list \<Rightarrow> (bool \<times> nat) list" where
  "pushed_wave ins = concat (map (\<lambda>(pol, period, pulse). [(pol, pulse), (\<not> pol, period - pulse)]) ins)"

definition pending_wave :: "Pulse list \<Rightarrow> (bool \<times> nat) list" where
  "pending_wave ps = map (\<lambda>p. (polarity p, unat (time p))) ps"

definition popped_wave :: "(u16 \<times> u16) list \<Rightarrow> (bool \<times> nat) list" where
  "popped_wave outs = concat (map (\<lambda>(period, pulse). [(True, unat pulse), (False, unat period - unat pulse)]) outs)"

lemma merge_cong: "merge xs = merge ys \<Longrightarrow> merge (zs @ xs) = merge (zs @ ys)"
  by (induction zs) auto

lemma merge_run: "hs \<noteq> [] \<Longrightarrow> \<forall>p \<in> set hs. fst p = l \<Longrightarrow> merge (hs @ zs) = merge ((l, sum_list (map snd hs)) # zs)"
proof (induction hs)
  case (Cons h hs)
  show ?case
  proof (cases "hs = []")
    case True
    with Cons.prems show ?thesis by (cases h) simp
  next
    case False
    with Cons have "merge (hs @ zs) = merge ((l, sum_list (map snd hs)) # zs)" by simp
    with Cons.prems show ?thesis by (cases h) (auto split: list.split)
  qed
qed simp

definition short :: "Pulse list \<Rightarrow> bool" where
  "short ps \<longleftrightarrow> (\<forall>p \<in> set ps. unat (time p) < 2 ^ 14)"

lemma unat_total:
  "short ps \<Longrightarrow> length ps \<le> 4 \<Longrightarrow> unat (total ps) = sum_list (map (\<lambda>p. unat (time p)) ps) \<and> unat (total ps) \<le> length ps * 16383"
proof (induction ps)
  case (Cons p ps)
  then have ih: "unat (total ps) = sum_list (map (\<lambda>p. unat (time p)) ps)" "unat (total ps) \<le> length ps * 16383" "unat (time p) < 2 ^ 14"
    by (simp_all add: short_def)
  with Cons.prems(2) have "unat (time p) + unat (total ps) < 2 ^ 16" by simp
  then have "unat (time p + total ps) = unat (time p) + unat (total ps)" by (simp add: unat_word_ariths)
  with ih show ?case by simp
qed simp

lemma popped_run:
  assumes "hs \<noteq> []" "\<forall>p \<in> set hs. polarity p" "ls \<noteq> []" "\<forall>p \<in> set ls. \<not> polarity p" "short (hs @ ls)" "length (hs @ ls) \<le> 4"
  shows "merge (popped_wave [(total hs + total ls, total hs)] @ zs) = merge (pending_wave hs @ pending_wave ls @ zs)"
proof -
  have t: "unat (total (hs @ ls)) = sum_list (map (\<lambda>p. unat (time p)) hs) + sum_list (map (\<lambda>p. unat (time p)) ls)"
    "unat (total hs) = sum_list (map (\<lambda>p. unat (time p)) hs)"
    using unat_total [OF assms(5,6)] unat_total [of hs] assms(5,6) by (simp_all add: short_def)
  have "popped_wave [(total hs + total ls, total hs)]
      = [(True, sum_list (map snd (pending_wave hs))), (False, sum_list (map snd (pending_wave ls)))]"
    using t by (simp add: popped_wave_def pending_wave_def comp_def)
  moreover have "merge (pending_wave hs @ pending_wave ls @ zs) = merge ((True, sum_list (map snd (pending_wave hs))) # pending_wave ls @ zs)"
    using assms(1,2) by (intro merge_run) (simp_all add: pending_wave_def)
  moreover have "merge (pending_wave ls @ zs) = merge ((False, sum_list (map snd (pending_wave ls))) # zs)"
    using assms(3,4) by (intro merge_run) (simp_all add: pending_wave_def)
  ultimately show ?thesis using merge_cong [of "pending_wave ls @ zs"] by (metis append_Cons append_Nil)
qed

lemma taken_wave:
  assumes "taken out ps qs" "short ps" "length ps \<le> 5"
  shows "merge (popped_wave out @ pending_wave qs @ zs) = merge (pending_wave ps @ zs) \<and> short qs"
  using assms(1) unfolding taken_def
proof (elim disjE exE conjE)
  fix hs ls assume t: "hs \<noteq> []" "\<forall>p \<in> set hs. polarity p" "ls \<noteq> []" "\<forall>p \<in> set ls. \<not> polarity p" "qs \<noteq> []"
    "ps = hs @ ls @ qs" "out = [(total hs + total ls, total hs)]"
  have "length (hs @ ls) \<le> 4" using assms(3) t(5,6) by (cases qs) simp_all
  moreover have "short (hs @ ls)" "short qs" using assms(2) t(6) by (auto simp: short_def)
  ultimately show ?thesis using popped_run [OF t(1-4), of "pending_wave qs @ zs"] t(6,7) by (simp add: pending_wave_def)
qed (use assms(2) in \<open>simp add: popped_wave_def\<close>)

lemma pushed_wave_eq:
  assumes "pulse < period" "period < 2 ^ 14"
  shows "pending_wave (pushed j pol period pulse) = (if pol \<or> pending j \<noteq> [] then pushed_wave [(pol, period, pulse)] else [(True, period - pulse)])"
    "short (pushed j pol period pulse)" "length (pushed j pol period pulse) \<le> 2"
proof -
  have "unat (of_nat pulse :: u16) = pulse" "unat (of_nat (period - pulse) :: u16) = period - pulse"
    using assms by (simp_all add: unsigned_of_nat take_bit_nat_eq_self del: of_nat_diff)
  then show "pending_wave (pushed j pol period pulse) = (if pol \<or> pending j \<noteq> [] then pushed_wave [(pol, period, pulse)] else [(True, period - pulse)])"
    "short (pushed j pol period pulse)" "length (pushed j pol period pulse) \<le> 2"
    using assms by (auto simp: pending_wave_def pushed_def pushed_wave_def short_def simp del: of_nat_diff)
qed

definition at_rest :: "PulseJoiner \<Rightarrow> bool" where
  "at_rest j \<longleftrightarrow> pj_wf j \<and> resting (map polarity (pending j)) \<and> short (pending j)"

lemma joiner_step_wave:
  assumes "at_rest j" "pulse < period" "period < 2 ^ 14"
  shows "\<exists>j' out. joiner_step (pol, period, pulse) j = Some (j', out) \<and> at_rest j' \<and> pending j' \<noteq> []
    \<and> merge (popped_wave out @ pending_wave (pending j') @ zs)
      = merge (pending_wave (pending j) @ (if pol \<or> pending j \<noteq> [] then pushed_wave [(pol, period, pulse)] else [(True, period - pulse)]) @ zs)"
proof -
  note rest = assms(1) [unfolded at_rest_def]
  obtain j' out where s: "joiner_step (pol, period, pulse) j = Some (j', out)" "pj_wf j'" "resting (map polarity (pending j'))"
    "pending j' \<noteq> []" "taken out (pending j @ pushed j pol period pulse) (pending j')"
    using joiner_step_ok [of j pulse period pol] rest assms(2) unfolding step_ok_def by blast
  note p = pushed_wave_eq [OF assms(2,3), of j pol]
  have "length (pending j) \<le> 3" using rest by (auto simp: resting_def map_eq_Cons_conv)
  then have "short (pending j @ pushed j pol period pulse)" "length (pending j @ pushed j pol period pulse) \<le> 5"
    using rest p(2,3) by (auto simp: short_def)
  from taken_wave [OF s(5) this, of zs] s p(1) show ?thesis
    by (intro exI [of _ j'] exI [of _ out]) (simp add: at_rest_def pending_wave_def)
qed

lemma joiner_run_wave:
  assumes "at_rest j" "pending j \<noteq> []" "\<forall>(pol, period, pulse) \<in> set ins. pulse < period \<and> period < 2 ^ 14"
  shows "\<exists>j' outs. joiner_run ins j = Some (j', outs) \<and> at_rest j'
    \<and> merge (popped_wave outs @ pending_wave (pending j')) = merge (pending_wave (pending j) @ pushed_wave ins)"
  using assms
proof (induction ins arbitrary: j)
  case Nil
  then show ?case by (simp add: popped_wave_def pushed_wave_def)
next
  case (Cons i ins)
  obtain pol period pulse where i: "i = (pol, period, pulse)" by (cases i)
  have lt: "pulse < period" "period < 2 ^ 14" using Cons.prems(3) i by simp_all
  obtain j1 out where s: "joiner_step i j = Some (j1, out)" "at_rest j1" "pending j1 \<noteq> []"
    "merge (popped_wave out @ pending_wave (pending j1) @ pushed_wave ins)
      = merge (pending_wave (pending j) @ pushed_wave [i] @ pushed_wave ins)"
    using joiner_step_wave [OF Cons.prems(1) lt, of pol "pushed_wave ins"] Cons.prems(2) unfolding i by auto
  obtain j2 outs where r: "joiner_run ins j1 = Some (j2, outs)" "at_rest j2"
    "merge (popped_wave outs @ pending_wave (pending j2)) = merge (pending_wave (pending j1) @ pushed_wave ins)"
    using Cons.IH [OF s(2,3)] Cons.prems(3) by auto
  have "merge (popped_wave (out @ outs) @ pending_wave (pending j2)) = merge (pending_wave (pending j) @ pushed_wave (i # ins))"
    using merge_cong [OF r(3), of "popped_wave out"] s(4) by (simp add: popped_wave_def pushed_wave_def)
  with s(1) r(1,2) show ?case by (intro exI [of _ j2] exI [of _ "out @ outs"]) simp
qed

section \<open>Properties\<close>

text \<open>C12: fed with pulses shorter than their period (and periods below \<open>2 ^ 14\<close>, so that no \<open>uint16_t\<close> sum wraps around) and emptied
  when it says so, the joiner never runs out of its six slots, and it gives out the waveform that went in: the periods it
  gave out (a high and a low part each) followed by the pulses still pending are, with neighbours of the same level taken together,
  the pulses that were pushed, without a low pulse at the very beginning.\<close>

theorem pulse_joiner_waveform:
  assumes "\<forall>(pol, period, pulse) \<in> set ins. pulse < period \<and> period < 2 ^ 14"
  shows "\<exists>j outs. joiner_run ins pulse_joiner_alloc = Some (j, outs) \<and> pulse_index j \<le> 3
    \<and> merge (popped_wave outs @ pending_wave (pending j)) = merge (dropWhile (\<lambda>(level, time). \<not> level) (pushed_wave ins))"
proof (cases ins)
  case Nil
  then show ?thesis by (simp add: pulse_joiner_alloc_def popped_wave_def pending_wave_def pending_def pushed_wave_def)
next
  case (Cons i rest)
  obtain pol period pulse where i: "i = (pol, period, pulse)" by (cases i)
  have lt: "pulse < period" "period < 2 ^ 14" using assms Cons i by simp_all
  have start: "at_rest pulse_joiner_alloc" "pending pulse_joiner_alloc = []"
    by (simp_all add: at_rest_def pj_wf_def pulse_joiner_alloc_def pending_def resting_def short_def)
  have first: "dropWhile (\<lambda>(level, time). \<not> level) (pushed_wave ins)
      = (if pol then pushed_wave [i] else [(True, period - pulse)]) @ pushed_wave rest" by (simp add: Cons i pushed_wave_def)
  obtain j1 out where s: "joiner_step i pulse_joiner_alloc = Some (j1, out)" "at_rest j1" "pending j1 \<noteq> []"
    "merge (popped_wave out @ pending_wave (pending j1) @ pushed_wave rest) = merge (dropWhile (\<lambda>(level, time). \<not> level) (pushed_wave ins))"
    using joiner_step_wave [OF start(1) lt, of pol "pushed_wave rest"] unfolding first unfolding i start(2) by (auto simp: pending_wave_def)
  obtain j2 outs where r: "joiner_run rest j1 = Some (j2, outs)" "at_rest j2"
    "merge (popped_wave outs @ pending_wave (pending j2)) = merge (pending_wave (pending j1) @ pushed_wave rest)"
    using joiner_run_wave [OF s(2,3), of rest] assms Cons by auto
  have "pulse_index j2 \<le> 3" using r(2) pending_length [of j2] by (auto simp: at_rest_def resting_def map_eq_Cons_conv)
  moreover have "merge (popped_wave (out @ outs) @ pending_wave (pending j2)) = merge (dropWhile (\<lambda>(level, time). \<not> level) (pushed_wave ins))"
    using merge_cong [OF r(3), of "popped_wave out"] s(4) by (simp add: popped_wave_def)
  ultimately show ?thesis using s(1) r(1) Cons by (intro exI [of _ j2] exI [of _ "out @ outs"]) simp
qed

theorem pulse_joiner_waveform_witness:
  "\<exists>j outs. joiner_run [(True, 100, 40), (False, 60, 30), (True, 80, 50)] pulse_joiner_alloc = Some (j, outs) \<and> pulse_index j \<le> 3
    \<and> merge (popped_wave outs @ pending_wave (pending j)) = [(True, 40), (False, 90), (True, 80), (False, 30)]"
  using pulse_joiner_waveform [of "[(True, 100, 40), (False, 60, 30), (True, 80, 50)]"] by (simp add: pushed_wave_def)

end
