(* ===== verification/Datetime.thy ===== *)
theory Datetime
  imports Prelude
begin

text \<open>
  Calendar time, \<open>lib/datetime/datetime.c\<close>. The fields of \<open>DateTime\<close> are natural numbers within
  their unsigned types; a timestamp is a natural number below \<open>2 ^ 32\<close>. The products of the day
  counts with \<open>SECONDS_PER_DAY\<close> are \<open>int\<close> arithmetic, where an overflow is undefined (\<open>None\<close>).
\<close>

section \<open>Definitions\<close>

record DateTime =
  hour :: nat
  minute :: nat
  second :: nat
  day :: nat
  month :: nat
  year :: nat
  weekday :: nat

definition SECONDS_PER_MINUTE :: nat where "SECONDS_PER_MINUTE = 60"
definition SECONDS_PER_HOUR :: nat where "SECONDS_PER_HOUR = SECONDS_PER_MINUTE * 60"
definition SECONDS_PER_DAY :: nat where "SECONDS_PER_DAY = SECONDS_PER_HOUR * 24"
definition EPOCH_START_YEAR :: nat where "EPOCH_START_YEAR = 1970"

definition datetime_days_per_month :: "nat list list" where
  "datetime_days_per_month =
     [[31, 28, 31, 30, 31, 30, 31, 31, 30, 31, 30, 31],
      [31, 29, 31, 30, 31, 30, 31, 31, 30, 31, 30, 31]]"

definition datetime_days_per_year :: "nat list" where
  "datetime_days_per_year = [365, 366]"

definition datetime_is_leap_year :: "nat \<Rightarrow> bool" where
  "datetime_is_leap_year y \<longleftrightarrow> (y mod 4 = 0 \<and> y mod 100 \<noteq> 0) \<or> y mod 400 = 0"

definition datetime_get_days_per_year :: "nat \<Rightarrow> nat" where
  "datetime_get_days_per_year y = datetime_days_per_year ! (if datetime_is_leap_year y then 1 else 0)"

text \<open>\<open>month - 1\<close> is an \<open>int\<close>: month 0 reads before the array.\<close>

definition datetime_get_days_per_month :: "bool \<Rightarrow> nat \<Rightarrow> nat option" where
  "datetime_get_days_per_month leap_year m =
     (if m = 0 then None else rd (datetime_days_per_month ! (if leap_year then 1 else 0)) (m - 1))"

definition datetime_validate_datetime :: "DateTime \<Rightarrow> bool" where
  "datetime_validate_datetime dt =
     (let invalid = second dt > 59 \<or> minute dt > 59 \<or> hour dt > 23 \<or> year dt < 2000 \<or> year dt > 2099
          \<or> month dt = 0 \<or> month dt > 12 \<or> day dt = 0 \<or> day dt > 31 \<or> weekday dt = 0 \<or> weekday dt > 7
      in \<not> invalid)"

definition int_mult :: "nat \<Rightarrow> nat \<Rightarrow> nat option" where
  "int_mult a b = (if a * b < 2 ^ 31 then Some (a * b) else None)"

text \<open>The two \<open>uint8_t\<close> counters.\<close>

definition count_years :: "nat \<Rightarrow> nat \<times> nat" where
  "count_years y = fold (\<lambda>y (years, leap_years). if datetime_is_leap_year y
       then (years, (leap_years + 1) mod 256) else ((years + 1) mod 256, leap_years))
     [EPOCH_START_YEAR..<y] (0, 0)"

definition datetime_datetime_to_timestamp :: "DateTime \<Rightarrow> nat option" where
  "datetime_datetime_to_timestamp dt =
     (case count_years (year dt) of (years, leap_years) \<Rightarrow> do {
        t \<leftarrow> int_mult (years * datetime_days_per_year ! 0 + leap_years * datetime_days_per_year ! 1) SECONDS_PER_DAY;
        let leap_year = datetime_is_leap_year (year dt);
        t \<leftarrow> for_loop (\<lambda>m t. do { d \<leftarrow> datetime_get_days_per_month leap_year m;
              Some ((t + d * SECONDS_PER_DAY) mod 2 ^ 32) }) 1 (month dt - 1) t;
        Some (nat ((int t + (int (day dt) - 1) * int SECONDS_PER_DAY + int (hour dt * SECONDS_PER_HOUR)
                + int (minute dt * SECONDS_PER_MINUTE) + int (second dt)) mod 2 ^ 32)) })"

text \<open>The two loops of \<open>datetime_timestamp_to_datetime\<close>; \<open>year\<close> is a \<open>uint16_t\<close>.\<close>

lemma days_per_year_pos: "0 < datetime_get_days_per_year y"
  by (simp add: datetime_get_days_per_year_def datetime_days_per_year_def)

function year_loop :: "nat \<Rightarrow> nat \<Rightarrow> nat \<times> nat" where
  "year_loop days y =
     (if days \<ge> datetime_get_days_per_year y
      then year_loop (days - datetime_get_days_per_year y) ((y + 1) mod 2 ^ 16) else (days, y))"
  by pat_completeness auto
termination
proof (relation "measure fst")
  fix days y assume "datetime_get_days_per_year y \<le> days"
  with days_per_year_pos [of y] show "((days - datetime_get_days_per_year y, (y + 1) mod 2 ^ 16), (days, y)) \<in> measure fst"
    by simp
qed simp

declare year_loop.simps [simp del]

lemma days_per_month_None: "12 < m \<Longrightarrow> datetime_get_days_per_month leap m = None"
  by (simp add: datetime_get_days_per_month_def datetime_days_per_month_def rd_def)

function month_loop :: "bool \<Rightarrow> nat \<Rightarrow> nat \<Rightarrow> (nat \<times> nat) option" where
  "month_loop leap days m =
     (case datetime_get_days_per_month leap m of
        None \<Rightarrow> None
      | Some d \<Rightarrow> if days \<ge> d then month_loop leap (days - d) (m + 1) else Some (days, m))"
  by pat_completeness auto

termination
proof (relation "measure (\<lambda>(_, _, m). 13 - m)")
  fix leap days m x assume "datetime_get_days_per_month leap m = Some x"
  then have "m \<le> 12" using days_per_month_None [of m leap] by (cases "m \<le> 12") auto
  then show "((leap, days - x, m + 1), leap, days, m) \<in> measure (\<lambda>(_, _, m). 13 - m)" by simp
qed simp

declare month_loop.simps [simp del]

definition datetime_timestamp_to_datetime :: "nat \<Rightarrow> DateTime option" where
  "datetime_timestamp_to_datetime timestamp =
     (let days = timestamp div SECONDS_PER_DAY; seconds_in_day = timestamp mod SECONDS_PER_DAY;
          wd = (days + 3) mod 7 + 1
      in case year_loop days EPOCH_START_YEAR of (days, y) \<Rightarrow> do {
        (days, m) \<leftarrow> month_loop (datetime_is_leap_year y) days 1;
        Some \<lparr>hour = seconds_in_day div SECONDS_PER_HOUR,
              minute = seconds_in_day mod SECONDS_PER_HOUR div SECONDS_PER_MINUTE,
              second = seconds_in_day mod SECONDS_PER_MINUTE,
              day = days + 1, month = m, year = y, weekday = wd\<rparr> })"

section \<open>Lemmas\<close>

lemmas datetime_consts = SECONDS_PER_MINUTE_def SECONDS_PER_HOUR_def SECONDS_PER_DAY_def EPOCH_START_YEAR_def

text \<open>Days before a year, and before a month of a year.\<close>

definition days_before_year :: "nat \<Rightarrow> nat" where
  "days_before_year y = (\<Sum>k \<leftarrow> [1970..<y]. datetime_get_days_per_year k)"

definition month_days :: "bool \<Rightarrow> nat \<Rightarrow> nat" where
  "month_days leap m = datetime_days_per_month ! (if leap then 1 else 0) ! (m - 1)"

definition days_before_month :: "bool \<Rightarrow> nat \<Rightarrow> nat" where
  "days_before_month leap m = (\<Sum>k \<leftarrow> [1..<m]. month_days leap k)"

lemma days_before_year_Suc: "1970 \<le> y \<Longrightarrow> days_before_year (Suc y) = days_before_year y + datetime_get_days_per_year y"
  by (simp add: days_before_year_def)

lemma days_per_month_Some: "1 \<le> m \<Longrightarrow> m \<le> 12 \<Longrightarrow> datetime_get_days_per_month leap m = Some (month_days leap m)"
  by (simp add: datetime_get_days_per_month_def month_days_def datetime_days_per_month_def rd_def)

lemma days_before_year_mono: "1970 \<le> y \<Longrightarrow> y \<le> z \<Longrightarrow> days_before_year y \<le> days_before_year z"
proof (induction z)
  case (Suc z)
  then show ?case by (cases "y = Suc z") (auto simp: days_before_year_Suc)
qed simp

lemma days_before_year_lower: "365 * k \<le> days_before_year (1970 + k)"
proof (induction k)
  case (Suc k)
  have "365 \<le> datetime_get_days_per_year (1970 + k)"
    by (simp add: datetime_get_days_per_year_def datetime_days_per_year_def)
  then show ?case using Suc days_before_year_Suc [of "1970 + k"] by simp
qed simp

lemma year_loop_spec:
  assumes "year_loop d y = (d', y')" "1970 \<le> y" "y + d div 365 < 2 ^ 16"
  shows "y \<le> y' \<and> d + days_before_year y = d' + days_before_year y' \<and> d' < datetime_get_days_per_year y'"
  using assms
proof (induction d y arbitrary: rule: year_loop.induct)
  case (1 d y)
  show ?case
  proof (cases "datetime_get_days_per_year y \<le> d")
    case True
    have p: "365 \<le> datetime_get_days_per_year y" by (simp add: datetime_get_days_per_year_def datetime_days_per_year_def)
    have "(d - datetime_get_days_per_year y) div 365 + 1 \<le> d div 365"
      using True p div_le_mono [of "d - datetime_get_days_per_year y + 365" d 365] by simp
    then have b: "Suc y + (d - datetime_get_days_per_year y) div 365 < 2 ^ 16" using "1.prems"(3) by simp
    then have m: "(y + 1) mod 2 ^ 16 = Suc y" by simp
    have "year_loop (d - datetime_get_days_per_year y) (Suc y) = (d', y')"
      using "1.prems"(1) True m by (subst (asm) year_loop.simps) simp
    from "1.IH" [OF True, unfolded m, OF this] b "1.prems"(2) True show ?thesis
      by (auto simp: days_before_year_Suc)
  next
    case False
    then show ?thesis using "1.prems"(1) by (subst (asm) year_loop.simps) auto
  qed
qed

lemma month_table: "month_days leap m \<in> {28, 29, 30, 31}" if "1 \<le> m" "m \<le> 12"
proof -
  have "m \<in> {1, 2, 3, 4, 5, 6, 7, 8, 9, 10, 11, 12}" using that unfolding insert_iff empty_iff by presburger
  then show ?thesis by (cases leap) (auto simp: month_days_def datetime_days_per_month_def)
qed

lemma days_before_13: "days_before_month (datetime_is_leap_year y) 13 = datetime_get_days_per_year y"
  by (simp add: days_before_month_def month_days_def datetime_days_per_month_def datetime_get_days_per_year_def
      datetime_days_per_year_def upt_conv_Cons)

lemma days_before_month_Suc: "1 \<le> m \<Longrightarrow> days_before_month leap (Suc m) = days_before_month leap m + month_days leap m"
  by (simp add: days_before_month_def)

lemma month_loop_spec:
  assumes "1 \<le> m" "m \<le> 12" "d + days_before_month leap m < days_before_month leap 13"
  shows "\<exists>d' m'. month_loop leap d m = Some (d', m') \<and> 1 \<le> m' \<and> m' \<le> 12
    \<and> d + days_before_month leap m = d' + days_before_month leap m' \<and> d' < month_days leap m'"
  using assms
proof (induction "13 - m" arbitrary: d m)
  case (Suc k)
  have s: "month_loop leap d m = (if month_days leap m \<le> d then month_loop leap (d - month_days leap m) (Suc m) else Some (d, m))"
    using Suc.prems by (subst month_loop.simps) (simp add: days_per_month_Some)
  show ?case
  proof (cases "month_days leap m \<le> d")
    case True
    have "d - month_days leap m + days_before_month leap (Suc m) < days_before_month leap 13"
      using Suc.prems True by (simp add: days_before_month_Suc)
    moreover from this have "Suc m \<le> 12"
      using Suc.prems(2) by (cases "m = 12") auto
    ultimately obtain d' m' where "month_loop leap (d - month_days leap m) (Suc m) = Some (d', m')" "1 \<le> m'" "m' \<le> 12"
      "d - month_days leap m + days_before_month leap (Suc m) = d' + days_before_month leap m'" "d' < month_days leap m'"
      using Suc.hyps(1) [of "Suc m"] Suc.hyps(2) by fastforce
    then show ?thesis using s True Suc.prems(1) by (auto simp: days_before_month_Suc)
  next
    case False
    then show ?thesis using s Suc.prems by auto
  qed
qed simp

lemma count_years_spec:
  assumes "1970 \<le> y" "y < 2200"
  shows "fst (count_years y) * 365 + snd (count_years y) * 366 = days_before_year y"
proof -
  have "fst (count_years y) + snd (count_years y) = y - 1970
      \<and> fst (count_years y) * 365 + snd (count_years y) * 366 = days_before_year y"
    using assms
  proof (induction y rule: dec_induct)
    case base
    show ?case by (simp add: count_years_def EPOCH_START_YEAR_def days_before_year_def)
  next
    case (step n)
    obtain a b where ab: "count_years n = (a, b)" by fastforce
    have s: "count_years (Suc n) = (if datetime_is_leap_year n then (a, (b + 1) mod 256) else ((a + 1) mod 256, b))"
      using ab step.hyps by (simp add: count_years_def EPOCH_START_YEAR_def)
    have "a + b = n - 1970" "a * 365 + b * 366 = days_before_year n" using step ab by simp_all
    with step.hyps step.prems s show ?case
      by (auto simp: days_before_year_Suc datetime_get_days_per_year_def datetime_days_per_year_def)
  qed
  then show ?thesis by blast
qed

lemma month_sum:
  assumes "1 \<le> m" "m \<le> 12" "t + days_before_month leap m * SECONDS_PER_DAY < 2 ^ 32"
  shows "for_loop (\<lambda>m t. do { d \<leftarrow> datetime_get_days_per_month leap m; Some ((t + d * SECONDS_PER_DAY) mod 2 ^ 32) }) 1 (m - 1) t
    = Some (t + days_before_month leap m * SECONDS_PER_DAY)"
proof -
  define P where "P = (\<lambda>k s. s = t + days_before_month leap k * SECONDS_PER_DAY)"
  have mono: "days_before_month leap k \<le> days_before_month leap m" if "1 \<le> k" "k \<le> m" for k
    using that(2,1) by (induction m rule: dec_induct) (auto simp: days_before_month_Suc)
  have "\<exists>s. for_loop (\<lambda>m t. do { d \<leftarrow> datetime_get_days_per_month leap m; Some ((t + d * SECONDS_PER_DAY) mod 2 ^ 32) }) 1 (m - 1) t
    = Some s \<and> P (1 + (m - 1)) s"
  proof (rule for_loop_rule [where P = P])
    fix k s assume k: "1 \<le> k" "k < 1 + (m - 1)" and s: "P k s"
    have "days_before_month leap (Suc k) \<le> days_before_month leap m" using k assms(1) by (intro mono) simp_all
    then have "days_before_month leap (Suc k) * SECONDS_PER_DAY \<le> days_before_month leap m * SECONDS_PER_DAY" by simp
    then have "t + days_before_month leap (Suc k) * SECONDS_PER_DAY < 2 ^ 32" using assms(3) by linarith
    moreover have "s + month_days leap k * SECONDS_PER_DAY = t + days_before_month leap (Suc k) * SECONDS_PER_DAY"
      using s k(1) by (simp add: P_def days_before_month_Suc add_mult_distrib)
    ultimately show "\<exists>s'. (do { d \<leftarrow> datetime_get_days_per_month leap k; Some ((s + d * SECONDS_PER_DAY) mod 2 ^ 32) }) = Some s' \<and> P (Suc k) s'"
      using k assms(2) by (simp add: days_per_month_Some P_def)
  qed (simp add: P_def days_before_month_def)
  then show ?thesis using assms(1) by (simp add: P_def)
qed

lemma to_datetime_spec:
  assumes "t < 2 ^ 32"
  shows "\<exists>dt. datetime_timestamp_to_datetime t = Some dt \<and> 1970 \<le> year dt \<and> year dt \<le> 2106
    \<and> 1 \<le> month dt \<and> month dt \<le> 12 \<and> 1 \<le> day dt \<and> day dt \<le> month_days (datetime_is_leap_year (year dt)) (month dt)
    \<and> hour dt < 24 \<and> minute dt < 60 \<and> second dt < 60 \<and> 1 \<le> weekday dt \<and> weekday dt \<le> 7
    \<and> t div SECONDS_PER_DAY = days_before_year (year dt)
        + days_before_month (datetime_is_leap_year (year dt)) (month dt) + (day dt - 1)
    \<and> t mod SECONDS_PER_DAY = hour dt * 3600 + minute dt * 60 + second dt"
proof -
  define D where "D = t div SECONDS_PER_DAY"
  define s where "s = t mod SECONDS_PER_DAY"
  have D: "D < 49711" using assms by (simp add: D_def datetime_consts div_less_iff_less_mult)
  have s: "s < 86400" by (simp add: s_def datetime_consts)
  obtain d1 y where y: "year_loop D 1970 = (d1, y)" by fastforce
  have "1970 + D div 365 < 2 ^ 16" using D div_le_mono [of D 49711 365] by simp
  from year_loop_spec [OF y _ this] have y1: "1970 \<le> y" "D = d1 + days_before_year y" "d1 < datetime_get_days_per_year y"
    by (simp_all add: days_before_year_def)
  have "365 * (y - 1970) \<le> D" using days_before_year_lower [of "y - 1970"] y1(1,2) by simp
  then have y2: "y \<le> 2106" using D y1(1) by linarith
  have "d1 + days_before_month (datetime_is_leap_year y) 1 < days_before_month (datetime_is_leap_year y) 13"
    unfolding days_before_13 using y1(3) by (simp add: days_before_month_def)
  from month_loop_spec [OF _ _ this] obtain d2 m where m: "month_loop (datetime_is_leap_year y) d1 1 = Some (d2, m)"
    "1 \<le> m" "m \<le> 12" "d1 = d2 + days_before_month (datetime_is_leap_year y) m" "d2 < month_days (datetime_is_leap_year y) m"
    by (auto simp: days_before_month_def)
  have hms: "s = s div 3600 * 3600 + s mod 3600 div 60 * 60 + s mod 60"
  proof -
    have "s mod 60 = s mod 3600 mod 60" by (simp add: mod_mod_cancel)
    then show ?thesis using div_mult_mod_eq [of s 3600] div_mult_mod_eq [of "s mod 3600" 60] by linarith
  qed
  have w: "(D + 3) mod 7 < 7" by simp
  have run: "datetime_timestamp_to_datetime t = Some \<lparr>hour = s div 3600, minute = s mod 3600 div 60, second = s mod 60,
      day = d2 + 1, month = m, year = y, weekday = (D + 3) mod 7 + 1\<rparr>"
    using y m(1) unfolding datetime_timestamp_to_datetime_def Let_def D_def [symmetric] s_def [symmetric]
    by (simp add: datetime_consts)
  moreover have "s div 3600 < 24" using s by (simp add: div_less_iff_less_mult)
  moreover have "s mod 3600 div 60 < 60" by (simp add: div_less_iff_less_mult)
  ultimately show ?thesis unfolding D_def [symmetric] s_def [symmetric] using y1 y2 m hms w by simp
qed

lemma days_before_2038: "days_before_year 2038 = 24837"
  by (simp add: days_before_year_def upt_conv_Cons datetime_get_days_per_year_def datetime_is_leap_year_def
      datetime_days_per_year_def)

lemma days_before_2039: "days_before_year 2039 = 25202"
  using days_before_year_Suc [of 2038]
  by (simp add: days_before_2038 datetime_get_days_per_year_def datetime_is_leap_year_def datetime_days_per_year_def)

lemma to_timestamp_spec:
  assumes y: "1970 \<le> year dt" "year dt \<le> 2038" and m: "1 \<le> month dt" "month dt \<le> 12" and d: "1 \<le> day dt"
    and t: "t = (days_before_year (year dt) + days_before_month (datetime_is_leap_year (year dt)) (month dt) + (day dt - 1)) * SECONDS_PER_DAY
      + (hour dt * 3600 + minute dt * 60 + second dt)" and b: "t < 2 ^ 32"
  shows "datetime_datetime_to_timestamp dt = Some t"
proof -
  let ?leap = "datetime_is_leap_year (year dt)"
  obtain a l where c: "count_years (year dt) = (a, l)" by (cases "count_years (year dt)")
  have n: "a * 365 + l * 366 = days_before_year (year dt)" using count_years_spec [of "year dt"] y c by simp
  have "days_before_year (year dt) \<le> 24837" using days_before_year_mono [OF y] by (simp add: days_before_2038)
  then have "days_before_year (year dt) * 86400 < 2 ^ 31" by simp
  then have im: "int_mult (a * 365 + l * 366) SECONDS_PER_DAY = Some (days_before_year (year dt) * SECONDS_PER_DAY)"
    by (simp add: int_mult_def n datetime_consts)
  have "days_before_year (year dt) * SECONDS_PER_DAY + days_before_month ?leap (month dt) * SECONDS_PER_DAY < 2 ^ 32"
    using b unfolding t add_mult_distrib by (rule le_less_trans [rotated]) simp
  note ms = month_sum [OF m this]
  define base where "base = days_before_year (year dt) * SECONDS_PER_DAY + days_before_month ?leap (month dt) * SECONDS_PER_DAY"
  have t': "t = base + (day dt - 1) * 86400 + hour dt * 3600 + minute dt * 60 + second dt"
    unfolding t base_def add_mult_distrib by (simp add: datetime_consts)
  obtain k where k: "day dt = Suc k" using d by (cases "day dt") auto
  have e: "int base + (int (day dt) - 1) * int SECONDS_PER_DAY + int (hour dt * SECONDS_PER_HOUR)
      + int (minute dt * SECONDS_PER_MINUTE) + int (second dt) = int t"
    unfolding t' k by (simp add: datetime_consts)
  have dpy: "datetime_days_per_year ! 0 = 365" "datetime_days_per_year ! 1 = 366" by (simp_all add: datetime_days_per_year_def)
  have "int t mod 2 ^ 32 = int t" using b by (intro mod_pos_pos_trivial) simp_all
  then show ?thesis
    unfolding datetime_datetime_to_timestamp_def c prod.case dpy im bind.bind_lunit Let_def ms base_def [symmetric] e
    by simp
qed

section \<open>Properties\<close>

text \<open>C13: every timestamp before 2039 becomes a calendar date whose fields are in range (the day
  within its month), and the date becomes the same timestamp again.\<close>

theorem datetime_round_trip:
  assumes "t < 2177452800"
  shows "\<exists>dt. datetime_timestamp_to_datetime t = Some dt
    \<and> (\<exists>n. datetime_get_days_per_month (datetime_is_leap_year (year dt)) (month dt) = Some n \<and> 1 \<le> day dt \<and> day dt \<le> n)
    \<and> (2000 \<le> year dt \<longrightarrow> datetime_validate_datetime dt)
    \<and> datetime_datetime_to_timestamp dt = Some t"
proof -
  have t: "t < 2 ^ 32" using assms by simp
  obtain dt where dt: "datetime_timestamp_to_datetime t = Some dt" and y: "1970 \<le> year dt" "year dt \<le> 2106"
    and m: "1 \<le> month dt" "month dt \<le> 12"
    and d: "1 \<le> day dt" "day dt \<le> month_days (datetime_is_leap_year (year dt)) (month dt)"
    and r: "hour dt < 24" "minute dt < 60" "second dt < 60" "1 \<le> weekday dt" "weekday dt \<le> 7"
    and D: "t div SECONDS_PER_DAY = days_before_year (year dt)
        + days_before_month (datetime_is_leap_year (year dt)) (month dt) + (day dt - 1)"
      "t mod SECONDS_PER_DAY = hour dt * 3600 + minute dt * 60 + second dt"
    using to_datetime_spec [OF t] by blast
  have "t div SECONDS_PER_DAY < 25202" using assms by (simp add: datetime_consts div_less_iff_less_mult)
  then have "days_before_year (year dt) < days_before_year 2039" unfolding D(1) days_before_2039 by linarith
  then have y2: "year dt \<le> 2038" using days_before_year_mono [of 2039 "year dt"] by (cases "2039 \<le> year dt") auto
  have eq: "t = (days_before_year (year dt) + days_before_month (datetime_is_leap_year (year dt)) (month dt) + (day dt - 1)) * SECONDS_PER_DAY
      + (hour dt * 3600 + minute dt * 60 + second dt)"
    using div_mult_mod_eq [of t SECONDS_PER_DAY] unfolding D by (simp only:)
  have "datetime_datetime_to_timestamp dt = Some t" by (rule to_timestamp_spec [OF y(1) y2 m d(1) eq t])
  moreover have "month_days (datetime_is_leap_year (year dt)) (month dt) \<le> 31" using month_table [OF m, of "datetime_is_leap_year (year dt)"] by auto
  then have "2000 \<le> year dt \<longrightarrow> datetime_validate_datetime dt"
    using r d m y2 by (auto simp: datetime_validate_datetime_def)
  ultimately show ?thesis using dt d days_per_month_Some [OF m] by auto
qed

theorem datetime_round_trip_witness:
  "\<exists>dt. datetime_timestamp_to_datetime 1709210096 = Some dt
    \<and> (\<exists>n. datetime_get_days_per_month (datetime_is_leap_year (year dt)) (month dt) = Some n \<and> 1 \<le> day dt \<and> day dt \<le> n)
    \<and> (2000 \<le> year dt \<longrightarrow> datetime_validate_datetime dt)
    \<and> datetime_datetime_to_timestamp dt = Some 1709210096"
  by (rule datetime_round_trip) simp

text \<open>C14: the conversion of a date to a timestamp is defined up to the year 2038 only: from 2039 on (checked up to 2199, before the
  8-bit counters of the years wrap around; \<open>datetime_validate_datetime\<close> admits years up to 2099, and a unit
  test of the repository converts a date of 2106) the product of the days before the year and \<open>SECONDS_PER_DAY\<close> overflows \<open>int\<close>.\<close>

theorem datetime_to_timestamp_overflow:
  assumes "1970 \<le> year dt" "year dt < 2200" "month dt \<le> 12"
  shows "datetime_datetime_to_timestamp dt = None \<longleftrightarrow> 2039 \<le> year dt"
proof -
  obtain a l where c: "count_years (year dt) = (a, l)" by (cases "count_years (year dt)")
  have days: "a * 365 + l * 366 = days_before_year (year dt)" using count_years_spec [of "year dt"] assms c by simp
  show ?thesis
  proof (cases "2039 \<le> year dt")
    case True
    then have "25202 \<le> days_before_year (year dt)" using days_before_year_mono [of 2039 "year dt"] by (simp add: days_before_2039)
    then have "int_mult (a * 365 + l * 366) SECONDS_PER_DAY = None" unfolding days by (simp add: int_mult_def datetime_consts)
    with True show ?thesis by (simp add: datetime_datetime_to_timestamp_def c datetime_days_per_year_def)
  next
    case False
    then have "days_before_year (year dt) \<le> 24837" using days_before_year_mono [of "year dt" 2038] assms(1) by (simp add: days_before_2038)
    then have m: "int_mult (a * 365 + l * 366) SECONDS_PER_DAY = Some (days_before_year (year dt) * 86400)"
      unfolding days by (simp add: int_mult_def datetime_consts)
    have "\<exists>t. for_loop (\<lambda>m t. do { d \<leftarrow> datetime_get_days_per_month (datetime_is_leap_year (year dt)) m;
        Some ((t + d * SECONDS_PER_DAY) mod 2 ^ 32) }) 1 (month dt - 1) (days_before_year (year dt) * 86400) = Some t \<and> True"
      by (rule for_loop_rule) (use assms(3) in \<open>auto simp: days_per_month_Some\<close>)
    with False m show ?thesis by (auto simp: datetime_datetime_to_timestamp_def c datetime_days_per_year_def Let_def)
  qed
qed

theorem datetime_to_timestamp_overflow_witness:
  "datetime_datetime_to_timestamp \<lparr>hour = 6, minute = 28, second = 15, day = 7, month = 2, year = 2106, weekday = 0\<rparr> = None
    \<and> datetime_datetime_to_timestamp \<lparr>hour = 0, minute = 0, second = 0, day = 1, month = 1, year = 2038, weekday = 1\<rparr> \<noteq> None"
  using datetime_to_timestamp_overflow [of "\<lparr>hour = 6, minute = 28, second = 15, day = 7, month = 2, year = 2106, weekday = 0\<rparr>"]
    datetime_to_timestamp_overflow [of "\<lparr>hour = 0, minute = 0, second = 0, day = 1, month = 1, year = 2038, weekday = 1\<rparr>"] by simp

end
