(* ===== verification/Dolphin.thy ===== *)
theory Dolphin
  imports Datetime
begin

text \<open>
  The pet of the device, \<open>applications/services/dolphin\<close>: \<open>helpers/dolphin_deed.c\<close> (what a deed is
  worth), \<open>helpers/dolphin_state.c\<close> (the persistent state and what changes it) and the event loop of
  \<open>dolphin.c\<close>.

  Unsigned fields are natural numbers with the wrap-around of their type written out where it can
  happen; \<open>int32_t\<close> fields are integers. The clock, the outcome of writing the state file and what is
  read from it are arguments.
\<close>

section \<open>Deeds\<close>

datatype (plugins only: code size) DolphinApp =
    DolphinAppSubGhz | DolphinAppRfid | DolphinAppNfc | DolphinAppIr | DolphinAppIbutton
  | DolphinAppBadKb | DolphinAppPlugin

primrec app_code :: "DolphinApp \<Rightarrow> nat" where
  "app_code DolphinAppSubGhz = 0"
| "app_code DolphinAppRfid = 1"
| "app_code DolphinAppNfc = 2"
| "app_code DolphinAppIr = 3"
| "app_code DolphinAppIbutton = 4"
| "app_code DolphinAppBadKb = 5"
| "app_code DolphinAppPlugin = 6"

definition DolphinAppMAX :: nat where "DolphinAppMAX = 7"

datatype (plugins only: code size) DolphinDeed =
    DolphinDeedSubGhzReceiverInfo | DolphinDeedSubGhzSave | DolphinDeedSubGhzRawRec |
  DolphinDeedSubGhzAddManually | DolphinDeedSubGhzSend | DolphinDeedSubGhzFrequencyAnalyzer |
  DolphinDeedRfidRead | DolphinDeedRfidReadSuccess | DolphinDeedRfidSave | DolphinDeedRfidEmulate |
  DolphinDeedRfidAdd | DolphinDeedNfcRead | DolphinDeedNfcReadSuccess | DolphinDeedNfcSave |
  DolphinDeedNfcDetectReader | DolphinDeedNfcEmulate | DolphinDeedNfcMfcAdd | DolphinDeedNfcAddSave
  | DolphinDeedNfcAddEmulate | DolphinDeedIrSend | DolphinDeedIrLearnSuccess | DolphinDeedIrSave |
  DolphinDeedIbuttonRead | DolphinDeedIbuttonReadSuccess | DolphinDeedIbuttonSave |
  DolphinDeedIbuttonEmulate | DolphinDeedIbuttonAdd | DolphinDeedBadKbPlayScript |
  DolphinDeedU2fAuthorized | DolphinDeedGpioUartBridge | DolphinDeedPluginStart |
  DolphinDeedPluginGameStart | DolphinDeedPluginGameWin | DolphinDeedPluginInternalStart |
  DolphinDeedMAX | DolphinDeedTestLeft | DolphinDeedTestRight

primrec deed_code :: "DolphinDeed \<Rightarrow> nat" where
  "deed_code DolphinDeedSubGhzReceiverInfo = 0"
| "deed_code DolphinDeedSubGhzSave = 1"
| "deed_code DolphinDeedSubGhzRawRec = 2"
| "deed_code DolphinDeedSubGhzAddManually = 3"
| "deed_code DolphinDeedSubGhzSend = 4"
| "deed_code DolphinDeedSubGhzFrequencyAnalyzer = 5"
| "deed_code DolphinDeedRfidRead = 6"
| "deed_code DolphinDeedRfidReadSuccess = 7"
| "deed_code DolphinDeedRfidSave = 8"
| "deed_code DolphinDeedRfidEmulate = 9"
| "deed_code DolphinDeedRfidAdd = 10"
| "deed_code DolphinDeedNfcRead = 11"
| "deed_code DolphinDeedNfcReadSuccess = 12"
| "deed_code DolphinDeedNfcSave = 13"
| "deed_code DolphinDeedNfcDetectReader = 14"
| "deed_code DolphinDeedNfcEmulate = 15"
| "deed_code DolphinDeedNfcMfcAdd = 16"
| "deed_code DolphinDeedNfcAddSave = 17"
| "deed_code DolphinDeedNfcAddEmulate = 18"
| "deed_code DolphinDeedIrSend = 19"
| "deed_code DolphinDeedIrLearnSuccess = 20"
| "deed_code DolphinDeedIrSave = 21"
| "deed_code DolphinDeedIbuttonRead = 22"
| "deed_code DolphinDeedIbuttonReadSuccess = 23"
| "deed_code DolphinDeedIbuttonSave = 24"
| "deed_code DolphinDeedIbuttonEmulate = 25"
| "deed_code DolphinDeedIbuttonAdd = 26"
| "deed_code DolphinDeedBadKbPlayScript = 27"
| "deed_code DolphinDeedU2fAuthorized = 28"
| "deed_code DolphinDeedGpioUartBridge = 29"
| "deed_code DolphinDeedPluginStart = 30"
| "deed_code DolphinDeedPluginGameStart = 31"
| "deed_code DolphinDeedPluginGameWin = 32"
| "deed_code DolphinDeedPluginInternalStart = 33"
| "deed_code DolphinDeedMAX = 34"
| "deed_code DolphinDeedTestLeft = 35"
| "deed_code DolphinDeedTestRight = 36"

definition dolphin_deed_weights :: "(nat \<times> DolphinApp) list" where
  "dolphin_deed_weights =
     [(1, DolphinAppSubGhz), (3, DolphinAppSubGhz), (1, DolphinAppSubGhz), (2, DolphinAppSubGhz), (2, DolphinAppSubGhz),
      (1, DolphinAppSubGhz), (1, DolphinAppRfid), (3, DolphinAppRfid), (3, DolphinAppRfid), (2, DolphinAppRfid),
      (2, DolphinAppRfid), (1, DolphinAppNfc), (3, DolphinAppNfc), (3, DolphinAppNfc), (1, DolphinAppNfc),
      (2, DolphinAppNfc), (2, DolphinAppNfc), (1, DolphinAppNfc), (1, DolphinAppNfc), (1, DolphinAppIr),
      (3, DolphinAppIr), (3, DolphinAppIr), (1, DolphinAppIbutton), (3, DolphinAppIbutton), (3, DolphinAppIbutton),
      (2, DolphinAppIbutton), (2, DolphinAppIbutton), (3, DolphinAppBadKb), (3, DolphinAppPlugin), (1, DolphinAppPlugin),
      (0, DolphinAppPlugin), (0, DolphinAppPlugin), (0, DolphinAppPlugin), (2, DolphinAppPlugin)]"

definition dolphin_deed_limits :: "nat list" where
  "dolphin_deed_limits = [69, 69, 69, 69, 69, 69, 69]"

definition dolphin_deed_get_weight :: "DolphinDeed \<Rightarrow> nat option" where
  "dolphin_deed_get_weight deed = do {
     furi_check (deed_code deed < deed_code DolphinDeedMAX);
     w \<leftarrow> rd dolphin_deed_weights (deed_code deed);
     Some (fst w) }"

definition dolphin_deed_get_app :: "DolphinDeed \<Rightarrow> DolphinApp option" where
  "dolphin_deed_get_app deed = do {
     furi_check (deed_code deed < deed_code DolphinDeedMAX);
     w \<leftarrow> rd dolphin_deed_weights (deed_code deed);
     Some (snd w) }"

definition dolphin_deed_get_app_limit :: "DolphinApp \<Rightarrow> nat option" where
  "dolphin_deed_get_app_limit app = do {
     furi_check (app_code app < DolphinAppMAX);
     rd dolphin_deed_limits (app_code app) }"

section \<open>The state\<close>

definition BUTTHURT_MAX :: int where "BUTTHURT_MAX = 14"
definition BUTTHURT_MIN :: int where "BUTTHURT_MIN = 0"

record DolphinStoreData =
  icounter_daily_limit :: "nat list"
  butthurt_daily_limit :: nat
  flags :: nat
  icounter :: nat
  butthurt :: int
  timestamp :: nat

record DolphinState =
  data :: DolphinStoreData
  dirty :: bool

definition dolphin_zero :: DolphinStoreData where
  "dolphin_zero = \<lparr>icounter_daily_limit = replicate DolphinAppMAX 0, butthurt_daily_limit = 0, flags = 0,
     icounter = 0, butthurt = 0, timestamp = 0\<rparr>"

definition DOLPHIN_LEVELS :: "nat list" where
  "DOLPHIN_LEVELS = [100,  200,  300,  450,  600,  750,  950,  1150, 1350, 1600,
     1850, 2100, 2400, 2700, 3000, 3350, 3700, 4050, 4450, 4850,
     5250, 5700, 6150, 6600, 7100, 7600, 8100, 8650, 9200]"

definition DOLPHIN_LEVEL_COUNT :: nat where "DOLPHIN_LEVEL_COUNT = length DOLPHIN_LEVELS"

text \<open>Saving: \<open>saved\<close> is the outcome of \<open>saved_struct_save\<close>.\<close>

definition dolphin_state_save :: "bool \<Rightarrow> DolphinState \<Rightarrow> DolphinState \<times> bool" where
  "dolphin_state_save saved st =
     (if \<not> dirty st then (st, True)
      else if saved then (st\<lparr>dirty := False\<rparr>, True) else (st, False))"

text \<open>Loading: \<open>loaded\<close> is what \<open>saved_struct_load\<close> put into \<open>data\<close>, if it succeeded.\<close>

definition dolphin_state_load :: "DolphinStoreData option \<Rightarrow> DolphinState \<Rightarrow> DolphinState \<times> bool" where
  "dolphin_state_load loaded st =
     (case loaded of
        Some d \<Rightarrow> if butthurt d > BUTTHURT_MAX \<or> butthurt d < BUTTHURT_MIN
                   then (\<lparr>data = dolphin_zero, dirty = True\<rparr>, False) else (st\<lparr>data := d\<rparr>, True)
      | None \<Rightarrow> (\<lparr>data = dolphin_zero, dirty = True\<rparr>, False))"

definition dolphin_state_is_levelup :: "nat \<Rightarrow> bool" where
  "dolphin_state_is_levelup ic \<longleftrightarrow> ic \<in> set DOLPHIN_LEVELS"

fun level_loop :: "nat list \<Rightarrow> nat \<Rightarrow> nat \<Rightarrow> nat" where
  "level_loop [] i ic = DOLPHIN_LEVEL_COUNT + 1"
| "level_loop (l # ls) i ic = (if ic \<le> l then i + 1 else level_loop ls (i + 1) ic)"

definition dolphin_get_level :: "nat \<Rightarrow> nat" where
  "dolphin_get_level ic = level_loop DOLPHIN_LEVELS 0 ic"

definition dolphin_state_xp_above_last_levelup :: "nat \<Rightarrow> nat" where
  "dolphin_state_xp_above_last_levelup ic =
     (let level_idx = dolphin_get_level ic - 1 in
      if level_idx > 0 then ic - DOLPHIN_LEVELS ! (level_idx - 1) else ic)"

definition dolphin_state_xp_to_levelup :: "nat \<Rightarrow> nat" where
  "dolphin_state_xp_to_levelup ic =
     (let level_idx = dolphin_get_level ic - 1 in
      if level_idx < DOLPHIN_LEVEL_COUNT then DOLPHIN_LEVELS ! level_idx - ic else 2 ^ 32 - 1)"

definition CLAMP :: "int \<Rightarrow> int \<Rightarrow> int \<Rightarrow> int" where
  "CLAMP x upper lower = min upper (max x lower)"

text \<open>The conversion to \<open>int8_t\<close>.\<close>

definition to_int8 :: "int \<Rightarrow> int" where
  "to_int8 x = (x + 128) mod 256 - 128"

definition butthurt_level :: "nat \<Rightarrow> nat" where
  "butthurt_level l = l div 15 + (if l mod 15 \<noteq> 0 then 1 else 0)"

definition dolphin_test_deed :: "nat \<Rightarrow> DolphinState \<Rightarrow> DolphinDeed \<Rightarrow> DolphinState" where
  "dolphin_test_deed now st deed = (let d = data st in
     if deed = DolphinDeedTestLeft then
       st\<lparr>data := d\<lparr>butthurt := CLAMP (butthurt d + 1) BUTTHURT_MAX BUTTHURT_MIN,
            icounter := (if icounter d > 0 then icounter d - 1 else icounter d), timestamp := now\<rparr>, dirty := True\<rparr>
     else if deed = DolphinDeedTestRight then
       st\<lparr>data := d\<lparr>butthurt := BUTTHURT_MIN,
            icounter := (if icounter d < 2 ^ 32 - 1 then icounter d + 1 else icounter d), timestamp := now\<rparr>, dirty := True\<rparr>
     else st)"

definition dolphin_state_on_deed :: "nat \<Rightarrow> DolphinState \<Rightarrow> DolphinDeed \<Rightarrow> DolphinState option" where
  "dolphin_state_on_deed now st deed =
     (if deed_code deed > deed_code DolphinDeedMAX then Some (dolphin_test_deed now st deed)
      else do {
        app \<leftarrow> dolphin_deed_get_app deed;
        limit \<leftarrow> dolphin_deed_get_app_limit app;
        used \<leftarrow> rd (icounter_daily_limit (data st)) (app_code app);
        let weight_limit = to_int8 (int limit - int used);
        w \<leftarrow> dolphin_deed_get_weight deed;
        let deed_weight = nat (CLAMP (int w) weight_limit 0 mod 256);
        let xp_to_levelup = dolphin_state_xp_to_levelup (icounter (data st));
        let deed_weight' = (if xp_to_levelup \<noteq> 0 then min xp_to_levelup deed_weight else deed_weight);
        limits \<leftarrow> (if xp_to_levelup \<noteq> 0
                   then wr (icounter_daily_limit (data st)) (app_code app) ((used + deed_weight') mod 256)
                   else Some (icounter_daily_limit (data st)));
        let ic = (if xp_to_levelup \<noteq> 0 then (icounter (data st) + deed_weight') mod 2 ^ 32 else icounter (data st));
        let level_old = butthurt_level (butthurt_daily_limit (data st));
        let bdl = nat (CLAMP (int (butthurt_daily_limit (data st) + deed_weight')) 46 0);
        let level_new = butthurt_level bdl;
        let new_butthurt = CLAMP (butthurt (data st) - of_bool (level_old \<noteq> level_new)) BUTTHURT_MAX BUTTHURT_MIN;
        Some (st\<lparr>data := (data st)\<lparr>icounter_daily_limit := limits, butthurt_daily_limit := bdl, icounter := ic,
                          butthurt := new_butthurt, timestamp := now\<rparr>, dirty := True\<rparr>) })"

definition dolphin_state_butthurted :: "nat \<Rightarrow> DolphinState \<Rightarrow> DolphinState" where
  "dolphin_state_butthurted now st =
     (if butthurt (data st) < BUTTHURT_MAX
      then st\<lparr>data := (data st)\<lparr>butthurt := butthurt (data st) + 1, timestamp := now\<rparr>, dirty := True\<rparr> else st)"

definition dolphin_state_increase_level :: "DolphinState \<Rightarrow> DolphinState option" where
  "dolphin_state_increase_level st = do {
     furi_assert (dolphin_state_is_levelup (icounter (data st)));
     Some (st\<lparr>data := (data st)\<lparr>icounter := (icounter (data st) + 1) mod 2 ^ 32\<rparr>, dirty := True\<rparr>) }"

definition dolphin_state_clear_limits :: "DolphinState \<Rightarrow> DolphinState" where
  "dolphin_state_clear_limits st =
     st\<lparr>data := (data st)\<lparr>icounter_daily_limit := map (\<lambda>_. 0) (icounter_daily_limit (data st)), butthurt_daily_limit := 0\<rparr>,
        dirty := True\<rparr>"

section \<open>The service\<close>

datatype (plugins only: code size) DolphinEvent =
    DolphinEventTypeDeed DolphinDeed | DolphinEventTypeStats | DolphinEventTypeFlush
  | DolphinEventTypeIncreaseButthurt | DolphinEventTypeClearLimits

record DolphinStats =
  st_icounter :: nat
  st_butthurt :: int
  st_timestamp :: nat
  st_level :: nat
  st_level_up_is_pending :: bool

definition dolphin_stats_of :: "DolphinState \<Rightarrow> DolphinStats" where
  "dolphin_stats_of st = \<lparr>st_icounter = icounter (data st), st_butthurt = butthurt (data st),
     st_timestamp = timestamp (data st), st_level = dolphin_get_level (icounter (data st)),
     st_level_up_is_pending = (dolphin_state_xp_to_levelup (icounter (data st)) = 0)\<rparr>"

text \<open>One turn of the loop of \<open>dolphin_srv\<close>; the statistics are the reply to a \<open>Stats\<close> event.\<close>

definition dolphin_srv_event :: "nat \<Rightarrow> bool \<Rightarrow> DolphinState \<Rightarrow> DolphinEvent \<Rightarrow> (DolphinState \<times> DolphinStats option) option" where
  "dolphin_srv_event now saved st ev =
     (case ev of
        DolphinEventTypeDeed deed \<Rightarrow> do { st \<leftarrow> dolphin_state_on_deed now st deed; Some (st, None) }
      | DolphinEventTypeStats \<Rightarrow> Some (st, Some (dolphin_stats_of st))
      | DolphinEventTypeFlush \<Rightarrow> Some (fst (dolphin_state_save saved st), None)
      | DolphinEventTypeClearLimits \<Rightarrow> Some (fst (dolphin_state_save saved (dolphin_state_clear_limits st)), None)
      | DolphinEventTypeIncreaseButthurt \<Rightarrow> Some (fst (dolphin_state_save saved (dolphin_state_butthurted now st)), None))"

text \<open>\<open>HOURS_IN_TICKS(x)\<close>, and the wait until five in the morning that
  \<open>dolphin_update_clear_limits_timer_period\<close> programs when the timer has more than a tenth of an hour left.\<close>

definition HOURS_IN_TICKS :: "nat \<Rightarrow> nat" where
  "HOURS_IN_TICKS x = x * 60 * 60 * 1000"

definition dolphin_update_clear_limits_timer_period :: "nat \<Rightarrow> nat \<Rightarrow> DateTime \<Rightarrow> nat option" where
  "dolphin_update_clear_limits_timer_period timer_expires_at now_ticks date =
     (if (timer_expires_at + (2 ^ 32 - now_ticks)) mod 2 ^ 32 > 360000 then
        let now_time_in_ms = ((hour date * 60 + minute date) * 60 + second date) * 1000 in
        Some (if hour date < 5 then HOURS_IN_TICKS 5 - now_time_in_ms else HOURS_IN_TICKS (24 + 5) - now_time_in_ms)
      else None)"

section \<open>Lemmas\<close>

subsection \<open>Levels\<close>

lemma level_loop_count:
  "sorted ls \<Longrightarrow> i + length ls = DOLPHIN_LEVEL_COUNT \<Longrightarrow> level_loop ls i ic = i + 1 + length (filter (\<lambda>l. l < ic) ls)"
proof (induction ls arbitrary: i)
  case (Cons l ls)
  have "filter (\<lambda>l. l < ic) ls = []" if "ic \<le> l" using that Cons.prems(1) by (auto simp: filter_empty_conv)
  then show ?case using Cons by (auto simp: not_le)
qed simp

lemma levels_sorted: "sorted DOLPHIN_LEVELS" "distinct DOLPHIN_LEVELS" "length DOLPHIN_LEVELS = 29"
  by (simp_all add: DOLPHIN_LEVELS_def)

lemma level_count: "dolphin_get_level ic = 1 + length (filter (\<lambda>l. l < ic) DOLPHIN_LEVELS)"
  using level_loop_count [of DOLPHIN_LEVELS 0 ic] levels_sorted(1) by (simp add: dolphin_get_level_def DOLPHIN_LEVEL_COUNT_def)

lemma sorted_filter_below: "sorted (ls :: nat list) \<Longrightarrow> filter (\<lambda>l. l < c) ls = take (length (filter (\<lambda>l. l < c) ls)) ls"
proof (induction ls)
  case (Cons l ls)
  have "filter (\<lambda>l. l < c) ls = []" if "\<not> l < c" using that Cons.prems by (auto simp: filter_empty_conv)
  then show ?case using Cons by auto
qed simp

lemma level_bracket:
  defines "k \<equiv> \<lambda>ic. dolphin_get_level ic - 1"
  shows "k ic \<le> 29" and "k ic < 29 \<Longrightarrow> ic \<le> DOLPHIN_LEVELS ! k ic" and "0 < k ic \<Longrightarrow> DOLPHIN_LEVELS ! (k ic - 1) < ic"
proof -
  let ?L = DOLPHIN_LEVELS
  have k: "k ic = length (filter (\<lambda>l. l < ic) ?L)" by (simp add: k_def level_count)
  show "k ic \<le> 29" unfolding k using length_filter_le [of "\<lambda>l. l < ic" ?L] levels_sorted by simp
  have t: "filter (\<lambda>l. l < ic) ?L = take (k ic) ?L" unfolding k by (rule sorted_filter_below [OF levels_sorted(1)])
  show "0 < k ic \<Longrightarrow> ?L ! (k ic - 1) < ic"
  proof -
    assume "0 < k ic"
    then have "?L ! (k ic - 1) \<in> set (take (k ic) ?L)" using \<open>k ic \<le> 29\<close> levels_sorted(3) by (auto simp: in_set_conv_nth intro!: exI [of _ "k ic - 1"])
    then show ?thesis unfolding t [symmetric] by simp
  qed
  show "k ic < 29 \<Longrightarrow> ic \<le> ?L ! k ic"
  proof (rule ccontr)
    assume lt: "k ic < 29" and "\<not> ic \<le> ?L ! k ic"
    then have "?L ! k ic \<in> set (filter (\<lambda>l. l < ic) ?L)" using levels_sorted(3) by simp
    then obtain j where "j < k ic" "?L ! j = ?L ! k ic" unfolding t by (auto simp: in_set_conv_nth)
    then show False using levels_sorted(2,3) lt by (auto simp: nth_eq_iff_index_eq)
  qed
qed

lemma xp_to_levelup_spec:
  "dolphin_state_xp_to_levelup ic = (if dolphin_get_level ic \<le> 29 then DOLPHIN_LEVELS ! (dolphin_get_level ic - 1) - ic else 2 ^ 32 - 1)"
  using level_count [of ic] by (auto simp: dolphin_state_xp_to_levelup_def DOLPHIN_LEVEL_COUNT_def levels_sorted Let_def)

lemma filter_length_mono: "(\<And>x. P x \<Longrightarrow> Q x) \<Longrightarrow> length (filter P xs) \<le> length (filter Q xs)"
proof (induction xs)
  case (Cons x xs)
  then have "length (filter P xs) \<le> length (filter Q xs)" by blast
  with Cons.prems [of x] show ?case by auto
qed simp

lemma filter_less_mono: "(\<And>l. l \<in> set ls \<Longrightarrow> l < a \<longleftrightarrow> l < b) \<Longrightarrow> filter (\<lambda>l. l < a) ls = filter (\<lambda>l. l < b) ls"
  for a b :: nat by (rule filter_cong) auto

text \<open>Experience that does not pass the distance to the next level leaves the level alone.\<close>

lemma level_stable:
  assumes "e \<le> dolphin_state_xp_to_levelup ic"
  shows "dolphin_get_level (ic + e) = dolphin_get_level ic"
proof -
  define k where "k = dolphin_get_level ic - 1"
  have "l < ic + e \<longleftrightarrow> l < ic" if l_in: "l \<in> set DOLPHIN_LEVELS" for l
  proof
    assume l: "l < ic + e"
    show "l < ic"
    proof (cases "k < 29")
      case True
      have b: "ic \<le> DOLPHIN_LEVELS ! k" using level_bracket(2) [of ic] True by (simp add: k_def)
      have "dolphin_get_level ic \<le> 29" using True level_count [of ic] by (simp add: k_def)
      then have "ic + e \<le> DOLPHIN_LEVELS ! k" using assms b by (simp add: xp_to_levelup_spec k_def)
      with l have lk: "l < DOLPHIN_LEVELS ! k" by linarith
      obtain j where j: "j < 29" "l = DOLPHIN_LEVELS ! j" using l_in levels_sorted(3) by (auto simp: in_set_conv_nth)
      have "j < k"
      proof (rule ccontr)
        assume "\<not> j < k"
        then have "DOLPHIN_LEVELS ! k \<le> DOLPHIN_LEVELS ! j" using levels_sorted j(1) by (intro sorted_nth_mono) simp_all
        with lk j(2) show False by simp
      qed
      then have "l \<le> DOLPHIN_LEVELS ! (k - 1)" unfolding j(2) using levels_sorted True by (intro sorted_nth_mono) simp_all
      also have "\<dots> < ic" using level_bracket(3) [of ic] \<open>j < k\<close> by (simp add: k_def)
      finally show ?thesis .
    next
      case False
      then have "k = 29" using level_bracket(1) [of ic] by (simp add: k_def)
      then have "length (filter (\<lambda>l. l < ic) DOLPHIN_LEVELS) = length DOLPHIN_LEVELS"
        by (simp add: k_def level_count levels_sorted)
      then have "\<forall>l \<in> set DOLPHIN_LEVELS. l < ic" by (metis length_filter_less nat_neq_iff)
      with l_in show ?thesis by blast
    qed
  qed simp
  then have "filter (\<lambda>l. l < ic + e) DOLPHIN_LEVELS = filter (\<lambda>l. l < ic) DOLPHIN_LEVELS" by (rule filter_less_mono)
  then show ?thesis by (simp add: level_count)
qed

subsection \<open>The invariant\<close>

definition dolphin_inv :: "DolphinState \<Rightarrow> bool" where
  "dolphin_inv st \<longleftrightarrow> length (icounter_daily_limit (data st)) = DolphinAppMAX
     \<and> (\<forall>l \<in> set (icounter_daily_limit (data st)). l \<le> 69) \<and> butthurt_daily_limit (data st) \<le> 46
     \<and> icounter (data st) < 2 ^ 32 \<and> BUTTHURT_MIN \<le> butthurt (data st) \<and> butthurt (data st) \<le> BUTTHURT_MAX"

lemma deed_tables:
  assumes "deed_code deed < 34"
  shows "\<exists>w app. dolphin_deed_get_weight deed = Some w \<and> dolphin_deed_get_app deed = Some app \<and> w \<le> 3"
proof -
  have len: "length dolphin_deed_weights = 34" and w: "\<forall>x \<in> set dolphin_deed_weights. fst x \<le> 3"
    by (simp_all add: dolphin_deed_weights_def)
  then have "fst (dolphin_deed_weights ! deed_code deed) \<le> 3" using assms by simp
  then show ?thesis using assms len
    by (simp add: dolphin_deed_get_weight_def dolphin_deed_get_app_def mem_simps)
qed

lemma app_code_less: "app_code app < 7"
  by (cases app) simp_all

lemma app_limit: "dolphin_deed_get_app_limit app = Some 69"
proof -
  have eq: "dolphin_deed_limits = replicate 7 69" by (simp add: dolphin_deed_limits_def numeral_eq_Suc)
  show ?thesis using app_code_less [of app]
    unfolding dolphin_deed_get_app_limit_def eq by (simp add: DolphinAppMAX_def rd_def)
qed

definition deed_gain :: "DolphinState \<Rightarrow> nat \<Rightarrow> DolphinApp \<Rightarrow> nat" where
  "deed_gain st w app = (let dw = min (69 - icounter_daily_limit (data st) ! app_code app) w;
       xp = dolphin_state_xp_to_levelup (icounter (data st)) in if xp \<noteq> 0 then min xp dw else dw)"

text \<open>What a deed of the table does to a state that satisfies the invariant: it gains \<open>e\<close> points for
  application \<open>app\<close>.\<close>

definition deed_effect :: "DolphinState \<Rightarrow> DolphinApp \<Rightarrow> nat \<Rightarrow> DolphinState \<Rightarrow> bool" where
  "deed_effect st app e st' \<longleftrightarrow> e \<le> 3 \<and> e \<le> 69 - icounter_daily_limit (data st) ! app_code app
    \<and> (if dolphin_state_xp_to_levelup (icounter (data st)) \<noteq> 0 then e \<le> dolphin_state_xp_to_levelup (icounter (data st))
        \<and> icounter (data st') = (icounter (data st) + e) mod 2 ^ 32
        \<and> icounter_daily_limit (data st') = (icounter_daily_limit (data st))[app_code app := icounter_daily_limit (data st) ! app_code app + e]
      else icounter (data st') = icounter (data st)
        \<and> icounter_daily_limit (data st') = icounter_daily_limit (data st))
    \<and> butthurt_daily_limit (data st') = min 46 (butthurt_daily_limit (data st) + e)
    \<and> butthurt (data st') = max BUTTHURT_MIN (butthurt (data st)
        - of_bool (butthurt_level (butthurt_daily_limit (data st)) \<noteq> butthurt_level (butthurt_daily_limit (data st'))))"

lemma on_deed_spec:
  assumes "dolphin_inv st" "deed_code deed < 34"
  shows "\<exists>app e st'. dolphin_state_on_deed now st deed = Some st' \<and> deed_effect st app e st'"
proof -
  obtain w app where t: "dolphin_deed_get_weight deed = Some w" "dolphin_deed_get_app deed = Some app" "w \<le> 3"
    using deed_tables [OF assms(2)] by blast
  define L where "L = icounter_daily_limit (data st)"
  define u where "u = L ! app_code app"
  define xp where "xp = dolphin_state_xp_to_levelup (icounter (data st))"
  define e where "e = (if xp \<noteq> 0 then min xp (min (69 - u) w) else min (69 - u) w)"
  have a: "app_code app < length L" using assms(1) app_code_less [of app] by (simp add: dolphin_inv_def L_def DolphinAppMAX_def)
  then have u: "u \<le> 69" using assms(1) by (auto simp: dolphin_inv_def L_def u_def)
  have rd: "rd L (app_code app) = Some u" using a by (simp add: mem_simps u_def)
  have dw: "nat (CLAMP (int w) (to_int8 (int 69 - int u)) 0 mod 256) = min (69 - u) w"
  proof -
    have "to_int8 (int 69 - int u) = int (69 - u)" using u by (simp add: to_int8_def)
    then have "CLAMP (int w) (to_int8 (int 69 - int u)) 0 = int (min (69 - u) w)" by (simp add: CLAMP_def)
    moreover have "int (min (69 - u) w) mod 256 = int (min (69 - u) w)" using t(3) by (intro mod_pos_pos_trivial) simp_all
    ultimately show ?thesis by simp
  qed
  have e: "e \<le> 3" "e \<le> 69 - u" "xp \<noteq> 0 \<Longrightarrow> e \<le> xp" using t(3) by (auto simp: e_def)
  have wr: "(if xp \<noteq> 0 then wr L (app_code app) ((u + e) mod 256) else Some L)
      = Some (if xp \<noteq> 0 then L[app_code app := u + e] else L)"
    using a e u by (simp add: mem_simps)
  have code: "\<not> deed_code DolphinDeedMAX < deed_code deed" using assms(2) by simp
  have cl: "nat (CLAMP (int (butthurt_daily_limit (data st) + e)) 46 0) = min 46 (butthurt_daily_limit (data st) + e)"
    by (simp add: CLAMP_def)
  have bh: "CLAMP (butthurt (data st) - of_bool b) BUTTHURT_MAX BUTTHURT_MIN = max BUTTHURT_MIN (butthurt (data st) - of_bool b)" for b
    using assms(1) by (auto simp: CLAMP_def dolphin_inv_def BUTTHURT_MAX_def BUTTHURT_MIN_def)
  define st' where "st' = st\<lparr>data := (data st)\<lparr>icounter_daily_limit := (if xp \<noteq> 0 then L[app_code app := u + e] else L),
      butthurt_daily_limit := min 46 (butthurt_daily_limit (data st) + e),
      icounter := (if xp \<noteq> 0 then (icounter (data st) + e) mod 2 ^ 32 else icounter (data st)),
      butthurt := max BUTTHURT_MIN (butthurt (data st) - of_bool (butthurt_level (butthurt_daily_limit (data st))
          \<noteq> butthurt_level (min 46 (butthurt_daily_limit (data st) + e)))), timestamp := now\<rparr>, dirty := True\<rparr>"
  have "dolphin_state_on_deed now st deed = Some st'"
    unfolding dolphin_state_on_deed_def t(1,2) app_limit bind.bind_lunit Let_def L_def [symmetric] rd of_nat_numeral
      dw [unfolded of_nat_numeral] xp_def [symmetric] e_def [symmetric] wr cl bh st'_def
    using code by simp
  moreover have "deed_effect st app e st'"
    unfolding deed_effect_def L_def [symmetric] u_def [symmetric] xp_def [symmetric] using e by (simp add: st'_def)
  ultimately show ?thesis by blast
qed

lemma butthurt_level_mono: "a \<le> b \<Longrightarrow> butthurt_level a \<le> butthurt_level b"
proof -
  have c: "butthurt_level l = (l + 14) div 15" for l
  proof -
    define q r where "q = l div 15" and "r = l mod 15"
    then have l: "l = 15 * q + r" "r < 15" by simp_all
    have "(15 * q + r + 14) div 15 = q + (r + 14) div 15" by simp
    moreover have "(r + 14) div 15 = (if r \<noteq> 0 then 1 else 0)" using l(2) by (auto intro!: div_nat_eqI)
    ultimately show ?thesis unfolding butthurt_level_def l(1) using l(2) by simp
  qed
  assume "a \<le> b"
  then show ?thesis unfolding c by (intro div_le_mono) simp
qed

lemma on_deed_inv:
  assumes "dolphin_inv st" "deed_code deed < 34"
  shows "\<exists>st'. dolphin_state_on_deed now st deed = Some st' \<and> dolphin_inv st'"
proof -
  obtain app e st' where st': "dolphin_state_on_deed now st deed = Some st'" and eff: "deed_effect st app e st'"
    using on_deed_spec [OF assms, of now] by blast
  note b = eff [unfolded deed_effect_def]
  have len: "app_code app < length (icounter_daily_limit (data st))"
    using assms(1) app_code_less [of app] by (simp add: dolphin_inv_def DolphinAppMAX_def)
  then have "icounter_daily_limit (data st) ! app_code app \<le> 69" using assms(1) by (auto simp: dolphin_inv_def)
  moreover have "e \<le> 69 - icounter_daily_limit (data st) ! app_code app" using b by blast
  ultimately have le: "icounter_daily_limit (data st) ! app_code app + e \<le> 69" by simp
  have "\<forall>l \<in> set ((icounter_daily_limit (data st))[app_code app := icounter_daily_limit (data st) ! app_code app + e]). l \<le> 69"
    using assms(1) le set_update_subset_insert [of "icounter_daily_limit (data st)" "app_code app"]
    by (auto simp: dolphin_inv_def)
  then have "dolphin_inv st'"
    using assms(1) b by (auto simp: dolphin_inv_def BUTTHURT_MAX_def BUTTHURT_MIN_def split: if_splits)
  with st' show ?thesis by blast
qed

lemma test_deed_inv: "dolphin_inv st \<Longrightarrow> dolphin_inv (dolphin_test_deed now st deed)"
  by (auto simp: dolphin_inv_def dolphin_test_deed_def Let_def CLAMP_def BUTTHURT_MAX_def BUTTHURT_MIN_def)

lemma clear_limits_inv: "dolphin_inv st \<Longrightarrow> dolphin_inv (dolphin_state_clear_limits st)"
  by (auto simp: dolphin_inv_def dolphin_state_clear_limits_def)

lemma butthurted_inv: "dolphin_inv st \<Longrightarrow> dolphin_inv (dolphin_state_butthurted now st)"
  by (auto simp: dolphin_inv_def dolphin_state_butthurted_def)

lemma save_inv: "dolphin_inv st \<Longrightarrow> dolphin_inv (fst (dolphin_state_save saved st))"
  by (auto simp: dolphin_inv_def dolphin_state_save_def)

subsection \<open>A day of deeds\<close>

primrec on_deeds :: "nat \<Rightarrow> DolphinState \<Rightarrow> DolphinDeed list \<Rightarrow> DolphinState option" where
  "on_deeds now st [] = Some st"
| "on_deeds now st (d # ds) = do { st \<leftarrow> dolphin_state_on_deed now st d; on_deeds now st ds }"

text \<open>What no deed can break between two resets of the limits.\<close>

definition day_bound :: "DolphinState \<Rightarrow> DolphinState \<Rightarrow> bool" where
  "day_bound st st' \<longleftrightarrow> icounter (data st') + sum_list (icounter_daily_limit (data st)) = icounter (data st) + sum_list (icounter_daily_limit (data st'))
     \<and> dolphin_get_level (icounter (data st')) = dolphin_get_level (icounter (data st))
     \<and> butthurt (data st) + int (butthurt_level (butthurt_daily_limit (data st)))
        \<le> butthurt (data st') + int (butthurt_level (butthurt_daily_limit (data st')))
     \<and> butthurt (data st') \<le> butthurt (data st)"

lemma limits_sum: "dolphin_inv st \<Longrightarrow> sum_list (icounter_daily_limit (data st)) \<le> 483"
proof -
  assume inv: "dolphin_inv st"
  have "sum_list (icounter_daily_limit (data st)) \<le> length (icounter_daily_limit (data st)) * 69"
    using inv sum_list_mono [of "icounter_daily_limit (data st)" "\<lambda>l. l" "\<lambda>_. 69"] by (simp add: dolphin_inv_def sum_list_triv)
  then show ?thesis using inv by (simp add: dolphin_inv_def DolphinAppMAX_def)
qed

lemma on_deed_day:
  assumes "dolphin_inv st" "deed_code deed < 34" "icounter (data st) + 3 < 2 ^ 32"
  shows "\<exists>st'. dolphin_state_on_deed now st deed = Some st' \<and> dolphin_inv st' \<and> day_bound st st'"
proof -
  obtain st' where st': "dolphin_state_on_deed now st deed = Some st'" "dolphin_inv st'" using on_deed_inv [OF assms(1,2)] by blast
  obtain app e where "deed_effect st app e st'" using on_deed_spec [OF assms(1,2), of now] st'(1) by auto
  note b = this [unfolded deed_effect_def]
  have inv: "BUTTHURT_MIN \<le> butthurt (data st)" "butthurt_daily_limit (data st) \<le> 46" using assms(1) by (simp_all add: dolphin_inv_def)
  have "butthurt_daily_limit (data st) \<le> butthurt_daily_limit (data st')" using b inv(2) by simp
  then have m: "butthurt_level (butthurt_daily_limit (data st)) \<le> butthurt_level (butthurt_daily_limit (data st'))" by (rule butthurt_level_mono)
  have len: "app_code app < length (icounter_daily_limit (data st))"
    using assms(1) app_code_less [of app] by (simp add: dolphin_inv_def DolphinAppMAX_def)
  have "icounter (data st') + sum_list (icounter_daily_limit (data st)) = icounter (data st) + sum_list (icounter_daily_limit (data st'))
      \<and> dolphin_get_level (icounter (data st')) = dolphin_get_level (icounter (data st))"
  proof (cases "dolphin_state_xp_to_levelup (icounter (data st)) = 0")
    case True
    with b show ?thesis by simp
  next
    case False
    have "icounter (data st') = icounter (data st) + e" using b False assms(3) by simp
    moreover have "sum_list ((icounter_daily_limit (data st))[app_code app := icounter_daily_limit (data st) ! app_code app + e])
        = sum_list (icounter_daily_limit (data st)) + e"
      using len by (simp add: sum_list_update elem_le_sum_list)
    moreover have "e \<le> dolphin_state_xp_to_levelup (icounter (data st))" using b False by simp
    ultimately show ?thesis using b False level_stable by simp
  qed
  then show ?thesis using st' b m inv by (auto simp: day_bound_def BUTTHURT_MIN_def)
qed

lemma on_deeds_day:
  assumes "dolphin_inv st" "\<forall>d \<in> set ds. deed_code d < 34" "icounter (data st) + 490 < 2 ^ 32 + sum_list (icounter_daily_limit (data st))"
  shows "\<exists>st'. on_deeds now st ds = Some st' \<and> dolphin_inv st' \<and> day_bound st st'"
  using assms
proof (induction ds arbitrary: st)
  case (Cons d ds)
  have "icounter (data st) + 3 < 2 ^ 32" using Cons.prems(1,3) limits_sum [of st] by simp
  then obtain st1 where st1: "dolphin_state_on_deed now st d = Some st1" "dolphin_inv st1" "day_bound st st1"
    using on_deed_day [OF Cons.prems(1), of d now] Cons.prems(2) by auto
  moreover have "icounter (data st1) + 490 < 2 ^ 32 + sum_list (icounter_daily_limit (data st1))"
    using st1(3) Cons.prems(3) unfolding day_bound_def by linarith
  then obtain st' where "on_deeds now st1 ds = Some st'" "dolphin_inv st'" "day_bound st1 st'"
    using Cons.IH [OF st1(2)] Cons.prems(2) by auto
  moreover from this(3) st1(3) have "day_bound st st'" unfolding day_bound_def by linarith
  ultimately show ?case by simp
qed (simp add: day_bound_def)

section \<open>Properties\<close>

text \<open>C15: no event of the service crashes on a well-formed state, except a deed that is the bare
  end marker \<open>DolphinDeedMAX\<close>, and every event keeps the state well formed: the daily counters within
  the limit of 69 per application, butthurt between 0 and 14.\<close>

theorem dolphin_service_invariant:
  assumes "dolphin_inv st" "ev \<noteq> DolphinEventTypeDeed DolphinDeedMAX"
  shows "\<exists>st' r. dolphin_srv_event now saved st ev = Some (st', r) \<and> dolphin_inv st'"
proof (cases ev)
  case (DolphinEventTypeDeed deed)
  show ?thesis
  proof (cases "deed_code deed < 34")
    case True
    then show ?thesis using on_deed_inv [OF assms(1) True, of now] DolphinEventTypeDeed by (auto simp: dolphin_srv_event_def)
  next
    case False
    then have "deed_code deed > deed_code DolphinDeedMAX" using assms(2) DolphinEventTypeDeed by (cases deed) simp_all
    then show ?thesis using DolphinEventTypeDeed test_deed_inv [OF assms(1)]
      by (simp add: dolphin_srv_event_def dolphin_state_on_deed_def)
  qed
qed (use assms(1) in \<open>simp_all add: dolphin_srv_event_def save_inv clear_limits_inv butthurted_inv\<close>)

theorem dolphin_service_invariant_witness:
  "\<exists>st' r. dolphin_srv_event 7 True \<lparr>data = dolphin_zero, dirty = True\<rparr> (DolphinEventTypeDeed DolphinDeedSubGhzSave) = Some (st', r)
    \<and> dolphin_inv st'"
  by (rule dolphin_service_invariant) (simp_all add: dolphin_inv_def dolphin_zero_def DolphinAppMAX_def BUTTHURT_MIN_def BUTTHURT_MAX_def)

text \<open>However many deeds are done between two resets of the daily limits, butthurt falls by at
  most four, experience grows by at most 7 * 69, and the level does not change: a pending level-up is
  never skipped.\<close>

theorem dolphin_daily_bounds:
  assumes "dolphin_inv st" "\<forall>d \<in> set ds. deed_code d < deed_code DolphinDeedMAX" "icounter (data st) + 490 < 2 ^ 32"
  shows "\<exists>st'. on_deeds now (dolphin_state_clear_limits st) ds = Some st' \<and> butthurt (data st) - 4 \<le> butthurt (data st')
    \<and> icounter (data st) \<le> icounter (data st') \<and> icounter (data st') \<le> icounter (data st) + 7 * 69
    \<and> dolphin_get_level (icounter (data st')) = dolphin_get_level (icounter (data st))"
proof -
  let ?st = "dolphin_state_clear_limits st"
  have z: "sum_list (icounter_daily_limit (data ?st)) = 0" "butthurt_daily_limit (data ?st) = 0"
      "icounter (data ?st) = icounter (data st)" "butthurt (data ?st) = butthurt (data st)"
    by (simp_all add: dolphin_state_clear_limits_def sum_list_triv map_replicate_const)
  obtain st' where st': "on_deeds now ?st ds = Some st'" "dolphin_inv st'" "day_bound ?st st'"
    using on_deeds_day [OF clear_limits_inv [OF assms(1)], of ds now] assms(2,3) z by auto
  have "butthurt_level (butthurt_daily_limit (data st')) \<le> butthurt_level 46"
    using st'(2) by (intro butthurt_level_mono) (simp add: dolphin_inv_def)
  then show ?thesis using st'(1,3) limits_sum [OF st'(2)] z by (auto simp: day_bound_def butthurt_level_def)
qed

theorem dolphin_daily_bounds_witness:
  "\<exists>st'. on_deeds 1 (dolphin_state_clear_limits \<lparr>data = dolphin_zero\<lparr>butthurt := 9\<rparr>, dirty = False\<rparr>)
        [DolphinDeedNfcSave, DolphinDeedRfidAdd] = Some st'
    \<and> butthurt (data \<lparr>data = dolphin_zero\<lparr>butthurt := 9\<rparr>, dirty = False\<rparr>) - 4 \<le> butthurt (data st')
    \<and> icounter (data \<lparr>data = dolphin_zero\<lparr>butthurt := 9\<rparr>, dirty = False\<rparr>) \<le> icounter (data st')
    \<and> icounter (data st') \<le> icounter (data \<lparr>data = dolphin_zero\<lparr>butthurt := 9\<rparr>, dirty = False\<rparr>) + 7 * 69
    \<and> dolphin_get_level (icounter (data st')) = dolphin_get_level (icounter (data \<lparr>data = dolphin_zero\<lparr>butthurt := 9\<rparr>, dirty = False\<rparr>))"
  by (rule dolphin_daily_bounds) (simp_all add: dolphin_inv_def dolphin_zero_def DolphinAppMAX_def BUTTHURT_MIN_def BUTTHURT_MAX_def)

lemma level_threshold:
  assumes "dolphin_state_is_levelup ic"
  shows "dolphin_get_level (ic + 1) = dolphin_get_level ic + 1"
proof -
  have "filter (\<lambda>l. l < ic + 1) ls = filter (\<lambda>l. l < ic) ls @ [ic]" if "sorted ls" "distinct ls" "ic \<in> set ls" for ls
    using that
  proof (induction ls)
    case (Cons l ls)
    show ?case
    proof (cases "l = ic")
      case True
      then have gt: "\<forall>x \<in> set ls. ic < x" using Cons.prems by (auto simp: le_less)
      then have "filter (\<lambda>l. l < ic + 1) ls = []" "filter (\<lambda>l. l < ic) ls = []"
        using gt by (fastforce simp: filter_empty_conv)+
      with True show ?thesis by simp
    next
      case False
      with Cons.prems have "l < ic" by fastforce
      with False Cons show ?thesis by simp
    qed
  qed simp
  from this [OF levels_sorted(1,2)] assms show ?thesis by (simp add: level_count dolphin_state_is_levelup_def)
qed

lemma level_between:
  assumes "\<not> dolphin_state_is_levelup ic"
  shows "dolphin_get_level (ic + 1) = dolphin_get_level ic"
proof -
  have "filter (\<lambda>l. l < ic + 1) DOLPHIN_LEVELS = filter (\<lambda>l. l < ic) DOLPHIN_LEVELS"
    by (rule filter_less_mono) (use assms in \<open>auto simp: dolphin_state_is_levelup_def less_Suc_eq\<close>)
  then show ?thesis by (simp add: level_count)
qed

lemma xp_to_levelup_zero: "dolphin_state_xp_to_levelup ic = 0 \<longleftrightarrow> dolphin_state_is_levelup ic"
proof
  assume xp: "dolphin_state_xp_to_levelup ic = 0"
  define k where "k = dolphin_get_level ic - 1"
  have k: "k < 29" using xp level_count [of ic] by (auto simp: xp_to_levelup_spec k_def split: if_splits)
  then have "ic \<le> DOLPHIN_LEVELS ! k" using level_bracket(2) [of ic] by (simp add: k_def)
  moreover have "DOLPHIN_LEVELS ! k - ic = 0"
    using xp k level_count [of ic] by (auto simp: xp_to_levelup_spec k_def split: if_splits)
  ultimately have "ic = DOLPHIN_LEVELS ! k" by simp
  then show "dolphin_state_is_levelup ic" using k levels_sorted(3) by (simp add: dolphin_state_is_levelup_def)
next
  assume up: "dolphin_state_is_levelup ic"
  show "dolphin_state_xp_to_levelup ic = 0"
  proof (rule ccontr)
    assume "dolphin_state_xp_to_levelup ic \<noteq> 0"
    then have "dolphin_get_level (ic + 1) = dolphin_get_level ic" by (intro level_stable) simp
    with level_threshold [OF up] show False by simp
  qed
qed

text \<open>C16: a level-up is pending exactly at the thresholds, which are exactly the counts after which the next point is of
  the next level; up to there the level stays; and confirming it is possible exactly when it is pending, counts one point and
  raises the level by one.\<close>

theorem dolphin_level_up:
  "(st_level_up_is_pending (dolphin_stats_of st) \<longleftrightarrow> icounter (data st) \<in> set DOLPHIN_LEVELS)
   \<and> (icounter (data st) \<in> set DOLPHIN_LEVELS \<longleftrightarrow> dolphin_get_level (icounter (data st) + 1) = dolphin_get_level (icounter (data st)) + 1)
   \<and> (\<forall>e \<le> dolphin_state_xp_to_levelup (icounter (data st)). dolphin_get_level (icounter (data st) + e) = dolphin_get_level (icounter (data st)))
   \<and> (case dolphin_state_increase_level st of
        None \<Rightarrow> \<not> st_level_up_is_pending (dolphin_stats_of st)
      | Some st' \<Rightarrow> st_level_up_is_pending (dolphin_stats_of st) \<and> icounter (data st') = icounter (data st) + 1
          \<and> dolphin_get_level (icounter (data st')) = dolphin_get_level (icounter (data st)) + 1)"
proof -
  define ic where "ic = icounter (data st)"
  have pend: "st_level_up_is_pending (dolphin_stats_of st) \<longleftrightarrow> dolphin_state_is_levelup ic"
    by (simp add: dolphin_stats_of_def xp_to_levelup_zero ic_def)
  have lev: "dolphin_state_is_levelup ic \<longleftrightarrow> dolphin_get_level (ic + 1) = dolphin_get_level ic + 1"
    using level_threshold [of ic] level_between [of ic] by (cases "dolphin_state_is_levelup ic") simp_all
  have "ic \<le> 9200" if "dolphin_state_is_levelup ic" using that by (auto simp: dolphin_state_is_levelup_def DOLPHIN_LEVELS_def)
  then have inc: "case dolphin_state_increase_level st of None \<Rightarrow> \<not> dolphin_state_is_levelup ic
      | Some st' \<Rightarrow> dolphin_state_is_levelup ic \<and> icounter (data st') = ic + 1 \<and> dolphin_get_level (icounter (data st')) = dolphin_get_level ic + 1"
    using level_threshold [of ic] by (cases "dolphin_state_is_levelup ic") (simp_all add: dolphin_state_increase_level_def flip: ic_def)
  show ?thesis
    using lev inc level_stable [of _ ic] unfolding pend ic_def [symmetric] by (auto simp: dolphin_state_is_levelup_def split: option.splits)
qed

theorem dolphin_level_up_witness:
  "st_level_up_is_pending (dolphin_stats_of \<lparr>data = dolphin_zero\<lparr>icounter := 300\<rparr>, dirty = False\<rparr>)
    \<and> (\<exists>st'. dolphin_state_increase_level \<lparr>data = dolphin_zero\<lparr>icounter := 300\<rparr>, dirty = False\<rparr> = Some st' \<and> icounter (data st') = 301)"
  using dolphin_level_up [of "\<lparr>data = dolphin_zero\<lparr>icounter := 300\<rparr>, dirty = False\<rparr>"]
  by (auto simp: DOLPHIN_LEVELS_def split: option.splits)

text \<open>The timer that resets the limits, when it is set, ends at five in the morning of the same
  or the next day.\<close>

theorem dolphin_clear_limits_at_five:
  assumes "hour date < 24" "minute date < 60" "second date < 60"
    and "dolphin_update_clear_limits_timer_period expires now date = Some t"
  shows "0 < t \<and> t \<le> HOURS_IN_TICKS 24
    \<and> (((hour date * 60 + minute date) * 60 + second date) * 1000 + t) mod HOURS_IN_TICKS 24 = HOURS_IN_TICKS 5"
proof -
  define s where "s = (hour date * 60 + minute date) * 60 + second date"
  have s: "hour date < 5 \<Longrightarrow> s < 18000" "\<not> hour date < 5 \<Longrightarrow> 18000 \<le> s" "s < 86400"
    using assms(1-3) unfolding s_def by (simp_all add: algebra_simps)
  have t: "t = (if hour date < 5 then 18000000 - s * 1000 else 104400000 - s * 1000)"
    using assms(4) by (simp add: dolphin_update_clear_limits_timer_period_def HOURS_IN_TICKS_def s_def Let_def split: if_splits)
  show ?thesis unfolding s_def [symmetric]
    using s by (cases "hour date < 5") (auto simp: t HOURS_IN_TICKS_def mod_if)
qed

theorem dolphin_clear_limits_at_five_witness:
  "(\<lambda>t. 0 < t \<and> t \<le> HOURS_IN_TICKS 24 \<and> (((6 * 60 + 30) * 60 + 0) * 1000 + t) mod HOURS_IN_TICKS 24 = HOURS_IN_TICKS 5) (81000000 :: nat)"
  using dolphin_clear_limits_at_five [of "\<lparr>hour = 6, minute = 30, second = 0, day = 1, month = 1, year = 2024, weekday = 1\<rparr>" 1000000 0 81000000]
  by (simp add: dolphin_update_clear_limits_timer_period_def HOURS_IN_TICKS_def)
end
