(* ===== verification/Expansion.thy ===== *)
theory Expansion
  imports Prelude
begin

text \<open>
  The frames of the expansion-module protocol
  (\<open>src/applications/services/expansion/expansion_protocol.h\<close>).

  A frame is the memory of the packed \<open>struct ExpansionFrame\<close>: one header byte and a union of 65
  bytes, of which \<open>data\<close> (a size byte and 64 bytes) is the largest member. A received or sent frame
  is a prefix of that memory, so the code casts the frame to bytes; the model reads the fields at
  their offsets. The receive and send callbacks are arguments: \<open>receive n c\<close> gives the bytes that
  were written into the buffer and the changed context.
\<close>

section \<open>The frame\<close>

definition EXPANSION_PROTOCOL_MAX_DATA_SIZE :: nat where "EXPANSION_PROTOCOL_MAX_DATA_SIZE = 64"

datatype (plugins only: code size) ExpansionFrameType =
    ExpansionFrameTypeHeartbeat | ExpansionFrameTypeStatus | ExpansionFrameTypeBaudRate
  | ExpansionFrameTypeControl | ExpansionFrameTypeData | ExpansionFrameTypeReserved

primrec frame_type_code :: "ExpansionFrameType \<Rightarrow> u8" where
  "frame_type_code ExpansionFrameTypeHeartbeat = 1"
| "frame_type_code ExpansionFrameTypeStatus = 2"
| "frame_type_code ExpansionFrameTypeBaudRate = 3"
| "frame_type_code ExpansionFrameTypeControl = 4"
| "frame_type_code ExpansionFrameTypeData = 5"
| "frame_type_code ExpansionFrameTypeReserved = 6"

datatype (plugins only: code size) ExpansionFrameError =
    ExpansionFrameErrorNone | ExpansionFrameErrorUnknown | ExpansionFrameErrorBaudRate

primrec frame_error_code :: "ExpansionFrameError \<Rightarrow> u8" where
  "frame_error_code ExpansionFrameErrorNone = 0x00"
| "frame_error_code ExpansionFrameErrorUnknown = 0x01"
| "frame_error_code ExpansionFrameErrorBaudRate = 0x02"

datatype (plugins only: code size) ExpansionFrameControlCommand =
    ExpansionFrameControlCommandStartRpc | ExpansionFrameControlCommandStopRpc

primrec frame_command_code :: "ExpansionFrameControlCommand \<Rightarrow> u8" where
  "frame_command_code ExpansionFrameControlCommandStartRpc = 0x00"
| "frame_command_code ExpansionFrameControlCommandStopRpc = 0x01"

type_synonym ExpansionFrame = "u8 list"

text \<open>\<open>sizeof(ExpansionFrame)\<close>, and the fields at their offsets.\<close>

definition sizeof_ExpansionFrame :: nat where
  "sizeof_ExpansionFrame = 1 + (1 + EXPANSION_PROTOCOL_MAX_DATA_SIZE)"

definition header_type :: "ExpansionFrame \<Rightarrow> u8 option" where
  "header_type frame = rd frame 0"

definition content_status_error :: "ExpansionFrame \<Rightarrow> u8 option" where
  "content_status_error frame = rd frame 1"

definition content_baud_rate_baud :: "ExpansionFrame \<Rightarrow> u32 option" where
  "content_baud_rate_baud frame =
     do { furi_check (5 \<le> length frame); Some (of_le_bytes (seg 1 4 frame)) }"

definition content_control_command :: "ExpansionFrame \<Rightarrow> u8 option" where
  "content_control_command frame = rd frame 1"

definition content_data_size :: "ExpansionFrame \<Rightarrow> u8 option" where
  "content_data_size frame = rd frame 1"

section \<open>Sizes and checksum\<close>

definition expansion_frame_get_encoded_size :: "ExpansionFrame \<Rightarrow> nat option" where
  "expansion_frame_get_encoded_size frame = do {
     t \<leftarrow> header_type frame;
     if t = frame_type_code ExpansionFrameTypeHeartbeat then Some 1
     else if t = frame_type_code ExpansionFrameTypeStatus then Some (1 + 1)
     else if t = frame_type_code ExpansionFrameTypeBaudRate then Some (1 + 4)
     else if t = frame_type_code ExpansionFrameTypeControl then Some (1 + 1)
     else if t = frame_type_code ExpansionFrameTypeData then do {
       sz \<leftarrow> content_data_size frame;
       Some (1 + 1 + unat sz) }
     else Some 0 }"

text \<open>The inner \<open>None\<close> is the result \<open>false\<close>; otherwise the value is \<open>*remaining_size\<close>.\<close>

definition expansion_frame_get_remaining_size :: "ExpansionFrame \<Rightarrow> nat \<Rightarrow> nat option option" where
  "expansion_frame_get_remaining_size frame received_size =
     (if received_size < 1 then Some (Some 1)
      else do {
        let received_content_size = received_size - 1;
        t \<leftarrow> header_type frame;
        content_size \<leftarrow>
          (if t = frame_type_code ExpansionFrameTypeHeartbeat then Some (Some 0)
           else if t = frame_type_code ExpansionFrameTypeStatus then Some (Some 1)
           else if t = frame_type_code ExpansionFrameTypeBaudRate then Some (Some 4)
           else if t = frame_type_code ExpansionFrameTypeControl then Some (Some 1)
           else if t = frame_type_code ExpansionFrameTypeData then
             (if received_content_size < 1 then Some (Some 1)
              else do {
                sz \<leftarrow> content_data_size frame;
                if unat sz > EXPANSION_PROTOCOL_MAX_DATA_SIZE then Some None else Some (Some (1 + unat sz)) })
           else Some None);
        Some (case content_size of
                None \<Rightarrow> None
              | Some n \<Rightarrow> Some (if n > received_content_size then n - received_content_size else 0)) })"

datatype (plugins only: code size) ExpansionProtocolStatus =
    ExpansionProtocolStatusOk | ExpansionProtocolStatusErrorFormat
  | ExpansionProtocolStatusErrorChecksum | ExpansionProtocolStatusErrorCommunication

definition expansion_protocol_get_checksum :: "u8 list \<Rightarrow> nat \<Rightarrow> u8 option" where
  "expansion_protocol_get_checksum data data_size =
     for_loop (\<lambda>i checksum. do { b \<leftarrow> rd data i; Some (checksum XOR b) }) 0 data_size 0"

section \<open>Receiving and sending\<close>

text \<open>
  The loop of \<open>expansion_protocol_decode\<close>. Writing what \<open>receive\<close> delivers past the end of the frame
  is \<open>None\<close>. Every turn that goes on has stored at least one byte of the frame, so the loop ends.
\<close>

function expansion_decode_loop ::
  "(nat \<Rightarrow> 'c \<Rightarrow> u8 list \<times> 'c) \<Rightarrow> ExpansionFrame \<Rightarrow> nat \<Rightarrow> 'c
   \<Rightarrow> (ExpansionProtocolStatus \<times> ExpansionFrame \<times> nat \<times> 'c) option" where
  "expansion_decode_loop receive frame total_size c =
     (case expansion_frame_get_remaining_size frame total_size of
        None \<Rightarrow> None
      | Some None \<Rightarrow> Some (ExpansionProtocolStatusErrorFormat, frame, total_size, c)
      | Some (Some remaining_size) \<Rightarrow>
          (if remaining_size = 0 then Some (ExpansionProtocolStatusOk, frame, total_size, c)
           else let (bs, c') = receive remaining_size c in
             if bs = [] then Some (ExpansionProtocolStatusErrorCommunication, frame, total_size, c')
             else do {
               frame' \<leftarrow> memcpy frame total_size bs 0 (length bs);
               expansion_decode_loop receive frame' (total_size + length bs) c' }))"
  by pat_completeness auto
termination
proof (relation "measure (\<lambda>(_, frame, total_size, _). length frame - total_size)")
  fix frame :: ExpansionFrame and total_size :: nat and bs :: "u8 list" and frame' :: ExpansionFrame
    and receive :: "nat \<Rightarrow> 'c \<Rightarrow> u8 list \<times> 'c" and c c' :: 'c
  assume bs: "bs \<noteq> []" and m: "memcpy frame total_size bs 0 (length bs) = Some frame'"
  from m have "total_size + length bs \<le> length frame" by (simp add: memcpy_def split: if_splits)
  moreover from m have "length frame' = length frame" by (rule length_memcpy)
  ultimately show "((receive, frame', total_size + length bs, c'), (receive, frame, total_size, c))
      \<in> measure (\<lambda>(_, frame, total_size, _). length frame - total_size)" using bs by (cases bs) auto
qed simp

declare expansion_decode_loop.simps [simp del]

definition expansion_protocol_decode ::
  "(nat \<Rightarrow> 'c \<Rightarrow> u8 list \<times> 'c) \<Rightarrow> ExpansionFrame \<Rightarrow> 'c
   \<Rightarrow> (ExpansionProtocolStatus \<times> ExpansionFrame \<times> 'c) option" where
  "expansion_protocol_decode receive frame c = do {
     (status, frame, total_size, c) \<leftarrow> expansion_decode_loop receive frame 0 c;
     if status \<noteq> ExpansionProtocolStatusOk then Some (status, frame, c)
     else let (bs, c) = receive 1 c in
       if length bs \<noteq> 1 then Some (ExpansionProtocolStatusErrorCommunication, frame, c)
       else do {
         checksum \<leftarrow> expansion_protocol_get_checksum frame total_size;
         Some (if bs ! 0 \<noteq> checksum then ExpansionProtocolStatusErrorChecksum
               else ExpansionProtocolStatusOk, frame, c) } }"

text \<open>\<open>send bs c\<close> gives the number of bytes that were sent and the changed context.\<close>

definition expansion_protocol_encode ::
  "(u8 list \<Rightarrow> 'c \<Rightarrow> nat \<times> 'c) \<Rightarrow> ExpansionFrame \<Rightarrow> 'c \<Rightarrow> (ExpansionProtocolStatus \<times> 'c) option" where
  "expansion_protocol_encode send frame c = do {
     encoded_size \<leftarrow> expansion_frame_get_encoded_size frame;
     if encoded_size = 0 then Some (ExpansionProtocolStatusErrorFormat, c)
     else do {
       checksum \<leftarrow> expansion_protocol_get_checksum frame encoded_size;
       let (n, c) = send (take encoded_size frame) c in
         if n \<noteq> encoded_size then Some (ExpansionProtocolStatusErrorCommunication, c)
         else let (n, c) = send [checksum] c in
           Some (if n \<noteq> 1 then ExpansionProtocolStatusErrorCommunication else ExpansionProtocolStatusOk, c) } }"

section \<open>Messages\<close>

text \<open>The abstract view: what a frame says, and its bytes on the line before the checksum.\<close>

datatype Message = Heartbeat | Status u8 | BaudRate u32 | Control u8 | Data "u8 list"

definition frame_message :: "ExpansionFrame \<Rightarrow> Message option" where
  "frame_message frame =
     (if frame ! 0 = 1 then Some Heartbeat
      else if frame ! 0 = 2 then Some (Status (frame ! 1))
      else if frame ! 0 = 3 then Some (BaudRate (of_le_bytes (seg 1 4 frame)))
      else if frame ! 0 = 4 then Some (Control (frame ! 1))
      else if frame ! 0 = 5 \<and> unat (frame ! 1) \<le> 64 then Some (Data (seg 2 (unat (frame ! 1)) frame))
      else None)"

fun message_bytes :: "Message \<Rightarrow> u8 list" where
  "message_bytes Heartbeat = [1]"
| "message_bytes (Status e) = [2, e]"
| "message_bytes (BaudRate b) = 3 # le_bytes 4 b"
| "message_bytes (Control c) = [4, c]"
| "message_bytes (Data d) = 5 # word_of_nat (length d) # d"

fun message_wf :: "Message \<Rightarrow> bool" where
  "message_wf (Data d) = (length d \<le> 64)"
| "message_wf _ = True"

definition xor_sum :: "u8 list \<Rightarrow> u8" where
  "xor_sum bs = foldl (XOR) 0 bs"

definition wire :: "Message \<Rightarrow> u8 list" where
  "wire m = message_bytes m @ [xor_sum (message_bytes m)]"

text \<open>The length of the frame as far as its first bytes tell; \<open>None\<close> when they cannot be a frame.\<close>

definition expected :: "u8 list \<Rightarrow> nat option" where
  "expected bs =
     (if bs = [] then Some 1
      else if bs ! 0 = 1 then Some 1 else if bs ! 0 = 2 then Some 2 else if bs ! 0 = 3 then Some 5
      else if bs ! 0 = 4 then Some 2
      else if bs ! 0 = 5 then
        (if length bs < 2 then Some 2 else if unat (bs ! 1) \<le> 64 then Some (2 + unat (bs ! 1)) else None)
      else None)"

definition rejected :: "u8 list \<Rightarrow> bool" where
  "rejected bs \<longleftrightarrow> (length bs = 1 \<and> bs ! 0 \<notin> {1, 2, 3, 4, 5}) \<or> (length bs = 2 \<and> bs ! 0 = 5 \<and> 64 < unat (bs ! 1))"

lemma remaining_expected:
  assumes "length frame = 66" "n \<le> 66"
  shows "expansion_frame_get_remaining_size frame n = Some (map_option (\<lambda>e. e - n) (expected (take n frame)))"
proof (cases "n = 0")
  case True
  then show ?thesis by (simp add: expansion_frame_get_remaining_size_def expected_def)
next
  case False
  then have ne: "take n frame \<noteq> []" and t: "take n frame ! 0 = frame ! 0" using assms by auto
  have s: "take n frame ! 1 = frame ! 1" if "\<not> n < 2" using that by simp
  have l: "length (take n frame) = n" using assms by simp
  show ?thesis
    using False assms s
    by (cases "n < 2")
      (auto simp: expansion_frame_get_remaining_size_def expected_def header_type_def content_data_size_def
        rd_Some ne t l EXPANSION_PROTOCOL_MAX_DATA_SIZE_def Let_def)
qed

text \<open>Bytes received so far never run past the frame they announce.\<close>

definition partial_ok :: "u8 list \<Rightarrow> bool" where
  "partial_ok bs \<longleftrightarrow> (case expected bs of None \<Rightarrow> rejected bs | Some e \<Rightarrow> length bs \<le> e)"

lemma partial_ok_Nil: "partial_ok []"
  by (simp add: partial_ok_def expected_def)

lemma partial_ok_extend:
  assumes "expected bs = Some e" "length bs + length ys \<le> e" "ys \<noteq> []" 
  shows "partial_ok (bs @ ys)"
proof (cases bs)
  case Nil
  with assms have "length ys = 1" by (cases ys) (auto simp: expected_def)
  then obtain y where "ys = [y]" by (cases ys) auto
  with Nil show ?thesis by (auto simp: partial_ok_def expected_def rejected_def split: option.split)
next
  case (Cons b cs)
  show ?thesis
  proof (cases "b = 5 \<and> cs = []")
    case True
    with assms Cons have "length ys = 1" by (cases ys) (auto simp: expected_def)
    then obtain y where "ys = [y]" by (cases ys) auto
    with True Cons show ?thesis by (auto simp: partial_ok_def expected_def rejected_def not_le split: option.split)
  next
    case False
    then have "expected (bs @ ys) = expected bs"
      using Cons by (cases cs) (auto simp: expected_def)
    with assms show ?thesis by (simp add: partial_ok_def)
  qed
qed

lemma checksum_xor_sum: "n \<le> length d \<Longrightarrow> expansion_protocol_get_checksum d n = Some (xor_sum (take n d))"
  unfolding expansion_protocol_get_checksum_def
  by (induction n) (simp_all add: for_loop_snoc rd_Some xor_sum_def take_Suc_conv_app_nth del: for_loop.simps(2))

lemma complete_message:
  assumes l: "length frame = 66" and e: "expected (take n frame) = Some n"
  obtains m where "frame_message frame = Some m" "message_wf m" "take n frame = message_bytes m"
proof -
  have n: "n \<le> 66"
  proof (rule ccontr)
    assume "\<not> n \<le> 66"
    with l e show False by (auto simp: expected_def split: if_splits)
  qed
  have "0 < n" using e by (cases n) (auto simp: expected_def)
  then have ne: "take n frame \<noteq> []" "take n frame ! 0 = frame ! 0" using l by auto
  have f0: "frame = frame ! 0 # drop 1 frame" using l by (cases frame) auto
  consider "frame ! 0 = 1" "n = 1" | "frame ! 0 = 2" "n = 2" | "frame ! 0 = 3" "n = 5" | "frame ! 0 = 4" "n = 2"
    | "frame ! 0 = 5" "2 \<le> n" "unat (frame ! 1) \<le> 64" "n = 2 + unat (frame ! 1)"
    using e ne n l by (auto simp: expected_def split: if_splits)
  then show thesis
  proof cases
    case 1
    then have "take n frame = [1]" using f0 by (metis One_nat_def take_Suc_Cons take0)
    with 1 that show thesis by (simp add: frame_message_def)
  next
    case 2
    then have "take n frame = [2, frame ! 1]" using l by (simp add: numeral_2_eq_2 take_Suc_conv_app_nth)
    with 2 that show thesis by (simp add: frame_message_def)
  next
    case 3
    have "take 5 frame = take 1 frame @ seg 1 4 frame" using take_add [of 1 4 frame] by (simp add: seg_def)
    also have "take 1 frame = [3]" using 3 l by (simp add: take_Suc_conv_app_nth)
    also have "seg 1 4 frame = le_bytes 4 (of_le_bytes (seg 1 4 frame) :: u32)"
      using le_bytes_of_le_bytes [of "seg 1 4 frame", where 'a = 32] l by simp
    finally show thesis using 3 that by (simp add: frame_message_def)
  next
    case 4
    then have "take n frame = [4, frame ! 1]" using l by (simp add: numeral_2_eq_2 take_Suc_conv_app_nth)
    with 4 that show thesis by (simp add: frame_message_def)
  next
    case 5
    have "take n frame = take 2 frame @ seg 2 (unat (frame ! 1)) frame"
      using take_add [of 2 "unat (frame ! 1)" frame] 5 by (simp add: seg_def)
    moreover have "take 2 frame = [5, frame ! 1]" using 5 l by (simp add: numeral_2_eq_2 take_Suc_conv_app_nth)
    moreover have "length (seg 2 (unat (frame ! 1)) frame) = unat (frame ! 1)" using 5 n l by simp
    ultimately show thesis using 5 that by (simp add: frame_message_def)
  qed
qed

lemma message_bytes_length: "message_wf m \<Longrightarrow> length (message_bytes m) \<le> 66"
  by (cases m) auto

lemma size_byte: "n \<le> 64 \<Longrightarrow> unat (word_of_nat n :: u8) = n"
  by (simp add: unat_of_nat)

lemma message_frame:
  assumes l: "length frame = 66" and w: "message_wf m" and e: "take (length (message_bytes m)) frame = message_bytes m"
  shows "frame_message frame = Some m"
proof -
  have nth: "frame ! i = message_bytes m ! i" if "i < length (message_bytes m)" for i
    using e that by (metis nth_take)
  show ?thesis
  proof (cases m)
    case (BaudRate b)
    have "seg 1 4 frame = le_bytes 4 b"
      using nth BaudRate l by (intro nth_equalityI) auto
    with BaudRate nth [of 0] show ?thesis by (simp add: frame_message_def of_le_bytes_le_bytes take_bit_word_eq_self)
  next
    case (Data d)
    have "seg 2 (length d) frame = d"
      using nth Data l w by (intro nth_equalityI) auto
    with Data nth [of 0] nth [of 1] w show ?thesis by (simp add: frame_message_def size_byte)
  qed (use nth [of 0] nth [of 1] in \<open>auto simp: frame_message_def\<close>)
qed

lemma expected_prefix:
  assumes "message_wf m" "n \<le> length (message_bytes m)"
  obtains e where "expected (take n (message_bytes m)) = Some e" "e \<le> length (message_bytes m)"
    "e = n \<longleftrightarrow> n = length (message_bytes m)" "n \<le> e"
proof -
  consider "n = 0" | "n = 1" | "2 \<le> n" by linarith
  then have "\<exists>e. expected (take n (message_bytes m)) = Some e \<and> e \<le> length (message_bytes m)
      \<and> (e = n \<longleftrightarrow> n = length (message_bytes m)) \<and> n \<le> e"
    using assms by cases (cases m; auto simp: expected_def size_byte take_Cons' split: if_splits)+
  with that show thesis by blast
qed

text \<open>What a decoding that took the bytes \<open>bs\<close> off the line may report.\<close>

definition decoded :: "u8 list \<Rightarrow> ExpansionProtocolStatus \<Rightarrow> ExpansionFrame \<Rightarrow> bool" where
  "decoded bs st frame \<longleftrightarrow> (case st of
     ExpansionProtocolStatusOk \<Rightarrow> \<exists>m. message_wf m \<and> frame_message frame = Some m \<and> bs = wire m
   | ExpansionProtocolStatusErrorChecksum \<Rightarrow> \<exists>m x. message_wf m \<and> bs = message_bytes m @ [x] \<and> x \<noteq> xor_sum (message_bytes m)
   | ExpansionProtocolStatusErrorFormat \<Rightarrow> rejected bs
   | ExpansionProtocolStatusErrorCommunication \<Rightarrow> \<exists>m ys. message_wf m \<and> bs @ ys = wire m \<and> ys \<noteq> [])"

lemma expected_le: "expected bs = Some e \<Longrightarrow> e \<le> 66"
  by (auto simp: expected_def split: if_splits)

text \<open>Bytes that announce more than came can be completed to a frame.\<close>

lemma unreceived:
  assumes e: "expected bs = Some e" and l: "length bs < e"
  shows "\<exists>m ys. message_wf m \<and> bs @ ys = wire m \<and> ys \<noteq> []"
proof -
  define frame where "frame = bs @ replicate (66 - length bs) 0"
  from expected_le [OF e] l have b: "length bs < 66" "e \<le> 66" by simp_all
  show ?thesis
  proof (cases "bs = [] \<or> bs = [5]")
    case True
    have "[] @ wire Heartbeat = wire Heartbeat" "wire Heartbeat \<noteq> []"
      "[5] @ [0, xor_sum [5, 0]] = wire (Data [])" by (simp_all add: wire_def)
    with True show ?thesis by (metis message_wf.simps(1,2) list.size(3) list.distinct(1) zero_le)
  next
    case False
    have t: "take e frame = bs @ replicate (e - length bs) 0" using l b by (simp add: frame_def)
    have "expected (take e frame) = Some e"
    proof (cases bs)
      case (Cons x xs)
      with e False show ?thesis unfolding t by (cases xs) (auto simp: expected_def split: if_splits)
    qed (use False in simp)
    moreover have "length frame = 66" using b by (simp add: frame_def)
    ultimately obtain m where "message_wf m" "take e frame = message_bytes m" using complete_message by metis
    with t have "message_wf m \<and> bs @ (replicate (e - length bs) 0 @ [xor_sum (message_bytes m)]) = wire m"
      by (simp add: wire_def)
    then show ?thesis by blast
  qed
qed

text \<open>The callback contract: at most what was asked for is stored; \<open>taken\<close> is what came off the line.\<close>

locale frame_source =
  fixes receive :: "nat \<Rightarrow> 'c \<Rightarrow> u8 list \<times> 'c" and taken :: "'c \<Rightarrow> u8 list"
  assumes receive_length: "0 < n \<Longrightarrow> length (fst (receive n c)) \<le> n"
    and receive_taken: "taken (snd (receive n c)) = taken c @ fst (receive n c)"
begin

definition loop_result :: "u8 list \<Rightarrow> (ExpansionProtocolStatus \<times> ExpansionFrame \<times> nat \<times> 'c) option \<Rightarrow> bool" where
  "loop_result t0 r \<longleftrightarrow> (\<exists>st frame n c. r = Some (st, frame, n, c) \<and> length frame = 66 \<and> n \<le> 66
     \<and> taken c = t0 @ take n frame \<and> partial_ok (take n frame)
     \<and> (case st of ExpansionProtocolStatusOk \<Rightarrow> expected (take n frame) = Some n
        | ExpansionProtocolStatusErrorFormat \<Rightarrow> rejected (take n frame)
        | ExpansionProtocolStatusErrorCommunication \<Rightarrow> \<exists>e. expected (take n frame) = Some e \<and> n < e
        | ExpansionProtocolStatusErrorChecksum \<Rightarrow> False))"

lemma memcpy_prefix:
  assumes "n + length bs \<le> length frame"
  shows "memcpy frame n bs 0 (length bs) = Some (take n frame @ bs @ drop (n + length bs) frame)"
  using assms by (simp add: memcpy_def)

lemma decode_loop_spec:
  assumes "length frame = 66" "n \<le> 66" "partial_ok (take n frame)" "taken c = t0 @ take n frame"
  shows "loop_result t0 (expansion_decode_loop receive frame n c)"
  using assms
proof (induction "66 - n" arbitrary: frame n c rule: less_induct)
  case less
  note rem = remaining_expected [OF less.prems(1,2)]
  have ln: "length (take n frame) = n" using less.prems by simp
  show ?case
  proof (cases "expected (take n frame)")
    case None
    with less.prems show ?thesis
      by (subst expansion_decode_loop.simps) (auto simp: rem loop_result_def partial_ok_def)
  next
    case (Some e)
    with less.prems ln have le: "n \<le> e" by (simp add: partial_ok_def)
    note e66 = expected_le [OF Some]
    show ?thesis
    proof (cases "n = e")
      case True
      with Some less.prems show ?thesis
        by (subst expansion_decode_loop.simps) (auto simp: rem [unfolded True] loop_result_def)
    next
      case False
      with le have pos: "0 < e - n" by simp
      obtain bs c' where r: "receive (e - n) c = (bs, c')" by (cases "receive (e - n) c") 
      from receive_length [OF pos, of c] r have lbs: "length bs \<le> e - n" by simp
      from receive_taken [of "e - n" c] r less.prems(4) have tk: "taken c' = t0 @ take n frame @ bs" by simp
      show ?thesis
      proof (cases "bs = []")
        case True
        with Some pos less.prems tk show ?thesis
          by (subst expansion_decode_loop.simps) (auto simp: rem loop_result_def r)
      next
        case False
        define frame' where "frame' = take n frame @ bs @ drop (n + length bs) frame"
        from lbs e66 le less.prems have fit: "n + length bs \<le> length frame" by simp
        have t': "take (n + length bs) frame' = take n frame @ bs" using ln by (simp add: frame'_def)
        have step: "expansion_decode_loop receive frame n c = expansion_decode_loop receive frame' (n + length bs) c'"
          using Some pos False by (subst expansion_decode_loop.simps) (simp add: rem r memcpy_prefix [OF fit] frame'_def)
        have "loop_result t0 (expansion_decode_loop receive frame' (n + length bs) c')"
        proof (rule less.hyps)
          show "66 - (n + length bs) < 66 - n" using False fit less.prems(1) by (cases bs) auto
          show "length frame' = 66" using less.prems fit by (simp add: frame'_def)
          show "n + length bs \<le> 66" using fit less.prems by simp
          show "partial_ok (take (n + length bs) frame')"
            unfolding t' by (rule partial_ok_extend [OF Some]) (use ln lbs le False in auto)
          show "taken c' = t0 @ take (n + length bs) frame'" using tk t' by simp
        qed
        with step show ?thesis by simp
      qed
    qed
  qed
qed

lemma decode_spec:
  assumes "length frame = 66"
  shows "\<exists>st frame' c' bs. expansion_protocol_decode receive frame c = Some (st, frame', c') \<and> length frame' = 66
    \<and> taken c' = taken c @ bs \<and> decoded bs st frame'"
proof -
  have "loop_result (taken c) (expansion_decode_loop receive frame 0 c)"
    by (rule decode_loop_spec) (use assms in \<open>simp_all add: partial_ok_Nil\<close>)
  then obtain st f n c1 where lo: "expansion_decode_loop receive frame 0 c = Some (st, f, n, c1)"
    and f: "length f = 66" "n \<le> 66" "taken c1 = taken c @ take n f" "partial_ok (take n f)"
    and st: "case st of ExpansionProtocolStatusOk \<Rightarrow> expected (take n f) = Some n
        | ExpansionProtocolStatusErrorFormat \<Rightarrow> rejected (take n f)
        | ExpansionProtocolStatusErrorCommunication \<Rightarrow> \<exists>e. expected (take n f) = Some e \<and> n < e
        | ExpansionProtocolStatusErrorChecksum \<Rightarrow> False"
    unfolding loop_result_def by blast
  show ?thesis
  proof (cases "st = ExpansionProtocolStatusOk")
    case True
    obtain bs c' where r: "receive 1 c1 = (bs, c')" by (cases "receive 1 c1")
    from receive_length [of 1 c1] r have lb: "length bs \<le> 1" by simp
    from receive_taken [of 1 c1] r f(3) have tk: "taken c' = taken c @ take n f @ bs" by simp
    from True st have "expected (take n f) = Some n" by simp
    from complete_message [OF f(1) this] obtain m where m: "frame_message f = Some m" "message_wf m"
      "take n f = message_bytes m" .
    have sum: "expansion_protocol_get_checksum f n = Some (xor_sum (message_bytes m))"
      using f m by (simp add: checksum_xor_sum)
    show ?thesis
    proof (cases bs)
      case Nil
      have "decoded (take n f @ bs) ExpansionProtocolStatusErrorCommunication f"
        using m Nil by (auto simp: decoded_def wire_def)
      with lo True r tk f Nil show ?thesis by (simp add: expansion_protocol_decode_def)
    next
      case (Cons b bs')
      with lb have b: "bs = [b]" by simp
      show ?thesis
      proof (cases "b = xor_sum (message_bytes m)")
        case eq: True
        have "decoded (take n f @ bs) ExpansionProtocolStatusOk f"
          using m b eq by (auto simp: decoded_def wire_def)
        with lo True r tk f b eq sum show ?thesis by (simp add: expansion_protocol_decode_def)
      next
        case ne: False
        have "decoded (take n f @ bs) ExpansionProtocolStatusErrorChecksum f"
          using m b ne by (auto simp: decoded_def wire_def)
        with lo True r tk f b ne sum show ?thesis by (simp add: expansion_protocol_decode_def)
      qed
    qed
  next
    case False
    have "decoded (take n f) st f"
    proof (cases st)
      case ExpansionProtocolStatusErrorCommunication
      with st obtain e where "expected (take n f) = Some e" "length (take n f) < e" using f by auto
      from unreceived [OF this] ExpansionProtocolStatusErrorCommunication show ?thesis by (simp add: decoded_def)
    qed (use st False in \<open>simp_all add: decoded_def\<close>)
    with lo False f show ?thesis by (simp add: expansion_protocol_decode_def)
  qed
qed

end

text \<open>A source that has the bytes \<open>ready\<close> delivers some of them at every request.\<close>

locale live_source = frame_source receive taken
  for receive :: "nat \<Rightarrow> 'c \<Rightarrow> u8 list \<times> 'c" and taken :: "'c \<Rightarrow> u8 list" +
  fixes ready :: "'c \<Rightarrow> u8 list \<Rightarrow> bool"
  assumes receive_ready: "ready c xs \<Longrightarrow> 0 < n \<Longrightarrow> n \<le> length xs \<Longrightarrow>
      fst (receive n c) \<noteq> [] \<and> (\<exists>ys. xs = fst (receive n c) @ ys \<and> ready (snd (receive n c)) ys)"
begin

lemma decode_loop_ready:
  assumes "length frame = 66" "message_wf m" "n \<le> length (message_bytes m)"
    and "take n frame = take n (message_bytes m)" "ready c (drop n (message_bytes m) @ zs)"
  shows "\<exists>frame' c'. expansion_decode_loop receive frame n c = Some (ExpansionProtocolStatusOk, frame', length (message_bytes m), c')
    \<and> length frame' = 66 \<and> take (length (message_bytes m)) frame' = message_bytes m \<and> ready c' zs"
  using assms
proof (induction "66 - n" arbitrary: frame n c rule: less_induct)
  case less
  let ?l = "length (message_bytes m)"
  have l66: "?l \<le> 66" using less.prems(2) by (rule message_bytes_length)
  with less.prems have n66: "n \<le> 66" by simp
  note rem = remaining_expected [OF less.prems(1) n66]
  from expected_prefix [OF less.prems(2,3)] obtain e where e: "expected (take n frame) = Some e" "e \<le> ?l"
    "e = n \<longleftrightarrow> n = ?l" "n \<le> e" using less.prems(4) by metis
  show ?case
  proof (cases "n = ?l")
    case True
    with e have "expansion_frame_get_remaining_size frame n = Some (Some 0)" using rem True by simp
    then have "expansion_decode_loop receive frame n c = Some (ExpansionProtocolStatusOk, frame, n, c)"
      by (subst expansion_decode_loop.simps) simp
    with True less.prems show ?thesis by simp
  next
    case False
    with e have pos: "0 < e - n" by simp
    obtain bs c' where r: "receive (e - n) c = (bs, c')" by (cases "receive (e - n) c")
    from receive_length [OF pos, of c] r have lbs: "length bs \<le> e - n" by simp
    from e have "e - n \<le> length (drop n (message_bytes m) @ zs)" by simp
    from receive_ready [OF less.prems(5) pos this] r obtain ys where ne: "bs \<noteq> []"
      and ys: "drop n (message_bytes m) @ zs = bs @ ys" "ready c' ys" by auto
    define frame' where "frame' = take n frame @ bs @ drop (n + length bs) frame"
    from lbs e l66 less.prems have fit: "n + length bs \<le> length frame" by simp
    have bs: "bs = take (length bs) (drop n (message_bytes m))" "ys = drop (n + length bs) (message_bytes m) @ zs"
      using arg_cong [OF ys(1), of "take (length bs)"] arg_cong [OF ys(1), of "drop (length bs)"] lbs e(2,4)
      by (simp_all add: add.commute)
    have t': "take (n + length bs) frame' = take (n + length bs) (message_bytes m)"
      using less.prems n66 bs(1) by (simp add: frame'_def take_add)
    have step: "expansion_decode_loop receive frame n c = expansion_decode_loop receive frame' (n + length bs) c'"
      using e pos ne by (subst expansion_decode_loop.simps) (simp add: rem r memcpy_prefix [OF fit] frame'_def)
    show ?thesis
      unfolding step
    proof (rule less.hyps [OF _ _ less.prems(2) _ t'])
      show "66 - (n + length bs) < 66 - n" using ne fit less.prems(1) by (cases bs) auto
      show "length frame' = 66" using less.prems fit by (simp add: frame'_def)
      show "n + length bs \<le> ?l" using lbs e by simp
      show "ready c' (drop (n + length bs) (message_bytes m) @ zs)" using ys bs by simp
    qed
  qed
qed

lemma decode_ready:
  assumes "length frame = 66" "message_wf m" "ready c (message_bytes m @ x # zs)"
  shows "\<exists>frame' c'. expansion_protocol_decode receive frame c =
      Some (if x = xor_sum (message_bytes m) then ExpansionProtocolStatusOk else ExpansionProtocolStatusErrorChecksum, frame', c')
    \<and> frame_message frame' = Some m \<and> length frame' = 66 \<and> ready c' zs"
proof -
  from decode_loop_ready [of frame m 0 c "x # zs"] assms obtain f c1 where
    lo: "expansion_decode_loop receive frame 0 c = Some (ExpansionProtocolStatusOk, f, length (message_bytes m), c1)"
    and f: "length f = 66" "take (length (message_bytes m)) f = message_bytes m" "ready c1 (x # zs)" by auto
  obtain bs c' where r: "receive 1 c1 = (bs, c')" by (cases "receive 1 c1")
  from receive_length [of 1 c1] r have lb: "length bs \<le> 1" by simp
  from receive_ready [OF f(3), of 1] r obtain ys where "bs \<noteq> []" "x # zs = bs @ ys" "ready c' ys" by auto
  with lb have b: "bs = [x]" "ready c' zs" by (cases bs; simp)+
  have sum: "expansion_protocol_get_checksum f (length (message_bytes m)) = Some (xor_sum (message_bytes m))"
    using f message_bytes_length [OF assms(2)] by (simp add: checksum_xor_sum)
  show ?thesis
    using lo r b f sum message_frame [OF f(1) assms(2) f(2)] by (auto simp: expansion_protocol_decode_def)
qed

end

section \<open>Encoding\<close>

lemma encode_message:
  assumes l: "length frame = 66" and m: "frame_message frame = Some m"
  shows "expansion_frame_get_encoded_size frame = Some (length (message_bytes m))"
    and "take (length (message_bytes m)) frame = message_bytes m" and "message_wf m"
proof -
  have "\<exists>n. expected (take n frame) = Some n \<and> expansion_frame_get_encoded_size frame = Some n"
  proof -
    have nemp: "frame \<noteq> []" using l by auto
    have two: "take 2 frame = [frame ! 0, frame ! 1]" using l by (simp add: numeral_2_eq_2 take_Suc_conv_app_nth)
    have ne: "take (Suc k) frame ! 0 = frame ! 0" "take (Suc (Suc k)) frame ! 1 = frame ! 1" for k
      using l by auto
    note defs = expected_def expansion_frame_get_encoded_size_def header_type_def content_data_size_def rd_def
    consider "frame ! 0 = 1" | "frame ! 0 = 2" | "frame ! 0 = 3" | "frame ! 0 = 4" | "frame ! 0 = 5" "unat (frame ! 1) \<le> 64"
      using m by (auto simp: frame_message_def split: if_splits)
    then show ?thesis
    proof cases
      case 1
      then show ?thesis using l nemp ne [of 0] by (intro exI [of _ 1]) (simp add: defs)
    next
      case 2
      then show ?thesis using l nemp two by (intro exI [of _ 2]) (simp add: defs)
    next
      case 3
      then show ?thesis using l nemp ne [of 4] by (intro exI [of _ 5]) (simp add: defs)
    next
      case 4
      then show ?thesis using l nemp two by (intro exI [of _ 2]) (simp add: defs)
    next
      case 5
      then show ?thesis using l nemp ne [of "Suc (unat (frame ! 1))"] ne [of "unat (frame ! 1)"]
        by (intro exI [of _ "Suc (Suc (unat (frame ! 1)))"]) (simp add: defs)
    qed
  qed
  then obtain n where n: "expected (take n frame) = Some n" "expansion_frame_get_encoded_size frame = Some n" by blast
  from complete_message [OF l n(1)] m have w: "message_wf m" and t: "take n frame = message_bytes m" by auto
  from n(1) have "n \<le> 66" by (rule expected_le)
  then have "length (take n frame) = n" using l by simp
  then have "length (message_bytes m) = n" by (simp only: t)
  then show "expansion_frame_get_encoded_size frame = Some (length (message_bytes m))"
    and "take (length (message_bytes m)) frame = message_bytes m" and "message_wf m"
    using n t w by simp_all
qed

lemma encode_spec:
  assumes "length frame = 66" "frame_message frame = Some m"
  shows "expansion_protocol_encode send frame c = Some (case send (message_bytes m) c of (n, c1) \<Rightarrow>
     if n \<noteq> length (message_bytes m) then (ExpansionProtocolStatusErrorCommunication, c1)
     else case send [xor_sum (message_bytes m)] c1 of (k, c2) \<Rightarrow>
       (if k \<noteq> 1 then ExpansionProtocolStatusErrorCommunication else ExpansionProtocolStatusOk, c2))"
proof -
  note em = encode_message [OF assms]
  have "message_bytes m \<noteq> []" by (cases m) auto
  with em message_bytes_length [OF em(3)] assms(1) show ?thesis
    by (simp add: expansion_protocol_encode_def checksum_xor_sum split: prod.split)
qed

end
