(* ===== verification/ExpansionWorker.thy ===== *)
theory ExpansionWorker
  imports Expansion
begin

text \<open>
  The worker thread of the expansion service
  (\<open>src/applications/services/expansion/expansion_worker.c\<close>).

  The worker is a record. What the outside does is part of it: \<open>script\<close> holds, for each time the
  thread sleeps in \<open>furi_thread_flags_wait\<close>, what happens before it is woken (bytes and errors of the
  serial line, flags set by other threads); an empty entry is a quarter of a second in which nothing
  happens, and after the last entry the line stays silent. What the worker does to the outside is
  appended to \<open>trace\<close>. \<open>consumed\<close> is the history of the bytes taken out of the stream buffer; no
  operation reads it. The baud rates of the serial hardware and the answers of the RPC service are
  the argument \<open>env\<close>; the answers may depend on all that the worker did before.
  A pointer remembers that its object was freed, so that using it again is \<open>None\<close>.
\<close>

section \<open>State\<close>

definition EXPANSION_PROTOCOL_DEFAULT_BAUD_RATE :: nat where "EXPANSION_PROTOCOL_DEFAULT_BAUD_RATE = 9600"

datatype (plugins only: code size) ExpansionWorkerState =
    ExpansionWorkerStateHandShake | ExpansionWorkerStateConnected | ExpansionWorkerStateRpcActive

datatype (plugins only: code size) ExpansionWorkerExitReason =
    ExpansionWorkerExitReasonUnknown | ExpansionWorkerExitReasonUser
  | ExpansionWorkerExitReasonError | ExpansionWorkerExitReasonTimeout

definition ExpansionWorkerFlagStop :: u32 where "ExpansionWorkerFlagStop = push_bit 0 1"
definition ExpansionWorkerFlagData :: u32 where "ExpansionWorkerFlagData = push_bit 1 1"
definition ExpansionWorkerFlagError :: u32 where "ExpansionWorkerFlagError = push_bit 2 1"

definition EXPANSION_ALL_FLAGS :: u32 where
  "EXPANSION_ALL_FLAGS = (ExpansionWorkerFlagData OR ExpansionWorkerFlagStop)"

definition EXPANSION_WORKER_BUFFER_SIZE :: nat where
  "EXPANSION_WORKER_BUFFER_SIZE = sizeof_ExpansionFrame + 1"

definition FuriFlagError :: u32 where "FuriFlagError = 0x80000000"
definition FuriFlagErrorTimeout :: u32 where "FuriFlagErrorTimeout = 0xFFFFFFFE"

definition FuriHalSerialRxEventData :: u32 where "FuriHalSerialRxEventData = push_bit 0 1"
definition FuriHalSerialRxEventFrameError :: u32 where "FuriHalSerialRxEventFrameError = push_bit 2 1"
definition FuriHalSerialRxEventNoiseError :: u32 where "FuriHalSerialRxEventNoiseError = push_bit 3 1"
definition FuriHalSerialRxEventOverrunError :: u32 where "FuriHalSerialRxEventOverrunError = push_bit 4 1"

datatype 'a pointer = Null | Live 'a | Freed

datatype LineEvent = SerialRx u32 "u8 list" | SetFlag u32

datatype WorkerAction =
    InsomniaEnter | InsomniaExit | SerialAcquire | SerialRelease | SerialInit nat | SerialRxStart
  | Tx "u8 list" | SetBaud u32 | CallbackConnected | CallbackExit
  | RpcRecordOpen | RpcRecordClose | RpcSessionOpen | RpcSessionClose | RpcSessionFeed "u8 list"
  | RpcSetContext | RpcSetSendCallback bool | SemaphoreAlloc | SemaphoreFree

record ExpansionWorker =
  rx_buf :: "u8 list"
  tx_semaphore :: "nat pointer"
  rpc_session :: "unit pointer"
  worker_state :: ExpansionWorkerState
  exit_reason :: ExpansionWorkerExitReason
  has_callback :: bool
  thread_flags :: u32
  script :: "LineEvent list list"
  consumed :: "u8 list"
  trace :: "WorkerAction list"

record Environment =
  serial_available :: bool
  baud_rate_supported :: "u32 \<Rightarrow> bool"
  rpc_opens :: "WorkerAction list \<Rightarrow> bool"
  rpc_consumes :: "WorkerAction list \<Rightarrow> u8 list \<Rightarrow> nat"

definition act :: "WorkerAction \<Rightarrow> ExpansionWorker \<Rightarrow> ExpansionWorker" where
  "act a w = w\<lparr>trace := trace w @ [a]\<rparr>"

definition furi_thread_flags_set :: "u32 \<Rightarrow> ExpansionWorker \<Rightarrow> ExpansionWorker" where
  "furi_thread_flags_set f w = w\<lparr>thread_flags := thread_flags w OR f\<rparr>"

section \<open>Receiving\<close>

text \<open>The interrupt handler: a byte that does not fit into the stream buffer is dropped.\<close>

definition stream_buffer_send_byte :: "u8 \<Rightarrow> u8 list \<Rightarrow> u8 list" where
  "stream_buffer_send_byte b buf = (if length buf < EXPANSION_WORKER_BUFFER_SIZE then buf @ [b] else buf)"

definition expansion_worker_serial_rx_callback :: "u32 \<Rightarrow> u8 list \<Rightarrow> ExpansionWorker \<Rightarrow> ExpansionWorker" where
  "expansion_worker_serial_rx_callback event available w =
     (if event AND (FuriHalSerialRxEventNoiseError OR FuriHalSerialRxEventFrameError OR
                    FuriHalSerialRxEventOverrunError) \<noteq> 0
      then furi_thread_flags_set ExpansionWorkerFlagError w
      else if event AND FuriHalSerialRxEventData \<noteq> 0
      then furi_thread_flags_set ExpansionWorkerFlagData
             (w\<lparr>rx_buf := fold stream_buffer_send_byte available (rx_buf w)\<rparr>)
      else w)"

definition line_event :: "LineEvent \<Rightarrow> ExpansionWorker \<Rightarrow> ExpansionWorker" where
  "line_event ev w = (case ev of
       SerialRx event available \<Rightarrow> expansion_worker_serial_rx_callback event available w
     | SetFlag f \<Rightarrow> furi_thread_flags_set f w)"

text \<open>\<open>furi_thread_flags_wait(flags, FuriFlagWaitAny, timeout)\<close>: flags outside \<open>flags\<close> do not end the wait.\<close>

fun furi_thread_flags_wait :: "u32 \<Rightarrow> LineEvent list list \<Rightarrow> ExpansionWorker \<Rightarrow> u32 \<times> ExpansionWorker" where
  "furi_thread_flags_wait flags [] w = (FuriFlagErrorTimeout, w\<lparr>script := []\<rparr>)"
| "furi_thread_flags_wait flags (batch # rest) w =
     (if batch = [] then (FuriFlagErrorTimeout, w\<lparr>script := rest\<rparr>)
      else let w' = fold line_event batch w in
        if thread_flags w' AND flags \<noteq> 0
        then (thread_flags w', w'\<lparr>thread_flags := thread_flags w' AND NOT flags, script := rest\<rparr>)
        else furi_thread_flags_wait flags rest w')"

lemma timeout_is_error: "FuriFlagErrorTimeout AND FuriFlagError \<noteq> 0"
  by (simp add: FuriFlagErrorTimeout_def FuriFlagError_def)

lemma wait_shorter:
  "furi_thread_flags_wait flags s w = (r, w') \<Longrightarrow> r AND FuriFlagError = 0 \<Longrightarrow> length (script w') < length s"
  by (induction s arbitrary: w) (auto simp: timeout_is_error Let_def less_Suc_eq split: if_splits)

function receive_loop :: "nat \<Rightarrow> u8 list \<Rightarrow> ExpansionWorker \<Rightarrow> u8 list \<times> ExpansionWorker" where
  "receive_loop data_size data w =
     (let got = take (data_size - length data) (rx_buf w); data = data @ got;
          w = w\<lparr>rx_buf := drop (length got) (rx_buf w), consumed := consumed w @ got\<rparr> in
      if length data = data_size then (data, w)
      else case furi_thread_flags_wait EXPANSION_ALL_FLAGS (script w) w of (flags, w') \<Rightarrow>
        if flags AND FuriFlagError \<noteq> 0 then
          (data, w'\<lparr>exit_reason := (if flags = FuriFlagErrorTimeout then ExpansionWorkerExitReasonTimeout
                                    else ExpansionWorkerExitReasonError)\<rparr>)
        else if flags AND ExpansionWorkerFlagStop \<noteq> 0 then
          (data, w'\<lparr>exit_reason := ExpansionWorkerExitReasonUser\<rparr>)
        else if flags AND ExpansionWorkerFlagError \<noteq> 0 then
          (data, w'\<lparr>exit_reason := ExpansionWorkerExitReasonError\<rparr>)
        else receive_loop data_size data w')"
  by pat_completeness auto
termination
  by (relation "measure (\<lambda>(_, _, w). length (script w))") (auto dest!: wait_shorter [OF sym])

declare receive_loop.simps [simp del]

definition expansion_worker_receive_callback :: "nat \<Rightarrow> ExpansionWorker \<Rightarrow> u8 list \<times> ExpansionWorker" where
  "expansion_worker_receive_callback data_size w = receive_loop data_size [] w"

definition expansion_worker_receive_frame :: "ExpansionFrame \<Rightarrow> ExpansionWorker \<Rightarrow> (bool \<times> ExpansionFrame \<times> ExpansionWorker) option" where
  "expansion_worker_receive_frame frame w = do {
     (status, frame, w) \<leftarrow> expansion_protocol_decode expansion_worker_receive_callback frame w;
     Some (status = ExpansionProtocolStatusOk, frame, w) }"

section \<open>Sending\<close>

definition expansion_worker_send_callback :: "u8 list \<Rightarrow> ExpansionWorker \<Rightarrow> nat \<times> ExpansionWorker" where
  "expansion_worker_send_callback data w = (length data, act (Tx data) w)"

definition expansion_worker_send_frame :: "ExpansionFrame \<Rightarrow> ExpansionWorker \<Rightarrow> (bool \<times> ExpansionWorker) option" where
  "expansion_worker_send_frame frame w = do {
     (status, w) \<leftarrow> expansion_protocol_encode expansion_worker_send_callback frame w;
     Some (status = ExpansionProtocolStatusOk, w) }"

definition expansion_worker_send_heartbeat :: "ExpansionWorker \<Rightarrow> (bool \<times> ExpansionWorker) option" where
  "expansion_worker_send_heartbeat w =
     expansion_worker_send_frame (frame_type_code ExpansionFrameTypeHeartbeat # replicate 65 0) w"

definition expansion_worker_send_status_response :: "ExpansionFrameError \<Rightarrow> ExpansionWorker \<Rightarrow> (bool \<times> ExpansionWorker) option" where
  "expansion_worker_send_status_response error w =
     expansion_worker_send_frame (frame_type_code ExpansionFrameTypeStatus # frame_error_code error # replicate 64 0) w"

definition expansion_worker_send_data_response :: "u8 list \<Rightarrow> nat \<Rightarrow> ExpansionWorker \<Rightarrow> (bool \<times> ExpansionWorker) option" where
  "expansion_worker_send_data_response data data_size w = do {
     furi_assert (data_size \<le> EXPANSION_PROTOCOL_MAX_DATA_SIZE);
     frame \<leftarrow> memcpy (frame_type_code ExpansionFrameTypeData # word_of_nat data_size # replicate 64 0) 2 data 0 data_size;
     expansion_worker_send_frame frame w }"

text \<open>
  \<open>expansion_worker_rpc_send_callback\<close>, which the thread of the RPC session runs: one turn of its
  loop, given whether the semaphore was acquired in time. The result tells how much has been sent,
  or that the loop ends early.
\<close>

definition rpc_send_turn :: "bool \<Rightarrow> u8 list \<Rightarrow> nat \<Rightarrow> ExpansionWorker \<Rightarrow> (nat option \<times> ExpansionWorker) option" where
  "rpc_send_turn acquired data sent_data_size w = (case tx_semaphore w of
       Live n \<Rightarrow>
         if \<not> acquired then Some (None, furi_thread_flags_set ExpansionWorkerFlagError w)
         else do {
           let w = w\<lparr>tx_semaphore := Live (n - 1)\<rparr>;
           let current_data_size = min (length data - sent_data_size) EXPANSION_PROTOCOL_MAX_DATA_SIZE;
           (ok, w) \<leftarrow> expansion_worker_send_data_response (drop sent_data_size data) current_data_size w;
           Some (if ok then Some (sent_data_size + current_data_size) else None, w) }
     | _ \<Rightarrow> None)"

section \<open>The RPC session\<close>

text \<open>
  The calls, in the order of the code, each an update of its own; \<open>None\<close> is a call with a null or a freed object. The trace
  keeps their order. What the calls do inside the session (\<open>rpc.c\<close>) is modelled in the theory \<open>ExpansionSystem\<close>.
\<close>

definition open_session :: "Environment \<Rightarrow> ExpansionWorker \<Rightarrow> ExpansionWorker" where
  "open_session env w =
     (if rpc_opens env (trace w) then act RpcSessionOpen (w\<lparr>rpc_session := Live ()\<rparr>) else w\<lparr>rpc_session := Null\<rparr>)"

definition furi_semaphore_alloc :: "ExpansionWorker \<Rightarrow> ExpansionWorker" where
  "furi_semaphore_alloc w = act SemaphoreAlloc (w\<lparr>tx_semaphore := Live 1\<rparr>)"

definition furi_semaphore_free :: "ExpansionWorker \<Rightarrow> ExpansionWorker option" where
  "furi_semaphore_free w =
     (case tx_semaphore w of Live n \<Rightarrow> Some (act SemaphoreFree (w\<lparr>tx_semaphore := Freed\<rparr>)) | _ \<Rightarrow> None)"

definition set_session_context :: "ExpansionWorker \<Rightarrow> ExpansionWorker option" where
  "set_session_context w = do { furi_check (rpc_session w = Live ()); Some (act RpcSetContext w) }"

definition set_session_send_callback :: "bool \<Rightarrow> ExpansionWorker \<Rightarrow> ExpansionWorker option" where
  "set_session_send_callback callback w = do { furi_check (rpc_session w = Live ()); Some (act (RpcSetSendCallback callback) w) }"

definition disconnect_session :: "ExpansionWorker \<Rightarrow> ExpansionWorker option" where
  "disconnect_session w = do { furi_check (rpc_session w = Live ()); Some (act RpcSessionClose (w\<lparr>rpc_session := Freed\<rparr>)) }"

definition expansion_worker_rpc_session_open :: "Environment \<Rightarrow> ExpansionWorker \<Rightarrow> (bool \<times> ExpansionWorker) option" where
  "expansion_worker_rpc_session_open env w = do {
     let w = open_session env (act RpcRecordOpen w);
     w \<leftarrow> (if rpc_session w \<noteq> Null then do {
             w \<leftarrow> set_session_context (furi_semaphore_alloc w);
             set_session_send_callback True w }
           else Some w);
     Some (rpc_session w \<noteq> Null, w) }"

text \<open>\<open>rpc_session_close\<close>: the send callback is taken away first, then the session is told to end.\<close>

definition rpc_session_close :: "ExpansionWorker \<Rightarrow> ExpansionWorker option" where
  "rpc_session_close w = do { w \<leftarrow> set_session_send_callback False w; disconnect_session w }"

definition expansion_worker_rpc_session_close :: "ExpansionWorker \<Rightarrow> ExpansionWorker option" where
  "expansion_worker_rpc_session_close w = do {
     w \<leftarrow> (if rpc_session w \<noteq> Null then do { w \<leftarrow> rpc_session_close w; furi_semaphore_free w } else Some w);
     Some (act RpcRecordClose w) }"

lemmas session_call_defs = open_session_def furi_semaphore_alloc_def furi_semaphore_free_def set_session_context_def
  set_session_send_callback_def disconnect_session_def rpc_session_close_def

definition furi_semaphore_release :: "ExpansionWorker \<Rightarrow> ExpansionWorker option" where
  "furi_semaphore_release w = (case tx_semaphore w of Live n \<Rightarrow> Some (w\<lparr>tx_semaphore := Live (min 1 (n + 1))\<rparr>) | _ \<Rightarrow> None)"

section \<open>Handlers\<close>

definition expansion_worker_handle_state_handshake ::
  "Environment \<Rightarrow> ExpansionFrame \<Rightarrow> ExpansionWorker \<Rightarrow> (bool \<times> ExpansionWorker) option" where
  "expansion_worker_handle_state_handshake env rx_frame w = do {
     t \<leftarrow> header_type rx_frame;
     if t \<noteq> frame_type_code ExpansionFrameTypeBaudRate then Some (False, w)
     else do {
       baud_rate \<leftarrow> content_baud_rate_baud rx_frame;
       if baud_rate_supported env baud_rate then do {
         furi_check (has_callback w);
         (ok, w) \<leftarrow> expansion_worker_send_status_response ExpansionFrameErrorNone
                     (act CallbackConnected (w\<lparr>worker_state := ExpansionWorkerStateConnected\<rparr>));
         Some (if ok then (True, act (SetBaud baud_rate) w) else (False, w)) }
       else expansion_worker_send_status_response ExpansionFrameErrorBaudRate w } }"

definition expansion_worker_handle_state_connected ::
  "Environment \<Rightarrow> ExpansionFrame \<Rightarrow> ExpansionWorker \<Rightarrow> (bool \<times> ExpansionWorker) option" where
  "expansion_worker_handle_state_connected env rx_frame w = do {
     t \<leftarrow> header_type rx_frame;
     if t = frame_type_code ExpansionFrameTypeControl then do {
       command \<leftarrow> content_control_command rx_frame;
       if command \<noteq> frame_command_code ExpansionFrameControlCommandStartRpc then Some (False, w)
       else do {
         (opened, w) \<leftarrow> expansion_worker_rpc_session_open env (w\<lparr>worker_state := ExpansionWorkerStateRpcActive\<rparr>);
         (if opened then expansion_worker_send_status_response ExpansionFrameErrorNone w else Some (False, w)) } }
     else if t = frame_type_code ExpansionFrameTypeHeartbeat then expansion_worker_send_heartbeat w
     else Some (False, w) }"

definition expansion_worker_handle_state_rpc_active ::
  "Environment \<Rightarrow> ExpansionFrame \<Rightarrow> ExpansionWorker \<Rightarrow> (bool \<times> ExpansionWorker) option" where
  "expansion_worker_handle_state_rpc_active env rx_frame w = do {
     t \<leftarrow> header_type rx_frame;
     if t = frame_type_code ExpansionFrameTypeData then do {
       (ok, w) \<leftarrow> expansion_worker_send_status_response ExpansionFrameErrorNone w;
       if \<not> ok then Some (False, w)
       else do {
         furi_check (rpc_session w = Live ());
         sz \<leftarrow> content_data_size rx_frame;
         furi_check (2 + unat sz \<le> length rx_frame);
         let bytes = seg 2 (unat sz) rx_frame;
         let size_consumed = rpc_consumes env (trace w) bytes;
         Some (size_consumed = unat sz, act (RpcSessionFeed bytes) w) } }
     else if t = frame_type_code ExpansionFrameTypeControl then do {
       command \<leftarrow> content_control_command rx_frame;
       if command \<noteq> frame_command_code ExpansionFrameControlCommandStopRpc then Some (False, w)
       else do {
         w \<leftarrow> expansion_worker_rpc_session_close (w\<lparr>worker_state := ExpansionWorkerStateConnected\<rparr>);
         expansion_worker_send_status_response ExpansionFrameErrorNone w } }
     else if t = frame_type_code ExpansionFrameTypeStatus then do {
       error \<leftarrow> content_status_error rx_frame;
       if error \<noteq> frame_error_code ExpansionFrameErrorNone then Some (False, w)
       else do { w \<leftarrow> furi_semaphore_release w; Some (True, w) } }
     else if t = frame_type_code ExpansionFrameTypeHeartbeat then expansion_worker_send_heartbeat w
     else Some (False, w) }"

definition expansion_handlers :: "ExpansionWorkerState
    \<Rightarrow> Environment \<Rightarrow> ExpansionFrame \<Rightarrow> ExpansionWorker \<Rightarrow> (bool \<times> ExpansionWorker) option" where
  "expansion_handlers st = (case st of
       ExpansionWorkerStateHandShake \<Rightarrow> expansion_worker_handle_state_handshake
     | ExpansionWorkerStateConnected \<Rightarrow> expansion_worker_handle_state_connected
     | ExpansionWorkerStateRpcActive \<Rightarrow> expansion_worker_handle_state_rpc_active)"

section \<open>The state machine\<close>

text \<open>What a decoding does to its context, every step of the callback does.\<close>

lemma decode_loop_rel:
  assumes "\<And>n c. R c (snd (receive n c))" "\<And>c. R c c" "\<And>a b c. R a b \<Longrightarrow> R b c \<Longrightarrow> R a c"
  shows "expansion_decode_loop receive frame n c = Some (st, frame', n', c') \<Longrightarrow> R c c'"
proof (induction receive\<equiv>receive frame n c rule: expansion_decode_loop.induct)
  case (1 frame n c)
  obtain r where r: "expansion_frame_get_remaining_size frame n = Some r"
    using "1.prems" by (subst (asm) expansion_decode_loop.simps) (auto split: option.splits)
  show ?case
  proof (cases r)
    case None
    with "1.prems" r assms(2) show ?thesis by (subst (asm) expansion_decode_loop.simps) simp
  next
    case (Some k)
    show ?thesis
    proof (cases "k = 0")
      case True
      with "1.prems" r Some assms(2) show ?thesis by (subst (asm) expansion_decode_loop.simps) simp
    next
      case False
      obtain bs c1 where rc: "receive k c = (bs, c1)" by (cases "receive k c")
      have R1: "R c c1" using assms(1) [of c k] rc by simp
      show ?thesis
      proof (cases "bs = []")
        case True
        with "1.prems" r Some False rc R1 show ?thesis by (subst (asm) expansion_decode_loop.simps) simp
      next
        case ne: False
        with "1.prems" r Some False rc obtain f where f: "memcpy frame n bs 0 (length bs) = Some f"
          "expansion_decode_loop receive f (n + length bs) c1 = Some (st, frame', n', c')"
          by (subst (asm) expansion_decode_loop.simps) (auto split: bind_splits)
        have "R c1 c'" by (rule "1.hyps" [OF r [unfolded Some] refl False refl rc [symmetric] ne f])
        with R1 show ?thesis by (rule assms(3))
      qed
    qed
  qed
qed

lemma decode_rel:
  assumes "\<And>n c. R c (snd (receive n c))" "\<And>c. R c c" "\<And>a b c. R a b \<Longrightarrow> R b c \<Longrightarrow> R a c"
    and "expansion_protocol_decode receive frame c = Some (st, frame', c')"
  shows "R c c'"
proof -
  from assms(4) obtain st1 f n c1 where lo: "expansion_decode_loop receive frame 0 c = Some (st1, f, n, c1)"
    by (auto simp: expansion_protocol_decode_def split: bind_splits)
  have "R c c1" by (rule decode_loop_rel [OF assms(1-3) lo])
  moreover have "c' = c1 \<or> c' = snd (receive 1 c1)"
    using assms(4) lo by (auto simp: expansion_protocol_decode_def Let_def split: bind_splits if_splits prod.splits)
  ultimately show ?thesis using assms(1) [of c1 1] assms(3) by auto
qed

text \<open>The bytes that are still to come.\<close>

fun event_size :: "LineEvent \<Rightarrow> nat" where
  "event_size (SerialRx event available) = length available"
| "event_size (SetFlag f) = 0"

definition script_size :: "LineEvent list list \<Rightarrow> nat" where
  "script_size s = sum_list (map (\<lambda>b. sum_list (map event_size b)) s)"

definition pending_bytes :: "ExpansionWorker \<Rightarrow> nat" where
  "pending_bytes w = length (rx_buf w) + script_size (script w)"

text \<open>What receiving leaves alone, and what it uses up.\<close>

definition received :: "ExpansionWorker \<Rightarrow> ExpansionWorker \<Rightarrow> bool" where
  "received w w' \<longleftrightarrow> tx_semaphore w' = tx_semaphore w \<and> rpc_session w' = rpc_session w \<and> worker_state w' = worker_state w
     \<and> has_callback w' = has_callback w \<and> trace w' = trace w \<and>
     length (consumed w) \<le> length (consumed w') \<and>
     pending_bytes w' + length (consumed w') \<le> pending_bytes w + length (consumed w)"

lemma received_refl: "received w w"
  by (simp add: received_def)

lemma received_trans: "received a b \<Longrightarrow> received b c \<Longrightarrow> received a c"
  by (simp add: received_def)

lemma stream_buffer_send_length: "length (fold stream_buffer_send_byte bs buf) \<le> length buf + length bs"
proof (induction bs arbitrary: buf)
  case (Cons b bs)
  have "length (stream_buffer_send_byte b buf) \<le> Suc (length buf)" by (simp add: stream_buffer_send_byte_def)
  with Cons [of "stream_buffer_send_byte b buf"] show ?case by simp
qed simp

lemma line_event_frame:
  "tx_semaphore (line_event e w) = tx_semaphore w" "rpc_session (line_event e w) = rpc_session w"
  "worker_state (line_event e w) = worker_state w" "has_callback (line_event e w) = has_callback w"
  "trace (line_event e w) = trace w" "consumed (line_event e w) = consumed w" "script (line_event e w) = script w"
  "exit_reason (line_event e w) = exit_reason w"
  "length (rx_buf (line_event e w)) \<le> length (rx_buf w) + event_size e"
  by (cases e; simp add: line_event_def expansion_worker_serial_rx_callback_def furi_thread_flags_set_def
        stream_buffer_send_length)+

lemma line_events_frame:
  "tx_semaphore (fold line_event b w) = tx_semaphore w" "rpc_session (fold line_event b w) = rpc_session w"
  "worker_state (fold line_event b w) = worker_state w" "has_callback (fold line_event b w) = has_callback w"
  "trace (fold line_event b w) = trace w" "consumed (fold line_event b w) = consumed w" "script (fold line_event b w) = script w"
  "exit_reason (fold line_event b w) = exit_reason w"
  "length (rx_buf (fold line_event b w)) \<le> length (rx_buf w) + sum_list (map event_size b)"
proof (induction b arbitrary: w)
  case (Cons e b)
  { case 9 show ?case using Cons(9) [of "line_event e w"] line_event_frame(9) [of e w] by simp }
qed (simp_all add: line_event_frame)

lemma wait_received:
  "furi_thread_flags_wait fl s w = (r, w') \<Longrightarrow>
   tx_semaphore w' = tx_semaphore w \<and> rpc_session w' = rpc_session w \<and> worker_state w' = worker_state w
   \<and> has_callback w' = has_callback w \<and> trace w' = trace w \<and> consumed w' = consumed w \<and> exit_reason w' = exit_reason w \<and>
   pending_bytes w' \<le> length (rx_buf w) + script_size s"
proof (induction s arbitrary: w)
  case Nil
  then show ?case by (auto simp: pending_bytes_def script_size_def)
next
  case (Cons b s)
  note fr = line_events_frame [of b w]
  show ?case
  proof (cases "b = [] \<or> thread_flags (fold line_event b w) AND fl \<noteq> 0")
    case True
    with Cons.prems fr show ?thesis by (auto simp: pending_bytes_def script_size_def Let_def split: if_splits)
  next
    case False
    with Cons.prems have "furi_thread_flags_wait fl s (fold line_event b w) = (r, w')" by (simp add: Let_def)
    from Cons.IH [OF this] fr show ?thesis by (auto simp: pending_bytes_def script_size_def)
  qed
qed

lemma received_exit_reason: "received w (w'\<lparr>exit_reason := x\<rparr>) = received w w'"
  by (simp add: received_def pending_bytes_def)

definition loop_ok :: "nat \<Rightarrow> u8 list \<Rightarrow> ExpansionWorker \<Rightarrow> u8 list \<times> ExpansionWorker \<Rightarrow> bool" where
  "loop_ok n data w r \<longleftrightarrow> received w (snd r) \<and>
     (\<exists>bs. fst r = data @ bs \<and> consumed (snd r) = consumed w @ bs \<and> (length data \<le> n \<longrightarrow> length (data @ bs) \<le> n))"

lemma receive_loop_ok: "loop_ok n data w (receive_loop n data w)"
proof (induction n data w rule: receive_loop.induct)
  case (1 n data w)
  define got where "got = take (n - length data) (rx_buf w)"
  define w1 where "w1 = w\<lparr>rx_buf := drop (length got) (rx_buf w), consumed := consumed w @ got\<rparr>"
  obtain fl w2 where wt: "furi_thread_flags_wait EXPANSION_ALL_FLAGS (script w1) w1 = (fl, w2)"
    by (cases "furi_thread_flags_wait EXPANSION_ALL_FLAGS (script w1) w1")
  have r1: "received w w1" "consumed w1 = consumed w @ got" "script w1 = script w"
    by (auto simp: received_def w1_def pending_bytes_def got_def)
  have r12: "received w1 w2" "consumed w2 = consumed w1"
    using wait_received [OF wt] by (auto simp: received_def pending_bytes_def)
  have r2: "received w w2" "consumed w2 = consumed w @ got"
    using received_trans [OF r1(1) r12(1)] r1 r12 by auto
  have lg: "length data \<le> n \<longrightarrow> length (data @ got) \<le> n" by (auto simp: got_def)
  have unf: "receive_loop n data w =
      (if length (data @ got) = n then (data @ got, w1)
       else if fl AND FuriFlagError \<noteq> 0 then
          (data @ got, w2\<lparr>exit_reason := (if fl = FuriFlagErrorTimeout then ExpansionWorkerExitReasonTimeout
                                    else ExpansionWorkerExitReasonError)\<rparr>)
        else if fl AND ExpansionWorkerFlagStop \<noteq> 0 then
          (data @ got, w2\<lparr>exit_reason := ExpansionWorkerExitReasonUser\<rparr>)
        else if fl AND ExpansionWorkerFlagError \<noteq> 0 then
          (data @ got, w2\<lparr>exit_reason := ExpansionWorkerExitReasonError\<rparr>)
        else receive_loop n (data @ got) w2)"
    using wt by (subst receive_loop.simps) (simp add: Let_def got_def [symmetric] w1_def [symmetric] r1(3))
  show ?case
  proof (cases "length (data @ got) = n \<or> fl AND FuriFlagError \<noteq> 0 \<or> fl AND ExpansionWorkerFlagStop \<noteq> 0
      \<or> fl AND ExpansionWorkerFlagError \<noteq> 0")
    case True
    then have "\<exists>x. receive_loop n data w = (data @ got, w1) \<or> receive_loop n data w = (data @ got, w2\<lparr>exit_reason := x\<rparr>)"
      unfolding unf by auto
    with r1 r2 lg show ?thesis by (auto simp: loop_ok_def received_exit_reason)
  next
    case False
    have "loop_ok n (data @ got) w2 (receive_loop n (data @ got) w2)"
      by (rule "1.IH" [OF got_def refl w1_def _ wt [symmetric]]) (use False in auto)
    moreover have "receive_loop n data w = receive_loop n (data @ got) w2" using False unf by auto
    ultimately show ?thesis
      using received_trans [OF r2(1)] r2(2) lg by (auto simp: loop_ok_def)
  qed
qed

lemma received_callback:
  "received w (snd (expansion_worker_receive_callback n w))"
  "consumed (snd (expansion_worker_receive_callback n w)) = consumed w @ fst (expansion_worker_receive_callback n w)"
  "length (fst (expansion_worker_receive_callback n w)) \<le> n"
  using receive_loop_ok [of n "[]" w] by (auto simp: loop_ok_def expansion_worker_receive_callback_def)

interpretation serial: frame_source expansion_worker_receive_callback consumed
  by unfold_locales (auto simp: received_callback)

lemma decode_received:
  "expansion_protocol_decode expansion_worker_receive_callback frame w = Some (st, frame', w') \<Longrightarrow> received w w'"
  by (rule decode_rel [where R = received, OF received_callback(1) received_refl received_trans])

lemma receive_frame_spec:
  assumes "length frame = 66"
  obtains st frame' w' bs where "expansion_protocol_decode expansion_worker_receive_callback frame w = Some (st, frame', w')"
    "expansion_worker_receive_frame frame w = Some (st = ExpansionProtocolStatusOk, frame', w')"
    "length frame' = 66" "consumed w' = consumed w @ bs" "decoded bs st frame'" "received w w'"
  using serial.decode_spec [OF assms, of w] decode_received
  by (fastforce simp: expansion_worker_receive_frame_def)

lemma receive_frame_progress:
  assumes "expansion_worker_receive_frame frame w = Some (True, frame', w')"
  shows "pending_bytes w' < pending_bytes w"
proof -
  from assms obtain st f n w1 where lo: "expansion_decode_loop expansion_worker_receive_callback frame 0 w = Some (st, f, n, w1)"
    and last: "length (fst (expansion_worker_receive_callback 1 w1)) = 1" "snd (expansion_worker_receive_callback 1 w1) = w'"
    by (auto simp: expansion_worker_receive_frame_def expansion_protocol_decode_def Let_def
        split: bind_splits if_splits prod.splits)
  have "received w w1" by (rule decode_loop_rel [where R = received, OF received_callback(1) received_refl received_trans lo])
  moreover have "received w1 w'" using received_callback(1) [of w1 1] last by simp
  moreover have "length (consumed w') = length (consumed w1) + 1" using received_callback(2) [of 1 w1] last by simp
  ultimately show ?thesis by (auto simp: received_def)
qed

text \<open>Sending.\<close>

definition tx :: "Message \<Rightarrow> ExpansionWorker \<Rightarrow> ExpansionWorker" where
  "tx m w = act (Tx [xor_sum (message_bytes m)]) (act (Tx (message_bytes m)) w)"

lemma send_frame:
  "length frame = 66 \<Longrightarrow> frame_message frame = Some m \<Longrightarrow> expansion_worker_send_frame frame w = Some (True, tx m w)"
  by (simp add: expansion_worker_send_frame_def encode_spec expansion_worker_send_callback_def tx_def)

lemma send_heartbeat: "expansion_worker_send_heartbeat w = Some (True, tx Heartbeat w)"
  by (simp add: expansion_worker_send_heartbeat_def send_frame frame_message_def)

lemma send_status: "expansion_worker_send_status_response e w = Some (True, tx (Status (frame_error_code e)) w)"
  by (simp add: expansion_worker_send_status_response_def send_frame frame_message_def)

lemma send_data:
  assumes "n \<le> 64" "n \<le> length data"
  shows "expansion_worker_send_data_response data n w = Some (True, tx (Data (take n data)) w)"
proof -
  have seg2: "seg 2 k (a # b # xs) = take k xs" for k and a b :: u8 and xs by (simp add: seg_def numeral_2_eq_2)
  let ?f = "5 # word_of_nat n # take n data @ replicate (64 - n) 0"
  have "memcpy (5 # word_of_nat n # replicate 64 0) 2 data 0 n = Some ?f"
    using assms by (simp add: memcpy_def numeral_2_eq_2)
  moreover have "frame_message ?f = Some (Data (take n data))"
    using assms seg2 by (simp add: frame_message_def size_byte)
  ultimately show ?thesis
    using assms by (simp add: expansion_worker_send_data_response_def EXPANSION_PROTOCOL_MAX_DATA_SIZE_def send_frame)
qed

lemma act_frame [simp]:
  "rx_buf (act a w) = rx_buf w" "tx_semaphore (act a w) = tx_semaphore w" "rpc_session (act a w) = rpc_session w"
  "worker_state (act a w) = worker_state w" "exit_reason (act a w) = exit_reason w" "has_callback (act a w) = has_callback w"
  "thread_flags (act a w) = thread_flags w" "script (act a w) = script w" "consumed (act a w) = consumed w"
  "trace (act a w) = trace w @ [a]"
  by (simp_all add: act_def)

lemma tx_frame [simp]:
  "rx_buf (tx m w) = rx_buf w" "tx_semaphore (tx m w) = tx_semaphore w" "rpc_session (tx m w) = rpc_session w"
  "worker_state (tx m w) = worker_state w" "exit_reason (tx m w) = exit_reason w" "has_callback (tx m w) = has_callback w"
  "thread_flags (tx m w) = thread_flags w" "script (tx m w) = script w" "consumed (tx m w) = consumed w"
  "trace (tx m w) = trace w @ [Tx (message_bytes m), Tx [xor_sum (message_bytes m)]]"
  by (simp_all add: tx_def)

lemmas handler_defs = expansion_handlers_def expansion_worker_handle_state_handshake_def
  expansion_worker_handle_state_connected_def expansion_worker_handle_state_rpc_active_def

lemmas session_defs = expansion_worker_rpc_session_open_def expansion_worker_rpc_session_close_def furi_semaphore_release_def
  session_call_defs

lemma handler_frame:
  assumes "expansion_handlers st env frame w = Some (ok, w')"
  shows "rx_buf w' = rx_buf w \<and> script w' = script w \<and> consumed w' = consumed w \<and> thread_flags w' = thread_flags w
    \<and> exit_reason w' = exit_reason w \<and> has_callback w' = has_callback w"
  using assms
  by (cases st)
    (auto simp: handler_defs session_defs send_status send_heartbeat Let_def split: bind_splits if_splits pointer.splits)

text \<open>
  The loop \<open>expansion_worker_state_machine\<close>; \<open>frame\<close> is the memory of its local variable. It ends, since
  every turn but the last takes a frame off the line.
\<close>

function expansion_worker_state_machine :: "Environment \<Rightarrow> ExpansionFrame \<Rightarrow> ExpansionWorker \<Rightarrow> ExpansionWorker option" where
  "expansion_worker_state_machine env frame w =
     (case expansion_worker_receive_frame frame w of
        None \<Rightarrow> None
      | Some (got, frame', w') \<Rightarrow>
          if \<not> got then Some w'
          else (case expansion_handlers (worker_state w') env frame' w' of
              None \<Rightarrow> None
            | Some (handled, w'') \<Rightarrow>
                if \<not> handled then Some w'' else expansion_worker_state_machine env frame' w''))"
  by pat_completeness auto
termination
proof (relation "measure (\<lambda>(_, _, w). pending_bytes w)")
  fix env :: Environment and frame frame' :: ExpansionFrame and w w' w'' :: ExpansionWorker
    and r1 r2 r3 got handled
  assume "expansion_worker_receive_frame frame w = Some r1" "(got, r2) = r1" "(frame', w') = r2" "\<not> \<not> got"
    and h: "expansion_handlers (worker_state w') env frame' w' = Some r3" "(handled, w'') = r3"
  then have "pending_bytes w' < pending_bytes w" by (auto intro: receive_frame_progress)
  moreover have "pending_bytes w'' = pending_bytes w'" using h handler_frame by (auto simp: pending_bytes_def)
  ultimately show "((env, frame', w''), (env, frame, w)) \<in> measure (\<lambda>(_, _, w). pending_bytes w)" by simp
qed simp

declare expansion_worker_state_machine.simps [simp del]

text \<open>The thread: \<open>frame\<close> is what the stack holds at the place of the variable \<open>rx_frame\<close>.\<close>

definition expansion_worker :: "Environment \<Rightarrow> ExpansionFrame \<Rightarrow> ExpansionWorker \<Rightarrow> ExpansionWorker option" where
  "expansion_worker env frame w = do {
     let w = act SerialAcquire (act InsomniaEnter w);
     furi_check (serial_available env);
     let w = w\<lparr>worker_state := ExpansionWorkerStateHandShake, exit_reason := ExpansionWorkerExitReasonUnknown\<rparr>;
     let w = act SerialRxStart (act (SerialInit EXPANSION_PROTOCOL_DEFAULT_BAUD_RATE) w);
     (ok, w) \<leftarrow> expansion_worker_send_heartbeat w;
     w \<leftarrow> (if ok then expansion_worker_state_machine env frame w else Some w);
     w \<leftarrow> (if worker_state w = ExpansionWorkerStateRpcActive then expansion_worker_rpc_session_close w else Some w);
     let w = act InsomniaExit (act SerialRelease w);
     Some (if exit_reason w \<noteq> ExpansionWorkerExitReasonUser \<and> has_callback w then act CallbackExit w else w) }"

definition idle_worker :: ExpansionWorker where
  "idle_worker = \<lparr>rx_buf = [], tx_semaphore = Null, rpc_session = Null, worker_state = ExpansionWorkerStateHandShake,
     exit_reason = ExpansionWorkerExitReasonUnknown, has_callback = True, thread_flags = 0, script = [], consumed = [], trace = []\<rparr>"

section \<open>A clean line\<close>

text \<open>
  A batch of events that brings bytes and nothing else; it fits into the stream buffer, which the
  thread has emptied when it goes to sleep.
\<close>

fun clean_event :: "LineEvent \<Rightarrow> bool" where
  "clean_event (SerialRx event available) \<longleftrightarrow> event = FuriHalSerialRxEventData"
| "clean_event (SetFlag f) \<longleftrightarrow> False"

fun event_bytes :: "LineEvent \<Rightarrow> u8 list" where
  "event_bytes (SerialRx event available) = available"
| "event_bytes (SetFlag f) = []"

definition clean_batch :: "LineEvent list \<Rightarrow> bool" where
  "clean_batch b \<longleftrightarrow> b \<noteq> [] \<and> list_all clean_event b \<and> length (concat (map event_bytes b)) \<le> EXPANSION_WORKER_BUFFER_SIZE"

fun coming :: "LineEvent list list \<Rightarrow> u8 list" where
  "coming [] = []"
| "coming (b # s) = (if clean_batch b then concat (map event_bytes b) @ coming s else [])"

definition ready :: "ExpansionWorker \<Rightarrow> u8 list \<Rightarrow> bool" where
  "ready w xs \<longleftrightarrow> thread_flags w = 0 \<and> (\<exists>zs. rx_buf w @ coming (script w) = xs @ zs)"

lemma flag_bits:
  "ExpansionWorkerFlagData AND EXPANSION_ALL_FLAGS = ExpansionWorkerFlagData" "ExpansionWorkerFlagData \<noteq> 0"
  "ExpansionWorkerFlagData AND NOT EXPANSION_ALL_FLAGS = 0" "ExpansionWorkerFlagData AND FuriFlagError = 0"
  "ExpansionWorkerFlagData AND ExpansionWorkerFlagStop = 0" "ExpansionWorkerFlagData AND ExpansionWorkerFlagError = 0"
  "FuriHalSerialRxEventData AND (FuriHalSerialRxEventNoiseError OR FuriHalSerialRxEventFrameError OR FuriHalSerialRxEventOverrunError) = 0"
  "FuriHalSerialRxEventData AND FuriHalSerialRxEventData \<noteq> 0"
  by (simp_all add: ExpansionWorkerFlagData_def EXPANSION_ALL_FLAGS_def ExpansionWorkerFlagStop_def ExpansionWorkerFlagError_def
      FuriFlagError_def FuriHalSerialRxEventData_def FuriHalSerialRxEventFrameError_def
      FuriHalSerialRxEventNoiseError_def FuriHalSerialRxEventOverrunError_def)

lemma stream_buffer_send_fits:
  "length buf + length bs \<le> EXPANSION_WORKER_BUFFER_SIZE \<Longrightarrow> fold stream_buffer_send_byte bs buf = buf @ bs"
  by (induction bs arbitrary: buf) (simp_all add: stream_buffer_send_byte_def)

lemma clean_events:
  assumes "list_all clean_event b" "length (rx_buf w) + length (concat (map event_bytes b)) \<le> EXPANSION_WORKER_BUFFER_SIZE"
    and "thread_flags w \<in> {0, ExpansionWorkerFlagData}"
  shows "fold line_event b w = w\<lparr>rx_buf := rx_buf w @ concat (map event_bytes b),
     thread_flags := (if b = [] then thread_flags w else ExpansionWorkerFlagData)\<rparr>"
  using assms
proof (induction b arbitrary: w)
  case (Cons e b)
  from Cons.prems obtain bs where e: "e = SerialRx FuriHalSerialRxEventData bs" by (cases e) auto
  have "line_event e w = w\<lparr>rx_buf := rx_buf w @ bs, thread_flags := ExpansionWorkerFlagData\<rparr>"
    using Cons.prems flag_bits
    by (auto simp: e line_event_def expansion_worker_serial_rx_callback_def furi_thread_flags_set_def stream_buffer_send_fits)
  with Cons.IH [of "line_event e w"] Cons.prems show ?case by (simp add: e)
qed simp

lemma clean_wait:
  assumes "thread_flags w = 0" "rx_buf w = []" "clean_batch b"
  shows "furi_thread_flags_wait EXPANSION_ALL_FLAGS (b # s) w =
     (ExpansionWorkerFlagData, w\<lparr>rx_buf := concat (map event_bytes b), thread_flags := 0, script := s\<rparr>)"
proof -
  have "fold line_event b w = w\<lparr>rx_buf := concat (map event_bytes b), thread_flags := ExpansionWorkerFlagData\<rparr>"
    using clean_events [of b w] assms by (simp add: clean_batch_def)
  with assms(3) flag_bits show ?thesis by (simp add: clean_batch_def Let_def)
qed

lemma receive_loop_clean:
  assumes "thread_flags w = 0" "length data + length xs = n" "rx_buf w @ coming (script w) = xs @ zs"
  shows "\<exists>w'. receive_loop n data w = (data @ xs, w') \<and> thread_flags w' = 0 \<and> rx_buf w' @ coming (script w') = zs"
  using assms
proof (induction n data w arbitrary: xs rule: receive_loop.induct)
  case (1 n data w)
  define got where "got = take (n - length data) (rx_buf w)"
  define w1 where "w1 = w\<lparr>rx_buf := drop (length got) (rx_buf w), consumed := consumed w @ got\<rparr>"
  have nd: "n - length data = length xs" using 1(3) by simp
  show ?case
  proof (cases "length xs \<le> length (rx_buf w)")
    case True
    with 1(4) have g: "got = xs" "rx_buf w1 @ coming (script w1) = zs"
      by (auto simp: got_def nd w1_def append_eq_append_conv_if split: if_splits)
    with 1(3) have "length (data @ got) = n" by simp
    then have "receive_loop n data w = (data @ got, w1)"
      by (subst receive_loop.simps) (simp add: Let_def got_def [symmetric] w1_def [symmetric])
    with g 1(2) show ?thesis by (simp add: w1_def)
  next
    case False
    then have g: "got = rx_buf w" "rx_buf w1 = []" by (auto simp: got_def nd w1_def)
    from False 1(4) obtain ys where ys: "xs = rx_buf w @ ys" "coming (script w) = ys @ zs" "ys \<noteq> []"
      by (auto simp: append_eq_append_conv2)
    then obtain b s where s: "script w = b # s" "clean_batch b"
      by (cases "script w") (auto split: if_splits)
    define w2 where "w2 = w1\<lparr>rx_buf := concat (map event_bytes b), thread_flags := 0, script := s\<rparr>"
    have wt: "furi_thread_flags_wait EXPANSION_ALL_FLAGS (script w1) w1 = (ExpansionWorkerFlagData, w2)"
      using clean_wait [of w1 b s] 1(2) g s by (simp add: w1_def w2_def)
    have ne: "length (data @ got) \<noteq> n" using g ys 1(3) by (cases ys) auto
    have step: "receive_loop n data w = receive_loop n (data @ got) w2"
      using wt flag_bits ne
      by (subst receive_loop.simps) (simp add: Let_def got_def [symmetric] w1_def [symmetric])
    have "\<exists>w'. receive_loop n (data @ got) w2 = ((data @ got) @ ys, w') \<and> thread_flags w' = 0 \<and> rx_buf w' @ coming (script w') = zs"
    proof (rule "1.IH" [OF got_def refl w1_def ne wt [symmetric]])
      show "thread_flags w2 = 0" by (simp add: w2_def)
      show "length (data @ got) + length ys = n" using g ys 1(3) by simp
      show "rx_buf w2 @ coming (script w2) = ys @ zs" using ys s by (simp add: w2_def)
    qed (use flag_bits in auto)
    with step g ys show ?thesis by simp
  qed
qed

interpretation serial_live: live_source expansion_worker_receive_callback consumed ready
proof unfold_locales
  fix w :: ExpansionWorker and xs :: "u8 list" and n
  assume r: "ready w xs" "0 < n" "n \<le> length xs"
  then obtain zs where "thread_flags w = 0" "rx_buf w @ coming (script w) = xs @ zs"
    by (auto simp: ready_def)
  then have "thread_flags w = 0" "rx_buf w @ coming (script w) = take n xs @ drop n xs @ zs" by simp_all
  moreover from r have "length [] + length (take n xs) = n" by simp
  ultimately obtain w' where
    "expansion_worker_receive_callback n w = (take n xs, w')" "thread_flags w' = 0"
    "rx_buf w' @ coming (script w') = drop n xs @ zs"
    using receive_loop_clean [of w "[]" "take n xs" n "drop n xs @ zs"] by (auto simp: expansion_worker_receive_callback_def)
  moreover from this have "ready w' (drop n xs)" by (auto simp: ready_def)
  ultimately show "fst (expansion_worker_receive_callback n w) \<noteq> [] \<and> (\<exists>ys. xs = fst (expansion_worker_receive_callback n w) @ ys
      \<and> ready (snd (expansion_worker_receive_callback n w)) ys)"
    using r by (auto intro!: exI [of _ "drop n xs"])
qed

section \<open>Properties of the protocol\<close>

text \<open>C19: the decoder, run by the worker on whatever the line brings, never writes outside the frame and
  ends; what it took off the line is a whole frame with its checksum when it reports success (and the
  fields of the frame say that message), a frame with a wrong checksum, a first byte or a size byte
  that no frame has, or a proper beginning of a frame.\<close>

theorem expansion_decode_exact:
  assumes "length frame = sizeof_ExpansionFrame"
  shows "\<exists>st frame' w' bs. expansion_protocol_decode expansion_worker_receive_callback frame w = Some (st, frame', w')
    \<and> length frame' = sizeof_ExpansionFrame \<and> consumed w' = consumed w @ bs \<and> decoded bs st frame'"
  using serial.decode_spec [of frame w] assms by (simp add: sizeof_ExpansionFrame_def EXPANSION_PROTOCOL_MAX_DATA_SIZE_def)

theorem expansion_decode_exact_witness:
  "\<exists>st frame' w' bs. expansion_protocol_decode expansion_worker_receive_callback (replicate sizeof_ExpansionFrame 0)
      (idle_worker\<lparr>rx_buf := [6]\<rparr>) = Some (st, frame', w') \<and> length frame' = sizeof_ExpansionFrame \<and>
      consumed w' = consumed (idle_worker\<lparr>rx_buf := [6]\<rparr>) @ bs \<and> decoded bs st frame'"
  by (rule expansion_decode_exact) simp

text \<open>C20: what one worker sends for a frame that says a message, the other end receives as that message,
  however the bytes are spread over the interrupts, and the bytes that follow stay on the line.\<close>

theorem expansion_frame_round_trip:
  assumes "length frame = sizeof_ExpansionFrame" "frame_message frame = Some m"
    and "length memory = sizeof_ExpansionFrame" "thread_flags w = 0" "rx_buf w @ coming (script w) = wire m @ rest"
  shows "(\<exists>s' a b. expansion_worker_send_frame frame s = Some (True, s') \<and> trace s' = trace s @ [Tx a, Tx b] \<and> a @ b = wire m) \<and>
     (\<exists>frame' w'. expansion_worker_receive_frame memory w = Some (True, frame', w') \<and> frame_message frame' = Some m)"
proof -
  have l: "length frame = 66" "length memory = 66"
    using assms by (simp_all add: sizeof_ExpansionFrame_def EXPANSION_PROTOCOL_MAX_DATA_SIZE_def)
  have wf: "message_wf m" by (rule encode_message(3) [OF l(1) assms(2)])
  have "ready w (message_bytes m @ xor_sum (message_bytes m) # rest)"
    using assms by (auto simp: ready_def wire_def)
  from serial_live.decode_ready [OF l(2) wf this] show ?thesis
    using send_frame [OF l(1) assms(2), of s] by (auto simp: expansion_worker_receive_frame_def wire_def)
qed

theorem expansion_frame_round_trip_witness:
  "(\<exists>s' a b. expansion_worker_send_frame (2 # 7 # replicate 64 0) idle_worker = Some (True, s') \<and> trace s' = trace idle_worker @ [Tx a, Tx b]
      \<and> a @ b = [2, 7, 5]) \<and>
   (\<exists>frame' w'. expansion_worker_receive_frame (replicate 66 0)
      (idle_worker\<lparr>rx_buf := [2], thread_flags := 0, script := [[SerialRx 1 [7]], [SerialRx 1 [5]]]\<rparr>) = Some (True, frame', w')
      \<and> frame_message frame' = Some (Status 7))"
proof -
  have w: "wire (Status 7) = [2, 7, 5]" by (simp add: wire_def xor_sum_def)
  show ?thesis
    using expansion_frame_round_trip [of "2 # 7 # replicate 64 0" "Status 7" "replicate 66 0"
        "idle_worker\<lparr>rx_buf := [2], thread_flags := 0, script := [[SerialRx 1 [7]], [SerialRx 1 [5]]]\<rparr>" "[]" idle_worker]
    by (simp add: w sizeof_ExpansionFrame_def EXPANSION_PROTOCOL_MAX_DATA_SIZE_def frame_message_def clean_batch_def
        EXPANSION_WORKER_BUFFER_SIZE_def FuriHalSerialRxEventData_def)
qed

definition payload_start :: "Message \<Rightarrow> nat" where
  "payload_start m = (case m of Data _ \<Rightarrow> 2 | _ \<Rightarrow> 1)"

lemma xor_sum_snoc: "xor_sum (xs @ [x]) = xor_sum xs XOR x"
  by (simp add: xor_sum_def)

lemma foldl_xor: "foldl (XOR) (a XOR b) bs = a XOR foldl (XOR) (b :: u8) bs"
  by (induction bs arbitrary: b) (simp_all add: xor.assoc)

lemma xor_sum_append: "xor_sum (xs @ ys) = xor_sum xs XOR xor_sum ys"
  using foldl_xor [of "xor_sum xs" 0 ys] by (simp add: xor_sum_def)

lemma xor_cancel: "a XOR x XOR b = a XOR y XOR b \<Longrightarrow> x = (y :: u8)"
proof (rule bit_word_eqI)
  fix n assume "a XOR x XOR b = a XOR y XOR b"
  then have "bit (a XOR x XOR b) n = bit (a XOR y XOR b) n" by simp
  then show "bit x n = bit y n" by (auto simp: bit_xor_iff)
qed

lemma xor_sum_update:
  assumes "i < length xs" "x \<noteq> xs ! i"
  shows "xor_sum (xs[i := x]) \<noteq> xor_sum xs"
proof -
  have mid: "xor_sum (a @ b # c) = xor_sum a XOR b XOR xor_sum c" for a b c
    using xor_sum_append [of a "b # c"] xor_sum_append [of "[b]" c] by (simp add: xor_sum_def xor.assoc)
  have "xor_sum (xs[i := x]) = xor_sum (take i xs) XOR x XOR xor_sum (drop (Suc i) xs)"
    by (simp only: upd_conv_take_nth_drop [OF assms(1)] mid)
  moreover have "xor_sum xs = xor_sum (take i xs) XOR xs ! i XOR xor_sum (drop (Suc i) xs)"
    by (subst id_take_nth_drop [OF assms(1)]) (simp only: mid)
  ultimately show ?thesis using assms(2) xor_cancel by metis
qed

lemma update_message:
  assumes "message_wf m" "payload_start m \<le> i" "i < length (message_bytes m)"
  obtains m' where "message_wf m'" "message_bytes m' = (message_bytes m)[i := x]"
proof (cases m)
  case Heartbeat
  with assms show ?thesis by (simp add: payload_start_def)
next
  case (Status e)
  with assms that [of "Status x"] show ?thesis by (auto simp: payload_start_def less_Suc_eq)
next
  case (BaudRate b)
  define d where "d = (le_bytes 4 b)[i - 1 := x]"
  have "message_bytes (BaudRate (of_le_bytes d)) = 3 # d"
    using le_bytes_of_le_bytes [of d, where 'a = 32] by (simp add: d_def)
  with BaudRate assms that [of "BaudRate (of_le_bytes d)"] show ?thesis by (cases i) (auto simp: payload_start_def d_def)
next
  case (Control e)
  with assms that [of "Control x"] show ?thesis by (auto simp: payload_start_def less_Suc_eq)
next
  case (Data d)
  with assms that [of "Data (d[i - 2 := x])"] show ?thesis
    by (cases i; cases "i - 1") (auto simp: payload_start_def)
qed

text \<open>C21: a frame in which one byte (not its type and not the size of its data) arrives wrong is not
  accepted: the checksum byte tells.\<close>

theorem expansion_corruption_detected:
  assumes "message_wf m" "payload_start m \<le> i" "i < length (wire m)" "x \<noteq> wire m ! i"
    and "length memory = sizeof_ExpansionFrame" "thread_flags w = 0" "rx_buf w @ coming (script w) = (wire m)[i := x] @ rest"
  shows "\<exists>frame' w'. expansion_protocol_decode expansion_worker_receive_callback memory w
      = Some (ExpansionProtocolStatusErrorChecksum, frame', w')"
proof -
  have l: "length memory = 66" using assms by (simp add: sizeof_ExpansionFrame_def EXPANSION_PROTOCOL_MAX_DATA_SIZE_def)
  have "\<exists>m' y. message_wf m' \<and> (wire m)[i := x] = message_bytes m' @ [y] \<and> y \<noteq> xor_sum (message_bytes m')"
  proof (cases "i < length (message_bytes m)")
    case True
    from update_message [OF assms(1,2) True] obtain m' where m': "message_wf m'" "message_bytes m' = (message_bytes m)[i := x]" .
    have "xor_sum (message_bytes m') \<noteq> xor_sum (message_bytes m)"
      unfolding m'(2) by (rule xor_sum_update) (use True assms(4) in \<open>simp_all add: wire_def nth_append\<close>)
    with m' True show ?thesis by (intro exI [of _ m']) (auto simp: wire_def list_update_append)
  next
    case False
    with assms(3,4) have "(wire m)[i := x] = message_bytes m @ [x]" "x \<noteq> xor_sum (message_bytes m)"
      by (auto simp: wire_def less_Suc_eq list_update_append)
    with assms(1) show ?thesis by blast
  qed
  then obtain m' y where m': "message_wf m'" "(wire m)[i := x] = message_bytes m' @ [y]" "y \<noteq> xor_sum (message_bytes m')" by blast
  have "ready w (message_bytes m' @ y # rest)" using assms(6,7) m'(2) by (auto simp: ready_def)
  from serial_live.decode_ready [OF l m'(1) this] m'(3) show ?thesis by auto
qed

theorem expansion_corruption_detected_witness:
  "\<exists>frame' w'. expansion_protocol_decode expansion_worker_receive_callback (replicate 66 0)
      (idle_worker\<lparr>rx_buf := [2, 3, 5], thread_flags := 0, script := []\<rparr>) = Some (ExpansionProtocolStatusErrorChecksum, frame', w')"
proof -
  have w: "wire (Status 7) = [2, 7, 5]" by (simp add: wire_def xor_sum_def)
  show ?thesis
    using expansion_corruption_detected [of "Status 7" 1 3 "replicate 66 0" "idle_worker\<lparr>rx_buf := [2, 3, 5], thread_flags := 0, script := []\<rparr>" "[]"]
    by (simp add: w sizeof_ExpansionFrame_def EXPANSION_PROTOCOL_MAX_DATA_SIZE_def payload_start_def)
qed

section \<open>The thread\<close>

definition count_act :: "WorkerAction \<Rightarrow> ExpansionWorker \<Rightarrow> nat" where
  "count_act a w = length (filter (\<lambda>b. b = a) (trace w))"

definition is_set_baud :: "WorkerAction \<Rightarrow> bool" where
  "is_set_baud a = (case a of SetBaud _ \<Rightarrow> True | _ \<Rightarrow> False)"

text \<open>The account of the session: records and sessions opened and closed, and the pointers.\<close>

definition account :: "ExpansionWorker \<Rightarrow> bool" where
  "account w \<longleftrightarrow>
     count_act RpcRecordOpen w = count_act RpcRecordClose w + of_bool (worker_state w = ExpansionWorkerStateRpcActive) \<and>
     count_act RpcSessionOpen w = count_act RpcSessionClose w
        + of_bool (worker_state w = ExpansionWorkerStateRpcActive \<and> rpc_session w = Live ()) \<and>
     count_act CallbackConnected w = of_bool (worker_state w \<noteq> ExpansionWorkerStateHandShake) \<and>
     (worker_state w = ExpansionWorkerStateRpcActive \<longrightarrow>
        rpc_session w = Null \<or> rpc_session w = Live () \<and> (\<exists>n\<le>1. tx_semaphore w = Live n)) \<and>
     count_act CallbackExit w = 0 \<and> length (filter is_set_baud (trace w)) \<le> 1"

definition serving :: "ExpansionWorker \<Rightarrow> bool" where
  "serving w \<longleftrightarrow> account w \<and> has_callback w \<and> (worker_state w = ExpansionWorkerStateRpcActive \<longrightarrow> rpc_session w = Live ())
     \<and> length (filter is_set_baud (trace w)) = of_bool (worker_state w \<noteq> ExpansionWorkerStateHandShake)"

lemmas account_simps = account_def serving_def count_act_def is_set_baud_def

definition handled_ok :: "(bool \<times> ExpansionWorker) option \<Rightarrow> bool" where
  "handled_ok r \<longleftrightarrow> (\<exists>ok w'. r = Some (ok, w') \<and> account w' \<and> has_callback w' \<and> (ok \<longrightarrow> serving w'))"

lemma handled_ok_Some: "handled_ok (Some (ok, w')) \<longleftrightarrow> account w' \<and> has_callback w' \<and> (ok \<longrightarrow> serving w')"
  by (auto simp: handled_ok_def)

lemma count_act_simps [simp]:
  "count_act a (act b w) = count_act a w + of_bool (a = b)"
  "count_act a (tx m w) = count_act a w" if "\<And>bs. a \<noteq> Tx bs"
  using that by (auto simp: count_act_def)

lemma count_act_update [simp]:
  "count_act a (w\<lparr>worker_state := x\<rparr>) = count_act a w" "count_act a (w\<lparr>rpc_session := p\<rparr>) = count_act a w"
  "count_act a (w\<lparr>tx_semaphore := q\<rparr>) = count_act a w" "count_act a (w\<lparr>exit_reason := r\<rparr>) = count_act a w"
  by (simp_all add: count_act_def)

lemma account_tx [simp]: "account (tx m w) = account w" "serving (tx m w) = serving w"
  by (simp_all add: account_def serving_def is_set_baud_def)

lemma handshake_ok:
  assumes "serving w" "worker_state w = ExpansionWorkerStateHandShake" "length frame = 66"
  shows "handled_ok (expansion_worker_handle_state_handshake env frame w)"
  using assms
  by (auto simp: expansion_worker_handle_state_handshake_def header_type_def content_baud_rate_baud_def rd_Some
      send_status handled_ok_Some account_def serving_def is_set_baud_def)

lemma connected_ok:
  assumes "serving w" "worker_state w = ExpansionWorkerStateConnected" "length frame = 66"
  shows "handled_ok (expansion_worker_handle_state_connected env frame w)"
  using assms
  by (auto simp: expansion_worker_handle_state_connected_def session_defs header_type_def
      content_control_command_def rd_Some send_status send_heartbeat handled_ok_Some account_def serving_def is_set_baud_def Let_def)

lemma rpc_active_ok:
  assumes "serving w" "worker_state w = ExpansionWorkerStateRpcActive" "length frame = 66" "frame_message frame \<noteq> None"
  shows "handled_ok (expansion_worker_handle_state_rpc_active env frame w)"
proof -
  from assms obtain n where n: "tx_semaphore w = Live n" "n \<le> 1" "rpc_session w = Live ()" by (auto simp: serving_def account_def)
  have sz: "unat (frame ! 1) \<le> 64" if "frame ! 0 = 5" using assms(4) that by (auto simp: frame_message_def split: if_splits)
  show ?thesis
    using assms(1,2,3) n sz
    by (auto simp: expansion_worker_handle_state_rpc_active_def session_defs
        header_type_def content_control_command_def content_data_size_def content_status_error_def rd_Some send_status
        send_heartbeat handled_ok_Some account_def serving_def is_set_baud_def Let_def)
qed

lemma handler_serving:
  assumes "serving w" "length frame = 66" "frame_message frame \<noteq> None"
  shows "handled_ok (expansion_handlers (worker_state w) env frame w)"
  using handshake_ok [OF assms(1)] connected_ok [OF assms(1)] rpc_active_ok [OF assms(1)] assms(2,3)
  by (cases "worker_state w") (simp_all add: expansion_handlers_def)

lemma received_account: "received w w' \<Longrightarrow> account w' = account w" "received w w' \<Longrightarrow> serving w' = serving w"
  by (simp_all add: received_def account_def serving_def count_act_def)

lemma machine_run:
  assumes step: "\<And>w w' frame' ok. P w \<Longrightarrow> received w w' \<Longrightarrow> length frame' = 66 \<Longrightarrow>
      (ok \<longrightarrow> frame_message frame' \<noteq> None) \<Longrightarrow>
      Q w' \<and> (ok \<longrightarrow> (\<exists>h w''. expansion_handlers (worker_state w') env frame' w' = Some (h, w'') \<and> Q w'' \<and> (h \<longrightarrow> P w'')))"
  shows "P w \<Longrightarrow> length frame = 66 \<Longrightarrow> \<exists>w'. expansion_worker_state_machine env frame w = Some w' \<and> Q w'"
proof (induction "pending_bytes w" arbitrary: w frame rule: less_induct)
  case less
  obtain st f w1 bs where rf: "expansion_worker_receive_frame frame w = Some (st = ExpansionProtocolStatusOk, f, w1)"
    and f: "length f = 66" "decoded bs st f" "received w w1"
    by (rule receive_frame_spec [OF less.prems(2)])
  have "st = ExpansionProtocolStatusOk \<longrightarrow> frame_message f \<noteq> None" using f(2) by (auto simp: decoded_def)
  note st = step [OF less.prems(1) f(3,1) this]
  show ?case
  proof (cases "st = ExpansionProtocolStatusOk")
    case False
    with rf st show ?thesis by (subst expansion_worker_state_machine.simps) simp
  next
    case True
    with st obtain h w2 where h: "expansion_handlers (worker_state w1) env f w1 = Some (h, w2)" "Q w2" "h \<longrightarrow> P w2" by blast
    show ?thesis
    proof (cases h)
      case False
      with rf True h show ?thesis by (subst expansion_worker_state_machine.simps) simp
    next
      case hd: True
      have "pending_bytes w1 < pending_bytes w" using rf True by (auto intro: receive_frame_progress)
      moreover have "pending_bytes w2 = pending_bytes w1" using handler_frame [OF h(1)] by (simp add: pending_bytes_def)
      ultimately have "\<exists>w'. expansion_worker_state_machine env f w2 = Some w' \<and> Q w'"
        using less.hyps [of w2 f] h hd f(1) by auto
      with rf True h hd show ?thesis by (subst expansion_worker_state_machine.simps) simp
    qed
  qed
qed

lemma state_machine_account:
  assumes "serving w" "length frame = 66"
  shows "\<exists>w'. expansion_worker_state_machine env frame w = Some w' \<and> account w' \<and> has_callback w'"
proof (rule machine_run [where P = serving and Q = "\<lambda>w. account w \<and> has_callback w", OF _ assms])
  fix w w' frame' ok
  assume p: "serving w" "received w w'" "length frame' = 66" "ok \<longrightarrow> frame_message frame' \<noteq> None"
  have s: "serving w'" using received_account(2) [OF p(2)] p(1) by simp
  then have "account w' \<and> has_callback w'" by (simp add: serving_def)
  moreover have "ok \<longrightarrow> handled_ok (expansion_handlers (worker_state w') env frame' w')"
    using handler_serving [OF s p(3)] p(4) by simp
  ultimately show "(account w' \<and> has_callback w') \<and> (ok \<longrightarrow> (\<exists>h w''. expansion_handlers (worker_state w') env frame' w' = Some (h, w'')
      \<and> (account w'' \<and> has_callback w'') \<and> (h \<longrightarrow> serving w'')))"
    unfolding handled_ok_def by blast
qed

text \<open>C18: whatever the line, the RPC service and the other threads do, the thread ends without touching
  a freed session or a missing semaphore; it reports the connection and changes the baud rate at most
  once, every RPC record and session it opened is closed, and it reports its end exactly when the
  user did not ask for it.\<close>

theorem expansion_worker_balanced:
  assumes "length frame = sizeof_ExpansionFrame" "serial_available env" "has_callback w" "trace w = []"
  shows "\<exists>w'. expansion_worker env frame w = Some w' \<and>
     count_act RpcRecordOpen w' = count_act RpcRecordClose w' \<and> count_act RpcSessionOpen w' = count_act RpcSessionClose w' \<and>
     count_act CallbackConnected w' \<le> 1 \<and> length (filter is_set_baud (trace w')) \<le> 1 \<and>
     count_act CallbackExit w' = of_bool (exit_reason w' \<noteq> ExpansionWorkerExitReasonUser)"
proof -
  define w1 where "w1 = tx Heartbeat (act SerialRxStart (act (SerialInit EXPANSION_PROTOCOL_DEFAULT_BAUD_RATE)
     ((act SerialAcquire (act InsomniaEnter w))\<lparr>worker_state := ExpansionWorkerStateHandShake,
        exit_reason := ExpansionWorkerExitReasonUnknown\<rparr>)))"
  have l: "length frame = 66" using assms by (simp add: sizeof_ExpansionFrame_def EXPANSION_PROTOCOL_MAX_DATA_SIZE_def)
  have "serving w1" using assms(3,4) by (simp add: w1_def account_simps)
  from state_machine_account [OF this l, of env] obtain w2 where
    m: "expansion_worker_state_machine env frame w1 = Some w2" "account w2" "has_callback w2" by blast
  have "\<exists>w3. (if worker_state w2 = ExpansionWorkerStateRpcActive then expansion_worker_rpc_session_close w2 else Some w2) = Some w3 \<and>
    has_callback w3 \<and> count_act RpcRecordOpen w3 = count_act RpcRecordClose w3 \<and> count_act RpcSessionOpen w3 = count_act RpcSessionClose w3 \<and>
    count_act CallbackConnected w3 \<le> 1 \<and> length (filter is_set_baud (trace w3)) \<le> 1 \<and> count_act CallbackExit w3 = 0"
  proof (cases "worker_state w2 = ExpansionWorkerStateRpcActive")
    case True
    with m(2,3) show ?thesis by (auto simp: account_def session_defs is_set_baud_def)
  next
    case False
    with m(2,3) show ?thesis by (simp add: account_def)
  qed
  then obtain w3 where c: "(if worker_state w2 = ExpansionWorkerStateRpcActive then expansion_worker_rpc_session_close w2 else Some w2) = Some w3"
    "has_callback w3" "count_act RpcRecordOpen w3 = count_act RpcRecordClose w3" "count_act RpcSessionOpen w3 = count_act RpcSessionClose w3"
    "count_act CallbackConnected w3 \<le> 1" "length (filter is_set_baud (trace w3)) \<le> 1" "count_act CallbackExit w3 = 0" by blast
  have "expansion_worker env frame w = Some (if exit_reason w3 \<noteq> ExpansionWorkerExitReasonUser
      then act CallbackExit (act InsomniaExit (act SerialRelease w3)) else act InsomniaExit (act SerialRelease w3))"
    using m(1) c(1,2) assms(2) by (simp add: expansion_worker_def send_heartbeat w1_def Let_def)
  with c show ?thesis by (simp add: is_set_baud_def)
qed

theorem expansion_worker_balanced_witness:
  "\<exists>w'. expansion_worker \<lparr>serial_available = True, baud_rate_supported = (\<lambda>_. True), rpc_opens = (\<lambda>_. True),
       rpc_consumes = (\<lambda>_ bs. length bs)\<rparr> (replicate sizeof_ExpansionFrame 0)
       (idle_worker\<lparr>script := [[SerialRx 1 [3, 0, 0x96, 0, 0, 0x95]], [SerialRx 1 [4, 0, 4]]]\<rparr>) = Some w' \<and>
     count_act RpcRecordOpen w' = count_act RpcRecordClose w' \<and> count_act RpcSessionOpen w' = count_act RpcSessionClose w' \<and>
     count_act CallbackConnected w' \<le> 1 \<and> length (filter is_set_baud (trace w')) \<le> 1 \<and>
     count_act CallbackExit w' = of_bool (exit_reason w' \<noteq> ExpansionWorkerExitReasonUser)"
  by (rule expansion_worker_balanced) (simp_all add: idle_worker_def)

text \<open>An error flag alone does not wake the worker: \<open>EXPANSION_ALL_FLAGS\<close> leaves it out. An error on a line
  that then stays silent is thus taken for a timeout.\<close>

lemma line_error_is_timeout:
  assumes "rx_buf w = []" "thread_flags w = 0" "script w = [[SerialRx FuriHalSerialRxEventFrameError bs]]" "0 < n"
  shows "exit_reason (snd (expansion_worker_receive_callback n w)) = ExpansionWorkerExitReasonTimeout"
proof -
  have "line_event (SerialRx FuriHalSerialRxEventFrameError bs) v = v\<lparr>thread_flags := thread_flags v OR ExpansionWorkerFlagError\<rparr>" for v
    by (simp add: line_event_def expansion_worker_serial_rx_callback_def furi_thread_flags_set_def
        FuriHalSerialRxEventFrameError_def FuriHalSerialRxEventNoiseError_def FuriHalSerialRxEventOverrunError_def)
  moreover have "ExpansionWorkerFlagError AND EXPANSION_ALL_FLAGS = 0"
    by (simp add: ExpansionWorkerFlagError_def EXPANSION_ALL_FLAGS_def ExpansionWorkerFlagData_def ExpansionWorkerFlagStop_def)
  ultimately show ?thesis
    using assms timeout_is_error
    by (simp add: expansion_worker_receive_callback_def receive_loop.simps Let_def)
qed

end
