(* ===== verification/ExpansionSystem.thy ===== *)
theory ExpansionSystem
  imports ExpansionWorker
begin

text \<open>
  The worker of the expansion service (\<open>src/applications/services/expansion/expansion_worker.c\<close>) together with the
  threads of the RPC sessions it opens (\<open>src/applications/services/rpc/rpc.c\<close>), which run its send callback. The
  step relation interleaves the two sides call by call; the theorem at the end is about every interleaving.
\<close>

section \<open>The sessions\<close>

text \<open>
  What a session shares with the worker: \<open>callbacks_mutex\<close> tells whether the session's own thread holds the mutex,
  \<open>send_bytes_callback\<close> whether the callback is set, and \<open>sending\<close> is the call of
  \<open>expansion_worker_rpc_send_callback\<close> that the thread is in: its data and the variable \<open>sent_data_size\<close>.
  A setter of \<open>rpc.c\<close> takes the mutex, writes and releases it, all in one step, which waits while the session holds it.
\<close>

record RpcSession =
  callbacks_mutex :: bool
  send_bytes_callback :: bool
  sending :: "(u8 list \<times> nat) option"

definition new_session :: RpcSession where
  "new_session = \<lparr>callbacks_mutex = False, send_bytes_callback = False, sending = None\<rparr>"

definition rpc_session_set_send_bytes_callback :: "bool \<Rightarrow> RpcSession \<Rightarrow> RpcSession option" where
  "rpc_session_set_send_bytes_callback callback session =
     (if callbacks_mutex session then None else Some (session\<lparr>send_bytes_callback := callback\<rparr>))"

text \<open>The end of \<open>rpc_send\<close>: with the mutex held the callback is called if there is one; when it returns the mutex is released.\<close>

definition rpc_send_begin :: "u8 list \<Rightarrow> RpcSession \<Rightarrow> RpcSession" where
  "rpc_send_begin data session =
     (if send_bytes_callback session then session\<lparr>callbacks_mutex := True, sending := Some (data, 0)\<rparr> else session)"

definition rpc_send_end :: "RpcSession \<Rightarrow> RpcSession" where
  "rpc_send_end session = session\<lparr>callbacks_mutex := False, sending := None\<rparr>"

section \<open>The two sides together\<close>

text \<open>
  Where the worker is in its code: receiving a frame, about to handle it, or between two calls of
  \<open>expansion_worker_rpc_session_open\<close> or \<open>expansion_worker_rpc_session_close\<close>, which the handlers of the control frames
  and the end of the thread run; then the reply. All other frames are handled in one step. A session is never forgotten: its
  thread may go on after the worker has closed it. \<open>mark\<close> and \<open>start\<close> only record history: the number of data
  frames on the line when the semaphore was made or the last acknowledgement was handled, and the data on the
  line before the current call of the callback.
\<close>

datatype WorkerPoint =
    Receiving | Handling | Reply | Stopping | Ended
  | OpenSession | AllocSemaphore | SetContext | SetCallback
  | ClearCallback | Disconnect | FreeSemaphore | CloseRecord

record System =
  worker :: ExpansionWorker
  frame :: ExpansionFrame
  point :: WorkerPoint
  sessions :: "RpcSession list"
  mark :: nat
  start :: "u8 list"

fun data_bytes :: "WorkerAction \<Rightarrow> u8 list option" where
  "data_bytes (Tx (t # sz # d)) = (if t = 5 then Some d else None)"
| "data_bytes _ = None"

definition sent_data :: "ExpansionWorker \<Rightarrow> u8 list list" where
  "sent_data w = List.map_filter data_bytes (trace w)"

definition control_frame :: "ExpansionFrameControlCommand \<Rightarrow> System \<Rightarrow> bool" where
  "control_frame command s \<longleftrightarrow> header_type (frame s) = Some (frame_type_code ExpansionFrameTypeControl)
     \<and> content_control_command (frame s) = Some (frame_command_code command)"

definition opens_session :: "System \<Rightarrow> bool" where
  "opens_session s \<longleftrightarrow> worker_state (worker s) = ExpansionWorkerStateConnected \<and> control_frame ExpansionFrameControlCommandStartRpc s"

definition closes_session :: "System \<Rightarrow> bool" where
  "closes_session s \<longleftrightarrow> worker_state (worker s) = ExpansionWorkerStateRpcActive \<and> control_frame ExpansionFrameControlCommandStopRpc s"

definition acknowledges :: "System \<Rightarrow> bool" where
  "acknowledges s \<longleftrightarrow> worker_state (worker s) = ExpansionWorkerStateRpcActive
     \<and> header_type (frame s) = Some (frame_type_code ExpansionFrameTypeStatus)"

text \<open>The first call of \<open>expansion_worker_rpc_session_close\<close>.\<close>

definition close_point :: "ExpansionWorker \<Rightarrow> WorkerPoint" where
  "close_point w = (if rpc_session w \<noteq> Null then ClearCallback else CloseRecord)"

definition done_point :: "bool \<Rightarrow> WorkerPoint" where
  "done_point ok = (if ok then Receiving else Stopping)"

definition set_last_callback :: "bool \<Rightarrow> System \<Rightarrow> RpcSession list option" where
  "set_last_callback callback s = (if sessions s = [] then None else do {
     session \<leftarrow> rpc_session_set_send_bytes_callback callback (last (sessions s));
     Some ((sessions s)[length (sessions s) - 1 := session]) })"

inductive worker_step :: "Environment \<Rightarrow> System \<Rightarrow> System \<Rightarrow> bool" for env :: Environment where
  receive: "worker_step env s (s\<lparr>worker := w, frame := f, point := (if ok then Handling else Stopping)\<rparr>)"
    if "point s = Receiving" "expansion_worker_receive_frame (frame s) (worker s) = Some (ok, f, w)"
| handle: "worker_step env s (s\<lparr>worker := w, point := done_point ok,
      mark := (if acknowledges s \<and> ok then length (sent_data w) else mark s)\<rparr>)"
    if "point s = Handling" "\<not> opens_session s" "\<not> closes_session s"
      "expansion_handlers (worker_state (worker s)) env (frame s) (worker s) = Some (ok, w)"
| open_record: "worker_step env s (s\<lparr>worker := act RpcRecordOpen ((worker s)\<lparr>worker_state := ExpansionWorkerStateRpcActive\<rparr>),
      point := OpenSession\<rparr>)"
    if "point s = Handling" "opens_session s"
| open_session: "worker_step env s (s\<lparr>worker := w,
      sessions := (if rpc_session w \<noteq> Null then sessions s @ [new_session] else sessions s),
      point := (if rpc_session w \<noteq> Null then AllocSemaphore else Stopping)\<rparr>)"
    if "point s = OpenSession" "w = open_session env (worker s)"
| alloc_semaphore: "worker_step env s (s\<lparr>worker := furi_semaphore_alloc (worker s), mark := length (sent_data (worker s)),
      point := SetContext\<rparr>)"
    if "point s = AllocSemaphore"
| set_context: "worker_step env s (s\<lparr>worker := w, point := SetCallback\<rparr>)"
    if "point s = SetContext" "set_session_context (worker s) = Some w" "\<not> callbacks_mutex (last (sessions s))"
| set_callback: "worker_step env s (s\<lparr>worker := w, sessions := ss, point := Reply\<rparr>)"
    if "point s = SetCallback" "set_session_send_callback True (worker s) = Some w" "set_last_callback True s = Some ss"
| reply: "worker_step env s (s\<lparr>worker := w, point := done_point ok\<rparr>)"
    if "point s = Reply" "expansion_worker_send_status_response ExpansionFrameErrorNone (worker s) = Some (ok, w)"
| close: "worker_step env s (s\<lparr>worker := (worker s)\<lparr>worker_state := ExpansionWorkerStateConnected\<rparr>, point := close_point (worker s)\<rparr>)"
    if "point s = Handling" "closes_session s"
| stop: "worker_step env s (s\<lparr>point := (if worker_state (worker s) = ExpansionWorkerStateRpcActive then close_point (worker s) else Ended)\<rparr>)"
    if "point s = Stopping"
| clear_callback: "worker_step env s (s\<lparr>worker := w, sessions := ss, point := Disconnect\<rparr>)"
    if "point s = ClearCallback" "set_session_send_callback False (worker s) = Some w" "set_last_callback False s = Some ss"
| disconnect: "worker_step env s (s\<lparr>worker := w, point := FreeSemaphore\<rparr>)"
    if "point s = Disconnect" "disconnect_session (worker s) = Some w"
| free_semaphore: "worker_step env s (s\<lparr>worker := w, point := CloseRecord\<rparr>)"
    if "point s = FreeSemaphore" "furi_semaphore_free (worker s) = Some w"
| close_record: "worker_step env s (s\<lparr>worker := act RpcRecordClose (worker s),
      point := (if worker_state (worker s) = ExpansionWorkerStateRpcActive then Ended else Reply)\<rparr>)"
    if "point s = CloseRecord"

text \<open>
  The thread of session \<open>i\<close>: it sends whenever it has something to say, whether or not the worker still knows it; a turn of
  the callback waits for the semaphore and sends a frame, or gives up.
\<close>

inductive session_step :: "nat \<Rightarrow> System \<Rightarrow> System \<Rightarrow> bool" for i :: nat where
  send: "session_step i s (s\<lparr>sessions := (sessions s)[i := rpc_send_begin data (sessions s ! i)],
      start := (if send_bytes_callback (sessions s ! i) then concat (sent_data (worker s)) else start s)\<rparr>)"
    if "i < length (sessions s)" "\<not> callbacks_mutex (sessions s ! i)"
| turn: "session_step i s (s\<lparr>worker := w, sessions := (sessions s)[i := (case r of
        None \<Rightarrow> rpc_send_end (sessions s ! i) | Some k' \<Rightarrow> (sessions s ! i)\<lparr>sending := Some (data, k')\<rparr>)]\<rparr>)"
    if "i < length (sessions s)" "sending (sessions s ! i) = Some (data, k)" "k < length data"
      "acquired \<longrightarrow> (\<exists>n. tx_semaphore (worker s) = Live (Suc n))" "rpc_send_turn acquired data k (worker s) = Some (r, w)"
| return: "session_step i s (s\<lparr>sessions := (sessions s)[i := rpc_send_end (sessions s ! i)]\<rparr>)"
    if "i < length (sessions s)" "sending (sessions s ! i) = Some (data, k)" "length data \<le> k"

inductive system_reachable :: "Environment \<Rightarrow> System \<Rightarrow> bool" for env :: Environment where
  initial: "system_reachable env \<lparr>worker = w, frame = f, point = Receiving, sessions = [], mark = 0, start = []\<rparr>"
    if "worker_state w = ExpansionWorkerStateHandShake" "rpc_session w \<noteq> Live ()" "tx_semaphore w = Null" "has_callback w"
      "sent_data w = []" "length f = sizeof_ExpansionFrame"
| worker: "system_reachable env s'" if "system_reachable env s" "worker_step env s s'"
| session: "system_reachable env s'" if "system_reachable env s" "session_step i s s'"

text \<open>The steps of opening and closing, run without a break, are the functions of the worker.\<close>

lemma open_steps:
  "expansion_worker_rpc_session_open env w = do {
     let w = open_session env (act RpcRecordOpen w);
     (if rpc_session w \<noteq> Null then do {
        w \<leftarrow> set_session_context (furi_semaphore_alloc w);
        w \<leftarrow> set_session_send_callback True w;
        Some (True, w) }
      else Some (False, w)) }"
  by (auto simp: expansion_worker_rpc_session_open_def session_call_defs Let_def act_def furi_check_def)

lemma close_steps:
  "expansion_worker_rpc_session_close w = (if close_point w = CloseRecord then Some (act RpcRecordClose w) else do {
     w \<leftarrow> set_session_send_callback False w;
     w \<leftarrow> disconnect_session w;
     w \<leftarrow> furi_semaphore_free w;
     Some (act RpcRecordClose w) })"
  by (simp add: expansion_worker_rpc_session_close_def rpc_session_close_def close_point_def)


section \<open>The invariant\<close>

definition session_live :: "ExpansionWorker \<Rightarrow> bool" where
  "session_live w \<longleftrightarrow> rpc_session w = Live () \<and> (\<exists>n. tx_semaphore w = Live n)"

fun point_ok :: "WorkerPoint \<Rightarrow> ExpansionWorker \<Rightarrow> bool" where
  "point_ok OpenSession w \<longleftrightarrow> worker_state w = ExpansionWorkerStateRpcActive \<and> rpc_session w \<noteq> Live ()"
| "point_ok AllocSemaphore w \<longleftrightarrow> worker_state w = ExpansionWorkerStateRpcActive \<and> rpc_session w = Live ()"
| "point_ok SetContext w \<longleftrightarrow> worker_state w = ExpansionWorkerStateRpcActive \<and> session_live w"
| "point_ok SetCallback w \<longleftrightarrow> worker_state w = ExpansionWorkerStateRpcActive \<and> session_live w"
| "point_ok ClearCallback w \<longleftrightarrow> session_live w"
| "point_ok Disconnect w \<longleftrightarrow> session_live w"
| "point_ok FreeSemaphore w \<longleftrightarrow> rpc_session w \<noteq> Live () \<and> (\<exists>n. tx_semaphore w = Live n)"
| "point_ok CloseRecord w \<longleftrightarrow> rpc_session w \<noteq> Live ()"
| "point_ok Ended w \<longleftrightarrow> rpc_session w \<noteq> Live ()"
| "point_ok Stopping w \<longleftrightarrow> (if worker_state w = ExpansionWorkerStateRpcActive then session_live w \<or> rpc_session w = Null
     else rpc_session w \<noteq> Live ())"
| "point_ok _ w \<longleftrightarrow> (if worker_state w = ExpansionWorkerStateRpcActive then session_live w else rpc_session w \<noteq> Live ())"

text \<open>The points at which the callback may be set: after \<open>SetCallback\<close> and up to \<open>ClearCallback\<close>.\<close>

definition callback_points :: "WorkerPoint set" where
  "callback_points = {Receiving, Handling, Reply, Stopping, ClearCallback}"

definition session_ok :: "System \<Rightarrow> nat \<Rightarrow> bool" where
  "session_ok s i \<longleftrightarrow>
     (callbacks_mutex (sessions s ! i) \<longleftrightarrow> sending (sessions s ! i) \<noteq> None) \<and>
     (sending (sessions s ! i) \<noteq> None \<longrightarrow> send_bytes_callback (sessions s ! i)) \<and>
     (send_bytes_callback (sessions s ! i) \<longrightarrow> Suc i = length (sessions s) \<and> session_live (worker s) \<and> point s \<in> callback_points) \<and>
     (\<forall>data k. sending (sessions s ! i) = Some (data, k) \<longrightarrow> k \<le> length data \<and> concat (sent_data (worker s)) = start s @ take k data)"

definition flow_ok :: "System \<Rightarrow> bool" where
  "flow_ok s \<longleftrightarrow> length (sent_data (worker s)) \<le> mark s + 1 \<and>
     (\<forall>n. tx_semaphore (worker s) = Live n \<longrightarrow> n \<le> 1 \<and> length (sent_data (worker s)) + n \<le> mark s + 1)"

definition frame_ok :: "System \<Rightarrow> bool" where
  "frame_ok s \<longleftrightarrow> length (frame s) = 66 \<and> has_callback (worker s) \<and> (point s = Handling \<longrightarrow> frame_message (frame s) \<noteq> None)"

definition system_inv :: "System \<Rightarrow> bool" where
  "system_inv s \<longleftrightarrow> frame_ok s \<and> flow_ok s \<and> point_ok (point s) (worker s) \<and>
     (rpc_session (worker s) = Live () \<longrightarrow> sessions s \<noteq> []) \<and> (\<forall>i<length (sessions s). session_ok s i)"

lemma system_invD:
  assumes "system_inv s"
  shows "frame_ok s" "flow_ok s" "point_ok (point s) (worker s)" "rpc_session (worker s) = Live () \<Longrightarrow> sessions s \<noteq> []"
    "i < length (sessions s) \<Longrightarrow> session_ok s i"
  using assms by (simp_all add: system_inv_def)

lemmas inv_defs = system_inv_def session_ok_def flow_ok_def frame_ok_def session_live_def callback_points_def

lemma sent_data_simps [simp]:
  "sent_data (act a w) = sent_data w @ (case data_bytes a of Some d \<Rightarrow> [d] | None \<Rightarrow> [])"
  "sent_data (w\<lparr>worker_state := x\<rparr>) = sent_data w" "sent_data (w\<lparr>rpc_session := p\<rparr>) = sent_data w"
  "sent_data (w\<lparr>tx_semaphore := q\<rparr>) = sent_data w" "sent_data (w\<lparr>thread_flags := q1\<rparr>) = sent_data w"
  by (simp_all add: sent_data_def List.map_filter_def split: option.split)

lemma sent_data_tx [simp]:
  "sent_data (tx m w) = sent_data w @ (case m of Data d \<Rightarrow> [d] | _ \<Rightarrow> [])"
proof (cases m)
  case (BaudRate b)
  have "data_bytes (Tx (3 # le_bytes 4 b)) = None" by (cases "le_bytes 4 b") simp_all
  with BaudRate show ?thesis by (simp add: tx_def)
qed (simp_all add: tx_def)

lemma sent_data_received: "received w w' \<Longrightarrow> sent_data w' = sent_data w"
  by (simp add: received_def sent_data_def)

text \<open>A step of the worker that leaves the sessions alone and sends no data frame.\<close>

lemma inv_worker:
  assumes "system_inv s" "sent_data w = sent_data (worker s)" "has_callback w"
    and "length f = 66" "p = Handling \<longrightarrow> frame_message f \<noteq> None" "point_ok p w"
    and "rpc_session w = Live () \<longrightarrow> rpc_session (worker s) = Live ()"
    and "session_live (worker s) \<and> point s \<in> callback_points \<longrightarrow> session_live w \<and> p \<in> callback_points"
    and "\<forall>n. tx_semaphore w = Live n \<longrightarrow> n \<le> 1 \<and> length (sent_data w) + n \<le> m + 1" "length (sent_data w) \<le> m + 1"
  shows "system_inv (s\<lparr>worker := w, frame := f, point := p, mark := m\<rparr>)"
  using assms by (auto simp: inv_defs)

lemma inv_receive:
  assumes "system_inv s" "point s = Receiving" "expansion_worker_receive_frame (frame s) (worker s) = Some (ok, f, w)"
  shows "system_inv (s\<lparr>worker := w, frame := f, point := (if ok then Handling else Stopping)\<rparr>)"
proof -
  have "length (frame s) = 66" using assms(1) by (simp add: inv_defs)
  then obtain st f' w' bs where "expansion_worker_receive_frame (frame s) (worker s) = Some (st = ExpansionProtocolStatusOk, f', w')"
    "length f' = 66" "decoded bs st f'" "received (worker s) w'"
    using receive_frame_spec [of "frame s" "worker s"] by metis
  with assms(3) have f: "length f = 66" "ok \<longrightarrow> frame_message f \<noteq> None" and r: "received (worker s) w"
    by (auto simp: decoded_def)
  from r have "tx_semaphore w = tx_semaphore (worker s)" "rpc_session w = rpc_session (worker s)"
    "worker_state w = worker_state (worker s)" "has_callback w = has_callback (worker s)" by (simp_all add: received_def)
  with f assms(1,2) sent_data_received [OF r] show ?thesis by (auto simp: inv_defs split: if_splits)
qed

text \<open>The handlers other than opening and closing: no data frame, the session stays, and only an acknowledgement moves the semaphore.\<close>

definition handler_keeps :: "System \<Rightarrow> bool \<Rightarrow> ExpansionWorker \<Rightarrow> bool" where
  "handler_keeps s ok w \<longleftrightarrow>
     sent_data w = sent_data (worker s) \<and> has_callback w = has_callback (worker s) \<and> rpc_session w = rpc_session (worker s) \<and>
     (worker_state w = ExpansionWorkerStateRpcActive \<longleftrightarrow> worker_state (worker s) = ExpansionWorkerStateRpcActive) \<and>
     (if acknowledges s \<and> ok then \<exists>n. tx_semaphore (worker s) = Live n \<and> tx_semaphore w = Live (min 1 (n + 1))
      else tx_semaphore w = tx_semaphore (worker s))"

lemma rpc_active_keeps:
  assumes "expansion_worker_handle_state_rpc_active env (frame s) (worker s) = Some (ok, w)"
    and "worker_state (worker s) = ExpansionWorkerStateRpcActive" "\<not> closes_session s"
  shows "handler_keeps s ok w"
proof -
  from assms(1) obtain t where t: "header_type (frame s) = Some t"
    by (auto simp: expansion_worker_handle_state_rpc_active_def split: bind_splits)
  note defs = expansion_worker_handle_state_rpc_active_def send_status send_heartbeat handler_keeps_def acknowledges_def
  consider "t = 5" | "t = 4" | "t = 2" | "t \<notin> {2, 4, 5}" by blast
  then show ?thesis
  proof cases
    case 1
    with assms t show ?thesis by (auto simp: defs furi_check_def Let_def split: bind_splits if_splits)
  next
    case 2
    with assms t show ?thesis by (auto simp: defs closes_session_def control_frame_def split: bind_splits if_splits)
  next
    case 3
    with assms t show ?thesis by (auto simp: defs furi_semaphore_release_def split: bind_splits if_splits pointer.splits)
  next
    case 4
    with assms t show ?thesis by (auto simp: defs split: if_splits)
  qed
qed

lemma handler_keeps:
  assumes "expansion_handlers (worker_state (worker s)) env (frame s) (worker s) = Some (ok, w)"
    and "\<not> opens_session s" "\<not> closes_session s"
  shows "handler_keeps s ok w"
proof (cases "worker_state (worker s)")
  case ExpansionWorkerStateHandShake
  with assms(1) show ?thesis
    by (auto simp: expansion_handlers_def expansion_worker_handle_state_handshake_def send_status acknowledges_def handler_keeps_def
        split: bind_splits if_splits)
next
  case ExpansionWorkerStateConnected
  with assms(1,2) show ?thesis
    by (auto simp: expansion_handlers_def expansion_worker_handle_state_connected_def send_status send_heartbeat
        opens_session_def control_frame_def acknowledges_def handler_keeps_def split: bind_splits if_splits)
next
  case ExpansionWorkerStateRpcActive
  with assms(1,3) show ?thesis by (simp add: expansion_handlers_def rpc_active_keeps)
qed

lemma handler_effect:
  assumes "handler_keeps s ok w"
  shows "sent_data w = sent_data (worker s)" "has_callback w = has_callback (worker s)" "rpc_session w = rpc_session (worker s)"
    "worker_state w = ExpansionWorkerStateRpcActive \<longleftrightarrow> worker_state (worker s) = ExpansionWorkerStateRpcActive"
    "if acknowledges s \<and> ok then \<exists>n. tx_semaphore (worker s) = Live n \<and> tx_semaphore w = Live (min 1 (n + 1))
     else tx_semaphore w = tx_semaphore (worker s)"
  using assms unfolding handler_keeps_def by blast+

lemma inv_handle:
  assumes inv: "system_inv s" and p: "point s = Handling" "\<not> opens_session s" "\<not> closes_session s"
    and h: "expansion_handlers (worker_state (worker s)) env (frame s) (worker s) = Some (ok, w)"
  shows "system_inv (s\<lparr>worker := w, point := done_point ok, mark := (if acknowledges s \<and> ok then length (sent_data w) else mark s)\<rparr>)"
proof -
  note e = handler_effect [OF handler_keeps [OF h p(2,3)]]
  have live: "session_live w = session_live (worker s)" using e(3,5) by (auto simp: session_live_def split: if_splits)
  have "system_inv (s\<lparr>worker := w, frame := frame s, point := done_point ok,
     mark := (if acknowledges s \<and> ok then length (sent_data w) else mark s)\<rparr>)"
  proof (rule inv_worker [OF inv e(1)])
    show "point_ok (done_point ok) w"
      using system_invD(3) [OF inv] p(1) e(3,4) live by (auto simp: done_point_def)
    show "\<forall>n. tx_semaphore w = Live n \<longrightarrow> n \<le> 1 \<and> length (sent_data w) + n \<le> (if acknowledges s \<and> ok then length (sent_data w) else mark s) + 1"
      using e(1,5) system_invD(2) [OF inv] by (auto simp: flow_ok_def split: if_splits)
    show "length (sent_data w) \<le> (if acknowledges s \<and> ok then length (sent_data w) else mark s) + 1"
      using e(1) system_invD(2) [OF inv] by (auto simp: flow_ok_def)
  qed (use system_invD(1) [OF inv] e p live in \<open>auto simp: frame_ok_def done_point_def callback_points_def\<close>)
  then show ?thesis by simp
qed

text \<open>The calls of opening and closing.\<close>

lemma worker_step_inv:
  assumes "worker_step env s s'" "system_inv s"
  shows "system_inv s'"
  using assms
proof (cases rule: worker_step.cases)
  case (open_session w)
  with assms(2) show ?thesis
    by (auto simp: inv_defs open_session_def new_session_def nth_append less_Suc_eq)
next
  case (set_callback w ss)
  with assms(2) show ?thesis
    by (auto simp: inv_defs set_session_send_callback_def set_last_callback_def rpc_session_set_send_bytes_callback_def furi_check_def
        last_conv_nth nth_list_update split: bind_splits if_splits)
next
  case (clear_callback w ss)
  with assms(2) show ?thesis
    by (auto simp: inv_defs set_session_send_callback_def set_last_callback_def rpc_session_set_send_bytes_callback_def furi_check_def
        last_conv_nth nth_list_update split: bind_splits if_splits)
next
  case (disconnect w)
  with assms(2) show ?thesis
    by (auto simp: inv_defs disconnect_session_def furi_check_def split: bind_splits if_splits)
next
  case (free_semaphore w)
  with assms(2) show ?thesis
    by (auto simp: inv_defs furi_semaphore_free_def split: pointer.splits)
next
  case stop
  with assms(2) show ?thesis by (auto simp: inv_defs close_point_def)
next
  case close
  with assms(2) show ?thesis by (auto simp: inv_defs close_point_def closes_session_def)
next
  case (alloc_semaphore)
  with assms(2) show ?thesis by (auto simp: inv_defs furi_semaphore_alloc_def)
next
  case (reply w ok)
  with assms(2) show ?thesis by (auto simp: inv_defs send_status done_point_def)
next
  case (set_context w)
  with assms(2) show ?thesis by (auto simp: inv_defs set_session_context_def furi_check_def split: bind_splits if_splits)
next
  case close_record
  with assms(2) show ?thesis by (auto simp: inv_defs)
next
  case open_record
  with assms(2) show ?thesis by (auto simp: inv_defs opens_session_def)
qed (use assms(2) inv_receive inv_handle in blast)+


lemma point_ok_flags [simp]: "point_ok p (w\<lparr>thread_flags := x\<rparr>) = point_ok p w"
  by (cases p) (simp_all add: session_live_def)

lemma only_last:
  assumes "system_inv s" "i < length (sessions s)" "send_bytes_callback (sessions s ! i)" "j < length (sessions s)" "j \<noteq> i"
  shows "\<not> send_bytes_callback (sessions s ! j)" "sending (sessions s ! j) = None"
  using system_invD(5) [OF assms(1,2)] system_invD(5) [OF assms(1,4)] assms(3,5) by (auto simp: session_ok_def)

lemma inv_send:
  assumes inv: "system_inv s" and i: "i < length (sessions s)" "\<not> callbacks_mutex (sessions s ! i)"
  shows "system_inv (s\<lparr>sessions := (sessions s)[i := rpc_send_begin data (sessions s ! i)],
      start := (if send_bytes_callback (sessions s ! i) then concat (sent_data (worker s)) else start s)\<rparr>)"
proof (cases "send_bytes_callback (sessions s ! i)")
  case False
  with inv show ?thesis by (simp add: rpc_send_begin_def)
next
  case True
  have "session_ok (s\<lparr>sessions := (sessions s)[i := (sessions s ! i)\<lparr>callbacks_mutex := True, sending := Some (data, 0)\<rparr>],
      start := concat (sent_data (worker s))\<rparr>) j" if j: "j < length (sessions s)" for j
    using system_invD(5) [OF inv i(1)] system_invD(5) [OF inv j] only_last [OF inv i(1) True j] True i(1) j
    by (cases "j = i") (simp_all add: session_ok_def)
  with inv True i(1) show ?thesis by (auto simp: rpc_send_begin_def system_inv_def frame_ok_def flow_ok_def)
qed

lemma inv_end:
  assumes inv: "system_inv s" and i: "i < length (sessions s)"
  shows "system_inv (s\<lparr>sessions := (sessions s)[i := rpc_send_end (sessions s ! i)]\<rparr>)"
proof -
  have "session_ok (s\<lparr>sessions := (sessions s)[i := rpc_send_end (sessions s ! i)]\<rparr>) j" if j: "j < length (sessions s)" for j
    using system_invD(5) [OF inv j] i j by (cases "j = i") (simp_all add: session_ok_def rpc_send_end_def)
  with inv i show ?thesis by (auto simp: system_inv_def frame_ok_def flow_ok_def)
qed

lemma inv_turn:
  assumes inv: "system_inv s" and i: "i < length (sessions s)" "sending (sessions s ! i) = Some (data, k)" "k < length data"
    and a: "acquired \<longrightarrow> (\<exists>n. tx_semaphore (worker s) = Live (Suc n))"
    and r: "rpc_send_turn acquired data k (worker s) = Some (r, w)"
  shows "system_inv (s\<lparr>worker := w, sessions := (sessions s)[i := (case r of
     None \<Rightarrow> rpc_send_end (sessions s ! i) | Some k' \<Rightarrow> (sessions s ! i)\<lparr>sending := Some (data, k')\<rparr>)]\<rparr>)"
proof (cases acquired)
  case False
  with inv i r show ?thesis
    by (auto simp: rpc_send_turn_def furi_thread_flags_set_def inv_defs rpc_send_end_def nth_list_update split: pointer.splits)
next
  case True
  with a obtain n where n: "tx_semaphore (worker s) = Live (Suc n)" by blast
  define c where "c = min (length data - k) 64"
  have "expansion_worker_send_data_response (drop k data) c v = Some (True, tx (Data (take c (drop k data))) v)" for v
    by (rule send_data) (simp_all add: c_def)
  with r n True have rw: "r = Some (k + c)" "w = tx (Data (take c (drop k data))) ((worker s)\<lparr>tx_semaphore := Live n\<rparr>)"
    by (simp_all add: rpc_send_turn_def EXPANSION_PROTOCOL_MAX_DATA_SIZE_def c_def [symmetric] Let_def)
  have kc: "k + c \<le> length data" using i(3) by (simp add: c_def)
  have b: "n = 0" "length (sent_data (worker s)) + 1 \<le> mark s + 1" using system_invD(2) [OF inv] n by (auto simp: flow_ok_def)
  from system_invD(5) [OF inv i(1)] i(2) have so: "callbacks_mutex (sessions s ! i)" "send_bytes_callback (sessions s ! i)"
    "Suc i = length (sessions s)" "session_live (worker s)" "point s \<in> callback_points"
    "concat (sent_data (worker s)) = start s @ take k data" by (auto simp: session_ok_def)
  have wk: "frame_ok s" "point_ok (point s) w" "session_live w" using system_invD(1,3) [OF inv] so(4,5) rw
    by (auto simp: callback_points_def session_live_def split: if_splits)
  have "session_ok (s\<lparr>worker := w, sessions := (sessions s)[i := (sessions s ! i)\<lparr>sending := Some (data, k + c)\<rparr>]\<rparr>) j"
    if "j < length (sessions s)" for j
    using that so i(1) wk rw(2) kc system_invD(5) [OF inv that] only_last [OF inv i(1) so(2) that]
    by (cases "j = i") (auto simp: session_ok_def take_add)
  then show ?thesis using wk b i(1) so rw by (auto simp: system_inv_def frame_ok_def flow_ok_def)
qed

lemma session_step_inv:
  assumes "session_step i s s'" "system_inv s"
  shows "system_inv s'"
  using assms
proof (cases rule: session_step.cases)
qed (use assms(2) inv_turn inv_send inv_end in blast)+

lemma system_reachable_inv: "system_reachable env s \<Longrightarrow> system_inv s"
proof (induction rule: system_reachable.induct)
  case (initial w f)
  then show ?case by (simp add: inv_defs sizeof_ExpansionFrame_def EXPANSION_PROTOCOL_MAX_DATA_SIZE_def)
qed (auto intro: worker_step_inv session_step_inv)

section \<open>Progress\<close>

lemma handler_defined:
  assumes "length f = 66" "frame_message f \<noteq> None" "has_callback w"
    and "worker_state w = ExpansionWorkerStateRpcActive \<longrightarrow> session_live w"
  shows "expansion_handlers (worker_state w) env f w \<noteq> None"
proof -
  have sz: "unat (f ! 1) \<le> 64" if "f ! 0 = 5" using assms(2) that by (auto simp: frame_message_def split: if_splits)
  show ?thesis
    using assms(1,3,4) sz
    by (cases "worker_state w")
      (auto simp: handler_defs session_defs header_type_def content_baud_rate_baud_def content_control_command_def
        content_data_size_def content_status_error_def rd_Some send_status send_heartbeat Let_def session_live_def split: prod.splits)
qed

lemma mutex_free:
  assumes "system_inv s" "session_live (worker s)" "point s \<notin> callback_points"
  shows "sessions s \<noteq> []" "\<not> callbacks_mutex (last (sessions s))"
proof -
  show n: "sessions s \<noteq> []" using assms(1,2) by (simp add: system_inv_def session_live_def)
  then show "\<not> callbacks_mutex (last (sessions s))"
    using system_invD(5) [OF assms(1), of "length (sessions s) - 1"] assms(3) by (auto simp: session_ok_def last_conv_nth)
qed

lemma worker_progress:
  assumes inv: "system_inv s" and p: "point s \<noteq> Ended" "\<not> (point s = ClearCallback \<and> callbacks_mutex (last (sessions s)))"
  shows "\<exists>s'. worker_step env s s'"
proof (cases "point s")
  case Receiving
  have "length (frame s) = 66" using inv by (simp add: inv_defs)
  then obtain ok f w where "expansion_worker_receive_frame (frame s) (worker s) = Some (ok, f, w)"
    using receive_frame_spec [of "frame s" "worker s"] by metis
  from worker_step.receive [OF Receiving this] show ?thesis by blast
next
  case Handling
  have "expansion_handlers (worker_state (worker s)) env (frame s) (worker s) \<noteq> None"
    using inv Handling by (intro handler_defined) (auto simp: system_inv_def frame_ok_def)
  then show ?thesis
    using worker_step.handle [OF Handling] worker_step.open_record [OF Handling] worker_step.close [OF Handling] by fastforce
next
  case SetContext
  with mutex_free [OF inv] system_invD(3) [OF inv] show ?thesis
    using worker_step.set_context [OF SetContext] by (auto simp: callback_points_def set_session_context_def session_live_def furi_check_def)
next
  case SetCallback
  with mutex_free [OF inv] system_invD(3) [OF inv] show ?thesis
    using worker_step.set_callback [OF SetCallback]
    by (auto simp: callback_points_def set_session_send_callback_def set_last_callback_def rpc_session_set_send_bytes_callback_def
        session_live_def furi_check_def)
next
  case ClearCallback
  with system_invD(3,4) [OF inv] p(2) show ?thesis
    using worker_step.clear_callback [OF ClearCallback]
    by (auto simp: set_session_send_callback_def set_last_callback_def rpc_session_set_send_bytes_callback_def
        session_live_def furi_check_def)
next
  case Disconnect
  with system_invD(3) [OF inv] show ?thesis
    using worker_step.disconnect [OF Disconnect] by (auto simp: disconnect_session_def session_live_def furi_check_def)
next
  case FreeSemaphore
  with system_invD(3) [OF inv] show ?thesis
    using worker_step.free_semaphore [OF FreeSemaphore]
    by (cases "tx_semaphore (worker s)") (simp_all add: furi_semaphore_free_def, blast)
qed (use p(1) worker_step.reply [OF _ send_status] worker_step.stop worker_step.open_session [OF _ refl]
    worker_step.alloc_semaphore worker_step.close_record in blast)+

text \<open>A session in the middle of a call can go on, if only by giving up, so the mutex is not held for ever.\<close>

lemma session_progress:
  assumes inv: "system_inv s" and i: "i < length (sessions s)" "callbacks_mutex (sessions s ! i)"
  shows "\<exists>s'. session_step i s s'"
proof -
  from system_invD(5) [OF inv i(1)] i(2) obtain data k n where s: "sending (sessions s ! i) = Some (data, k)"
    "tx_semaphore (worker s) = Live n" by (auto simp: session_ok_def session_live_def)
  then have "rpc_send_turn False data k (worker s) \<noteq> None" by (simp add: rpc_send_turn_def)
  then show ?thesis
    using session_step.turn [OF i(1) s(1), of False] session_step.return [OF i(1) s(1)] by (cases "k < length data") auto
qed


section \<open>A run\<close>

text \<open>The baud rate is agreed on, a session is opened, and it sends one byte.\<close>

lemmas reach_worker = system_reachable.worker and reach_session = system_reachable.session

lemma run_receive:
  assumes "system_reachable env s" "point s = Receiving" "ready (worker s) (wire m @ zs)" "message_wf m"
  shows "\<exists>f w. system_reachable env (s\<lparr>worker := w, frame := f, point := Handling\<rparr>) \<and> frame_message f = Some m \<and> length f = 66 \<and>
     ready w zs \<and> received (worker s) w"
proof -
  have "length (frame s) = 66" using system_reachable_inv [OF assms(1)] by (simp add: inv_defs)
  from serial_live.decode_ready [OF this assms(4), of "worker s" "xor_sum (message_bytes m)" zs] assms(3)
  obtain f w where d: "expansion_protocol_decode expansion_worker_receive_callback (frame s) (worker s) = Some (ExpansionProtocolStatusOk, f, w)"
    "frame_message f = Some m" "length f = 66" "ready w zs" by (auto simp: wire_def)
  then have "expansion_worker_receive_frame (frame s) (worker s) = Some (True, f, w)"
    by (simp add: expansion_worker_receive_frame_def)
  from worker_step.receive [OF assms(2) this, of env] reach_worker [OF assms(1)] d decode_received [OF d(1)] show ?thesis by auto
qed

lemma ready_cong: "rx_buf w = rx_buf v \<Longrightarrow> script w = script v \<Longrightarrow> thread_flags w = thread_flags v \<Longrightarrow> ready w xs = ready v xs"
  by (simp add: ready_def)

text \<open>The worker opens the session call by call and replies.\<close>

lemma run_open:
  assumes "system_reachable env s" "point s = Handling" "opens_session s" "\<And>h. rpc_opens env h" "sessions s = []"
  shows "\<exists>w m. system_reachable env (s\<lparr>worker := w, sessions := [new_session\<lparr>send_bytes_callback := True\<rparr>], mark := m, point := Receiving\<rparr>) \<and>
     rpc_session w = Live () \<and> tx_semaphore w = Live 1"
proof -
  obtain w0 f p m st where s: "s = \<lparr>worker = w0, frame = f, point = p, sessions = [], mark = m, start = st\<rparr>"
    using assms(5) by (cases s) simp
  define w1 where "w1 = act RpcRecordOpen ((worker s)\<lparr>worker_state := ExpansionWorkerStateRpcActive\<rparr>)"
  define w2 where "w2 = act RpcSessionOpen (w1\<lparr>rpc_session := Live ()\<rparr>)"
  have o: "open_session env w1 = w2" "rpc_session w2 = Live ()" using assms(4) by (simp_all add: w2_def open_session_def)
  define w5 where "w5 = act (RpcSetSendCallback True) (act RpcSetContext (furi_semaphore_alloc w2))"
  note s1 = reach_worker [OF assms(1) worker_step.open_record [OF assms(2,3)]]
  from reach_worker [OF s1 worker_step.open_session [OF _ refl]] o assms(5)
  have s2: "system_reachable env (s\<lparr>worker := w2, sessions := [new_session], point := AllocSemaphore\<rparr>)" by (simp add: w1_def s)
  from reach_worker [OF s2 worker_step.alloc_semaphore]
  have s3: "system_reachable env (s\<lparr>worker := furi_semaphore_alloc w2, sessions := [new_session], mark := length (sent_data w2),
      point := SetContext\<rparr>)" by (simp add: s)
  from reach_worker [OF s3 worker_step.set_context] o(2)
  have s4: "system_reachable env (s\<lparr>worker := act RpcSetContext (furi_semaphore_alloc w2), sessions := [new_session],
      mark := length (sent_data w2), point := SetCallback\<rparr>)"
    by (simp add: set_session_context_def furi_semaphore_alloc_def new_session_def s)
  from reach_worker [OF s4 worker_step.set_callback] o(2)
  have s5: "system_reachable env (s\<lparr>worker := w5, sessions := [new_session\<lparr>send_bytes_callback := True\<rparr>],
      mark := length (sent_data w2), point := Reply\<rparr>)"
    by (simp add: set_session_send_callback_def set_last_callback_def rpc_session_set_send_bytes_callback_def
        furi_semaphore_alloc_def new_session_def s w5_def)
  from reach_worker [OF s5 worker_step.reply [OF _ send_status]]
  have "system_reachable env (s\<lparr>worker := tx (Status (frame_error_code ExpansionFrameErrorNone)) w5,
      sessions := [new_session\<lparr>send_bytes_callback := True\<rparr>], mark := length (sent_data w2), point := Receiving\<rparr>)"
    by (simp add: done_point_def s)
  moreover have "rpc_session w5 = Live ()" "tx_semaphore w5 = Live 1" by (simp_all add: w5_def w2_def furi_semaphore_alloc_def)
  ultimately show ?thesis by (intro exI conjI) (assumption | simp)+
qed

lemma run_session:
  assumes "baud_rate_supported env b" "\<And>h. rpc_opens env h"
    and "ready w (wire (BaudRate b) @ wire (Control 0))" "worker_state w = ExpansionWorkerStateHandShake"
    "rpc_session w = Null" "tx_semaphore w = Null" "has_callback w" "sent_data w = []"
  shows "\<exists>s. system_reachable env s \<and> point s = Receiving \<and> rpc_session (worker s) = Live () \<and> tx_semaphore (worker s) = Live 1 \<and>
     sessions s = [new_session\<lparr>send_bytes_callback := True\<rparr>]"
proof -
  let ?s = "\<lparr>worker = w, frame = replicate 66 0, point = Receiving, sessions = [], mark = 0, start = []\<rparr>"
  have "system_reachable env ?s"
    by (rule system_reachable.initial) (use assms in \<open>simp_all add: sizeof_ExpansionFrame_def EXPANSION_PROTOCOL_MAX_DATA_SIZE_def\<close>)
  from run_receive [OF this, of "BaudRate b" "wire (Control 0)"] assms(3) obtain f1 w1 where
    s1: "system_reachable env (?s\<lparr>worker := w1, frame := f1, point := Handling\<rparr>)" (is "system_reachable env ?t")
    "frame_message f1 = Some (BaudRate b)" "length f1 = 66" "ready w1 (wire (Control 0))" "received w w1" by auto
  have ws: "worker_state w1 = ExpansionWorkerStateHandShake" "has_callback w1" using s1(5) assms by (simp_all add: received_def)
  define w2 where "w2 = act (SetBaud b) (tx (Status 0) (act CallbackConnected (w1\<lparr>worker_state := ExpansionWorkerStateConnected\<rparr>)))"
  have "expansion_handlers (worker_state (worker ?t)) env (frame ?t) (worker ?t) = Some (True, w2)"
    using s1 ws assms(1) by (auto simp: expansion_handlers_def expansion_worker_handle_state_handshake_def header_type_def rd_def
        content_baud_rate_baud_def frame_message_def send_status w2_def split: if_splits)
  from reach_worker [OF s1(1) worker_step.handle [OF _ _ _ this]] ws
  have s2: "system_reachable env (?t\<lparr>worker := w2, point := Receiving\<rparr>)" (is "system_reachable env ?u")
    by (auto simp: opens_session_def closes_session_def acknowledges_def done_point_def)
  have "ready w2 (wire (Control 0) @ [])" using s1(4) ready_cong [of w2 w1] by (simp add: w2_def)
  from run_receive [OF s2, of "Control 0" "[]"] this obtain f3 w3 where
    s3: "system_reachable env (?u\<lparr>worker := w3, frame := f3, point := Handling\<rparr>)" "frame_message f3 = Some (Control 0)"
      "length f3 = 66" "received w2 w3" by auto
  have "worker_state w3 = ExpansionWorkerStateConnected" using s3(4) by (simp add: received_def w2_def)
  with s3(2,3) have "opens_session (?u\<lparr>worker := w3, frame := f3, point := Handling\<rparr>)"
    by (auto simp: opens_session_def control_frame_def header_type_def rd_def content_control_command_def frame_message_def split: if_splits)
  from run_open [OF s3(1) _ this assms(2)] show ?thesis by auto
qed

section \<open>Flow control\<close>

text \<open>C17: however the calls of the worker and the turns of the sessions' threads interleave: at most one data
  frame has been sent since the semaphore was made or the last acknowledgement was handled; a session that runs the
  send callback is the last one opened and holds its mutex, its pointer and the semaphore are live, and what the
  call has put on the line is exactly the part of its data it counts as sent; the worker never touches a freed
  session or semaphore, and waits only to take the callback away from a session that holds its mutex; and such a
  session can always go on.\<close>

theorem expansion_flow_control:
  assumes "system_reachable env s"
  shows "length (sent_data (worker s)) \<le> mark s + 1 \<and>
     (\<forall>i<length (sessions s). \<forall>data k. sending (sessions s ! i) = Some (data, k) \<longrightarrow>
         Suc i = length (sessions s) \<and> callbacks_mutex (sessions s ! i) \<and> rpc_session (worker s) = Live () \<and>
         (\<exists>n. tx_semaphore (worker s) = Live n) \<and> k \<le> length data \<and> concat (sent_data (worker s)) = start s @ take k data) \<and>
     (point s \<noteq> Ended \<longrightarrow> (\<exists>s'. worker_step env s s') \<or> point s = ClearCallback \<and> callbacks_mutex (last (sessions s))) \<and>
     (\<forall>i<length (sessions s). callbacks_mutex (sessions s ! i) \<longrightarrow> (\<exists>s'. session_step i s s'))"
proof (intro conjI)
  have inv: "system_inv s" using assms by (rule system_reachable_inv)
  show "length (sent_data (worker s)) \<le> mark s + 1" using system_invD(2) [OF inv] by (simp add: flow_ok_def)
  show "\<forall>i<length (sessions s). \<forall>data k. sending (sessions s ! i) = Some (data, k) \<longrightarrow>
         Suc i = length (sessions s) \<and> callbacks_mutex (sessions s ! i) \<and> rpc_session (worker s) = Live () \<and>
         (\<exists>n. tx_semaphore (worker s) = Live n) \<and> k \<le> length data \<and> concat (sent_data (worker s)) = start s @ take k data"
    using system_invD(5) [OF inv] by (auto simp: session_ok_def session_live_def)
  show "point s \<noteq> Ended \<longrightarrow> (\<exists>s'. worker_step env s s') \<or> point s = ClearCallback \<and> callbacks_mutex (last (sessions s))"
    using worker_progress [OF inv] by blast
  show "\<forall>i<length (sessions s). callbacks_mutex (sessions s ! i) \<longrightarrow> (\<exists>s'. session_step i s s')"
    using session_progress [OF inv] by blast
qed

theorem expansion_flow_control_witness:
  "\<exists>env s. system_reachable env s \<and> sending (sessions s ! 0) = Some ([7], 1) \<and> concat (sent_data (worker s)) = start s @ [7] \<and>
     length (sent_data (worker s)) \<le> mark s + 1 \<and> (\<exists>s'. session_step 0 s s')"
proof -
  define env where "env = \<lparr>serial_available = True, baud_rate_supported = (\<lambda>_. True), rpc_opens = (\<lambda>_. True), rpc_consumes = (\<lambda>_ bs. length bs)\<rparr>"
  define w where "w = idle_worker\<lparr>rx_buf := wire (BaudRate 38400) @ wire (Control 0)\<rparr>"
  from run_session [of env 38400 w] obtain s where s: "system_reachable env s" "point s = Receiving" "rpc_session (worker s) = Live ()"
    "tx_semaphore (worker s) = Live 1" "sessions s = [new_session\<lparr>send_bytes_callback := True\<rparr>]"
    by (auto simp: env_def w_def idle_worker_def ready_def sent_data_def)
  let ?t = "s\<lparr>sessions := [\<lparr>callbacks_mutex = True, send_bytes_callback = True, sending = Some ([7], 0)\<rparr>],
    start := concat (sent_data (worker s))\<rparr>"
  from reach_session [OF s(1) session_step.send [of 0 s "[7]"]] s(5)
  have t: "system_reachable env ?t" by (simp add: new_session_def rpc_send_begin_def)
  define v where "v = tx (Data [7]) ((worker s)\<lparr>tx_semaphore := Live 0\<rparr>)"
  have "rpc_send_turn True [7] 0 (worker ?t) = Some (Some 1, v)"
    using s(4) send_data [of 1 "[7]"] by (simp add: rpc_send_turn_def v_def EXPANSION_PROTOCOL_MAX_DATA_SIZE_def Let_def)
  from reach_session [OF t session_step.turn [of 0, OF _ _ _ _ this]] s(4)
  have u: "system_reachable env (?t\<lparr>worker := v, sessions := [\<lparr>callbacks_mutex = True, send_bytes_callback = True, sending = Some ([7], 1)\<rparr>]\<rparr>)"
    (is "system_reachable env ?u") by simp
  from expansion_flow_control [OF u] have "sending (sessions ?u ! 0) = Some ([7], 1)"
    "concat (sent_data (worker ?u)) = start ?u @ [7]" "length (sent_data (worker ?u)) \<le> mark ?u + 1" "\<exists>s'. session_step 0 ?u s'" by auto
  with u show ?thesis by blast
qed

end
