(* ===== verification/ExpansionService.thy ===== *)
theory ExpansionService
  imports Prelude
begin

text \<open>
  The expansion service (\<open>src/applications/services/expansion/expansion.c\<close>): a thread that takes
  messages off a queue of eight and starts and stops the worker, together with the registration of
  the detection callback in \<open>src/targets/f7/furi_hal/furi_hal_serial_control.c\<close>.

  Worker objects are numbered in the order they are allocated; a message that a worker sends carries
  its number, which the code does not look at. \<open>threads\<close> tells of each worker whether its thread runs,
  was asked to stop, or has ended.
\<close>

section \<open>The service\<close>

definition EXPANSION_CONTROL_QUEUE_SIZE :: nat where "EXPANSION_CONTROL_QUEUE_SIZE = 8"
definition FuriHalSerialIdMax :: nat where "FuriHalSerialIdMax = 2"

datatype ExpansionState =
    ExpansionStateDisabled | ExpansionStateEnabled | ExpansionStateRunning | ExpansionStateConnectionEstablished

datatype ExpansionMessage =
    ExpansionMessageTypeEnable | ExpansionMessageTypeDisable | ExpansionMessageTypeSetListenSerial nat
  | ExpansionMessageTypeModuleConnected | ExpansionMessageTypeModuleDisconnected nat
  | ExpansionMessageTypeConnectionEstablished nat | ExpansionMessageTypeIsConnected

datatype ThreadState = Unborn | Alive | StopAsked | Over

record Expansion =
  queue :: "ExpansionMessage list"
  serial_id :: nat
  worker :: "nat option"
  expansion_state :: ExpansionState
  uart_index :: nat
  \<comment> \<open>the serial control\<close>
  expansion_serial :: "nat option"
  expansion_cb :: bool
  \<comment> \<open>the worker threads and the message that the control thread is working on\<close>
  threads :: "nat \<Rightarrow> ThreadState"
  next_worker :: nat
  current :: "ExpansionMessage option"

text \<open>\<open>furi_hal_serial_control_handler_expansion_set_callback\<close>; \<open>callback\<close> tells whether it is not \<open>NULL\<close>.\<close>

definition furi_hal_serial_control_set_expansion_callback :: "nat \<Rightarrow> bool \<Rightarrow> Expansion \<Rightarrow> Expansion option" where
  "furi_hal_serial_control_set_expansion_callback sid callback e =
     (if callback then do {
        furi_check (expansion_serial e = None);
        furi_check (\<not> expansion_cb e);
        Some (e\<lparr>expansion_serial := Some sid, expansion_cb := True\<rparr>) }
      else do {
        furi_check (expansion_serial e = Some sid);
        furi_check (expansion_cb e);
        Some (e\<lparr>expansion_serial := None, expansion_cb := False\<rparr>) })"

text \<open>
  Freeing a worker frees its stream buffer and then joins its thread: a thread that still runs uses
  the freed buffer (\<open>None\<close>). \<open>expansion_worker_stop\<close> asks the thread to stop and waits for its end; the
  request is a step of its own below, so that here the thread has ended.
\<close>

definition expansion_worker_free :: "Expansion \<Rightarrow> Expansion option" where
  "expansion_worker_free e = (case worker e of
       None \<Rightarrow> None
     | Some i \<Rightarrow> do { furi_check (threads e i = Over); Some (e\<lparr>worker := None\<rparr>) })"

definition expansion_control_handler_enable :: "Expansion \<Rightarrow> Expansion option" where
  "expansion_control_handler_enable e =
     (if expansion_state e \<noteq> ExpansionStateDisabled then Some e
      else if uart_index e < FuriHalSerialIdMax
      then furi_hal_serial_control_set_expansion_callback (uart_index e) True
             (e\<lparr>expansion_state := ExpansionStateEnabled, serial_id := uart_index e\<rparr>)
      else Some e)"

definition expansion_control_handler_disable :: "Expansion \<Rightarrow> Expansion option" where
  "expansion_control_handler_disable e =
     (if expansion_state e = ExpansionStateDisabled then Some e
      else do {
        e \<leftarrow> (if expansion_state e = ExpansionStateRunning \<or> expansion_state e = ExpansionStateConnectionEstablished
              then expansion_worker_free e
              else furi_hal_serial_control_set_expansion_callback (serial_id e) False e);
        Some (e\<lparr>expansion_state := ExpansionStateDisabled\<rparr>) })"

definition expansion_control_handler_set_listen_serial :: "nat \<Rightarrow> Expansion \<Rightarrow> Expansion option" where
  "expansion_control_handler_set_listen_serial sid e = do {
     furi_check (sid < FuriHalSerialIdMax);
     e \<leftarrow> (if expansion_state e = ExpansionStateRunning \<or> expansion_state e = ExpansionStateConnectionEstablished
           then expansion_worker_free e
           else if expansion_state e = ExpansionStateEnabled
           then furi_hal_serial_control_set_expansion_callback (serial_id e) False e
           else Some e);
     furi_hal_serial_control_set_expansion_callback sid True
       (e\<lparr>expansion_state := ExpansionStateEnabled, serial_id := sid\<rparr>) }"

definition expansion_control_handler_module_connected :: "Expansion \<Rightarrow> Expansion option" where
  "expansion_control_handler_module_connected e =
     (if expansion_state e \<noteq> ExpansionStateEnabled then Some e
      else do {
        e \<leftarrow> furi_hal_serial_control_set_expansion_callback (serial_id e) False e;
        let i = next_worker e;
        Some (e\<lparr>expansion_state := ExpansionStateRunning, worker := Some i, next_worker := Suc i,
                threads := (threads e)(i := Alive)\<rparr>) })"

definition expansion_control_handler_module_disconnected :: "Expansion \<Rightarrow> Expansion option" where
  "expansion_control_handler_module_disconnected e =
     (if expansion_state e \<noteq> ExpansionStateRunning \<and> expansion_state e \<noteq> ExpansionStateConnectionEstablished then Some e
      else do {
        e \<leftarrow> expansion_worker_free (e\<lparr>expansion_state := ExpansionStateEnabled\<rparr>);
        furi_hal_serial_control_set_expansion_callback (serial_id e) True e })"

definition expansion_control_handler_connection_established :: "Expansion \<Rightarrow> Expansion option" where
  "expansion_control_handler_connection_established e =
     (if expansion_state e \<noteq> ExpansionStateRunning \<and> expansion_state e \<noteq> ExpansionStateConnectionEstablished then Some e
      else Some (e\<lparr>expansion_state := ExpansionStateConnectionEstablished\<rparr>))"

text \<open>The answer that the handler writes to the caller's variable.\<close>

definition expansion_control_handler_is_connected :: "Expansion \<Rightarrow> bool" where
  "expansion_control_handler_is_connected e \<longleftrightarrow> expansion_state e = ExpansionStateConnectionEstablished"

definition expansion_control_handlers :: "ExpansionMessage \<Rightarrow> Expansion \<Rightarrow> Expansion option" where
  "expansion_control_handlers m = (case m of
       ExpansionMessageTypeEnable \<Rightarrow> expansion_control_handler_enable
     | ExpansionMessageTypeDisable \<Rightarrow> expansion_control_handler_disable
     | ExpansionMessageTypeSetListenSerial sid \<Rightarrow> expansion_control_handler_set_listen_serial sid
     | ExpansionMessageTypeModuleConnected \<Rightarrow> expansion_control_handler_module_connected
     | ExpansionMessageTypeModuleDisconnected i \<Rightarrow> expansion_control_handler_module_disconnected
     | ExpansionMessageTypeConnectionEstablished i \<Rightarrow> expansion_control_handler_connection_established
     | ExpansionMessageTypeIsConnected \<Rightarrow> Some)"

text \<open>The handlers that call \<open>expansion_worker_stop\<close> wait for the thread of the worker.\<close>

definition waits_for_worker :: "ExpansionMessage \<Rightarrow> Expansion \<Rightarrow> bool" where
  "waits_for_worker m e \<longleftrightarrow> (expansion_state e = ExpansionStateRunning \<or> expansion_state e = ExpansionStateConnectionEstablished)
     \<and> (case m of ExpansionMessageTypeDisable \<Rightarrow> True | ExpansionMessageTypeSetListenSerial _ \<Rightarrow> True | _ \<Rightarrow> False)"

definition queue_put :: "ExpansionMessage \<Rightarrow> Expansion \<Rightarrow> Expansion" where
  "queue_put m e = e\<lparr>queue := queue e @ [m]\<rparr>"

text \<open>What a client may send: \<open>expansion_set_listen_serial\<close> checks its argument.\<close>

definition client_message :: "ExpansionMessage \<Rightarrow> bool" where
  "client_message m \<longleftrightarrow> (case m of
       ExpansionMessageTypeEnable \<Rightarrow> True | ExpansionMessageTypeDisable \<Rightarrow> True
     | ExpansionMessageTypeSetListenSerial sid \<Rightarrow> sid < FuriHalSerialIdMax
     | ExpansionMessageTypeIsConnected \<Rightarrow> True | _ \<Rightarrow> False)"

inductive service_step :: "Expansion \<Rightarrow> Expansion \<Rightarrow> bool" where
  client: "service_step e (queue_put m e)"
    if "client_message m" "length (queue e) < EXPANSION_CONTROL_QUEUE_SIZE"
| detect: "service_step e (queue_put ExpansionMessageTypeModuleConnected e)"
    if "expansion_cb e" "length (queue e) < EXPANSION_CONTROL_QUEUE_SIZE"
| connected: "service_step e (queue_put (ExpansionMessageTypeConnectionEstablished i) e)"
    if "threads e i = Alive \<or> threads e i = StopAsked" "length (queue e) < EXPANSION_CONTROL_QUEUE_SIZE"
| exits: "service_step e ((queue_put (ExpansionMessageTypeModuleDisconnected i) e)\<lparr>threads := (threads e)(i := Over)\<rparr>)"
    if "threads e i = Alive \<or> threads e i = StopAsked" "length (queue e) < EXPANSION_CONTROL_QUEUE_SIZE"
| stopped: "service_step e (e\<lparr>threads := (threads e)(i := Over)\<rparr>)"
    if "threads e i = StopAsked"
| get: "service_step e (e\<lparr>queue := q, current := Some m\<rparr>)"
    if "current e = None" "queue e = m # q"
| ask: "service_step e (e\<lparr>threads := (threads e)(i := StopAsked)\<rparr>)"
    if "current e = Some m" "waits_for_worker m e" "worker e = Some i" "threads e i = Alive"
| handle: "service_step e (e'\<lparr>current := None\<rparr>)"
    if "current e = Some m" "waits_for_worker m e \<longrightarrow> (\<exists>i. worker e = Some i \<and> threads e i = Over)"
      "expansion_control_handlers m e = Some e'"

definition service_start :: "nat \<Rightarrow> Expansion" where
  "service_start uart = \<lparr>queue = [], serial_id = 0, worker = None, expansion_state = ExpansionStateDisabled, uart_index = uart,
     expansion_serial = None, expansion_cb = False, threads = (\<lambda>_. Unborn), next_worker = 0, current = None\<rparr>"

inductive service_reachable :: "Expansion \<Rightarrow> bool" where
  start: "service_reachable (service_start uart)"
| more: "service_reachable e'" if "service_reachable e" "service_step e e'"

section \<open>Invariant\<close>

text \<open>The messages of the service, the one being worked on first.\<close>

definition all_messages :: "Expansion \<Rightarrow> ExpansionMessage list" where
  "all_messages e = (case current e of None \<Rightarrow> [] | Some m \<Rightarrow> [m]) @ queue e"

fun message_ok :: "(nat \<Rightarrow> ThreadState) \<Rightarrow> ExpansionMessage \<Rightarrow> bool" where
  "message_ok ts (ExpansionMessageTypeSetListenSerial sid) \<longleftrightarrow> sid < FuriHalSerialIdMax"
| "message_ok ts (ExpansionMessageTypeModuleDisconnected i) \<longleftrightarrow> ts i = Over"
| "message_ok ts _ \<longleftrightarrow> True"

text \<open>The callback is registered exactly while the service waits for a module, and there is a worker
  exactly while it does not; only the thread of that worker may run.\<close>

definition service_core :: "Expansion \<Rightarrow> bool" where
  "service_core e \<longleftrightarrow>
     (expansion_cb e \<longleftrightarrow> expansion_state e = ExpansionStateEnabled) \<and>
     expansion_serial e = (if expansion_cb e then Some (serial_id e) else None) \<and>
     (worker e = None \<longleftrightarrow> expansion_state e = ExpansionStateDisabled \<or> expansion_state e = ExpansionStateEnabled) \<and>
     (\<forall>i. threads e i = Alive \<or> threads e i = StopAsked \<longrightarrow> worker e = Some i) \<and>
     (\<forall>i. threads e i = Unborn \<longleftrightarrow> next_worker e \<le> i) \<and> (\<forall>i. worker e = Some i \<longrightarrow> i < next_worker e)"

definition service_inv :: "Expansion \<Rightarrow> bool" where
  "service_inv e \<longleftrightarrow> service_core e \<and> list_all (message_ok (threads e)) (all_messages e)"

lemmas handler_simps = expansion_control_handler_enable_def expansion_control_handler_disable_def
  expansion_control_handler_set_listen_serial_def expansion_control_handler_module_connected_def
  expansion_control_handler_module_disconnected_def expansion_control_handler_connection_established_def
  expansion_worker_free_def furi_hal_serial_control_set_expansion_callback_def

lemma service_core_cong [simp]:
  "service_core (e\<lparr>queue := q\<rparr>) = service_core e" "service_core (e\<lparr>current := c\<rparr>) = service_core e"
  by (simp_all add: service_core_def)

lemma core_thread:
  assumes "service_core e" "threads e i = Alive \<or> threads e i = StopAsked" "s \<noteq> Unborn" "s \<noteq> Alive"
  shows "service_core (e\<lparr>threads := (threads e)(i := s)\<rparr>)"
  using assms by (auto simp: service_core_def)

lemma messages_thread:
  assumes "list_all (message_ok ts) ms" "ts i \<noteq> Over"
  shows "list_all (message_ok (ts(i := s))) ms"
  using assms(1)
proof (rule list.pred_mono_strong)
  fix m assume "message_ok ts m"
  with assms(2) show "message_ok (ts(i := s)) m" by (cases m) auto
qed

lemma core_free:
  assumes "service_core e" "worker e = Some i" "threads e i = Over" "st = ExpansionStateDisabled"
  shows "service_core (e\<lparr>expansion_state := st, worker := None\<rparr>)"
  using assms by (auto simp: service_core_def)

lemma handler_core:
  assumes core: "service_core e" and h: "expansion_control_handlers m e = Some e'" 
  shows "service_core e' \<and> queue e' = queue e \<and> current e' = current e \<and>
    (threads e' = threads e \<or> (\<exists>i. threads e i = Unborn \<and> threads e' = (threads e)(i := Alive)))"
proof (cases m)
  case ExpansionMessageTypeEnable
  with assms show ?thesis
    by (auto simp: expansion_control_handlers_def handler_simps service_core_def split: if_splits)
next
  case ExpansionMessageTypeDisable
  with assms show ?thesis
    by (cases "expansion_state e")
      (auto simp: expansion_control_handlers_def handler_simps service_core_def split: if_splits bind_splits option.splits)
next
  case (ExpansionMessageTypeSetListenSerial sid)
  with assms show ?thesis
    by (cases "expansion_state e")
      (auto simp: expansion_control_handlers_def handler_simps service_core_def split: if_splits bind_splits option.splits)
next
  case ExpansionMessageTypeModuleConnected
  with assms show ?thesis
    by (cases "expansion_state e")
      (auto simp: expansion_control_handlers_def handler_simps service_core_def Let_def split: if_splits bind_splits option.splits)
next
  case (ExpansionMessageTypeModuleDisconnected i)
  with assms show ?thesis
    by (cases "expansion_state e")
      (auto simp: expansion_control_handlers_def handler_simps service_core_def split: if_splits bind_splits option.splits)
next
  case (ExpansionMessageTypeConnectionEstablished i)
  with assms show ?thesis
    by (auto simp: expansion_control_handlers_def handler_simps service_core_def split: if_splits)
next
  case ExpansionMessageTypeIsConnected
  with assms show ?thesis by (simp add: expansion_control_handlers_def)
qed

lemma all_messages_simps [simp]:
  "all_messages (queue_put m e) = all_messages e @ [m]" "threads (queue_put m e) = threads e"
  "all_messages (e\<lparr>threads := ts\<rparr>) = all_messages e" "service_core (queue_put m e) = service_core e"
  by (simp_all add: all_messages_def queue_put_def split: option.split)

lemma service_step_inv: "service_step e e' \<Longrightarrow> service_inv e \<Longrightarrow> service_inv e'"
proof (induction rule: service_step.induct)
  case (client m e)
  then show ?case by (cases m) (auto simp: service_inv_def client_message_def)
next
  case (detect e)
  then show ?case by (simp add: service_inv_def)
next
  case (connected e i)
  then show ?case by (simp add: service_inv_def)
next
  case (exits e i)
  then have "service_core (e\<lparr>threads := (threads e)(i := Over)\<rparr>)" "list_all (message_ok ((threads e)(i := Over))) (all_messages e)"
    using core_thread messages_thread by (auto simp: service_inv_def)
  moreover have "service_core ((queue_put m e)\<lparr>threads := ts\<rparr>) = service_core (e\<lparr>threads := ts\<rparr>)" for m ts
    by (simp add: service_core_def queue_put_def)
  ultimately show ?case by (simp add: service_inv_def)
next
  case (stopped e i)
  then show ?case using core_thread messages_thread by (auto simp: service_inv_def)
next
  case (get e m q)
  then show ?case by (simp add: service_inv_def all_messages_def)
next
  case (ask e m i)
  then show ?case using core_thread [of e i StopAsked] messages_thread [of "threads e" _ i] by (auto simp: service_inv_def)
next
  case (handle e m e')
  from handle(4) have core: "service_core e" and ms: "list_all (message_ok (threads e)) (queue e)"
    by (simp_all add: service_inv_def all_messages_def)
  from handler_core [OF core handle(3)] have h: "service_core e'" "queue e' = queue e"
    "threads e' = threads e \<or> (\<exists>i. threads e i = Unborn \<and> threads e' = (threads e)(i := Alive))" by auto
  then have "list_all (message_ok (threads e')) (queue e)" using ms messages_thread by force
  with h show ?case by (simp add: service_inv_def all_messages_def)
qed

lemma service_reachable_inv: "service_reachable e \<Longrightarrow> service_inv e"
proof (induction rule: service_reachable.induct)
  case (start uart)
  then show ?case by (simp add: service_start_def service_inv_def service_core_def all_messages_def)
next
  case (more e e')
  then show ?case by (blast intro: service_step_inv)
qed

section \<open>Properties\<close>

text \<open>C22: in every reachable state the detection callback is registered exactly when the service is enabled and waits for a
  module, there is a worker exactly when it is neither disabled nor waiting, and no thread but that of the current worker runs. A message is
  handled without a failure, with one exception: the report of a worker that has been replaced, handled while the thread
  of the new worker has not ended, calls \<open>expansion_worker_free\<close> on that new worker, which a thread that still
  uses the worker does not survive (\<open>None\<close>).\<close>

theorem expansion_service_safe:
  assumes "service_reachable e"
  shows "(expansion_cb e \<longleftrightarrow> expansion_state e = ExpansionStateEnabled) \<and>
     (worker e = None \<longleftrightarrow> expansion_state e = ExpansionStateDisabled \<or> expansion_state e = ExpansionStateEnabled) \<and>
     (\<forall>i. threads e i = Alive \<or> threads e i = StopAsked \<longrightarrow> worker e = Some i) \<and>
     (\<forall>m. current e = Some m \<and> (waits_for_worker m e \<longrightarrow> (\<exists>i. worker e = Some i \<and> threads e i = Over)) \<longrightarrow>
        (expansion_control_handlers m e = None \<longleftrightarrow>
          (\<exists>i j. m = ExpansionMessageTypeModuleDisconnected i \<and> worker e = Some j \<and> i \<noteq> j \<and> threads e j \<noteq> Over
             \<and> expansion_worker_free (e\<lparr>expansion_state := ExpansionStateEnabled\<rparr>) = None)))"
proof -
  from service_reachable_inv [OF assms] have core: "service_core e" and ms: "list_all (message_ok (threads e)) (all_messages e)"
    by (simp_all add: service_inv_def)
  have "expansion_control_handlers m e = None \<longleftrightarrow>
      (\<exists>i j. m = ExpansionMessageTypeModuleDisconnected i \<and> worker e = Some j \<and> i \<noteq> j \<and> threads e j \<noteq> Over
         \<and> expansion_worker_free (e\<lparr>expansion_state := ExpansionStateEnabled\<rparr>) = None)"
    if c: "current e = Some m" and w: "waits_for_worker m e \<longrightarrow> (\<exists>i. worker e = Some i \<and> threads e i = Over)" for m
  proof -
    have ok: "message_ok (threads e) m" using ms c by (simp add: all_messages_def)
    show ?thesis
      using core ok w
      by (cases m; cases "expansion_state e")
        (auto simp: expansion_control_handlers_def handler_simps service_core_def waits_for_worker_def Let_def
          furi_check_def split: option.splits)
  qed
  then show ?thesis using core by (auto simp: service_core_def)
qed

text \<open>A run in which that happens: the module's first bytes are reported twice, and the port is set again
  while the first worker ends on its own; its report comes when the second worker already runs.\<close>

definition at_port_0 :: "ExpansionMessage list \<Rightarrow> nat option \<Rightarrow> ExpansionState \<Rightarrow> bool \<Rightarrow> ThreadState list \<Rightarrow> ExpansionMessage option \<Rightarrow> Expansion" where
  "at_port_0 q w st cb ts cur = \<lparr>queue = q, serial_id = 0, worker = w, expansion_state = st, uart_index = 0,
     expansion_serial = (if cb then Some 0 else None), expansion_cb = cb,
     threads = (\<lambda>i. if i < length ts then ts ! i else Unborn), next_worker = length ts, current = cur\<rparr>"

lemma run_put:
  assumes "service_reachable (at_port_0 q w st cb ts cur)" "client_message m \<or> cb \<and> m = ExpansionMessageTypeModuleConnected"
    and "length q < EXPANSION_CONTROL_QUEUE_SIZE"
  shows "service_reachable (at_port_0 (q @ [m]) w st cb ts cur)"
proof -
  have "queue_put m (at_port_0 q w st cb ts cur) = at_port_0 (q @ [m]) w st cb ts cur" by (simp add: queue_put_def at_port_0_def)
  moreover have "service_step (at_port_0 q w st cb ts cur) (queue_put m (at_port_0 q w st cb ts cur))"
    using assms(2,3) by (auto intro!: service_step.client service_step.detect simp: at_port_0_def)
  ultimately show ?thesis using assms(1) by (metis service_reachable.more)
qed

lemma run_exit:
  assumes "service_reachable (at_port_0 q w st cb [Alive] cur)" "length q < EXPANSION_CONTROL_QUEUE_SIZE"
  shows "service_reachable (at_port_0 (q @ [ExpansionMessageTypeModuleDisconnected 0]) w st cb [Over] cur)"
proof -
  have "(queue_put (ExpansionMessageTypeModuleDisconnected 0) (at_port_0 q w st cb [Alive] cur))
      \<lparr>threads := (threads (at_port_0 q w st cb [Alive] cur))(0 := Over)\<rparr>
    = at_port_0 (q @ [ExpansionMessageTypeModuleDisconnected 0]) w st cb [Over] cur"
    by (simp add: queue_put_def at_port_0_def fun_eq_iff)
  moreover have "service_step (at_port_0 q w st cb [Alive] cur) ((queue_put (ExpansionMessageTypeModuleDisconnected 0) (at_port_0 q w st cb [Alive] cur))
      \<lparr>threads := (threads (at_port_0 q w st cb [Alive] cur))(0 := Over)\<rparr>)"
    by (rule service_step.exits) (use assms(2) in \<open>simp_all add: at_port_0_def\<close>)
  ultimately show ?thesis using service_reachable.more [OF assms(1)] by simp
qed

lemma run_handle:
  assumes "service_reachable (at_port_0 (m # q) w st cb ts None)"
    and "waits_for_worker m (at_port_0 q w st cb ts (Some m)) \<longrightarrow> (\<exists>i < length ts. w = Some i \<and> ts ! i = Over)"
    and "expansion_control_handlers m (at_port_0 q w st cb ts (Some m)) = Some (at_port_0 q w' st' cb' ts' (Some m))"
  shows "service_reachable (at_port_0 q w' st' cb' ts' None)"
proof -
  have "service_step (at_port_0 (m # q) w st cb ts None) ((at_port_0 (m # q) w st cb ts None)\<lparr>queue := q, current := Some m\<rparr>)"
    by (rule service_step.get) (simp_all add: at_port_0_def)
  moreover have "(at_port_0 (m # q) w st cb ts None)\<lparr>queue := q, current := Some m\<rparr> = at_port_0 q w st cb ts (Some m)"
    by (simp add: at_port_0_def)
  ultimately have r: "service_reachable (at_port_0 q w st cb ts (Some m))" using service_reachable.more [OF assms(1)] by simp
  have c: "current (at_port_0 q w st cb ts (Some m)) = Some m"
    and v: "worker (at_port_0 q w st cb ts (Some m)) = w"
      "i < length ts \<Longrightarrow> threads (at_port_0 q w st cb ts (Some m)) i = ts ! i" for i
    by (simp_all add: at_port_0_def)
  have "waits_for_worker m (at_port_0 q w st cb ts (Some m)) \<longrightarrow>
      (\<exists>i. worker (at_port_0 q w st cb ts (Some m)) = Some i \<and> threads (at_port_0 q w st cb ts (Some m)) i = Over)"
    using assms(2) v by auto
  from service_step.handle [OF c this assms(3)]
  have "service_step (at_port_0 q w st cb ts (Some m)) ((at_port_0 q w' st' cb' ts' (Some m))\<lparr>current := None\<rparr>)" .
  with r have "service_reachable ((at_port_0 q w' st' cb' ts' (Some m))\<lparr>current := None\<rparr>)" by (rule service_reachable.more)
  then show ?thesis by (simp add: at_port_0_def)
qed

lemma stale_report:
  "service_reachable (at_port_0 [ExpansionMessageTypeModuleDisconnected 0] (Some 1) ExpansionStateRunning False [Over, Alive] None)"
proof -
  let ?MC = ExpansionMessageTypeModuleConnected and ?SL = "ExpansionMessageTypeSetListenSerial 0"
    and ?MD = "ExpansionMessageTypeModuleDisconnected 0" and ?EN = ExpansionMessageTypeEnable
  let ?di = ExpansionStateDisabled and ?en = ExpansionStateEnabled and ?ru = ExpansionStateRunning
  note simps = at_port_0_def EXPANSION_CONTROL_QUEUE_SIZE_def client_message_def FuriHalSerialIdMax_def
    expansion_control_handlers_def handler_simps waits_for_worker_def Let_def fun_eq_iff less_Suc_eq
  have "service_reachable (at_port_0 [] None ?di False [] None)"
    using service_reachable.start [of 0] by (simp add: service_start_def at_port_0_def)
  from run_put [OF this, of ?EN] have "service_reachable (at_port_0 [?EN] None ?di False [] None)" by (simp add: simps)
  then have "service_reachable (at_port_0 [] None ?en True [] None)" by (rule run_handle) (simp_all add: simps)
  from run_put [OF this, of ?MC] have "service_reachable (at_port_0 [?MC] None ?en True [] None)" by (simp add: simps)
  from run_put [OF this, of ?SL] have "service_reachable (at_port_0 [?MC, ?SL] None ?en True [] None)" by (simp add: simps)
  from run_put [OF this, of ?MC] have "service_reachable (at_port_0 [?MC, ?SL, ?MC] None ?en True [] None)" by (simp add: simps)
  then have "service_reachable (at_port_0 [?SL, ?MC] (Some 0) ?ru False [Alive] None)" by (rule run_handle) (simp_all add: simps)
  from run_exit [OF this] have "service_reachable (at_port_0 [?SL, ?MC, ?MD] (Some 0) ?ru False [Over] None)" by (simp add: simps)
  then have "service_reachable (at_port_0 [?MC, ?MD] None ?en True [Over] None)" by (rule run_handle) (simp_all add: simps)
  then show ?thesis by (rule run_handle) (auto simp: simps nth_Cons')
qed

theorem expansion_service_safe_witness:
  "expansion_control_handlers (ExpansionMessageTypeModuleDisconnected 0)
     (at_port_0 [] (Some 1) ExpansionStateRunning False [Over, Alive] (Some (ExpansionMessageTypeModuleDisconnected 0))) = None"
proof -
  let ?m = "ExpansionMessageTypeModuleDisconnected 0"
  let ?e = "at_port_0 [?m] (Some 1) ExpansionStateRunning False [Over, Alive] None"
  have "service_step ?e (?e\<lparr>queue := [], current := Some ?m\<rparr>)"
    by (rule service_step.get) (simp_all add: at_port_0_def)
  with stale_report have "service_reachable (?e\<lparr>queue := [], current := Some ?m\<rparr>)" by (rule service_reachable.more)
  then have "service_reachable (at_port_0 [] (Some 1) ExpansionStateRunning False [Over, Alive] (Some ?m))"
    by (simp add: at_port_0_def)
  from expansion_service_safe [OF this] show ?thesis
    by (simp add: at_port_0_def waits_for_worker_def expansion_worker_free_def furi_check_def)
qed

end
