(* ===== verification/ProtocolDict.thy ===== *)
theory ProtocolDict
  imports Prelude
begin

text \<open>
  Protocol dictionaries (\<open>src/lib/toolbox/protocols/protocol_dict.c\<close>, with \<open>protocol.h\<close> and
  \<open>src/lib/toolbox/level_duration.h\<close>).

  A \<open>ProtocolBase\<close> is a table of functions over the state of one protocol; \<open>'d\<close> is the type of those
  states, \<open>'w\<close> that of the write requests (a \<open>void*\<close> in the code), and an absent function pointer is \<open>None\<close>. \<open>get_data\<close> returns a pointer into the state:
  reading through it is \<open>get_data\<close>, writing through it \<open>put_data\<close>.
\<close>

section \<open>Levels\<close>

datatype (plugins only: code size) LevelDuration =
    LevelDurationReset | LevelDurationWait | LevelDuration bool nat

text \<open>The bit field keeps 30 bits of the duration.\<close>

definition level_duration_make :: "bool \<Rightarrow> nat \<Rightarrow> LevelDuration" where
  "level_duration_make level duration = LevelDuration level (duration mod 2 ^ 30)"

definition level_duration_reset :: LevelDuration where "level_duration_reset = LevelDurationReset"
definition level_duration_wait :: LevelDuration where "level_duration_wait = LevelDurationWait"

definition level_duration_is_reset :: "LevelDuration \<Rightarrow> bool" where
  "level_duration_is_reset ld \<longleftrightarrow> ld = LevelDurationReset"

definition level_duration_is_wait :: "LevelDuration \<Rightarrow> bool" where
  "level_duration_is_wait ld \<longleftrightarrow> ld = LevelDurationWait"

fun level_duration_get_level :: "LevelDuration \<Rightarrow> bool" where
  "level_duration_get_level (LevelDuration level duration) = level"
| "level_duration_get_level _ = False"

text \<open>The duration of the other two is not initialised.\<close>

fun level_duration_get_duration :: "LevelDuration \<Rightarrow> nat option" where
  "level_duration_get_duration (LevelDuration level duration) = Some duration"
| "level_duration_get_duration _ = None"

section \<open>The dictionary\<close>

record ('d, 'w) ProtocolBase =
  data_size :: nat
  name :: string
  manufacturer :: string
  features :: u32
  validate_count :: nat
  alloc :: 'd
  get_data :: "('d \<Rightarrow> u8 list) option"
  put_data :: "u8 list \<Rightarrow> 'd \<Rightarrow> 'd"
  decoder_start :: "('d \<Rightarrow> 'd) option"
  decoder_feed :: "('d \<Rightarrow> bool \<Rightarrow> nat \<Rightarrow> bool \<times> 'd) option"
  encoder_start :: "('d \<Rightarrow> bool \<times> 'd) option"
  encoder_yield :: "('d \<Rightarrow> LevelDuration \<times> 'd) option"
  render_data :: "('d \<Rightarrow> string) option"
  render_brief_data :: "('d \<Rightarrow> string) option"
  write_data :: "('d \<Rightarrow> 'w \<Rightarrow> bool \<times> 'd \<times> 'w) option"

record ('d, 'w) ProtocolDict =
  base :: "('d, 'w) ProtocolBase list"
  count :: nat
  states :: "'d list"

definition protocol_dict_alloc :: "('d, 'w) ProtocolBase list \<Rightarrow> ('d, 'w) ProtocolDict" where
  "protocol_dict_alloc protocols = \<lparr>base = protocols, count = length protocols, states = map alloc protocols\<rparr>"

definition protocol_dict_set_data :: "('d, 'w) ProtocolDict \<Rightarrow> nat \<Rightarrow> u8 list \<Rightarrow> nat \<Rightarrow> ('d, 'w) ProtocolDict option" where
  "protocol_dict_set_data dict i src src_size = do {
     furi_assert (i < count dict);
     b \<leftarrow> rd (base dict) i;
     get \<leftarrow> get_data b;
     d \<leftarrow> rd (states dict) i;
     furi_check (src_size \<ge> data_size b);
     bytes \<leftarrow> memcpy (get d) 0 src 0 (data_size b);
     sts \<leftarrow> wr (states dict) i (put_data b bytes d);
     Some (dict\<lparr>states := sts\<rparr>) }"

definition protocol_dict_get_data :: "('d, 'w) ProtocolDict \<Rightarrow> nat \<Rightarrow> u8 list \<Rightarrow> nat \<Rightarrow> u8 list option" where
  "protocol_dict_get_data dict i dst dst_size = do {
     furi_assert (i < count dict);
     b \<leftarrow> rd (base dict) i;
     get \<leftarrow> get_data b;
     d \<leftarrow> rd (states dict) i;
     furi_check (dst_size \<ge> data_size b);
     memcpy dst 0 (get d) 0 (data_size b) }"

definition protocol_dict_get_data_size :: "('d, 'w) ProtocolDict \<Rightarrow> nat \<Rightarrow> nat option" where
  "protocol_dict_get_data_size dict i = do { furi_assert (i < count dict); b \<leftarrow> rd (base dict) i; Some (data_size b) }"

definition protocol_dict_get_max_data_size :: "('d, 'w) ProtocolDict \<Rightarrow> nat option" where
  "protocol_dict_get_max_data_size dict = for_loop (\<lambda>i m. do {
     b \<leftarrow> rd (base dict) i;
     Some (if data_size b > m then data_size b else m) }) 0 (count dict) 0"

definition protocol_dict_get_name :: "('d, 'w) ProtocolDict \<Rightarrow> nat \<Rightarrow> string option" where
  "protocol_dict_get_name dict i = do { furi_assert (i < count dict); b \<leftarrow> rd (base dict) i; Some (name b) }"

definition protocol_dict_get_manufacturer :: "('d, 'w) ProtocolDict \<Rightarrow> nat \<Rightarrow> string option" where
  "protocol_dict_get_manufacturer dict i = do { furi_assert (i < count dict); b \<leftarrow> rd (base dict) i; Some (manufacturer b) }"

definition protocol_dict_get_features :: "('d, 'w) ProtocolDict \<Rightarrow> nat \<Rightarrow> u32 option" where
  "protocol_dict_get_features dict i = do { furi_assert (i < count dict); b \<leftarrow> rd (base dict) i; Some (features b) }"

definition protocol_dict_get_validate_count :: "('d, 'w) ProtocolDict \<Rightarrow> nat \<Rightarrow> nat option" where
  "protocol_dict_get_validate_count dict i = do { furi_assert (i < count dict); b \<leftarrow> rd (base dict) i; Some (validate_count b) }"

definition protocol_dict_decoders_start :: "('d, 'w) ProtocolDict \<Rightarrow> ('d, 'w) ProtocolDict option" where
  "protocol_dict_decoders_start dict = do {
     sts \<leftarrow> for_loop (\<lambda>i sts. do {
        b \<leftarrow> rd (base dict) i;
        case decoder_start b of
          None \<Rightarrow> Some sts
        | Some fn \<Rightarrow> do { d \<leftarrow> rd sts i; wr sts i (fn d) } }) 0 (count dict) (states dict);
     Some (dict\<lparr>states := sts\<rparr>) }"

text \<open>\<open>None\<close> as a protocol id is \<open>PROTOCOL_NO\<close>. One turn of the loops that feed the decoders.\<close>

definition feed_turn :: "('d, 'w) ProtocolDict \<Rightarrow> bool \<Rightarrow> nat \<Rightarrow> nat \<Rightarrow> 'd list \<times> nat option \<Rightarrow> ('d list \<times> nat option) option" where
  "feed_turn dict level duration i acc = (case acc of (sts, ready) \<Rightarrow> do {
     b \<leftarrow> rd (base dict) i;
     case decoder_feed b of
       None \<Rightarrow> Some (sts, ready)
     | Some fn \<Rightarrow> do {
         d \<leftarrow> rd sts i;
         let (hit, d') = fn d level duration;
         sts \<leftarrow> wr sts i d';
         Some (sts, if hit \<and> ready = None then Some i else ready) } })"

definition protocol_dict_decoders_feed :: "('d, 'w) ProtocolDict \<Rightarrow> bool \<Rightarrow> nat \<Rightarrow> (('d, 'w) ProtocolDict \<times> nat option) option" where
  "protocol_dict_decoders_feed dict level duration = do {
     (sts, ready) \<leftarrow> for_loop (feed_turn dict level duration) 0 (count dict) (states dict, None);
     Some (dict\<lparr>states := sts\<rparr>, ready) }"

definition protocol_dict_decoders_feed_by_feature ::
  "('d, 'w) ProtocolDict \<Rightarrow> u32 \<Rightarrow> bool \<Rightarrow> nat \<Rightarrow> (('d, 'w) ProtocolDict \<times> nat option) option" where
  "protocol_dict_decoders_feed_by_feature dict feature level duration = do {
     (sts, ready) \<leftarrow> for_loop (\<lambda>i acc. do {
        b \<leftarrow> rd (base dict) i;
        if features b AND feature \<noteq> 0 then feed_turn dict level duration i acc else Some acc })
       0 (count dict) (states dict, None);
     Some (dict\<lparr>states := sts\<rparr>, ready) }"

definition protocol_dict_decoders_feed_by_id ::
  "('d, 'w) ProtocolDict \<Rightarrow> nat \<Rightarrow> bool \<Rightarrow> nat \<Rightarrow> (('d, 'w) ProtocolDict \<times> nat option) option" where
  "protocol_dict_decoders_feed_by_id dict i level duration = do {
     furi_assert (i < count dict);
     b \<leftarrow> rd (base dict) i;
     case decoder_feed b of
       None \<Rightarrow> Some (dict, None)
     | Some fn \<Rightarrow> do {
         d \<leftarrow> rd (states dict) i;
         let (hit, d') = fn d level duration;
         sts \<leftarrow> wr (states dict) i d';
         Some (dict\<lparr>states := sts\<rparr>, if hit then Some i else None) } }"

definition protocol_dict_encoder_start :: "('d, 'w) ProtocolDict \<Rightarrow> nat \<Rightarrow> (('d, 'w) ProtocolDict \<times> bool) option" where
  "protocol_dict_encoder_start dict i = do {
     furi_assert (i < count dict);
     b \<leftarrow> rd (base dict) i;
     case encoder_start b of
       None \<Rightarrow> Some (dict, False)
     | Some fn \<Rightarrow> do {
         d \<leftarrow> rd (states dict) i;
         let (ok, d') = fn d;
         sts \<leftarrow> wr (states dict) i d';
         Some (dict\<lparr>states := sts\<rparr>, ok) } }"

definition protocol_dict_encoder_yield :: "('d, 'w) ProtocolDict \<Rightarrow> nat \<Rightarrow> (('d, 'w) ProtocolDict \<times> LevelDuration) option" where
  "protocol_dict_encoder_yield dict i = do {
     furi_assert (i < count dict);
     b \<leftarrow> rd (base dict) i;
     case encoder_yield b of
       None \<Rightarrow> Some (dict, level_duration_reset)
     | Some fn \<Rightarrow> do {
         d \<leftarrow> rd (states dict) i;
         let (ld, d') = fn d;
         sts \<leftarrow> wr (states dict) i d';
         Some (dict\<lparr>states := sts\<rparr>, ld) } }"

text \<open>The string \<open>result\<close> is overwritten when the protocol can render.\<close>

definition protocol_dict_render_data :: "('d, 'w) ProtocolDict \<Rightarrow> string \<Rightarrow> nat \<Rightarrow> string option" where
  "protocol_dict_render_data dict result i = do {
     furi_assert (i < count dict);
     b \<leftarrow> rd (base dict) i;
     d \<leftarrow> rd (states dict) i;
     Some (case render_data b of None \<Rightarrow> result | Some fn \<Rightarrow> fn d) }"

definition protocol_dict_render_brief_data :: "('d, 'w) ProtocolDict \<Rightarrow> string \<Rightarrow> nat \<Rightarrow> string option" where
  "protocol_dict_render_brief_data dict result i = do {
     furi_assert (i < count dict);
     b \<leftarrow> rd (base dict) i;
     d \<leftarrow> rd (states dict) i;
     Some (case render_brief_data b of None \<Rightarrow> result | Some fn \<Rightarrow> fn d) }"

definition protocol_dict_get_write_data :: "('d, 'w) ProtocolDict \<Rightarrow> nat \<Rightarrow> 'w \<Rightarrow> (('d, 'w) ProtocolDict \<times> 'w \<times> bool) option" where
  "protocol_dict_get_write_data dict i data = do {
     furi_assert (i < count dict);
     b \<leftarrow> rd (base dict) i;
     case write_data b of
       None \<Rightarrow> None
     | Some fn \<Rightarrow> do {
         d \<leftarrow> rd (states dict) i;
         let (ok, d', data) = fn d data;
         sts \<leftarrow> wr (states dict) i d';
         Some (dict\<lparr>states := sts\<rparr>, data, ok) } }"

fun name_loop :: "string \<Rightarrow> ('d, 'w) ProtocolBase list \<Rightarrow> nat \<Rightarrow> nat option" where
  "name_loop n [] i = None"
| "name_loop n (b # bs) i = (if n = name b then Some i else name_loop n bs (i + 1))"

definition protocol_dict_get_protocol_by_name :: "('d, 'w) ProtocolDict \<Rightarrow> string \<Rightarrow> nat option" where
  "protocol_dict_get_protocol_by_name dict n = name_loop n (take (count dict) (base dict)) 0"

section \<open>Feeding\<close>

definition dict_wf :: "('d, 'w) ProtocolDict \<Rightarrow> bool" where
  "dict_wf dict \<longleftrightarrow> count dict = length (base dict) \<and> length (states dict) = length (base dict)"

lemma dict_wf_alloc: "dict_wf (protocol_dict_alloc ps)"
  by (simp add: dict_wf_def protocol_dict_alloc_def)

text \<open>What one pulse does to the decoder \<open>i\<close> alone.\<close>

definition fed :: "('d, 'w) ProtocolBase \<Rightarrow> bool \<Rightarrow> nat \<Rightarrow> 'd \<Rightarrow> bool \<times> 'd" where
  "fed b level duration d = (case decoder_feed b of None \<Rightarrow> (False, d) | Some fn \<Rightarrow> fn d level duration)"

text \<open>The first index below \<open>n\<close> that satisfies a predicate.\<close>

primrec first_index :: "(nat \<Rightarrow> bool) \<Rightarrow> nat \<Rightarrow> nat option" where
  "first_index P 0 = None"
| "first_index P (Suc n) = (case first_index P n of Some i \<Rightarrow> Some i | None \<Rightarrow> if P n then Some n else None)"

lemma first_index_None: "first_index P n = None \<longleftrightarrow> (\<forall>i < n. \<not> P i)"
  by (induction n) (auto simp: less_Suc_eq split: option.splits)

lemma first_index_unique: "first_index P n = Some k \<Longrightarrow> k < n \<and> P k \<and> (\<forall>j < k. \<not> P j)"
  using first_index_None [of P]
  by (induction n) (auto simp: less_Suc_eq split: option.splits if_splits)

lemma first_index_Some: "first_index P n = Some i \<longleftrightarrow> i < n \<and> P i \<and> (\<forall>j < i. \<not> P j)"
proof (induction n)
  case (Suc n)
  show ?case
  proof (cases "first_index P n")
    case None
    then show ?thesis using first_index_None [of P n] by (auto simp: less_Suc_eq)
  next
    case (Some k)
    then have "k < n" "P k" "\<forall>j<k. \<not> P j" using first_index_unique by blast+
    with Some Suc show ?thesis by (auto simp: less_Suc_eq)
  qed
qed simp

text \<open>Feeding the decoders that a predicate on the protocols selects.\<close>

definition selected :: "(('d, 'w) ProtocolBase \<Rightarrow> bool) \<Rightarrow> ('d, 'w) ProtocolDict \<Rightarrow> bool \<Rightarrow> nat \<Rightarrow> nat \<Rightarrow> bool \<times> 'd" where
  "selected P dict level duration i =
     (if P (base dict ! i) then fed (base dict ! i) level duration (states dict ! i) else (False, states dict ! i))"

lemma feed_loop:
  assumes "dict_wf dict" "n \<le> count dict"
  shows "for_loop (\<lambda>i acc. do {
        b \<leftarrow> rd (base dict) i;
        if P b then feed_turn dict level duration i acc else Some acc }) 0 n (states dict, None) =
    Some (map (\<lambda>i. if i < n then snd (selected P dict level duration i) else states dict ! i) [0..<count dict],
          first_index (\<lambda>i. fst (selected P dict level duration i)) n)"
  using assms(2)
proof (induction n)
  case 0
  have "map ((!) (states dict)) [0..<length (base dict)] = states dict"
    using assms(1) map_nth [of "states dict"] by (simp add: dict_wf_def)
  with assms(1) show ?case by (simp add: dict_wf_def)
next
  case (Suc n)
  let ?s = "map (\<lambda>i. if i < n then snd (selected P dict level duration i) else states dict ! i) [0..<count dict]"
  have n: "n < length (base dict)" "?s ! n = states dict ! n" "n < length ?s" using Suc.prems assms(1) by (auto simp: dict_wf_def)
  have upd: "map (\<lambda>i. if i < Suc n then snd (selected P dict level duration i) else states dict ! i) [0..<count dict]
      = ?s[n := snd (selected P dict level duration n)]"
    using n by (intro nth_equalityI) (auto simp: nth_list_update less_Suc_eq)
  have nop: "?s[n := states dict ! n] = ?s" using n(2) by (metis list_update_id)
  show ?case
    using Suc n
    by (cases "decoder_feed (base dict ! n)")
      (auto simp: for_loop_snoc rd_Some wr_Some feed_turn_def upd selected_def fed_def nop Let_def
        split: option.splits prod.splits simp del: for_loop.simps(2))
qed

definition fed_dict :: "(('d, 'w) ProtocolBase \<Rightarrow> bool) \<Rightarrow> ('d, 'w) ProtocolDict \<Rightarrow> bool \<Rightarrow> nat \<Rightarrow> ('d, 'w) ProtocolDict" where
  "fed_dict P dict level duration = dict\<lparr>states := map (\<lambda>i. snd (selected P dict level duration i)) [0..<count dict]\<rparr>"

lemma feed_all:
  assumes "dict_wf dict"
  shows "for_loop (\<lambda>i acc. do {
        b \<leftarrow> rd (base dict) i;
        if P b then feed_turn dict level duration i acc else Some acc }) 0 (count dict) (states dict, None) =
    Some (states (fed_dict P dict level duration), first_index (\<lambda>i. fst (selected P dict level duration i)) (count dict))"
proof -
  have "map (\<lambda>i. if i < count dict then snd (selected P dict level duration i) else states dict ! i) [0..<count dict]
      = states (fed_dict P dict level duration)" by (simp add: fed_dict_def)
  with feed_loop [OF assms order_refl] show ?thesis by metis
qed

lemma fed_dict_states [simp]: "dict\<lparr>states := states (fed_dict P dict level duration)\<rparr> = fed_dict P dict level duration"
  by (simp add: fed_dict_def)

text \<open>C25: feeding a pulse by feature advances every decoder with the feature exactly once, and no other,
  whatever the earlier ones report; the answer is the first protocol that reports a card. Feeding
  without a feature is feeding with all protocols selected.\<close>

theorem protocol_dict_feed:
  assumes "dict_wf dict"
  shows "protocol_dict_decoders_feed_by_feature dict feature level duration =
      Some (fed_dict (\<lambda>b. features b AND feature \<noteq> 0) dict level duration,
            first_index (\<lambda>i. fst (selected (\<lambda>b. features b AND feature \<noteq> 0) dict level duration i)) (count dict)) \<and>
    protocol_dict_decoders_feed dict level duration =
      Some (fed_dict (\<lambda>_. True) dict level duration, first_index (\<lambda>i. fst (selected (\<lambda>_. True) dict level duration i)) (count dict))"
proof -
  have "for_loop (feed_turn dict level duration) 0 (count dict) (states dict, None) =
      for_loop (\<lambda>i acc. do { b \<leftarrow> rd (base dict) i; if True then feed_turn dict level duration i acc else Some acc })
        0 (count dict) (states dict, None)"
    by (rule for_loop_cong) (use assms in \<open>simp add: dict_wf_def rd_Some\<close>)
  then show ?thesis
    using feed_all [OF assms, of "\<lambda>_. True"] feed_all [OF assms, of "\<lambda>b. features b AND feature \<noteq> 0"]
    by (simp add: protocol_dict_decoders_feed_by_feature_def protocol_dict_decoders_feed_def)
qed

section \<open>Protocol data\<close>

text \<open>What a protocol promises about its data: \<open>get_data\<close> is there and points to \<open>data_size\<close> bytes.\<close>

locale protocol_data =
  fixes b :: "('d, 'w) ProtocolBase" and ok :: "'d \<Rightarrow> bool" and get :: "'d \<Rightarrow> u8 list"
  assumes has_data: "get_data b = Some get"
    and get_length: "ok d \<Longrightarrow> length (get d) = data_size b"
    and get_put: "ok d \<Longrightarrow> length bytes = data_size b \<Longrightarrow> get (put_data b bytes d) = bytes"
    and put_ok: "ok d \<Longrightarrow> length bytes = data_size b \<Longrightarrow> ok (put_data b bytes d)"
    and alloc_ok: "ok (alloc b)"
begin

lemma set_get:
  assumes "dict_wf dict" "i < count dict" "base dict ! i = b" "ok (states dict ! i)"
    and "data_size b \<le> src_size" "src_size \<le> length src" "data_size b \<le> dst_size" "dst_size \<le> length dst"
  shows "\<exists>dict'. protocol_dict_set_data dict i src src_size = Some dict' \<and> dict_wf dict' \<and> ok (states dict' ! i) \<and>
    protocol_dict_get_data dict' i dst dst_size = Some (take (data_size b) src @ drop (data_size b) dst) \<and>
    (\<forall>j. j \<noteq> i \<longrightarrow> states dict' ! j = states dict ! j)"
proof -
  let ?bytes = "take (data_size b) src" and ?d = "states dict ! i"
  have l: "length ?bytes = data_size b" using assms by simp
  have i: "i < length (base dict)" "i < length (states dict)" using assms by (simp_all add: dict_wf_def)
  have "memcpy (get ?d) 0 src 0 (data_size b) = Some ?bytes"
    using assms get_length [OF assms(4)] by (simp add: memcpy_all)
  then have set: "protocol_dict_set_data dict i src src_size = Some (dict\<lparr>states := (states dict)[i := put_data b ?bytes ?d]\<rparr>)"
    using assms i by (simp add: protocol_dict_set_data_def has_data rd_Some wr_Some)
  have "memcpy dst 0 ?bytes 0 (data_size b) = Some (?bytes @ drop (data_size b) dst)"
    using assms l by (simp add: memcpy_def)
  then show ?thesis
    using assms i set get_put [OF assms(4) l] put_ok [OF assms(4) l]
    by (simp add: protocol_dict_get_data_def has_data rd_Some dict_wf_def)
qed

end

end
