(* ===== verification/Em4100.thy ===== *)
theory Em4100
  imports ProtocolDict Manchester Pulses
begin

text \<open>
  The EM4100 cards (\<open>src/lib/lfrfid/protocols/protocol_em4100.c\<close>): 40 bits of data in ten rows of four
  bits with a parity bit each, four column parity bits, a header of nine ones and a zero at the end.
  The cards differ in the number of carrier periods per bit. The 64 bits are a word; the code's
  casts of its address are dropped.
\<close>

section \<open>State and times\<close>

definition EM_HEADER_POS :: nat where "EM_HEADER_POS = 55"
definition EM_HEADER_MASK :: u64 where "EM_HEADER_MASK = push_bit EM_HEADER_POS 0x1FF"
definition EM_FIRST_ROW_POS :: nat where "EM_FIRST_ROW_POS = 50"
definition EM_ROW_COUNT :: nat where "EM_ROW_COUNT = 10"
definition EM_COLUMN_COUNT :: nat where "EM_COLUMN_COUNT = 4"
definition EM_BITS_PER_ROW_COUNT :: nat where "EM_BITS_PER_ROW_COUNT = EM_COLUMN_COUNT + 1"
definition EM_COLUMN_POS :: nat where "EM_COLUMN_POS = 4"
definition EM_STOP_POS :: nat where "EM_STOP_POS = 0"
definition EM_STOP_MASK :: u64 where "EM_STOP_MASK = push_bit EM_STOP_POS 0x1"
definition EM_HEADER_AND_STOP_MASK :: u64 where "EM_HEADER_AND_STOP_MASK = (EM_HEADER_MASK OR EM_STOP_MASK)"
definition EM_HEADER_AND_STOP_DATA :: u64 where "EM_HEADER_AND_STOP_DATA = EM_HEADER_MASK"
definition EM4100_DECODED_DATA_SIZE :: nat where "EM4100_DECODED_DATA_SIZE = 5"
definition EM_READ_SHORT_TIME_BASE :: nat where "EM_READ_SHORT_TIME_BASE = 256"
definition EM_READ_LONG_TIME_BASE :: nat where "EM_READ_LONG_TIME_BASE = 512"
definition EM_READ_JITTER_TIME_BASE :: nat where "EM_READ_JITTER_TIME_BASE = 100"

record ProtocolEM4100 =
  em_data :: "u8 list"
  encoded_data :: u64
  encoded_data_index :: nat
  encoded_polarity :: bool
  decoder_manchester_state :: ManchesterState
  clock_per_bit :: nat

definition protocol_em4100_get_time_divisor :: "ProtocolEM4100 \<Rightarrow> nat" where
  "protocol_em4100_get_time_divisor proto =
     (if clock_per_bit proto = 64 then 1 else if clock_per_bit proto = 32 then 2 else if clock_per_bit proto = 16 then 4 else 1)"

definition LFRFID_T5577_MODULATION_MANCHESTER :: u32 where "LFRFID_T5577_MODULATION_MANCHESTER = 0x00008000"
definition LFRFID_T5577_BITRATE_RF_16 :: u32 where "LFRFID_T5577_BITRATE_RF_16 = 0x00040000"
definition LFRFID_T5577_BITRATE_RF_32 :: u32 where "LFRFID_T5577_BITRATE_RF_32 = 0x00080000"
definition LFRFID_T5577_BITRATE_RF_64 :: u32 where "LFRFID_T5577_BITRATE_RF_64 = 0x00140000"
definition LFRFID_T5577_MAXBLOCK_SHIFT :: nat where "LFRFID_T5577_MAXBLOCK_SHIFT = 5"

definition protocol_em4100_get_t5577_bitrate :: "ProtocolEM4100 \<Rightarrow> u32" where
  "protocol_em4100_get_t5577_bitrate proto =
     (if clock_per_bit proto = 64 then LFRFID_T5577_BITRATE_RF_64 else if clock_per_bit proto = 32 then LFRFID_T5577_BITRATE_RF_32
      else if clock_per_bit proto = 16 then LFRFID_T5577_BITRATE_RF_16 else LFRFID_T5577_BITRATE_RF_64)"

definition protocol_em4100_get_short_time_low :: "ProtocolEM4100 \<Rightarrow> nat" where
  "protocol_em4100_get_short_time_low proto = EM_READ_SHORT_TIME_BASE div protocol_em4100_get_time_divisor proto -
     EM_READ_JITTER_TIME_BASE div protocol_em4100_get_time_divisor proto"

definition protocol_em4100_get_short_time_high :: "ProtocolEM4100 \<Rightarrow> nat" where
  "protocol_em4100_get_short_time_high proto = EM_READ_SHORT_TIME_BASE div protocol_em4100_get_time_divisor proto +
     EM_READ_JITTER_TIME_BASE div protocol_em4100_get_time_divisor proto"

definition protocol_em4100_get_long_time_low :: "ProtocolEM4100 \<Rightarrow> nat" where
  "protocol_em4100_get_long_time_low proto = EM_READ_LONG_TIME_BASE div protocol_em4100_get_time_divisor proto -
     EM_READ_JITTER_TIME_BASE div protocol_em4100_get_time_divisor proto"

definition protocol_em4100_get_long_time_high :: "ProtocolEM4100 \<Rightarrow> nat" where
  "protocol_em4100_get_long_time_high proto = EM_READ_LONG_TIME_BASE div protocol_em4100_get_time_divisor proto +
     EM_READ_JITTER_TIME_BASE div protocol_em4100_get_time_divisor proto"

text \<open>\<open>malloc\<close> of the firmware returns zeroed memory.\<close>

definition em4100_zero :: "nat \<Rightarrow> ProtocolEM4100" where
  "em4100_zero clock = \<lparr>em_data = replicate EM4100_DECODED_DATA_SIZE 0, encoded_data = 0, encoded_data_index = 0,
     encoded_polarity = False, decoder_manchester_state = ManchesterStateStart1, clock_per_bit = clock\<rparr>"

definition protocol_em4100_alloc :: ProtocolEM4100 where "protocol_em4100_alloc = em4100_zero 64"
definition protocol_em4100_16_alloc :: ProtocolEM4100 where "protocol_em4100_16_alloc = em4100_zero 16"
definition protocol_em4100_32_alloc :: ProtocolEM4100 where "protocol_em4100_32_alloc = em4100_zero 32"

definition protocol_em4100_get_data :: "ProtocolEM4100 \<Rightarrow> u8 list" where
  "protocol_em4100_get_data proto = em_data proto"

definition protocol_em4100_put_data :: "u8 list \<Rightarrow> ProtocolEM4100 \<Rightarrow> ProtocolEM4100" where
  "protocol_em4100_put_data bytes proto = proto\<lparr>em_data := bytes\<rparr>"

section \<open>Decoding\<close>

text \<open>One row of \<open>em4100_decode\<close>: four bits into the nibble, and the parity bit skipped.\<close>

definition decode_row :: "u64 \<Rightarrow> u8 \<times> u64" where
  "decode_row cd = fold (\<lambda>i (nibble, cd).
     (if i < 4 then push_bit 1 nibble OR (if cd AND push_bit 63 1 \<noteq> 0 then 1 else 0) else nibble, push_bit 1 cd))
     [0..<5] (0 :: u8, cd)"

definition em4100_decode :: "u64 \<Rightarrow> nat \<Rightarrow> u8 list option" where
  "em4100_decode encoded decoded_data_size = do {
     furi_check (decoded_data_size \<ge> EM4100_DECODED_DATA_SIZE);
     let cd = fold (\<lambda>i cd. push_bit 1 cd) [0..<9] encoded;
     (decoded, index, value, cd) \<leftarrow> for_loop (\<lambda>r (decoded, index, value, cd). (case decode_row cd of (nibble, cd) \<Rightarrow> do {
          let value = push_bit 4 value OR nibble;
          if odd r then do {
            x \<leftarrow> rd decoded index;
            decoded \<leftarrow> wr decoded index (x OR value);
            Some (decoded, index + 1, 0, cd) }
          else Some (decoded, index, value, cd) }))
        0 EM_ROW_COUNT (replicate decoded_data_size 0, 0, 0 :: u8, cd);
     Some decoded }"

text \<open>The sum of \<open>n\<close> bits of a word, \<open>s\<close> apart, from position \<open>p\<close> on (a \<open>uint8_t\<close>).\<close>

definition parity_sum :: "u64 \<Rightarrow> nat \<Rightarrow> nat \<Rightarrow> nat \<Rightarrow> u8" where
  "parity_sum cd p s n = fold (\<lambda>j sum. sum + ucast (drop_bit (p + j * s) cd AND 1)) [0..<n] 0"

definition em4100_can_be_decoded :: "u64 \<Rightarrow> bool" where
  "em4100_can_be_decoded cd =
     (if cd AND EM_HEADER_AND_STOP_MASK \<noteq> EM_HEADER_AND_STOP_DATA then False
      else if \<exists>i\<in>set [0..<EM_ROW_COUNT]. parity_sum cd (EM_FIRST_ROW_POS - i * EM_BITS_PER_ROW_COUNT) 1 EM_BITS_PER_ROW_COUNT mod 2 \<noteq> 0
      then False
      else if \<exists>i\<in>set [0..<EM_COLUMN_COUNT]. parity_sum cd (EM_COLUMN_POS - i) EM_BITS_PER_ROW_COUNT (EM_ROW_COUNT + 1) mod 2 \<noteq> 0
      then False
      else True)"

definition protocol_em4100_decoder_start :: "ProtocolEM4100 \<Rightarrow> ProtocolEM4100" where
  "protocol_em4100_decoder_start proto =
     proto\<lparr>em_data := replicate EM4100_DECODED_DATA_SIZE 0, encoded_data := 0,
       decoder_manchester_state := fst (manchester_advance (decoder_manchester_state proto) ManchesterEventReset)\<rparr>"

definition em4100_event :: "ProtocolEM4100 \<Rightarrow> bool \<Rightarrow> nat \<Rightarrow> ManchesterEvent" where
  "em4100_event proto level duration =
     (if duration > protocol_em4100_get_short_time_low proto \<and> duration < protocol_em4100_get_short_time_high proto
      then (if \<not> level then ManchesterEventShortHigh else ManchesterEventShortLow)
      else if duration > protocol_em4100_get_long_time_low proto \<and> duration < protocol_em4100_get_long_time_high proto
      then (if \<not> level then ManchesterEventLongHigh else ManchesterEventLongLow)
      else ManchesterEventReset)"

definition protocol_em4100_decoder_feed :: "ProtocolEM4100 \<Rightarrow> bool \<Rightarrow> nat \<Rightarrow> bool \<times> ProtocolEM4100" where
  "protocol_em4100_decoder_feed proto level duration =
     (let event = em4100_event proto level duration in
      if event \<noteq> ManchesterEventReset then
        (case manchester_advance (decoder_manchester_state proto) event of (st, bitv) \<Rightarrow>
           let proto = proto\<lparr>decoder_manchester_state := st\<rparr> in
           (case bitv of
              None \<Rightarrow> (False, proto)
            | Some b \<Rightarrow>
                let proto = proto\<lparr>encoded_data := push_bit 1 (encoded_data proto) OR of_bool b\<rparr> in
                if em4100_can_be_decoded (encoded_data proto)
                then (True, proto\<lparr>em_data := the (em4100_decode (encoded_data proto) EM4100_DECODED_DATA_SIZE)\<rparr>)
                else (False, proto)))
      else (False, proto))"

section \<open>Encoding\<close>

definition em4100_write_nibble :: "bool \<Rightarrow> u8 \<Rightarrow> u64 \<Rightarrow> u64" where
  "em4100_write_nibble low_nibble d encoded =
     (let start = (if \<not> low_nibble then 4 else 0);
          (parity_sum, encoded) = fold (\<lambda>i (parity_sum, encoded).
             (parity_sum + (drop_bit i d AND 1), push_bit 1 encoded OR ucast (drop_bit i d AND 1)))
             (rev [start..<start + 4]) (0 :: u8, encoded)
      in push_bit 1 encoded OR ucast (parity_sum mod 2 AND 1))"

definition protocol_em4100_encoder_start :: "ProtocolEM4100 \<Rightarrow> (bool \<times> ProtocolEM4100) option" where
  "protocol_em4100_encoder_start proto = do {
     encoded \<leftarrow> for_loop (\<lambda>i encoded. do {
         d \<leftarrow> rd (em_data proto) i;
         Some (em4100_write_nibble True d (em4100_write_nibble False d encoded)) })
       0 EM4100_DECODED_DATA_SIZE 0b111111111;
     let encoded = fold (\<lambda>c encoded.
         let parity_sum = fold (\<lambda>i sum. sum + ucast (drop_bit (i * EM_BITS_PER_ROW_COUNT - 1) encoded AND 1)) [1..<EM_ROW_COUNT + 1] (0 :: u8)
         in push_bit 1 encoded OR ucast (parity_sum mod 2 AND 1)) [0..<EM_COLUMN_COUNT] encoded;
     let encoded = push_bit 1 encoded OR 0;
     Some (True, proto\<lparr>encoded_data := encoded, encoded_data_index := 0, encoded_polarity := True\<rparr>) }"

definition protocol_em4100_encoder_yield :: "ProtocolEM4100 \<Rightarrow> LevelDuration \<times> ProtocolEM4100" where
  "protocol_em4100_encoder_yield proto =
     (let level = (drop_bit (63 - encoded_data_index proto) (encoded_data proto) AND 1 \<noteq> 0);
          duration = clock_per_bit proto div 2 in
      if encoded_polarity proto then (level_duration_make level duration, proto\<lparr>encoded_polarity := False\<rparr>)
      else (level_duration_make (\<not> level) duration,
            proto\<lparr>encoded_polarity := True,
              encoded_data_index := (if encoded_data_index proto + 1 \<ge> 64 then 0 else encoded_data_index proto + 1)\<rparr>))"

record LFRFIDT5577 =
  block :: "u32 list"
  blocks_to_write :: nat
  t5577_mask :: u8

record LFRFIDWriteRequest =
  write_type :: nat
  t5577 :: LFRFIDT5577

definition LFRFIDWriteTypeT5577 :: nat where "LFRFIDWriteTypeT5577 = 0"

definition protocol_em4100_write_data :: "ProtocolEM4100 \<Rightarrow> LFRFIDWriteRequest \<Rightarrow> (bool \<times> ProtocolEM4100 \<times> LFRFIDWriteRequest) option" where
  "protocol_em4100_write_data proto request = do {
     (_, proto) \<leftarrow> protocol_em4100_encoder_start proto;
     decoded \<leftarrow> em4100_decode (encoded_data proto) EM4100_DECODED_DATA_SIZE;
     (_, proto) \<leftarrow> protocol_em4100_encoder_start (proto\<lparr>em_data := decoded\<rparr>);
     if write_type request = LFRFIDWriteTypeT5577 then do {
       blocks \<leftarrow> wr (block (t5577 request)) 0 (LFRFID_T5577_MODULATION_MANCHESTER OR protocol_em4100_get_t5577_bitrate proto
                     OR push_bit LFRFID_T5577_MAXBLOCK_SHIFT 2);
       blocks \<leftarrow> wr blocks 1 (ucast (drop_bit 32 (encoded_data proto)));
       blocks \<leftarrow> wr blocks 2 (ucast (encoded_data proto));
       Some (True, proto, request\<lparr>t5577 := (t5577 request)\<lparr>block := blocks, blocks_to_write := 3\<rparr>\<rparr>) }
     else Some (False, proto, request) }"

section \<open>The protocols\<close>

text \<open>The C library's \<open>%u\<close> and \<open>%0nu\<close>.\<close>

fun print_u :: "nat \<Rightarrow> string" where
  "print_u n = (if n < 10 then [char_of (48 + n)] else print_u (n div 10) @ [char_of (48 + n mod 10)])"

definition print_u0 :: "nat \<Rightarrow> nat \<Rightarrow> string" where
  "print_u0 w n = replicate (w - length (print_u n)) (CHR ''0'') @ print_u n"

definition protocol_em4100_render_data :: "ProtocolEM4100 \<Rightarrow> string" where
  "protocol_em4100_render_data proto = (let d = em_data proto in
     ''FC: '' @ print_u0 3 (unat (d ! 2)) @ '', Card: '' @ print_u0 5 (unat (push_bit 8 (ucast (d ! 3)) OR ucast (d ! 4) :: u16)) @
     [CHR 0x0A] @ ''(RF/'' @ print_u (clock_per_bit proto) @ '')'')"

definition LFRFIDFeatureASK :: u32 where "LFRFIDFeatureASK = push_bit 0 1"
definition LFRFIDFeaturePSK :: u32 where "LFRFIDFeaturePSK = push_bit 1 1"

text \<open>The tables take the starting of the encoder and the writing as total functions: they are, on the
  five bytes of data that the code declares (\<open>encoder_start\<close>, \<open>em4100_write_data\<close> below).\<close>

definition protocol_em4100 :: "(ProtocolEM4100, LFRFIDWriteRequest) ProtocolBase" where
  "protocol_em4100 = \<lparr>data_size = EM4100_DECODED_DATA_SIZE, name = ''EM4100'', manufacturer = ''EM-Micro'',
     features = (LFRFIDFeatureASK OR LFRFIDFeaturePSK), validate_count = 3,
     alloc = protocol_em4100_alloc, get_data = Some protocol_em4100_get_data, put_data = protocol_em4100_put_data,
     decoder_start = Some protocol_em4100_decoder_start, decoder_feed = Some protocol_em4100_decoder_feed,
     encoder_start = Some (\<lambda>d. the (protocol_em4100_encoder_start d)), encoder_yield = Some protocol_em4100_encoder_yield,
     render_data = Some protocol_em4100_render_data, render_brief_data = Some protocol_em4100_render_data,
     write_data = Some (\<lambda>d w. the (protocol_em4100_write_data d w))\<rparr>"

definition protocol_em4100_32 :: "(ProtocolEM4100, LFRFIDWriteRequest) ProtocolBase" where
  "protocol_em4100_32 = \<lparr>data_size = EM4100_DECODED_DATA_SIZE, name = ''EM4100/32'', manufacturer = ''EM-Micro'',
     features = (LFRFIDFeatureASK OR LFRFIDFeaturePSK), validate_count = 3,
     alloc = protocol_em4100_32_alloc, get_data = Some protocol_em4100_get_data, put_data = protocol_em4100_put_data,
     decoder_start = Some protocol_em4100_decoder_start, decoder_feed = Some protocol_em4100_decoder_feed,
     encoder_start = Some (\<lambda>d. the (protocol_em4100_encoder_start d)), encoder_yield = Some protocol_em4100_encoder_yield,
     render_data = Some protocol_em4100_render_data, render_brief_data = Some protocol_em4100_render_data,
     write_data = Some (\<lambda>d w. the (protocol_em4100_write_data d w))\<rparr>"

definition protocol_em4100_16 :: "(ProtocolEM4100, LFRFIDWriteRequest) ProtocolBase" where
  "protocol_em4100_16 = \<lparr>data_size = EM4100_DECODED_DATA_SIZE, name = ''EM4100/16'', manufacturer = ''EM-Micro'',
     features = (LFRFIDFeatureASK OR LFRFIDFeaturePSK), validate_count = 3,
     alloc = protocol_em4100_16_alloc, get_data = Some protocol_em4100_get_data, put_data = protocol_em4100_put_data,
     decoder_start = Some protocol_em4100_decoder_start, decoder_feed = Some protocol_em4100_decoder_feed,
     encoder_start = Some (\<lambda>d. the (protocol_em4100_encoder_start d)), encoder_yield = Some protocol_em4100_encoder_yield,
     render_data = Some protocol_em4100_render_data, render_brief_data = Some protocol_em4100_render_data,
     write_data = Some (\<lambda>d w. the (protocol_em4100_write_data d w))\<rparr>"

section \<open>Parity\<close>

lemma ucast_bit: "ucast (drop_bit k (w :: u64) AND 1) = (of_bool (bit w k) :: u8)"
  by (rule bit_word_eqI) (auto simp: bit_simps)

lemma parity_sum_eq: "parity_sum w p s n = of_nat (\<Sum>j<n. of_bool (bit w (p + j * s)))"
  by (induction n) (simp_all add: parity_sum_def ucast_bit)

lemma word_mod_2: "(of_nat n :: u8) mod 2 \<noteq> 0 \<longleftrightarrow> odd n"
  by (simp add: mod_2_eq_odd)

lemma parity_sum_odd: "parity_sum w p s n mod 2 \<noteq> 0 \<longleftrightarrow> odd (\<Sum>j<n. of_bool (bit w (p + j * s)) :: nat)"
  by (simp only: parity_sum_eq word_mod_2)

lemma header_check:
  "w AND EM_HEADER_AND_STOP_MASK = EM_HEADER_AND_STOP_DATA \<longleftrightarrow> (\<forall>i<9. bit w (63 - i)) \<and> \<not> bit w 0"
proof -
  have m: "bit EM_HEADER_MASK n \<longleftrightarrow> 55 \<le> n \<and> n < 64" for n
  proof -
    have "(0x1FF :: u64) = mask 9" by (simp add: mask_eq_decr_exp)
    then have "EM_HEADER_MASK = push_bit 55 (mask 9)" unfolding EM_HEADER_MASK_def EM_HEADER_POS_def by (rule arg_cong)
    then have "bit EM_HEADER_MASK n = bit (push_bit 55 (mask 9 :: u64)) n" by simp
    also have "\<dots> \<longleftrightarrow> 55 \<le> n \<and> n < 64" by (auto simp: bit_simps)
    finally show ?thesis .
  qed
  have s: "bit EM_STOP_MASK n \<longleftrightarrow> n = 0" for n
    by (auto simp: EM_STOP_MASK_def EM_STOP_POS_def bit_1_iff)
  have "w AND EM_HEADER_AND_STOP_MASK = EM_HEADER_AND_STOP_DATA \<longleftrightarrow> (\<forall>n<64. bit w n \<and> (55 \<le> n \<or> n = 0) \<longleftrightarrow> 55 \<le> n)"
    by (auto simp: bit_eq_iff EM_HEADER_AND_STOP_MASK_def EM_HEADER_AND_STOP_DATA_def bit_simps m s)
  also have "\<dots> \<longleftrightarrow> (\<forall>n. 55 \<le> n \<and> n < 64 \<longrightarrow> bit w n) \<and> \<not> bit w 0"
  proof
    assume h: "\<forall>n<64. bit w n \<and> (55 \<le> n \<or> n = 0) \<longleftrightarrow> 55 \<le> n"
    from h [rule_format, of 0] have "\<not> bit w 0" by simp
    with h show "(\<forall>n. 55 \<le> n \<and> n < 64 \<longrightarrow> bit w n) \<and> \<not> bit w 0" by auto
  qed auto
  also have "\<dots> \<longleftrightarrow> (\<forall>i<9. bit w (63 - i)) \<and> \<not> bit w 0"
  proof -
    have "bit w n" if "\<forall>i<9. bit w (63 - i)" "55 \<le> n" "n < 64" for n
      using that(1) [rule_format, of "63 - n"] that(2,3) by simp
    moreover have "bit w (63 - i)" if "\<forall>n. 55 \<le> n \<and> n < 64 \<longrightarrow> bit w n" "i < 9" for i
    proof -
      have "55 \<le> 63 - i \<and> 63 - i < 64" using that(2) by auto
      with that(1) show ?thesis by blast
    qed
    ultimately show ?thesis by blast
  qed
  finally show ?thesis .
qed

lemma can_be_decoded_iff:
  "em4100_can_be_decoded w \<longleftrightarrow> (\<forall>i<9. bit w (63 - i)) \<and> \<not> bit w 0 \<and>
    (\<forall>r<10. even (\<Sum>j<5. of_bool (bit w (50 - 5 * r + j)) :: nat)) \<and>
    (\<forall>c<4. even (\<Sum>j<11. of_bool (bit w (4 - c + j * 5)) :: nat))"
  unfolding em4100_can_be_decoded_def header_check parity_sum_odd
  by (auto simp: EM_ROW_COUNT_def EM_COLUMN_COUNT_def EM_BITS_PER_ROW_COUNT_def EM_FIRST_ROW_POS_def EM_COLUMN_POS_def mult.commute)

section \<open>The code word\<close>

definition nibble_bits :: "nat \<Rightarrow> u8 \<Rightarrow> bool list" where
  "nibble_bits s d = [bit d (s + 3), bit d (s + 2), bit d (s + 1), bit d s]"

definition odd_ones :: "bool list \<Rightarrow> bool" where
  "odd_ones bs = odd (length (filter id bs))"

definition em_row :: "nat \<Rightarrow> u8 \<Rightarrow> bool list" where
  "em_row s d = nibble_bits s d @ [odd_ones (nibble_bits s d)]"

definition em_rows :: "u8 list \<Rightarrow> bool list list" where
  "em_rows data = concat (map (\<lambda>d. [em_row 4 d, em_row 0 d]) data)"

definition em_columns :: "bool list list \<Rightarrow> nat \<Rightarrow> bool list" where
  "em_columns rows n = map (\<lambda>c. odd_ones (map (\<lambda>row. row ! c) rows)) [0..<n]"

definition em_codeword :: "u8 list \<Rightarrow> bool list" where
  "em_codeword data = replicate 9 True @ concat (em_rows data) @ em_columns (em_rows data) 4 @ [False]"

lemma shift_in_loop:
  "fold (\<lambda>i (s, e). (s + (drop_bit i d AND 1), push_bit 1 e OR ucast (drop_bit i d AND 1))) ks (of_nat n, num_of_bits L)
   = (of_nat (n + length (filter (bit d) ks)) :: u8, num_of_bits (L @ map (bit d) ks) :: u64)"
proof (induction ks arbitrary: n L)
  case (Cons k ks)
  have b: "(drop_bit k d AND 1 :: u8) = of_bool (bit d k)"
    by (rule bit_word_eqI) (auto simp: bit_simps)
  have e: "push_bit 1 (num_of_bits L) OR ucast (of_bool (bit d k) :: u8) = (num_of_bits (L @ [bit d k]) :: u64)"
    by (simp only: num_of_bits_snoc) simp
  have s: "of_nat n + (of_bool (bit d k) :: u8) = of_nat (n + of_bool (bit d k))" by simp
  show ?case
    using Cons [of "n + of_bool (bit d k)" "L @ [bit d k]"] by (simp only: fold_Cons comp_def case_prod_conv b e s) simp
qed simp

lemma push_parity: "push_bit 1 (num_of_bits L) OR ucast ((of_nat n :: u8) mod 2 AND 1) = (num_of_bits (L @ [odd n]) :: u64)"
proof -
  have "(of_nat n :: u8) mod 2 AND 1 = of_bool (odd n)" by (simp add: mod_2_eq_odd)
  then show ?thesis by (simp only: num_of_bits_snoc) simp
qed

lemma write_nibble:
  "em4100_write_nibble low d (num_of_bits L) = num_of_bits (L @ em_row (if low then 0 else 4) d)"
proof -
  define s where "s = (if \<not> low then 4 else 0 :: nat)"
  have r: "rev [s..<s + 4] = [s + 3, s + 2, s + 1, s]" by (simp add: s_def upt_rec)
  have bits: "map (bit d) [s + 3, s + 2, s + 1, s] = nibble_bits s d" by (simp add: nibble_bits_def)
  have ones: "length (filter (bit d) [s + 3, s + 2, s + 1, s]) = length (filter id (nibble_bits s d))"
    by (simp add: nibble_bits_def)
  have "em4100_write_nibble low d (num_of_bits L) =
      (case fold (\<lambda>i (s, e). (s + (drop_bit i d AND 1), push_bit 1 e OR ucast (drop_bit i d AND 1)))
         [s + 3, s + 2, s + 1, s] (of_nat 0 :: u8, num_of_bits L) of (sm, e) \<Rightarrow> push_bit 1 e OR ucast (sm mod 2 AND 1))"
    by (simp only: em4100_write_nibble_def s_def [symmetric] r Let_def semiring_1_class.of_nat_0)
  also have "\<dots> = num_of_bits ((L @ nibble_bits s d) @ [odd (length (filter id (nibble_bits s d)))])"
    unfolding shift_in_loop bits ones case_prod_conv by (simp only: push_parity add_0)
  finally show ?thesis by (simp add: em_row_def odd_ones_def s_def)
qed

lemma bit_codeword: "length L = n \<Longrightarrow> n \<le> 64 \<Longrightarrow> k < n \<Longrightarrow> bit (num_of_bits L :: u64) (n - 1 - k) = L ! k"
  by (auto simp: bit_num_of_bits)

lemma write_nibbles:
  "length data \<ge> n \<Longrightarrow> for_loop (\<lambda>i e. do { d \<leftarrow> rd data i; Some (em4100_write_nibble True d (em4100_write_nibble False d e)) }) 0 n (num_of_bits L)
   = Some (num_of_bits (L @ concat (em_rows (take n data))))"
proof (induction n)
  case 0
  then show ?case by (simp add: em_rows_def)
next
  case (Suc n)
  then show ?case
    by (simp add: for_loop_snoc rd_Some write_nibble em_rows_def take_Suc_conv_app_nth del: for_loop.simps(2))
qed

lemma rows_shape: "length (em_rows data) = 2 * length data" "\<forall>row\<in>set (em_rows data). length row = 5"
  by (induction data) (auto simp: em_rows_def em_row_def nibble_bits_def)

lemma concat_rows:
  assumes "\<forall>row\<in>set rows. length row = 5"
  shows "length (concat rows) = 5 * length rows" "r < length rows \<Longrightarrow> i < 5 \<Longrightarrow> concat rows ! (5 * r + i) = rows ! r ! i"
proof -
  show "length (concat rows) = 5 * length rows" using assms by (induction rows) simp_all
  show "r < length rows \<Longrightarrow> i < 5 \<Longrightarrow> concat rows ! (5 * r + i) = rows ! r ! i"
    using assms
  proof (induction rows arbitrary: r)
    case (Cons row rows)
    show ?case
    proof (cases r)
      case 0
      with Cons.prems show ?thesis by (simp add: nth_append)
    next
      case (Suc q)
      with Cons.prems have "concat rows ! (5 * q + i) = rows ! q ! i" by (intro Cons.IH) simp_all
      with Suc Cons.prems show ?thesis by (simp add: nth_append)
    qed
  qed simp
qed

lemma fold_plus: "fold (\<lambda>i sm. sm + of_bool (P i)) is (of_nat n :: u8) = of_nat (n + length (filter P is))"
proof (induction "is" arbitrary: n)
  case (Cons i ks)
  let ?f = "\<lambda>i sm. sm + (of_bool (P i) :: u8)"
  have "fold ?f (i # ks) (of_nat n) = fold ?f ks (of_nat n + of_bool (P i))" by (simp only: fold_Cons comp_def)
  also have "of_nat n + (of_bool (P i) :: u8) = of_nat (n + of_bool (P i))" by simp
  also have "fold ?f ks (of_nat (n + of_bool (P i))) = of_nat (n + of_bool (P i) + length (filter P ks))" by (rule Cons)
  also have "n + of_bool (P i) + length (filter P ks) = n + length (filter P (i # ks))" by simp
  finally show ?case .
qed simp

lemma filter_reindex:
  assumes "length rows = 10"
  shows "length (filter (\<lambda>i. rows ! (10 - i) ! c) [1..<11]) = length (filter id (map (\<lambda>row. row ! c) rows))"
proof -
  have "rows = map (\<lambda>i. rows ! (10 - i)) (rev [1..<11])"
    using assms by (intro nth_equalityI) (auto simp: rev_nth)
  then have "filter id (map (\<lambda>row. row ! c) rows) = filter id (map (\<lambda>row. row ! c) (map (\<lambda>i. rows ! (10 - i)) (rev [1..<11])))"
    by simp
  also have "length \<dots> = length (filter (\<lambda>i. rows ! (10 - i) ! c) (rev [1..<11]))"
    by (simp add: filter_map comp_def del: upt_Suc)
  finally show ?thesis by (metis length_rev rev_filter)
qed

lemma columns_loop:
  assumes len: "length rows = 10" "\<forall>row\<in>set rows. length row = 5" and c: "c \<le> 4"
  shows "fold (\<lambda>c e. let s = fold (\<lambda>i sum. sum + ucast (drop_bit (i * EM_BITS_PER_ROW_COUNT - 1) e AND 1)) [1..<EM_ROW_COUNT + 1] (0 :: u8)
         in push_bit 1 e OR ucast (s mod 2 AND 1)) [0..<c] (num_of_bits (replicate 9 True @ concat rows) :: u64)
     = num_of_bits (replicate 9 True @ concat rows @ em_columns rows c)"
  using c
proof (induction c)
  case 0
  then show ?case by (simp add: em_columns_def)
next
  case (Suc c)
  let ?L = "replicate 9 True @ concat rows @ em_columns rows c"
  note cr = concat_rows [OF len(2)]
  have lc: "length ?L = 59 + c" using cr(1) len(1) by (simp add: em_columns_def)
  have bt: "bit (num_of_bits ?L :: u64) (i * EM_BITS_PER_ROW_COUNT - 1) = rows ! (10 - i) ! c" if i: "i \<in> set [1..<11]" for i
  proof -
    have "i * EM_BITS_PER_ROW_COUNT - 1 = (59 + c) - 1 - (9 + (5 * (10 - i) + c))"
      using i Suc.prems unfolding EM_BITS_PER_ROW_COUNT_def EM_COLUMN_COUNT_def by simp arith
    then have "bit (num_of_bits ?L :: u64) (i * EM_BITS_PER_ROW_COUNT - 1) = ?L ! (9 + (5 * (10 - i) + c))"
      using bit_codeword [OF lc, of "9 + (5 * (10 - i) + c)"] i Suc.prems by simp
    also have "\<dots> = concat rows ! (5 * (10 - i) + c)"
    proof -
      have "5 * (10 - i) + c < 50" using i Suc.prems by simp arith
      then show ?thesis using cr(1) len(1) by (simp add: nth_append)
    qed
    also have "\<dots> = rows ! (10 - i) ! c" using i Suc.prems len(1) by (intro cr(2)) auto
    finally show ?thesis .
  qed
  have "fold (\<lambda>i sum. sum + ucast (drop_bit (i * EM_BITS_PER_ROW_COUNT - 1) (num_of_bits ?L :: u64) AND 1)) [1..<EM_ROW_COUNT + 1] (0 :: u8)
      = fold (\<lambda>i sum. sum + of_bool (rows ! (10 - i) ! c)) [1..<11] (of_nat 0)"
  proof (rule fold_cong)
    fix i assume "i \<in> set [1..<EM_ROW_COUNT + 1]"
    then have "bit (num_of_bits ?L :: u64) (i * EM_BITS_PER_ROW_COUNT - 1) = rows ! (10 - i) ! c"
      by (intro bt) (simp add: EM_ROW_COUNT_def)
    then show "(\<lambda>sum. sum + ucast (drop_bit (i * EM_BITS_PER_ROW_COUNT - 1) (num_of_bits ?L :: u64) AND 1)) =
        (\<lambda>sum. sum + (of_bool (rows ! (10 - i) ! c) :: u8))" by (simp only: ucast_bit)
  qed (simp_all add: EM_ROW_COUNT_def)
  also have "\<dots> = of_nat (length (filter id (map (\<lambda>row. row ! c) rows)))"
    unfolding fold_plus filter_reindex [OF len(1)] by simp
  finally have s: "fold (\<lambda>i sum. sum + ucast (drop_bit (i * EM_BITS_PER_ROW_COUNT - 1) (num_of_bits ?L :: u64) AND 1)) [1..<EM_ROW_COUNT + 1] (0 :: u8)
      = of_nat (length (filter id (map (\<lambda>row. row ! c) rows)))" .
  have "em_columns rows (Suc c) = em_columns rows c @ [odd_ones (map (\<lambda>row. row ! c) rows)]" by (simp add: em_columns_def)
  with Suc s push_parity [of ?L] show ?case by (simp add: Let_def odd_ones_def)
qed

lemma encoder_start:
  assumes "length (em_data proto) = 5"
  shows "protocol_em4100_encoder_start proto = Some (True, proto\<lparr>encoded_data := num_of_bits (em_codeword (em_data proto)),
    encoded_data_index := 0, encoded_polarity := True\<rparr>)"
proof -
  have h: "(0b111111111 :: u64) = num_of_bits (replicate 9 True)" by (simp add: num_of_bits_def numeral_eq_Suc)
  have z: "push_bit 1 (num_of_bits L) OR 0 = (num_of_bits (L @ [False]) :: u64)" for L
    by (simp only: num_of_bits_snoc) simp
  have len: "length (em_rows (em_data proto)) = 10" using assms by (simp add: rows_shape)
  have nib: "for_loop (\<lambda>i e. do { d \<leftarrow> rd (em_data proto) i; Some (em4100_write_nibble True d (em4100_write_nibble False d e)) })
      0 5 (0b111111111 :: u64) = Some (num_of_bits (replicate 9 True @ concat (em_rows (em_data proto))))"
    unfolding h using write_nibbles [of 5 "em_data proto" "replicate 9 True"] assms by simp
  note col = columns_loop [OF len rows_shape(2) order_refl]
  show ?thesis
    unfolding protocol_em4100_encoder_start_def EM4100_DECODED_DATA_SIZE_def nib bind.bind_lunit Let_def EM_COLUMN_COUNT_def
      col [unfolded Let_def] z em_codeword_def append_assoc ..
qed

text \<open>Decoding reads the first four bits of each row.\<close>

lemma and_top: "cd AND push_bit 63 1 \<noteq> 0 \<longleftrightarrow> bit (cd :: u64) 63"
  by (rule bit_iff_and_push_bit_not_eq_0 [symmetric])

lemma decode_row_eq: "decode_row cd = (num_of_bits [bit cd 63, bit cd 62, bit cd 61, bit cd 60], push_bit 5 cd)"
proof -
  have s: "push_bit 1 (num_of_bits L) OR (if b then 1 else 0) = (num_of_bits (L @ [b]) :: u8)" for L b
    by (simp only: num_of_bits_snoc) simp
  have s0: "push_bit 1 0 OR (if b then 1 else 0) = (num_of_bits [b] :: u8)" for b using s [of "[]" b] by simp
  have sh: "bit (push_bit 1 x) 63 = bit x 62" "bit (push_bit 1 x) 62 = bit x 61" "bit (push_bit 1 x) 61 = bit x 60" for x :: u64
    unfolding bit_push_bit_iff by simp_all
  have p: "push_bit 1 (push_bit 1 (push_bit 1 (push_bit 1 (push_bit 1 x)))) = push_bit 5 x" for x :: u64
  proof -
    have "(1::nat) + (1 + (1 + (1 + 1))) = 5" by simp
    then show ?thesis by (simp only: push_bit_push_bit)
  qed
  have lt: "(0::nat) < 4" "(1::nat) < 4" "(2::nat) < 4" "(3::nat) < 4" "\<not> (4::nat) < 4" by simp_all
  have u: "[0..<5] = [0, 1, 2, 3, 4 :: nat]" by (simp add: upt_rec)
  show ?thesis
    unfolding decode_row_def u
    by (simp only: fold_Cons fold_Nil comp_def id_apply case_prod_conv and_top lt if_True if_False s0 s append.simps sh p)
qed

text \<open>Byte \<open>k\<close> of the data, as the word spells it.\<close>

definition em_byte :: "u64 \<Rightarrow> nat \<Rightarrow> u8" where
  "em_byte w k = num_of_bits [bit w (54 - 10 * k), bit w (53 - 10 * k), bit w (52 - 10 * k), bit w (51 - 10 * k),
     bit w (49 - 10 * k), bit w (48 - 10 * k), bit w (47 - 10 * k), bit w (46 - 10 * k)]"

lemma decode_row_shifted:
  assumes "k \<le> 60"
  shows "decode_row (push_bit k w) =
    (num_of_bits [bit w (63 - k), bit w (62 - k), bit w (61 - k), bit w (60 - k)], push_bit (k + 5) w)"
proof -
  have "bit (push_bit k w) n = bit w (n - k)" if "60 \<le> n" "n < 64" for n
    using assms that by (simp add: bit_push_bit_iff)
  moreover have "push_bit 5 (push_bit k w) = push_bit (k + 5) w" by (simp only: push_bit_push_bit add.commute)
  ultimately show ?thesis using assms by (simp add: decode_row_eq del: push_bit_push_bit)
qed

definition decode_turn :: "nat \<Rightarrow> u8 list \<times> nat \<times> u8 \<times> u64 \<Rightarrow> (u8 list \<times> nat \<times> u8 \<times> u64) option" where
  "decode_turn = (\<lambda>r (decoded, index, value, cd). (case decode_row cd of (nibble, cd) \<Rightarrow> do {
          let value = push_bit 4 value OR nibble;
          if odd r then do {
            x \<leftarrow> rd decoded index;
            decoded \<leftarrow> wr decoded index (x OR value);
            Some (decoded, index + 1, 0, cd) }
          else Some (decoded, index, value, cd) }))"

lemma decode_pair:
  assumes "k < 5" "length decoded = 5" "decoded ! k = 0"
  shows "for_loop decode_turn (2 * k) 2 (decoded, k, 0, push_bit (9 + 10 * k) w)
    = Some (decoded[k := em_byte w k], k + 1, 0, push_bit (9 + 10 * (k + 1)) w)"
proof -
  let ?h = "num_of_bits [bit w (54 - 10 * k), bit w (53 - 10 * k), bit w (52 - 10 * k), bit w (51 - 10 * k)] :: u8"
  let ?l = "num_of_bits [bit w (49 - 10 * k), bit w (48 - 10 * k), bit w (47 - 10 * k), bit w (46 - 10 * k)] :: u8"
  have r1: "decode_row (push_bit (9 + 10 * k) w) = (?h, push_bit (14 + 10 * k) w)"
    using decode_row_shifted [of "9 + 10 * k" w] assms(1) by (simp add: add.commute)
  have r2: "decode_row (push_bit (14 + 10 * k) w) = (?l, push_bit (19 + 10 * k) w)"
    using decode_row_shifted [of "14 + 10 * k" w] assms(1) by (simp add: add.commute)
  have l4: "length [a, b, c, d] = 4" for a b c d :: bool by simp
  have v: "push_bit 4 ?h OR ?l = em_byte w k"
    unfolding em_byte_def using num_of_bits_append [of "[bit w (54 - 10 * k), bit w (53 - 10 * k), bit w (52 - 10 * k), bit w (51 - 10 * k)]"
      "[bit w (49 - 10 * k), bit w (48 - 10 * k), bit w (47 - 10 * k), bit w (46 - 10 * k)]", where 'a = 8]
    by (simp only: append.simps l4)
  have t1: "decode_turn (2 * k) (decoded, k, 0, push_bit (9 + 10 * k) w) = Some (decoded, k, ?h, push_bit (14 + 10 * k) w)"
    by (simp add: decode_turn_def r1 del: push_bit_eq_mult)
  have t2: "decode_turn (Suc (2 * k)) (decoded, k, ?h, push_bit (14 + 10 * k) w) = Some (decoded[k := em_byte w k], k + 1, 0, push_bit (19 + 10 * k) w)"
    using assms by (simp only: decode_turn_def r2 v case_prod_conv Let_def) (simp add: rd_Some wr_Some)
  have "for_loop f i 2 s = (case f i s of None \<Rightarrow> None | Some s \<Rightarrow> f (Suc i) s)" for f i and s :: "u8 list \<times> nat \<times> u8 \<times> u64"
    by (simp add: numeral_2_eq_2 split: option.split)
  then show ?thesis using t1 t2 by (simp add: add.commute)
qed

lemma decode_pairs:
  "k \<le> 5 \<Longrightarrow> for_loop decode_turn 0 (2 * k) (replicate 5 0, 0, 0, push_bit 9 w)
    = Some (map (\<lambda>i. if i < k then em_byte w i else 0) [0..<5], k, 0, push_bit (9 + 10 * k) w)"
proof (induction k)
  case 0
  then show ?case by (simp add: upt_rec numeral_eq_Suc)
next
  case (Suc k)
  have "2 * Suc k = 2 * k + 2" by simp
  moreover have "(map (\<lambda>i. if i < k then em_byte w i else 0) [0..<5])[k := em_byte w k]
      = map (\<lambda>i. if i < Suc k then em_byte w i else 0) [0..<5]"
    using Suc.prems by (intro nth_equalityI) (auto simp: nth_list_update less_Suc_eq)
  ultimately show ?case
    using Suc decode_pair [of k "map (\<lambda>i. if i < k then em_byte w i else 0) [0..<5]" w]
    by (simp only: for_loop_append) simp
qed

lemma em4100_decode_eq: "em4100_decode w 5 = Some (map (em_byte w) [0..<5])"
proof -
  have "fold (\<lambda>i. push_bit 1) [0..<n] w = push_bit n w" for n
  proof (induction n)
    case (Suc n)
    have "fold (\<lambda>i. push_bit 1) [0..<Suc n] w = push_bit 1 (fold (\<lambda>i. push_bit 1) [0..<n] w)"
      by (simp only: upt_Suc le0 if_True fold_append comp_apply fold_Cons fold_Nil id_apply)
    then show ?case by (simp only: Suc push_bit_push_bit plus_1_eq_Suc)
  qed simp
  then have p: "fold (\<lambda>i cd. push_bit 1 cd) [0..<9] w = push_bit 9 w" .
  have m: "map (\<lambda>i. if i < 5 then em_byte w i else 0) [0..<5] = map (em_byte w) [0..<5]" by simp
  show ?thesis
    using decode_pairs [of 5 w] unfolding em4100_decode_def decode_turn_def [symmetric]
    by (simp only: p m Let_def EM4100_DECODED_DATA_SIZE_def EM_ROW_COUNT_def) simp
qed

lemma em_rows_nth:
  assumes "k < length data"
  shows "em_rows data ! (2 * k) = em_row 4 (data ! k)" "em_rows data ! (2 * k + 1) = em_row 0 (data ! k)"
  using assms
proof (induction data arbitrary: k)
  case (Cons d data)
  { case 1 then show ?case using Cons(1) by (cases k) (auto simp: em_rows_def) }
  { case 2 then show ?case using Cons(2) by (cases k) (auto simp: em_rows_def) }
qed simp_all

lemma codeword_length: "length data = 5 \<Longrightarrow> length (em_codeword data) = 64"
  using concat_rows(1) [OF rows_shape(2), of data] by (simp add: em_codeword_def rows_shape(1) em_columns_def)

lemma codeword_bit:
  assumes "length data = 5"
  shows "i < 64 \<Longrightarrow> bit (num_of_bits (em_codeword data) :: u64) (63 - i) = em_codeword data ! i"
  using bit_codeword [OF codeword_length [OF assms], of i] by simp

lemma codeword_nth:
  assumes "length data = 5"
  shows "i < 9 \<Longrightarrow> em_codeword data ! i" "\<not> em_codeword data ! 63"
    "r < 10 \<Longrightarrow> j < 5 \<Longrightarrow> em_codeword data ! (9 + 5 * r + j) = em_rows data ! r ! j"
    "c < 4 \<Longrightarrow> em_codeword data ! (59 + c) = odd_ones (map (\<lambda>row. row ! c) (em_rows data))"
proof -
  have l: "length (concat (em_rows data)) = 50" "length (em_rows data) = 10"
    using concat_rows(1) [OF rows_shape(2), of data] assms by (simp_all add: rows_shape(1))
  show "i < 9 \<Longrightarrow> em_codeword data ! i" by (simp add: em_codeword_def nth_append)
  show "\<not> em_codeword data ! 63" using l by (simp add: em_codeword_def nth_append em_columns_def)
  show "r < 10 \<Longrightarrow> j < 5 \<Longrightarrow> em_codeword data ! (9 + 5 * r + j) = em_rows data ! r ! j"
    using l concat_rows(2) [OF rows_shape(2), of r data j] by (simp add: em_codeword_def nth_append)
  show "c < 4 \<Longrightarrow> em_codeword data ! (59 + c) = odd_ones (map (\<lambda>row. row ! c) (em_rows data))"
    using l by (simp add: em_codeword_def nth_append em_columns_def)
qed

section \<open>Exactly the code words\<close>

definition word_rows :: "u64 \<Rightarrow> bool list list" where
  "word_rows w = map (\<lambda>r. map (\<lambda>j. bit w (54 - 5 * r - j)) [0..<5]) [0..<10]"

lemma word_rows_nth: "r < 10 \<Longrightarrow> word_rows w ! r = map (\<lambda>j. bit w (54 - 5 * r - j)) [0..<5]"
  by (simp add: word_rows_def)

lemma word_rows_length [simp]: "length (word_rows w) = 10"
  by (simp add: word_rows_def)

lemma ones_sum: "length (filter id xs) = (\<Sum>i<length xs. of_bool (xs ! i))"
proof (induction xs rule: rev_induct)
  case (snoc x xs)
  then show ?case by (simp add: nth_append)
qed simp

lemma row_check:
  assumes "r < 10"
  shows "(\<Sum>j<5. of_bool (bit w (50 - 5 * r + j)) :: nat) = length (filter id (word_rows w ! r))"
proof -
  have "(\<Sum>j<5. of_bool (bit w (50 - 5 * r + j)) :: nat) = (\<Sum>j<5. of_bool (bit w (50 - 5 * r + (5 - Suc j))))"
    by (rule sum.nat_diff_reindex [symmetric])
  also have "\<dots> = (\<Sum>j<5. of_bool (word_rows w ! r ! j))"
    using assms by (intro sum.cong) (auto simp: word_rows_nth intro!: arg_cong [where f = "bit w"])
  also have "\<dots> = length (filter id (word_rows w ! r))"
  proof -
    have l: "length (word_rows w ! r) = 5" using assms by (simp add: word_rows_nth)
    show ?thesis by (simp only: ones_sum l)
  qed
  finally show ?thesis .
qed

lemma column_check:
  assumes "c < 4"
  shows "even (\<Sum>j<11. of_bool (bit w (4 - c + j * 5)) :: nat) \<longleftrightarrow> bit w (4 - c) = odd_ones (map (\<lambda>row. row ! c) (word_rows w))"
proof -
  let ?f = "\<lambda>j. of_bool (bit w (4 - c + j * 5)) :: nat"
  have "(\<Sum>j<11. ?f j) = ?f 0 + (\<Sum>j<10. ?f (Suc j))"
    using sum.lessThan_Suc_shift [of ?f 10] by simp
  also have "(\<Sum>j<10. ?f (Suc j)) = (\<Sum>j<10. ?f (Suc (10 - Suc j)))"
    by (rule sum.nat_diff_reindex [symmetric])
  also have "\<dots> = (\<Sum>j<10. of_bool (map (\<lambda>row. row ! c) (word_rows w) ! j))"
  proof (rule sum.cong)
    fix j :: nat assume j: "j \<in> {..<10}"
    then have "4 - c + Suc (10 - Suc j) * 5 = 54 - 5 * j - c" using assms by simp
    with j assms show "?f (Suc (10 - Suc j)) = of_bool (map (\<lambda>row. row ! c) (word_rows w) ! j)" by (simp add: word_rows_nth)
  qed simp
  also have "\<dots> = length (filter id (map (\<lambda>row. row ! c) (word_rows w)))"
    by (simp only: ones_sum length_map word_rows_length)
  finally show ?thesis by (auto simp: odd_ones_def)
qed

lemma even_row: "length row = 5 \<Longrightarrow> even (length (filter id row)) \<longleftrightarrow> row = take 4 row @ [odd_ones (take 4 row)]"
proof -
  assume "length row = 5"
  then obtain a b c d e where "row = [a, b, c, d, e]" by (auto simp: numeral_eq_Suc length_Suc_conv)
  then show ?thesis by (cases e) (auto simp: odd_ones_def)
qed

definition word_data :: "u64 \<Rightarrow> u8 list" where
  "word_data w = map (em_byte w) [0..<5]"

lemma word_data_rows:
  assumes "r < 10"
  shows "em_rows (word_data w) ! r = take 4 (word_rows w ! r) @ [odd_ones (take 4 (word_rows w ! r))]"
proof -
  define k where "k = r div 2"
  have k: "k < 5" "r = 2 * k \<or> r = 2 * k + 1" using assms by (auto simp: k_def)
  have e: "take 4 (map f [0..<5]) = [f 0, f 1, f 2, f 3]" for f :: "nat \<Rightarrow> bool" by (simp add: upt_rec numeral_eq_Suc)
  have b: "word_data w ! k = em_byte w k" "k < length (word_data w)" using k by (simp_all add: word_data_def)
  have bits: "bit (num_of_bits [a7, a6, a5, a4, a3, a2, a1, a0] :: u8) 7 = a7" "bit (num_of_bits [a7, a6, a5, a4, a3, a2, a1, a0] :: u8) 6 = a6"
     "bit (num_of_bits [a7, a6, a5, a4, a3, a2, a1, a0] :: u8) 5 = a5" "bit (num_of_bits [a7, a6, a5, a4, a3, a2, a1, a0] :: u8) 4 = a4"
     "bit (num_of_bits [a7, a6, a5, a4, a3, a2, a1, a0] :: u8) 3 = a3" "bit (num_of_bits [a7, a6, a5, a4, a3, a2, a1, a0] :: u8) 2 = a2"
     "bit (num_of_bits [a7, a6, a5, a4, a3, a2, a1, a0] :: u8) (Suc (Suc 0)) = a2" "bit (num_of_bits [a7, a6, a5, a4, a3, a2, a1, a0] :: u8) (Suc 0) = a1"
     "bit (num_of_bits [a7, a6, a5, a4, a3, a2, a1, a0] :: u8) 1 = a1" "bit (num_of_bits [a7, a6, a5, a4, a3, a2, a1, a0] :: u8) 0 = a0"
     for a7 a6 a5 a4 a3 a2 a1 a0 by (simp_all add: bit_num_of_bits)
  have n0: "nibble_bits 4 (em_byte w k) = take 4 (word_rows w ! (2 * k))"
    using k(1) by (simp add: nibble_bits_def em_byte_def bits word_rows_nth e)
  have n1: "nibble_bits 0 (em_byte w k) = take 4 (word_rows w ! (2 * k + 1))"
    using k(1) by (simp add: nibble_bits_def em_byte_def bits word_rows_nth e)
  from k(2) show ?thesis
    using em_rows_nth [OF b(2)] n0 n1 by (auto simp: em_row_def b(1))
qed

lemma can_be_decoded_rows:
  "em4100_can_be_decoded w \<longleftrightarrow> (\<forall>i<9. bit w (63 - i)) \<and> \<not> bit w 0 \<and>
    (\<forall>r<10. word_rows w ! r = take 4 (word_rows w ! r) @ [odd_ones (take 4 (word_rows w ! r))]) \<and>
    (\<forall>c<4. bit w (4 - c) = odd_ones (map (\<lambda>row. row ! c) (word_rows w)))"
proof -
  have "even (\<Sum>j<5. of_bool (bit w (50 - 5 * r + j)) :: nat) \<longleftrightarrow>
      word_rows w ! r = take 4 (word_rows w ! r) @ [odd_ones (take 4 (word_rows w ! r))]" if "r < 10" for r
    unfolding row_check [OF that] by (rule even_row) (simp add: word_rows_nth that)
  then have "(\<forall>r<10. even (\<Sum>j<5. of_bool (bit w (50 - 5 * r + j)) :: nat)) \<longleftrightarrow>
      (\<forall>r<10. word_rows w ! r = take 4 (word_rows w ! r) @ [odd_ones (take 4 (word_rows w ! r))])" by blast
  moreover have "(\<forall>c<4. even (\<Sum>j<11. of_bool (bit w (4 - c + j * 5)) :: nat)) \<longleftrightarrow>
      (\<forall>c<4. bit w (4 - c) = odd_ones (map (\<lambda>row. row ! c) (word_rows w)))" using column_check by blast
  ultimately show ?thesis unfolding can_be_decoded_iff by blast
qed

lemma word_data_length [simp]: "length (word_data w) = 5"
  by (simp add: word_data_def)

text \<open>A word is the code word of some data exactly when its pieces agree.\<close>

lemma codeword_eq:
  assumes "length data = 5"
  shows "w = num_of_bits (em_codeword data) \<longleftrightarrow> (\<forall>i<9. bit w (63 - i)) \<and> \<not> bit w 0 \<and> word_rows w = em_rows data \<and>
    (\<forall>c<4. bit w (4 - c) = odd_ones (map (\<lambda>row. row ! c) (em_rows data)))"
proof -
  have "w = num_of_bits (em_codeword data) \<longleftrightarrow> (\<forall>i<64. bit w (63 - i) = em_codeword data ! i)"
  proof
    assume h: "\<forall>i<64. bit w (63 - i) = em_codeword data ! i"
    show "w = num_of_bits (em_codeword data)"
    proof (rule bit_word_eqI)
      fix n assume n: "n < LENGTH(64)"
      then have "bit w (63 - (63 - n)) = em_codeword data ! (63 - n)" using h [rule_format, of "63 - n"] by simp
      moreover have "bit (num_of_bits (em_codeword data) :: u64) (63 - (63 - n)) = em_codeword data ! (63 - n)"
        by (rule codeword_bit [OF assms]) (use n in simp)
      moreover have "63 - (63 - n) = n" using n by simp
      ultimately show "bit w n = bit (num_of_bits (em_codeword data) :: u64) n" by simp
    qed
  qed (simp add: codeword_bit [OF assms])
  also have "\<dots> \<longleftrightarrow> (\<forall>i<9. bit w (63 - i)) \<and> \<not> bit w 0 \<and> (\<forall>r<10. \<forall>j<5. bit w (54 - 5 * r - j) = em_rows data ! r ! j) \<and>
      (\<forall>c<4. bit w (4 - c) = odd_ones (map (\<lambda>row. row ! c) (em_rows data)))" (is "_ \<longleftrightarrow> ?parts")
  proof
    assume h: "\<forall>i<64. bit w (63 - i) = em_codeword data ! i"
    have "bit w (63 - i)" if "i < 9" for i using h that codeword_nth(1) [OF assms] by simp
    moreover have "\<not> bit w 0" using h [rule_format, of 63] codeword_nth(2) [OF assms] by simp
    moreover have "bit w (54 - 5 * r - j) = em_rows data ! r ! j" if "r < 10" "j < 5" for r j
      using h [rule_format, of "9 + 5 * r + j"] that codeword_nth(3) [OF assms that] by simp
    moreover have "bit w (4 - c) = odd_ones (map (\<lambda>row. row ! c) (em_rows data))" if "c < 4" for c
      using h [rule_format, of "59 + c"] that codeword_nth(4) [OF assms that] by simp
    ultimately show ?parts by blast
  next
    assume p: ?parts
    show "\<forall>i<64. bit w (63 - i) = em_codeword data ! i"
    proof (intro allI impI)
      fix i :: nat assume i: "i < 64"
      consider "i < 9" | "9 \<le> i" "i < 59" | "59 \<le> i" "i < 63" | "i = 63" using i by linarith
      then show "bit w (63 - i) = em_codeword data ! i"
      proof cases
        case 1
        with p show ?thesis using codeword_nth(1) [OF assms 1] by simp
      next
        case 2
        define r j where "r = (i - 9) div 5" and "j = (i - 9) mod 5"
        have rj: "i = 9 + 5 * r + j" "r < 10" "j < 5" using 2 by (auto simp: r_def j_def)
        then have "bit w (54 - 5 * r - j) = em_rows data ! r ! j" using p by blast
        moreover have "63 - i = 54 - 5 * r - j" using rj by simp
        ultimately show ?thesis using codeword_nth(3) [OF assms rj(2,3)] rj(1) by metis
      next
        case 3
        define c where "c = i - 59"
        have c: "i = 59 + c" "c < 4" using 3 by (auto simp: c_def)
        then have "63 - i = 4 - c" by simp
        then show ?thesis using p c codeword_nth(4) [OF assms c(2)] by metis
      next
        case 4
        with p show ?thesis using codeword_nth(2) [OF assms] by simp
      qed
    qed
  qed
  also have "(\<forall>r<10. \<forall>j<5. bit w (54 - 5 * r - j) = em_rows data ! r ! j) \<longleftrightarrow> word_rows w = em_rows data"
  proof
    assume h: "\<forall>r<10. \<forall>j<5. bit w (54 - 5 * r - j) = em_rows data ! r ! j"
    have "length (em_rows data) = 10" using assms by (simp add: rows_shape)
    moreover have "word_rows w ! r = em_rows data ! r" if "r < 10" for r
      using h that rows_shape(2) [of data] assms by (intro nth_equalityI) (simp_all add: word_rows_nth rows_shape(1))
    ultimately show "word_rows w = em_rows data" by (intro nth_equalityI) simp_all
  next
    assume "word_rows w = em_rows data"
    then show "\<forall>r<10. \<forall>j<5. bit w (54 - 5 * r - j) = em_rows data ! r ! j"
      using word_rows_nth [of _ w] by (metis (no_types, lifting) add_0 diff_zero length_upt nth_map nth_upt)
  qed
  finally show ?thesis .
qed

lemma codeword_word_data:
  assumes "em4100_can_be_decoded w"
  shows "w = num_of_bits (em_codeword (word_data w))"
proof -
  have "word_rows w ! r = em_rows (word_data w) ! r" if "r < 10" for r
    using assms that word_data_rows [OF that] by (simp add: can_be_decoded_rows)
  then have "word_rows w = em_rows (word_data w)" by (intro nth_equalityI) (simp_all add: rows_shape(1))
  with assms show ?thesis by (simp add: codeword_eq can_be_decoded_rows)
qed

lemma em_row_parity: "em_row s d = take 4 (em_row s d) @ [odd_ones (take 4 (em_row s d))]"
  by (simp add: em_row_def nibble_bits_def)

lemma em_row_inj:
  assumes "em_row 4 a = em_row 4 b" "em_row 0 a = em_row 0 b"
  shows "a = b"
proof (rule bit_word_eqI)
  fix n assume "n < LENGTH(8)"
  then have "n \<in> {0, 1, 2, 3, 4, 5, 6, 7}" by (simp add: less_8_cases)
  then show "bit a n = bit b n" using assms by (auto simp: em_row_def nibble_bits_def numeral_2_eq_2)
qed

lemma em_rows_cases: "row \<in> set (em_rows data) \<Longrightarrow> \<exists>s d. row = em_row s d"
  by (auto simp: em_rows_def)

lemma codeword_decodable:
  assumes "length data = 5"
  shows "em4100_can_be_decoded (num_of_bits (em_codeword data))" "word_data (num_of_bits (em_codeword data)) = data"
proof -
  let ?w = "num_of_bits (em_codeword data) :: u64"
  have c: "(\<forall>i<9. bit ?w (63 - i)) \<and> \<not> bit ?w 0 \<and> word_rows ?w = em_rows data \<and>
    (\<forall>c<4. bit ?w (4 - c) = odd_ones (map (\<lambda>row. row ! c) (em_rows data)))"
    using codeword_eq [OF assms, of ?w] by simp
  have "em_rows data ! r = take 4 (em_rows data ! r) @ [odd_ones (take 4 (em_rows data ! r))]" if "r < 10" for r
  proof -
    have "em_rows data ! r \<in> set (em_rows data)" using that assms by (simp add: rows_shape(1))
    then show ?thesis using em_rows_cases em_row_parity by metis
  qed
  with c show d: "em4100_can_be_decoded ?w" by (simp add: can_be_decoded_rows)
  have w: "?w = num_of_bits (em_codeword (word_data ?w))" by (rule codeword_word_data [OF d])
  have "word_rows ?w = em_rows (word_data ?w)" using codeword_eq [OF word_data_length, of ?w] w by blast
  with c have r: "em_rows (word_data ?w) = em_rows data" by metis
  show "word_data ?w = data"
  proof (rule nth_equalityI)
    fix k assume "k < length (word_data ?w)"
    then have k: "k < 5" by simp
    have "em_row 4 (word_data ?w ! k) = em_row 4 (data ! k)" "em_row 0 (word_data ?w ! k) = em_row 0 (data ! k)"
      using em_rows_nth [of k "word_data ?w"] em_rows_nth [of k data] r k assms by simp_all
    then show "word_data ?w ! k = data ! k" by (rule em_row_inj)
  qed (use assms in simp)
qed

lemma decode_word_data: "em4100_decode w EM4100_DECODED_DATA_SIZE = Some (word_data w)"
  by (simp add: em4100_decode_eq word_data_def EM4100_DECODED_DATA_SIZE_def)

text \<open>C24: the words that the decoder accepts are exactly those that the encoder makes of some data, and
  decoding gives the data back: every error that does not lead to another card's code word is
  rejected.\<close>

theorem em4100_codewords:
  assumes "length (em_data proto) = 5"
  shows "(\<exists>proto'. protocol_em4100_encoder_start proto = Some (True, proto') \<and> em4100_can_be_decoded (encoded_data proto') \<and>
       em4100_decode (encoded_data proto') EM4100_DECODED_DATA_SIZE = Some (em_data proto)) \<and>
     (\<forall>w. em4100_can_be_decoded w \<longrightarrow> (\<exists>d proto'. em4100_decode w EM4100_DECODED_DATA_SIZE = Some d \<and>
       protocol_em4100_encoder_start (proto\<lparr>em_data := d\<rparr>) = Some (True, proto') \<and> encoded_data proto' = w))"
proof -
  have "\<exists>proto'. protocol_em4100_encoder_start (proto\<lparr>em_data := word_data w\<rparr>) = Some (True, proto') \<and> encoded_data proto' = w"
    if "em4100_can_be_decoded w" for w
    using codeword_word_data [OF that] encoder_start [of "proto\<lparr>em_data := word_data w\<rparr>"] by simp
  then show ?thesis
    using codeword_decodable [OF assms] encoder_start [OF assms] by (auto simp: decode_word_data)
qed

theorem em4100_codewords_witness:
  "\<exists>proto'. protocol_em4100_encoder_start (protocol_em4100_alloc\<lparr>em_data := [0x12, 0x34, 0x56, 0x78, 0x9A]\<rparr>) = Some (True, proto') \<and>
     em4100_decode (encoded_data proto') EM4100_DECODED_DATA_SIZE = Some [0x12, 0x34, 0x56, 0x78, 0x9A]"
  using em4100_codewords [of "protocol_em4100_alloc\<lparr>em_data := [0x12, 0x34, 0x56, 0x78, 0x9A]\<rparr>"] by auto

section \<open>Emulating and reading\<close>

text \<open>The levels and times that \<open>n\<close> calls of \<open>protocol_em4100_encoder_yield\<close> give.\<close>

primrec yields :: "nat \<Rightarrow> ProtocolEM4100 \<Rightarrow> (bool \<times> nat) list" where
  "yields 0 proto = []"
| "yields (Suc n) proto = (case protocol_em4100_encoder_yield proto of (ld, proto') \<Rightarrow>
     (level_duration_get_level ld, (case ld of LevelDuration _ d \<Rightarrow> d | _ \<Rightarrow> 0)) # yields n proto')"

text \<open>Feeding pulses, with the durations in microseconds: a carrier period takes eight.\<close>

primrec feed_all :: "(bool \<times> nat) list \<Rightarrow> ProtocolEM4100 \<Rightarrow> bool list \<times> ProtocolEM4100" where
  "feed_all [] proto = ([], proto)"
| "feed_all (p # ps) proto = (case protocol_em4100_decoder_feed proto (fst p) (8 * snd p) of (hit, proto') \<Rightarrow>
     case feed_all ps proto' of (hits, proto'') \<Rightarrow> (hit # hits, proto''))"

text \<open>The code word round and round.\<close>

lemma and_1_bit: "drop_bit k (w :: u64) AND 1 \<noteq> 0 \<longleftrightarrow> bit w k"
proof -
  have "(drop_bit k w AND 1 :: u64) = of_bool (bit w k)" by (rule bit_word_eqI) (auto simp: bit_simps)
  then show ?thesis by simp
qed

lemma and_1_bit_0: "(w :: u64) AND 1 = 0 \<longleftrightarrow> \<not> bit w 0"
  using and_1_bit [of 0 w] by (simp only: drop_bit_0 id_apply) blast

lemma yield_two:
  assumes "encoded_polarity proto" "encoded_data_index proto < 64" "clock_per_bit proto < 256"
  shows "yields (Suc (Suc n)) proto =
     (bit (encoded_data proto) (63 - encoded_data_index proto), clock_per_bit proto div 2)
      # (\<not> bit (encoded_data proto) (63 - encoded_data_index proto), clock_per_bit proto div 2)
      # yields n (proto\<lparr>encoded_data_index := (encoded_data_index proto + 1) mod 64\<rparr>)"
  using assms
  by (cases proto; cases "encoded_data_index proto = 63")
    (auto simp: protocol_em4100_encoder_yield_def level_duration_make_def and_1_bit and_1_bit_0 bit_drop_bit_eq Let_def)

lemma yields_word:
  assumes "encoded_polarity proto" "clock_per_bit proto < 256" "encoded_data_index proto = 0"
  shows "n \<le> 64 \<Longrightarrow> yields (2 * n + m) proto = halves (clock_per_bit proto div 2) (map (\<lambda>k. bit (encoded_data proto) (63 - k)) [0..<n])
     @ yields m (proto\<lparr>encoded_data_index := n mod 64\<rparr>)"
proof (induction n arbitrary: m)
  case 0
  have "proto\<lparr>encoded_data_index := 0\<rparr> = proto" using assms(3) by simp
  then show ?case by simp
next
  case (Suc n)
  have "yields (2 * Suc n + m) proto = yields (2 * n + Suc (Suc m)) proto" by simp
  also have "\<dots> = halves (clock_per_bit proto div 2) (map (\<lambda>k. bit (encoded_data proto) (63 - k)) [0..<n])
     @ yields (Suc (Suc m)) (proto\<lparr>encoded_data_index := n\<rparr>)"
    using Suc.IH [of "Suc (Suc m)"] Suc.prems by simp
  also have "yields (Suc (Suc m)) (proto\<lparr>encoded_data_index := n\<rparr>) =
      halves (clock_per_bit proto div 2) [bit (encoded_data proto) (63 - n)] @ yields m (proto\<lparr>encoded_data_index := Suc n mod 64\<rparr>)"
    using yield_two [of "proto\<lparr>encoded_data_index := n\<rparr>" m] assms Suc.prems by simp
  finally show ?case by simp
qed

lemma em4100_event_short:
  assumes "clock_per_bit proto \<in> {16, 32, 64}"
  shows "em4100_event proto level (8 * (clock_per_bit proto div 2)) = (if level then ManchesterEventShortLow else ManchesterEventShortHigh)"
  using assms
  by (auto simp: em4100_event_def protocol_em4100_get_short_time_low_def protocol_em4100_get_short_time_high_def
      protocol_em4100_get_time_divisor_def EM_READ_SHORT_TIME_BASE_def EM_READ_JITTER_TIME_BASE_def)

lemma em4100_event_long:
  assumes "clock_per_bit proto \<in> {16, 32, 64}"
  shows "em4100_event proto level (8 * (clock_per_bit proto div 2 + clock_per_bit proto div 2))
    = (if level then ManchesterEventLongLow else ManchesterEventLongHigh)"
  using assms
  by (auto simp: em4100_event_def protocol_em4100_get_short_time_low_def protocol_em4100_get_short_time_high_def
      protocol_em4100_get_long_time_low_def protocol_em4100_get_long_time_high_def
      protocol_em4100_get_time_divisor_def EM_READ_SHORT_TIME_BASE_def EM_READ_LONG_TIME_BASE_def EM_READ_JITTER_TIME_BASE_def)

definition shift_bit :: "bool \<Rightarrow> u64 \<Rightarrow> u64" where
  "shift_bit b w = push_bit 1 w OR of_bool b"

text \<open>What the decoder of \<open>proto\<close> is after the bits \<open>bs\<close>.\<close>

definition after_bits :: "ProtocolEM4100 \<Rightarrow> bool list \<Rightarrow> bool \<Rightarrow> ProtocolEM4100 \<Rightarrow> bool" where
  "after_bits proto bs b proto' \<longleftrightarrow> clock_per_bit proto' = clock_per_bit proto \<and> decoder_manchester_state proto' = mid_state b \<and>
     encoded_data proto' = fold shift_bit (bs @ [b]) (encoded_data proto) \<and>
     (em4100_can_be_decoded (encoded_data proto') \<longrightarrow> em_data proto' = word_data (encoded_data proto'))"

lemma feed_bit:
  assumes "clock_per_bit proto \<in> {16, 32, 64}" "decoder_manchester_state proto = mid_state p"
  shows "\<exists>hits proto'. feed_all (pulses (clock_per_bit proto div 2) p [b]) proto = (hits @ [em4100_can_be_decoded (encoded_data proto')], proto')
     \<and> after_bits proto [] b proto'"
proof -
  let ?w = "shift_bit b (encoded_data proto)"
  define proto' where "proto' = (let q = proto\<lparr>decoder_manchester_state := mid_state b, encoded_data := ?w\<rparr> in
     if em4100_can_be_decoded ?w then q\<lparr>em_data := word_data ?w\<rparr> else q)"
  have e: "encoded_data proto' = ?w" by (simp add: proto'_def Let_def)
  have after: "after_bits proto [] b proto'" by (simp add: after_bits_def proto'_def Let_def)
  let ?h = "clock_per_bit proto div 2"
  show ?thesis
  proof (cases "b = p")
    case True
    let ?st = "if p then ManchesterStateStart1 else ManchesterStateStart0"
    let ?q = "proto\<lparr>decoder_manchester_state := ?st\<rparr>"
    have f1: "protocol_em4100_decoder_feed proto (\<not> p) (8 * ?h) = (False, ?q)"
      using assms unfolding protocol_em4100_decoder_feed_def em4100_event_short [OF assms(1)] by (cases p) (simp_all add: mid_state_def)
    have "clock_per_bit ?q \<in> {16, 32, 64}" using assms(1) by simp
    from em4100_event_short [OF this] have f2: "protocol_em4100_decoder_feed ?q b (8 * ?h) = (em4100_can_be_decoded ?w, proto')"
      unfolding protocol_em4100_decoder_feed_def using True
      by (cases p) (simp_all add: mid_state_def shift_bit_def proto'_def Let_def decode_word_data)
    from True have "pulses ?h p [b] = [(\<not> p, ?h), (b, ?h)]" by simp
    with f1 f2 have "feed_all (pulses ?h p [b]) proto = ([False] @ [em4100_can_be_decoded (encoded_data proto')], proto')" by (simp add: e)
    with after show ?thesis by blast
  next
    case False
    have f: "protocol_em4100_decoder_feed proto b (8 * (?h + ?h)) = (em4100_can_be_decoded ?w, proto')"
      using assms False unfolding protocol_em4100_decoder_feed_def em4100_event_long [OF assms(1)]
      by (cases p) (simp_all add: mid_state_def shift_bit_def proto'_def Let_def decode_word_data)
    from False have "pulses ?h p [b] = [(b, ?h + ?h)]" by simp
    with f have "feed_all (pulses ?h p [b]) proto = ([] @ [em4100_can_be_decoded (encoded_data proto')], proto')" by (simp add: e)
    with after show ?thesis by blast
  qed
qed

lemma feed_all_append:
  "feed_all (ps @ qs) proto = (case feed_all ps proto of (hs, p1) \<Rightarrow> case feed_all qs p1 of (hs', p2) \<Rightarrow> (hs @ hs', p2))"
  by (induction ps arbitrary: proto) (simp_all split: prod.split)

lemma feed_pulses:
  assumes "clock_per_bit proto \<in> {16, 32, 64}" "decoder_manchester_state proto = mid_state p"
  shows "\<exists>hits proto'. feed_all (pulses (clock_per_bit proto div 2) p (bs @ [b])) proto = (hits @ [em4100_can_be_decoded (encoded_data proto')], proto')
     \<and> after_bits proto bs b proto'"
  using assms
proof (induction bs arbitrary: proto p)
  case Nil
  then show ?case using feed_bit [of proto p b] by simp
next
  case (Cons c bs)
  let ?h = "clock_per_bit proto div 2"
  from feed_bit [OF Cons.prems, of c] obtain hs p1 where 1: "feed_all (pulses ?h p [c]) proto = (hs, p1)" "after_bits proto [] c p1" by blast
  then have p1: "clock_per_bit p1 = clock_per_bit proto" "decoder_manchester_state p1 = mid_state c"
    "encoded_data p1 = shift_bit c (encoded_data proto)" by (simp_all add: after_bits_def)
  with Cons.IH [of p1 c] Cons.prems(1) obtain hits p2 where
    2: "feed_all (pulses ?h c (bs @ [b])) p1 = (hits @ [em4100_can_be_decoded (encoded_data p2)], p2)" "after_bits p1 bs b p2" by auto
  have "pulses ?h p ((c # bs) @ [b]) = pulses ?h p [c] @ pulses ?h c (bs @ [b])" by simp
  then have "feed_all (pulses ?h p ((c # bs) @ [b])) proto = ((hs @ hits) @ [em4100_can_be_decoded (encoded_data p2)], p2)"
    by (simp only: feed_all_append 1(1) 2(1) case_prod_conv append_assoc)
  moreover have "after_bits proto (c # bs) b p2" using 2(2) p1 by (simp add: after_bits_def)
  ultimately show ?case by blast
qed

lemma fold_shift_bits: "fold shift_bit bs (num_of_bits L) = num_of_bits (L @ bs)"
proof (induction bs arbitrary: L)
  case (Cons b bs)
  have "shift_bit b (num_of_bits L) = num_of_bits (L @ [b])" by (simp only: shift_bit_def num_of_bits_snoc)
  then show ?case using Cons.IH [of "L @ [b]"] by (simp only: fold_Cons comp_def append_assoc append_Cons append_Nil)
qed simp

text \<open>Two rounds of the code word, as pulses.\<close>

lemma codeword_bits:
  assumes "length data = 5"
  shows "map (\<lambda>k. bit (num_of_bits (em_codeword data) :: u64) (63 - k)) [0..<64] = em_codeword data" (is "?l = _")
proof (rule nth_equalityI)
  show l: "length ?l = length (em_codeword data)" using assms by (simp add: codeword_length)
  fix i assume "i < length ?l"
  then have "i < 64" by simp
  moreover from this have "?l ! i = bit (num_of_bits (em_codeword data) :: u64) (63 - i)" by (subst nth_map) simp_all
  ultimately show "?l ! i = em_codeword data ! i" using codeword_bit [OF assms] by metis
qed

lemma codeword_Cons: "em_codeword data = True # tl (em_codeword data)"
proof -
  have "replicate 9 True = True # replicate 8 True" by (simp add: numeral_eq_Suc)
  then show ?thesis by (simp only: em_codeword_def append_Cons list.sel)
qed

lemma two_rounds:
  assumes "encoded_polarity proto" "clock_per_bit proto < 256" "encoded_data_index proto = 0"
    and "encoded_data proto = num_of_bits (em_codeword data)" "length data = 5"
  shows "\<exists>p. merge (yields 256 proto) = (True, clock_per_bit proto div 2) #
     pulses (clock_per_bit proto div 2) True (tl (em_codeword data) @ em_codeword data) @ [p]"
proof -
  let ?h = "clock_per_bit proto div 2" and ?cw = "em_codeword data"
  have cw: "map (\<lambda>k. bit (encoded_data proto) (63 - k)) [0..<64] = ?cw"
    unfolding assms(4) by (rule codeword_bits [OF assms(5)])
  have p: "proto\<lparr>encoded_data_index := 64 mod 64\<rparr> = proto" using assms(3) by simp
  have y: "yields (2 * 64 + m) proto = halves ?h ?cw @ yields m proto" for m
    using yields_word [OF assms(1-3) order_refl, of m] unfolding cw p .
  have "yields 256 proto = yields (2 * 64 + (2 * 64 + 0)) proto" by (rule arg_cong2 [where f = yields]) simp_all
  also have "\<dots> = halves ?h ?cw @ halves ?h ?cw" by (simp only: y yields.simps(1) append_Nil2)
  also have "\<dots> = halves ?h ((True # tl ?cw) @ ?cw)" by (simp only: halves_simps(3) codeword_Cons [symmetric])
  also have "\<dots> = (True, ?h) # (\<not> True, ?h) # halves ?h (tl ?cw @ ?cw)" by (simp only: append_Cons halves_simps(2))
  finally have e: "yields 256 proto = (True, ?h) # (\<not> True, ?h) # halves ?h (tl ?cw @ ?cw)" .
  have m: "merge ((\<not> True, ?h) # halves ?h (tl ?cw @ ?cw)) =
      pulses ?h True (tl ?cw @ ?cw) @ [(\<not> last (True # tl ?cw @ ?cw), ?h)]" by (rule merge_halves)
  moreover have "\<exists>d qs. merge ((\<not> True, ?h) # L) = (\<not> True, d) # qs" for L
    by (auto split: list.split prod.split)
  ultimately obtain d qs where q: "merge ((\<not> True, ?h) # halves ?h (tl ?cw @ ?cw)) = (\<not> True, d) # qs" by blast
  have "merge (yields 256 proto) = (True, ?h) # (\<not> True, d) # qs" unfolding e by (subst merge.simps(2)) (simp only: q, simp)
  also have "\<dots> = (True, ?h) # pulses ?h True (tl ?cw @ ?cw) @ [(\<not> last (True # tl ?cw @ ?cw), ?h)]" by (simp only: q [symmetric] m)
  finally show ?thesis by blast
qed

lemma last_bits:
  assumes "length bs = 64"
  shows "(num_of_bits (L @ bs) :: u64) = num_of_bits bs"
proof (rule bit_word_eqI)
  fix n assume "n < LENGTH(64)"
  then have "\<not> 63 + length L - n < length L" "63 + length L - n - length L = 63 - n" by simp_all
  then show "bit (num_of_bits (L @ bs) :: u64) n = bit (num_of_bits bs :: u64) n"
    using \<open>n < LENGTH(64)\<close> by (simp add: bit_num_of_bits nth_append assms add.commute)
qed

text \<open>A reader of the same clock, whatever it read before.\<close>

lemma reading:
  assumes "clock_per_bit reader \<in> {16, 32, 64}" "length data = 5"
  shows "\<exists>hits reader'. feed_all ((True, clock_per_bit reader div 2) #
       pulses (clock_per_bit reader div 2) True (tl (em_codeword data) @ em_codeword data)) (protocol_em4100_decoder_start reader)
     = (hits @ [True], reader') \<and> em_data reader' = data"
proof -
  let ?h = "clock_per_bit reader div 2" and ?cw = "em_codeword data"
  let ?r = "protocol_em4100_decoder_start reader"
  have r: "clock_per_bit ?r = clock_per_bit reader" "decoder_manchester_state ?r = mid_state True" "encoded_data ?r = num_of_bits []"
    by (simp_all add: protocol_em4100_decoder_start_def mid_state_def manchester_advance_def manchester_reset_state_def)
  have c: "clock_per_bit ?r \<in> {16, 32, 64}" using assms(1) r by simp
  have s: "?r\<lparr>decoder_manchester_state := ManchesterStateMid1\<rparr> = ?r" using r(2) by (cases ?r) (simp add: mid_state_def)
  from em4100_event_short [OF c, of True] r(1,2) have first: "protocol_em4100_decoder_feed ?r True (8 * ?h) = (False, ?r)"
    unfolding protocol_em4100_decoder_feed_def by (simp add: mid_state_def s)
  have "?cw \<noteq> []" using codeword_Cons [of data] by (metis list.distinct(1))
  then have cw: "tl ?cw @ ?cw = (tl ?cw @ butlast ?cw) @ [last ?cw]" by simp
  from feed_pulses [OF c r(2), of "tl ?cw @ butlast ?cw" "last ?cw"] obtain hits reader' where
    f: "feed_all (pulses ?h True (tl ?cw @ ?cw)) ?r = (hits @ [em4100_can_be_decoded (encoded_data reader')], reader')"
    and a: "after_bits ?r (tl ?cw @ butlast ?cw) (last ?cw) reader'" unfolding r(1) cw by blast
  from a have "encoded_data reader' = fold shift_bit (tl ?cw @ ?cw) (num_of_bits [])" by (simp only: after_bits_def cw r(3))
  also have "\<dots> = num_of_bits ?cw" by (simp only: fold_shift_bits append_Nil last_bits codeword_length [OF assms(2)])
  finally have e: "encoded_data reader' = num_of_bits ?cw" .
  with a codeword_decodable [OF assms(2)] have "em_data reader' = data" by (simp add: after_bits_def)
  moreover have "feed_all ((True, ?h) # pulses ?h True (tl ?cw @ ?cw)) ?r = ((False # hits) @ [True], reader')"
    using f codeword_decodable(1) [OF assms(2)] by (simp add: first e)
  ultimately show ?thesis by blast
qed

text \<open>C23: the emulator and the reader work together: from any state, a reader of the same clock that is started
  and hears two rounds of the emulated card reports a card at the last bit, with the data of the emulator.\<close>

theorem em4100_emulation_read:
  assumes "length (em_data proto) = 5" "clock_per_bit proto \<in> {16, 32, 64}" "clock_per_bit reader = clock_per_bit proto"
  shows "\<exists>proto' hits reader'. protocol_em4100_encoder_start proto = Some (True, proto') \<and>
    feed_all (butlast (merge (yields 256 proto'))) (protocol_em4100_decoder_start reader) = (hits @ [True], reader') \<and>
    em_data reader' = em_data proto"
proof -
  obtain proto' where p: "protocol_em4100_encoder_start proto = Some (True, proto')" "encoded_polarity proto'"
    "encoded_data_index proto' = 0" "clock_per_bit proto' = clock_per_bit proto" "encoded_data proto' = num_of_bits (em_codeword (em_data proto))"
    using encoder_start [OF assms(1)] by simp
  have "clock_per_bit proto' < 256" using p(4) assms(2) by auto
  then obtain q where "merge (yields 256 proto') = (True, clock_per_bit proto' div 2) #
     pulses (clock_per_bit proto' div 2) True (tl (em_codeword (em_data proto)) @ em_codeword (em_data proto)) @ [q]"
    using two_rounds [OF p(2) _ p(3,5) assms(1)] by blast
  then have "butlast (merge (yields 256 proto')) = (True, clock_per_bit reader div 2) #
     pulses (clock_per_bit reader div 2) True (tl (em_codeword (em_data proto)) @ em_codeword (em_data proto))"
    using assms(3) p(4) by (simp add: butlast_append)
  then show ?thesis using reading [of reader, OF _ assms(1)] assms(2,3) p(1) by auto
qed

theorem em4100_emulation_read_witness:
  "\<exists>proto' hits reader'. protocol_em4100_encoder_start (protocol_em4100_32_alloc\<lparr>em_data := [1, 2, 3, 4, 5]\<rparr>) = Some (True, proto') \<and>
    feed_all (butlast (merge (yields 256 proto'))) (protocol_em4100_decoder_start protocol_em4100_32_alloc) = (hits @ [True], reader') \<and>
    em_data reader' = [1, 2, 3, 4, 5]"
  using em4100_emulation_read [of "protocol_em4100_32_alloc\<lparr>em_data := [1, 2, 3, 4, 5]\<rparr>" protocol_em4100_32_alloc]
  by (simp add: protocol_em4100_32_alloc_def em4100_zero_def)

section \<open>The protocols in the dictionary\<close>

lemmas em4100_bases = protocol_em4100_def protocol_em4100_32_def protocol_em4100_16_def

definition em4100_ok :: "ProtocolEM4100 \<Rightarrow> bool" where
  "em4100_ok d \<longleftrightarrow> length (em_data d) = 5"

lemma protocol_data_em4100:
  "b \<in> {protocol_em4100, protocol_em4100_32, protocol_em4100_16} \<Longrightarrow> protocol_data b em4100_ok protocol_em4100_get_data"
  by unfold_locales
    (auto simp: em4100_bases em4100_ok_def protocol_em4100_get_data_def protocol_em4100_put_data_def EM4100_DECODED_DATA_SIZE_def
      protocol_em4100_alloc_def protocol_em4100_32_alloc_def protocol_em4100_16_alloc_def em4100_zero_def)

interpretation em4100_64: protocol_data protocol_em4100 em4100_ok protocol_em4100_get_data
  by (rule protocol_data_em4100) simp

interpretation em4100_32: protocol_data protocol_em4100_32 em4100_ok protocol_em4100_get_data
  by (rule protocol_data_em4100) simp

interpretation em4100_16: protocol_data protocol_em4100_16 em4100_ok protocol_em4100_get_data
  by (rule protocol_data_em4100) simp

definition em4100_dict :: "(ProtocolEM4100, LFRFIDWriteRequest) ProtocolDict" where
  "em4100_dict = protocol_dict_alloc [protocol_em4100, protocol_em4100_32, protocol_em4100_16]"

text \<open>Setting the data of an EM4100 protocol in a dictionary and reading it back gives the first five
  bytes that were given, leaves the destination's other bytes and the other protocols alone, and
  never stops the program when both buffers are large enough.\<close>

theorem em4100_dict_set_get:
  assumes "dict_wf dict" "i < count dict" "base dict ! i \<in> {protocol_em4100, protocol_em4100_32, protocol_em4100_16}"
    and "length (em_data (states dict ! i)) = 5" "5 \<le> length src" "5 \<le> length dst"
  shows "\<exists>dict'. protocol_dict_set_data dict i src (length src) = Some dict' \<and> dict_wf dict' \<and>
    protocol_dict_get_data dict' i dst (length dst) = Some (take 5 src @ drop 5 dst) \<and>
    (\<forall>j. j \<noteq> i \<longrightarrow> states dict' ! j = states dict ! j)"
proof -
  have s: "data_size protocol_em4100 = 5" "data_size protocol_em4100_32 = 5" "data_size protocol_em4100_16 = 5"
    by (simp_all add: em4100_bases EM4100_DECODED_DATA_SIZE_def)
  note l = assms(5) order_refl assms(6) order_refl
  from assms(4) have ok: "em4100_ok (states dict ! i)" by (simp add: em4100_ok_def)
  from assms(3) consider "base dict ! i = protocol_em4100" | "base dict ! i = protocol_em4100_32" | "base dict ! i = protocol_em4100_16" by blast
  then show ?thesis
  proof cases
    case 1 from em4100_64.set_get [unfolded s, OF assms(1,2) this ok l] show ?thesis by blast
  next
    case 2 from em4100_32.set_get [unfolded s, OF assms(1,2) this ok l] show ?thesis by blast
  next
    case 3 from em4100_16.set_get [unfolded s, OF assms(1,2) this ok l] show ?thesis by blast
  qed
qed

theorem em4100_dict_set_get_witness:
  "\<exists>dict'. protocol_dict_set_data em4100_dict 1 [1, 2, 3, 4, 5, 6] 6 = Some dict' \<and> dict_wf dict' \<and>
    protocol_dict_get_data dict' 1 [9, 9, 9, 9, 9, 9, 9] 7 = Some [1, 2, 3, 4, 5, 9, 9] \<and>
    (\<forall>j. j \<noteq> 1 \<longrightarrow> states dict' ! j = states em4100_dict ! j)"
proof -
  have "dict_wf em4100_dict" by (simp add: em4100_dict_def dict_wf_alloc)
  moreover have "1 < count em4100_dict" "base em4100_dict ! 1 = protocol_em4100_32"
    "length (em_data (states em4100_dict ! 1)) = 5"
    by (simp_all add: em4100_dict_def protocol_dict_alloc_def em4100_bases protocol_em4100_32_alloc_def em4100_zero_def EM4100_DECODED_DATA_SIZE_def)
  ultimately show ?thesis
    using em4100_dict_set_get [of em4100_dict 1 "[1, 2, 3, 4, 5, 6]" "[9, 9, 9, 9, 9, 9, 9]"] by (simp add: numeral_eq_Suc)
qed

theorem protocol_dict_feed_witness:
  "protocol_dict_decoders_feed em4100_dict True 256 =
      Some (fed_dict (\<lambda>_. True) em4100_dict True 256,
        first_index (\<lambda>i. fst (selected (\<lambda>_. True) em4100_dict True 256 i)) (count em4100_dict))"
proof -
  have "dict_wf em4100_dict" by (simp add: em4100_dict_def dict_wf_alloc)
  from protocol_dict_feed [OF this, of 1 True 256] show ?thesis by simp
qed

section \<open>Writing a card\<close>

text \<open>Writing prepares three blocks for the T5577: the configuration with the modulation, the bit rate of the card
  and two data blocks, then the two halves of the code word, from which the data can be decoded
  again; the other blocks stay, and so does the card's data.\<close>

lemma em4100_write_data:
  assumes "length (em_data proto) = 5" "write_type request = LFRFIDWriteTypeT5577" "3 \<le> length (block (t5577 request))"
  shows "\<exists>proto' hi lo. protocol_em4100_write_data proto request = Some (True, proto',
      request\<lparr>t5577 := (t5577 request)\<lparr>block := [LFRFID_T5577_MODULATION_MANCHESTER OR protocol_em4100_get_t5577_bitrate proto OR 0x40, hi, lo]
        @ drop 3 (block (t5577 request)), blocks_to_write := 3\<rparr>\<rparr>) \<and>
    em_data proto' = em_data proto \<and>
    em4100_can_be_decoded (push_bit 32 (ucast hi) OR ucast lo) \<and>
    em4100_decode (push_bit 32 (ucast hi) OR ucast lo) EM4100_DECODED_DATA_SIZE = Some (em_data proto)"
proof -
  let ?w = "num_of_bits (em_codeword (em_data proto)) :: u64"
  let ?hi = "ucast (drop_bit 32 ?w) :: u32" and ?lo = "ucast ?w :: u32"
  obtain b0 b1 b2 bs where b: "block (t5577 request) = b0 # b1 # b2 # bs"
    using assms(3) by (auto simp: numeral_3_eq_3 Suc_le_length_iff)
  have w: "push_bit 32 (ucast ?hi) OR ucast ?lo = ?w"
    by (rule bit_word_eqI) (auto simp: bit_simps)
  let ?p = "proto\<lparr>encoded_data := ?w, encoded_data_index := 0, encoded_polarity := True\<rparr>"
  have "protocol_em4100_write_data proto request = Some (True, ?p,
      request\<lparr>t5577 := (t5577 request)\<lparr>block := [LFRFID_T5577_MODULATION_MANCHESTER OR protocol_em4100_get_t5577_bitrate proto OR 0x40, ?hi, ?lo]
        @ drop 3 (block (t5577 request)), blocks_to_write := 3\<rparr>\<rparr>)"
    using encoder_start [OF assms(1)] codeword_decodable [OF assms(1)] assms(1,2) b
    by (simp add: protocol_em4100_write_data_def decode_word_data encoder_start wr_def LFRFID_T5577_MAXBLOCK_SHIFT_def
        protocol_em4100_get_t5577_bitrate_def)
  moreover have "em_data ?p = em_data proto" by simp
  ultimately show ?thesis using w codeword_decodable [OF assms(1)] decode_word_data by metis
qed

lemma em4100_write_data_witness:
  "\<exists>proto' hi lo. protocol_em4100_write_data (protocol_em4100_16_alloc\<lparr>em_data := [1, 2, 3, 4, 5]\<rparr>)
      \<lparr>write_type = 0, t5577 = \<lparr>block = replicate 8 0, blocks_to_write = 0, t5577_mask = 0\<rparr>\<rparr> =
      Some (True, proto', \<lparr>write_type = 0, t5577 = \<lparr>block = [0x48040, hi, lo, 0, 0, 0, 0, 0], blocks_to_write = 3, t5577_mask = 0\<rparr>\<rparr>) \<and>
    em4100_decode (push_bit 32 (ucast hi) OR ucast lo) EM4100_DECODED_DATA_SIZE = Some [1, 2, 3, 4, 5]"
proof -
  have "protocol_em4100_get_t5577_bitrate (protocol_em4100_16_alloc\<lparr>em_data := [1, 2, 3, 4, 5]\<rparr>) = LFRFID_T5577_BITRATE_RF_16"
    by (simp add: protocol_em4100_get_t5577_bitrate_def protocol_em4100_16_alloc_def em4100_zero_def)
  moreover have "LFRFID_T5577_MODULATION_MANCHESTER OR LFRFID_T5577_BITRATE_RF_16 OR 0x40 = (0x48040 :: u32)"
    by (simp add: LFRFID_T5577_MODULATION_MANCHESTER_def LFRFID_T5577_BITRATE_RF_16_def)
  ultimately show ?thesis
    using em4100_write_data [of "protocol_em4100_16_alloc\<lparr>em_data := [1, 2, 3, 4, 5]\<rparr>"
      "\<lparr>write_type = 0, t5577 = \<lparr>block = replicate 8 0, blocks_to_write = 0, t5577_mask = 0\<rparr>\<rparr>"]
    by (simp add: LFRFIDWriteTypeT5577_def numeral_eq_Suc) blast
qed

end
