(* ===== verification/InfraredCommon.thy ===== *)
theory InfraredCommon
  imports Prelude
begin

text \<open>
  The common infrared decoder and encoder
  (\<open>src/lib/infrared/encoder_decoder/common/infrared_common_decoder.c\<close>, \<open>infrared_common_encoder.c\<close>, with
  the types of \<open>infrared.h\<close>, \<open>infrared_i.h\<close> and \<open>infrared_common_i.h\<close>).

  A decoder and an encoder point to the constant table of their protocol; here the table is an argument,
  and its function pointers are functions. Times are microseconds, natural numbers below \<open>2 ^ 32\<close>; in
  every table a time is at least its tolerance, so that the differences do not wrap, and the comparisons
  with \<open>float\<close> operands in the code are exact. The wrappers of the RC5 and RC6 coders add a toggle
  bit to the common structures; it is a field here.
\<close>

section \<open>Types\<close>

datatype (plugins only: code size) InfraredProtocol =
    InfraredProtocolUnknown
  | InfraredProtocolNEC | InfraredProtocolNECext | InfraredProtocolNEC42 | InfraredProtocolNEC42ext
  | InfraredProtocolSamsung32 | InfraredProtocolRC6 | InfraredProtocolRC5 | InfraredProtocolRC5X
  | InfraredProtocolSIRC | InfraredProtocolSIRC15 | InfraredProtocolSIRC20
  | InfraredProtocolKaseikyo | InfraredProtocolRCA | InfraredProtocolPioneer

record InfraredMessage =
  msg_protocol :: InfraredProtocol
  address :: u32
  command :: u32
  repeat :: bool

datatype (plugins only: code size) InfraredStatus =
  InfraredStatusError | InfraredStatusOk | InfraredStatusDone | InfraredStatusReady

record InfraredTimings =
  min_split_time :: nat
  silence_time :: nat
  preamble_mark :: nat
  preamble_space :: nat
  bit1_mark :: nat
  bit1_space :: nat
  bit0_mark :: nat
  bit0_space :: nat
  preamble_tolerance :: nat
  bit_tolerance :: nat

definition MATCH_TIMING :: "nat \<Rightarrow> nat \<Rightarrow> nat \<Rightarrow> bool" where
  "MATCH_TIMING x v delta \<longleftrightarrow> x < v + delta \<and> x > v - delta"

datatype (plugins only: code size) InfraredCommonStateDecoder =
    InfraredCommonDecoderStateWaitPreamble | InfraredCommonDecoderStateDecode | InfraredCommonDecoderStateProcessRepeat

datatype (plugins only: code size) InfraredCommonStateEncoder =
    InfraredCommonEncoderStateSilence | InfraredCommonEncoderStatePreamble
  | InfraredCommonEncoderStateEncode | InfraredCommonEncoderStateEncodeRepeat

record InfraredCommonDecoder =
  timings :: "nat list"
  message :: InfraredMessage
  state :: InfraredCommonStateDecoder
  timings_cnt :: nat
  switch_detect :: bool
  level :: bool
  databit_cnt :: nat
  data :: "u8 list"
  toggle :: bool

record InfraredCommonEncoder =
  enc_state :: InfraredCommonStateEncoder
  enc_switch_detect :: bool
  bits_to_encode :: nat
  bits_encoded :: nat
  timings_sum :: nat
  timings_encoded :: nat
  enc_data :: "u8 list"
  toggle_bit :: bool

text \<open>The data of the table, and the table with its functions.\<close>

record InfraredCommonProtocolData =
  spec_timings :: InfraredTimings
  manchester_start_from_space :: bool
  databit_len :: "nat list"

record InfraredCommonProtocolSpec = InfraredCommonProtocolData +
  decode :: "InfraredCommonDecoder \<Rightarrow> bool \<Rightarrow> nat \<Rightarrow> (InfraredStatus \<times> InfraredCommonDecoder) option"
  decode_repeat :: "(InfraredCommonDecoder \<Rightarrow> (InfraredStatus \<times> InfraredCommonDecoder) option) option"
  interpret_data :: "InfraredCommonDecoder \<Rightarrow> (bool \<times> InfraredCommonDecoder) option"
  encode :: "InfraredCommonEncoder \<Rightarrow> (InfraredStatus \<times> nat \<times> bool \<times> InfraredCommonEncoder) option"
  encode_repeat :: "(InfraredCommonEncoder \<Rightarrow> (InfraredStatus \<times> nat \<times> bool \<times> InfraredCommonEncoder) option) option"

section \<open>Decoder\<close>

definition consume_samples :: "nat list \<Rightarrow> nat \<Rightarrow> nat \<Rightarrow> (nat list \<times> nat) option" where
  "consume_samples array len shift = do {
     furi_assert (len \<ge> shift);
     let len = len - shift;
     array \<leftarrow> for_loop (\<lambda>i array. do { x \<leftarrow> rd array (i + shift); wr array i x }) 0 len array;
     Some (array, len) }"

definition accumulate_lsb :: "InfraredCommonDecoder \<Rightarrow> bool \<Rightarrow> InfraredCommonDecoder option" where
  "accumulate_lsb d b = do {
     let index = databit_cnt d div 8;
     let shift = databit_cnt d mod 8;
     bytes \<leftarrow> (if shift = 0 then wr (data d) index 0 else Some (data d));
     x \<leftarrow> rd bytes index;
     bytes \<leftarrow> (if b then wr bytes index (x OR push_bit shift 1) else Some bytes);
     Some (d\<lparr>data := bytes, databit_cnt := databit_cnt d + 1\<rparr>) }"

definition drop_samples :: "InfraredCommonDecoder \<Rightarrow> nat \<Rightarrow> InfraredCommonDecoder option" where
  "drop_samples d n = do {
     (array, len) \<leftarrow> consume_samples (timings d) (timings_cnt d) n;
     Some (d\<lparr>timings := array, timings_cnt := len\<rparr>) }"

text \<open>The loop of \<open>infrared_check_preamble\<close>.\<close>

definition preamble_matches :: "InfraredTimings \<Rightarrow> nat \<Rightarrow> nat \<Rightarrow> bool" where
  "preamble_matches t x y \<longleftrightarrow> MATCH_TIMING x (preamble_mark t) (preamble_tolerance t) \<and> MATCH_TIMING y (preamble_space t) (preamble_tolerance t)"

partial_function (option) preamble_loop :: "InfraredTimings \<Rightarrow> bool \<Rightarrow> InfraredCommonDecoder \<Rightarrow> (bool \<times> InfraredCommonDecoder) option" where
  "preamble_loop t result d =
     (if \<not> result \<and> timings_cnt d \<ge> 2 then do {
        x \<leftarrow> rd (timings d) 0;
        y \<leftarrow> rd (timings d) 1;
        d \<leftarrow> drop_samples d 2;
        preamble_loop t (preamble_matches t x y) d }
      else Some (result, d))"

definition infrared_check_preamble :: "'a InfraredCommonProtocolData_scheme \<Rightarrow> InfraredCommonDecoder \<Rightarrow> (bool \<times> InfraredCommonDecoder) option" where
  "infrared_check_preamble spec d =
     (let start_level = odd (of_bool (level d) + timings_cnt d + 1) in
      if timings_cnt d = 0 then Some (False, d)
      else do {
        d \<leftarrow> (if \<not> start_level then drop_samples d 1 else Some d);
        if preamble_mark (spec_timings spec) = 0 then Some (True, d)
        else preamble_loop (spec_timings spec) False d })"

text \<open>The lengths that the protocol's variants may have: those before the first zero.\<close>

definition databit_lengths :: "'a InfraredCommonProtocolData_scheme \<Rightarrow> nat list" where
  "databit_lengths spec = takeWhile (\<lambda>l. l \<noteq> 0) (databit_len spec)"

partial_function (option) infrared_common_decode_bits ::
  "InfraredCommonProtocolSpec \<Rightarrow> InfraredCommonDecoder \<Rightarrow> (InfraredStatus \<times> InfraredCommonDecoder) option" where
  "infrared_common_decode_bits spec d =
     (if timings_cnt d = 0 then Some (InfraredStatusOk, d)
      else do {
        let lev = odd (of_bool (level d) + timings_cnt d + 1);
        timing \<leftarrow> rd (timings d) 0;
        if min_split_time (spec_timings spec) \<noteq> 0 \<and> \<not> lev \<and> timing > min_split_time (spec_timings spec) \<and>
           databit_cnt d \<in> set (databit_lengths spec)
        then Some (InfraredStatusReady, d)
        else if min_split_time (spec_timings spec) \<noteq> 0 \<and> \<not> lev \<and> \<not> timing > min_split_time (spec_timings spec) \<and>
           databit_len spec ! 0 = databit_cnt d
        then Some (InfraredStatusError, d)
        else do {
          (status, d) \<leftarrow> decode spec d lev timing;
          furi_check (databit_cnt d \<le> databit_len spec ! 0);
          furi_assert (status = InfraredStatusError \<or> status = InfraredStatusOk);
          if status = InfraredStatusError then Some (status, d)
          else do {
            d \<leftarrow> drop_samples d 1;
            if lev \<and> databit_len spec ! 0 = databit_cnt d \<and> min_split_time (spec_timings spec) = 0
            then Some (InfraredStatusReady, d)
            else infrared_common_decode_bits spec d } } })"

definition infrared_common_decode_pdwm ::
  "'a InfraredCommonProtocolData_scheme \<Rightarrow> InfraredCommonDecoder \<Rightarrow> bool \<Rightarrow> nat \<Rightarrow> (InfraredStatus \<times> InfraredCommonDecoder) option" where
  "infrared_common_decode_pdwm spec d lev timing =
     (let t = spec_timings spec;
          analyze_timing = (lev \<noteq> (bit1_mark t = bit0_mark t));
          bit1 = (if lev then bit1_mark t else bit1_space t);
          bit0 = (if lev then bit0_mark t else bit0_space t);
          no_info_timing = (if bit1_mark t = bit0_mark t then bit1_mark t else bit1_space t) in
      if analyze_timing then
        (if MATCH_TIMING timing bit1 (bit_tolerance t) then do { d \<leftarrow> accumulate_lsb d True; Some (InfraredStatusOk, d) }
         else if MATCH_TIMING timing bit0 (bit_tolerance t) then do { d \<leftarrow> accumulate_lsb d False; Some (InfraredStatusOk, d) }
         else Some (InfraredStatusError, d))
      else
        (if \<not> MATCH_TIMING timing no_info_timing (bit_tolerance t) then Some (InfraredStatusError, d)
         else Some (InfraredStatusOk, d)))"

definition infrared_common_decode_manchester ::
  "'a InfraredCommonProtocolData_scheme \<Rightarrow> InfraredCommonDecoder \<Rightarrow> bool \<Rightarrow> nat \<Rightarrow> (InfraredStatus \<times> InfraredCommonDecoder) option" where
  "infrared_common_decode_manchester spec d lev timing =
     (let b = bit1_mark (spec_timings spec); tolerance = bit_tolerance (spec_timings spec);
          single_timing = MATCH_TIMING timing b tolerance;
          double_timing = MATCH_TIMING timing (2 * b) tolerance in
      if \<not> single_timing \<and> \<not> double_timing then Some (InfraredStatusError, d)
      else do {
        d \<leftarrow> (if manchester_start_from_space spec \<and> databit_cnt d = 0
             then accumulate_lsb (d\<lparr>switch_detect := True\<rparr>) False else Some d);
        if \<not> switch_detect d \<and> double_timing then Some (InfraredStatusError, d)
        else do {
          let d = (if \<not> switch_detect d then d\<lparr>switch_detect := True\<rparr>
                   else if single_timing then d\<lparr>switch_detect := False\<rparr> else d);
          if switch_detect d then
            (if databit_len spec ! 0 = databit_cnt d then Some (InfraredStatusError, d)
             else do { d \<leftarrow> accumulate_lsb d lev; Some (InfraredStatusOk, d) })
          else Some (InfraredStatusOk, d) } })"

definition infrared_common_decoder_check_ready ::
  "InfraredCommonProtocolSpec \<Rightarrow> InfraredCommonDecoder \<Rightarrow> (bool \<times> InfraredCommonDecoder) option" where
  "infrared_common_decoder_check_ready spec d =
     (if databit_cnt d \<in> set (databit_lengths spec) then do {
        (ok, d) \<leftarrow> interpret_data spec d;
        if ok then Some (True, d\<lparr>databit_cnt := 0,
            state := (if decode_repeat spec \<noteq> None then InfraredCommonDecoderStateProcessRepeat else InfraredCommonDecoderStateWaitPreamble)\<rparr>)
        else Some (False, d) }
      else Some (False, d))"

definition infrared_common_decoder_reset_state :: "'a InfraredCommonProtocolData_scheme \<Rightarrow> InfraredCommonDecoder \<Rightarrow> InfraredCommonDecoder option" where
  "infrared_common_decoder_reset_state spec d =
     (let d = d\<lparr>state := InfraredCommonDecoderStateWaitPreamble, databit_cnt := 0, switch_detect := False,
                message := (message d)\<lparr>msg_protocol := InfraredProtocolUnknown\<rparr>\<rparr> in
      if preamble_mark (spec_timings spec) = 0 \<and> timings_cnt d > 0 then drop_samples d 1 else Some d)"

definition infrared_common_decoder_reset :: "'a InfraredCommonProtocolData_scheme \<Rightarrow> InfraredCommonDecoder \<Rightarrow> InfraredCommonDecoder option" where
  "infrared_common_decoder_reset spec d = do {
     d \<leftarrow> infrared_common_decoder_reset_state spec d;
     Some (d\<lparr>timings_cnt := 0\<rparr>) }"

text \<open>The loop of \<open>infrared_common_decode\<close>; \<open>found\<close> is whether the pointer to the message is set.\<close>

partial_function (option) decode_loop ::
  "InfraredCommonProtocolSpec \<Rightarrow> bool \<Rightarrow> InfraredCommonDecoder \<Rightarrow> (bool \<times> InfraredCommonDecoder) option" where
  "decode_loop spec found d =
     (case state d of
        InfraredCommonDecoderStateWaitPreamble \<Rightarrow> do {
          (ok, d) \<leftarrow> infrared_check_preamble spec d;
          if ok then decode_loop spec found (d\<lparr>state := InfraredCommonDecoderStateDecode, databit_cnt := 0, switch_detect := False\<rparr>)
          else Some (found, d) }
      | InfraredCommonDecoderStateDecode \<Rightarrow> do {
          (status, d) \<leftarrow> infrared_common_decode_bits spec d;
          if status = InfraredStatusReady then do {
            (ok, d) \<leftarrow> infrared_common_decoder_check_ready spec d;
            if ok then decode_loop spec True d
            else if databit_len spec ! 0 = databit_cnt d then Some (False, d\<lparr>state := InfraredCommonDecoderStateWaitPreamble\<rparr>)
            else Some (False, d) }
          else if status = InfraredStatusError then do {
            d \<leftarrow> infrared_common_decoder_reset_state spec d;
            decode_loop spec found d }
          else Some (found, d) }
      | InfraredCommonDecoderStateProcessRepeat \<Rightarrow> do {
          fn \<leftarrow> decode_repeat spec;
          (status, d) \<leftarrow> fn d;
          if status = InfraredStatusError then do {
            d \<leftarrow> infrared_common_decoder_reset_state spec d;
            decode_loop spec found d }
          else if status = InfraredStatusReady then Some (True, d\<lparr>message := (message d)\<lparr>repeat := True\<rparr>\<rparr>)
          else Some (found, d) })"

definition infrared_common_decode ::
  "InfraredCommonProtocolSpec \<Rightarrow> InfraredCommonDecoder \<Rightarrow> bool \<Rightarrow> nat \<Rightarrow> (InfraredMessage option \<times> InfraredCommonDecoder) option" where
  "infrared_common_decode spec d lev duration = do {
     d \<leftarrow> (if level d = lev then infrared_common_decoder_reset spec d else Some d);
     let d = d\<lparr>level := lev\<rparr>;
     array \<leftarrow> wr (timings d) (timings_cnt d) duration;
     let d = d\<lparr>timings := array, timings_cnt := timings_cnt d + 1\<rparr>;
     furi_check (timings_cnt d \<le> 6 * 4);
     (found, d) \<leftarrow> decode_loop spec False d;
     Some (if found then Some (message d) else None, d) }"

text \<open>
  The bytes of \<open>data\<close> are those of \<open>databit_len[0]\<close> bits, and those between the flexible array and the
  end of the structure (two of the 56 bytes of a decoder; the encoder is allocated with the decoder's size,
  which leaves 36 bytes more). The code reads the data as 32-bit words, beyond the first.
\<close>

definition data_bytes :: "'a InfraredCommonProtocolData_scheme \<Rightarrow> nat" where
  "data_bytes spec = databit_len spec ! 0 div 8 + (if databit_len spec ! 0 mod 8 \<noteq> 0 then 1 else 0)"

definition infrared_common_decoder_alloc :: "'a InfraredCommonProtocolData_scheme \<Rightarrow> InfraredCommonDecoder option" where
  "infrared_common_decoder_alloc spec = do {
     furi_assert (\<forall>i\<in>set [1..<4]. databit_len spec ! i \<le> databit_len spec ! 0);
     Some \<lparr>timings = replicate 6 0, message = \<lparr>msg_protocol = InfraredProtocolNEC, address = 0, command = 0, repeat = False\<rparr>,
       state = InfraredCommonDecoderStateWaitPreamble, timings_cnt = 0, switch_detect = False, level = True,
       databit_cnt = 0, data = replicate (data_bytes spec + 2) 0, toggle = False\<rparr> }"

declare preamble_loop.simps [code] infrared_common_decode_bits.simps [code] decode_loop.simps [code]

section \<open>Encoder\<close>

definition infrared_common_encode_bits ::
  "InfraredCommonProtocolSpec \<Rightarrow> InfraredCommonEncoder \<Rightarrow> (InfraredStatus \<times> nat \<times> bool \<times> InfraredCommonEncoder) option" where
  "infrared_common_encode_bits spec e = do {
     (status, duration, lev, e) \<leftarrow> encode spec e;
     furi_assert (status = InfraredStatusOk);
     let e = e\<lparr>timings_encoded := timings_encoded e + 1, timings_sum := timings_sum e + duration\<rparr>;
     Some (if bits_encoded e = bits_to_encode e \<and> lev then InfraredStatusDone else status, duration, lev, e) }"

definition logic_value :: "InfraredCommonEncoder \<Rightarrow> bool option" where
  "logic_value e = do {
     x \<leftarrow> rd (enc_data e) (bits_encoded e div 8);
     Some (x AND push_bit (bits_encoded e mod 8) 1 \<noteq> 0) }"

definition infrared_common_encode_manchester ::
  "'a InfraredCommonProtocolData_scheme \<Rightarrow> InfraredCommonEncoder \<Rightarrow> (InfraredStatus \<times> nat \<times> bool \<times> InfraredCommonEncoder) option" where
  "infrared_common_encode_manchester spec e = do {
     v \<leftarrow> logic_value e;
     let even_timing = even (timings_encoded e);
     let lev = (even_timing \<noteq> v);
     let e = (if even_timing then e\<lparr>bits_encoded := bits_encoded e + 1\<rparr>
              else if lev \<and> bits_encoded e + 1 = bits_to_encode e then e\<lparr>bits_encoded := bits_encoded e + 1\<rparr>
              else e);
     Some (InfraredStatusOk, bit1_mark (spec_timings spec), lev, e) }"

definition infrared_common_encode_pdwm ::
  "'a InfraredCommonProtocolData_scheme \<Rightarrow> InfraredCommonEncoder \<Rightarrow> (InfraredStatus \<times> nat \<times> bool \<times> InfraredCommonEncoder) option" where
  "infrared_common_encode_pdwm spec e = do {
     v \<leftarrow> logic_value e;
     let t = spec_timings spec;
     let pwm = (bit1_space t = bit0_space t);
     if odd (timings_encoded e)
     then Some (InfraredStatusOk, if v then bit1_mark t else bit0_mark t, True,
            if pwm then e\<lparr>bits_encoded := bits_encoded e + 1\<rparr> else e)
     else Some (InfraredStatusOk, if v then bit1_space t else bit0_space t, False,
            if \<not> pwm then e\<lparr>bits_encoded := bits_encoded e + 1\<rparr> else e) }"

text \<open>The last case of the switch, and the ones before it.\<close>

definition encode_state_encode ::
  "InfraredCommonProtocolSpec \<Rightarrow> InfraredCommonEncoder \<Rightarrow> (InfraredStatus \<times> nat \<times> bool \<times> InfraredCommonEncoder) option" where
  "encode_state_encode spec e = do {
     (status, duration, lev, e) \<leftarrow> infrared_common_encode_bits spec e;
     Some (status, duration, lev,
       if status = InfraredStatusDone then
         (if encode_repeat spec \<noteq> None then e\<lparr>enc_state := InfraredCommonEncoderStateEncodeRepeat\<rparr>
          else e\<lparr>timings_encoded := 0, timings_sum := 0, bits_encoded := 0, enc_switch_detect := False,
                 enc_state := InfraredCommonEncoderStateSilence\<rparr>)
       else e) }"

definition infrared_common_encode ::
  "InfraredCommonProtocolSpec \<Rightarrow> InfraredCommonEncoder \<Rightarrow> (InfraredStatus \<times> nat \<times> bool \<times> InfraredCommonEncoder) option" where
  "infrared_common_encode spec e =
     (let t = spec_timings spec in
      case enc_state e of
        InfraredCommonEncoderStateSilence \<Rightarrow>
          Some (InfraredStatusOk, silence_time t, False,
            e\<lparr>enc_state := InfraredCommonEncoderStatePreamble, timings_encoded := timings_encoded e + 1, timings_sum := 0\<rparr>)
      | InfraredCommonEncoderStatePreamble \<Rightarrow>
          if preamble_mark t \<noteq> 0 then
            (if timings_encoded e = 1
             then Some (InfraredStatusOk, preamble_mark t, True,
                    e\<lparr>timings_encoded := timings_encoded e + 1, timings_sum := timings_sum e + preamble_mark t\<rparr>)
             else Some (InfraredStatusOk, preamble_space t, False,
                    e\<lparr>enc_state := InfraredCommonEncoderStateEncode, timings_encoded := timings_encoded e + 1,
                      timings_sum := timings_sum e + preamble_space t\<rparr>))
          else encode_state_encode spec (e\<lparr>enc_state := InfraredCommonEncoderStateEncode\<rparr>)
      | InfraredCommonEncoderStateEncode \<Rightarrow> encode_state_encode spec e
      | InfraredCommonEncoderStateEncodeRepeat \<Rightarrow> do { fn \<leftarrow> encode_repeat spec; fn e })"

definition infrared_common_encoder_alloc :: "bool \<Rightarrow> 'a InfraredCommonProtocolData_scheme \<Rightarrow> InfraredCommonEncoder option" where
  "infrared_common_encoder_alloc pdwm spec = do {
     let t = spec_timings spec;
     furi_assert (pdwm \<longrightarrow> (bit1_mark t = bit0_mark t) \<noteq> (bit1_space t = bit0_space t));
     furi_assert (\<forall>i\<in>set [1..<4]. databit_len spec ! i \<le> databit_len spec ! 0);
     Some \<lparr>enc_state = InfraredCommonEncoderStateSilence, enc_switch_detect = False, bits_to_encode = 0, bits_encoded = 0,
       timings_sum = 0, timings_encoded = 0, enc_data = replicate (data_bytes spec + 36) 0, toggle_bit = False\<rparr> }"

definition infrared_common_encoder_reset :: "'a InfraredCommonProtocolData_scheme \<Rightarrow> InfraredCommonEncoder \<Rightarrow> InfraredCommonEncoder option" where
  "infrared_common_encoder_reset spec e =
     (let max_databit_len = fold max (databit_len spec) 0;
          bytes_to_clear = max_databit_len div 8 + (if max_databit_len mod 8 \<noteq> 0 then 1 else 0) in do {
      bytes \<leftarrow> memcpy (enc_data e) 0 (replicate bytes_to_clear 0) 0 bytes_to_clear;
      Some (e\<lparr>timings_encoded := 0, timings_sum := 0, bits_encoded := 0,
        enc_state := InfraredCommonEncoderStateSilence, enc_switch_detect := False, enc_data := bytes\<rparr>) })"

end
