(* ===== verification/InfraredProtocols.thy ===== *)
theory InfraredProtocols
  imports InfraredCommon
begin

text \<open>
  The protocols of \<open>src/lib/infrared/encoder_decoder\<close>: for each the constants, the table, the meaning of the
  decoded bits, the repetition, and the preparation of the encoder. A table has its data first and then, with
  the functions that use the data, as a whole. Duty cycles are in per cent (floats in the code).
\<close>

section \<open>Constants\<close>

definition INFRARED_COMMON_CARRIER_FREQUENCY :: nat where "INFRARED_COMMON_CARRIER_FREQUENCY = 38000"
definition INFRARED_COMMON_DUTY_CYCLE :: nat where "INFRARED_COMMON_DUTY_CYCLE = 33"
definition INFRARED_NEC_PREAMBLE_MARK :: nat where "INFRARED_NEC_PREAMBLE_MARK = 9000"
definition INFRARED_NEC_PREAMBLE_SPACE :: nat where "INFRARED_NEC_PREAMBLE_SPACE = 4500"
definition INFRARED_NEC_BIT1_MARK :: nat where "INFRARED_NEC_BIT1_MARK = 560"
definition INFRARED_NEC_BIT1_SPACE :: nat where "INFRARED_NEC_BIT1_SPACE = 1690"
definition INFRARED_NEC_BIT0_MARK :: nat where "INFRARED_NEC_BIT0_MARK = 560"
definition INFRARED_NEC_BIT0_SPACE :: nat where "INFRARED_NEC_BIT0_SPACE = 560"
definition INFRARED_NEC_REPEAT_PERIOD :: nat where "INFRARED_NEC_REPEAT_PERIOD = 110000"
definition INFRARED_NEC_SILENCE :: nat where "INFRARED_NEC_SILENCE = INFRARED_NEC_REPEAT_PERIOD"
definition INFRARED_NEC_REPEAT_PAUSE_MIN :: nat where "INFRARED_NEC_REPEAT_PAUSE_MIN = 4000"
definition INFRARED_NEC_MIN_SPLIT_TIME :: nat where "INFRARED_NEC_MIN_SPLIT_TIME = INFRARED_NEC_REPEAT_PAUSE_MIN"
definition INFRARED_NEC_REPEAT_PAUSE_MAX :: nat where "INFRARED_NEC_REPEAT_PAUSE_MAX = 150000"
definition INFRARED_NEC_REPEAT_COUNT_MIN :: nat where "INFRARED_NEC_REPEAT_COUNT_MIN = 1"
definition INFRARED_NEC_REPEAT_MARK :: nat where "INFRARED_NEC_REPEAT_MARK = 9000"
definition INFRARED_NEC_REPEAT_SPACE :: nat where "INFRARED_NEC_REPEAT_SPACE = 2250"
definition INFRARED_NEC_PREAMBLE_TOLERANCE :: nat where "INFRARED_NEC_PREAMBLE_TOLERANCE = 200"
definition INFRARED_NEC_BIT_TOLERANCE :: nat where "INFRARED_NEC_BIT_TOLERANCE = 120"
definition INFRARED_SAMSUNG_PREAMBLE_MARK :: nat where "INFRARED_SAMSUNG_PREAMBLE_MARK = 4500"
definition INFRARED_SAMSUNG_PREAMBLE_SPACE :: nat where "INFRARED_SAMSUNG_PREAMBLE_SPACE = 4500"
definition INFRARED_SAMSUNG_BIT1_MARK :: nat where "INFRARED_SAMSUNG_BIT1_MARK = 550"
definition INFRARED_SAMSUNG_BIT1_SPACE :: nat where "INFRARED_SAMSUNG_BIT1_SPACE = 1650"
definition INFRARED_SAMSUNG_BIT0_MARK :: nat where "INFRARED_SAMSUNG_BIT0_MARK = 550"
definition INFRARED_SAMSUNG_BIT0_SPACE :: nat where "INFRARED_SAMSUNG_BIT0_SPACE = 550"
definition INFRARED_SAMSUNG_REPEAT_PAUSE_MIN :: nat where "INFRARED_SAMSUNG_REPEAT_PAUSE_MIN = 30000"
definition INFRARED_SAMSUNG_REPEAT_PAUSE_MAX :: nat where "INFRARED_SAMSUNG_REPEAT_PAUSE_MAX = 140000"
definition INFRARED_SAMSUNG_REPEAT_PAUSE1 :: nat where "INFRARED_SAMSUNG_REPEAT_PAUSE1 = 46000"
definition INFRARED_SAMSUNG_REPEAT_PAUSE2 :: nat where "INFRARED_SAMSUNG_REPEAT_PAUSE2 = 97000"
definition INFRARED_SAMSUNG_REPEAT_COUNT_MIN :: nat where "INFRARED_SAMSUNG_REPEAT_COUNT_MIN = 1"
definition INFRARED_SAMSUNG_MIN_SPLIT_TIME :: nat where "INFRARED_SAMSUNG_MIN_SPLIT_TIME = 5000"
definition INFRARED_SAMSUNG_SILENCE :: nat where "INFRARED_SAMSUNG_SILENCE = 145000"
definition INFRARED_SAMSUNG_REPEAT_MARK :: nat where "INFRARED_SAMSUNG_REPEAT_MARK = 4500"
definition INFRARED_SAMSUNG_REPEAT_SPACE :: nat where "INFRARED_SAMSUNG_REPEAT_SPACE = 4500"
definition INFRARED_SAMSUNG_PREAMBLE_TOLERANCE :: nat where "INFRARED_SAMSUNG_PREAMBLE_TOLERANCE = 200"
definition INFRARED_SAMSUNG_BIT_TOLERANCE :: nat where "INFRARED_SAMSUNG_BIT_TOLERANCE = 120"
definition INFRARED_RC5_CARRIER_FREQUENCY :: nat where "INFRARED_RC5_CARRIER_FREQUENCY = 36000"
definition INFRARED_RC5_DUTY_CYCLE :: nat where "INFRARED_RC5_DUTY_CYCLE = 33"
definition INFRARED_RC5_BIT :: nat where "INFRARED_RC5_BIT = 888"
definition INFRARED_RC5_BIT_TOLERANCE :: nat where "INFRARED_RC5_BIT_TOLERANCE = 120"
definition INFRARED_RC5_SILENCE :: nat where "INFRARED_RC5_SILENCE = (2700 * 10)"
definition INFRARED_RC5_MIN_SPLIT_TIME :: nat where "INFRARED_RC5_MIN_SPLIT_TIME = 2700"
definition INFRARED_RC5_REPEAT_COUNT_MIN :: nat where "INFRARED_RC5_REPEAT_COUNT_MIN = 1"
definition INFRARED_RC6_CARRIER_FREQUENCY :: nat where "INFRARED_RC6_CARRIER_FREQUENCY = 36000"
definition INFRARED_RC6_DUTY_CYCLE :: nat where "INFRARED_RC6_DUTY_CYCLE = 33"
definition INFRARED_RC6_PREAMBLE_MARK :: nat where "INFRARED_RC6_PREAMBLE_MARK = 2666"
definition INFRARED_RC6_PREAMBLE_SPACE :: nat where "INFRARED_RC6_PREAMBLE_SPACE = 889"
definition INFRARED_RC6_BIT :: nat where "INFRARED_RC6_BIT = 444"
definition INFRARED_RC6_PREAMBLE_TOLERANCE :: nat where "INFRARED_RC6_PREAMBLE_TOLERANCE = 200"
definition INFRARED_RC6_BIT_TOLERANCE :: nat where "INFRARED_RC6_BIT_TOLERANCE = 120"
definition INFRARED_RC6_SILENCE :: nat where "INFRARED_RC6_SILENCE = (2700 * 10)"
definition INFRARED_RC6_MIN_SPLIT_TIME :: nat where "INFRARED_RC6_MIN_SPLIT_TIME = 2700"
definition INFRARED_RC6_REPEAT_COUNT_MIN :: nat where "INFRARED_RC6_REPEAT_COUNT_MIN = 1"
definition INFRARED_SIRC_CARRIER_FREQUENCY :: nat where "INFRARED_SIRC_CARRIER_FREQUENCY = 40000"
definition INFRARED_SIRC_DUTY_CYCLE :: nat where "INFRARED_SIRC_DUTY_CYCLE = 33"
definition INFRARED_SIRC_PREAMBLE_MARK :: nat where "INFRARED_SIRC_PREAMBLE_MARK = 2400"
definition INFRARED_SIRC_PREAMBLE_SPACE :: nat where "INFRARED_SIRC_PREAMBLE_SPACE = 600"
definition INFRARED_SIRC_BIT1_MARK :: nat where "INFRARED_SIRC_BIT1_MARK = 1200"
definition INFRARED_SIRC_BIT1_SPACE :: nat where "INFRARED_SIRC_BIT1_SPACE = 600"
definition INFRARED_SIRC_BIT0_MARK :: nat where "INFRARED_SIRC_BIT0_MARK = 600"
definition INFRARED_SIRC_BIT0_SPACE :: nat where "INFRARED_SIRC_BIT0_SPACE = 600"
definition INFRARED_SIRC_PREAMBLE_TOLERANCE :: nat where "INFRARED_SIRC_PREAMBLE_TOLERANCE = 200"
definition INFRARED_SIRC_BIT_TOLERANCE :: nat where "INFRARED_SIRC_BIT_TOLERANCE = 120"
definition INFRARED_SIRC_SILENCE :: nat where "INFRARED_SIRC_SILENCE = 10000"
definition INFRARED_SIRC_MIN_SPLIT_TIME :: nat where "INFRARED_SIRC_MIN_SPLIT_TIME = (INFRARED_SIRC_SILENCE - 1000)"
definition INFRARED_SIRC_REPEAT_PERIOD :: nat where "INFRARED_SIRC_REPEAT_PERIOD = 45000"
definition INFRARED_SIRC_REPEAT_COUNT_MIN :: nat where "INFRARED_SIRC_REPEAT_COUNT_MIN = 3"
definition INFRARED_KASEIKYO_UNIT :: nat where "INFRARED_KASEIKYO_UNIT = 432"
definition INFRARED_KASEIKYO_PREAMBLE_MARK :: nat where "INFRARED_KASEIKYO_PREAMBLE_MARK = (8 * INFRARED_KASEIKYO_UNIT)"
definition INFRARED_KASEIKYO_PREAMBLE_SPACE :: nat where "INFRARED_KASEIKYO_PREAMBLE_SPACE = (4 * INFRARED_KASEIKYO_UNIT)"
definition INFRARED_KASEIKYO_BIT1_MARK :: nat where "INFRARED_KASEIKYO_BIT1_MARK = INFRARED_KASEIKYO_UNIT"
definition INFRARED_KASEIKYO_BIT1_SPACE :: nat where "INFRARED_KASEIKYO_BIT1_SPACE = (3 * INFRARED_KASEIKYO_UNIT)"
definition INFRARED_KASEIKYO_BIT0_MARK :: nat where "INFRARED_KASEIKYO_BIT0_MARK = INFRARED_KASEIKYO_UNIT"
definition INFRARED_KASEIKYO_BIT0_SPACE :: nat where "INFRARED_KASEIKYO_BIT0_SPACE = INFRARED_KASEIKYO_UNIT"
definition INFRARED_KASEIKYO_REPEAT_PERIOD :: nat where "INFRARED_KASEIKYO_REPEAT_PERIOD = 130000"
definition INFRARED_KASEIKYO_SILENCE :: nat where "INFRARED_KASEIKYO_SILENCE = INFRARED_KASEIKYO_REPEAT_PERIOD"
definition INFRARED_KASEIKYO_REPEAT_PAUSE_MIN :: nat where "INFRARED_KASEIKYO_REPEAT_PAUSE_MIN = 4000"
definition INFRARED_KASEIKYO_MIN_SPLIT_TIME :: nat where "INFRARED_KASEIKYO_MIN_SPLIT_TIME = INFRARED_KASEIKYO_REPEAT_PAUSE_MIN"
definition INFRARED_KASEIKYO_REPEAT_COUNT_MIN :: nat where "INFRARED_KASEIKYO_REPEAT_COUNT_MIN = 1"
definition INFRARED_KASEIKYO_PREAMBLE_TOLERANCE :: nat where "INFRARED_KASEIKYO_PREAMBLE_TOLERANCE = 200"
definition INFRARED_KASEIKYO_BIT_TOLERANCE :: nat where "INFRARED_KASEIKYO_BIT_TOLERANCE = 120"
definition INFRARED_RCA_PREAMBLE_MARK :: nat where "INFRARED_RCA_PREAMBLE_MARK = 4000"
definition INFRARED_RCA_PREAMBLE_SPACE :: nat where "INFRARED_RCA_PREAMBLE_SPACE = 4000"
definition INFRARED_RCA_BIT1_MARK :: nat where "INFRARED_RCA_BIT1_MARK = 500"
definition INFRARED_RCA_BIT1_SPACE :: nat where "INFRARED_RCA_BIT1_SPACE = 2000"
definition INFRARED_RCA_BIT0_MARK :: nat where "INFRARED_RCA_BIT0_MARK = 500"
definition INFRARED_RCA_BIT0_SPACE :: nat where "INFRARED_RCA_BIT0_SPACE = 1000"
definition INFRARED_RCA_REPEAT_PERIOD :: nat where "INFRARED_RCA_REPEAT_PERIOD = 8000"
definition INFRARED_RCA_SILENCE :: nat where "INFRARED_RCA_SILENCE = INFRARED_RCA_REPEAT_PERIOD"
definition INFRARED_RCA_REPEAT_PAUSE_MIN :: nat where "INFRARED_RCA_REPEAT_PAUSE_MIN = 4000"
definition INFRARED_RCA_MIN_SPLIT_TIME :: nat where "INFRARED_RCA_MIN_SPLIT_TIME = INFRARED_RCA_REPEAT_PAUSE_MIN"
definition INFRARED_RCA_REPEAT_COUNT_MIN :: nat where "INFRARED_RCA_REPEAT_COUNT_MIN = 1"
definition INFRARED_RCA_PREAMBLE_TOLERANCE :: nat where "INFRARED_RCA_PREAMBLE_TOLERANCE = 200"
definition INFRARED_RCA_BIT_TOLERANCE :: nat where "INFRARED_RCA_BIT_TOLERANCE = 120"
definition INFRARED_PIONEER_CARRIER_FREQUENCY :: nat where "INFRARED_PIONEER_CARRIER_FREQUENCY = 40000"
definition INFRARED_PIONEER_DUTY_CYCLE :: nat where "INFRARED_PIONEER_DUTY_CYCLE = 33"
definition INFRARED_PIONEER_PREAMBLE_MARK :: nat where "INFRARED_PIONEER_PREAMBLE_MARK = 8500"
definition INFRARED_PIONEER_PREAMBLE_SPACE :: nat where "INFRARED_PIONEER_PREAMBLE_SPACE = 4225"
definition INFRARED_PIONEER_BIT1_MARK :: nat where "INFRARED_PIONEER_BIT1_MARK = 500"
definition INFRARED_PIONEER_BIT1_SPACE :: nat where "INFRARED_PIONEER_BIT1_SPACE = 1500"
definition INFRARED_PIONEER_BIT0_MARK :: nat where "INFRARED_PIONEER_BIT0_MARK = 500"
definition INFRARED_PIONEER_BIT0_SPACE :: nat where "INFRARED_PIONEER_BIT0_SPACE = 500"
definition INFRARED_PIONEER_PREAMBLE_TOLERANCE :: nat where "INFRARED_PIONEER_PREAMBLE_TOLERANCE = 200"
definition INFRARED_PIONEER_BIT_TOLERANCE :: nat where "INFRARED_PIONEER_BIT_TOLERANCE = 120"
definition INFRARED_PIONEER_SILENCE :: nat where "INFRARED_PIONEER_SILENCE = 26000"
definition INFRARED_PIONEER_MIN_SPLIT_TIME :: nat where "INFRARED_PIONEER_MIN_SPLIT_TIME = (INFRARED_PIONEER_SILENCE)"
definition INFRARED_PIONEER_REPEAT_COUNT_MIN :: nat where "INFRARED_PIONEER_REPEAT_COUNT_MIN = 2"

lemmas infrared_constants = INFRARED_COMMON_CARRIER_FREQUENCY_def INFRARED_COMMON_DUTY_CYCLE_def INFRARED_NEC_PREAMBLE_MARK_def INFRARED_NEC_PREAMBLE_SPACE_def INFRARED_NEC_BIT1_MARK_def INFRARED_NEC_BIT1_SPACE_def INFRARED_NEC_BIT0_MARK_def INFRARED_NEC_BIT0_SPACE_def INFRARED_NEC_REPEAT_PERIOD_def INFRARED_NEC_SILENCE_def INFRARED_NEC_REPEAT_PAUSE_MIN_def INFRARED_NEC_MIN_SPLIT_TIME_def INFRARED_NEC_REPEAT_PAUSE_MAX_def INFRARED_NEC_REPEAT_COUNT_MIN_def INFRARED_NEC_REPEAT_MARK_def INFRARED_NEC_REPEAT_SPACE_def INFRARED_NEC_PREAMBLE_TOLERANCE_def INFRARED_NEC_BIT_TOLERANCE_def INFRARED_SAMSUNG_PREAMBLE_MARK_def INFRARED_SAMSUNG_PREAMBLE_SPACE_def INFRARED_SAMSUNG_BIT1_MARK_def INFRARED_SAMSUNG_BIT1_SPACE_def INFRARED_SAMSUNG_BIT0_MARK_def INFRARED_SAMSUNG_BIT0_SPACE_def INFRARED_SAMSUNG_REPEAT_PAUSE_MIN_def INFRARED_SAMSUNG_REPEAT_PAUSE_MAX_def INFRARED_SAMSUNG_REPEAT_PAUSE1_def INFRARED_SAMSUNG_REPEAT_PAUSE2_def INFRARED_SAMSUNG_REPEAT_COUNT_MIN_def INFRARED_SAMSUNG_MIN_SPLIT_TIME_def INFRARED_SAMSUNG_SILENCE_def INFRARED_SAMSUNG_REPEAT_MARK_def INFRARED_SAMSUNG_REPEAT_SPACE_def INFRARED_SAMSUNG_PREAMBLE_TOLERANCE_def INFRARED_SAMSUNG_BIT_TOLERANCE_def INFRARED_RC5_CARRIER_FREQUENCY_def INFRARED_RC5_DUTY_CYCLE_def INFRARED_RC5_BIT_def INFRARED_RC5_BIT_TOLERANCE_def INFRARED_RC5_SILENCE_def INFRARED_RC5_MIN_SPLIT_TIME_def INFRARED_RC5_REPEAT_COUNT_MIN_def INFRARED_RC6_CARRIER_FREQUENCY_def INFRARED_RC6_DUTY_CYCLE_def INFRARED_RC6_PREAMBLE_MARK_def INFRARED_RC6_PREAMBLE_SPACE_def INFRARED_RC6_BIT_def INFRARED_RC6_PREAMBLE_TOLERANCE_def INFRARED_RC6_BIT_TOLERANCE_def INFRARED_RC6_SILENCE_def INFRARED_RC6_MIN_SPLIT_TIME_def INFRARED_RC6_REPEAT_COUNT_MIN_def INFRARED_SIRC_CARRIER_FREQUENCY_def INFRARED_SIRC_DUTY_CYCLE_def INFRARED_SIRC_PREAMBLE_MARK_def INFRARED_SIRC_PREAMBLE_SPACE_def INFRARED_SIRC_BIT1_MARK_def INFRARED_SIRC_BIT1_SPACE_def INFRARED_SIRC_BIT0_MARK_def INFRARED_SIRC_BIT0_SPACE_def INFRARED_SIRC_PREAMBLE_TOLERANCE_def INFRARED_SIRC_BIT_TOLERANCE_def INFRARED_SIRC_SILENCE_def INFRARED_SIRC_MIN_SPLIT_TIME_def INFRARED_SIRC_REPEAT_PERIOD_def INFRARED_SIRC_REPEAT_COUNT_MIN_def INFRARED_KASEIKYO_UNIT_def INFRARED_KASEIKYO_PREAMBLE_MARK_def INFRARED_KASEIKYO_PREAMBLE_SPACE_def INFRARED_KASEIKYO_BIT1_MARK_def INFRARED_KASEIKYO_BIT1_SPACE_def INFRARED_KASEIKYO_BIT0_MARK_def INFRARED_KASEIKYO_BIT0_SPACE_def INFRARED_KASEIKYO_REPEAT_PERIOD_def INFRARED_KASEIKYO_SILENCE_def INFRARED_KASEIKYO_REPEAT_PAUSE_MIN_def INFRARED_KASEIKYO_MIN_SPLIT_TIME_def INFRARED_KASEIKYO_REPEAT_COUNT_MIN_def INFRARED_KASEIKYO_PREAMBLE_TOLERANCE_def INFRARED_KASEIKYO_BIT_TOLERANCE_def INFRARED_RCA_PREAMBLE_MARK_def INFRARED_RCA_PREAMBLE_SPACE_def INFRARED_RCA_BIT1_MARK_def INFRARED_RCA_BIT1_SPACE_def INFRARED_RCA_BIT0_MARK_def INFRARED_RCA_BIT0_SPACE_def INFRARED_RCA_REPEAT_PERIOD_def INFRARED_RCA_SILENCE_def INFRARED_RCA_REPEAT_PAUSE_MIN_def INFRARED_RCA_MIN_SPLIT_TIME_def INFRARED_RCA_REPEAT_COUNT_MIN_def INFRARED_RCA_PREAMBLE_TOLERANCE_def INFRARED_RCA_BIT_TOLERANCE_def INFRARED_PIONEER_CARRIER_FREQUENCY_def INFRARED_PIONEER_DUTY_CYCLE_def INFRARED_PIONEER_PREAMBLE_MARK_def INFRARED_PIONEER_PREAMBLE_SPACE_def INFRARED_PIONEER_BIT1_MARK_def INFRARED_PIONEER_BIT1_SPACE_def INFRARED_PIONEER_BIT0_MARK_def INFRARED_PIONEER_BIT0_SPACE_def INFRARED_PIONEER_PREAMBLE_TOLERANCE_def INFRARED_PIONEER_BIT_TOLERANCE_def INFRARED_PIONEER_SILENCE_def INFRARED_PIONEER_MIN_SPLIT_TIME_def INFRARED_PIONEER_REPEAT_COUNT_MIN_def

section \<open>Words in the data\<close>

definition load_u32 :: "u8 list \<Rightarrow> nat \<Rightarrow> u32 option" where
  "load_u32 xs off = (if off + 4 \<le> length xs then Some (of_le_bytes (seg off 4 xs)) else None)"

definition load_u16 :: "u8 list \<Rightarrow> nat \<Rightarrow> u16 option" where
  "load_u16 xs off = (if off + 2 \<le> length xs then Some (of_le_bytes (seg off 2 xs)) else None)"

definition store_u32 :: "u8 list \<Rightarrow> nat \<Rightarrow> u32 \<Rightarrow> u8 list option" where
  "store_u32 xs off w = (if off + 4 \<le> length xs then Some (overwrite off (le_bytes 4 w) xs) else None)"

definition reverse :: "u8 \<Rightarrow> u8" where
  "reverse value = fold (\<lambda>i reverse_value. reverse_value OR (if value AND push_bit i 1 \<noteq> 0 then push_bit (7 - i) 1 else 0)) [0..<8] 0"

definition set_message :: "InfraredProtocol \<Rightarrow> u32 \<Rightarrow> u32 \<Rightarrow> InfraredCommonDecoder \<Rightarrow> InfraredCommonDecoder" where
  "set_message p a c d = d\<lparr>message := \<lparr>msg_protocol = p, address = a, command = c, repeat = False\<rparr>\<rparr>"

record InfraredProtocolVariant =
  name :: string
  address_length :: nat
  command_length :: nat
  frequency :: nat
  duty_cycle :: nat
  repeat_count :: nat

section \<open>NEC\<close>

definition nec_data :: InfraredCommonProtocolData where
  "nec_data = \<lparr>
     spec_timings = \<lparr>
       min_split_time = INFRARED_NEC_MIN_SPLIT_TIME, silence_time = INFRARED_NEC_SILENCE,
       preamble_mark = INFRARED_NEC_PREAMBLE_MARK, preamble_space = INFRARED_NEC_PREAMBLE_SPACE,
       bit1_mark = INFRARED_NEC_BIT1_MARK, bit1_space = INFRARED_NEC_BIT1_SPACE,
       bit0_mark = INFRARED_NEC_BIT0_MARK, bit0_space = INFRARED_NEC_BIT0_SPACE,
       preamble_tolerance = INFRARED_NEC_PREAMBLE_TOLERANCE, bit_tolerance = INFRARED_NEC_BIT_TOLERANCE\<rparr>,
     manchester_start_from_space = False, databit_len = [42, 32, 0, 0]\<rparr>"

definition infrared_decoder_nec_interpret :: "InfraredCommonDecoder \<Rightarrow> (bool \<times> InfraredCommonDecoder) option" where
  "infrared_decoder_nec_interpret d =
     (if databit_cnt d = 32 then do {
        address \<leftarrow> rd (data d) 0;
        address_inverse \<leftarrow> rd (data d) 1;
        command \<leftarrow> rd (data d) 2;
        command_inverse \<leftarrow> rd (data d) 3;
        Some (True,
          if command = NOT command_inverse \<and> address = NOT address_inverse
          then set_message InfraredProtocolNEC (ucast address) (ucast command) d
          else set_message InfraredProtocolNECext (ucast address OR push_bit 8 (ucast address_inverse))
                 (ucast command OR push_bit 8 (ucast command_inverse)) d) }
      else if databit_cnt d = 42 then do {
        data1 \<leftarrow> load_u32 (data d) 0;
        data2 \<leftarrow> load_u16 (data d) 4;
        let address = (ucast (data1 AND 0x1FFF) :: u16);
        let address_inverse = (ucast (drop_bit 13 data1 AND 0x1FFF) :: u16);
        let command = (ucast (drop_bit 26 data1 AND 0x3F) OR push_bit 6 (data2 AND 0x3) :: u16);
        let command_inverse = drop_bit 2 data2 AND 0xFF;
        Some (True,
          if address = NOT address_inverse AND 0x1FFF \<and> command = NOT command_inverse AND 0xFF
          then set_message InfraredProtocolNEC42 (ucast address) (ucast command) d
          else set_message InfraredProtocolNEC42ext (ucast address OR push_bit 13 (ucast address_inverse))
                 (ucast command OR push_bit 8 (ucast command_inverse)) d) }
      else Some (False, d))"

definition infrared_decoder_nec_decode_repeat :: "InfraredCommonDecoder \<Rightarrow> (InfraredStatus \<times> InfraredCommonDecoder) option" where
  "infrared_decoder_nec_decode_repeat d =
     (let t = spec_timings nec_data in
      if timings_cnt d < 4 then Some (InfraredStatusOk, d)
      else do {
        t0 \<leftarrow> rd (timings d) 0;
        t1 \<leftarrow> rd (timings d) 1;
        t2 \<leftarrow> rd (timings d) 2;
        t3 \<leftarrow> rd (timings d) 3;
        if t0 > INFRARED_NEC_REPEAT_PAUSE_MIN \<and> t0 < INFRARED_NEC_REPEAT_PAUSE_MAX \<and>
           MATCH_TIMING t1 INFRARED_NEC_REPEAT_MARK (preamble_tolerance t) \<and>
           MATCH_TIMING t2 INFRARED_NEC_REPEAT_SPACE (preamble_tolerance t) \<and>
           MATCH_TIMING t3 (bit1_mark t) (bit_tolerance t)
        then Some (InfraredStatusReady, d\<lparr>timings_cnt := 0\<rparr>)
        else Some (InfraredStatusError, d) })"

definition nec_repeat_timings :: "nat list" where
  "nec_repeat_timings =
     [INFRARED_NEC_REPEAT_PERIOD - INFRARED_NEC_REPEAT_MARK - INFRARED_NEC_REPEAT_SPACE - INFRARED_NEC_BIT1_MARK,
      INFRARED_NEC_REPEAT_MARK, INFRARED_NEC_REPEAT_SPACE, INFRARED_NEC_BIT1_MARK]"

definition infrared_encoder_nec_encode_repeat :: "InfraredCommonEncoder \<Rightarrow> (InfraredStatus \<times> nat \<times> bool \<times> InfraredCommonEncoder) option" where
  "infrared_encoder_nec_encode_repeat e =
     (let timings_encoded_up_to_repeat = 1 + 2 + bits_to_encode e * 2 + 1;
          repeat_cnt = timings_encoded e - timings_encoded_up_to_repeat in do {
      furi_assert (timings_encoded e \<ge> timings_encoded_up_to_repeat);
      duration \<leftarrow> (if repeat_cnt > 0 then rd nec_repeat_timings (repeat_cnt mod 4)
                   else Some (INFRARED_NEC_REPEAT_PERIOD - timings_sum e));
      Some (if (repeat_cnt + 1) mod 4 = 0 then InfraredStatusDone else InfraredStatusOk, duration, odd repeat_cnt,
        e\<lparr>timings_encoded := timings_encoded e + 1\<rparr>) })"

definition infrared_protocol_nec :: InfraredCommonProtocolSpec where
  "infrared_protocol_nec = InfraredCommonProtocolData.extend nec_data \<lparr>
     decode = infrared_common_decode_pdwm nec_data,
     decode_repeat = Some infrared_decoder_nec_decode_repeat,
     interpret_data = infrared_decoder_nec_interpret,
     encode = infrared_common_encode_pdwm nec_data,
     encode_repeat = Some infrared_encoder_nec_encode_repeat\<rparr>"

definition infrared_encoder_nec_reset :: "InfraredCommonEncoder \<Rightarrow> InfraredMessage \<Rightarrow> InfraredCommonEncoder option" where
  "infrared_encoder_nec_reset e m = do {
     e \<leftarrow> infrared_common_encoder_reset nec_data e;
     (case msg_protocol m of
        InfraredProtocolNEC \<Rightarrow> (
          let address = (ucast (address m) :: u8); address_inverse = NOT address;
              command = (ucast (command m) :: u8); command_inverse = NOT command in do {
          bytes \<leftarrow> store_u32 (enc_data e) 0 (ucast address OR push_bit 8 (ucast address_inverse) OR
                    push_bit 16 (ucast command) OR push_bit 24 (ucast command_inverse));
          Some (e\<lparr>enc_data := bytes, bits_to_encode := 32\<rparr>) })
      | InfraredProtocolNECext \<Rightarrow> do {
          bytes \<leftarrow> store_u32 (enc_data e) 0 (ucast (ucast (address m) :: u16) OR push_bit 16 (command m AND 0xFFFF));
          Some (e\<lparr>enc_data := bytes, bits_to_encode := 32\<rparr>) }
      | InfraredProtocolNEC42 \<Rightarrow> do {
          bytes \<leftarrow> store_u32 (enc_data e) 0 (address m AND 0x1FFF OR push_bit 13 (NOT (address m) AND 0x1FFF) OR push_bit 26 (command m AND 0x3F));
          bytes \<leftarrow> store_u32 bytes 4 (drop_bit 6 (command m AND 0xC0) OR push_bit 2 (NOT (command m) AND 0xFF));
          Some (e\<lparr>enc_data := bytes, bits_to_encode := 42\<rparr>) }
      | InfraredProtocolNEC42ext \<Rightarrow> do {
          bytes \<leftarrow> store_u32 (enc_data e) 0 (address m AND 0x3FFFFFF OR push_bit 26 (command m AND 0x3F));
          bytes \<leftarrow> store_u32 bytes 4 (drop_bit 6 (command m AND 0xFFC0));
          Some (e\<lparr>enc_data := bytes, bits_to_encode := 42\<rparr>) }
      | _ \<Rightarrow> None) }"

definition infrared_decoder_nec_check_ready where "infrared_decoder_nec_check_ready = infrared_common_decoder_check_ready infrared_protocol_nec"
definition infrared_decoder_nec_alloc where "infrared_decoder_nec_alloc = infrared_common_decoder_alloc infrared_protocol_nec"
definition infrared_decoder_nec_decode where "infrared_decoder_nec_decode = infrared_common_decode infrared_protocol_nec"
definition infrared_decoder_nec_reset where "infrared_decoder_nec_reset = infrared_common_decoder_reset infrared_protocol_nec"
definition infrared_encoder_nec_alloc where "infrared_encoder_nec_alloc = infrared_common_encoder_alloc True infrared_protocol_nec"
definition infrared_encoder_nec_encode where "infrared_encoder_nec_encode = infrared_common_encode infrared_protocol_nec"

definition infrared_protocol_variant_nec :: InfraredProtocolVariant where
  "infrared_protocol_variant_nec = \<lparr>name = ''NEC'', address_length = 8, command_length = 8,
     frequency = INFRARED_COMMON_CARRIER_FREQUENCY, duty_cycle = INFRARED_COMMON_DUTY_CYCLE, repeat_count = INFRARED_NEC_REPEAT_COUNT_MIN\<rparr>"

definition infrared_protocol_variant_necext :: InfraredProtocolVariant where
  "infrared_protocol_variant_necext = \<lparr>name = ''NECext'', address_length = 16, command_length = 16,
     frequency = INFRARED_COMMON_CARRIER_FREQUENCY, duty_cycle = INFRARED_COMMON_DUTY_CYCLE, repeat_count = INFRARED_NEC_REPEAT_COUNT_MIN\<rparr>"

definition infrared_protocol_variant_nec42 :: InfraredProtocolVariant where
  "infrared_protocol_variant_nec42 = \<lparr>name = ''NEC42'', address_length = 13, command_length = 8,
     frequency = INFRARED_COMMON_CARRIER_FREQUENCY, duty_cycle = INFRARED_COMMON_DUTY_CYCLE, repeat_count = INFRARED_NEC_REPEAT_COUNT_MIN\<rparr>"

definition infrared_protocol_variant_nec42ext :: InfraredProtocolVariant where
  "infrared_protocol_variant_nec42ext = \<lparr>name = ''NEC42ext'', address_length = 26, command_length = 16,
     frequency = INFRARED_COMMON_CARRIER_FREQUENCY, duty_cycle = INFRARED_COMMON_DUTY_CYCLE, repeat_count = INFRARED_NEC_REPEAT_COUNT_MIN\<rparr>"

definition infrared_protocol_nec_get_variant :: "InfraredProtocol \<Rightarrow> InfraredProtocolVariant option" where
  "infrared_protocol_nec_get_variant protocol =
     (if protocol = InfraredProtocolNEC then Some infrared_protocol_variant_nec else if protocol = InfraredProtocolNECext then Some infrared_protocol_variant_necext else if protocol = InfraredProtocolNEC42 then Some infrared_protocol_variant_nec42 else if protocol = InfraredProtocolNEC42ext then Some infrared_protocol_variant_nec42ext else None)"


section \<open>Samsung\<close>

definition samsung32_data :: InfraredCommonProtocolData where
  "samsung32_data = \<lparr>
     spec_timings = \<lparr>
       min_split_time = INFRARED_SAMSUNG_MIN_SPLIT_TIME, silence_time = INFRARED_SAMSUNG_SILENCE,
       preamble_mark = INFRARED_SAMSUNG_PREAMBLE_MARK, preamble_space = INFRARED_SAMSUNG_PREAMBLE_SPACE,
       bit1_mark = INFRARED_SAMSUNG_BIT1_MARK, bit1_space = INFRARED_SAMSUNG_BIT1_SPACE,
       bit0_mark = INFRARED_SAMSUNG_BIT0_MARK, bit0_space = INFRARED_SAMSUNG_BIT0_SPACE,
       preamble_tolerance = INFRARED_SAMSUNG_PREAMBLE_TOLERANCE, bit_tolerance = INFRARED_SAMSUNG_BIT_TOLERANCE\<rparr>,
     manchester_start_from_space = False, databit_len = [32, 0, 0, 0]\<rparr>"

definition infrared_decoder_samsung32_interpret :: "InfraredCommonDecoder \<Rightarrow> (bool \<times> InfraredCommonDecoder) option" where
  "infrared_decoder_samsung32_interpret d = do {
     address1 \<leftarrow> rd (data d) 0;
     address2 \<leftarrow> rd (data d) 1;
     command \<leftarrow> rd (data d) 2;
     command_inverse \<leftarrow> rd (data d) 3;
     Some (if address1 = address2 \<and> command = NOT command_inverse
           then (True, set_message InfraredProtocolSamsung32 (ucast address1) (ucast command) d)
           else (False, d)) }"

definition infrared_decoder_samsung32_decode_repeat :: "InfraredCommonDecoder \<Rightarrow> (InfraredStatus \<times> InfraredCommonDecoder) option" where
  "infrared_decoder_samsung32_decode_repeat d =
     (let t = spec_timings samsung32_data in
      if timings_cnt d < 6 then Some (InfraredStatusOk, d)
      else do {
        t0 \<leftarrow> rd (timings d) 0;
        t1 \<leftarrow> rd (timings d) 1;
        t2 \<leftarrow> rd (timings d) 2;
        t3 \<leftarrow> rd (timings d) 3;
        t4 \<leftarrow> rd (timings d) 4;
        t5 \<leftarrow> rd (timings d) 5;
        if t0 > INFRARED_SAMSUNG_REPEAT_PAUSE_MIN \<and> t0 < INFRARED_SAMSUNG_REPEAT_PAUSE_MAX \<and>
           MATCH_TIMING t1 INFRARED_SAMSUNG_REPEAT_MARK (preamble_tolerance t) \<and>
           MATCH_TIMING t2 INFRARED_SAMSUNG_REPEAT_SPACE (preamble_tolerance t) \<and>
           MATCH_TIMING t3 (bit1_mark t) (bit_tolerance t) \<and>
           MATCH_TIMING t4 (bit1_space t) (bit_tolerance t) \<and>
           MATCH_TIMING t5 (bit1_mark t) (bit_tolerance t)
        then Some (InfraredStatusReady, d\<lparr>timings_cnt := 0\<rparr>)
        else Some (InfraredStatusError, d) })"

definition samsung32_repeat_timings :: "nat list" where
  "samsung32_repeat_timings =
     [INFRARED_SAMSUNG_REPEAT_PAUSE2, INFRARED_SAMSUNG_REPEAT_MARK, INFRARED_SAMSUNG_REPEAT_SPACE,
      INFRARED_SAMSUNG_BIT1_MARK, INFRARED_SAMSUNG_BIT1_SPACE, INFRARED_SAMSUNG_BIT1_MARK]"

definition infrared_encoder_samsung32_encode_repeat :: "InfraredCommonEncoder \<Rightarrow> (InfraredStatus \<times> nat \<times> bool \<times> InfraredCommonEncoder) option" where
  "infrared_encoder_samsung32_encode_repeat e =
     (let timings_encoded_up_to_repeat = 1 + 2 + bits_encoded e * 2 + 1;
          repeat_cnt = timings_encoded e - timings_encoded_up_to_repeat in do {
      furi_assert (timings_encoded e \<ge> timings_encoded_up_to_repeat);
      duration \<leftarrow> (if repeat_cnt > 0 then rd samsung32_repeat_timings (repeat_cnt mod 6)
                   else Some INFRARED_SAMSUNG_REPEAT_PAUSE1);
      Some (if (repeat_cnt + 1) mod 6 = 0 then InfraredStatusDone else InfraredStatusOk, duration, odd repeat_cnt,
        e\<lparr>timings_encoded := timings_encoded e + 1\<rparr>) })"

definition infrared_protocol_samsung32 :: InfraredCommonProtocolSpec where
  "infrared_protocol_samsung32 = InfraredCommonProtocolData.extend samsung32_data \<lparr>
     decode = infrared_common_decode_pdwm samsung32_data,
     decode_repeat = Some infrared_decoder_samsung32_decode_repeat,
     interpret_data = infrared_decoder_samsung32_interpret,
     encode = infrared_common_encode_pdwm samsung32_data,
     encode_repeat = Some infrared_encoder_samsung32_encode_repeat\<rparr>"

definition infrared_encoder_samsung32_reset :: "InfraredCommonEncoder \<Rightarrow> InfraredMessage \<Rightarrow> InfraredCommonEncoder option" where
  "infrared_encoder_samsung32_reset e m = do {
     e \<leftarrow> infrared_common_encoder_reset samsung32_data e;
     let address = (ucast (address m) :: u8);
     let command = (ucast (command m) :: u8);
     let command_inverse = NOT command;
     x \<leftarrow> load_u32 (enc_data e) 0;
     bytes \<leftarrow> store_u32 (enc_data e) 0 (x OR ucast address OR push_bit 8 (ucast address) OR
                push_bit 16 (ucast command) OR push_bit 24 (ucast command_inverse));
     Some (e\<lparr>enc_data := bytes, bits_to_encode := databit_len samsung32_data ! 0\<rparr>) }"

definition infrared_decoder_samsung32_check_ready where "infrared_decoder_samsung32_check_ready = infrared_common_decoder_check_ready infrared_protocol_samsung32"
definition infrared_decoder_samsung32_alloc where "infrared_decoder_samsung32_alloc = infrared_common_decoder_alloc infrared_protocol_samsung32"
definition infrared_decoder_samsung32_decode where "infrared_decoder_samsung32_decode = infrared_common_decode infrared_protocol_samsung32"
definition infrared_decoder_samsung32_reset where "infrared_decoder_samsung32_reset = infrared_common_decoder_reset infrared_protocol_samsung32"
definition infrared_encoder_samsung32_alloc where "infrared_encoder_samsung32_alloc = infrared_common_encoder_alloc True infrared_protocol_samsung32"
definition infrared_encoder_samsung32_encode where "infrared_encoder_samsung32_encode = infrared_common_encode infrared_protocol_samsung32"

definition infrared_protocol_variant_samsung32 :: InfraredProtocolVariant where
  "infrared_protocol_variant_samsung32 = \<lparr>name = ''Samsung32'', address_length = 8, command_length = 8,
     frequency = INFRARED_COMMON_CARRIER_FREQUENCY, duty_cycle = INFRARED_COMMON_DUTY_CYCLE, repeat_count = INFRARED_SAMSUNG_REPEAT_COUNT_MIN\<rparr>"

definition infrared_protocol_samsung32_get_variant :: "InfraredProtocol \<Rightarrow> InfraredProtocolVariant option" where
  "infrared_protocol_samsung32_get_variant protocol =
     (if protocol = InfraredProtocolSamsung32 then Some infrared_protocol_variant_samsung32 else None)"


section \<open>RC5\<close>

definition rc5_data :: InfraredCommonProtocolData where
  "rc5_data = \<lparr>
     spec_timings = \<lparr>
       min_split_time = INFRARED_RC5_MIN_SPLIT_TIME, silence_time = INFRARED_RC5_SILENCE,
       preamble_mark = 0, preamble_space = 0,
       bit1_mark = INFRARED_RC5_BIT, bit1_space = 0, bit0_mark = 0, bit0_space = 0,
       preamble_tolerance = 0, bit_tolerance = INFRARED_RC5_BIT_TOLERANCE\<rparr>,
     manchester_start_from_space = True, databit_len = [1 + 1 + 1 + 5 + 6, 0, 0, 0]\<rparr>"

definition infrared_decoder_rc5_interpret :: "InfraredCommonDecoder \<Rightarrow> (bool \<times> InfraredCommonDecoder) option" where
  "infrared_decoder_rc5_interpret d = do {
     b0 \<leftarrow> rd (data d) 0;
     bytes \<leftarrow> wr (data d) 0 (NOT b0);
     b1 \<leftarrow> rd bytes 1;
     bytes \<leftarrow> wr bytes 1 (NOT b1);
     let d = d\<lparr>data := bytes\<rparr>;
     let address = (ucast (reverse (NOT b0) AND 0x1F) :: u32);
     let command = (ucast (drop_bit 2 (reverse (NOT b1)) AND 0x3F) :: u32);
     w \<leftarrow> load_u32 bytes 0;
     let start_bit1 = (w AND 0x01 \<noteq> 0);
     let start_bit2 = (w AND 0x02 \<noteq> 0);
     let tog = (w AND 0x04 \<noteq> 0);
     if start_bit1 then
       let protocol = (if start_bit2 then InfraredProtocolRC5 else InfraredProtocolRC5X);
           m = message d;
           rep = (InfraredMessage.address m = address \<and> InfraredMessage.command m = command \<and> msg_protocol m = protocol \<and> tog = toggle d)
       in Some (True, d\<lparr>toggle := tog, message := \<lparr>msg_protocol = protocol, address = address, command = command, repeat = rep\<rparr>\<rparr>)
     else Some (False, d) }"

definition infrared_protocol_rc5 :: InfraredCommonProtocolSpec where
  "infrared_protocol_rc5 = InfraredCommonProtocolData.extend rc5_data \<lparr>
     decode = infrared_common_decode_manchester rc5_data,
     decode_repeat = None,
     interpret_data = infrared_decoder_rc5_interpret,
     encode = infrared_common_encode_manchester rc5_data,
     encode_repeat = None\<rparr>"

definition infrared_encoder_rc5_reset :: "InfraredCommonEncoder \<Rightarrow> InfraredMessage \<Rightarrow> InfraredCommonEncoder option" where
  "infrared_encoder_rc5_reset e m = do {
     e \<leftarrow> infrared_common_encoder_reset rc5_data e;
     x \<leftarrow> load_u32 (enc_data e) 0;
     bytes \<leftarrow> store_u32 (enc_data e) 0 (x OR 0x01 OR (if msg_protocol m = InfraredProtocolRC5 then 0x02 else 0) OR
                (if toggle_bit e then 0x04 else 0) OR
                push_bit 3 (drop_bit 3 (ucast (reverse (ucast (address m))))) OR
                push_bit 8 (drop_bit 2 (ucast (reverse (ucast (command m))))));
     b0 \<leftarrow> rd bytes 0;
     bytes \<leftarrow> wr bytes 0 (NOT b0);
     b1 \<leftarrow> rd bytes 1;
     bytes \<leftarrow> wr bytes 1 (NOT b1);
     Some (e\<lparr>enc_data := bytes, bits_to_encode := databit_len rc5_data ! 0, toggle_bit := \<not> toggle_bit e\<rparr>) }"

definition infrared_decoder_rc5_check_ready where "infrared_decoder_rc5_check_ready = infrared_common_decoder_check_ready infrared_protocol_rc5"
definition infrared_decoder_rc5_alloc where "infrared_decoder_rc5_alloc = infrared_common_decoder_alloc infrared_protocol_rc5"
definition infrared_decoder_rc5_decode where "infrared_decoder_rc5_decode = infrared_common_decode infrared_protocol_rc5"
definition infrared_decoder_rc5_reset where "infrared_decoder_rc5_reset = infrared_common_decoder_reset infrared_protocol_rc5"
definition infrared_encoder_rc5_alloc where "infrared_encoder_rc5_alloc = infrared_common_encoder_alloc False infrared_protocol_rc5"
definition infrared_encoder_rc5_encode where "infrared_encoder_rc5_encode = infrared_common_encode infrared_protocol_rc5"

definition infrared_protocol_variant_rc5 :: InfraredProtocolVariant where
  "infrared_protocol_variant_rc5 = \<lparr>name = ''RC5'', address_length = 5, command_length = 6,
     frequency = INFRARED_RC5_CARRIER_FREQUENCY, duty_cycle = INFRARED_RC5_DUTY_CYCLE, repeat_count = INFRARED_RC5_REPEAT_COUNT_MIN\<rparr>"

definition infrared_protocol_variant_rc5x :: InfraredProtocolVariant where
  "infrared_protocol_variant_rc5x = \<lparr>name = ''RC5X'', address_length = 5, command_length = 7,
     frequency = INFRARED_RC5_CARRIER_FREQUENCY, duty_cycle = INFRARED_RC5_DUTY_CYCLE, repeat_count = INFRARED_RC5_REPEAT_COUNT_MIN\<rparr>"

definition infrared_protocol_rc5_get_variant :: "InfraredProtocol \<Rightarrow> InfraredProtocolVariant option" where
  "infrared_protocol_rc5_get_variant protocol =
     (if protocol = InfraredProtocolRC5 then Some infrared_protocol_variant_rc5 else if protocol = InfraredProtocolRC5X then Some infrared_protocol_variant_rc5x else None)"


section \<open>RC6\<close>

definition rc6_data :: InfraredCommonProtocolData where
  "rc6_data = \<lparr>
     spec_timings = \<lparr>
       min_split_time = INFRARED_RC6_MIN_SPLIT_TIME, silence_time = INFRARED_RC6_SILENCE,
       preamble_mark = INFRARED_RC6_PREAMBLE_MARK, preamble_space = INFRARED_RC6_PREAMBLE_SPACE,
       bit1_mark = INFRARED_RC6_BIT, bit1_space = 0, bit0_mark = 0, bit0_space = 0,
       preamble_tolerance = INFRARED_RC6_PREAMBLE_TOLERANCE, bit_tolerance = INFRARED_RC6_BIT_TOLERANCE\<rparr>,
     manchester_start_from_space = False, databit_len = [1 + 3 + 1 + 8 + 8, 0, 0, 0]\<rparr>"

definition infrared_decoder_rc6_interpret :: "InfraredCommonDecoder \<Rightarrow> (bool \<times> InfraredCommonDecoder) option" where
  "infrared_decoder_rc6_interpret d = do {
     w \<leftarrow> load_u32 (data d) 0;
     let address = (ucast (reverse (ucast (drop_bit 5 w))) :: u32);
     let command = (ucast (reverse (ucast (drop_bit 13 w))) :: u32);
     let start_bit = (w AND 0x01 \<noteq> 0);
     let tog = (w AND 0x10 \<noteq> 0);
     let mode = drop_bit 1 w AND 0x7;
     if start_bit \<and> mode = 0 then
       let m = message d;
           rep = (InfraredMessage.address m = address \<and> InfraredMessage.command m = command \<and> msg_protocol m = InfraredProtocolRC6 \<and> tog = toggle d)
       in Some (True, d\<lparr>toggle := tog, message := \<lparr>msg_protocol = InfraredProtocolRC6, address = address, command = command, repeat = rep\<rparr>\<rparr>)
     else Some (False, d) }"

definition infrared_decoder_rc6_decode_manchester :: "InfraredCommonDecoder \<Rightarrow> bool \<Rightarrow> nat \<Rightarrow> (InfraredStatus \<times> InfraredCommonDecoder) option" where
  "infrared_decoder_rc6_decode_manchester d lev timing =
     (let b = bit1_mark (spec_timings rc6_data); tolerance = bit_tolerance (spec_timings rc6_data);
          single_timing = MATCH_TIMING timing b tolerance;
          double_timing = MATCH_TIMING timing (2 * b) tolerance;
          triple_timing = MATCH_TIMING timing (3 * b) tolerance in
      if databit_cnt d = 4 then do {
        furi_assert (switch_detect d);
        if single_timing \<noteq> triple_timing then do {
          x \<leftarrow> rd (data d) 0;
          bytes \<leftarrow> wr (data d) 0 (x OR push_bit 4 (of_bool (if single_timing then \<not> lev else lev)));
          Some (InfraredStatusOk, d\<lparr>databit_cnt := databit_cnt d + 1, data := bytes\<rparr>) }
        else Some (InfraredStatusError, d) }
      else if databit_cnt d = 5 then
        (if single_timing \<or> triple_timing
         then infrared_common_decode_manchester rc6_data (d\<lparr>switch_detect := False\<rparr>) lev (if triple_timing then b else timing)
         else if double_timing then Some (InfraredStatusOk, d)
         else Some (InfraredStatusError, d))
      else infrared_common_decode_manchester rc6_data d lev timing)"

definition infrared_encoder_rc6_encode_manchester :: "InfraredCommonEncoder \<Rightarrow> (InfraredStatus \<times> nat \<times> bool \<times> InfraredCommonEncoder) option" where
  "infrared_encoder_rc6_encode_manchester e =
     (let is_toggle = (bits_encoded e = 4) in do {
      (status, duration, polarity, e) \<leftarrow> infrared_common_encode_manchester rc6_data e;
      Some (status, if is_toggle then duration * 2 else duration, polarity, e) })"

definition infrared_protocol_rc6 :: InfraredCommonProtocolSpec where
  "infrared_protocol_rc6 = InfraredCommonProtocolData.extend rc6_data \<lparr>
     decode = infrared_decoder_rc6_decode_manchester,
     decode_repeat = None,
     interpret_data = infrared_decoder_rc6_interpret,
     encode = infrared_encoder_rc6_encode_manchester,
     encode_repeat = None\<rparr>"

definition infrared_encoder_rc6_reset :: "InfraredCommonEncoder \<Rightarrow> InfraredMessage \<Rightarrow> InfraredCommonEncoder option" where
  "infrared_encoder_rc6_reset e m = do {
     e \<leftarrow> infrared_common_encoder_reset rc6_data e;
     x \<leftarrow> load_u32 (enc_data e) 0;
     bytes \<leftarrow> store_u32 (enc_data e) 0 (x OR 0x01 OR (if toggle_bit e then 0x10 else 0) OR
                push_bit 5 (ucast (reverse (ucast (address m)))) OR
                push_bit 13 (ucast (reverse (ucast (command m)))));
     Some (e\<lparr>enc_data := bytes, bits_to_encode := databit_len rc6_data ! 0, toggle_bit := \<not> toggle_bit e\<rparr>) }"

definition infrared_decoder_rc6_check_ready where "infrared_decoder_rc6_check_ready = infrared_common_decoder_check_ready infrared_protocol_rc6"
definition infrared_decoder_rc6_alloc where "infrared_decoder_rc6_alloc = infrared_common_decoder_alloc infrared_protocol_rc6"
definition infrared_decoder_rc6_decode where "infrared_decoder_rc6_decode = infrared_common_decode infrared_protocol_rc6"
definition infrared_decoder_rc6_reset where "infrared_decoder_rc6_reset = infrared_common_decoder_reset infrared_protocol_rc6"
definition infrared_encoder_rc6_alloc where "infrared_encoder_rc6_alloc = infrared_common_encoder_alloc False infrared_protocol_rc6"
definition infrared_encoder_rc6_encode where "infrared_encoder_rc6_encode = infrared_common_encode infrared_protocol_rc6"

definition infrared_protocol_variant_rc6 :: InfraredProtocolVariant where
  "infrared_protocol_variant_rc6 = \<lparr>name = ''RC6'', address_length = 8, command_length = 8,
     frequency = INFRARED_RC6_CARRIER_FREQUENCY, duty_cycle = INFRARED_RC6_DUTY_CYCLE, repeat_count = INFRARED_RC6_REPEAT_COUNT_MIN\<rparr>"

definition infrared_protocol_rc6_get_variant :: "InfraredProtocol \<Rightarrow> InfraredProtocolVariant option" where
  "infrared_protocol_rc6_get_variant protocol =
     (if protocol = InfraredProtocolRC6 then Some infrared_protocol_variant_rc6 else None)"


section \<open>SIRC\<close>

definition sirc_data :: InfraredCommonProtocolData where
  "sirc_data = \<lparr>
     spec_timings = \<lparr>
       min_split_time = INFRARED_SIRC_MIN_SPLIT_TIME, silence_time = INFRARED_SIRC_SILENCE,
       preamble_mark = INFRARED_SIRC_PREAMBLE_MARK, preamble_space = INFRARED_SIRC_PREAMBLE_SPACE,
       bit1_mark = INFRARED_SIRC_BIT1_MARK, bit1_space = INFRARED_SIRC_BIT1_SPACE,
       bit0_mark = INFRARED_SIRC_BIT0_MARK, bit0_space = INFRARED_SIRC_BIT0_SPACE,
       preamble_tolerance = INFRARED_SIRC_PREAMBLE_TOLERANCE, bit_tolerance = INFRARED_SIRC_BIT_TOLERANCE\<rparr>,
     manchester_start_from_space = False, databit_len = [20, 15, 12, 0]\<rparr>"

definition infrared_decoder_sirc_interpret :: "InfraredCommonDecoder \<Rightarrow> (bool \<times> InfraredCommonDecoder) option" where
  "infrared_decoder_sirc_interpret d =
     (if databit_cnt d \<in> {12, 15, 20} then do {
        w \<leftarrow> load_u32 (data d) 0;
        Some (True,
          if databit_cnt d = 12 then set_message InfraredProtocolSIRC (drop_bit 7 w AND 0x1F) (w AND 0x7F) d
          else if databit_cnt d = 15 then set_message InfraredProtocolSIRC15 (drop_bit 7 w AND 0xFF) (w AND 0x7F) d
          else set_message InfraredProtocolSIRC20 (drop_bit 7 w AND 0x1FFF) (w AND 0x7F) d) }
      else Some (False, d))"

definition infrared_encoder_sirc_encode_repeat :: "InfraredCommonEncoder \<Rightarrow> (InfraredStatus \<times> nat \<times> bool \<times> InfraredCommonEncoder) option" where
  "infrared_encoder_sirc_encode_repeat e = do {
     furi_assert (timings_encoded e = 1 + 2 + bits_to_encode e * 2 - 1);
     furi_assert (timings_sum e < INFRARED_SIRC_REPEAT_PERIOD);
     Some (InfraredStatusOk, INFRARED_SIRC_REPEAT_PERIOD - timings_sum e, False,
       e\<lparr>timings_sum := 0, timings_encoded := 1, bits_encoded := 0, enc_state := InfraredCommonEncoderStatePreamble\<rparr>) }"

definition infrared_protocol_sirc :: InfraredCommonProtocolSpec where
  "infrared_protocol_sirc = InfraredCommonProtocolData.extend sirc_data \<lparr>
     decode = infrared_common_decode_pdwm sirc_data,
     decode_repeat = None,
     interpret_data = infrared_decoder_sirc_interpret,
     encode = infrared_common_encode_pdwm sirc_data,
     encode_repeat = Some infrared_encoder_sirc_encode_repeat\<rparr>"

definition infrared_encoder_sirc_reset :: "InfraredCommonEncoder \<Rightarrow> InfraredMessage \<Rightarrow> InfraredCommonEncoder option" where
  "infrared_encoder_sirc_reset e m = do {
     e \<leftarrow> infrared_common_encoder_reset sirc_data e;
     (mask, len) \<leftarrow> (case msg_protocol m of
         InfraredProtocolSIRC \<Rightarrow> Some (0x1F, 12)
       | InfraredProtocolSIRC15 \<Rightarrow> Some (0xFF, 15)
       | InfraredProtocolSIRC20 \<Rightarrow> Some (0x1FFF, 20)
       | _ \<Rightarrow> None);
     bytes \<leftarrow> store_u32 (enc_data e) 0 (command m AND 0x7F OR push_bit 7 (address m AND mask));
     Some (e\<lparr>enc_data := bytes, bits_to_encode := len\<rparr>) }"

definition infrared_encoder_sirc_encode :: "InfraredCommonEncoder \<Rightarrow> (InfraredStatus \<times> nat \<times> bool \<times> InfraredCommonEncoder) option" where
  "infrared_encoder_sirc_encode e = do {
     (status, duration, lev, e) \<leftarrow> infrared_common_encode infrared_protocol_sirc e;
     if status = InfraredStatusOk \<and> bits_encoded e = bits_to_encode e then do {
       furi_assert (\<not> lev);
       Some (InfraredStatusDone, duration, lev, e\<lparr>enc_state := InfraredCommonEncoderStateEncodeRepeat\<rparr>) }
     else Some (status, duration, lev, e) }"

definition infrared_decoder_sirc_check_ready where "infrared_decoder_sirc_check_ready = infrared_common_decoder_check_ready infrared_protocol_sirc"
definition infrared_decoder_sirc_alloc where "infrared_decoder_sirc_alloc = infrared_common_decoder_alloc infrared_protocol_sirc"
definition infrared_decoder_sirc_decode where "infrared_decoder_sirc_decode = infrared_common_decode infrared_protocol_sirc"
definition infrared_decoder_sirc_reset where "infrared_decoder_sirc_reset = infrared_common_decoder_reset infrared_protocol_sirc"
definition infrared_encoder_sirc_alloc where "infrared_encoder_sirc_alloc = infrared_common_encoder_alloc True infrared_protocol_sirc"

definition infrared_protocol_variant_sirc :: InfraredProtocolVariant where
  "infrared_protocol_variant_sirc = \<lparr>name = ''SIRC'', address_length = 5, command_length = 7,
     frequency = INFRARED_SIRC_CARRIER_FREQUENCY, duty_cycle = INFRARED_SIRC_DUTY_CYCLE, repeat_count = INFRARED_SIRC_REPEAT_COUNT_MIN\<rparr>"

definition infrared_protocol_variant_sirc15 :: InfraredProtocolVariant where
  "infrared_protocol_variant_sirc15 = \<lparr>name = ''SIRC15'', address_length = 8, command_length = 7,
     frequency = INFRARED_SIRC_CARRIER_FREQUENCY, duty_cycle = INFRARED_SIRC_DUTY_CYCLE, repeat_count = INFRARED_SIRC_REPEAT_COUNT_MIN\<rparr>"

definition infrared_protocol_variant_sirc20 :: InfraredProtocolVariant where
  "infrared_protocol_variant_sirc20 = \<lparr>name = ''SIRC20'', address_length = 13, command_length = 7,
     frequency = INFRARED_SIRC_CARRIER_FREQUENCY, duty_cycle = INFRARED_SIRC_DUTY_CYCLE, repeat_count = INFRARED_SIRC_REPEAT_COUNT_MIN\<rparr>"

definition infrared_protocol_sirc_get_variant :: "InfraredProtocol \<Rightarrow> InfraredProtocolVariant option" where
  "infrared_protocol_sirc_get_variant protocol =
     (if protocol = InfraredProtocolSIRC then Some infrared_protocol_variant_sirc else if protocol = InfraredProtocolSIRC15 then Some infrared_protocol_variant_sirc15 else if protocol = InfraredProtocolSIRC20 then Some infrared_protocol_variant_sirc20 else None)"


section \<open>Pioneer\<close>

definition pioneer_data :: InfraredCommonProtocolData where
  "pioneer_data = \<lparr>
     spec_timings = \<lparr>
       min_split_time = INFRARED_PIONEER_MIN_SPLIT_TIME, silence_time = INFRARED_PIONEER_SILENCE,
       preamble_mark = INFRARED_PIONEER_PREAMBLE_MARK, preamble_space = INFRARED_PIONEER_PREAMBLE_SPACE,
       bit1_mark = INFRARED_PIONEER_BIT1_MARK, bit1_space = INFRARED_PIONEER_BIT1_SPACE,
       bit0_mark = INFRARED_PIONEER_BIT0_MARK, bit0_space = INFRARED_PIONEER_BIT0_SPACE,
       preamble_tolerance = INFRARED_PIONEER_PREAMBLE_TOLERANCE, bit_tolerance = INFRARED_PIONEER_BIT_TOLERANCE\<rparr>,
     manchester_start_from_space = False, databit_len = [33, 32, 0, 0]\<rparr>"

definition infrared_decoder_pioneer_interpret :: "InfraredCommonDecoder \<Rightarrow> (bool \<times> InfraredCommonDecoder) option" where
  "infrared_decoder_pioneer_interpret d =
     (if databit_cnt d = databit_len pioneer_data ! 0 \<or> databit_cnt d = databit_len pioneer_data ! 1 then do {
        w \<leftarrow> load_u32 (data d) 0;
        let address = (ucast (w AND 0xFF) :: u8);
        let address_checksum = (ucast (drop_bit 8 w AND 0xFF) :: u8);
        let command = (ucast (drop_bit 16 w AND 0xFF) :: u8);
        let command_checksum = (ucast (drop_bit 24 w AND 0xFF) :: u8);
        if address_checksum \<noteq> NOT address then Some (False, d)
        else if command_checksum \<noteq> NOT command then Some (False, d)
        else Some (True, set_message InfraredProtocolPioneer (ucast address) (ucast command) d) }
      else Some (False, d))"

definition infrared_encoder_pioneer_encode_repeat :: "InfraredCommonEncoder \<Rightarrow> (InfraredStatus \<times> nat \<times> bool \<times> InfraredCommonEncoder) option" where
  "infrared_encoder_pioneer_encode_repeat e =
     Some (InfraredStatusOk, INFRARED_PIONEER_SILENCE, False,
       e\<lparr>timings_sum := 0, timings_encoded := 1, bits_encoded := 0, enc_state := InfraredCommonEncoderStatePreamble\<rparr>)"

definition infrared_protocol_pioneer :: InfraredCommonProtocolSpec where
  "infrared_protocol_pioneer = InfraredCommonProtocolData.extend pioneer_data \<lparr>
     decode = infrared_common_decode_pdwm pioneer_data,
     decode_repeat = None,
     interpret_data = infrared_decoder_pioneer_interpret,
     encode = infrared_common_encode_pdwm pioneer_data,
     encode_repeat = Some infrared_encoder_pioneer_encode_repeat\<rparr>"

definition infrared_encoder_pioneer_reset :: "InfraredCommonEncoder \<Rightarrow> InfraredMessage \<Rightarrow> InfraredCommonEncoder option" where
  "infrared_encoder_pioneer_reset e m = do {
     e \<leftarrow> infrared_common_encoder_reset pioneer_data e;
     furi_check (msg_protocol m = InfraredProtocolPioneer);
     bytes \<leftarrow> wr (enc_data e) 0 (ucast (address m AND 0xFF));
     bytes \<leftarrow> wr bytes 1 (ucast (NOT (address m AND 0xFF)));
     bytes \<leftarrow> wr bytes 2 (ucast (command m AND 0xFF));
     bytes \<leftarrow> wr bytes 3 (ucast (NOT (command m AND 0xFF)));
     bytes \<leftarrow> wr bytes 4 0;
     Some (e\<lparr>enc_data := bytes, bits_to_encode := databit_len pioneer_data ! 0\<rparr>) }"

definition infrared_encoder_pioneer_encode :: "InfraredCommonEncoder \<Rightarrow> (InfraredStatus \<times> nat \<times> bool \<times> InfraredCommonEncoder) option" where
  "infrared_encoder_pioneer_encode e = do {
     (status, duration, lev, e) \<leftarrow> infrared_common_encode infrared_protocol_pioneer e;
     if status = InfraredStatusOk \<and> bits_encoded e = bits_to_encode e then do {
       furi_assert (\<not> lev);
       Some (InfraredStatusDone, duration, lev, e\<lparr>enc_state := InfraredCommonEncoderStateEncodeRepeat\<rparr>) }
     else Some (status, duration, lev, e) }"

definition infrared_decoder_pioneer_check_ready where "infrared_decoder_pioneer_check_ready = infrared_common_decoder_check_ready infrared_protocol_pioneer"
definition infrared_decoder_pioneer_alloc where "infrared_decoder_pioneer_alloc = infrared_common_decoder_alloc infrared_protocol_pioneer"
definition infrared_decoder_pioneer_decode where "infrared_decoder_pioneer_decode = infrared_common_decode infrared_protocol_pioneer"
definition infrared_decoder_pioneer_reset where "infrared_decoder_pioneer_reset = infrared_common_decoder_reset infrared_protocol_pioneer"
definition infrared_encoder_pioneer_alloc where "infrared_encoder_pioneer_alloc = infrared_common_encoder_alloc True infrared_protocol_pioneer"

definition infrared_protocol_variant_pioneer :: InfraredProtocolVariant where
  "infrared_protocol_variant_pioneer = \<lparr>name = ''Pioneer'', address_length = 8, command_length = 8,
     frequency = INFRARED_PIONEER_CARRIER_FREQUENCY, duty_cycle = INFRARED_PIONEER_DUTY_CYCLE, repeat_count = INFRARED_PIONEER_REPEAT_COUNT_MIN\<rparr>"

definition infrared_protocol_pioneer_get_variant :: "InfraredProtocol \<Rightarrow> InfraredProtocolVariant option" where
  "infrared_protocol_pioneer_get_variant protocol =
     (if protocol = InfraredProtocolPioneer then Some infrared_protocol_variant_pioneer else None)"


section \<open>Kaseikyo\<close>

definition kaseikyo_data :: InfraredCommonProtocolData where
  "kaseikyo_data = \<lparr>
     spec_timings = \<lparr>
       min_split_time = INFRARED_KASEIKYO_MIN_SPLIT_TIME, silence_time = INFRARED_KASEIKYO_SILENCE,
       preamble_mark = INFRARED_KASEIKYO_PREAMBLE_MARK, preamble_space = INFRARED_KASEIKYO_PREAMBLE_SPACE,
       bit1_mark = INFRARED_KASEIKYO_BIT1_MARK, bit1_space = INFRARED_KASEIKYO_BIT1_SPACE,
       bit0_mark = INFRARED_KASEIKYO_BIT0_MARK, bit0_space = INFRARED_KASEIKYO_BIT0_SPACE,
       preamble_tolerance = INFRARED_KASEIKYO_PREAMBLE_TOLERANCE, bit_tolerance = INFRARED_KASEIKYO_BIT_TOLERANCE\<rparr>,
     manchester_start_from_space = False, databit_len = [48, 0, 0, 0]\<rparr>"

definition infrared_decoder_kaseikyo_interpret :: "InfraredCommonDecoder \<Rightarrow> (bool \<times> InfraredCommonDecoder) option" where
  "infrared_decoder_kaseikyo_interpret d = do {
     d0 \<leftarrow> rd (data d) 0;
     d1 \<leftarrow> rd (data d) 1;
     d2 \<leftarrow> rd (data d) 2;
     d3 \<leftarrow> rd (data d) 3;
     d4 \<leftarrow> rd (data d) 4;
     d5 \<leftarrow> rd (data d) 5;
     let vendor_id = (push_bit 8 (ucast d1) OR ucast d0 :: u16);
     let vendor_parity = d2 AND 0x0f;
     let genre1 = drop_bit 4 d2;
     let genre2 = d3 AND 0x0f;
     let cmd = (ucast (drop_bit 4 d3) OR push_bit 4 (ucast (d4 AND 0x3f)) :: u16);
     let i = drop_bit 6 d4;
     let parity = d5;
     let vendor_parity_check = d0 XOR d1;
     let vendor_parity_check = (vendor_parity_check AND 0xf) XOR drop_bit 4 vendor_parity_check;
     let parity_check = d2 XOR d3 XOR d4;
     Some (if vendor_parity = vendor_parity_check \<and> parity = parity_check
           then (True, set_message InfraredProtocolKaseikyo
                  (push_bit 24 (ucast i) OR push_bit 8 (ucast vendor_id) OR push_bit 4 (ucast genre1) OR ucast genre2) (ucast cmd) d)
           else (False, d)) }"

definition infrared_protocol_kaseikyo :: InfraredCommonProtocolSpec where
  "infrared_protocol_kaseikyo = InfraredCommonProtocolData.extend kaseikyo_data \<lparr>
     decode = infrared_common_decode_pdwm kaseikyo_data,
     decode_repeat = None,
     interpret_data = infrared_decoder_kaseikyo_interpret,
     encode = infrared_common_encode_pdwm kaseikyo_data,
     encode_repeat = None\<rparr>"

definition infrared_encoder_kaseikyo_reset :: "InfraredCommonEncoder \<Rightarrow> InfraredMessage \<Rightarrow> InfraredCommonEncoder option" where
  "infrared_encoder_kaseikyo_reset e m = do {
     e \<leftarrow> infrared_common_encoder_reset kaseikyo_data e;
     let cmd = (ucast (command m) :: u16);
     let i = (ucast (drop_bit 24 (address m) AND 3) :: u8);
     let vendor_id = (ucast (drop_bit 8 (address m) AND 0xffff) :: u16);
     let genre1 = (ucast (drop_bit 4 (address m) AND 0xf) :: u8);
     let genre2 = (ucast (address m AND 0xf) :: u8);
     let d0 = (ucast (vendor_id AND 0xff) :: u8);
     let d1 = (ucast (drop_bit 8 vendor_id) :: u8);
     let vendor_parity = d0 XOR d1;
     let vendor_parity = (vendor_parity AND 0xf) XOR drop_bit 4 vendor_parity;
     let d2 = (vendor_parity AND 0xf) OR push_bit 4 genre1;
     let d3 = (genre2 AND 0xf) OR push_bit 4 (ucast (cmd AND 0xf));
     let d4 = push_bit 6 i OR ucast (drop_bit 4 cmd);
     bytes \<leftarrow> wr (enc_data e) 0 d0;
     bytes \<leftarrow> wr bytes 1 d1;
     bytes \<leftarrow> wr bytes 2 d2;
     bytes \<leftarrow> wr bytes 3 d3;
     bytes \<leftarrow> wr bytes 4 d4;
     bytes \<leftarrow> wr bytes 5 (d2 XOR d3 XOR d4);
     Some (e\<lparr>enc_data := bytes, bits_to_encode := databit_len kaseikyo_data ! 0\<rparr>) }"

definition infrared_decoder_kaseikyo_check_ready where "infrared_decoder_kaseikyo_check_ready = infrared_common_decoder_check_ready infrared_protocol_kaseikyo"
definition infrared_decoder_kaseikyo_alloc where "infrared_decoder_kaseikyo_alloc = infrared_common_decoder_alloc infrared_protocol_kaseikyo"
definition infrared_decoder_kaseikyo_decode where "infrared_decoder_kaseikyo_decode = infrared_common_decode infrared_protocol_kaseikyo"
definition infrared_decoder_kaseikyo_reset where "infrared_decoder_kaseikyo_reset = infrared_common_decoder_reset infrared_protocol_kaseikyo"
definition infrared_encoder_kaseikyo_alloc where "infrared_encoder_kaseikyo_alloc = infrared_common_encoder_alloc True infrared_protocol_kaseikyo"
definition infrared_encoder_kaseikyo_encode where "infrared_encoder_kaseikyo_encode = infrared_common_encode infrared_protocol_kaseikyo"

definition infrared_protocol_variant_kaseikyo :: InfraredProtocolVariant where
  "infrared_protocol_variant_kaseikyo = \<lparr>name = ''Kaseikyo'', address_length = 26, command_length = 10,
     frequency = INFRARED_COMMON_CARRIER_FREQUENCY, duty_cycle = INFRARED_COMMON_DUTY_CYCLE, repeat_count = INFRARED_KASEIKYO_REPEAT_COUNT_MIN\<rparr>"

definition infrared_protocol_kaseikyo_get_variant :: "InfraredProtocol \<Rightarrow> InfraredProtocolVariant option" where
  "infrared_protocol_kaseikyo_get_variant protocol =
     (if protocol = InfraredProtocolKaseikyo then Some infrared_protocol_variant_kaseikyo else None)"


section \<open>RCA\<close>

definition rca_data :: InfraredCommonProtocolData where
  "rca_data = \<lparr>
     spec_timings = \<lparr>
       min_split_time = INFRARED_RCA_MIN_SPLIT_TIME, silence_time = INFRARED_RCA_SILENCE,
       preamble_mark = INFRARED_RCA_PREAMBLE_MARK, preamble_space = INFRARED_RCA_PREAMBLE_SPACE,
       bit1_mark = INFRARED_RCA_BIT1_MARK, bit1_space = INFRARED_RCA_BIT1_SPACE,
       bit0_mark = INFRARED_RCA_BIT0_MARK, bit0_space = INFRARED_RCA_BIT0_SPACE,
       preamble_tolerance = INFRARED_RCA_PREAMBLE_TOLERANCE, bit_tolerance = INFRARED_RCA_BIT_TOLERANCE\<rparr>,
     manchester_start_from_space = False, databit_len = [24, 0, 0, 0]\<rparr>"

definition infrared_decoder_rca_interpret :: "InfraredCommonDecoder \<Rightarrow> (bool \<times> InfraredCommonDecoder) option" where
  "infrared_decoder_rca_interpret d = do {
     w \<leftarrow> load_u32 (data d) 0;
     let address = (ucast (w AND 0xF) :: u8);
     let command = (ucast (drop_bit 4 w AND 0xFF) :: u8);
     let address_inverse = (ucast (drop_bit 12 w AND 0xF) :: u8);
     let command_inverse = (ucast (drop_bit 16 w AND 0xFF) :: u8);
     Some (if command = NOT command_inverse \<and> address = NOT address_inverse AND 0xF
           then (True, set_message InfraredProtocolRCA (ucast address) (ucast command) d)
           else (False, d)) }"

definition infrared_protocol_rca :: InfraredCommonProtocolSpec where
  "infrared_protocol_rca = InfraredCommonProtocolData.extend rca_data \<lparr>
     decode = infrared_common_decode_pdwm rca_data,
     decode_repeat = None,
     interpret_data = infrared_decoder_rca_interpret,
     encode = infrared_common_encode_pdwm rca_data,
     encode_repeat = None\<rparr>"

definition infrared_encoder_rca_reset :: "InfraredCommonEncoder \<Rightarrow> InfraredMessage \<Rightarrow> InfraredCommonEncoder option" where
  "infrared_encoder_rca_reset e m = do {
     e \<leftarrow> infrared_common_encoder_reset rca_data e;
     let address = (ucast (address m) :: u8);
     let address_inverse = NOT address;
     let command = (ucast (command m) :: u8);
     let command_inverse = NOT command;
     bytes \<leftarrow> store_u32 (enc_data e) 0 (ucast (address AND 0xF) OR push_bit 4 (ucast command) OR
                push_bit 12 (ucast (address_inverse AND 0xF)) OR push_bit 16 (ucast command_inverse));
     Some (e\<lparr>enc_data := bytes, bits_to_encode := databit_len rca_data ! 0\<rparr>) }"

definition infrared_decoder_rca_check_ready where "infrared_decoder_rca_check_ready = infrared_common_decoder_check_ready infrared_protocol_rca"
definition infrared_decoder_rca_alloc where "infrared_decoder_rca_alloc = infrared_common_decoder_alloc infrared_protocol_rca"
definition infrared_decoder_rca_decode where "infrared_decoder_rca_decode = infrared_common_decode infrared_protocol_rca"
definition infrared_decoder_rca_reset where "infrared_decoder_rca_reset = infrared_common_decoder_reset infrared_protocol_rca"
definition infrared_encoder_rca_alloc where "infrared_encoder_rca_alloc = infrared_common_encoder_alloc True infrared_protocol_rca"
definition infrared_encoder_rca_encode where "infrared_encoder_rca_encode = infrared_common_encode infrared_protocol_rca"

definition infrared_protocol_variant_rca :: InfraredProtocolVariant where
  "infrared_protocol_variant_rca = \<lparr>name = ''RCA'', address_length = 4, command_length = 8,
     frequency = INFRARED_COMMON_CARRIER_FREQUENCY, duty_cycle = INFRARED_COMMON_DUTY_CYCLE, repeat_count = INFRARED_RCA_REPEAT_COUNT_MIN\<rparr>"

definition infrared_protocol_rca_get_variant :: "InfraredProtocol \<Rightarrow> InfraredProtocolVariant option" where
  "infrared_protocol_rca_get_variant protocol =
     (if protocol = InfraredProtocolRCA then Some infrared_protocol_variant_rca else None)"


end
