(* ===== verification/Infrared.thy ===== *)
theory Infrared
  imports InfraredProtocols
begin

text \<open>
  The infrared library's interface (\<open>src/lib/infrared/encoder_decoder/infrared.c\<close>): all the decoders in
  parallel, and one encoder at a time. Every function pointer of the table is set.
\<close>

record InfraredEncoderDecoder =
  dec_alloc :: "InfraredCommonDecoder option"
  dec_decode :: "InfraredCommonDecoder \<Rightarrow> bool \<Rightarrow> nat \<Rightarrow> (InfraredMessage option \<times> InfraredCommonDecoder) option"
  dec_reset :: "InfraredCommonDecoder \<Rightarrow> InfraredCommonDecoder option"
  dec_check_ready :: "InfraredCommonDecoder \<Rightarrow> (bool \<times> InfraredCommonDecoder) option"
  enc_alloc :: "InfraredCommonEncoder option"
  enc_encode :: "InfraredCommonEncoder \<Rightarrow> (InfraredStatus \<times> nat \<times> bool \<times> InfraredCommonEncoder) option"
  enc_reset :: "InfraredCommonEncoder \<Rightarrow> InfraredMessage \<Rightarrow> InfraredCommonEncoder option"
  get_protocol_variant :: "InfraredProtocol \<Rightarrow> InfraredProtocolVariant option"

definition infrared_encoder_decoder :: "InfraredEncoderDecoder list" where
  "infrared_encoder_decoder =
     [\<lparr>dec_alloc = infrared_decoder_nec_alloc, dec_decode = infrared_decoder_nec_decode,
        dec_reset = infrared_decoder_nec_reset, dec_check_ready = infrared_decoder_nec_check_ready,
        enc_alloc = infrared_encoder_nec_alloc, enc_encode = infrared_encoder_nec_encode,
        enc_reset = infrared_encoder_nec_reset, get_protocol_variant = infrared_protocol_nec_get_variant\<rparr>,
      \<lparr>dec_alloc = infrared_decoder_samsung32_alloc, dec_decode = infrared_decoder_samsung32_decode,
        dec_reset = infrared_decoder_samsung32_reset, dec_check_ready = infrared_decoder_samsung32_check_ready,
        enc_alloc = infrared_encoder_samsung32_alloc, enc_encode = infrared_encoder_samsung32_encode,
        enc_reset = infrared_encoder_samsung32_reset, get_protocol_variant = infrared_protocol_samsung32_get_variant\<rparr>,
      \<lparr>dec_alloc = infrared_decoder_rc5_alloc, dec_decode = infrared_decoder_rc5_decode,
        dec_reset = infrared_decoder_rc5_reset, dec_check_ready = infrared_decoder_rc5_check_ready,
        enc_alloc = infrared_encoder_rc5_alloc, enc_encode = infrared_encoder_rc5_encode,
        enc_reset = infrared_encoder_rc5_reset, get_protocol_variant = infrared_protocol_rc5_get_variant\<rparr>,
      \<lparr>dec_alloc = infrared_decoder_rc6_alloc, dec_decode = infrared_decoder_rc6_decode,
        dec_reset = infrared_decoder_rc6_reset, dec_check_ready = infrared_decoder_rc6_check_ready,
        enc_alloc = infrared_encoder_rc6_alloc, enc_encode = infrared_encoder_rc6_encode,
        enc_reset = infrared_encoder_rc6_reset, get_protocol_variant = infrared_protocol_rc6_get_variant\<rparr>,
      \<lparr>dec_alloc = infrared_decoder_sirc_alloc, dec_decode = infrared_decoder_sirc_decode,
        dec_reset = infrared_decoder_sirc_reset, dec_check_ready = infrared_decoder_sirc_check_ready,
        enc_alloc = infrared_encoder_sirc_alloc, enc_encode = infrared_encoder_sirc_encode,
        enc_reset = infrared_encoder_sirc_reset, get_protocol_variant = infrared_protocol_sirc_get_variant\<rparr>,
      \<lparr>dec_alloc = infrared_decoder_pioneer_alloc, dec_decode = infrared_decoder_pioneer_decode,
        dec_reset = infrared_decoder_pioneer_reset, dec_check_ready = infrared_decoder_pioneer_check_ready,
        enc_alloc = infrared_encoder_pioneer_alloc, enc_encode = infrared_encoder_pioneer_encode,
        enc_reset = infrared_encoder_pioneer_reset, get_protocol_variant = infrared_protocol_pioneer_get_variant\<rparr>,
      \<lparr>dec_alloc = infrared_decoder_kaseikyo_alloc, dec_decode = infrared_decoder_kaseikyo_decode,
        dec_reset = infrared_decoder_kaseikyo_reset, dec_check_ready = infrared_decoder_kaseikyo_check_ready,
        enc_alloc = infrared_encoder_kaseikyo_alloc, enc_encode = infrared_encoder_kaseikyo_encode,
        enc_reset = infrared_encoder_kaseikyo_reset, get_protocol_variant = infrared_protocol_kaseikyo_get_variant\<rparr>,
      \<lparr>dec_alloc = infrared_decoder_rca_alloc, dec_decode = infrared_decoder_rca_decode,
        dec_reset = infrared_decoder_rca_reset, dec_check_ready = infrared_decoder_rca_check_ready,
        enc_alloc = infrared_encoder_rca_alloc, enc_encode = infrared_encoder_rca_encode,
        enc_reset = infrared_encoder_rca_reset, get_protocol_variant = infrared_protocol_rca_get_variant\<rparr>]"

text \<open>A decoder handler is the list of the decoders' contexts. An encoder handler knows the index of
  its encoder in the table (a pointer in the code).\<close>

type_synonym InfraredDecoderHandler = "InfraredCommonDecoder list"

record InfraredEncoderHandler =
  handler :: "InfraredCommonEncoder option"
  encoder :: "nat option"

section \<open>Decoding\<close>

definition infrared_decode :: "InfraredDecoderHandler \<Rightarrow> bool \<Rightarrow> nat \<Rightarrow> (InfraredMessage option \<times> InfraredDecoderHandler) option" where
  "infrared_decode ctx lev duration = for_loop (\<lambda>i (result, ctx). do {
       t \<leftarrow> rd infrared_encoder_decoder i;
       d \<leftarrow> rd ctx i;
       (m, d) \<leftarrow> dec_decode t d lev duration;
       ctx \<leftarrow> wr ctx i d;
       Some (if result = None \<and> m \<noteq> None then m else result, ctx) })
     0 (length infrared_encoder_decoder) (None, ctx)"

definition infrared_reset_decoder :: "InfraredDecoderHandler \<Rightarrow> InfraredDecoderHandler option" where
  "infrared_reset_decoder ctx = for_loop (\<lambda>i ctx. do {
       t \<leftarrow> rd infrared_encoder_decoder i;
       d \<leftarrow> rd ctx i;
       d \<leftarrow> dec_reset t d;
       wr ctx i d })
     0 (length infrared_encoder_decoder) ctx"

definition infrared_alloc_decoder :: "InfraredDecoderHandler option" where
  "infrared_alloc_decoder = do {
     ctx \<leftarrow> for_loop (\<lambda>i ctx. do {
       t \<leftarrow> rd infrared_encoder_decoder i;
       d \<leftarrow> dec_alloc t;
       Some (ctx @ [d]) }) 0 (length infrared_encoder_decoder) [];
     infrared_reset_decoder ctx }"

definition infrared_check_decoder_ready :: "InfraredDecoderHandler \<Rightarrow> (InfraredMessage option \<times> InfraredDecoderHandler) option" where
  "infrared_check_decoder_ready ctx = for_loop (\<lambda>i (result, ctx). do {
       t \<leftarrow> rd infrared_encoder_decoder i;
       d \<leftarrow> rd ctx i;
       (found, d) \<leftarrow> dec_check_ready t d;
       ctx \<leftarrow> wr ctx i d;
       Some (if result = None \<and> found then Some (message d) else result, ctx) })
     0 (length infrared_encoder_decoder) (None, ctx)"

section \<open>Protocols\<close>

fun find_index :: "InfraredProtocol \<Rightarrow> InfraredEncoderDecoder list \<Rightarrow> nat \<Rightarrow> nat option" where
  "find_index protocol [] i = None"
| "find_index protocol (t # ts) i = (if get_protocol_variant t protocol \<noteq> None then Some i else find_index protocol ts (i + 1))"

definition infrared_find_index_by_protocol :: "InfraredProtocol \<Rightarrow> nat option" where
  "infrared_find_index_by_protocol protocol = find_index protocol infrared_encoder_decoder 0"

definition infrared_is_protocol_valid :: "InfraredProtocol \<Rightarrow> bool" where
  "infrared_is_protocol_valid protocol \<longleftrightarrow> infrared_find_index_by_protocol protocol \<noteq> None"

definition infrared_get_variant_by_protocol :: "InfraredProtocol \<Rightarrow> InfraredProtocolVariant option" where
  "infrared_get_variant_by_protocol protocol = do {
     i \<leftarrow> infrared_find_index_by_protocol protocol;
     t \<leftarrow> rd infrared_encoder_decoder i;
     get_protocol_variant t protocol }"

definition infrared_get_protocol_name where "infrared_get_protocol_name protocol = map_option name (infrared_get_variant_by_protocol protocol)"
definition infrared_get_protocol_address_length where "infrared_get_protocol_address_length protocol = map_option address_length (infrared_get_variant_by_protocol protocol)"
definition infrared_get_protocol_command_length where "infrared_get_protocol_command_length protocol = map_option command_length (infrared_get_variant_by_protocol protocol)"
definition infrared_get_protocol_frequency where "infrared_get_protocol_frequency protocol = map_option frequency (infrared_get_variant_by_protocol protocol)"
definition infrared_get_protocol_duty_cycle where "infrared_get_protocol_duty_cycle protocol = map_option duty_cycle (infrared_get_variant_by_protocol protocol)"
definition infrared_get_protocol_min_repeat_count where "infrared_get_protocol_min_repeat_count protocol = map_option repeat_count (infrared_get_variant_by_protocol protocol)"

text \<open>The enumeration from zero to \<open>InfraredProtocolMAX\<close>.\<close>

definition infrared_protocols :: "InfraredProtocol list" where
  "infrared_protocols = [InfraredProtocolNEC, InfraredProtocolNECext, InfraredProtocolNEC42, InfraredProtocolNEC42ext,
     InfraredProtocolSamsung32, InfraredProtocolRC6, InfraredProtocolRC5, InfraredProtocolRC5X, InfraredProtocolSIRC,
     InfraredProtocolSIRC15, InfraredProtocolSIRC20, InfraredProtocolKaseikyo, InfraredProtocolRCA, InfraredProtocolPioneer]"

fun protocol_by_name :: "string \<Rightarrow> InfraredProtocol list \<Rightarrow> InfraredProtocol option" where
  "protocol_by_name protocol_name [] = Some InfraredProtocolUnknown"
| "protocol_by_name protocol_name (p # ps) = do {
     n \<leftarrow> infrared_get_protocol_name p;
     if n = protocol_name then Some p else protocol_by_name protocol_name ps }"

definition infrared_get_protocol_by_name :: "string \<Rightarrow> InfraredProtocol option" where
  "infrared_get_protocol_by_name protocol_name = protocol_by_name protocol_name infrared_protocols"

section \<open>Encoding\<close>

definition infrared_alloc_encoder :: InfraredEncoderHandler where
  "infrared_alloc_encoder = \<lparr>handler = None, encoder = None\<rparr>"

definition infrared_reset_encoder :: "InfraredEncoderHandler \<Rightarrow> InfraredMessage \<Rightarrow> InfraredEncoderHandler option" where
  "infrared_reset_encoder h m = do {
     i \<leftarrow> infrared_find_index_by_protocol (msg_protocol m);
     t \<leftarrow> rd infrared_encoder_decoder i;
     h \<leftarrow> (if encoder h \<noteq> Some i then do {
             e \<leftarrow> enc_alloc t;
             Some (h\<lparr>encoder := Some i, handler := Some e\<rparr>) }
           else Some h);
     e \<leftarrow> handler h;
     e \<leftarrow> enc_reset t e m;
     Some (h\<lparr>handler := Some e\<rparr>) }"

definition infrared_encode :: "InfraredEncoderHandler \<Rightarrow> (InfraredStatus \<times> nat \<times> bool \<times> InfraredEncoderHandler) option" where
  "infrared_encode h = do {
     i \<leftarrow> encoder h;
     t \<leftarrow> rd infrared_encoder_decoder i;
     e \<leftarrow> handler h;
     (status, duration, lev, e) \<leftarrow> enc_encode t e;
     furi_assert (status \<noteq> InfraredStatusError);
     Some (status, duration, lev, h\<lparr>handler := Some e\<rparr>) }"

end
