(* ===== verification/InfraredSafe.thy ===== *)
theory InfraredSafe
  imports Infrared
begin

text \<open>
  What a protocol promises to the common decoder, and what the common decoder then guarantees: no sequence of
  pulses makes it write outside its arrays, fail a check or loop for ever.
\<close>

section \<open>Consuming samples\<close>

lemma consume_samples:
  assumes "shift \<le> len" "len \<le> length array"
  shows "\<exists>array'. consume_samples array len shift = Some (array', len - shift) \<and> length array' = length array \<and>
    (\<forall>i < len - shift. array' ! i = array ! (i + shift))"
proof -
  let ?P = "\<lambda>i a. length a = length array \<and> (\<forall>j < i. a ! j = array ! (j + shift)) \<and> (\<forall>j. i \<le> j \<longrightarrow> a ! j = array ! j)"
  have "\<exists>a. for_loop (\<lambda>i a. do { x \<leftarrow> rd a (i + shift); wr a i x }) 0 (len - shift) array = Some a \<and> ?P (0 + (len - shift)) a"
    using assms
    by (intro for_loop_rule [where P = ?P]) (auto simp: rd_Some wr_Some nth_list_update less_Suc_eq)
  then show ?thesis using assms(1) by (auto simp: consume_samples_def)
qed

lemma drop_samples:
  assumes "length (timings d) = 6" "n \<le> timings_cnt d" "timings_cnt d \<le> 6"
  shows "\<exists>a. drop_samples d n = Some (d\<lparr>timings := a, timings_cnt := timings_cnt d - n\<rparr>) \<and> length a = 6"
  using consume_samples [of n "timings_cnt d" "timings d"] assms by (auto simp: drop_samples_def)

definition first_level :: "InfraredCommonDecoder \<Rightarrow> bool" where
  "first_level d \<longleftrightarrow> odd (of_bool (level d) + timings_cnt d + 1 :: nat)"

lemma decode_bits_unfold:
  assumes "timings_cnt d \<noteq> 0" "length (timings d) = 6" "min_split_time (spec_timings spec) \<noteq> 0"
  shows "infrared_common_decode_bits spec d =
    (if \<not> first_level d \<and> timings d ! 0 > min_split_time (spec_timings spec) \<and> databit_cnt d \<in> set (databit_lengths spec)
     then Some (InfraredStatusReady, d)
     else if \<not> first_level d \<and> \<not> timings d ! 0 > min_split_time (spec_timings spec) \<and> databit_len spec ! 0 = databit_cnt d
     then Some (InfraredStatusError, d)
     else do {
       (status, d') \<leftarrow> decode spec d (first_level d) (timings d ! 0);
       furi_check (databit_cnt d' \<le> databit_len spec ! 0);
       furi_assert (status = InfraredStatusError \<or> status = InfraredStatusOk);
       if status = InfraredStatusError then Some (status, d')
       else do { d' \<leftarrow> drop_samples d' 1; infrared_common_decode_bits spec d' } })"
  using assms
  by (subst infrared_common_decode_bits.simps, unfold first_level_def [symmetric] Let_def, cases "first_level d") (simp_all add: rd_Some cong: if_cong)

lemma first_level_drop: "1 \<le> timings_cnt d \<Longrightarrow> first_level (d\<lparr>timings := a, timings_cnt := timings_cnt d - 1\<rparr>) = (\<not> first_level d)"
  by (cases "timings_cnt d") (auto simp: first_level_def)

text \<open>What the application does with a decoder: pulses, questions whether a message is ready, resets.\<close>

datatype (plugins only: code size) decoder_call = Pulse bool nat | CheckReady | Reset

fun decoder_run :: "InfraredCommonProtocolSpec \<Rightarrow> decoder_call list \<Rightarrow> InfraredCommonDecoder \<Rightarrow> InfraredCommonDecoder option" where
  "decoder_run spec [] d = Some d"
| "decoder_run spec (Pulse lev duration # cs) d = do { (m, d) \<leftarrow> infrared_common_decode spec d lev duration; decoder_run spec cs d }"
| "decoder_run spec (CheckReady # cs) d = do { (r, d) \<leftarrow> infrared_common_decoder_check_ready spec d; decoder_run spec cs d }"
| "decoder_run spec (Reset # cs) d = do { d \<leftarrow> infrared_common_decoder_reset spec d; decoder_run spec cs d }"

section \<open>The interface of a protocol\<close>

text \<open>
  \<open>ok n s lev\<close>: with \<open>n\<close> bits decoded and \<open>switch_detect = s\<close>, a pulse of level \<open>lev\<close> may come next.
\<close>

definition data_ok :: "InfraredCommonProtocolSpec \<Rightarrow> InfraredCommonDecoder \<Rightarrow> bool" where
  "data_ok spec d \<longleftrightarrow> length (timings d) = 6 \<and> length (data d) = data_bytes spec + 2"

definition same_frame :: "InfraredCommonDecoder \<Rightarrow> InfraredCommonDecoder \<Rightarrow> bool" where
  "same_frame d d' \<longleftrightarrow> timings d' = timings d \<and> timings_cnt d' = timings_cnt d \<and> level d' = level d \<and>
     state d' = state d \<and> length (data d') = length (data d)"

locale infrared_spec =
  fixes spec :: InfraredCommonProtocolSpec
    and ok :: "nat \<Rightarrow> bool \<Rightarrow> bool \<Rightarrow> bool"
  assumes ok_0: "ok 0 s lev"
    and max_len: "0 < databit_len spec ! 0" "databit_len spec ! 0 \<in> set (databit_lengths spec)"
    and split: "0 < min_split_time (spec_timings spec)"
    and decode_law: "length (data d) = data_bytes spec + 2 \<Longrightarrow> databit_cnt d \<le> databit_len spec ! 0 \<Longrightarrow>
      ok (databit_cnt d) (switch_detect d) lev \<Longrightarrow> (\<not> lev \<Longrightarrow> databit_cnt d \<noteq> databit_len spec ! 0) \<Longrightarrow>
      \<exists>st d'. decode spec d lev timing = Some (st, d') \<and> same_frame d d' \<and> databit_cnt d' \<le> databit_len spec ! 0 \<and>
        (st = InfraredStatusError \<or> st = InfraredStatusOk \<and> ok (databit_cnt d') (switch_detect d') (\<not> lev))"
    and interpret_law: "length (data d) = data_bytes spec + 2 \<Longrightarrow> databit_cnt d \<in> set (databit_lengths spec) \<Longrightarrow>
      \<exists>r d'. interpret_data spec d = Some (r, d') \<and> same_frame d d' \<and> databit_cnt d' = databit_cnt d \<and> switch_detect d' = switch_detect d \<and>
        (r \<or> databit_cnt d = databit_len spec ! 0)"
    and repeat_law: "decode_repeat spec = Some fn \<Longrightarrow> length (timings d) = 6 \<Longrightarrow> timings_cnt d \<le> 6 \<Longrightarrow>
      (fn d = Some (InfraredStatusOk, d) \<and> timings_cnt d < 6) \<or> fn d = Some (InfraredStatusError, d) \<or>
       fn d = Some (InfraredStatusReady, d\<lparr>timings_cnt := 0\<rparr>)"
    and no_repeat: "preamble_mark (spec_timings spec) = 0 \<Longrightarrow> decode_repeat spec = None"
begin

text \<open>How many samples may wait: six while repetitions are recognised, else two.\<close>

definition room :: nat where "room = (if decode_repeat spec = None then 2 else 6)"

lemma room: "2 \<le> room" "room \<le> 6" "preamble_mark (spec_timings spec) = 0 \<Longrightarrow> room = 2"
  using no_repeat by (auto simp: room_def)

definition bits_ok :: "InfraredCommonDecoder \<Rightarrow> bool" where
  "bits_ok d \<longleftrightarrow> data_ok spec d \<and> databit_cnt d \<le> databit_len spec ! 0 \<and> ok (databit_cnt d) (switch_detect d) (first_level d)"

lemma decode_bits:
  assumes "bits_ok d" "timings_cnt d \<le> 6"
  shows "\<exists>st d'. infrared_common_decode_bits spec d = Some (st, d') \<and> data_ok spec d' \<and> level d' = level d \<and> state d' = state d \<and>
    timings_cnt d' \<le> timings_cnt d \<and>
    (st = InfraredStatusOk \<and> timings_cnt d' = 0 \<and> bits_ok d' \<or>
     st = InfraredStatusError \<and> 0 < timings_cnt d' \<or>
     st = InfraredStatusReady \<and> 0 < timings_cnt d' \<and> \<not> first_level d' \<and> databit_cnt d' \<in> set (databit_lengths spec))"
  using assms
proof (induction "timings_cnt d" arbitrary: d rule: less_induct)
  case less
  let ?lev = "first_level d" and ?n = "databit_len spec ! 0" and ?s = "min_split_time (spec_timings spec)"
  let ?t = "timings d ! 0"
  have lev: "odd (of_bool (level d) + timings_cnt d + 1 :: nat) = ?lev" by (simp add: first_level_def)
  have L: "length (timings d) = 6" "length (data d) = data_bytes spec + 2" using less.prems by (simp_all add: bits_ok_def data_ok_def)
  show ?case
  proof (cases "timings_cnt d = 0")
    case True
    then show ?thesis using less.prems by (subst infrared_common_decode_bits.simps) (simp add: bits_ok_def)
  next
    case pos: False
    consider (ready) "\<not> ?lev" "?s < ?t" "databit_cnt d \<in> set (databit_lengths spec)"
      | (err) "\<not> ?lev" "\<not> ?s < ?t" "?n = databit_cnt d"
      | (go) "\<not> (\<not> ?lev \<and> ?s < ?t \<and> databit_cnt d \<in> set (databit_lengths spec))" "\<not> (\<not> ?lev \<and> \<not> ?s < ?t \<and> ?n = databit_cnt d)"
      by blast
    then show ?thesis
    proof cases
      case ready
      then have "infrared_common_decode_bits spec d = Some (InfraredStatusReady, d)"
        using pos split L by (subst decode_bits_unfold) simp_all
      with ready pos less.prems show ?thesis by (auto simp: bits_ok_def)
    next
      case err
      then have "infrared_common_decode_bits spec d = Some (InfraredStatusError, d)"
        using pos split L by (subst decode_bits_unfold) simp_all
      with pos less.prems show ?thesis by (auto simp: bits_ok_def)
    next
      case go
      have "databit_cnt d \<noteq> ?n" if "\<not> ?lev" using go max_len(2) that by metis
      then obtain st d1 where d1: "decode spec d ?lev ?t = Some (st, d1)" "same_frame d d1" "databit_cnt d1 \<le> ?n"
        "st = InfraredStatusError \<or> st = InfraredStatusOk \<and> ok (databit_cnt d1) (switch_detect d1) (\<not> ?lev)"
        using decode_law [OF L(2), of ?lev ?t] less.prems(1) unfolding bits_ok_def by blast
      have f: "timings d1 = timings d" "timings_cnt d1 = timings_cnt d" "level d1 = level d" "state d1 = state d"
        "length (data d1) = data_bytes spec + 2" using d1(2) L by (simp_all add: same_frame_def)
      show ?thesis
      proof (cases "st = InfraredStatusError")
        case True
        then have "infrared_common_decode_bits spec d = Some (InfraredStatusError, d1)"
          using pos split L d1(1,3) go by (subst decode_bits_unfold) auto
        then show ?thesis using pos f L by (auto simp: data_ok_def)
      next
        case False
        with d1(4) have st: "st = InfraredStatusOk" "ok (databit_cnt d1) (switch_detect d1) (\<not> ?lev)" by simp_all
        obtain a where a: "drop_samples d1 1 = Some (d1\<lparr>timings := a, timings_cnt := timings_cnt d1 - 1\<rparr>)" "length a = 6"
          using drop_samples [of d1 1] f L pos less.prems(2) by auto
        let ?d2 = "d1\<lparr>timings := a, timings_cnt := timings_cnt d1 - 1\<rparr>"
        have e: "infrared_common_decode_bits spec d = infrared_common_decode_bits spec ?d2"
          using pos split L d1(1,3) go st(1) a(1)
          by (subst decode_bits_unfold) auto
        have fl: "first_level ?d2 = (\<not> ?lev)"
          using first_level_drop [of d1 a] pos f by (simp add: first_level_def)
        have "bits_ok ?d2" using st(2) fl a(2) f d1(3) by (simp add: bits_ok_def data_ok_def)
        moreover have "timings_cnt ?d2 < timings_cnt d" "timings_cnt ?d2 \<le> 6" using f pos less.prems(2) by simp_all
        ultimately have "\<exists>st d'. infrared_common_decode_bits spec ?d2 = Some (st, d') \<and> data_ok spec d' \<and> level d' = level ?d2 \<and> state d' = state ?d2 \<and>
            timings_cnt d' \<le> timings_cnt ?d2 \<and>
            (st = InfraredStatusOk \<and> timings_cnt d' = 0 \<and> bits_ok d' \<or>
             st = InfraredStatusError \<and> 0 < timings_cnt d' \<or>
             st = InfraredStatusReady \<and> 0 < timings_cnt d' \<and> \<not> first_level d' \<and> databit_cnt d' \<in> set (databit_lengths spec))"
          using less.hyps [of ?d2] by blast
        then show ?thesis unfolding e using f by fastforce
      qed
    qed
  qed
qed

text \<open>Looking for the preamble leaves at most one sample, or starts the decoding.\<close>

lemma preamble_loop:
  assumes "data_ok spec d" "timings_cnt d \<le> 6"
  shows "\<exists>r d'. preamble_loop t False d = Some (r, d') \<and> data_ok spec d' \<and> level d' = level d \<and> state d' = state d \<and>
    length (data d') = length (data d) \<and> timings_cnt d' \<le> timings_cnt d \<and>
    (r \<and> timings_cnt d' + 2 \<le> timings_cnt d \<or> \<not> r \<and> timings_cnt d' \<le> 1)"
  using assms
proof (induction "timings_cnt d" arbitrary: d rule: less_induct)
  case less
  have L: "length (timings d) = 6" using less.prems by (simp add: data_ok_def)
  show ?case
  proof (cases "2 \<le> timings_cnt d")
    case False
    then have "preamble_loop t False d = Some (False, d)" by (subst preamble_loop.simps) simp
    then show ?thesis using False less.prems by (intro exI [of _ False] exI [of _ d]) simp
  next
    case True
    obtain a where a: "drop_samples d 2 = Some (d\<lparr>timings := a, timings_cnt := timings_cnt d - 2\<rparr>)" "length a = 6"
      using drop_samples [of d 2] L True less.prems(2) by auto
    let ?d = "d\<lparr>timings := a, timings_cnt := timings_cnt d - 2\<rparr>"
    have e: "preamble_loop t False d = preamble_loop t (preamble_matches t (timings d ! 0) (timings d ! 1)) ?d"
      using True L a(1) by (simp add: rd_Some preamble_loop.simps [of t False d])
    have ok: "data_ok spec ?d" using less.prems(1) a(2) by (simp add: data_ok_def)
    show ?thesis
    proof (cases "preamble_matches t (timings d ! 0) (timings d ! 1)")
      case m: True
      then have "preamble_loop t False d = Some (True, ?d)" unfolding e by (subst preamble_loop.simps) simp
      then show ?thesis using ok True by (intro exI [of _ True] exI [of _ ?d]) simp
    next
      case m: False
      have "timings_cnt ?d < timings_cnt d" "timings_cnt ?d \<le> 6" using True less.prems(2) by simp_all
      from less.hyps [OF this(1) ok this(2)] obtain r d' where h: "preamble_loop t False ?d = Some (r, d')" "data_ok spec d'"
        "level d' = level d" "state d' = state d" "length (data d') = length (data d)" "timings_cnt d' \<le> timings_cnt d - 2"
        "r \<and> timings_cnt d' + 2 \<le> timings_cnt d - 2 \<or> \<not> r \<and> timings_cnt d' \<le> 1" by auto
      have "preamble_loop t False d = Some (r, d')" using h(1) m unfolding e by simp
      moreover have "r \<and> timings_cnt d' + 2 \<le> timings_cnt d \<or> \<not> r \<and> timings_cnt d' \<le> 1" "timings_cnt d' \<le> timings_cnt d"
        using h(6,7) by auto
      ultimately show ?thesis using h(2-5) by blast
    qed
  qed
qed

lemma check_preamble:
  assumes "data_ok spec d" "timings_cnt d \<le> room"
  shows "\<exists>r d'. infrared_check_preamble spec d = Some (r, d') \<and> data_ok spec d' \<and> level d' = level d \<and> state d' = state d \<and>
    (r \<and> timings_cnt d' \<le> timings_cnt d - of_bool (timings_cnt d \<noteq> 0 \<and> \<not> first_level d) \<and>
       (timings_cnt d' < room \<or> first_level d') \<and>
       (preamble_mark (spec_timings spec) \<noteq> 0 \<longrightarrow> timings_cnt d' + 2 \<le> timings_cnt d) \<or>
     \<not> r \<and> timings_cnt d' \<le> 1)"
proof (cases "timings_cnt d = 0")
  case True
  then show ?thesis using assms by (auto simp: infrared_check_preamble_def)
next
  case pos: False
  have L: "length (timings d) = 6" "timings_cnt d \<le> 6" using assms room by (simp_all add: data_ok_def)
  obtain a where a: "drop_samples d 1 = Some (d\<lparr>timings := a, timings_cnt := timings_cnt d - 1\<rparr>)" "length a = 6"
    using drop_samples [of d 1] L pos by auto
  define d1 where "d1 = (if first_level d then d else d\<lparr>timings := a, timings_cnt := timings_cnt d - 1\<rparr>)"
  have e: "infrared_check_preamble spec d =
      (if preamble_mark (spec_timings spec) = 0 then Some (True, d1) else preamble_loop (spec_timings spec) False d1)"
    using pos a(1) unfolding infrared_check_preamble_def first_level_def [symmetric] by (simp add: d1_def)
  have d1: "data_ok spec d1" "level d1 = level d" "state d1 = state d"
    "timings_cnt d1 = timings_cnt d - of_bool (\<not> first_level d)"
    using assms(1) a(2) by (simp_all add: d1_def data_ok_def)
  then have c: "timings_cnt d1 < room \<or> first_level d1" "timings_cnt d1 \<le> 6"
    using assms(2) pos L by (auto simp: d1_def)
  show ?thesis
  proof (cases "preamble_mark (spec_timings spec) = 0")
    case True
    then have "infrared_check_preamble spec d = Some (True, d1)" using e by simp
    then show ?thesis using True d1 c(1) pos by (intro exI [of _ True] exI [of _ d1]) simp
  next
    case False
    from preamble_loop [OF d1(1) c(2), of "spec_timings spec"] show ?thesis
      using e d1 False assms(2) by fastforce
  qed
qed

lemma check_ready:
  assumes "data_ok spec d"
  shows "\<exists>r d'. infrared_common_decoder_check_ready spec d = Some (r, d') \<and> data_ok spec d' \<and> level d' = level d \<and>
    timings_cnt d' = timings_cnt d \<and>
    (r \<and> databit_cnt d' = 0 \<and> state d' = (if decode_repeat spec \<noteq> None then InfraredCommonDecoderStateProcessRepeat else InfraredCommonDecoderStateWaitPreamble) \<or>
     \<not> r \<and> state d' = state d \<and> databit_cnt d' = databit_cnt d \<and> switch_detect d' = switch_detect d \<and> (databit_cnt d \<in> set (databit_lengths spec) \<longrightarrow> databit_cnt d = databit_len spec ! 0))"
proof (cases "databit_cnt d \<in> set (databit_lengths spec)")
  case False
  then show ?thesis using assms by (auto simp: infrared_common_decoder_check_ready_def)
next
  case True
  obtain r d1 where i: "interpret_data spec d = Some (r, d1)" "same_frame d d1" "databit_cnt d1 = databit_cnt d"
      "switch_detect d1 = switch_detect d" "r \<or> databit_cnt d = databit_len spec ! 0"
    using interpret_law [of d] assms True by (auto simp: data_ok_def)
  then show ?thesis
    using True assms by (cases r) (auto simp: infrared_common_decoder_check_ready_def data_ok_def same_frame_def)
qed

lemma reset_state:
  assumes "data_ok spec d" "timings_cnt d \<le> 6"
  shows "\<exists>d'. infrared_common_decoder_reset_state spec d = Some d' \<and> data_ok spec d' \<and> level d' = level d \<and>
    state d' = InfraredCommonDecoderStateWaitPreamble \<and> databit_cnt d' = 0 \<and>
    timings_cnt d' = timings_cnt d - of_bool (preamble_mark (spec_timings spec) = 0)"
proof (cases "preamble_mark (spec_timings spec) = 0 \<and> 0 < timings_cnt d")
  case True
  let ?d = "d\<lparr>state := InfraredCommonDecoderStateWaitPreamble, databit_cnt := 0, switch_detect := False,
     message := (message d)\<lparr>msg_protocol := InfraredProtocolUnknown\<rparr>\<rparr>"
  obtain a where "drop_samples ?d 1 = Some (?d\<lparr>timings := a, timings_cnt := timings_cnt ?d - 1\<rparr>)" "length a = 6"
    using drop_samples [of ?d 1] assms True by (auto simp: data_ok_def)
  then show ?thesis using True assms by (simp add: infrared_common_decoder_reset_state_def data_ok_def)
next
  case False
  then show ?thesis using assms by (auto simp: infrared_common_decoder_reset_state_def data_ok_def Let_def)
qed

section \<open>One call\<close>

text \<open>Inside the loop of \<open>infrared_common_decode\<close>, and between two calls.\<close>

definition loop_ok :: "InfraredCommonDecoder \<Rightarrow> bool" where
  "loop_ok d \<longleftrightarrow> data_ok spec d \<and> timings_cnt d \<le> room \<and>
     (state d = InfraredCommonDecoderStateDecode \<longrightarrow> bits_ok d \<and> (timings_cnt d < room \<or> first_level d)) \<and>
     (state d = InfraredCommonDecoderStateProcessRepeat \<longrightarrow> decode_repeat spec \<noteq> None)"

definition between_ok :: "InfraredCommonDecoder \<Rightarrow> bool" where
  "between_ok d \<longleftrightarrow> data_ok spec d \<and> timings_cnt d < room \<and>
     (state d = InfraredCommonDecoderStateDecode \<longrightarrow> timings_cnt d = 0 \<and> bits_ok d) \<and>
     (state d = InfraredCommonDecoderStateProcessRepeat \<longrightarrow> decode_repeat spec \<noteq> None)"

text \<open>What makes the loop end: samples are consumed, and with the same samples the states come in a
  fixed order.\<close>

definition loop_measure :: "InfraredCommonDecoder \<Rightarrow> nat" where
  "loop_measure d = (case state d of
     InfraredCommonDecoderStateWaitPreamble \<Rightarrow> 4 * (timings_cnt d - of_bool (\<not> first_level d)) + (if preamble_mark (spec_timings spec) = 0 then 3 else 0)
   | InfraredCommonDecoderStateProcessRepeat \<Rightarrow> 4 * timings_cnt d + 1
   | InfraredCommonDecoderStateDecode \<Rightarrow> 4 * timings_cnt d + 2)"

lemma decode_loop:
  assumes "loop_ok d"
  shows "\<exists>r d'. decode_loop spec found d = Some (r, d') \<and> between_ok d' \<and> level d' = level d"
  using assms
proof (induction "loop_measure d" arbitrary: d found rule: less_induct)
  case less
  have ok: "data_ok spec d" "timings_cnt d \<le> room" "timings_cnt d \<le> 6" using less.prems room(2) by (auto simp: loop_ok_def)
  show ?case
  proof (cases "state d")
    case InfraredCommonDecoderStateWaitPreamble
    from check_preamble [OF ok(1,2)] obtain r d1 where p: "infrared_check_preamble spec d = Some (r, d1)" "data_ok spec d1"
      "level d1 = level d" "state d1 = state d"
      "r \<and> timings_cnt d1 \<le> timings_cnt d - of_bool (timings_cnt d \<noteq> 0 \<and> \<not> first_level d) \<and> (timings_cnt d1 < room \<or> first_level d1) \<and>
         (preamble_mark (spec_timings spec) \<noteq> 0 \<longrightarrow> timings_cnt d1 + 2 \<le> timings_cnt d) \<or> \<not> r \<and> timings_cnt d1 \<le> 1" by blast
    show ?thesis
    proof (cases r)
      case False
      then have "decode_loop spec found d = Some (found, d1)"
        using InfraredCommonDecoderStateWaitPreamble p(1) by (subst decode_loop.simps) simp
      moreover have "between_ok d1" using False p(2-5) InfraredCommonDecoderStateWaitPreamble room(1) by (auto simp: between_ok_def)
      ultimately show ?thesis using p(3) by blast
    next
      case True
      let ?d = "d1\<lparr>state := InfraredCommonDecoderStateDecode, databit_cnt := 0, switch_detect := False\<rparr>"
      have fl: "first_level ?d = first_level d1" by (simp add: first_level_def)
      have e: "decode_loop spec found d = decode_loop spec found ?d"
        using InfraredCommonDecoderStateWaitPreamble p(1) True by (subst decode_loop.simps) simp
      have l: "loop_ok ?d" using True p ok ok_0 fl unfolding loop_ok_def bits_ok_def by (auto simp: data_ok_def)
      have "loop_measure ?d < loop_measure d"
        using True p(5) InfraredCommonDecoderStateWaitPreamble
        by (cases "timings_cnt d = 0"; cases "preamble_mark (spec_timings spec) = 0"; cases "first_level d") (auto simp: loop_measure_def)
      from less.hyps [OF this l, of found] show ?thesis using p(3) unfolding e by simp
    qed
  next
    case InfraredCommonDecoderStateDecode
    then have b: "bits_ok d" "timings_cnt d < room \<or> first_level d" using less.prems by (auto simp: loop_ok_def)
    from decode_bits [OF b(1) ok(3)] obtain st d1 where p: "infrared_common_decode_bits spec d = Some (st, d1)" "data_ok spec d1"
      "level d1 = level d" "state d1 = state d" "timings_cnt d1 \<le> timings_cnt d"
      "st = InfraredStatusOk \<and> timings_cnt d1 = 0 \<and> bits_ok d1 \<or> st = InfraredStatusError \<and> 0 < timings_cnt d1 \<or>
       st = InfraredStatusReady \<and> 0 < timings_cnt d1 \<and> \<not> first_level d1 \<and> databit_cnt d1 \<in> set (databit_lengths spec)" by blast
    from p(6) consider (fine) "st = InfraredStatusOk" "timings_cnt d1 = 0" "bits_ok d1" | (err) "st = InfraredStatusError" "0 < timings_cnt d1"
      | (ready) "st = InfraredStatusReady" "0 < timings_cnt d1" "\<not> first_level d1" "databit_cnt d1 \<in> set (databit_lengths spec)" by metis
    then show ?thesis
    proof cases
      case fine
      then have "decode_loop spec found d = Some (found, d1)"
        using InfraredCommonDecoderStateDecode p(1) by (subst decode_loop.simps) simp
      moreover have "between_ok d1" using fine p InfraredCommonDecoderStateDecode room(1) by (auto simp: between_ok_def)
      ultimately show ?thesis using p(3) by blast
    next
      case err
      from reset_state [OF p(2)] p(5) ok(3) obtain d2 where r: "infrared_common_decoder_reset_state spec d1 = Some d2" "data_ok spec d2"
        "level d2 = level d1" "state d2 = InfraredCommonDecoderStateWaitPreamble"
        "timings_cnt d2 = timings_cnt d1 - of_bool (preamble_mark (spec_timings spec) = 0)" by auto
      have e: "decode_loop spec found d = decode_loop spec found d2"
        using InfraredCommonDecoderStateDecode p(1) err r(1) by (subst decode_loop.simps) simp
      have l: "loop_ok d2" using r p(5) ok(2) by (auto simp: loop_ok_def)
      have "loop_measure d2 < loop_measure d"
        using InfraredCommonDecoderStateDecode r p(5) err(2) by (auto simp: loop_measure_def)
      from less.hyps [OF this l, of found] show ?thesis using p(3) r(3) unfolding e by simp
    next
      case ready
      from check_ready [OF p(2)] obtain r d2 where r: "infrared_common_decoder_check_ready spec d1 = Some (r, d2)" "data_ok spec d2"
        "level d2 = level d1" "timings_cnt d2 = timings_cnt d1"
        "r \<and> databit_cnt d2 = 0 \<and> state d2 = (if decode_repeat spec \<noteq> None then InfraredCommonDecoderStateProcessRepeat else InfraredCommonDecoderStateWaitPreamble) \<or>
         \<not> r \<and> state d2 = state d1 \<and> databit_cnt d2 = databit_cnt d1 \<and> switch_detect d2 = switch_detect d1 \<and> (databit_cnt d1 \<in> set (databit_lengths spec) \<longrightarrow> databit_cnt d1 = databit_len spec ! 0)"
        by blast
      have fl: "\<not> first_level d2" using ready(3) r(3,4) by (simp add: first_level_def)
      show ?thesis
      proof (cases r)
        case True
        have e: "decode_loop spec found d = decode_loop spec True d2"
          using InfraredCommonDecoderStateDecode p(1) ready r(1) True by (subst decode_loop.simps) simp
        have l: "loop_ok d2" using r True p(5) ok(2) by (auto simp: loop_ok_def)
        have "loop_measure d2 < loop_measure d"
          using InfraredCommonDecoderStateDecode r True p(5) fl ready(2) no_repeat
          by (cases "decode_repeat spec") (auto simp: loop_measure_def)
        from less.hyps [OF this l, of True] show ?thesis using p(3) r(3) unfolding e by simp
      next
        case False
        have "decode_loop spec found d = Some (False, d2\<lparr>state := InfraredCommonDecoderStateWaitPreamble\<rparr>)"
          using InfraredCommonDecoderStateDecode p(1) ready r(1,5) False by (subst decode_loop.simps) simp
        moreover have "timings_cnt d2 < room"
        proof (rule ccontr)
          assume h: "\<not> timings_cnt d2 < room"
          with r(4) p(5) ok(2) have "timings_cnt d1 = timings_cnt d" "timings_cnt d = room" by simp_all
          with b(2) p(3) ready(3) show False by (simp add: first_level_def)
        qed
        then have "between_ok (d2\<lparr>state := InfraredCommonDecoderStateWaitPreamble\<rparr>)" using r(2) by (simp add: between_ok_def data_ok_def)
        ultimately show ?thesis using p(3) r(3) by fastforce
      qed
    qed
  next
    case InfraredCommonDecoderStateProcessRepeat
    then obtain fn where fn: "decode_repeat spec = Some fn" using less.prems by (auto simp: loop_ok_def)
    have six: "room = 6" using fn by (simp add: room_def)
    have "length (timings d) = 6" using ok(1) by (simp add: data_ok_def)
    from repeat_law [OF fn this ok(3)] consider (fine) "fn d = Some (InfraredStatusOk, d)" "timings_cnt d < 6"
      | (err) "fn d = Some (InfraredStatusError, d)" | (ready) "fn d = Some (InfraredStatusReady, d\<lparr>timings_cnt := 0\<rparr>)" by blast
    then show ?thesis
    proof cases
      case fine
      then have "decode_loop spec found d = Some (found, d)"
        using InfraredCommonDecoderStateProcessRepeat fn by (subst decode_loop.simps) simp
      then show ?thesis using ok(1) fine(2) six fn InfraredCommonDecoderStateProcessRepeat by (auto simp: between_ok_def)
    next
      case ready
      let ?d = "d\<lparr>timings_cnt := 0, message := (message d)\<lparr>repeat := True\<rparr>\<rparr>"
      have "decode_loop spec found d = Some (True, ?d)"
        using InfraredCommonDecoderStateProcessRepeat fn ready by (subst decode_loop.simps) simp
      moreover have "between_ok ?d" using ok(1) six fn InfraredCommonDecoderStateProcessRepeat by (simp add: between_ok_def data_ok_def)
      ultimately show ?thesis by fastforce
    next
      case err
      from reset_state [OF ok(1,3)] obtain d2 where r: "infrared_common_decoder_reset_state spec d = Some d2" "data_ok spec d2"
        "level d2 = level d" "state d2 = InfraredCommonDecoderStateWaitPreamble"
        "timings_cnt d2 = timings_cnt d - of_bool (preamble_mark (spec_timings spec) = 0)" by auto
      have e: "decode_loop spec found d = decode_loop spec found d2"
        using InfraredCommonDecoderStateProcessRepeat fn err r(1) by (subst decode_loop.simps) simp
      have l: "loop_ok d2" using r ok(2) by (auto simp: loop_ok_def)
      have "preamble_mark (spec_timings spec) \<noteq> 0" using no_repeat fn by force
      then have "loop_measure d2 < loop_measure d"
        using InfraredCommonDecoderStateProcessRepeat r by (auto simp: loop_measure_def)
      from less.hyps [OF this l, of found] show ?thesis using r(3) unfolding e by simp
    qed
  qed
qed

lemma reset_between:
  assumes "data_ok spec d" "timings_cnt d \<le> 6"
  shows "\<exists>d'. infrared_common_decoder_reset spec d = Some d' \<and> between_ok d' \<and> level d' = level d \<and> timings_cnt d' = 0 \<and>
    state d' = InfraredCommonDecoderStateWaitPreamble"
proof -
  from reset_state [OF assms] obtain d1 where d1: "infrared_common_decoder_reset_state spec d = Some d1" "data_ok spec d1"
    "level d1 = level d" "state d1 = InfraredCommonDecoderStateWaitPreamble" by blast
  then show ?thesis using room(1) by (simp add: infrared_common_decoder_reset_def between_ok_def data_ok_def)
qed

lemma decode_between:
  assumes "between_ok d"
  shows "\<exists>m d'. infrared_common_decode spec d lev duration = Some (m, d') \<and> between_ok d'"
proof -
  have d: "data_ok spec d" "timings_cnt d \<le> 6" using assms room by (auto simp: between_ok_def)
  obtain d1 where d1: "(if level d = lev then infrared_common_decoder_reset spec d else Some d) = Some d1" "between_ok d1"
    "level d1 = level d" "level d = lev \<Longrightarrow> state d1 = InfraredCommonDecoderStateWaitPreamble"
    using reset_between [OF d] assms by (cases "level d = lev") auto
  then have c: "length (timings d1) = 6" "timings_cnt d1 < 6" "timings_cnt d1 < room"
    using room(2) by (auto simp: between_ok_def data_ok_def)
  let ?d = "d1\<lparr>level := lev, timings := (timings d1)[timings_cnt d1 := duration], timings_cnt := timings_cnt d1 + 1\<rparr>"
  have "loop_ok ?d"
    unfolding loop_ok_def
  proof (intro conjI impI)
    assume s: "state ?d = InfraredCommonDecoderStateDecode"
    then have o: "timings_cnt d1 = 0" "bits_ok d1" "level d \<noteq> lev" using d1(2,4) by (auto simp: between_ok_def)
    then have "first_level ?d = lev" "first_level d1 = lev" using d1(3) by (auto simp: first_level_def)
    then show "bits_ok ?d" using o by (simp add: bits_ok_def data_ok_def)
    show "timings_cnt ?d < room \<or> first_level ?d" using o(1) room(1) by simp
  qed (use d1(2) c in \<open>auto simp: between_ok_def data_ok_def\<close>)
  from decode_loop [OF this, of False] obtain r d2 where "decode_loop spec False ?d = Some (r, d2)" "between_ok d2" by blast
  then show ?thesis
    using d1(1) c(1,2) by (auto simp: infrared_common_decode_def wr_Some)
qed

lemma check_ready_between:
  assumes "between_ok d"
  shows "\<exists>r d'. infrared_common_decoder_check_ready spec d = Some (r, d') \<and> between_ok d'"
proof -
  have d: "data_ok spec d" using assms by (simp add: between_ok_def)
  from check_ready [OF d] obtain r d1 where r: "infrared_common_decoder_check_ready spec d = Some (r, d1)" "data_ok spec d1"
    "timings_cnt d1 = timings_cnt d" "level d1 = level d"
    "r \<and> databit_cnt d1 = 0 \<and> state d1 = (if decode_repeat spec \<noteq> None then InfraredCommonDecoderStateProcessRepeat else InfraredCommonDecoderStateWaitPreamble) \<or>
     \<not> r \<and> state d1 = state d \<and> databit_cnt d1 = databit_cnt d \<and> switch_detect d1 = switch_detect d \<and> (databit_cnt d \<in> set (databit_lengths spec) \<longrightarrow> databit_cnt d = databit_len spec ! 0)"
    by blast
  show ?thesis
  proof (cases r)
    case True
    then show ?thesis using r assms by (auto simp: between_ok_def split: if_splits)
  next
    case False
    then have "first_level d1 = first_level d" "state d1 = state d" "databit_cnt d1 = databit_cnt d" "switch_detect d1 = switch_detect d"
      using r by (auto simp: first_level_def)
    then show ?thesis using r(1-3) assms by (auto simp: between_ok_def bits_ok_def)
  qed
qed

lemma alloc_between:
  assumes "infrared_common_decoder_alloc spec = Some d"
  shows "between_ok d"
  using assms room(1) by (auto simp: infrared_common_decoder_alloc_def between_ok_def data_ok_def bind_eq_Some_conv)

end

section \<open>The protocols keep the promise\<close>

text \<open>The fields of the tables.\<close>

lemma nec_fields [simp]:
  "decode infrared_protocol_nec = infrared_common_decode_pdwm nec_data" "decode_repeat infrared_protocol_nec = Some infrared_decoder_nec_decode_repeat"
  "interpret_data infrared_protocol_nec = infrared_decoder_nec_interpret" "encode infrared_protocol_nec = infrared_common_encode_pdwm nec_data"
  "encode_repeat infrared_protocol_nec = Some infrared_encoder_nec_encode_repeat" "spec_timings infrared_protocol_nec = spec_timings nec_data"
  "databit_len infrared_protocol_nec = [42, 32, 0, 0]" "databit_lengths infrared_protocol_nec = [42, 32]"
  "data_bytes infrared_protocol_nec = 6"
  by (simp_all add: infrared_protocol_nec_def nec_data_def InfraredCommonProtocolData.extend_def databit_lengths_def data_bytes_def)

lemma samsung32_fields [simp]:
  "decode infrared_protocol_samsung32 = infrared_common_decode_pdwm samsung32_data" "decode_repeat infrared_protocol_samsung32 = Some infrared_decoder_samsung32_decode_repeat"
  "interpret_data infrared_protocol_samsung32 = infrared_decoder_samsung32_interpret" "encode infrared_protocol_samsung32 = infrared_common_encode_pdwm samsung32_data"
  "encode_repeat infrared_protocol_samsung32 = Some infrared_encoder_samsung32_encode_repeat" "spec_timings infrared_protocol_samsung32 = spec_timings samsung32_data"
  "databit_len infrared_protocol_samsung32 = [32, 0, 0, 0]" "databit_lengths infrared_protocol_samsung32 = [32]"
  "data_bytes infrared_protocol_samsung32 = 4"
  by (simp_all add: infrared_protocol_samsung32_def samsung32_data_def InfraredCommonProtocolData.extend_def databit_lengths_def data_bytes_def)

lemma rc5_fields [simp]:
  "decode infrared_protocol_rc5 = infrared_common_decode_manchester rc5_data" "decode_repeat infrared_protocol_rc5 = None"
  "interpret_data infrared_protocol_rc5 = infrared_decoder_rc5_interpret" "encode infrared_protocol_rc5 = infrared_common_encode_manchester rc5_data"
  "encode_repeat infrared_protocol_rc5 = None" "spec_timings infrared_protocol_rc5 = spec_timings rc5_data"
  "databit_len infrared_protocol_rc5 = [14, 0, 0, 0]" "databit_lengths infrared_protocol_rc5 = [14]"
  "data_bytes infrared_protocol_rc5 = 2"
  by (simp_all add: infrared_protocol_rc5_def rc5_data_def InfraredCommonProtocolData.extend_def databit_lengths_def data_bytes_def)

lemma rc6_fields [simp]:
  "decode infrared_protocol_rc6 = infrared_decoder_rc6_decode_manchester" "decode_repeat infrared_protocol_rc6 = None"
  "interpret_data infrared_protocol_rc6 = infrared_decoder_rc6_interpret" "encode infrared_protocol_rc6 = infrared_encoder_rc6_encode_manchester"
  "encode_repeat infrared_protocol_rc6 = None" "spec_timings infrared_protocol_rc6 = spec_timings rc6_data"
  "databit_len infrared_protocol_rc6 = [21, 0, 0, 0]" "databit_lengths infrared_protocol_rc6 = [21]"
  "data_bytes infrared_protocol_rc6 = 3"
  by (simp_all add: infrared_protocol_rc6_def rc6_data_def InfraredCommonProtocolData.extend_def databit_lengths_def data_bytes_def)

lemma sirc_fields [simp]:
  "decode infrared_protocol_sirc = infrared_common_decode_pdwm sirc_data" "decode_repeat infrared_protocol_sirc = None"
  "interpret_data infrared_protocol_sirc = infrared_decoder_sirc_interpret" "encode infrared_protocol_sirc = infrared_common_encode_pdwm sirc_data"
  "encode_repeat infrared_protocol_sirc = Some infrared_encoder_sirc_encode_repeat" "spec_timings infrared_protocol_sirc = spec_timings sirc_data"
  "databit_len infrared_protocol_sirc = [20, 15, 12, 0]" "databit_lengths infrared_protocol_sirc = [20, 15, 12]"
  "data_bytes infrared_protocol_sirc = 3"
  by (simp_all add: infrared_protocol_sirc_def sirc_data_def InfraredCommonProtocolData.extend_def databit_lengths_def data_bytes_def)

lemma pioneer_fields [simp]:
  "decode infrared_protocol_pioneer = infrared_common_decode_pdwm pioneer_data" "decode_repeat infrared_protocol_pioneer = None"
  "interpret_data infrared_protocol_pioneer = infrared_decoder_pioneer_interpret" "encode infrared_protocol_pioneer = infrared_common_encode_pdwm pioneer_data"
  "encode_repeat infrared_protocol_pioneer = Some infrared_encoder_pioneer_encode_repeat" "spec_timings infrared_protocol_pioneer = spec_timings pioneer_data"
  "databit_len infrared_protocol_pioneer = [33, 32, 0, 0]" "databit_lengths infrared_protocol_pioneer = [33, 32]"
  "data_bytes infrared_protocol_pioneer = 5"
  by (simp_all add: infrared_protocol_pioneer_def pioneer_data_def InfraredCommonProtocolData.extend_def databit_lengths_def data_bytes_def)

lemma kaseikyo_fields [simp]:
  "decode infrared_protocol_kaseikyo = infrared_common_decode_pdwm kaseikyo_data" "decode_repeat infrared_protocol_kaseikyo = None"
  "interpret_data infrared_protocol_kaseikyo = infrared_decoder_kaseikyo_interpret" "encode infrared_protocol_kaseikyo = infrared_common_encode_pdwm kaseikyo_data"
  "encode_repeat infrared_protocol_kaseikyo = None" "spec_timings infrared_protocol_kaseikyo = spec_timings kaseikyo_data"
  "databit_len infrared_protocol_kaseikyo = [48, 0, 0, 0]" "databit_lengths infrared_protocol_kaseikyo = [48]"
  "data_bytes infrared_protocol_kaseikyo = 6"
  by (simp_all add: infrared_protocol_kaseikyo_def kaseikyo_data_def InfraredCommonProtocolData.extend_def databit_lengths_def data_bytes_def)

lemma rca_fields [simp]:
  "decode infrared_protocol_rca = infrared_common_decode_pdwm rca_data" "decode_repeat infrared_protocol_rca = None"
  "interpret_data infrared_protocol_rca = infrared_decoder_rca_interpret" "encode infrared_protocol_rca = infrared_common_encode_pdwm rca_data"
  "encode_repeat infrared_protocol_rca = None" "spec_timings infrared_protocol_rca = spec_timings rca_data"
  "databit_len infrared_protocol_rca = [24, 0, 0, 0]" "databit_lengths infrared_protocol_rca = [24]"
  "data_bytes infrared_protocol_rca = 3"
  by (simp_all add: infrared_protocol_rca_def rca_data_def InfraredCommonProtocolData.extend_def databit_lengths_def data_bytes_def)

lemmas infrared_tables = nec_data_def samsung32_data_def rc5_data_def rc6_data_def sirc_data_def pioneer_data_def kaseikyo_data_def rca_data_def
  infrared_constants

lemma accumulate_lsb_run:
  assumes "databit_cnt d div 8 < length (data d)"
  shows "accumulate_lsb d b = Some (d\<lparr>data := (data d)[databit_cnt d div 8 :=
      (if databit_cnt d mod 8 = 0 then 0 else data d ! (databit_cnt d div 8)) OR (if b then push_bit (databit_cnt d mod 8) 1 else 0)],
    databit_cnt := databit_cnt d + 1\<rparr>)"
  using assms by (cases b; cases "databit_cnt d mod 8 = 0") (simp_all add: accumulate_lsb_def rd_Some wr_Some Let_def)

lemma accumulate_lsb_frame:
  assumes "databit_cnt d div 8 < length (data d)"
  shows "\<exists>d'. accumulate_lsb d b = Some d' \<and> same_frame d d' \<and> databit_cnt d' = databit_cnt d + 1 \<and> switch_detect d' = switch_detect d"
  using accumulate_lsb_run [OF assms, of b] by (simp add: same_frame_def)

text \<open>Pulse distance: a bit is in a space; pulse width: in a mark.\<close>

lemma pdwm_law:
  assumes "databit_cnt d \<le> n" "n div 8 < length (data d)" "\<not> lev \<Longrightarrow> databit_cnt d \<noteq> n"
    and "bit1_mark (spec_timings spec) \<noteq> bit0_mark (spec_timings spec) \<Longrightarrow> databit_cnt d = n \<longrightarrow> \<not> lev"
  shows "\<exists>st d'. infrared_common_decode_pdwm spec d lev timing = Some (st, d') \<and> same_frame d d' \<and> databit_cnt d' \<le> n \<and>
    (st = InfraredStatusError \<or> st = InfraredStatusOk \<and>
       (bit1_mark (spec_timings spec) \<noteq> bit0_mark (spec_timings spec) \<longrightarrow> databit_cnt d' = n \<longrightarrow> lev))"
proof -
  let ?a = "lev \<noteq> (bit1_mark (spec_timings spec) = bit0_mark (spec_timings spec))"
  have i: "databit_cnt d div 8 < length (data d)" using assms(1,2) div_le_mono [of "databit_cnt d" n 8] by linarith
  show ?thesis
  proof (cases ?a)
    case True
    then have "databit_cnt d < n" using assms(1,3,4) by (cases lev) (auto simp: le_less)
    obtain d1 d0 where "accumulate_lsb d True = Some d1" "same_frame d d1" "databit_cnt d1 = databit_cnt d + 1"
      "accumulate_lsb d False = Some d0" "same_frame d d0" "databit_cnt d0 = databit_cnt d + 1"
      using accumulate_lsb_frame [OF i, of True] accumulate_lsb_frame [OF i, of False] by blast
    moreover have "same_frame d d" by (simp add: same_frame_def)
    ultimately show ?thesis
      using True \<open>databit_cnt d < n\<close> by (auto simp: infrared_common_decode_pdwm_def Let_def)
  next
    case False
    then show ?thesis using assms by (cases lev) (auto simp: infrared_common_decode_pdwm_def Let_def same_frame_def)
  qed
qed

lemma manchester_law:
  assumes "databit_cnt d \<le> databit_len spec ! 0" "databit_len spec ! 0 div 8 < length (data d)" "1 < databit_len spec ! 0"
  shows "\<exists>st d'. infrared_common_decode_manchester spec d lev timing = Some (st, d') \<and> same_frame d d' \<and>
    databit_cnt d' \<le> databit_len spec ! 0 \<and> (st = InfraredStatusError \<or> st = InfraredStatusOk) \<and>
    (st = InfraredStatusOk \<longrightarrow> databit_cnt d' = databit_cnt d \<and> \<not> manchester_start_from_space spec \<or> switch_detect d' \<or> manchester_start_from_space spec)"
proof -
  let ?n = "databit_len spec ! 0"
  have i: "k \<le> ?n \<Longrightarrow> k div 8 < length (data d)" for k
    using assms(2) div_le_mono [of k ?n 8] by linarith
  define d0 where "d0 = d\<lparr>switch_detect := True\<rparr>"
  have "databit_cnt d0 div 8 < length (data d0)" using i assms(1) by (simp add: d0_def)
  from accumulate_lsb_frame [OF this, of False] obtain d1 where
    d1: "accumulate_lsb d0 False = Some d1" "same_frame d0 d1" "databit_cnt d1 = databit_cnt d0 + 1" "switch_detect d1" by (auto simp: d0_def)
  define d2 where "d2 = (if manchester_start_from_space spec \<and> databit_cnt d = 0 then d1 else d)"
  have d2: "same_frame d d2" "databit_cnt d2 \<le> ?n" "databit_cnt d2 = databit_cnt d \<or> manchester_start_from_space spec"
    using d1 assms(1,3) by (auto simp: d2_def d0_def same_frame_def)
  have acc: "\<exists>d'. accumulate_lsb d3 lev = Some d' \<and> same_frame d d' \<and> databit_cnt d' \<le> ?n \<and> switch_detect d' = switch_detect d3"
    if "same_frame d d3" "databit_cnt d3 = databit_cnt d2" "?n \<noteq> databit_cnt d2" for d3
  proof -
    have "databit_cnt d3 div 8 < length (data d3)" using i that d2(2) by (auto simp: same_frame_def)
    from accumulate_lsb_frame [OF this, of lev] that d2(2) show ?thesis by (auto simp: same_frame_def)
  qed
  have start: "(if manchester_start_from_space spec \<and> databit_cnt d = 0
      then accumulate_lsb (d\<lparr>switch_detect := True\<rparr>) False else Some d) = Some d2"
    using d1(1) by (simp add: d2_def d0_def)
  have e: "infrared_common_decode_manchester spec d lev timing =
    (let b = bit1_mark (spec_timings spec); tolerance = bit_tolerance (spec_timings spec);
          single_timing = MATCH_TIMING timing b tolerance;
          double_timing = MATCH_TIMING timing (2 * b) tolerance in
      if \<not> single_timing \<and> \<not> double_timing then Some (InfraredStatusError, d)
      else if \<not> switch_detect d2 \<and> double_timing then Some (InfraredStatusError, d2)
        else
          let d = (if \<not> switch_detect d2 then d2\<lparr>switch_detect := True\<rparr>
                   else if single_timing then d2\<lparr>switch_detect := False\<rparr> else d2) in
          if switch_detect d then
            (if databit_len spec ! 0 = databit_cnt d then Some (InfraredStatusError, d)
             else do { d \<leftarrow> accumulate_lsb d lev; Some (InfraredStatusOk, d) })
          else Some (InfraredStatusOk, d))"
    unfolding infrared_common_decode_manchester_def Let_def start by simp
  let ?s = "MATCH_TIMING timing (bit1_mark (spec_timings spec)) (bit_tolerance (spec_timings spec))"
  let ?t = "MATCH_TIMING timing (2 * bit1_mark (spec_timings spec)) (bit_tolerance (spec_timings spec))"
  define d3 where "d3 = (if \<not> switch_detect d2 then d2\<lparr>switch_detect := True\<rparr> else if ?s then d2\<lparr>switch_detect := False\<rparr> else d2)"
  have d3: "same_frame d d3" "databit_cnt d3 = databit_cnt d2" using d2(1) by (simp_all add: d3_def same_frame_def)
  consider "\<not> ?s \<and> \<not> ?t" | "?s \<or> ?t" "\<not> switch_detect d2 \<and> ?t"
    | "?s \<or> ?t" "\<not> (\<not> switch_detect d2 \<and> ?t)" "switch_detect d3" "?n = databit_cnt d3"
    | "?s \<or> ?t" "\<not> (\<not> switch_detect d2 \<and> ?t)" "switch_detect d3" "?n \<noteq> databit_cnt d3"
    | "?s \<or> ?t" "\<not> (\<not> switch_detect d2 \<and> ?t)" "\<not> switch_detect d3" by blast
  then show ?thesis
  proof cases
    case 1
    then show ?thesis using assms(1) unfolding e by (simp add: same_frame_def)
  next
    case 2
    then show ?thesis using d2 unfolding e by simp
  next
    case 3
    then show ?thesis using d3 d2(2) unfolding e Let_def d3_def [symmetric] by auto
  next
    case 4
    then obtain d' where "accumulate_lsb d3 lev = Some d'" "same_frame d d'" "databit_cnt d' \<le> ?n" "switch_detect d' = switch_detect d3"
      using acc [OF d3] d3(2) by metis
    then show ?thesis using 4 unfolding e Let_def d3_def [symmetric] by auto
  next
    case 5
    then show ?thesis using d3 d2(2,3) unfolding e Let_def d3_def [symmetric] by auto
  qed
qed


text \<open>The interpretations only write the message, the toggle and, for RC5, the data.\<close>

definition interprets :: "InfraredCommonDecoder \<Rightarrow> bool \<Rightarrow> (bool \<times> InfraredCommonDecoder) option \<Rightarrow> bool" where
  "interprets d must r \<longleftrightarrow> (\<exists>b d'. r = Some (b, d') \<and> same_frame d d' \<and> databit_cnt d' = databit_cnt d \<and> switch_detect d' = switch_detect d \<and> (must \<longrightarrow> b))"

lemma interprets_set_message: "interprets d must (Some (b, set_message p a c d)) = (must \<longrightarrow> b)" "interprets d must (Some (b, d)) = (must \<longrightarrow> b)"
  by (auto simp: interprets_def set_message_def same_frame_def)

lemma interpret_nec: "length (data d) = 8 \<Longrightarrow> databit_cnt d \<in> {42, 32} \<Longrightarrow> interprets d True (infrared_decoder_nec_interpret d)"
  by (auto simp: infrared_decoder_nec_interpret_def rd_Some load_u32_def load_u16_def interprets_set_message Let_def)

lemma interpret_samsung32: "length (data d) = 6 \<Longrightarrow> interprets d False (infrared_decoder_samsung32_interpret d)"
  by (simp add: infrared_decoder_samsung32_interpret_def rd_Some interprets_set_message)

lemma interpret_rc5: "length (data d) = 4 \<Longrightarrow> interprets d False (infrared_decoder_rc5_interpret d)"
  by (simp add: infrared_decoder_rc5_interpret_def rd_Some wr_Some load_u32_def Let_def)
    (auto simp: interprets_def same_frame_def)

lemma interpret_rc6: "length (data d) = 5 \<Longrightarrow> interprets d False (infrared_decoder_rc6_interpret d)"
  by (simp add: infrared_decoder_rc6_interpret_def load_u32_def Let_def) (auto simp: interprets_def same_frame_def)

lemma interpret_sirc: "length (data d) = 5 \<Longrightarrow> databit_cnt d \<in> {20, 15, 12} \<Longrightarrow> interprets d True (infrared_decoder_sirc_interpret d)"
  by (simp add: infrared_decoder_sirc_interpret_def load_u32_def) (auto simp: interprets_set_message)

lemma interpret_kaseikyo: "length (data d) = 8 \<Longrightarrow> interprets d False (infrared_decoder_kaseikyo_interpret d)"
  by (simp add: infrared_decoder_kaseikyo_interpret_def rd_Some Let_def interprets_set_message)

lemma interpret_rca: "length (data d) = 5 \<Longrightarrow> interprets d False (infrared_decoder_rca_interpret d)"
  by (simp add: infrared_decoder_rca_interpret_def load_u32_def Let_def interprets_set_message)

lemma interprets_law:
  "interprets d must r \<Longrightarrow> must \<or> databit_cnt d = n \<Longrightarrow>
    \<exists>b d'. r = Some (b, d') \<and> same_frame d d' \<and> databit_cnt d' = databit_cnt d \<and> switch_detect d' = switch_detect d \<and> (b \<or> databit_cnt d = n)"
  by (auto simp: interprets_def)

text \<open>A repetition is too short, wrong or accepted.\<close>

definition repeats :: "InfraredCommonDecoder \<Rightarrow> (InfraredStatus \<times> InfraredCommonDecoder) option \<Rightarrow> bool" where
  "repeats d r \<longleftrightarrow> r = Some (InfraredStatusOk, d) \<and> timings_cnt d < 6 \<or> r = Some (InfraredStatusError, d) \<or>
     r = Some (InfraredStatusReady, d\<lparr>timings_cnt := 0\<rparr>)"

lemma repeat_nec: "length (timings d) = 6 \<Longrightarrow> repeats d (infrared_decoder_nec_decode_repeat d)"
  by (simp add: infrared_decoder_nec_decode_repeat_def rd_Some Let_def repeats_def)

lemma repeat_samsung32: "length (timings d) = 6 \<Longrightarrow> repeats d (infrared_decoder_samsung32_decode_repeat d)"
  by (simp add: infrared_decoder_samsung32_decode_repeat_def rd_Some Let_def repeats_def)

lemma rc6_law:
  assumes "databit_cnt d \<le> 21" "length (data d) = 5" "databit_cnt d = 4 \<longrightarrow> switch_detect d"
  shows "\<exists>st d'. infrared_decoder_rc6_decode_manchester d lev timing = Some (st, d') \<and> same_frame d d' \<and> databit_cnt d' \<le> 21 \<and>
    (st = InfraredStatusError \<or> st = InfraredStatusOk \<and> (databit_cnt d' = 4 \<longrightarrow> switch_detect d'))"
proof -
  have m: "\<exists>st d'. infrared_common_decode_manchester rc6_data d1 lev t = Some (st, d') \<and> same_frame d d' \<and> databit_cnt d' \<le> 21 \<and>
      (st = InfraredStatusError \<or> st = InfraredStatusOk \<and> (databit_cnt d' = 4 \<longrightarrow> switch_detect d'))"
    if "same_frame d d1" "databit_cnt d1 = databit_cnt d" "databit_cnt d \<noteq> 4" for d1 t
    using manchester_law [of d1 rc6_data lev t] that assms(1,2) by (auto simp: rc6_data_def same_frame_def)
  consider "databit_cnt d = 4" | "databit_cnt d = 5" | "databit_cnt d \<noteq> 4" "databit_cnt d \<noteq> 5" by blast
  then show ?thesis
  proof cases
    case 1
    then show ?thesis using assms by (auto simp: infrared_decoder_rc6_decode_manchester_def rd_Some wr_Some Let_def same_frame_def)
  next
    case 2
    then show ?thesis using m [of "d\<lparr>switch_detect := False\<rparr>"]
      by (auto simp: infrared_decoder_rc6_decode_manchester_def Let_def same_frame_def)
  next
    case 3
    then show ?thesis using m [of d timing] by (simp add: infrared_decoder_rc6_decode_manchester_def Let_def same_frame_def)
  qed
qed


definition any_bits :: "nat \<Rightarrow> bool \<Rightarrow> bool \<Rightarrow> bool" where "any_bits n s lev = True"
definition rc6_bits :: "nat \<Rightarrow> bool \<Rightarrow> bool \<Rightarrow> bool" where "rc6_bits n s lev = (n = 4 \<longrightarrow> s)"
definition sirc_bits :: "nat \<Rightarrow> bool \<Rightarrow> bool \<Rightarrow> bool" where "sirc_bits n s lev = (n = 20 \<longrightarrow> \<not> lev)"

lemma infrared_spec_intro:
  assumes "\<And>s lev. ok 0 s lev" "databit_len spec ! 0 = n" "0 < n" "n \<in> set (databit_lengths spec)" "must \<or> set (databit_lengths spec) = {n}"
    and "0 < min_split_time (spec_timings spec)" "preamble_mark (spec_timings spec) = 0 \<longrightarrow> decode_repeat spec = None"
    and decode: "\<And>d lev timing. length (data d) = data_bytes spec + 2 \<Longrightarrow> databit_cnt d \<le> n \<Longrightarrow>
      ok (databit_cnt d) (switch_detect d) lev \<Longrightarrow> (\<not> lev \<longrightarrow> databit_cnt d \<noteq> n) \<Longrightarrow>
      \<exists>st d'. decode spec d lev timing = Some (st, d') \<and> same_frame d d' \<and> databit_cnt d' \<le> n \<and>
        (st = InfraredStatusError \<or> st = InfraredStatusOk \<and> ok (databit_cnt d') (switch_detect d') (\<not> lev))"
    and interp: "\<And>d. length (data d) = data_bytes spec + 2 \<Longrightarrow> databit_cnt d \<in> set (databit_lengths spec) \<Longrightarrow> interprets d must (interpret_data spec d)"
    and repeat: "\<And>fn d. decode_repeat spec = Some fn \<Longrightarrow> length (timings d) = 6 \<Longrightarrow> repeats d (fn d)"
  shows "infrared_spec spec ok"
proof
  fix d :: InfraredCommonDecoder
  assume h: "length (data d) = data_bytes spec + 2" "databit_cnt d \<in> set (databit_lengths spec)"
  then have "must \<or> databit_cnt d = n" using assms(5) by auto
  from interprets_law [OF interp [OF h] this]
  show "\<exists>r d'. interpret_data spec d = Some (r, d') \<and> same_frame d d' \<and> databit_cnt d' = databit_cnt d \<and>
      switch_detect d' = switch_detect d \<and> (r \<or> databit_cnt d = databit_len spec ! 0)" by (simp only: assms(2))
next
  fix fn and d :: InfraredCommonDecoder
  assume "decode_repeat spec = Some fn" "length (timings d) = 6"
  from repeat [OF this] show "(fn d = Some (InfraredStatusOk, d) \<and> timings_cnt d < 6) \<or> fn d = Some (InfraredStatusError, d) \<or>
      fn d = Some (InfraredStatusReady, d\<lparr>timings_cnt := 0\<rparr>)" by (simp add: repeats_def)
qed (use assms in \<open>simp_all add: assms(2)\<close>)

lemma pdwm_decode:
  assumes "length (data d) = k + 2" "n div 8 \<le> k" "databit_cnt d \<le> n" "ok (databit_cnt d) (switch_detect d) lev" "\<not> lev \<longrightarrow> databit_cnt d \<noteq> n"
    and "if bit1_mark (spec_timings tab) = bit0_mark (spec_timings tab) then ok = any_bits else ok = (\<lambda>m s l. m = n \<longrightarrow> \<not> l)"
  shows "\<exists>st d'. infrared_common_decode_pdwm tab d lev timing = Some (st, d') \<and> same_frame d d' \<and> databit_cnt d' \<le> n \<and>
      (st = InfraredStatusError \<or> st = InfraredStatusOk \<and> ok (databit_cnt d') (switch_detect d') (\<not> lev))"
proof -
  have l: "n div 8 < length (data d)" using assms(1,2) by simp
  have g: "databit_cnt d = n \<longrightarrow> \<not> lev" if "bit1_mark (spec_timings tab) \<noteq> bit0_mark (spec_timings tab)"
    using assms(4,6) that by simp
  from pdwm_law [OF assms(3) l, of lev tab timing] assms(5) g obtain st d' where
    r: "infrared_common_decode_pdwm tab d lev timing = Some (st, d')" "same_frame d d'" "databit_cnt d' \<le> n"
    "st = InfraredStatusError \<or> st = InfraredStatusOk \<and>
       (bit1_mark (spec_timings tab) \<noteq> bit0_mark (spec_timings tab) \<longrightarrow> databit_cnt d' = n \<longrightarrow> lev)" by blast
  then have "st = InfraredStatusError \<or> st = InfraredStatusOk \<and> ok (databit_cnt d') (switch_detect d') (\<not> lev)"
    using assms(6) by (cases "bit1_mark (spec_timings tab) = bit0_mark (spec_timings tab)") (auto simp: any_bits_def)
  with r(1-3) show ?thesis by blast
qed

interpretation nec: infrared_spec infrared_protocol_nec any_bits
proof (rule infrared_spec_intro [where n = 42 and must = True])
  fix d :: InfraredCommonDecoder and lev timing
  assume "length (data d) = data_bytes infrared_protocol_nec + 2" "databit_cnt d \<le> 42" "any_bits (databit_cnt d) (switch_detect d) lev"
    "\<not> lev \<longrightarrow> databit_cnt d \<noteq> 42"
  then show "\<exists>st d'. decode infrared_protocol_nec d lev timing = Some (st, d') \<and> same_frame d d' \<and> databit_cnt d' \<le> 42 \<and>
      (st = InfraredStatusError \<or> st = InfraredStatusOk \<and> any_bits (databit_cnt d') (switch_detect d') (\<not> lev))"
    unfolding nec_fields by (intro pdwm_decode [where k = 6]) (auto simp: infrared_tables any_bits_def fun_eq_iff)
qed (auto simp: any_bits_def infrared_tables intro!: interpret_nec repeat_nec)

interpretation samsung32: infrared_spec infrared_protocol_samsung32 any_bits
proof (rule infrared_spec_intro [where n = 32 and must = False])
  fix d :: InfraredCommonDecoder and lev timing
  assume "length (data d) = data_bytes infrared_protocol_samsung32 + 2" "databit_cnt d \<le> 32" "any_bits (databit_cnt d) (switch_detect d) lev"
    "\<not> lev \<longrightarrow> databit_cnt d \<noteq> 32"
  then show "\<exists>st d'. decode infrared_protocol_samsung32 d lev timing = Some (st, d') \<and> same_frame d d' \<and> databit_cnt d' \<le> 32 \<and>
      (st = InfraredStatusError \<or> st = InfraredStatusOk \<and> any_bits (databit_cnt d') (switch_detect d') (\<not> lev))"
    unfolding samsung32_fields by (intro pdwm_decode [where k = 4]) (auto simp: infrared_tables any_bits_def fun_eq_iff)
qed (auto simp: any_bits_def infrared_tables intro!: interpret_samsung32 repeat_samsung32)

interpretation kaseikyo: infrared_spec infrared_protocol_kaseikyo any_bits
proof (rule infrared_spec_intro [where n = 48 and must = False])
  fix d :: InfraredCommonDecoder and lev timing
  assume "length (data d) = data_bytes infrared_protocol_kaseikyo + 2" "databit_cnt d \<le> 48" "any_bits (databit_cnt d) (switch_detect d) lev"
    "\<not> lev \<longrightarrow> databit_cnt d \<noteq> 48"
  then show "\<exists>st d'. decode infrared_protocol_kaseikyo d lev timing = Some (st, d') \<and> same_frame d d' \<and> databit_cnt d' \<le> 48 \<and>
      (st = InfraredStatusError \<or> st = InfraredStatusOk \<and> any_bits (databit_cnt d') (switch_detect d') (\<not> lev))"
    unfolding kaseikyo_fields by (intro pdwm_decode [where k = 6]) (auto simp: infrared_tables any_bits_def fun_eq_iff)
qed (auto simp: any_bits_def infrared_tables intro!: interpret_kaseikyo )

interpretation rca: infrared_spec infrared_protocol_rca any_bits
proof (rule infrared_spec_intro [where n = 24 and must = False])
  fix d :: InfraredCommonDecoder and lev timing
  assume "length (data d) = data_bytes infrared_protocol_rca + 2" "databit_cnt d \<le> 24" "any_bits (databit_cnt d) (switch_detect d) lev"
    "\<not> lev \<longrightarrow> databit_cnt d \<noteq> 24"
  then show "\<exists>st d'. decode infrared_protocol_rca d lev timing = Some (st, d') \<and> same_frame d d' \<and> databit_cnt d' \<le> 24 \<and>
      (st = InfraredStatusError \<or> st = InfraredStatusOk \<and> any_bits (databit_cnt d') (switch_detect d') (\<not> lev))"
    unfolding rca_fields by (intro pdwm_decode [where k = 3]) (auto simp: infrared_tables any_bits_def fun_eq_iff)
qed (auto simp: any_bits_def infrared_tables intro!: interpret_rca )

interpretation sirc: infrared_spec infrared_protocol_sirc sirc_bits
proof (rule infrared_spec_intro [where n = 20 and must = True])
  fix d :: InfraredCommonDecoder and lev timing
  assume "length (data d) = data_bytes infrared_protocol_sirc + 2" "databit_cnt d \<le> 20" "sirc_bits (databit_cnt d) (switch_detect d) lev"
    "\<not> lev \<longrightarrow> databit_cnt d \<noteq> 20"
  then show "\<exists>st d'. decode infrared_protocol_sirc d lev timing = Some (st, d') \<and> same_frame d d' \<and> databit_cnt d' \<le> 20 \<and>
      (st = InfraredStatusError \<or> st = InfraredStatusOk \<and> sirc_bits (databit_cnt d') (switch_detect d') (\<not> lev))"
    unfolding sirc_fields by (intro pdwm_decode [where k = 3]) (auto simp: infrared_tables sirc_bits_def fun_eq_iff)
qed (auto simp: sirc_bits_def infrared_tables intro!: interpret_sirc )

interpretation rc5: infrared_spec infrared_protocol_rc5 any_bits
proof (rule infrared_spec_intro [where n = 14 and must = False])
  fix d :: InfraredCommonDecoder and lev timing
  assume "length (data d) = data_bytes infrared_protocol_rc5 + 2" "databit_cnt d \<le> 14"
  then show "\<exists>st d'. decode infrared_protocol_rc5 d lev timing = Some (st, d') \<and> same_frame d d' \<and> databit_cnt d' \<le> 14 \<and>
      (st = InfraredStatusError \<or> st = InfraredStatusOk \<and> any_bits (databit_cnt d') (switch_detect d') (\<not> lev))"
    using manchester_law [of d rc5_data lev timing] by (auto simp: any_bits_def rc5_data_def)
qed (auto simp: any_bits_def infrared_tables intro!: interpret_rc5)

interpretation rc6: infrared_spec infrared_protocol_rc6 rc6_bits
proof (rule infrared_spec_intro [where n = 21 and must = False])
  fix d :: InfraredCommonDecoder and lev timing
  assume "length (data d) = data_bytes infrared_protocol_rc6 + 2" "databit_cnt d \<le> 21" "rc6_bits (databit_cnt d) (switch_detect d) lev"
  then show "\<exists>st d'. decode infrared_protocol_rc6 d lev timing = Some (st, d') \<and> same_frame d d' \<and> databit_cnt d' \<le> 21 \<and>
      (st = InfraredStatusError \<or> st = InfraredStatusOk \<and> rc6_bits (databit_cnt d') (switch_detect d') (\<not> lev))"
    using rc6_law [of d lev timing] by (auto simp: rc6_bits_def)
qed (auto simp: infrared_tables rc6_bits_def intro!: interpret_rc6)


section \<open>Every run is safe\<close>

context infrared_spec
begin

lemma run_between:
  assumes "between_ok d"
  shows "\<exists>d'. decoder_run spec cs d = Some d' \<and> between_ok d'"
  using assms
proof (induction cs arbitrary: d)
  case (Cons c cs)
  show ?case
  proof (cases c)
    case (Pulse lev t)
    from decode_between [OF Cons.prems, of lev t] Cons.IH show ?thesis unfolding Pulse by force
  next
    case CheckReady
    from check_ready_between [OF Cons.prems] Cons.IH show ?thesis unfolding CheckReady by force
  next
    case Reset
    have "data_ok spec d" "timings_cnt d \<le> 6" using Cons.prems room(2) by (auto simp: between_ok_def)
    from reset_between [OF this] Cons.IH show ?thesis unfolding Reset by force
  qed
qed simp

lemma alloc_run:
  assumes "infrared_common_decoder_alloc spec \<noteq> None"
  shows "\<exists>d d'. infrared_common_decoder_alloc spec = Some d \<and> decoder_run spec cs d = Some d' \<and> timings_cnt d' < 6"
proof -
  from assms obtain d where d: "infrared_common_decoder_alloc spec = Some d" by blast
  from run_between [OF alloc_between [OF d], of cs] d room(2) show ?thesis by (auto simp: between_ok_def)
qed

end

lemma decoder_alloc_defined:
  "infrared_common_decoder_alloc infrared_protocol_nec \<noteq> None" "infrared_common_decoder_alloc infrared_protocol_samsung32 \<noteq> None"
  "infrared_common_decoder_alloc infrared_protocol_rc5 \<noteq> None" "infrared_common_decoder_alloc infrared_protocol_rc6 \<noteq> None"
  "infrared_common_decoder_alloc infrared_protocol_sirc \<noteq> None" "infrared_common_decoder_alloc infrared_protocol_kaseikyo \<noteq> None"
  "infrared_common_decoder_alloc infrared_protocol_rca \<noteq> None" "infrared_common_decoder_alloc infrared_protocol_pioneer \<noteq> None"
  by (simp_all add: infrared_common_decoder_alloc_def upt_rec numeral_2_eq_2 numeral_3_eq_3)

text \<open>C26: whatever pulses arrive, and whenever the application asks for a message or resets, the decoders of all
  protocols but Pioneer never write outside their arrays, fail a check, or loop for ever, and
  there is always room for the next sample.\<close>

theorem infrared_decoders_safe:
  assumes "spec \<in> {infrared_protocol_nec, infrared_protocol_samsung32, infrared_protocol_rc5, infrared_protocol_rc6,
     infrared_protocol_sirc, infrared_protocol_kaseikyo, infrared_protocol_rca}"
  shows "\<exists>d d'. infrared_common_decoder_alloc spec = Some d \<and> decoder_run spec cs d = Some d' \<and> timings_cnt d' < 6"
  using assms nec.alloc_run samsung32.alloc_run rc5.alloc_run rc6.alloc_run sirc.alloc_run kaseikyo.alloc_run rca.alloc_run
    decoder_alloc_defined by blast

theorem infrared_decoders_safe_witness:
  "\<exists>d d'. infrared_common_decoder_alloc infrared_protocol_rc5 = Some d \<and>
     decoder_run infrared_protocol_rc5 [Pulse False 27000, Pulse True 1776, CheckReady, Pulse False 888, Reset] d = Some d' \<and> timings_cnt d' < 6"
  by (rule infrared_decoders_safe) simp

end
