(* ===== verification/InfraredPulseCode.thy ===== *)
theory InfraredPulseCode
  imports InfraredSafe Infrared Pulses
begin

text \<open>
  Pulse distance and pulse width coding end to end: a decoder in the middle of a frame (\<open>receiving\<close>) and what a
  pulse does to it, the pulses that an encoder makes (\<open>emission\<close>, \<open>sends\<close>), and the frames of NEC, Samsung, SIRC,
  Pioneer, Kaseikyo and RCA (\<open>pdwm_frame\<close>).
\<close>

text \<open>Bits of bytes, least significant bit first.\<close>

definition lsb_bit :: "u8 list \<Rightarrow> nat \<Rightarrow> bool" where
  "lsb_bit xs k = bit (xs ! (k div 8)) (k mod 8)"

lemma bit_of_le_bytes:
  "bit (of_le_bytes xs :: 'a::len word) k \<longleftrightarrow> k < LENGTH('a) \<and> k < 8 * length xs \<and> lsb_bit xs k"
proof (induction xs arbitrary: k)
  case Nil
  then show ?case by (simp add: of_le_bytes_def)
next
  case (Cons x xs)
  show ?case
  proof (cases "k < 8")
    case True
    then show ?thesis by (auto simp: of_le_bytes_Cons bit_simps lsb_bit_def)
  next
    case False
    then have "\<not> bit x k" using bit_imp_le_length [of x k] by auto
    moreover have "lsb_bit (x # xs) k = lsb_bit xs (k - 8)"
      using False by (simp add: lsb_bit_def le_div_geq le_mod_geq)
    ultimately show ?thesis using False Cons.IH [of "k - 8"] by (auto simp: of_le_bytes_Cons bit_simps)
  qed
qed

lemma lsb_bit_store:
  assumes "store_u32 xs off w = Some ys"
  shows "k div 8 < length xs \<Longrightarrow> lsb_bit ys k = (if 8 * off \<le> k \<and> k < 8 * off + 32 then bit w (k - 8 * off) else lsb_bit xs k)" "length ys = length xs"
proof -
  have l: "off + 4 \<le> length xs" and y: "ys = overwrite off (le_bytes 4 w) xs"
    using assms by (auto simp: store_u32_def split: if_splits)
  show "length ys = length xs" using l y by simp
  show "lsb_bit ys k = (if 8 * off \<le> k \<and> k < 8 * off + 32 then bit w (k - 8 * off) else lsb_bit xs k)" if True: "k div 8 < length xs"
  proof -
    have "off \<le> k div 8 \<and> k div 8 < off + 4 \<longleftrightarrow> 8 * off \<le> k \<and> k < 8 * off + 32" by auto
    moreover have "bit (le_bytes 4 w ! (k div 8 - off)) (k mod 8) = bit w (k - 8 * off)" if "8 * off \<le> k" "k < 8 * off + 32"
    proof -
      have "8 * (k div 8 - off) + k mod 8 = k - 8 * off" using that(1) by (simp add: diff_mult_distrib2) 
      moreover have "k div 8 - off < 4" using that by linarith
      moreover have "k mod 8 < LENGTH(8)" by simp
      ultimately show ?thesis using that
        by (simp only: le_bytes_def) (simp add: bit_simps add.commute [of "k mod 8"] del: upt_rec_numeral)
    qed
    ultimately show ?thesis using l True by (auto simp: y lsb_bit_def nth_overwrite)
  qed
qed

text \<open>The data of a decoder that received some bits: the last byte is filled with zeros.\<close>

definition holds_bits :: "u8 list \<Rightarrow> bool list \<Rightarrow> bool" where
  "holds_bits xs bs \<longleftrightarrow> (\<forall>k. k div 8 < (length bs + 7) div 8 \<longrightarrow> lsb_bit xs k = (k < length bs \<and> bs ! k))"

lemma holds_bits_snoc:
  assumes "holds_bits xs bs" "length bs div 8 < length xs"
  shows "holds_bits (xs[length bs div 8 := (if length bs mod 8 = 0 then 0 else xs ! (length bs div 8)) OR (if b then push_bit (length bs mod 8) 1 else 0)]) (bs @ [b])"
  unfolding holds_bits_def
proof (intro allI impI)
  let ?n = "length bs"
  fix k assume "k div 8 < (length (bs @ [b]) + 7) div 8"
  then have le: "k div 8 \<le> ?n div 8" by simp
  show "lsb_bit (xs[?n div 8 := (if ?n mod 8 = 0 then 0 else xs ! (?n div 8)) OR (if b then push_bit (?n mod 8) 1 else 0)]) k =
      (k < length (bs @ [b]) \<and> (bs @ [b]) ! k)"
  proof (cases "k div 8 = ?n div 8")
    case False
    with le have lt: "k div 8 < ?n div 8" by simp
    then have "k < ?n" by (metis div_le_mono not_less)
    moreover have "k div 8 < (?n + 7) div 8" using lt div_le_mono [of ?n "?n + 7" 8] by linarith
    ultimately show ?thesis using assms(1) False by (auto simp: holds_bits_def lsb_bit_def nth_append)
  next
    case True
    have old: "lsb_bit xs k = (k < ?n \<and> bs ! k)" if "?n mod 8 \<noteq> 0"
    proof -
      have "?n div 8 < (?n + 7) div 8" using that by presburger
      with True assms(1) show ?thesis by (simp add: holds_bits_def)
    qed
    have kn: "k = ?n \<longleftrightarrow> k mod 8 = ?n mod 8" using True by (metis mod_div_decomp)
    have "bit (if b then push_bit (?n mod 8) (1 :: u8) else 0) (k mod 8) \<longleftrightarrow> b \<and> k = ?n"
      using kn by (auto simp: bit_simps)
    moreover have "k < ?n \<longleftrightarrow> k mod 8 < ?n mod 8" using True by (metis div_mult_mod_eq nat_add_left_cancel_less)
    ultimately show ?thesis
      using True assms(2) old by (cases "?n mod 8 = 0") (auto simp: lsb_bit_def nth_append bit_simps less_Suc_eq)
  qed
qed

lemma holds_bits_Nil [simp]: "holds_bits xs []"
  by (simp add: holds_bits_def)


section \<open>One pulse of a frame\<close>

text \<open>A decoder that hears some pulses.\<close>

primrec hear :: "(InfraredCommonDecoder \<Rightarrow> bool \<Rightarrow> nat \<Rightarrow> (InfraredMessage option \<times> InfraredCommonDecoder) option) \<Rightarrow>
    (bool \<times> nat) list \<Rightarrow> InfraredCommonDecoder \<Rightarrow> InfraredCommonDecoder option" where
  "hear dec [] d = Some d"
| "hear dec (p # ps) d = do { (m, d) \<leftarrow> dec d (fst p) (snd p); hear dec ps d }"

abbreviation feed where "feed spec \<equiv> hear (infrared_common_decode spec)"

lemma hear_append: "hear dec (ps @ qs) d = do { d \<leftarrow> hear dec ps d; hear dec qs d }"
  by (induction ps arbitrary: d) (auto split: bind_split)

text \<open>A decoder in the middle of a frame, with the bits so far.\<close>

definition receiving :: "InfraredCommonProtocolSpec \<Rightarrow> bool list \<Rightarrow> bool \<Rightarrow> bool \<Rightarrow> InfraredCommonDecoder \<Rightarrow> bool" where
  "receiving spec bs lev sd d \<longleftrightarrow> data_ok spec d \<and> state d = InfraredCommonDecoderStateDecode \<and> timings_cnt d = 0 \<and>
     databit_cnt d = length bs \<and> level d = lev \<and> switch_detect d = sd \<and> holds_bits (data d) bs \<and>
     msg_protocol (message d) = InfraredProtocolUnknown"

text \<open>What \<open>decode\<close> does to the bits.\<close>

definition decodes :: "InfraredCommonProtocolSpec \<Rightarrow> bool list \<Rightarrow> bool \<Rightarrow> bool \<Rightarrow> nat \<Rightarrow> bool list \<Rightarrow> bool \<Rightarrow> bool" where
  "decodes spec bs sd lev t bs' sd' \<longleftrightarrow> (\<forall>d. databit_cnt d = length bs \<longrightarrow> switch_detect d = sd \<longrightarrow> holds_bits (data d) bs \<longrightarrow>
     length (data d) = data_bytes spec + 2 \<longrightarrow>
     (\<exists>xs. decode spec d lev t = Some (InfraredStatusOk, d\<lparr>data := xs, databit_cnt := length bs', switch_detect := sd'\<rparr>) \<and>
        holds_bits xs bs' \<and> length xs = data_bytes spec + 2))"

lemma feed_pulse:
  assumes "receiving spec bs (\<not> lev) sd d" "decodes spec bs sd lev t bs' sd'" "length bs' \<le> databit_len spec ! 0"
    and "0 < min_split_time (spec_timings spec)" "\<not> lev \<longrightarrow> t \<le> min_split_time (spec_timings spec) \<and> length bs \<noteq> databit_len spec ! 0"
  shows "\<exists>m d'. infrared_common_decode spec d lev t = Some (m, d') \<and> receiving spec bs' lev sd' d'"
proof -
  have L: "length (timings d) = 6" "length (data d) = data_bytes spec + 2" "level d = (\<not> lev)" "timings_cnt d = 0"
    "state d = InfraredCommonDecoderStateDecode" "databit_cnt d = length bs"
    using assms(1) by (simp_all add: receiving_def data_ok_def)
  let ?d = "d\<lparr>level := lev, timings := (timings d)[0 := t], timings_cnt := 1\<rparr>"
  obtain xs where xs: "decode spec ?d lev t = Some (InfraredStatusOk, ?d\<lparr>data := xs, databit_cnt := length bs', switch_detect := sd'\<rparr>)"
    "holds_bits xs bs'" "length xs = data_bytes spec + 2"
    using assms(2) [unfolded decodes_def, rule_format, of ?d] assms(1) L by (auto simp: receiving_def)
  let ?e = "?d\<lparr>data := xs, databit_cnt := length bs', switch_detect := sd'\<rparr>"
  obtain a where a: "drop_samples ?e 1 = Some (?e\<lparr>timings := a, timings_cnt := timings_cnt ?e - 1\<rparr>)" "length a = 6"
    using drop_samples [of ?e 1] L by auto
  have fl: "first_level ?d = lev" by (auto simp: first_level_def)
  let ?f = "?e\<lparr>timings := a, timings_cnt := 0\<rparr>"
  have stop: "infrared_common_decode_bits spec ?f = Some (InfraredStatusOk, ?f)"
    by (subst infrared_common_decode_bits.simps) simp
  have "infrared_common_decode_bits spec ?d = Some (InfraredStatusOk, ?f)"
    using decode_bits_unfold [of ?d spec] L fl xs(1) a(1) assms(3-5) stop by auto
  then have "decode_loop spec False ?d = Some (False, ?f)"
    using L by (subst decode_loop.simps) simp
  then have "infrared_common_decode spec d lev t = Some (None, ?f)"
    using L by (simp add: infrared_common_decode_def wr_Some)
  moreover have "receiving spec bs' lev sd' ?f"
    using assms(1) xs(2,3) a(2) L by (simp add: receiving_def data_ok_def)
  ultimately show ?thesis by blast
qed

section \<open>Pulse distance and pulse width\<close>

lemma accumulate_bits:
  assumes "databit_cnt d = length bs" "holds_bits (data d) bs" "length bs div 8 < length (data d)"
  shows "\<exists>xs. accumulate_lsb d b = Some (d\<lparr>data := xs, databit_cnt := length (bs @ [b])\<rparr>) \<and> holds_bits xs (bs @ [b]) \<and> length xs = length (data d)"
proof (intro exI conjI)
  let ?xs = "(data d)[length bs div 8 := (if length bs mod 8 = 0 then 0 else data d ! (length bs div 8)) OR (if b then push_bit (length bs mod 8) 1 else 0)]"
  show "accumulate_lsb d b = Some (d\<lparr>data := ?xs, databit_cnt := length (bs @ [b])\<rparr>)"
    using accumulate_lsb_run [of d b] assms(1,3) by simp
  show "holds_bits ?xs (bs @ [b])" by (rule holds_bits_snoc [OF assms(2,3)])
qed simp

lemma match_self: "0 < x \<Longrightarrow> 0 < delta \<Longrightarrow> MATCH_TIMING x x delta"
  by (simp add: MATCH_TIMING_def)

text \<open>The pulses that carry a bit, and the others.\<close>

definition bit_time :: "InfraredTimings \<Rightarrow> bool \<Rightarrow> bool \<Rightarrow> nat" where
  "bit_time t lev b = (if lev then (if b then bit1_mark t else bit0_mark t) else (if b then bit1_space t else bit0_space t))"

definition distance_coded :: "InfraredTimings \<Rightarrow> bool" where
  "distance_coded t \<longleftrightarrow> bit1_mark t = bit0_mark t"

text \<open>The two times of a bit are told apart, and the other pulse has one time.\<close>

definition separate :: "InfraredTimings \<Rightarrow> bool" where
  "separate t \<longleftrightarrow> 0 < bit_tolerance t \<and>
     (let lev = (\<not> distance_coded t) in
      \<not> MATCH_TIMING (bit_time t lev False) (bit_time t lev True) (bit_tolerance t) \<and>
      0 < bit_time t lev True \<and> 0 < bit_time t lev False \<and>
      0 < bit_time t (\<not> lev) True \<and> bit_time t (\<not> lev) False = bit_time t (\<not> lev) True)"

lemma pdwm_bit:
  fixes spec :: InfraredCommonProtocolSpec and tab :: InfraredCommonProtocolData
  assumes "decode spec = infrared_common_decode_pdwm tab" "separate (spec_timings tab)" "length bs < databit_len spec ! 0"
    and "lev = (\<not> distance_coded (spec_timings tab))"
  shows "decodes spec bs sd lev (bit_time (spec_timings tab) lev b) (bs @ [b]) sd"
  unfolding decodes_def
proof (intro allI impI)
  fix d :: InfraredCommonDecoder
  assume d: "databit_cnt d = length bs" "switch_detect d = sd" "holds_bits (data d) bs" "length (data d) = data_bytes spec + 2"
  have "length bs div 8 \<le> databit_len spec ! 0 div 8" using assms(3) by (intro div_le_mono) simp
  then have "length bs div 8 < length (data d)" using d(4) by (simp add: data_bytes_def)
  from accumulate_bits [OF d(1,3) this, of b] obtain xs where
    x: "accumulate_lsb d b = Some (d\<lparr>data := xs, databit_cnt := length (bs @ [b])\<rparr>)" "holds_bits xs (bs @ [b])" "length xs = length (data d)" by blast
  have s: "d\<lparr>data := xs, databit_cnt := length (bs @ [b]), switch_detect := sd\<rparr> = d\<lparr>data := xs, databit_cnt := length (bs @ [b])\<rparr>"
    using d(2) by simp
  have "decode spec d lev (bit_time (spec_timings tab) lev b) =
      Some (InfraredStatusOk, d\<lparr>data := xs, databit_cnt := length (bs @ [b])\<rparr>)"
    using x(1) assms(1,2,4)
    by (cases b; cases lev)
      (simp_all add: infrared_common_decode_pdwm_def Let_def separate_def bit_time_def distance_coded_def match_self)
  then show "\<exists>xs. decode spec d lev (bit_time (spec_timings tab) lev b) =
      Some (InfraredStatusOk, d\<lparr>data := xs, databit_cnt := length (bs @ [b]), switch_detect := sd\<rparr>) \<and>
      holds_bits xs (bs @ [b]) \<and> length xs = data_bytes spec + 2"
    using x(2,3) d(4) by (intro exI [of _ xs] conjI) (simp_all only: s)
qed

lemma pdwm_filler:
  fixes spec :: InfraredCommonProtocolSpec and tab :: InfraredCommonProtocolData
  assumes "decode spec = infrared_common_decode_pdwm tab" "separate (spec_timings tab)"
    and "lev = distance_coded (spec_timings tab)"
  shows "decodes spec bs sd lev (bit_time (spec_timings tab) lev b) bs sd"
  unfolding decodes_def
proof (intro allI impI)
  fix d :: InfraredCommonDecoder
  assume d: "databit_cnt d = length bs" "switch_detect d = sd" "holds_bits (data d) bs" "length (data d) = data_bytes spec + 2"
  have "d\<lparr>data := data d, databit_cnt := length bs, switch_detect := sd\<rparr> = d" using d(1,2) by simp
  moreover have "decode spec d lev (bit_time (spec_timings tab) lev b) = Some (InfraredStatusOk, d)"
    using assms
    by (cases b; cases lev)
      (simp_all add: infrared_common_decode_pdwm_def Let_def separate_def bit_time_def distance_coded_def match_self)
  ultimately show "\<exists>xs. decode spec d lev (bit_time (spec_timings tab) lev b) =
      Some (InfraredStatusOk, d\<lparr>data := xs, databit_cnt := length bs, switch_detect := sd\<rparr>) \<and> holds_bits xs bs \<and> length xs = data_bytes spec + 2"
    using d(3,4) by metis
qed

text \<open>The pulses of some bits: a mark and a space for each.\<close>

definition bit_pulses :: "InfraredTimings \<Rightarrow> bool list \<Rightarrow> (bool \<times> nat) list" where
  "bit_pulses t bs = concat (map (\<lambda>b. [(True, bit_time t True b), (False, bit_time t False b)]) bs)"

lemma bit_pulses_simps [simp]: "bit_pulses t [] = []"
  "bit_pulses t (b # bs) = (True, bit_time t True b) # (False, bit_time t False b) # bit_pulses t bs"
  "bit_pulses t (as @ bs) = bit_pulses t as @ bit_pulses t bs"
  by (simp_all add: bit_pulses_def)

text \<open>A protocol with pulse distance or width coding.\<close>

definition pdwm_protocol :: "InfraredCommonProtocolSpec \<Rightarrow> InfraredCommonProtocolData \<Rightarrow> bool" where
  "pdwm_protocol spec tab \<longleftrightarrow> decode spec = infrared_common_decode_pdwm tab \<and> encode spec = infrared_common_encode_pdwm tab \<and>
     spec_timings spec = spec_timings tab \<and> separate (spec_timings tab) \<and>
     (bit1_space (spec_timings tab) = bit0_space (spec_timings tab) \<longleftrightarrow> \<not> distance_coded (spec_timings tab)) \<and>
     0 < preamble_mark (spec_timings tab) \<and> 0 < preamble_space (spec_timings tab) \<and> 0 < preamble_tolerance (spec_timings tab) \<and>
     0 < min_split_time (spec_timings tab) \<and> (\<forall>b. bit_time (spec_timings tab) False b \<le> min_split_time (spec_timings tab))"

lemma feed_bits:
  assumes "pdwm_protocol spec tab" "receiving spec bs False sd d" "length (bs @ cs) \<le> databit_len spec ! 0"
    and "distance_coded (spec_timings tab) \<or> length (bs @ cs) < databit_len spec ! 0"
  shows "\<exists>d'. feed spec (bit_pulses (spec_timings tab) cs) d = Some d' \<and> receiving spec (bs @ cs) False sd d'"
  using assms(2-)
proof (induction cs arbitrary: bs d)
  case (Cons c cs)
  let ?t = "spec_timings tab"
  have P: "decode spec = infrared_common_decode_pdwm tab" "separate ?t" "0 < min_split_time (spec_timings spec)"
    "bit_time ?t False c \<le> min_split_time (spec_timings spec)"
    using assms(1) by (auto simp: pdwm_protocol_def)
  have len: "length bs < databit_len spec ! 0" using Cons.prems(2) by simp
  have "\<exists>d'. feed spec [(True, bit_time ?t True c), (False, bit_time ?t False c)] d = Some d' \<and> receiving spec (bs @ [c]) False sd d'"
  proof (cases "distance_coded ?t")
    case True
    have 1: "decodes spec bs sd True (bit_time ?t True c) bs sd" by (rule pdwm_filler [OF P(1,2)]) (simp add: True)
    have 2: "decodes spec bs sd False (bit_time ?t False c) (bs @ [c]) sd" by (rule pdwm_bit [OF P(1,2) len]) (simp add: True)
    from feed_pulse [of spec bs True sd d, OF _ 1 _ P(3)] Cons.prems(1) len obtain m1 d1 where
      d1: "infrared_common_decode spec d True (bit_time ?t True c) = Some (m1, d1)" "receiving spec bs True sd d1" by auto
    from feed_pulse [of spec bs False sd d1, OF _ 2 _ P(3)] d1(2) len P(4) obtain m2 d2 where
      "infrared_common_decode spec d1 False (bit_time ?t False c) = Some (m2, d2)" "receiving spec (bs @ [c]) False sd d2" by auto
    with d1(1) show ?thesis by simp
  next
    case False
    then have len': "length (bs @ [c]) < databit_len spec ! 0" using Cons.prems(3) by simp
    have 1: "decodes spec bs sd True (bit_time ?t True c) (bs @ [c]) sd" by (rule pdwm_bit [OF P(1,2) len]) (simp add: False)
    have 2: "decodes spec (bs @ [c]) sd False (bit_time ?t False c) (bs @ [c]) sd" by (rule pdwm_filler [OF P(1,2)]) (simp add: False)
    from feed_pulse [of spec bs True sd d, OF _ 1 _ P(3)] Cons.prems(1) len obtain m1 d1 where
      d1: "infrared_common_decode spec d True (bit_time ?t True c) = Some (m1, d1)" "receiving spec (bs @ [c]) True sd d1" by auto
    from feed_pulse [of spec "bs @ [c]" False sd d1, OF _ 2 _ P(3)] d1(2) len' P(4) obtain m2 d2 where
      "infrared_common_decode spec d1 False (bit_time ?t False c) = Some (m2, d2)" "receiving spec (bs @ [c]) False sd d2" by auto
    with d1(1) show ?thesis by simp
  qed
  then obtain d1 where d1: "feed spec [(True, bit_time ?t True c), (False, bit_time ?t False c)] d = Some d1" "receiving spec (bs @ [c]) False sd d1" by blast
  from Cons.IH [OF d1(2)] Cons.prems(2,3) obtain d2 where
    "feed spec (bit_pulses ?t cs) d1 = Some d2" "receiving spec ((bs @ [c]) @ cs) False sd d2" by auto
  moreover have "feed spec (bit_pulses ?t (c # cs)) d = feed spec (bit_pulses ?t cs) d1"
  proof -
    have "bit_pulses ?t (c # cs) = [(True, bit_time ?t True c), (False, bit_time ?t False c)] @ bit_pulses ?t cs" by simp
    then show ?thesis by (simp only: hear_append d1(1) bind.bind_lunit)
  qed
  ultimately show ?case by simp
qed simp

text \<open>The stop mark, or the mark of the last bit.\<close>

lemma feed_last_mark:
  assumes "pdwm_protocol spec tab" "receiving spec bs False sd d" "length bs \<le> databit_len spec ! 0"
    and "\<not> distance_coded (spec_timings tab) \<longrightarrow> length bs < databit_len spec ! 0"
  shows "\<exists>d'. feed spec [(True, bit_time (spec_timings tab) True b)] d = Some d' \<and>
    receiving spec (if distance_coded (spec_timings tab) then bs else bs @ [b]) True sd d'"
proof -
  let ?t = "spec_timings tab" and ?bs = "if distance_coded (spec_timings tab) then bs else bs @ [b]"
  have P: "decode spec = infrared_common_decode_pdwm tab" "separate ?t" "0 < min_split_time (spec_timings spec)"
    using assms(1) by (auto simp: pdwm_protocol_def)
  have "decodes spec bs sd True (bit_time ?t True b) ?bs sd"
    using pdwm_filler [OF P(1,2), of True bs sd b] pdwm_bit [OF P(1,2), of bs True sd b] assms(4) by auto
  from feed_pulse [of spec bs True sd d, OF _ this _ P(3)] show ?thesis using assms(2-4) by force
qed

section \<open>The preamble\<close>

definition fresh :: "InfraredCommonProtocolSpec \<Rightarrow> InfraredCommonDecoder \<Rightarrow> bool" where
  "fresh spec d \<longleftrightarrow> data_ok spec d \<and> state d = InfraredCommonDecoderStateWaitPreamble \<and> timings_cnt d = 0 \<and>
     databit_cnt d = 0 \<and> \<not> switch_detect d \<and> msg_protocol (message d) = InfraredProtocolUnknown"

lemma reset_fresh:
  assumes "data_ok spec d" "timings_cnt d \<le> 6"
  shows "\<exists>d'. infrared_common_decoder_reset spec d = Some d' \<and> fresh spec d' \<and> level d' = level d"
proof (cases "preamble_mark (spec_timings spec) = 0 \<and> 0 < timings_cnt d")
  case True
  let ?d = "d\<lparr>state := InfraredCommonDecoderStateWaitPreamble, databit_cnt := 0, switch_detect := False,
     message := (message d)\<lparr>msg_protocol := InfraredProtocolUnknown\<rparr>\<rparr>"
  obtain a where "drop_samples ?d 1 = Some (?d\<lparr>timings := a, timings_cnt := timings_cnt ?d - 1\<rparr>)" "length a = 6"
    using drop_samples [of ?d 1] assms True by (auto simp: data_ok_def)
  then show ?thesis using True assms
    by (simp add: infrared_common_decoder_reset_def infrared_common_decoder_reset_state_def data_ok_def fresh_def)
next
  case False
  then show ?thesis using assms
    by (auto simp: infrared_common_decoder_reset_def infrared_common_decoder_reset_state_def data_ok_def fresh_def Let_def)
qed

text \<open>A decoder that waits for the preamble's mark, or has it.\<close>

definition waiting :: "InfraredCommonProtocolSpec \<Rightarrow> bool \<Rightarrow> InfraredCommonDecoder \<Rightarrow> bool" where
  "waiting spec lev d \<longleftrightarrow> fresh spec d \<and> level d = lev"

lemma fresh_pulse:
  assumes "fresh spec d" "preamble_mark (spec_timings spec) \<noteq> 0"
  shows "\<exists>m d'. infrared_common_decode spec d False t = Some (m, d') \<and> waiting spec False d'"
proof -
  obtain d1 where d1: "(if level d = False then infrared_common_decoder_reset spec d else Some d) = Some d1" "fresh spec d1"
    using reset_fresh [of spec d] assms(1) by (cases "level d") (auto simp: fresh_def)
  have L: "length (timings d1) = 6" "timings_cnt d1 = 0" "state d1 = InfraredCommonDecoderStateWaitPreamble"
    using d1(2) by (auto simp: fresh_def data_ok_def)
  let ?d = "d1\<lparr>level := False, timings := (timings d1)[0 := t], timings_cnt := 1\<rparr>"
  obtain a where a: "drop_samples ?d 1 = Some (?d\<lparr>timings := a, timings_cnt := timings_cnt ?d - 1\<rparr>)" "length a = 6"
    using drop_samples [of ?d 1] L by auto
  have "infrared_check_preamble spec ?d = Some (False, ?d\<lparr>timings := a, timings_cnt := 0\<rparr>)"
    using a(1) assms(2) by (simp add: infrared_check_preamble_def preamble_loop.simps [of "spec_timings spec" False])
  then have "decode_loop spec False ?d = Some (False, ?d\<lparr>timings := a, timings_cnt := 0\<rparr>)"
    using L by (subst decode_loop.simps) simp
  then have "infrared_common_decode spec d False t = Some (None, ?d\<lparr>timings := a, timings_cnt := 0\<rparr>)"
    using L d1(1) by (simp add: infrared_common_decode_def wr_Some)
  moreover have "waiting spec False (?d\<lparr>timings := a, timings_cnt := 0\<rparr>)"
    using d1(2) a(2) by (simp add: waiting_def fresh_def data_ok_def)
  ultimately show ?thesis by blast
qed

lemma preamble_pulses:
  assumes "waiting spec False d" "preamble_matches (spec_timings spec) x y" "preamble_mark (spec_timings spec) \<noteq> 0"
  shows "\<exists>d'. feed spec [(True, x), (False, y)] d = Some d' \<and> receiving spec [] False False d'"
proof -
  have L: "length (timings d) = 6" "timings_cnt d = 0" "state d = InfraredCommonDecoderStateWaitPreamble" "\<not> level d"
    "length (data d) = data_bytes spec + 2"
    using assms(1) by (auto simp: waiting_def fresh_def data_ok_def)
  let ?d = "d\<lparr>level := True, timings := (timings d)[0 := x], timings_cnt := 1\<rparr>"
  have "decode_loop spec False ?d = Some (False, ?d)"
    using L assms(3) by (subst decode_loop.simps) (simp add: infrared_check_preamble_def preamble_loop.simps [of "spec_timings spec" False])
  then have 1: "infrared_common_decode spec d True x = Some (None, ?d)"
    using L by (simp add: infrared_common_decode_def wr_Some)
  let ?e = "?d\<lparr>level := False, timings := (timings ?d)[1 := y], timings_cnt := 2\<rparr>"
  obtain a where a: "drop_samples ?e 2 = Some (?e\<lparr>timings := a, timings_cnt := timings_cnt ?e - 2\<rparr>)" "length a = 6"
    using drop_samples [of ?e 2] L by auto
  let ?f = "?e\<lparr>timings := a, timings_cnt := 0\<rparr>"
  have "preamble_loop (spec_timings spec) True ?f = Some (True, ?f)" by (subst preamble_loop.simps) simp
  then have "infrared_check_preamble spec ?e = Some (True, ?f)"
    using a(1) L assms(2,3) by (simp add: infrared_check_preamble_def preamble_loop.simps [of "spec_timings spec" False] rd_Some)
  moreover have "infrared_common_decode_bits spec (?f\<lparr>state := InfraredCommonDecoderStateDecode, databit_cnt := 0, switch_detect := False\<rparr>)
      = Some (InfraredStatusOk, ?f\<lparr>state := InfraredCommonDecoderStateDecode, databit_cnt := 0, switch_detect := False\<rparr>)"
    by (subst infrared_common_decode_bits.simps) simp
  then have "decode_loop spec False (?f\<lparr>state := InfraredCommonDecoderStateDecode, databit_cnt := 0, switch_detect := False\<rparr>) =
      Some (False, ?f\<lparr>state := InfraredCommonDecoderStateDecode, databit_cnt := 0, switch_detect := False\<rparr>)"
    by (subst decode_loop.simps) simp
  ultimately have "decode_loop spec False ?e = Some (False, ?f\<lparr>state := InfraredCommonDecoderStateDecode, databit_cnt := 0, switch_detect := False\<rparr>)"
    using L by (subst decode_loop.simps) simp
  then have "infrared_common_decode spec ?d False y = Some (None, ?f\<lparr>state := InfraredCommonDecoderStateDecode, databit_cnt := 0, switch_detect := False\<rparr>)"
    using L by (simp add: infrared_common_decode_def wr_Some numeral_2_eq_2)
  moreover have "receiving spec [] False False (?f\<lparr>state := InfraredCommonDecoderStateDecode, databit_cnt := 0, switch_detect := False\<rparr>)"
    using assms(1) a(2) by (simp add: receiving_def waiting_def fresh_def data_ok_def)
  ultimately show ?thesis using 1 by simp
qed

text \<open>A frame: silence, preamble, bits; a stop mark after the bits of a distance code, none after the mark of the last
  bit of a width code.\<close>

definition pdwm_frame :: "InfraredTimings \<Rightarrow> bool list \<Rightarrow> bool \<Rightarrow> (bool \<times> nat) list" where
  "pdwm_frame t bs b = (False, silence_time t) # (True, preamble_mark t) # (False, preamble_space t) # bit_pulses t bs @ [(True, bit_time t True b)]"

lemma feed_frame:
  assumes "pdwm_protocol spec tab" "fresh spec d" "length bs + of_bool (\<not> distance_coded (spec_timings tab)) \<le> databit_len spec ! 0"
  shows "\<exists>d'. feed spec (pdwm_frame (spec_timings tab) bs b) d = Some d' \<and>
    receiving spec (if distance_coded (spec_timings tab) then bs else bs @ [b]) True False d'"
    and "\<exists>d'. feed spec (butlast (pdwm_frame (spec_timings tab) bs b)) d = Some d' \<and> receiving spec bs False False d'"
proof -
  let ?t = "spec_timings tab"
  have P: "spec_timings spec = ?t" "preamble_mark ?t \<noteq> 0" "preamble_matches ?t (preamble_mark ?t) (preamble_space ?t)"
    using assms(1) by (auto simp: pdwm_protocol_def preamble_matches_def match_self)
  from fresh_pulse [OF assms(2), of "silence_time ?t"] P obtain m d1 where d1: "infrared_common_decode spec d False (silence_time ?t) = Some (m, d1)" "waiting spec False d1"
    by auto
  from preamble_pulses [OF d1(2)] P obtain d2 where
    d2: "feed spec [(True, preamble_mark ?t), (False, preamble_space ?t)] d1 = Some d2" "receiving spec [] False False d2" by auto
  have d2': "feed spec ((False, silence_time ?t) # (True, preamble_mark ?t) # (False, preamble_space ?t) # ps) d = feed spec ps d2" for ps
  proof -
    have "feed spec ((False, silence_time ?t) # qs) d = feed spec qs d1" for qs using d1(1) by simp
    moreover have "feed spec ([(True, preamble_mark ?t), (False, preamble_space ?t)] @ ps) d1 = feed spec ps d2"
      by (simp only: hear_append d2(1) bind.bind_lunit)
    ultimately show ?thesis by (simp only: append.simps)
  qed
  from feed_bits [OF assms(1) d2(2), of bs] assms(3) obtain d3 where
    d3: "feed spec (bit_pulses ?t bs) d2 = Some d3" "receiving spec bs False False d3" by (cases "distance_coded ?t") auto
  have "butlast (pdwm_frame ?t bs b) = (False, silence_time ?t) # (True, preamble_mark ?t) # (False, preamble_space ?t) # bit_pulses ?t bs"
    by (simp add: pdwm_frame_def butlast_append)
  then show "\<exists>d'. feed spec (butlast (pdwm_frame ?t bs b)) d = Some d' \<and> receiving spec bs False False d'"
    using d3 by (simp only: d2') simp
  have f: "feed spec (pdwm_frame ?t bs b) d = feed spec [(True, bit_time ?t True b)] d3"
    by (simp only: pdwm_frame_def d2' hear_append d3(1) bind.bind_lunit)
  from feed_last_mark [OF assms(1) d3(2), of b] assms(3) show "\<exists>d'. feed spec (pdwm_frame ?t bs b) d = Some d' \<and>
      receiving spec (if distance_coded ?t then bs else bs @ [b]) True False d'"
    unfolding f by (cases "distance_coded ?t") auto
qed

section \<open>What the encoder sends\<close>

text \<open>The pulses up to the one that ends the message.\<close>

partial_function (option) emission ::
  "('e \<Rightarrow> (InfraredStatus \<times> nat \<times> bool \<times> 'e) option) \<Rightarrow> 'e \<Rightarrow> ((bool \<times> nat) list \<times> 'e) option" where
  "emission step e = do {
     (status, t, lev, e) \<leftarrow> step e;
     if status = InfraredStatusDone then Some ([(lev, t)], e)
     else do {
       furi_assert (status = InfraredStatusOk);
       (ps, e) \<leftarrow> emission step e;
       Some ((lev, t) # ps, e) } }"

definition sends :: "('e \<Rightarrow> (InfraredStatus \<times> nat \<times> bool \<times> 'e) option) \<Rightarrow> 'e \<Rightarrow> (bool \<times> nat) list \<Rightarrow> bool" where
  "sends step e ps \<longleftrightarrow> (\<exists>e'. emission step e = Some (ps, e'))"

lemma sends_last: "step e = Some (InfraredStatusDone, t, lev, e') \<Longrightarrow> sends step e [(lev, t)]"
  by (simp add: sends_def emission.simps [of step e])

lemma sends_step: "step e = Some (InfraredStatusOk, t, lev, e') \<Longrightarrow> sends step e' ps \<Longrightarrow> sends step e ((lev, t) # ps)"
  by (auto simp: sends_def emission.simps [of step e])

text \<open>An encoder at the next pulse of bit \<open>k\<close>.\<close>

definition sending :: "u8 list \<Rightarrow> nat \<Rightarrow> nat \<Rightarrow> bool \<Rightarrow> InfraredCommonEncoder \<Rightarrow> bool" where
  "sending xs n k lev e \<longleftrightarrow> enc_state e = InfraredCommonEncoderStateEncode \<and> enc_data e = xs \<and> bits_to_encode e = n \<and>
     bits_encoded e = k \<and> odd (timings_encoded e) = lev"

lemma logic_value_run: "bits_encoded e div 8 < length (enc_data e) \<Longrightarrow> logic_value e = Some (lsb_bit (enc_data e) (bits_encoded e))"
  by (simp add: logic_value_def rd_Some lsb_bit_def bit_iff_and_push_bit_not_eq_0)

lemma pdwm_step:
  assumes "pdwm_protocol spec tab" "sending xs n k lev e" "k div 8 < length xs"
  shows "let k' = (if lev = distance_coded (spec_timings tab) then k else k + 1) in
    (\<not> (lev \<and> k' = n) \<longrightarrow> (\<exists>e'. infrared_common_encode spec e = Some (InfraredStatusOk, bit_time (spec_timings tab) lev (lsb_bit xs k), lev, e') \<and>
       sending xs n k' (\<not> lev) e')) \<and>
    (lev \<and> k' = n \<longrightarrow> (\<exists>e'. infrared_common_encode spec e = Some (InfraredStatusDone, bit_time (spec_timings tab) lev (lsb_bit xs k), lev, e')))"
proof -
  have "logic_value e = Some (lsb_bit xs k)" using assms(2,3) logic_value_run [of e] by (simp add: sending_def)
  then show ?thesis using assms(1,2)
    by (auto simp: sending_def pdwm_protocol_def infrared_common_encode_def encode_state_encode_def infrared_common_encode_bits_def
        infrared_common_encode_pdwm_def Let_def bit_time_def)
qed

text \<open>The encode functions of the protocols are the common one, with another end of the message for SIRC and Pioneer.\<close>

definition follows :: "(InfraredCommonEncoder \<Rightarrow> (InfraredStatus \<times> nat \<times> bool \<times> InfraredCommonEncoder) option) \<Rightarrow> InfraredCommonProtocolSpec \<Rightarrow> bool" where
  "follows step spec \<longleftrightarrow> (\<forall>e t lev e'. infrared_common_encode spec e = Some (InfraredStatusOk, t, lev, e') \<longrightarrow>
       bits_encoded e' \<noteq> bits_to_encode e' \<longrightarrow> step e = Some (InfraredStatusOk, t, lev, e')) \<and>
     (\<forall>e t lev e'. infrared_common_encode spec e = Some (InfraredStatusDone, t, lev, e') \<longrightarrow> step e = Some (InfraredStatusDone, t, lev, e'))"

lemma follows_common: "follows (infrared_common_encode spec) spec"
  by (simp add: follows_def)

lemma follows_sirc: "follows infrared_encoder_sirc_encode infrared_protocol_sirc"
  by (simp add: follows_def infrared_encoder_sirc_encode_def)

lemma follows_pioneer: "follows infrared_encoder_pioneer_encode infrared_protocol_pioneer"
  by (simp add: follows_def infrared_encoder_pioneer_encode_def)

definition loaded :: "u8 list \<Rightarrow> nat \<Rightarrow> InfraredCommonEncoder \<Rightarrow> bool" where
  "loaded xs n e \<longleftrightarrow> enc_state e = InfraredCommonEncoderStateSilence \<and> enc_data e = xs \<and> bits_to_encode e = n \<and>
     bits_encoded e = 0 \<and> timings_encoded e = 0 \<and> 0 < n \<and> n div 8 < length xs"

lemma sends_preamble:
  assumes "follows step spec" "loaded xs n e" "preamble_mark (spec_timings spec) \<noteq> 0"
    and "\<And>e'. sending xs n 0 True e' \<Longrightarrow> sends step e' ps"
  shows "sends step e ((False, silence_time (spec_timings spec)) # (True, preamble_mark (spec_timings spec)) # (False, preamble_space (spec_timings spec)) # ps)"
proof -
  let ?t = "spec_timings spec"
  let ?e1 = "e\<lparr>enc_state := InfraredCommonEncoderStatePreamble, timings_encoded := 1, timings_sum := 0\<rparr>"
  let ?e2 = "?e1\<lparr>timings_encoded := 2, timings_sum := preamble_mark ?t\<rparr>"
  let ?e3 = "?e2\<lparr>enc_state := InfraredCommonEncoderStateEncode, timings_encoded := 3, timings_sum := preamble_mark ?t + preamble_space ?t\<rparr>"
  have step: "step a = Some (InfraredStatusOk, t, lev, b)"
    if "infrared_common_encode spec a = Some (InfraredStatusOk, t, lev, b)" "bits_encoded b \<noteq> bits_to_encode b" for a t lev b
    using assms(1) that by (simp add: follows_def)
  have "infrared_common_encode spec e = Some (InfraredStatusOk, silence_time ?t, False, ?e1)"
    using assms(2) by (simp add: infrared_common_encode_def loaded_def)
  moreover have "infrared_common_encode spec ?e1 = Some (InfraredStatusOk, preamble_mark ?t, True, ?e2)"
    using assms(3) by (simp add: infrared_common_encode_def Let_def numeral_2_eq_2)
  moreover have "infrared_common_encode spec ?e2 = Some (InfraredStatusOk, preamble_space ?t, False, ?e3)"
    using assms(3) by (simp add: infrared_common_encode_def Let_def)
  moreover have "sending xs n 0 True ?e3" using assms(2) by (simp add: loaded_def sending_def)
  ultimately show ?thesis using assms(2) by (intro sends_step) (auto intro!: step assms(4) simp: loaded_def)
qed

lemma sends_distance:
  assumes "pdwm_protocol spec tab" "distance_coded (spec_timings tab)" "n div 8 < length xs" "sending xs n k True e" "k \<le> n"
  shows "sends (infrared_common_encode spec) e (bit_pulses (spec_timings tab) (map (lsb_bit xs) [k..<n]) @ [(True, bit_time (spec_timings tab) True b)])"
  using assms(4,5)
proof (induction "n - k" arbitrary: k e)
  case 0
  then have [simp]: "k = n" by simp
  have "bit_time (spec_timings tab) True (lsb_bit xs n) = bit_time (spec_timings tab) True b"
    using assms(2) by (simp add: bit_time_def distance_coded_def)
  with pdwm_step [OF assms(1) 0(2)] assms(2,3) show ?case by (auto simp: Let_def intro: sends_last)
next
  case (Suc m)
  then have k: "k < n" "m = n - Suc k" by auto
  then have "k div 8 \<le> n div 8" by (intro div_le_mono) simp
  with assms(3) have l: "k div 8 < length xs" by simp
  let ?t = "spec_timings tab"
  from pdwm_step [OF assms(1) Suc(3) l] k(1) assms(2) obtain e1 where
    1: "infrared_common_encode spec e = Some (InfraredStatusOk, bit_time ?t True (lsb_bit xs k), True, e1)" "sending xs n k False e1"
    by (auto simp: Let_def)
  from pdwm_step [OF assms(1) 1(2) l] assms(2) obtain e2 where
    2: "infrared_common_encode spec e1 = Some (InfraredStatusOk, bit_time ?t False (lsb_bit xs k), False, e2)" "sending xs n (Suc k) True e2"
    by (auto simp: Let_def)
  from Suc.hyps(1) [OF k(2) 2(2)] k(1) show ?case
    using sends_step [where step = "infrared_common_encode spec", OF 1(1) sends_step [where step = "infrared_common_encode spec", OF 2(1)]]
    by (simp add: upt_conv_Cons)
qed

lemma sends_width:
  assumes "pdwm_protocol spec tab" "\<not> distance_coded (spec_timings tab)" "follows step spec" "n div 8 < length xs" "sending xs n k True e" "k < n"
  shows "sends step e (bit_pulses (spec_timings tab) (map (lsb_bit xs) [k..<n - 1]) @ [(True, bit_time (spec_timings tab) True (lsb_bit xs (n - 1)))])"
  using assms(5,6)
proof (induction "n - k" arbitrary: k e)
  case (Suc m)
  let ?t = "spec_timings tab"
  have l: "j div 8 < length xs" if "j \<le> n" for j using div_le_mono [OF that, of 8] assms(4) by simp
  have step: "step a = Some (InfraredStatusOk, t, lev, b)"
    if "infrared_common_encode spec a = Some (InfraredStatusOk, t, lev, b)" "sending xs n j lv b" "j \<noteq> n" for a t lev b j lv
    using assms(3) that by (simp add: follows_def sending_def)
  show ?case
  proof (cases "Suc k = n")
    case True
    from pdwm_step [OF assms(1) Suc(3) l] True assms(2) obtain e1 where
      "infrared_common_encode spec e = Some (InfraredStatusDone, bit_time ?t True (lsb_bit xs k), True, e1)" by (auto simp: Let_def)
    then have "step e = Some (InfraredStatusDone, bit_time ?t True (lsb_bit xs k), True, e1)" using assms(3) by (simp add: follows_def)
    then show ?thesis using True by (auto intro!: sends_last)
  next
    case False
    then have k: "k < n - 1" "m = n - Suc k" "Suc k < n" using Suc by auto
    from pdwm_step [OF assms(1) Suc(3) l] False Suc(4) assms(2) obtain e1 where
      1: "infrared_common_encode spec e = Some (InfraredStatusOk, bit_time ?t True (lsb_bit xs k), True, e1)" "sending xs n (Suc k) False e1"
      by (auto simp: Let_def)
    from pdwm_step [OF assms(1) 1(2) l] k(3) assms(2) obtain e2 where
      2: "infrared_common_encode spec e1 = Some (InfraredStatusOk, bit_time ?t False (lsb_bit xs (Suc k)), False, e2)" "sending xs n (Suc k) True e2"
      by (auto simp: Let_def)
    have "bit_time ?t False (lsb_bit xs (Suc k)) = bit_time ?t False (lsb_bit xs k)"
      using assms(1,2) by (simp add: bit_time_def pdwm_protocol_def)
    with Suc.hyps(1) [OF k(2) 2(2) k(3)] step [OF 1] step [OF 2] k show ?thesis
      by (simp add: upt_conv_Cons sends_step)
  qed
qed simp

lemma sends_pioneer:
  assumes "pdwm_protocol infrared_protocol_pioneer pioneer_data" "distance_coded (spec_timings pioneer_data)" "n div 8 < length xs"
    "sending xs n k True e" "k < n"
  shows "sends infrared_encoder_pioneer_encode e (bit_pulses (spec_timings pioneer_data) (map (lsb_bit xs) [k..<n]))"
  using assms(4,5)
proof (induction "n - k" arbitrary: k e)
  case (Suc m)
  let ?t = "spec_timings pioneer_data" and ?spec = infrared_protocol_pioneer
  have "k div 8 \<le> n div 8" using Suc(4) by (intro div_le_mono) simp
  with assms(3) have l: "k div 8 < length xs" by simp
  have step: "infrared_encoder_pioneer_encode a = Some (if j = n then InfraredStatusDone else InfraredStatusOk, t, lev, if j = n then b\<lparr>enc_state := InfraredCommonEncoderStateEncodeRepeat\<rparr> else b)"
    if "infrared_common_encode ?spec a = Some (InfraredStatusOk, t, lev, b)" "sending xs n j lv b" "j = n \<longrightarrow> \<not> lev" for a t lev b j lv
    using that by (simp add: infrared_encoder_pioneer_encode_def sending_def)
  from pdwm_step [OF assms(1) Suc(3) l] Suc(4) assms(2) obtain e1 where
    1: "infrared_common_encode ?spec e = Some (InfraredStatusOk, bit_time ?t True (lsb_bit xs k), True, e1)" "sending xs n k False e1"
    by (auto simp: Let_def)
  from pdwm_step [OF assms(1) 1(2) l] assms(2) obtain e2 where
    2: "infrared_common_encode ?spec e1 = Some (InfraredStatusOk, bit_time ?t False (lsb_bit xs k), False, e2)" "sending xs n (Suc k) True e2"
    by (auto simp: Let_def)
  from step [OF 1] Suc(4) have s1: "infrared_encoder_pioneer_encode e = Some (InfraredStatusOk, bit_time ?t True (lsb_bit xs k), True, e1)" by simp
  note s = sends_step [where step = infrared_encoder_pioneer_encode]
  show ?case
  proof (cases "Suc k = n")
    case True
    from step [OF 2] True show ?thesis by (auto intro!: s [OF s1] sends_last)
  next
    case False
    then have k: "m = n - Suc k" "Suc k < n" using Suc by auto
    from step [OF 2] False have s2: "infrared_encoder_pioneer_encode e1 = Some (InfraredStatusOk, bit_time ?t False (lsb_bit xs k), False, e2)" by simp
    from Suc.hyps(1) [OF k(1) 2(2) k(2)] k show ?thesis by (simp add: upt_conv_Cons s [OF s1 s [OF s2]])
  qed
qed simp

text \<open>The whole frame.\<close>

lemma sends_frame:
  assumes "pdwm_protocol spec tab" "loaded xs n e"
  shows "distance_coded (spec_timings tab) \<Longrightarrow> sends (infrared_common_encode spec) e (pdwm_frame (spec_timings tab) (map (lsb_bit xs) [0..<n]) b)"
    and "\<not> distance_coded (spec_timings tab) \<Longrightarrow> follows step spec \<Longrightarrow>
      sends step e (pdwm_frame (spec_timings tab) (map (lsb_bit xs) [0..<n - 1]) (lsb_bit xs (n - 1)))"
    and "spec = infrared_protocol_pioneer \<Longrightarrow> tab = pioneer_data \<Longrightarrow>
      sends infrared_encoder_pioneer_encode e (butlast (pdwm_frame (spec_timings tab) (map (lsb_bit xs) [0..<n]) b))"
proof -
  let ?t = "spec_timings tab"
  have P: "spec_timings spec = ?t" "preamble_mark ?t \<noteq> 0" "n div 8 < length xs" "0 < n" using assms by (auto simp: pdwm_protocol_def loaded_def)
  note head = sends_preamble [OF _ assms(2), of _ spec, unfolded P(1), OF _ P(2)]
  show "sends (infrared_common_encode spec) e (pdwm_frame ?t (map (lsb_bit xs) [0..<n]) b)" if d: "distance_coded ?t"
    unfolding pdwm_frame_def by (rule head [OF follows_common]) (rule sends_distance [OF assms(1) d P(3)], simp_all)
  show "sends step e (pdwm_frame ?t (map (lsb_bit xs) [0..<n - 1]) (lsb_bit xs (n - 1)))" if d: "\<not> distance_coded ?t" "follows step spec"
    unfolding pdwm_frame_def by (rule head [OF d(2)]) (rule sends_width [OF assms(1) d P(3)], use P(4) in simp_all)
  show "sends infrared_encoder_pioneer_encode e (butlast (pdwm_frame ?t (map (lsb_bit xs) [0..<n]) b))"
    if [simp]: "spec = infrared_protocol_pioneer" "tab = pioneer_data"
  proof -
    have "distance_coded ?t" by (simp add: distance_coded_def infrared_tables)
    then have "sends infrared_encoder_pioneer_encode e ((False, silence_time ?t) # (True, preamble_mark ?t) # (False, preamble_space ?t) #
        bit_pulses ?t (map (lsb_bit xs) [0..<n]))"
      using head [of infrared_encoder_pioneer_encode] follows_pioneer sends_pioneer [OF _ _ P(3)] assms(1) P(4) by auto
    then show ?thesis by (simp add: pdwm_frame_def butlast_append)
  qed
qed

end
