(* ===== verification/InfraredMessages.thy ===== *)
theory InfraredMessages
  imports InfraredPulseCode
begin

text \<open>
  The data of each protocol: the bytes that an encoder makes of a message are read back by the decoder's
  interpretation, bit by bit (\<open>encodes_from\<close>, one lemma per protocol).
\<close>

section \<open>Words in bytes\<close>

lemma bit_load_u32:
  assumes "off + 4 \<le> length xs"
  obtains w where "load_u32 xs off = Some w" "\<And>k. bit w k \<longleftrightarrow> k < 32 \<and> lsb_bit xs (8 * off + k)"
proof
  show "load_u32 xs off = Some (of_le_bytes (seg off 4 xs))" using assms by (simp add: load_u32_def)
  show "bit (of_le_bytes (seg off 4 xs) :: u32) k \<longleftrightarrow> k < 32 \<and> lsb_bit xs (8 * off + k)" for k
    using assms by (auto simp: bit_of_le_bytes seg_def lsb_bit_def)
qed

lemma bit_load_u16:
  assumes "off + 2 \<le> length xs"
  obtains w where "load_u16 xs off = Some w" "\<And>k. bit w k \<longleftrightarrow> k < 16 \<and> lsb_bit xs (8 * off + k)"
proof
  show "load_u16 xs off = Some (of_le_bytes (seg off 2 xs))" using assms by (simp add: load_u16_def)
  show "bit (of_le_bytes (seg off 2 xs) :: u16) k \<longleftrightarrow> k < 16 \<and> lsb_bit xs (8 * off + k)" for k
    using assms by (auto simp: bit_of_le_bytes seg_def lsb_bit_def)
qed

lemma lsb_bit_byte: "k < 8 \<Longrightarrow> lsb_bit xs (8 * j + k) = bit (xs ! j) k"
  by (simp add: lsb_bit_def)

lemma byte_eqI: "(\<And>k. k < 8 \<Longrightarrow> lsb_bit xs (8 * j + k) = lsb_bit ys (8 * j + k)) \<Longrightarrow> xs ! j = ys ! j"
  by (rule bit_word_eqI) (simp add: lsb_bit_byte)

lemma bit_bounded: "unat (w :: 'a::len word) < 2 ^ n \<Longrightarrow> bit w k \<Longrightarrow> k < n"
proof (rule ccontr)
  assume *: "unat w < 2 ^ n" "bit w k" "\<not> k < n"
  then have "unat w < 2 ^ k" by (meson le_less_trans not_less order_less_le_trans power_increasing one_le_numeral)
  then have "unat w div 2 ^ k = 0" by simp
  then have "unat (drop_bit k w) = 0" by (subst unat_drop_bit_eq) (simp only: drop_bit_eq_div)
  then have "drop_bit k w = 0" by (simp only: unat_0_iff)
  with *(2) show False by (simp add: bit_iff_odd_drop_bit)
qed

lemma word_masks:
  "(0x3 :: 'a::len word) = mask 2" "(0x7 :: 'a word) = mask 3" "(0xF :: 'a word) = mask 4" "(0x1F :: 'a word) = mask 5" "(0x3F :: 'a word) = mask 6" "(0x7F :: 'a word) = mask 7"
  "(0xFF :: 'a word) = mask 8" "(0x1FFF :: 'a word) = mask 13" "(0xFFFF :: 'a word) = mask 16" "(0x3FFFFFF :: 'a word) = mask 26"
  "(0xC0 :: 'a word) = push_bit 6 (mask 2)" "(0xFFC0 :: 'a word) = push_bit 6 (mask 10)"
  by (simp_all add: mask_eq_exp_minus_1 push_bit_eq_mult)

section \<open>The data of each protocol\<close>

text \<open>The decoder of \<open>spec\<close> reads the message \<open>m\<close> in any data with the first \<open>n\<close> bits of \<open>xs\<close>.\<close>

definition reads :: "InfraredCommonProtocolSpec \<Rightarrow> nat \<Rightarrow> u8 list \<Rightarrow> InfraredMessage \<Rightarrow> bool" where
  "reads spec n xs m \<longleftrightarrow> (\<forall>d. length (data d) = data_bytes spec + 2 \<longrightarrow> databit_cnt d = n \<longrightarrow> msg_protocol (message d) = InfraredProtocolUnknown \<longrightarrow>
     (\<forall>k < n. lsb_bit (data d) k = lsb_bit xs k) \<longrightarrow>
     (\<exists>d'. interpret_data spec d = Some (True, d') \<and> message d' = m\<lparr>repeat := False\<rparr>))"

text \<open>The encoder takes the message into such data, which start with the bits \<open>pre\<close>.\<close>

definition encodes_from :: "bool list \<Rightarrow> (InfraredCommonEncoder \<Rightarrow> InfraredMessage \<Rightarrow> InfraredCommonEncoder option) \<Rightarrow>
    InfraredCommonProtocolSpec \<Rightarrow> nat \<Rightarrow> InfraredMessage \<Rightarrow> bool" where
  "encodes_from pre reset spec n m \<longleftrightarrow> (\<forall>e. length (enc_data e) = data_bytes spec + 36 \<longrightarrow>
     (\<exists>e' xs. reset e m = Some e' \<and> loaded xs n e' \<and> reads spec n xs m \<and> (\<forall>k < length pre. lsb_bit xs k = pre ! k)))"

abbreviation encodes where "encodes \<equiv> encodes_from []"

lemma encoder_reset_run:
  assumes "length (enc_data e) = data_bytes spec + 36" "fold max (databit_len spec) 0 = databit_len spec ! 0"
  shows "\<exists>xs. infrared_common_encoder_reset spec e = Some (e\<lparr>timings_encoded := 0, timings_sum := 0, bits_encoded := 0,
      enc_state := InfraredCommonEncoderStateSilence, enc_switch_detect := False, enc_data := xs\<rparr>) \<and> length xs = data_bytes spec + 36 \<and>
      (\<forall>k < 8 * data_bytes spec. \<not> lsb_bit xs k)"
proof -
  let ?n = "data_bytes spec"
  let ?xs = "replicate ?n 0 @ drop ?n (enc_data e)"
  have m: "memcpy (enc_data e) 0 (replicate ?n 0) 0 ?n = Some ?xs"
    using assms(1) by (simp add: memcpy_def)
  have "\<not> lsb_bit ?xs k" if "k < 8 * ?n" for k
  proof -
    have "k div 8 < ?n" using that by (simp add: div_less_iff_less_mult mult.commute)
    then show ?thesis by (simp add: lsb_bit_def nth_append)
  qed
  moreover have "infrared_common_encoder_reset spec e = do { bytes \<leftarrow> memcpy (enc_data e) 0 (replicate ?n 0) 0 ?n;
      Some (e\<lparr>timings_encoded := 0, timings_sum := 0, bits_encoded := 0, enc_state := InfraredCommonEncoderStateSilence,
        enc_switch_detect := False, enc_data := bytes\<rparr>) }"
    by (simp only: infrared_common_encoder_reset_def Let_def assms(2) data_bytes_def)
  ultimately show ?thesis using assms(1) by (intro exI [of _ ?xs]) (simp add: m)
qed

lemma store_run:
  assumes "off + 4 \<le> length xs"
  obtains ys where "store_u32 xs off w = Some ys" "length ys = length xs"
    "\<And>k. k < 8 * length xs \<Longrightarrow> lsb_bit ys k = (if 8 * off \<le> k \<and> k < 8 * off + 32 then bit w (k - 8 * off) else lsb_bit xs k)"
proof
  show s: "store_u32 xs off w = Some (overwrite off (le_bytes 4 w) xs)" using assms by (simp add: store_u32_def)
  show "length (overwrite off (le_bytes 4 w) xs) = length xs" using lsb_bit_store(2) [OF s] .
  show "lsb_bit (overwrite off (le_bytes 4 w) xs) k = (if 8 * off \<le> k \<and> k < 8 * off + 32 then bit w (k - 8 * off) else lsb_bit xs k)"
    if "k < 8 * length xs" for k
    using lsb_bit_store(1) [OF s, of k] that by (simp add: div_less_iff_less_mult mult.commute)
qed

lemma bit_byte: "bit (xs ! j :: u8) k \<longleftrightarrow> k < 8 \<and> lsb_bit xs (8 * j + k)"
  using lsb_bit_byte [of k xs j] bit_imp_le_length [of "xs ! j" k] by auto

lemma bit_high: "8 \<le> k \<Longrightarrow> \<not> bit (b :: u8) k" "16 \<le> k \<Longrightarrow> \<not> bit (h :: u16) k" "32 \<le> k \<Longrightarrow> \<not> bit (w :: u32) k"
  using bit_imp_le_length [of b k] bit_imp_le_length [of h k] bit_imp_le_length [of w k] by auto

text \<open>An encoder that stores one or two words.\<close>

lemma encodes_from_word:
  assumes tab: "data_bytes tab = data_bytes spec" "fold max (databit_len tab) 0 = databit_len tab ! 0"
    and reset: "\<And>e. reset e m = do { e \<leftarrow> infrared_common_encoder_reset tab e; f e }"
    and f: "\<And>e. length (enc_data e) = data_bytes spec + 36 \<Longrightarrow> (\<forall>k < 8 * data_bytes spec. \<not> lsb_bit (enc_data e) k) \<Longrightarrow>
      \<exists>xs. f e = Some (e\<lparr>enc_data := xs, bits_to_encode := n, toggle_bit := g e\<rparr>) \<and> length xs = length (enc_data e) \<and> reads spec n xs m \<and> (\<forall>k < length pre. lsb_bit xs k = pre ! k)"
    and n: "0 < n" "n div 8 < data_bytes spec + 36"
  shows "encodes_from pre reset spec n m"
  unfolding encodes_from_def
proof (intro allI impI)
  fix e :: InfraredCommonEncoder
  assume e: "length (enc_data e) = data_bytes spec + 36"
  from encoder_reset_run [of e tab] e tab obtain xs where
    x: "infrared_common_encoder_reset tab e = Some (e\<lparr>timings_encoded := 0, timings_sum := 0, bits_encoded := 0,
      enc_state := InfraredCommonEncoderStateSilence, enc_switch_detect := False, enc_data := xs\<rparr>)"
      "length xs = data_bytes spec + 36" "\<forall>k < 8 * data_bytes spec. \<not> lsb_bit xs k" by auto
  from f [of "e\<lparr>timings_encoded := 0, timings_sum := 0, bits_encoded := 0,
      enc_state := InfraredCommonEncoderStateSilence, enc_switch_detect := False, enc_data := xs\<rparr>"] x(2,3) obtain ys where
    "f (e\<lparr>timings_encoded := 0, timings_sum := 0, bits_encoded := 0, enc_state := InfraredCommonEncoderStateSilence, enc_switch_detect := False, enc_data := xs\<rparr>)
      = Some (e\<lparr>timings_encoded := 0, timings_sum := 0, bits_encoded := 0, enc_state := InfraredCommonEncoderStateSilence, enc_switch_detect := False,
          enc_data := ys, bits_to_encode := n, toggle_bit := g (e\<lparr>timings_encoded := 0, timings_sum := 0, bits_encoded := 0,
      enc_state := InfraredCommonEncoderStateSilence, enc_switch_detect := False, enc_data := xs\<rparr>)\<rparr>)" "length ys = length xs" "reads spec n ys m" "\<forall>k < length pre. lsb_bit ys k = pre ! k" by auto
  then show "\<exists>e' xs. reset e m = Some e' \<and> loaded xs n e' \<and> reads spec n xs m \<and> (\<forall>k < length pre. lsb_bit xs k = pre ! k)"
    using x(1,2) n by (auto simp: reset loaded_def)
qed

lemmas encodes_word = encodes_from_word [where pre = "[]", simplified]

lemma encodes_store:
  assumes tab: "data_bytes tab = data_bytes spec" "fold max (databit_len tab) 0 = databit_len tab ! 0"
    and reset: "\<And>e. reset e m = do { e \<leftarrow> infrared_common_encoder_reset tab e;
      bytes \<leftarrow> store_u32 (enc_data e) 0 v; Some (e\<lparr>enc_data := bytes, bits_to_encode := n\<rparr>) }"
    and read: "\<And>d. length (data d) = data_bytes spec + 2 \<Longrightarrow> databit_cnt d = n \<Longrightarrow> \<forall>k < n. lsb_bit (data d) k = bit v k \<Longrightarrow>
      \<exists>d'. interpret_data spec d = Some (True, d') \<and> message d' = m\<lparr>repeat := False\<rparr>"
    and n: "0 < n" "n \<le> 32"
  shows "encodes reset spec n m"
proof (rule encodes_word [where g = toggle_bit, OF tab, where f = "\<lambda>e. do { bytes \<leftarrow> store_u32 (enc_data e) 0 v; Some (e\<lparr>enc_data := bytes, bits_to_encode := n\<rparr>) }"])
  show "reset e m = do { e \<leftarrow> infrared_common_encoder_reset tab e;
      bytes \<leftarrow> store_u32 (enc_data e) 0 v; Some (e\<lparr>enc_data := bytes, bits_to_encode := n\<rparr>) }" for e by (rule reset)
  fix e :: InfraredCommonEncoder assume "length (enc_data e) = data_bytes spec + 36"
  then have e: "0 + 4 \<le> length (enc_data e)" by simp
  from store_run [OF e, of v] obtain xs where x: "store_u32 (enc_data e) 0 v = Some xs" "length xs = length (enc_data e)"
    "\<And>k. k < 8 * length (enc_data e) \<Longrightarrow> lsb_bit xs k = (if 8 * 0 \<le> k \<and> k < 8 * 0 + 32 then bit v (k - 8 * 0) else lsb_bit (enc_data e) k)" by blast
  have "lsb_bit xs k = bit v k" if "k < n" for k using x(3) [of k] n e that by simp
  then have "reads spec n xs m" unfolding reads_def using read by simp
  then show "\<exists>xs. do { bytes \<leftarrow> store_u32 (enc_data e) 0 v; Some (e\<lparr>enc_data := bytes, bits_to_encode := n\<rparr>) } =
      Some (e\<lparr>enc_data := xs, bits_to_encode := n, toggle_bit := toggle_bit e\<rparr>) \<and> length xs = length (enc_data e) \<and> reads spec n xs m"
    using x(1,2) by (intro exI [of _ xs]) simp
qed (use n in \<open>simp_all add: div_less_iff_less_mult\<close>)

lemma word_below_eqI:
  assumes "unat (w :: 'a::len word) < 2 ^ n" "\<And>k. k < n \<Longrightarrow> k < LENGTH('a) \<Longrightarrow> bit v k = bit w k" "\<And>k. n \<le> k \<Longrightarrow> k < LENGTH('a) \<Longrightarrow> \<not> bit v k"
  shows "v = w"
proof (rule bit_word_eqI)
  show "bit v k = bit w k" if "k < LENGTH('a)" for k
    using assms(2,3) [of k] bit_bounded [OF assms(1), of k] that by (cases "k < n") auto
qed

lemmas word_bits = bit_byte bit_simps bit_high

lemma nec_encodes:
  assumes "msg_protocol m = InfraredProtocolNEC" "unat (address m) < 2 ^ 8" "unat (command m) < 2 ^ 8"
  shows "encodes infrared_encoder_nec_reset infrared_protocol_nec 32 m"
proof (rule encodes_store [where tab = nec_data])
  let ?a = "ucast (address m) :: u8" and ?c = "ucast (command m) :: u8"
  let ?v = "ucast ?a OR push_bit 8 (ucast (NOT ?a)) OR push_bit 16 (ucast ?c) OR push_bit 24 (ucast (NOT ?c)) :: u32"
  show "infrared_encoder_nec_reset e m = do { e \<leftarrow> infrared_common_encoder_reset nec_data e;
      bytes \<leftarrow> store_u32 (enc_data e) 0 ?v; Some (e\<lparr>enc_data := bytes, bits_to_encode := 32\<rparr>) }" for e
    using assms(1) by (simp add: infrared_encoder_nec_reset_def Let_def)
  fix d :: InfraredCommonDecoder
  assume d: "length (data d) = data_bytes infrared_protocol_nec + 2" "databit_cnt d = 32" "\<forall>k<32. lsb_bit (data d) k = bit ?v k"
  have "data d ! 2 = NOT (data d ! 3)" "data d ! 0 = NOT (data d ! 1)"
    by (rule bit_word_eqI, simp add: d(3) word_bits)+
  moreover have "ucast (data d ! 0) = address m" "ucast (data d ! 2) = command m"
    by (rule word_below_eqI [OF assms(2)] word_below_eqI [OF assms(3)]; auto simp add: d(3) word_bits)+
  ultimately show "\<exists>d'. interpret_data infrared_protocol_nec d = Some (True, d') \<and> message d' = m\<lparr>repeat := False\<rparr>"
    using d(1,2) assms(1) by (simp add: infrared_decoder_nec_interpret_def rd_Some set_message_def)
qed (simp_all add: nec_data_def data_bytes_def)

lemma necext_encodes:
  assumes "msg_protocol m = InfraredProtocolNECext" "unat (address m) < 2 ^ 16" "unat (command m) < 2 ^ 16"
    and "\<not> ((ucast (command m) :: u8) = NOT (ucast (drop_bit 8 (command m))) \<and> (ucast (address m) :: u8) = NOT (ucast (drop_bit 8 (address m))))"
  shows "encodes infrared_encoder_nec_reset infrared_protocol_nec 32 m"
proof (rule encodes_store [where tab = nec_data])
  let ?v = "ucast (ucast (address m) :: u16) OR push_bit 16 (command m AND 0xFFFF) :: u32"
  show "infrared_encoder_nec_reset e m = do { e \<leftarrow> infrared_common_encoder_reset nec_data e;
      bytes \<leftarrow> store_u32 (enc_data e) 0 ?v; Some (e\<lparr>enc_data := bytes, bits_to_encode := 32\<rparr>) }" for e
    using assms(1) by (simp add: infrared_encoder_nec_reset_def Let_def)
  fix d :: InfraredCommonDecoder
  assume d: "length (data d) = data_bytes infrared_protocol_nec + 2" "databit_cnt d = 32" "\<forall>k<32. lsb_bit (data d) k = bit ?v k"
  have bytes: "data d ! 0 = ucast (address m)" "data d ! 1 = ucast (drop_bit 8 (address m))" "data d ! 2 = ucast (command m)" "data d ! 3 = ucast (drop_bit 8 (command m))"
    by (rule bit_word_eqI, simp add: d(3) word_bits word_masks)+
  moreover have "ucast (data d ! 0) OR push_bit 8 (ucast (data d ! 1)) = address m" "ucast (data d ! 2) OR push_bit 8 (ucast (data d ! 3)) = command m"
    by (rule word_below_eqI [OF assms(2)] word_below_eqI [OF assms(3)]; auto simp add: d(3) word_bits word_masks)+
  ultimately show "\<exists>d'. interpret_data infrared_protocol_nec d = Some (True, d') \<and> message d' = m\<lparr>repeat := False\<rparr>"
    using d(1,2) assms(1,4) by (auto simp add: infrared_decoder_nec_interpret_def rd_Some set_message_def)
qed (simp_all add: nec_data_def data_bytes_def)

lemma samsung32_encodes:
  assumes "msg_protocol m = InfraredProtocolSamsung32" "unat (address m) < 2 ^ 8" "unat (command m) < 2 ^ 8"
  shows "encodes infrared_encoder_samsung32_reset infrared_protocol_samsung32 32 m"
proof (rule encodes_word [where tab = samsung32_data and g = toggle_bit])
  let ?a = "ucast (address m) :: u8" and ?c = "ucast (command m) :: u8"
  let ?v = "\<lambda>x. x OR ucast ?a OR push_bit 8 (ucast ?a) OR push_bit 16 (ucast ?c) OR push_bit 24 (ucast (NOT ?c)) :: u32"
  let ?f = "\<lambda>e. do { x \<leftarrow> load_u32 (enc_data e) 0; bytes \<leftarrow> store_u32 (enc_data e) 0 (?v x); Some (e\<lparr>enc_data := bytes, bits_to_encode := 32\<rparr>) }"
  show "infrared_encoder_samsung32_reset e m = do { e \<leftarrow> infrared_common_encoder_reset samsung32_data e; ?f e }" for e
    by (simp add: infrared_encoder_samsung32_reset_def Let_def samsung32_data_def)
  fix e :: InfraredCommonEncoder
  assume e: "length (enc_data e) = data_bytes infrared_protocol_samsung32 + 36" "\<forall>k<8 * data_bytes infrared_protocol_samsung32. \<not> lsb_bit (enc_data e) k"
  then have l: "0 + 4 \<le> length (enc_data e)" by simp
  from bit_load_u32 [OF l] obtain x where x: "load_u32 (enc_data e) 0 = Some x" "\<And>k. bit x k = (k < 32 \<and> lsb_bit (enc_data e) (8 * 0 + k))" by blast
  have [simp]: "x = 0" by (rule bit_word_eqI) (use e(2) in \<open>simp add: x(2)\<close>)
  from store_run [OF l, of "?v x"] obtain xs where xs: "store_u32 (enc_data e) 0 (?v x) = Some xs" "length xs = length (enc_data e)"
    "\<And>k. k < 8 * length (enc_data e) \<Longrightarrow> lsb_bit xs k = (if 8 * 0 \<le> k \<and> k < 8 * 0 + 32 then bit (?v x) (k - 8 * 0) else lsb_bit (enc_data e) k)" by blast
  have "reads infrared_protocol_samsung32 32 xs m"
    unfolding reads_def
  proof (intro allI impI)
    fix d :: InfraredCommonDecoder
    assume d: "length (data d) = data_bytes infrared_protocol_samsung32 + 2" "databit_cnt d = 32" "\<forall>k<32. lsb_bit (data d) k = lsb_bit xs k"
    have b: "lsb_bit (data d) k = bit (?v 0) k" if "k < 32" for k using d(3) xs(3) [of k] e(1) that by simp
    have "data d ! 0 = data d ! 1" "data d ! 2 = NOT (data d ! 3)" by (rule bit_word_eqI, simp add: b word_bits)+
    moreover have "ucast (data d ! 0) = address m" "ucast (data d ! 2) = command m"
      by (rule word_below_eqI [OF assms(2)] word_below_eqI [OF assms(3)]; auto simp add: b word_bits)+
    ultimately show "\<exists>d'. interpret_data infrared_protocol_samsung32 d = Some (True, d') \<and> message d' = m\<lparr>repeat := False\<rparr>"
      using d(1,2) assms(1) by (simp add: infrared_decoder_samsung32_interpret_def rd_Some set_message_def)
  qed
  with xs(1,2) show "\<exists>xs. ?f e = Some (e\<lparr>enc_data := xs, bits_to_encode := 32, toggle_bit := toggle_bit e\<rparr>) \<and>
      length xs = length (enc_data e) \<and> reads infrared_protocol_samsung32 32 xs m"
    by (intro exI [of _ xs]) (simp add: x(1))
qed (simp_all add: samsung32_data_def data_bytes_def)

lemma sirc_encodes:
  assumes "(msg_protocol m, n, k) \<in> {(InfraredProtocolSIRC, 12, 5), (InfraredProtocolSIRC15, 15, 8), (InfraredProtocolSIRC20, 20, 13)}"
    and "unat (address m) < 2 ^ k" "unat (command m) < 2 ^ 7"
  shows "encodes infrared_encoder_sirc_reset infrared_protocol_sirc n m"
proof (rule encodes_store [where tab = sirc_data])
  let ?v = "command m AND 0x7F OR push_bit 7 (address m AND mask k) :: u32"
  have n: "n = k + 7" "k \<le> 13" using assms(1) by auto
  show "infrared_encoder_sirc_reset e m = do { e \<leftarrow> infrared_common_encoder_reset sirc_data e;
      bytes \<leftarrow> store_u32 (enc_data e) 0 ?v; Some (e\<lparr>enc_data := bytes, bits_to_encode := n\<rparr>) }" for e
    using assms(1) by (auto simp: infrared_encoder_sirc_reset_def word_masks)
  fix d :: InfraredCommonDecoder
  assume d: "length (data d) = data_bytes infrared_protocol_sirc + 2" "databit_cnt d = n" "\<forall>k<n. lsb_bit (data d) k = bit ?v k"
  then have "0 + 4 \<le> length (data d)" by simp
  from bit_load_u32 [OF this] obtain w where w: "load_u32 (data d) 0 = Some w" "\<And>k. bit w k = (k < 32 \<and> lsb_bit (data d) (8 * 0 + k))" by blast
  have "w AND mask 7 = command m"
    by (rule word_below_eqI [OF assms(3)]; use n in \<open>simp add: w(2) d(3) word_bits word_masks\<close>)
  moreover have "drop_bit 7 w AND mask k = address m"
    by (rule word_below_eqI [OF assms(2)]; use n in \<open>simp add: w(2) d(3) word_bits word_masks\<close>)
  ultimately show "\<exists>d'. interpret_data infrared_protocol_sirc d = Some (True, d') \<and> message d' = m\<lparr>repeat := False\<rparr>"
    using d(2) assms(1) by (auto simp: infrared_decoder_sirc_interpret_def w(1) set_message_def word_masks)
qed (use assms(1) in \<open>auto simp: sirc_data_def data_bytes_def\<close>)

lemma rca_encodes:
  assumes "msg_protocol m = InfraredProtocolRCA" "unat (address m) < 2 ^ 4" "unat (command m) < 2 ^ 8"
  shows "encodes infrared_encoder_rca_reset infrared_protocol_rca 24 m"
proof (rule encodes_store [where tab = rca_data])
  let ?a = "ucast (address m) :: u8" and ?c = "ucast (command m) :: u8"
  let ?v = "ucast (?a AND 0xF) OR push_bit 4 (ucast ?c) OR push_bit 12 (ucast (NOT ?a AND 0xF)) OR push_bit 16 (ucast (NOT ?c)) :: u32"
  show "infrared_encoder_rca_reset e m = do { e \<leftarrow> infrared_common_encoder_reset rca_data e;
      bytes \<leftarrow> store_u32 (enc_data e) 0 ?v; Some (e\<lparr>enc_data := bytes, bits_to_encode := 24\<rparr>) }" for e
    by (simp add: infrared_encoder_rca_reset_def Let_def rca_data_def)
  fix d :: InfraredCommonDecoder
  assume d: "length (data d) = data_bytes infrared_protocol_rca + 2" "databit_cnt d = 24" "\<forall>k<24. lsb_bit (data d) k = bit ?v k"
  then have "0 + 4 \<le> length (data d)" by simp
  from bit_load_u32 [OF this] obtain w where w: "load_u32 (data d) 0 = Some w" "\<And>k. bit w k = (k < 32 \<and> lsb_bit (data d) (8 * 0 + k))" by blast
  have "(ucast (drop_bit 4 w AND 0xFF) :: u8) = NOT (ucast (drop_bit 16 w AND 0xFF))" "(ucast (w AND 0xF) :: u8) = NOT (ucast (drop_bit 12 w AND 0xF)) AND 0xF"
    by (rule bit_word_eqI, auto simp add: w(2) d(3) word_bits word_masks)+
  moreover have "ucast (ucast (w AND 0xF) :: u8) = address m" "ucast (ucast (drop_bit 4 w AND 0xFF) :: u8) = command m"
    by (rule word_below_eqI [OF assms(2)] word_below_eqI [OF assms(3)]; auto simp add: w(2) d(3) word_bits word_masks)+
  ultimately show "\<exists>d'. interpret_data infrared_protocol_rca d = Some (True, d') \<and> message d' = m\<lparr>repeat := False\<rparr>"
    using d(2) assms(1) by (simp add: infrared_decoder_rca_interpret_def w(1) set_message_def)
qed (auto simp: rca_data_def data_bytes_def)

lemma store_pair:
  assumes "8 \<le> length xs"
  obtains ys zs where "store_u32 xs 0 v = Some ys" "store_u32 ys 4 w = Some zs" "length zs = length xs"
    "\<And>k. k < 64 \<Longrightarrow> lsb_bit zs k = (if k < 32 then bit v k else bit w (k - 32))"
proof -
  have "0 + 4 \<le> length xs" using assms by simp
  from store_run [OF this, of v] obtain ys where y: "store_u32 xs 0 v = Some ys" "length ys = length xs"
    "\<And>k. k < 8 * length xs \<Longrightarrow> lsb_bit ys k = (if 8 * 0 \<le> k \<and> k < 8 * 0 + 32 then bit v (k - 8 * 0) else lsb_bit xs k)" by blast
  have "4 + 4 \<le> length ys" using assms y(2) by simp
  from store_run [OF this, of w] obtain zs where z: "store_u32 ys 4 w = Some zs" "length zs = length ys"
    "\<And>k. k < 8 * length ys \<Longrightarrow> lsb_bit zs k = (if 8 * 4 \<le> k \<and> k < 8 * 4 + 32 then bit w (k - 8 * 4) else lsb_bit ys k)" by blast
  have "lsb_bit zs k = (if k < 32 then bit v k else bit w (k - 32))" if "k < 64" for k
    using y(2,3) z(3) [of k] assms that by simp
  then show thesis using that y(1,2) z(1,2) by simp
qed

lemma nec42_word_encodes:
  assumes reset: "\<And>e. infrared_encoder_nec_reset e m = do { e \<leftarrow> infrared_common_encoder_reset nec_data e;
      bytes \<leftarrow> store_u32 (enc_data e) 0 v; bytes \<leftarrow> store_u32 bytes 4 w; Some (e\<lparr>enc_data := bytes, bits_to_encode := 42\<rparr>) }"
    and read: "\<And>d x y. load_u32 (data d) 0 = Some x \<Longrightarrow> load_u16 (data d) 4 = Some y \<Longrightarrow> databit_cnt d = 42 \<Longrightarrow>
      x = v \<Longrightarrow> (\<And>k. k < 10 \<Longrightarrow> bit y k = bit w k) \<Longrightarrow>
      \<exists>d'. infrared_decoder_nec_interpret d = Some (True, d') \<and> message d' = m\<lparr>repeat := False\<rparr>"
  shows "encodes infrared_encoder_nec_reset infrared_protocol_nec 42 m"
proof (rule encodes_word [where tab = nec_data and g = toggle_bit and f = "\<lambda>e. do { bytes \<leftarrow> store_u32 (enc_data e) 0 v; bytes \<leftarrow> store_u32 bytes 4 w; Some (e\<lparr>enc_data := bytes, bits_to_encode := 42\<rparr>) }"])
  fix e :: InfraredCommonEncoder
  assume e: "length (enc_data e) = data_bytes infrared_protocol_nec + 36"
  then have l: "8 \<le> length (enc_data e)" by simp
  from store_pair [OF l, of v w] obtain ys zs where z: "store_u32 (enc_data e) 0 v = Some ys" "store_u32 ys 4 w = Some zs" "length zs = length (enc_data e)"
    "\<And>k. k < 64 \<Longrightarrow> lsb_bit zs k = (if k < 32 then bit v k else bit w (k - 32))" by blast
  have "reads infrared_protocol_nec 42 zs m"
    unfolding reads_def
  proof (intro allI impI)
    fix d :: InfraredCommonDecoder
    assume d: "length (data d) = data_bytes infrared_protocol_nec + 2" "databit_cnt d = 42" "\<forall>k<42. lsb_bit (data d) k = lsb_bit zs k"
    then have l: "0 + 4 \<le> length (data d)" "4 + 2 \<le> length (data d)" by auto
    from bit_load_u32 [OF l(1)] obtain x where x: "load_u32 (data d) 0 = Some x" "\<And>k. bit x k = (k < 32 \<and> lsb_bit (data d) (8 * 0 + k))" by blast
    from bit_load_u16 [OF l(2)] obtain y where y: "load_u16 (data d) 4 = Some y" "\<And>k. bit y k = (k < 16 \<and> lsb_bit (data d) (8 * 4 + k))" by blast
    have "x = v" by (rule bit_word_eqI) (simp add: x(2) d(3) z(4))
    moreover have "bit y k = bit w k" if "k < 10" for k using that by (simp add: y(2) d(3) z(4))
    ultimately show "\<exists>d'. interpret_data infrared_protocol_nec d = Some (True, d') \<and> message d' = m\<lparr>repeat := False\<rparr>"
      using read [OF x(1) y(1) d(2)] by simp
  qed
  with z(1-3) show "\<exists>xs. do { bytes \<leftarrow> store_u32 (enc_data e) 0 v; bytes \<leftarrow> store_u32 bytes 4 w; Some (e\<lparr>enc_data := bytes, bits_to_encode := 42\<rparr>) } =
      Some (e\<lparr>enc_data := xs, bits_to_encode := 42, toggle_bit := toggle_bit e\<rparr>) \<and> length xs = length (enc_data e) \<and> reads infrared_protocol_nec 42 xs m"
    by (intro exI [of _ zs]) simp
qed (simp_all add: reset nec_data_def data_bytes_def)

lemma nec42_encodes:
  assumes "msg_protocol m = InfraredProtocolNEC42" "unat (address m) < 2 ^ 13" "unat (command m) < 2 ^ 8"
  shows "encodes infrared_encoder_nec_reset infrared_protocol_nec 42 m"
proof (rule nec42_word_encodes)
  let ?v = "address m AND 0x1FFF OR push_bit 13 (NOT (address m) AND 0x1FFF) OR push_bit 26 (command m AND 0x3F)"
  let ?w = "drop_bit 6 (command m AND 0xC0) OR push_bit 2 (NOT (command m) AND 0xFF)"
  show "infrared_encoder_nec_reset e m = do { e \<leftarrow> infrared_common_encoder_reset nec_data e;
      bytes \<leftarrow> store_u32 (enc_data e) 0 ?v; bytes \<leftarrow> store_u32 bytes 4 ?w; Some (e\<lparr>enc_data := bytes, bits_to_encode := 42\<rparr>) }" for e
    using assms(1) by (simp add: infrared_encoder_nec_reset_def Let_def)
  fix d :: InfraredCommonDecoder and x y assume d: "load_u32 (data d) 0 = Some x" "load_u16 (data d) 4 = Some y" "databit_cnt d = 42"
    and x: "x = ?v" and y: "\<And>k. k < 10 \<Longrightarrow> bit y k = bit ?w k"
  let ?a = "ucast (x AND 0x1FFF) :: u16" and ?a' = "ucast (drop_bit 13 x AND 0x1FFF) :: u16"
  let ?c = "ucast (drop_bit 26 x AND 0x3F) OR push_bit 6 (y AND 0x3) :: u16" and ?c' = "drop_bit 2 y AND 0xFF :: u16"
  have "?a = NOT ?a' AND 0x1FFF" "?c = NOT ?c' AND 0xFF"
    by (rule bit_word_eqI, auto simp add: x y word_bits word_masks)+
  moreover have "ucast ?a = address m" "ucast ?c = command m"
    by (rule word_below_eqI [OF assms(2)] word_below_eqI [OF assms(3)]; auto simp add: x y word_bits word_masks)+
  ultimately show "\<exists>d'. infrared_decoder_nec_interpret d = Some (True, d') \<and> message d' = m\<lparr>repeat := False\<rparr>"
    using d assms(1) by (simp add: infrared_decoder_nec_interpret_def set_message_def Let_def)
qed

lemma nec42ext_encodes:
  assumes "msg_protocol m = InfraredProtocolNEC42ext" "unat (address m) < 2 ^ 26" "unat (command m) < 2 ^ 16"
    and "\<not> (address m AND 0x1FFF = NOT (drop_bit 13 (address m)) AND 0x1FFF \<and> command m AND 0xFF = NOT (drop_bit 8 (command m)) AND 0xFF)"
  shows "encodes infrared_encoder_nec_reset infrared_protocol_nec 42 m"
proof (rule nec42_word_encodes)
  let ?v = "address m AND 0x3FFFFFF OR push_bit 26 (command m AND 0x3F)"
  let ?w = "drop_bit 6 (command m AND 0xFFC0)"
  show "infrared_encoder_nec_reset e m = do { e \<leftarrow> infrared_common_encoder_reset nec_data e;
      bytes \<leftarrow> store_u32 (enc_data e) 0 ?v; bytes \<leftarrow> store_u32 bytes 4 ?w; Some (e\<lparr>enc_data := bytes, bits_to_encode := 42\<rparr>) }" for e
    using assms(1) by (simp add: infrared_encoder_nec_reset_def Let_def)
  fix d :: InfraredCommonDecoder and x y assume d: "load_u32 (data d) 0 = Some x" "load_u16 (data d) 4 = Some y" "databit_cnt d = 42"
    and x: "x = ?v" and y: "\<And>k. k < 10 \<Longrightarrow> bit y k = bit ?w k"
  let ?a = "ucast (x AND 0x1FFF) :: u16" and ?a' = "ucast (drop_bit 13 x AND 0x1FFF) :: u16"
  let ?c = "ucast (drop_bit 26 x AND 0x3F) OR push_bit 6 (y AND 0x3) :: u16" and ?c' = "drop_bit 2 y AND 0xFF :: u16"
  have "?a = ucast (address m AND 0x1FFF)" "?a' = ucast (drop_bit 13 (address m) AND 0x1FFF)"
     "?c' = ucast (drop_bit 8 (command m) AND 0xFF)"
    by (rule bit_word_eqI, auto simp add: x y word_bits word_masks)+
  moreover have "bit ?c k = bit (ucast (command m AND 0xFF) :: u16) k" for k
    by (cases "k < 6") (auto simp add: x y word_bits word_masks)
  then have "?c = ucast (command m AND 0xFF)" by (rule bit_word_eqI)
  ultimately have p: "?a = ucast (address m AND 0x1FFF)" "?a' = ucast (drop_bit 13 (address m) AND 0x1FFF)"
     "?c = ucast (command m AND 0xFF)" "?c' = ucast (drop_bit 8 (command m) AND 0xFF)" by blast+
  have inv: "(ucast (a AND mask n) :: u16) = NOT (ucast (b AND mask n)) AND mask n \<longleftrightarrow> a AND mask n = NOT b AND mask n"
    if "n \<le> 16" for a b :: u32 and n
  proof -
    have "(ucast (a AND mask n) :: u16) = NOT (ucast (b AND mask n)) AND mask n \<longleftrightarrow> (\<forall>k < n. bit a k = (\<not> bit b k))"
      unfolding bit_eq_iff using that by (simp add: word_bits) (meson less_le_trans)
    moreover have "n \<le> 32" using that by simp
    then have "a AND mask n = NOT b AND mask n \<longleftrightarrow> (\<forall>k < n. bit a k = (\<not> bit b k))"
      unfolding bit_eq_iff by (simp add: word_bits) (meson less_le_trans)
    ultimately show ?thesis by blast
  qed
  have "\<not> (?a = NOT ?a' AND 0x1FFF \<and> ?c = NOT ?c' AND 0xFF)"
    using assms(4) inv [of 13 "address m" "drop_bit 13 (address m)"] inv [of 8 "command m" "drop_bit 8 (command m)"]
    unfolding p by (simp add: word_masks)
  moreover have "ucast ?a OR push_bit 13 (ucast ?a') = address m" "ucast ?c OR push_bit 8 (ucast ?c') = command m"
    unfolding p by (rule word_below_eqI [OF assms(2)] word_below_eqI [OF assms(3)]; auto simp add: word_bits word_masks)+
  ultimately show "\<exists>d'. infrared_decoder_nec_interpret d = Some (True, d') \<and> message d' = m\<lparr>repeat := False\<rparr>"
    using d assms(1) by (auto simp: infrared_decoder_nec_interpret_def set_message_def Let_def)
qed

text \<open>The encoders that store single bytes.\<close>

lemma pioneer_encodes:
  assumes "msg_protocol m = InfraredProtocolPioneer" "unat (address m) < 2 ^ 8" "unat (command m) < 2 ^ 8"
  shows "encodes infrared_encoder_pioneer_reset infrared_protocol_pioneer 33 m"
proof (rule encodes_word [where tab = pioneer_data and g = toggle_bit])
  let ?b = "[ucast (address m AND 0xFF), ucast (NOT (address m AND 0xFF)), ucast (command m AND 0xFF), ucast (NOT (command m AND 0xFF)), 0] :: u8 list"
  let ?f = "\<lambda>e. do { bytes \<leftarrow> wr (enc_data e) 0 (?b ! 0); bytes \<leftarrow> wr bytes 1 (?b ! 1); bytes \<leftarrow> wr bytes 2 (?b ! 2); bytes \<leftarrow> wr bytes 3 (?b ! 3);
     bytes \<leftarrow> wr bytes 4 (?b ! 4); Some (e\<lparr>enc_data := bytes, bits_to_encode := 33\<rparr>) }"
  show "infrared_encoder_pioneer_reset e m = do { e \<leftarrow> infrared_common_encoder_reset pioneer_data e; ?f e }" for e
    using assms(1) by (simp add: infrared_encoder_pioneer_reset_def pioneer_data_def)
  fix e :: InfraredCommonEncoder
  assume e: "length (enc_data e) = data_bytes infrared_protocol_pioneer + 36"
  define xs where "xs = (enc_data e)[0 := ?b ! 0, 1 := ?b ! 1, 2 := ?b ! 2, 3 := ?b ! 3, 4 := ?b ! 4]"
  have f: "?f e = Some (e\<lparr>enc_data := xs, bits_to_encode := 33\<rparr>)" "length xs = length (enc_data e)" using e by (simp_all add: wr_Some xs_def)
  have xs: "xs ! 0 = ?b ! 0" "xs ! 1 = ?b ! 1" "xs ! 2 = ?b ! 2" "xs ! 3 = ?b ! 3" using e by (simp_all add: xs_def)
  have "reads infrared_protocol_pioneer 33 xs m"
    unfolding reads_def
  proof (intro allI impI)
    fix d :: InfraredCommonDecoder
    assume d: "length (data d) = data_bytes infrared_protocol_pioneer + 2" "databit_cnt d = 33" "\<forall>k<33. lsb_bit (data d) k = lsb_bit xs k"
    then have "0 + 4 \<le> length (data d)" by simp
    from bit_load_u32 [OF this] obtain w where w: "load_u32 (data d) 0 = Some w" "\<And>k. bit w k = (k < 32 \<and> lsb_bit (data d) (8 * 0 + k))" by blast
    have b: "bit w (8 * j + k) = bit (xs ! j) k" if "j < 4" "k < 8" for j k
    proof -
      have "8 * j + k < 32" using that by simp
      then have "lsb_bit (data d) (8 * j + k) = lsb_bit xs (8 * j + k)" using d(3) by force
      then show ?thesis using that by (simp add: w(2) lsb_bit_byte)
    qed
    have "(ucast (drop_bit (8 * j) w AND 0xFF) :: u8) = xs ! j" if "j < 4" for j
      by (rule bit_word_eqI) (simp add: b [OF that] bit_ucast_iff bit_and_iff bit_mask_iff bit_drop_bit_eq word_masks)
    from this [of 0] this [of 1] this [of 2] this [of 3] have bytes: "(ucast (w AND 0xFF) :: u8) = ?b ! 0"
      "(ucast (drop_bit 8 w AND 0xFF) :: u8) = ?b ! 1" "(ucast (drop_bit 16 w AND 0xFF) :: u8) = ?b ! 2" "(ucast (drop_bit 24 w AND 0xFF) :: u8) = ?b ! 3"
      unfolding xs by simp_all
    have "?b ! 1 = NOT (?b ! 0)" "?b ! 3 = NOT (?b ! 2)" by (simp_all, (rule bit_word_eqI, simp add: word_bits word_masks)+)
    moreover have "ucast (?b ! 0) = address m" "ucast (?b ! 2) = command m"
      by (rule word_below_eqI [OF assms(2)] word_below_eqI [OF assms(3)]; simp add: word_bits word_masks)+
    ultimately show "\<exists>d'. interpret_data infrared_protocol_pioneer d = Some (True, d') \<and> message d' = m\<lparr>repeat := False\<rparr>"
      using d(2) assms(1) w(1) bytes by (simp add: infrared_decoder_pioneer_interpret_def set_message_def pioneer_data_def Let_def)
  qed
  with f e show "\<exists>xs. ?f e = Some (e\<lparr>enc_data := xs, bits_to_encode := 33, toggle_bit := toggle_bit e\<rparr>) \<and>
      length xs = length (enc_data e) \<and> reads infrared_protocol_pioneer 33 xs m"
    by (intro exI [of _ xs] conjI) (simp only: f(1), simp_all)
qed (simp_all add: pioneer_data_def data_bytes_def)

lemma kaseikyo_address:
  fixes a :: u32
  assumes "unat a < 2 ^ 26"
  shows "push_bit 24 (ucast (ucast (drop_bit 24 a AND 3) :: u8)) OR push_bit 8 (ucast (ucast (drop_bit 8 a AND 0xffff) :: u16)) OR
    push_bit 4 (ucast (ucast (drop_bit 4 a AND 0xf) :: u8)) OR ucast (ucast (a AND 0xf) :: u8) = a"
    (is "?v = a")
proof (rule word_below_eqI [OF assms])
  fix k :: nat assume k: "k < 26"
  consider "k < 4" | "4 \<le> k" "k < 8" | "8 \<le> k" "k < 24" | "24 \<le> k" by linarith
  then show "bit ?v k = bit a k" by cases (use k in \<open>auto simp: word_bits word_masks\<close>)
next
  fix k :: nat assume "26 \<le> k" "k < LENGTH(32)"
  then show "\<not> bit ?v k" by (auto simp: word_bits word_masks)
qed

lemma kaseikyo_interpret:
  assumes "length (data d) = 8" "msg_protocol m = InfraredProtocolKaseikyo"
    and "data d ! 2 AND 0x0f = (data d ! 0 XOR data d ! 1) AND 0xf XOR drop_bit 4 (data d ! 0 XOR data d ! 1)"
    and "data d ! 5 = data d ! 2 XOR data d ! 3 XOR data d ! 4"
    and "push_bit 24 (ucast (drop_bit 6 (data d ! 4))) OR push_bit 8 (ucast (push_bit 8 (ucast (data d ! 1)) OR ucast (data d ! 0) :: u16)) OR
        push_bit 4 (ucast (drop_bit 4 (data d ! 2))) OR ucast (data d ! 3 AND 0x0f) = address m"
    and "ucast (ucast (drop_bit 4 (data d ! 3)) OR push_bit 4 (ucast (data d ! 4 AND 0x3f)) :: u16) = command m"
  shows "\<exists>d'. infrared_decoder_kaseikyo_interpret d = Some (True, d') \<and> message d' = m\<lparr>repeat := False\<rparr>"
  using assms by (simp add: infrared_decoder_kaseikyo_interpret_def rd_Some set_message_def Let_def)

lemma kaseikyo_encodes:
  assumes "msg_protocol m = InfraredProtocolKaseikyo" "unat (address m) < 2 ^ 26" "unat (command m) < 2 ^ 10"
  shows "encodes infrared_encoder_kaseikyo_reset infrared_protocol_kaseikyo 48 m"
proof (rule encodes_word [where tab = kaseikyo_data and g = toggle_bit])
  let ?vendor = "ucast (drop_bit 8 (address m) AND 0xffff) :: u16" and ?cmd = "ucast (command m) :: u16"
  let ?g1 = "ucast (drop_bit 4 (address m) AND 0xf) :: u8" and ?g2 = "ucast (address m AND 0xf) :: u8"
  let ?d0 = "ucast (?vendor AND 0xff) :: u8" and ?d1 = "ucast (drop_bit 8 ?vendor) :: u8" and ?i = "ucast (drop_bit 24 (address m) AND 3) :: u8"
  let ?p = "(?d0 XOR ?d1) AND 0xf XOR drop_bit 4 (?d0 XOR ?d1)"
  let ?d2 = "?p AND 0xf OR push_bit 4 ?g1" and ?d3 = "?g2 AND 0xf OR push_bit 4 (ucast (?cmd AND 0xf))" and ?d4 = "push_bit 6 ?i OR ucast (drop_bit 4 ?cmd)"
  let ?f = "\<lambda>e. do { bytes \<leftarrow> wr (enc_data e) 0 ?d0; bytes \<leftarrow> wr bytes 1 ?d1; bytes \<leftarrow> wr bytes 2 ?d2; bytes \<leftarrow> wr bytes 3 ?d3;
     bytes \<leftarrow> wr bytes 4 ?d4; bytes \<leftarrow> wr bytes 5 (?d2 XOR ?d3 XOR ?d4); Some (e\<lparr>enc_data := bytes, bits_to_encode := 48\<rparr>) }"
  show "infrared_encoder_kaseikyo_reset e m = do { e \<leftarrow> infrared_common_encoder_reset kaseikyo_data e; ?f e }" for e
    by (simp add: infrared_encoder_kaseikyo_reset_def kaseikyo_data_def Let_def)
  fix e :: InfraredCommonEncoder
  assume e: "length (enc_data e) = data_bytes infrared_protocol_kaseikyo + 36"
  define xs where "xs = (enc_data e)[0 := ?d0, 1 := ?d1, 2 := ?d2, 3 := ?d3, 4 := ?d4, 5 := ?d2 XOR ?d3 XOR ?d4]"
  have f: "?f e = Some (e\<lparr>enc_data := xs, bits_to_encode := 48\<rparr>)" "length xs = length (enc_data e)" using e by (simp_all add: wr_Some xs_def)
  have xs: "xs ! 0 = ?d0" "xs ! 1 = ?d1" "xs ! 2 = ?d2" "xs ! 3 = ?d3" "xs ! 4 = ?d4" "xs ! 5 = ?d2 XOR ?d3 XOR ?d4" using e by (simp_all add: xs_def)
  have "reads infrared_protocol_kaseikyo 48 xs m"
    unfolding reads_def
  proof (intro allI impI)
    fix d :: InfraredCommonDecoder
    assume d: "length (data d) = data_bytes infrared_protocol_kaseikyo + 2" "databit_cnt d = 48" "\<forall>k<48. lsb_bit (data d) k = lsb_bit xs k"
    have "data d ! j = xs ! j" if "j < 6" for j
    proof (rule byte_eqI)
      fix k :: nat assume "k < 8"
      with that have "8 * j + k < 48" by simp
      then show "lsb_bit (data d) (8 * j + k) = lsb_bit xs (8 * j + k)" using d(3) by blast
    qed
    from this [of 0] this [of 1] this [of 2] this [of 3] this [of 4] this [of 5] have bytes: "data d ! 0 = ?d0" "data d ! 1 = ?d1" "data d ! 2 = ?d2"
      "data d ! 3 = ?d3" "data d ! 4 = ?d4" "data d ! 5 = ?d2 XOR ?d3 XOR ?d4" unfolding xs by simp_all
    have low: "(x AND 0xf XOR drop_bit 4 x) AND 0xf = x AND 0xf XOR drop_bit 4 x" for x :: u8
      by (rule bit_word_eqI) (auto simp: word_bits word_masks dest: bit_imp_le_length)
    have "(?p AND 0xf OR push_bit 4 ?g1) AND 0xf = ?p AND 0xf"
      by (rule bit_word_eqI) (auto simp: word_bits word_masks)
    from trans [OF this low] have p: "?d2 AND 0x0f = ?p" .
    have i: "drop_bit 6 ?d4 = ?i"
      by (rule bit_word_eqI) (auto simp: word_bits word_masks dest: bit_bounded [OF assms(3)])
    have g1: "drop_bit 4 (x AND 0xf OR push_bit 4 ?g1) = ?g1" for x :: u8
      by (rule bit_word_eqI) (auto simp: word_bits word_masks)
    have g2: "?d3 AND 0x0f = ?g2"
      by (rule bit_word_eqI) (auto simp: word_bits word_masks)
    have v: "push_bit 8 (ucast ?d1) OR ucast ?d0 = ?vendor"
      by (rule bit_word_eqI) (auto simp: word_bits word_masks)
    have "push_bit 24 (ucast ?i) OR push_bit 8 (ucast ?vendor) OR push_bit 4 (ucast ?g1) OR ucast ?g2 = address m"
      by (rule kaseikyo_address [OF assms(2)])
    then have a: "push_bit 24 (ucast (drop_bit 6 ?d4)) OR push_bit 8 (ucast (push_bit 8 (ucast ?d1) OR ucast ?d0 :: u16)) OR
        push_bit 4 (ucast (drop_bit 4 ?d2)) OR ucast (?d3 AND 0x0f) = address m"
      unfolding i g1 g2 v .
    have c: "ucast (ucast (drop_bit 4 ?d3) OR push_bit 4 (ucast (?d4 AND 0x3f)) :: u16) = command m"
      by (rule word_below_eqI [OF assms(3)]) (auto simp: word_bits word_masks)
    have "length (data d) = 8" using d(1) by simp
    from kaseikyo_interpret [OF this assms(1), unfolded bytes, OF p refl a c]
    show "\<exists>d'. interpret_data infrared_protocol_kaseikyo d = Some (True, d') \<and> message d' = m\<lparr>repeat := False\<rparr>" by simp
  qed
  with f e show "\<exists>xs. ?f e = Some (e\<lparr>enc_data := xs, bits_to_encode := 48, toggle_bit := toggle_bit e\<rparr>) \<and>
      length xs = length (enc_data e) \<and> reads infrared_protocol_kaseikyo 48 xs m"
    by (intro exI [of _ xs] conjI) (simp only: f(1), simp_all)
qed (simp_all add: kaseikyo_data_def data_bytes_def)

section \<open>The data of RC5 and RC6\<close>

lemma bit_fold_OR: "bit (fold (\<lambda>i w. w OR f i) is w) k \<longleftrightarrow> bit (w :: 'a::len word) k \<or> (\<exists>i\<in>set is. bit (f i) k)"
  by (induction "is" arbitrary: w) (auto simp: bit_or_iff)

lemma bit_reverse: "bit (reverse b) k \<longleftrightarrow> k < 8 \<and> bit b (7 - k)"
proof -
  have "bit (reverse b) k \<longleftrightarrow> (\<exists>i < 8. bit (if b AND push_bit i 1 \<noteq> 0 then push_bit (7 - i) 1 else 0 :: u8) k)"
    by (auto simp: reverse_def bit_fold_OR)
  also have "\<dots> \<longleftrightarrow> (\<exists>i < 8. bit b i \<and> k = 7 - i)"
    by (auto simp: bit_push_bit_iff bit_1_iff simp flip: bit_iff_and_push_bit_not_eq_0 simp del: push_bit_of_1)
  also have "\<dots> \<longleftrightarrow> k < 8 \<and> bit b (7 - k)"
  proof
    assume "k < 8 \<and> bit b (7 - k)"
    then show "\<exists>i < 8. bit b i \<and> k = 7 - i" by (intro exI [of _ "7 - k"]) auto
  qed auto
  finally show ?thesis .
qed

lemma bit_constants: "bit (1 :: u32) k \<longleftrightarrow> k = 0" "bit (2 :: u32) k \<longleftrightarrow> k = 1" "bit (4 :: u32) k \<longleftrightarrow> k = 2" "bit (16 :: u32) k \<longleftrightarrow> k = 4"
  using bit_exp_iff [where 'a = u32, of 0 k] bit_exp_iff [where 'a = u32, of 1 k] bit_exp_iff [where 'a = u32, of 2 k] bit_exp_iff [where 'a = u32, of 4 k]
  by auto

lemma rc6_encodes:
  assumes "msg_protocol m = InfraredProtocolRC6" "unat (address m) < 2 ^ 8" "unat (command m) < 2 ^ 8"
  shows "encodes_from [True, False, False, False] infrared_encoder_rc6_reset infrared_protocol_rc6 21 m"
proof (rule encodes_from_word [where tab = rc6_data and g = "\<lambda>e. \<not> toggle_bit e"])
  let ?v = "\<lambda>x tog. x OR 0x01 OR (if tog then 0x10 else 0) OR push_bit 5 (ucast (reverse (ucast (address m)))) OR
      push_bit 13 (ucast (reverse (ucast (command m)))) :: u32"
  let ?f = "\<lambda>e. do { x \<leftarrow> load_u32 (enc_data e) 0; bytes \<leftarrow> store_u32 (enc_data e) 0 (?v x (toggle_bit e));
     Some (e\<lparr>enc_data := bytes, bits_to_encode := 21, toggle_bit := \<not> toggle_bit e\<rparr>) }"
  show "infrared_encoder_rc6_reset e m = do { e \<leftarrow> infrared_common_encoder_reset rc6_data e; ?f e }" for e
    by (simp add: infrared_encoder_rc6_reset_def Let_def rc6_data_def)
  fix e :: InfraredCommonEncoder
  assume e: "length (enc_data e) = data_bytes infrared_protocol_rc6 + 36" "\<forall>k<8 * data_bytes infrared_protocol_rc6. \<not> lsb_bit (enc_data e) k"
  then have l: "0 + 4 \<le> length (enc_data e)" by simp
  from bit_load_u32 [OF l] obtain x where x: "load_u32 (enc_data e) 0 = Some x" "\<And>k. bit x k = (k < 32 \<and> lsb_bit (enc_data e) (8 * 0 + k))" by blast
  have x0: "\<not> bit x k" if "k < 24" for k using e(2) that by (simp add: x(2))
  let ?w = "?v x (toggle_bit e)"
  from store_run [OF l, of ?w] obtain xs where xs: "store_u32 (enc_data e) 0 ?w = Some xs" "length xs = length (enc_data e)"
    "\<And>k. k < 8 * length (enc_data e) \<Longrightarrow> lsb_bit xs k = (if 8 * 0 \<le> k \<and> k < 8 * 0 + 32 then bit ?w (k - 8 * 0) else lsb_bit (enc_data e) k)" by blast
  have up: "bit (push_bit n (ucast (reverse (ucast a))) :: u32) k \<longleftrightarrow> n \<le> k \<and> k < n + 8 \<and> bit a (n + 7 - k)" if "k < 32" for n k and a :: u32
    using that by (auto simp: bit_push_bit_iff bit_ucast_iff bit_reverse less_diff_conv2 add.commute)
  have wk: "bit ?w k \<longleftrightarrow> bit x k \<or> k = 0 \<or> toggle_bit e \<and> k = 4 \<or> 5 \<le> k \<and> k < 13 \<and> bit (address m) (12 - k) \<or>
      13 \<le> k \<and> k < 21 \<and> bit (command m) (20 - k)" if "k < 32" for k
    unfolding bit_or_iff up [OF that] using bit_constants [of k] by (cases "toggle_bit e") auto
  have b: "lsb_bit xs k = (k = 0 \<or> toggle_bit e \<and> k = 4 \<or> 5 \<le> k \<and> k < 13 \<and> bit (address m) (12 - k) \<or> 13 \<le> k \<and> bit (command m) (20 - k))" if "k < 21" for k
  proof -
    have "lsb_bit xs k = bit ?w k" using xs(3) [of k] e(1) that by simp
    then show ?thesis using wk [of k] x0 [of k] that by auto
  qed
  have pre: "\<forall>k < length [True, False, False, False]. lsb_bit xs k = [True, False, False, False] ! k"
    by (auto simp: b less_Suc_eq numeral_2_eq_2)
  have "reads infrared_protocol_rc6 21 xs m"
    unfolding reads_def
  proof (intro allI impI)
    fix d :: InfraredCommonDecoder
    assume d: "length (data d) = data_bytes infrared_protocol_rc6 + 2" "msg_protocol (message d) = InfraredProtocolUnknown"
      "\<forall>k<21. lsb_bit (data d) k = lsb_bit xs k"
    then have "0 + 4 \<le> length (data d)" by simp
    from bit_load_u32 [OF this] obtain w where w: "load_u32 (data d) 0 = Some w" "\<And>k. bit w k = (k < 32 \<and> lsb_bit (data d) (8 * 0 + k))" by blast
    have wb: "bit w k = (k = 0 \<or> toggle_bit e \<and> k = 4 \<or> 5 \<le> k \<and> k < 13 \<and> bit (address m) (12 - k) \<or> 13 \<le> k \<and> bit (command m) (20 - k))" if "k < 21" for k
      using that d(3) b [of k] by (simp add: w(2))
    have "w AND 0x01 \<noteq> 0" using wb [of 0] bit_iff_and_push_bit_not_eq_0 [of w 0] by simp
    moreover have "drop_bit 1 w AND 0x7 = 0"
      by (rule bit_word_eqI) (auto simp: word_masks bit_and_iff bit_mask_iff bit_drop_bit_eq wb)
    moreover have "ucast (reverse (ucast (drop_bit 5 w))) = address m" "ucast (reverse (ucast (drop_bit 13 w))) = command m"
      by (rule word_below_eqI [OF assms(2)] word_below_eqI [OF assms(3)]; auto simp: bit_ucast_iff bit_reverse bit_drop_bit_eq wb bit_high)+
    ultimately show "\<exists>d'. interpret_data infrared_protocol_rc6 d = Some (True, d') \<and> message d' = m\<lparr>repeat := False\<rparr>"
      using w(1) d(2) assms(1) by (simp add: infrared_decoder_rc6_interpret_def Let_def)
  qed
  with xs(1,2) pre show "\<exists>xs. ?f e = Some (e\<lparr>enc_data := xs, bits_to_encode := 21, toggle_bit := \<not> toggle_bit e\<rparr>) \<and> length xs = length (enc_data e) \<and>
      reads infrared_protocol_rc6 21 xs m \<and> (\<forall>k < length [True, False, False, False]. lsb_bit xs k = [True, False, False, False] ! k)"
    by (intro exI [of _ xs]) (simp add: x(1))
qed (simp_all add: rc6_data_def data_bytes_def)

lemma rc5_encodes:
  assumes "msg_protocol m = InfraredProtocolRC5 \<or> msg_protocol m = InfraredProtocolRC5X" "unat (address m) < 2 ^ 5" "unat (command m) < 2 ^ 6"
  shows "encodes_from [False] infrared_encoder_rc5_reset infrared_protocol_rc5 14 m"
proof (rule encodes_from_word [where tab = rc5_data and g = "\<lambda>e. \<not> toggle_bit e"])
  let ?v = "\<lambda>x tog. x OR 0x01 OR (if msg_protocol m = InfraredProtocolRC5 then 0x02 else 0) OR (if tog then 0x04 else 0) OR
      push_bit 3 (drop_bit 3 (ucast (reverse (ucast (address m))))) OR push_bit 8 (drop_bit 2 (ucast (reverse (ucast (command m))))) :: u32"
  let ?f = "\<lambda>e. do { x \<leftarrow> load_u32 (enc_data e) 0; bytes \<leftarrow> store_u32 (enc_data e) 0 (?v x (toggle_bit e));
     b0 \<leftarrow> rd bytes 0; bytes \<leftarrow> wr bytes 0 (NOT b0); b1 \<leftarrow> rd bytes 1; bytes \<leftarrow> wr bytes 1 (NOT b1);
     Some (e\<lparr>enc_data := bytes, bits_to_encode := 14, toggle_bit := \<not> toggle_bit e\<rparr>) }"
  show "infrared_encoder_rc5_reset e m = do { e \<leftarrow> infrared_common_encoder_reset rc5_data e; ?f e }" for e
    by (simp add: infrared_encoder_rc5_reset_def Let_def rc5_data_def)
  fix e :: InfraredCommonEncoder
  assume e: "length (enc_data e) = data_bytes infrared_protocol_rc5 + 36" "\<forall>k<8 * data_bytes infrared_protocol_rc5. \<not> lsb_bit (enc_data e) k"
  then have l: "0 + 4 \<le> length (enc_data e)" by simp
  from bit_load_u32 [OF l] obtain x where x: "load_u32 (enc_data e) 0 = Some x" "\<And>k. bit x k = (k < 32 \<and> lsb_bit (enc_data e) (8 * 0 + k))" by blast
  have x0: "\<not> bit x k" if "k < 16" for k using e(2) that by (simp add: x(2))
  let ?w = "?v x (toggle_bit e)"
  from store_run [OF l, of ?w] obtain ys where ys: "store_u32 (enc_data e) 0 ?w = Some ys" "length ys = length (enc_data e)"
    "\<And>k. k < 8 * length (enc_data e) \<Longrightarrow> lsb_bit ys k = (if 8 * 0 \<le> k \<and> k < 8 * 0 + 32 then bit ?w (k - 8 * 0) else lsb_bit (enc_data e) k)" by blast
  let ?xs = "ys[0 := NOT (ys ! 0), 1 := NOT (ys ! 1)]"
  have f: "?f e = Some (e\<lparr>enc_data := ?xs, bits_to_encode := 14, toggle_bit := \<not> toggle_bit e\<rparr>)"
    using ys(1,2) e(1) by (simp add: x(1) rd_Some wr_Some)
  have up: "bit (push_bit 3 (drop_bit 3 (ucast (reverse (ucast a)))) :: u32) k \<longleftrightarrow> 3 \<le> k \<and> k < 8 \<and> bit a (7 - k)"
     "bit (push_bit 8 (drop_bit 2 (ucast (reverse (ucast a)))) :: u32) k \<longleftrightarrow> 8 \<le> k \<and> k < 14 \<and> bit a (13 - k)" if "k < 32" for k and a :: u32
    using that by (auto simp: bit_push_bit_iff bit_drop_bit_eq bit_ucast_iff bit_reverse less_diff_conv2)
  have wk: "bit ?w k \<longleftrightarrow> bit x k \<or> k = 0 \<or> msg_protocol m = InfraredProtocolRC5 \<and> k = 1 \<or> toggle_bit e \<and> k = 2 \<or>
      3 \<le> k \<and> k < 8 \<and> bit (address m) (7 - k) \<or> 8 \<le> k \<and> k < 14 \<and> bit (command m) (13 - k)" if "k < 32" for k
    unfolding bit_or_iff up [OF that] using bit_constants [of k] by (cases "toggle_bit e"; cases "msg_protocol m = InfraredProtocolRC5") auto
  have y: "lsb_bit ys k = (k = 0 \<or> msg_protocol m = InfraredProtocolRC5 \<and> k = 1 \<or> toggle_bit e \<and> k = 2 \<or>
      3 \<le> k \<and> k < 8 \<and> bit (address m) (7 - k) \<or> 8 \<le> k \<and> bit (command m) (13 - k))" if "k < 14" for k
  proof -
    have "lsb_bit ys k = bit ?w k" using ys(3) [of k] e(1) that by simp
    then show ?thesis using wk [of k] x0 [of k] that by auto
  qed
  have inv: "lsb_bit ?xs k = (\<not> lsb_bit ys k)" if "k < 16" for k
  proof -
    have "k div 8 = 0 \<or> k div 8 = 1" using that by linarith
    then show ?thesis using e(1) ys(2) by (auto simp: lsb_bit_def bit_not_iff)
  qed
  have "reads infrared_protocol_rc5 14 ?xs m"
    unfolding reads_def
  proof (intro allI impI)
    fix d :: InfraredCommonDecoder
    assume d: "length (data d) = data_bytes infrared_protocol_rc5 + 2" "msg_protocol (message d) = InfraredProtocolUnknown"
      "\<forall>k<14. lsb_bit (data d) k = lsb_bit ?xs k"
    define zs where "zs = (data d)[0 := NOT (data d ! 0), 1 := NOT (data d ! 1)]"
    have z: "lsb_bit zs k = lsb_bit ys k" if "k < 14" for k
    proof -
      have "k div 8 = 0 \<or> k div 8 = 1" using that by linarith
      then have "lsb_bit zs k = (\<not> lsb_bit (data d) k)" using d(1) by (auto simp: zs_def lsb_bit_def bit_not_iff)
      then show ?thesis using d(3) inv [of k] that by simp
    qed
    have "0 + 4 \<le> length zs" using d(1) by (simp add: zs_def)
    from bit_load_u32 [OF this] obtain w where w: "load_u32 zs 0 = Some w" "\<And>k. bit w k = (k < 32 \<and> lsb_bit zs (8 * 0 + k))" by blast
    have bytes: "bit (NOT (data d ! 0)) k = lsb_bit zs k" "bit (NOT (data d ! 1)) k = lsb_bit zs (8 + k)" if "k < 8" for k
      using lsb_bit_byte [OF that, of zs 0] lsb_bit_byte [OF that, of zs 1] d(1) by (simp_all add: zs_def)
    have "(w AND 0x01 \<noteq> 0) = bit w 0" "(w AND 0x02 \<noteq> 0) = bit w 1" using bit_iff_and_push_bit_not_eq_0 [of w 0] bit_iff_and_push_bit_not_eq_0 [of w 1] by simp_all
    then have start: "w AND 0x01 \<noteq> 0" "(w AND 0x02 \<noteq> 0) = (msg_protocol m = InfraredProtocolRC5)"
      using z [of 0] z [of 1] y [of 0] y [of 1] by (simp_all add: w(2))
    have "ucast (reverse (NOT (data d ! 0)) AND 0x1F) = address m"
      by (rule word_below_eqI [OF assms(2)]; auto simp: bit_ucast_iff bit_and_iff word_masks bit_mask_iff bit_reverse bytes z y bit_high simp del: One_nat_def)
    moreover have "ucast (drop_bit 2 (reverse (NOT (data d ! 1))) AND 0x3F) = command m"
      by (rule word_below_eqI [OF assms(3)]; auto simp: bit_ucast_iff bit_and_iff bit_drop_bit_eq word_masks bit_mask_iff bit_reverse bytes z y bit_high simp del: One_nat_def)
    ultimately show "\<exists>d'. interpret_data infrared_protocol_rc5 d = Some (True, d') \<and> message d' = m\<lparr>repeat := False\<rparr>"
      using w(1) d(1,2) assms(1) start by (auto simp: zs_def infrared_decoder_rc5_interpret_def Let_def rd_Some wr_Some)
  qed
  moreover have "\<not> lsb_bit ?xs 0" using inv [of 0] y [of 0] by simp
  ultimately show "\<exists>xs. ?f e = Some (e\<lparr>enc_data := xs, bits_to_encode := 14, toggle_bit := \<not> toggle_bit e\<rparr>) \<and> length xs = length (enc_data e) \<and>
      reads infrared_protocol_rc5 14 xs m \<and> (\<forall>k < length [False]. lsb_bit xs k = [False] ! k)"
    unfolding f using ys(2) by (intro exI [of _ ?xs]) simp
qed (simp_all add: rc5_data_def data_bytes_def)

end
