(* ===== verification/InfraredManchester.thy ===== *)
theory InfraredManchester
  imports InfraredMessages
begin

text \<open>
  Manchester coding end to end: the pulses between the middles of bits (\<open>pulses\<close>), the start of RC5 in a space and
  the toggle bit of RC6 with its double length.
\<close>

section \<open>Manchester coding\<close>

definition manchester_times :: "InfraredTimings \<Rightarrow> bool" where
  "manchester_times t \<longleftrightarrow> 0 < bit_tolerance t \<and> bit_tolerance t < bit1_mark t \<and> 2 * bit1_mark t \<le> min_split_time t"

text \<open>The decoder is the common one at bit \<open>k\<close>.\<close>

definition plain :: "InfraredCommonProtocolSpec \<Rightarrow> InfraredCommonProtocolData \<Rightarrow> nat \<Rightarrow> bool" where
  "plain spec tab k \<longleftrightarrow> (\<forall>d lev t. databit_cnt d = k \<longrightarrow> decode spec d lev t = infrared_common_decode_manchester tab d lev t) \<and>
     databit_len tab ! 0 = databit_len spec ! 0 \<and> spec_timings tab = spec_timings spec \<and> manchester_times (spec_timings tab)"

lemma plain_decode:
  assumes "plain spec tab k"
  shows "databit_cnt d = k \<Longrightarrow> decode spec d lev t = infrared_common_decode_manchester tab d lev t"
    and "databit_len tab ! 0 = databit_len spec ! 0" "spec_timings tab = spec_timings spec" "manchester_times (spec_timings spec)"
  using assms by (auto simp: plain_def)

lemma manchester_match:
  assumes "manchester_times t"
  shows "MATCH_TIMING (bit1_mark t) (bit1_mark t) (bit_tolerance t)" "\<not> MATCH_TIMING (2 * bit1_mark t) (bit1_mark t) (bit_tolerance t)"
    "MATCH_TIMING (2 * bit1_mark t) (2 * bit1_mark t) (bit_tolerance t)" "\<not> MATCH_TIMING (bit1_mark t) (2 * bit1_mark t) (bit_tolerance t)"
  using assms by (auto simp: manchester_times_def MATCH_TIMING_def)

text \<open>From the middle of a bit to its end, from there to the middle of the next bit, and from middle to middle.\<close>

lemma decodesI:
  assumes "\<And>d. databit_cnt d = length bs \<Longrightarrow> switch_detect d = sd \<Longrightarrow> holds_bits (data d) bs \<Longrightarrow>
     length (data d) = data_bytes spec + 2 \<Longrightarrow>
     \<exists>xs. decode spec d lev t = Some (InfraredStatusOk, d\<lparr>data := xs, databit_cnt := length bs', switch_detect := sd'\<rparr>) \<and>
        holds_bits xs bs' \<and> length xs = data_bytes spec + 2"
  shows "decodes spec bs sd lev t bs' sd'"
  using assms unfolding decodes_def by blast

lemma bytes_room: "length bs < databit_len spec ! 0 \<Longrightarrow> length bs div 8 < data_bytes spec + 2"
  using div_le_mono [of "length bs" "databit_len spec ! 0" 8] by (simp add: data_bytes_def)

lemma manchester_end:
  assumes "plain spec tab (length bs)" "bs \<noteq> []"
  shows "decodes spec bs True lev (bit1_mark (spec_timings spec)) bs False"
proof (rule decodesI)
  fix d :: InfraredCommonDecoder
  assume d: "databit_cnt d = length bs" "switch_detect d = True" "holds_bits (data d) bs" "length (data d) = data_bytes spec + 2"
  have "d\<lparr>switch_detect := False\<rparr> = d\<lparr>data := data d, databit_cnt := length bs, switch_detect := False\<rparr>" using d(1) by simp
  moreover have "decode spec d lev (bit1_mark (spec_timings spec)) = Some (InfraredStatusOk, d\<lparr>switch_detect := False\<rparr>)"
    unfolding plain_decode(1) [OF assms(1) d(1) [simplified]] using assms(2-) d(1,2) manchester_match [OF plain_decode(4) [OF assms(1)]]
    by (simp add: infrared_common_decode_manchester_def Let_def plain_decode(2,3) [OF assms(1)])
  ultimately show "\<exists>xs. decode spec d lev (bit1_mark (spec_timings spec)) = Some (InfraredStatusOk, d\<lparr>data := xs, databit_cnt := length bs, switch_detect := False\<rparr>) \<and>
      holds_bits xs bs \<and> length xs = data_bytes spec + 2"
    using d(3,4) by metis
qed

lemma accumulates:
  assumes "databit_cnt d = length bs" "holds_bits (data d) bs" "length (data d) = data_bytes spec + 2" "length bs < databit_len spec ! 0"
  obtains xs where "accumulate_lsb d b = Some (d\<lparr>data := xs, databit_cnt := length (bs @ [b])\<rparr>)" "holds_bits xs (bs @ [b])" "length xs = data_bytes spec + 2"
  using accumulate_bits [OF assms(1,2), of b] bytes_room [OF assms(4)] assms(3) by auto

lemma manchester_begin:
  assumes "plain spec tab (length bs)" "bs \<noteq> [] \<or> \<not> manchester_start_from_space tab" "length bs < databit_len spec ! 0"
  shows "decodes spec bs False lev (bit1_mark (spec_timings spec)) (bs @ [lev]) True"
proof (rule decodesI)
  fix d :: InfraredCommonDecoder
  assume d: "databit_cnt d = length bs" "switch_detect d = False" "holds_bits (data d) bs" "length (data d) = data_bytes spec + 2"
  let ?d = "d\<lparr>switch_detect := True\<rparr>"
  from accumulates [of ?d bs spec lev] d assms(3) obtain xs where
    x: "accumulate_lsb ?d lev = Some (?d\<lparr>data := xs, databit_cnt := length (bs @ [lev])\<rparr>)" "holds_bits xs (bs @ [lev])" "length xs = data_bytes spec + 2"
    by auto
  have "decode spec d lev (bit1_mark (spec_timings spec)) = Some (InfraredStatusOk, ?d\<lparr>data := xs, databit_cnt := length (bs @ [lev])\<rparr>)"
    unfolding plain_decode(1) [OF assms(1) d(1) [simplified]] using assms(2-) d(1,2) x(1) manchester_match [OF plain_decode(4) [OF assms(1)]]
    by (auto simp: infrared_common_decode_manchester_def Let_def plain_decode(2,3) [OF assms(1)])
  then show "\<exists>xs. decode spec d lev (bit1_mark (spec_timings spec)) =
      Some (InfraredStatusOk, d\<lparr>data := xs, databit_cnt := length (bs @ [lev]), switch_detect := True\<rparr>) \<and>
      holds_bits xs (bs @ [lev]) \<and> length xs = data_bytes spec + 2"
    using x(2,3) by (intro exI [of _ xs]) simp
qed

lemma manchester_middle:
  assumes "plain spec tab (length bs)" "bs \<noteq> []" "length bs < databit_len spec ! 0"
  shows "decodes spec bs True lev (2 * bit1_mark (spec_timings spec)) (bs @ [lev]) True"
proof (rule decodesI)
  fix d :: InfraredCommonDecoder
  assume d: "databit_cnt d = length bs" "switch_detect d = True" "holds_bits (data d) bs" "length (data d) = data_bytes spec + 2"
  from accumulates [OF d(1,3,4) assms(3), of lev] obtain xs where
    x: "accumulate_lsb d lev = Some (d\<lparr>data := xs, databit_cnt := length (bs @ [lev])\<rparr>)" "holds_bits xs (bs @ [lev])" "length xs = data_bytes spec + 2" .
  have "decode spec d lev (2 * bit1_mark (spec_timings spec)) = Some (InfraredStatusOk, d\<lparr>data := xs, databit_cnt := length (bs @ [lev])\<rparr>)"
    unfolding plain_decode(1) [OF assms(1) d(1) [simplified]] using assms(2-) d(1,2) x(1) manchester_match [OF plain_decode(4) [OF assms(1)]]
    by (simp add: infrared_common_decode_manchester_def Let_def plain_decode(2,3) [OF assms(1)])
  moreover have "d\<lparr>data := xs, databit_cnt := length (bs @ [lev]), switch_detect := True\<rparr> = d\<lparr>data := xs, databit_cnt := length (bs @ [lev])\<rparr>"
    using d(2) by simp
  ultimately show "\<exists>xs. decode spec d lev (2 * bit1_mark (spec_timings spec)) =
      Some (InfraredStatusOk, d\<lparr>data := xs, databit_cnt := length (bs @ [lev]), switch_detect := True\<rparr>) \<and>
      holds_bits xs (bs @ [lev]) \<and> length xs = data_bytes spec + 2"
    using x(2,3) by (intro exI [of _ xs] conjI) (simp_all only:)
qed

text \<open>RC5 starts in the middle of its first bit, which is low and one with the silence before it.\<close>

lemma manchester_from_space:
  assumes "plain spec tab 0" "manchester_start_from_space tab" "1 < databit_len spec ! 0"
  shows "decodes spec [] False lev (bit1_mark (spec_timings spec)) [False] False"
    and "decodes spec [] False lev (2 * bit1_mark (spec_timings spec)) [False, lev] True"
proof -
  have first: "\<exists>xs. accumulate_lsb (d\<lparr>switch_detect := True\<rparr>) False = Some (d\<lparr>switch_detect := True, data := xs, databit_cnt := 1\<rparr>) \<and>
      holds_bits xs [False] \<and> length xs = data_bytes spec + 2"
    if "databit_cnt d = length ([] :: bool list)" "length (data d) = data_bytes spec + 2" for d
    using accumulates [of "d\<lparr>switch_detect := True\<rparr>" "[]" spec False] that assms(3) by auto
  show "decodes spec [] False lev (bit1_mark (spec_timings spec)) [False] False"
  proof (rule decodesI)
    fix d :: InfraredCommonDecoder
    assume d: "databit_cnt d = length ([] :: bool list)" "switch_detect d = False" "length (data d) = data_bytes spec + 2"
    from first [OF d(1,3)] obtain xs where
      x: "accumulate_lsb (d\<lparr>switch_detect := True\<rparr>) False = Some (d\<lparr>switch_detect := True, data := xs, databit_cnt := 1\<rparr>)"
      "holds_bits xs [False]" "length xs = data_bytes spec + 2" by auto
    have "decode spec d lev (bit1_mark (spec_timings spec)) = Some (InfraredStatusOk, d\<lparr>data := xs, databit_cnt := 1, switch_detect := False\<rparr>)"
      unfolding plain_decode(1) [OF assms(1) d(1) [simplified]] using assms(2-) d(1,2) x(1) manchester_match [OF plain_decode(4) [OF assms(1)]]
      by (simp add: infrared_common_decode_manchester_def Let_def plain_decode(2,3) [OF assms(1)])
    then show "\<exists>xs. decode spec d lev (bit1_mark (spec_timings spec)) =
      Some (InfraredStatusOk, d\<lparr>data := xs, databit_cnt := length [False], switch_detect := False\<rparr>) \<and>
      holds_bits xs [False] \<and> length xs = data_bytes spec + 2"
      using x(2,3) by (intro exI [of _ xs]) simp
  qed
  show "decodes spec [] False lev (2 * bit1_mark (spec_timings spec)) [False, lev] True"
  proof (rule decodesI)
    fix d :: InfraredCommonDecoder
    assume d: "databit_cnt d = length ([] :: bool list)" "switch_detect d = False" "length (data d) = data_bytes spec + 2"
    from first [OF d(1,3)] obtain xs where
      x: "accumulate_lsb (d\<lparr>switch_detect := True\<rparr>) False = Some (d\<lparr>switch_detect := True, data := xs, databit_cnt := 1\<rparr>)"
      "holds_bits xs [False]" "length xs = data_bytes spec + 2" by auto
    let ?d = "d\<lparr>switch_detect := True, data := xs, databit_cnt := 1\<rparr>"
    from accumulates [of ?d "[False]" spec lev] x(2,3) assms(3) obtain ys where
      y: "accumulate_lsb ?d lev = Some (?d\<lparr>data := ys, databit_cnt := 2\<rparr>)" "holds_bits ys [False, lev]" "length ys = data_bytes spec + 2"
      by (auto simp: numeral_2_eq_2)
    have "decode spec d lev (2 * bit1_mark (spec_timings spec)) = Some (InfraredStatusOk, ?d\<lparr>data := ys, databit_cnt := 2\<rparr>)"
      unfolding plain_decode(1) [OF assms(1) d(1) [simplified]] using assms(2-) d(1,2) x(1) y(1) manchester_match [OF plain_decode(4) [OF assms(1)]]
      by (simp add: infrared_common_decode_manchester_def Let_def plain_decode(2,3) [OF assms(1)])
    then show "\<exists>xs. decode spec d lev (2 * bit1_mark (spec_timings spec)) =
      Some (InfraredStatusOk, d\<lparr>data := xs, databit_cnt := length [False, lev], switch_detect := True\<rparr>) \<and>
      holds_bits xs [False, lev] \<and> length xs = data_bytes spec + 2"
      using y(2,3) by (intro exI [of _ ys]) (simp add: numeral_2_eq_2)
  qed
qed

text \<open>A run of bits.\<close>

lemma feed_step:
  assumes "receiving spec bs (\<not> lev) sd d" "decodes spec bs sd lev t bs' sd'" "length bs' \<le> databit_len spec ! 0" "0 < min_split_time (spec_timings spec)"
    and "\<not> lev \<longrightarrow> t \<le> min_split_time (spec_timings spec) \<and> length bs \<noteq> databit_len spec ! 0"
    and "\<And>d'. receiving spec bs' lev sd' d' \<Longrightarrow> \<exists>d''. feed spec ps d' = Some d'' \<and> P d''"
  shows "\<exists>d''. feed spec ((lev, t) # ps) d = Some d'' \<and> P d''"
proof -
  from feed_pulse [OF assms(1-5)] obtain m d' where "infrared_common_decode spec d lev t = Some (m, d')" "receiving spec bs' lev sd' d'" by blast
  with assms(6) show ?thesis by simp
qed

lemma feed_middles:
  assumes "\<forall>k. length bs \<le> k \<longrightarrow> k < length (bs @ cs) \<longrightarrow> plain spec tab k" "bs \<noteq> []" "length (bs @ cs) \<le> databit_len spec ! 0"
    and "receiving spec bs p True d" "manchester_times (spec_timings spec)"
  shows "\<exists>d'. feed spec (pulses (bit1_mark (spec_timings spec)) p cs) d = Some d' \<and> receiving spec (bs @ cs) (last (p # cs)) True d'"
  using assms(1-4)
proof (induction cs arbitrary: bs p d)
  case (Cons c cs)
  let ?h = "bit1_mark (spec_timings spec)"
  have P: "plain spec tab (length bs)" "length bs < databit_len spec ! 0" using Cons.prems(1,3) by auto
  have s: "0 < min_split_time (spec_timings spec)" "?h \<le> min_split_time (spec_timings spec)" "2 * ?h \<le> min_split_time (spec_timings spec)"
    using assms(5) by (auto simp: manchester_times_def)
  have rest: "\<exists>d'. feed spec (pulses ?h c cs) d = Some d' \<and> receiving spec (bs @ c # cs) (last (p # c # cs)) True d'"
    if "receiving spec (bs @ [c]) c True d" for d
    using Cons.IH [of "bs @ [c]" c d] Cons.prems(1,3) that by simp
  show ?case
  proof (cases "c = p")
    case True
    have "\<exists>d'. feed spec ((\<not> p, ?h) # (c, ?h) # pulses ?h c cs) d = Some d' \<and> receiving spec (bs @ c # cs) (last (p # c # cs)) True d'"
    proof (rule feed_step [OF _ manchester_end [OF P(1) Cons.prems(2)]])
      fix d' assume "receiving spec bs (\<not> p) False d'"
      then have r: "receiving spec bs (\<not> c) False d'" using True by simp
      show "\<exists>d''. feed spec ((c, ?h) # pulses ?h c cs) d' = Some d'' \<and> receiving spec (bs @ c # cs) (last (p # c # cs)) True d''"
        by (rule feed_step [OF r manchester_begin [OF P(1) _ P(2)] _ s(1)]) (use Cons.prems(2) P(2) s in \<open>simp_all add: rest del: last.simps\<close>)
    qed (use Cons.prems(4) P(2) s in auto)
    then show ?thesis using True by simp
  next
    case False
    have "\<exists>d'. feed spec ((c, 2 * ?h) # pulses ?h c cs) d = Some d' \<and> receiving spec (bs @ c # cs) (last (p # c # cs)) True d'"
      by (rule feed_step [OF _ manchester_middle [OF P(1) Cons.prems(2) P(2)] _ s(1) _ rest]) (use Cons.prems(4) False P(2) s in simp_all)
    then show ?thesis using False by (simp add: mult_2 del: last.simps hear.simps)
  qed
qed simp

section \<open>The halves of the bits\<close>

text \<open>What a Manchester encoder sends for the bits from \<open>k\<close> on: it does not send a low half at the end.\<close>

fun half_bits :: "(nat \<Rightarrow> nat) \<Rightarrow> nat \<Rightarrow> bool list \<Rightarrow> (bool \<times> nat) list" where
  "half_bits h k [] = []"
| "half_bits h k [b] = (if b then [(True, h k)] else [(False, h k), (True, h k)])"
| "half_bits h k (b # c # bs) = (b, h k) # (\<not> b, h k) # half_bits h (Suc k) (c # bs)"

definition last_half :: "nat \<Rightarrow> bool list \<Rightarrow> (bool \<times> nat) list" where
  "last_half h bs = (if last bs then [] else [(True, h)])"

lemma merge_half_bits:
  assumes "bs \<noteq> []" "\<And>j. k \<le> j \<Longrightarrow> hf j = h"
  shows "merge ((\<not> p, h) # half_bits hf k bs) = pulses h p bs @ last_half h bs"
  using assms
proof (induction hf k bs arbitrary: p rule: half_bits.induct)
  case (3 hf k b c bs)
  from 3(1) [of b] 3(3) have IH: "merge ((\<not> b, h) # half_bits hf (Suc k) (c # bs)) = pulses h b (c # bs) @ last_half h (c # bs)" by simp
  have "\<exists>d qs. pulses h b (c # bs) @ last_half h (c # bs) = (\<not> b, d) # qs" by (cases "c = b") auto
  with IH 3(3) [of k] show ?case by (auto simp: last_half_def)
qed (auto simp: last_half_def)

definition manchester_encoder :: "InfraredCommonProtocolSpec \<Rightarrow> (nat \<Rightarrow> nat) \<Rightarrow> bool" where
  "manchester_encoder spec hf \<longleftrightarrow> (\<forall>e v. logic_value e = Some v \<longrightarrow>
     encode spec e = Some (InfraredStatusOk, hf (bits_encoded e), even (timings_encoded e) \<noteq> v,
       e\<lparr>bits_encoded := bits_encoded e + of_bool (even (timings_encoded e) \<or> v \<and> bits_encoded e + 1 = bits_to_encode e)\<rparr>))"

lemma manchester_step:
  assumes "manchester_encoder spec hf" "sending xs n k first e" "k < n" "k div 8 < length xs"
  shows "if k + 1 = n \<and> first = lsb_bit xs k
    then \<exists>e'. infrared_common_encode spec e = Some (InfraredStatusDone, hf k, True, e')
    else \<exists>e'. infrared_common_encode spec e = Some (InfraredStatusOk, hf k, first = lsb_bit xs k, e') \<and>
       sending xs n (if first then k else k + 1) (\<not> first) e'"
proof -
  have "logic_value e = Some (lsb_bit xs k)" using assms(2,4) logic_value_run [of e] by (simp add: sending_def)
  then have "encode spec e = Some (InfraredStatusOk, hf k, first = lsb_bit xs k, e\<lparr>bits_encoded := k + of_bool (\<not> first \<or> lsb_bit xs k \<and> k + 1 = n)\<rparr>)"
    using assms(1,2) by (auto simp: manchester_encoder_def sending_def)
  then show ?thesis using assms(2,3)
    by (cases first; cases "lsb_bit xs k")
      (auto simp: sending_def infrared_common_encode_def encode_state_encode_def infrared_common_encode_bits_def)
qed

lemma sends_manchester:
  assumes "manchester_encoder spec hf" "n div 8 < length xs" "sending xs n k True e" "k < n"
  shows "sends (infrared_common_encode spec) e (half_bits hf k (map (lsb_bit xs) [k..<n]))"
  using assms(3,4)
proof (induction "n - k" arbitrary: k e)
  case (Suc m)
  note s = sends_step [where step = "infrared_common_encode spec"] and l = sends_last [where step = "infrared_common_encode spec"]
  have d: "k div 8 < length xs" using div_le_mono [of k n 8] Suc(4) assms(2) by simp
  note step = manchester_step [OF assms(1) _ Suc(4) d]
  show ?case
  proof (cases "k + 1 = n")
    case True
    then have u: "map (lsb_bit xs) [k..<n] = [lsb_bit xs k]" by auto
    show ?thesis
    proof (cases "lsb_bit xs k")
      case b: True
      from step [OF Suc(3)] True b obtain e' where "infrared_common_encode spec e = Some (InfraredStatusDone, hf k, True, e')" by auto
      from l [OF this] show ?thesis unfolding u using b by simp
    next
      case b: False
      from step [OF Suc(3)] True b obtain e1 where
        1: "infrared_common_encode spec e = Some (InfraredStatusOk, hf k, False, e1)" "sending xs n k False e1" by auto
      from step [OF 1(2)] True b obtain e2 where "infrared_common_encode spec e1 = Some (InfraredStatusDone, hf k, True, e2)" by auto
      from s [OF 1(1) l [OF this]] show ?thesis unfolding u using b by simp
    qed
  next
    case False
    then have k: "m = n - Suc k" "Suc k < n" using Suc by auto
    from step [OF Suc(3)] False obtain e1 where
      1: "infrared_common_encode spec e = Some (InfraredStatusOk, hf k, lsb_bit xs k, e1)" "sending xs n k False e1" by auto
    from step [OF 1(2)] False obtain e2 where
      2: "infrared_common_encode spec e1 = Some (InfraredStatusOk, hf k, \<not> lsb_bit xs k, e2)" "sending xs n (Suc k) True e2" by auto
    from s [OF 1(1) s [OF 2(1) Suc.hyps(1) [OF k(1) 2(2) k(2)]]] k(2) show ?thesis
      by (simp add: upt_conv_Cons)
  qed
qed simp

lemma sends_cong: "step e1 = step e2 \<Longrightarrow> sends step e1 ps = sends step e2 ps"
  by (simp add: sends_def emission.simps [of step e1] emission.simps [of step e2])

lemma sends_manchester_frame:
  assumes "manchester_encoder spec hf" "loaded xs n e"
  shows "sends (infrared_common_encode spec) e
    ((False, silence_time (spec_timings spec)) #
      (if preamble_mark (spec_timings spec) = 0 then [] else [(True, preamble_mark (spec_timings spec)), (False, preamble_space (spec_timings spec))]) @
      half_bits hf 0 (map (lsb_bit xs) [0..<n]))"
proof -
  have n: "0 < n" "n div 8 < length xs" using assms(2) by (auto simp: loaded_def)
  note bits = sends_manchester [OF assms(1) n(2) _ n(1)]
  let ?t = "spec_timings spec"
  show ?thesis
  proof (cases "preamble_mark ?t = 0")
    case False
    from sends_preamble [OF follows_common assms(2) False bits] False show ?thesis by simp
  next
    case True
    let ?e1 = "e\<lparr>enc_state := InfraredCommonEncoderStatePreamble, timings_encoded := 1, timings_sum := 0\<rparr>"
    let ?e2 = "?e1\<lparr>enc_state := InfraredCommonEncoderStateEncode\<rparr>"
    have "infrared_common_encode spec e = Some (InfraredStatusOk, silence_time ?t, False, ?e1)"
      using assms(2) by (simp add: infrared_common_encode_def loaded_def)
    moreover have "infrared_common_encode spec ?e1 = infrared_common_encode spec ?e2"
      using True by (simp add: infrared_common_encode_def Let_def)
    then have "sends (infrared_common_encode spec) ?e1 ps = sends (infrared_common_encode spec) ?e2 ps" for ps
      by (rule sends_cong)
    moreover have "sending xs n 0 True ?e2" using assms(2) by (simp add: loaded_def sending_def)
    ultimately show ?thesis using bits [of ?e2] True by (auto intro: sends_step)
  qed
qed

lemma manchester_encoder_rc5: "manchester_encoder infrared_protocol_rc5 (\<lambda>_. INFRARED_RC5_BIT)"
  by (auto simp: manchester_encoder_def infrared_common_encode_manchester_def rc5_data_def)

lemma manchester_encoder_rc6: "manchester_encoder infrared_protocol_rc6 (\<lambda>k. if k = 4 then 2 * INFRARED_RC6_BIT else INFRARED_RC6_BIT)"
  by (auto simp: manchester_encoder_def infrared_encoder_rc6_encode_manchester_def infrared_common_encode_manchester_def rc6_data_def)

section \<open>RC5\<close>

text \<open>With no preamble, the first space starts the frame.\<close>

lemma fresh_space:
  assumes "fresh spec d" "preamble_mark (spec_timings spec) = 0"
  shows "\<exists>m d'. infrared_common_decode spec d False t = Some (m, d') \<and> receiving spec [] False False d'"
proof -
  obtain d1 where d1: "(if level d = False then infrared_common_decoder_reset spec d else Some d) = Some d1" "fresh spec d1"
    using reset_fresh [of spec d] assms(1) by (cases "level d") (auto simp: fresh_def)
  have L: "length (timings d1) = 6" "timings_cnt d1 = 0" "state d1 = InfraredCommonDecoderStateWaitPreamble"
    using d1(2) by (auto simp: fresh_def data_ok_def)
  let ?d = "d1\<lparr>level := False, timings := (timings d1)[0 := t], timings_cnt := 1\<rparr>"
  obtain a where a: "drop_samples ?d 1 = Some (?d\<lparr>timings := a, timings_cnt := timings_cnt ?d - 1\<rparr>)" "length a = 6"
    using drop_samples [of ?d 1] L by auto
  let ?e = "?d\<lparr>timings := a, timings_cnt := 0, state := InfraredCommonDecoderStateDecode, databit_cnt := 0, switch_detect := False\<rparr>"
  have "infrared_check_preamble spec ?d = Some (True, ?d\<lparr>timings := a, timings_cnt := 0\<rparr>)"
    using a(1) assms(2) by (simp add: infrared_check_preamble_def)
  moreover have "infrared_common_decode_bits spec ?e = Some (InfraredStatusOk, ?e)"
    by (subst infrared_common_decode_bits.simps) simp
  then have "decode_loop spec False ?e = Some (False, ?e)" by (subst decode_loop.simps) simp
  ultimately have "decode_loop spec False ?d = Some (False, ?e)"
    using L by (subst decode_loop.simps) simp
  then have "infrared_common_decode spec d False t = Some (None, ?e)"
    using L d1(1) by (simp add: infrared_common_decode_def wr_Some)
  moreover have "receiving spec [] False False ?e"
    using d1(2) a(2) by (simp add: receiving_def fresh_def data_ok_def)
  ultimately show ?thesis by blast
qed

lemma feed_from_space:
  assumes "\<And>k. k \<le> length (c # cs) \<Longrightarrow> plain spec tab k" "manchester_start_from_space tab" "length (False # c # cs) \<le> databit_len spec ! 0"
    and "receiving spec [] False False d" "manchester_times (spec_timings spec)"
  shows "\<exists>d'. feed spec (pulses (bit1_mark (spec_timings spec)) False (c # cs)) d = Some d' \<and> receiving spec (False # c # cs) (last (c # cs)) True d'"
proof -
  let ?h = "bit1_mark (spec_timings spec)"
  have s: "0 < min_split_time (spec_timings spec)" "?h \<le> min_split_time (spec_timings spec)" "2 * ?h \<le> min_split_time (spec_timings spec)"
    using assms(5) by (auto simp: manchester_times_def)
  have n: "1 < databit_len spec ! 0" using assms(3) by simp
  have P: "plain spec tab 0" "plain spec tab (length [False])" using assms(1) [of 0] assms(1) [of 1] by auto
  have rest: "\<exists>d'. feed spec (pulses ?h c cs) d = Some d' \<and> receiving spec (False # c # cs) (last (c # cs)) True d'"
    if "receiving spec [False, c] c True d" for d
    using feed_middles [of "[False, c]" cs spec tab c d] assms(1,3,5) that by simp
  note start = manchester_from_space [OF P(1) assms(2) n]
  show ?thesis
  proof (cases c)
    case False
    have "\<exists>d'. feed spec ((True, ?h) # (c, ?h) # pulses ?h c cs) d = Some d' \<and> receiving spec (False # c # cs) (last (c # cs)) True d'"
    proof (rule feed_step [OF _ start(1) _ s(1)])
      fix d' assume r: "receiving spec [False] True False d'"
      have "receiving spec [False] (\<not> c) False d'" using r False by simp
      from feed_step [OF this manchester_begin [OF P(2)] _ s(1) _ rest] 
      show "\<exists>d''. feed spec ((c, ?h) # pulses ?h c cs) d' = Some d'' \<and> receiving spec (False # c # cs) (last (c # cs)) True d''"
        using s(2) n assms(3) by simp
    qed (use assms(4) n in simp_all)
    then show ?thesis using False by simp
  next
    case True
    have "\<exists>d'. feed spec ((c, 2 * ?h) # pulses ?h c cs) d = Some d' \<and> receiving spec (False # c # cs) (last (c # cs)) True d'"
      by (rule feed_step [OF _ start(2) _ s(1) _ rest]) (use assms(3,4) True in simp_all)
    then show ?thesis using True by (simp add: mult_2)
  qed
qed

text \<open>The end of the last bit.\<close>

lemma feed_last_half:
  assumes "plain spec tab (length bs)" "bs \<noteq> []" "receiving spec bs (last bs) True d" "length bs \<le> databit_len spec ! 0"
  shows "\<exists>d' lev sd. feed spec (last_half (bit1_mark (spec_timings spec)) bs) d = Some d' \<and> receiving spec bs lev sd d'"
proof (cases "last bs")
  case True
  then show ?thesis using assms(3) by (auto simp: last_half_def)
next
  case False
  then have "receiving spec bs (\<not> True) True d" using assms(3) by simp
  moreover have "0 < min_split_time (spec_timings spec)" using plain_decode(4) [OF assms(1)] by (auto simp: manchester_times_def)
  ultimately obtain m d' where "infrared_common_decode spec d True (bit1_mark (spec_timings spec)) = Some (m, d')" "receiving spec bs True False d'"
    using feed_pulse [OF _ manchester_end [OF assms(1,2)]] assms(4) by blast
  then show ?thesis using False by (auto simp: last_half_def)
qed

lemma rc5_plain: "plain infrared_protocol_rc5 rc5_data k"
  by (auto simp: plain_def manchester_times_def infrared_tables)

lemma feed_rc5:
  assumes "fresh infrared_protocol_rc5 d" "length bs = 14" "\<not> hd bs"
  shows "\<exists>d' lev sd. feed infrared_protocol_rc5 (merge ((False, INFRARED_RC5_SILENCE) # half_bits (\<lambda>_. INFRARED_RC5_BIT) 0 bs)) d = Some d' \<and>
    receiving infrared_protocol_rc5 bs lev sd d'"
proof -
  let ?spec = infrared_protocol_rc5 and ?h = INFRARED_RC5_BIT
  obtain c cs where bs: "bs = False # c # cs" "length cs = 12"
    using assms(2,3) by (cases bs; cases "tl bs") auto
  have tab: "bit1_mark (spec_timings ?spec) = ?h" "preamble_mark (spec_timings ?spec) = 0" "manchester_times (spec_timings ?spec)"
    "manchester_start_from_space rc5_data" by (simp_all add: rc5_data_def manchester_times_def infrared_constants)
  have m: "merge ((True, ?h) # half_bits (\<lambda>_. ?h) 1 (c # cs)) = pulses ?h False (c # cs) @ last_half ?h bs"
    using merge_half_bits [of "c # cs" 1 "\<lambda>_. ?h" ?h False] by (simp add: bs(1) last_half_def)
  have "\<exists>t qs. pulses ?h False (c # cs) @ last_half ?h bs = (True, t) # qs" by (cases c) auto
  with m have "merge ((False, INFRARED_RC5_SILENCE) # half_bits (\<lambda>_. ?h) 0 bs) =
      (False, INFRARED_RC5_SILENCE + ?h) # pulses ?h False (c # cs) @ last_half ?h bs"
    by (auto simp: bs(1))
  moreover from fresh_space [OF assms(1) tab(2), of "INFRARED_RC5_SILENCE + ?h"] obtain m1 d1 where
    d1: "infrared_common_decode ?spec d False (INFRARED_RC5_SILENCE + ?h) = Some (m1, d1)" "receiving ?spec [] False False d1" by blast
  have len: "length (False # c # cs) \<le> databit_len ?spec ! 0" "bs \<noteq> []" "length bs \<le> databit_len ?spec ! 0" "last bs = last (c # cs)"
    using bs by simp_all
  from feed_from_space [OF rc5_plain tab(4) len(1) d1(2) tab(3), unfolded tab(1)] obtain d2 where
    d2: "feed ?spec (pulses ?h False (c # cs)) d1 = Some d2" "receiving ?spec bs (last bs) True d2" unfolding len(4) unfolding bs(1) by blast
  from feed_last_half [OF rc5_plain len(2) d2(2) len(3), unfolded tab(1)] obtain d3 lev sd where
    d3: "feed ?spec (last_half ?h bs) d2 = Some d3" "receiving ?spec bs lev sd d3" by blast
  ultimately show ?thesis using d1(1) d2(1) by (auto simp del: pulses.simps simp: hear_append)
qed

section \<open>RC6\<close>

abbreviation (input) rc6_half :: nat where "rc6_half \<equiv> INFRARED_RC6_BIT"

lemma rc6_plain: "k \<noteq> 4 \<Longrightarrow> k \<noteq> 5 \<Longrightarrow> plain infrared_protocol_rc6 rc6_data k"
  by (auto simp: plain_def manchester_times_def infrared_tables infrared_decoder_rc6_decode_manchester_def)

lemma rc6_times: "bit1_mark (spec_timings rc6_data) = rc6_half" "bit_tolerance (spec_timings rc6_data) = 120"
  "min_split_time (spec_timings rc6_data) = 2700" "rc6_half = 444" "preamble_mark (spec_timings rc6_data) = 2666" "preamble_space (spec_timings rc6_data) = 889"
  "preamble_tolerance (spec_timings rc6_data) = 200"
  by (simp_all add: infrared_tables)

text \<open>The toggle bit has halves of twice the length: the pulse that ends in its middle or at its start tells the bit.\<close>

lemma rc6_toggle:
  assumes "length bs = 4" "t = (if b then 3 * rc6_half else rc6_half)"
  shows "decodes infrared_protocol_rc6 bs True True t (bs @ [b]) True"
proof (rule decodesI)
  fix d :: InfraredCommonDecoder
  assume d: "databit_cnt d = length bs" "switch_detect d = True" "holds_bits (data d) bs" "length (data d) = data_bytes infrared_protocol_rc6 + 2"
  let ?xs = "(data d)[0 := data d ! 0 OR push_bit 4 (of_bool b)]"
  have "infrared_decoder_rc6_decode_manchester d True t = Some (InfraredStatusOk, d\<lparr>databit_cnt := 5, data := ?xs\<rparr>)"
    using d(1,2,4) assms by (cases b) (simp_all add: infrared_decoder_rc6_decode_manchester_def rd_Some wr_Some MATCH_TIMING_def rc6_times)
  then have 1: "infrared_decoder_rc6_decode_manchester d True t = Some (InfraredStatusOk, d\<lparr>data := ?xs, databit_cnt := length (bs @ [b]), switch_detect := True\<rparr>)"
    using d(2) assms(1) by simp
  have "holds_bits ?xs (bs @ [b])" using holds_bits_snoc [OF d(3), of b] d(4) assms(1) by (cases b) simp_all
  with 1 show "\<exists>xs. decode infrared_protocol_rc6 d True t = Some (InfraredStatusOk, d\<lparr>data := xs, databit_cnt := length (bs @ [b]), switch_detect := True\<rparr>) \<and>
      holds_bits xs (bs @ [b]) \<and> length xs = data_bytes infrared_protocol_rc6 + 2"
    using d(4) by (intro exI [of _ ?xs]) simp
qed

lemma rc6_toggle_half:
  assumes "length bs = 5"
  shows "decodes infrared_protocol_rc6 bs sd lev (2 * rc6_half) bs sd"
proof (rule decodesI)
  fix d :: InfraredCommonDecoder
  assume d: "databit_cnt d = length bs" "switch_detect d = sd" "holds_bits (data d) bs" "length (data d) = data_bytes infrared_protocol_rc6 + 2"
  have "d = d\<lparr>data := data d, databit_cnt := length bs, switch_detect := sd\<rparr>" using d(1,2) by simp
  moreover have "decode infrared_protocol_rc6 d lev (2 * rc6_half) = Some (InfraredStatusOk, d)"
    using d(1) assms by (simp add: infrared_decoder_rc6_decode_manchester_def MATCH_TIMING_def rc6_times)
  ultimately show "\<exists>xs. decode infrared_protocol_rc6 d lev (2 * rc6_half) = Some (InfraredStatusOk, d\<lparr>data := xs, databit_cnt := length bs, switch_detect := sd\<rparr>) \<and>
      holds_bits xs bs \<and> length xs = data_bytes infrared_protocol_rc6 + 2"
    using d(3,4) by metis
qed

lemma rc6_after_toggle:
  assumes "length bs = 5" "t = rc6_half \<or> t = 3 * rc6_half"
  shows "decodes infrared_protocol_rc6 bs sd lev t (bs @ [lev]) True"
proof (rule decodesI)
  fix d :: InfraredCommonDecoder
  assume d: "databit_cnt d = length bs" "switch_detect d = sd" "holds_bits (data d) bs" "length (data d) = data_bytes infrared_protocol_rc6 + 2"
  let ?d = "d\<lparr>switch_detect := True\<rparr>"
  from accumulates [of ?d bs infrared_protocol_rc6 lev] d assms(1) obtain xs where
    x: "accumulate_lsb ?d lev = Some (?d\<lparr>data := xs, databit_cnt := length (bs @ [lev])\<rparr>)" "holds_bits xs (bs @ [lev])" "length xs = data_bytes infrared_protocol_rc6 + 2"
    by auto
  have "infrared_common_decode_manchester rc6_data (d\<lparr>switch_detect := False\<rparr>) lev rc6_half = Some (InfraredStatusOk, ?d\<lparr>data := xs, databit_cnt := length (bs @ [lev])\<rparr>)"
    using x(1) d(1) assms(1) by (simp add: infrared_common_decode_manchester_def Let_def MATCH_TIMING_def rc6_times) (simp add: rc6_data_def)
  moreover have "infrared_decoder_rc6_decode_manchester d lev t = infrared_common_decode_manchester rc6_data (d\<lparr>switch_detect := False\<rparr>) lev rc6_half"
    using d(1) assms by (auto simp: infrared_decoder_rc6_decode_manchester_def MATCH_TIMING_def rc6_times)
  ultimately show "\<exists>xs. decode infrared_protocol_rc6 d lev t =
      Some (InfraredStatusOk, d\<lparr>data := xs, databit_cnt := length (bs @ [lev]), switch_detect := True\<rparr>) \<and>
      holds_bits xs (bs @ [lev]) \<and> length xs = data_bytes infrared_protocol_rc6 + 2"
    using x(2,3) by (intro exI [of _ xs]) simp
qed

definition rc6_toggle_pulses :: "bool \<Rightarrow> bool \<Rightarrow> (bool \<times> nat) list" where
  "rc6_toggle_pulses t b = (if t then [(True, 3 * rc6_half)] else [(True, rc6_half), (False, 2 * rc6_half)]) @
     (if b = t then [(\<not> t, 2 * rc6_half), (b, rc6_half)] else [(b, 3 * rc6_half)])"

lemma feed_toggle:
  assumes "receiving infrared_protocol_rc6 bs False True d" "length bs = 4"
  shows "\<exists>d'. feed infrared_protocol_rc6 (rc6_toggle_pulses t b) d = Some d' \<and> receiving infrared_protocol_rc6 (bs @ [t, b]) b True d'"
proof -
  let ?spec = infrared_protocol_rc6
  have len: "length (bs @ [t]) = 5" using assms(2) by simp
  note times = rc6_times
  have end1: "\<exists>d'. feed ?spec [(b, x)] d = Some d' \<and> receiving ?spec (bs @ [t, b]) b True d'"
    if "receiving ?spec (bs @ [t]) (\<not> b) True d" "x = rc6_half \<or> x = 3 * rc6_half" for d x
    by (rule feed_step [OF that(1) rc6_after_toggle [OF len that(2)]]) (use assms(2) that(2) in \<open>auto simp: times\<close>)
  have second: "\<exists>d'. feed ?spec (if b = t then [(\<not> t, 2 * rc6_half), (b, rc6_half)] else [(b, 3 * rc6_half)]) d = Some d' \<and>
      receiving ?spec (bs @ [t, b]) b True d'"
    if r: "receiving ?spec (bs @ [t]) t True d" for d
  proof (cases "b = t")
    case True
    have "\<exists>d'. feed ?spec ((\<not> t, 2 * rc6_half) # [(b, rc6_half)]) d = Some d' \<and> receiving ?spec (bs @ [t, b]) b True d'"
      by (rule feed_step [OF _ rc6_toggle_half [OF len] _ _ _ end1]) (use r True assms(2) in \<open>auto simp: times\<close>)
    then show ?thesis using True by simp
  next
    case False
    then show ?thesis using end1 [of d "3 * rc6_half"] r by simp
  qed
  show ?thesis
  proof (cases t)
    case True
    have "\<exists>d'. feed ?spec ((True, 3 * rc6_half) # (if b = t then [(\<not> t, 2 * rc6_half), (b, rc6_half)] else [(b, 3 * rc6_half)])) d = Some d' \<and>
        receiving ?spec (bs @ [t, b]) b True d'"
      by (rule feed_step [OF _ rc6_toggle [OF assms(2), of _ t] _ _ _ second]) (use assms True in \<open>simp_all add: times\<close>)
    then show ?thesis using True by (cases b) (simp_all add: rc6_toggle_pulses_def del: hear.simps)
  next
    case False
    have "\<exists>d'. feed ?spec ((True, rc6_half) # (False, 2 * rc6_half) # (if b = t then [(\<not> t, 2 * rc6_half), (b, rc6_half)] else [(b, 3 * rc6_half)])) d = Some d' \<and>
        receiving ?spec (bs @ [t, b]) b True d'"
    proof (rule feed_step [OF _ rc6_toggle [OF assms(2), of _ t]])
      fix d' assume r: "receiving ?spec (bs @ [t]) True True d'"
      show "\<exists>d''. feed ?spec ((False, 2 * rc6_half) # (if b = t then [(\<not> t, 2 * rc6_half), (b, rc6_half)] else [(b, 3 * rc6_half)])) d' = Some d'' \<and>
          receiving ?spec (bs @ [t, b]) b True d''"
        by (rule feed_step [OF _ rc6_toggle_half [OF len] _ _ _ second]) (use r False assms(2) in \<open>auto simp: times\<close>)
    qed (use assms False in \<open>simp_all add: times\<close>)
    then show ?thesis using False by (cases b) (simp_all add: rc6_toggle_pulses_def del: hear.simps)
  qed
qed

lemma feed_rc6:
  assumes "fresh infrared_protocol_rc6 d" "length bs = 21" "take 4 bs = [True, False, False, False]"
  shows "\<exists>d' lev sd. feed infrared_protocol_rc6 (merge ((False, INFRARED_RC6_SILENCE) # (True, INFRARED_RC6_PREAMBLE_MARK) # (False, INFRARED_RC6_PREAMBLE_SPACE) #
      half_bits (\<lambda>k. if k = 4 then 2 * rc6_half else rc6_half) 0 bs)) d = Some d' \<and> receiving infrared_protocol_rc6 bs lev sd d'"
proof -
  let ?spec = infrared_protocol_rc6 and ?hf = "\<lambda>k::nat. if k = 4 then 2 * rc6_half else rc6_half"
  define t b c cs where "t = bs ! 4" and "b = bs ! 5" and "c = bs ! 6" and "cs = drop 7 bs"
  have "drop 4 bs = bs ! 4 # bs ! 5 # bs ! 6 # drop 7 bs"
    using Cons_nth_drop_Suc [of 4 bs] Cons_nth_drop_Suc [of 5 bs] Cons_nth_drop_Suc [of 6 bs] assms(2) by simp
  with append_take_drop_id [of 4 bs] have "bs = take 4 bs @ bs ! 4 # bs ! 5 # bs ! 6 # drop 7 bs" by simp
  then have bs: "bs = [True, False, False, False] @ t # b # c # cs" by (simp only: assms(3) t_def b_def c_def cs_def)
  have cs: "length cs = 14" using assms(2) by (simp add: cs_def)
  have m: "merge ((\<not> b, rc6_half) # half_bits ?hf 6 (c # cs)) = pulses rc6_half b (c # cs) @ last_half rc6_half bs"
    using merge_half_bits [of "c # cs" 6 ?hf rc6_half b] by (simp add: bs last_half_def)
  obtain x qs where x: "pulses rc6_half b (c # cs) @ last_half rc6_half bs = (\<not> b, x) # qs" by (cases "c = b") auto
  have merged: "merge ((False, INFRARED_RC6_SILENCE) # (True, INFRARED_RC6_PREAMBLE_MARK) # (False, INFRARED_RC6_PREAMBLE_SPACE) # half_bits ?hf 0 bs) =
      (False, INFRARED_RC6_SILENCE) # [(True, INFRARED_RC6_PREAMBLE_MARK), (False, INFRARED_RC6_PREAMBLE_SPACE)] @ (True, rc6_half) #
        pulses rc6_half True [False, False, False] @ rc6_toggle_pulses t b @ pulses rc6_half b (c # cs) @ last_half rc6_half bs"
    unfolding x using m [unfolded x] by (cases t; cases b) (simp_all add: bs eval_nat_numeral rc6_toggle_pulses_def)
  note times = rc6_times
  have tab: "bit1_mark (spec_timings ?spec) = rc6_half" "manchester_times (spec_timings ?spec)"
    using plain_decode(4) [OF rc6_plain [of 0]] by (simp_all add: times)
  from fresh_pulse [OF assms(1), of INFRARED_RC6_SILENCE] obtain m1 d1 where
    d1: "infrared_common_decode ?spec d False INFRARED_RC6_SILENCE = Some (m1, d1)" "waiting ?spec False d1" by (auto simp: times)
  from preamble_pulses [OF d1(2), of INFRARED_RC6_PREAMBLE_MARK INFRARED_RC6_PREAMBLE_SPACE] obtain d2 where
    d2: "feed ?spec [(True, INFRARED_RC6_PREAMBLE_MARK), (False, INFRARED_RC6_PREAMBLE_SPACE)] d1 = Some d2" "receiving ?spec [] False False d2"
    by (auto simp: preamble_matches_def MATCH_TIMING_def infrared_tables)
  have "decodes ?spec [] False True rc6_half [True] True"
    using manchester_begin [OF rc6_plain, of "[]" True] by (simp add: rc6_data_def rc6_times(4))
  from feed_pulse [of _ _ _ _ d2, OF _ this] d2(2) obtain m3 d3 where
    d3: "infrared_common_decode ?spec d2 True rc6_half = Some (m3, d3)" "receiving ?spec [True] True True d3" by (auto simp: times)
  have "\<forall>k. length [True] \<le> k \<longrightarrow> k < length ([True] @ [False, False, False]) \<longrightarrow> plain ?spec rc6_data k" by (auto intro!: rc6_plain)
  from feed_middles [OF this _ _ d3(2) tab(2), unfolded tab(1)] obtain d4 where
    d4: "feed ?spec (pulses rc6_half True [False, False, False]) d3 = Some d4" "receiving ?spec [True, False, False, False] False True d4" by auto
  from feed_toggle [OF d4(2), of t b] obtain d5 where
    d5: "feed ?spec (rc6_toggle_pulses t b) d4 = Some d5" "receiving ?spec [True, False, False, False, t, b] b True d5" by auto
  have "\<forall>k. length [True, False, False, False, t, b] \<le> k \<longrightarrow> k < length ([True, False, False, False, t, b] @ c # cs) \<longrightarrow> plain ?spec rc6_data k"
    by (auto intro!: rc6_plain)
  from feed_middles [OF this _ _ d5(2) tab(2), unfolded tab(1)] obtain d6 where
    d6: "feed ?spec (pulses rc6_half b (c # cs)) d5 = Some d6" "receiving ?spec bs (last bs) True d6" using cs by (auto simp: bs)
  have "bs \<noteq> []" by (simp add: bs)
  from feed_last_half [OF rc6_plain this d6(2), unfolded tab(1)] assms(2) obtain d7 lev sd where
    d7: "feed ?spec (last_half rc6_half bs) d6 = Some d7" "receiving ?spec bs lev sd d7" by auto
  have "feed ?spec (merge ((False, INFRARED_RC6_SILENCE) # (True, INFRARED_RC6_PREAMBLE_MARK) # (False, INFRARED_RC6_PREAMBLE_SPACE) # half_bits ?hf 0 bs)) d = Some d7"
    unfolding merged hear.simps(2) [of _ "(False, INFRARED_RC6_SILENCE)"] hear.simps(2) [of _ "(True, rc6_half)"] hear_append fst_conv snd_conv d1(1) bind.bind_lunit prod.case
      d2(1) d3(1) d4(1) d5(1) d6(1) d7(1) ..
  with d7(2) show ?thesis by blast
qed

end
