(* ===== verification/InfraredRoundTrip.thy ===== *)
theory InfraredRoundTrip
  imports InfraredManchester
begin

text \<open>
  The infrared interface end to end: every message that fits its protocol is sent and understood
  (\<open>infrared_round_trip\<close>), and the frame that overruns the Pioneer decoder (\<open>infrared_pioneer_overflow\<close>).
\<close>

section \<open>From one end to the other\<close>

lemma merge_bit_pulses: "merge (bit_pulses t bs @ [(True, x)]) = bit_pulses t bs @ [(True, x)]"
proof (induction bs)
  case (Cons b bs)
  have "\<exists>y qs. bit_pulses t bs @ [(True, x)] = (True, y) # qs" by (cases bs) auto
  with Cons show ?case by auto
qed simp

lemma merge_pdwm_frame: "merge (pdwm_frame t bs b) = pdwm_frame t bs b" "merge (butlast (pdwm_frame t bs b)) = butlast (pdwm_frame t bs b)"
proof -
  have "\<exists>y qs. bit_pulses t bs @ [(True, bit_time t True b)] = (True, y) # qs" by (cases bs) auto
  then show "merge (pdwm_frame t bs b) = pdwm_frame t bs b" by (auto simp: pdwm_frame_def merge_bit_pulses)
  have m: "merge (bit_pulses t bs) = bit_pulses t bs"
  proof (induction bs)
    case (Cons b bs)
    then show ?case by (cases bs) auto
  qed simp
  have "butlast (pdwm_frame t bs b) = (False, silence_time t) # (True, preamble_mark t) # (False, preamble_space t) # bit_pulses t bs"
    by (simp add: pdwm_frame_def butlast_append)
  then show "merge (butlast (pdwm_frame t bs b)) = butlast (pdwm_frame t bs b)" using m by (cases bs) auto
qed

text \<open>A decoder and an encoder that were used before.\<close>

definition decoder_shape :: "InfraredEncoderDecoder \<Rightarrow> InfraredCommonDecoder \<Rightarrow> bool" where
  "decoder_shape t d \<longleftrightarrow> (\<exists>d0. dec_alloc t = Some d0 \<and> length (timings d) = length (timings d0) \<and> length (data d) = length (data d0) \<and>
     timings_cnt d \<le> length (timings d0))"

definition encoder_shape :: "InfraredEncoderDecoder \<Rightarrow> InfraredCommonEncoder \<Rightarrow> bool" where
  "encoder_shape t e \<longleftrightarrow> (\<exists>e0. enc_alloc t = Some e0 \<and> length (enc_data e) = length (enc_data e0))"

text \<open>The decoder that is reset and then hears the pulses has the message.\<close>

definition understands :: "InfraredEncoderDecoder \<Rightarrow> (bool \<times> nat) list \<Rightarrow> InfraredMessage \<Rightarrow> bool" where
  "understands t ps m \<longleftrightarrow> (\<forall>d. decoder_shape t d \<longrightarrow> (\<exists>d1 d2 d3. dec_reset t d = Some d1 \<and> hear (dec_decode t) (merge ps) d1 = Some d2 \<and>
     dec_check_ready t d2 = Some (True, d3) \<and> message d3 = m))"

definition delivers :: "InfraredEncoderDecoder \<Rightarrow> InfraredMessage \<Rightarrow> InfraredMessage \<Rightarrow> bool" where
  "delivers t m m' \<longleftrightarrow> (\<forall>e. encoder_shape t e \<longrightarrow> (\<exists>e' ps. enc_reset t e m = Some e' \<and> sends (enc_encode t) e' ps \<and> understands t ps m'))"

lemma deliver:
  assumes "encodes_from pre (enc_reset t) spec n m" "n \<in> set (databit_lengths spec)"
    and t: "dec_alloc t = infrared_common_decoder_alloc spec" "dec_reset t = infrared_common_decoder_reset spec"
      "dec_decode t = infrared_common_decode spec" "dec_check_ready t = infrared_common_decoder_check_ready spec"
      "enc_alloc t = infrared_common_encoder_alloc pdwm spec"
    and frame: "\<And>xs e. loaded xs n e \<Longrightarrow> \<forall>k < length pre. lsb_bit xs k = pre ! k \<Longrightarrow> \<exists>ps. sends (enc_encode t) e ps \<and>
      (\<forall>d. fresh spec d \<longrightarrow> (\<exists>d' lev sd. feed spec (merge ps) d = Some d' \<and> receiving spec (map (lsb_bit xs) [0..<n]) lev sd d'))"
  shows "delivers t m (m\<lparr>repeat := False\<rparr>)"
  unfolding delivers_def
proof (intro allI impI)
  fix e assume "encoder_shape t e"
  then have "length (enc_data e) = data_bytes spec + 36"
    by (auto simp: encoder_shape_def t(5) infrared_common_encoder_alloc_def bind_eq_Some_conv Let_def)
  with assms(1) obtain e' xs where e: "enc_reset t e m = Some e'" "loaded xs n e'" "reads spec n xs m" "\<forall>k < length pre. lsb_bit xs k = pre ! k"
    by (auto simp: encodes_from_def)
  from frame [OF e(2,4)] obtain ps where ps: "sends (enc_encode t) e' ps"
    "\<And>d. fresh spec d \<Longrightarrow> \<exists>d' lev sd. feed spec (merge ps) d = Some d' \<and> receiving spec (map (lsb_bit xs) [0..<n]) lev sd d'" by blast
  have "understands t ps (m\<lparr>repeat := False\<rparr>)"
    unfolding understands_def
  proof (intro allI impI)
    fix d assume "decoder_shape t d"
    then have "data_ok spec d" "timings_cnt d \<le> 6"
      by (auto simp: decoder_shape_def t(1) infrared_common_decoder_alloc_def bind_eq_Some_conv data_ok_def)
    from reset_fresh [OF this] obtain d1 where d1: "infrared_common_decoder_reset spec d = Some d1" "fresh spec d1" by blast
    from ps(2) [OF d1(2)] obtain d2 lev sd where d2: "feed spec (merge ps) d1 = Some d2" "receiving spec (map (lsb_bit xs) [0..<n]) lev sd d2" by blast
    have "lsb_bit (data d2) k = lsb_bit xs k" if "k < n" for k
    proof -
      have "k div 8 \<le> (n - 1) div 8" using that by (intro div_le_mono) simp
      then have "k div 8 < (n + 7) div 8" using that by linarith
      then show ?thesis using d2(2) that by (simp add: receiving_def holds_bits_def)
    qed
    with e(3) d2(2) obtain d3 where d3: "interpret_data spec d2 = Some (True, d3)" "message d3 = m\<lparr>repeat := False\<rparr>"
      by (auto simp: reads_def receiving_def data_ok_def)
    have "databit_cnt d2 = n" using d2(2) by (simp add: receiving_def)
    then show "\<exists>d1 d2 d3. dec_reset t d = Some d1 \<and> hear (dec_decode t) (merge ps) d1 = Some d2 \<and>
        dec_check_ready t d2 = Some (True, d3) \<and> message d3 = m\<lparr>repeat := False\<rparr>"
      using d1(1) d2(1) d3 assms(2) by (simp add: t infrared_common_decoder_check_ready_def)
  qed
  with e(1) ps(1) show "\<exists>e' ps. enc_reset t e m = Some e' \<and> sends (enc_encode t) e' ps \<and> understands t ps (m\<lparr>repeat := False\<rparr>)" by blast
qed

text \<open>The three kinds of frames with pulse distance or width coding.\<close>

lemma pdwm_tables:
  "pdwm_protocol infrared_protocol_nec nec_data" "pdwm_protocol infrared_protocol_samsung32 samsung32_data"
  "pdwm_protocol infrared_protocol_kaseikyo kaseikyo_data" "pdwm_protocol infrared_protocol_rca rca_data"
  "pdwm_protocol infrared_protocol_sirc sirc_data" "pdwm_protocol infrared_protocol_pioneer pioneer_data"
  by (simp_all add: pdwm_protocol_def separate_def distance_coded_def bit_time_def MATCH_TIMING_def infrared_tables Let_def)

lemma distance_frame:
  assumes "pdwm_protocol spec tab" "distance_coded (spec_timings tab)" "loaded xs n e" "n \<le> databit_len spec ! 0"
  shows "\<exists>ps. sends (infrared_common_encode spec) e ps \<and>
      (\<forall>d. fresh spec d \<longrightarrow> (\<exists>d' lev sd. feed spec (merge ps) d = Some d' \<and> receiving spec (map (lsb_bit xs) [0..<n]) lev sd d'))"
proof (intro exI [of _ "pdwm_frame (spec_timings tab) (map (lsb_bit xs) [0..<n]) True"] conjI allI impI)
  show "sends (infrared_common_encode spec) e (pdwm_frame (spec_timings tab) (map (lsb_bit xs) [0..<n]) True)"
    by (rule sends_frame(1) [OF assms(1,3,2)])
  fix d assume "fresh spec d"
  from feed_frame(1) [OF assms(1) this, of "map (lsb_bit xs) [0..<n]" True] assms(2,4)
  show "\<exists>d' lev sd. feed spec (merge (pdwm_frame (spec_timings tab) (map (lsb_bit xs) [0..<n]) True)) d = Some d' \<and>
      receiving spec (map (lsb_bit xs) [0..<n]) lev sd d'"
    by (auto simp: merge_pdwm_frame)
qed

lemma width_frame:
  assumes "pdwm_protocol spec tab" "\<not> distance_coded (spec_timings tab)" "follows step spec" "loaded xs n e" "n \<le> databit_len spec ! 0"
  shows "\<exists>ps. sends step e ps \<and>
      (\<forall>d. fresh spec d \<longrightarrow> (\<exists>d' lev sd. feed spec (merge ps) d = Some d' \<and> receiving spec (map (lsb_bit xs) [0..<n]) lev sd d'))"
proof (intro exI [of _ "pdwm_frame (spec_timings tab) (map (lsb_bit xs) [0..<n - 1]) (lsb_bit xs (n - 1))"] conjI allI impI)
  show "sends step e (pdwm_frame (spec_timings tab) (map (lsb_bit xs) [0..<n - 1]) (lsb_bit xs (n - 1)))"
    by (rule sends_frame(2) [OF assms(1,4,2,3)])
  have n: "0 < n" using assms(4) by (simp add: loaded_def)
  then have "[0..<n] = [0..<n - 1] @ [n - 1]" by (metis Suc_diff_1 upt_Suc_append zero_le)
  then have u: "map (lsb_bit xs) [0..<n] = map (lsb_bit xs) [0..<n - 1] @ [lsb_bit xs (n - 1)]" by simp
  fix d assume "fresh spec d"
  from feed_frame(1) [OF assms(1) this, of "map (lsb_bit xs) [0..<n - 1]" "lsb_bit xs (n - 1)"] assms(2,5) n
  show "\<exists>d' lev sd. feed spec (merge (pdwm_frame (spec_timings tab) (map (lsb_bit xs) [0..<n - 1]) (lsb_bit xs (n - 1)))) d = Some d' \<and>
      receiving spec (map (lsb_bit xs) [0..<n]) lev sd d'"
    unfolding u by (auto simp: merge_pdwm_frame)
qed

lemma pioneer_frame:
  assumes "loaded xs 33 e"
  shows "\<exists>ps. sends infrared_encoder_pioneer_encode e ps \<and>
      (\<forall>d. fresh infrared_protocol_pioneer d \<longrightarrow> (\<exists>d' lev sd. feed infrared_protocol_pioneer (merge ps) d = Some d' \<and>
        receiving infrared_protocol_pioneer (map (lsb_bit xs) [0..<33]) lev sd d'))"
proof (intro exI [of _ "butlast (pdwm_frame (spec_timings pioneer_data) (map (lsb_bit xs) [0..<33]) True)"] conjI allI impI)
  show "sends infrared_encoder_pioneer_encode e (butlast (pdwm_frame (spec_timings pioneer_data) (map (lsb_bit xs) [0..<33]) True))"
    by (rule sends_frame(3) [OF pdwm_tables(6) assms]) simp_all
  fix d assume "fresh infrared_protocol_pioneer d"
  moreover have "distance_coded (spec_timings pioneer_data)" by (simp add: distance_coded_def infrared_tables)
  then have "length (map (lsb_bit xs) [0..<33]) + of_bool (\<not> distance_coded (spec_timings pioneer_data)) \<le> databit_len infrared_protocol_pioneer ! 0"
    by simp
  ultimately show "\<exists>d' lev sd. feed infrared_protocol_pioneer (merge (butlast (pdwm_frame (spec_timings pioneer_data) (map (lsb_bit xs) [0..<33]) True))) d = Some d' \<and>
      receiving infrared_protocol_pioneer (map (lsb_bit xs) [0..<33]) lev sd d'"
    unfolding merge_pdwm_frame using feed_frame(2) [OF pdwm_tables(6)] by blast
qed

lemma rc5_frame:
  assumes "loaded xs 14 e" "\<forall>k < length [False]. lsb_bit xs k = [False] ! k"
  shows "\<exists>ps. sends (infrared_common_encode infrared_protocol_rc5) e ps \<and>
      (\<forall>d. fresh infrared_protocol_rc5 d \<longrightarrow> (\<exists>d' lev sd. feed infrared_protocol_rc5 (merge ps) d = Some d' \<and>
        receiving infrared_protocol_rc5 (map (lsb_bit xs) [0..<14]) lev sd d'))"
proof (intro exI [of _ "(False, INFRARED_RC5_SILENCE) # half_bits (\<lambda>_. INFRARED_RC5_BIT) 0 (map (lsb_bit xs) [0..<14])"] conjI allI impI)
  show "sends (infrared_common_encode infrared_protocol_rc5) e
      ((False, INFRARED_RC5_SILENCE) # half_bits (\<lambda>_. INFRARED_RC5_BIT) 0 (map (lsb_bit xs) [0..<14]))"
    using sends_manchester_frame [OF manchester_encoder_rc5 assms(1)] by (simp add: rc5_data_def)
  fix d assume d: "fresh infrared_protocol_rc5 d"
  have "\<not> hd (map (lsb_bit xs) [0..<14])" using assms(2) by (simp add: hd_map)
  from feed_rc5 [OF d _ this] show "\<exists>d' lev sd. feed infrared_protocol_rc5 (merge ((False, INFRARED_RC5_SILENCE) #
      half_bits (\<lambda>_. INFRARED_RC5_BIT) 0 (map (lsb_bit xs) [0..<14]))) d = Some d' \<and>
      receiving infrared_protocol_rc5 (map (lsb_bit xs) [0..<14]) lev sd d'" by simp
qed

lemma rc6_frame:
  assumes "loaded xs 21 e" "\<forall>k < length [True, False, False, False]. lsb_bit xs k = [True, False, False, False] ! k"
  shows "\<exists>ps. sends (infrared_common_encode infrared_protocol_rc6) e ps \<and>
      (\<forall>d. fresh infrared_protocol_rc6 d \<longrightarrow> (\<exists>d' lev sd. feed infrared_protocol_rc6 (merge ps) d = Some d' \<and>
        receiving infrared_protocol_rc6 (map (lsb_bit xs) [0..<21]) lev sd d'))"
proof (intro exI [of _ "(False, INFRARED_RC6_SILENCE) # (True, INFRARED_RC6_PREAMBLE_MARK) # (False, INFRARED_RC6_PREAMBLE_SPACE) #
    half_bits (\<lambda>k. if k = 4 then 2 * INFRARED_RC6_BIT else INFRARED_RC6_BIT) 0 (map (lsb_bit xs) [0..<21])"] conjI allI impI)
  show "sends (infrared_common_encode infrared_protocol_rc6) e
      ((False, INFRARED_RC6_SILENCE) # (True, INFRARED_RC6_PREAMBLE_MARK) # (False, INFRARED_RC6_PREAMBLE_SPACE) #
        half_bits (\<lambda>k. if k = 4 then 2 * INFRARED_RC6_BIT else INFRARED_RC6_BIT) 0 (map (lsb_bit xs) [0..<21]))"
    using sends_manchester_frame [OF manchester_encoder_rc6 assms(1)] by (simp add: rc6_data_def INFRARED_RC6_PREAMBLE_MARK_def)
  fix d assume d: "fresh infrared_protocol_rc6 d"
  have "take 4 (map (lsb_bit xs) [0..<21]) = [lsb_bit xs 0, lsb_bit xs 1, lsb_bit xs 2, lsb_bit xs 3]"
    by (simp add: take_map upt_rec numeral_2_eq_2 numeral_3_eq_3 eval_nat_numeral)
  moreover have "lsb_bit xs 0" "\<not> lsb_bit xs 1" "\<not> lsb_bit xs 2" "\<not> lsb_bit xs 3"
    using assms(2) [rule_format, of 0] assms(2) [rule_format, of 1] assms(2) [rule_format, of 2] assms(2) [rule_format, of 3] by simp_all
  ultimately have "take 4 (map (lsb_bit xs) [0..<21]) = [True, False, False, False]" by simp
  from feed_rc6 [OF d _ this] show "\<exists>d' lev sd. feed infrared_protocol_rc6 (merge ((False, INFRARED_RC6_SILENCE) # (True, INFRARED_RC6_PREAMBLE_MARK) # (False, INFRARED_RC6_PREAMBLE_SPACE) #
        half_bits (\<lambda>k. if k = 4 then 2 * INFRARED_RC6_BIT else INFRARED_RC6_BIT) 0 (map (lsb_bit xs) [0..<21]))) d = Some d' \<and>
      receiving infrared_protocol_rc6 (map (lsb_bit xs) [0..<21]) lev sd d'" by simp
qed

text \<open>The rows of the table.\<close>

lemma table_length: "length infrared_encoder_decoder = 8"
  by (simp add: infrared_encoder_decoder_def)

lemmas wrapper_defs = infrared_decoder_nec_alloc_def infrared_decoder_nec_decode_def infrared_decoder_nec_reset_def infrared_decoder_nec_check_ready_def
  infrared_encoder_nec_alloc_def infrared_encoder_nec_encode_def
  infrared_decoder_samsung32_alloc_def infrared_decoder_samsung32_decode_def infrared_decoder_samsung32_reset_def infrared_decoder_samsung32_check_ready_def
  infrared_encoder_samsung32_alloc_def infrared_encoder_samsung32_encode_def
  infrared_decoder_rc5_alloc_def infrared_decoder_rc5_decode_def infrared_decoder_rc5_reset_def infrared_decoder_rc5_check_ready_def
  infrared_encoder_rc5_alloc_def infrared_encoder_rc5_encode_def
  infrared_decoder_rc6_alloc_def infrared_decoder_rc6_decode_def infrared_decoder_rc6_reset_def infrared_decoder_rc6_check_ready_def
  infrared_encoder_rc6_alloc_def infrared_encoder_rc6_encode_def
  infrared_decoder_sirc_alloc_def infrared_decoder_sirc_decode_def infrared_decoder_sirc_reset_def infrared_decoder_sirc_check_ready_def
  infrared_encoder_sirc_alloc_def
  infrared_decoder_pioneer_alloc_def infrared_decoder_pioneer_decode_def infrared_decoder_pioneer_reset_def infrared_decoder_pioneer_check_ready_def
  infrared_encoder_pioneer_alloc_def
  infrared_decoder_kaseikyo_alloc_def infrared_decoder_kaseikyo_decode_def infrared_decoder_kaseikyo_reset_def infrared_decoder_kaseikyo_check_ready_def
  infrared_encoder_kaseikyo_alloc_def infrared_encoder_kaseikyo_encode_def
  infrared_decoder_rca_alloc_def infrared_decoder_rca_decode_def infrared_decoder_rca_reset_def infrared_decoder_rca_check_ready_def
  infrared_encoder_rca_alloc_def infrared_encoder_rca_encode_def

lemma distance_tables: "distance_coded (spec_timings nec_data)" "distance_coded (spec_timings samsung32_data)" "distance_coded (spec_timings kaseikyo_data)"
  "distance_coded (spec_timings rca_data)" "\<not> distance_coded (spec_timings sirc_data)"
  by (simp_all add: distance_coded_def infrared_tables)

lemma deliver_nec:
  assumes "encodes infrared_encoder_nec_reset infrared_protocol_nec n m" "n \<in> {32, 42}"
  shows "delivers (infrared_encoder_decoder ! 0) m (m\<lparr>repeat := False\<rparr>)"
  by (rule deliver [where spec = infrared_protocol_nec and n = n and pre = "[]" and pdwm = True])
    (use assms distance_frame [OF pdwm_tables(1) distance_tables(1)] in \<open>auto simp: infrared_encoder_decoder_def wrapper_defs\<close>)

lemma deliver_samsung32:
  assumes "encodes infrared_encoder_samsung32_reset infrared_protocol_samsung32 32 m"
  shows "delivers (infrared_encoder_decoder ! 1) m (m\<lparr>repeat := False\<rparr>)"
  by (rule deliver [where spec = infrared_protocol_samsung32 and n = 32 and pre = "[]" and pdwm = True])
    (use assms distance_frame [OF pdwm_tables(2) distance_tables(2)] in \<open>auto simp: infrared_encoder_decoder_def wrapper_defs\<close>)

lemma deliver_rc5:
  assumes "encodes_from [False] infrared_encoder_rc5_reset infrared_protocol_rc5 14 m"
  shows "delivers (infrared_encoder_decoder ! 2) m (m\<lparr>repeat := False\<rparr>)"
  by (rule deliver [where spec = infrared_protocol_rc5 and n = 14 and pre = "[False]" and pdwm = False])
    (use assms rc5_frame in \<open>auto simp: infrared_encoder_decoder_def wrapper_defs\<close>)

lemma deliver_rc6:
  assumes "encodes_from [True, False, False, False] infrared_encoder_rc6_reset infrared_protocol_rc6 21 m"
  shows "delivers (infrared_encoder_decoder ! 3) m (m\<lparr>repeat := False\<rparr>)"
  by (rule deliver [where spec = infrared_protocol_rc6 and n = 21 and pre = "[True, False, False, False]" and pdwm = False])
    (use assms rc6_frame in \<open>simp_all add: infrared_encoder_decoder_def wrapper_defs\<close>)

lemma deliver_sirc:
  assumes "encodes infrared_encoder_sirc_reset infrared_protocol_sirc n m" "n \<in> {12, 15, 20}"
  shows "delivers (infrared_encoder_decoder ! 4) m (m\<lparr>repeat := False\<rparr>)"
  by (rule deliver [where spec = infrared_protocol_sirc and n = n and pre = "[]" and pdwm = True])
    (use assms width_frame [OF pdwm_tables(5) distance_tables(5) follows_sirc] in \<open>auto simp: infrared_encoder_decoder_def wrapper_defs\<close>)

lemma deliver_pioneer:
  assumes "encodes infrared_encoder_pioneer_reset infrared_protocol_pioneer 33 m"
  shows "delivers (infrared_encoder_decoder ! 5) m (m\<lparr>repeat := False\<rparr>)"
  by (rule deliver [where spec = infrared_protocol_pioneer and n = 33 and pre = "[]" and pdwm = True])
    (use assms pioneer_frame in \<open>auto simp: infrared_encoder_decoder_def wrapper_defs\<close>)

lemma deliver_kaseikyo:
  assumes "encodes infrared_encoder_kaseikyo_reset infrared_protocol_kaseikyo 48 m"
  shows "delivers (infrared_encoder_decoder ! 6) m (m\<lparr>repeat := False\<rparr>)"
  by (rule deliver [where spec = infrared_protocol_kaseikyo and n = 48 and pre = "[]" and pdwm = True])
    (use assms distance_frame [OF pdwm_tables(3) distance_tables(3)] in \<open>auto simp: infrared_encoder_decoder_def wrapper_defs\<close>)

lemma deliver_rca:
  assumes "encodes infrared_encoder_rca_reset infrared_protocol_rca 24 m"
  shows "delivers (infrared_encoder_decoder ! 7) m (m\<lparr>repeat := False\<rparr>)"
  by (rule deliver [where spec = infrared_protocol_rca and n = 24 and pre = "[]" and pdwm = True])
    (use assms distance_frame [OF pdwm_tables(4) distance_tables(4)] in \<open>auto simp: infrared_encoder_decoder_def wrapper_defs\<close>)

section \<open>The message that arrives\<close>

text \<open>A message fits when its address and command have the lengths that the interface gives for its protocol.\<close>

definition fits :: "InfraredMessage \<Rightarrow> bool" where
  "fits m \<longleftrightarrow> (\<exists>a c. infrared_get_protocol_address_length (msg_protocol m) = Some a \<and> unat (address m) < 2 ^ a \<and>
     infrared_get_protocol_command_length (msg_protocol m) = Some c \<and> unat (command m) < 2 ^ c)"

text \<open>
  What arrives. A command of RC5X loses its seventh bit: the interface gives it seven, the frame has six.
  An extended NEC message that looks like a simple one is read as the simple one.
\<close>

definition carried :: "InfraredMessage \<Rightarrow> InfraredMessage" where
  "carried m =
     (if msg_protocol m = InfraredProtocolRC5X then m\<lparr>command := command m AND 0x3F\<rparr>
      else if msg_protocol m = InfraredProtocolNECext \<and>
          ((ucast (command m) :: u8) = NOT (ucast (drop_bit 8 (command m))) \<and> (ucast (address m) :: u8) = NOT (ucast (drop_bit 8 (address m))))
      then m\<lparr>msg_protocol := InfraredProtocolNEC, address := address m AND 0xFF, command := command m AND 0xFF\<rparr>
      else if msg_protocol m = InfraredProtocolNEC42ext \<and>
          (address m AND 0x1FFF = NOT (drop_bit 13 (address m)) AND 0x1FFF \<and> command m AND 0xFF = NOT (drop_bit 8 (command m)) AND 0xFF)
      then m\<lparr>msg_protocol := InfraredProtocolNEC42, address := address m AND 0x1FFF, command := command m AND 0xFF\<rparr>
      else m)\<lparr>repeat := False\<rparr>"

lemma table_variants:
  "map get_protocol_variant infrared_encoder_decoder = [infrared_protocol_nec_get_variant, infrared_protocol_samsung32_get_variant,
     infrared_protocol_rc5_get_variant, infrared_protocol_rc6_get_variant, infrared_protocol_sirc_get_variant, infrared_protocol_pioneer_get_variant,
     infrared_protocol_kaseikyo_get_variant, infrared_protocol_rca_get_variant]"
  by (simp add: infrared_encoder_decoder_def)

lemma find_index_variants: "find_index p ts i = (case List.find (\<lambda>k. (map get_protocol_variant ts ! k) p \<noteq> None) [0..<length ts] of
    None \<Rightarrow> None | Some k \<Rightarrow> Some (i + k))"
proof (induction ts arbitrary: i)
  case (Cons t ts)
  have "List.find (\<lambda>k. (map get_protocol_variant (t # ts) ! k) p \<noteq> None) (map Suc ks) =
      map_option Suc (List.find (\<lambda>k. (map get_protocol_variant ts ! k) p \<noteq> None) ks)" for ks
    by (induction ks) auto
  from this [of "[0..<length ts]"] Cons.IH [of "i + 1"] show ?case
    by (cases "get_protocol_variant t p") (auto simp: upt_conv_Cons map_Suc_upt split: option.splits simp del: upt_Suc)
qed simp

lemma get_variant: "infrared_get_variant_by_protocol p = do { i \<leftarrow> infrared_find_index_by_protocol p; (map get_protocol_variant infrared_encoder_decoder ! i) p }"
proof -
  have "i < length infrared_encoder_decoder" if "infrared_find_index_by_protocol p = Some i" for i
    using that by (auto simp: infrared_find_index_by_protocol_def find_index_variants find_Some_iff split: option.splits)
  then show ?thesis by (cases "infrared_find_index_by_protocol p") (auto simp: infrared_get_variant_by_protocol_def rd_Some)
qed

lemma find_index_run: "infrared_find_index_by_protocol p = (let vs = [infrared_protocol_nec_get_variant, infrared_protocol_samsung32_get_variant,
     infrared_protocol_rc5_get_variant, infrared_protocol_rc6_get_variant, infrared_protocol_sirc_get_variant, infrared_protocol_pioneer_get_variant,
     infrared_protocol_kaseikyo_get_variant, infrared_protocol_rca_get_variant] in List.find (\<lambda>k. (vs ! k) p \<noteq> None) [0, 1, 2, 3, 4, 5, 6, 7])"
proof -
  have "[0..<length infrared_encoder_decoder] = [0, 1, 2, 3, 4, 5, 6, 7]" by (simp add: table_length upt_rec)
  then show ?thesis unfolding infrared_find_index_by_protocol_def find_index_variants table_variants
    by (simp only: Let_def) (auto split: option.splits)
qed

lemmas get_variant_defs = infrared_protocol_nec_get_variant_def infrared_protocol_samsung32_get_variant_def infrared_protocol_rc5_get_variant_def
  infrared_protocol_rc6_get_variant_def infrared_protocol_sirc_get_variant_def infrared_protocol_pioneer_get_variant_def
  infrared_protocol_kaseikyo_get_variant_def infrared_protocol_rca_get_variant_def

lemma variants:
  "infrared_get_variant_by_protocol InfraredProtocolNEC = Some infrared_protocol_variant_nec"
  "infrared_get_variant_by_protocol InfraredProtocolNECext = Some infrared_protocol_variant_necext"
  "infrared_get_variant_by_protocol InfraredProtocolNEC42 = Some infrared_protocol_variant_nec42"
  "infrared_get_variant_by_protocol InfraredProtocolNEC42ext = Some infrared_protocol_variant_nec42ext"
  "infrared_get_variant_by_protocol InfraredProtocolSamsung32 = Some infrared_protocol_variant_samsung32"
  "infrared_get_variant_by_protocol InfraredProtocolRC6 = Some infrared_protocol_variant_rc6"
  "infrared_get_variant_by_protocol InfraredProtocolRC5 = Some infrared_protocol_variant_rc5"
  "infrared_get_variant_by_protocol InfraredProtocolRC5X = Some infrared_protocol_variant_rc5x"
  "infrared_get_variant_by_protocol InfraredProtocolSIRC = Some infrared_protocol_variant_sirc"
  "infrared_get_variant_by_protocol InfraredProtocolSIRC15 = Some infrared_protocol_variant_sirc15"
  "infrared_get_variant_by_protocol InfraredProtocolSIRC20 = Some infrared_protocol_variant_sirc20"
  "infrared_get_variant_by_protocol InfraredProtocolKaseikyo = Some infrared_protocol_variant_kaseikyo"
  "infrared_get_variant_by_protocol InfraredProtocolRCA = Some infrared_protocol_variant_rca"
  "infrared_get_variant_by_protocol InfraredProtocolPioneer = Some infrared_protocol_variant_pioneer"
  "infrared_get_variant_by_protocol InfraredProtocolUnknown = None"
  unfolding get_variant table_variants find_index_run by (simp_all add: get_variant_defs)

lemmas variant_defs = infrared_protocol_variant_nec_def infrared_protocol_variant_necext_def infrared_protocol_variant_nec42_def
  infrared_protocol_variant_nec42ext_def infrared_protocol_variant_samsung32_def infrared_protocol_variant_rc6_def
  infrared_protocol_variant_rc5_def infrared_protocol_variant_rc5x_def infrared_protocol_variant_sirc_def
  infrared_protocol_variant_sirc15_def infrared_protocol_variant_sirc20_def infrared_protocol_variant_kaseikyo_def
  infrared_protocol_variant_rca_def infrared_protocol_variant_pioneer_def

lemma indices:
  "infrared_find_index_by_protocol InfraredProtocolNEC = Some 0"
  "infrared_find_index_by_protocol InfraredProtocolNECext = Some 0"
  "infrared_find_index_by_protocol InfraredProtocolNEC42 = Some 0"
  "infrared_find_index_by_protocol InfraredProtocolNEC42ext = Some 0"
  "infrared_find_index_by_protocol InfraredProtocolSamsung32 = Some 1"
  "infrared_find_index_by_protocol InfraredProtocolRC5 = Some 2"
  "infrared_find_index_by_protocol InfraredProtocolRC5X = Some 2"
  "infrared_find_index_by_protocol InfraredProtocolRC6 = Some 3"
  "infrared_find_index_by_protocol InfraredProtocolSIRC = Some 4"
  "infrared_find_index_by_protocol InfraredProtocolSIRC15 = Some 4"
  "infrared_find_index_by_protocol InfraredProtocolSIRC20 = Some 4"
  "infrared_find_index_by_protocol InfraredProtocolPioneer = Some 5"
  "infrared_find_index_by_protocol InfraredProtocolKaseikyo = Some 6"
  "infrared_find_index_by_protocol InfraredProtocolRCA = Some 7"
  unfolding find_index_run by (simp_all add: get_variant_defs)

text \<open>Messages that make the same frame.\<close>

lemma rc5x_same_frame:
  "infrared_encoder_rc5_reset e (m\<lparr>command := command m AND 0x3F\<rparr>) = infrared_encoder_rc5_reset e m"
proof -
  have "drop_bit 2 (ucast (reverse (ucast (command m AND 0x3F)))) = (drop_bit 2 (ucast (reverse (ucast (command m)))) :: u32)"
    by (rule bit_word_eqI) (auto simp: bit_drop_bit_eq bit_ucast_iff bit_reverse bit_and_iff word_masks bit_mask_iff)
  then show ?thesis by (simp add: infrared_encoder_rc5_reset_def)
qed

lemma necext_same_frame:
  assumes "msg_protocol m = InfraredProtocolNECext" "unat (address m) < 2 ^ 16" "unat (command m) < 2 ^ 16"
    "(ucast (command m) :: u8) = NOT (ucast (drop_bit 8 (command m)))" "(ucast (address m) :: u8) = NOT (ucast (drop_bit 8 (address m)))"
  shows "infrared_encoder_nec_reset e (m\<lparr>msg_protocol := InfraredProtocolNEC, address := address m AND 0xFF, command := command m AND 0xFF\<rparr>) =
    infrared_encoder_nec_reset e m"
proof -
  have hi: "bit (w :: u32) (8 + k) = (\<not> bit w k)" if "(ucast w :: u8) = NOT (ucast (drop_bit 8 w))" "k < 8" for w k
    using arg_cong [OF that(1), of "\<lambda>x. bit x k"] that(2) by (simp add: bit_ucast_iff bit_not_iff bit_drop_bit_eq)
  have half: "(ucast (ucast (w AND 0xFF) :: u8) :: u32) OR push_bit 8 (ucast (NOT (ucast (w AND 0xFF) :: u8))) = ucast (ucast w :: u16)"
    if "(ucast w :: u8) = NOT (ucast (drop_bit 8 w))" for w :: u32
  proof (rule bit_word_eqI)
    fix k :: nat assume "k < LENGTH(32)"
    consider "k < 8" | "8 \<le> k" "k < 16" | "16 \<le> k" by linarith
    then show "bit ((ucast (ucast (w AND 0xFF) :: u8) :: u32) OR push_bit 8 (ucast (NOT (ucast (w AND 0xFF) :: u8)))) k = bit (ucast (ucast w :: u16) :: u32) k"
      using hi [OF that, of "k - 8"] by cases (auto simp: word_bits word_masks)
  qed
  have split: "push_bit 16 (ucast (ucast (w AND 0xFF) :: u8)) OR push_bit 24 (ucast (NOT (ucast (w AND 0xFF) :: u8))) =
      push_bit 16 ((ucast (ucast (w AND 0xFF) :: u8) :: u32) OR push_bit 8 (ucast (NOT (ucast (w AND 0xFF) :: u8))))" for w :: u32
    by (simp add: push_bit_or)
  have high: "push_bit 16 (ucast (ucast w :: u16)) = push_bit 16 (w AND 0xFFFF)" for w :: u32
    by (rule bit_word_eqI) (auto simp: word_bits word_masks)
  have c: "push_bit 16 (ucast (ucast (command m AND 0xFF) :: u8)) OR push_bit 24 (ucast (NOT (ucast (command m AND 0xFF) :: u8))) =
      (push_bit 16 (command m AND 0xFFFF) :: u32)"
    by (simp only: split half [OF assms(4)] high)
  have "ucast (ucast (address m AND 0xFF) :: u8) OR push_bit 8 (ucast (NOT (ucast (address m AND 0xFF) :: u8))) OR
      push_bit 16 (ucast (ucast (command m AND 0xFF) :: u8)) OR push_bit 24 (ucast (NOT (ucast (command m AND 0xFF) :: u8))) =
      (ucast (ucast (address m) :: u16) OR push_bit 16 (command m AND 0xFFFF) :: u32)"
    by (simp only: or.assoc c) (simp only: or.assoc [symmetric] half [OF assms(5)])
  then show ?thesis using assms(1) by (simp add: infrared_encoder_nec_reset_def Let_def)
qed

lemma nec42ext_same_frame:
  assumes "msg_protocol m = InfraredProtocolNEC42ext"
    "address m AND 0x1FFF = NOT (drop_bit 13 (address m)) AND 0x1FFF" "command m AND 0xFF = NOT (drop_bit 8 (command m)) AND 0xFF"
  shows "infrared_encoder_nec_reset e (m\<lparr>msg_protocol := InfraredProtocolNEC42, address := address m AND 0x1FFF, command := command m AND 0xFF\<rparr>) =
    infrared_encoder_nec_reset e m"
proof -
  have inv: "bit w (n + k) = (\<not> bit w k)" if "w AND mask n = NOT (drop_bit n w) AND mask n" "k < n" "n < 32" for w :: u32 and n k
    using arg_cong [OF that(1), of "\<lambda>x. bit x k"] that(2,3) by (auto simp: bit_and_iff bit_mask_iff bit_not_iff bit_drop_bit_eq)
  note a = inv [OF assms(2) [unfolded word_masks]] and c = inv [OF assms(3) [unfolded word_masks]]
  have "(address m AND 0x1FFF) AND 0x1FFF OR push_bit 13 (NOT (address m AND 0x1FFF) AND 0x1FFF) = address m AND 0x3FFFFFF"
  proof (rule bit_word_eqI)
    fix k :: nat assume "k < LENGTH(32)"
    consider "k < 13" | "13 \<le> k" "k < 26" | "26 \<le> k" by linarith
    then show "bit ((address m AND 0x1FFF) AND 0x1FFF OR push_bit 13 (NOT (address m AND 0x1FFF) AND 0x1FFF)) k = bit (address m AND 0x3FFFFFF) k"
      using a [of "k - 13"] by cases (auto simp: word_bits word_masks)
  qed
  moreover have "(command m AND 0xFF) AND 0x3F = command m AND 0x3F"
    by (rule bit_word_eqI) (auto simp: word_bits word_masks)
  moreover have "drop_bit 6 ((command m AND 0xFF) AND 0xC0) OR push_bit 2 (NOT (command m AND 0xFF) AND 0xFF) = drop_bit 6 (command m AND 0xFFC0)"
  proof (rule bit_word_eqI)
    fix k :: nat assume "k < LENGTH(32)"
    consider "k < 2" | "2 \<le> k" "k < 10" | "10 \<le> k" by linarith
    then show "bit (drop_bit 6 ((command m AND 0xFF) AND 0xC0) OR push_bit 2 (NOT (command m AND 0xFF) AND 0xFF)) k = bit (drop_bit 6 (command m AND 0xFFC0)) k"
      using c [of "k - 2"] by cases (auto simp: word_bits word_masks)
  qed
  moreover define f where "f v w = do { e \<leftarrow> infrared_common_encoder_reset nec_data e; bytes \<leftarrow> store_u32 (enc_data e) 0 v;
      bytes \<leftarrow> store_u32 bytes 4 w; Some (e\<lparr>enc_data := bytes, bits_to_encode := 42\<rparr>) }" for v w
  have "infrared_encoder_nec_reset e m = f (address m AND 0x3FFFFFF OR push_bit 26 (command m AND 0x3F)) (drop_bit 6 (command m AND 0xFFC0))"
    using assms(1) by (simp add: infrared_encoder_nec_reset_def f_def Let_def)
  moreover have "infrared_encoder_nec_reset e (m\<lparr>msg_protocol := InfraredProtocolNEC42, address := address m AND 0x1FFF, command := command m AND 0xFF\<rparr>) =
      f ((address m AND 0x1FFF) AND 0x1FFF OR push_bit 13 (NOT (address m AND 0x1FFF) AND 0x1FFF) OR push_bit 26 ((command m AND 0xFF) AND 0x3F))
        (drop_bit 6 ((command m AND 0xFF) AND 0xC0) OR push_bit 2 (NOT (command m AND 0xFF) AND 0xFF))"
    by (simp add: infrared_encoder_nec_reset_def f_def Let_def)
  ultimately show ?thesis by (simp only: or.assoc [symmetric])
qed

section \<open>Every message gets through\<close>

lemma delivers_same:
  assumes "delivers t m' (m'\<lparr>repeat := False\<rparr>)" "\<And>e. enc_reset t e m = enc_reset t e m'"
  shows "delivers t m (m'\<lparr>repeat := False\<rparr>)"
  using assms by (simp add: delivers_def)

lemma table_resets: "enc_reset (infrared_encoder_decoder ! 0) = infrared_encoder_nec_reset" "enc_reset (infrared_encoder_decoder ! 2) = infrared_encoder_rc5_reset"
  by (simp_all add: infrared_encoder_decoder_def)

lemma unat_and_mask: "unat (w AND mask n :: u32) < 2 ^ n"
  by (simp add: unat_arith_simps take_bit_eq_mask [symmetric] unsigned_take_bit_eq)

lemma fits_bounds:
  "fits m \<Longrightarrow> infrared_get_variant_by_protocol (msg_protocol m) = Some v \<Longrightarrow> unat (address m) < 2 ^ address_length v \<and> unat (command m) < 2 ^ command_length v"
  by (auto simp: fits_def infrared_get_protocol_address_length_def infrared_get_protocol_command_length_def)

lemma nec_delivers:
  assumes "fits m" "msg_protocol m \<in> {InfraredProtocolNEC, InfraredProtocolNECext, InfraredProtocolNEC42, InfraredProtocolNEC42ext}"
  shows "delivers (infrared_encoder_decoder ! 0) m (carried m)"
proof -
  consider "msg_protocol m = InfraredProtocolNEC" | "msg_protocol m = InfraredProtocolNECext" | "msg_protocol m = InfraredProtocolNEC42"
    | "msg_protocol m = InfraredProtocolNEC42ext" using assms(2) by blast
  then show ?thesis
  proof cases
    case 1
    have "unat (address m) < 2 ^ 8" "unat (command m) < 2 ^ 8" using fits_bounds [OF assms(1)] by (auto simp: 1 variants variant_defs)
    from deliver_nec [OF nec_encodes [OF 1 this]] show ?thesis by (simp add: carried_def 1)
  next
    case 3
    have "unat (address m) < 2 ^ 13" "unat (command m) < 2 ^ 8" using fits_bounds [OF assms(1)] by (auto simp: 3 variants variant_defs)
    from deliver_nec [OF nec42_encodes [OF 3 this]] show ?thesis by (simp add: carried_def 3)
  next
    case 2
    have b: "unat (address m) < 2 ^ 16" "unat (command m) < 2 ^ 16" using fits_bounds [OF assms(1)] by (auto simp: 2 variants variant_defs)
    let ?inv = "(ucast (command m) :: u8) = NOT (ucast (drop_bit 8 (command m))) \<and> (ucast (address m) :: u8) = NOT (ucast (drop_bit 8 (address m)))"
    let ?m = "m\<lparr>msg_protocol := InfraredProtocolNEC, address := address m AND 0xFF, command := command m AND 0xFF\<rparr>"
    show ?thesis
    proof (cases ?inv)
      case False
      from deliver_nec [OF necext_encodes [OF 2 b False]] show ?thesis using False by (auto simp: carried_def 2)
    next
      case True
      have "encodes infrared_encoder_nec_reset infrared_protocol_nec 32 ?m"
        by (rule nec_encodes) (simp_all add: word_masks unat_and_mask [of _ 8, simplified])
      from delivers_same [OF deliver_nec [OF this]] have "delivers (infrared_encoder_decoder ! 0) m (?m\<lparr>repeat := False\<rparr>)"
        using necext_same_frame [OF 2 b True [THEN conjunct1] True [THEN conjunct2]] by (simp only: table_resets) simp
      then show ?thesis using True by (simp add: carried_def 2)
    qed
  next
    case 4
    have b: "unat (address m) < 2 ^ 26" "unat (command m) < 2 ^ 16" using fits_bounds [OF assms(1)] by (auto simp: 4 variants variant_defs)
    let ?inv = "address m AND 0x1FFF = NOT (drop_bit 13 (address m)) AND 0x1FFF \<and> command m AND 0xFF = NOT (drop_bit 8 (command m)) AND 0xFF"
    let ?m = "m\<lparr>msg_protocol := InfraredProtocolNEC42, address := address m AND 0x1FFF, command := command m AND 0xFF\<rparr>"
    show ?thesis
    proof (cases ?inv)
      case False
      from deliver_nec [OF nec42ext_encodes [OF 4 b False]] show ?thesis using False by (auto simp: carried_def 4)
    next
      case True
      have "encodes infrared_encoder_nec_reset infrared_protocol_nec 42 ?m"
        by (rule nec42_encodes) (simp_all add: word_masks unat_and_mask [of _ 8, simplified] unat_and_mask [of _ 13, simplified])
      from delivers_same [OF deliver_nec [OF this]] have "delivers (infrared_encoder_decoder ! 0) m (?m\<lparr>repeat := False\<rparr>)"
        using nec42ext_same_frame [OF 4 True [THEN conjunct1] True [THEN conjunct2]] by (simp only: table_resets) simp
      then show ?thesis using True by (simp add: carried_def 4)
    qed
  qed
qed

lemma rc5_delivers:
  assumes "fits m" "msg_protocol m \<in> {InfraredProtocolRC5, InfraredProtocolRC5X}"
  shows "delivers (infrared_encoder_decoder ! 2) m (carried m)"
proof (cases "msg_protocol m = InfraredProtocolRC5")
  case True
  have "unat (address m) < 2 ^ 5" "unat (command m) < 2 ^ 6" using fits_bounds [OF assms(1)] by (auto simp: True variants variant_defs)
  from deliver_rc5 [OF rc5_encodes [OF disjI1 [OF True] this]] show ?thesis by (simp add: carried_def True)
next
  case False
  then have x: "msg_protocol m = InfraredProtocolRC5X" using assms(2) by simp
  let ?m = "m\<lparr>command := command m AND 0x3F\<rparr>"
  have "unat (address m) < 2 ^ 5" using fits_bounds [OF assms(1)] by (auto simp: x variants variant_defs)
  then have "encodes_from [False] infrared_encoder_rc5_reset infrared_protocol_rc5 14 ?m"
    by (intro rc5_encodes) (simp_all add: x word_masks unat_and_mask [of _ 6, simplified])
  from delivers_same [OF deliver_rc5 [OF this]] have "delivers (infrared_encoder_decoder ! 2) m (?m\<lparr>repeat := False\<rparr>)"
    using rc5x_same_frame [of _ m] by (simp only: table_resets)
  then show ?thesis by (simp add: carried_def x)
qed

lemma table_delivers:
  assumes "fits m"
  shows "\<exists>i < length infrared_encoder_decoder. infrared_find_index_by_protocol (msg_protocol m) = Some i \<and>
    delivers (infrared_encoder_decoder ! i) m (carried m)"
proof -
  note b = fits_bounds [OF assms]
  have other: "carried m = m\<lparr>repeat := False\<rparr>" if "msg_protocol m \<notin> {InfraredProtocolNECext, InfraredProtocolNEC42ext, InfraredProtocolRC5X}"
    using that by (auto simp: carried_def)
  show ?thesis
  proof (cases "msg_protocol m")
    case InfraredProtocolUnknown
    then show ?thesis using assms by (simp add: fits_def infrared_get_protocol_address_length_def variants)
  next
    case InfraredProtocolSamsung32
    with b have "unat (address m) < 2 ^ 8" "unat (command m) < 2 ^ 8" by (auto simp: variants variant_defs)
    from deliver_samsung32 [OF samsung32_encodes [OF InfraredProtocolSamsung32 this]] show ?thesis
      using other InfraredProtocolSamsung32 by (simp add: table_length indices)
  next
    case InfraredProtocolRC6
    with b have "unat (address m) < 2 ^ 8" "unat (command m) < 2 ^ 8" by (auto simp: variants variant_defs)
    from deliver_rc6 [OF rc6_encodes [OF InfraredProtocolRC6 this]] show ?thesis
      using other InfraredProtocolRC6 by (simp add: table_length indices)
  next
    case InfraredProtocolKaseikyo
    with b have "unat (address m) < 2 ^ 26" "unat (command m) < 2 ^ 10" by (auto simp: variants variant_defs)
    from deliver_kaseikyo [OF kaseikyo_encodes [OF InfraredProtocolKaseikyo this]] show ?thesis
      using other InfraredProtocolKaseikyo by (simp add: table_length indices)
  next
    case InfraredProtocolRCA
    with b have "unat (address m) < 2 ^ 4" "unat (command m) < 2 ^ 8" by (auto simp: variants variant_defs)
    from deliver_rca [OF rca_encodes [OF InfraredProtocolRCA this]] show ?thesis
      using other InfraredProtocolRCA by (simp add: table_length indices)
  next
    case InfraredProtocolPioneer
    with b have "unat (address m) < 2 ^ 8" "unat (command m) < 2 ^ 8" by (auto simp: variants variant_defs)
    from deliver_pioneer [OF pioneer_encodes [OF InfraredProtocolPioneer this]] show ?thesis
      using other InfraredProtocolPioneer by (simp add: table_length indices)
  next
    case InfraredProtocolSIRC
    with b have "unat (address m) < 2 ^ 5" "unat (command m) < 2 ^ 7" by (auto simp: variants variant_defs)
    from deliver_sirc [OF sirc_encodes [OF _ this]] show ?thesis
      using other InfraredProtocolSIRC by (simp add: table_length indices)
  next
    case InfraredProtocolSIRC15
    with b have "unat (address m) < 2 ^ 8" "unat (command m) < 2 ^ 7" by (auto simp: variants variant_defs)
    from deliver_sirc [OF sirc_encodes [OF _ this]] show ?thesis
      using other InfraredProtocolSIRC15 by (simp add: table_length indices)
  next
    case InfraredProtocolSIRC20
    with b have "unat (address m) < 2 ^ 13" "unat (command m) < 2 ^ 7" by (auto simp: variants variant_defs)
    from deliver_sirc [OF sirc_encodes [OF _ this]] show ?thesis
      using other InfraredProtocolSIRC20 by (simp add: table_length indices)
  qed (use nec_delivers [OF assms] rc5_delivers [OF assms] in \<open>simp_all add: table_length indices\<close>)
qed

text \<open>An encoder handler that may have been used before.\<close>

definition handler_shape :: "InfraredEncoderHandler \<Rightarrow> bool" where
  "handler_shape h \<longleftrightarrow> (\<forall>i. encoder h = Some i \<longrightarrow> i < length infrared_encoder_decoder \<and>
     (\<exists>e. handler h = Some e \<and> encoder_shape (infrared_encoder_decoder ! i) e))"

lemma encoder_allocs: "\<exists>e. enc_alloc t = Some e \<and> encoder_shape t e" if "t \<in> set infrared_encoder_decoder"
proof -
  have "enc_alloc t \<noteq> None"
    using that by (auto simp: infrared_encoder_decoder_def wrapper_defs infrared_common_encoder_alloc_def infrared_tables upt_rec numeral_2_eq_2 numeral_3_eq_3)
  then show ?thesis by (auto simp: encoder_shape_def)
qed

lemma sends_handler:
  assumes "sends (enc_encode (infrared_encoder_decoder ! i)) e ps" "i < length infrared_encoder_decoder"
  shows "sends infrared_encode (h\<lparr>handler := Some e, encoder := Some i\<rparr>) ps"
proof -
  have "emission (enc_encode (infrared_encoder_decoder ! i)) e = Some (ps, e') \<Longrightarrow>
      emission infrared_encode (h\<lparr>handler := Some e, encoder := Some i\<rparr>) = Some (ps, h\<lparr>handler := Some e', encoder := Some i\<rparr>)" for e'
  proof (induction ps arbitrary: e)
    case Nil
    then show ?case by (subst (asm) emission.simps) (auto simp: bind_eq_Some_conv split: if_splits)
  next
    case (Cons p ps)
    let ?h = "\<lambda>e. h\<lparr>handler := Some e, encoder := Some i\<rparr>"
    from Cons.prems obtain st x lev e1 where s: "enc_encode (infrared_encoder_decoder ! i) e = Some (st, x, lev, e1)"
      "st = InfraredStatusDone \<and> p = (lev, x) \<and> ps = [] \<and> e1 = e' \<or>
       st = InfraredStatusOk \<and> p = (lev, x) \<and> emission (enc_encode (infrared_encoder_decoder ! i)) e1 = Some (ps, e')"
      by (subst (asm) emission.simps) (auto simp: bind_eq_Some_conv split: if_splits)
    then have h: "infrared_encode (?h e) = Some (st, x, lev, ?h e1)"
      using assms(2) by (auto simp: infrared_encode_def rd_Some)
    from s(2) show ?case
      by (subst emission.simps) (auto simp: h Cons.IH)
  qed
  with assms(1) show ?thesis by (auto simp: sends_def)
qed

text \<open>C27: any message whose address and command have the lengths of its protocol is sent by the encoder, and
  the decoder of the protocol that is reset and hears the pulses reports it when asked: all fourteen protocols, whatever
  was sent and heard before. Three kinds of messages arrive as others (\<open>carried\<close>).\<close>

theorem infrared_round_trip:
  assumes "fits m" "handler_shape h"
  shows "\<exists>i h' ps. infrared_find_index_by_protocol (msg_protocol m) = Some i \<and> infrared_reset_encoder h m = Some h' \<and>
    sends infrared_encode h' ps \<and> understands (infrared_encoder_decoder ! i) ps (carried m)"
proof -
  from table_delivers [OF assms(1)] obtain i where i: "i < length infrared_encoder_decoder" "infrared_find_index_by_protocol (msg_protocol m) = Some i"
    "delivers (infrared_encoder_decoder ! i) m (carried m)" by blast
  let ?t = "infrared_encoder_decoder ! i"
  obtain e where e: "(if encoder h \<noteq> Some i then do { e \<leftarrow> enc_alloc ?t; Some (h\<lparr>encoder := Some i, handler := Some e\<rparr>) } else Some h) =
      Some (h\<lparr>encoder := Some i, handler := Some e\<rparr>)" "encoder_shape ?t e"
  proof (cases "encoder h = Some i")
    case True
    with assms(2) obtain e where "handler h = Some e" "encoder_shape ?t e" by (auto simp: handler_shape_def)
    with True show thesis by (intro that [of e]) auto
  next
    case False
    with encoder_allocs [OF nth_mem [OF i(1)]] that show thesis by auto
  qed
  from i(3) e(2) obtain e' ps where d: "enc_reset ?t e m = Some e'" "sends (enc_encode ?t) e' ps" "understands ?t ps (carried m)"
    by (auto simp: delivers_def)
  have "infrared_reset_encoder h m = Some (h\<lparr>handler := Some e', encoder := Some i\<rparr>)"
    using d(1) by (simp add: infrared_reset_encoder_def i rd_Some e(1) cong: if_cong)
  with i(2) sends_handler [OF d(2) i(1)] d(3) show ?thesis by blast
qed

theorem infrared_round_trip_witness:
  "\<exists>i h' ps. infrared_find_index_by_protocol InfraredProtocolRC6 = Some i \<and>
    infrared_reset_encoder infrared_alloc_encoder \<lparr>msg_protocol = InfraredProtocolRC6, address = 0x12, command = 0x34, repeat = False\<rparr> = Some h' \<and>
    sends infrared_encode h' ps \<and> understands (infrared_encoder_decoder ! i) ps
      (carried \<lparr>msg_protocol = InfraredProtocolRC6, address = 0x12, command = 0x34, repeat = False\<rparr>)"
  using infrared_round_trip [of "\<lparr>msg_protocol = InfraredProtocolRC6, address = 0x12, command = 0x34, repeat = False\<rparr>" infrared_alloc_encoder]
  by (simp add: fits_def infrared_get_protocol_address_length_def infrared_get_protocol_command_length_def variants variant_defs
      handler_shape_def infrared_alloc_encoder_def)

section \<open>The Pioneer decoder overruns its samples\<close>

text \<open>After a frame of 32 bits that is not a message, the decoder is ready at every pulse and drops no sample.\<close>

definition stuck :: "nat \<Rightarrow> nat \<Rightarrow> bool \<Rightarrow> bool list \<Rightarrow> InfraredCommonDecoder \<Rightarrow> bool" where
  "stuck n t lev bs d \<longleftrightarrow> data_ok infrared_protocol_pioneer d \<and> state d = InfraredCommonDecoderStateDecode \<and> timings_cnt d = n \<and>
     databit_cnt d = 32 \<and> level d = lev \<and> (0 < n \<longrightarrow> timings d ! 0 = t) \<and> (odd n \<longleftrightarrow> \<not> lev) \<and>
     (\<forall>k < 32. lsb_bit (data d) k = bs ! k)"

definition no_pioneer :: "bool list \<Rightarrow> bool" where
  "no_pioneer bs \<longleftrightarrow> (\<exists>k < 8. bs ! (8 + k) = bs ! k) \<or> (\<exists>k < 8. bs ! (24 + k) = bs ! (16 + k))"

lemma no_pioneer_interpret:
  assumes "length (data d) = 7" "databit_cnt d = 32" "\<forall>k < 32. lsb_bit (data d) k = bs ! k" "no_pioneer bs"
  shows "infrared_decoder_pioneer_interpret d = Some (False, d)"
proof -
  have "0 + 4 \<le> length (data d)" using assms(1) by simp
  from bit_load_u32 [OF this] obtain w where w: "load_u32 (data d) 0 = Some w" "\<And>k. bit w k = (k < 32 \<and> lsb_bit (data d) (8 * 0 + k))" by blast
  have b: "bit (ucast (drop_bit j w AND 0xFF) :: u8) k = bs ! (j + k)" if "k < 8" "j \<le> 24" for j k
    using that assms(3) by (simp add: w(2) word_bits word_masks)
  have "(ucast (drop_bit (j + 8) w AND 0xFF) :: u8) \<noteq> NOT (ucast (drop_bit j w AND 0xFF))"
    if "k < 8" "bs ! (j + 8 + k) = bs ! (j + k)" "j \<le> 16" for j k
  proof
    assume "(ucast (drop_bit (j + 8) w AND 0xFF) :: u8) = NOT (ucast (drop_bit j w AND 0xFF))"
    from arg_cong [OF this, of "\<lambda>x. bit x k"] that show False by (simp add: bit_not_iff b)
  qed
  from this [of _ 0] this [of _ 16] assms(4) w(1) assms(2) show ?thesis
    by (auto simp: infrared_decoder_pioneer_interpret_def pioneer_data_def Let_def no_pioneer_def)
qed

lemma stuck_pulse:
  assumes "stuck n t (\<not> lev) bs d" "no_pioneer bs" "26000 < (if n = 0 then x else t)" "n < 6"
  shows "\<exists>m d'. infrared_common_decode infrared_protocol_pioneer d lev x = Some (m, d') \<and> stuck (n + 1) (if n = 0 then x else t) lev bs d'"
proof -
  let ?spec = infrared_protocol_pioneer and ?t = "if n = 0 then x else t"
  let ?d = "d\<lparr>level := lev, timings := (timings d)[n := x], timings_cnt := n + 1\<rparr>"
  have d: "length (timings d) = 6" "length (data d) = 7" "timings_cnt d = n" "state d = InfraredCommonDecoderStateDecode" "databit_cnt d = 32"
    "level d = (\<not> lev)" "\<forall>k < 32. lsb_bit (data d) k = bs ! k" "odd n = lev" "0 < n \<Longrightarrow> timings d ! 0 = t"
    using assms(1) by (auto simp: stuck_def data_ok_def)
  have t0: "timings ?d ! 0 = ?t" using d(1,9) assms(4) by (cases "n = 0") auto
  have f: "\<not> first_level ?d" using d(8) by (auto simp: first_level_def)
  have m: "min_split_time (spec_timings ?spec) = 26000" by (simp add: infrared_tables)
  have "infrared_common_decode_bits ?spec ?d = Some (InfraredStatusReady, ?d)"
    using decode_bits_unfold [of ?d ?spec] f t0 assms(3) d(1,5) by (simp add: m [simplified])
  moreover have "infrared_common_decoder_check_ready ?spec ?d = Some (False, ?d)"
    using no_pioneer_interpret [of ?d bs] d(2,5,7) assms(2) by (simp add: infrared_common_decoder_check_ready_def)
  ultimately have "decode_loop ?spec False ?d = Some (False, ?d)"
    using d(4,5) by (subst decode_loop.simps) simp
  then have "infrared_common_decode ?spec d lev x = Some (None, ?d)"
    using d(1,3,6) assms(4) by (simp add: infrared_common_decode_def wr_Some)
  moreover have "stuck (n + 1) ?t lev bs ?d"
    using assms(1) d(8) t0 by (auto simp: stuck_def data_ok_def)
  ultimately show ?thesis by blast
qed

fun alternate :: "bool \<Rightarrow> nat list \<Rightarrow> (bool \<times> nat) list" where
  "alternate lev [] = []"
| "alternate lev (t # ts) = (lev, t) # alternate (\<not> lev) ts"

lemma stuck_overrun:
  assumes "stuck n t (\<not> lev) bs d" "no_pioneer bs" "26000 < t" "0 < n" "n \<le> 6" "6 - n < length ts"
  shows "hear (infrared_common_decode infrared_protocol_pioneer) (alternate lev ts) d = None"
  using assms
proof (induction ts arbitrary: n lev d)
  case (Cons x ts)
  show ?case
  proof (cases "n = 6")
    case True
    have "infrared_common_decode infrared_protocol_pioneer d lev x = None"
      using Cons.prems(1) True by (simp add: infrared_common_decode_def stuck_def data_ok_def wr_def)
    then show ?thesis by simp
  next
    case False
    with stuck_pulse [OF Cons.prems(1,2), of x] Cons.prems(3-5) obtain m d' where
      "infrared_common_decode infrared_protocol_pioneer d lev x = Some (m, d')" "stuck (n + 1) t lev bs d'" by auto
    with Cons.IH [of "n + 1" "\<not> lev" d'] Cons.prems(2,3,5,6) False show ?thesis by simp
  qed
qed simp

text \<open>C28: a frame of 32 bits with the times of Pioneer whose bytes are not followed by their complements, then a pause of more
  than 26 ms and six more pulses: the decoder writes behind its array of samples, before the check of their number, which
  compares with the size of the array in bytes.\<close>

theorem infrared_pioneer_overflow:
  assumes "decoder_shape (infrared_encoder_decoder ! 5) d" "length bs = 32" "no_pioneer bs" "26000 < t" "6 \<le> length ts"
  shows "\<exists>d'. infrared_decoder_pioneer_reset d = Some d' \<and>
    hear infrared_decoder_pioneer_decode (pdwm_frame (spec_timings pioneer_data) bs b @ (False, t) # alternate True ts) d' = None"
proof -
  let ?spec = infrared_protocol_pioneer
  have "data_ok ?spec d" "timings_cnt d \<le> 6"
    using assms(1) by (auto simp: decoder_shape_def infrared_encoder_decoder_def wrapper_defs infrared_common_decoder_alloc_def bind_eq_Some_conv data_ok_def)
  from reset_fresh [OF this] obtain d1 where d1: "infrared_common_decoder_reset ?spec d = Some d1" "fresh ?spec d1" by blast
  have dc: "distance_coded (spec_timings pioneer_data)" by (simp add: distance_coded_def infrared_tables)
  from feed_frame(1) [OF pdwm_tables(6) d1(2), of bs b] assms(2) dc obtain d2 where
    d2: "feed ?spec (pdwm_frame (spec_timings pioneer_data) bs b) d1 = Some d2" "receiving ?spec bs True False d2" by auto
  then have "stuck 0 t (\<not> False) bs d2" using assms(2) by (auto simp: stuck_def receiving_def holds_bits_def less_mult_imp_div_less)
  from stuck_pulse [OF this assms(3), of t] assms(4) obtain m d3 where
    d3: "infrared_common_decode ?spec d2 False t = Some (m, d3)" "stuck 1 t (\<not> True) bs d3" by auto
  from stuck_overrun [OF d3(2) assms(3,4)] assms(5) have "feed ?spec (alternate True ts) d3 = None" by simp
  then show ?thesis using d1(1) d2(1) d3(1) by (simp add: wrapper_defs hear_append)
qed

theorem infrared_pioneer_overflow_witness:
  "\<exists>d d'. infrared_decoder_pioneer_alloc = Some d \<and> infrared_decoder_pioneer_reset d = Some d' \<and>
    hear infrared_decoder_pioneer_decode (pdwm_frame (spec_timings pioneer_data) (replicate 32 True) True @ (False, 30000) # alternate True (replicate 6 500)) d' = None"
proof -
  obtain d where d: "infrared_decoder_pioneer_alloc = Some d" using decoder_alloc_defined(8) by (auto simp: wrapper_defs)
  have "decoder_shape (infrared_encoder_decoder ! 5) d"
    using d by (auto simp: decoder_shape_def infrared_encoder_decoder_def wrapper_defs infrared_common_decoder_alloc_def bind_eq_Some_conv)
  moreover have "no_pioneer (replicate 32 True)" unfolding no_pioneer_def by (intro disjI1 exI [of _ 0]) simp
  ultimately have "\<exists>d'. infrared_decoder_pioneer_reset d = Some d' \<and>
      hear infrared_decoder_pioneer_decode (pdwm_frame (spec_timings pioneer_data) (replicate 32 True) True @ (False, 30000) # alternate True (replicate 6 500)) d' = None"
    by (intro infrared_pioneer_overflow) simp_all
  with d show ?thesis by blast
qed

end
