(* ===== verification/Crypto1.thy ===== *)
theory Crypto1
  imports BitBuffer BitLib
begin

text \<open>
  The stream cipher of MIFARE Classic, \<open>lib/nfc/protocols/mf_classic/crypto1.c\<close>, with the parity
  helpers of \<open>lib/nfc/helpers/nfc_util.c\<close>. The record \<open>Crypto1\<close> is the C structure: the odd and the
  even bits of the shift register, in two words; each operation returns the updated state beside its
  result. The second half specifies the cipher over one register of 48 bits and shows that the code
  implements it.
\<close>

section \<open>Parity\<close>

definition FURI_BIT :: "'a::len word \<Rightarrow> nat \<Rightarrow> 'a word" where
  "FURI_BIT x n = drop_bit n x AND 1"

definition nfc_util_odd_byte_parity :: "u8 list" where
  "nfc_util_odd_byte_parity = [
    1, 0, 0, 1, 0, 1, 1, 0, 0, 1, 1, 0, 1, 0, 0, 1, 0, 1, 1, 0, 1, 0, 0, 1, 1, 0, 0, 1, 0,
    1, 1, 0, 0, 1, 1, 0, 1, 0, 0, 1, 1, 0, 0, 1, 0, 1, 1, 0, 1, 0, 0, 1, 0, 1, 1, 0, 0, 1,
    1, 0, 1, 0, 0, 1, 0, 1, 1, 0, 1, 0, 0, 1, 1, 0, 0, 1, 0, 1, 1, 0, 1, 0, 0, 1, 0, 1, 1,
    0, 0, 1, 1, 0, 1, 0, 0, 1, 1, 0, 0, 1, 0, 1, 1, 0, 0, 1, 1, 0, 1, 0, 0, 1, 0, 1, 1, 0,
    1, 0, 0, 1, 1, 0, 0, 1, 0, 1, 1, 0, 0, 1, 1, 0, 1, 0, 0, 1, 1, 0, 0, 1, 0, 1, 1, 0, 1,
    0, 0, 1, 0, 1, 1, 0, 0, 1, 1, 0, 1, 0, 0, 1, 1, 0, 0, 1, 0, 1, 1, 0, 0, 1, 1, 0, 1, 0,
    0, 1, 0, 1, 1, 0, 1, 0, 0, 1, 1, 0, 0, 1, 0, 1, 1, 0, 1, 0, 0, 1, 0, 1, 1, 0, 0, 1, 1,
    0, 1, 0, 0, 1, 0, 1, 1, 0, 1, 0, 0, 1, 1, 0, 0, 1, 0, 1, 1, 0, 0, 1, 1, 0, 1, 0, 0, 1,
    1, 0, 0, 1, 0, 1, 1, 0, 1, 0, 0, 1, 0, 1, 1, 0, 0, 1, 1, 0, 1, 0, 0, 1]"

text \<open>\<open>__builtin_parity(data) & 0xFF\<close>.\<close>

definition nfc_util_even_parity32 :: "u32 \<Rightarrow> u8" where
  "nfc_util_even_parity32 data = of_bool (builtin_parity data) AND 0xFF"

definition nfc_util_odd_parity8 :: "u8 \<Rightarrow> u8" where
  "nfc_util_odd_parity8 data = nfc_util_odd_byte_parity ! unat data"

text \<open>One turn of the loop of \<open>nfc_util_odd_parity\<close>: \<open>j\<close> is how far \<open>dst\<close> has moved.\<close>

definition odd_parity_step :: "u8 list \<Rightarrow> nat \<Rightarrow> u8 list \<times> nat \<times> u8 \<times> nat \<Rightarrow> (u8 list \<times> nat \<times> u8 \<times> nat) option" where
  "odd_parity_step src i st = (case st of (dst, j, parity, pos) \<Rightarrow> do {
     x \<leftarrow> rd src i;
     let parity = parity OR push_bit (7 - pos) (nfc_util_odd_parity8 x);
     let pos = pos + 1;
     (if pos = 8 then do {
        dst \<leftarrow> wr dst j parity;
        Some (dst, j + 1, 0, 0) }
      else Some (dst, j, parity, pos)) })"

definition nfc_util_odd_parity :: "u8 list \<Rightarrow> u8 list \<Rightarrow> u8 \<Rightarrow> u8 list option" where
  "nfc_util_odd_parity src dst len = do {
     (dst, j, parity, pos) \<leftarrow> for_loop (odd_parity_step src) 0 (unat len) (dst, 0, 0, 0);
     (if pos \<noteq> 0 then wr dst j parity else Some dst) }"

section \<open>The cipher\<close>

record Crypto1 =
  cr_odd :: u32
  cr_even :: u32

text \<open>\<open>malloc\<close> clears the memory it returns.\<close>

definition crypto1_alloc :: Crypto1 where
  "crypto1_alloc = \<lparr>cr_odd = 0, cr_even = 0\<rparr>"

definition crypto1_reset :: "Crypto1 \<Rightarrow> Crypto1" where
  "crypto1_reset crypto1 = crypto1\<lparr>cr_even := 0, cr_odd := 0\<rparr>"

definition LF_POLY_ODD :: u32 where "LF_POLY_ODD = 0x29CE5C"

definition LF_POLY_EVEN :: u32 where "LF_POLY_EVEN = 0x870804"

definition BEBIT :: "u32 \<Rightarrow> nat \<Rightarrow> u32" where
  "BEBIT x n = FURI_BIT x (n XOR 24)"

text \<open>The loop runs over \<open>i = 47, 45, \<dots>, 1\<close>.\<close>

definition crypto1_init_step :: "u64 \<Rightarrow> nat \<Rightarrow> Crypto1 \<Rightarrow> Crypto1" where
  "crypto1_init_step key i crypto1 = crypto1\<lparr>
     cr_odd := push_bit 1 (cr_odd crypto1) OR ucast (FURI_BIT key ((i - 1) XOR 7)),
     cr_even := push_bit 1 (cr_even crypto1) OR ucast (FURI_BIT key (i XOR 7))\<rparr>"

definition crypto1_init :: "Crypto1 \<Rightarrow> u64 \<Rightarrow> Crypto1" where
  "crypto1_init crypto1 key =
     fold (crypto1_init_step key) (map (\<lambda>k. 47 - 2 * k) [0..<24]) (crypto1\<lparr>cr_even := 0, cr_odd := 0\<rparr>)"

definition crypto1_filter :: "u32 \<Rightarrow> u32" where
  "crypto1_filter inp =
     (let out = (drop_bit (unat (inp AND 0xf)) 0xf22c0 AND 16 :: u32);
          out = out OR (drop_bit (unat (drop_bit 4 inp AND 0xf)) 0x6c9c0 AND 8);
          out = out OR (drop_bit (unat (drop_bit 8 inp AND 0xf)) 0x3c8b0 AND 4);
          out = out OR (drop_bit (unat (drop_bit 12 inp AND 0xf)) 0x1e458 AND 2);
          out = out OR (drop_bit (unat (drop_bit 16 inp AND 0xf)) 0x0d938 AND 1)
      in FURI_BIT 0xEC57E80A (unat out))"

text \<open>\<open>!!x\<close> is 1 or 0; \<open>is_encrypted\<close> is the truth value of the \<open>int\<close>.\<close>

definition crypto1_bit :: "Crypto1 \<Rightarrow> u8 \<Rightarrow> bool \<Rightarrow> u8 \<times> Crypto1" where
  "crypto1_bit crypto1 inp is_encrypted =
     (let out = ucast (crypto1_filter (cr_odd crypto1));
          feed = ucast (out AND of_bool is_encrypted);
          feed = feed XOR of_bool (inp \<noteq> 0);
          feed = feed XOR (LF_POLY_ODD AND cr_odd crypto1);
          feed = feed XOR (LF_POLY_EVEN AND cr_even crypto1);
          new_even = push_bit 1 (cr_even crypto1) OR ucast (nfc_util_even_parity32 feed)
      in (out, crypto1\<lparr>cr_odd := new_even, cr_even := cr_odd crypto1\<rparr>))"

definition crypto1_byte :: "Crypto1 \<Rightarrow> u8 \<Rightarrow> bool \<Rightarrow> u8 \<times> Crypto1" where
  "crypto1_byte crypto1 inp is_encrypted =
     fold (\<lambda>i (out, crypto1).
       let (b, crypto1) = crypto1_bit crypto1 (FURI_BIT inp i) is_encrypted
       in (out OR push_bit i b, crypto1)) [0..<8] (0, crypto1)"

definition crypto1_word :: "Crypto1 \<Rightarrow> u32 \<Rightarrow> bool \<Rightarrow> u32 \<times> Crypto1" where
  "crypto1_word crypto1 inp is_encrypted =
     fold (\<lambda>i (out, crypto1).
       let (b, crypto1) = crypto1_bit crypto1 (ucast (BEBIT inp i)) is_encrypted
       in (out OR push_bit (24 XOR i) (ucast b), crypto1)) [0..<32] (0, crypto1)"

definition SWAPENDIAN :: "u32 \<Rightarrow> u32" where
  "SWAPENDIAN x =
     (let x = (drop_bit 8 x AND 0xff00ff) OR push_bit 8 (x AND 0xff00ff)
      in drop_bit 16 x OR push_bit 16 x)"

definition prng_step :: "u32 \<Rightarrow> u32" where
  "prng_step x = drop_bit 1 x OR push_bit 31 (drop_bit 16 x XOR drop_bit 18 x XOR drop_bit 19 x XOR drop_bit 21 x)"

definition prng_successor :: "u32 \<Rightarrow> u32 \<Rightarrow> u32" where
  "prng_successor x n = SWAPENDIAN ((prng_step ^^ unat n) (SWAPENDIAN x))"

text \<open>The four unrolled lines of the short frame, least significant bit first.\<close>

definition decrypt_nibble :: "Crypto1 \<Rightarrow> u8 \<Rightarrow> u8 \<times> Crypto1" where
  "decrypt_nibble crypto encrypted_byte =
     fold (\<lambda>i (decrypted_byte, crypto).
       let (b, crypto) = crypto1_bit crypto 0 False
       in (decrypted_byte OR push_bit i (b XOR FURI_BIT encrypted_byte i), crypto)) [0..<4] (0, crypto)"

definition crypto1_decrypt :: "Crypto1 \<Rightarrow> BitBuffer \<Rightarrow> BitBuffer \<Rightarrow> (Crypto1 \<times> BitBuffer) option" where
  "crypto1_decrypt crypto buff out =
     (let bits = bit_buffer_get_size buff in do {
        out \<leftarrow> bit_buffer_set_size out bits;
        let encrypted_data = bit_buffer_get_data buff;
        (if bits < 8 then do {
           encrypted_byte \<leftarrow> rd encrypted_data 0;
           let (decrypted_byte, crypto) = decrypt_nibble crypto encrypted_byte;
           out \<leftarrow> bit_buffer_set_byte out 0 decrypted_byte;
           Some (crypto, out) }
         else
           for_loop (\<lambda>i (crypto, out). do {
             let (k, crypto) = crypto1_byte crypto 0 False;
             x \<leftarrow> rd encrypted_data i;
             out \<leftarrow> bit_buffer_set_byte out i (k XOR x);
             Some (crypto, out) }) 0 (bits div 8) (crypto, out)) })"

text \<open>The keystream argument may be \<open>NULL\<close>.\<close>

definition encrypt_bits :: "Crypto1 \<Rightarrow> u8 \<Rightarrow> nat \<Rightarrow> u8 \<times> Crypto1" where
  "encrypt_bits crypto plain_byte bits =
     fold (\<lambda>i (encrypted_byte, crypto).
       let (b, crypto) = crypto1_bit crypto 0 False
       in (encrypted_byte OR push_bit i (b XOR FURI_BIT plain_byte i), crypto)) [0..<bits] (0, crypto)"

definition parity_of_next :: "Crypto1 \<Rightarrow> u8 \<Rightarrow> bool" where
  "parity_of_next crypto x \<longleftrightarrow> (crypto1_filter (cr_odd crypto) XOR ucast (nfc_util_odd_parity8 x)) AND 1 \<noteq> 0"

definition crypto1_encrypt ::
  "Crypto1 \<Rightarrow> u8 list option \<Rightarrow> BitBuffer \<Rightarrow> BitBuffer \<Rightarrow> (Crypto1 \<times> BitBuffer) option" where
  "crypto1_encrypt crypto keystream buff out =
     (let bits = bit_buffer_get_size buff in do {
        out \<leftarrow> bit_buffer_set_size out bits;
        let plain_data = bit_buffer_get_data buff;
        (if bits < 8 then do {
           plain_byte \<leftarrow> (if bits = 0 then Some 0 else rd plain_data 0);
           let (encrypted_byte, crypto) = encrypt_bits crypto plain_byte bits;
           out \<leftarrow> bit_buffer_set_byte out 0 encrypted_byte;
           Some (crypto, out) }
         else
           for_loop (\<lambda>i (crypto, out). do {
             feed \<leftarrow> (case keystream of None \<Rightarrow> Some 0 | Some ks \<Rightarrow> rd ks i);
             let (k, crypto) = crypto1_byte crypto feed False;
             x \<leftarrow> rd plain_data i;
             out \<leftarrow> bit_buffer_set_byte_with_parity out i (k XOR x) (parity_of_next crypto x);
             Some (crypto, out) }) 0 (bits div 8) (crypto, out)) })"

text \<open>The result is the cipher state, the array \<open>nr\<close>, now encrypted, and the frame.\<close>

definition crypto1_encrypt_reader_nonce ::
  "Crypto1 \<Rightarrow> u64 \<Rightarrow> u32 \<Rightarrow> u8 list \<Rightarrow> u8 list \<Rightarrow> BitBuffer \<Rightarrow> bool \<Rightarrow> (Crypto1 \<times> u8 list \<times> BitBuffer) option" where
  "crypto1_encrypt_reader_nonce crypto key cuid nt nr out is_nested = do {
     out \<leftarrow> bit_buffer_set_size_bytes out 8;
     nt_num \<leftarrow> map_option ucast (bit_lib_bytes_to_num_be nt 4);
     let crypto = crypto1_init crypto key;
     let (nt_num, crypto) =
       (if is_nested then let (w, crypto) = crypto1_word crypto (nt_num XOR cuid) True in (w XOR nt_num, crypto)
        else (nt_num, snd (crypto1_word crypto (nt_num XOR cuid) False)));
     (crypto, nr, out) \<leftarrow> for_loop (\<lambda>i (crypto, nr, out). do {
        n \<leftarrow> rd nr i;
        let (k, crypto) = crypto1_byte crypto n False;
        let byte = k XOR n;
        out \<leftarrow> bit_buffer_set_byte_with_parity out i byte (parity_of_next crypto n);
        nr \<leftarrow> wr nr i byte;
        Some (crypto, nr, out) }) 0 4 (crypto, nr, out);
     let nt_num = prng_successor nt_num 32;
     (nt_num, crypto, out) \<leftarrow> for_loop (\<lambda>i (nt_num, crypto, out). do {
        let nt_num = prng_successor nt_num 8;
        let (k, crypto) = crypto1_byte crypto 0 False;
        let byte = k XOR ucast nt_num;
        out \<leftarrow> bit_buffer_set_byte_with_parity out i byte (parity_of_next crypto (ucast nt_num));
        Some (nt_num, crypto, out) }) 4 4 (nt_num, crypto, out);
     Some (crypto, nr, out) }"

section \<open>The cipher over one register\<close>

text \<open>
  The published description of the cipher: a register \<open>x0 \<dots> x47\<close> that shifts towards \<open>x0\<close>; the new
  \<open>x47\<close> is the parity of eighteen taps, of the input bit and, for encrypted input, of the output; the
  output is a boolean function of the twenty odd positions from \<open>x9\<close>.
\<close>

definition lfsr_feedback :: "bool list \<Rightarrow> bool" where
  "lfsr_feedback x = odd (length (filter (\<lambda>i. x ! i) [0, 5, 9, 10, 12, 14, 15, 17, 19, 24, 25, 27, 29, 35, 39, 41, 42, 43]))"

definition filter_a :: "bool \<Rightarrow> bool \<Rightarrow> bool \<Rightarrow> bool \<Rightarrow> bool" where
  "filter_a a b c d = (((a \<or> b) \<noteq> (a \<and> d)) \<noteq> (c \<and> ((a \<noteq> b) \<or> d)))"

definition filter_b :: "bool \<Rightarrow> bool \<Rightarrow> bool \<Rightarrow> bool \<Rightarrow> bool" where
  "filter_b a b c d = (((a \<and> b) \<or> c) \<noteq> ((a \<noteq> b) \<and> (c \<or> d)))"

definition filter_c :: "bool \<Rightarrow> bool \<Rightarrow> bool \<Rightarrow> bool \<Rightarrow> bool \<Rightarrow> bool" where
  "filter_c a b c d e = ((a \<or> ((b \<or> e) \<and> (d \<noteq> e))) \<noteq> ((a \<noteq> (b \<and> d)) \<and> ((c \<noteq> d) \<or> (b \<and> e))))"

definition lfsr_output :: "bool list \<Rightarrow> bool" where
  "lfsr_output x = filter_c (filter_a (x ! 9) (x ! 11) (x ! 13) (x ! 15)) (filter_b (x ! 17) (x ! 19) (x ! 21) (x ! 23))
     (filter_b (x ! 25) (x ! 27) (x ! 29) (x ! 31)) (filter_a (x ! 33) (x ! 35) (x ! 37) (x ! 39))
     (filter_b (x ! 41) (x ! 43) (x ! 45) (x ! 47))"

definition lfsr_bit :: "bool list \<Rightarrow> bool \<Rightarrow> bool \<Rightarrow> bool \<times> bool list" where
  "lfsr_bit x inp is_encrypted =
     (lfsr_output x, tl x @ [(lfsr_feedback x \<noteq> inp) \<noteq> (is_encrypted \<and> lfsr_output x)])"

text \<open>The register that the two words hold.\<close>

definition crypto1_register :: "Crypto1 \<Rightarrow> bool list" where
  "crypto1_register c = map (\<lambda>i. if odd i then bit (cr_odd c) ((47 - i) div 2) else bit (cr_even c) ((47 - i) div 2)) [0..<48]"

lemma length_crypto1_register [simp]: "length (crypto1_register c) = 48"
  by (simp add: crypto1_register_def)

lemma crypto1_register_nth: "i < 48 \<Longrightarrow> crypto1_register c ! i
    = (if odd i then bit (cr_odd c) ((47 - i) div 2) else bit (cr_even c) ((47 - i) div 2))"
  unfolding crypto1_register_def by (subst nth_map_upt) simp_all

lemma bit_FURI_BIT: "bit (FURI_BIT x n) k \<longleftrightarrow> k = 0 \<and> bit x n"
  by (auto simp: FURI_BIT_def bit_simps)

lemma FURI_BIT_of_bool: "FURI_BIT (x :: 'a::len word) n = of_bool (bit x n)"
  by (rule bit_word_eqI) (auto simp: bit_FURI_BIT bit_simps)

lemma bit_low_mask: "k < 32 \<Longrightarrow> bit (0xf :: u32) k \<longleftrightarrow> k = 0 \<or> k = 1 \<or> k = 2 \<or> k = 3"
  by (cases "k < 4") (auto simp: less_Suc_eq numeral_eq_Suc bit_Suc)

lemma nibble_bits: "unat (drop_bit n (x :: u32) AND 0xf)
    = of_bool (bit x n) + 2 * of_bool (bit x (n + 1)) + 4 * of_bool (bit x (n + 2)) + 8 * of_bool (bit x (n + 3))"
proof -
  have "drop_bit n x AND 0xf = of_bool (bit x n) OR push_bit 1 (of_bool (bit x (n + 1)))
      OR push_bit 2 (of_bool (bit x (n + 2))) OR push_bit 3 (of_bool (bit x (n + 3)))"
  proof (rule bit_word_eqI)
    fix k assume "k < LENGTH(32)"
    then have k: "bit (0xf :: u32) k \<longleftrightarrow> k = 0 \<or> k = 1 \<or> k = 2 \<or> k = 3" by (intro bit_low_mask) simp
    consider "k = 0" | "k = 1" | "k = 2" | "k = 3" | "3 < k" by linarith
    then show "bit (drop_bit n x AND 0xf) k = bit (of_bool (bit x n) OR push_bit 1 (of_bool (bit x (n + 1)))
      OR push_bit 2 (of_bool (bit x (n + 2))) OR push_bit 3 (of_bool (bit x (n + 3))) :: u32) k"
      by cases (use k in \<open>simp_all add: bit_simps add.commute\<close>)
  qed
  then show ?thesis
    by (cases "bit x n"; cases "bit x (n + 1)"; cases "bit x (n + 2)"; cases "bit x (n + 3)") simp_all
qed

lemma filter_tables:
  fixes a b c d :: bool
  defines "n \<equiv> of_bool a + 2 * of_bool b + 4 * of_bool c + 8 * of_bool d :: nat"
  shows "drop_bit n 0xf22c0 AND 16 = (if filter_b d c b a then 16 else 0 :: u32)"
    "drop_bit n 0x6c9c0 AND 8 = (if filter_a d c b a then 8 else 0 :: u32)"
    "drop_bit n 0x3c8b0 AND 4 = (if filter_b d c b a then 4 else 0 :: u32)"
    "drop_bit n 0x1e458 AND 2 = (if filter_b d c b a then 2 else 0 :: u32)"
    "drop_bit n 0x0d938 AND 1 = (if filter_a d c b a then 1 else 0 :: u32)"
  unfolding n_def filter_a_def filter_b_def
  by (cases a; cases b; cases c; cases d; simp)+

lemma filter_table:
  "FURI_BIT (0xEC57E80A :: u32) (unat (((((if e then 16 else 0) OR (if d then 8 else 0)) OR (if c then 4 else 0))
      OR (if b then 2 else 0)) OR (if a then 1 else 0 :: u32))) = of_bool (filter_c a b c d e)"
  unfolding FURI_BIT_def filter_c_def
  by (cases a; cases b; cases c; cases d; cases e; simp)

lemma lfsr_output_words: "lfsr_output (crypto1_register c) = (let x = bit (cr_odd c) in
    filter_c (filter_a (x 19) (x 18) (x 17) (x 16)) (filter_b (x 15) (x 14) (x 13) (x 12))
      (filter_b (x 11) (x 10) (x 9) (x 8)) (filter_a (x 7) (x 6) (x 5) (x 4)) (filter_b (x 3) (x 2) (x 1) (x 0)))"
  unfolding lfsr_output_def Let_def by (simp add: crypto1_register_nth)

lemma crypto1_filter_output: "crypto1_filter (cr_odd c) = of_bool (lfsr_output (crypto1_register c))"
proof -
  have "unat (cr_odd c AND 0xf) = of_bool (bit (cr_odd c) 0) + 2 * of_bool (bit (cr_odd c) 1)
      + 4 * of_bool (bit (cr_odd c) 2) + 8 * of_bool (bit (cr_odd c) 3)"
    using nibble_bits [of 0 "cr_odd c"] by (simp only: drop_bit_0 id_apply add_0)
  note f = this nibble_bits [of 4] nibble_bits [of 8] nibble_bits [of 12] nibble_bits [of 16]
  show ?thesis
    unfolding crypto1_filter_def Let_def f filter_tables filter_table lfsr_output_words by simp
qed

lemma odd_filter_neq: "odd (length (filter (\<lambda>i. P i \<noteq> Q i) xs)) \<longleftrightarrow> odd (length (filter P xs)) \<noteq> odd (length (filter Q xs))"
  by (induction xs) auto

lemma odd_filter_split: "odd (length (filter P xs))
    \<longleftrightarrow> odd (length (filter P (filter Q xs))) \<noteq> odd (length (filter P (filter (\<lambda>x. \<not> Q x) xs)))"
  by (induction xs) auto

lemma builtin_parity_xor: "builtin_parity (x XOR y) \<longleftrightarrow> builtin_parity x \<noteq> builtin_parity y"
proof -
  have "bit (x XOR y) = (\<lambda>i. bit x i \<noteq> bit y i)" by (rule ext) (simp add: bit_xor_iff)
  then show ?thesis unfolding builtin_parity_def popcount_def by (simp only: odd_filter_neq)
qed

lemma builtin_parity_and: "builtin_parity (m AND x :: 'a::len word)
    \<longleftrightarrow> odd (length (filter (bit x) (filter (bit m) [0..<LENGTH('a)])))"
proof -
  have "bit (m AND x) = (\<lambda>i. bit m i \<and> bit x i)" by (rule ext) (simp add: bit_and_iff)
  then show ?thesis unfolding builtin_parity_def popcount_def by (simp add: conj_commute)
qed

lemma builtin_parity_of_bool: "builtin_parity (of_bool b :: 'a::len word) \<longleftrightarrow> b"
proof -
  have "filter (bit (of_bool b :: 'a word)) [0..<LENGTH('a)] = (if b then [0] else [])"
    by (cases "LENGTH('a)") (auto simp: upt_conv_Cons bit_simps filter_empty_conv simp del: upt_Suc)
  then show ?thesis by (simp add: builtin_parity_def popcount_def)
qed

lemma poly_taps:
  "filter (bit LF_POLY_ODD) [0..<32] = [2, 3, 4, 6, 9, 10, 11, 14, 15, 16, 19, 21]"
  "filter (bit LF_POLY_EVEN) [0..<32] = [2, 11, 16, 17, 18, 23]"
  by code_simp+

lemma length_filter_rev: "length (filter P (rev xs)) = length (filter P xs)"
  by (simp add: rev_filter [symmetric])

text \<open>The two masks select the taps, in reverse order and split by parity.\<close>

lemma lfsr_feedback_words: "lfsr_feedback (crypto1_register c)
    \<longleftrightarrow> builtin_parity (LF_POLY_ODD AND cr_odd c) \<noteq> builtin_parity (LF_POLY_EVEN AND cr_even c)"
proof -
  let ?x = "\<lambda>i. crypto1_register c ! i"
  have "filter ?x [5, 9, 15, 17, 19, 25, 27, 29, 35, 39, 41, 43]
      = map (\<lambda>k. 47 - 2 * k) (filter (bit (cr_odd c)) (rev [2, 3, 4, 6, 9, 10, 11, 14, 15, 16, 19, 21]))"
    by (simp add: crypto1_register_nth)
  then have o: "length (filter ?x [5, 9, 15, 17, 19, 25, 27, 29, 35, 39, 41, 43])
      = length (filter (bit (cr_odd c)) [2, 3, 4, 6, 9, 10, 11, 14, 15, 16, 19, 21])"
    by (simp only: length_map length_filter_rev)
  have "filter ?x [0, 10, 12, 14, 24, 42]
      = map (\<lambda>k. 46 - 2 * k) (filter (bit (cr_even c)) (rev [2, 11, 16, 17, 18, 23]))"
    by (simp add: crypto1_register_nth)
  then have e: "length (filter ?x [0, 10, 12, 14, 24, 42])
      = length (filter (bit (cr_even c)) [2, 11, 16, 17, 18, 23])"
    by (simp only: length_map length_filter_rev)
  let ?taps = "[0, 5, 9, 10, 12, 14, 15, 17, 19, 24, 25, 27, 29, 35, 39, 41, 42, 43] :: nat list"
  have t: "filter odd ?taps = [5, 9, 15, 17, 19, 25, 27, 29, 35, 39, 41, 43]"
    "filter (\<lambda>i. \<not> odd i) ?taps = [0, 10, 12, 14, 24, 42]" by simp_all
  have L: "LENGTH(32) = 32" by simp
  show ?thesis
    unfolding lfsr_feedback_def odd_filter_split [of ?x ?taps odd] builtin_parity_and L poly_taps t o e ..
qed

section \<open>The refinement\<close>

text \<open>The register shifts by one place when the words are shifted and swapped.\<close>

lemma register_shift:
  "crypto1_register \<lparr>cr_odd = push_bit 1 (cr_even c) OR of_bool b, cr_even = cr_odd c\<rparr> = tl (crypto1_register c) @ [b]"
proof (rule nth_equalityI)
  fix i assume "i < length (crypto1_register \<lparr>cr_odd = push_bit 1 (cr_even c) OR of_bool b, cr_even = cr_odd c\<rparr>)"
  then have i: "i < 48" by simp
  let ?r = "crypto1_register \<lparr>cr_odd = push_bit 1 (cr_even c) OR of_bool b, cr_even = cr_odd c\<rparr>"
  show "?r ! i = (tl (crypto1_register c) @ [b]) ! i"
  proof (cases "i = 47")
    case True
    then show ?thesis by (simp add: crypto1_register_nth nth_append bit_simps bit_word_times_2)
  next
    case False
    with i have i: "i < 47" by simp
    show ?thesis
    proof (cases "odd i")
      case True
      then obtain j where j: "i = 2 * j + 1" by (rule oddE)
      with i have "(47 - i) div 2 = Suc (22 - j)" "(47 - Suc i) div 2 = 22 - j" "22 - j < 31" by simp_all
      with i True show ?thesis by (simp add: crypto1_register_nth nth_append nth_tl bit_simps bit_word_times_2)
    next
      case False
      then obtain j where j: "i = 2 * j" by auto
      with i have "(47 - i) div 2 = 23 - j" "(47 - Suc i) div 2 = 23 - j" by simp_all
      with i False show ?thesis by (simp add: crypto1_register_nth nth_append nth_tl)
    qed
  qed
qed simp

lemma crypto1_bit_lfsr:
  "crypto1_bit c inp enc = (of_bool (lfsr_output (crypto1_register c)),
     \<lparr>cr_odd = push_bit 1 (cr_even c) OR of_bool ((lfsr_feedback (crypto1_register c) \<noteq> (inp \<noteq> 0))
        \<noteq> (enc \<and> lfsr_output (crypto1_register c))), cr_even = cr_odd c\<rparr>)"
proof -
  have u: "(ucast (of_bool p :: 'a::len word) :: 'b::len word) = of_bool p" for p by simp
  have a: "(of_bool p :: u8) AND of_bool q = of_bool (p \<and> q)" for p q by simp
  show ?thesis
    unfolding crypto1_bit_def Let_def crypto1_filter_output u a nfc_util_even_parity32_def
      builtin_parity_xor builtin_parity_of_bool lfsr_feedback_words
    by (cases c) auto
qed

lemma crypto1_bit_refines:
  assumes "crypto1_bit c inp enc = (out, c')"
  shows "lfsr_bit (crypto1_register c) (inp \<noteq> 0) enc = (out \<noteq> 0, crypto1_register c')" "out = of_bool (out \<noteq> 0)"
proof -
  let ?r = "crypto1_register c"
  have c': "out = of_bool (lfsr_output ?r)" "c' = \<lparr>cr_odd = push_bit 1 (cr_even c)
      OR of_bool ((lfsr_feedback ?r \<noteq> (inp \<noteq> 0)) \<noteq> (enc \<and> lfsr_output ?r)), cr_even = cr_odd c\<rparr>"
    using assms unfolding crypto1_bit_lfsr by simp_all
  show "lfsr_bit ?r (inp \<noteq> 0) enc = (out \<noteq> 0, crypto1_register c')"
    unfolding lfsr_bit_def c'(2) register_shift by (simp add: c'(1))
  show "out = of_bool (out \<noteq> 0)" by (simp add: c'(1))
qed

text \<open>The register after the key is loaded: the bytes of the key in the order of transmission.\<close>

lemma bit_shift_fold: "k < length xs \<Longrightarrow> length xs \<le> 32
    \<Longrightarrow> bit (fold (\<lambda>i w. push_bit 1 w OR of_bool (P i)) xs (w :: u32)) k = P (rev xs ! k)"
proof (induction xs arbitrary: k rule: rev_induct)
  case (snoc x xs)
  then show ?case by (cases k) (auto simp: bit_simps bit_word_times_2)
qed simp

lemma crypto1_init_words:
  "crypto1_init c key = \<lparr>
     cr_odd = fold (\<lambda>i w. push_bit 1 w OR of_bool (bit key ((i - 1) XOR 7))) (map (\<lambda>k. 47 - 2 * k) [0..<24]) 0,
     cr_even = fold (\<lambda>i w. push_bit 1 w OR of_bool (bit key (i XOR 7))) (map (\<lambda>k. 47 - 2 * k) [0..<24]) 0\<rparr>"
proof -
  have "fold (crypto1_init_step key) xs \<lparr>cr_odd = x, cr_even = y\<rparr>
      = \<lparr>cr_odd = fold (\<lambda>i w. push_bit 1 w OR of_bool (bit key ((i - 1) XOR 7))) xs x,
         cr_even = fold (\<lambda>i w. push_bit 1 w OR of_bool (bit key (i XOR 7))) xs y\<rparr>" for xs x y
    by (induction xs arbitrary: x y) (simp_all add: crypto1_init_step_def FURI_BIT_of_bool del: push_bit_Suc One_nat_def)
  then show ?thesis unfolding crypto1_init_def by (cases c) simp
qed

definition key_bits :: "u64 \<Rightarrow> bool list" where
  "key_bits key = map (\<lambda>i. bit key (8 * (5 - i div 8) + i mod 8)) [0..<48]"

lemma init_positions: "i < 48 \<Longrightarrow> 8 * (5 - i div 8) + i mod 8 = (47 - i) XOR (7 :: nat)"
proof -
  have "list_all (\<lambda>i. 8 * (5 - i div 8) + i mod 8 = (47 - i) XOR (7 :: nat)) [0..<48]"
    by code_simp
  then show "i < 48 \<Longrightarrow> ?thesis" by (simp add: list_all_iff del: upt_Suc)
qed

lemma crypto1_init_register: "crypto1_register (crypto1_init c key) = key_bits key"
proof (rule nth_equalityI)
  fix i assume "i < length (crypto1_register (crypto1_init c key))"
  then have i: "i < 48" by simp
  define k where "k = (47 - i) div 2"
  have k: "k < 24" by (simp add: k_def)
  have "[0..<24] ! (23 - k) = 23 - k" by (subst nth_upt) simp_all
  then have nth: "rev (map (\<lambda>k. 47 - 2 * k) [0..<24]) ! k = 2 * k + 1" using k by (simp add: rev_nth)
  have w: "bit (fold (\<lambda>i w. push_bit 1 w OR of_bool (P i)) (map (\<lambda>k. 47 - 2 * k) [0..<24]) (0 :: u32)) k = P (2 * k + 1)" for P
    using k by (subst bit_shift_fold) (simp_all only: nth, simp_all)
  have "crypto1_register (crypto1_init c key) ! i = bit key ((47 - i) XOR 7)"
  proof (cases "odd i")
    case True
    then obtain j where "i = 2 * j + 1" by (rule oddE)
    with i have "2 * k = 47 - i" by (simp add: k_def)
    moreover have "crypto1_register (crypto1_init c key) ! i = bit key ((2 * k + 1 - 1) XOR 7)"
      using True i unfolding crypto1_register_nth [OF i] k_def [symmetric] crypto1_init_words Crypto1.select_convs w by simp
    ultimately show ?thesis by simp
  next
    case False
    then obtain j where "i = 2 * j" by auto
    with i have "2 * k + 1 = 47 - i" by (simp add: k_def)
    moreover have "crypto1_register (crypto1_init c key) ! i = bit key ((2 * k + 1) XOR 7)"
      using False i unfolding crypto1_register_nth [OF i] k_def [symmetric] crypto1_init_words Crypto1.select_convs w by simp
    ultimately show ?thesis by simp
  qed
  then show "crypto1_register (crypto1_init c key) ! i = key_bits key ! i"
    using i unfolding key_bits_def by (subst nth_map_upt) (simp_all add: init_positions)
qed (simp add: key_bits_def del: upt_Suc)

text \<open>Runs of the register, and of the code's state, over a list of input bits.\<close>

fun lfsr_run :: "bool list \<Rightarrow> bool list \<Rightarrow> bool \<Rightarrow> bool list \<times> bool list" where
  "lfsr_run x [] enc = ([], x)"
| "lfsr_run x (b # bs) enc = (let (o1, x1) = lfsr_bit x b enc; (os, x2) = lfsr_run x1 bs enc in (o1 # os, x2))"

fun crypto1_run :: "Crypto1 \<Rightarrow> bool list \<Rightarrow> bool \<Rightarrow> bool list \<times> Crypto1" where
  "crypto1_run c [] enc = ([], c)"
| "crypto1_run c (b # bs) enc =
     (let (o1, c1) = crypto1_bit c (of_bool b) enc; (os, c2) = crypto1_run c1 bs enc in ((o1 \<noteq> 0) # os, c2))"

lemma crypto1_run_refines: "lfsr_run (crypto1_register c) bs enc = map_prod id crypto1_register (crypto1_run c bs enc)"
proof (induction bs arbitrary: c)
  case (Cons b bs)
  obtain o1 c1 where o1: "crypto1_bit c (of_bool b) enc = (o1, c1)" by fastforce
  from crypto1_bit_refines(1) [OF o1] Cons [of c1] show ?case
    by (simp add: o1 map_prod_def split: prod.split)
qed simp

lemma length_crypto1_run [simp]: "length (fst (crypto1_run c bs enc)) = length bs"
  by (induction bs arbitrary: c) (simp_all add: split_beta)

lemma crypto1_run_append: "crypto1_run c (as @ bs) enc
    = (let (os, c1) = crypto1_run c as enc; (ps, c2) = crypto1_run c1 bs enc in (os @ ps, c2))"
  by (induction as arbitrary: c) (simp_all add: split_beta)

text \<open>The loops of the code run over the bits \<open>f i\<close> and put the outputs at the places \<open>g i\<close>.\<close>

lemma crypto1_bit_truth: "crypto1_bit c (of_bool (x \<noteq> 0)) enc = crypto1_bit c x enc"
  by (simp add: crypto1_bit_lfsr)

lemma bit_loop:
  fixes acc :: "'a::len word" and f :: "nat \<Rightarrow> u8" and g :: "nat \<Rightarrow> nat"
  assumes "fold (\<lambda>i (out, c). let (b, c) = crypto1_bit c (f i) enc in (out OR push_bit (g i) (ucast b), c)) is (acc, c) = (out, c')"
    and "\<forall>i \<in> set is. g i < LENGTH('a)"
  shows "\<exists>os. crypto1_run c (map (\<lambda>i. f i \<noteq> 0) is) enc = (os, c') \<and> length os = length is
    \<and> (\<forall>k. bit out k \<longleftrightarrow> bit acc k \<or> (\<exists>j < length is. g (is ! j) = k \<and> os ! j))"
  using assms
proof (induction "is" arbitrary: acc c)
  case Nil
  then show ?case by simp
next
  case (Cons i "is")
  obtain b c1 where b: "crypto1_bit c (f i) enc = (b, c1)" by fastforce
  from Cons.prems(1) have run: "fold (\<lambda>i (out, c). let (b, c) = crypto1_bit c (f i) enc in (out OR push_bit (g i) (ucast b), c)) is
      (acc OR push_bit (g i) (ucast b), c1) = (out, c')" by (simp add: b)
  obtain os where os: "crypto1_run c1 (map (\<lambda>i. f i \<noteq> 0) is) enc = (os, c')" "length os = length is"
    and out: "\<And>k. bit out k \<longleftrightarrow> bit (acc OR push_bit (g i) (ucast b)) k \<or> (\<exists>j < length is. g (is ! j) = k \<and> os ! j)"
    using Cons.IH [OF run] Cons.prems(2) by auto
  have "bit (push_bit (g i) (ucast b) :: 'a word) k \<longleftrightarrow> k = g i \<and> b \<noteq> 0" for k
    using Cons.prems(2) by (subst crypto1_bit_refines(2) [OF b]) (auto simp: bit_simps)
  then have "bit out k \<longleftrightarrow> bit acc k \<or> (\<exists>j < length (i # is). g ((i # is) ! j) = k \<and> ((b \<noteq> 0) # os) ! j)" for k
    unfolding out by (auto simp: bit_or_iff less_Suc_eq_0_disj)
  then show ?case using os by (intro exI [of _ "(b \<noteq> 0) # os"]) (simp add: crypto1_bit_truth b)
qed

lemma bit_loop_run:
  fixes f :: "nat \<Rightarrow> u8" and g :: "nat \<Rightarrow> nat"
  assumes "fold (\<lambda>i (out, c). let (b, c) = crypto1_bit c (f i) enc in (out OR push_bit (g i) (ucast b), c)) is (0 :: 'a::len word, c) = (out, c')"
    and "inj_on g (set is)" "distinct is" "\<forall>i \<in> set is. g i < LENGTH('a)"
  shows "crypto1_run c (map (\<lambda>i. f i \<noteq> 0) is) enc = (map (\<lambda>i. bit out (g i)) is, c')"
proof -
  obtain os where os: "crypto1_run c (map (\<lambda>i. f i \<noteq> 0) is) enc = (os, c')" "length os = length is"
    and out: "\<And>k. bit out k \<longleftrightarrow> (\<exists>j < length is. g (is ! j) = k \<and> os ! j)"
    using bit_loop [OF assms(1,4)] by auto
  have "bit out (g (is ! i)) = os ! i" if "i < length is" for i
  proof -
    have "j = i" if "j < length is" "g (is ! j) = g (is ! i)" for j
      using inj_onD [OF assms(2) that(2)] that(1) \<open>i < length is\<close> assms(3) by (simp add: nth_eq_iff_index_eq)
    then show ?thesis unfolding out using \<open>i < length is\<close> by auto
  qed
  then have "map (\<lambda>i. bit out (g i)) is = os" using os(2) by (intro nth_equalityI) simp_all
  with os(1) show ?thesis by simp
qed

text \<open>The bits of a byte and of a word in the order in which they meet the cipher.\<close>

definition byte_bits :: "u8 \<Rightarrow> bool list" where
  "byte_bits b = map (bit b) [0..<8]"

definition word_bits :: "u32 \<Rightarrow> bool list" where
  "word_bits w = map (\<lambda>i. bit w (24 XOR i)) [0..<32]"

lemma crypto1_byte_run:
  assumes "crypto1_byte c inp enc = (out, c')"
  shows "crypto1_run c (byte_bits inp) enc = (byte_bits out, c')"
proof -
  have "(\<lambda>i. FURI_BIT inp i \<noteq> 0) = bit inp" by (simp add: FURI_BIT_of_bool fun_eq_iff)
  then show ?thesis
    using bit_loop_run [of "\<lambda>i. FURI_BIT inp i" enc "\<lambda>i. i" "[0..<8]" c out c'] assms
    by (simp add: crypto1_byte_def byte_bits_def del: upt_Suc)
qed

lemma xor_24_inj: "inj_on ((XOR) (24 :: nat)) A"
  by (rule inj_onI) (metis xor.left_neutral xor.assoc xor_self_eq)

lemma xor_24_less: "i < 32 \<Longrightarrow> 24 XOR i < (32 :: nat)"
proof -
  have "list_all (\<lambda>i. 24 XOR i < (32 :: nat)) [0..<32]" by code_simp
  then show "i < 32 \<Longrightarrow> ?thesis" by (simp add: list_all_iff del: upt_Suc)
qed

lemma crypto1_word_run:
  assumes "crypto1_word c inp enc = (out, c')"
  shows "crypto1_run c (word_bits inp) enc = (word_bits out, c')"
proof -
  have "(\<lambda>i. (ucast (BEBIT inp i) :: u8) \<noteq> 0) = (\<lambda>i. bit inp (24 XOR i))"
    by (simp add: BEBIT_def FURI_BIT_of_bool fun_eq_iff xor.commute)
  then show ?thesis
    using bit_loop_run [of "\<lambda>i. ucast (BEBIT inp i)" enc "(XOR) 24" "[0..<32]" c out c'] assms
    by (simp add: crypto1_word_def xor_24_inj xor_24_less word_bits_def del: upt_Suc)
qed

section \<open>Properties\<close>

text \<open>C29: the cipher of the code, two words that are shifted and swapped with masks and nibble
  tables, implements the published cipher over one register of 48 bits: loading a key puts the key's bytes
  in the order of transmission into the register, one step of the code is one step of the register with
  the same output bit, and the byte and word routines run the register over the bits of the byte, least
  significant first, and of the word, most significant byte first.\<close>

theorem crypto1_refines:
  "crypto1_register (crypto1_init c key) = key_bits key
   \<and> lfsr_bit (crypto1_register c) (inp \<noteq> 0) enc = map_prod (\<lambda>b. b \<noteq> 0) crypto1_register (crypto1_bit c inp enc)
   \<and> lfsr_run (crypto1_register c) (byte_bits inp) enc = map_prod byte_bits crypto1_register (crypto1_byte c inp enc)
   \<and> lfsr_run (crypto1_register c) (word_bits w) enc = map_prod word_bits crypto1_register (crypto1_word c w enc)"
proof (intro conjI)
  show "crypto1_register (crypto1_init c key) = key_bits key" by (rule crypto1_init_register)
  obtain b c1 where b: "crypto1_bit c inp enc = (b, c1)" by fastforce
  then show "lfsr_bit (crypto1_register c) (inp \<noteq> 0) enc = map_prod (\<lambda>b. b \<noteq> 0) crypto1_register (crypto1_bit c inp enc)"
    by (simp add: crypto1_bit_refines(1))
  obtain x c2 where x: "crypto1_byte c inp enc = (x, c2)" by fastforce
  then show "lfsr_run (crypto1_register c) (byte_bits inp) enc = map_prod byte_bits crypto1_register (crypto1_byte c inp enc)"
    by (simp add: crypto1_run_refines crypto1_byte_run)
  obtain y c3 where y: "crypto1_word c w enc = (y, c3)" by fastforce
  then show "lfsr_run (crypto1_register c) (word_bits w) enc = map_prod word_bits crypto1_register (crypto1_word c w enc)"
    by (simp add: crypto1_run_refines crypto1_word_run)
qed

end
