(* ===== verification/Crypto1Frames.thy ===== *)
theory Crypto1Frames
  imports Crypto1
begin

text \<open>
  The cipher on frames: the keystream over a list of bytes (\<open>key_stream\<close>), what the frame routines of
  \<open>crypto1.c\<close> write, the reader's answer to a nonce, and the round trip.
\<close>

section \<open>Keystream bytes\<close>

text \<open>The cipher over a list of bytes: the keystream and the state after it.\<close>

fun key_stream :: "Crypto1 \<Rightarrow> u8 list \<Rightarrow> u8 list \<times> Crypto1" where
  "key_stream c [] = ([], c)"
| "key_stream c (b # bs) = (let (k, c1) = crypto1_byte c b False; (ks, c2) = key_stream c1 bs in (k # ks, c2))"

lemma length_key_stream [simp]: "length (fst (key_stream c bs)) = length bs"
  by (induction bs arbitrary: c) (simp_all add: split_beta)

lemma key_stream_append: "key_stream c (as @ bs)
    = (let (ks, c1) = key_stream c as; (ls, c2) = key_stream c1 bs in (ks @ ls, c2))"
  by (induction as arbitrary: c) (simp_all add: split_beta)

lemma length_byte_bits [simp]: "length (byte_bits b) = 8" and length_word_bits [simp]: "length (word_bits w) = 32"
  by (simp_all add: byte_bits_def word_bits_def)

lemma byte_bits_inject [simp]: "byte_bits a = byte_bits b \<longleftrightarrow> a = b"
  by (auto simp: byte_bits_def intro!: bit_word_eqI simp del: upt_Suc)

lemma word_bits_inject [simp]: "word_bits a = word_bits b \<longleftrightarrow> a = b"
proof
  assume h: "word_bits a = word_bits b"
  show "a = b"
  proof (rule bit_word_eqI)
    fix n assume "n < LENGTH(32)"
    then have n: "24 XOR n < 32" by (simp add: xor_24_less)
    have "24 XOR (24 XOR n) = n" by (metis xor.left_neutral xor.assoc xor_self_eq)
    moreover have "bit a (24 XOR (24 XOR n)) = bit b (24 XOR (24 XOR n))"
      using h n unfolding word_bits_def by (simp del: upt_Suc)
    ultimately show "bit a n = bit b n" by simp
  qed
qed simp

lemma key_stream_run: "crypto1_run c (concat (map byte_bits bs)) False
    = map_prod (\<lambda>ks. concat (map byte_bits ks)) id (key_stream c bs)"
proof (induction bs arbitrary: c)
  case (Cons b bs)
  obtain k c1 where k: "crypto1_byte c b False = (k, c1)" by fastforce
  from crypto1_byte_run [OF k] Cons [of c1] show ?case
    by (simp add: crypto1_run_append k split_beta)
qed simp

text \<open>A word is its four bytes, most significant first.\<close>

definition be32 :: "u8 list \<Rightarrow> u32" where
  "be32 bs = of_le_bytes (rev bs)"

lemma bit_of_le_bytes_nth: "k < 8 * length bs \<Longrightarrow> k < LENGTH('a) \<Longrightarrow> bit (of_le_bytes bs :: 'a::len word) k \<longleftrightarrow> bit (bs ! (k div 8)) (k mod 8)"
proof (induction bs arbitrary: k)
  case (Cons b bs)
  show ?case
  proof (cases "k < 8")
    case True
    then show ?thesis using Cons.prems by (auto simp: of_le_bytes_Cons bit_simps)
  next
    case False
    then obtain j where j: "k = j + 8" by (metis add.commute le_Suc_ex not_less)
    have "bit (of_le_bytes (b # bs) :: 'a word) k = bit (of_le_bytes bs :: 'a word) j"
      using Cons.prems unfolding j of_le_bytes_Cons by (auto simp: bit_simps dest: bit_imp_le_length)
    moreover have "(j + 8) div 8 = Suc (j div 8)" by simp
    ultimately show ?thesis using Cons.IH [of j] Cons.prems unfolding j by simp
  qed
qed simp

lemma upt_literals:
  "[0..<8] = [0, 1, 2, 3, 4, 5, 6, 7]"
  "[0..<32] = [0, 1, 2, 3, 4, 5, 6, 7, 8, 9, 10, 11, 12, 13, 14, 15, 16, 17, 18, 19, 20, 21, 22, 23, 24, 25, 26, 27, 28, 29, 30, 31]"
  by code_simp+

lemma word_bits_be32:
  assumes "length bs = 4"
  shows "word_bits (be32 bs) = concat (map byte_bits bs)"
proof -
  obtain b0 b1 b2 b3 where bs: "bs = [b0, b1, b2, b3]"
    using assms by (auto simp: length_Suc_conv eval_nat_numeral)
  have "bit (be32 bs) k = bit (rev bs ! (k div 8)) (k mod 8)" if "k < 32" for k
    using that assms unfolding be32_def by (subst bit_of_le_bytes_nth) simp_all
  then have "word_bits (be32 bs) = map (\<lambda>i. bit (rev bs ! ((24 XOR i) div 8)) ((24 XOR i) mod 8)) [0..<32]"
    unfolding word_bits_def by (intro map_cong) (simp_all add: xor_24_less del: upt_Suc)
  also have "\<dots> = concat (map byte_bits bs)"
    unfolding bs byte_bits_def upt_literals by simp
  finally show ?thesis .
qed

lemma crypto1_word_bytes:
  assumes "length bs = 4"
  shows "crypto1_word c (be32 bs) False = (be32 (fst (key_stream c bs)), snd (key_stream c bs))"
proof -
  obtain out c' where w: "crypto1_word c (be32 bs) False = (out, c')" by fastforce
  have "crypto1_run c (word_bits (be32 bs)) False = (word_bits (be32 (fst (key_stream c bs))), snd (key_stream c bs))"
    using assms by (simp add: word_bits_be32 key_stream_run map_prod_def split_beta)
  with crypto1_word_run [OF w] w show ?thesis by simp
qed

text \<open>Feeding ciphertext as encrypted input is feeding the plaintext.\<close>

lemma run_encrypted_input:
  "crypto1_run c (map2 (\<noteq>) (fst (crypto1_run c bs False)) bs) True = crypto1_run c bs False"
proof (induction bs arbitrary: c)
  case (Cons b bs)
  obtain o1 c1 where o1: "crypto1_bit c (of_bool b) False = (o1, c1)" by fastforce
  have "crypto1_bit c (of_bool ((o1 \<noteq> 0) \<noteq> b)) True = (o1, c1)"
    using o1 unfolding crypto1_bit_lfsr
    by (cases b; cases "lfsr_output (crypto1_register c)"; cases "lfsr_feedback (crypto1_register c)") auto
  with Cons [of c1] o1 show ?case by (simp add: split_beta)
qed simp

lemma crypto1_word_encrypted:
  assumes "crypto1_word c p False = (k, c')"
  shows "crypto1_word c (k XOR p) True = (k, c')"
proof -
  obtain out c2 where w: "crypto1_word c (k XOR p) True = (out, c2)" by fastforce
  have "word_bits (k XOR p) = map2 (\<noteq>) (word_bits k) (word_bits p)"
    by (simp add: word_bits_def bit_xor_iff map2_map_map del: upt_Suc)
  with run_encrypted_input [of c "word_bits p"] crypto1_word_run [OF assms] crypto1_word_run [OF w] w
  show ?thesis by simp
qed

section \<open>Frames\<close>

lemma set_byte_spec:
  assumes "bb_wf b" "i < bit_buffer_get_size_bytes b"
  shows "bit_buffer_set_byte b i x = Some (b\<lparr>bb_data := (bb_data b)[i := x]\<rparr>)"
  using assms size_bytes_le_capacity [OF assms(1)] by (simp add: bit_buffer_set_byte_def bb_wf_def mem_simps)

lemma set_byte_with_parity_spec:
  assumes "bb_wf b" "i < bb_size_bits b div 8"
  shows "\<exists>p. bit_buffer_set_byte_with_parity b i x q = Some (b\<lparr>bb_data := (bb_data b)[i := x], bb_parity := p\<rparr>)
    \<and> length p = length (bb_parity b)"
proof -
  have "i < length (bb_data b)" "i div 8 < length (bb_parity b)" using assms unfolding bb_wf_def by linarith+
  moreover from this obtain p where "(if i mod 8 = 0 then wr (bb_parity b) (i div 8) (of_bool q)
      else do {
        x \<leftarrow> rd (bb_parity b) (i div 8);
        wr (bb_parity b) (i div 8) (x OR push_bit (i mod 8) (of_bool q)) }) = Some p" "length p = length (bb_parity b)"
    by (cases "i mod 8 = 0") (simp_all add: mem_simps del: of_bool_eq)
  ultimately show ?thesis
    using assms(2) unfolding bit_buffer_set_byte_with_parity_def by (intro exI [of _ p]) (simp add: mem_simps)
qed

text \<open>
  What the frame loops keep: the cipher state and the bytes written so far are those of the keystream
  over the bytes fed so far.
\<close>

definition cipher_frame :: "Crypto1 \<Rightarrow> u8 list \<Rightarrow> u8 list \<Rightarrow> BitBuffer \<Rightarrow> nat \<Rightarrow> Crypto1 \<times> BitBuffer \<Rightarrow> bool" where
  "cipher_frame c feeds src out i st \<longleftrightarrow> (case st of (c', o') \<Rightarrow>
     c' = snd (key_stream c (take i feeds)) \<and> bb_wf o' \<and> bb_capacity_bytes o' = bb_capacity_bytes out
     \<and> bb_size_bits o' = bb_size_bits out
     \<and> take i (bb_data o') = map2 (XOR) (fst (key_stream c (take i feeds))) (take i src))"

lemma cipher_frame_step:
  assumes inv: "cipher_frame c feeds src out i (c1, o1)" and i: "i < length feeds" "i < length src" "i < bb_size_bits out div 8"
    and k: "crypto1_byte c1 (feeds ! i) False = (k, c2)"
    and o2: "o2 = o1\<lparr>bb_data := (bb_data o1)[i := k XOR src ! i], bb_parity := p\<rparr>" "length p = length (bb_parity o1)"
  shows "cipher_frame c feeds src out (Suc i) (c2, o2)"
proof -
  have c1: "c1 = snd (key_stream c (take i feeds))" and wf: "bb_wf o1"
    and t: "take i (bb_data o1) = map2 (XOR) (fst (key_stream c (take i feeds))) (take i src)"
    and s: "bb_size_bits o1 = bb_size_bits out" "bb_capacity_bytes o1 = bb_capacity_bytes out"
    using inv by (simp_all add: cipher_frame_def)
  have "i < length (bb_data o1)" using wf i(3) s unfolding bb_wf_def by linarith
  then have "take (Suc i) (bb_data o2) = take i (bb_data o1) @ [k XOR src ! i]"
    by (simp add: o2(1) take_Suc_conv_app_nth)
  moreover have "key_stream c (take (Suc i) feeds) = (fst (key_stream c (take i feeds)) @ [k], c2)"
    using k by (simp add: take_Suc_conv_app_nth [OF i(1)] key_stream_append c1 split_beta)
  moreover have "map2 (XOR) (fst (key_stream c (take i feeds)) @ [k]) (take (Suc i) src)
      = map2 (XOR) (fst (key_stream c (take i feeds))) (take i src) @ [k XOR src ! i]"
    using i by (simp add: take_Suc_conv_app_nth)
  moreover have "bb_wf o2" using wf o2 by (simp add: bb_wf_def)
  ultimately show ?thesis using s t by (simp add: cipher_frame_def o2(1))
qed

lemma cipher_frame_done:
  assumes "cipher_frame c feeds src out n (c1, o1)" "length feeds = n" "bb_size_bits out = 8 * n"
  shows "c1 = snd (key_stream c feeds)" "bb_wf o1" "bb_capacity_bytes o1 = bb_capacity_bytes out" "bb_size_bits o1 = 8 * n"
    "bb_bytes o1 = map2 (XOR) (fst (key_stream c feeds)) (take n src)"
  using assms by (auto simp: cipher_frame_def bb_bytes_def bit_buffer_get_size_bytes_def)

lemma bb_data_bytes: "bb_size_bits b = 8 * n \<Longrightarrow> take n (bb_data b) = bb_bytes b"
  by (simp add: bb_bytes_def bit_buffer_get_size_bytes_def)

lemma set_size_spec:
  assumes "bb_wf b" "n \<le> 8 * bb_capacity_bytes b"
  shows "bit_buffer_set_size b n = Some (b\<lparr>bb_size_bits := n\<rparr>)" "bb_wf (b\<lparr>bb_size_bits := n\<rparr>)"
  using assms by (simp_all add: bit_buffer_set_size_def bb_wf_def)

lemma encrypt_bytes:
  assumes wf: "bb_wf buff" "bb_wf out" and n: "bb_size_bits buff = 8 * n" "0 < n" "n \<le> bb_capacity_bytes out"
    and feeds: "length feeds = n" "case keystream of None \<Rightarrow> feeds = replicate n 0 | Some ks \<Rightarrow> n \<le> length ks \<and> feeds = take n ks"
  shows "\<exists>o'. crypto1_encrypt c keystream buff out = Some (snd (key_stream c feeds), o') \<and> bb_wf o'
    \<and> bb_capacity_bytes o' = bb_capacity_bytes out \<and> bb_size_bits o' = 8 * n
    \<and> bb_bytes o' = map2 (XOR) (fst (key_stream c feeds)) (bb_bytes buff)"
proof -
  let ?out = "out\<lparr>bb_size_bits := 8 * n\<rparr>"
  let ?body = "\<lambda>i (crypto, out). do {
             feed \<leftarrow> (case keystream of None \<Rightarrow> Some 0 | Some ks \<Rightarrow> rd ks i);
             let (k, crypto) = crypto1_byte crypto feed False;
             x \<leftarrow> rd (bb_data buff) i;
             out \<leftarrow> bit_buffer_set_byte_with_parity out i (k XOR x) (parity_of_next crypto x);
             Some (crypto, out) }"
  have src: "n \<le> length (bb_data buff)" using wf(1) n(1) by (simp add: bb_wf_def)
  have "\<exists>st. for_loop ?body 0 n (c, ?out) = Some st \<and> cipher_frame c feeds (bb_data buff) ?out (0 + n) st"
  proof (rule for_loop_rule)
    show "cipher_frame c feeds (bb_data buff) ?out 0 (c, ?out)"
      using wf n by (simp add: cipher_frame_def bb_wf_def)
    fix i st assume i: "0 \<le> i" "i < 0 + n" and st: "cipher_frame c feeds (bb_data buff) ?out i st"
    obtain c1 o1 where co: "st = (c1, o1)" by fastforce
    obtain k c2 where k: "crypto1_byte c1 (feeds ! i) False = (k, c2)" by fastforce
    have o1: "bb_wf o1" "i < bb_size_bits o1 div 8" using st i by (simp_all add: co cipher_frame_def)
    obtain p where p: "bit_buffer_set_byte_with_parity o1 i (k XOR bb_data buff ! i) (parity_of_next c2 (bb_data buff ! i))
        = Some (o1\<lparr>bb_data := (bb_data o1)[i := k XOR bb_data buff ! i], bb_parity := p\<rparr>)" "length p = length (bb_parity o1)"
      using set_byte_with_parity_spec [OF o1] by blast
    have "(case keystream of None \<Rightarrow> Some 0 | Some ks \<Rightarrow> rd ks i) = Some (feeds ! i)"
      using feeds i by (auto simp: mem_simps split: option.splits)
    then have "?body i st = Some (c2, o1\<lparr>bb_data := (bb_data o1)[i := k XOR bb_data buff ! i], bb_parity := p\<rparr>)"
      using i src by (simp add: co k mem_simps p(1))
    moreover have "cipher_frame c feeds (bb_data buff) ?out (Suc i)
        (c2, o1\<lparr>bb_data := (bb_data o1)[i := k XOR bb_data buff ! i], bb_parity := p\<rparr>)"
      using i feeds src by (intro cipher_frame_step [OF st [unfolded co] _ _ _ k refl p(2)]) simp_all
    ultimately show "\<exists>st'. ?body i st = Some st' \<and> cipher_frame c feeds (bb_data buff) ?out (Suc i) st'" by blast
  qed
  then obtain c1 o1 where loop: "for_loop ?body 0 n (c, ?out) = Some (c1, o1)" "cipher_frame c feeds (bb_data buff) ?out n (c1, o1)"
    by auto
  note d = cipher_frame_done [OF loop(2) feeds(1), simplified]
  have "crypto1_encrypt c keystream buff out = Some (c1, o1)"
    using loop(1) n wf by (simp add: crypto1_encrypt_def bit_buffer_get_size_def bit_buffer_get_data_def set_size_spec)
  then show ?thesis using d by (simp add: bb_data_bytes [OF n(1)])
qed

lemma decrypt_bytes:
  assumes wf: "bb_wf buff" "bb_wf out" and n: "bb_size_bits buff = 8 * n" "0 < n" "n \<le> bb_capacity_bytes out"
  shows "\<exists>o'. crypto1_decrypt c buff out = Some (snd (key_stream c (replicate n 0)), o') \<and> bb_wf o'
    \<and> bb_capacity_bytes o' = bb_capacity_bytes out \<and> bb_size_bits o' = 8 * n
    \<and> bb_bytes o' = map2 (XOR) (fst (key_stream c (replicate n 0))) (bb_bytes buff)"
proof -
  let ?out = "out\<lparr>bb_size_bits := 8 * n\<rparr>" and ?f = "replicate n 0 :: u8 list"
  let ?body = "\<lambda>i (crypto, out). do {
             let (k, crypto) = crypto1_byte crypto 0 False;
             x \<leftarrow> rd (bb_data buff) i;
             out \<leftarrow> bit_buffer_set_byte out i (k XOR x);
             Some (crypto, out) }"
  have src: "n \<le> length (bb_data buff)" using wf(1) n(1) by (simp add: bb_wf_def)
  have "\<exists>st. for_loop ?body 0 n (c, ?out) = Some st \<and> cipher_frame c ?f (bb_data buff) ?out (0 + n) st"
  proof (rule for_loop_rule)
    show "cipher_frame c ?f (bb_data buff) ?out 0 (c, ?out)"
      using wf n by (simp add: cipher_frame_def bb_wf_def)
    fix i st assume i: "0 \<le> i" "i < 0 + n" and st: "cipher_frame c ?f (bb_data buff) ?out i st"
    obtain c1 o1 where co: "st = (c1, o1)" by fastforce
    obtain k c2 where k: "crypto1_byte c1 (?f ! i) False = (k, c2)" by fastforce
    have o1: "bb_wf o1" "i < bit_buffer_get_size_bytes o1"
      using st i by (simp_all add: co cipher_frame_def bit_buffer_get_size_bytes_def)
    let ?o2 = "o1\<lparr>bb_data := (bb_data o1)[i := k XOR bb_data buff ! i], bb_parity := bb_parity o1\<rparr>"
    have "?body i st = Some (c2, ?o2)"
      using i src k by (simp add: co mem_simps set_byte_spec [OF o1])
    moreover have "cipher_frame c ?f (bb_data buff) ?out (Suc i) (c2, ?o2)"
      using i src by (intro cipher_frame_step [OF st [unfolded co] _ _ _ k refl refl]) simp_all
    ultimately show "\<exists>st'. ?body i st = Some st' \<and> cipher_frame c ?f (bb_data buff) ?out (Suc i) st'" by blast
  qed
  then obtain c1 o1 where loop: "for_loop ?body 0 n (c, ?out) = Some (c1, o1)" "cipher_frame c ?f (bb_data buff) ?out n (c1, o1)"
    by auto
  note d = cipher_frame_done [OF loop(2) length_replicate, simplified]
  have "crypto1_decrypt c buff out = Some (c1, o1)"
    using loop(1) n wf by (simp add: crypto1_decrypt_def bit_buffer_get_size_def bit_buffer_get_data_def set_size_spec)
  then show ?thesis using d by (simp add: bb_data_bytes [OF n(1)])
qed

text \<open>A short frame carries four bits.\<close>

lemma decrypt_nibble_encrypt_bits: "decrypt_nibble c x = encrypt_bits c x 4"
  by (simp add: decrypt_nibble_def encrypt_bits_def)

definition nibble_stream :: "Crypto1 \<Rightarrow> u8" where
  "nibble_stream c = fst (encrypt_bits c 0 4)"

lemma encrypt_bits_4: "encrypt_bits c x 4 = ((nibble_stream c XOR x) AND 0xF, snd (encrypt_bits c 0 4))"
proof -
  obtain b0 c0 where 0: "crypto1_bit c 0 False = (b0, c0)" by fastforce
  obtain b1 c1 where 1: "crypto1_bit c0 0 False = (b1, c1)" by fastforce
  obtain b2 c2 where 2: "crypto1_bit c1 0 False = (b2, c2)" by fastforce
  obtain b3 c3 where 3: "crypto1_bit c2 0 False = (b3, c3)" by fastforce
  have u: "[0..<4] = [0, 1, 2, 3]" by code_simp
  have run: "encrypt_bits c x 4 = ((b0 XOR FURI_BIT x 0) OR push_bit 1 (b1 XOR FURI_BIT x 1)
      OR push_bit 2 (b2 XOR FURI_BIT x 2) OR push_bit 3 (b3 XOR FURI_BIT x 3), c3)" for x
    unfolding encrypt_bits_def u by (simp add: 0 1 2 3 or.assoc)
  define p0 p1 p2 p3 where "p0 \<longleftrightarrow> b0 \<noteq> 0" "p1 \<longleftrightarrow> b1 \<noteq> 0" "p2 \<longleftrightarrow> b2 \<noteq> 0" "p3 \<longleftrightarrow> b3 \<noteq> 0"
  have b: "b0 = of_bool p0" "b1 = of_bool p1" "b2 = of_bool p2" "b3 = of_bool p3"
    unfolding p0_p1_p2_p3_def using crypto1_bit_refines(2) 0 1 2 3 by blast+
  have "((b0 XOR FURI_BIT x 0) OR push_bit 1 (b1 XOR FURI_BIT x 1) OR push_bit 2 (b2 XOR FURI_BIT x 2) OR push_bit 3 (b3 XOR FURI_BIT x 3))
      = (((b0 XOR FURI_BIT 0 0) OR push_bit 1 (b1 XOR FURI_BIT 0 1) OR push_bit 2 (b2 XOR FURI_BIT 0 2) OR push_bit 3 (b3 XOR FURI_BIT 0 3))
         XOR x) AND 0xF" (is "?l = ?r")
  proof (rule bit_word_eqI)
    fix k assume "k < LENGTH(8)"
    have m: "bit (0xF :: u8) k \<longleftrightarrow> k = 0 \<or> k = 1 \<or> k = 2 \<or> k = 3"
      by (cases "k < 4") (auto simp: less_Suc_eq numeral_eq_Suc bit_Suc)
    consider "k = 0" | "k = 1" | "k = 2" | "k = 3" | "3 < k" by linarith
    then show "bit ?l k = bit ?r k" by cases (use m in \<open>simp_all add: b FURI_BIT_of_bool bit_simps\<close>)
  qed
  then show ?thesis unfolding nibble_stream_def run by simp
qed

lemma encrypt_short:
  assumes "bb_wf buff" "bb_wf out" "bb_size_bits buff = 4"
  shows "crypto1_encrypt c ks buff out = Some (snd (encrypt_bits c 0 4),
    out\<lparr>bb_size_bits := 4, bb_data := (bb_data out)[0 := (nibble_stream c XOR bb_data buff ! 0) AND 0xF]\<rparr>)"
proof -
  have "4 \<le> 8 * bb_capacity_bytes out" "0 < length (bb_data buff)" using assms by (auto simp: bb_wf_def)
  moreover have "bit_buffer_set_byte (out\<lparr>bb_size_bits := 4\<rparr>) 0 x = Some (out\<lparr>bb_size_bits := 4, bb_data := (bb_data out)[0 := x]\<rparr>)" for x
    using assms(2) by (simp add: bit_buffer_set_byte_def bit_buffer_get_size_bytes_def bb_wf_def mem_simps)
  ultimately show ?thesis using assms
    by (simp add: crypto1_encrypt_def bit_buffer_get_size_def bit_buffer_get_data_def set_size_spec mem_simps
        encrypt_bits_4 [of c "bb_data buff ! 0"])
qed

lemma decrypt_short:
  assumes "bb_wf buff" "bb_wf out" "bb_size_bits buff = 4"
  shows "crypto1_decrypt c buff out = Some (snd (encrypt_bits c 0 4),
    out\<lparr>bb_size_bits := 4, bb_data := (bb_data out)[0 := (nibble_stream c XOR bb_data buff ! 0) AND 0xF]\<rparr>)"
proof -
  have "4 \<le> 8 * bb_capacity_bytes out" "0 < length (bb_data buff)" using assms by (auto simp: bb_wf_def)
  moreover have "bit_buffer_set_byte (out\<lparr>bb_size_bits := 4\<rparr>) 0 x = Some (out\<lparr>bb_size_bits := 4, bb_data := (bb_data out)[0 := x]\<rparr>)" for x
    using assms(2) by (simp add: bit_buffer_set_byte_def bit_buffer_get_size_bytes_def bb_wf_def mem_simps)
  ultimately show ?thesis using assms
    by (simp add: crypto1_decrypt_def bit_buffer_get_size_def bit_buffer_get_data_def set_size_spec mem_simps
        decrypt_nibble_encrypt_bits encrypt_bits_4 [of c "bb_data buff ! 0"])
qed

lemma map2_xor_cancel: "length xs = length ys \<Longrightarrow> map2 (XOR) xs (map2 (XOR) xs ys) = (ys :: 'a::len word list)"
  by (induction xs ys rule: list_induct2) (simp_all add: xor.assoc [symmetric])

lemma xor_mask_cancel: "(a XOR ((a XOR b) AND m)) AND m = b AND (m :: 'a::len word)"
  by (rule bit_word_eqI) (auto simp: bit_simps)

section \<open>The authentication frame\<close>

lemma bit_prng_steps: "i + n < 32 \<Longrightarrow> bit ((prng_step ^^ n) s) i \<longleftrightarrow> bit s (i + n)"
proof (induction n arbitrary: i)
  case (Suc n)
  have "bit (prng_step t) i = bit t (Suc i)" if "Suc i < 32" for t
    using that by (auto simp: prng_step_def bit_simps)
  with Suc show ?case by simp
qed simp

lemma bit_byte_swap_mask: "k < 32 \<Longrightarrow> bit (0xff00ff :: u32) k \<longleftrightarrow> k < 8 \<or> 16 \<le> k \<and> k < 24"
proof -
  have "list_all (\<lambda>k. bit (0xff00ff :: u32) k \<longleftrightarrow> k < 8 \<or> 16 \<le> k \<and> k < 24) [0..<32]" by code_simp
  then show "k < 32 \<Longrightarrow> ?thesis" by (simp add: list_all_iff del: upt_Suc)
qed

lemma bit_SWAPENDIAN:
  assumes "q < 4" "r < 8"
  shows "bit (SWAPENDIAN x) (8 * q + r) \<longleftrightarrow> bit x (8 * (3 - q) + r)"
proof -
  consider "q = 0" | "q = 1" | "q = 2" | "q = 3" using assms(1) by linarith
  then show ?thesis
    unfolding SWAPENDIAN_def Let_def bit_or_iff bit_push_bit_iff bit_drop_bit_eq bit_and_iff o_def
    by cases (use assms(2) bit_byte_swap_mask [of r] bit_byte_swap_mask [of "r + 8"] bit_byte_swap_mask [of "r + 16"]
        bit_byte_swap_mask [of "r + 24"] in \<open>simp_all add: add.commute\<close>)
qed

lemma word32_eqI: "(\<And>q r. q < 4 \<Longrightarrow> r < 8 \<Longrightarrow> bit x (8 * q + r) \<longleftrightarrow> bit y (8 * q + r)) \<Longrightarrow> x = (y :: u32)"
proof (rule bit_word_eqI)
  fix n assume h: "\<And>q r. q < 4 \<Longrightarrow> r < 8 \<Longrightarrow> bit x (8 * q + r) \<longleftrightarrow> bit y (8 * q + r)" and n: "n < LENGTH(32)"
  from n have "n div 8 < 4" by simp
  from h [OF this, of "n mod 8"] show "bit x n \<longleftrightarrow> bit y n" by simp
qed

lemma SWAPENDIAN_SWAPENDIAN [simp]: "SWAPENDIAN (SWAPENDIAN x) = x"
  by (rule word32_eqI) (simp add: bit_SWAPENDIAN)

lemma prng_successor_add: "unat m + unat n < 2 ^ 32 \<Longrightarrow> prng_successor (prng_successor x m) n = prng_successor x (m + n)"
proof -
  assume "unat m + unat n < 2 ^ 32"
  then have "unat (m + n) = unat n + unat m" by (simp add: unat_word_ariths)
  then show ?thesis unfolding prng_successor_def SWAPENDIAN_SWAPENDIAN by (simp only: funpow_add o_apply)
qed

text \<open>Eight steps move the bytes one place: the lowest byte after \<open>40 + 8 k\<close> steps is byte \<open>k\<close> after 64.\<close>

lemma prng_successor_byte:
  assumes "j < 4" "r < 8"
  shows "bit (prng_successor x (40 + 8 * of_nat j)) r \<longleftrightarrow> bit (prng_successor x 64) (8 * (3 - j) + r)"
proof -
  let ?t = "\<lambda>n. (prng_step ^^ n) (SWAPENDIAN x)"
  have n: "unat (40 + 8 * of_nat j :: u32) = 40 + 8 * j"
    using assms(1) by (simp add: unat_word_ariths unat_of_nat)
  have "?t 64 = (prng_step ^^ (24 - 8 * j)) (?t (40 + 8 * j))"
    using assms(1) by (simp flip: funpow_add [unfolded o_def, THEN fun_cong])
  then have "bit (?t 64) (8 * j + r) \<longleftrightarrow> bit (?t (40 + 8 * j)) (8 * j + r + (24 - 8 * j))"
    using assms by (simp only:) (rule bit_prng_steps, simp)
  moreover have "8 * j + r + (24 - 8 * j) = 8 * 3 + r" using assms by simp
  moreover have "bit (SWAPENDIAN (?t (40 + 8 * j))) r \<longleftrightarrow> bit (?t (40 + 8 * j)) (8 * 3 + r)"
    using bit_SWAPENDIAN [of 0 r] assms(2) by simp
  moreover have "bit (SWAPENDIAN (?t 64)) (8 * (3 - j) + r) \<longleftrightarrow> bit (?t 64) (8 * j + r)"
    using bit_SWAPENDIAN [of "3 - j" r] assms by simp
  ultimately show ?thesis unfolding prng_successor_def n by simp
qed

lemma bit_be32: "length bs = 4 \<Longrightarrow> q < 4 \<Longrightarrow> r < 8 \<Longrightarrow> bit (be32 bs) (8 * q + r) \<longleftrightarrow> bit (bs ! (3 - q)) r"
  unfolding be32_def by (subst bit_of_le_bytes_nth) (simp_all add: rev_nth)

lemma prng_successor_bytes:
  "be32 [ucast (prng_successor x 40), ucast (prng_successor x 48), ucast (prng_successor x 56), ucast (prng_successor x 64)]
     = prng_successor x 64" (is "be32 ?bs = _")
proof (rule word32_eqI)
  fix q r :: nat assume q: "q < 4" "r < 8"
  have "?bs ! (3 - q) = ucast (prng_successor x (40 + 8 * of_nat (3 - q)))"
    using q(1) by (auto simp: less_Suc_eq numeral_eq_Suc)
  then have "bit (be32 ?bs) (8 * q + r) \<longleftrightarrow> bit (prng_successor x (40 + 8 * of_nat (3 - q))) r"
    using q by (simp add: bit_be32 bit_ucast_iff)
  also have "\<dots> \<longleftrightarrow> bit (prng_successor x 64) (8 * q + r)"
    using q prng_successor_byte [of "3 - q" r x] by simp
  finally show "bit (be32 ?bs) (8 * q + r) \<longleftrightarrow> bit (prng_successor x 64) (8 * q + r)" .
qed

text \<open>The cipher once the card's nonce has gone in, and that nonce in the clear.\<close>

definition nonce_session :: "Crypto1 \<Rightarrow> u64 \<Rightarrow> u32 \<Rightarrow> u8 list \<Rightarrow> bool \<Rightarrow> u32 \<times> Crypto1" where
  "nonce_session c key cuid nt is_nested =
     (if is_nested then let (w, c1) = crypto1_word (crypto1_init c key) (be32 nt XOR cuid) True in (w XOR be32 nt, c1)
      else (be32 nt, snd (crypto1_word (crypto1_init c key) (be32 nt XOR cuid) False)))"

definition answer_bytes :: "u32 \<Rightarrow> u8 list" where
  "answer_bytes nt = [ucast (prng_successor nt 40), ucast (prng_successor nt 48), ucast (prng_successor nt 56), ucast (prng_successor nt 64)]"

lemma answer_bytes_nth: "j < 4 \<Longrightarrow> answer_bytes nt ! j = ucast (prng_successor nt (40 + 8 * of_nat j))"
  by (auto simp: answer_bytes_def less_Suc_eq numeral_eq_Suc)

lemma be32_bytes: "length nt = 4 \<Longrightarrow> map_option ucast (bit_lib_bytes_to_num_be nt 4) = Some (be32 nt)"
proof -
  assume l: "length nt = 4"
  have "(ucast (of_le_bytes (rev nt) :: u64) :: u32) = of_le_bytes (rev nt)"
    using l by (intro bit_word_eqI) (auto simp: bit_simps bit_of_le_bytes_nth)
  with l show ?thesis by (simp add: bytes_to_num_be_spec be32_def)
qed

lemma reader_nonce_spec:
  fixes c :: Crypto1 and key :: u64 and cuid :: u32 and is_nested :: bool and nt nr :: "u8 list" and out :: BitBuffer
  assumes wf: "bb_wf out" "8 \<le> bb_capacity_bytes out" and len: "length nt = 4" "length nr = 4"
  defines "nt0 \<equiv> fst (nonce_session c key cuid nt is_nested)" and "c1 \<equiv> snd (nonce_session c key cuid nt is_nested)"
  defines "feeds \<equiv> nr @ [0, 0, 0, 0]" and "src \<equiv> nr @ answer_bytes nt0"
  shows "\<exists>o'. crypto1_encrypt_reader_nonce c key cuid nt nr out is_nested
      = Some (snd (key_stream c1 feeds), map2 (XOR) (fst (key_stream c1 nr)) nr, o')
    \<and> bb_wf o' \<and> bb_capacity_bytes o' = bb_capacity_bytes out \<and> bb_size_bits o' = 64
    \<and> bb_bytes o' = map2 (XOR) (fst (key_stream c1 feeds)) src"
proof -
  let ?out = "out\<lparr>bb_size_bits := 8 * 8\<rparr>"
  let ?body1 = "\<lambda>i (crypto, nr, out). do {
        n \<leftarrow> rd nr i;
        let (k, crypto) = crypto1_byte crypto n False;
        let byte = k XOR n;
        out \<leftarrow> bit_buffer_set_byte_with_parity out i byte (parity_of_next crypto n);
        nr \<leftarrow> wr nr i byte;
        Some (crypto, nr, out) }"
  let ?body2 = "\<lambda>i (nt_num, crypto, out). do {
        let nt_num = prng_successor nt_num 8;
        let (k, crypto) = crypto1_byte crypto 0 False;
        let byte = k XOR ucast nt_num;
        out \<leftarrow> bit_buffer_set_byte_with_parity out i byte (parity_of_next crypto (ucast nt_num));
        Some (nt_num, crypto, out) }"
  have lf: "length feeds = 8" "length src = 8" "bb_size_bits ?out div 8 = 8"
    using len by (simp_all add: feeds_def src_def answer_bytes_def)
  define P1 where "P1 i st \<longleftrightarrow> (case st of (c', nr', o') \<Rightarrow> cipher_frame c1 feeds src ?out i (c', o')
    \<and> nr' = map2 (XOR) (fst (key_stream c1 (take i nr))) (take i nr) @ drop i nr)" for i st
  define P2 where "P2 i st \<longleftrightarrow> (case st of (n', c', o') \<Rightarrow> cipher_frame c1 feeds src ?out i (c', o')
    \<and> n' = prng_successor nt0 (8 * of_nat i))" for i st
  have "\<exists>st. for_loop ?body1 0 4 (c1, nr, ?out) = Some st \<and> P1 (0 + 4) st"
  proof (rule for_loop_rule)
    show "P1 0 (c1, nr, ?out)" using wf by (simp add: P1_def cipher_frame_def bb_wf_def)
    fix i st assume i: "0 \<le> i" "i < 0 + (4 :: nat)" and st: "P1 i st"
    obtain c2 nr2 o2 where co: "st = (c2, nr2, o2)" by (cases st) auto
    have inv: "cipher_frame c1 feeds src ?out i (c2, o2)"
      and nr2: "nr2 = map2 (XOR) (fst (key_stream c1 (take i nr))) (take i nr) @ drop i nr" using st by (simp_all add: P1_def co)
    have fi: "feeds ! i = nr ! i" "src ! i = nr ! i" and ti: "take i feeds = take i nr"
      using i len by (simp_all add: feeds_def src_def nth_append)
    obtain k c3 where k: "crypto1_byte c2 (feeds ! i) False = (k, c3)" by fastforce
    have o2: "bb_wf o2" "i < bb_size_bits o2 div 8" using inv i by (simp_all add: cipher_frame_def)
    obtain p where p: "bit_buffer_set_byte_with_parity o2 i (k XOR nr ! i) (parity_of_next c3 (nr ! i))
        = Some (o2\<lparr>bb_data := (bb_data o2)[i := k XOR nr ! i], bb_parity := p\<rparr>)" "length p = length (bb_parity o2)"
      using set_byte_with_parity_spec [OF o2] by blast
    let ?o3 = "o2\<lparr>bb_data := (bb_data o2)[i := k XOR src ! i], bb_parity := p\<rparr>"
    have len2: "length (map2 (XOR) (fst (key_stream c1 (take i nr))) (take i nr)) = i" using i len by simp
    have n2: "nr2 ! i = nr ! i" "length nr2 = 4" using i len len2 by (simp_all add: nr2 nth_append)
    have "cipher_frame c1 feeds src ?out (Suc i) (c3, ?o3)"
      using i lf by (intro cipher_frame_step [OF inv _ _ _ k refl p(2)]) simp_all
    moreover have "?body1 i st = Some (c3, nr2[i := k XOR nr ! i], ?o3)"
      using i k fi by (simp add: co n2 mem_simps p(1) Let_def)
    moreover have "nr2[i := k XOR nr ! i] = map2 (XOR) (fst (key_stream c1 (take (Suc i) nr))) (take (Suc i) nr) @ drop (Suc i) nr"
    proof -
      have "key_stream c1 (take (Suc i) nr) = (fst (key_stream c1 (take i nr)) @ [k], c3)"
        using k i len inv by (simp add: take_Suc_conv_app_nth key_stream_append split_beta cipher_frame_def ti fi)
      moreover have "drop i nr = nr ! i # drop (Suc i) nr" using i len by (simp add: Cons_nth_drop_Suc)
      ultimately show ?thesis using i len len2 by (simp add: nr2 list_update_append take_Suc_conv_app_nth)
    qed
    ultimately show "\<exists>st'. ?body1 i st = Some st' \<and> P1 (Suc i) st'" by (simp add: P1_def)
  qed
  then obtain c4 nr4 o4 where l1: "for_loop ?body1 0 4 (c1, nr, ?out) = Some (c4, nr4, o4)" and p4: "P1 4 (c4, nr4, o4)" by auto
  have "\<exists>st. for_loop ?body2 4 4 (prng_successor nt0 32, c4, o4) = Some st \<and> P2 (4 + 4) st"
  proof (rule for_loop_rule)
    show "P2 4 (prng_successor nt0 32, c4, o4)" using p4 by (simp add: P1_def P2_def)
    fix i st assume i: "4 \<le> i" "i < 4 + (4 :: nat)" and st: "P2 i st"
    obtain n2 c2 o2 where co: "st = (n2, c2, o2)" by (cases st) auto
    have inv: "cipher_frame c1 feeds src ?out i (c2, o2)" and n2: "n2 = prng_successor nt0 (8 * of_nat i)"
      using st by (simp_all add: P2_def co)
    have "unat (8 * of_nat i :: u32) = 8 * i"
      using i unat_of_nat [of "8 * i", where 'a = 32] by (simp add: take_bit_nat_eq_self)
    then have "prng_successor n2 8 = prng_successor nt0 (8 * of_nat i + 8)"
      using i unfolding n2 by (subst prng_successor_add) simp_all
    then have n3: "prng_successor n2 8 = prng_successor nt0 (8 * of_nat (Suc i))" by (simp add: add.commute)
    have fi: "feeds ! i = 0" using i len by (auto simp: feeds_def nth_append nth_Cons' )
    have si: "src ! i = ucast (prng_successor n2 8)"
    proof -
      obtain j where j: "i = 4 + j" "j < 4" using i le_Suc_ex by auto
      then show ?thesis unfolding n3 using len by (simp add: src_def nth_append answer_bytes_nth algebra_simps)
    qed
    obtain k c3 where k: "crypto1_byte c2 (feeds ! i) False = (k, c3)" by fastforce
    have o2: "bb_wf o2" "i < bb_size_bits o2 div 8" using inv i by (simp_all add: cipher_frame_def)
    obtain p where p: "bit_buffer_set_byte_with_parity o2 i (k XOR src ! i) (parity_of_next c3 (src ! i))
        = Some (o2\<lparr>bb_data := (bb_data o2)[i := k XOR src ! i], bb_parity := p\<rparr>)" "length p = length (bb_parity o2)"
      using set_byte_with_parity_spec [OF o2] by blast
    have "cipher_frame c1 feeds src ?out (Suc i) (c3, o2\<lparr>bb_data := (bb_data o2)[i := k XOR src ! i], bb_parity := p\<rparr>)"
      using i lf by (intro cipher_frame_step [OF inv _ _ _ k refl p(2)]) simp_all
    moreover have "?body2 i st = Some (prng_successor n2 8, c3, o2\<lparr>bb_data := (bb_data o2)[i := k XOR src ! i], bb_parity := p\<rparr>)"
      using k fi p(1) by (simp add: co si Let_def)
    ultimately show "\<exists>st'. ?body2 i st = Some st' \<and> P2 (Suc i) st'" using n3 by (simp add: P2_def)
  qed
  then obtain n5 c5 o5 where l2: "for_loop ?body2 4 4 (prng_successor nt0 32, c4, o4) = Some (n5, c5, o5)" and p5: "P2 8 (n5, c5, o5)" by auto
  have fr: "cipher_frame c1 feeds src ?out 8 (c5, o5)" using p5 by (simp add: P2_def)
  have "crypto1_encrypt_reader_nonce c key cuid nt nr out is_nested = Some (c5, nr4, o5)"
  proof -
    have "nt0 = (if is_nested then fst (crypto1_word (crypto1_init c key) (be32 nt XOR cuid) True) XOR be32 nt else be32 nt)"
      "c1 = snd (crypto1_word (crypto1_init c key) (be32 nt XOR cuid) is_nested)"
      by (simp_all add: nt0_def c1_def nonce_session_def split_beta)
    then show ?thesis using l1 l2 wf
      by (cases is_nested) (simp_all add: crypto1_encrypt_reader_nonce_def be32_bytes [OF len(1)]
          bit_buffer_set_size_bytes_def split_beta Let_def)
  qed
  moreover have "nr4 = map2 (XOR) (fst (key_stream c1 nr)) nr" using p4 len by (simp add: P1_def)
  ultimately show ?thesis using cipher_frame_done [OF fr lf(1)] lf(2) by simp
qed

lemma length_bb_bytes_size: "bb_wf b \<Longrightarrow> bb_size_bits b = 8 * n \<Longrightarrow> length (bb_bytes b) = n"
  by (simp add: length_bb_bytes bit_buffer_get_size_bytes_def)

text \<open>Decrypting from the same state what was encrypted gives the frame back and the same next state.\<close>

lemma encrypt_decrypt_bytes:
  assumes "bb_wf buff" "bb_wf out" "bb_wf out2" and n: "bb_size_bits buff = 8 * n" "0 < n"
    and cap: "n \<le> bb_capacity_bytes out" "n \<le> bb_capacity_bytes out2"
  shows "\<exists>c' e d. crypto1_encrypt c None buff out = Some (c', e) \<and> crypto1_decrypt c e out2 = Some (c', d)
    \<and> bb_size_bits d = bb_size_bits buff \<and> bb_bytes d = bb_bytes buff"
proof -
  let ?z = "replicate n 0 :: u8 list"
  obtain e where e: "crypto1_encrypt c None buff out = Some (snd (key_stream c ?z), e)" "bb_wf e" "bb_size_bits e = 8 * n"
    "bb_bytes e = map2 (XOR) (fst (key_stream c ?z)) (bb_bytes buff)"
    using encrypt_bytes [OF assms(1,2) n cap(1), where keystream = None and feeds = ?z and c = c] by auto
  obtain d where d: "crypto1_decrypt c e out2 = Some (snd (key_stream c ?z), d)" "bb_size_bits d = 8 * n"
    "bb_bytes d = map2 (XOR) (fst (key_stream c ?z)) (bb_bytes e)"
    using decrypt_bytes [OF e(2) assms(3) e(3) n(2) cap(2), of c] by auto
  have "bb_bytes d = bb_bytes buff"
    using length_bb_bytes_size [OF assms(1) n(1)] by (simp add: d(3) e(4) map2_xor_cancel)
  with e(1) d(1,2) n(1) show ?thesis by auto
qed

lemma encrypt_decrypt_short:
  assumes "bb_wf buff" "bb_wf out" "bb_wf out2" and n: "bb_size_bits buff = 4"
  shows "\<exists>c' e d. crypto1_encrypt c None buff out = Some (c', e) \<and> crypto1_decrypt c e out2 = Some (c', d)
    \<and> bb_size_bits d = 4 \<and> bb_bytes d = [bb_data buff ! 0 AND 0xF]"
proof -
  define e where "e = out\<lparr>bb_size_bits := 4, bb_data := (bb_data out)[0 := (nibble_stream c XOR bb_data buff ! 0) AND 0xF]\<rparr>"
  have wf: "bb_wf e" "bb_size_bits e = 4" using assms(2) by (simp_all add: e_def bb_wf_def)
  have ne: "0 < length (bb_data out)" "0 < length (bb_data out2)" using assms(2,3) by (simp_all add: bb_wf_def)
  have e0: "bb_data e ! 0 = (nibble_stream c XOR bb_data buff ! 0) AND 0xF" using ne by (simp add: e_def)
  let ?d = "out2\<lparr>bb_size_bits := 4, bb_data := (bb_data out2)[0 := (nibble_stream c XOR bb_data e ! 0) AND 0xF]\<rparr>"
  have "bb_bytes ?d = [bb_data buff ! 0 AND 0xF]"
    using ne by (simp add: bb_bytes_def bit_buffer_get_size_bytes_def take_Suc_conv_app_nth [of 0, simplified] e0 xor_mask_cancel)
  then show ?thesis
    using encrypt_short [OF assms(1,2) n] decrypt_short [OF wf(1) assms(3) wf(2)]
    by (auto simp flip: e_def)
qed

section \<open>Properties\<close>

text \<open>C30: decrypting from the same cipher state what was encrypted gives the frame back (all bytes of a
  frame of whole bytes, the low four bits of a four-bit acknowledgement), leaves both ends in the same
  next state, and neither call fails when the buffers are large enough.\<close>

theorem crypto1_encrypt_decrypt:
  assumes "bb_wf buff" "bb_wf out" "bb_wf out2"
    and "bb_size_bits buff \<le> 8 * bb_capacity_bytes out" "bb_size_bits buff \<le> 8 * bb_capacity_bytes out2"
    and "bb_size_bits buff = 4 \<or> (0 < bb_size_bits buff \<and> bb_size_bits buff mod 8 = 0)"
  shows "\<exists>c' e d. crypto1_encrypt c None buff out = Some (c', e) \<and> crypto1_decrypt c e out2 = Some (c', d)
    \<and> bb_size_bits d = bb_size_bits buff
    \<and> bb_bytes d = (if bb_size_bits buff = 4 then [bb_data buff ! 0 AND 0xF] else bb_bytes buff)"
proof (cases "bb_size_bits buff = 4")
  case True
  then show ?thesis using encrypt_decrypt_short [OF assms(1-3)] by simp
next
  case False
  with assms(6) have n: "bb_size_bits buff = 8 * (bb_size_bits buff div 8)" "0 < bb_size_bits buff div 8" by auto
  show ?thesis
    using encrypt_decrypt_bytes [OF assms(1-3) n, of c] assms(4,5) False by simp
qed

theorem crypto1_encrypt_decrypt_witness:
  "\<exists>c' e d. crypto1_encrypt (crypto1_init crypto1_alloc 0xA0A1A2A3A4A5) None
      \<lparr>bb_data = [0x30, 4], bb_parity = [0], bb_capacity_bytes = 2, bb_size_bits = 16\<rparr>
      \<lparr>bb_data = [0, 0], bb_parity = [0], bb_capacity_bytes = 2, bb_size_bits = 0\<rparr> = Some (c', e)
    \<and> crypto1_decrypt (crypto1_init crypto1_alloc 0xA0A1A2A3A4A5) e
      \<lparr>bb_data = [0, 0], bb_parity = [0], bb_capacity_bytes = 2, bb_size_bits = 0\<rparr> = Some (c', d)
    \<and> bb_bytes d = [0x30, 4]"
proof -
  let ?b = "\<lparr>bb_data = [0x30, 4], bb_parity = [0], bb_capacity_bytes = 2, bb_size_bits = 16\<rparr>"
  let ?o = "\<lparr>bb_data = [0, 0], bb_parity = [0], bb_capacity_bytes = 2, bb_size_bits = 0\<rparr>"
  have "bb_wf ?b" "bb_wf ?o" by (simp_all add: bb_wf_def)
  moreover have "bb_bytes ?b = [0x30, 4]" by (simp add: bb_bytes_def bit_buffer_get_size_bytes_def)
  ultimately show ?thesis
    using crypto1_encrypt_decrypt [of ?b ?o ?o "crypto1_init crypto1_alloc 0xA0A1A2A3A4A5"] by auto
qed

end
