(* ===== verification/MfClassic.thy ===== *)
theory MfClassic
  imports Crypto1 Encodings
begin

text \<open>
  The memory of a MIFARE Classic card, \<open>lib/nfc/protocols/mf_classic/mf_classic.c\<close>, over the card
  identity of \<open>lib/nfc/protocols/iso14443_3a/iso14443_3a.c\<close>. The records are the C structures. A
  block is its sixteen bytes; a sector trailer is a block read as key A (six bytes), access bits (four)
  and key B (six), as the union does. Block and sector numbers are \<open>uint8_t\<close>.
\<close>

section \<open>The card's identity\<close>

record Iso14443_3aData =
  iso_uid :: "u8 list"
  iso_uid_len :: u8
  iso_atqa :: "u8 list"
  iso_sak :: u8

definition ISO14443_3A_UID_4_BYTES :: nat where "ISO14443_3A_UID_4_BYTES = 4"
definition ISO14443_3A_UID_7_BYTES :: nat where "ISO14443_3A_UID_7_BYTES = 7"
definition ISO14443_3A_UID_10_BYTES :: nat where "ISO14443_3A_UID_10_BYTES = 10"

definition iso14443_3a_alloc :: Iso14443_3aData where
  "iso14443_3a_alloc = \<lparr>iso_uid = replicate 10 0, iso_uid_len = 0, iso_atqa = [0, 0], iso_sak = 0\<rparr>"

definition iso14443_3a_reset :: "Iso14443_3aData \<Rightarrow> Iso14443_3aData" where
  "iso14443_3a_reset data = data\<lparr>iso_uid := replicate 10 0, iso_uid_len := 0, iso_atqa := [0, 0], iso_sak := 0\<rparr>"

definition iso14443_3a_copy :: "Iso14443_3aData \<Rightarrow> Iso14443_3aData \<Rightarrow> Iso14443_3aData" where
  "iso14443_3a_copy data other = data\<lparr>iso_uid := iso_uid other, iso_uid_len := iso_uid_len other,
     iso_atqa := iso_atqa other, iso_sak := iso_sak other\<rparr>"

text \<open>The structure has no padding, so \<open>memcmp\<close> compares its members.\<close>

definition iso14443_3a_is_equal :: "Iso14443_3aData \<Rightarrow> Iso14443_3aData \<Rightarrow> bool" where
  "iso14443_3a_is_equal data other \<longleftrightarrow> iso_uid data = iso_uid other \<and> iso_uid_len data = iso_uid_len other
     \<and> iso_atqa data = iso_atqa other \<and> iso_sak data = iso_sak other"

definition iso14443_3a_get_uid :: "Iso14443_3aData \<Rightarrow> u8 list \<times> nat" where
  "iso14443_3a_get_uid data = (iso_uid data, unat (iso_uid_len data))"

definition iso14443_3a_set_uid :: "Iso14443_3aData \<Rightarrow> u8 list \<Rightarrow> nat \<Rightarrow> (Iso14443_3aData \<times> bool) option" where
  "iso14443_3a_set_uid data uid uid_len =
     (let uid_valid = uid_len = ISO14443_3A_UID_4_BYTES \<or> uid_len = ISO14443_3A_UID_7_BYTES \<or> uid_len = ISO14443_3A_UID_10_BYTES in
      if uid_valid then do {
        u \<leftarrow> memcpy (iso_uid data) 0 uid 0 uid_len;
        Some (data\<lparr>iso_uid := u, iso_uid_len := of_nat uid_len\<rparr>, uid_valid) }
      else Some (data, uid_valid))"

definition iso14443_3a_get_cuid :: "Iso14443_3aData \<Rightarrow> u32 option" where
  "iso14443_3a_get_cuid data =
     (let start = (if unat (iso_uid_len data) = ISO14443_3A_UID_7_BYTES then 3 else 0) in do {
        a \<leftarrow> rd (iso_uid data) start;
        b \<leftarrow> rd (iso_uid data) (start + 1);
        c \<leftarrow> rd (iso_uid data) (start + 2);
        d \<leftarrow> rd (iso_uid data) (start + 3);
        Some (push_bit 24 (ucast a) OR push_bit 16 (ucast b) OR push_bit 8 (ucast c) OR ucast d) })"

definition iso14443_3a_supports_iso14443_4 :: "Iso14443_3aData \<Rightarrow> bool" where
  "iso14443_3a_supports_iso14443_4 data \<longleftrightarrow> iso_sak data AND push_bit 5 1 \<noteq> 0"

definition iso14443_3a_get_sak :: "Iso14443_3aData \<Rightarrow> u8" where
  "iso14443_3a_get_sak data = iso_sak data"

definition iso14443_3a_get_atqa :: "Iso14443_3aData \<Rightarrow> u8 list \<Rightarrow> u8 list option" where
  "iso14443_3a_get_atqa data atqa = memcpy atqa 0 (iso_atqa data) 0 2"

definition iso14443_3a_set_sak :: "Iso14443_3aData \<Rightarrow> u8 \<Rightarrow> Iso14443_3aData" where
  "iso14443_3a_set_sak data sak = data\<lparr>iso_sak := sak\<rparr>"

definition iso14443_3a_set_atqa :: "Iso14443_3aData \<Rightarrow> u8 list \<Rightarrow> Iso14443_3aData option" where
  "iso14443_3a_set_atqa data atqa = do {
     a \<leftarrow> memcpy (iso_atqa data) 0 atqa 0 2;
     Some (data\<lparr>iso_atqa := a\<rparr>) }"

section \<open>The card's memory\<close>

datatype MfClassicType = MfClassicTypeMini | MfClassicType1k | MfClassicType4k

datatype MfClassicAction =
    MfClassicActionDataRead | MfClassicActionDataWrite | MfClassicActionDataInc | MfClassicActionDataDec
  | MfClassicActionKeyARead | MfClassicActionKeyAWrite | MfClassicActionKeyBRead | MfClassicActionKeyBWrite
  | MfClassicActionACRead | MfClassicActionACWrite

datatype MfClassicKeyType = MfClassicKeyTypeA | MfClassicKeyTypeB

definition MF_CLASSIC_BLOCK_SIZE :: nat where "MF_CLASSIC_BLOCK_SIZE = 16"
definition MF_CLASSIC_KEY_SIZE :: nat where "MF_CLASSIC_KEY_SIZE = 6"
definition MF_CLASSIC_ACCESS_BYTES_SIZE :: nat where "MF_CLASSIC_ACCESS_BYTES_SIZE = 4"
definition MF_CLASSIC_TOTAL_BLOCKS_MAX :: nat where "MF_CLASSIC_TOTAL_BLOCKS_MAX = 256"
definition MF_CLASSIC_READ_MASK_SIZE :: nat where "MF_CLASSIC_READ_MASK_SIZE = MF_CLASSIC_TOTAL_BLOCKS_MAX div 32"

type_synonym MfClassicBlock = "u8 list"

definition key_a_of :: "MfClassicBlock \<Rightarrow> u8 list" where
  "key_a_of sec_tr = take 6 sec_tr"

definition access_bits_of :: "MfClassicBlock \<Rightarrow> u8 list" where
  "access_bits_of sec_tr = take 4 (drop 6 sec_tr)"

definition key_b_of :: "MfClassicBlock \<Rightarrow> u8 list" where
  "key_b_of sec_tr = take 6 (drop 10 sec_tr)"

record MfClassicData =
  mfc_iso14443_3a_data :: Iso14443_3aData
  mfc_type :: MfClassicType
  mfc_block_read_mask :: "u32 list"
  mfc_key_a_mask :: u64
  mfc_key_b_mask :: u64
  mfc_block :: "MfClassicBlock list"

definition FURI_BIT_SET :: "'a::len word \<Rightarrow> nat \<Rightarrow> 'a word" where
  "FURI_BIT_SET x n = x OR push_bit n 1"

definition FURI_BIT_CLEAR :: "'a::len word \<Rightarrow> nat \<Rightarrow> 'a word" where
  "FURI_BIT_CLEAR x n = x AND NOT (push_bit n 1)"

definition mf_classic_alloc :: MfClassicData where
  "mf_classic_alloc = \<lparr>mfc_iso14443_3a_data = iso14443_3a_alloc, mfc_type = MfClassicTypeMini,
     mfc_block_read_mask = replicate MF_CLASSIC_READ_MASK_SIZE 0, mfc_key_a_mask = 0, mfc_key_b_mask = 0,
     mfc_block = replicate MF_CLASSIC_TOTAL_BLOCKS_MAX (replicate MF_CLASSIC_BLOCK_SIZE 0)\<rparr>"

definition mf_classic_reset :: "MfClassicData \<Rightarrow> MfClassicData" where
  "mf_classic_reset data = data\<lparr>mfc_iso14443_3a_data := iso14443_3a_reset (mfc_iso14443_3a_data data)\<rparr>"

definition mf_classic_copy :: "MfClassicData \<Rightarrow> MfClassicData \<Rightarrow> MfClassicData" where
  "mf_classic_copy data other = data\<lparr>
     mfc_iso14443_3a_data := iso14443_3a_copy (mfc_iso14443_3a_data data) (mfc_iso14443_3a_data other),
     mfc_block := mfc_block other, mfc_block_read_mask := mfc_block_read_mask other, mfc_type := mfc_type other,
     mfc_key_a_mask := mfc_key_a_mask other, mfc_key_b_mask := mfc_key_b_mask other\<rparr>"

definition mf_classic_is_equal :: "MfClassicData \<Rightarrow> MfClassicData \<Rightarrow> bool" where
  "mf_classic_is_equal data other \<longleftrightarrow>
     iso14443_3a_is_equal (mfc_iso14443_3a_data data) (mfc_iso14443_3a_data other) \<and> mfc_type data = mfc_type other
     \<and> mfc_key_a_mask data = mfc_key_a_mask other \<and> mfc_key_b_mask data = mfc_key_b_mask other
     \<and> mfc_block_read_mask data = mfc_block_read_mask other \<and> mfc_block data = mfc_block other"

fun sectors_total :: "MfClassicType \<Rightarrow> u8" where
  "sectors_total MfClassicTypeMini = 5"
| "sectors_total MfClassicType1k = 16"
| "sectors_total MfClassicType4k = 40"

fun blocks_total :: "MfClassicType \<Rightarrow> u16" where
  "blocks_total MfClassicTypeMini = 20"
| "blocks_total MfClassicType1k = 64"
| "blocks_total MfClassicType4k = 256"

definition mf_classic_get_total_sectors_num :: "MfClassicType \<Rightarrow> u8" where
  "mf_classic_get_total_sectors_num type = sectors_total type"

definition mf_classic_get_total_block_num :: "MfClassicType \<Rightarrow> u16" where
  "mf_classic_get_total_block_num type = blocks_total type"

text \<open>Setting the UID also writes it, with its check byte, to block 0.\<close>

definition mf_classic_set_uid :: "MfClassicData \<Rightarrow> u8 list \<Rightarrow> nat \<Rightarrow> (MfClassicData \<times> bool) option" where
  "mf_classic_set_uid data uid uid_len = do {
     (iso, uid_valid) \<leftarrow> iso14443_3a_set_uid (mfc_iso14443_3a_data data) uid uid_len;
     let data = data\<lparr>mfc_iso14443_3a_data := iso\<rparr>;
     (if uid_valid then do {
        blk \<leftarrow> rd (mfc_block data) 0;
        blk \<leftarrow> memcpy blk 0 (iso_uid iso) 0 uid_len;
        blk \<leftarrow> (if uid_len = 4 then do {
            blk \<leftarrow> wr blk uid_len 0;
            for_loop (\<lambda>i blk. do { c \<leftarrow> rd blk uid_len; x \<leftarrow> rd blk i; wr blk uid_len (c XOR x) }) 0 uid_len blk }
          else Some blk);
        Some (data\<lparr>mfc_block := (mfc_block data)[0 := blk]\<rparr>, uid_valid) }
      else Some (data, uid_valid)) }"

section \<open>Layout\<close>

definition mf_classic_get_sector_trailer_num_by_sector :: "u8 \<Rightarrow> u8 option" where
  "mf_classic_get_sector_trailer_num_by_sector sector =
     (if sector < 32 then Some (sector * 4 + 3)
      else if sector < 40 then Some (32 * 4 + (sector - 32) * 16 + 15)
      else None)"

definition mf_classic_get_sector_trailer_num_by_block :: "u8 \<Rightarrow> u8" where
  "mf_classic_get_sector_trailer_num_by_block block = (if block < 128 then block OR 0x03 else block OR 0x0f)"

definition mf_classic_get_sector_trailer_by_sector :: "MfClassicData \<Rightarrow> u8 \<Rightarrow> MfClassicBlock option" where
  "mf_classic_get_sector_trailer_by_sector data sector_num = do {
     sec_tr_block \<leftarrow> mf_classic_get_sector_trailer_num_by_sector sector_num;
     rd (mfc_block data) (unat sec_tr_block) }"

definition mf_classic_is_sector_trailer :: "u8 \<Rightarrow> bool" where
  "mf_classic_is_sector_trailer block \<longleftrightarrow> block = mf_classic_get_sector_trailer_num_by_block block"

definition mf_classic_get_sector_by_block :: "u8 \<Rightarrow> u8" where
  "mf_classic_get_sector_by_block block =
     (if block < 128 then (block OR 0x03) div 4 else 32 + ((block OR 0x0f) - 32 * 4) div 16)"

definition mf_classic_get_first_block_num_of_sector :: "u8 \<Rightarrow> u8 option" where
  "mf_classic_get_first_block_num_of_sector sector = do {
     furi_assert (sector < 40);
     Some (if sector < 32 then sector * 4 else 32 * 4 + (sector - 32) * 16) }"

definition mf_classic_get_blocks_num_in_sector :: "u8 \<Rightarrow> u8 option" where
  "mf_classic_get_blocks_num_in_sector sector = do {
     furi_assert (sector < 40);
     Some (if sector < 32 then 4 else 16) }"

section \<open>Value blocks\<close>

text \<open>An \<open>int32_t\<close> is a \<open>32 word\<close>. The result is the validity, the value and the address.\<close>

definition mf_classic_block_to_value :: "MfClassicBlock \<Rightarrow> bool \<times> u32 \<times> u8" where
  "mf_classic_block_to_value block =
     (let v = of_le_bytes (take 4 block);
          v_inv = of_le_bytes (take 4 (drop 4 block));
          v1 = of_le_bytes (take 4 (drop 8 block))
      in (v = v1 \<and> v = NOT v_inv \<and> block ! 12 = NOT (block ! 13) AND 0xFF \<and> block ! 14 = NOT (block ! 15) AND 0xFF
            \<and> block ! 12 = block ! 14, v, block ! 12))"

definition mf_classic_value_to_block :: "u32 \<Rightarrow> u8 \<Rightarrow> MfClassicBlock \<Rightarrow> MfClassicBlock option" where
  "mf_classic_value_to_block value addr block = do {
     let v_inv = NOT value;
     block \<leftarrow> memcpy block 0 (le_bytes 4 value) 0 4;
     block \<leftarrow> memcpy block 4 (le_bytes 4 v_inv) 0 4;
     block \<leftarrow> memcpy block 8 (le_bytes 4 value) 0 4;
     block \<leftarrow> wr block 12 addr;
     block \<leftarrow> wr block 13 (NOT addr AND 0xFF);
     block \<leftarrow> wr block 14 addr;
     wr block 15 (NOT addr AND 0xFF) }"

section \<open>What is known of the card\<close>

definition mf_classic_is_key_found :: "MfClassicData \<Rightarrow> u8 \<Rightarrow> MfClassicKeyType \<Rightarrow> bool" where
  "mf_classic_is_key_found data sector_num key_type = (case key_type of
       MfClassicKeyTypeA \<Rightarrow> FURI_BIT (mfc_key_a_mask data) (unat sector_num) = 1
     | MfClassicKeyTypeB \<Rightarrow> FURI_BIT (mfc_key_b_mask data) (unat sector_num) = 1)"

definition mf_classic_set_key_found :: "MfClassicData \<Rightarrow> u8 \<Rightarrow> MfClassicKeyType \<Rightarrow> u64 \<Rightarrow> MfClassicData option" where
  "mf_classic_set_key_found data sector_num key_type key = do {
     sec_tr_block \<leftarrow> mf_classic_get_sector_trailer_num_by_sector sector_num;
     sec_trailer \<leftarrow> rd (mfc_block data) (unat sec_tr_block);
     key_arr \<leftarrow> bit_lib_num_to_bytes_be key 6 (replicate 6 0);
     (case key_type of
        MfClassicKeyTypeA \<Rightarrow> do {
          sec_trailer \<leftarrow> memcpy sec_trailer 0 key_arr 0 MF_CLASSIC_KEY_SIZE;
          Some (data\<lparr>mfc_block := (mfc_block data)[unat sec_tr_block := sec_trailer],
            mfc_key_a_mask := FURI_BIT_SET (mfc_key_a_mask data) (unat sector_num)\<rparr>) }
      | MfClassicKeyTypeB \<Rightarrow> do {
          sec_trailer \<leftarrow> memcpy sec_trailer 10 key_arr 0 MF_CLASSIC_KEY_SIZE;
          Some (data\<lparr>mfc_block := (mfc_block data)[unat sec_tr_block := sec_trailer],
            mfc_key_b_mask := FURI_BIT_SET (mfc_key_b_mask data) (unat sector_num)\<rparr>) }) }"

definition mf_classic_set_key_not_found :: "MfClassicData \<Rightarrow> u8 \<Rightarrow> MfClassicKeyType \<Rightarrow> MfClassicData" where
  "mf_classic_set_key_not_found data sector_num key_type = (case key_type of
       MfClassicKeyTypeA \<Rightarrow> data\<lparr>mfc_key_a_mask := FURI_BIT_CLEAR (mfc_key_a_mask data) (unat sector_num)\<rparr>
     | MfClassicKeyTypeB \<Rightarrow> data\<lparr>mfc_key_b_mask := FURI_BIT_CLEAR (mfc_key_b_mask data) (unat sector_num)\<rparr>)"

definition mf_classic_is_block_read :: "MfClassicData \<Rightarrow> u8 \<Rightarrow> bool option" where
  "mf_classic_is_block_read data block_num = do {
     m \<leftarrow> rd (mfc_block_read_mask data) (unat block_num div 32);
     Some (FURI_BIT m (unat block_num mod 32) = 1) }"

definition mf_classic_set_block_read :: "MfClassicData \<Rightarrow> u8 \<Rightarrow> MfClassicBlock \<Rightarrow> MfClassicData option" where
  "mf_classic_set_block_read data block_num block_data = do {
     blk \<leftarrow> rd (mfc_block data) (unat block_num);
     blk \<leftarrow> (if mf_classic_is_sector_trailer block_num then memcpy blk 6 block_data 6 4
            else memcpy blk 0 block_data 0 MF_CLASSIC_BLOCK_SIZE);
     m \<leftarrow> rd (mfc_block_read_mask data) (unat block_num div 32);
     Some (data\<lparr>mfc_block := (mfc_block data)[unat block_num := blk],
       mfc_block_read_mask := (mfc_block_read_mask data)[unat block_num div 32 := FURI_BIT_SET m (unat block_num mod 32)]\<rparr>) }"

text \<open>The loop over the blocks of a sector that stops at the first one not read.\<close>

primrec blocks_read_loop :: "MfClassicData \<Rightarrow> nat \<Rightarrow> nat \<Rightarrow> bool option" where
  "blocks_read_loop data j 0 = Some True"
| "blocks_read_loop data j (Suc n) = do {
     r \<leftarrow> mf_classic_is_block_read data (of_nat j);
     (if r then blocks_read_loop data (j + 1) n else Some False) }"

definition mf_classic_is_sector_read :: "MfClassicData \<Rightarrow> u8 \<Rightarrow> bool option" where
  "mf_classic_is_sector_read data sector_num =
     (if \<not> mf_classic_is_key_found data sector_num MfClassicKeyTypeA then Some False
      else if \<not> mf_classic_is_key_found data sector_num MfClassicKeyTypeB then Some False
      else do {
        start_block \<leftarrow> mf_classic_get_first_block_num_of_sector sector_num;
        total_blocks \<leftarrow> mf_classic_get_blocks_num_in_sector sector_num;
        blocks_read_loop data (unat start_block) (unat total_blocks) })"

text \<open>The two counters are \<open>uint8_t\<close>.\<close>

definition mf_classic_get_read_sectors_and_keys :: "MfClassicData \<Rightarrow> (u8 \<times> u8) option" where
  "mf_classic_get_read_sectors_and_keys data =
     for_loop (\<lambda>i (sectors_read, keys_found). do {
        let keys_found = (if mf_classic_is_key_found data (of_nat i) MfClassicKeyTypeA then keys_found + 1 else keys_found);
        let keys_found = (if mf_classic_is_key_found data (of_nat i) MfClassicKeyTypeB then keys_found + 1 else keys_found);
        first_block \<leftarrow> mf_classic_get_first_block_num_of_sector (of_nat i);
        total_blocks_in_sec \<leftarrow> mf_classic_get_blocks_num_in_sector (of_nat i);
        blocks_read \<leftarrow> blocks_read_loop data (unat first_block) (unat total_blocks_in_sec);
        Some (if blocks_read then sectors_read + 1 else sectors_read, keys_found) })
      0 (unat (mf_classic_get_total_sectors_num (mfc_type data))) (0, 0)"

definition mf_classic_is_card_read :: "MfClassicData \<Rightarrow> bool option" where
  "mf_classic_is_card_read data = do {
     let sectors_total = mf_classic_get_total_sectors_num (mfc_type data);
     (sectors_read, keys_found) \<leftarrow> mf_classic_get_read_sectors_and_keys data;
     Some (sectors_read = sectors_total \<and> unat keys_found = unat sectors_total * 2) }"

section \<open>Access conditions\<close>

definition mf_classic_is_allowed_access_sector_trailer ::
  "MfClassicData \<Rightarrow> u8 \<Rightarrow> MfClassicKeyType \<Rightarrow> MfClassicAction \<Rightarrow> bool option" where
  "mf_classic_is_allowed_access_sector_trailer data block_num key_type action = do {
     sec_tr \<leftarrow> mf_classic_get_sector_trailer_by_sector data (mf_classic_get_sector_by_block block_num);
     let access_bits_arr = access_bits_of sec_tr;
     b1 \<leftarrow> rd access_bits_arr 1;
     b2 \<leftarrow> rd access_bits_arr 2;
     let AC = (drop_bit 5 b1 AND 0x04) OR (drop_bit 2 b2 AND 0x02) OR (drop_bit 7 b2 AND 0x01);
     Some (case action of
         MfClassicActionKeyARead \<Rightarrow> False
       | MfClassicActionKeyAWrite \<Rightarrow> (key_type = MfClassicKeyTypeA \<and> (AC = 0x00 \<or> AC = 0x01))
           \<or> (key_type = MfClassicKeyTypeB \<and> (AC = 0x00 \<or> AC = 0x04 \<or> AC = 0x03 \<or> AC = 0x01))
       | MfClassicActionKeyBWrite \<Rightarrow> (key_type = MfClassicKeyTypeA \<and> (AC = 0x00 \<or> AC = 0x01))
           \<or> (key_type = MfClassicKeyTypeB \<and> (AC = 0x00 \<or> AC = 0x04 \<or> AC = 0x03 \<or> AC = 0x01))
       | MfClassicActionKeyBRead \<Rightarrow> (key_type = MfClassicKeyTypeA \<and> (AC = 0x00 \<or> AC = 0x02 \<or> AC = 0x01))
           \<or> (key_type = MfClassicKeyTypeB \<and> (AC = 0x00 \<or> AC = 0x02 \<or> AC = 0x01))
       | MfClassicActionACRead \<Rightarrow> key_type = MfClassicKeyTypeA \<or> key_type = MfClassicKeyTypeB
       | MfClassicActionACWrite \<Rightarrow> (key_type = MfClassicKeyTypeA \<and> AC = 0x01)
           \<or> (key_type = MfClassicKeyTypeB \<and> (AC = 0x01 \<or> AC = 0x03 \<or> AC = 0x05))
       | _ \<Rightarrow> False) }"

definition mf_classic_is_allowed_access_data_block ::
  "MfClassicBlock \<Rightarrow> u8 \<Rightarrow> MfClassicKeyType \<Rightarrow> MfClassicAction \<Rightarrow> bool option" where
  "mf_classic_is_allowed_access_data_block sec_tr block_num key_type action =
     (let access_bits_arr = access_bits_of sec_tr in
      if block_num = 0 \<and> action = MfClassicActionDataWrite then Some False
      else
        let sector_block = (if block_num \<le> 128 then block_num AND 0x03 else (block_num AND 0x0f) div 5) in
        if sector_block \<notin> {0, 1, 2} then Some False
        else do {
          b1 \<leftarrow> rd access_bits_arr 1;
          b2 \<leftarrow> rd access_bits_arr 2;
             let AC = (if sector_block = 0 then (drop_bit 2 b1 AND 0x04) OR (push_bit 1 b2 AND 0x02) OR (drop_bit 4 b2 AND 0x01)
               else if sector_block = 1 then (drop_bit 3 b1 AND 0x04) OR (drop_bit 0 b2 AND 0x02) OR (drop_bit 5 b2 AND 0x01)
               else (drop_bit 4 b1 AND 0x04) OR (drop_bit 1 b2 AND 0x02) OR (drop_bit 6 b2 AND 0x01));
             Some (case action of
                 MfClassicActionDataRead \<Rightarrow> (key_type = MfClassicKeyTypeA \<and> \<not> (AC = 0x03 \<or> AC = 0x05 \<or> AC = 0x07))
                   \<or> (key_type = MfClassicKeyTypeB \<and> \<not> AC = 0x07)
               | MfClassicActionDataWrite \<Rightarrow> (key_type = MfClassicKeyTypeA \<and> AC = 0x00)
                   \<or> (key_type = MfClassicKeyTypeB \<and> (AC = 0x00 \<or> AC = 0x04 \<or> AC = 0x06 \<or> AC = 0x03))
               | MfClassicActionDataInc \<Rightarrow> (key_type = MfClassicKeyTypeA \<and> AC = 0x00)
                   \<or> (key_type = MfClassicKeyTypeB \<and> (AC = 0x00 \<or> AC = 0x06))
               | MfClassicActionDataDec \<Rightarrow> (key_type = MfClassicKeyTypeA \<and> (AC = 0x00 \<or> AC = 0x06 \<or> AC = 0x01))
                   \<or> (key_type = MfClassicKeyTypeB \<and> (AC = 0x00 \<or> AC = 0x06 \<or> AC = 0x01))
               | _ \<Rightarrow> False) })"

definition mf_classic_is_allowed_access :: "MfClassicData \<Rightarrow> u8 \<Rightarrow> MfClassicKeyType \<Rightarrow> MfClassicAction \<Rightarrow> bool option" where
  "mf_classic_is_allowed_access data block_num key_type action =
     (if mf_classic_is_sector_trailer block_num
      then mf_classic_is_allowed_access_sector_trailer data block_num key_type action
      else do {
        sec_tr \<leftarrow> mf_classic_get_sector_trailer_by_sector data (mf_classic_get_sector_by_block block_num);
        mf_classic_is_allowed_access_data_block sec_tr block_num key_type action })"

definition mf_classic_is_value_block :: "MfClassicBlock \<Rightarrow> u8 \<Rightarrow> bool option" where
  "mf_classic_is_value_block sec_tr block_num = do {
     w \<leftarrow> mf_classic_is_allowed_access_data_block sec_tr block_num MfClassicKeyTypeA MfClassicActionDataWrite;
     i \<leftarrow> mf_classic_is_allowed_access_data_block sec_tr block_num MfClassicKeyTypeB MfClassicActionDataInc;
     d \<leftarrow> mf_classic_is_allowed_access_data_block sec_tr block_num MfClassicKeyTypeB MfClassicActionDataDec;
     Some (\<not> w \<and> (i \<or> d)) }"

section \<open>The text of a block\<close>

text \<open>
  A line of the file of a card holds the bytes of a block in hexadecimal, separated by spaces, and
  \<open>??\<close> for a byte that is not known. Trimming a string is \<open>string_strim\<close> of the M*LIB library, the
  parameter \<open>trim\<close>; reading a character of a string needs the index to be in the string.
\<close>

definition hex_byte_text :: "u8 \<Rightarrow> u8 list" where
  "hex_byte_text b = hex_pair b @ [32]"

definition unknown_text :: "u8 list" where
  "unknown_text = [63, 63, 32]"

text \<open>\<open>printf\<close> with \<open>%02X\<close> for each byte of \<open>bytes\<close>, or \<open>??\<close>.\<close>

definition bytes_text :: "bool \<Rightarrow> u8 list \<Rightarrow> u8 list" where
  "bytes_text known bytes = concat (map (\<lambda>b. if known then hex_byte_text b else unknown_text) bytes)"

definition mf_classic_set_block_str :: "(u8 list \<Rightarrow> u8 list) \<Rightarrow> MfClassicData \<Rightarrow> u8 \<Rightarrow> u8 list option" where
  "mf_classic_set_block_str trim data block_num =
     (if mf_classic_is_sector_trailer block_num then do {
        let sector_num = mf_classic_get_sector_by_block block_num;
        sec_tr \<leftarrow> mf_classic_get_sector_trailer_by_sector data sector_num;
        r \<leftarrow> mf_classic_is_block_read data block_num;
        Some (trim (bytes_text (mf_classic_is_key_found data sector_num MfClassicKeyTypeA) (key_a_of sec_tr)
          @ bytes_text r (access_bits_of sec_tr)
          @ bytes_text (mf_classic_is_key_found data sector_num MfClassicKeyTypeB) (key_b_of sec_tr))) }
      else do {
        blk \<leftarrow> rd (mfc_block data) (unat block_num);
        r \<leftarrow> mf_classic_is_block_read data block_num;
        Some (trim (bytes_text r blk)) })"

text \<open>The characters that are read, the sixteen bytes and the mask of those that are not a hexadecimal byte.\<close>

definition parse_block_bytes :: "u8 list \<Rightarrow> (u8 list \<times> u16) option" where
  "parse_block_bytes block_str =
     for_loop (\<lambda>i (block_tmp, unknown_mask). do {
        hi \<leftarrow> rd block_str (3 * i);
        low \<leftarrow> rd block_str (3 * i + 1);
        (case hex_char_to_uint8 hi low of
           Some byte \<Rightarrow> do { block_tmp \<leftarrow> wr block_tmp i byte; Some (block_tmp, unknown_mask) }
         | None \<Rightarrow> Some (block_tmp, FURI_BIT_SET unknown_mask i)) }) 0 MF_CLASSIC_BLOCK_SIZE
      (replicate MF_CLASSIC_BLOCK_SIZE 0, 0)"

definition mf_classic_parse_block :: "(u8 list \<Rightarrow> u8 list) \<Rightarrow> u8 list \<Rightarrow> MfClassicData \<Rightarrow> u8 \<Rightarrow> MfClassicData option" where
  "mf_classic_parse_block trim block_str data block_num = do {
     let block_str = trim (trim block_str);
     let sector_num = mf_classic_get_sector_by_block block_num;
     (block_tmp, unknown_mask) \<leftarrow> parse_block_bytes block_str;
     (if unknown_mask \<noteq> 0xffff then
        if mf_classic_is_sector_trailer block_num then do {
          data \<leftarrow> (if unknown_mask AND 0x003f = 0 then do {
              key \<leftarrow> bit_lib_bytes_to_num_be (key_a_of block_tmp) MF_CLASSIC_KEY_SIZE;
              mf_classic_set_key_found data sector_num MfClassicKeyTypeA key } else Some data);
          data \<leftarrow> (if unknown_mask AND 0x03c0 = 0 then mf_classic_set_block_read data block_num block_tmp else Some data);
          (if unknown_mask AND 0xfc00 = 0 then do {
              key \<leftarrow> bit_lib_bytes_to_num_be (key_b_of block_tmp) MF_CLASSIC_KEY_SIZE;
              mf_classic_set_key_found data sector_num MfClassicKeyTypeB key } else Some data) }
        else if unknown_mask = 0 then mf_classic_set_block_read data block_num block_tmp else Some data
      else Some data) }"

text \<open>The block lines of \<open>mf_classic_save\<close>, in order, and the loop of \<open>mf_classic_load\<close> over them.\<close>

definition save_block_lines :: "(u8 list \<Rightarrow> u8 list) \<Rightarrow> MfClassicData \<Rightarrow> u8 list list option" where
  "save_block_lines trim data =
     for_loop (\<lambda>i lines. do { s \<leftarrow> mf_classic_set_block_str trim data (of_nat i); Some (lines @ [s]) })
       0 (unat (mf_classic_get_total_block_num (mfc_type data))) []"

text \<open>\<open>False\<close> when a line is missing; an old format forgets what was found.\<close>

definition load_block_lines :: "(u8 list \<Rightarrow> u8 list) \<Rightarrow> bool \<Rightarrow> u8 list list \<Rightarrow> MfClassicData \<Rightarrow> (MfClassicData \<times> bool) option" where
  "load_block_lines trim old_format lines data = do {
     (data, block_read) \<leftarrow> for_loop (\<lambda>i (data, block_read).
        if \<not> block_read then Some (data, False)
        else if i < length lines then do {
          data \<leftarrow> mf_classic_parse_block trim (lines ! i) data (of_nat i);
          Some (data, True) }
        else Some (data, False)) 0 (unat (mf_classic_get_total_block_num (mfc_type data))) (data, True);
     (if \<not> block_read then Some (data, False)
      else if old_format then Some (data\<lparr>mfc_key_a_mask := 0, mfc_key_b_mask := 0,
        mfc_block_read_mask := replicate MF_CLASSIC_READ_MASK_SIZE 0\<rparr>, True)
      else Some (data, True)) }"

section \<open>Layout in numbers\<close>

lemma nat_or_mask: "(m :: nat) OR mask k = 2 ^ k * (m div 2 ^ k) + mask k"
proof -
  have "push_bit k (drop_bit k m) + mask k = push_bit k (drop_bit k m) OR mask k"
    by (rule disjunctive_add) (auto simp: bit_simps)
  also have "\<dots> = m OR mask k" by (rule bit_eqI) (auto simp: bit_simps)
  finally show ?thesis by (simp add: push_bit_eq_mult drop_bit_eq_div mult.commute)
qed

lemma unat_or_3: "unat (b OR 0x03 :: u8) = 4 * (unat b div 4) + 3"
  and unat_or_15: "unat (b OR 0x0f :: u8) = 16 * (unat b div 16) + 15"
  using nat_or_mask [of "unat b" 2] nat_or_mask [of "unat b" 4] by (simp_all add: unsigned_or_eq mask_eq_exp_minus_1)

lemma u8_less: "unat (b :: u8) < 256"
  using unsigned_less [of b, where 'a = nat] by simp

lemma less_128: "(b :: u8) < 128 \<longleftrightarrow> unat b < 128" and less_32: "(b :: u8) < 32 \<longleftrightarrow> unat b < 32"
  and less_40: "(b :: u8) < 40 \<longleftrightarrow> unat b < 40"
  by (simp_all add: word_less_nat_alt)

lemma unat_trailer: "unat (mf_classic_get_sector_trailer_num_by_block b)
    = (if unat b < 128 then 4 * (unat b div 4) + 3 else 16 * (unat b div 16) + 15)"
  by (simp add: mf_classic_get_sector_trailer_num_by_block_def less_128 unat_or_3 unat_or_15)

lemma unat_sector: "unat (mf_classic_get_sector_by_block b) = (if unat b < 128 then unat b div 4 else 24 + unat b div 16)"
proof (cases "unat b < 128")
  case True
  then show ?thesis by (simp add: mf_classic_get_sector_by_block_def less_128 unat_div unat_or_3)
next
  case False
  have "unat b div 16 < 16" "8 \<le> unat b div 16" using u8_less [of b] False by auto
  then have l: "16 * (unat b div 16) + 15 < 256" "128 \<le> 16 * (unat b div 16) + 15" by linarith+
  have "unat ((b OR 0x0f) - 32 * 4) = unat (b OR 0x0f) - 128"
    using l by (subst unat_sub) (simp_all add: word_le_nat_alt unat_or_15)
  then have "unat (((b OR 0x0f) - 32 * 4) div 16) = (16 * (unat b div 16) + 15 - 128) div 16"
    by (simp add: unat_div unat_or_15)
  also have "\<dots> = unat b div 16 - 8" using l by auto
  finally have "unat (((b OR 0x0f) - 32 * 4) div 16) = unat b div 16 - 8" .
  then show ?thesis
    using False l u8_less [of b] by (simp add: mf_classic_get_sector_by_block_def less_128 unat_word_ariths)
qed

lemma sector_less_40: "mf_classic_get_sector_by_block b < 40"
  using u8_less [of b] by (auto simp: less_40 unat_sector)

definition sector_first :: "nat \<Rightarrow> nat" where
  "sector_first s = (if s < 32 then 4 * s else 128 + 16 * (s - 32))"

definition sector_size :: "nat \<Rightarrow> nat" where
  "sector_size s = (if s < 32 then 4 else 16)"

lemma unat_of_nat_u8: "n < 256 \<Longrightarrow> unat (of_nat n :: u8) = n"
  by (simp add: unat_of_nat take_bit_nat_eq_self)

text \<open>A sector of the upper half of a 4K card.\<close>

lemma upper_sector:
  assumes "unat s < 40" "\<not> unat s < 32"
  shows "unat (32 * 4 + (s - 32) * 16 :: u8) = sector_first (unat s)"
    "unat (32 * 4 + (s - 32) * 16 + 15 :: u8) = sector_first (unat s) + 15"
proof -
  obtain j where j: "unat s = 32 + j" using assms(2) le_Suc_ex not_less by blast
  with assms(1) have "j < 8" by simp
  with j have s: "s = 32 + of_nat j" by (simp add: word_unat_eq_iff unat_word_ariths unat_of_nat_u8)
  have "(32 * 4 + (s - 32) * 16 :: u8) = of_nat (128 + 16 * j)" "(32 * 4 + (s - 32) * 16 + 15 :: u8) = of_nat (143 + 16 * j)"
    by (simp_all add: s)
  then show "unat (32 * 4 + (s - 32) * 16 :: u8) = sector_first (unat s)"
    "unat (32 * 4 + (s - 32) * 16 + 15 :: u8) = sector_first (unat s) + 15"
    using assms j by (simp_all add: unat_of_nat_u8 sector_first_def del: of_nat_add)
qed

lemma first_block:
  assumes "unat s < 40"
  shows "\<exists>f. mf_classic_get_first_block_num_of_sector s = Some f \<and> unat f = sector_first (unat s)"
proof (cases "unat s < 32")
  case True
  then show ?thesis
    by (simp add: mf_classic_get_first_block_num_of_sector_def less_32 less_40 sector_first_def unat_word_ariths)
next
  case False
  then show ?thesis using upper_sector(1) [OF assms] assms
    by (simp add: mf_classic_get_first_block_num_of_sector_def less_32 less_40 del: mult_numeral_1)
qed

lemma trailer_by_sector:
  assumes "unat s < 40"
  shows "\<exists>t. mf_classic_get_sector_trailer_num_by_sector s = Some t \<and> unat t = sector_first (unat s) + sector_size (unat s) - 1"
proof (cases "unat s < 32")
  case True
  then show ?thesis
    by (simp add: mf_classic_get_sector_trailer_num_by_sector_def less_32 sector_first_def sector_size_def unat_word_ariths)
next
  case False
  then show ?thesis using upper_sector(2) [OF assms] assms
    by (simp add: mf_classic_get_sector_trailer_num_by_sector_def less_32 less_40 sector_size_def)
qed

lemma blocks_num: "unat s < 40 \<Longrightarrow> \<exists>n. mf_classic_get_blocks_num_in_sector s = Some n \<and> unat n = sector_size (unat s)"
  by (simp add: mf_classic_get_blocks_num_in_sector_def less_32 less_40 sector_size_def)

lemma sector_range:
  "sector_first (unat (mf_classic_get_sector_by_block b)) \<le> unat b"
  "unat b < sector_first (unat (mf_classic_get_sector_by_block b)) + sector_size (unat (mf_classic_get_sector_by_block b))"
  "unat (mf_classic_get_sector_trailer_num_by_block b)
    = sector_first (unat (mf_classic_get_sector_by_block b)) + sector_size (unat (mf_classic_get_sector_by_block b)) - 1"
  using u8_less [of b] by (auto simp: unat_sector sector_first_def sector_size_def unat_trailer)

lemma trailer_of_sector: "mf_classic_get_sector_trailer_num_by_sector (mf_classic_get_sector_by_block b)
    = Some (mf_classic_get_sector_trailer_num_by_block b)"
proof -
  have s: "unat (mf_classic_get_sector_by_block b) < 40" using sector_less_40 [of b] by (simp add: less_40)
  from trailer_by_sector [OF this] obtain t where t: "mf_classic_get_sector_trailer_num_by_sector (mf_classic_get_sector_by_block b) = Some t"
    "unat t = unat (mf_classic_get_sector_trailer_num_by_block b)" by (auto simp: sector_range(3))
  then show ?thesis by (simp add: word_unat_eq_iff)
qed

lemma is_trailer_iff: "mf_classic_is_sector_trailer b
    \<longleftrightarrow> unat b = sector_first (unat (mf_classic_get_sector_by_block b)) + sector_size (unat (mf_classic_get_sector_by_block b)) - 1"
  unfolding mf_classic_is_sector_trailer_def word_unat_eq_iff sector_range(3) ..

section \<open>Well-formed memory\<close>

text \<open>The arrays have the lengths of the C structures.\<close>

definition mfc_wf :: "MfClassicData \<Rightarrow> bool" where
  "mfc_wf d \<longleftrightarrow> length (mfc_block d) = 256 \<and> (\<forall>b \<in> set (mfc_block d). length b = 16) \<and> length (mfc_block_read_mask d) = 8
     \<and> length (iso_uid (mfc_iso14443_3a_data d)) = 10 \<and> length (iso_atqa (mfc_iso14443_3a_data d)) = 2"

lemma wf_block:
  assumes "mfc_wf d"
  shows "rd (mfc_block d) (unat (b :: u8)) = Some (mfc_block d ! unat b)" "length (mfc_block d ! unat b) = 16"
    "unat b < length (mfc_block d)"
  using assms u8_less [of b] by (auto simp: mfc_wf_def mem_simps)

lemma wf_set_block: "mfc_wf d \<Longrightarrow> length blk = 16 \<Longrightarrow> mfc_wf (d\<lparr>mfc_block := (mfc_block d)[i := blk]\<rparr>)"
  by (auto simp: mfc_wf_def dest: set_update_subset_insert [THEN subsetD])

text \<open>The trailer of a sector below 40.\<close>

definition trailer_index :: "nat \<Rightarrow> nat" where
  "trailer_index s = sector_first s + sector_size s - 1"

lemma trailer_index_less: "s < 40 \<Longrightarrow> trailer_index s < 256"
  by (auto simp: trailer_index_def sector_first_def sector_size_def)

lemma trailer_by_sector_index: "unat s < 40 \<Longrightarrow>
    \<exists>t. mf_classic_get_sector_trailer_num_by_sector s = Some t \<and> unat t = trailer_index (unat s)"
  using trailer_by_sector by (simp add: trailer_index_def)

lemma sector_trailer_spec:
  assumes "mfc_wf d" "unat s < 40"
  shows "mf_classic_get_sector_trailer_by_sector d s = Some (mfc_block d ! trailer_index (unat s))"
    "length (mfc_block d ! trailer_index (unat s)) = 16"
proof -
  obtain t where t: "mf_classic_get_sector_trailer_num_by_sector s = Some t" "unat t = trailer_index (unat s)"
    using trailer_by_sector_index [OF assms(2)] by blast
  show "mf_classic_get_sector_trailer_by_sector d s = Some (mfc_block d ! trailer_index (unat s))"
    using wf_block(1) [OF assms(1), of t] t by (simp add: mf_classic_get_sector_trailer_by_sector_def)
  show "length (mfc_block d ! trailer_index (unat s)) = 16" using wf_block(2) [OF assms(1), of t] t by simp
qed

lemma sector_trailer_of_block:
  assumes "mfc_wf d"
  shows "mf_classic_get_sector_trailer_by_sector d (mf_classic_get_sector_by_block b)
    = Some (mfc_block d ! trailer_index (unat (mf_classic_get_sector_by_block b)))"
  using sector_trailer_spec(1) [OF assms] sector_less_40 by (simp add: less_40)

lemma length_trailer_parts: "length t = 16 \<Longrightarrow> length (key_a_of t) = 6"
  "length t = 16 \<Longrightarrow> length (access_bits_of t) = 4" "length t = 16 \<Longrightarrow> length (key_b_of t) = 6"
  by (simp_all add: key_a_of_def access_bits_of_def key_b_of_def)

lemma bit_FURI_BIT_SET: "n < LENGTH('a) \<Longrightarrow> bit (FURI_BIT_SET (x :: 'a::len word) n) k \<longleftrightarrow> bit x k \<or> k = n"
  by (auto simp: FURI_BIT_SET_def bit_simps)

lemma FURI_BIT_eq_1: "FURI_BIT (x :: 'a::len word) n = 1 \<longleftrightarrow> bit x n"
  by (simp add: FURI_BIT_of_bool)

lemma is_block_read_spec: "mfc_wf d \<Longrightarrow>
    mf_classic_is_block_read d b = Some (bit (mfc_block_read_mask d ! (unat b div 32)) (unat b mod 32))"
  using u8_less [of b] by (simp add: mf_classic_is_block_read_def mfc_wf_def mem_simps FURI_BIT_eq_1)

lemma is_key_found_spec: "mf_classic_is_key_found d s t
    \<longleftrightarrow> bit (case t of MfClassicKeyTypeA \<Rightarrow> mfc_key_a_mask d | MfClassicKeyTypeB \<Rightarrow> mfc_key_b_mask d) (unat s)"
  by (cases t) (simp_all add: mf_classic_is_key_found_def FURI_BIT_eq_1)

section \<open>The operations on well-formed memory\<close>

text \<open>The six bytes of a key, most significant first, and a trailer or block with a part replaced.\<close>

definition key_bytes :: "u64 \<Rightarrow> u8 list" where
  "key_bytes key = rev (le_bytes 6 key)"

fun with_key :: "MfClassicKeyType \<Rightarrow> u8 list \<Rightarrow> MfClassicBlock \<Rightarrow> MfClassicBlock" where
  "with_key MfClassicKeyTypeA k t = k @ drop 6 t"
| "with_key MfClassicKeyTypeB k t = take 10 t @ k"

definition with_access_bits :: "u8 list \<Rightarrow> MfClassicBlock \<Rightarrow> MfClassicBlock" where
  "with_access_bits a t = take 6 t @ a @ drop 10 t"

fun set_mask :: "MfClassicKeyType \<Rightarrow> nat \<Rightarrow> MfClassicData \<Rightarrow> MfClassicData" where
  "set_mask MfClassicKeyTypeA s d = d\<lparr>mfc_key_a_mask := FURI_BIT_SET (mfc_key_a_mask d) s\<rparr>"
| "set_mask MfClassicKeyTypeB s d = d\<lparr>mfc_key_b_mask := FURI_BIT_SET (mfc_key_b_mask d) s\<rparr>"

definition update_block :: "nat \<Rightarrow> MfClassicBlock \<Rightarrow> MfClassicData \<Rightarrow> MfClassicData" where
  "update_block i blk d = d\<lparr>mfc_block := (mfc_block d)[i := blk]\<rparr>"

definition mark_read :: "nat \<Rightarrow> MfClassicData \<Rightarrow> MfClassicData" where
  "mark_read i d = d\<lparr>mfc_block_read_mask := (mfc_block_read_mask d)[i div 32 := FURI_BIT_SET (mfc_block_read_mask d ! (i div 32)) (i mod 32)]\<rparr>"

lemma set_key_found_spec:
  assumes "mfc_wf d" "unat s < 40"
  shows "mf_classic_set_key_found d s t key = Some (set_mask t (unat s)
    (update_block (trailer_index (unat s)) (with_key t (key_bytes key) (mfc_block d ! trailer_index (unat s))) d))"
proof -
  obtain b where b: "mf_classic_get_sector_trailer_num_by_sector s = Some b" "unat b = trailer_index (unat s)"
    using trailer_by_sector_index [OF assms(2)] by blast
  have l: "length (mfc_block d ! trailer_index (unat s)) = 16" using sector_trailer_spec(2) [OF assms] .
  have "bit_lib_num_to_bytes_be key 6 (replicate 6 0) = Some (key_bytes key)"
    by (simp add: bit_lib_num_to_bytes_be_def num_to_bytes_be_loop_spec key_bytes_def)
  with b l wf_block [OF assms(1), of b] show ?thesis
    by (cases t) (simp_all add: mf_classic_set_key_found_def memcpy_Some MF_CLASSIC_KEY_SIZE_def update_block_def key_bytes_def)
qed

lemma set_block_read_spec:
  assumes "mfc_wf d" "length blk = 16"
  shows "mf_classic_set_block_read d b blk = Some (mark_read (unat b) (update_block (unat b)
    (if mf_classic_is_sector_trailer b then with_access_bits (access_bits_of blk) (mfc_block d ! unat b) else blk) d))"
  using assms wf_block [OF assms(1), of b] u8_less [of b]
  by (simp add: mf_classic_set_block_read_def memcpy_Some MF_CLASSIC_BLOCK_SIZE_def with_access_bits_def access_bits_of_def
      mark_read_def update_block_def mem_simps mfc_wf_def)

lemma length_with [simp]: "length t = 16 \<Longrightarrow> length k = 6 \<Longrightarrow> length (with_key kt k t) = 16"
  "length t = 16 \<Longrightarrow> length a = 4 \<Longrightarrow> length (with_access_bits a t) = 16"
  "length (key_bytes key) = 6"
  by (cases kt; simp add: with_access_bits_def key_bytes_def)+

lemma wf_update [intro]: "mfc_wf d \<Longrightarrow> length blk = 16 \<Longrightarrow> mfc_wf (update_block i blk d)"
  unfolding update_block_def by (rule wf_set_block)

lemma wf_marks [intro]: "mfc_wf d \<Longrightarrow> mfc_wf (set_mask t s d)" "mfc_wf d \<Longrightarrow> mfc_wf (mark_read i d)"
  by (cases t; simp add: mfc_wf_def mark_read_def)+

lemma key_bytes_of: "length k = 6 \<Longrightarrow> map_option key_bytes (bit_lib_bytes_to_num_be k MF_CLASSIC_KEY_SIZE) = Some k"
  using le_bytes_of_le_bytes [of "rev k", where 'a = 64]
  by (simp add: bytes_to_num_be_spec MF_CLASSIC_KEY_SIZE_def key_bytes_def rev_swap)

end
