(* ===== verification/MfClassicFile.thy ===== *)
theory MfClassicFile
  imports MfClassic
begin

text \<open>
  Saving the memory of a card as text lines and loading them again: what a printed block looks like as a list of
  cells (\<open>block_cells\<close>), that parsing a line reads the cells back, and what the loaded memory has in common
  with the saved one (\<open>restored\<close>). Of the M*LIB routine \<open>string_strim\<close>, a parameter, only its documented
  behaviour is used: it drops the white space at both ends (\<open>strim_spec\<close>).
\<close>

section \<open>Printing and parsing a block\<close>

text \<open>A line is a list of cells, a byte or unknown.\<close>

definition cell_text :: "u8 option \<Rightarrow> u8 list" where
  "cell_text c = (case c of None \<Rightarrow> unknown_text | Some b \<Rightarrow> hex_byte_text b)"

definition line_text :: "u8 option list \<Rightarrow> u8 list" where
  "line_text cells = concat (map cell_text cells)"

definition known_cells :: "bool \<Rightarrow> u8 list \<Rightarrow> u8 option list" where
  "known_cells known bs = map (\<lambda>b. if known then Some b else None) bs"

lemma length_known_cells [simp]: "length (known_cells k bs) = length bs"
  by (simp add: known_cells_def)

lemma bytes_text_cells: "bytes_text k bs = line_text (known_cells k bs)"
  by (cases k) (simp_all add: bytes_text_def line_text_def known_cells_def cell_text_def o_def)

text \<open>What \<open>string_strim\<close> of the M*LIB library does with the firmware's default characters.\<close>

definition blank :: "u8 \<Rightarrow> bool" where
  "blank c \<longleftrightarrow> c \<in> {32, 10, 13, 9}"

definition strim_spec :: "(u8 list \<Rightarrow> u8 list) \<Rightarrow> bool" where
  "strim_spec trim \<longleftrightarrow> (\<forall>s. trim s = rev (dropWhile blank (rev (dropWhile blank s))))"

lemma cell_text_parts: "\<exists>x y. cell_text c = [x, y, 32] \<and> \<not> blank x \<and> \<not> blank y \<and> hex_char_to_uint8 x y = c"
proof (cases c)
  case None
  have "hex_char_to_uint8 63 63 = None" by (simp add: hex_char_to_uint8_def hex_char_to_hex_nibble_def)
  with None show ?thesis by (simp add: cell_text_def unknown_text_def blank_def)
next
  case (Some b)
  have nb: "\<forall>n \<in> set [0..<16]. \<not> blank (hex_digits ! n)" by code_simp
  have "\<not> blank (hex_digits ! unat (x AND 0xF))" for x :: u8 using bspec [OF nb, of "unat (x AND 0xF)"] nibble_16 [of x] by simp
  with Some hex_pair_decode [of b] show ?thesis
    by (simp add: cell_text_def hex_byte_text_def hex_pair_def del: hex_digits_nibble)
qed

lemma length_cell_text [simp]: "length (cell_text c) = 3"
  using cell_text_parts [of c] by auto

lemma line_text_nth: "i < length cells \<Longrightarrow> j < 3 \<Longrightarrow> line_text cells ! (3 * i + j) = cell_text (cells ! i) ! j"
proof (induction cells arbitrary: i)
  case (Cons c cells)
  then show ?case by (cases i) (auto simp: line_text_def nth_append)
qed simp

lemma length_line_text [simp]: "length (line_text cells) = 3 * length cells"
  by (induction cells) (auto simp: line_text_def)

lemma trim_line:
  assumes "strim_spec trim" "cells \<noteq> []"
  shows "trim (line_text cells) = butlast (line_text cells)" "trim (butlast (line_text cells)) = butlast (line_text cells)"
proof -
  obtain c cs where 1: "cells = c # cs" using assms(2) by (cases cells) auto
  obtain ds d where 2: "cells = ds @ [d]" using assms(2) by (cases cells rule: rev_cases) auto
  obtain x y where c: "cell_text c = [x, y, 32]" "\<not> blank x" using cell_text_parts [of c] by auto
  obtain u v where d: "cell_text d = [u, v, 32]" "\<not> blank v" using cell_text_parts [of d] by auto
  have l1: "line_text cells = x # y # 32 # line_text cs" by (simp add: 1 line_text_def c)
  have l2: "line_text cells = line_text ds @ [u, v, 32]" by (simp add: 2 line_text_def d)
  have b: "butlast (line_text cells) = line_text ds @ [u, v]" by (simp add: l2 butlast_append)
  have b1: "\<exists>r. butlast (line_text cells) = x # r" unfolding l1 by simp
  have s32: "blank 32" by (simp add: blank_def)
  show "trim (line_text cells) = butlast (line_text cells)"
  proof -
    have "dropWhile blank (line_text cells) = line_text cells" by (simp add: l1 c)
    then show ?thesis using assms(1) by (simp add: strim_spec_def b) (simp add: l2 d s32)
  qed
  have "dropWhile blank (butlast (line_text cells)) = butlast (line_text cells)" using b1 c(2) by auto
  then show "trim (butlast (line_text cells)) = butlast (line_text cells)"
    using assms(1) by (simp add: strim_spec_def) (simp add: b d)
qed

definition cell_byte :: "u8 option \<Rightarrow> u8" where
  "cell_byte c = (case c of None \<Rightarrow> 0 | Some b \<Rightarrow> b)"

lemma parse_cells:
  assumes "length cells = 16"
  shows "\<exists>m. parse_block_bytes (butlast (line_text cells)) = Some (map cell_byte cells, m)
    \<and> (\<forall>k. bit m k \<longleftrightarrow> k < 16 \<and> cells ! k = None)"
proof -
  let ?s = "butlast (line_text cells)"
  let ?body = "\<lambda>i (block_tmp, unknown_mask). do {
        hi \<leftarrow> rd ?s (3 * i);
        low \<leftarrow> rd ?s (3 * i + 1);
        (case hex_char_to_uint8 hi low of
           Some byte \<Rightarrow> do { block_tmp \<leftarrow> wr block_tmp i byte; Some (block_tmp, unknown_mask) }
         | None \<Rightarrow> Some (block_tmp, FURI_BIT_SET unknown_mask i)) }"
  define P where "P i st \<longleftrightarrow> (case st of (blk, m) \<Rightarrow>
    blk = map cell_byte (take i cells) @ replicate (16 - i) 0 \<and> (\<forall>k. bit m k \<longleftrightarrow> k < i \<and> cells ! k = None))"
    for i and st :: "u8 list \<times> u16"
  have "\<exists>st. for_loop ?body 0 16 (replicate 16 0, 0) = Some st \<and> P (0 + 16) st"
  proof (rule for_loop_rule)
    show "P 0 (replicate 16 0, 0)" by (simp add: P_def)
    fix i st assume i: "0 \<le> i" "i < 0 + (16 :: nat)" and st: "P i st"
    obtain blk m where co: "st = (blk, m)" by fastforce
    have inv: "blk = map cell_byte (take i cells) @ replicate (16 - i) 0" "\<And>k. bit m k \<longleftrightarrow> k < i \<and> cells ! k = None"
      using st by (simp_all add: co P_def)
    obtain x y where c: "cell_text (cells ! i) = [x, y, 32]" "hex_char_to_uint8 x y = cells ! i"
      using cell_text_parts [of "cells ! i"] by auto
    have len: "length ?s = 47" using assms by simp
    have "?s ! (3 * i) = x" "?s ! (3 * i + 1) = y"
      using line_text_nth [of i cells 0] line_text_nth [of i cells 1] i assms by (simp_all add: nth_butlast c)
    then have rds: "rd ?s (3 * i) = Some x" "rd ?s (3 * i + 1) = Some y" using i len by (simp_all add: mem_simps)
    have t: "take (Suc i) cells = take i cells @ [cells ! i]" using i assms by (simp add: take_Suc_conv_app_nth)
    have r: "replicate (16 - i) (0 :: u8) = 0 # replicate (16 - Suc i) 0"
      using i by (metis Suc_diff_Suc add_0 replicate_Suc)
    show "\<exists>st'. ?body i st = Some st' \<and> P (Suc i) st'"
    proof (cases "cells ! i")
      case None
      then have "?body i st = Some (blk, FURI_BIT_SET m i)" using rds c(2) by (simp add: co)
      moreover have "blk = map cell_byte (take (Suc i) cells) @ replicate (16 - Suc i) 0"
        unfolding inv(1) r t by (simp add: cell_byte_def None)
      then have "P (Suc i) (blk, FURI_BIT_SET m i)" using i None by (auto simp: P_def inv(2) bit_FURI_BIT_SET less_Suc_eq)
      ultimately show ?thesis by blast
    next
      case (Some b)
      have "length blk = 16" using i assms by (simp add: inv(1))
      then have "?body i st = Some (blk[i := b], m)" using rds c(2) Some i by (simp add: co mem_simps)
      moreover have "blk[i := b] = map cell_byte (take (Suc i) cells) @ replicate (16 - Suc i) 0"
        using i assms unfolding inv(1) r t by (simp add: list_update_append cell_byte_def Some)
      then have "P (Suc i) (blk[i := b], m)" by (auto simp: P_def inv(2) less_Suc_eq Some)
      ultimately show ?thesis by blast
    qed
  qed
  then obtain st where "for_loop ?body 0 16 (replicate 16 0, 0) = Some st" "P 16 st" by auto
  moreover obtain blk m where "st = (blk, m)" by fastforce
  ultimately have "parse_block_bytes ?s = Some (map cell_byte cells, m)" "\<forall>k. bit m k \<longleftrightarrow> k < 16 \<and> cells ! k = None"
    using assms unfolding parse_block_bytes_def MF_CLASSIC_BLOCK_SIZE_def by (simp_all add: P_def)
  then show ?thesis by blast
qed

declare set_mask.simps [simp del]

lemma line_text_append: "line_text (xs @ ys) = line_text xs @ line_text ys"
  by (simp add: line_text_def)

definition block_cells :: "MfClassicData \<Rightarrow> u8 \<Rightarrow> u8 option list" where
  "block_cells d b =
     (let s = mf_classic_get_sector_by_block b; blk = mfc_block d ! unat b;
          r = bit (mfc_block_read_mask d ! (unat b div 32)) (unat b mod 32)
      in if mf_classic_is_sector_trailer b
         then known_cells (mf_classic_is_key_found d s MfClassicKeyTypeA) (key_a_of blk) @ known_cells r (access_bits_of blk)
           @ known_cells (mf_classic_is_key_found d s MfClassicKeyTypeB) (key_b_of blk)
         else known_cells r blk)"

lemma trailer_index_block: "mf_classic_is_sector_trailer b \<Longrightarrow> trailer_index (unat (mf_classic_get_sector_by_block b)) = unat b"
  by (simp add: is_trailer_iff trailer_index_def)

lemma set_block_str_spec:
  assumes "mfc_wf d"
  shows "mf_classic_set_block_str trim d b = Some (trim (line_text (block_cells d b)))"
  using sector_trailer_of_block [OF assms, of b] wf_block [OF assms, of b]
  by (simp add: mf_classic_set_block_str_def is_block_read_spec [OF assms] bytes_text_cells block_cells_def Let_def
      line_text_append trailer_index_block)

lemma length_block_cells: "mfc_wf d \<Longrightarrow> length (block_cells d b) = 16"
  using wf_block(2) [of d b] by (simp add: block_cells_def Let_def length_trailer_parts)

lemma mask_bits: "k < 16 \<Longrightarrow> bit (0x003f :: u16) k \<longleftrightarrow> k < 6"
  "k < 16 \<Longrightarrow> bit (0x03c0 :: u16) k \<longleftrightarrow> 6 \<le> k \<and> k < 10"
  "k < 16 \<Longrightarrow> bit (0xfc00 :: u16) k \<longleftrightarrow> 10 \<le> k"
  "k < 16 \<Longrightarrow> bit (0xffff :: u16) k"
proof -
  have "list_all (\<lambda>k. (bit (0x003f :: u16) k \<longleftrightarrow> k < 6) \<and> (bit (0x03c0 :: u16) k \<longleftrightarrow> 6 \<le> k \<and> k < 10)
    \<and> (bit (0xfc00 :: u16) k \<longleftrightarrow> 10 \<le> k) \<and> bit (0xffff :: u16) k) [0..<16]" by code_simp
  then show "k < 16 \<Longrightarrow> bit (0x003f :: u16) k \<longleftrightarrow> k < 6"
  "k < 16 \<Longrightarrow> bit (0x03c0 :: u16) k \<longleftrightarrow> 6 \<le> k \<and> k < 10"
  "k < 16 \<Longrightarrow> bit (0xfc00 :: u16) k \<longleftrightarrow> 10 \<le> k"
  "k < 16 \<Longrightarrow> bit (0xffff :: u16) k" by (auto simp: list_all_iff simp del: upt_Suc)
qed

lemma and_zero_iff: "m AND w = 0 \<longleftrightarrow> (\<forall>k. bit m k \<longrightarrow> \<not> bit (w :: 'a::len word) k)"
  by (auto simp: bit_eq_iff bit_and_iff dest: bit_imp_le_length)

lemma in_set_segment: "x \<in> set (take n (drop i xs)) \<longleftrightarrow> (\<exists>k. i \<le> k \<and> k < i + n \<and> k < length xs \<and> xs ! k = x)"
proof
  assume "x \<in> set (take n (drop i xs))"
  then obtain j where "j < length xs - i" "j < n" "xs ! (i + j) = x" by (auto simp: in_set_conv_nth)
  then show "\<exists>k. i \<le> k \<and> k < i + n \<and> k < length xs \<and> xs ! k = x" by (intro exI [of _ "i + j"]) auto
next
  assume "\<exists>k. i \<le> k \<and> k < i + n \<and> k < length xs \<and> xs ! k = x"
  then obtain k where "i \<le> k" "k < i + n" "k < length xs" "xs ! k = x" by blast
  then show "x \<in> set (take n (drop i xs))" by (auto simp: in_set_conv_nth intro!: exI [of _ "k - i"])
qed

lemma mask_tests:
  fixes m :: u16
  assumes m: "\<And>k. bit m k \<longleftrightarrow> k < 16 \<and> cells ! k = None" and len: "length cells = 16"
  shows "m AND 0x003f = 0 \<longleftrightarrow> None \<notin> set (take 6 cells)" "m AND 0x03c0 = 0 \<longleftrightarrow> None \<notin> set (take 4 (drop 6 cells))"
    "m AND 0xfc00 = 0 \<longleftrightarrow> None \<notin> set (take 6 (drop 10 cells))" "m = 0 \<longleftrightarrow> None \<notin> set cells" "m = 0xffff \<longleftrightarrow> set cells \<subseteq> {None}"
proof -
  have s: "m AND w = 0 \<longleftrightarrow> None \<notin> set (take n (drop i cells))"
    if "\<And>k. k < 16 \<Longrightarrow> bit w k \<longleftrightarrow> i \<le> k \<and> k < i + n" for w n i
    unfolding and_zero_iff in_set_segment using that m len by auto
  show "m AND 0x003f = 0 \<longleftrightarrow> None \<notin> set (take 6 cells)" using s [of "0x003f" 0 6] mask_bits(1) by simp
  show "m AND 0x03c0 = 0 \<longleftrightarrow> None \<notin> set (take 4 (drop 6 cells))" using s [of "0x03c0" 6 4] mask_bits(2) by simp
  show "m AND 0xfc00 = 0 \<longleftrightarrow> None \<notin> set (take 6 (drop 10 cells))" using s [of "0xfc00" 10 6] mask_bits(3) by auto
  have "m = 0 \<longleftrightarrow> (\<forall>k. \<not> bit m k)" using m(1) by (auto simp: bit_eq_iff)
  then show "m = 0 \<longleftrightarrow> None \<notin> set cells" using m len by (auto simp: in_set_conv_nth)
  have "m = 0xffff \<longleftrightarrow> (\<forall>k < 16. bit m k)"
  proof
    assume "\<forall>k < 16. bit m k"
    then show "m = 0xffff" using mask_bits(4) by (intro bit_word_eqI) simp
  qed (use mask_bits(4) in simp)
  moreover have "set cells \<subseteq> {None} \<longleftrightarrow> (\<forall>k < 16. cells ! k = None)"
    unfolding len [symmetric] by (auto simp: subset_iff in_set_conv_nth)
  ultimately show "m = 0xffff \<longleftrightarrow> set cells \<subseteq> {None}" using m by simp
qed

lemma None_known_cells: "bs \<noteq> [] \<Longrightarrow> None \<in> set (known_cells k bs) \<longleftrightarrow> \<not> k"
  "bs \<noteq> [] \<Longrightarrow> set (known_cells k bs) \<subseteq> {None} \<longleftrightarrow> \<not> k"
  "map cell_byte (known_cells True bs) = bs"
  by (cases bs; auto simp: known_cells_def cell_byte_def o_def)+

text \<open>What parsing the printed block \<open>b\<close> of \<open>d\<close> does to \<open>d0\<close>.\<close>

definition restore_key :: "MfClassicKeyType \<Rightarrow> MfClassicData \<Rightarrow> nat \<Rightarrow> nat \<Rightarrow> MfClassicData \<Rightarrow> MfClassicData" where
  "restore_key t d s b d0 =
     (if bit (case t of MfClassicKeyTypeA \<Rightarrow> mfc_key_a_mask d | MfClassicKeyTypeB \<Rightarrow> mfc_key_b_mask d) s
      then set_mask t s (update_block b (with_key t (case t of MfClassicKeyTypeA \<Rightarrow> key_a_of (mfc_block d ! b)
        | MfClassicKeyTypeB \<Rightarrow> key_b_of (mfc_block d ! b)) (mfc_block d0 ! b)) d0)
      else d0)"

definition was_read :: "MfClassicData \<Rightarrow> nat \<Rightarrow> bool" where
  "was_read d b \<longleftrightarrow> bit (mfc_block_read_mask d ! (b div 32)) (b mod 32)"

definition restore_access :: "MfClassicData \<Rightarrow> nat \<Rightarrow> MfClassicData \<Rightarrow> MfClassicData" where
  "restore_access d b d0 = (if was_read d b then mark_read b
     (update_block b (with_access_bits (access_bits_of (mfc_block d ! b)) (mfc_block d0 ! b)) d0) else d0)"

lemma wf_restore:
  assumes "mfc_wf d" "mfc_wf d0" "b < 256"
  shows "mfc_wf (restore_key t d s b d0)" "mfc_wf (restore_access d b d0)"
proof -
  have "length (mfc_block d ! b) = 16" "length (mfc_block d0 ! b) = 16"
    using assms by (auto simp: mfc_wf_def)
  then show "mfc_wf (restore_key t d s b d0)" "mfc_wf (restore_access d b d0)"
    using assms(2) by (cases t; simp add: restore_key_def restore_access_def length_trailer_parts wf_marks wf_update)+
qed

lemma set_key_bytes:
  assumes "length k = 6"
  obtains n where "bit_lib_bytes_to_num_be k MF_CLASSIC_KEY_SIZE = Some n"
    "\<And>d0 s t. mfc_wf d0 \<Longrightarrow> unat s < 40 \<Longrightarrow> mf_classic_set_key_found d0 s t n
      = Some (set_mask t (unat s) (update_block (trailer_index (unat s)) (with_key t k (mfc_block d0 ! trailer_index (unat s))) d0))"
proof -
  obtain n where n: "bit_lib_bytes_to_num_be k MF_CLASSIC_KEY_SIZE = Some n" "key_bytes n = k"
    using key_bytes_of [OF assms] by (auto simp: map_option_case split: option.splits)
  show ?thesis by (rule that [OF n(1)]) (simp only: set_key_found_spec n(2))
qed

lemma parse_printed_trailer:
  assumes "strim_spec trim" "mfc_wf d" "mfc_wf d0" "mf_classic_is_sector_trailer b"
  defines "s \<equiv> unat (mf_classic_get_sector_by_block b)"
  shows "mf_classic_set_block_str trim d b \<bind> (\<lambda>str. mf_classic_parse_block trim str d0 b)
    = Some (restore_key MfClassicKeyTypeB d s (unat b) (restore_access d (unat b) (restore_key MfClassicKeyTypeA d s (unat b) d0)))"
proof -
  let ?c = "block_cells d b" and ?T = "mfc_block d ! unat b"
  define a r e where "a = bit (mfc_key_a_mask d) s" and "r = was_read d (unat b)" and "e = bit (mfc_key_b_mask d) s"
  have T: "length ?T = 16" using wf_block [OF assms(2)] by simp
  note tl = length_trailer_parts [OF T]
  have ne: "key_a_of ?T \<noteq> []" "access_bits_of ?T \<noteq> []" "key_b_of ?T \<noteq> []" using tl by auto
  have c: "?c = known_cells a (key_a_of ?T) @ known_cells r (access_bits_of ?T) @ known_cells e (key_b_of ?T)"
    using assms(4) by (simp add: block_cells_def Let_def is_key_found_spec a_def r_def e_def s_def was_read_def)
  have len: "length ?c = 16" by (rule length_block_cells [OF assms(2)])
  obtain m where m: "parse_block_bytes (butlast (line_text ?c)) = Some (map cell_byte ?c, m)"
    "\<And>k. bit m k \<longleftrightarrow> k < 16 \<and> ?c ! k = None" using parse_cells [OF len] by blast
  note t = mask_tests [OF m(2) len]
  have parts: "take 6 ?c = known_cells a (key_a_of ?T)" "take 4 (drop 6 ?c) = known_cells r (access_bits_of ?T)"
    "take 6 (drop 10 ?c) = known_cells e (key_b_of ?T)" using tl by (simp_all add: c)
  have tests: "m AND 0x003f = 0 \<longleftrightarrow> a" "m AND 0x03c0 = 0 \<longleftrightarrow> r" "m AND 0xfc00 = 0 \<longleftrightarrow> e" "m = 0xffff \<longleftrightarrow> \<not> a \<and> \<not> r \<and> \<not> e"
    using ne unfolding t parts by (simp_all add: None_known_cells c) 
  have cnz: "?c \<noteq> []" using len by auto
  have vals: "a \<Longrightarrow> key_a_of (map cell_byte ?c) = key_a_of ?T" "r \<Longrightarrow> access_bits_of (map cell_byte ?c) = access_bits_of ?T"
    "e \<Longrightarrow> key_b_of (map cell_byte ?c) = key_b_of ?T"
    using parts None_known_cells(3) by (simp_all add: key_a_of_def access_bits_of_def key_b_of_def take_map drop_map)
  have s40: "unat (mf_classic_get_sector_by_block b) < 40" using sector_less_40 [of b] by (simp add: less_40)
  have ti: "trailer_index s = unat b" using trailer_index_block [OF assms(4)] by (simp add: s_def)
  let ?d1 = "restore_key MfClassicKeyTypeA d s (unat b) d0" and ?d2 = "restore_access d (unat b) (restore_key MfClassicKeyTypeA d s (unat b) d0)"
  have wf1: "mfc_wf ?d1" "mfc_wf ?d2" using wf_restore [OF assms(2)] assms(3) u8_less [of b] by simp_all
  obtain ka where ka: "bit_lib_bytes_to_num_be (key_a_of ?T) MF_CLASSIC_KEY_SIZE = Some ka"
    "a \<Longrightarrow> mf_classic_set_key_found d0 (mf_classic_get_sector_by_block b) MfClassicKeyTypeA ka = Some ?d1"
    using set_key_bytes [OF tl(1)] assms(3) s40 ti by (metis restore_key_def a_def s_def MfClassicKeyType.case(1))
  have sr: "r \<Longrightarrow> mf_classic_set_block_read ?d1 b (map cell_byte ?c) = Some ?d2"
    using set_block_read_spec [OF wf1(1), of "map cell_byte ?c" b] vals(2) assms(4) len by (simp add: restore_access_def r_def)
  obtain kb where kb: "bit_lib_bytes_to_num_be (key_b_of ?T) MF_CLASSIC_KEY_SIZE = Some kb"
    "e \<Longrightarrow> mf_classic_set_key_found ?d2 (mf_classic_get_sector_by_block b) MfClassicKeyTypeB kb
      = Some (restore_key MfClassicKeyTypeB d s (unat b) ?d2)"
    using set_key_bytes [OF tl(3)] wf1(2) s40 ti by (metis restore_key_def e_def s_def MfClassicKeyType.case(2))
  have na: "\<not> a \<Longrightarrow> ?d1 = d0" "\<not> r \<Longrightarrow> ?d2 = ?d1" "\<not> e \<Longrightarrow> restore_key MfClassicKeyTypeB d s (unat b) ?d2 = ?d2"
    by (simp_all add: restore_key_def restore_access_def a_def r_def e_def)
  show ?thesis
    unfolding set_block_str_spec [OF assms(2)] mf_classic_parse_block_def
    using assms(4) m(1) ka kb sr na vals trim_line [OF assms(1) cnz]
    by (cases a; cases r; cases e) (simp_all add: tests)
qed

lemma parse_printed_block:
  assumes "strim_spec trim" "mfc_wf d" "mfc_wf d0" "\<not> mf_classic_is_sector_trailer b"
  shows "mf_classic_set_block_str trim d b \<bind> (\<lambda>str. mf_classic_parse_block trim str d0 b)
    = Some (if was_read d (unat b) then mark_read (unat b) (update_block (unat b) (mfc_block d ! unat b) d0) else d0)"
proof -
  let ?c = "block_cells d b" and ?r = "was_read d (unat b)"
  have T: "length (mfc_block d ! unat b) = 16" using wf_block [OF assms(2)] by simp
  then have ne: "mfc_block d ! unat b \<noteq> []" by auto
  have c: "?c = known_cells ?r (mfc_block d ! unat b)" using assms(4) by (simp add: block_cells_def Let_def was_read_def)
  have len: "length ?c = 16" by (rule length_block_cells [OF assms(2)])
  obtain m where m: "parse_block_bytes (butlast (line_text ?c)) = Some (map cell_byte ?c, m)"
    "\<And>k. bit m k \<longleftrightarrow> k < 16 \<and> ?c ! k = None" using parse_cells [OF len] by blast
  have tests: "m = 0 \<longleftrightarrow> ?r" "m = 0xffff \<longleftrightarrow> \<not> ?r"
    using ne unfolding mask_tests [OF m(2) len] by (simp_all add: None_known_cells c)
  have cnz: "?c \<noteq> []" using len by auto
  have v: "?r \<Longrightarrow> map cell_byte ?c = mfc_block d ! unat b" by (simp add: c None_known_cells(3))
  show ?thesis
    unfolding set_block_str_spec [OF assms(2)] mf_classic_parse_block_def
    using assms(4) m(1) tests trim_line [OF assms(1) cnz] v set_block_read_spec [OF assms(3) T, of b]
    by (cases ?r) simp_all
qed

section \<open>Saving and loading the memory\<close>

definition key_mask :: "MfClassicKeyType \<Rightarrow> MfClassicData \<Rightarrow> u64" where
  "key_mask t d = (case t of MfClassicKeyTypeA \<Rightarrow> mfc_key_a_mask d | MfClassicKeyTypeB \<Rightarrow> mfc_key_b_mask d)"

definition key_of :: "MfClassicKeyType \<Rightarrow> MfClassicBlock \<Rightarrow> u8 list" where
  "key_of t blk = (case t of MfClassicKeyTypeA \<Rightarrow> key_a_of blk | MfClassicKeyTypeB \<Rightarrow> key_b_of blk)"

named_theorems card_view "what is visible of the card's memory after an update"

lemma key_mask_updates [card_view]:
  "key_mask t (update_block i blk d) = key_mask t d" "key_mask t (mark_read i d) = key_mask t d"
  "key_mask t (set_mask u s d) = (if t = u then FURI_BIT_SET (key_mask t d) s else key_mask t d)"
  by (cases t; cases u; simp add: key_mask_def update_block_def mark_read_def set_mask.simps)+

lemma block_updates [card_view]:
  "mfc_block (set_mask u s d) = mfc_block d" "mfc_block (mark_read i d) = mfc_block d"
  "mfc_block (update_block i blk d) = (mfc_block d)[i := blk]"
  by (cases u; simp add: set_mask.simps mark_read_def update_block_def)+

lemma read_updates [card_view]:
  "was_read (set_mask u s d) x = was_read d x" "was_read (update_block i blk d) x = was_read d x"
  by (cases u; simp add: set_mask.simps was_read_def update_block_def)+

lemma read_mark [card_view]:
  assumes "mfc_wf d" "i < 256"
  shows "was_read (mark_read i d) x \<longleftrightarrow> was_read d x \<or> x = i"
proof -
  have "x div 32 = i div 32 \<and> x mod 32 = i mod 32 \<longleftrightarrow> x = i" by (metis mult_div_mod_eq)
  moreover have "i div 32 < 8" "length (mfc_block_read_mask d) = 8" using assms by (auto simp: mfc_wf_def)
  ultimately show ?thesis by (auto simp: was_read_def mark_read_def nth_list_update bit_FURI_BIT_SET)
qed

lemma type_updates [card_view]:
  "mfc_type (set_mask u s d) = mfc_type d" "mfc_type (mark_read i d) = mfc_type d" "mfc_type (update_block i blk d) = mfc_type d"
  by (cases u; simp add: set_mask.simps mark_read_def update_block_def)+

lemma trailer_parts [card_view]:
  "length blk = 16 \<Longrightarrow> length k = 6 \<Longrightarrow> key_of t (with_key u k blk) = (if t = u then k else key_of t blk)"
  by (cases t; cases u; simp add: key_of_def key_a_of_def key_b_of_def)

lemma trailer_access [card_view]:
  "length blk = 16 \<Longrightarrow> length k = 6 \<Longrightarrow> access_bits_of (with_key u k blk) = access_bits_of blk"
  "length blk = 16 \<Longrightarrow> length a = 4 \<Longrightarrow> access_bits_of (with_access_bits a blk) = a"
  by (cases u; simp add: access_bits_of_def drop_take) (simp add: access_bits_of_def with_access_bits_def)

lemma trailer_access_key [card_view]:
  "length blk = 16 \<Longrightarrow> length a = 4 \<Longrightarrow> key_of t (with_access_bits a blk) = key_of t blk"
  by (cases t) (simp_all add: key_of_def key_a_of_def key_b_of_def with_access_bits_def)

lemma length_key_of: "length blk = 16 \<Longrightarrow> length (key_of t blk) = 6"
  by (cases t) (simp_all add: key_of_def length_trailer_parts)

lemma restore_key_unfold: "restore_key t d s b d0 = (if bit (key_mask t d) s
    then set_mask t s (update_block b (with_key t (key_of t (mfc_block d ! b)) (mfc_block d0 ! b)) d0) else d0)"
  by (simp add: restore_key_def key_mask_def key_of_def)

lemma restore_trailer_view:
  fixes b s :: nat and d d0 :: MfClassicData
  assumes wf: "mfc_wf d" "mfc_wf d0" and b: "b < 256" "s < 64"
  defines "D \<equiv> restore_key MfClassicKeyTypeB d s b (restore_access d b (restore_key MfClassicKeyTypeA d s b d0))"
  shows "mfc_wf D" "mfc_type D = mfc_type d0" "was_read D x \<longleftrightarrow> was_read d0 x \<or> x = b \<and> was_read d b"
    "bit (key_mask t D) x \<longleftrightarrow> bit (key_mask t d0) x \<or> x = s \<and> bit (key_mask t d) s"
    "x \<noteq> b \<Longrightarrow> mfc_block D ! x = mfc_block d0 ! x"
    "was_read d b \<Longrightarrow> access_bits_of (mfc_block D ! b) = access_bits_of (mfc_block d ! b)"
    "bit (key_mask t d) s \<Longrightarrow> key_of t (mfc_block D ! b) = key_of t (mfc_block d ! b)"
proof -
  let ?d1 = "restore_key MfClassicKeyTypeA d s b d0" and ?d2 = "restore_access d b (restore_key MfClassicKeyTypeA d s b d0)"
  have wfs: "mfc_wf ?d1" "mfc_wf ?d2" "mfc_wf D"
    unfolding D_def using wf_restore [OF wf(1)] wf(2) b(1) by simp_all
  then show "mfc_wf D" by simp
  have len: "length (mfc_block e ! b) = 16" "b < length (mfc_block e)" if "mfc_wf e" for e
    using that b(1) by (auto simp: mfc_wf_def)
  have k: "mfc_type (restore_key u d s b e) = mfc_type e" "was_read (restore_key u d s b e) x = was_read e x"
    "bit (key_mask t (restore_key u d s b e)) x \<longleftrightarrow> bit (key_mask t e) x \<or> t = u \<and> x = s \<and> bit (key_mask t d) s"
    "x \<noteq> b \<Longrightarrow> mfc_block (restore_key u d s b e) ! x = mfc_block e ! x"
    "mfc_wf e \<Longrightarrow> access_bits_of (mfc_block (restore_key u d s b e) ! b) = access_bits_of (mfc_block e ! b)"
    "mfc_wf e \<Longrightarrow> key_of t (mfc_block (restore_key u d s b e) ! b)
       = (if t = u \<and> bit (key_mask t d) s then key_of t (mfc_block d ! b) else key_of t (mfc_block e ! b))" for u e x t
    using b(2) len [OF wf(1)] len [of e]
    by (auto simp: restore_key_unfold card_view bit_FURI_BIT_SET length_key_of)
  have a: "mfc_type (restore_access d b e) = mfc_type e" "key_mask t (restore_access d b e) = key_mask t e"
    "mfc_wf e \<Longrightarrow> was_read (restore_access d b e) x \<longleftrightarrow> was_read e x \<or> x = b \<and> was_read d b"
    "x \<noteq> b \<Longrightarrow> mfc_block (restore_access d b e) ! x = mfc_block e ! x"
    "mfc_wf e \<Longrightarrow> was_read d b \<Longrightarrow> access_bits_of (mfc_block (restore_access d b e) ! b) = access_bits_of (mfc_block d ! b)"
    "mfc_wf e \<Longrightarrow> key_of t (mfc_block (restore_access d b e) ! b) = key_of t (mfc_block e ! b)" for e x t
    using b(1) len [OF wf(1)] len [of e] length_trailer_parts(2)
    by (auto simp: restore_access_def card_view wf_update)
  show "mfc_type D = mfc_type d0" "was_read D x \<longleftrightarrow> was_read d0 x \<or> x = b \<and> was_read d b"
    "bit (key_mask t D) x \<longleftrightarrow> bit (key_mask t d0) x \<or> x = s \<and> bit (key_mask t d) s"
    "x \<noteq> b \<Longrightarrow> mfc_block D ! x = mfc_block d0 ! x"
    "was_read d b \<Longrightarrow> access_bits_of (mfc_block D ! b) = access_bits_of (mfc_block d ! b)"
    "bit (key_mask t d) s \<Longrightarrow> key_of t (mfc_block D ! b) = key_of t (mfc_block d ! b)"
    unfolding D_def using wf wfs by (cases t; auto simp: k a)+
qed

lemma trailer_index_sector: "s < 40 \<Longrightarrow> unat (mf_classic_get_sector_by_block (of_nat (trailer_index s))) = s
    \<and> mf_classic_is_sector_trailer (of_nat (trailer_index s))"
proof -
  assume s: "s < 40"
  have u: "unat (of_nat (trailer_index s) :: u8) = trailer_index s" by (rule unat_of_nat_u8 [OF trailer_index_less [OF s]])
  have "unat (mf_classic_get_sector_by_block (of_nat (trailer_index s))) = s"
    unfolding unat_sector u using s by (auto simp: trailer_index_def sector_first_def sector_size_def)
  then show ?thesis by (simp add: is_trailer_iff u) (simp add: trailer_index_def)
qed

text \<open>What holds of \<open>e\<close> when the first \<open>n\<close> lines of \<open>d\<close> have been loaded into it.\<close>

definition restored :: "MfClassicData \<Rightarrow> nat \<Rightarrow> MfClassicData \<Rightarrow> bool" where
  "restored d n e \<longleftrightarrow> mfc_wf e \<and> mfc_type e = mfc_type d
    \<and> (\<forall>b < 256. was_read e b \<longleftrightarrow> b < n \<and> was_read d b)
    \<and> (\<forall>s < 40. \<forall>t. bit (key_mask t e) s \<longleftrightarrow> trailer_index s < n \<and> bit (key_mask t d) s)
    \<and> (\<forall>b < n. was_read d b \<longrightarrow> (if mf_classic_is_sector_trailer (of_nat b)
         then access_bits_of (mfc_block e ! b) = access_bits_of (mfc_block d ! b) else mfc_block e ! b = mfc_block d ! b))
    \<and> (\<forall>s < 40. \<forall>t. trailer_index s < n \<and> bit (key_mask t d) s
         \<longrightarrow> key_of t (mfc_block e ! trailer_index s) = key_of t (mfc_block d ! trailer_index s))"

lemma restored_step:
  assumes "strim_spec trim" "mfc_wf d" "restored d n e" "n < 256"
  shows "\<exists>e'. mf_classic_set_block_str trim d (of_nat n) \<bind> (\<lambda>str. mf_classic_parse_block trim str e (of_nat n)) = Some e'
    \<and> restored d (Suc n) e'"
proof -
  have u: "unat (of_nat n :: u8) = n" by (rule unat_of_nat_u8 [OF assms(4)])
  have wf: "mfc_wf e" using assms(3) by (simp add: restored_def)
  show ?thesis
  proof (cases "mf_classic_is_sector_trailer (of_nat n)")
    case True
    define s where "s = unat (mf_classic_get_sector_by_block (of_nat n))"
    have s: "s < 40" using sector_less_40 [of "of_nat n"] by (simp add: s_def less_40)
    have ti: "trailer_index s = n" using trailer_index_block [OF True] by (simp add: s_def u)
    have inj: "trailer_index x = n \<longleftrightarrow> x = s" if "x < 40" for x
      using trailer_index_sector [OF that] ti by (auto simp: s_def)
    let ?D = "restore_key MfClassicKeyTypeB d s n (restore_access d n (restore_key MfClassicKeyTypeA d s n e))"
    have run: "mf_classic_set_block_str trim d (of_nat n) \<bind> (\<lambda>str. mf_classic_parse_block trim str e (of_nat n)) = Some ?D"
      using parse_printed_trailer [OF assms(1,2) wf True] by (simp add: u s_def)
    note v = restore_trailer_view [OF assms(2) wf assms(4), of s]
    have "restored d (Suc n) ?D"
      unfolding restored_def
    proof (intro conjI allI impI)
      show "mfc_wf ?D" "mfc_type ?D = mfc_type d" using v(1,2) s assms(3) by (simp_all add: restored_def)
      show "was_read ?D b \<longleftrightarrow> b < Suc n \<and> was_read d b" if "b < 256" for b
        using v(3) [of b] that s assms(3) by (auto simp: restored_def less_Suc_eq)
      show "bit (key_mask t ?D) x \<longleftrightarrow> trailer_index x < Suc n \<and> bit (key_mask t d) x" if "x < 40" for x t
        using v(4) [of t x] that s assms(3) inj [OF that] by (auto simp: restored_def less_Suc_eq)
      show "if mf_classic_is_sector_trailer (of_nat b) then access_bits_of (mfc_block ?D ! b) = access_bits_of (mfc_block d ! b)
          else mfc_block ?D ! b = mfc_block d ! b" if "b < Suc n" "was_read d b" for b
        using v(5) [of b] v(6) that s assms(3) True by (cases "b = n") (auto simp: restored_def)
      show "key_of t (mfc_block ?D ! trailer_index x) = key_of t (mfc_block d ! trailer_index x)"
        if "x < 40" "trailer_index x < Suc n \<and> bit (key_mask t d) x" for x t
        using v(5) [of "trailer_index x"] v(7) [of t] that s assms(3) inj [OF that(1)] by (cases "x = s") (auto simp: restored_def less_Suc_eq ti)
    qed
    with run show ?thesis by blast
  next
    case False
    let ?D = "if was_read d n then mark_read n (update_block n (mfc_block d ! n) e) else e"
    have run: "mf_classic_set_block_str trim d (of_nat n) \<bind> (\<lambda>str. mf_classic_parse_block trim str e (of_nat n)) = Some ?D"
      using parse_printed_block [OF assms(1,2) wf False] by (simp add: u)
    have nt: "trailer_index x < Suc n \<longleftrightarrow> trailer_index x < n" if "x < 40" for x
      using trailer_index_sector [OF that] False by (auto simp: less_Suc_eq)
    have len: "length (mfc_block d ! n) = 16" "length (mfc_block e) = 256"
      using assms(2,4) wf by (auto simp: mfc_wf_def)
    have wfD: "mfc_wf ?D" using wf len by (auto simp: wf_update wf_marks)
    have view: "mfc_type ?D = mfc_type e" "was_read ?D b \<longleftrightarrow> was_read e b \<or> b = n \<and> was_read d n" "key_mask t ?D = key_mask t e"
      "b \<noteq> n \<Longrightarrow> mfc_block ?D ! b = mfc_block e ! b" "was_read d n \<Longrightarrow> mfc_block ?D ! n = mfc_block d ! n" for b t
      using wf len assms(4) by (auto simp: card_view wf_update)
    have "restored d (Suc n) ?D"
      unfolding restored_def
    proof (intro conjI allI impI)
      show "mfc_wf ?D" "mfc_type ?D = mfc_type d" using wfD view(1) assms(3) by (simp_all add: restored_def)
      show "was_read ?D b \<longleftrightarrow> b < Suc n \<and> was_read d b" if "b < 256" for b
        using view(2) [of b] that assms(3) by (auto simp: restored_def less_Suc_eq)
      show "bit (key_mask t ?D) x \<longleftrightarrow> trailer_index x < Suc n \<and> bit (key_mask t d) x" if "x < 40" for x t
        unfolding view(3) nt [OF that] using that assms(3) by (simp add: restored_def)
      show "if mf_classic_is_sector_trailer (of_nat b) then access_bits_of (mfc_block ?D ! b) = access_bits_of (mfc_block d ! b)
          else mfc_block ?D ! b = mfc_block d ! b" if "b < Suc n" "was_read d b" for b
        using view(4) [of b] view(5) that assms(3) False by (cases "b = n") (auto simp: restored_def)
      show "key_of t (mfc_block ?D ! trailer_index x) = key_of t (mfc_block d ! trailer_index x)"
        if "x < 40" "trailer_index x < Suc n \<and> bit (key_mask t d) x" for x t
        using view(4) [of "trailer_index x"] that assms(3) nt [OF that(1)] by (auto simp: restored_def)
    qed
    with run show ?thesis by blast
  qed
qed

lemma save_lines:
  assumes "mfc_wf d"
  shows "save_block_lines trim d = Some (map (\<lambda>i. the (mf_classic_set_block_str trim d (of_nat i))) [0..<unat (blocks_total (mfc_type d))])"
proof -
  have "for_loop (\<lambda>i lines. do { s \<leftarrow> mf_classic_set_block_str trim d (of_nat i); Some (lines @ [s]) }) 0 n xs
      = Some (xs @ map (\<lambda>i. the (mf_classic_set_block_str trim d (of_nat i))) [0..<n])" for n xs
    by (induction n) (simp_all add: for_loop_snoc set_block_str_spec [OF assms] del: for_loop.simps(2))
  then show ?thesis by (simp add: save_block_lines_def mf_classic_get_total_block_num_def)
qed

lemma blocks_total_le: "unat (blocks_total type) \<le> 256"
  by (cases type) simp_all

lemma load_saved:
  assumes "strim_spec trim" "mfc_wf d" "restored d 0 e"
  shows "\<exists>lines e'. save_block_lines trim d = Some lines \<and> load_block_lines trim False lines e = Some (e', True)
    \<and> restored d (unat (blocks_total (mfc_type d))) e'"
proof -
  define n where "n = unat (blocks_total (mfc_type d))"
  define lines where "lines = map (\<lambda>i. the (mf_classic_set_block_str trim d (of_nat i))) [0..<n]"
  have save: "save_block_lines trim d = Some lines" using save_lines [OF assms(2)] by (simp add: lines_def n_def)
  let ?body = "\<lambda>i (data, block_read).
        if \<not> block_read then Some (data, False)
        else if i < length lines then do {
          data \<leftarrow> mf_classic_parse_block trim (lines ! i) data (of_nat i);
          Some (data, True) }
        else Some (data, False)"
  define P where "P i st \<longleftrightarrow> (case st of (data, block_read) \<Rightarrow> block_read \<and> restored d i data)" for i st
  have "\<exists>st. for_loop ?body 0 n (e, True) = Some st \<and> P (0 + n) st"
  proof (rule for_loop_rule)
    show "P 0 (e, True)" using assms(3) by (simp add: P_def)
    fix i st assume i: "0 \<le> i" "i < 0 + n" and st: "P i st"
    then obtain f where f: "st = (f, True)" "restored d i f" by (cases st) (auto simp: P_def)
    have "i < 256" using i blocks_total_le [of "mfc_type d"] by (simp add: n_def)
    from restored_step [OF assms(1,2) f(2) this] obtain f' where
      "mf_classic_parse_block trim (lines ! i) f (of_nat i) = Some f'" "restored d (Suc i) f'"
      using i by (auto simp: lines_def set_block_str_spec [OF assms(2)])
    then show "\<exists>st'. ?body i st = Some st' \<and> P (Suc i) st'" using i by (simp add: f(1) lines_def P_def)
  qed
  then obtain e' where "for_loop ?body 0 n (e, True) = Some (e', True)" "restored d n e'" by (auto simp: P_def)
  moreover have "unat (mf_classic_get_total_block_num (mfc_type e)) = n"
    using assms(3) by (simp add: restored_def mf_classic_get_total_block_num_def n_def)
  ultimately show ?thesis using save unfolding load_block_lines_def n_def by auto
qed

end
