(* ===== verification/MfClassicCard.thy ===== *)
theory MfClassicCard
  imports MfClassicFile
begin

text \<open>
  Properties of the MIFARE Classic memory: the card counts as read when its sectors do, the access conditions
  as the data sheet of the card tabulates them (\<open>data_condition\<close>, \<open>trailer_condition\<close>), the shape of the
  memory and the layout, value blocks and the round trip through a file.
\<close>

section \<open>Reading the whole card\<close>

lemma blocks_read_loop_spec:
  assumes "mfc_wf d" "j + n \<le> 256"
  shows "blocks_read_loop d j n = Some (\<forall>b. j \<le> b \<and> b < j + n \<longrightarrow> was_read d b)"
  using assms(2)
proof (induction n arbitrary: j)
  case (Suc n)
  have u: "unat (of_nat j :: u8) = j" using Suc.prems by (intro unat_of_nat_u8) simp
  have "(\<forall>b. j \<le> b \<and> b < j + Suc n \<longrightarrow> was_read d b) \<longleftrightarrow> was_read d j \<and> (\<forall>b. Suc j \<le> b \<and> b < Suc j + n \<longrightarrow> was_read d b)"
    by (metis Suc_le_eq add_Suc_right add_Suc le_eq_less_or_eq le_add1 le_refl less_add_Suc1)
  with Suc.IH [of "Suc j"] Suc.prems show ?case
    by (simp add: is_block_read_spec [OF assms(1)] u was_read_def [symmetric])
qed auto

definition sector_read :: "MfClassicData \<Rightarrow> nat \<Rightarrow> bool" where
  "sector_read d s \<longleftrightarrow> (\<forall>b. sector_first s \<le> b \<and> b < sector_first s + sector_size s \<longrightarrow> was_read d b)"

lemma is_key_found_mask: "mf_classic_is_key_found d s t \<longleftrightarrow> bit (key_mask t d) (unat s)"
  by (simp add: is_key_found_spec key_mask_def)

lemma sector_blocks_read:
  assumes "mfc_wf d" "unat s < 40"
  obtains f n where "mf_classic_get_first_block_num_of_sector s = Some f" "mf_classic_get_blocks_num_in_sector s = Some n"
    "blocks_read_loop d (unat f) (unat n) = Some (sector_read d (unat s))"
proof -
  obtain f where f: "mf_classic_get_first_block_num_of_sector s = Some f" "unat f = sector_first (unat s)"
    using first_block [OF assms(2)] by blast
  obtain n where n: "mf_classic_get_blocks_num_in_sector s = Some n" "unat n = sector_size (unat s)"
    using blocks_num [OF assms(2)] by blast
  have "sector_first (unat s) + sector_size (unat s) \<le> 256" using assms(2) by (auto simp: sector_first_def sector_size_def)
  from blocks_read_loop_spec [OF assms(1) this] show ?thesis by (intro that [OF f(1) n(1)]) (simp add: f(2) n(2) sector_read_def)
qed

lemma is_sector_read_spec:
  assumes "mfc_wf d" "unat s < 40"
  shows "mf_classic_is_sector_read d s = Some (bit (key_mask MfClassicKeyTypeA d) (unat s)
    \<and> bit (key_mask MfClassicKeyTypeB d) (unat s) \<and> sector_read d (unat s))"
proof -
  obtain f n where "mf_classic_get_first_block_num_of_sector s = Some f" "mf_classic_get_blocks_num_in_sector s = Some n"
    "blocks_read_loop d (unat f) (unat n) = Some (sector_read d (unat s))" using sector_blocks_read [OF assms] by blast
  then show ?thesis by (simp add: mf_classic_is_sector_read_def is_key_found_mask)
qed

lemma sectors_total_le: "unat (sectors_total type) \<le> 40"
  by (cases type) simp_all

definition found_keys :: "MfClassicData \<Rightarrow> nat \<Rightarrow> nat" where
  "found_keys d s = of_bool (bit (key_mask MfClassicKeyTypeA d) s) + of_bool (bit (key_mask MfClassicKeyTypeB d) s)"

lemma read_sectors_and_keys_spec:
  assumes "mfc_wf d"
  defines "n \<equiv> unat (sectors_total (mfc_type d))"
  shows "mf_classic_get_read_sectors_and_keys d
    = Some (of_nat (\<Sum>s<n. of_bool (sector_read d s)), of_nat (\<Sum>s<n. found_keys d s))"
proof -
  let ?body = "\<lambda>i (sectors_read, keys_found). do {
        let keys_found = (if mf_classic_is_key_found d (of_nat i) MfClassicKeyTypeA then keys_found + 1 else keys_found);
        let keys_found = (if mf_classic_is_key_found d (of_nat i) MfClassicKeyTypeB then keys_found + 1 else keys_found);
        first_block \<leftarrow> mf_classic_get_first_block_num_of_sector (of_nat i);
        total_blocks_in_sec \<leftarrow> mf_classic_get_blocks_num_in_sector (of_nat i);
        blocks_read \<leftarrow> blocks_read_loop d (unat first_block) (unat total_blocks_in_sec);
        Some (if blocks_read then sectors_read + 1 else sectors_read, keys_found) }"
  define P where "P i st \<longleftrightarrow> st = (of_nat (\<Sum>s<i. of_bool (sector_read d s)) :: u8, of_nat (\<Sum>s<i. found_keys d s) :: u8)" for i st
  have "\<exists>st. for_loop ?body 0 n (0, 0) = Some st \<and> P (0 + n) st"
  proof (rule for_loop_rule)
    show "P 0 (0, 0)" by (simp add: P_def)
    fix i st assume i: "0 \<le> i" "i < 0 + n" and st: "P i st"
    have i40: "i < 40" using i sectors_total_le [of "mfc_type d"] by (simp add: n_def)
    then have u: "unat (of_nat i :: u8) = i" by (intro unat_of_nat_u8) simp
    obtain f m where f: "mf_classic_get_first_block_num_of_sector (of_nat i) = Some f" "mf_classic_get_blocks_num_in_sector (of_nat i) = Some m"
      "blocks_read_loop d (unat f) (unat m) = Some (sector_read d i)"
      using sector_blocks_read [OF assms(1), of "of_nat i"] i40 unfolding u by metis
    show "\<exists>st'. ?body i st = Some st' \<and> P (Suc i) st'"
      using st unfolding P_def by (simp add: f is_key_found_mask u found_keys_def algebra_simps)
  qed
  then show ?thesis by (simp add: mf_classic_get_read_sectors_and_keys_def mf_classic_get_total_sectors_num_def P_def flip: n_def)
qed

lemma sum_full_iff: "(\<And>s. s < n \<Longrightarrow> f s \<le> k) \<Longrightarrow> (\<Sum>s<n. f s) = n * k \<longleftrightarrow> (\<forall>s < (n :: nat). f s = (k :: nat))"
proof (induction n)
  case (Suc n)
  have "(\<Sum>s<n. f s) \<le> n * k" using Suc.prems by (metis sum_bounded_above card_lessThan lessThan_iff less_Suc_eq of_nat_id)
  moreover have "f n \<le> k" using Suc.prems by simp
  ultimately have "(\<Sum>s<Suc n. f s) = Suc n * k \<longleftrightarrow> (\<Sum>s<n. f s) = n * k \<and> f n = k" by auto
  also have "\<dots> \<longleftrightarrow> (\<forall>s < Suc n. f s = k)" using Suc by (auto simp: less_Suc_eq)
  finally show ?case .
qed simp

lemma all_less_u8: "n \<le> 256 \<Longrightarrow> (\<forall>s < n. Q s) \<longleftrightarrow> (\<forall>s :: u8. unat s < n \<longrightarrow> Q (unat s))"
proof (intro iffI allI impI)
  fix s assume n: "n \<le> 256" and h: "\<forall>s :: u8. unat s < n \<longrightarrow> Q (unat s)" and s: "s < n"
  then have "unat (of_nat s :: u8) = s" by (intro unat_of_nat_u8) simp
  with h s show "Q s" by metis
qed simp

lemma is_card_read_spec:
  assumes "mfc_wf d"
  shows "mf_classic_is_card_read d
    = Some (\<forall>s. s < sectors_total (mfc_type d) \<longrightarrow> mf_classic_is_sector_read d s = Some True)"
proof -
  define n where "n = unat (sectors_total (mfc_type d))"
  have n: "n \<le> 40" using sectors_total_le [of "mfc_type d"] by (simp add: n_def)
  define r k where "r = (\<Sum>s<n. of_bool (sector_read d s) :: nat)" and "k = (\<Sum>s<n. found_keys d s)"
  have fk: "found_keys d s \<le> 2" for s by (simp add: found_keys_def)
  have "r \<le> n * 1" "k \<le> n * 2"
    using sum_bounded_above [of "{..<n}" "\<lambda>s. of_bool (sector_read d s)" "1 :: nat"]
      sum_bounded_above [of "{..<n}" "found_keys d" 2] fk by (simp_all add: r_def k_def)
  then have "unat (of_nat r :: u8) = r" "unat (of_nat k :: u8) = k" using n by (auto intro: unat_of_nat_u8)
  moreover have "mf_classic_get_read_sectors_and_keys d = Some (of_nat r, of_nat k)"
    unfolding read_sectors_and_keys_spec [OF assms] r_def k_def n_def ..
  ultimately have "mf_classic_is_card_read d = Some (r = n * 1 \<and> k = n * 2)"
    by (simp add: mf_classic_is_card_read_def mf_classic_get_total_sectors_num_def word_unat_eq_iff n_def Let_def)
  also have "\<dots> = Some (\<forall>s < n. sector_read d s \<and> found_keys d s = 2)"
    using sum_full_iff [of n "\<lambda>s. of_bool (sector_read d s)" 1] sum_full_iff [of n "found_keys d" 2] fk
    unfolding r_def k_def by (auto simp del: sum_of_bool_eq)
  also have "\<dots> = Some (\<forall>s. s < sectors_total (mfc_type d) \<longrightarrow> mf_classic_is_sector_read d s = Some True)"
  proof -
    have "mf_classic_is_sector_read d s = Some (sector_read d (unat s) \<and> found_keys d (unat s) = 2)" if "unat s < n" for s
      using is_sector_read_spec [OF assms, of s] that n by (auto simp: found_keys_def of_bool_def)
    moreover have "(\<forall>s < n. sector_read d s \<and> found_keys d s = 2)
        \<longleftrightarrow> (\<forall>s :: u8. unat s < n \<longrightarrow> sector_read d (unat s) \<and> found_keys d (unat s) = 2)"
      by (rule all_less_u8) (use n in simp)
    ultimately show ?thesis unfolding word_less_nat_alt n_def by simp
  qed
  finally show ?thesis .
qed

section \<open>The access conditions\<close>

text \<open>
  The three condition bits of a block, C1 C2 C3, as the trailer stores them (the bits of group \<open>g\<close> in
  the second and third access byte), and the tables of the card's data sheet.
\<close>

definition condition_bits :: "MfClassicBlock \<Rightarrow> nat \<Rightarrow> bool \<times> bool \<times> bool" where
  "condition_bits sec_tr g = (bit (sec_tr ! 7) (4 + g), bit (sec_tr ! 8) g, bit (sec_tr ! 8) (4 + g))"

fun data_condition :: "bool \<times> bool \<times> bool \<Rightarrow> MfClassicAction \<Rightarrow> MfClassicKeyType set" where
  "data_condition c MfClassicActionDataRead =
     (if c \<in> {(False, False, False), (False, True, False), (True, False, False), (True, True, False), (False, False, True)}
      then {MfClassicKeyTypeA, MfClassicKeyTypeB}
      else if c \<in> {(False, True, True), (True, False, True)} then {MfClassicKeyTypeB} else {})"
| "data_condition c MfClassicActionDataWrite =
     (if c = (False, False, False) then {MfClassicKeyTypeA, MfClassicKeyTypeB}
      else if c \<in> {(True, False, False), (True, True, False), (False, True, True)} then {MfClassicKeyTypeB} else {})"
| "data_condition c MfClassicActionDataInc =
     (if c = (False, False, False) then {MfClassicKeyTypeA, MfClassicKeyTypeB}
      else if c = (True, True, False) then {MfClassicKeyTypeB} else {})"
| "data_condition c MfClassicActionDataDec =
     (if c \<in> {(False, False, False), (True, True, False), (False, False, True)}
      then {MfClassicKeyTypeA, MfClassicKeyTypeB} else {})"
| "data_condition c _ = {}"

text \<open>Key B, where it may be read, is data and opens nothing on a card; the code lets it act as key A then.\<close>

fun trailer_condition :: "bool \<times> bool \<times> bool \<Rightarrow> MfClassicAction \<Rightarrow> MfClassicKeyType set" where
  "trailer_condition c MfClassicActionKeyARead = {}"
| "trailer_condition c MfClassicActionKeyAWrite =
     (if c \<in> {(False, False, False), (False, False, True)} then {MfClassicKeyTypeA, MfClassicKeyTypeB}
      else if c \<in> {(True, False, False), (False, True, True)} then {MfClassicKeyTypeB} else {})"
| "trailer_condition c MfClassicActionKeyBWrite =
     (if c \<in> {(False, False, False), (False, False, True)} then {MfClassicKeyTypeA, MfClassicKeyTypeB}
      else if c \<in> {(True, False, False), (False, True, True)} then {MfClassicKeyTypeB} else {})"
| "trailer_condition c MfClassicActionKeyBRead =
     (if c \<in> {(False, False, False), (False, True, False), (False, False, True)} then {MfClassicKeyTypeA, MfClassicKeyTypeB} else {})"
| "trailer_condition c MfClassicActionACRead = {MfClassicKeyTypeA, MfClassicKeyTypeB}"
| "trailer_condition c MfClassicActionACWrite =
     (if c = (False, False, True) then {MfClassicKeyTypeA, MfClassicKeyTypeB}
      else if c \<in> {(False, True, True), (True, False, True)} then {MfClassicKeyTypeB} else {})"
| "trailer_condition c _ = {}"

definition block_group :: "nat \<Rightarrow> nat" where
  "block_group b = (if b < 128 then b mod 4 else b mod 16 div 5)"

definition card_permits :: "MfClassicData \<Rightarrow> u8 \<Rightarrow> MfClassicKeyType \<Rightarrow> MfClassicAction \<Rightarrow> bool" where
  "card_permits d b t action \<longleftrightarrow>
     (let c = condition_bits (mfc_block d ! unat (mf_classic_get_sector_trailer_num_by_block b)) (block_group (unat b)) in
      if mf_classic_is_sector_trailer b then t \<in> trailer_condition c action
      else t \<in> data_condition c action \<and> \<not> (b = 0 \<and> action = MfClassicActionDataWrite))"

text \<open>Three bits picked out of the access bytes make the number that the code compares.\<close>

lemma picked_bit: "j < 8 \<Longrightarrow> (x :: u8) AND 2 ^ j = (if bit x j then 2 ^ j else 0)"
  by (rule bit_word_eqI) (auto simp: bit_and_iff bit_exp_iff)

lemma picked_bits:
  fixes x y z :: u8
  shows "(x AND 4) OR (y AND 2) OR (z AND 1) = 4 * of_bool (bit x 2) + 2 * of_bool (bit y 1) + of_bool (bit z 0)"
  using picked_bit [of 2 x] picked_bit [of 1 y] picked_bit [of 0 z] by simp

definition condition_number :: "bool \<times> bool \<times> bool \<Rightarrow> u8" where
  "condition_number c = (case c of (c1, c2, c3) \<Rightarrow> 4 * of_bool c1 + 2 * of_bool c2 + of_bool c3)"

lemma rd_access_bits: "length t = 16 \<Longrightarrow> rd (access_bits_of t) (Suc 0) = Some (t ! 7)" "length t = 16 \<Longrightarrow> rd (access_bits_of t) 2 = Some (t ! 8)"
  by (simp_all add: access_bits_of_def mem_simps)

lemma trailer_access_spec:
  assumes "length t = 16" "mf_classic_get_sector_trailer_by_sector d (mf_classic_get_sector_by_block b) = Some t"
  shows "mf_classic_is_allowed_access_sector_trailer d b kt action = Some (kt \<in> trailer_condition (condition_bits t 3) action)"
proof -
  obtain c1 c2 c3 where c: "condition_bits t 3 = (c1, c2, c3)" by (metis prod_cases3)
  have n: "(drop_bit 5 (t ! 7) AND 4) OR (drop_bit 2 (t ! 8) AND 2) OR (drop_bit 7 (t ! 8) AND 1)
      = condition_number (c1, c2, c3)"
    unfolding picked_bits using c by (simp add: condition_number_def condition_bits_def bit_drop_bit_eq)
  show ?thesis
    unfolding mf_classic_is_allowed_access_sector_trailer_def assms(2)
    by (simp add: rd_access_bits [OF assms(1)] n c)
      (cases action; cases kt; cases c1; cases c2; cases c3; simp add: condition_number_def)
qed

lemma unat_and_low: "unat (b AND 3 :: u8) = unat b mod 4" "unat (b AND 15 :: u8) = unat b mod 16"
proof -
  have "b AND 3 = take_bit 2 b" "b AND 15 = take_bit 4 b" by (simp_all add: take_bit_eq_mask mask_eq_exp_minus_1)
  then show "unat (b AND 3 :: u8) = unat b mod 4" "unat (b AND 15 :: u8) = unat b mod 16"
    by (simp_all add: unat_mod take_bit_eq_mod)
qed

lemma sector_block_group:
  "unat (if b \<le> 128 then b AND 3 else (b AND 15) div 5 :: u8) = block_group (unat b)"
proof (cases "b \<le> 128")
  case True
  then have "unat b \<le> 128" by (simp add: word_le_nat_alt)
  then show ?thesis using True by (cases "unat b = 128") (auto simp: unat_and_low block_group_def)
next
  case False
  then have "\<not> unat b < 128" by (simp add: word_le_nat_alt)
  with False show ?thesis by (simp add: unat_div unat_and_low block_group_def)
qed

lemma data_access_spec:
  assumes "length t = 16" "block_group (unat b) < 3"
  shows "mf_classic_is_allowed_access_data_block t b kt action
    = Some (kt \<in> data_condition (condition_bits t (block_group (unat b))) action \<and> \<not> (b = 0 \<and> action = MfClassicActionDataWrite))"
proof (cases "b = 0 \<and> action = MfClassicActionDataWrite")
  case True
  then show ?thesis by (simp add: mf_classic_is_allowed_access_data_block_def)
next
  case False
  define g where "g = block_group (unat b)"
  obtain c1 c2 c3 where c: "condition_bits t g = (c1, c2, c3)" by (metis prod_cases3)
  have s: "(if b \<le> 128 then b AND 3 else (b AND 15) div 5) = (of_nat g :: u8)"
    using sector_block_group [of b] unat_of_nat_u8 [of g] assms(2) by (simp add: word_unat_eq_iff g_def)
  define AC where "AC = condition_number (c1, c2, c3)"
  have n: "g = 0 \<Longrightarrow> (drop_bit 2 (t ! 7) AND 4) OR (push_bit 1 (t ! 8) AND 2) OR (drop_bit 4 (t ! 8) AND 1) = AC"
    "g = 1 \<Longrightarrow> (drop_bit 3 (t ! 7) AND 4) OR (t ! 8 AND 2) OR (drop_bit 5 (t ! 8) AND 1) = AC"
    "g = 2 \<Longrightarrow> (drop_bit 4 (t ! 7) AND 4) OR (drop_bit 1 (t ! 8) AND 2) OR (drop_bit 6 (t ! 8) AND 1) = AC"
    unfolding picked_bits AC_def using c
    by (simp_all add: condition_number_def condition_bits_def bit_drop_bit_eq bit_word_times_2 flip: numeral_2_eq_2)
  have "mf_classic_is_allowed_access_data_block t b kt action = Some (case action of
                 MfClassicActionDataRead \<Rightarrow> (kt = MfClassicKeyTypeA \<and> \<not> (AC = 3 \<or> AC = 5 \<or> AC = 7))
                   \<or> (kt = MfClassicKeyTypeB \<and> \<not> AC = 7)
               | MfClassicActionDataWrite \<Rightarrow> (kt = MfClassicKeyTypeA \<and> AC = 0)
                   \<or> (kt = MfClassicKeyTypeB \<and> (AC = 0 \<or> AC = 4 \<or> AC = 6 \<or> AC = 3))
               | MfClassicActionDataInc \<Rightarrow> (kt = MfClassicKeyTypeA \<and> AC = 0)
                   \<or> (kt = MfClassicKeyTypeB \<and> (AC = 0 \<or> AC = 6))
               | MfClassicActionDataDec \<Rightarrow> (kt = MfClassicKeyTypeA \<and> (AC = 0 \<or> AC = 6 \<or> AC = 1))
                   \<or> (kt = MfClassicKeyTypeB \<and> (AC = 0 \<or> AC = 6 \<or> AC = 1))
               | _ \<Rightarrow> False)" (is "_ = Some ?r")
  proof -
    have F: "(if b = 0 \<and> action = MfClassicActionDataWrite then x else y) = y" for x y :: "bool option" by (rule if_not_P [OF False])
    consider "g = 0" | "g = 1" | "g = 2" using assms(2) g_def by linarith
    moreover have "rd (access_bits_of t) 1 = Some (t ! 7)" using rd_access_bits(1) [OF assms(1)] by simp
    ultimately show ?thesis
      unfolding mf_classic_is_allowed_access_data_block_def Let_def F s
      by cases (cases action; simp add: rd_access_bits(2) [OF assms(1)] n del: push_bit_Suc One_nat_def)+
  qed
  then show ?thesis
    using False c unfolding g_def [symmetric] AC_def
    by (cases action; cases kt; cases c1; cases c2; cases c3; simp add: condition_number_def)
qed

lemma last_of_group: "(x :: nat) = 4 * (x div 4) + 3 \<longleftrightarrow> x mod 4 = 3" "(x :: nat) = 16 * (x div 16) + 15 \<longleftrightarrow> x mod 16 div 5 = 3"
  "x mod 16 div 5 \<le> 3"
proof -
  have "(r :: nat) < 16 \<Longrightarrow> (r div 5 = 3 \<longleftrightarrow> r = 15) \<and> r div 5 \<le> 3" for r unfolding less_16_cases by auto
  from this [of "x mod 16"] have r: "x mod 16 div 5 = 3 \<longleftrightarrow> x mod 16 = 15" "x mod 16 div 5 \<le> 3" by simp_all
  show "x mod 16 div 5 \<le> 3" by (rule r(2))
  show "x = 4 * (x div 4) + 3 \<longleftrightarrow> x mod 4 = 3" "x = 16 * (x div 16) + 15 \<longleftrightarrow> x mod 16 div 5 = 3"
    unfolding r(1) using mult_div_mod_eq [of 4 x] mult_div_mod_eq [of 16 x] by linarith+
qed

lemma is_trailer_group: "mf_classic_is_sector_trailer b \<longleftrightarrow> block_group (unat b) = 3"
  by (simp add: mf_classic_is_sector_trailer_def word_unat_eq_iff unat_trailer block_group_def last_of_group)

lemma block_group_less: "\<not> mf_classic_is_sector_trailer b \<Longrightarrow> block_group (unat b) < 3"
proof -
  have "block_group (unat b) \<le> 3" using last_of_group(3) [of "unat b"] mod_less_divisor [of 4 "unat b"]
    by (auto simp: block_group_def simp del: mod_less_divisor)
  then show "\<not> mf_classic_is_sector_trailer b \<Longrightarrow> ?thesis" by (simp add: is_trailer_group)
qed

lemma block_group_trailer: "mf_classic_is_sector_trailer b \<Longrightarrow> block_group (unat b) = 3"
  by (simp add: is_trailer_group)

lemma is_allowed_access_spec:
  assumes "mfc_wf d"
  shows "mf_classic_is_allowed_access d b kt action = Some (card_permits d b kt action)"
proof -
  define t where "t = mfc_block d ! unat (mf_classic_get_sector_trailer_num_by_block b)"
  have "mf_classic_get_sector_trailer_by_sector d (mf_classic_get_sector_by_block b) = Some t"
    by (simp add: mf_classic_get_sector_trailer_by_sector_def trailer_of_sector wf_block [OF assms] t_def)
  moreover have "length t = 16" unfolding t_def by (rule wf_block(2) [OF assms])
  ultimately show ?thesis
    using trailer_access_spec [of t d b kt action] data_access_spec [of t b kt action] block_group_less [of b] block_group_trailer [of b]
    by (auto simp: mf_classic_is_allowed_access_def card_permits_def Let_def simp flip: t_def)
qed

lemma parse_block_bytes_total:
  assumes "47 \<le> length str"
  shows "\<exists>blk m. parse_block_bytes str = Some (blk, m) \<and> length blk = 16"
proof -
  have "\<exists>st. parse_block_bytes str = Some st \<and> length (fst st) = 16"
    unfolding parse_block_bytes_def MF_CLASSIC_BLOCK_SIZE_def
  proof (rule for_loop_rule [where P = "\<lambda>i st. length (fst st) = 16" and i = 0 and n = 16])
    fix i and st :: "u8 list \<times> u16" assume i: "i < 0 + (16 :: nat)" and l: "length (fst st) = 16"
    obtain blk m where st: "st = (blk, m)" by fastforce
    have "rd str (3 * i) = Some (str ! (3 * i))" "rd str (3 * i + 1) = Some (str ! (3 * i + 1))"
      using i assms by (simp_all add: mem_simps)
    then show "\<exists>s'. (case st of (block_tmp, unknown_mask) \<Rightarrow> do {
        hi \<leftarrow> rd str (3 * i);
        low \<leftarrow> rd str (3 * i + 1);
        (case hex_char_to_uint8 hi low of
           None \<Rightarrow> Some (block_tmp, FURI_BIT_SET unknown_mask i)
         | Some byte \<Rightarrow> do { block_tmp \<leftarrow> wr block_tmp i byte; Some (block_tmp, unknown_mask) }) }) = Some s' \<and> length (fst s') = 16"
      using i l by (auto simp: st mem_simps split: option.split)
  qed simp
  then show ?thesis by fastforce
qed

lemma set_uid_wf:
  assumes wf: "mfc_wf d" and len: "uid_len \<le> length uid"
  shows "\<exists>d' v. mf_classic_set_uid d uid uid_len = Some (d', v) \<and> mfc_wf d'"
proof -
  let ?iso = "mfc_iso14443_3a_data d"
  have u: "length (iso_uid ?iso) = 10" and b: "0 < length (mfc_block d)" "length (mfc_block d ! 0) = 16"
    using wf by (auto simp: mfc_wf_def)
  show ?thesis
  proof (cases "uid_len \<in> {4, 7, 10}")
    case False
    then show ?thesis using wf
      by (simp add: mf_classic_set_uid_def iso14443_3a_set_uid_def ISO14443_3A_UID_4_BYTES_def ISO14443_3A_UID_7_BYTES_def
          ISO14443_3A_UID_10_BYTES_def Let_def ex_bool_eq)
  next
    case True
    define iu where "iu = take uid_len uid @ drop uid_len (iso_uid ?iso)"
    have iu: "memcpy (iso_uid ?iso) 0 uid 0 uid_len = Some iu" "length iu = 10"
      using True len u by (auto simp: memcpy_Some iu_def)
    define blk where "blk = take uid_len iu @ drop uid_len (mfc_block d ! 0)"
    have blk: "memcpy (mfc_block d ! 0) 0 iu 0 uid_len = Some blk" "length blk = 16"
      using True iu(2) b(2) by (auto simp: memcpy_Some blk_def)
    have "\<exists>x. (if uid_len = 4 then do {
            blk \<leftarrow> wr blk uid_len 0;
            for_loop (\<lambda>i blk. do { c \<leftarrow> rd blk uid_len; x \<leftarrow> rd blk i; wr blk uid_len (c XOR x) }) 0 uid_len blk }
          else Some blk) = Some x \<and> length x = 16"
      using blk(2) by (simp add: mem_simps for_loop_numeral)
    then obtain x where "(if uid_len = 4 then do {
            blk \<leftarrow> wr blk uid_len 0;
            for_loop (\<lambda>i blk. do { c \<leftarrow> rd blk uid_len; x \<leftarrow> rd blk i; wr blk uid_len (c XOR x) }) 0 uid_len blk }
          else Some blk) = Some x" "length x = 16" by blast
    moreover have "mfc_wf (d\<lparr>mfc_iso14443_3a_data := ?iso\<lparr>iso_uid := iu, iso_uid_len := of_nat uid_len\<rparr>\<rparr>)"
      using wf iu(2) by (simp add: mfc_wf_def)
    ultimately show ?thesis
      using True iu(1) blk(1) b wf_set_block [of "d\<lparr>mfc_iso14443_3a_data := ?iso\<lparr>iso_uid := iu, iso_uid_len := of_nat uid_len\<rparr>\<rparr>" x 0]
      by (simp add: mf_classic_set_uid_def iso14443_3a_set_uid_def ISO14443_3A_UID_4_BYTES_def ISO14443_3A_UID_7_BYTES_def
          ISO14443_3A_UID_10_BYTES_def Let_def mem_simps ex_bool_eq)
  qed
qed

lemma parse_block_wf:
  assumes "mfc_wf d" "47 \<le> length (trim (trim str))"
  shows "\<exists>d'. mf_classic_parse_block trim str d b = Some d' \<and> mfc_wf d'"
proof -
  obtain blk m where p: "parse_block_bytes (trim (trim str)) = Some (blk, m)" "length blk = 16"
    using parse_block_bytes_total [OF assms(2)] by blast
  have s40: "unat (mf_classic_get_sector_by_block b) < 40" using sector_less_40 [of b] by (simp add: less_40)
  have K: "\<exists>n. bit_lib_bytes_to_num_be k MF_CLASSIC_KEY_SIZE = Some n
      \<and> (\<forall>e t. mfc_wf e \<longrightarrow> (\<exists>e'. mf_classic_set_key_found e (mf_classic_get_sector_by_block b) t n = Some e' \<and> mfc_wf e'))"
    if "length k = 6" for k
  proof -
    obtain n where n: "bit_lib_bytes_to_num_be k MF_CLASSIC_KEY_SIZE = Some n"
      using key_bytes_of [OF \<open>length k = 6\<close>] by (auto simp: map_option_case split: option.splits)
    have "\<exists>e'. mf_classic_set_key_found e (mf_classic_get_sector_by_block b) t n = Some e' \<and> mfc_wf e'" if "mfc_wf e" for e t
      using set_key_found_spec [OF that s40] sector_trailer_spec(2) [OF that s40] that by (simp add: wf_marks wf_update)
    with n show ?thesis by blast
  qed
  have R: "\<exists>e'. mf_classic_set_block_read e b blk = Some e' \<and> mfc_wf e'" if "mfc_wf e" for e
    using set_block_read_spec [OF that p(2), of b] wf_block(2) [OF that, of b] that p(2)
    by (simp add: wf_marks wf_update length_trailer_parts)
  obtain ka where ka: "bit_lib_bytes_to_num_be (key_a_of blk) MF_CLASSIC_KEY_SIZE = Some ka"
    "\<And>e t. mfc_wf e \<Longrightarrow> \<exists>e'. mf_classic_set_key_found e (mf_classic_get_sector_by_block b) t ka = Some e' \<and> mfc_wf e'"
    using K [of "key_a_of blk"] p(2) by (auto simp: length_trailer_parts)
  obtain kb where kb: "bit_lib_bytes_to_num_be (key_b_of blk) MF_CLASSIC_KEY_SIZE = Some kb"
    "\<And>e t. mfc_wf e \<Longrightarrow> \<exists>e'. mf_classic_set_key_found e (mf_classic_get_sector_by_block b) t kb = Some e' \<and> mfc_wf e'"
    using K [of "key_b_of blk"] p(2) by (auto simp: length_trailer_parts)
  obtain d1 where d1: "(if m AND 0x003f = 0 then do {
              key \<leftarrow> bit_lib_bytes_to_num_be (key_a_of blk) MF_CLASSIC_KEY_SIZE;
              mf_classic_set_key_found d (mf_classic_get_sector_by_block b) MfClassicKeyTypeA key } else Some d) = Some d1" "mfc_wf d1"
    using ka(1) ka(2) [OF assms(1)] assms(1) by (cases "m AND 0x003f = 0") auto
  obtain d2 where d2: "(if m AND 0x03c0 = 0 then mf_classic_set_block_read d1 b blk else Some d1) = Some d2" "mfc_wf d2"
    using R [OF d1(2)] d1(2) by (cases "m AND 0x03c0 = 0") auto
  obtain d3 where d3: "(if m AND 0xfc00 = 0 then do {
              key \<leftarrow> bit_lib_bytes_to_num_be (key_b_of blk) MF_CLASSIC_KEY_SIZE;
              mf_classic_set_key_found d2 (mf_classic_get_sector_by_block b) MfClassicKeyTypeB key } else Some d2) = Some d3" "mfc_wf d3"
    using kb(1) kb(2) [OF d2(2)] d2(2) by (cases "m AND 0xfc00 = 0") auto
  show ?thesis
    unfolding mf_classic_parse_block_def Let_def p(1) bind.bind_lunit prod.case d1(1) d2(1) d3(1)
    using d3(2) assms(1) R [OF assms(1)] by auto
qed

section \<open>Properties\<close>

text \<open>The memory keeps its shape: the card made by \<open>mf_classic_alloc\<close> has 256 blocks of 16 bytes, and
  resetting, copying, setting the UID, recording keys and blocks and parsing a line of a file never fail
  on such a card (given a sector that exists, a whole block, a line with sixteen bytes) and leave it in that shape.\<close>

theorem mf_classic_keeps_shape:
  "mfc_wf mf_classic_alloc \<and> (\<forall>d e. mfc_wf d \<and> mfc_wf e \<longrightarrow>
     mfc_wf (mf_classic_reset d) \<and> mfc_wf (mf_classic_copy d e)
     \<and> (\<forall>uid uid_len. uid_len \<le> length uid \<longrightarrow> (\<exists>d' v. mf_classic_set_uid d uid uid_len = Some (d', v) \<and> mfc_wf d'))
     \<and> (\<forall>s t key. s < 40 \<longrightarrow> (\<exists>d'. mf_classic_set_key_found d s t key = Some d' \<and> mfc_wf d'))
     \<and> (\<forall>s t. mfc_wf (mf_classic_set_key_not_found d s t))
     \<and> (\<forall>b blk. length blk = 16 \<longrightarrow> (\<exists>d'. mf_classic_set_block_read d b blk = Some d' \<and> mfc_wf d'))
     \<and> (\<forall>trim str b. 47 \<le> length (trim (trim str)) \<longrightarrow> (\<exists>d'. mf_classic_parse_block trim str d b = Some d' \<and> mfc_wf d')))"
proof (intro conjI allI impI; (elim conjE)?)
  show "mfc_wf mf_classic_alloc"
    by (simp add: mfc_wf_def mf_classic_alloc_def MF_CLASSIC_TOTAL_BLOCKS_MAX_def MF_CLASSIC_BLOCK_SIZE_def
        MF_CLASSIC_READ_MASK_SIZE_def iso14443_3a_alloc_def)
  fix d e assume wf: "mfc_wf d" "mfc_wf e"
  show "mfc_wf (mf_classic_reset d)" "mfc_wf (mf_classic_copy d e)"
    using wf by (simp_all add: mfc_wf_def mf_classic_reset_def mf_classic_copy_def iso14443_3a_reset_def iso14443_3a_copy_def)
  show "\<exists>d' v. mf_classic_set_uid d uid uid_len = Some (d', v) \<and> mfc_wf d'" if "uid_len \<le> length uid" for uid uid_len
    by (rule set_uid_wf [OF wf(1) that])
  show "\<exists>d'. mf_classic_set_key_found d s t key = Some d' \<and> mfc_wf d'" if "s < 40" for s t key
    using that set_key_found_spec [OF wf(1)] sector_trailer_spec(2) [OF wf(1)] wf(1) by (simp add: wf_marks wf_update less_40)
  show "mfc_wf (mf_classic_set_key_not_found d s t)" for s t
    using wf(1) by (cases t) (simp_all add: mf_classic_set_key_not_found_def mfc_wf_def)
  show "\<exists>d'. mf_classic_set_block_read d b blk = Some d' \<and> mfc_wf d'" if "length blk = 16" for b blk
    using set_block_read_spec [OF wf(1) that, of b] wf_block(2) [OF wf(1), of b] wf(1) that
    by (simp add: wf_marks wf_update length_trailer_parts)
  show "\<exists>d'. mf_classic_parse_block trim str d b = Some d' \<and> mfc_wf d'" if "47 \<le> length (trim (trim str))" for trim str b
    by (rule parse_block_wf [where trim = trim and str = str, OF wf(1) that])
qed

text \<open>
  What a change of the memory shows: how it changes which keys count as found, which blocks count as read, and
  every byte of every block.
\<close>

definition changes :: "MfClassicData \<Rightarrow> MfClassicData \<Rightarrow> (u8 \<Rightarrow> MfClassicKeyType \<Rightarrow> bool \<Rightarrow> bool) \<Rightarrow> (u8 \<Rightarrow> bool \<Rightarrow> bool)
    \<Rightarrow> (u8 \<Rightarrow> nat \<Rightarrow> u8 \<Rightarrow> u8) \<Rightarrow> bool" where
  "changes d d' keys blocks bytes \<longleftrightarrow> mfc_wf d'
     \<and> (\<forall>s t. mf_classic_is_key_found d' s t \<longleftrightarrow> keys s t (mf_classic_is_key_found d s t))
     \<and> (\<forall>b. mf_classic_is_block_read d' b = map_option (blocks b) (mf_classic_is_block_read d b))
     \<and> (\<forall>b j. j < 16 \<longrightarrow> mfc_block d' ! unat b ! j = bytes b j (mfc_block d ! unat b ! j))"

definition key_start :: "MfClassicKeyType \<Rightarrow> nat" where
  "key_start t = (case t of MfClassicKeyTypeA \<Rightarrow> 0 | MfClassicKeyTypeB \<Rightarrow> 10)"

lemma bit_FURI_BIT_CLEAR: "n < LENGTH('a) \<Longrightarrow> bit (FURI_BIT_CLEAR (x :: 'a::len word) n) k \<longleftrightarrow> bit x k \<and> k \<noteq> n"
  by (cases "k < LENGTH('a)") (auto simp: FURI_BIT_CLEAR_def bit_simps dest: bit_imp_le_length)

lemma nth_key_bytes: "i < 6 \<Longrightarrow> key_bytes key ! i = ucast (drop_bit (8 * (5 - i)) key)"
  using nth_upt [of 0 "5 - i" 6] by (simp add: key_bytes_def rev_nth le_bytes_def del: upt_Suc)

lemma nth_with_key:
  assumes "length x = 16" "j < 16"
  shows "with_key t (key_bytes key) x ! j
    = (if key_start t \<le> j \<and> j < key_start t + 6 then ucast (drop_bit (8 * (5 - (j - key_start t))) key) else x ! j)"
  using assms by (cases t) (auto simp: key_start_def nth_append nth_key_bytes)

lemma set_key_found_changes:
  assumes "mfc_wf d" "s < 40" "mf_classic_set_key_found d s t key = Some d'"
  shows "changes d d' (\<lambda>s' t' f. f \<or> s' = s \<and> t' = t) (\<lambda>_ r. r)
     (\<lambda>b j x. if mf_classic_get_sector_trailer_num_by_sector s = Some b \<and> key_start t \<le> j \<and> j < key_start t + 6
        then ucast (drop_bit (8 * (5 - (j - key_start t))) key) else x)"
proof -
  have s: "unat s < 40" using assms(2) by (simp add: less_40)
  obtain b where b: "mf_classic_get_sector_trailer_num_by_sector s = Some b" "unat b = trailer_index (unat s)"
    using trailer_by_sector_index [OF s] by blast
  have l: "length (mfc_block d ! unat b) = 16" "unat b < length (mfc_block d)" using wf_block [OF assms(1)] by simp_all
  have d': "d' = set_mask t (unat s) (update_block (unat b) (with_key t (key_bytes key) (mfc_block d ! unat b)) d)"
    using set_key_found_spec [OF assms(1) s, of t key] assms(3) b(2) by simp
  have "mfc_wf d'" unfolding d' using assms(1) l(1) by (intro wf_marks wf_update) simp_all
  moreover have "mf_classic_is_key_found d' s' t' \<longleftrightarrow> mf_classic_is_key_found d s' t' \<or> s' = s \<and> t' = t" for s' t'
    unfolding d' by (cases t; cases t') (auto simp: is_key_found_spec update_block_def bit_FURI_BIT_SET order_less_trans [OF s] set_mask.simps word_unat_eq_iff)
  moreover have "mf_classic_is_block_read d' b' = mf_classic_is_block_read d b'" for b'
    unfolding d' by (cases t) (simp_all add: mf_classic_is_block_read_def update_block_def set_mask.simps)
  moreover have "mfc_block d' = (mfc_block d)[unat b := with_key t (key_bytes key) (mfc_block d ! unat b)]"
    unfolding d' by (cases t) (simp_all add: update_block_def set_mask.simps)
  ultimately show ?thesis
    using l by (auto simp: changes_def b(1) nth_list_update nth_with_key map_option.id [unfolded id_def] word_unat_eq_iff)
qed

lemma set_block_read_changes:
  assumes "mfc_wf d" "length blk = 16" "mf_classic_set_block_read d b blk = Some d'"
  shows "changes d d' (\<lambda>_ _ f. f) (\<lambda>b' r. r \<or> b' = b)
     (\<lambda>b' j x. if b' = b \<and> (mf_classic_is_sector_trailer b \<longrightarrow> 6 \<le> j \<and> j < 10) then blk ! j else x)"
proof -
  define new where "new = (if mf_classic_is_sector_trailer b then with_access_bits (access_bits_of blk) (mfc_block d ! unat b) else blk)"
  have l: "length (mfc_block d ! unat b) = 16" "unat b < length (mfc_block d)" using wf_block [OF assms(1)] by simp_all
  have d': "d' = mark_read (unat b) (update_block (unat b) new d)"
    using set_block_read_spec [OF assms(1,2), of b] assms(3) by (simp add: new_def)
  have new: "length new = 16" "j < 16 \<Longrightarrow>
      new ! j = (if mf_classic_is_sector_trailer b \<longrightarrow> 6 \<le> j \<and> j < 10 then blk ! j else mfc_block d ! unat b ! j)" for j
    using l(1) assms(2) by (auto simp: new_def length_trailer_parts with_access_bits_def access_bits_of_def nth_append)
  have wf: "mfc_wf d'" unfolding d' using assms(1) new(1) by (intro wf_marks wf_update)
  moreover have "mf_classic_is_key_found d' s t = mf_classic_is_key_found d s t" for s t
    unfolding d' by (cases t) (simp_all add: is_key_found_spec mark_read_def update_block_def)
  moreover have "mf_classic_is_block_read d' b' = map_option (\<lambda>r. r \<or> b' = b) (mf_classic_is_block_read d b')" for b'
  proof -
    have e: "b' = b \<longleftrightarrow> unat b' div 32 = unat b div 32 \<and> unat b' mod 32 = unat b mod 32"
      by (metis div_mult_mod_eq word_unat_eq_iff)
    have n: "unat b div 32 < 8" using u8_less [of b] by auto
    have m: "length (mfc_block_read_mask d) = 8" using assms(1) by (simp add: mfc_wf_def)
    show ?thesis
      unfolding is_block_read_spec [OF wf] is_block_read_spec [OF assms(1)]
      using n m by (auto simp: d' mark_read_def update_block_def nth_list_update bit_FURI_BIT_SET e)
  qed
  moreover have "mfc_block d' = (mfc_block d)[unat b := new]" by (simp add: d' mark_read_def update_block_def)
  ultimately show ?thesis
    using l by (auto simp: changes_def nth_list_update new(2) word_unat_eq_iff)
qed


lemma set_key_not_found_changes:
  assumes "mfc_wf d" "s < 40"
  shows "changes d (mf_classic_set_key_not_found d s t) (\<lambda>s' t' f. f \<and> \<not> (s' = s \<and> t' = t)) (\<lambda>_ r. r) (\<lambda>_ _ x. x)"
proof -
  have "unat s < 64" using assms(2) by (simp add: less_40)
  then show ?thesis
    using assms(1)
    by (cases t) (auto simp: changes_def mf_classic_set_key_not_found_def mfc_wf_def is_key_found_spec bit_FURI_BIT_CLEAR
        mf_classic_is_block_read_def map_option.id [unfolded id_def] word_unat_eq_iff split: MfClassicKeyType.splits)
qed

text \<open>The first block after a change of the number: the number, for a number of four bytes their checksum, then what was there.\<close>

definition numbered_block :: "u8 list \<Rightarrow> nat \<Rightarrow> MfClassicBlock \<Rightarrow> MfClassicBlock" where
  "numbered_block uid n x = take n uid @ (if n = 4 then [uid ! 0 XOR uid ! 1 XOR uid ! 2 XOR uid ! 3] @ drop 5 x else drop n x)"

lemma set_uid_spec:
  assumes wf: "mfc_wf d" and n: "n \<in> {4, 7, 10}" "n \<le> length uid"
  shows "mf_classic_set_uid d uid n = Some (d\<lparr>mfc_iso14443_3a_data := (mfc_iso14443_3a_data d)\<lparr>
      iso_uid := take n uid @ drop n (iso_uid (mfc_iso14443_3a_data d)), iso_uid_len := of_nat n\<rparr>,
      mfc_block := (mfc_block d)[0 := numbered_block uid n (mfc_block d ! 0)]\<rparr>, True)"
proof -
  define iu where "iu = take n uid @ drop n (iso_uid (mfc_iso14443_3a_data d))"
  have l: "length (iso_uid (mfc_iso14443_3a_data d)) = 10" "0 < length (mfc_block d)" "length (mfc_block d ! 0) = 16"
    using wf by (auto simp: mfc_wf_def)
  have iu: "memcpy (iso_uid (mfc_iso14443_3a_data d)) 0 uid 0 n = Some iu" using n l by (auto simp: memcpy_Some iu_def)
  have blk: "memcpy (mfc_block d ! 0) 0 iu 0 n = Some (take n uid @ drop n (mfc_block d ! 0))"
    using n l by (auto simp: memcpy_Some iu_def)
  have "(if n = 4 then do {
            blk \<leftarrow> wr (take n uid @ drop n (mfc_block d ! 0)) n 0;
            for_loop (\<lambda>i blk. do { c \<leftarrow> rd blk n; x \<leftarrow> rd blk i; wr blk n (c XOR x) }) 0 n blk }
          else Some (take n uid @ drop n (mfc_block d ! 0))) = Some (numbered_block uid n (mfc_block d ! 0))"
  proof (cases "n = 4")
    case True
    with n(2) obtain a b c e us where u: "uid = a # b # c # e # us" by (auto simp: numeral_eq_Suc Suc_le_length_iff)
    from l(3) obtain x0 x1 x2 x3 x4 xs where x: "mfc_block d ! 0 = x0 # x1 # x2 # x3 # x4 # xs"
      by (auto simp: numeral_eq_Suc length_Suc_conv)
    show ?thesis
      by (simp add: True u x numbered_block_def mem_simps for_loop_numeral) (simp add: numeral_eq_Suc xor.assoc)
  qed (simp add: numbered_block_def)
  with n iu blk l show ?thesis
    by (auto simp: mf_classic_set_uid_def iso14443_3a_set_uid_def ISO14443_3A_UID_4_BYTES_def ISO14443_3A_UID_7_BYTES_def
        ISO14443_3A_UID_10_BYTES_def Let_def mem_simps iu_def)
qed


lemma nth_numbered_block:
  assumes "n \<in> {4, 7, 10}" "n \<le> length uid" "length x = 16" "j < 16"
  shows "numbered_block uid n x ! j = (if j < n then uid ! j
     else if n = 4 \<and> j = 4 then uid ! 0 XOR uid ! 1 XOR uid ! 2 XOR uid ! 3 else x ! j)"
  using assms by (auto simp: numbered_block_def nth_append nth_Cons')

lemma set_uid_changes:
  assumes "mfc_wf d" "n \<in> {4, 7, 10}" "n \<le> length uid" "mf_classic_set_uid d uid n = Some (d', v)"
  shows "changes d d' (\<lambda>_ _ f. f) (\<lambda>_ r. r) (\<lambda>b j x. if b \<noteq> 0 then x else if j < n then uid ! j
       else if n = 4 \<and> j = 4 then uid ! 0 XOR uid ! 1 XOR uid ! 2 XOR uid ! 3 else x)"
proof -
  have d': "mfc_block d' = (mfc_block d)[0 := numbered_block uid n (mfc_block d ! 0)]" "mfc_key_a_mask d' = mfc_key_a_mask d"
    "mfc_key_b_mask d' = mfc_key_b_mask d" "mfc_block_read_mask d' = mfc_block_read_mask d"
    using set_uid_spec [OF assms(1-3)] assms(4) by auto
  have "mfc_wf d'" using set_uid_wf [OF assms(1,3)] assms(4) by auto
  moreover have "mf_classic_is_key_found d' s t = mf_classic_is_key_found d s t" for s t
    by (cases t) (simp_all add: is_key_found_spec d')
  moreover have "mf_classic_is_block_read d' b = mf_classic_is_block_read d b" for b
    by (simp add: mf_classic_is_block_read_def d')
  moreover have l: "length (mfc_block d ! 0) = 16" "0 < length (mfc_block d)" using assms(1) by (auto simp: mfc_wf_def)
  moreover have "mfc_block d' ! unat b ! j = (if b \<noteq> 0 then mfc_block d ! unat b ! j else if j < n then uid ! j
       else if n = 4 \<and> j = 4 then uid ! 0 XOR uid ! 1 XOR uid ! 2 XOR uid ! 3 else mfc_block d ! unat b ! j)"
    if "j < 16" for b :: u8 and j
    using nth_numbered_block [OF assms(2,3) l(1) that] l(2) by (cases "b = 0") (simp_all add: d'(1) unat_eq_0)
  ultimately show ?thesis by (simp add: changes_def map_option.id [unfolded id_def])
qed

text \<open>C31: what every change of the memory does to it, all of it: recording a key marks that key of that sector as found and
  writes its six bytes, most significant first, into its place in the sector's trailer; forgetting it clears the mark;
  recording a block marks it as read and stores its sixteen bytes, of a trailer only the access bits; a new number of 4, 7 or 10 bytes
  goes to the start of block 0, one of four bytes with its checksum, and another length is refused. No other mark and no
  other byte changes. A copy equals its original, and a new card has no key and no block. A sector number above 39
  is the crash of the code.\<close>

theorem mf_classic_memory_updates:
  assumes "mfc_wf d"
  shows "(\<forall>s t key. if s < 40
        then \<exists>d'. mf_classic_set_key_found d s t key = Some d'
          \<and> changes d d' (\<lambda>s' t' f. f \<or> s' = s \<and> t' = t) (\<lambda>_ r. r)
              (\<lambda>b j x. if mf_classic_get_sector_trailer_num_by_sector s = Some b \<and> key_start t \<le> j \<and> j < key_start t + 6
                 then ucast (drop_bit (8 * (5 - (j - key_start t))) key) else x)
        else mf_classic_set_key_found d s t key = None)
    \<and> (\<forall>s t. s < 40 \<longrightarrow> changes d (mf_classic_set_key_not_found d s t) (\<lambda>s' t' f. f \<and> \<not> (s' = s \<and> t' = t)) (\<lambda>_ r. r) (\<lambda>_ _ x. x))
    \<and> (\<forall>b blk. length blk = 16 \<longrightarrow> (\<exists>d'. mf_classic_set_block_read d b blk = Some d'
          \<and> changes d d' (\<lambda>_ _ f. f) (\<lambda>b' r. r \<or> b' = b)
              (\<lambda>b' j x. if b' = b \<and> (mf_classic_is_sector_trailer b \<longrightarrow> 6 \<le> j \<and> j < 10) then blk ! j else x)))
    \<and> (\<forall>uid n. n \<le> length uid \<longrightarrow> (\<exists>d'. mf_classic_set_uid d uid n = Some (d', n \<in> {4, 7, 10})
          \<and> (if n \<in> {4, 7, 10}
             then take n (iso_uid (mfc_iso14443_3a_data d')) = take n uid \<and> iso_uid_len (mfc_iso14443_3a_data d') = of_nat n
               \<and> changes d d' (\<lambda>_ _ f. f) (\<lambda>_ r. r) (\<lambda>b j x. if b \<noteq> 0 then x else if j < n then uid ! j
                   else if n = 4 \<and> j = 4 then uid ! 0 XOR uid ! 1 XOR uid ! 2 XOR uid ! 3 else x)
             else d' = d)))
    \<and> (\<forall>e. mf_classic_is_equal (mf_classic_copy d e) e)
    \<and> (\<forall>s t b. \<not> mf_classic_is_key_found mf_classic_alloc s t \<and> mf_classic_is_block_read mf_classic_alloc b = Some False)"
proof (intro conjI allI impI)
  fix s t key
  have "\<exists>d'. mf_classic_set_key_found d s t key = Some d'" if "s < 40"
    using set_key_found_spec [OF assms, of s t key] that by (simp add: less_40)
  moreover have "mf_classic_set_key_found d s t key = None" if "\<not> s < 40"
    using that by (auto simp: mf_classic_set_key_found_def mf_classic_get_sector_trailer_num_by_sector_def less_32 less_40)
  ultimately show "if s < 40
        then \<exists>d'. mf_classic_set_key_found d s t key = Some d'
          \<and> changes d d' (\<lambda>s' t' f. f \<or> s' = s \<and> t' = t) (\<lambda>_ r. r)
              (\<lambda>b j x. if mf_classic_get_sector_trailer_num_by_sector s = Some b \<and> key_start t \<le> j \<and> j < key_start t + 6
                 then ucast (drop_bit (8 * (5 - (j - key_start t))) key) else x)
        else mf_classic_set_key_found d s t key = None"
    using set_key_found_changes [OF assms, of s t key] by auto
next
  fix b and blk :: "u8 list" assume "length blk = 16"
  with set_block_read_spec [OF assms this, of b] set_block_read_changes [OF assms this, of b]
  show "\<exists>d'. mf_classic_set_block_read d b blk = Some d' \<and> changes d d' (\<lambda>_ _ f. f) (\<lambda>b' r. r \<or> b' = b)
       (\<lambda>b' j x. if b' = b \<and> (mf_classic_is_sector_trailer b \<longrightarrow> 6 \<le> j \<and> j < 10) then blk ! j else x)" by auto
next
  fix n and uid :: "u8 list" assume n: "n \<le> length uid"
  show "\<exists>d'. mf_classic_set_uid d uid n = Some (d', n \<in> {4, 7, 10})
          \<and> (if n \<in> {4, 7, 10}
             then take n (iso_uid (mfc_iso14443_3a_data d')) = take n uid \<and> iso_uid_len (mfc_iso14443_3a_data d') = of_nat n
               \<and> changes d d' (\<lambda>_ _ f. f) (\<lambda>_ r. r) (\<lambda>b j x. if b \<noteq> 0 then x else if j < n then uid ! j
                   else if n = 4 \<and> j = 4 then uid ! 0 XOR uid ! 1 XOR uid ! 2 XOR uid ! 3 else x)
             else d' = d)"
  proof (cases "n \<in> {4, 7, 10}")
    case True
    with set_uid_spec [OF assms True n] set_uid_changes [OF assms True n] n show ?thesis by (simp del: insert_iff)
  next
    case False
    then show ?thesis by (simp add: mf_classic_set_uid_def iso14443_3a_set_uid_def ISO14443_3A_UID_4_BYTES_def
        ISO14443_3A_UID_7_BYTES_def ISO14443_3A_UID_10_BYTES_def)
  qed
next
  show "mf_classic_is_equal (mf_classic_copy d e) e" for e
    by (simp add: mf_classic_is_equal_def mf_classic_copy_def iso14443_3a_is_equal_def iso14443_3a_copy_def)
  show "\<not> mf_classic_is_key_found mf_classic_alloc s t" for s t by (cases t) (simp_all add: is_key_found_spec mf_classic_alloc_def)
  show "mf_classic_is_block_read mf_classic_alloc b = Some False" for b
    using mf_classic_keeps_shape u8_less [of b]
    by (simp add: is_block_read_spec mf_classic_alloc_def MF_CLASSIC_READ_MASK_SIZE_def MF_CLASSIC_TOTAL_BLOCKS_MAX_def)
qed (use set_key_not_found_changes [OF assms] in blast)

theorem mf_classic_memory_updates_witness:
  "\<exists>d'. mf_classic_set_key_found mf_classic_alloc 1 MfClassicKeyTypeB 0x010203040506 = Some d'
    \<and> mf_classic_is_key_found d' 1 MfClassicKeyTypeB \<and> \<not> mf_classic_is_key_found d' 1 MfClassicKeyTypeA
    \<and> mfc_block d' ! 7 ! 10 = 1 \<and> mfc_block d' ! 7 ! 15 = 6 \<and> mfc_block d' ! 7 ! 9 = 0 \<and> mfc_block d' ! 8 ! 10 = 0"
proof -
  have "mfc_wf mf_classic_alloc" using mf_classic_keeps_shape by blast
  note T = mf_classic_memory_updates [OF this]
  have tr: "mf_classic_get_sector_trailer_num_by_sector 1 = Some 7" by (simp add: mf_classic_get_sector_trailer_num_by_sector_def)
  from T [THEN conjunct1, rule_format, of 1 MfClassicKeyTypeB "0x010203040506"]
  obtain d' where d': "mf_classic_set_key_found mf_classic_alloc 1 MfClassicKeyTypeB 0x010203040506 = Some d'"
    "changes mf_classic_alloc d' (\<lambda>s' t' f. f \<or> s' = 1 \<and> t' = MfClassicKeyTypeB) (\<lambda>_ r. r)
       (\<lambda>b j x. if b = 7 \<and> 10 \<le> j \<and> j < 16 then ucast (drop_bit (8 * (5 - (j - 10))) (0x010203040506 :: u64)) else x)"
    by (auto simp: tr key_start_def cong: conj_cong)
  have keys: "mf_classic_is_key_found d' 1 MfClassicKeyTypeB" "\<not> mf_classic_is_key_found d' 1 MfClassicKeyTypeA"
    using d'(2) T by (auto simp: changes_def)
  have byte: "mfc_block d' ! unat b ! j = (if b = 7 \<and> 10 \<le> j \<and> j < 16 then ucast (drop_bit (8 * (5 - (j - 10))) (0x010203040506 :: u64))
     else mfc_block mf_classic_alloc ! unat b ! j)" if "j < 16" for b :: u8 and j
    using d'(2) that unfolding changes_def by blast
  show ?thesis
    using d'(1) keys byte [of 10 7] byte [of 15 7] byte [of 9 7] byte [of 10 8]
    by (simp add: mf_classic_alloc_def MF_CLASSIC_TOTAL_BLOCKS_MAX_def MF_CLASSIC_BLOCK_SIZE_def drop_bit_eq_div)
qed

text \<open>The layout functions agree: every block lies in exactly the sector they name, between its first
  block and its trailer, which is its last block, found from the sector and from the block alike; and the
  blocks of a card are those of its sectors.\<close>

theorem mf_classic_layout:
  "\<exists>f n t. mf_classic_get_first_block_num_of_sector (mf_classic_get_sector_by_block b) = Some f
     \<and> mf_classic_get_blocks_num_in_sector (mf_classic_get_sector_by_block b) = Some n
     \<and> mf_classic_get_sector_trailer_num_by_sector (mf_classic_get_sector_by_block b) = Some t
     \<and> t = mf_classic_get_sector_trailer_num_by_block b \<and> unat t = unat f + unat n - 1
     \<and> f \<le> b \<and> b \<le> t \<and> (mf_classic_is_sector_trailer b \<longleftrightarrow> b = t)
     \<and> (mf_classic_get_sector_by_block b < mf_classic_get_total_sectors_num type
         \<longleftrightarrow> unat b < unat (mf_classic_get_total_block_num type))"
proof -
  define s where "s = mf_classic_get_sector_by_block b"
  have s: "unat s < 40" using sector_less_40 [of b] by (simp add: s_def less_40)
  obtain f where f: "mf_classic_get_first_block_num_of_sector s = Some f" "unat f = sector_first (unat s)"
    using first_block [OF s] by blast
  obtain n where n: "mf_classic_get_blocks_num_in_sector s = Some n" "unat n = sector_size (unat s)"
    using blocks_num [OF s] by blast
  have t: "mf_classic_get_sector_trailer_num_by_sector s = Some (mf_classic_get_sector_trailer_num_by_block b)"
    unfolding s_def by (rule trailer_of_sector)
  have "f \<le> b" "b \<le> mf_classic_get_sector_trailer_num_by_block b"
    using sector_range [of b] by (simp_all add: word_le_nat_alt f(2) s_def [symmetric])
  moreover have "mf_classic_get_sector_by_block b < mf_classic_get_total_sectors_num type
         \<longleftrightarrow> unat b < unat (mf_classic_get_total_block_num type)"
    using u8_less [of b]
    by (cases type) (auto simp: word_less_nat_alt unat_sector mf_classic_get_total_sectors_num_def mf_classic_get_total_block_num_def)
  ultimately show ?thesis
    using f n t sector_range(3) [of b] by (simp add: mf_classic_is_sector_trailer_def flip: s_def)
qed

lemma four_bytes: "length xs = 4 \<Longrightarrow> \<exists>a b c d. xs = [a, b, c, d]"
  by (auto simp: length_Suc_conv eval_nat_numeral)

lemma sixteen_bytes: "length xs = 16 \<Longrightarrow> \<exists>b0 b1 b2 b3 b4 b5 b6 b7 b8 b9 b10 b11 b12 b13 b14 b15.
    xs = [b0, b1, b2, b3, b4, b5, b6, b7, b8, b9, b10, b11, b12, b13, b14, b15]"
  by (auto simp: length_Suc_conv eval_nat_numeral)

lemma and_byte: "x AND 0xFF = (x :: u8)"
proof -
  have "(0xFF :: u8) = - 1" by simp
  then show ?thesis by (simp only: and.right_neutral)
qed

lemma value_to_block_eq:
  assumes "length blk = 16"
  shows "mf_classic_value_to_block v a blk
    = Some (le_bytes 4 v @ le_bytes 4 (NOT v) @ le_bytes 4 v @ [a, NOT a, a, NOT a])"
proof -
  obtain b0 b1 b2 b3 b4 b5 b6 b7 b8 b9 b10 b11 b12 b13 b14 b15 where
    "blk = [b0, b1, b2, b3, b4, b5, b6, b7, b8, b9, b10, b11, b12, b13, b14, b15]"
    using sixteen_bytes [OF assms] by blast
  moreover obtain v0 v1 v2 v3 where "le_bytes 4 v = [v0, v1, v2, v3]"
    using four_bytes [OF length_le_bytes] by blast
  moreover obtain w0 w1 w2 w3 where "le_bytes 4 (NOT v) = [w0, w1, w2, w3]"
    using four_bytes [OF length_le_bytes] by blast
  ultimately show ?thesis by (simp add: mf_classic_value_to_block_def memcpy_def mem_simps Let_def and_byte)
qed

lemma of_le_bytes_4: "of_le_bytes (le_bytes 4 v) = (v :: u32)"
  unfolding of_le_bytes_le_bytes by (simp add: take_bit_word_eq_self)

text \<open>C32: a value block: what \<open>mf_classic_value_to_block\<close> writes is read back as a valid block with that value and
  address; and a block is valid exactly when it is the block that is written for the value and the address read from it.\<close>

theorem mf_classic_value_blocks:
  assumes "length blk = 16"
  shows "(\<exists>blk'. mf_classic_value_to_block v addr blk = Some blk' \<and> length blk' = 16
      \<and> mf_classic_block_to_value blk' = (True, v, addr))
    \<and> (fst (mf_classic_block_to_value blk)
      \<longleftrightarrow> mf_classic_value_to_block (fst (snd (mf_classic_block_to_value blk))) (snd (snd (mf_classic_block_to_value blk))) blk = Some blk)"
proof (intro conjI)
  show "\<exists>blk'. mf_classic_value_to_block v addr blk = Some blk' \<and> length blk' = 16
      \<and> mf_classic_block_to_value blk' = (True, v, addr)"
    by (simp add: value_to_block_eq [OF assms] mf_classic_block_to_value_def Let_def of_le_bytes_4 and_byte nth_append)
  obtain b0 b1 b2 b3 b4 b5 b6 b7 b8 b9 b10 b11 b12 b13 b14 b15 where
    blk: "blk = [b0, b1, b2, b3, b4, b5, b6, b7, b8, b9, b10, b11, b12, b13, b14, b15]"
    using sixteen_bytes [OF assms] by blast
  have le: "le_bytes 4 (of_le_bytes [a, b, c, d] :: u32) = [a, b, c, d]" for a b c d
    using le_bytes_of_le_bytes [of "[a, b, c, d]", where 'a = 32] by (simp add: eval_nat_numeral)
  have eq: "xs = ys \<longleftrightarrow> (of_le_bytes xs :: u32) = of_le_bytes ys" if "length xs = 4" "length ys = 4" for xs ys
    using four_bytes [OF that(1)] four_bytes [OF that(2)] le by metis
  let ?v = "of_le_bytes [b0, b1, b2, b3] :: u32"
  have a: "le_bytes 4 (NOT ?v) = [b4, b5, b6, b7] \<longleftrightarrow> ?v = NOT (of_le_bytes [b4, b5, b6, b7])"
    by (subst eq) (simp_all add: of_le_bytes_4, metis bit.double_compl)
  have b: "[b0, b1, b2, b3] = [b8, b9, b10, b11] \<longleftrightarrow> ?v = of_le_bytes [b8, b9, b10, b11]"
    by (rule eq) simp_all
  have s: "mf_classic_value_to_block ?v b12 blk = Some blk
      \<longleftrightarrow> le_bytes 4 (NOT ?v) = [b4, b5, b6, b7] \<and> [b0, b1, b2, b3] = [b8, b9, b10, b11] \<and> NOT b12 = b13 \<and> b12 = b14 \<and> NOT b12 = b15"
    using four_bytes [OF length_le_bytes, of "NOT ?v"] unfolding value_to_block_eq [OF assms] by (auto simp: blk le)
  show "fst (mf_classic_block_to_value blk)
      \<longleftrightarrow> mf_classic_value_to_block (fst (snd (mf_classic_block_to_value blk))) (snd (snd (mf_classic_block_to_value blk))) blk = Some blk"
  proof -
    have "mf_classic_block_to_value blk = (?v = of_le_bytes [b8, b9, b10, b11] \<and> ?v = NOT (of_le_bytes [b4, b5, b6, b7])
        \<and> b12 = NOT b13 \<and> b14 = NOT b15 \<and> b12 = b14, ?v, b12)"
      by (simp add: mf_classic_block_to_value_def Let_def blk and_byte)
    then show ?thesis by (simp only: fst_conv snd_conv s a b) (auto simp: bit.compl_eq_compl_iff)
  qed
qed

theorem mf_classic_value_blocks_witness:
  "\<exists>blk'. mf_classic_value_to_block 0xFFFFFFFF 5 (replicate 16 0) = Some blk' \<and> mf_classic_block_to_value blk' = (True, 0xFFFFFFFF, 5)"
  using mf_classic_value_blocks [of "replicate 16 0" "0xFFFFFFFF" 5] by auto

text \<open>C33: the access decisions are table lookups: on a card of the right shape the check never fails, and it
  permits an action to a key exactly when the card's table (\<open>data_condition\<close>, \<open>trailer_condition\<close>) has the key
  for the condition bits that the trailer of the block's sector holds for the block's group; block 0 is never written.\<close>

theorem mf_classic_access_conditions:
  assumes "mfc_wf d"
  shows "mf_classic_is_allowed_access d b key_type action = Some (card_permits d b key_type action)"
  by (rule is_allowed_access_spec [OF assms])

theorem mf_classic_access_conditions_witness:
  "mf_classic_is_allowed_access mf_classic_alloc 0 MfClassicKeyTypeA MfClassicActionDataWrite = Some False"
proof -
  have "mfc_wf mf_classic_alloc"
    by (simp add: mfc_wf_def mf_classic_alloc_def MF_CLASSIC_TOTAL_BLOCKS_MAX_def MF_CLASSIC_BLOCK_SIZE_def
        MF_CLASSIC_READ_MASK_SIZE_def iso14443_3a_alloc_def)
  from mf_classic_access_conditions [OF this] show ?thesis
    by (simp add: card_permits_def mf_classic_is_sector_trailer_def mf_classic_get_sector_trailer_num_by_block_def)
qed

text \<open>The card counts as read exactly when every sector of its type counts as read; the two \<open>uint8_t\<close> counters do
  not overflow.\<close>

theorem mf_classic_card_read:
  assumes "mfc_wf d"
  shows "mf_classic_is_card_read d
    = Some (\<forall>s. s < mf_classic_get_total_sectors_num (mfc_type d) \<longrightarrow> mf_classic_is_sector_read d s = Some True)"
  unfolding mf_classic_get_total_sectors_num_def by (rule is_card_read_spec [OF assms])

theorem mf_classic_card_read_witness: "mf_classic_is_card_read mf_classic_alloc = Some False"
proof -
  have "mfc_wf mf_classic_alloc"
    by (simp add: mfc_wf_def mf_classic_alloc_def MF_CLASSIC_TOTAL_BLOCKS_MAX_def MF_CLASSIC_BLOCK_SIZE_def
        MF_CLASSIC_READ_MASK_SIZE_def iso14443_3a_alloc_def)
  moreover have "mf_classic_is_sector_read mf_classic_alloc 0 = Some False"
    by (simp add: mf_classic_is_sector_read_def mf_classic_is_key_found_def mf_classic_alloc_def FURI_BIT_of_bool)
  ultimately show ?thesis using mf_classic_card_read [of mf_classic_alloc]
    by (auto simp: mf_classic_alloc_def mf_classic_get_total_sectors_num_def intro!: exI [of _ 0])
qed

text \<open>C34: a card saved to text and loaded into a card of the same type about which nothing is known: neither fails,
  exactly the blocks that were read and the keys that were found are read and found again, with the same bytes (of a
  trailer, its access bits and the keys found).\<close>

theorem mf_classic_file_round_trip:
  assumes "strim_spec trim" "mfc_wf d" "mfc_wf e" "mfc_type e = mfc_type d"
    and "mfc_key_a_mask e = 0" "mfc_key_b_mask e = 0" "mfc_block_read_mask e = replicate 8 0"
  shows "\<exists>lines e'. save_block_lines trim d = Some lines \<and> load_block_lines trim False lines e = Some (e', True)
    \<and> (\<forall>b. unat b < unat (mf_classic_get_total_block_num (mfc_type d))
        \<longrightarrow> mf_classic_is_block_read e' b = mf_classic_is_block_read d b
          \<and> (mf_classic_is_block_read d b = Some True \<longrightarrow>
              (if mf_classic_is_sector_trailer b then access_bits_of (mfc_block e' ! unat b) = access_bits_of (mfc_block d ! unat b)
               else mfc_block e' ! unat b = mfc_block d ! unat b)))
    \<and> (\<forall>s t. s < mf_classic_get_total_sectors_num (mfc_type d)
        \<longrightarrow> mf_classic_is_key_found e' s t = mf_classic_is_key_found d s t
          \<and> (mf_classic_is_key_found d s t \<longrightarrow>
              map_option (key_of t) (mf_classic_get_sector_trailer_by_sector e' s)
                = map_option (key_of t) (mf_classic_get_sector_trailer_by_sector d s)))"
proof -
  have "restored d 0 e"
  proof -
    have "\<not> was_read e b" if "b < 256" for b using that assms(7) by (simp add: was_read_def)
    moreover have "\<not> bit (key_mask t e) s" for t s using assms(5,6) by (cases t) (simp_all add: key_mask_def)
    ultimately show ?thesis using assms(3,4) by (simp add: restored_def)
  qed
  from load_saved [OF assms(1,2) this] obtain lines e' where run: "save_block_lines trim d = Some lines"
    "load_block_lines trim False lines e = Some (e', True)" and r: "restored d (unat (blocks_total (mfc_type d))) e'" by blast
  have wf': "mfc_wf e'" using r by (simp add: restored_def)
  have "mf_classic_is_block_read e' b = mf_classic_is_block_read d b
          \<and> (mf_classic_is_block_read d b = Some True \<longrightarrow>
              (if mf_classic_is_sector_trailer b then access_bits_of (mfc_block e' ! unat b) = access_bits_of (mfc_block d ! unat b)
               else mfc_block e' ! unat b = mfc_block d ! unat b))"
    if "unat b < unat (blocks_total (mfc_type d))" for b
  proof -
    have "of_nat (unat b) = b" by simp
    then show ?thesis using r that u8_less [of b]
      by (auto simp: restored_def is_block_read_spec [OF wf'] is_block_read_spec [OF assms(2)] was_read_def)
  qed
  moreover have "mf_classic_is_key_found e' s t = mf_classic_is_key_found d s t
          \<and> (mf_classic_is_key_found d s t \<longrightarrow>
              map_option (key_of t) (mf_classic_get_sector_trailer_by_sector e' s)
                = map_option (key_of t) (mf_classic_get_sector_trailer_by_sector d s))"
    if "s < sectors_total (mfc_type d)" for s t
  proof -
    have s: "unat s < 40" "trailer_index (unat s) < unat (blocks_total (mfc_type d))"
      using that by (cases "mfc_type d"; auto simp: word_less_nat_alt trailer_index_def sector_first_def sector_size_def)+
    then show ?thesis using r
      by (auto simp: restored_def is_key_found_mask sector_trailer_spec [OF wf'] sector_trailer_spec [OF assms(2)])
  qed
  ultimately show ?thesis
    using run by (auto simp: mf_classic_get_total_block_num_def mf_classic_get_total_sectors_num_def)
qed

theorem mf_classic_file_round_trip_witness:
  "\<exists>lines e'. save_block_lines (\<lambda>s. rev (dropWhile blank (rev (dropWhile blank s)))) (mf_classic_alloc\<lparr>mfc_key_a_mask := 1\<rparr>) = Some lines
    \<and> load_block_lines (\<lambda>s. rev (dropWhile blank (rev (dropWhile blank s)))) False lines mf_classic_alloc = Some (e', True)
    \<and> mf_classic_is_key_found e' 0 MfClassicKeyTypeA \<and> \<not> mf_classic_is_key_found e' 0 MfClassicKeyTypeB"
proof -
  let ?d = "mf_classic_alloc\<lparr>mfc_key_a_mask := 1\<rparr>"
  have wf: "mfc_wf mf_classic_alloc"
    by (simp add: mfc_wf_def mf_classic_alloc_def MF_CLASSIC_TOTAL_BLOCKS_MAX_def MF_CLASSIC_BLOCK_SIZE_def
        MF_CLASSIC_READ_MASK_SIZE_def iso14443_3a_alloc_def)
  then have "mfc_wf ?d" by (simp add: mfc_wf_def)
  moreover have "strim_spec (\<lambda>s. rev (dropWhile blank (rev (dropWhile blank s))))" by (simp add: strim_spec_def)
  moreover have "mf_classic_is_key_found ?d 0 MfClassicKeyTypeA" "\<not> mf_classic_is_key_found ?d 0 MfClassicKeyTypeB"
    by (simp_all add: mf_classic_is_key_found_def mf_classic_alloc_def FURI_BIT_of_bool)
  moreover have "mfc_key_a_mask mf_classic_alloc = 0" "mfc_key_b_mask mf_classic_alloc = 0" "mfc_block_read_mask mf_classic_alloc = replicate 8 0"
    "(0 :: u8) < mf_classic_get_total_sectors_num (mfc_type ?d)" "mfc_type mf_classic_alloc = mfc_type ?d"
    by (simp_all add: mf_classic_alloc_def MF_CLASSIC_READ_MASK_SIZE_def MF_CLASSIC_TOTAL_BLOCKS_MAX_def mf_classic_get_total_sectors_num_def)
  ultimately show ?thesis
    using mf_classic_file_round_trip [of "\<lambda>s. rev (dropWhile blank (rev (dropWhile blank s)))" ?d mf_classic_alloc] wf by blast
qed

end
