(* ===== verification/MfClassicListener.thy ===== *)
theory MfClassicListener
  imports MfClassicCard Crypto1Frames NfcCrc
begin

text \<open>
  The emulated MIFARE Classic card, \<open>lib/nfc/protocols/mf_classic/mf_classic_listener.c\<close>, over the 3A layer,
  \<open>lib/nfc/protocols/iso14443_3a/iso14443_3a_listener.c\<close>. The record \<open>MfClassicListener\<close> is the C structure; what
  the listener sends and tells its callback is collected in \<open>mfl_out\<close>. The operations are the handlers
  of the commands, their table, and the event functions of both layers. A result \<open>None\<close> is a failed assertion or an
  access outside an array.
\<close>

unbundle bit_operations_syntax

section \<open>The ISO 14443-3A listener\<close>

text \<open>
  What the radio reports to the 3A layer, and what that layer reports to the protocol above it; a
  received frame comes with its buffer. The other event types of the radio are \<open>NfcEventTypeOther\<close>.
\<close>

datatype NfcCommand = NfcCommandContinue | NfcCommandReset | NfcCommandStop | NfcCommandSleep

datatype NfcEvent =
    NfcEventTypeListenerActivated
  | NfcEventTypeFieldOff
  | NfcEventTypeRxEnd BitBuffer
  | NfcEventTypeOther

datatype Iso14443_3aListenerEvent =
    Iso14443_3aListenerEventTypeFieldOff
  | Iso14443_3aListenerEventTypeHalted
  | Iso14443_3aListenerEventTypeReceivedStandardFrame BitBuffer
  | Iso14443_3aListenerEventTypeReceivedData BitBuffer

datatype Iso14443_3aListenerState = Iso14443_3aListenerStateIdle | Iso14443_3aListenerStateActive

definition iso14443_3a_listener_halt_received :: "BitBuffer \<Rightarrow> bool option" where
  "iso14443_3a_listener_halt_received buf =
     (if bit_buffer_get_size_bytes buf \<noteq> 4 then Some False
      else do {
        ok \<leftarrow> iso14443_crc_check Iso14443CrcTypeA buf;
        (if \<not> ok then Some False
         else do {
           b0 \<leftarrow> bit_buffer_get_byte buf 0;
           (if b0 \<noteq> 0x50 then Some False
            else do {
              b1 \<leftarrow> bit_buffer_get_byte buf 1;
              Some (b1 = 0x00) }) }) })"

text \<open>
  The layer's state, and the protocol's callback with its state; there is always a callback once a
  protocol runs on the layer. In \<open>FieldOff\<close> and \<open>Halted\<close> its answer is not looked at.
\<close>

definition iso14443_3a_listener_run ::
  "(Iso14443_3aListenerEvent \<Rightarrow> 's \<Rightarrow> (NfcCommand \<times> 's) option) \<Rightarrow> NfcEvent
   \<Rightarrow> Iso14443_3aListenerState \<times> 's \<Rightarrow> (NfcCommand \<times> Iso14443_3aListenerState \<times> 's) option" where
  "iso14443_3a_listener_run callback nfc_event st = (case st of (state, context) \<Rightarrow>
     (case nfc_event of
        NfcEventTypeListenerActivated \<Rightarrow> Some (NfcCommandContinue, Iso14443_3aListenerStateActive, context)
      | NfcEventTypeFieldOff \<Rightarrow> do {
          (_, context) \<leftarrow> callback Iso14443_3aListenerEventTypeFieldOff context;
          Some (NfcCommandSleep, Iso14443_3aListenerStateIdle, context) }
      | NfcEventTypeRxEnd buffer \<Rightarrow> do {
          halt \<leftarrow> iso14443_3a_listener_halt_received buffer;
          (if halt then do {
             (_, context) \<leftarrow> callback Iso14443_3aListenerEventTypeHalted context;
             Some (NfcCommandSleep, state, context) }
           else do {
             ok \<leftarrow> iso14443_crc_check Iso14443CrcTypeA buffer;
             event \<leftarrow> (if ok then do {
                 buffer \<leftarrow> iso14443_crc_trim buffer;
                 Some (Iso14443_3aListenerEventTypeReceivedStandardFrame buffer) }
               else Some (Iso14443_3aListenerEventTypeReceivedData buffer));
             (command, context) \<leftarrow> callback event context;
             Some (command, state, context) }) }
      | NfcEventTypeOther \<Rightarrow> Some (NfcCommandContinue, state, context)))"

section \<open>The state of the emulated card\<close>

definition MF_CLASSIC_CMD_AUTH_KEY_A :: u8 where "MF_CLASSIC_CMD_AUTH_KEY_A = 0x60"
definition MF_CLASSIC_CMD_AUTH_KEY_B :: u8 where "MF_CLASSIC_CMD_AUTH_KEY_B = 0x61"
definition MF_CLASSIC_CMD_READ_BLOCK :: u8 where "MF_CLASSIC_CMD_READ_BLOCK = 0x30"
definition MF_CLASSIC_CMD_WRITE_BLOCK :: u8 where "MF_CLASSIC_CMD_WRITE_BLOCK = 0xA0"
definition MF_CLASSIC_CMD_VALUE_DEC :: u8 where "MF_CLASSIC_CMD_VALUE_DEC = 0xC0"
definition MF_CLASSIC_CMD_VALUE_INC :: u8 where "MF_CLASSIC_CMD_VALUE_INC = 0xC1"
definition MF_CLASSIC_CMD_VALUE_RESTORE :: u8 where "MF_CLASSIC_CMD_VALUE_RESTORE = 0xC2"
definition MF_CLASSIC_CMD_VALUE_TRANSFER :: u8 where "MF_CLASSIC_CMD_VALUE_TRANSFER = 0xB0"
definition MF_CLASSIC_CMD_HALT_MSB :: u8 where "MF_CLASSIC_CMD_HALT_MSB = 0x50"
definition MF_CLASSIC_CMD_HALT_LSB :: u8 where "MF_CLASSIC_CMD_HALT_LSB = 0x00"
definition MF_CLASSIC_CMD_ACK :: u8 where "MF_CLASSIC_CMD_ACK = 0x0A"
definition MF_CLASSIC_CMD_NACK :: u8 where "MF_CLASSIC_CMD_NACK = 0x00"
definition MF_CLASSIC_CMD_NACK_TRANSFER_INVALID :: u8 where "MF_CLASSIC_CMD_NACK_TRANSFER_INVALID = 0x04"
definition MF_CLASSIC_MAX_BUFF_SIZE :: nat where "MF_CLASSIC_MAX_BUFF_SIZE = 64"

lemmas mfc_cmd_defs = MF_CLASSIC_CMD_AUTH_KEY_A_def MF_CLASSIC_CMD_AUTH_KEY_B_def MF_CLASSIC_CMD_READ_BLOCK_def
  MF_CLASSIC_CMD_WRITE_BLOCK_def MF_CLASSIC_CMD_VALUE_DEC_def MF_CLASSIC_CMD_VALUE_INC_def
  MF_CLASSIC_CMD_VALUE_RESTORE_def MF_CLASSIC_CMD_VALUE_TRANSFER_def MF_CLASSIC_CMD_HALT_MSB_def MF_CLASSIC_CMD_HALT_LSB_def
  MF_CLASSIC_CMD_ACK_def MF_CLASSIC_CMD_NACK_def MF_CLASSIC_CMD_NACK_TRANSFER_INVALID_def

datatype MfClassicListenerCommand =
    MfClassicListenerCommandProcessed
  | MfClassicListenerCommandAck
  | MfClassicListenerCommandNack
  | MfClassicListenerCommandSilent
  | MfClassicListenerCommandSleep

datatype MfClassicListenerState = MfClassicListenerStateIdle | MfClassicListenerStateAuthComplete

datatype MfClassicListenerCommState = MfClassicListenerCommStatePlain | MfClassicListenerCommStateEncrypted

datatype MfClassicValueCommand =
    MfClassicValueCommandIncrement
  | MfClassicValueCommandDecrement
  | MfClassicValueCommandRestore
  | MfClassicValueCommandInvalid

record MfClassicAuthContext =
  ac_block_num :: u8
  ac_key :: "u8 list"
  ac_key_type :: MfClassicKeyType
  ac_nt :: "u8 list"
  ac_nr :: "u8 list"
  ac_ar :: "u8 list"
  ac_at :: "u8 list"

datatype MfClassicListenerEventType =
    MfClassicListenerEventTypeAuthContextPartCollected
  | MfClassicListenerEventTypeAuthContextFullCollected

text \<open>
  What leaves the listener, in order: frames for the 3A layer, sent with the parity it computes or with
  the parity bits of the buffer, and events for the callback, when one is set.
\<close>

datatype ListenerOutput =
    ListenerTx BitBuffer
  | ListenerTxCustomParity BitBuffer
  | ListenerEvent MfClassicListenerEventType MfClassicAuthContext

record MfClassicListener =
  mfl_state :: MfClassicListenerState
  mfl_comm_state :: MfClassicListenerCommState
  mfl_data :: MfClassicData
  mfl_tx_plain_buffer :: BitBuffer
  mfl_tx_encrypted_buffer :: BitBuffer
  mfl_rx_plain_buffer :: BitBuffer
  mfl_crypto :: Crypto1
  mfl_auth_context :: MfClassicAuthContext
  mfl_write_block :: u8
  mfl_transfer_value :: u32
  mfl_transfer_valid :: bool
  mfl_value_cmd :: MfClassicValueCommand
  mfl_callback :: bool
  mfl_cmd_in_progress :: bool
  mfl_current_cmd_idx :: nat
  mfl_current_cmd_handler_idx :: nat
  mfl_total_block_num :: nat
  mfl_out :: "ListenerOutput list"

definition auth_context_zero :: MfClassicAuthContext where
  "auth_context_zero = \<lparr>ac_block_num = 0, ac_key = replicate 6 0, ac_key_type = MfClassicKeyTypeA,
     ac_nt = replicate 4 0, ac_nr = replicate 4 0, ac_ar = replicate 4 0, ac_at = replicate 4 0\<rparr>"

definition listener_tx :: "BitBuffer \<Rightarrow> MfClassicListener \<Rightarrow> MfClassicListener" where
  "listener_tx buf L = L\<lparr>mfl_out := mfl_out L @ [ListenerTx buf]\<rparr>"

definition listener_tx_with_custom_parity :: "BitBuffer \<Rightarrow> MfClassicListener \<Rightarrow> MfClassicListener" where
  "listener_tx_with_custom_parity buf L = L\<lparr>mfl_out := mfl_out L @ [ListenerTxCustomParity buf]\<rparr>"

definition listener_event :: "MfClassicListenerEventType \<Rightarrow> MfClassicListener \<Rightarrow> MfClassicListener" where
  "listener_event type L = (if mfl_callback L then L\<lparr>mfl_out := mfl_out L @ [ListenerEvent type (mfl_auth_context L)]\<rparr> else L)"

text \<open>The memory of the instance is cleared, the first of each enumeration is 0.\<close>

definition mf_classic_listener_prepare_emulation :: "MfClassicListener \<Rightarrow> MfClassicListener" where
  "mf_classic_listener_prepare_emulation L = L\<lparr>mfl_total_block_num := unat (mf_classic_get_total_block_num (mfc_type (mfl_data L)))\<rparr>"

definition mf_classic_listener_alloc :: "MfClassicData \<Rightarrow> MfClassicListener option" where
  "mf_classic_listener_alloc data = do {
     tx_plain \<leftarrow> bit_buffer_alloc MF_CLASSIC_MAX_BUFF_SIZE;
     tx_encrypted \<leftarrow> bit_buffer_alloc MF_CLASSIC_MAX_BUFF_SIZE;
     rx_plain \<leftarrow> bit_buffer_alloc MF_CLASSIC_MAX_BUFF_SIZE;
     Some (mf_classic_listener_prepare_emulation
       \<lparr>mfl_state = MfClassicListenerStateIdle, mfl_comm_state = MfClassicListenerCommStatePlain, mfl_data = data,
        mfl_tx_plain_buffer = tx_plain, mfl_tx_encrypted_buffer = tx_encrypted, mfl_rx_plain_buffer = rx_plain,
        mfl_crypto = crypto1_alloc, mfl_auth_context = auth_context_zero, mfl_write_block = 0,
        mfl_transfer_value = 0, mfl_transfer_valid = False, mfl_value_cmd = MfClassicValueCommandIncrement,
        mfl_callback = False, mfl_cmd_in_progress = False, mfl_current_cmd_idx = 0, mfl_current_cmd_handler_idx = 0,
        mfl_total_block_num = 0, mfl_out = []\<rparr>) }"

definition mf_classic_listener_set_callback :: "MfClassicListener \<Rightarrow> bool \<Rightarrow> MfClassicListener" where
  "mf_classic_listener_set_callback L callback = L\<lparr>mfl_callback := callback\<rparr>"

definition mf_classic_listener_get_data :: "MfClassicListener \<Rightarrow> MfClassicData" where
  "mf_classic_listener_get_data L = mfl_data L"

definition mf_classic_listener_reset_state :: "MfClassicListener \<Rightarrow> MfClassicListener" where
  "mf_classic_listener_reset_state L = L\<lparr>
     mfl_crypto := crypto1_reset (mfl_crypto L), mfl_auth_context := auth_context_zero,
     mfl_comm_state := MfClassicListenerCommStatePlain, mfl_state := MfClassicListenerStateIdle,
     mfl_cmd_in_progress := False, mfl_current_cmd_handler_idx := 0, mfl_write_block := 0,
     mfl_transfer_value := 0, mfl_transfer_valid := False, mfl_value_cmd := MfClassicValueCommandInvalid\<rparr>"

section \<open>The handlers\<close>

text \<open>
  A handler returns its command and the updated listener. A \<open>break\<close> is the branch that returns with the
  command set so far. \<open>rnd\<close> stands for the bytes that the random number generator fills in.
\<close>

definition mf_classic_listener_halt_handler :: "MfClassicListener \<Rightarrow> BitBuffer \<Rightarrow> (MfClassicListenerCommand \<times> MfClassicListener) option" where
  "mf_classic_listener_halt_handler L buff = do {
     b \<leftarrow> bit_buffer_get_byte buff 1;
     Some (if b = MF_CLASSIC_CMD_HALT_LSB then MfClassicListenerCommandSleep else MfClassicListenerCommandNack, L) }"

definition mf_classic_listener_auth_first_part_handler ::
  "u8 list \<Rightarrow> MfClassicListener \<Rightarrow> MfClassicKeyType \<Rightarrow> u8 \<Rightarrow> (MfClassicListenerCommand \<times> MfClassicListener) option" where
  "mf_classic_listener_auth_first_part_handler rnd L key_type block_num =
     (let L = L\<lparr>mfl_state := MfClassicListenerStateIdle\<rparr> in
      if unat block_num \<ge> mfl_total_block_num L then Some (MfClassicListenerCommandNack, L)
      else do {
        let sector_num = mf_classic_get_sector_by_block block_num;
        sec_tr \<leftarrow> mf_classic_get_sector_trailer_by_sector (mfl_data L) sector_num;
        let key = (if key_type = MfClassicKeyTypeA then key_a_of sec_tr else key_b_of sec_tr);
        key_num \<leftarrow> bit_lib_bytes_to_num_be key MF_CLASSIC_KEY_SIZE;
        cuid \<leftarrow> iso14443_3a_get_cuid (mfc_iso14443_3a_data (mfl_data L));
        nt \<leftarrow> memcpy (ac_nt (mfl_auth_context L)) 0 rnd 0 4;
        let L = L\<lparr>mfl_auth_context := (mfl_auth_context L)\<lparr>ac_key_type := key_type, ac_block_num := block_num, ac_nt := nt\<rparr>\<rparr>;
        nt_num \<leftarrow> map_option ucast (bit_lib_bytes_to_num_be nt 4);
        let L = L\<lparr>mfl_crypto := crypto1_init (mfl_crypto L) key_num\<rparr>;
        L \<leftarrow> (if mfl_comm_state L = MfClassicListenerCommStatePlain then do {
            let L = L\<lparr>mfl_crypto := snd (crypto1_word (mfl_crypto L) (nt_num XOR cuid) False)\<rparr>;
            tx \<leftarrow> bit_buffer_copy_bytes (mfl_tx_encrypted_buffer L) nt 4;
            let L = L\<lparr>mfl_tx_encrypted_buffer := tx\<rparr>;
            Some (listener_tx (mfl_tx_encrypted_buffer L) L) }
          else do {
            key_stream \<leftarrow> bit_lib_num_to_bytes_be (ucast (nt_num XOR cuid)) 4 (replicate 4 0);
            tx \<leftarrow> bit_buffer_copy_bytes (mfl_tx_plain_buffer L) nt 4;
            let L = L\<lparr>mfl_tx_plain_buffer := tx\<rparr>;
            (crypto, tx) \<leftarrow> crypto1_encrypt (mfl_crypto L) (Some key_stream) (mfl_tx_plain_buffer L) (mfl_tx_encrypted_buffer L);
            let L = L\<lparr>mfl_crypto := crypto, mfl_tx_encrypted_buffer := tx\<rparr>;
            Some (listener_tx_with_custom_parity (mfl_tx_encrypted_buffer L) L) });
        Some (MfClassicListenerCommandProcessed,
          L\<lparr>mfl_cmd_in_progress := True, mfl_current_cmd_handler_idx := mfl_current_cmd_handler_idx L + 1\<rparr>) })"

definition mf_classic_listener_auth_key_a_handler :: "u8 list \<Rightarrow> MfClassicListener \<Rightarrow> BitBuffer \<Rightarrow> (MfClassicListenerCommand \<times> MfClassicListener) option" where
  "mf_classic_listener_auth_key_a_handler rnd L buff = do {
     block_num \<leftarrow> bit_buffer_get_byte buff 1;
     mf_classic_listener_auth_first_part_handler rnd L MfClassicKeyTypeA block_num }"

definition mf_classic_listener_auth_key_b_handler :: "u8 list \<Rightarrow> MfClassicListener \<Rightarrow> BitBuffer \<Rightarrow> (MfClassicListenerCommand \<times> MfClassicListener) option" where
  "mf_classic_listener_auth_key_b_handler rnd L buff = do {
     block_num \<leftarrow> bit_buffer_get_byte buff 1;
     mf_classic_listener_auth_first_part_handler rnd L MfClassicKeyTypeB block_num }"

text \<open>Encrypting the plain frame and handing it to the layer below, as three handlers do.\<close>

definition encrypt_and_tx :: "MfClassicListener \<Rightarrow> MfClassicListener option" where
  "encrypt_and_tx L = do {
     (crypto, tx) \<leftarrow> crypto1_encrypt (mfl_crypto L) None (mfl_tx_plain_buffer L) (mfl_tx_encrypted_buffer L);
     let L = L\<lparr>mfl_crypto := crypto, mfl_tx_encrypted_buffer := tx\<rparr>;
     Some (listener_tx_with_custom_parity (mfl_tx_encrypted_buffer L) L) }"

definition mf_classic_listener_auth_second_part_handler :: "MfClassicListener \<Rightarrow> BitBuffer \<Rightarrow> (MfClassicListenerCommand \<times> MfClassicListener) option" where
  "mf_classic_listener_auth_second_part_handler L buff =
     (let L = L\<lparr>mfl_cmd_in_progress := False\<rparr> in
      if bit_buffer_get_size_bytes buff \<noteq> 4 + 4 then Some (MfClassicListenerCommandSleep, L)
      else do {
        nr \<leftarrow> bit_buffer_write_bytes_mid buff (ac_nr (mfl_auth_context L)) 0 4;
        ar \<leftarrow> bit_buffer_write_bytes_mid buff (ac_ar (mfl_auth_context L)) 4 4;
        let L = L\<lparr>mfl_auth_context := (mfl_auth_context L)\<lparr>ac_nr := nr, ac_ar := ar\<rparr>\<rparr>;
        let L = listener_event MfClassicListenerEventTypeAuthContextPartCollected L;
        nr_num \<leftarrow> map_option ucast (bit_lib_bytes_to_num_be nr 4);
        ar_num \<leftarrow> map_option ucast (bit_lib_bytes_to_num_be ar 4);
        let L = L\<lparr>mfl_crypto := snd (crypto1_word (mfl_crypto L) nr_num True)\<rparr>;
        nt_num \<leftarrow> map_option ucast (bit_lib_bytes_to_num_be (ac_nt (mfl_auth_context L)) 4);
        let (w, crypto) = crypto1_word (mfl_crypto L) 0 False;
        let L = L\<lparr>mfl_crypto := crypto\<rparr>;
        let secret_poller = ar_num XOR w;
        (if secret_poller \<noteq> prng_successor nt_num 64 then Some (MfClassicListenerCommandSleep, L)
         else do {
           let at_num = prng_successor nt_num 96;
           at \<leftarrow> bit_lib_num_to_bytes_be (ucast at_num) 4 (ac_at (mfl_auth_context L));
           let L = L\<lparr>mfl_auth_context := (mfl_auth_context L)\<lparr>ac_at := at\<rparr>\<rparr>;
           tx \<leftarrow> bit_buffer_copy_bytes (mfl_tx_plain_buffer L) at 4;
           L \<leftarrow> encrypt_and_tx (L\<lparr>mfl_tx_plain_buffer := tx\<rparr>);
           let L = L\<lparr>mfl_state := MfClassicListenerStateAuthComplete, mfl_comm_state := MfClassicListenerCommStateEncrypted\<rparr>;
           Some (MfClassicListenerCommandProcessed,
             listener_event MfClassicListenerEventTypeAuthContextFullCollected L) }) })"

text \<open>The copy of a trailer that is sent, with what may not be read cleared.\<close>

definition clear_unreadable :: "MfClassicData \<Rightarrow> u8 \<Rightarrow> MfClassicKeyType \<Rightarrow> MfClassicBlock \<Rightarrow> MfClassicBlock option" where
  "clear_unreadable data block_num key_type access_block = do {
     a \<leftarrow> mf_classic_is_allowed_access data block_num key_type MfClassicActionKeyARead;
     access_block \<leftarrow> (if \<not> a then memcpy access_block 0 (replicate 6 0) 0 MF_CLASSIC_KEY_SIZE else Some access_block);
     b \<leftarrow> mf_classic_is_allowed_access data block_num key_type MfClassicActionKeyBRead;
     access_block \<leftarrow> (if \<not> b then memcpy access_block 10 (replicate 6 0) 0 MF_CLASSIC_KEY_SIZE else Some access_block);
     c \<leftarrow> mf_classic_is_allowed_access data block_num key_type MfClassicActionACRead;
     (if \<not> c then memcpy access_block 6 (replicate 4 0) 0 MF_CLASSIC_ACCESS_BYTES_SIZE else Some access_block) }"

definition mf_classic_listener_read_block_handler :: "MfClassicListener \<Rightarrow> BitBuffer \<Rightarrow> (MfClassicListenerCommand \<times> MfClassicListener) option" where
  "mf_classic_listener_read_block_handler L buff =
     (let auth_ctx = mfl_auth_context L in
      if mfl_state L \<noteq> MfClassicListenerStateAuthComplete then Some (MfClassicListenerCommandNack, L)
      else do {
        block_num \<leftarrow> bit_buffer_get_byte buff 1;
        let sector_num = mf_classic_get_sector_by_block block_num;
        let auth_sector_num = mf_classic_get_sector_by_block (ac_block_num auth_ctx);
        (if sector_num \<noteq> auth_sector_num then Some (MfClassicListenerCommandNack, L)
         else do {
           access_block \<leftarrow> rd (mfc_block (mfl_data L)) (unat block_num);
           access_block \<leftarrow>
             (if mf_classic_is_sector_trailer block_num
              then map_option Some (clear_unreadable (mfl_data L) block_num (ac_key_type auth_ctx) access_block)
              else do {
                ok \<leftarrow> mf_classic_is_allowed_access (mfl_data L) block_num (ac_key_type auth_ctx) MfClassicActionDataRead;
                Some (if ok then Some access_block else None) });
           (case access_block of
              None \<Rightarrow> Some (MfClassicListenerCommandNack, L)
            | Some access_block \<Rightarrow> do {
                tx \<leftarrow> bit_buffer_copy_bytes (mfl_tx_plain_buffer L) access_block MF_CLASSIC_BLOCK_SIZE;
                tx \<leftarrow> iso14443_crc_append Iso14443CrcTypeA tx;
                L \<leftarrow> encrypt_and_tx (L\<lparr>mfl_tx_plain_buffer := tx\<rparr>);
                Some (MfClassicListenerCommandProcessed, L) }) }) })"

definition mf_classic_listener_write_block_first_part_handler ::
  "MfClassicListener \<Rightarrow> BitBuffer \<Rightarrow> (MfClassicListenerCommand \<times> MfClassicListener) option" where
  "mf_classic_listener_write_block_first_part_handler L buff =
     (let auth_ctx = mfl_auth_context L in
      if mfl_state L \<noteq> MfClassicListenerStateAuthComplete then Some (MfClassicListenerCommandNack, L)
      else do {
        block_num \<leftarrow> bit_buffer_get_byte buff 1;
        (if unat block_num \<ge> mfl_total_block_num L then Some (MfClassicListenerCommandNack, L)
         else if block_num = 0 then Some (MfClassicListenerCommandNack, L)
         else let sector_num = mf_classic_get_sector_by_block block_num;
                  auth_sector_num = mf_classic_get_sector_by_block (ac_block_num auth_ctx) in
           if sector_num \<noteq> auth_sector_num then Some (MfClassicListenerCommandNack, L)
           else Some (MfClassicListenerCommandAck, L\<lparr>mfl_write_block := block_num, mfl_cmd_in_progress := True,
                  mfl_current_cmd_handler_idx := mfl_current_cmd_handler_idx L + 1\<rparr>)) })"

text \<open>The new contents of the block; \<open>None\<close> inside when no part of it may be written.\<close>

definition written_block :: "MfClassicData \<Rightarrow> u8 \<Rightarrow> MfClassicKeyType \<Rightarrow> BitBuffer \<Rightarrow> MfClassicBlock \<Rightarrow> MfClassicBlock option option" where
  "written_block data block_num key_type buff block =
     (if mf_classic_is_sector_trailer block_num then do {
        a \<leftarrow> mf_classic_is_allowed_access data block_num key_type MfClassicActionKeyAWrite;
        b \<leftarrow> mf_classic_is_allowed_access data block_num key_type MfClassicActionKeyBWrite;
        c \<leftarrow> mf_classic_is_allowed_access data block_num key_type MfClassicActionACWrite;
        (if \<not> a \<and> \<not> b \<and> \<not> c then Some None
         else do {
           block \<leftarrow> (if a then do {
               k \<leftarrow> bit_buffer_write_bytes_mid buff (key_a_of block) 0 MF_CLASSIC_KEY_SIZE;
               memcpy block 0 k 0 MF_CLASSIC_KEY_SIZE } else Some block);
           block \<leftarrow> (if b then do {
               k \<leftarrow> bit_buffer_write_bytes_mid buff (key_b_of block) 10 MF_CLASSIC_KEY_SIZE;
               memcpy block 10 k 0 MF_CLASSIC_KEY_SIZE } else Some block);
           block \<leftarrow> (if c then do {
               k \<leftarrow> bit_buffer_write_bytes_mid buff (access_bits_of block) 6 MF_CLASSIC_ACCESS_BYTES_SIZE;
               memcpy block 6 k 0 MF_CLASSIC_ACCESS_BYTES_SIZE } else Some block);
           Some (Some block) }) }
      else do {
        ok \<leftarrow> mf_classic_is_allowed_access data block_num key_type MfClassicActionDataWrite;
        (if ok then map_option Some (bit_buffer_write_bytes_mid buff block 0 MF_CLASSIC_BLOCK_SIZE) else Some None) })"

definition mf_classic_listener_write_block_second_part_handler ::
  "MfClassicListener \<Rightarrow> BitBuffer \<Rightarrow> (MfClassicListenerCommand \<times> MfClassicListener) option" where
  "mf_classic_listener_write_block_second_part_handler L buff =
     (let auth_ctx = mfl_auth_context L; L = L\<lparr>mfl_cmd_in_progress := False\<rparr> in
      if bit_buffer_get_size_bytes buff \<noteq> MF_CLASSIC_BLOCK_SIZE then Some (MfClassicListenerCommandNack, L)
      else do {
        let block_num = mfl_write_block L;
        block \<leftarrow> rd (mfc_block (mfl_data L)) (unat block_num);
        block \<leftarrow> written_block (mfl_data L) block_num (ac_key_type auth_ctx) buff block;
        (case block of
           None \<Rightarrow> Some (MfClassicListenerCommandNack, L)
         | Some block \<Rightarrow> do {
             blocks \<leftarrow> wr (mfc_block (mfl_data L)) (unat block_num) block;
             Some (MfClassicListenerCommandAck, L\<lparr>mfl_data := (mfl_data L)\<lparr>mfc_block := blocks\<rparr>\<rparr>) }) })"

definition mf_classic_listener_value_cmd_handler :: "MfClassicListener \<Rightarrow> BitBuffer \<Rightarrow> (MfClassicListenerCommand \<times> MfClassicListener) option" where
  "mf_classic_listener_value_cmd_handler L buff =
     (let auth_ctx = mfl_auth_context L in
      if mfl_state L \<noteq> MfClassicListenerStateAuthComplete then Some (MfClassicListenerCommandNack, L)
      else do {
        block_num \<leftarrow> bit_buffer_get_byte buff 1;
        (if unat block_num \<ge> mfl_total_block_num L then Some (MfClassicListenerCommandNack, L)
         else if mf_classic_get_sector_by_block block_num \<noteq> mf_classic_get_sector_by_block (ac_block_num auth_ctx)
           then Some (MfClassicListenerCommandNack, L)
         else do {
           cmd \<leftarrow> bit_buffer_get_byte buff 0;
           (case (if cmd = MF_CLASSIC_CMD_VALUE_DEC then Some (MfClassicValueCommandDecrement, MfClassicActionDataDec)
                  else if cmd = MF_CLASSIC_CMD_VALUE_INC then Some (MfClassicValueCommandIncrement, MfClassicActionDataInc)
                  else if cmd = MF_CLASSIC_CMD_VALUE_RESTORE then Some (MfClassicValueCommandRestore, MfClassicActionDataDec)
                  else None) of
              None \<Rightarrow> Some (MfClassicListenerCommandNack, L)
            | Some (value_cmd, action) \<Rightarrow> do {
                let L = L\<lparr>mfl_value_cmd := value_cmd\<rparr>;
                ok \<leftarrow> mf_classic_is_allowed_access (mfl_data L) block_num (ac_key_type auth_ctx) action;
                (if \<not> ok then Some (MfClassicListenerCommandNack, L)
                 else do {
                   block \<leftarrow> rd (mfc_block (mfl_data L)) (unat block_num);
                   let (valid, value, _) = mf_classic_block_to_value block;
                   let L = L\<lparr>mfl_transfer_value := value\<rparr>;
                   (if \<not> valid then Some (MfClassicListenerCommandNack, L)
                    else Some (MfClassicListenerCommandAck, L\<lparr>mfl_transfer_valid := True, mfl_cmd_in_progress := True,
                           mfl_current_cmd_handler_idx := mfl_current_cmd_handler_idx L + 1\<rparr>)) }) }) }) })"

definition mf_classic_listener_value_dec_handler :: "MfClassicListener \<Rightarrow> BitBuffer \<Rightarrow> (MfClassicListenerCommand \<times> MfClassicListener) option" where
  "mf_classic_listener_value_dec_handler L buff = mf_classic_listener_value_cmd_handler L buff"

definition mf_classic_listener_value_inc_handler :: "MfClassicListener \<Rightarrow> BitBuffer \<Rightarrow> (MfClassicListenerCommand \<times> MfClassicListener) option" where
  "mf_classic_listener_value_inc_handler L buff = mf_classic_listener_value_cmd_handler L buff"

definition mf_classic_listener_value_restore_handler :: "MfClassicListener \<Rightarrow> BitBuffer \<Rightarrow> (MfClassicListenerCommand \<times> MfClassicListener) option" where
  "mf_classic_listener_value_restore_handler L buff = mf_classic_listener_value_cmd_handler L buff"

text \<open>The operand is an \<open>int32_t\<close>: a negation or a sum that does not fit one is undefined in C and \<open>None\<close> here.\<close>

definition int32 :: "int \<Rightarrow> int option" where
  "int32 x = (if - (2 ^ 31) \<le> x \<and> x < 2 ^ 31 then Some x else None)"

definition mf_classic_listener_value_data_receive_handler :: "MfClassicListener \<Rightarrow> BitBuffer \<Rightarrow> (MfClassicListenerCommand \<times> MfClassicListener) option" where
  "mf_classic_listener_value_data_receive_handler L buff =
     (if bit_buffer_get_size_bytes buff \<noteq> 4 then Some (MfClassicListenerCommandNack, L)
      else do {
        bytes \<leftarrow> bit_buffer_write_bytes_mid buff (replicate 4 0) 0 4;
        let data = sint (of_le_bytes bytes :: u32);
        data \<leftarrow> (if data < 0 then int32 (- data) else Some data);
        data \<leftarrow> (if mfl_value_cmd L = MfClassicValueCommandDecrement then int32 (- data)
                 else if mfl_value_cmd L = MfClassicValueCommandRestore then Some 0 else Some data);
        transfer_value \<leftarrow> int32 (sint (mfl_transfer_value L) + data);
        Some (MfClassicListenerCommandSilent, L\<lparr>mfl_transfer_value := word_of_int transfer_value, mfl_transfer_valid := True,
          mfl_cmd_in_progress := True, mfl_current_cmd_handler_idx := mfl_current_cmd_handler_idx L + 1\<rparr>) })"

definition mf_classic_listener_value_transfer_handler :: "MfClassicListener \<Rightarrow> BitBuffer \<Rightarrow> (MfClassicListenerCommand \<times> MfClassicListener) option" where
  "mf_classic_listener_value_transfer_handler L buff =
     (let auth_ctx = mfl_auth_context L; L = L\<lparr>mfl_cmd_in_progress := False\<rparr> in
      if bit_buffer_get_size_bytes buff \<noteq> 2 then Some (MfClassicListenerCommandNack, L)
      else do {
        b0 \<leftarrow> bit_buffer_get_byte buff 0;
        (if b0 \<noteq> MF_CLASSIC_CMD_VALUE_TRANSFER then Some (MfClassicListenerCommandNack, L)
         else do {
           block_num \<leftarrow> bit_buffer_get_byte buff 1;
           ok \<leftarrow> mf_classic_is_allowed_access (mfl_data L) block_num (ac_key_type auth_ctx) MfClassicActionDataDec;
           (if \<not> ok then Some (MfClassicListenerCommandNack, L)
            else do {
              block \<leftarrow> rd (mfc_block (mfl_data L)) (unat block_num);
              block \<leftarrow> mf_classic_value_to_block (mfl_transfer_value L) block_num block;
              Some (MfClassicListenerCommandAck, L\<lparr>
                mfl_data := (mfl_data L)\<lparr>mfc_block := (mfc_block (mfl_data L))[unat block_num := block]\<rparr>,
                mfl_transfer_value := 0, mfl_transfer_valid := False\<rparr>) }) }) })"

section \<open>The commands and the listener\<close>

record MfClassicListenerCmd =
  lc_cmd_start_byte :: u8
  lc_cmd_len_bits :: nat
  lc_handler :: "(MfClassicListener \<Rightarrow> BitBuffer \<Rightarrow> (MfClassicListenerCommand \<times> MfClassicListener) option) list"

definition mf_classic_listener_cmd_handlers :: "u8 list \<Rightarrow> MfClassicListenerCmd list" where
  "mf_classic_listener_cmd_handlers rnd =
     (let auth_key_a_handlers = [mf_classic_listener_auth_key_a_handler rnd, mf_classic_listener_auth_second_part_handler];
          auth_key_b_handlers = [mf_classic_listener_auth_key_b_handler rnd, mf_classic_listener_auth_second_part_handler];
          write_block_handlers = [mf_classic_listener_write_block_first_part_handler, mf_classic_listener_write_block_second_part_handler]
      in [\<lparr>lc_cmd_start_byte = MF_CLASSIC_CMD_HALT_MSB, lc_cmd_len_bits = 2 * 8, lc_handler = [mf_classic_listener_halt_handler]\<rparr>,
          \<lparr>lc_cmd_start_byte = MF_CLASSIC_CMD_HALT_MSB, lc_cmd_len_bits = 15, lc_handler = [mf_classic_listener_halt_handler]\<rparr>,
          \<lparr>lc_cmd_start_byte = MF_CLASSIC_CMD_AUTH_KEY_A, lc_cmd_len_bits = 2 * 8, lc_handler = auth_key_a_handlers\<rparr>,
          \<lparr>lc_cmd_start_byte = MF_CLASSIC_CMD_AUTH_KEY_B, lc_cmd_len_bits = 2 * 8, lc_handler = auth_key_b_handlers\<rparr>,
          \<lparr>lc_cmd_start_byte = MF_CLASSIC_CMD_READ_BLOCK, lc_cmd_len_bits = 2 * 8, lc_handler = [mf_classic_listener_read_block_handler]\<rparr>,
          \<lparr>lc_cmd_start_byte = MF_CLASSIC_CMD_WRITE_BLOCK, lc_cmd_len_bits = 2 * 8, lc_handler = write_block_handlers\<rparr>,
          \<lparr>lc_cmd_start_byte = MF_CLASSIC_CMD_VALUE_DEC, lc_cmd_len_bits = 2 * 8,
           lc_handler = [mf_classic_listener_value_dec_handler, mf_classic_listener_value_data_receive_handler, mf_classic_listener_value_transfer_handler]\<rparr>,
          \<lparr>lc_cmd_start_byte = MF_CLASSIC_CMD_VALUE_INC, lc_cmd_len_bits = 2 * 8,
           lc_handler = [mf_classic_listener_value_inc_handler, mf_classic_listener_value_data_receive_handler, mf_classic_listener_value_transfer_handler]\<rparr>,
          \<lparr>lc_cmd_start_byte = MF_CLASSIC_CMD_VALUE_RESTORE, lc_cmd_len_bits = 2 * 8,
           lc_handler = [mf_classic_listener_value_restore_handler, mf_classic_listener_value_data_receive_handler, mf_classic_listener_value_transfer_handler]\<rparr>])"

definition mf_classic_listener_send_short_frame :: "MfClassicListener \<Rightarrow> u8 \<Rightarrow> MfClassicListener option" where
  "mf_classic_listener_send_short_frame L data = do {
     tx \<leftarrow> bit_buffer_set_size (mfl_tx_plain_buffer L) 4;
     tx \<leftarrow> bit_buffer_set_byte tx 0 data;
     let L = L\<lparr>mfl_tx_plain_buffer := tx\<rparr>;
     (if mfl_comm_state L = MfClassicListenerCommStateEncrypted then encrypt_and_tx L
      else Some (listener_tx_with_custom_parity (mfl_tx_plain_buffer L) L)) }"

text \<open>Looking up the command of a frame: the first entry of its length and start byte.\<close>

fun dispatch :: "nat \<Rightarrow> MfClassicListenerCmd list \<Rightarrow> MfClassicListener \<Rightarrow> BitBuffer \<Rightarrow> (MfClassicListenerCommand \<times> MfClassicListener) option" where
  "dispatch i [] L buff = Some (MfClassicListenerCommandNack, L)"
| "dispatch i (c # cs) L buff =
     (if bit_buffer_get_size buff \<noteq> lc_cmd_len_bits c then dispatch (Suc i) cs L buff
      else do {
        b \<leftarrow> bit_buffer_get_byte buff 0;
        (if b \<noteq> lc_cmd_start_byte c then dispatch (Suc i) cs L buff
         else do {
           handler \<leftarrow> (case lc_handler c of [] \<Rightarrow> None | h # _ \<Rightarrow> Some h);
           handler (L\<lparr>mfl_current_cmd_idx := i, mfl_current_cmd_handler_idx := 0\<rparr>) buff }) })"

definition receive_plain :: "MfClassicListener \<Rightarrow> BitBuffer \<Rightarrow> (BitBuffer \<times> MfClassicListener) option" where
  "receive_plain L buffer =
     (if mfl_comm_state L = MfClassicListenerCommStateEncrypted \<and> mfl_state L = MfClassicListenerStateAuthComplete then do {
        (crypto, rx) \<leftarrow> crypto1_decrypt (mfl_crypto L) buffer (mfl_rx_plain_buffer L);
        ok \<leftarrow> iso14443_crc_check Iso14443CrcTypeA rx;
        rx \<leftarrow> (if ok then iso14443_crc_trim rx else Some rx);
        Some (rx, L\<lparr>mfl_crypto := crypto, mfl_rx_plain_buffer := rx\<rparr>) }
      else Some (buffer, L))"

definition handle_frame :: "u8 list \<Rightarrow> MfClassicListener \<Rightarrow> BitBuffer \<Rightarrow> (MfClassicListenerCommand \<times> MfClassicListener) option" where
  "handle_frame rnd L buff =
     (if mfl_cmd_in_progress L then do {
        let cmds = mf_classic_listener_cmd_handlers rnd;
        cmd \<leftarrow> (if mfl_current_cmd_idx L < length cmds then Some (cmds ! mfl_current_cmd_idx L) else None);
        handler \<leftarrow> (if mfl_current_cmd_handler_idx L < length (lc_handler cmd)
          then Some (lc_handler cmd ! mfl_current_cmd_handler_idx L) else None);
        handler L buff }
      else dispatch 0 (mf_classic_listener_cmd_handlers rnd) L buff)"

definition answer_command :: "MfClassicListenerCommand \<Rightarrow> MfClassicListener \<Rightarrow> (NfcCommand \<times> MfClassicListener) option" where
  "answer_command mfc_command L = (case mfc_command of
       MfClassicListenerCommandAck \<Rightarrow> do {
         L \<leftarrow> mf_classic_listener_send_short_frame L MF_CLASSIC_CMD_ACK;
         Some (NfcCommandContinue, L) }
     | MfClassicListenerCommandNack \<Rightarrow> do {
         let nack = (if mfl_transfer_valid L then MF_CLASSIC_CMD_NACK else MF_CLASSIC_CMD_NACK + MF_CLASSIC_CMD_NACK_TRANSFER_INVALID);
         L \<leftarrow> mf_classic_listener_send_short_frame L nack;
         Some (NfcCommandSleep, mf_classic_listener_reset_state L) }
     | MfClassicListenerCommandSilent \<Rightarrow> Some (NfcCommandReset, L)
     | MfClassicListenerCommandSleep \<Rightarrow> Some (NfcCommandSleep, mf_classic_listener_reset_state L)
     | MfClassicListenerCommandProcessed \<Rightarrow> Some (NfcCommandContinue, L))"

definition listener_receive :: "u8 list \<Rightarrow> BitBuffer \<Rightarrow> MfClassicListener \<Rightarrow> (NfcCommand \<times> MfClassicListener) option" where
  "listener_receive rnd buffer L = do {
     (buff, L) \<leftarrow> receive_plain L buffer;
     (mfc_command, L) \<leftarrow> handle_frame rnd L buff;
     answer_command mfc_command L }"

fun mf_classic_listener_run :: "u8 list \<Rightarrow> Iso14443_3aListenerEvent \<Rightarrow> MfClassicListener \<Rightarrow> (NfcCommand \<times> MfClassicListener) option" where
  "mf_classic_listener_run rnd Iso14443_3aListenerEventTypeFieldOff L = Some (NfcCommandSleep, mf_classic_listener_reset_state L)"
| "mf_classic_listener_run rnd (Iso14443_3aListenerEventTypeReceivedData buffer) L = listener_receive rnd buffer L"
| "mf_classic_listener_run rnd (Iso14443_3aListenerEventTypeReceivedStandardFrame buffer) L = listener_receive rnd buffer L"
| "mf_classic_listener_run rnd Iso14443_3aListenerEventTypeHalted L = Some (NfcCommandContinue, mf_classic_listener_reset_state L)"

end
