(* ===== verification/MfClassicHandlers.thy ===== *)
theory MfClassicHandlers
  imports MfClassicListener
begin

text \<open>
  What the handlers do on a well-formed listener (\<open>mfl_wf\<close>): the authentication (\<open>auth_first_spec\<close>,
  \<open>auth_second_spec\<close>), reading (\<open>read_spec\<close>), writing (\<open>block_after_write\<close>) and the value commands. Each is
  \<open>handled\<close>: it returns a listener that is well-formed unless a reset follows.
\<close>

section \<open>Well-formed listeners\<close>

definition frame_ok :: "BitBuffer \<Rightarrow> bool" where
  "frame_ok b \<longleftrightarrow> bb_wf b \<and> 2 \<le> bb_capacity_bytes b"

definition buf64 :: "BitBuffer \<Rightarrow> bool" where
  "buf64 b \<longleftrightarrow> bb_wf b \<and> bb_capacity_bytes b = 64"

definition context_wf :: "MfClassicAuthContext \<Rightarrow> bool" where
  "context_wf a \<longleftrightarrow> length (ac_nt a) = 4 \<and> length (ac_nr a) = 4 \<and> length (ac_ar a) = 4 \<and> length (ac_at a) = 4"

text \<open>What no handler ever breaks.\<close>

definition core_wf :: "MfClassicListener \<Rightarrow> bool" where
  "core_wf L \<longleftrightarrow> mfc_wf (mfl_data L) \<and> buf64 (mfl_tx_plain_buffer L) \<and> buf64 (mfl_tx_encrypted_buffer L)
     \<and> buf64 (mfl_rx_plain_buffer L) \<and> context_wf (mfl_auth_context L)
     \<and> mfl_total_block_num L = unat (blocks_total (mfc_type (mfl_data L)))"

text \<open>
  A command in progress waits for a handler that its table entry has: the second part of the
  authentication (entries 2 and 3), the data of a write (entry 5) to a block of the authenticated sector
  other than block 0, or the operand and the transfer of a value command (entries 6 to 8).
\<close>

definition in_auth_sector :: "MfClassicListener \<Rightarrow> u8 \<Rightarrow> bool" where
  "in_auth_sector L b \<longleftrightarrow> mf_classic_get_sector_by_block b = mf_classic_get_sector_by_block (ac_block_num (mfl_auth_context L))"

definition progress_ok :: "MfClassicListener \<Rightarrow> bool" where
  "progress_ok L \<longleftrightarrow> unat (ac_block_num (mfl_auth_context L)) < mfl_total_block_num L
     \<and> ((mfl_current_cmd_idx L = 2 \<or> mfl_current_cmd_idx L = 3) \<and> mfl_current_cmd_handler_idx L = 1
      \<or> mfl_state L = MfClassicListenerStateAuthComplete
        \<and> (mfl_current_cmd_idx L = 5 \<and> mfl_current_cmd_handler_idx L = 1 \<and> in_auth_sector L (mfl_write_block L)
            \<and> mfl_write_block L \<noteq> 0 \<and> unat (mfl_write_block L) < mfl_total_block_num L
         \<or> (mfl_current_cmd_idx L = 6 \<or> mfl_current_cmd_idx L = 7 \<or> mfl_current_cmd_idx L = 8)
            \<and> (mfl_current_cmd_handler_idx L = 1 \<or> mfl_current_cmd_handler_idx L = 2)))"

definition mfl_wf :: "MfClassicListener \<Rightarrow> bool" where
  "mfl_wf L \<longleftrightarrow> core_wf L
     \<and> (mfl_state L = MfClassicListenerStateAuthComplete \<longrightarrow> mfl_comm_state L = MfClassicListenerCommStateEncrypted
          \<and> unat (ac_block_num (mfl_auth_context L)) < mfl_total_block_num L)
     \<and> (mfl_cmd_in_progress L \<longrightarrow> progress_ok L)"

text \<open>A handler ends well: it returns a listener whose memory satisfies \<open>Q\<close>, well-formed unless a reset follows.\<close>

definition handled :: "(MfClassicData \<Rightarrow> bool) \<Rightarrow> (MfClassicListenerCommand \<times> MfClassicListener) option \<Rightarrow> bool" where
  "handled Q r \<longleftrightarrow> (\<exists>c L. r = Some (c, L) \<and> core_wf L \<and> Q (mfl_data L)
     \<and> (c = MfClassicListenerCommandNack \<or> c = MfClassicListenerCommandSleep \<or> mfl_wf L))"

lemma handledI: "core_wf L \<Longrightarrow> Q (mfl_data L) \<Longrightarrow> c = MfClassicListenerCommandNack \<or> c = MfClassicListenerCommandSleep \<or> mfl_wf L
    \<Longrightarrow> handled Q (Some (c, L))"
  by (simp add: handled_def)

lemma handled_mono: "handled P r \<Longrightarrow> (\<And>d. P d \<Longrightarrow> Q d) \<Longrightarrow> handled Q r"
  by (auto simp: handled_def)

section \<open>Buffers of the listener\<close>

lemma get_byte_ok: "bb_wf b \<Longrightarrow> i < bb_capacity_bytes b \<Longrightarrow> bit_buffer_get_byte b i = Some (bb_data b ! i)"
  by (simp add: bit_buffer_get_byte_def bb_wf_def mem_simps)

lemma frame_bytes: "frame_ok b \<Longrightarrow> bit_buffer_get_byte b 0 = Some (bb_data b ! 0)"
  "frame_ok b \<Longrightarrow> bit_buffer_get_byte b 1 = Some (bb_data b ! 1)"
  "frame_ok b \<Longrightarrow> bit_buffer_get_byte b (Suc 0) = Some (bb_data b ! 1)"
  by (simp_all add: frame_ok_def get_byte_ok)

lemma buf64_frame: "buf64 b \<Longrightarrow> frame_ok b"
  by (simp add: buf64_def frame_ok_def)

lemma copy_bytes_64:
  assumes "buf64 b" "length d = n" "n \<le> 64"
  shows "\<exists>b'. bit_buffer_copy_bytes b d n = Some b' \<and> buf64 b' \<and> bb_bytes b' = d \<and> bb_size_bits b' = 8 * n"
proof -
  have c: "bit_buffer_copy_bytes b d n = Some (b\<lparr>bb_data := d @ drop n (bb_data b), bb_size_bits := n * 8\<rparr>)"
    using assms by (simp add: bit_buffer_copy_bytes_def memcpy_Some buf64_def bb_wf_def)
  moreover have "buf64 (b\<lparr>bb_data := d @ drop n (bb_data b), bb_size_bits := n * 8\<rparr>)"
    using assms by (simp add: buf64_def bb_wf_def)
  moreover have "bb_bytes (b\<lparr>bb_data := d @ drop n (bb_data b), bb_size_bits := n * 8\<rparr>) = d"
    using assms by (simp add: bb_bytes_def bit_buffer_get_size_bytes_def)
  ultimately show ?thesis by simp
qed

lemma crc_append_64:
  assumes "buf64 b" "bb_size_bits b = 8 * n" "n + 2 \<le> 64"
  shows "\<exists>b'. iso14443_crc_append t b = Some b' \<and> buf64 b' \<and> bb_size_bits b' = 8 * (n + 2)
    \<and> bb_bytes b' = bb_bytes b @ le_bytes 2 (iso14443_sum t (bb_bytes b))"
proof -
  have wf: "bb_wf b" and s: "bit_buffer_get_size_bytes b = n" using assms by (simp_all add: buf64_def size_bytes_ceil)
  have "n \<le> length (bb_data b)" using assms wf by (simp add: bb_wf_def)
  from iso14443.crc [OF this, of t] have "iso14443_crc_calculate t (bb_data b) n = Some (iso14443_sum t (bb_bytes b))"
    by (simp add: bb_bytes_def s)
  then show ?thesis
    using append_bytes_spec [OF wf, of 2 "le_bytes 2 (iso14443_sum t (bb_bytes b))"] assms s
    by (auto simp: iso14443_crc_append_def ISO14443_CRC_SIZE_def buf64_def)
qed

text \<open>Decrypting never fails on a frame that fits the buffer.\<close>

lemma decrypt_total:
  assumes "bb_wf buff" "bb_wf out" "0 < bb_size_bits buff" "bb_size_bits buff \<le> 8 * bb_capacity_bytes out"
  shows "\<exists>c' o'. crypto1_decrypt c buff out = Some (c', o') \<and> bb_wf o' \<and> bb_capacity_bytes o' = bb_capacity_bytes out
    \<and> bb_size_bits o' = bb_size_bits buff"
proof -
  define n where "n = bb_size_bits buff"
  let ?out = "out\<lparr>bb_size_bits := n\<rparr>"
  have out: "bit_buffer_set_size out n = Some ?out" "bb_wf ?out"
    using set_size_spec [OF assms(2)] assms(4) by (simp_all add: n_def)
  have len: "n \<le> 8 * length (bb_data buff)" "0 < n" using assms by (simp_all add: bb_wf_def n_def)
  show ?thesis
  proof (cases "n < 8")
    case True
    obtain x c' where x: "decrypt_nibble c (bb_data buff ! 0) = (x, c')" by fastforce
    have "rd (bb_data buff) 0 = Some (bb_data buff ! 0)" by (rule rd_Some) (use len in auto)
    moreover have "bit_buffer_set_byte ?out 0 x = Some (?out\<lparr>bb_data := (bb_data out)[0 := x]\<rparr>)"
      using set_byte_spec [OF out(2), of 0 x] len by (simp add: size_bytes_ceil)
    ultimately have "crypto1_decrypt c buff out = Some (c', ?out\<lparr>bb_data := (bb_data out)[0 := x]\<rparr>)"
      using out(1) True x by (simp add: crypto1_decrypt_def bit_buffer_get_size_def bit_buffer_get_data_def flip: n_def)
    moreover have "bb_wf (?out\<lparr>bb_data := (bb_data out)[0 := x]\<rparr>)" using out(2) by (simp add: bb_wf_def)
    ultimately show ?thesis by (simp flip: n_def)
  next
    case False
    let ?body = "\<lambda>i (crypto, out). do {
             let (k, crypto) = crypto1_byte crypto 0 False;
             x \<leftarrow> rd (bb_data buff) i;
             out \<leftarrow> bit_buffer_set_byte out i (k XOR x);
             Some (crypto, out) }"
    have "\<exists>st. for_loop ?body 0 (n div 8) (c, ?out) = Some st \<and> (bb_wf (snd st) \<and> bb_capacity_bytes (snd st) = bb_capacity_bytes out
        \<and> bb_size_bits (snd st) = n)"
    proof (rule for_loop_rule [where P = "\<lambda>i (st :: Crypto1 \<times> BitBuffer). bb_wf (snd st) \<and> bb_capacity_bytes (snd st) = bb_capacity_bytes out
        \<and> bb_size_bits (snd st) = n"])
      show "bb_wf (snd (c, ?out)) \<and> bb_capacity_bytes (snd (c, ?out)) = bb_capacity_bytes out \<and> bb_size_bits (snd (c, ?out)) = n"
        using out by simp
      fix i and st :: "Crypto1 \<times> BitBuffer" assume i: "0 \<le> i" "i < 0 + n div 8" and st: "bb_wf (snd st) \<and> bb_capacity_bytes (snd st) = bb_capacity_bytes out
        \<and> bb_size_bits (snd st) = n"
      obtain c1 o1 where co: "st = (c1, o1)" by fastforce
      obtain k c2 where k: "crypto1_byte c1 0 False = (k, c2)" by fastforce
      have "rd (bb_data buff) i = Some (bb_data buff ! i)" using len i by (intro rd_Some) simp
      moreover have "i < bit_buffer_get_size_bytes o1" using i st co by (simp add: size_bytes_ceil)
      then have "bit_buffer_set_byte o1 i x = Some (o1\<lparr>bb_data := (bb_data o1)[i := x]\<rparr>)" for x
        using set_byte_spec [of o1 i x] st co by simp
      moreover have "bb_wf (o1\<lparr>bb_data := (bb_data o1)[i := x]\<rparr>)" for x using st co by (simp add: bb_wf_def)
      ultimately show "\<exists>st'. ?body i st = Some st' \<and> (bb_wf (snd st') \<and> bb_capacity_bytes (snd st') = bb_capacity_bytes out
        \<and> bb_size_bits (snd st') = n)"
        using st by (simp add: co k)
    qed
    then obtain c' o' where "for_loop ?body 0 (n div 8) (c, ?out) = Some (c', o')" "bb_wf o'"
      "bb_capacity_bytes o' = bb_capacity_bytes out" "bb_size_bits o' = n" by auto
    then show ?thesis
      using out(1) False by (simp add: crypto1_decrypt_def bit_buffer_get_size_def bit_buffer_get_data_def flip: n_def)
  qed
qed

text \<open>Encrypting and sending the plain frame.\<close>

lemma encrypt_and_tx_bytes:
  assumes "core_wf L" "bb_size_bits (mfl_tx_plain_buffer L) = 8 * n" "0 < n" "n \<le> 64"
  shows "\<exists>tx. encrypt_and_tx L = Some (L\<lparr>mfl_crypto := snd (key_stream (mfl_crypto L) (replicate n 0)),
      mfl_tx_encrypted_buffer := tx, mfl_out := mfl_out L @ [ListenerTxCustomParity tx]\<rparr>)
    \<and> buf64 tx \<and> bb_size_bits tx = 8 * n
    \<and> bb_bytes tx = map2 (XOR) (fst (key_stream (mfl_crypto L) (replicate n 0))) (bb_bytes (mfl_tx_plain_buffer L))"
proof -
  obtain tx where "crypto1_encrypt (mfl_crypto L) None (mfl_tx_plain_buffer L) (mfl_tx_encrypted_buffer L)
      = Some (snd (key_stream (mfl_crypto L) (replicate n 0)), tx)" "bb_wf tx" "bb_capacity_bytes tx = 64" "bb_size_bits tx = 8 * n"
    "bb_bytes tx = map2 (XOR) (fst (key_stream (mfl_crypto L) (replicate n 0))) (bb_bytes (mfl_tx_plain_buffer L))"
    using encrypt_bytes [of "mfl_tx_plain_buffer L" "mfl_tx_encrypted_buffer L" n "replicate n 0" None "mfl_crypto L"] assms
    by (auto simp: core_wf_def buf64_def)
  then show ?thesis by (auto simp: encrypt_and_tx_def listener_tx_with_custom_parity_def buf64_def)
qed

lemma encrypt_and_tx_short:
  assumes "core_wf L" "bb_size_bits (mfl_tx_plain_buffer L) = 4"
  shows "\<exists>c' tx. encrypt_and_tx L = Some (L\<lparr>mfl_crypto := c', mfl_tx_encrypted_buffer := tx,
      mfl_out := mfl_out L @ [ListenerTxCustomParity tx]\<rparr>) \<and> buf64 tx"
proof -
  let ?e = "mfl_tx_encrypted_buffer L"
  define tx where "tx = ?e\<lparr>bb_size_bits := 4, bb_data := (bb_data ?e)[0 := (nibble_stream (mfl_crypto L) XOR bb_data (mfl_tx_plain_buffer L) ! 0) AND 0xF]\<rparr>"
  have wf: "bb_wf (mfl_tx_plain_buffer L)" "bb_wf ?e" "buf64 tx"
    using assms(1) by (auto simp: core_wf_def buf64_def bb_wf_def tx_def)
  have "encrypt_and_tx L = Some (L\<lparr>mfl_crypto := snd (encrypt_bits (mfl_crypto L) 0 4), mfl_tx_encrypted_buffer := tx,
      mfl_out := mfl_out L @ [ListenerTxCustomParity tx]\<rparr>)"
    using encrypt_short [OF wf(1,2) assms(2), of "mfl_crypto L" None]
    by (simp add: encrypt_and_tx_def listener_tx_with_custom_parity_def flip: tx_def)
  with wf(3) show ?thesis by blast
qed

lemma send_short_frame_ok:
  assumes "core_wf L"
  shows "\<exists>c' p tx out. mf_classic_listener_send_short_frame L x = Some (L\<lparr>mfl_tx_plain_buffer := p, mfl_crypto := c',
      mfl_tx_encrypted_buffer := tx, mfl_out := out\<rparr>) \<and> buf64 p \<and> buf64 tx"
proof -
  define p where "p = (mfl_tx_plain_buffer L)\<lparr>bb_size_bits := 4, bb_data := (bb_data (mfl_tx_plain_buffer L))[0 := x]\<rparr>"
  have wf: "bb_wf (mfl_tx_plain_buffer L)" "bb_capacity_bytes (mfl_tx_plain_buffer L) = 64"
    using assms by (simp_all add: core_wf_def buf64_def)
  have p: "buf64 p" "bb_size_bits p = 4" using wf by (simp_all add: p_def buf64_def bb_wf_def)
  have run: "bit_buffer_set_size (mfl_tx_plain_buffer L) 4 \<bind> (\<lambda>tx. bit_buffer_set_byte tx 0 x) = Some p"
    using set_size_spec [OF wf(1), of 4] wf(2) set_byte_spec [of "(mfl_tx_plain_buffer L)\<lparr>bb_size_bits := 4\<rparr>" 0 x]
    by (simp add: p_def size_bytes_ceil)
  have core: "core_wf (L\<lparr>mfl_tx_plain_buffer := p\<rparr>)" using assms p by (simp add: core_wf_def)
  have eq: "mf_classic_listener_send_short_frame L x =
      (if mfl_comm_state L = MfClassicListenerCommStateEncrypted then encrypt_and_tx (L\<lparr>mfl_tx_plain_buffer := p\<rparr>)
       else Some (listener_tx_with_custom_parity p (L\<lparr>mfl_tx_plain_buffer := p\<rparr>)))"
    unfolding mf_classic_listener_send_short_frame_def bind_assoc [symmetric] run by simp
  show ?thesis
  proof (cases "mfl_comm_state L = MfClassicListenerCommStateEncrypted")
    case True
    with encrypt_and_tx_short [OF core] p eq show ?thesis by auto
  next
    case False
    then have "mf_classic_listener_send_short_frame L x = Some (L\<lparr>mfl_tx_plain_buffer := p, mfl_crypto := mfl_crypto L,
      mfl_tx_encrypted_buffer := mfl_tx_encrypted_buffer L, mfl_out := mfl_out L @ [ListenerTxCustomParity p]\<rparr>)"
      by (simp add: eq listener_tx_with_custom_parity_def)
    with p assms show ?thesis unfolding core_wf_def by blast
  qed
qed

section \<open>Authentication\<close>

lemma listener_event_out: "listener_event t L
    = L\<lparr>mfl_out := mfl_out L @ (if mfl_callback L then [ListenerEvent t (mfl_auth_context L)] else [])\<rparr>"
  by (simp add: listener_event_def)

definition card_key :: "MfClassicData \<Rightarrow> MfClassicKeyType \<Rightarrow> u8 \<Rightarrow> u64" where
  "card_key d kt b = (let t = mfc_block d ! trailer_index (unat (mf_classic_get_sector_by_block b))
     in of_le_bytes (rev (if kt = MfClassicKeyTypeA then key_a_of t else key_b_of t)))"

definition card_cuid :: "MfClassicData \<Rightarrow> u32" where
  "card_cuid d = (case iso14443_3a_get_cuid (mfc_iso14443_3a_data d) of Some c \<Rightarrow> c | None \<Rightarrow> 0)"

lemma cuid_ok: "mfc_wf d \<Longrightarrow> iso14443_3a_get_cuid (mfc_iso14443_3a_data d) = Some (card_cuid d)"
  by (simp add: iso14443_3a_get_cuid_def card_cuid_def mfc_wf_def mem_simps ISO14443_3A_UID_7_BYTES_def)

definition be_bytes :: "u32 \<Rightarrow> u8 list" where
  "be_bytes w = rev (le_bytes 4 w)"

lemma length_be_bytes [simp]: "length (be_bytes w) = 4"
  by (simp add: be_bytes_def)

lemma be32_be_bytes [simp]: "be32 (be_bytes w) = w"
  by (simp add: be32_def be_bytes_def of_le_bytes_4)

lemma num_to_be_bytes: "length d = 4 \<Longrightarrow> bit_lib_num_to_bytes_be (ucast (w :: u32)) 4 d = Some (be_bytes w)"
proof -
  have "le_bytes 4 (ucast w :: u64) = le_bytes 4 w"
    unfolding le_bytes_def by (rule map_cong [OF refl], rule bit_word_eqI) (auto simp: bit_simps)
  then show "length d = 4 \<Longrightarrow> ?thesis"
    by (simp add: bit_lib_num_to_bytes_be_def num_to_bytes_be_loop_spec be_bytes_def)
qed

lemma crypto1_word_be_bytes: "snd (crypto1_word c w False) = snd (key_stream c (be_bytes w))"
  using crypto1_word_bytes [of "be_bytes w" c] by simp

text \<open>The cipher of the card once its nonce has gone in, and what it sends.\<close>

definition card_session :: "MfClassicListener \<Rightarrow> MfClassicKeyType \<Rightarrow> u8 \<Rightarrow> u8 list \<Rightarrow> Crypto1" where
  "card_session L kt b nt =
     snd (crypto1_word (crypto1_init (mfl_crypto L) (card_key (mfl_data L) kt b)) (be32 nt XOR card_cuid (mfl_data L)) False)"

definition nonce_sent :: "MfClassicListener \<Rightarrow> MfClassicKeyType \<Rightarrow> u8 \<Rightarrow> u8 list \<Rightarrow> BitBuffer \<Rightarrow> ListenerOutput \<Rightarrow> bool" where
  "nonce_sent L kt b nt tx o' \<longleftrightarrow> (if mfl_comm_state L = MfClassicListenerCommStatePlain then o' = ListenerTx tx \<and> bb_bytes tx = nt
     else o' = ListenerTxCustomParity tx \<and> bb_bytes tx = map2 (XOR) (fst (key_stream
         (crypto1_init (mfl_crypto L) (card_key (mfl_data L) kt b)) (be_bytes (be32 nt XOR card_cuid (mfl_data L))))) nt)"

lemma auth_first_spec:
  assumes wf: "core_wf L" and nt: "length nt = 4" and b: "unat b < mfl_total_block_num L"
  shows "\<exists>p tx o'. mf_classic_listener_auth_first_part_handler nt L kt b = Some (MfClassicListenerCommandProcessed,
      L\<lparr>mfl_state := MfClassicListenerStateIdle,
        mfl_auth_context := (mfl_auth_context L)\<lparr>ac_key_type := kt, ac_block_num := b, ac_nt := nt\<rparr>,
        mfl_crypto := card_session L kt b nt, mfl_tx_plain_buffer := p, mfl_tx_encrypted_buffer := tx,
        mfl_out := mfl_out L @ [o'], mfl_cmd_in_progress := True, mfl_current_cmd_handler_idx := mfl_current_cmd_handler_idx L + 1\<rparr>)
    \<and> buf64 p \<and> buf64 tx \<and> bb_size_bits tx = 32 \<and> nonce_sent L kt b nt tx o'"
proof -
  let ?t = "mfc_block (mfl_data L) ! trailer_index (unat (mf_classic_get_sector_by_block b))"
  let ?k = "if kt = MfClassicKeyTypeA then key_a_of ?t else key_b_of ?t"
  let ?c0 = "crypto1_init (mfl_crypto L) (card_key (mfl_data L) kt b)"
  have d: "mfc_wf (mfl_data L)" using wf by (simp add: core_wf_def)
  have "unat (mf_classic_get_sector_by_block b) < 40" using sector_less_40 by (simp add: less_40)
  then have "length ?t = 16" by (rule sector_trailer_spec(2) [OF d])
  then have lk: "length ?k = 6" by (simp add: length_trailer_parts)
  then have key: "bit_lib_bytes_to_num_be ?k MF_CLASSIC_KEY_SIZE = Some (card_key (mfl_data L) kt b)"
    by (simp add: bytes_to_num_be_spec MF_CLASSIC_KEY_SIZE_def card_key_def)
  have m: "memcpy (ac_nt (mfl_auth_context L)) 0 nt 0 4 = Some nt"
    using wf nt by (simp add: core_wf_def context_wf_def memcpy_all)
  have n: "map_option ucast (bit_lib_bytes_to_num_be nt 4) = Some (be32 nt)" by (rule be32_bytes [OF nt])
  have bufs: "buf64 (mfl_tx_plain_buffer L)" "buf64 (mfl_tx_encrypted_buffer L)" using wf by (simp_all add: core_wf_def)
  note pre = sector_trailer_of_block [OF d] cuid_ok [OF d]
  show ?thesis
  proof (cases "mfl_comm_state L = MfClassicListenerCommStatePlain")
    case True
    obtain tx where tx: "bit_buffer_copy_bytes (mfl_tx_encrypted_buffer L) nt 4 = Some tx" "buf64 tx" "bb_bytes tx = nt" "bb_size_bits tx = 32"
      using copy_bytes_64 [OF bufs(2) nt] by auto
    have "mf_classic_listener_auth_first_part_handler nt L kt b = Some (MfClassicListenerCommandProcessed,
      L\<lparr>mfl_state := MfClassicListenerStateIdle,
        mfl_auth_context := (mfl_auth_context L)\<lparr>ac_key_type := kt, ac_block_num := b, ac_nt := nt\<rparr>,
        mfl_crypto := card_session L kt b nt, mfl_tx_plain_buffer := mfl_tx_plain_buffer L, mfl_tx_encrypted_buffer := tx,
        mfl_out := mfl_out L @ [ListenerTx tx], mfl_cmd_in_progress := True, mfl_current_cmd_handler_idx := mfl_current_cmd_handler_idx L + 1\<rparr>)"
      using b by (simp add: mf_classic_listener_auth_first_part_handler_def pre key [simplified] m n True tx(1) Let_def not_le
          card_session_def listener_tx_def)
    then show ?thesis
      by (intro exI [of _ "mfl_tx_plain_buffer L"] exI [of _ tx] exI [of _ "ListenerTx tx"])
        (use tx bufs in \<open>simp add: nonce_sent_def True\<close>)
  next
    case False
    obtain p where p: "bit_buffer_copy_bytes (mfl_tx_plain_buffer L) nt 4 = Some p" "buf64 p" "bb_bytes p = nt" "bb_size_bits p = 8 * 4"
      using copy_bytes_64 [OF bufs(1) nt] by auto
    let ?f = "be_bytes (be32 nt XOR card_cuid (mfl_data L))"
    obtain tx where tx: "crypto1_encrypt ?c0 (Some ?f) p (mfl_tx_encrypted_buffer L) = Some (snd (key_stream ?c0 ?f), tx)"
      "buf64 tx" "bb_size_bits tx = 32" "bb_bytes tx = map2 (XOR) (fst (key_stream ?c0 ?f)) nt"
      using encrypt_bytes [of p "mfl_tx_encrypted_buffer L" 4 ?f "Some ?f" ?c0] p bufs by (auto simp: buf64_def)
    have "mf_classic_listener_auth_first_part_handler nt L kt b = Some (MfClassicListenerCommandProcessed,
      L\<lparr>mfl_state := MfClassicListenerStateIdle,
        mfl_auth_context := (mfl_auth_context L)\<lparr>ac_key_type := kt, ac_block_num := b, ac_nt := nt\<rparr>,
        mfl_crypto := card_session L kt b nt, mfl_tx_plain_buffer := p, mfl_tx_encrypted_buffer := tx,
        mfl_out := mfl_out L @ [ListenerTxCustomParity tx], mfl_cmd_in_progress := True, mfl_current_cmd_handler_idx := mfl_current_cmd_handler_idx L + 1\<rparr>)"
      using b by (simp add: mf_classic_listener_auth_first_part_handler_def pre key [simplified] m n False tx(1) p(1) Let_def not_le
          card_session_def crypto1_word_be_bytes num_to_be_bytes listener_tx_with_custom_parity_def)
    then show ?thesis using tx(2-4) p(2) by (auto simp: nonce_sent_def False)
  qed
qed

lemma auth_first_handled:
  assumes "core_wf L" "length nt = 4" "mfl_current_cmd_idx L = 2 \<or> mfl_current_cmd_idx L = 3" "mfl_current_cmd_handler_idx L = 0"
  shows "handled (\<lambda>d. d = mfl_data L) (mf_classic_listener_auth_first_part_handler nt L kt b)"
proof (cases "unat b < mfl_total_block_num L")
  case True
  from auth_first_spec [OF assms(1,2) True, of kt] obtain p tx o' where
    run: "mf_classic_listener_auth_first_part_handler nt L kt b = Some (MfClassicListenerCommandProcessed,
      L\<lparr>mfl_state := MfClassicListenerStateIdle,
        mfl_auth_context := (mfl_auth_context L)\<lparr>ac_key_type := kt, ac_block_num := b, ac_nt := nt\<rparr>,
        mfl_crypto := card_session L kt b nt, mfl_tx_plain_buffer := p, mfl_tx_encrypted_buffer := tx,
        mfl_out := mfl_out L @ [o'], mfl_cmd_in_progress := True, mfl_current_cmd_handler_idx := mfl_current_cmd_handler_idx L + 1\<rparr>)"
    "buf64 p" "buf64 tx" by blast
  show ?thesis unfolding run(1)
    by (rule handledI) (use assms run(2,3) True in \<open>auto simp: core_wf_def context_wf_def mfl_wf_def progress_ok_def\<close>)
next
  case False
  then show ?thesis using assms(1)
    by (simp add: mf_classic_listener_auth_first_part_handler_def handled_def core_wf_def)
qed

text \<open>The second part: the reader's answer is accepted exactly when it decrypts to the successor of the nonce.\<close>

definition answer_accepted :: "MfClassicListener \<Rightarrow> u8 list \<Rightarrow> bool" where
  "answer_accepted L bs \<longleftrightarrow>
     be32 (drop 4 bs) XOR fst (crypto1_word (snd (crypto1_word (mfl_crypto L) (be32 (take 4 bs)) True)) 0 False)
       = prng_successor (be32 (ac_nt (mfl_auth_context L))) 64"

lemma auth_second_spec:
  assumes wf: "core_wf L" and b: "bb_wf buff" "bit_buffer_get_size_bytes buff = 8"
  defines "c2 \<equiv> snd (crypto1_word (snd (crypto1_word (mfl_crypto L) (be32 (take 4 (bb_bytes buff))) True)) 0 False)"
  shows "if answer_accepted L (bb_bytes buff) then \<exists>ctx p tx out. mf_classic_listener_auth_second_part_handler L buff
      = Some (MfClassicListenerCommandProcessed, L\<lparr>mfl_cmd_in_progress := False, mfl_auth_context := ctx,
          mfl_crypto := snd (key_stream c2 (replicate 4 0)), mfl_tx_plain_buffer := p, mfl_tx_encrypted_buffer := tx,
          mfl_out := out, mfl_state := MfClassicListenerStateAuthComplete, mfl_comm_state := MfClassicListenerCommStateEncrypted\<rparr>)
        \<and> ctx = (mfl_auth_context L)\<lparr>ac_nr := take 4 (bb_bytes buff), ac_ar := drop 4 (bb_bytes buff),
            ac_at := be_bytes (prng_successor (be32 (ac_nt (mfl_auth_context L))) 96)\<rparr>
        \<and> buf64 p \<and> buf64 tx \<and> ListenerTxCustomParity tx \<in> set out \<and> bb_size_bits tx = 32
        \<and> bb_bytes tx = map2 (XOR) (fst (key_stream c2 (replicate 4 0))) (be_bytes (prng_successor (be32 (ac_nt (mfl_auth_context L))) 96))
    else \<exists>L'. mf_classic_listener_auth_second_part_handler L buff = Some (MfClassicListenerCommandSleep, L')
        \<and> core_wf L' \<and> mfl_data L' = mfl_data L"
proof -
  let ?a = "mfl_auth_context L"
  let ?nr = "take 4 (bb_bytes buff)" and ?ar = "drop 4 (bb_bytes buff)"
  have len: "length (bb_bytes buff) = 8" using b by (simp add: length_bb_bytes)
  have a: "context_wf ?a" using wf by (simp add: core_wf_def)
  have nr: "bit_buffer_write_bytes_mid buff (ac_nr ?a) 0 4 = Some ?nr" "bit_buffer_write_bytes_mid buff (ac_ar ?a) 4 4 = Some ?ar"
    using write_bytes_mid_spec [OF b(1), of 0 "ac_nr ?a"] write_bytes_mid_spec [OF b(1), of 4 "ac_ar ?a"] a b(2) len
    by (simp_all add: context_wf_def)
  have num: "map_option ucast (bit_lib_bytes_to_num_be ?nr 4) = Some (be32 ?nr)" "map_option ucast (bit_lib_bytes_to_num_be ?ar 4) = Some (be32 ?ar)"
    "map_option ucast (bit_lib_bytes_to_num_be (ac_nt ?a) 4) = Some (be32 (ac_nt ?a))"
    using len a by (intro be32_bytes; simp add: context_wf_def)+
  obtain c1 where c1: "snd (crypto1_word (mfl_crypto L) (be32 ?nr) True) = c1" by blast
  obtain w where w: "crypto1_word c1 0 False = (w, c2)" by (metis c1 c2_def prod.collapse)
  define L1 where "L1 = listener_event MfClassicListenerEventTypeAuthContextPartCollected
    (L\<lparr>mfl_cmd_in_progress := False, mfl_auth_context := ?a\<lparr>ac_nr := ?nr, ac_ar := ?ar\<rparr>\<rparr>)"
  define out1 where "out1 = mfl_out L1"
  have L1: "L1 = L\<lparr>mfl_cmd_in_progress := False, mfl_auth_context := ?a\<lparr>ac_nr := ?nr, ac_ar := ?ar\<rparr>, mfl_out := out1\<rparr>"
    by (simp add: out1_def L1_def listener_event_def)
  define L2 where "L2 = L1\<lparr>mfl_crypto := c2\<rparr>"
  have core2: "core_wf L2" using wf len by (simp add: L2_def L1 core_wf_def context_wf_def)
  let ?at = "be_bytes (prng_successor (be32 (ac_nt ?a)) 96)"
  have eq: "mf_classic_listener_auth_second_part_handler L buff =
      (if be32 ?ar XOR w \<noteq> prng_successor (be32 (ac_nt ?a)) 64 then Some (MfClassicListenerCommandSleep, L2)
       else do {
           let L = L2\<lparr>mfl_auth_context := (mfl_auth_context L2)\<lparr>ac_at := ?at\<rparr>\<rparr>;
           tx \<leftarrow> bit_buffer_copy_bytes (mfl_tx_plain_buffer L) ?at 4;
           L \<leftarrow> encrypt_and_tx (L\<lparr>mfl_tx_plain_buffer := tx\<rparr>);
           let L = L\<lparr>mfl_state := MfClassicListenerStateAuthComplete, mfl_comm_state := MfClassicListenerCommStateEncrypted\<rparr>;
           Some (MfClassicListenerCommandProcessed,
             listener_event MfClassicListenerEventTypeAuthContextFullCollected L) })"
    using a unfolding mf_classic_listener_auth_second_part_handler_def Let_def
    by (simp add: b(2) nr num c1 w num_to_be_bytes context_wf_def L1 [unfolded L1_def] L2_def L1)
  have acc: "answer_accepted L (bb_bytes buff) \<longleftrightarrow> be32 ?ar XOR w = prng_successor (be32 (ac_nt ?a)) 64"
    by (simp add: answer_accepted_def c1 w)
  show ?thesis
  proof (cases "answer_accepted L (bb_bytes buff)")
    case False
    moreover have "mfl_data L2 = mfl_data L" by (simp add: L2_def L1)
    ultimately show ?thesis using core2 eq acc by auto
  next
    case True
    obtain p where p: "bit_buffer_copy_bytes (mfl_tx_plain_buffer L2) ?at 4 = Some p" "buf64 p" "bb_bytes p = ?at" "bb_size_bits p = 8 * 4"
      using copy_bytes_64 [of "mfl_tx_plain_buffer L2" ?at 4] core2 by (auto simp: core_wf_def)
    define L3 where "L3 = L2\<lparr>mfl_auth_context := (mfl_auth_context L2)\<lparr>ac_at := ?at\<rparr>, mfl_tx_plain_buffer := p\<rparr>"
    have "core_wf L3" using core2 p by (simp add: L3_def core_wf_def context_wf_def)
    from encrypt_and_tx_bytes [OF this, of 4] p obtain tx where
      tx: "encrypt_and_tx L3 = Some (L3\<lparr>mfl_crypto := snd (key_stream c2 (replicate 4 0)), mfl_tx_encrypted_buffer := tx,
          mfl_out := mfl_out L3 @ [ListenerTxCustomParity tx]\<rparr>)" "buf64 tx" "bb_size_bits tx = 32"
        "bb_bytes tx = map2 (XOR) (fst (key_stream c2 (replicate 4 0))) ?at"
      by (auto simp: L3_def L2_def)
    let ?e = "if mfl_callback L then [ListenerEvent MfClassicListenerEventTypeAuthContextFullCollected
        (?a\<lparr>ac_nr := ?nr, ac_ar := ?ar, ac_at := ?at\<rparr>)] else []"
    have "mf_classic_listener_auth_second_part_handler L buff = Some (MfClassicListenerCommandProcessed,
        L\<lparr>mfl_cmd_in_progress := False, mfl_auth_context := ?a\<lparr>ac_nr := ?nr, ac_ar := ?ar, ac_at := ?at\<rparr>,
          mfl_crypto := snd (key_stream c2 (replicate 4 0)), mfl_tx_plain_buffer := p, mfl_tx_encrypted_buffer := tx,
          mfl_out := out1 @ ListenerTxCustomParity tx # ?e, mfl_state := MfClassicListenerStateAuthComplete, mfl_comm_state := MfClassicListenerCommStateEncrypted\<rparr>)"
      using True unfolding eq
      by (simp add: acc p(1) tx(1) [unfolded L3_def] listener_event_out) (simp add: L2_def L1)
    moreover have "ListenerTxCustomParity tx \<in> set (out1 @ ListenerTxCustomParity tx # ?e)" by simp
    ultimately show ?thesis using True p(2) tx(2-4) by (simp only: if_True) blast
  qed
qed

lemma halt_handled: "core_wf L \<Longrightarrow> frame_ok buff \<Longrightarrow> handled (\<lambda>d. d = mfl_data L) (mf_classic_listener_halt_handler L buff)"
  by (simp add: mf_classic_listener_halt_handler_def frame_bytes handled_def)

lemma auth_key_handled:
  assumes "core_wf L" "frame_ok buff" "length nt = 4" "mfl_current_cmd_idx L = 2 \<or> mfl_current_cmd_idx L = 3" "mfl_current_cmd_handler_idx L = 0"
  shows "handled (\<lambda>d. d = mfl_data L) (mf_classic_listener_auth_key_a_handler nt L buff)"
    "handled (\<lambda>d. d = mfl_data L) (mf_classic_listener_auth_key_b_handler nt L buff)"
  using auth_first_handled [OF assms(1,3,4,5)]
  by (simp_all add: mf_classic_listener_auth_key_a_handler_def mf_classic_listener_auth_key_b_handler_def frame_bytes [OF assms(2)])

lemma auth_second_handled:
  assumes "core_wf L" "frame_ok buff" "unat (ac_block_num (mfl_auth_context L)) < mfl_total_block_num L"
  shows "handled (\<lambda>d. d = mfl_data L) (mf_classic_listener_auth_second_part_handler L buff)"
proof (cases "bit_buffer_get_size_bytes buff = 8")
  case True
  have wf: "bb_wf buff" using assms(2) by (simp add: frame_ok_def)
  note spec = auth_second_spec [OF assms(1) wf True]
  show ?thesis
  proof (cases "answer_accepted L (bb_bytes buff)")
    case False
    with spec show ?thesis by (auto simp: handled_def)
  next
    case True
    have "length (take 4 (bb_bytes buff)) = 4" "length (drop 4 (bb_bytes buff)) = 4"
      using wf \<open>bit_buffer_get_size_bytes buff = 8\<close> by (simp_all add: length_bb_bytes)
    with True spec assms(1,3) show ?thesis
      by (auto simp: handled_def core_wf_def mfl_wf_def context_wf_def)
  qed
next
  case False
  with assms(1) show ?thesis
    by (simp add: mf_classic_listener_auth_second_part_handler_def handled_def core_wf_def)
qed

section \<open>Reading\<close>

text \<open>What a read shows: of a trailer, the parts that may be read; key A never may.\<close>

definition visible_block :: "MfClassicData \<Rightarrow> u8 \<Rightarrow> MfClassicKeyType \<Rightarrow> u8 list" where
  "visible_block d b kt = (let t = mfc_block d ! unat b in
     if mf_classic_is_sector_trailer b then
       replicate 6 0 @ access_bits_of t
         @ (if card_permits d b kt MfClassicActionKeyBRead then key_b_of t else replicate 6 0)
     else t)"

lemma split_trailer:
  assumes "length t = 16"
  shows "\<exists>u0 u1 u2. t = u0 @ u1 @ u2 \<and> length u0 = 6 \<and> length u1 = 4 \<and> length u2 = 6"
proof (intro exI conjI)
  have "drop 4 (drop 6 t) = drop 10 t" by simp
  then show "t = take 6 t @ take 4 (drop 6 t) @ drop 10 t" by (metis append_take_drop_id)
qed (use assms in simp_all)

lemma clear_unreadable_spec:
  assumes "mfc_wf d" "mf_classic_is_sector_trailer b"
  shows "clear_unreadable d b kt (mfc_block d ! unat b) = Some (visible_block d b kt)"
proof -
  let ?t = "mfc_block d ! unat b"
  have l: "length ?t = 16" by (rule wf_block(2) [OF assms(1)])
  have p: "\<not> card_permits d b kt MfClassicActionKeyARead" "card_permits d b kt MfClassicActionACRead"
    using assms(2) by (cases kt; simp add: card_permits_def Let_def)+
  obtain u0 u1 u2 where "?t = u0 @ u1 @ u2" "length u0 = 6" "length u1 = 4" "length u2 = 6"
    using split_trailer [OF l] by blast
  then show ?thesis using p assms(2)
    by (simp add: clear_unreadable_def is_allowed_access_spec [OF assms(1)] memcpy_Some MF_CLASSIC_KEY_SIZE_def
        visible_block_def Let_def access_bits_of_def key_b_of_def)
qed

definition readable :: "MfClassicListener \<Rightarrow> u8 \<Rightarrow> bool" where
  "readable L b \<longleftrightarrow> mfl_state L = MfClassicListenerStateAuthComplete \<and> in_auth_sector L b
     \<and> (mf_classic_is_sector_trailer b
        \<or> card_permits (mfl_data L) b (ac_key_type (mfl_auth_context L)) MfClassicActionDataRead)"

definition block_frame :: "MfClassicListener \<Rightarrow> u8 \<Rightarrow> u8 list" where
  "block_frame L b = (let v = visible_block (mfl_data L) b (ac_key_type (mfl_auth_context L))
     in v @ le_bytes 2 (iso14443_sum Iso14443CrcTypeA v))"

lemma read_spec:
  assumes wf: "core_wf L" and b: "frame_ok buff"
  shows "if readable L (bb_data buff ! 1) then \<exists>p tx. mf_classic_listener_read_block_handler L buff = Some (MfClassicListenerCommandProcessed,
        L\<lparr>mfl_crypto := snd (key_stream (mfl_crypto L) (replicate 18 0)), mfl_tx_plain_buffer := p, mfl_tx_encrypted_buffer := tx,
          mfl_out := mfl_out L @ [ListenerTxCustomParity tx]\<rparr>) \<and> buf64 p \<and> buf64 tx \<and> bb_size_bits tx = 8 * 18
        \<and> bb_bytes tx = map2 (XOR) (fst (key_stream (mfl_crypto L) (replicate 18 0))) (block_frame L (bb_data buff ! 1))
    else mf_classic_listener_read_block_handler L buff = Some (MfClassicListenerCommandNack, L)"
proof -
  let ?b = "bb_data buff ! 1" and ?kt = "ac_key_type (mfl_auth_context L)"
  let ?v = "visible_block (mfl_data L) ?b ?kt"
  have d: "mfc_wf (mfl_data L)" using wf by (simp add: core_wf_def)
  have l: "length (mfc_block (mfl_data L) ! unat ?b) = 16" by (rule wf_block(2) [OF d])
  have lv: "length ?v = 16" using l by (simp add: visible_block_def Let_def length_trailer_parts)
  have acc: "(if mf_classic_is_sector_trailer ?b
              then map_option Some (clear_unreadable (mfl_data L) ?b ?kt (mfc_block (mfl_data L) ! unat ?b))
              else do {
                ok \<leftarrow> mf_classic_is_allowed_access (mfl_data L) ?b ?kt MfClassicActionDataRead;
                Some (if ok then Some (mfc_block (mfl_data L) ! unat ?b) else None) })
      = Some (if mf_classic_is_sector_trailer ?b \<or> card_permits (mfl_data L) ?b ?kt MfClassicActionDataRead then Some ?v else None)"
    using clear_unreadable_spec [OF d, of ?b ?kt]
    by (auto simp: is_allowed_access_spec [OF d] visible_block_def)
  show ?thesis
  proof (cases "readable L ?b")
    case False
    then show ?thesis
      unfolding mf_classic_listener_read_block_handler_def Let_def frame_bytes [OF b] bind.bind_lunit wf_block(1) [OF d] acc
      by (simp add: readable_def in_auth_sector_def)
  next
    case True
    obtain p where p: "bit_buffer_copy_bytes (mfl_tx_plain_buffer L) ?v MF_CLASSIC_BLOCK_SIZE = Some p" "buf64 p" "bb_bytes p = ?v"
      "bb_size_bits p = 8 * 16"
      using copy_bytes_64 [OF _ lv] wf by (auto simp: core_wf_def MF_CLASSIC_BLOCK_SIZE_def)
    obtain q where q: "iso14443_crc_append Iso14443CrcTypeA p = Some q" "buf64 q" "bb_size_bits q = 8 * 18" "bb_bytes q = block_frame L ?b"
      using crc_append_64 [OF p(2,4), of Iso14443CrcTypeA] by (auto simp: p(3) block_frame_def Let_def)
    have "core_wf (L\<lparr>mfl_tx_plain_buffer := q\<rparr>)" using wf q by (simp add: core_wf_def)
    from encrypt_and_tx_bytes [OF this, of 18] q obtain tx where
      tx: "encrypt_and_tx (L\<lparr>mfl_tx_plain_buffer := q\<rparr>) = Some (L\<lparr>mfl_tx_plain_buffer := q,
          mfl_crypto := snd (key_stream (mfl_crypto L) (replicate 18 0)), mfl_tx_encrypted_buffer := tx,
          mfl_out := mfl_out L @ [ListenerTxCustomParity tx]\<rparr>)" "buf64 tx" "bb_size_bits tx = 8 * 18"
        "bb_bytes tx = map2 (XOR) (fst (key_stream (mfl_crypto L) (replicate 18 0))) (block_frame L ?b)"
      by auto
    have "mf_classic_listener_read_block_handler L buff = Some (MfClassicListenerCommandProcessed, L\<lparr>mfl_tx_plain_buffer := q,
          mfl_crypto := snd (key_stream (mfl_crypto L) (replicate 18 0)), mfl_tx_encrypted_buffer := tx,
          mfl_out := mfl_out L @ [ListenerTxCustomParity tx]\<rparr>)"
      using True
      unfolding mf_classic_listener_read_block_handler_def Let_def frame_bytes [OF b] bind.bind_lunit wf_block(1) [OF d] acc
      by (simp add: readable_def in_auth_sector_def p(1) q(1) tx(1) del: One_nat_def)
    then show ?thesis using True q(2) tx(2-4) by (simp only: if_True) (intro exI [of _ q] exI [of _ tx], simp)
  qed
qed

lemma mfl_wf_update:
  assumes "mfl_wf L" "\<not> mfl_cmd_in_progress L" "buf64 p" "buf64 tx"
  shows "mfl_wf (L\<lparr>mfl_crypto := c, mfl_tx_plain_buffer := p, mfl_tx_encrypted_buffer := tx, mfl_out := out\<rparr>)"
  using assms by (auto simp: mfl_wf_def core_wf_def)

lemma read_handled:
  assumes "mfl_wf L" "\<not> mfl_cmd_in_progress L" "frame_ok buff"
  shows "handled (\<lambda>d. d = mfl_data L) (mf_classic_listener_read_block_handler L buff)"
proof -
  have wf: "core_wf L" using assms(1) by (simp add: mfl_wf_def)
  show ?thesis
  proof (cases "readable L (bb_data buff ! 1)")
    case False
    with read_spec [OF wf assms(3)] wf show ?thesis by (simp add: handled_def)
  next
    case True
    with read_spec [OF wf assms(3)] obtain p tx where
      run: "mf_classic_listener_read_block_handler L buff = Some (MfClassicListenerCommandProcessed,
        L\<lparr>mfl_crypto := snd (key_stream (mfl_crypto L) (replicate 18 0)), mfl_tx_plain_buffer := p, mfl_tx_encrypted_buffer := tx,
          mfl_out := mfl_out L @ [ListenerTxCustomParity tx]\<rparr>)" and b: "buf64 p" "buf64 tx" by auto
    note w = mfl_wf_update [OF assms(1,2) b]
    show ?thesis unfolding run by (rule handledI) (use w in \<open>auto simp: mfl_wf_def\<close>)
  qed
qed

section \<open>Writing\<close>

lemma write_first_handled:
  assumes "mfl_wf L" "frame_ok buff" "mfl_current_cmd_idx L = 5" "mfl_current_cmd_handler_idx L = 0"
  shows "handled (\<lambda>d. d = mfl_data L) (mf_classic_listener_write_block_first_part_handler L buff)"
  using assms(1,3,4)
  by (auto simp: mf_classic_listener_write_block_first_part_handler_def frame_bytes [OF assms(2)] handled_def mfl_wf_def
      core_wf_def progress_ok_def in_auth_sector_def Let_def)

text \<open>What a write leaves in a block: of a trailer, only the parts that may be written change.\<close>

definition permits_write :: "MfClassicData \<Rightarrow> u8 \<Rightarrow> MfClassicKeyType \<Rightarrow> bool" where
  "permits_write d b kt \<longleftrightarrow> (if mf_classic_is_sector_trailer b
     then card_permits d b kt MfClassicActionKeyAWrite \<or> card_permits d b kt MfClassicActionKeyBWrite \<or> card_permits d b kt MfClassicActionACWrite
     else card_permits d b kt MfClassicActionDataWrite)"

definition block_after_write :: "MfClassicData \<Rightarrow> u8 \<Rightarrow> MfClassicKeyType \<Rightarrow> u8 list \<Rightarrow> u8 list" where
  "block_after_write d b kt bs = (let t = mfc_block d ! unat b in
     if mf_classic_is_sector_trailer b then
       (if card_permits d b kt MfClassicActionKeyAWrite then key_a_of bs else key_a_of t)
       @ (if card_permits d b kt MfClassicActionACWrite then access_bits_of bs else access_bits_of t)
       @ (if card_permits d b kt MfClassicActionKeyBWrite then key_b_of bs else key_b_of t)
     else bs)"

lemma written_block_spec:
  assumes d: "mfc_wf d" and buff: "bb_wf buff" "bit_buffer_get_size_bytes buff = 16"
  shows "written_block d b kt buff (mfc_block d ! unat b)
    = Some (if permits_write d b kt then Some (block_after_write d b kt (bb_bytes buff)) else None)"
proof -
  let ?t = "mfc_block d ! unat b" and ?bs = "bb_bytes buff"
  have lt: "length ?t = 16" by (rule wf_block(2) [OF d])
  have lb: "length ?bs = 16" using buff by (simp add: length_bb_bytes)
  have mid: "bit_buffer_write_bytes_mid buff x i n = Some (take n (drop i ?bs))" if "length x = n" "i + n \<le> 16" for x i n
    using write_bytes_mid_spec [OF buff(1), of i x] that buff(2) by simp
  obtain u0 u1 u2 where t: "?t = u0 @ u1 @ u2" "length u0 = 6" "length u1 = 4" "length u2 = 6"
    using split_trailer [OF lt] by blast
  obtain v0 v1 v2 where v: "?bs = v0 @ v1 @ v2" "length v0 = 6" "length v1 = 4" "length v2 = 6"
    using split_trailer [OF lb] by blast
  note parts = key_a_of_def access_bits_of_def key_b_of_def MF_CLASSIC_KEY_SIZE_def MF_CLASSIC_ACCESS_BYTES_SIZE_def
  show ?thesis
  proof (cases "mf_classic_is_sector_trailer b")
    case True
    then show ?thesis
      using t v by (cases "card_permits d b kt MfClassicActionKeyAWrite"; cases "card_permits d b kt MfClassicActionKeyBWrite";
          cases "card_permits d b kt MfClassicActionACWrite")
        (simp_all add: written_block_def permits_write_def block_after_write_def is_allowed_access_spec [OF d] parts mid memcpy_Some)
  next
    case False
    then show ?thesis
      by (simp add: written_block_def permits_write_def block_after_write_def is_allowed_access_spec [OF d]
          mid [OF lt, of 0, simplified] MF_CLASSIC_BLOCK_SIZE_def lb)
  qed
qed

lemma length_block_after_write: "mfc_wf d \<Longrightarrow> length bs = 16 \<Longrightarrow> length (block_after_write d b kt bs) = 16"
  using wf_block(2) [of d b] by (simp add: block_after_write_def Let_def length_trailer_parts)

definition write_effect :: "MfClassicListener \<Rightarrow> BitBuffer \<Rightarrow> MfClassicData \<Rightarrow> bool" where
  "write_effect L buff d \<longleftrightarrow> (let b = mfl_write_block L; kt = ac_key_type (mfl_auth_context L) in
     if bit_buffer_get_size_bytes buff = 16 \<and> permits_write (mfl_data L) b kt
     then d = update_block (unat b) (block_after_write (mfl_data L) b kt (bb_bytes buff)) (mfl_data L)
     else d = mfl_data L)"

lemma write_second_handled:
  assumes "mfl_wf L" "frame_ok buff"
  shows "handled (write_effect L buff) (mf_classic_listener_write_block_second_part_handler L buff)"
proof (cases "bit_buffer_get_size_bytes buff = 16")
  case False
  then show ?thesis using assms(1)
    by (simp add: mf_classic_listener_write_block_second_part_handler_def MF_CLASSIC_BLOCK_SIZE_def handled_def write_effect_def
        mfl_wf_def core_wf_def Let_def)
next
  case True
  have d: "mfc_wf (mfl_data L)" and b: "bb_wf buff" using assms by (simp_all add: mfl_wf_def core_wf_def frame_ok_def)
  let ?blk = "block_after_write (mfl_data L) (mfl_write_block L) (ac_key_type (mfl_auth_context L)) (bb_bytes buff)"
  have len: "length ?blk = 16" using length_block_after_write [OF d] b True by (simp add: length_bb_bytes)
  note w = wf_set_block [OF d len, of "unat (mfl_write_block L)"]
  show ?thesis
    using assms(1) w wf_block [OF d, of "mfl_write_block L"]
    by (auto simp: mf_classic_listener_write_block_second_part_handler_def MF_CLASSIC_BLOCK_SIZE_def True written_block_spec [OF d b True]
        handled_def write_effect_def update_block_def mfl_wf_def core_wf_def Let_def mem_simps)
qed

section \<open>Value commands\<close>

lemma value_cmd_handled:
  assumes "mfl_wf L" "frame_ok buff" "mfl_current_cmd_idx L \<in> {6, 7, 8}" "mfl_current_cmd_handler_idx L = 0"
  shows "handled (\<lambda>d. d = mfl_data L) (mf_classic_listener_value_cmd_handler L buff)"
proof -
  have d: "mfc_wf (mfl_data L)" using assms(1) by (simp add: mfl_wf_def core_wf_def)
  obtain valid v a where val: "mf_classic_block_to_value (mfc_block (mfl_data L) ! unat (bb_data buff ! 1)) = (valid, v, a)"
    by (metis prod.collapse)
  show ?thesis
    unfolding mf_classic_listener_value_cmd_handler_def Let_def frame_bytes(1,2) [OF assms(2)] bind.bind_lunit
    using assms(1,3,4)
    by (auto simp: is_allowed_access_spec [OF d] wf_block(1) [OF d] val handled_def mfl_wf_def core_wf_def progress_ok_def
        simp del: One_nat_def split: if_splits)
qed

text \<open>
  The operand of a value command, which comes in a frame of its own: what the pending value becomes as a mathematical
  integer, and when the arithmetic of the code leaves \<open>int32_t\<close>.
\<close>

definition operand_sum :: "MfClassicValueCommand \<Rightarrow> u32 \<Rightarrow> u32 \<Rightarrow> int" where
  "operand_sum cmd v x = sint v + (if cmd = MfClassicValueCommandDecrement then - \<bar>sint x\<bar>
     else if cmd = MfClassicValueCommandRestore then 0 else \<bar>sint x\<bar>)"

definition operand :: "BitBuffer \<Rightarrow> u32" where
  "operand buff = of_le_bytes (take 4 (bb_bytes buff))"

definition operand_overflow :: "MfClassicListener \<Rightarrow> BitBuffer \<Rightarrow> bool" where
  "operand_overflow L buff \<longleftrightarrow>
     mfl_cmd_in_progress L \<and> mfl_current_cmd_idx L \<in> {6, 7, 8} \<and> mfl_current_cmd_handler_idx L = 1 \<and>
     bit_buffer_get_size_bytes buff = 4 \<and>
     (sint (operand buff) = - (2 ^ 31) \<or> int32 (operand_sum (mfl_value_cmd L) (mfl_transfer_value L) (operand buff)) = None)"

lemma sint_u32: "- (2 ^ 31) \<le> sint (x :: u32)" "sint (x :: u32) < 2 ^ 31"
  using sint_greater_eq [of x] sint_less [of x] by simp_all

lemma data_receive_spec:
  assumes "bb_wf buff" "bit_buffer_get_size_bytes buff = 4"
  shows "mf_classic_listener_value_data_receive_handler L buff =
     (if sint (operand buff) = - (2 ^ 31) then None
      else do { v \<leftarrow> int32 (operand_sum (mfl_value_cmd L) (mfl_transfer_value L) (operand buff));
        Some (MfClassicListenerCommandSilent, L\<lparr>mfl_transfer_value := word_of_int v, mfl_transfer_valid := True,
          mfl_cmd_in_progress := True, mfl_current_cmd_handler_idx := mfl_current_cmd_handler_idx L + 1\<rparr>) })"
proof -
  let ?x = "sint (operand buff)"
  have "bit_buffer_write_bytes_mid buff (replicate 4 0) 0 4 = Some (take 4 (bb_bytes buff))"
    using write_bytes_mid_spec [OF assms(1), of 0 "replicate 4 0"] assms(2) by simp
  moreover have "(if ?x < 0 then int32 (- ?x) else Some ?x) = (if ?x = - (2 ^ 31) then None else Some \<bar>?x\<bar>)"
    using sint_u32 [of "operand buff"] by (auto simp: int32_def)
  moreover have "int32 (- \<bar>?x\<bar>) = Some (- \<bar>?x\<bar>)" if "?x \<noteq> - (2 ^ 31)"
    using sint_u32 [of "operand buff"] that by (auto simp: int32_def)
  ultimately show ?thesis
    using assms(2) by (auto simp: mf_classic_listener_value_data_receive_handler_def Let_def operand_sum_def simp flip: operand_def)
qed

lemma data_receive_overflow:
  assumes "bb_wf buff" "operand_overflow L buff"
  shows "mf_classic_listener_value_data_receive_handler L buff = None"
  using assms data_receive_spec [of buff L] by (auto simp: operand_overflow_def)

lemma data_receive_handled:
  assumes "mfl_wf L" "frame_ok buff" "mfl_current_cmd_idx L \<in> {6, 7, 8}" "mfl_current_cmd_handler_idx L = 1" "mfl_cmd_in_progress L"
    and "\<not> operand_overflow L buff"
  shows "handled (\<lambda>d. d = mfl_data L) (mf_classic_listener_value_data_receive_handler L buff)"
proof (cases "bit_buffer_get_size_bytes buff = 4")
  case False
  then show ?thesis using assms(1)
    by (simp add: mf_classic_listener_value_data_receive_handler_def handled_def mfl_wf_def)
next
  case True
  have "bb_wf buff" using assms(2) by (simp add: frame_ok_def)
  then obtain v where "mf_classic_listener_value_data_receive_handler L buff = Some (MfClassicListenerCommandSilent,
      L\<lparr>mfl_transfer_value := v, mfl_transfer_valid := True, mfl_cmd_in_progress := True, mfl_current_cmd_handler_idx := 2\<rparr>)"
    using data_receive_spec [OF _ True, of L] assms(3-6) True
    by (auto simp: operand_overflow_def numeral_2_eq_2)
  then show ?thesis using assms(1,3-5) by (auto simp: handled_def mfl_wf_def core_wf_def progress_ok_def)
qed

text \<open>
  The transfer: the block named in the frame is overwritten with the pending value if its condition
  bits allow decrementing it; its sector is not compared with the authenticated one.
\<close>

definition transfer_block :: "MfClassicListener \<Rightarrow> BitBuffer \<Rightarrow> u8 option" where
  "transfer_block L buff =
     (if bit_buffer_get_size_bytes buff = 2 \<and> bb_data buff ! 0 = MF_CLASSIC_CMD_VALUE_TRANSFER
        \<and> card_permits (mfl_data L) (bb_data buff ! 1) (ac_key_type (mfl_auth_context L)) MfClassicActionDataDec
      then Some (bb_data buff ! 1) else None)"

definition value_block :: "u32 \<Rightarrow> u8 \<Rightarrow> u8 list" where
  "value_block v b = le_bytes 4 v @ le_bytes 4 (NOT v) @ le_bytes 4 v @ [b, NOT b, b, NOT b]"

definition transfer_effect :: "MfClassicListener \<Rightarrow> BitBuffer \<Rightarrow> MfClassicData \<Rightarrow> bool" where
  "transfer_effect L buff d \<longleftrightarrow> d = (case transfer_block L buff of None \<Rightarrow> mfl_data L
     | Some b \<Rightarrow> update_block (unat b) (value_block (mfl_transfer_value L) b) (mfl_data L))"

lemma transfer_spec:
  assumes "core_wf L" "frame_ok buff"
  shows "mf_classic_listener_value_transfer_handler L buff = Some (case transfer_block L buff of
      None \<Rightarrow> (MfClassicListenerCommandNack, L\<lparr>mfl_cmd_in_progress := False\<rparr>)
    | Some b \<Rightarrow> (MfClassicListenerCommandAck, L\<lparr>mfl_cmd_in_progress := False,
        mfl_data := update_block (unat b) (value_block (mfl_transfer_value L) b) (mfl_data L),
        mfl_transfer_value := 0, mfl_transfer_valid := False\<rparr>))"
proof -
  have d: "mfc_wf (mfl_data L)" using assms by (simp add: core_wf_def)
  show ?thesis
    unfolding mf_classic_listener_value_transfer_handler_def Let_def frame_bytes(1,2) [OF assms(2)] bind.bind_lunit
    by (simp add: transfer_block_def is_allowed_access_spec [OF d] wf_block(1) [OF d] value_to_block_eq [OF wf_block(2) [OF d]]
        value_block_def update_block_def del: One_nat_def)
qed

lemma transfer_handled:
  assumes "mfl_wf L" "frame_ok buff"
  shows "handled (transfer_effect L buff) (mf_classic_listener_value_transfer_handler L buff)"
proof -
  have wf: "core_wf L" and d: "mfc_wf (mfl_data L)" using assms(1) by (simp_all add: mfl_wf_def core_wf_def)
  have "length (value_block v b) = 16" for v b by (simp add: value_block_def)
  note w = wf_update [OF d this]
  show ?thesis
  proof (cases "transfer_block L buff")
    case None
    then show ?thesis using wf by (simp add: transfer_spec [OF wf assms(2)] handled_def transfer_effect_def core_wf_def)
  next
    case (Some b)
    have "mfc_type (update_block i blk d) = mfc_type d" for i blk d by (simp add: update_block_def)
    with Some show ?thesis using assms(1) w
      by (auto simp: transfer_spec [OF wf assms(2)] handled_def transfer_effect_def mfl_wf_def core_wf_def)
  qed
qed

section \<open>Frames\<close>

lemma receive_plain_ok:
  assumes "mfl_wf L" "frame_ok buffer" "0 < bb_size_bits buffer"
    and "mfl_state L = MfClassicListenerStateAuthComplete \<Longrightarrow> bb_size_bits buffer \<le> 512"
  shows "\<exists>buff c rx. receive_plain L buffer = Some (buff, L\<lparr>mfl_crypto := c, mfl_rx_plain_buffer := rx\<rparr>)
    \<and> frame_ok buff \<and> mfl_wf (L\<lparr>mfl_crypto := c, mfl_rx_plain_buffer := rx\<rparr>)"
proof (cases "mfl_state L = MfClassicListenerStateAuthComplete \<and> mfl_comm_state L = MfClassicListenerCommStateEncrypted")
  case False
  then have "receive_plain L buffer = Some (buffer, L\<lparr>mfl_crypto := mfl_crypto L, mfl_rx_plain_buffer := mfl_rx_plain_buffer L\<rparr>)"
    by (auto simp: receive_plain_def)
  then show ?thesis
    by (intro exI [of _ buffer] exI [of _ "mfl_crypto L"] exI [of _ "mfl_rx_plain_buffer L"]) (use assms(1,2) in simp)
next
  case True
  have wf: "bb_wf buffer" "bb_wf (mfl_rx_plain_buffer L)" "bb_capacity_bytes (mfl_rx_plain_buffer L) = 64"
    using assms(1,2) by (simp_all add: mfl_wf_def core_wf_def buf64_def frame_ok_def)
  obtain c o' where dec: "crypto1_decrypt (mfl_crypto L) buffer (mfl_rx_plain_buffer L) = Some (c, o')" "bb_wf o'" "bb_capacity_bytes o' = 64"
    using decrypt_total [OF wf(1,2) assms(3), of "mfl_crypto L"] assms(4) True wf(3) by auto
  obtain ok where ok: "iso14443_crc_check Iso14443CrcTypeA o' = Some ok" using iso14443.check_iff [OF dec(2)] by blast
  have "ok \<Longrightarrow> 2 < length (bb_bytes o')" using ok iso14443.check_iff [OF dec(2), of Iso14443CrcTypeA] by simp
  then obtain rx where rx: "(if ok then iso14443_crc_trim o' else Some o') = Some rx" "buf64 rx"
  proof (cases ok)
    case True
    then have n: "2 < length (bb_bytes o')" using \<open>ok \<Longrightarrow> _\<close> by simp
    then have s: "2 < bit_buffer_get_size_bytes o'" using dec(2) by (simp add: length_bb_bytes)
    then obtain b' where "bit_buffer_set_size_bytes o' (bit_buffer_get_size_bytes o' - 2) = Some b'" "bb_wf b'" "bb_capacity_bytes b' = 64"
      using set_size_bytes_spec [OF dec(2), of "bit_buffer_get_size_bytes o' - 2"] dec(3) by auto
    then have "iso14443_crc_trim o' = Some b'" "buf64 b'" using s by (simp_all add: iso14443_crc_trim_def ISO14443_CRC_SIZE_def buf64_def)
    then show thesis using that True by simp
  qed (use that dec in \<open>simp add: buf64_def\<close>)
  have "receive_plain L buffer = Some (rx, L\<lparr>mfl_crypto := c, mfl_rx_plain_buffer := rx\<rparr>)"
    using True dec(1) ok rx(1) by (simp add: receive_plain_def)
  moreover have "mfl_wf (L\<lparr>mfl_crypto := c, mfl_rx_plain_buffer := rx\<rparr>)"
    using assms(1) rx(2) by (auto simp: mfl_wf_def core_wf_def progress_ok_def in_auth_sector_def)
  ultimately show ?thesis using buf64_frame [OF rx(2)] by blast
qed

text \<open>The handler that a command in progress waits for, and what it does to the memory.\<close>

definition memory_effect :: "MfClassicListener \<Rightarrow> BitBuffer \<Rightarrow> MfClassicData \<Rightarrow> bool" where
  "memory_effect L buff d \<longleftrightarrow>
     (if mfl_cmd_in_progress L \<and> mfl_current_cmd_idx L = 5 then write_effect L buff d
      else if mfl_cmd_in_progress L \<and> mfl_current_cmd_handler_idx L = 2 then transfer_effect L buff d
      else d = mfl_data L)"

lemma set_cmd_wf: "mfl_wf L \<Longrightarrow> \<not> mfl_cmd_in_progress L \<Longrightarrow> mfl_wf (L\<lparr>mfl_current_cmd_idx := i, mfl_current_cmd_handler_idx := j\<rparr>)"
  by (auto simp: mfl_wf_def core_wf_def)

lemma first_handlers:
  assumes "mfl_wf L" "\<not> mfl_cmd_in_progress L" "frame_ok buff" "length nt = 4"
  defines "M \<equiv> \<lambda>i. L\<lparr>mfl_current_cmd_idx := i, mfl_current_cmd_handler_idx := 0\<rparr>"
  shows "handled (\<lambda>d. d = mfl_data L) (mf_classic_listener_halt_handler (M i) buff)"
    "i = 2 \<or> i = 3 \<Longrightarrow> handled (\<lambda>d. d = mfl_data L) (mf_classic_listener_auth_key_a_handler nt (M i) buff)"
    "i = 2 \<or> i = 3 \<Longrightarrow> handled (\<lambda>d. d = mfl_data L) (mf_classic_listener_auth_key_b_handler nt (M i) buff)"
    "handled (\<lambda>d. d = mfl_data L) (mf_classic_listener_read_block_handler (M i) buff)"
    "i = 5 \<Longrightarrow> handled (\<lambda>d. d = mfl_data L) (mf_classic_listener_write_block_first_part_handler (M i) buff)"
    "i = 6 \<or> i = 7 \<or> i = 8 \<Longrightarrow> handled (\<lambda>d. d = mfl_data L) (mf_classic_listener_value_cmd_handler (M i) buff)"
proof -
  have m: "mfl_wf (M i)" "core_wf (M i)" "\<not> mfl_cmd_in_progress (M i)" "mfl_data (M i) = mfl_data L"
      "mfl_current_cmd_idx (M i) = i" "mfl_current_cmd_handler_idx (M i) = 0"
    using set_cmd_wf [OF assms(1,2)] assms(1,2) by (auto simp: M_def mfl_wf_def)
  show "handled (\<lambda>d. d = mfl_data L) (mf_classic_listener_halt_handler (M i) buff)"
    using halt_handled [OF m(2) assms(3)] m(4) by simp
  show "i = 2 \<or> i = 3 \<Longrightarrow> handled (\<lambda>d. d = mfl_data L) (mf_classic_listener_auth_key_a_handler nt (M i) buff)"
    "i = 2 \<or> i = 3 \<Longrightarrow> handled (\<lambda>d. d = mfl_data L) (mf_classic_listener_auth_key_b_handler nt (M i) buff)"
    using auth_key_handled [OF m(2) assms(3,4)] m by simp_all
  show "handled (\<lambda>d. d = mfl_data L) (mf_classic_listener_read_block_handler (M i) buff)"
    using read_handled [OF m(1,3) assms(3)] m(4) by simp
  show "i = 5 \<Longrightarrow> handled (\<lambda>d. d = mfl_data L) (mf_classic_listener_write_block_first_part_handler (M i) buff)"
    using write_first_handled [OF m(1) assms(3)] m by simp
  show "i = 6 \<or> i = 7 \<or> i = 8 \<Longrightarrow> handled (\<lambda>d. d = mfl_data L) (mf_classic_listener_value_cmd_handler (M i) buff)"
    using value_cmd_handled [OF m(1) assms(3)] m by simp
qed

lemma handle_frame_overflow:
  assumes "bb_wf buff" "operand_overflow L buff"
  shows "handle_frame nt L buff = None"
proof -
  have "handle_frame nt L buff = mf_classic_listener_value_data_receive_handler L buff"
    using assms(2) by (auto simp: operand_overflow_def handle_frame_def mf_classic_listener_cmd_handlers_def Let_def numeral_eq_Suc)
  with data_receive_overflow [OF assms] show ?thesis by simp
qed

lemma handle_frame_handled:
  assumes "mfl_wf L" "frame_ok buff" "length nt = 4" "\<not> operand_overflow L buff"
  shows "handled (memory_effect L buff) (handle_frame nt L buff)"
proof (cases "mfl_cmd_in_progress L")
  case True
  then have p: "progress_ok L" using assms(1) by (simp add: mfl_wf_def)
  have wf: "core_wf L" using assms(1) by (simp add: mfl_wf_def)
  have b: "unat (ac_block_num (mfl_auth_context L)) < mfl_total_block_num L" using p by (simp add: progress_ok_def)
  note run = handle_frame_def mf_classic_listener_cmd_handlers_def Let_def numeral_eq_Suc
  from p consider
      "mfl_current_cmd_idx L = 2 \<or> mfl_current_cmd_idx L = 3" "mfl_current_cmd_handler_idx L = 1"
    | "mfl_current_cmd_idx L = 5" "mfl_current_cmd_handler_idx L = 1"
    | "mfl_current_cmd_idx L \<in> {6, 7, 8}" "mfl_current_cmd_handler_idx L = 1"
    | "mfl_current_cmd_idx L \<in> {6, 7, 8}" "mfl_current_cmd_handler_idx L = 2"
    by (auto simp: progress_ok_def)
  then show ?thesis
  proof cases
    case 1
    then have "handle_frame nt L buff = mf_classic_listener_auth_second_part_handler L buff"
      using True by (auto simp: run)
    moreover have "memory_effect L buff = (\<lambda>d. d = mfl_data L)" using 1 by (auto simp: memory_effect_def)
    ultimately show ?thesis using auth_second_handled [OF wf assms(2) b] by simp
  next
    case 2
    then have "handle_frame nt L buff = mf_classic_listener_write_block_second_part_handler L buff"
      using True by (simp add: run)
    moreover have "memory_effect L buff = write_effect L buff" using 2 True by (auto simp: memory_effect_def)
    ultimately show ?thesis using write_second_handled [OF assms(1,2)] by simp
  next
    case 3
    then have "handle_frame nt L buff = mf_classic_listener_value_data_receive_handler L buff"
      using True by (auto simp: run)
    moreover have "memory_effect L buff = (\<lambda>d. d = mfl_data L)" using 3 by (auto simp: memory_effect_def)
    ultimately show ?thesis using data_receive_handled [OF assms(1,2) 3 True assms(4)] by simp
  next
    case 4
    then have "handle_frame nt L buff = mf_classic_listener_value_transfer_handler L buff"
      using True by (auto simp: run)
    moreover have "memory_effect L buff = transfer_effect L buff" using 4 True by (auto simp: memory_effect_def)
    ultimately show ?thesis using transfer_handled [OF assms(1,2)] by simp
  qed
next
  case False
  have same: "memory_effect L buff = (\<lambda>d. d = mfl_data L)" using False by (auto simp: memory_effect_def)
  note first = first_handlers [OF assms(1) False assms(2,3)]
  have nack: "handled (\<lambda>d. d = mfl_data L) (Some (MfClassicListenerCommandNack, L))"
    using assms(1) by (simp add: handled_def mfl_wf_def)
  show ?thesis
    unfolding same handle_frame_def if_not_P [OF False] mf_classic_listener_cmd_handlers_def Let_def dispatch.simps
      frame_bytes(1) [OF assms(2)] bind.bind_lunit
    using first(1) first(2,3) [of 2] first(2,3) [of 3] first(4) first(5) [of 5] first(6) [of 6] first(6) [of 7] first(6) [of 8] nack
    by (simp add: numeral_eq_Suc mf_classic_listener_value_dec_handler_def mf_classic_listener_value_inc_handler_def
        mf_classic_listener_value_restore_handler_def)
qed

end
