(* ===== verification/MfClassicEmulation.thy ===== *)
theory MfClassicEmulation
  imports MfClassicHandlers
begin

text \<open>
  The card as the radio drives it: its reachable states, what can change its memory, what a read shows, and the
  authentication between the reader's side of the cipher and the card.
\<close>

section \<open>The listener runs\<close>

lemma reset_wf: "core_wf L \<Longrightarrow> mfl_wf (mf_classic_listener_reset_state L)"
  by (simp add: mf_classic_listener_reset_state_def mfl_wf_def core_wf_def context_wf_def auth_context_zero_def)

lemma answer_ok:
  assumes "core_wf L" "c = MfClassicListenerCommandNack \<or> c = MfClassicListenerCommandSleep \<or> mfl_wf L"
  shows "\<exists>cmd L'. answer_command c L = Some (cmd, L') \<and> mfl_wf L' \<and> mfl_data L' = mfl_data L"
proof -
  have short: "\<exists>L'. mf_classic_listener_send_short_frame L x = Some L' \<and> core_wf L' \<and> (mfl_wf L \<longrightarrow> mfl_wf L') \<and> mfl_data L' = mfl_data L" for x
  proof -
    obtain c' p tx out where "mf_classic_listener_send_short_frame L x = Some (L\<lparr>mfl_tx_plain_buffer := p, mfl_crypto := c',
      mfl_tx_encrypted_buffer := tx, mfl_out := out\<rparr>)" "buf64 p" "buf64 tx"
      using send_short_frame_ok [OF assms(1)] by blast
    with assms(1) show ?thesis by (auto simp: core_wf_def mfl_wf_def progress_ok_def in_auth_sector_def)
  qed
  have reset: "core_wf M \<Longrightarrow> mfl_wf (mf_classic_listener_reset_state M) \<and> mfl_data (mf_classic_listener_reset_state M) = mfl_data M" for M
    using reset_wf [of M] by (simp add: mf_classic_listener_reset_state_def)
  show ?thesis
  proof (cases c)
    case MfClassicListenerCommandAck
    with short [of MF_CLASSIC_CMD_ACK] assms show ?thesis by (auto simp: answer_command_def)
  next
    case MfClassicListenerCommandNack
    obtain L' where "mf_classic_listener_send_short_frame L (if mfl_transfer_valid L then MF_CLASSIC_CMD_NACK
        else MF_CLASSIC_CMD_NACK + MF_CLASSIC_CMD_NACK_TRANSFER_INVALID) = Some L'" "core_wf L'" "mfl_data L' = mfl_data L"
      using short by blast
    with MfClassicListenerCommandNack reset [of L'] show ?thesis by (auto simp: answer_command_def Let_def)
  qed (use assms reset [OF assms(1)] in \<open>auto simp: answer_command_def\<close>)
qed

text \<open>The plain frame that a handler sees.\<close>

definition plain_frame :: "MfClassicListener \<Rightarrow> BitBuffer \<Rightarrow> BitBuffer" where
  "plain_frame L buffer = (case receive_plain L buffer of Some (buff, _) \<Rightarrow> buff | None \<Rightarrow> buffer)"

lemma effect_update: "memory_effect (L\<lparr>mfl_crypto := c, mfl_rx_plain_buffer := rx\<rparr>) buff d \<longleftrightarrow> memory_effect L buff d"
  by (simp add: memory_effect_def write_effect_def transfer_effect_def transfer_block_def)

lemma overflow_update: "operand_overflow (L\<lparr>mfl_crypto := c, mfl_rx_plain_buffer := rx\<rparr>) buff \<longleftrightarrow> operand_overflow L buff"
  by (simp add: operand_overflow_def)

lemma receive_overflow:
  assumes "mfl_wf L" "frame_ok buffer" "0 < bb_size_bits buffer" "operand_overflow L (plain_frame L buffer)"
    and "mfl_state L = MfClassicListenerStateAuthComplete \<Longrightarrow> bb_size_bits buffer \<le> 512"
  shows "listener_receive nt buffer L = None"
proof -
  obtain buff c rx where r: "receive_plain L buffer = Some (buff, L\<lparr>mfl_crypto := c, mfl_rx_plain_buffer := rx\<rparr>)" "frame_ok buff"
    using receive_plain_ok [OF assms(1-3,5)] by blast
  with assms(4) have "handle_frame nt (L\<lparr>mfl_crypto := c, mfl_rx_plain_buffer := rx\<rparr>) buff = None"
    by (intro handle_frame_overflow) (simp_all add: plain_frame_def frame_ok_def overflow_update)
  with r(1) show ?thesis by (simp add: listener_receive_def)
qed

lemma receive_ok:
  assumes "mfl_wf L" "frame_ok buffer" "0 < bb_size_bits buffer" "length nt = 4"
    and "mfl_state L = MfClassicListenerStateAuthComplete \<Longrightarrow> bb_size_bits buffer \<le> 512"
    and "\<not> operand_overflow L (plain_frame L buffer)"
  shows "\<exists>cmd L'. listener_receive nt buffer L = Some (cmd, L') \<and> mfl_wf L' \<and> memory_effect L (plain_frame L buffer) (mfl_data L')"
proof -
  obtain buff c rx where r: "receive_plain L buffer = Some (buff, L\<lparr>mfl_crypto := c, mfl_rx_plain_buffer := rx\<rparr>)" "frame_ok buff"
    "mfl_wf (L\<lparr>mfl_crypto := c, mfl_rx_plain_buffer := rx\<rparr>)"
    using receive_plain_ok [OF assms(1-3,5)] by blast
  have "\<not> operand_overflow (L\<lparr>mfl_crypto := c, mfl_rx_plain_buffer := rx\<rparr>) buff"
    using assms(6) r(1) by (simp add: plain_frame_def overflow_update)
  from handle_frame_handled [OF r(3,2) assms(4) this] obtain cc L1 where
    h: "handle_frame nt (L\<lparr>mfl_crypto := c, mfl_rx_plain_buffer := rx\<rparr>) buff = Some (cc, L1)" "core_wf L1"
      "memory_effect L buff (mfl_data L1)"
      "cc = MfClassicListenerCommandNack \<or> cc = MfClassicListenerCommandSleep \<or> mfl_wf L1"
    by (auto simp: handled_def effect_update)
  from answer_ok [OF h(2,4)] obtain cmd L' where "answer_command cc L1 = Some (cmd, L')" "mfl_wf L'" "mfl_data L' = mfl_data L1" by blast
  with r(1) h(1,3) show ?thesis by (auto simp: listener_receive_def plain_frame_def)
qed

lemma receive_too_long:
  assumes "mfl_wf L" "mfl_state L = MfClassicListenerStateAuthComplete" "512 < bb_size_bits buffer"
  shows "listener_receive nt buffer L = None"
proof -
  have "bb_capacity_bytes (mfl_rx_plain_buffer L) = 64" using assms(1) by (simp add: mfl_wf_def core_wf_def buf64_def)
  then have "crypto1_decrypt (mfl_crypto L) buffer (mfl_rx_plain_buffer L) = None"
    using assms(3) by (simp add: crypto1_decrypt_def bit_buffer_set_size_def bit_buffer_get_size_def)
  then show ?thesis using assms(1,2) by (simp add: listener_receive_def receive_plain_def mfl_wf_def)
qed

section \<open>The card\<close>

text \<open>The state of the card: of the 3A layer and of the listener. A radio event is well-formed when its frame is.\<close>

definition card_step :: "u8 list \<Rightarrow> NfcEvent \<Rightarrow> Iso14443_3aListenerState \<times> MfClassicListener
    \<Rightarrow> (NfcCommand \<times> Iso14443_3aListenerState \<times> MfClassicListener) option" where
  "card_step rnd = iso14443_3a_listener_run (mf_classic_listener_run rnd)"

fun nfc_event_ok :: "NfcEvent \<Rightarrow> bool" where
  "nfc_event_ok (NfcEventTypeRxEnd b) \<longleftrightarrow> frame_ok b \<and> 0 < bb_size_bits b"
| "nfc_event_ok _ \<longleftrightarrow> True"

inductive card_reachable :: "MfClassicData \<Rightarrow> Iso14443_3aListenerState \<times> MfClassicListener \<Rightarrow> bool" for data where
  start: "mf_classic_listener_alloc data = Some L
    \<Longrightarrow> card_reachable data (Iso14443_3aListenerStateIdle, mf_classic_listener_set_callback L cb)"
| step: "card_reachable data st \<Longrightarrow> length rnd = 4 \<Longrightarrow> nfc_event_ok ev \<Longrightarrow> card_step rnd ev st = Some (cmd, st')
    \<Longrightarrow> card_reachable data st'"

inductive_cases card_reachableE: "card_reachable data st"

text \<open>The bits that the 3A layer passes on of a frame, the frames that do not fit the listener's buffer, and
  those whose operand makes the value arithmetic overflow.\<close>

definition bits_passed_on :: "BitBuffer \<Rightarrow> nat" where
  "bits_passed_on b = (if iso14443_crc_check Iso14443CrcTypeA b = Some True then 8 * (bit_buffer_get_size_bytes b - 2) else bb_size_bits b)"

fun too_long :: "NfcEvent \<Rightarrow> MfClassicListener \<Rightarrow> bool" where
  "too_long (NfcEventTypeRxEnd b) L \<longleftrightarrow> mfl_state L = MfClassicListenerStateAuthComplete \<and> 512 < bits_passed_on b"
| "too_long _ L \<longleftrightarrow> False"

fun overflows :: "NfcEvent \<Rightarrow> MfClassicListener \<Rightarrow> bool" where
  "overflows (NfcEventTypeRxEnd b) L \<longleftrightarrow> iso14443_3a_listener_halt_received b \<noteq> Some True
     \<and> operand_overflow L (plain_frame L (b\<lparr>bb_size_bits := bits_passed_on b\<rparr>))"
| "overflows _ L \<longleftrightarrow> False"

definition frame_event :: "BitBuffer \<Rightarrow> Iso14443_3aListenerEvent" where
  "frame_event b = (if iso14443_crc_check Iso14443CrcTypeA b = Some True
     then Iso14443_3aListenerEventTypeReceivedStandardFrame (b\<lparr>bb_size_bits := bits_passed_on b\<rparr>)
     else Iso14443_3aListenerEventTypeReceivedData b)"

lemma trim_frame:
  assumes "frame_ok b" "iso14443_crc_check Iso14443CrcTypeA b = Some True"
  shows "iso14443_crc_trim b = Some (b\<lparr>bb_size_bits := bits_passed_on b\<rparr>)" "0 < bits_passed_on b"
    "frame_ok (b\<lparr>bb_size_bits := bits_passed_on b\<rparr>)"
proof -
  have wf: "bb_wf b" using assms(1) by (simp add: frame_ok_def)
  have n: "2 < bit_buffer_get_size_bytes b" using assms(2) iso14443.check_iff [OF wf, of Iso14443CrcTypeA] by (simp add: length_bb_bytes wf)
  have c: "bit_buffer_get_size_bytes b \<le> bb_capacity_bytes b" by (rule size_bytes_le_capacity [OF wf])
  show "iso14443_crc_trim b = Some (b\<lparr>bb_size_bits := bits_passed_on b\<rparr>)" "0 < bits_passed_on b"
    using n c assms(2) by (simp_all add: iso14443_crc_trim_def ISO14443_CRC_SIZE_def bit_buffer_set_size_bytes_def bits_passed_on_def Let_def)
  show "frame_ok (b\<lparr>bb_size_bits := bits_passed_on b\<rparr>)"
    using assms n c by (auto simp: frame_ok_def bb_wf_def bits_passed_on_def)
qed

lemma halt_received_ok: "frame_ok b \<Longrightarrow> \<exists>h. iso14443_3a_listener_halt_received b = Some h \<and> (h \<longrightarrow> bits_passed_on b = 16)"
proof -
  assume b: "frame_ok b"
  then have wf: "bb_wf b" by (simp add: frame_ok_def)
  obtain ok where ok: "iso14443_crc_check Iso14443CrcTypeA b = Some ok" using iso14443.check_iff [OF wf] by blast
  show "\<exists>h. iso14443_3a_listener_halt_received b = Some h \<and> (h \<longrightarrow> bits_passed_on b = 16)"
    using b by (auto simp: iso14443_3a_listener_halt_received_def ok frame_bytes bits_passed_on_def ex_bool_eq)
qed

lemma card_step_cases:
  assumes "nfc_event_ok ev"
  obtains (quiet) cmd s' where "\<And>rnd s L. card_step rnd ev (s, L) = Some (cmd, (case s' of None \<Rightarrow> s | Some t \<Rightarrow> t), L)" "\<And>L. \<not> too_long ev L \<and> \<not> overflows ev L"
  | (reset) cmd s' where "\<And>rnd s L. card_step rnd ev (s, L) = Some (cmd, (case s' of None \<Rightarrow> s | Some t \<Rightarrow> t), mf_classic_listener_reset_state L)"
      "\<And>L. \<not> too_long ev L \<and> \<not> overflows ev L"
  | (frame) b where "frame_ok b" "0 < bb_size_bits b"
      "\<And>rnd s L. card_step rnd ev (s, L) = do { (cmd, L) \<leftarrow> listener_receive rnd b L; Some (cmd, s, L) }"
      "\<And>L. too_long ev L \<longleftrightarrow> mfl_state L = MfClassicListenerStateAuthComplete \<and> 512 < bb_size_bits b"
      "\<And>L. overflows ev L \<longleftrightarrow> operand_overflow L (plain_frame L b)"
proof (cases ev)
  case NfcEventTypeListenerActivated
  then show ?thesis by (intro quiet [of _ "Some Iso14443_3aListenerStateActive"]) (simp_all add: card_step_def iso14443_3a_listener_run_def)
next
  case NfcEventTypeFieldOff
  then show ?thesis by (intro reset [of _ "Some Iso14443_3aListenerStateIdle"]) (simp_all add: card_step_def iso14443_3a_listener_run_def)
next
  case NfcEventTypeOther
  then show ?thesis by (intro quiet [of _ None]) (simp_all add: card_step_def iso14443_3a_listener_run_def)
next
  case (NfcEventTypeRxEnd b)
  then have b: "frame_ok b" "0 < bb_size_bits b" using assms by simp_all
  then have wf: "bb_wf b" by (simp add: frame_ok_def)
  obtain h where h: "iso14443_3a_listener_halt_received b = Some h" "h \<longrightarrow> bits_passed_on b = 16" using halt_received_ok [OF b(1)] by blast
  obtain ok where ok: "iso14443_crc_check Iso14443CrcTypeA b = Some ok" using iso14443.check_iff [OF wf] by blast
  show ?thesis
  proof (cases h)
    case True
    then show ?thesis using NfcEventTypeRxEnd h
      by (intro reset [of _ None]) (simp_all add: card_step_def iso14443_3a_listener_run_def)
  next
    case h: False
    show ?thesis
    proof (cases ok)
      case True
      then have ok: "iso14443_crc_check Iso14443CrcTypeA b = Some True" using ok by simp
      show ?thesis
        using h \<open>iso14443_3a_listener_halt_received b = Some h\<close> NfcEventTypeRxEnd trim_frame [OF b(1) ok] ok
        by (intro frame [of "b\<lparr>bb_size_bits := bits_passed_on b\<rparr>"])
          (simp_all add: card_step_def iso14443_3a_listener_run_def split_beta)
    next
      case False
      then show ?thesis
        using h \<open>iso14443_3a_listener_halt_received b = Some h\<close> NfcEventTypeRxEnd b ok
        by (intro frame [of b]) (simp_all add: card_step_def iso14443_3a_listener_run_def bits_passed_on_def split_beta)
    qed
  qed
qed

lemma frame_outcome:
  assumes "mfl_wf L" "frame_ok b" "0 < bb_size_bits b" "length nt = 4"
  shows "listener_receive nt b L = None \<longleftrightarrow>
      mfl_state L = MfClassicListenerStateAuthComplete \<and> 512 < bb_size_bits b \<or> operand_overflow L (plain_frame L b)"
    and "listener_receive nt b L = Some (cmd, L') \<Longrightarrow> mfl_wf L' \<and> memory_effect L (plain_frame L b) (mfl_data L')"
proof -
  have "if mfl_state L = MfClassicListenerStateAuthComplete \<and> 512 < bb_size_bits b \<or> operand_overflow L (plain_frame L b)
    then listener_receive nt b L = None
    else \<exists>cmd L'. listener_receive nt b L = Some (cmd, L') \<and> mfl_wf L' \<and> memory_effect L (plain_frame L b) (mfl_data L')"
    using receive_too_long [OF assms(1)] receive_overflow [OF assms(1-3)] receive_ok [OF assms] by (metis linorder_not_less)
  then show "listener_receive nt b L = None \<longleftrightarrow>
      mfl_state L = MfClassicListenerStateAuthComplete \<and> 512 < bb_size_bits b \<or> operand_overflow L (plain_frame L b)"
    "listener_receive nt b L = Some (cmd, L') \<Longrightarrow> mfl_wf L' \<and> memory_effect L (plain_frame L b) (mfl_data L')"
    by (auto split: if_splits)
qed

lemma card_step_wf:
  assumes "mfl_wf (snd st)" "length rnd = 4" "nfc_event_ok ev"
  shows "card_step rnd ev st = None \<longleftrightarrow> too_long ev (snd st) \<or> overflows ev (snd st)"
    and "card_step rnd ev st = Some (cmd, st') \<Longrightarrow> mfl_wf (snd st')"
proof -
  obtain s L where st: "st = (s, L)" by fastforce
  have wf: "mfl_wf L" "core_wf L" using assms(1) by (simp_all add: st mfl_wf_def)
  note reset_wf [OF wf(2)]
  from assms(3) show "card_step rnd ev st = None \<longleftrightarrow> too_long ev (snd st) \<or> overflows ev (snd st)"
  proof (cases rule: card_step_cases)
    case (frame b)
    with frame_outcome [OF wf(1) frame(1,2) assms(2)] show ?thesis by (auto simp: st)
  qed (auto simp: st)
  from assms(3) show "card_step rnd ev st = Some (cmd, st') \<Longrightarrow> mfl_wf (snd st')"
  proof (cases rule: card_step_cases)
    case (frame b)
    assume "card_step rnd ev st = Some (cmd, st')"
    with frame(3) frame_outcome [OF wf(1) frame(1,2) assms(2)] show "mfl_wf (snd st')" by (auto simp: st split: bind_splits)
  qed (use wf(1) \<open>mfl_wf (mf_classic_listener_reset_state L)\<close> in \<open>auto simp: st\<close>)
qed

lemma alloc_wf:
  assumes "mfc_wf d"
  shows "\<exists>L. mf_classic_listener_alloc d = Some L \<and> mfl_wf (mf_classic_listener_set_callback L cb)
    \<and> mfl_data (mf_classic_listener_set_callback L cb) = d"
  using assms
  by (simp add: mf_classic_listener_alloc_def mf_classic_listener_set_callback_def mf_classic_listener_prepare_emulation_def
      bit_buffer_alloc_def MF_CLASSIC_MAX_BUFF_SIZE_def mfl_wf_def core_wf_def buf64_def bb_wf_def context_wf_def
      auth_context_zero_def mf_classic_get_total_block_num_def)

lemma reachable_wf:
  assumes "mfc_wf d" "card_reachable d st"
  shows "mfl_wf (snd st)"
  using assms(2)
proof induction
  case (start L cb)
  then show ?case using alloc_wf [OF assms(1), of cb] by auto
next
  case (step st rnd ev cmd st')
  then show ?case using card_step_wf(2) by blast
qed

section \<open>Both ends of the cipher\<close>

lemma crypto1_init_any: "crypto1_init c key = crypto1_init c' key"
  by (cases c; cases c') (simp add: crypto1_init_def)

lemma be32_xor: "length xs = 4 \<Longrightarrow> length ys = 4 \<Longrightarrow> be32 (map2 (XOR) xs ys) = be32 xs XOR be32 ys"
  by (rule word32_eqI) (simp add: bit_be32 bit_xor_iff)

lemma be32_zero: "be32 [0, 0, 0, 0] = 0"
  by (simp add: be32_def of_le_bytes_def)

lemma replicate_4: "replicate 4 (0 :: u8) = [0, 0, 0, 0]"
  by (simp add: numeral_eq_Suc)

lemma card_session_init: "card_session L kt b nt
    = snd (crypto1_word (crypto1_init c (card_key (mfl_data L) kt b)) (be32 nt XOR card_cuid (mfl_data L)) False)"
  by (simp only: card_session_def crypto1_init_any [of "mfl_crypto L" _ c])

text \<open>The reader, with the right key, is in the state of the card and knows its nonce.\<close>

lemma reader_in_session:
  assumes "nonce_sent L kt b nt tx o'" "length nt = 4"
  shows "nonce_session c (card_key (mfl_data L) kt b) (card_cuid (mfl_data L)) (bb_bytes tx)
      (mfl_comm_state L = MfClassicListenerCommStateEncrypted) = (be32 nt, card_session L kt b nt)"
proof (cases "mfl_comm_state L")
  case MfClassicListenerCommStatePlain
  with assms show ?thesis by (simp add: nonce_session_def nonce_sent_def card_session_init [of L kt b nt c])
next
  case MfClassicListenerCommStateEncrypted
  define u where "u = card_cuid (mfl_data L)"
  define c0 where "c0 = crypto1_init c (card_key (mfl_data L) kt b)"
  let ?f = "be_bytes (be32 nt XOR u)"
  obtain w s where w: "crypto1_word c0 (be32 nt XOR u) False = (w, s)" by fastforce
  have s: "card_session L kt b nt = s" using w by (simp add: card_session_init [of L kt b nt c] c0_def u_def)
  have k: "be32 (fst (key_stream c0 ?f)) = w" using crypto1_word_bytes [of ?f c0] w by simp
  have "bb_bytes tx = map2 (XOR) (fst (key_stream c0 ?f)) nt"
    using assms(1) MfClassicListenerCommStateEncrypted
    by (simp add: nonce_sent_def u_def c0_def crypto1_init_any [of "mfl_crypto L" _ c])
  then have tx: "be32 (bb_bytes tx) = w XOR be32 nt" using assms(2) k by (simp add: be32_xor)
  have "crypto1_word c0 (be32 (bb_bytes tx) XOR u) True = (w, s)"
    using crypto1_word_encrypted [OF w] by (simp add: tx xor.assoc)
  then show ?thesis
    using MfClassicListenerCommStateEncrypted s by (simp add: nonce_session_def tx xor.assoc [symmetric] flip: c0_def u_def)
qed

lemma snd_crypto1_word_bytes: "length bs = 4 \<Longrightarrow> snd (crypto1_word c (be32 bs) False) = snd (key_stream c bs)"
  by (simp add: crypto1_word_bytes)

text \<open>The reader's answer is accepted, and both ciphers stay in step.\<close>

lemma answer_in_step:
  assumes L: "mfl_crypto L = s" "ac_nt (mfl_auth_context L) = nt" and nr: "length nr = 4"
    and bs: "bs = map2 (XOR) (fst (key_stream s (nr @ [0, 0, 0, 0]))) (nr @ answer_bytes (be32 nt))"
  shows "answer_accepted L bs"
    "snd (crypto1_word (snd (crypto1_word s (be32 (take 4 bs)) True)) 0 False) = snd (key_stream s (nr @ [0, 0, 0, 0]))"
proof -
  obtain k1 s1 where k1: "key_stream s nr = (k1, s1)" by fastforce
  obtain k2 s2 where k2: "key_stream s1 [0, 0, 0, 0] = (k2, s2)" by (metis prod.collapse)
  have l: "length k1 = 4" "length k2 = 4" "length (answer_bytes (be32 nt)) = 4"
    using length_key_stream [of s nr] length_key_stream [of s1 "[0, 0, 0, 0]"] k1 k2 nr by (simp_all add: answer_bytes_def)
  have ks: "key_stream s (nr @ [0, 0, 0, 0]) = (k1 @ k2, s2)" by (simp add: key_stream_append k1 k2 Let_def del: key_stream.simps)
  have parts: "take 4 bs = map2 (XOR) k1 nr" "drop 4 bs = map2 (XOR) k2 (answer_bytes (be32 nt))"
    using l nr by (simp_all add: bs ks)
  have "crypto1_word s (be32 nr) False = (be32 k1, s1)" using crypto1_word_bytes [OF nr, of s] k1 by simp
  from crypto1_word_encrypted [OF this] have w1: "crypto1_word s (be32 (take 4 bs)) True = (be32 k1, s1)"
    using l nr by (simp add: parts be32_xor)
  have w2: "crypto1_word s1 0 False = (be32 k2, s2)"
    using crypto1_word_bytes [of "[0, 0, 0, 0]" s1] k2 by (simp add: be32_zero)
  show "snd (crypto1_word (snd (crypto1_word s (be32 (take 4 bs)) True)) 0 False) = snd (key_stream s (nr @ [0, 0, 0, 0]))"
    by (simp add: w1 w2 ks)
  have "be32 (answer_bytes (be32 nt)) = prng_successor (be32 nt) 64"
    unfolding answer_bytes_def by (rule prng_successor_bytes)
  then have "be32 (drop 4 bs) XOR be32 k2 = prng_successor (be32 nt) 64"
    using l by (simp add: parts be32_xor) (simp add: xor.commute xor.left_commute)
  then show "answer_accepted L bs" by (simp add: answer_accepted_def L w1 w2)
qed

lemma dispatch_auth:
  assumes "frame_ok f" "bb_size_bits f = 16" "bb_data f ! 0 = (if kt = MfClassicKeyTypeA then MF_CLASSIC_CMD_AUTH_KEY_A else MF_CLASSIC_CMD_AUTH_KEY_B)"
    "\<not> mfl_cmd_in_progress L"
  shows "handle_frame nt L f = mf_classic_listener_auth_first_part_handler nt
    (L\<lparr>mfl_current_cmd_idx := if kt = MfClassicKeyTypeA then 2 else 3, mfl_current_cmd_handler_idx := 0\<rparr>) kt (bb_data f ! 1)"
  using assms(2-4)
  by (cases kt) (simp_all add: handle_frame_def mf_classic_listener_cmd_handlers_def bit_buffer_get_size_def frame_bytes [OF assms(1)]
      mfc_cmd_defs mf_classic_listener_auth_key_a_handler_def mf_classic_listener_auth_key_b_handler_def,
      simp_all add: numeral_2_eq_2 numeral_3_eq_3)

section \<open>Properties\<close>

lemma progress_handler:
  assumes "progress_ok L"
  shows "mfl_current_cmd_idx L < length (mf_classic_listener_cmd_handlers rnd)
    \<and> mfl_current_cmd_handler_idx L < length (lc_handler (mf_classic_listener_cmd_handlers rnd ! mfl_current_cmd_idx L))"
  using assms by (auto simp: progress_ok_def mf_classic_listener_cmd_handlers_def Let_def numeral_eq_Suc)

text \<open>C35: however the radio drives the card, the emulation stays well-formed: the memory keeps its shape, the
  buffers their size, an authenticated session is an encrypted one for a block of the card, and a command in
  progress waits for a handler that its table entry has. It fails on a frame in exactly two cases: the frame is
  an encrypted one of more than 64 bytes, which does not fit the buffer it is decrypted into, or it brings the operand of a
  value command and the operand is \<open>INT32_MIN\<close> or its sum with the pending value leaves \<open>int32_t\<close>.\<close>

theorem mf_classic_listener_invariant:
  assumes "mfc_wf d" "card_reachable d st" "length rnd = 4" "nfc_event_ok ev"
  shows "mfl_wf (snd st)
    \<and> (mfl_cmd_in_progress (snd st) \<longrightarrow> mfl_current_cmd_idx (snd st) < length (mf_classic_listener_cmd_handlers rnd)
        \<and> mfl_current_cmd_handler_idx (snd st) < length (lc_handler (mf_classic_listener_cmd_handlers rnd ! mfl_current_cmd_idx (snd st))))
    \<and> (card_step rnd ev st = None \<longleftrightarrow> too_long ev (snd st) \<or> overflows ev (snd st))"
proof -
  have wf: "mfl_wf (snd st)" by (rule reachable_wf [OF assms(1,2)])
  then have "mfl_cmd_in_progress (snd st) \<longrightarrow> progress_ok (snd st)" by (simp add: mfl_wf_def)
  with wf progress_handler [of "snd st" rnd] card_step_wf(1) [OF wf assms(3,4)] show ?thesis by blast
qed

lemma alloc_card_wf: "mfc_wf mf_classic_alloc"
  by (simp add: mfc_wf_def mf_classic_alloc_def MF_CLASSIC_TOTAL_BLOCKS_MAX_def MF_CLASSIC_BLOCK_SIZE_def
      MF_CLASSIC_READ_MASK_SIZE_def iso14443_3a_alloc_def)

definition auth_frame :: BitBuffer where
  "auth_frame = \<lparr>bb_data = [0x60, 4], bb_parity = [0], bb_capacity_bytes = 2, bb_size_bits = 16\<rparr>"

lemma auth_frame_ok: "frame_ok auth_frame" "bb_size_bits auth_frame = 16" "bb_data auth_frame = [0x60, 4]"
  by (simp_all add: auth_frame_def frame_ok_def bb_wf_def)

lemma idle_card: "mf_classic_listener_alloc d = Some L \<Longrightarrow> \<not> mfl_cmd_in_progress (mf_classic_listener_set_callback L cb)"
  by (auto simp: mf_classic_listener_alloc_def mf_classic_listener_set_callback_def mf_classic_listener_prepare_emulation_def
      split: bind_splits)

theorem mf_classic_listener_invariant_witness:
  "\<exists>L. mf_classic_listener_alloc mf_classic_alloc = Some L
    \<and> card_step [1, 2, 3, 4] (NfcEventTypeRxEnd auth_frame) (Iso14443_3aListenerStateIdle, mf_classic_listener_set_callback L True) \<noteq> None"
proof -
  obtain L where L: "mf_classic_listener_alloc mf_classic_alloc = Some L" using alloc_wf [OF alloc_card_wf] by blast
  have "card_reachable mf_classic_alloc (Iso14443_3aListenerStateIdle, mf_classic_listener_set_callback L True)"
    by (rule card_reachable.start [OF L])
  moreover have "length [1 :: u8, 2, 3, 4] = 4" "nfc_event_ok (NfcEventTypeRxEnd auth_frame)" by (simp_all add: auth_frame_ok)
  ultimately have "card_step [1, 2, 3, 4] (NfcEventTypeRxEnd auth_frame) (Iso14443_3aListenerStateIdle, mf_classic_listener_set_callback L True) = None
      \<longleftrightarrow> too_long (NfcEventTypeRxEnd auth_frame) (mf_classic_listener_set_callback L True)
        \<or> overflows (NfcEventTypeRxEnd auth_frame) (mf_classic_listener_set_callback L True)"
    using mf_classic_listener_invariant [OF alloc_card_wf] by (metis snd_conv)
  moreover have "bits_passed_on auth_frame \<le> 16" by (simp add: bits_passed_on_def auth_frame_ok size_bytes_ceil)
  ultimately show ?thesis using L idle_card [OF L, of True] by (auto simp: operand_overflow_def)
qed

text \<open>C36: a radio event changes the memory of the card in two ways only. A write changes one block, which is not
  block 0 and lies in the sector that the reader has authenticated to, and of it only the parts that the access
  conditions let the key write. A transfer puts the pending value into a block that the key may decrement.\<close>

theorem mf_classic_listener_memory:
  assumes "mfc_wf d" "card_reachable d (s, L)" "length rnd = 4" "nfc_event_ok ev" "card_step rnd ev (s, L) = Some (cmd, s', L')"
  defines "kt \<equiv> ac_key_type (mfl_auth_context L)" and "w \<equiv> mfl_write_block L"
  shows "mfl_data L' = mfl_data L
    \<or> mfl_cmd_in_progress L \<and> mfl_state L = MfClassicListenerStateAuthComplete
      \<and> w \<noteq> 0 \<and> unat w < mfl_total_block_num L \<and> in_auth_sector L w \<and> permits_write (mfl_data L) w kt
      \<and> (\<exists>bs. length bs = 16 \<and> mfl_data L' = update_block (unat w) (block_after_write (mfl_data L) w kt bs) (mfl_data L))
    \<or> mfl_cmd_in_progress L \<and> mfl_state L = MfClassicListenerStateAuthComplete
      \<and> (\<exists>b. card_permits (mfl_data L) b kt MfClassicActionDataDec
           \<and> mfl_data L' = update_block (unat b) (value_block (mfl_transfer_value L) b) (mfl_data L))"
proof -
  have wf: "mfl_wf L" using reachable_wf [OF assms(1,2)] by simp
  from assms(4) show ?thesis
  proof (cases rule: card_step_cases)
    case (frame b)
    then obtain c where r: "listener_receive rnd b L = Some (c, L')" using assms(5) by (auto split: bind_splits)
    then have fit: "mfl_state L = MfClassicListenerStateAuthComplete \<Longrightarrow> bb_size_bits b \<le> 512"
      using receive_too_long [OF wf, of b rnd] by (metis not_le option.distinct(1))
    have e: "memory_effect L (plain_frame L b) (mfl_data L')"
      using frame_outcome(2) [OF wf frame(1,2) assms(3) r] by simp
    obtain buff c rx where p: "receive_plain L b = Some (buff, L\<lparr>mfl_crypto := c, mfl_rx_plain_buffer := rx\<rparr>)" "frame_ok buff"
      using receive_plain_ok [OF wf frame(1,2) fit] by blast
    then have pf: "plain_frame L b = buff" "bb_wf buff" by (simp_all add: plain_frame_def frame_ok_def)
    have ok: "mfl_cmd_in_progress L \<Longrightarrow> progress_ok L" using wf by (simp add: mfl_wf_def)
    show ?thesis
    proof (cases "mfl_cmd_in_progress L \<and> (mfl_current_cmd_idx L = 5 \<or> mfl_current_cmd_handler_idx L = 2)")
      case False
      then have "mfl_data L' = mfl_data L" using e by (auto simp: memory_effect_def)
      then show ?thesis ..
    next
      case True
      then have q: "mfl_cmd_in_progress L" "progress_ok L" using ok by auto
      show ?thesis
      proof (cases "mfl_current_cmd_idx L = 5")
        case True
        with q have "write_effect L buff (mfl_data L')" "mfl_state L = MfClassicListenerStateAuthComplete" "in_auth_sector L w"
          "w \<noteq> 0" "unat w < mfl_total_block_num L"
          using e by (auto simp: memory_effect_def pf progress_ok_def w_def)
        with q(1) pf(2) length_bb_bytes [of buff] show ?thesis
          by (auto simp: write_effect_def Let_def kt_def w_def split: if_splits)
      next
        case False
        with True q have "transfer_effect L buff (mfl_data L')" "mfl_state L = MfClassicListenerStateAuthComplete"
          using e by (auto simp: memory_effect_def pf progress_ok_def)
        with q(1) show ?thesis
          by (auto simp: transfer_effect_def transfer_block_def kt_def split: if_splits)
      qed
    qed
  qed (use assms(5) in \<open>auto simp: mf_classic_listener_reset_state_def\<close>)
qed

theorem mf_classic_listener_memory_witness:
  "\<exists>L cmd s L'. mf_classic_listener_alloc mf_classic_alloc = Some L
    \<and> card_step [1, 2, 3, 4] (NfcEventTypeRxEnd auth_frame) (Iso14443_3aListenerStateIdle, mf_classic_listener_set_callback L True) = Some (cmd, s, L')
    \<and> mfl_data L' = mf_classic_alloc"
proof -
  obtain L where L: "mf_classic_listener_alloc mf_classic_alloc = Some L" "mfl_wf (mf_classic_listener_set_callback L True)"
    "mfl_data (mf_classic_listener_set_callback L True) = mf_classic_alloc" using alloc_wf [OF alloc_card_wf, of True] by blast
  let ?L = "mf_classic_listener_set_callback L True"
  have idle: "\<not> mfl_cmd_in_progress ?L" by (rule idle_card [OF L(1)])
  have r: "card_reachable mf_classic_alloc (Iso14443_3aListenerStateIdle, ?L)" by (rule card_reachable.start [OF L(1)])
  have e: "length [1 :: u8, 2, 3, 4] = 4" "nfc_event_ok (NfcEventTypeRxEnd auth_frame)" by (simp_all add: auth_frame_ok)
  have "bits_passed_on auth_frame \<le> 16" by (simp add: bits_passed_on_def auth_frame_ok size_bytes_ceil)
  then obtain cmd s L' where run: "card_step [1, 2, 3, 4] (NfcEventTypeRxEnd auth_frame) (Iso14443_3aListenerStateIdle, ?L) = Some (cmd, s, L')"
    using card_step_wf(1) [of "(Iso14443_3aListenerStateIdle, ?L)", OF _ e] L(2) idle by (fastforce simp: operand_overflow_def)
  with mf_classic_listener_memory [OF alloc_card_wf r e run] idle L(1,3) show ?thesis by auto
qed

text \<open>C37: a read shows only what the reader may see: it is answered by one frame, the block encrypted with its
  checksum, if the reader has authenticated to the block's sector and its key may read the block, otherwise it is
  refused and no frame is sent; of a trailer the six bytes of key A are always sent as zeros. The memory is unchanged.\<close>

theorem mf_classic_listener_read:
  assumes "mfl_wf L" "\<not> mfl_cmd_in_progress L" "frame_ok f" "bb_size_bits f = 16" "bb_data f ! 0 = MF_CLASSIC_CMD_READ_BLOCK"
  defines "b \<equiv> bb_data f ! 1"
  shows "\<exists>c L'. handle_frame rnd L f = Some (c, L') \<and> mfl_data L' = mfl_data L
    \<and> (if readable L b then c = MfClassicListenerCommandProcessed
         \<and> (\<exists>tx. mfl_out L' = mfl_out L @ [ListenerTxCustomParity tx]
             \<and> bb_bytes tx = map2 (XOR) (fst (key_stream (mfl_crypto L) (replicate 18 0))) (block_frame L b))
       else c = MfClassicListenerCommandNack \<and> mfl_out L' = mfl_out L)
    \<and> (mf_classic_is_sector_trailer b \<longrightarrow> take 6 (block_frame L b) = replicate 6 0)"
proof -
  let ?M = "L\<lparr>mfl_current_cmd_idx := 4, mfl_current_cmd_handler_idx := 0\<rparr>"
  have "handle_frame rnd L f = mf_classic_listener_read_block_handler ?M f"
    using assms(2,4,5) by (simp add: handle_frame_def mf_classic_listener_cmd_handlers_def bit_buffer_get_size_def frame_bytes [OF assms(3)] mfc_cmd_defs,
        simp add: eval_nat_numeral)
  moreover have "core_wf ?M" using set_cmd_wf [OF assms(1,2)] by (simp add: mfl_wf_def)
  moreover have "readable ?M b = readable L b" "block_frame ?M b = block_frame L b"
    by (simp_all add: readable_def block_frame_def in_auth_sector_def)
  moreover have "mf_classic_is_sector_trailer b \<Longrightarrow> take 6 (block_frame L b) = replicate 6 0"
    by (simp add: block_frame_def visible_block_def Let_def)
  ultimately show ?thesis using read_spec [of ?M f] assms(3) unfolding b_def by (cases "readable L (bb_data f ! 1)") auto
qed

text \<open>A listener whose reader has authenticated to block 4, in sector 1, of the empty card.\<close>

definition session_example :: MfClassicListener where
  "session_example =
     (let buf = \<lparr>bb_data = replicate 64 0, bb_parity = replicate 8 0, bb_capacity_bytes = 64, bb_size_bits = 0\<rparr> in
       \<lparr>mfl_state = MfClassicListenerStateAuthComplete, mfl_comm_state = MfClassicListenerCommStateEncrypted,
        mfl_data = mf_classic_alloc, mfl_tx_plain_buffer = buf, mfl_tx_encrypted_buffer = buf, mfl_rx_plain_buffer = buf,
        mfl_crypto = crypto1_alloc, mfl_auth_context = auth_context_zero\<lparr>ac_block_num := 4\<rparr>, mfl_write_block = 0,
        mfl_transfer_value = 7, mfl_transfer_valid = False, mfl_value_cmd = MfClassicValueCommandIncrement,
        mfl_callback = False, mfl_cmd_in_progress = False, mfl_current_cmd_idx = 0, mfl_current_cmd_handler_idx = 0,
        mfl_total_block_num = 20, mfl_out = []\<rparr>)"

lemma session_example_wf: "mfl_wf session_example" "\<not> mfl_cmd_in_progress session_example" "mfl_data session_example = mf_classic_alloc"
  by (simp_all add: session_example_def Let_def mfl_wf_def core_wf_def alloc_card_wf buf64_def bb_wf_def context_wf_def
      auth_context_zero_def) (simp_all add: mf_classic_alloc_def)

lemma session_example_permits: "\<not> mf_classic_is_sector_trailer b \<Longrightarrow> a = MfClassicActionDataRead \<or> a = MfClassicActionDataDec \<Longrightarrow> card_permits mf_classic_alloc b MfClassicKeyTypeA a"
proof -
  assume b: "\<not> mf_classic_is_sector_trailer b" and a: "a = MfClassicActionDataRead \<or> a = MfClassicActionDataDec"
  have "unat (mf_classic_get_sector_trailer_num_by_block b) < 256" using u8_less by simp
  then have "condition_bits (mfc_block mf_classic_alloc ! unat (mf_classic_get_sector_trailer_num_by_block b)) g = (False, False, False)" for g
    by (simp add: condition_bits_def mf_classic_alloc_def MF_CLASSIC_TOTAL_BLOCKS_MAX_def MF_CLASSIC_BLOCK_SIZE_def)
  then show ?thesis using a b by (auto simp: card_permits_def)
qed

definition frame_2 :: "u8 \<Rightarrow> u8 \<Rightarrow> BitBuffer" where
  "frame_2 x y = \<lparr>bb_data = [x, y], bb_parity = [0], bb_capacity_bytes = 2, bb_size_bits = 16\<rparr>"

lemma frame_2_ok: "frame_ok (frame_2 x y)" "bb_size_bits (frame_2 x y) = 16" "bit_buffer_get_size_bytes (frame_2 x y) = 2"
  "bb_data (frame_2 x y) ! 0 = x" "bb_data (frame_2 x y) ! 1 = y"
  by (simp_all add: frame_2_def frame_ok_def bb_wf_def bit_buffer_get_size_bytes_def)

theorem mf_classic_listener_read_witness:
  "(\<exists>L'. handle_frame [] session_example (frame_2 0x30 0) = Some (MfClassicListenerCommandNack, L') \<and> mfl_out L' = [])
    \<and> (\<exists>L' tx. handle_frame [] session_example (frame_2 0x30 5) = Some (MfClassicListenerCommandProcessed, L')
        \<and> mfl_out L' = [ListenerTxCustomParity tx])"
proof -
  have e: "mfl_out session_example = []" "mfl_state session_example = MfClassicListenerStateAuthComplete"
    "mfl_total_block_num session_example = 20" "ac_block_num (mfl_auth_context session_example) = 4"
    "ac_key_type (mfl_auth_context session_example) = MfClassicKeyTypeA"
    by (simp_all add: session_example_def Let_def auth_context_zero_def)
  have "\<not> readable session_example 0"
    by (simp add: readable_def in_auth_sector_def e mf_classic_get_sector_by_block_def)
  moreover have "card_permits mf_classic_alloc 5 MfClassicKeyTypeA MfClassicActionDataRead"
    by (rule session_example_permits) (simp_all add: is_trailer_group block_group_def)
  then have "readable session_example 5"
    by (simp add: readable_def in_auth_sector_def e session_example_wf(3) mf_classic_get_sector_by_block_def)
  ultimately show ?thesis
    using mf_classic_listener_read [OF session_example_wf(1,2), of "frame_2 0x30 0" "[]"]
      mf_classic_listener_read [OF session_example_wf(1,2), of "frame_2 0x30 5" "[]"] e(1)
    by (auto simp: frame_2_ok MF_CLASSIC_CMD_READ_BLOCK_def simp del: One_nat_def)
qed

text \<open>The transfer of a value command does not look at the authenticated sector nor at block 0: it puts the
  pending value into any block whose condition bits let the key type decrement it.\<close>

theorem mf_classic_transfer_any_block:
  assumes "mfl_wf L" "mfl_cmd_in_progress L" "mfl_current_cmd_idx L \<in> {6, 7, 8}" "mfl_current_cmd_handler_idx L = 2"
    and "frame_ok f" "bit_buffer_get_size_bytes f = 2" "bb_data f ! 0 = MF_CLASSIC_CMD_VALUE_TRANSFER"
    and "card_permits (mfl_data L) (bb_data f ! 1) (ac_key_type (mfl_auth_context L)) MfClassicActionDataDec"
  shows "\<exists>L'. handle_frame rnd L f = Some (MfClassicListenerCommandAck, L')
    \<and> mfl_data L' = update_block (unat (bb_data f ! 1)) (value_block (mfl_transfer_value L) (bb_data f ! 1)) (mfl_data L)"
proof -
  have "handle_frame rnd L f = mf_classic_listener_value_transfer_handler L f"
    using assms(2-4) by (auto simp: handle_frame_def mf_classic_listener_cmd_handlers_def Let_def numeral_eq_Suc)
  moreover have "core_wf L" using assms(1) by (simp add: mfl_wf_def)
  ultimately show ?thesis using transfer_spec [of L f] assms(5-8) by (simp add: transfer_block_def del: One_nat_def)
qed

theorem mf_classic_transfer_any_block_witness:
  "\<exists>L'. handle_frame [] (session_example\<lparr>mfl_cmd_in_progress := True, mfl_current_cmd_idx := 6, mfl_current_cmd_handler_idx := 2\<rparr>) (frame_2 0xB0 0)
      = Some (MfClassicListenerCommandAck, L')
    \<and> mfl_data L' = update_block 0 (value_block 7 0) mf_classic_alloc \<and> \<not> in_auth_sector session_example 0"
proof -
  let ?L = "session_example\<lparr>mfl_cmd_in_progress := True, mfl_current_cmd_idx := 6, mfl_current_cmd_handler_idx := 2\<rparr>"
  have e: "mfl_state session_example = MfClassicListenerStateAuthComplete" "ac_key_type (mfl_auth_context session_example) = MfClassicKeyTypeA"
    "mfl_transfer_value session_example = 7" "mfl_total_block_num session_example = 20" "ac_block_num (mfl_auth_context session_example) = 4"
    by (simp_all add: session_example_def Let_def auth_context_zero_def)
  have "mfl_wf ?L" using session_example_wf e by (simp add: mfl_wf_def core_wf_def progress_ok_def)
  moreover have "card_permits mf_classic_alloc 0 MfClassicKeyTypeA MfClassicActionDataDec"
    by (rule session_example_permits) (simp_all add: is_trailer_group block_group_def)
  moreover have "\<not> in_auth_sector session_example 0" by (simp add: in_auth_sector_def e mf_classic_get_sector_by_block_def)
  ultimately show ?thesis
    using mf_classic_transfer_any_block [of ?L "frame_2 0xB0 0" "[]"] session_example_wf(3) e
    by (simp add: frame_2_ok MF_CLASSIC_CMD_VALUE_TRANSFER_def del: One_nat_def)
qed

text \<open>C38: a reader that knows the key authenticates, first or nested: from the frame that the card answers an
  authentication command with, \<open>crypto1_encrypt_reader_nonce\<close> makes an answer that the card accepts; the session is
  then encrypted and for the block asked for, and the reader, from the state in which it made its answer, decrypts the card's
  last message to the successor of the nonce that proves the card, ending in the card's cipher state.\<close>

theorem mf_classic_authentication:
  assumes wf: "mfl_wf L" "\<not> mfl_cmd_in_progress L"
    and f: "frame_ok f" "bb_size_bits f = 16" "bb_data f ! 0 = (if kt = MfClassicKeyTypeA then MF_CLASSIC_CMD_AUTH_KEY_A else MF_CLASSIC_CMD_AUTH_KEY_B)"
      "bb_data f ! 1 = b" "unat b < mfl_total_block_num L"
    and l: "length nt = 4" "length nr = 4" and buf: "bb_wf out" "8 \<le> bb_capacity_bytes out" "bb_wf rx" "4 \<le> bb_capacity_bytes rx"
  shows "\<exists>L1 tx c' nr' answer L2 tx2 d. handle_frame nt L f = Some (MfClassicListenerCommandProcessed, L1)
    \<and> last (mfl_out L1) \<in> {ListenerTx tx, ListenerTxCustomParity tx}
    \<and> crypto1_encrypt_reader_nonce c (card_key (mfl_data L) kt b) (card_cuid (mfl_data L)) (bb_bytes tx) nr out
        (mfl_comm_state L = MfClassicListenerCommStateEncrypted) = Some (c', nr', answer)
    \<and> listener_receive rnd answer L1 = Some (NfcCommandContinue, L2)
    \<and> mfl_state L2 = MfClassicListenerStateAuthComplete \<and> mfl_comm_state L2 = MfClassicListenerCommStateEncrypted
    \<and> ac_block_num (mfl_auth_context L2) = b \<and> ac_key_type (mfl_auth_context L2) = kt
    \<and> ListenerTxCustomParity tx2 \<in> set (mfl_out L2)
    \<and> crypto1_decrypt c' tx2 rx = Some (mfl_crypto L2, d) \<and> bb_bytes d = be_bytes (prng_successor (be32 nt) 96)"
proof -
  let ?M = "L\<lparr>mfl_current_cmd_idx := if kt = MfClassicKeyTypeA then 2 else 3, mfl_current_cmd_handler_idx := 0\<rparr>"
  let ?s = "card_session L kt b nt"
  have M: "core_wf ?M" "card_session ?M kt b nt = ?s" "mfl_comm_state ?M = mfl_comm_state L" "mfl_data ?M = mfl_data L"
    "unat b < mfl_total_block_num ?M"
    using set_cmd_wf [OF wf, where i = "if kt = MfClassicKeyTypeA then 2 else 3" and j = 0] f(5) by (simp_all add: mfl_wf_def card_session_def)
  have h: "handle_frame nt L f = mf_classic_listener_auth_first_part_handler nt ?M kt b"
    using dispatch_auth [OF f(1-3) wf(2)] f(4) by simp
  obtain p tx o' where first: "handle_frame nt L f = Some (MfClassicListenerCommandProcessed,
      ?M\<lparr>mfl_state := MfClassicListenerStateIdle,
        mfl_auth_context := (mfl_auth_context L)\<lparr>ac_key_type := kt, ac_block_num := b, ac_nt := nt\<rparr>,
        mfl_crypto := ?s, mfl_tx_plain_buffer := p, mfl_tx_encrypted_buffer := tx,
        mfl_out := mfl_out L @ [o'], mfl_cmd_in_progress := True, mfl_current_cmd_handler_idx := 1\<rparr>)"
    "buf64 p" "buf64 tx" "bb_size_bits tx = 32" "nonce_sent ?M kt b nt tx o'"
    using auth_first_spec [OF M(1) l(1) M(5), of kt] unfolding h M(2) by (auto simp del: numeral_nat)
  define L1 where "L1 = ?M\<lparr>mfl_state := MfClassicListenerStateIdle,
        mfl_auth_context := (mfl_auth_context L)\<lparr>ac_key_type := kt, ac_block_num := b, ac_nt := nt\<rparr>,
        mfl_crypto := ?s, mfl_tx_plain_buffer := p, mfl_tx_encrypted_buffer := tx,
        mfl_out := mfl_out L @ [o'], mfl_cmd_in_progress := True, mfl_current_cmd_handler_idx := 1\<rparr>"
  have L1: "core_wf L1" "mfl_crypto L1 = ?s" "ac_nt (mfl_auth_context L1) = nt" "mfl_state L1 = MfClassicListenerStateIdle"
    "mfl_cmd_in_progress L1" "mfl_current_cmd_handler_idx L1 = 1" "mfl_current_cmd_idx L1 = 2 \<or> mfl_current_cmd_idx L1 = 3"
    "ac_block_num (mfl_auth_context L1) = b" "ac_key_type (mfl_auth_context L1) = kt"
    using M(1) first(2,3) l(1) by (auto simp: L1_def core_wf_def context_wf_def)
  have o1: "last (mfl_out L1) \<in> {ListenerTx tx, ListenerTxCustomParity tx}"
    using first(5) by (auto simp: L1_def nonce_sent_def split: if_splits)
  have lt: "length (bb_bytes tx) = 4" using first(3,4) by (simp add: buf64_def length_bb_bytes size_bytes_ceil)
  have ses: "nonce_session c (card_key (mfl_data L) kt b) (card_cuid (mfl_data L)) (bb_bytes tx)
      (mfl_comm_state L = MfClassicListenerCommStateEncrypted) = (be32 nt, ?s)"
    using reader_in_session [OF first(5) l(1), of c] M(2-4) by simp
  let ?feeds = "nr @ [0, 0, 0, 0]"
  obtain nr' answer where r: "crypto1_encrypt_reader_nonce c (card_key (mfl_data L) kt b) (card_cuid (mfl_data L)) (bb_bytes tx) nr out
        (mfl_comm_state L = MfClassicListenerCommStateEncrypted) = Some (snd (key_stream ?s ?feeds), nr', answer)"
    "bb_wf answer" "bb_size_bits answer = 64"
    "bb_bytes answer = map2 (XOR) (fst (key_stream ?s ?feeds)) (nr @ answer_bytes (be32 nt))"
    using reader_nonce_spec [OF buf(1,2) lt l(2), of c "card_key (mfl_data L) kt b" "card_cuid (mfl_data L)"
        "mfl_comm_state L = MfClassicListenerCommStateEncrypted"] unfolding ses fst_conv snd_conv by blast
  note step = answer_in_step [OF L1(2,3) l(2) r(4)]
  have size: "bit_buffer_get_size_bytes answer = 8" using r(3) by (simp add: size_bytes_ceil)
  let ?z = "replicate 4 0 :: u8 list"
  obtain ctx p2 tx2 out2 where second: "mf_classic_listener_auth_second_part_handler L1 answer
      = Some (MfClassicListenerCommandProcessed, L1\<lparr>mfl_cmd_in_progress := False, mfl_auth_context := ctx,
          mfl_crypto := snd (key_stream (snd (key_stream ?s ?feeds)) ?z), mfl_tx_plain_buffer := p2, mfl_tx_encrypted_buffer := tx2,
          mfl_out := out2, mfl_state := MfClassicListenerStateAuthComplete, mfl_comm_state := MfClassicListenerCommStateEncrypted\<rparr>)"
    "ac_block_num ctx = b" "ac_key_type ctx = kt" "buf64 tx2" "ListenerTxCustomParity tx2 \<in> set out2" "bb_size_bits tx2 = 8 * 4"
    "bb_bytes tx2 = map2 (XOR) (fst (key_stream (snd (key_stream ?s ?feeds)) ?z)) (be_bytes (prng_successor (be32 nt) 96))"
    using auth_second_spec [OF L1(1) r(2) size] step L1(3,8,9) unfolding L1(2) step(2) by auto
  obtain d where d: "crypto1_decrypt (snd (key_stream ?s ?feeds)) tx2 rx = Some (snd (key_stream (snd (key_stream ?s ?feeds)) ?z), d)"
    "bb_bytes d = be_bytes (prng_successor (be32 nt) 96)"
    using decrypt_bytes [of tx2 rx 4 "snd (key_stream ?s ?feeds)"] second(4,6) buf(3,4) by (auto simp: buf64_def second(7) map2_xor_cancel)
  have "handle_frame rnd L1 answer = mf_classic_listener_auth_second_part_handler L1 answer"
    using L1(5-7) by (auto simp: handle_frame_def mf_classic_listener_cmd_handlers_def Let_def numeral_eq_Suc)
  then have run: "listener_receive rnd answer L1 = Some (NfcCommandContinue, L1\<lparr>mfl_cmd_in_progress := False, mfl_auth_context := ctx,
          mfl_crypto := snd (key_stream (snd (key_stream ?s ?feeds)) ?z), mfl_tx_plain_buffer := p2, mfl_tx_encrypted_buffer := tx2,
          mfl_out := out2, mfl_state := MfClassicListenerStateAuthComplete, mfl_comm_state := MfClassicListenerCommStateEncrypted\<rparr>)"
    using second(1) L1(4) by (simp add: listener_receive_def receive_plain_def answer_command_def)
  show ?thesis
    by (intro exI conjI, rule first(1) [folded L1_def], rule o1, rule r(1), rule run) (use second d in simp_all)
qed

theorem mf_classic_authentication_witness:
  "\<exists>L1 c' nr' answer tx L2. handle_frame [1, 2, 3, 4] session_example (frame_2 0x60 4) = Some (MfClassicListenerCommandProcessed, L1)
    \<and> crypto1_encrypt_reader_nonce crypto1_alloc (card_key mf_classic_alloc MfClassicKeyTypeA 4) (card_cuid mf_classic_alloc) (bb_bytes tx) [5, 6, 7, 8]
        (mfl_tx_plain_buffer session_example) True = Some (c', nr', answer)
    \<and> listener_receive [0, 0, 0, 0] answer L1 = Some (NfcCommandContinue, L2) \<and> mfl_state L2 = MfClassicListenerStateAuthComplete"
proof -
  have b: "bb_wf (mfl_tx_plain_buffer session_example)" "bb_capacity_bytes (mfl_tx_plain_buffer session_example) = 64"
    using session_example_wf(1) by (simp_all add: mfl_wf_def core_wf_def buf64_def)
  have e: "mfl_total_block_num session_example = 20" "mfl_comm_state session_example = MfClassicListenerCommStateEncrypted"
    by (simp_all add: session_example_def Let_def)
  have "bb_data (frame_2 0x60 4) ! 0 = (if MfClassicKeyTypeA = MfClassicKeyTypeA then MF_CLASSIC_CMD_AUTH_KEY_A else MF_CLASSIC_CMD_AUTH_KEY_B)"
    by (simp add: frame_2_ok MF_CLASSIC_CMD_AUTH_KEY_A_def)
  from mf_classic_authentication [OF session_example_wf(1,2) frame_2_ok(1,2) this frame_2_ok(5), of "[1, 2, 3, 4]" "[5, 6, 7, 8]"
      "mfl_tx_plain_buffer session_example" "mfl_tx_plain_buffer session_example" crypto1_alloc "[0, 0, 0, 0]"] b e session_example_wf(3)
  show ?thesis by (simp; blast)
qed

text \<open>C39: nobody else authenticates: of all frames that can come when the card waits for the reader's answer, it accepts
  exactly those of eight bytes whose second half decrypts to the successor of the nonce; after any other it is idle again, in plain.\<close>

theorem mf_classic_authentication_exact:
  assumes "mfl_wf L" "mfl_cmd_in_progress L" "mfl_current_cmd_idx L = 2 \<or> mfl_current_cmd_idx L = 3"
    and "mfl_state L = MfClassicListenerStateIdle" "frame_ok f"
  shows "\<exists>cmd L'. listener_receive rnd f L = Some (cmd, L')
    \<and> (if bit_buffer_get_size_bytes f = 8 \<and> answer_accepted L (bb_bytes f)
       then cmd = NfcCommandContinue \<and> mfl_state L' = MfClassicListenerStateAuthComplete
         \<and> mfl_comm_state L' = MfClassicListenerCommStateEncrypted
       else cmd = NfcCommandSleep \<and> mfl_state L' = MfClassicListenerStateIdle
         \<and> mfl_comm_state L' = MfClassicListenerCommStatePlain \<and> \<not> mfl_cmd_in_progress L')"
proof -
  have wf: "core_wf L" "bb_wf f" using assms(1,5) by (simp_all add: mfl_wf_def frame_ok_def)
  have "mfl_current_cmd_handler_idx L = 1" using assms(1-3) by (auto simp: mfl_wf_def progress_ok_def)
  then have "handle_frame rnd L f = mf_classic_listener_auth_second_part_handler L f"
    using assms(2,3) by (auto simp: handle_frame_def mf_classic_listener_cmd_handlers_def Let_def numeral_eq_Suc)
  then have run: "listener_receive rnd f L = do { (c, L) \<leftarrow> mf_classic_listener_auth_second_part_handler L f; answer_command c L }"
    using assms(4) by (simp add: listener_receive_def receive_plain_def)
  show ?thesis
  proof (cases "bit_buffer_get_size_bytes f = 8")
    case False
    then show ?thesis unfolding run
      by (simp add: mf_classic_listener_auth_second_part_handler_def answer_command_def mf_classic_listener_reset_state_def)
  next
    case True
    from auth_second_spec [OF wf True] show ?thesis unfolding run
      by (cases "answer_accepted L (bb_bytes f)")
        (auto simp: True answer_command_def mf_classic_listener_reset_state_def)
  qed
qed

theorem mf_classic_authentication_exact_witness:
  "\<exists>cmd L'. listener_receive [] (frame_2 1 2) (session_example\<lparr>mfl_state := MfClassicListenerStateIdle, mfl_cmd_in_progress := True,
      mfl_current_cmd_idx := 2, mfl_current_cmd_handler_idx := 1\<rparr>) = Some (cmd, L') \<and> mfl_comm_state L' = MfClassicListenerCommStatePlain"
proof -
  let ?L = "session_example\<lparr>mfl_state := MfClassicListenerStateIdle, mfl_cmd_in_progress := True,
      mfl_current_cmd_idx := 2, mfl_current_cmd_handler_idx := 1\<rparr>"
  have "mfl_wf ?L" using session_example_wf by (simp add: mfl_wf_def core_wf_def progress_ok_def session_example_def Let_def auth_context_zero_def)
  from mf_classic_authentication_exact [OF this, of "frame_2 1 2" "[]"] show ?thesis by (auto simp: frame_2_ok)
qed

end
