(* ===== verification/Iso14443Poller.thy ===== *)
theory Iso14443Poller
  imports MfClassicEmulation
begin

text \<open>
  The reader's side of ISO 14443-3A, \<open>lib/nfc/protocols/iso14443_3a/iso14443_3a_poller_i.c\<close> and
  \<open>iso14443_3a_poller.c\<close>: the record \<open>Iso14443_3aPoller\<close>, the exchanges of frames, the halt command, and the activation of a card with
  its anticollision loop. The radio (\<open>nfc.c\<close> over the hardware) with all cards in its field is the parameter \<open>radio\<close>; of it
  only the size of its frames is relied on (\<open>radio_ok\<close>), and of a card that it answers the same level with the same part of its number
  (\<open>sdd_answers\<close>); \<open>card_radio\<close> is a field with one such card. Nine turns bound the loop: three levels of two turns each are
  all a card of the standard needs, and the fourth level already leaves the array of the number. \<open>None\<close> is a failed assertion or an access
  outside an array, \<open>Some None\<close> a loop whose turns did not suffice.
\<close>

unbundle bit_operations_syntax

section \<open>The radio\<close>

text \<open>
  What the reader sends: the short frame \<open>SENS_REQ\<close>, an anticollision frame, a frame whose parity bits the
  radio makes, and one sent with the parity bits of its buffer. The radio and everybody in its field is the
  parameter \<open>radio\<close>, a function of the state \<open>'w\<close> of that world: its answer is an error code and, with
  \<open>NfcErrorNone\<close>, the frame received.
\<close>

datatype NfcError = NfcErrorNone | NfcErrorInternal | NfcErrorTimeout | NfcErrorIncompleteFrame | NfcErrorDataFormat

datatype NfcTrx = NfcTrxShortFrameSensReq | NfcTrxSddFrame | NfcTrxFrame | NfcTrxCustomParity

type_synonym 'w radio = "NfcTrx \<Rightarrow> BitBuffer \<Rightarrow> 'w \<Rightarrow> (NfcError \<times> BitBuffer) \<times> 'w"

text \<open>A received frame is copied into the caller's buffer.\<close>

definition nfc_trx :: "'w radio \<Rightarrow> NfcTrx \<Rightarrow> BitBuffer \<Rightarrow> BitBuffer \<Rightarrow> 'w \<Rightarrow> (NfcError \<times> BitBuffer \<times> 'w) option" where
  "nfc_trx radio kind tx_buffer rx_buffer w =
     (let ((error, frame), w) = radio kind tx_buffer w in
      if error \<noteq> NfcErrorNone then Some (error, rx_buffer, w)
      else do {
        rx_buffer \<leftarrow> bit_buffer_copy rx_buffer frame;
        Some (NfcErrorNone, rx_buffer, w) })"

section \<open>The ISO 14443-3A poller\<close>

datatype Iso14443_3aError =
    Iso14443_3aErrorNone
  | Iso14443_3aErrorNotPresent
  | Iso14443_3aErrorColResFailed
  | Iso14443_3aErrorBufferOverflow
  | Iso14443_3aErrorCommunication
  | Iso14443_3aErrorFieldOff
  | Iso14443_3aErrorWrongCrc
  | Iso14443_3aErrorTimeout

datatype Iso14443_3aPollerState =
    Iso14443_3aPollerStateIdle
  | Iso14443_3aPollerStateColResInProgress
  | Iso14443_3aPollerStateColResFailed
  | Iso14443_3aPollerStateActivated

datatype Iso14443_3aPollerColResState =
    Iso14443_3aPollerColResStateStateIdle
  | Iso14443_3aPollerColResStateStateNewCascade
  | Iso14443_3aPollerColResStateStateSelectCascade
  | Iso14443_3aPollerColResStateStateSuccess
  | Iso14443_3aPollerColResStateStateFail

text \<open>The structures that go over the air are their bytes: \<open>sdd_resp\<close> is four of the card number and a check byte,
  \<open>sel_req\<close> the command, the parameter and the same five.\<close>

record Iso14443_3aPollerColRes =
  cr_state :: Iso14443_3aPollerColResState
  cr_sens_resp :: "u8 list"
  cr_sdd_resp :: "u8 list"
  cr_sel_req :: "u8 list"
  cr_sel_resp :: "u8 list"
  cr_cascade_level :: u8

record Iso14443_3aPoller =
  ip_state :: Iso14443_3aPollerState
  ip_col_res :: Iso14443_3aPollerColRes
  ip_data :: Iso14443_3aData
  ip_tx_buffer :: BitBuffer
  ip_rx_buffer :: BitBuffer

definition ISO14443_3A_POLLER_MAX_BUFFER_SIZE :: nat where "ISO14443_3A_POLLER_MAX_BUFFER_SIZE = 512"
definition ISO14443_3A_POLLER_SDD_CL :: u8 where "ISO14443_3A_POLLER_SDD_CL = 0x88"

definition ISO14443_3A_POLLER_SEL_CMD :: "u8 \<Rightarrow> u8" where
  "ISO14443_3A_POLLER_SEL_CMD cascade_lvl = 0x93 + 2 * cascade_lvl"

definition ISO14443_3A_POLLER_SEL_PAR :: "u8 \<Rightarrow> u8 \<Rightarrow> u8" where
  "ISO14443_3A_POLLER_SEL_PAR bytes bits = (push_bit 4 bytes AND 0xf0) OR (bits AND 0x0f)"

definition col_res_zero :: Iso14443_3aPollerColRes where
  "col_res_zero = \<lparr>cr_state = Iso14443_3aPollerColResStateStateIdle, cr_sens_resp = replicate 2 0, cr_sdd_resp = replicate 5 0,
     cr_sel_req = replicate 7 0, cr_sel_resp = replicate 1 0, cr_cascade_level = 0\<rparr>"

definition iso14443_3a_poller_alloc :: "Iso14443_3aPoller option" where
  "iso14443_3a_poller_alloc = do {
     tx \<leftarrow> bit_buffer_alloc ISO14443_3A_POLLER_MAX_BUFFER_SIZE;
     rx \<leftarrow> bit_buffer_alloc ISO14443_3A_POLLER_MAX_BUFFER_SIZE;
     Some \<lparr>ip_state = Iso14443_3aPollerStateIdle, ip_col_res = col_res_zero, ip_data = iso14443_3a_alloc,
           ip_tx_buffer = tx, ip_rx_buffer = rx\<rparr> }"

definition iso14443_3a_poller_get_data :: "Iso14443_3aPoller \<Rightarrow> Iso14443_3aData" where
  "iso14443_3a_poller_get_data P = ip_data P"

definition iso14443_3a_poller_process_error :: "NfcError \<Rightarrow> Iso14443_3aError" where
  "iso14443_3a_poller_process_error error =
     (if error = NfcErrorNone then Iso14443_3aErrorNone
      else if error = NfcErrorTimeout then Iso14443_3aErrorTimeout
      else Iso14443_3aErrorNotPresent)"

definition iso14443_3a_poller_standard_frame_exchange ::
  "'w radio \<Rightarrow> Iso14443_3aPoller \<Rightarrow> BitBuffer \<Rightarrow> BitBuffer \<Rightarrow> 'w \<Rightarrow> (Iso14443_3aError \<times> Iso14443_3aPoller \<times> BitBuffer \<times> 'w) option" where
  "iso14443_3a_poller_standard_frame_exchange radio P tx_buffer rx_buffer w = do {
     let tx_bytes = bit_buffer_get_size_bytes tx_buffer mod 2 ^ 16;
     furi_assert (2 \<le> bit_buffer_get_capacity_bytes (ip_tx_buffer P) \<longrightarrow> tx_bytes \<le> bit_buffer_get_capacity_bytes (ip_tx_buffer P) - 2);
     tx \<leftarrow> bit_buffer_copy (ip_tx_buffer P) tx_buffer;
     tx \<leftarrow> iso14443_crc_append Iso14443CrcTypeA tx;
     let P = P\<lparr>ip_tx_buffer := tx\<rparr>;
     (error, rx, w) \<leftarrow> nfc_trx radio NfcTrxFrame (ip_tx_buffer P) (ip_rx_buffer P) w;
     let P = P\<lparr>ip_rx_buffer := rx\<rparr>;
     (if error \<noteq> NfcErrorNone then Some (iso14443_3a_poller_process_error error, P, rx_buffer, w)
      else do {
        rx_buffer \<leftarrow> bit_buffer_copy rx_buffer (ip_rx_buffer P);
        ok \<leftarrow> iso14443_crc_check Iso14443CrcTypeA (ip_rx_buffer P);
        (if \<not> ok then Some (Iso14443_3aErrorWrongCrc, P, rx_buffer, w)
         else do {
           rx_buffer \<leftarrow> iso14443_crc_trim rx_buffer;
           Some (Iso14443_3aErrorNone, P, rx_buffer, w) }) }) }"

definition iso14443_3a_poller_send_standard_frame ::
  "'w radio \<Rightarrow> Iso14443_3aPoller \<Rightarrow> BitBuffer \<Rightarrow> BitBuffer \<Rightarrow> 'w \<Rightarrow> (Iso14443_3aError \<times> Iso14443_3aPoller \<times> BitBuffer \<times> 'w) option" where
  "iso14443_3a_poller_send_standard_frame radio P tx_buffer rx_buffer w =
     iso14443_3a_poller_standard_frame_exchange radio P tx_buffer rx_buffer w"

text \<open>
  With the poller's own buffers as arguments: copying a buffer onto itself does nothing, and what the caller gets
  back is the poller's receive buffer.
\<close>

definition own_frame_exchange :: "'w radio \<Rightarrow> Iso14443_3aPoller \<Rightarrow> 'w \<Rightarrow> (Iso14443_3aError \<times> Iso14443_3aPoller \<times> 'w) option" where
  "own_frame_exchange radio P w = do {
     (ret, P, rx, w) \<leftarrow> iso14443_3a_poller_send_standard_frame radio P (ip_tx_buffer P) (ip_rx_buffer P) w;
     Some (ret, P\<lparr>ip_rx_buffer := rx\<rparr>, w) }"

definition iso14443_3a_poller_txrx_custom_parity ::
  "'w radio \<Rightarrow> BitBuffer \<Rightarrow> BitBuffer \<Rightarrow> 'w \<Rightarrow> (Iso14443_3aError \<times> BitBuffer \<times> 'w) option" where
  "iso14443_3a_poller_txrx_custom_parity radio tx_buffer rx_buffer w = do {
     (error, rx_buffer, w) \<leftarrow> nfc_trx radio NfcTrxCustomParity tx_buffer rx_buffer w;
     Some (if error \<noteq> NfcErrorNone then iso14443_3a_poller_process_error error else Iso14443_3aErrorNone, rx_buffer, w) }"

definition iso14443_3a_poller_txrx ::
  "'w radio \<Rightarrow> BitBuffer \<Rightarrow> BitBuffer \<Rightarrow> 'w \<Rightarrow> (Iso14443_3aError \<times> BitBuffer \<times> 'w) option" where
  "iso14443_3a_poller_txrx radio tx_buffer rx_buffer w = do {
     (error, rx_buffer, w) \<leftarrow> nfc_trx radio NfcTrxFrame tx_buffer rx_buffer w;
     Some (if error \<noteq> NfcErrorNone then iso14443_3a_poller_process_error error else Iso14443_3aErrorNone, rx_buffer, w) }"

definition iso14443_3a_poller_check_presence :: "'w radio \<Rightarrow> Iso14443_3aPoller \<Rightarrow> 'w \<Rightarrow> (Iso14443_3aError \<times> Iso14443_3aPoller \<times> 'w) option" where
  "iso14443_3a_poller_check_presence radio P w = do {
     (error, rx, w) \<leftarrow> nfc_trx radio NfcTrxShortFrameSensReq (ip_tx_buffer P) (ip_rx_buffer P) w;
     let P = P\<lparr>ip_rx_buffer := rx\<rparr>;
     Some (if error \<noteq> NfcErrorNone then iso14443_3a_poller_process_error error
       else if bit_buffer_get_size_bytes (ip_rx_buffer P) \<noteq> 2 then Iso14443_3aErrorCommunication
       else Iso14443_3aErrorNone, P, w) }"

definition iso14443_3a_poller_halt :: "'w radio \<Rightarrow> Iso14443_3aPoller \<Rightarrow> 'w \<Rightarrow> (Iso14443_3aError \<times> Iso14443_3aPoller \<times> 'w) option" where
  "iso14443_3a_poller_halt radio P w = do {
     tx \<leftarrow> bit_buffer_copy_bytes (ip_tx_buffer P) [0x50, 0x00] 2;
     (_, P, w) \<leftarrow> own_frame_exchange radio (P\<lparr>ip_tx_buffer := tx\<rparr>) w;
     Some (Iso14443_3aErrorNone, P\<lparr>ip_state := Iso14443_3aPollerStateIdle\<rparr>, w) }"

section \<open>Activation\<close>

definition col_res_fail :: "Iso14443_3aPoller \<Rightarrow> 'w \<Rightarrow> (Iso14443_3aError \<times> Iso14443_3aPoller \<times> 'w) option" where
  "col_res_fail P w = Some (Iso14443_3aErrorColResFailed, P\<lparr>ip_state := Iso14443_3aPollerStateColResFailed\<rparr>, w)"

text \<open>One turn of the anticollision loop, in its two states.\<close>

definition new_cascade_step :: "'w radio \<Rightarrow> Iso14443_3aPoller \<Rightarrow> 'w \<Rightarrow> (Iso14443_3aError \<times> Iso14443_3aPoller \<times> 'w) option" where
  "new_cascade_step radio P w = do {
     tx \<leftarrow> bit_buffer_set_size_bytes (ip_tx_buffer P) 2;
     tx \<leftarrow> bit_buffer_set_byte tx 0 (ISO14443_3A_POLLER_SEL_CMD (cr_cascade_level (ip_col_res P)));
     tx \<leftarrow> bit_buffer_set_byte tx 1 (ISO14443_3A_POLLER_SEL_PAR 2 0);
     let P = P\<lparr>ip_tx_buffer := tx\<rparr>;
     (error, rx, w) \<leftarrow> nfc_trx radio NfcTrxSddFrame (ip_tx_buffer P) (ip_rx_buffer P) w;
     let P = P\<lparr>ip_rx_buffer := rx\<rparr>;
     (if error \<noteq> NfcErrorNone then col_res_fail P w
      else if bit_buffer_get_size_bytes (ip_rx_buffer P) \<noteq> 5 then col_res_fail P w
      else do {
        r \<leftarrow> bit_buffer_write_bytes (ip_rx_buffer P) (cr_sdd_resp (ip_col_res P)) 5;
        Some (Iso14443_3aErrorNone, P\<lparr>ip_col_res := (ip_col_res P)\<lparr>cr_sdd_resp := r,
          cr_state := Iso14443_3aPollerColResStateStateSelectCascade\<rparr>\<rparr>, w) }) }"

text \<open>The answer to \<open>SELECT\<close>: a part of the number and on to the next level, or its last part.\<close>

definition cascade_selected :: "Iso14443_3aPoller \<Rightarrow> 'w \<Rightarrow> (Iso14443_3aError \<times> Iso14443_3aPoller \<times> 'w) option" where
  "cascade_selected P w = do {
     r \<leftarrow> bit_buffer_write_bytes (ip_rx_buffer P) (cr_sel_resp (ip_col_res P)) 1;
     let P = P\<lparr>ip_col_res := (ip_col_res P)\<lparr>cr_sel_resp := r\<rparr>\<rparr>;
     let cr = ip_col_res P;
     nfcid0 \<leftarrow> rd (cr_sel_req cr) 2;
     (if nfcid0 = ISO14443_3A_POLLER_SDD_CL then do {
        uid \<leftarrow> memcpy (iso_uid (ip_data P)) (unat (iso_uid_len (ip_data P))) (cr_sel_req cr) 3 3;
        Some (Iso14443_3aErrorNone,
          P\<lparr>ip_data := (ip_data P)\<lparr>iso_uid := uid, iso_uid_len := iso_uid_len (ip_data P) + 3\<rparr>,
            ip_col_res := cr\<lparr>cr_cascade_level := cr_cascade_level cr + 1, cr_state := Iso14443_3aPollerColResStateStateNewCascade\<rparr>\<rparr>, w) }
      else do {
        sak \<leftarrow> rd (cr_sel_resp cr) 0;
        uid \<leftarrow> memcpy (iso_uid (ip_data P)) (unat (iso_uid_len (ip_data P))) (cr_sel_req cr) 2 4;
        Some (Iso14443_3aErrorNone,
          P\<lparr>ip_data := (ip_data P)\<lparr>iso_sak := sak, iso_uid := uid, iso_uid_len := iso_uid_len (ip_data P) + 4\<rparr>,
            ip_col_res := cr\<lparr>cr_state := Iso14443_3aPollerColResStateStateSuccess\<rparr>,
            ip_state := Iso14443_3aPollerStateActivated\<rparr>, w) }) }"

definition select_cascade_step :: "'w radio \<Rightarrow> Iso14443_3aPoller \<Rightarrow> 'w \<Rightarrow> (Iso14443_3aError \<times> Iso14443_3aPoller \<times> 'w) option" where
  "select_cascade_step radio P w = do {
     let cr = ip_col_res P;
     let sel_req = ISO14443_3A_POLLER_SEL_CMD (cr_cascade_level cr) # ISO14443_3A_POLLER_SEL_PAR 7 0 # cr_sdd_resp cr;
     let P = P\<lparr>ip_col_res := cr\<lparr>cr_sel_req := sel_req\<rparr>\<rparr>;
     tx \<leftarrow> bit_buffer_copy_bytes (ip_tx_buffer P) sel_req 7;
     (ret, P, w) \<leftarrow> own_frame_exchange radio (P\<lparr>ip_tx_buffer := tx\<rparr>) w;
     (if ret \<noteq> Iso14443_3aErrorNone then col_res_fail P w
      else if bit_buffer_get_size_bytes (ip_rx_buffer P) \<noteq> 1 then col_res_fail P w
      else cascade_selected P w) }"

text \<open>
  The loop, with a bound on its turns: the inner \<open>None\<close> means that they were not enough. In a state other than
  the two the loop would turn for ever; it is never in one.
\<close>

primrec col_res_loop :: "nat \<Rightarrow> 'w radio \<Rightarrow> Iso14443_3aPoller \<Rightarrow> 'w \<Rightarrow> (Iso14443_3aError \<times> Iso14443_3aPoller \<times> 'w) option option" where
  "col_res_loop 0 radio P w = Some None"
| "col_res_loop (Suc n) radio P w =
     (if ip_state P \<noteq> Iso14443_3aPollerStateColResInProgress then Some (Some (Iso14443_3aErrorNone, P, w))
      else case cr_state (ip_col_res P) of
        Iso14443_3aPollerColResStateStateNewCascade \<Rightarrow> do {
          (ret, P, w) \<leftarrow> new_cascade_step radio P w;
          (if ret \<noteq> Iso14443_3aErrorNone then Some (Some (ret, P, w)) else col_res_loop n radio P w) }
      | Iso14443_3aPollerColResStateStateSelectCascade \<Rightarrow> do {
          (ret, P, w) \<leftarrow> select_cascade_step radio P w;
          (if ret \<noteq> Iso14443_3aErrorNone then Some (Some (ret, P, w)) else col_res_loop n radio P w) }
      | _ \<Rightarrow> col_res_loop n radio P w)"

text \<open>The result has the data of the card when the caller asked for it and the card was activated.\<close>

definition iso14443_3a_poller_activate ::
  "'w radio \<Rightarrow> Iso14443_3aPoller \<Rightarrow> 'w \<Rightarrow> (Iso14443_3aError \<times> Iso14443_3aPoller \<times> 'w) option option" where
  "iso14443_3a_poller_activate radio P w = do {
     let P = P\<lparr>ip_col_res := col_res_zero,
       ip_data := \<lparr>iso_uid = replicate 10 0, iso_uid_len = 0, iso_atqa = [0, 0], iso_sak = 0\<rparr>,
       ip_tx_buffer := bit_buffer_reset (ip_tx_buffer P), ip_rx_buffer := bit_buffer_reset (ip_rx_buffer P)\<rparr>;
     (P, w) \<leftarrow> (if ip_state P \<noteq> Iso14443_3aPollerStateIdle then do {
          (_, P, w) \<leftarrow> iso14443_3a_poller_halt radio P w;
          Some (P\<lparr>ip_state := Iso14443_3aPollerStateIdle\<rparr>, w) } else Some (P, w));
     (error, rx, w) \<leftarrow> nfc_trx radio NfcTrxShortFrameSensReq (ip_tx_buffer P) (ip_rx_buffer P) w;
     let P = P\<lparr>ip_rx_buffer := rx\<rparr>;
     (if error \<noteq> NfcErrorNone then Some (Some (Iso14443_3aErrorNotPresent, P, w))
      else if bit_buffer_get_size_bytes (ip_rx_buffer P) \<noteq> 2 then Some (Some (Iso14443_3aErrorCommunication, P, w))
      else do {
        r \<leftarrow> bit_buffer_write_bytes (ip_rx_buffer P) (cr_sens_resp (ip_col_res P)) 2;
        atqa \<leftarrow> memcpy (iso_atqa (ip_data P)) 0 r 0 2;
        let P = P\<lparr>ip_data := (ip_data P)\<lparr>iso_atqa := atqa\<rparr>, ip_state := Iso14443_3aPollerStateColResInProgress,
          ip_col_res := (ip_col_res P)\<lparr>cr_sens_resp := r, cr_cascade_level := 0, cr_state := Iso14443_3aPollerColResStateStateNewCascade\<rparr>\<rparr>;
        col_res_loop 9 radio P w }) }"

text \<open>
  The poller as the NFC worker drives it: \<open>ready\<close> tells whether the event is \<open>NfcEventTypePollerReady\<close>. The callback is
  the user of the poller, a parameter, which may go on using poller and radio before it answers.
\<close>

datatype Iso14443_3aPollerEvent = Iso14443_3aPollerEventTypeError Iso14443_3aError | Iso14443_3aPollerEventTypeReady Iso14443_3aError

definition iso14443_3a_poller_run ::
  "'w radio \<Rightarrow> (Iso14443_3aPollerEvent \<Rightarrow> Iso14443_3aPoller \<Rightarrow> 'w \<Rightarrow> NfcCommand \<times> Iso14443_3aPoller \<times> 'w)
    \<Rightarrow> bool \<Rightarrow> Iso14443_3aPoller \<Rightarrow> 'w \<Rightarrow> (NfcCommand \<times> Iso14443_3aPoller \<times> 'w) option option" where
  "iso14443_3a_poller_run radio callback ready P w = do {
     r \<leftarrow> (if \<not> ready then Some (Some (NfcCommandContinue, P, w))
           else if ip_state P \<noteq> Iso14443_3aPollerStateActivated then do {
             activated \<leftarrow> iso14443_3a_poller_activate radio P w;
             Some (map_option (\<lambda>(error, P, w).
               if error = Iso14443_3aErrorNone
               then callback (Iso14443_3aPollerEventTypeReady error) (P\<lparr>ip_state := Iso14443_3aPollerStateActivated\<rparr>) w
               else callback (Iso14443_3aPollerEventTypeError error) P w) activated) }
           else Some (Some (callback (Iso14443_3aPollerEventTypeReady Iso14443_3aErrorNone) P w)));
     Some (map_option (\<lambda>(command, P, w).
       (command, if command = NfcCommandReset then P\<lparr>ip_state := Iso14443_3aPollerStateIdle\<rparr> else P, w)) r) }"

definition iso14443_3a_poller_detect ::
  "'w radio \<Rightarrow> bool \<Rightarrow> Iso14443_3aPoller \<Rightarrow> 'w \<Rightarrow> (bool \<times> Iso14443_3aPoller \<times> 'w) option option" where
  "iso14443_3a_poller_detect radio ready P w = do {
     furi_assert (ip_state P = Iso14443_3aPollerStateIdle);
     (if \<not> ready then Some (Some (False, P, w))
      else do {
        activated \<leftarrow> iso14443_3a_poller_activate radio P w;
        Some (map_option (\<lambda>(error, P, w). (error = Iso14443_3aErrorNone, P, w)) activated) }) }"

section \<open>The poller's buffers\<close>

text \<open>The radio delivers frames of at most 256 bytes, the size of its own buffer.\<close>

definition radio_ok :: "'w radio \<Rightarrow> bool" where
  "radio_ok radio \<longleftrightarrow> (\<forall>kind tx w f w'. radio kind tx w = ((NfcErrorNone, f), w') \<longrightarrow> bb_wf f \<and> bb_size_bits f \<le> 2048)"

definition buf512 :: "BitBuffer \<Rightarrow> bool" where
  "buf512 b \<longleftrightarrow> bb_wf b \<and> bb_capacity_bytes b = 512"

definition poller_ok :: "Iso14443_3aPoller \<Rightarrow> bool" where
  "poller_ok P \<longleftrightarrow> buf512 (ip_tx_buffer P) \<and> buf512 (ip_rx_buffer P)
     \<and> length (iso_uid (ip_data P)) = 10 \<and> length (iso_atqa (ip_data P)) = 2
     \<and> length (cr_sens_resp (ip_col_res P)) = 2 \<and> length (cr_sdd_resp (ip_col_res P)) = 5
     \<and> length (cr_sel_req (ip_col_res P)) = 7 \<and> length (cr_sel_resp (ip_col_res P)) = 1"

lemma copy_512:
  assumes "buf512 b" "bb_wf f" "bb_size_bits f \<le> 4096"
  shows "\<exists>b'. bit_buffer_copy b f = Some b' \<and> buf512 b' \<and> bb_size_bits b' = bb_size_bits f \<and> bb_bytes b' = bb_bytes f"
proof -
  have n: "bit_buffer_get_size_bytes f \<le> 512" "bit_buffer_get_size_bytes f \<le> length (bb_data f)"
    using assms size_bytes_le_capacity [OF assms(2)] by (auto simp: size_bytes_ceil bb_wf_def)
  let ?d = "take (bit_buffer_get_size_bytes f) (bb_data f) @ drop (bit_buffer_get_size_bytes f) (bb_data b)"
  have "memcpy (bb_data b) 0 (bb_data f) 0 (bit_buffer_get_size_bytes f) = Some ?d"
    using assms(1) n by (simp add: memcpy_Some buf512_def bb_wf_def)
  then have "bit_buffer_copy b f = Some (b\<lparr>bb_data := ?d, bb_size_bits := bb_size_bits f\<rparr>)"
    using assms by (simp add: bit_buffer_copy_def buf512_def)
  moreover have "buf512 (b\<lparr>bb_data := ?d, bb_size_bits := bb_size_bits f\<rparr>)"
    using assms n by (simp add: buf512_def bb_wf_def)
  moreover have "bb_bytes (b\<lparr>bb_data := ?d, bb_size_bits := bb_size_bits f\<rparr>) = bb_bytes f"
    using n by (simp add: bb_bytes_def bit_buffer_get_size_bytes_def)
  ultimately show ?thesis by auto
qed

lemma nfc_trx_ok:
  assumes "radio_ok radio" "buf512 rx"
  shows "\<exists>e rx' w'. nfc_trx radio kind tx rx w = Some (e, rx', w') \<and> buf512 rx'
    \<and> (if e = NfcErrorNone then \<exists>f. radio kind tx w = ((NfcErrorNone, f), w') \<and> bb_bytes rx' = bb_bytes f \<and> bb_size_bits rx' = bb_size_bits f
         \<and> bb_wf f \<and> bb_size_bits f \<le> 2048
       else rx' = rx)"
proof -
  obtain e f w' where r: "radio kind tx w = ((e, f), w')" by (metis prod.collapse)
  show ?thesis
  proof (cases "e = NfcErrorNone")
    case True
    then have f: "bb_wf f" "bb_size_bits f \<le> 2048" using assms(1) r unfolding radio_ok_def by blast+
    with copy_512 [OF assms(2) f(1)] obtain b' where "bit_buffer_copy rx f = Some b'" "buf512 b'" "bb_size_bits b' = bb_size_bits f"
      "bb_bytes b' = bb_bytes f" by auto
    with r True f show ?thesis by (auto simp: nfc_trx_def)
  next
    case False
    with r assms(2) show ?thesis by (simp add: nfc_trx_def)
  qed
qed

lemma nfc_trx_received:
  assumes "radio_ok radio" "buf512 rx"
  obtains e rx' w' where "nfc_trx radio kind tx rx w = Some (e, rx', w')" "buf512 rx'"
    "e = NfcErrorNone \<Longrightarrow> \<exists>f. radio kind tx w = ((NfcErrorNone, f), w') \<and> bb_bytes rx' = bb_bytes f
       \<and> bb_size_bits rx' = bb_size_bits f \<and> bb_wf f \<and> bb_size_bits f \<le> 2048"
proof -
  from nfc_trx_ok [OF assms, of kind tx w] obtain e rx' w' where r: "nfc_trx radio kind tx rx w = Some (e, rx', w')" "buf512 rx'"
    "if e = NfcErrorNone then \<exists>f. radio kind tx w = ((NfcErrorNone, f), w') \<and> bb_bytes rx' = bb_bytes f \<and> bb_size_bits rx' = bb_size_bits f
         \<and> bb_wf f \<and> bb_size_bits f \<le> 2048
       else rx' = rx" by blast
  show thesis by (rule that [OF r(1,2)]) (use r(3) in simp)
qed

lemma crc_append_512:
  assumes "buf512 b" "bb_size_bits b = 8 * n" "n + 2 \<le> 512"
  shows "\<exists>b'. iso14443_crc_append t b = Some b' \<and> buf512 b' \<and> bb_size_bits b' = 8 * (n + 2)
    \<and> bb_bytes b' = bb_bytes b @ le_bytes 2 (iso14443_sum t (bb_bytes b))"
proof -
  have wf: "bb_wf b" and s: "bit_buffer_get_size_bytes b = n" using assms by (simp_all add: buf512_def size_bytes_ceil)
  have "n \<le> length (bb_data b)" using assms wf by (simp add: bb_wf_def buf512_def)
  from iso14443.crc [OF this, of t] have "iso14443_crc_calculate t (bb_data b) n = Some (iso14443_sum t (bb_bytes b))"
    by (simp add: bb_bytes_def s)
  then show ?thesis
    using append_bytes_spec [OF wf, of 2 "le_bytes 2 (iso14443_sum t (bb_bytes b))"] assms s
    by (auto simp: iso14443_crc_append_def ISO14443_CRC_SIZE_def buf512_def)
qed

lemma crc_trim_512:
  assumes "buf512 b" "iso14443_crc_check t b = Some True"
  shows "\<exists>b'. iso14443_crc_trim b = Some b' \<and> buf512 b' \<and> bb_bytes b' = take (length (bb_bytes b) - 2) (bb_bytes b)"
proof -
  have wf: "bb_wf b" using assms by (simp add: buf512_def)
  have n: "2 < bit_buffer_get_size_bytes b" using assms(2) iso14443.check_iff [OF wf, of t] by (simp add: length_bb_bytes wf)
  with set_size_bytes_spec [OF wf, of "bit_buffer_get_size_bytes b - 2"] assms(1) show ?thesis
    by (auto simp: iso14443_crc_trim_def ISO14443_CRC_SIZE_def buf512_def length_bb_bytes [OF wf])
qed

text \<open>An exchange of a frame of whole bytes from the poller's own buffer.\<close>

definition frame_answers :: "'w radio \<Rightarrow> nat \<Rightarrow> bool" where
  "frame_answers radio m \<longleftrightarrow> (\<forall>tx w. \<exists>f w'. radio NfcTrxFrame tx w = ((NfcErrorNone, f), w') \<and> bit_buffer_get_size_bytes f = m + 2
     \<and> iso14443_crc_check Iso14443CrcTypeA f = Some True)"

lemma frame_answersD:
  assumes "radio NfcTrxFrame tx w = ((e, f), w')" "frame_answers radio m"
  shows "e = NfcErrorNone \<and> bit_buffer_get_size_bytes f = m + 2 \<and> iso14443_crc_check Iso14443CrcTypeA f = Some True"
proof -
  obtain f' w1 where "radio NfcTrxFrame tx w = ((NfcErrorNone, f'), w1)" "bit_buffer_get_size_bytes f' = m + 2"
    "iso14443_crc_check Iso14443CrcTypeA f' = Some True"
    using assms(2) unfolding frame_answers_def by blast
  then show ?thesis using assms(1) by simp
qed

lemma own_exchange_run:
  assumes "poller_ok P" "bb_size_bits (ip_tx_buffer P) = 8 * n" "n \<le> 500"
  shows "\<exists>tx. buf512 tx \<and> own_frame_exchange radio P w = do {
     (e, rx, w) \<leftarrow> nfc_trx radio NfcTrxFrame tx (ip_rx_buffer P) w;
     (if e \<noteq> NfcErrorNone then Some (iso14443_3a_poller_process_error e, P\<lparr>ip_tx_buffer := tx, ip_rx_buffer := ip_rx_buffer P\<rparr>, w)
      else do {
        rb \<leftarrow> bit_buffer_copy (ip_rx_buffer P) rx;
        ok \<leftarrow> iso14443_crc_check Iso14443CrcTypeA rx;
        (if \<not> ok then Some (Iso14443_3aErrorWrongCrc, P\<lparr>ip_tx_buffer := tx, ip_rx_buffer := rb\<rparr>, w)
         else do {
           rb \<leftarrow> iso14443_crc_trim rb;
           Some (Iso14443_3aErrorNone, P\<lparr>ip_tx_buffer := tx, ip_rx_buffer := rb\<rparr>, w) }) }) }"
proof -
  have b: "buf512 (ip_tx_buffer P)" using assms(1) by (simp add: poller_ok_def)
  then have wf: "bb_wf (ip_tx_buffer P)" "bb_capacity_bytes (ip_tx_buffer P) = 512" by (simp_all add: buf512_def)
  obtain t1 where t1: "bit_buffer_copy (ip_tx_buffer P) (ip_tx_buffer P) = Some t1" "buf512 t1" "bb_size_bits t1 = 8 * n"
    using copy_512 [OF b wf(1)] assms(2,3) by auto
  obtain t2 where t2: "iso14443_crc_append Iso14443CrcTypeA t1 = Some t2" "buf512 t2"
    using crc_append_512 [OF t1(2,3)] assms(3) by auto
  have "n mod 65536 \<le> 510" using assms(3) mod_less_eq_dividend [of n 65536] by linarith
  then show ?thesis using t2(2)
    by (intro exI [of _ t2]) (simp add: own_frame_exchange_def iso14443_3a_poller_send_standard_frame_def
        iso14443_3a_poller_standard_frame_exchange_def size_bytes_ceil bit_buffer_get_capacity_bytes_def wf assms(2) t1(1) t2(1) Let_def
        split: bind_splits prod.splits)
qed

lemma received_frame:
  assumes "buf512 b" "buf512 rx" "bb_wf f" "bb_bytes rx = bb_bytes f" "bb_size_bits rx \<le> 2048"
    "iso14443_crc_check Iso14443CrcTypeA f = Some ok"
  obtains rb where "bit_buffer_copy b rx = Some rb" "buf512 rb" "iso14443_crc_check Iso14443CrcTypeA rx = Some ok"
    "ok \<Longrightarrow> \<exists>rb'. iso14443_crc_trim rb = Some rb' \<and> buf512 rb' \<and> bit_buffer_get_size_bytes rb' = bit_buffer_get_size_bytes f - 2"
proof -
  have wrx: "bb_wf rx" using assms(2) by (simp add: buf512_def)
  obtain rb where rb: "bit_buffer_copy b rx = Some rb" "buf512 rb" "bb_bytes rb = bb_bytes rx"
    using copy_512 [OF assms(1) wrx] assms(5) by auto
  have wrb: "bb_wf rb" using rb(2) by (simp add: buf512_def)
  have ok: "iso14443_crc_check Iso14443CrcTypeA rx = Some ok" "iso14443_crc_check Iso14443CrcTypeA rb = Some ok"
    using assms(6) by (simp_all only: iso14443.check_iff [OF wrx] iso14443.check_iff [OF wrb] iso14443.check_iff [OF assms(3)] rb(3) assms(4))
  have "\<exists>rb'. iso14443_crc_trim rb = Some rb' \<and> buf512 rb' \<and> bit_buffer_get_size_bytes rb' = bit_buffer_get_size_bytes f - 2" if t: ok
  proof -
    obtain rb' where rb': "iso14443_crc_trim rb = Some rb'" "buf512 rb'" "bb_bytes rb' = take (length (bb_bytes rb) - 2) (bb_bytes rb)"
      using crc_trim_512 [OF rb(2), of Iso14443CrcTypeA] ok(2) t by auto
    then have "bit_buffer_get_size_bytes rb' = bit_buffer_get_size_bytes f - 2"
      using rb(3) assms(4) length_bb_bytes [of rb'] length_bb_bytes [OF assms(3)] by (simp add: buf512_def)
    with rb' show ?thesis by blast
  qed
  with that rb(1,2) ok(1) show ?thesis by blast
qed

lemma own_exchange_ok:
  assumes "radio_ok radio" "poller_ok P" "bb_size_bits (ip_tx_buffer P) = 8 * n" "n \<le> 500"
  shows "\<exists>ret tx rx w'. own_frame_exchange radio P w = Some (ret, P\<lparr>ip_tx_buffer := tx, ip_rx_buffer := rx\<rparr>, w') \<and> buf512 tx \<and> buf512 rx
    \<and> (frame_answers radio m \<longrightarrow> ret = Iso14443_3aErrorNone \<and> bit_buffer_get_size_bytes rx = m)"
proof -
  have b: "buf512 (ip_rx_buffer P)" using assms(2) by (simp add: poller_ok_def)
  obtain tx where tx: "buf512 tx" and run: "own_frame_exchange radio P w = do {
     (e, rx, w) \<leftarrow> nfc_trx radio NfcTrxFrame tx (ip_rx_buffer P) w;
     (if e \<noteq> NfcErrorNone then Some (iso14443_3a_poller_process_error e, P\<lparr>ip_tx_buffer := tx, ip_rx_buffer := ip_rx_buffer P\<rparr>, w)
      else do {
        rb \<leftarrow> bit_buffer_copy (ip_rx_buffer P) rx;
        ok \<leftarrow> iso14443_crc_check Iso14443CrcTypeA rx;
        (if \<not> ok then Some (Iso14443_3aErrorWrongCrc, P\<lparr>ip_tx_buffer := tx, ip_rx_buffer := rb\<rparr>, w)
         else do {
           rb \<leftarrow> iso14443_crc_trim rb;
           Some (Iso14443_3aErrorNone, P\<lparr>ip_tx_buffer := tx, ip_rx_buffer := rb\<rparr>, w) }) }) }"
    using own_exchange_run [OF assms(2-4), of radio w] by blast
  obtain e f w1 where r: "radio NfcTrxFrame tx w = ((e, f), w1)" by (metis surj_pair)
  show ?thesis
  proof (cases "e = NfcErrorNone")
    case False
    then have "\<not> frame_answers radio m" using frame_answersD [where radio = radio, OF r, of m] by auto
    moreover have "own_frame_exchange radio P w
        = Some (iso14443_3a_poller_process_error e, P\<lparr>ip_tx_buffer := tx, ip_rx_buffer := ip_rx_buffer P\<rparr>, w1)"
      using False r by (simp add: run nfc_trx_def)
    ultimately show ?thesis using tx b by blast
  next
    case True
    then have f: "bb_wf f" "bb_size_bits f \<le> 2048" using assms(1) r unfolding radio_ok_def by blast+
    then obtain rx where rx: "bit_buffer_copy (ip_rx_buffer P) f = Some rx" "buf512 rx" "bb_size_bits rx = bb_size_bits f" "bb_bytes rx = bb_bytes f"
      using copy_512 [OF b f(1)] by auto
    obtain ok where ok: "iso14443_crc_check Iso14443CrcTypeA f = Some ok" using iso14443.check_iff [OF f(1)] by blast
    have rx2048: "bb_size_bits rx \<le> 2048" using rx(3) f(2) by simp
    obtain rb where rb: "bit_buffer_copy (ip_rx_buffer P) rx = Some rb" "buf512 rb" "iso14443_crc_check Iso14443CrcTypeA rx = Some ok"
      "ok \<Longrightarrow> \<exists>rb'. iso14443_crc_trim rb = Some rb' \<and> buf512 rb' \<and> bit_buffer_get_size_bytes rb' = bit_buffer_get_size_bytes f - 2"
      by (rule received_frame [OF b rx(2) f(1) rx(4) rx2048 ok]) blast
    have "frame_answers radio m \<longrightarrow> ok \<and> bit_buffer_get_size_bytes f - 2 = m"
      using frame_answersD [where radio = radio, OF r, of m] ok by auto
    note answers = this
    show ?thesis
    proof (cases ok)
      case False
      have "own_frame_exchange radio P w = Some (Iso14443_3aErrorWrongCrc, P\<lparr>ip_tx_buffer := tx, ip_rx_buffer := rb\<rparr>, w1)"
        using False True r rx(1) rb(1,3) by (simp add: run nfc_trx_def)
      then show ?thesis using False answers tx rb(2) by blast
    next
      case t: True
      obtain rb' where rb': "iso14443_crc_trim rb = Some rb'" "buf512 rb'" "bit_buffer_get_size_bytes rb' = bit_buffer_get_size_bytes f - 2"
        using rb(4) [OF t] by blast
      have "own_frame_exchange radio P w = Some (Iso14443_3aErrorNone, P\<lparr>ip_tx_buffer := tx, ip_rx_buffer := rb'\<rparr>, w1)"
        using t True r rx(1) rb(1,3) rb'(1) by (simp add: run nfc_trx_def)
      moreover have "frame_answers radio m \<longrightarrow> bit_buffer_get_size_bytes rb' = m" using answers rb'(3) by simp
      ultimately show ?thesis using tx rb'(2) by blast
    qed
  qed
qed

section \<open>Anticollision\<close>

text \<open>
  The card answers the anticollision command of level \<open>l\<close> with the five bytes \<open>cl l\<close>; three of them are
  part of its number when the first is the cascade tag, otherwise the first four are its last part.
\<close>

definition sdd_answers :: "'w radio \<Rightarrow> (nat \<Rightarrow> u8 list) \<Rightarrow> bool" where
  "sdd_answers radio cl \<longleftrightarrow> (\<forall>tx w f w' l. radio NfcTrxSddFrame tx w = ((NfcErrorNone, f), w') \<longrightarrow> bit_buffer_get_size_bytes f = 5
     \<longrightarrow> l < 4 \<longrightarrow> bb_bytes tx = [0x93 + 2 * of_nat l, 0x20] \<longrightarrow> bb_bytes f = cl l)"

fun uid_from :: "(nat \<Rightarrow> u8 list) \<Rightarrow> nat \<Rightarrow> nat \<Rightarrow> u8 list" where
  "uid_from cl l 0 = take 4 (cl l)"
| "uid_from cl l (Suc d) = (if cl l ! 0 = ISO14443_3A_POLLER_SDD_CL then take 3 (drop 1 (cl l)) @ uid_from cl (Suc l) d else take 4 (cl l))"

text \<open>A card that always answers, with frames of the right size.\<close>

definition answers_all :: "'w radio \<Rightarrow> bool" where
  "answers_all radio \<longleftrightarrow> (\<forall>tx w. (\<exists>f w'. radio NfcTrxShortFrameSensReq tx w = ((NfcErrorNone, f), w') \<and> bit_buffer_get_size_bytes f = 2)
     \<and> (\<exists>f w'. radio NfcTrxSddFrame tx w = ((NfcErrorNone, f), w') \<and> bit_buffer_get_size_bytes f = 5)) \<and> frame_answers radio 1"

definition uid_so_far :: "Iso14443_3aPoller \<Rightarrow> u8 list" where
  "uid_so_far P = take (unat (iso_uid_len (ip_data P))) (iso_uid (ip_data P))"

text \<open>The loop at level \<open>l\<close>.\<close>

definition at_level :: "Iso14443_3aPollerColResState \<Rightarrow> nat \<Rightarrow> Iso14443_3aPoller \<Rightarrow> bool" where
  "at_level s l P \<longleftrightarrow> poller_ok P \<and> ip_state P = Iso14443_3aPollerStateColResInProgress \<and> cr_state (ip_col_res P) = s
     \<and> cr_cascade_level (ip_col_res P) = of_nat l \<and> iso_uid_len (ip_data P) = of_nat (3 * l)"

lemma new_cascade_ok:
  assumes "radio_ok radio" "sdd_answers radio cl" "at_level Iso14443_3aPollerColResStateStateNewCascade l P" "l < 4"
  shows "\<exists>ret P' w'. new_cascade_step radio P w = Some (ret, P', w') \<and> poller_ok P' \<and> ip_data P' = ip_data P
    \<and> (if ret = Iso14443_3aErrorNone then at_level Iso14443_3aPollerColResStateStateSelectCascade l P'
         \<and> cr_sdd_resp (ip_col_res P') = cl l
       else ip_state P' = Iso14443_3aPollerStateColResFailed)
    \<and> (answers_all radio \<longrightarrow> ret = Iso14443_3aErrorNone)"
proof -
  have ok: "poller_ok P" and lev: "cr_cascade_level (ip_col_res P) = of_nat l" using assms(3) by (simp_all add: at_level_def)
  then have b: "buf512 (ip_tx_buffer P)" "buf512 (ip_rx_buffer P)" by (simp_all add: poller_ok_def)
  let ?tx = "(ip_tx_buffer P)\<lparr>bb_size_bits := 16, bb_data := (bb_data (ip_tx_buffer P))[0 := 0x93 + 2 * of_nat l, 1 := 0x20]\<rparr>"
  have par: "ISO14443_3A_POLLER_SEL_PAR 2 0 = 0x20" by (simp add: ISO14443_3A_POLLER_SEL_PAR_def)
  have tx: "do { tx \<leftarrow> bit_buffer_set_size_bytes (ip_tx_buffer P) 2;
       tx \<leftarrow> bit_buffer_set_byte tx 0 (ISO14443_3A_POLLER_SEL_CMD (cr_cascade_level (ip_col_res P)));
       bit_buffer_set_byte tx 1 (ISO14443_3A_POLLER_SEL_PAR 2 0) } = Some ?tx"
    using b(1) by (simp add: bit_buffer_set_size_bytes_def bit_buffer_set_byte_def size_bytes_ceil buf512_def bb_wf_def mem_simps
        ISO14443_3A_POLLER_SEL_CMD_def lev par)
  have bytes: "bb_bytes ?tx = [0x93 + 2 * of_nat l, 0x20]" "buf512 ?tx"
  proof -
    have "length (bb_data (ip_tx_buffer P)) = 512" using b(1) by (simp add: buf512_def bb_wf_def)
    then obtain x y zs where "bb_data (ip_tx_buffer P) = x # y # zs"
      by (metis (no_types) One_nat_def length_Cons list.size(3) neq_Nil_conv one_eq_numeral_iff semiring_norm(83) zero_neq_numeral)
    then show "bb_bytes ?tx = [0x93 + 2 * of_nat l, 0x20]" by (simp add: bb_bytes_def bit_buffer_get_size_bytes_def)
    show "buf512 ?tx" using b(1) by (simp add: buf512_def bb_wf_def)
  qed
  obtain e rx w1 where x: "nfc_trx radio NfcTrxSddFrame ?tx (ip_rx_buffer P) w = Some (e, rx, w1)" "buf512 rx"
    "e = NfcErrorNone \<Longrightarrow> \<exists>f. radio NfcTrxSddFrame ?tx w = ((NfcErrorNone, f), w1) \<and> bb_bytes rx = bb_bytes f \<and> bb_size_bits rx = bb_size_bits f"
    by (rule nfc_trx_received [OF assms(1) b(2), of NfcTrxSddFrame ?tx w]) blast
  let ?P = "P\<lparr>ip_tx_buffer := ?tx, ip_rx_buffer := rx\<rparr>"
  have ok': "poller_ok ?P" using ok bytes(2) x(2) by (simp add: poller_ok_def)
  have run: "new_cascade_step radio P w =
     (if e \<noteq> NfcErrorNone then col_res_fail ?P w1
      else if bit_buffer_get_size_bytes rx \<noteq> 5 then col_res_fail ?P w1
      else do {
        r \<leftarrow> bit_buffer_write_bytes rx (cr_sdd_resp (ip_col_res P)) 5;
        Some (Iso14443_3aErrorNone, ?P\<lparr>ip_col_res := (ip_col_res P)\<lparr>cr_sdd_resp := r,
          cr_state := Iso14443_3aPollerColResStateStateSelectCascade\<rparr>\<rparr>, w1) })"
  proof -
    have "new_cascade_step radio P w = Some ?tx \<bind> (\<lambda>tx. do {
       let P = P\<lparr>ip_tx_buffer := tx\<rparr>;
       (error, rx, w) \<leftarrow> nfc_trx radio NfcTrxSddFrame (ip_tx_buffer P) (ip_rx_buffer P) w;
       let P = P\<lparr>ip_rx_buffer := rx\<rparr>;
       (if error \<noteq> NfcErrorNone then col_res_fail P w
        else if bit_buffer_get_size_bytes (ip_rx_buffer P) \<noteq> 5 then col_res_fail P w
        else do {
          r \<leftarrow> bit_buffer_write_bytes (ip_rx_buffer P) (cr_sdd_resp (ip_col_res P)) 5;
          Some (Iso14443_3aErrorNone, P\<lparr>ip_col_res := (ip_col_res P)\<lparr>cr_sdd_resp := r,
            cr_state := Iso14443_3aPollerColResStateStateSelectCascade\<rparr>\<rparr>, w) }) })"
      unfolding new_cascade_step_def tx [symmetric] by (simp only: bind_assoc)
    then show ?thesis by (simp add: Let_def x(1) del: One_nat_def)
  qed
  show ?thesis
  proof (cases "e = NfcErrorNone \<and> bit_buffer_get_size_bytes rx = 5")
    case False
    then have "new_cascade_step radio P w = col_res_fail ?P w1" by (auto simp: run)
    moreover have "\<not> answers_all radio"
    proof
      assume "answers_all radio"
      then obtain f w' where "radio NfcTrxSddFrame ?tx w = ((NfcErrorNone, f), w')" "bit_buffer_get_size_bytes f = 5"
        unfolding answers_all_def by blast
      moreover from this have "e = NfcErrorNone" using x(1) by (auto simp: nfc_trx_def split: bind_splits if_splits)
      ultimately show False using False x(3) by (auto simp: size_bytes_ceil)
    qed
    ultimately show ?thesis using ok' by (simp add: col_res_fail_def poller_ok_def)
  next
    case True
    then obtain f where f: "radio NfcTrxSddFrame ?tx w = ((NfcErrorNone, f), w1)" "bb_bytes rx = bb_bytes f" "bb_size_bits rx = bb_size_bits f"
      using x(3) by blast
    then have "bit_buffer_get_size_bytes f = 5" using True by (simp add: size_bytes_ceil)
    with f(1) assms(2,4) bytes(1) have cl: "bb_bytes f = cl l" unfolding sdd_answers_def by blast
    have wrx: "bb_wf rx" using x(2) by (simp add: buf512_def)
    have len: "length (cr_sdd_resp (ip_col_res P)) = 5" using ok by (simp add: poller_ok_def)
    have "bit_buffer_write_bytes rx (cr_sdd_resp (ip_col_res P)) 5 = Some (bb_bytes rx)"
      using True len x(2) by (simp add: bit_buffer_write_bytes_def memcpy_Some bb_bytes_def bb_wf_def buf512_def)
    moreover have "length (bb_bytes rx) = 5" using True wrx by (simp add: length_bb_bytes)
    ultimately show ?thesis using True ok' assms(3) cl f(2) by (simp add: run at_level_def poller_ok_def)
  qed
qed

lemma select_exchange_ok:
  assumes "radio_ok radio" "poller_ok P"
  shows "\<exists>ret tx rx w1. buf512 tx \<and> buf512 rx
    \<and> select_cascade_step radio P w = (let P = P\<lparr>ip_col_res := (ip_col_res P)\<lparr>cr_sel_req := ISO14443_3A_POLLER_SEL_CMD (cr_cascade_level (ip_col_res P))
          # ISO14443_3A_POLLER_SEL_PAR 7 0 # cr_sdd_resp (ip_col_res P)\<rparr>, ip_tx_buffer := tx, ip_rx_buffer := rx\<rparr> in
        if ret \<noteq> Iso14443_3aErrorNone \<or> bit_buffer_get_size_bytes rx \<noteq> 1 then col_res_fail P w1 else cascade_selected P w1)
    \<and> (answers_all radio \<longrightarrow> ret = Iso14443_3aErrorNone \<and> bit_buffer_get_size_bytes rx = 1)"
proof -
  have b: "buf512 (ip_tx_buffer P)" and lcl: "length (cr_sdd_resp (ip_col_res P)) = 5" using assms(2) by (simp_all add: poller_ok_def)
  let ?req = "ISO14443_3A_POLLER_SEL_CMD (cr_cascade_level (ip_col_res P)) # ISO14443_3A_POLLER_SEL_PAR 7 0 # cr_sdd_resp (ip_col_res P)"
  let ?P1 = "P\<lparr>ip_col_res := (ip_col_res P)\<lparr>cr_sel_req := ?req\<rparr>\<rparr>"
  define t where "t = (ip_tx_buffer P)\<lparr>bb_data := ?req @ drop 7 (bb_data (ip_tx_buffer P)), bb_size_bits := 56\<rparr>"
  have t: "bit_buffer_copy_bytes (ip_tx_buffer P) ?req 7 = Some t" "buf512 t" "bb_size_bits t = 8 * 7"
    using b lcl unfolding t_def by (simp_all add: bit_buffer_copy_bytes_def memcpy_Some buf512_def bb_wf_def)
  have ok: "poller_ok (?P1\<lparr>ip_tx_buffer := t\<rparr>)" using assms(2) t(2) lcl by (simp add: poller_ok_def)
  have t7: "bb_size_bits (ip_tx_buffer (?P1\<lparr>ip_tx_buffer := t\<rparr>)) = 8 * 7" using t(3) by simp
  have buf: "?P1\<lparr>ip_tx_buffer := t\<rparr>\<lparr>ip_tx_buffer := tx, ip_rx_buffer := rx\<rparr> = ?P1\<lparr>ip_tx_buffer := tx, ip_rx_buffer := rx\<rparr>" for tx rx
    by simp
  obtain ret tx rx w1 where x: "own_frame_exchange radio (?P1\<lparr>ip_tx_buffer := t\<rparr>) w = Some (ret, ?P1\<lparr>ip_tx_buffer := tx, ip_rx_buffer := rx\<rparr>, w1)"
    "buf512 tx" "buf512 rx" "answers_all radio \<Longrightarrow> ret = Iso14443_3aErrorNone \<and> bit_buffer_get_size_bytes rx = 1"
    using own_exchange_ok [OF assms(1) ok t7, of w 1, unfolded buf] unfolding answers_all_def by auto
  have "select_cascade_step radio P w = (let P = ?P1\<lparr>ip_tx_buffer := tx, ip_rx_buffer := rx\<rparr> in
      if ret \<noteq> Iso14443_3aErrorNone \<or> bit_buffer_get_size_bytes rx \<noteq> 1 then col_res_fail P w1 else cascade_selected P w1)"
    using t(1) x(1) by (simp add: select_cascade_step_def Let_def)
  with x(2-4) show ?thesis by fastforce
qed

lemma sel_resp_written:
  assumes "poller_ok P" "bit_buffer_get_size_bytes (ip_rx_buffer P) = 1"
  shows "bit_buffer_write_bytes (ip_rx_buffer P) (cr_sel_resp (ip_col_res P)) 1 = Some (bb_bytes (ip_rx_buffer P))"
    "length (bb_bytes (ip_rx_buffer P)) = 1"
proof -
  have wf: "bb_wf (ip_rx_buffer P)" using assms(1) by (simp add: poller_ok_def buf512_def)
  show "length (bb_bytes (ip_rx_buffer P)) = 1" using assms(2) wf by (simp add: length_bb_bytes)
  show "bit_buffer_write_bytes (ip_rx_buffer P) (cr_sel_resp (ip_col_res P)) 1 = Some (bb_bytes (ip_rx_buffer P))"
    using assms wf by (simp add: poller_ok_def bit_buffer_write_bytes_def memcpy_Some bb_bytes_def bb_wf_def size_bytes_ceil)
qed

text \<open>A poller that has sent the number \<open>cl\<close> in its \<open>SELECT\<close> of level \<open>l\<close> and has received one byte.\<close>

definition selecting :: "nat \<Rightarrow> u8 list \<Rightarrow> Iso14443_3aPoller \<Rightarrow> bool" where
  "selecting l cl P \<longleftrightarrow> poller_ok P \<and> bit_buffer_get_size_bytes (ip_rx_buffer P) = 1 \<and> length cl = 5
     \<and> ip_state P = Iso14443_3aPollerStateColResInProgress \<and> drop 2 (cr_sel_req (ip_col_res P)) = cl
     \<and> cr_cascade_level (ip_col_res P) = of_nat l \<and> iso_uid_len (ip_data P) = of_nat (3 * l)"

lemma selectingE:
  assumes "selecting l cl P" "l < 4"
  obtains r0 r1 c0 c1 c2 c3 c4 where "cr_sel_req (ip_col_res P) = [r0, r1, c0, c1, c2, c3, c4]" "cl = [c0, c1, c2, c3, c4]"
    "unat (iso_uid_len (ip_data P)) = 3 * l" "length (iso_uid (ip_data P)) = 10"
proof -
  have "length (cr_sel_req (ip_col_res P)) = 7" "drop 2 (cr_sel_req (ip_col_res P)) = cl" using assms by (simp_all add: selecting_def poller_ok_def)
  moreover have "unat (iso_uid_len (ip_data P)) = 3 * l"
    using assms by (simp add: selecting_def) (subst unat_of_nat_u8 [of "3 * l", simplified], simp_all)
  moreover have "length (iso_uid (ip_data P)) = 10" using assms by (simp add: selecting_def poller_ok_def)
  ultimately show ?thesis using that by (auto simp: length_Suc_conv eval_nat_numeral)
qed

lemma cascade_selected_tag:
  assumes "selecting l cl P" "l < 3" "cl ! 0 = ISO14443_3A_POLLER_SDD_CL"
  shows "\<exists>P'. cascade_selected P w = Some (Iso14443_3aErrorNone, P', w) \<and> uid_so_far P' = uid_so_far P @ take 3 (drop 1 cl)
    \<and> at_level Iso14443_3aPollerColResStateStateNewCascade (Suc l) P'"
proof -
  have ok: "poller_ok P" and one: "bit_buffer_get_size_bytes (ip_rx_buffer P) = 1" and lev: "cr_cascade_level (ip_col_res P) = of_nat l"
    and ul: "iso_uid_len (ip_data P) = of_nat (3 * l)" and st: "ip_state P = Iso14443_3aPollerStateColResInProgress"
    using assms(1) by (simp_all add: selecting_def)
  have "l < 4" using assms(2) by simp
  then obtain r0 r1 c0 c1 c2 c3 c4 where c: "cr_sel_req (ip_col_res P) = [r0, r1, c0, c1, c2, c3, c4]" "cl = [c0, c1, c2, c3, c4]"
    and ul': "unat (iso_uid_len (ip_data P)) = 3 * l" and lu: "length (iso_uid (ip_data P)) = 10" by (rule selectingE [OF assms(1)])
  let ?u = "iso_uid (ip_data P)"
  let ?u' = "take (3 * l) ?u @ [c1, c2, c3] @ drop (3 * l + 3) ?u"
  have m: "memcpy ?u (3 * l) [r0, r1, c0, c1, c2, c3, c4] 3 3 = Some ?u'" using lu assms(2) by (simp add: memcpy_Some)
  let ?Q = "P\<lparr>ip_data := (ip_data P)\<lparr>iso_uid := ?u', iso_uid_len := iso_uid_len (ip_data P) + 3\<rparr>,
      ip_col_res := (ip_col_res P)\<lparr>cr_sel_resp := bb_bytes (ip_rx_buffer P), cr_cascade_level := of_nat l + 1,
        cr_state := Iso14443_3aPollerColResStateStateNewCascade\<rparr>\<rparr>"
  have run: "cascade_selected P w = Some (Iso14443_3aErrorNone, ?Q, w)"
    using sel_resp_written(1) [OF ok one] m assms(3) by (simp add: cascade_selected_def lev Let_def rd_def c ul')
  have n: "iso_uid_len (ip_data P) + 3 = of_nat (3 * Suc l)" by (simp add: ul)
  have n': "unat (iso_uid_len (ip_data P) + 3) = 3 * l + 3" unfolding n by (subst unat_of_nat_u8) (use assms(2) in simp_all)
  have "uid_so_far ?Q = uid_so_far P @ take 3 (drop 1 cl)" using lu assms(2) by (simp add: uid_so_far_def n' ul' c)
  moreover have "at_level Iso14443_3aPollerColResStateStateNewCascade (Suc l) ?Q"
    using ok st sel_resp_written(2) [OF ok one] lu assms(2) n by (simp add: at_level_def poller_ok_def add.commute)
  ultimately show ?thesis using run by blast
qed

lemma cascade_selected_last:
  assumes "selecting l cl P" "l < 3" "cl ! 0 \<noteq> ISO14443_3A_POLLER_SDD_CL"
  shows "\<exists>P'. cascade_selected P w = Some (Iso14443_3aErrorNone, P', w) \<and> uid_so_far P' = uid_so_far P @ take 4 cl
    \<and> poller_ok P' \<and> ip_state P' = Iso14443_3aPollerStateActivated \<and> iso_uid_len (ip_data P') = of_nat (3 * l + 4)"
proof -
  have ok: "poller_ok P" and one: "bit_buffer_get_size_bytes (ip_rx_buffer P) = 1" and ul: "iso_uid_len (ip_data P) = of_nat (3 * l)"
    using assms(1) by (simp_all add: selecting_def)
  have "l < 4" using assms(2) by simp
  then obtain r0 r1 c0 c1 c2 c3 c4 where c: "cr_sel_req (ip_col_res P) = [r0, r1, c0, c1, c2, c3, c4]" "cl = [c0, c1, c2, c3, c4]"
    and ul': "unat (iso_uid_len (ip_data P)) = 3 * l" and lu: "length (iso_uid (ip_data P)) = 10" by (rule selectingE [OF assms(1)])
  obtain sak where s: "bb_bytes (ip_rx_buffer P) = [sak]" using sel_resp_written(2) [OF ok one] by (auto simp: length_Suc_conv)
  let ?u = "iso_uid (ip_data P)"
  let ?u' = "take (3 * l) ?u @ [c0, c1, c2, c3] @ drop (3 * l + 4) ?u"
  have m: "memcpy ?u (3 * l) [r0, r1, c0, c1, c2, c3, c4] 2 4 = Some ?u'" using lu assms(2) by (simp add: memcpy_Some)
  let ?Q = "P\<lparr>ip_data := (ip_data P)\<lparr>iso_sak := sak, iso_uid := ?u', iso_uid_len := iso_uid_len (ip_data P) + 4\<rparr>,
      ip_col_res := (ip_col_res P)\<lparr>cr_sel_resp := [sak], cr_state := Iso14443_3aPollerColResStateStateSuccess\<rparr>,
      ip_state := Iso14443_3aPollerStateActivated\<rparr>"
  have run: "cascade_selected P w = Some (Iso14443_3aErrorNone, ?Q, w)"
    using sel_resp_written(1) [OF ok one] m assms(3) by (simp add: cascade_selected_def Let_def rd_def c ul' s)
  have n: "iso_uid_len (ip_data P) + 4 = of_nat (3 * l + 4)" by (simp add: ul)
  have n': "unat (iso_uid_len (ip_data P) + 4) = 3 * l + 4" unfolding n by (subst unat_of_nat_u8) (use assms(2) in simp_all)
  have "uid_so_far ?Q = uid_so_far P @ take 4 cl" using lu assms(2) by (simp add: uid_so_far_def n' ul' c)
  moreover have "poller_ok ?Q" using ok lu assms(2) by (simp add: poller_ok_def)
  moreover have "iso_uid_len (ip_data ?Q) = of_nat (3 * l + 4)" using n by simp
  ultimately show ?thesis using run by (intro exI [of _ ?Q]) simp
qed

lemma cascade_selected_overflow:
  assumes "selecting 3 cl P" "cl ! 0 = ISO14443_3A_POLLER_SDD_CL"
  shows "cascade_selected P w = None"
proof -
  have ok: "poller_ok P" and one: "bit_buffer_get_size_bytes (ip_rx_buffer P) = 1" using assms(1) by (simp_all add: selecting_def)
  have "(3::nat) < 4" by simp
  then obtain r0 r1 c0 c1 c2 c3 c4 where c: "cr_sel_req (ip_col_res P) = [r0, r1, c0, c1, c2, c3, c4]" "cl = [c0, c1, c2, c3, c4]"
    and ul: "unat (iso_uid_len (ip_data P)) = 3 * 3" and lu: "length (iso_uid (ip_data P)) = 10" by (rule selectingE [OF assms(1)])
  have ul': "unat (iso_uid_len (ip_data P)) = 9" using ul by simp
  have "memcpy (iso_uid (ip_data P)) 9 [r0, r1, c0, c1, c2, c3, c4] 3 3 = None" using lu by (simp add: memcpy_def)
  with sel_resp_written(1) [OF ok one] assms(2) show ?thesis by (simp add: cascade_selected_def Let_def rd_def c ul')
qed

text \<open>The second turn of a level.\<close>

lemma select_cascade_cases:
  assumes "radio_ok radio" "at_level Iso14443_3aPollerColResStateStateSelectCascade l P"
  shows "(\<exists>P' w'. select_cascade_step radio P w = col_res_fail P' w' \<and> poller_ok P' \<and> \<not> answers_all radio)
    \<or> (\<exists>P' w'. select_cascade_step radio P w = cascade_selected P' w' \<and> selecting l (cr_sdd_resp (ip_col_res P)) P' \<and> uid_so_far P' = uid_so_far P)"
proof -
  have ok: "poller_ok P" and len: "length (cr_sdd_resp (ip_col_res P)) = 5" using assms(2) by (simp_all add: at_level_def poller_ok_def)
  let ?P = "\<lambda>tx rx. P\<lparr>ip_col_res := (ip_col_res P)\<lparr>cr_sel_req := ISO14443_3A_POLLER_SEL_CMD (cr_cascade_level (ip_col_res P))
      # ISO14443_3A_POLLER_SEL_PAR 7 0 # cr_sdd_resp (ip_col_res P)\<rparr>, ip_tx_buffer := tx, ip_rx_buffer := rx\<rparr>"
  obtain ret tx rx w1 where x: "buf512 tx" "buf512 rx"
    "select_cascade_step radio P w = (if ret \<noteq> Iso14443_3aErrorNone \<or> bit_buffer_get_size_bytes rx \<noteq> 1 then col_res_fail (?P tx rx) w1
       else cascade_selected (?P tx rx) w1)"
    "answers_all radio \<longrightarrow> ret = Iso14443_3aErrorNone \<and> bit_buffer_get_size_bytes rx = 1"
    using select_exchange_ok [OF assms(1) ok, of w] unfolding Let_def by blast
  have ok': "poller_ok (?P tx rx)" using ok x(1,2) len by (simp add: poller_ok_def)
  show ?thesis
  proof (cases "ret \<noteq> Iso14443_3aErrorNone \<or> bit_buffer_get_size_bytes rx \<noteq> 1")
    case True
    with x(3,4) ok' show ?thesis by auto
  next
    case False
    then have "selecting l (cr_sdd_resp (ip_col_res P)) (?P tx rx)" using ok' len assms(2) by (simp add: selecting_def at_level_def)
    moreover have "uid_so_far (?P tx rx) = uid_so_far P" by (simp add: uid_so_far_def)
    moreover have "select_cascade_step radio P w = cascade_selected (?P tx rx) w1" using False x(3) by simp
    ultimately show ?thesis by blast
  qed
qed

text \<open>The two turns of a level: the loop is over, or it is at the next one.\<close>

definition loop_over :: "'w radio \<Rightarrow> u8 list \<Rightarrow> Iso14443_3aError \<Rightarrow> Iso14443_3aPoller \<Rightarrow> bool" where
  "loop_over radio uid ret P \<longleftrightarrow> poller_ok P \<and> (if ret = Iso14443_3aErrorNone
       then ip_state P = Iso14443_3aPollerStateActivated \<and> uid_so_far P = uid
       else ip_state P = Iso14443_3aPollerStateColResFailed \<and> \<not> answers_all radio)"

lemma level_turns:
  assumes "radio_ok radio" "sdd_answers radio cl" "at_level Iso14443_3aPollerColResStateStateNewCascade l P" "l < 4"
  shows "(\<exists>ret P' w'. col_res_loop (Suc (Suc n)) radio P w = Some (Some (ret, P', w')) \<and> ret \<noteq> Iso14443_3aErrorNone
        \<and> loop_over radio [] ret P')
    \<or> (\<exists>P' w'. selecting l (cl l) P' \<and> uid_so_far P' = uid_so_far P \<and> col_res_loop (Suc (Suc n)) radio P w = do {
          (ret, P, w) \<leftarrow> cascade_selected P' w';
          (if ret \<noteq> Iso14443_3aErrorNone then Some (Some (ret, P, w)) else col_res_loop n radio P w) })"
proof -
  have st: "ip_state P = Iso14443_3aPollerStateColResInProgress" "cr_state (ip_col_res P) = Iso14443_3aPollerColResStateStateNewCascade"
    using assms(3) by (simp_all add: at_level_def)
  obtain ret P1 w1 where n: "new_cascade_step radio P w = Some (ret, P1, w1)" "poller_ok P1" "ip_data P1 = ip_data P"
    "if ret = Iso14443_3aErrorNone then at_level Iso14443_3aPollerColResStateStateSelectCascade l P1 \<and> cr_sdd_resp (ip_col_res P1) = cl l
     else ip_state P1 = Iso14443_3aPollerStateColResFailed" "answers_all radio \<longrightarrow> ret = Iso14443_3aErrorNone"
    using new_cascade_ok [OF assms, of w] by blast
  show ?thesis
  proof (cases "ret = Iso14443_3aErrorNone")
    case False
    with n st show ?thesis by (auto simp: loop_over_def)
  next
    case True
    with n have l1: "at_level Iso14443_3aPollerColResStateStateSelectCascade l P1" "cr_sdd_resp (ip_col_res P1) = cl l" by simp_all
    then have st1: "ip_state P1 = Iso14443_3aPollerStateColResInProgress" "cr_state (ip_col_res P1) = Iso14443_3aPollerColResStateStateSelectCascade"
      by (simp_all add: at_level_def)
    have u: "uid_so_far P1 = uid_so_far P" using n(3) by (simp add: uid_so_far_def)
    have loop: "col_res_loop (Suc (Suc n)) radio P w = do {
          (ret, P, w) \<leftarrow> select_cascade_step radio P1 w1;
          (if ret \<noteq> Iso14443_3aErrorNone then Some (Some (ret, P, w)) else col_res_loop n radio P w) }"
      using st st1 n(1) True by simp
    from select_cascade_cases [OF assms(1) l1(1), of w1] show ?thesis
    proof (elim disjE exE conjE)
      fix P' w'
      assume "select_cascade_step radio P1 w1 = col_res_fail P' w'" "poller_ok P'" "\<not> answers_all radio"
      then have "col_res_loop (Suc (Suc n)) radio P w
          = Some (Some (Iso14443_3aErrorColResFailed, P'\<lparr>ip_state := Iso14443_3aPollerStateColResFailed\<rparr>, w'))"
        "loop_over radio [] Iso14443_3aErrorColResFailed (P'\<lparr>ip_state := Iso14443_3aPollerStateColResFailed\<rparr>)"
        unfolding loop by (simp_all add: col_res_fail_def loop_over_def poller_ok_def)
      then show ?thesis by blast
    next
      fix P' w'
      assume "select_cascade_step radio P1 w1 = cascade_selected P' w'" "selecting l (cr_sdd_resp (ip_col_res P1)) P'" "uid_so_far P' = uid_so_far P1"
      then show ?thesis unfolding loop l1(2) u by auto
    qed
  qed
qed

lemma col_res_loop_ok:
  assumes "radio_ok radio" "sdd_answers radio cl" "cl 2 ! 0 \<noteq> ISO14443_3A_POLLER_SDD_CL"
  shows "at_level Iso14443_3aPollerColResStateStateNewCascade l P \<Longrightarrow> l + d = 2 \<Longrightarrow> 2 * d + 3 \<le> n \<Longrightarrow>
    \<exists>ret P' w'. col_res_loop n radio P w = Some (Some (ret, P', w')) \<and> loop_over radio (uid_so_far P @ uid_from cl l d) ret P'"
proof (induction d arbitrary: l P w n)
  case 0
  then have l: "l = 2" "l < 4" "l < 3" by simp_all
  have no_tag: "cl l ! 0 \<noteq> ISO14443_3A_POLLER_SDD_CL" using assms(3) l(1) by simp
  have "n = (n - 3) + 3" using 0(3) by simp
  then obtain m where m: "n = Suc (Suc (Suc m))" by (metis add_Suc_right add_0_right numeral_3_eq_3)
  from level_turns [OF assms(1,2) 0(1) l(2), of "Suc m" w] show ?case
  proof (elim disjE exE conjE)
    fix ret P' w'
    assume "col_res_loop (Suc (Suc (Suc m))) radio P w = Some (Some (ret, P', w'))" "ret \<noteq> Iso14443_3aErrorNone" "loop_over radio [] ret P'"
    then show ?thesis unfolding m loop_over_def by auto
  next
    fix P' w'
    assume s: "selecting l (cl l) P'" and u: "uid_so_far P' = uid_so_far P" and loop: "col_res_loop (Suc (Suc (Suc m))) radio P w = do {
          (ret, P, w) \<leftarrow> cascade_selected P' w';
          (if ret \<noteq> Iso14443_3aErrorNone then Some (Some (ret, P, w)) else col_res_loop (Suc m) radio P w) }"
    obtain Q where "cascade_selected P' w' = Some (Iso14443_3aErrorNone, Q, w')" "uid_so_far Q = uid_so_far P' @ take 4 (cl l)"
      "poller_ok Q" "ip_state Q = Iso14443_3aPollerStateActivated"
      using cascade_selected_last [OF s l(3) no_tag, of w'] by blast
    then show ?thesis unfolding m loop by (simp add: loop_over_def u)
  qed
next
  case (Suc d)
  then have l: "l < 4" "l < 3" "Suc l + d = 2" by simp_all
  have "n = (n - 2) + 2" "2 * d + 3 \<le> n - 2" using Suc.prems(3) by simp_all
  then obtain m where m: "n = Suc (Suc m)" "2 * d + 3 \<le> m" by (metis add_2_eq_Suc')
  from level_turns [OF assms(1,2) Suc.prems(1) l(1), of m w] show ?case
  proof (elim disjE exE conjE)
    fix ret P' w'
    assume "col_res_loop (Suc (Suc m)) radio P w = Some (Some (ret, P', w'))" "ret \<noteq> Iso14443_3aErrorNone" "loop_over radio [] ret P'"
    then show ?thesis unfolding m(1) loop_over_def by auto
  next
    fix P' w'
    assume s: "selecting l (cl l) P'" and u: "uid_so_far P' = uid_so_far P" and loop: "col_res_loop (Suc (Suc m)) radio P w = do {
          (ret, P, w) \<leftarrow> cascade_selected P' w';
          (if ret \<noteq> Iso14443_3aErrorNone then Some (Some (ret, P, w)) else col_res_loop m radio P w) }"
    show ?thesis
    proof (cases "cl l ! 0 = ISO14443_3A_POLLER_SDD_CL")
      case True
      obtain Q where q: "cascade_selected P' w' = Some (Iso14443_3aErrorNone, Q, w')" "uid_so_far Q = uid_so_far P' @ take 3 (drop 1 (cl l))"
        "at_level Iso14443_3aPollerColResStateStateNewCascade (Suc l) Q"
        using cascade_selected_tag [OF s l(2) True, of w'] by blast
      have "col_res_loop n radio P w = col_res_loop m radio Q w'" unfolding m(1) loop using q(1) by simp
      moreover have "uid_so_far P @ uid_from cl l (Suc d) = uid_so_far Q @ uid_from cl (Suc l) d" using True q(2) u by simp
      ultimately show ?thesis using Suc.IH [OF q(3) l(3) m(2), of w'] by simp
    next
      case False
      obtain Q where "cascade_selected P' w' = Some (Iso14443_3aErrorNone, Q, w')" "uid_so_far Q = uid_so_far P' @ take 4 (cl l)"
        "poller_ok Q" "ip_state Q = Iso14443_3aPollerStateActivated"
        using cascade_selected_last [OF s l(2) False, of w'] by blast
      moreover obtain k where "m = Suc k" using m(2) by (cases m) simp_all
      ultimately show ?thesis using False unfolding m(1) loop by (simp add: loop_over_def u)
    qed
  qed
qed

section \<open>Activation\<close>

lemma halt_ok:
  assumes "radio_ok radio" "poller_ok P"
  shows "\<exists>P' w'. iso14443_3a_poller_halt radio P w = Some (Iso14443_3aErrorNone, P', w') \<and> poller_ok P'
    \<and> ip_state P' = Iso14443_3aPollerStateIdle \<and> ip_data P' = ip_data P \<and> ip_col_res P' = ip_col_res P"
proof -
  have b: "buf512 (ip_tx_buffer P)" using assms(2) by (simp add: poller_ok_def)
  define t where "t = (ip_tx_buffer P)\<lparr>bb_data := [0x50, 0x00] @ drop 2 (bb_data (ip_tx_buffer P)), bb_size_bits := 16\<rparr>"
  have t: "bit_buffer_copy_bytes (ip_tx_buffer P) [0x50, 0x00] 2 = Some t" "buf512 t" "bb_size_bits t = 8 * 2"
    using b unfolding t_def by (simp_all add: bit_buffer_copy_bytes_def memcpy_Some buf512_def bb_wf_def numeral_2_eq_2)
  have ok: "poller_ok (P\<lparr>ip_tx_buffer := t\<rparr>)" using assms(2) t(2) by (simp add: poller_ok_def)
  have t2: "bb_size_bits (ip_tx_buffer (P\<lparr>ip_tx_buffer := t\<rparr>)) = 8 * 2" using t(3) by simp
  have buf: "P\<lparr>ip_tx_buffer := t\<rparr>\<lparr>ip_tx_buffer := tx, ip_rx_buffer := rx\<rparr> = P\<lparr>ip_tx_buffer := tx, ip_rx_buffer := rx\<rparr>" for tx rx by simp
  obtain ret tx rx w1 where "own_frame_exchange radio (P\<lparr>ip_tx_buffer := t\<rparr>) w = Some (ret, P\<lparr>ip_tx_buffer := tx, ip_rx_buffer := rx\<rparr>, w1)"
    "buf512 tx" "buf512 rx"
    using own_exchange_ok [OF assms(1) ok t2, of w 0, unfolded buf] by auto
  then show ?thesis using t(1) assms(2) by (simp add: iso14443_3a_poller_halt_def poller_ok_def)
qed

lemma reset_ok: "buf512 b \<Longrightarrow> buf512 (bit_buffer_reset b)"
  by (simp add: buf512_def bb_wf_def bit_buffer_reset_def)

text \<open>What a session starts with.\<close>

definition activation_start :: "Iso14443_3aPoller \<Rightarrow> Iso14443_3aPoller" where
  "activation_start P = P\<lparr>ip_col_res := col_res_zero,
     ip_data := \<lparr>iso_uid = replicate 10 0, iso_uid_len = 0, iso_atqa = [0, 0], iso_sak = 0\<rparr>,
     ip_tx_buffer := bit_buffer_reset (ip_tx_buffer P), ip_rx_buffer := bit_buffer_reset (ip_rx_buffer P)\<rparr>"

definition activation_from :: "'w radio \<Rightarrow> Iso14443_3aPoller \<Rightarrow> 'w \<Rightarrow> (Iso14443_3aError \<times> Iso14443_3aPoller \<times> 'w) option option" where
  "activation_from radio P w = do {
     (error, rx, w) \<leftarrow> nfc_trx radio NfcTrxShortFrameSensReq (ip_tx_buffer P) (ip_rx_buffer P) w;
     let P = P\<lparr>ip_rx_buffer := rx\<rparr>;
     (if error \<noteq> NfcErrorNone then Some (Some (Iso14443_3aErrorNotPresent, P, w))
      else if bit_buffer_get_size_bytes (ip_rx_buffer P) \<noteq> 2 then Some (Some (Iso14443_3aErrorCommunication, P, w))
      else do {
        r \<leftarrow> bit_buffer_write_bytes (ip_rx_buffer P) (cr_sens_resp (ip_col_res P)) 2;
        atqa \<leftarrow> memcpy (iso_atqa (ip_data P)) 0 r 0 2;
        let P = P\<lparr>ip_data := (ip_data P)\<lparr>iso_atqa := atqa\<rparr>, ip_state := Iso14443_3aPollerStateColResInProgress,
          ip_col_res := (ip_col_res P)\<lparr>cr_sens_resp := r, cr_cascade_level := 0, cr_state := Iso14443_3aPollerColResStateStateNewCascade\<rparr>\<rparr>;
        col_res_loop 9 radio P w }) }"

lemma activate_starts:
  assumes "radio_ok radio" "poller_ok P"
  shows "\<exists>P' w'. iso14443_3a_poller_activate radio P w = activation_from radio P' w' \<and> poller_ok P' \<and> iso_uid_len (ip_data P') = 0"
proof -
  have ok: "poller_ok (activation_start P)" using assms(2) by (simp add: poller_ok_def reset_ok activation_start_def col_res_zero_def)
  have u: "iso_uid_len (ip_data (activation_start P)) = 0" and st: "ip_state (activation_start P) = ip_state P" by (simp_all add: activation_start_def)
  have run: "iso14443_3a_poller_activate radio P w = do {
      (P, w) \<leftarrow> (if ip_state P \<noteq> Iso14443_3aPollerStateIdle then do {
          (_, P, w) \<leftarrow> iso14443_3a_poller_halt radio (activation_start P) w;
          Some (P\<lparr>ip_state := Iso14443_3aPollerStateIdle\<rparr>, w) } else Some (activation_start P, w));
      activation_from radio P w }"
    by (simp add: iso14443_3a_poller_activate_def activation_from_def activation_start_def Let_def)
  show ?thesis
  proof (cases "ip_state P = Iso14443_3aPollerStateIdle")
    case True
    then have "iso14443_3a_poller_activate radio P w = activation_from radio (activation_start P) w" by (simp add: run)
    with ok u show ?thesis by blast
  next
    case False
    obtain P' w' where h: "iso14443_3a_poller_halt radio (activation_start P) w = Some (Iso14443_3aErrorNone, P', w')" "poller_ok P'"
      "ip_data P' = ip_data (activation_start P)"
      using halt_ok [OF assms(1) ok, of w] by blast
    have "iso14443_3a_poller_activate radio P w = activation_from radio (P'\<lparr>ip_state := Iso14443_3aPollerStateIdle\<rparr>) w'"
      using False h(1) by (simp add: run)
    moreover have "poller_ok (P'\<lparr>ip_state := Iso14443_3aPollerStateIdle\<rparr>)" using h(2) by (simp add: poller_ok_def)
    moreover have "iso_uid_len (ip_data (P'\<lparr>ip_state := Iso14443_3aPollerStateIdle\<rparr>)) = 0" using h(3) u by simp
    ultimately show ?thesis by blast
  qed
qed

lemma activation_reaches_loop:
  assumes "radio_ok radio" "poller_ok P" "iso_uid_len (ip_data P) = 0"
  shows "(\<exists>ret P' w'. activation_from radio P w = Some (Some (ret, P', w')) \<and> ret \<noteq> Iso14443_3aErrorNone \<and> poller_ok P' \<and> \<not> answers_all radio)
    \<or> (\<exists>P' w'. activation_from radio P w = col_res_loop 9 radio P' w' \<and> uid_so_far P' = []
         \<and> at_level Iso14443_3aPollerColResStateStateNewCascade 0 P')"
proof -
  have b: "buf512 (ip_rx_buffer P)" using assms(2) by (simp add: poller_ok_def)
  obtain e rx w1 where x: "nfc_trx radio NfcTrxShortFrameSensReq (ip_tx_buffer P) (ip_rx_buffer P) w = Some (e, rx, w1)" "buf512 rx"
    "e = NfcErrorNone \<Longrightarrow> \<exists>f. radio NfcTrxShortFrameSensReq (ip_tx_buffer P) w = ((NfcErrorNone, f), w1) \<and> bb_bytes rx = bb_bytes f
       \<and> bb_size_bits rx = bb_size_bits f \<and> bb_wf f \<and> bb_size_bits f \<le> 2048"
    by (rule nfc_trx_received [OF assms(1) b, of NfcTrxShortFrameSensReq "ip_tx_buffer P" w]) blast
  let ?P = "P\<lparr>ip_rx_buffer := rx\<rparr>"
  have ok: "poller_ok ?P" using assms(2) x(2) by (simp add: poller_ok_def)
  show ?thesis
  proof (cases "e = NfcErrorNone \<and> bit_buffer_get_size_bytes rx = 2")
    case False
    have "\<not> answers_all radio"
    proof
      assume "answers_all radio"
      then obtain f w' where f: "radio NfcTrxShortFrameSensReq (ip_tx_buffer P) w = ((NfcErrorNone, f), w')" "bit_buffer_get_size_bytes f = 2"
        unfolding answers_all_def by blast
      with x(1) have "e = NfcErrorNone" by (auto simp: nfc_trx_def split: bind_splits)
      with x(3) f False show False by (auto simp: bit_buffer_get_size_bytes_def)
    qed
    moreover have "\<exists>ret. activation_from radio P w = Some (Some (ret, ?P, w1)) \<and> ret \<noteq> Iso14443_3aErrorNone"
      using False x(1) by (auto simp: activation_from_def Let_def)
    ultimately show ?thesis using ok by blast
  next
    case True
    have wf: "bb_wf rx" using x(2) by (simp add: buf512_def)
    have len: "length (cr_sens_resp (ip_col_res P)) = 2" "length (iso_atqa (ip_data P)) = 2" using assms(2) by (simp_all add: poller_ok_def)
    have r: "bit_buffer_write_bytes rx (cr_sens_resp (ip_col_res P)) 2 = Some (bb_bytes rx)"
      using True len x(2) by (simp add: bit_buffer_write_bytes_def memcpy_Some bb_bytes_def bb_wf_def buf512_def size_bytes_ceil)
    have lrx: "length (bb_bytes rx) = 2" using True wf by (simp add: length_bb_bytes)
    let ?Q = "?P\<lparr>ip_data := (ip_data P)\<lparr>iso_atqa := bb_bytes rx\<rparr>, ip_state := Iso14443_3aPollerStateColResInProgress,
      ip_col_res := (ip_col_res P)\<lparr>cr_sens_resp := bb_bytes rx, cr_cascade_level := 0, cr_state := Iso14443_3aPollerColResStateStateNewCascade\<rparr>\<rparr>"
    have "activation_from radio P w = col_res_loop 9 radio ?Q w1"
      using True x(1) r len lrx by (simp add: activation_from_def Let_def memcpy_Some)
    moreover have "at_level Iso14443_3aPollerColResStateStateNewCascade 0 ?Q"
      using ok lrx assms(3) by (simp add: at_level_def poller_ok_def)
    moreover have "uid_so_far ?Q = []" using assms(3) by (simp add: uid_so_far_def)
    ultimately show ?thesis by blast
  qed
qed

text \<open>A card that tags every level is selected at one after the other.\<close>

lemma tagged_turn:
  assumes "radio_ok radio" "sdd_answers radio cl" "answers_all radio" "at_level Iso14443_3aPollerColResStateStateNewCascade l P" "l < 4"
  shows "\<exists>P' w'. selecting l (cl l) P' \<and> col_res_loop (Suc (Suc n)) radio P w = do {
          (ret, P, w) \<leftarrow> cascade_selected P' w';
          (if ret \<noteq> Iso14443_3aErrorNone then Some (Some (ret, P, w)) else col_res_loop n radio P w) }"
proof -
  have "ret = Iso14443_3aErrorNone" if "loop_over radio [] ret P'" for ret P'
    using that assms(3) by (auto simp: loop_over_def split: if_splits)
  with level_turns [OF assms(1,2,4,5), of n w] show ?thesis by blast
qed

lemma tagged_level:
  assumes "radio_ok radio" "sdd_answers radio cl" "answers_all radio" "at_level Iso14443_3aPollerColResStateStateNewCascade l P" "l < 3"
    and tag: "cl l ! 0 = ISO14443_3A_POLLER_SDD_CL"
  shows "\<exists>P' w'. at_level Iso14443_3aPollerColResStateStateNewCascade (Suc l) P' \<and> col_res_loop (Suc (Suc n)) radio P w = col_res_loop n radio P' w'"
proof -
  have l4: "l < 4" using assms(5) by simp
  obtain P' w' where s: "selecting l (cl l) P'" and run: "col_res_loop (Suc (Suc n)) radio P w = do {
        (ret, P, w) \<leftarrow> cascade_selected P' w';
        (if ret \<noteq> Iso14443_3aErrorNone then Some (Some (ret, P, w)) else col_res_loop n radio P w) }"
    using tagged_turn [OF assms(1-4) l4, of n w] by blast
  obtain Q where q: "cascade_selected P' w' = Some (Iso14443_3aErrorNone, Q, w')" "at_level Iso14443_3aPollerColResStateStateNewCascade (Suc l) Q"
    using cascade_selected_tag [OF s assms(5) tag, of w'] by blast
  have "col_res_loop (Suc (Suc n)) radio P w = col_res_loop n radio Q w'" unfolding run using q(1) by simp
  with q(2) show ?thesis by blast
qed

lemma tagged_levels:
  assumes "radio_ok radio" "sdd_answers radio cl" "answers_all radio" "\<forall>l < 4. cl l ! 0 = ISO14443_3A_POLLER_SDD_CL"
  shows "at_level Iso14443_3aPollerColResStateStateNewCascade l P \<Longrightarrow> l + d = 3 \<Longrightarrow> col_res_loop (2 * d + 3) radio P w = None"
proof (induction d arbitrary: l P w)
  case 0
  then have l: "l = 3" "l < 4" by simp_all
  obtain P' w' where s: "selecting l (cl l) P'" and run: "col_res_loop (Suc (Suc 1)) radio P w = do {
        (ret, P, w) \<leftarrow> cascade_selected P' w';
        (if ret \<noteq> Iso14443_3aErrorNone then Some (Some (ret, P, w)) else col_res_loop 1 radio P w) }"
    using tagged_turn [OF assms(1-3) 0(1) l(2), of 1 w] by blast
  have "cascade_selected P' w' = None" using cascade_selected_overflow [of "cl 3" P' w'] s assms(4) l(1) by simp
  with run show ?case by (simp add: eval_nat_numeral)
next
  case (Suc d)
  then have l: "l < 3" "Suc l + d = 3" by simp_all
  have tag: "cl l ! 0 = ISO14443_3A_POLLER_SDD_CL" using assms(4) l(1) by simp
  obtain P' w' where "at_level Iso14443_3aPollerColResStateStateNewCascade (Suc l) P'"
    "col_res_loop (Suc (Suc (2 * d + 3))) radio P w = col_res_loop (2 * d + 3) radio P' w'"
    using tagged_level [OF assms(1-3) Suc.prems(1) l(1) tag, of "2 * d + 3" w] by blast
  with Suc.IH [OF _ l(2)] show ?case by (simp add: eval_nat_numeral)
qed

text \<open>A poller as it is allocated, and a card with the number parts \<open>cl\<close> that answers everything.\<close>

lemma alloc_ok: "\<exists>P. iso14443_3a_poller_alloc = Some P \<and> poller_ok P"
  by (simp add: iso14443_3a_poller_alloc_def bit_buffer_alloc_def ISO14443_3A_POLLER_MAX_BUFFER_SIZE_def poller_ok_def buf512_def bb_wf_def
      iso14443_3a_alloc_def col_res_zero_def)

definition frame_of :: "u8 list \<Rightarrow> BitBuffer" where
  "frame_of xs = \<lparr>bb_data = xs, bb_parity = replicate ((length xs + 7) div 8) 0, bb_capacity_bytes = length xs, bb_size_bits = 8 * length xs\<rparr>"

definition card_radio :: "(nat \<Rightarrow> u8 list) \<Rightarrow> unit radio" where
  "card_radio cl kind tx w = ((NfcErrorNone,
     case kind of
       NfcTrxShortFrameSensReq \<Rightarrow> frame_of [0x44, 0x00]
     | NfcTrxSddFrame \<Rightarrow> frame_of (cl (unat (bb_bytes tx ! 0 - 0x93) div 2))
     | _ \<Rightarrow> frame_of [0x04, 0xDA, 0x17]), w)"

lemma frame_of_bytes: "bb_bytes (frame_of xs) = xs" "bit_buffer_get_size_bytes (frame_of xs) = length xs" "xs \<noteq> [] \<Longrightarrow> bb_wf (frame_of xs)"
  by (simp_all add: frame_of_def bb_bytes_def size_bytes_ceil bb_wf_def)

lemma card_radio_laws:
  assumes five: "\<forall>l. length (cl l) = 5"
  shows "radio_ok (card_radio cl)" "sdd_answers (card_radio cl) cl" "answers_all (card_radio cl)"
proof -
  have len5: "length (cl l) = 5" for l using five by blast
  then have cl: "cl l \<noteq> []" for l by (metis length_0_conv zero_neq_numeral)
  show "radio_ok (card_radio cl)"
    unfolding radio_ok_def card_radio_def using cl len5 by (auto simp: frame_of_bytes split: NfcTrx.splits) (auto simp: frame_of_def)
  show "sdd_answers (card_radio cl) cl"
  proof -
    have "unat (0x93 + 2 * of_nat l - 0x93 :: u8) div 2 = l" if "l < 4" for l
    proof -
      have "l = 0 \<or> l = 1 \<or> l = 2 \<or> l = 3" using that by arith
      then show ?thesis by (elim disjE) simp_all
    qed
    then show ?thesis by (auto simp: sdd_answers_def card_radio_def frame_of_bytes)
  qed
  have "iso14443_crc_check Iso14443CrcTypeA (frame_of [0x04, 0xDA, 0x17]) = Some True" by code_simp
  then show "answers_all (card_radio cl)" by (simp add: answers_all_def frame_answers_def card_radio_def frame_of_bytes len5)
qed

text \<open>C40: activating a card ends and never fails, whatever the radio answers or does not answer, if the card's number has at most
  three parts, as the standard has it: the poller keeps its buffers, and with \<open>Iso14443_3aErrorNone\<close> it is activated and holds
  exactly the card's number, its parts without their cascade tags; any other result means that an answer was missing or malformed.\<close>

theorem iso14443_3a_activation:
  assumes "radio_ok radio" "poller_ok P" "sdd_answers radio cl" "cl 2 ! 0 \<noteq> ISO14443_3A_POLLER_SDD_CL"
  shows "\<exists>ret P' w'. iso14443_3a_poller_activate radio P w = Some (Some (ret, P', w')) \<and> poller_ok P'
    \<and> (if ret = Iso14443_3aErrorNone
       then ip_state P' = Iso14443_3aPollerStateActivated
         \<and> take (unat (iso_uid_len (iso14443_3a_poller_get_data P'))) (iso_uid (iso14443_3a_poller_get_data P')) = uid_from cl 0 2
       else \<not> answers_all radio)"
proof -
  obtain P1 w1 where start: "iso14443_3a_poller_activate radio P w = activation_from radio P1 w1" "poller_ok P1" "iso_uid_len (ip_data P1) = 0"
    using activate_starts [OF assms(1,2), of w] by blast
  from activation_reaches_loop [OF assms(1) start(2,3), of w1] show ?thesis
  proof (elim disjE exE conjE)
    fix P2 w2
    assume run: "activation_from radio P1 w1 = col_res_loop 9 radio P2 w2" and u: "uid_so_far P2 = []"
      and l: "at_level Iso14443_3aPollerColResStateStateNewCascade 0 P2"
    obtain ret P' w' where "col_res_loop 9 radio P2 w2 = Some (Some (ret, P', w'))" "loop_over radio (uid_from cl 0 2) ret P'"
      using col_res_loop_ok [OF assms(1,3,4) l, of 2 9 w2] by (auto simp: u)
    then show ?thesis unfolding start(1) run loop_over_def iso14443_3a_poller_get_data_def uid_so_far_def by auto
  qed (auto simp: start(1))
qed

definition card7 :: "nat \<Rightarrow> u8 list" where
  "card7 l = (if l = 0 then [0x88, 0x04, 0x11, 0x22, 0xBF] else [0x33, 0x44, 0x55, 0x66, 0x44])"

theorem iso14443_3a_activation_witness:
  "\<exists>P P' w'. iso14443_3a_poller_alloc = Some P
    \<and> iso14443_3a_poller_activate (card_radio card7) P () = Some (Some (Iso14443_3aErrorNone, P', w'))
    \<and> take (unat (iso_uid_len (iso14443_3a_poller_get_data P'))) (iso_uid (iso14443_3a_poller_get_data P')) = [0x04, 0x11, 0x22, 0x33, 0x44, 0x55, 0x66]"
proof -
  obtain P where P: "iso14443_3a_poller_alloc = Some P" "poller_ok P" using alloc_ok by blast
  have len: "\<forall>l. length (card7 l) = 5" by (simp add: card7_def)
  note laws = card_radio_laws [of card7, OF len]
  have last: "card7 2 ! 0 \<noteq> ISO14443_3A_POLLER_SDD_CL" by (simp add: card7_def ISO14443_3A_POLLER_SDD_CL_def)
  have uid: "uid_from card7 0 2 = [0x04, 0x11, 0x22, 0x33, 0x44, 0x55, 0x66]"
    unfolding numeral_2_eq_2 by (simp add: card7_def ISO14443_3A_POLLER_SDD_CL_def)
  show ?thesis
    using iso14443_3a_activation [OF laws(1) P(2) laws(2) last, of "()"] laws(3) P(1)
    unfolding uid by (auto split: if_splits)
qed

text \<open>Nothing in the code keeps the number to three parts: a card that tags the part of every level makes the
  poller write the fourth behind the ten bytes of \<open>uid\<close>, which is the result \<open>None\<close>.\<close>

theorem iso14443_3a_uid_overflow:
  assumes "radio_ok radio" "poller_ok P" "sdd_answers radio cl" "answers_all radio"
    "\<forall>l < 4. cl l ! 0 = ISO14443_3A_POLLER_SDD_CL"
  shows "iso14443_3a_poller_activate radio P w = None"
proof -
  obtain P1 w1 where start: "iso14443_3a_poller_activate radio P w = activation_from radio P1 w1" "poller_ok P1" "iso_uid_len (ip_data P1) = 0"
    using activate_starts [OF assms(1,2), of w] by blast
  obtain P2 w2 where r: "activation_from radio P1 w1 = col_res_loop 9 radio P2 w2" "at_level Iso14443_3aPollerColResStateStateNewCascade 0 P2"
    using activation_reaches_loop [OF assms(1) start(2,3), of w1] assms(4) by blast
  then show ?thesis using tagged_levels [OF assms(1,3,4,5) r(2), of 3 w2] start(1) by simp
qed

theorem iso14443_3a_uid_overflow_witness:
  "\<exists>P. iso14443_3a_poller_alloc = Some P \<and> iso14443_3a_poller_activate (card_radio (\<lambda>_. [0x88, 0x01, 0x02, 0x03, 0x88])) P () = None"
proof -
  obtain P where P: "iso14443_3a_poller_alloc = Some P" "poller_ok P" using alloc_ok by blast
  have len: "\<forall>l :: nat. length ([0x88, 0x01, 0x02, 0x03, 0x88] :: u8 list) = 5" by simp
  note laws = card_radio_laws [of "\<lambda>_. [0x88, 0x01, 0x02, 0x03, 0x88]", OF len]
  show ?thesis
    using iso14443_3a_uid_overflow [OF laws(1) P(2) laws(2,3), of "()"] P(1)
    by (auto simp: ISO14443_3A_POLLER_SDD_CL_def)
qed

end
