(* ===== verification/Spec2Isabelle.thy ===== *)
theory Spec2Isabelle
  imports Prelude BitLib BitBuffer NfcCrc Encodings Manchester PulseJoiner Datetime Dolphin Expansion ExpansionWorker ExpansionSystem ExpansionService ProtocolDict Pulses Em4100 InfraredCommon InfraredProtocols Infrared InfraredSafe InfraredPulseCode InfraredMessages InfraredManchester InfraredRoundTrip Crypto1 Crypto1Frames MfClassic MfClassicFile MfClassicCard MfClassicListener MfClassicHandlers MfClassicEmulation Iso14443Poller
begin

text \<open>
  A verification development for the Flipper Zero firmware (the Xtreme-Firmware fork): shallow models of
  parts of the C code under \<open>src/\<close>, translated definition by definition, and the theorems that make
  these parts correct.

  The parts and their theories. \<open>src/lib\<close> holds the libraries; the applications and services
  under \<open>src/applications\<close> call them.

  \<^item> \<^bold>\<open>Prelude\<close>: checked accesses to arrays (\<open>rd\<close>, \<open>wr\<close>, \<open>memcpy\<close>), \<open>furi_check\<close> and \<open>furi_assert\<close>,
    counting loops (\<open>for_loop\<close>), bit strings and little-endian bytes.
  \<^item> \<^bold>\<open>BitLib\<close>: \<open>lib/bit_lib/bit_lib.c\<close>. Bit fields, parity, reversal, generic CRCs and number
    conversions against the bit string that the bytes spell.
  \<^item> \<^bold>\<open>BitBuffer\<close>: \<open>lib/toolbox/bit_buffer.c\<close>, a bit buffer with parity bits. The invariant of
    every operation, and the frames with parity written and read back.
  \<^item> \<^bold>\<open>NfcCrc\<close>: the checksums of \<open>lib/nfc/helpers\<close> and \<open>lib/one_wire/maxim_crc.c\<close>. They call the buffer
    through a locale, and are instances of the generic CRCs of \<open>BitLib\<close>.
  \<^item> \<^bold>\<open>Encodings\<close>: \<open>lib/toolbox/varint.c\<close> and \<open>hex.c\<close>, with their round trips.
  \<^item> \<^bold>\<open>Manchester\<close>, \<^bold>\<open>PulseJoiner\<close>: \<open>lib/toolbox/manchester_decoder.c\<close>, \<open>manchester_encoder.c\<close>,
    \<open>pulse_joiner.c\<close>. The encoder's signal is decoded to the bits, and joining keeps the wave form.
  \<^item> \<^bold>\<open>Datetime\<close>: \<open>lib/datetime/datetime.c\<close>. Dates and time stamps, and where the code overflows.
  \<^item> \<^bold>\<open>Dolphin\<close>: \<open>applications/services/dolphin\<close>. The state of the pet, its deeds and its levels.
  \<^item> \<^bold>\<open>Expansion\<close>, \<^bold>\<open>ExpansionWorker\<close>, \<^bold>\<open>ExpansionSystem\<close>, \<^bold>\<open>ExpansionService\<close>:
    \<open>applications/services/expansion\<close>. Frames, decoder and encoder; the worker thread with its
    state machine; its interleavings, call by call, with the threads of the RPC sessions, whose send callback
    runs under the mutex of \<open>applications/services/rpc/rpc.c\<close>; the service that starts and stops workers.
  \<^item> \<^bold>\<open>ProtocolDict\<close>, \<^bold>\<open>Em4100\<close>: \<open>lib/toolbox/protocols\<close> and \<open>lib/lfrfid/protocols/protocol_em4100.c\<close>. The
    tables of RFID protocols, and the first one: code words, emulation and reading. \<^bold>\<open>Pulses\<close> joins pulses of
    one level.
  \<^item> \<^bold>\<open>InfraredCommon\<close>, \<^bold>\<open>InfraredProtocols\<close>, \<^bold>\<open>Infrared\<close>: \<open>lib/infrared/encoder_decoder\<close>: the decoder and the
    encoder that all protocols share, the tables and functions of the eight protocol families, and the
    interface that dispatches to them. \<^bold>\<open>InfraredSafe\<close> shows that no sequence of pulses overruns a decoder (but
    Pioneer's), in a locale interpreted for each protocol. \<^bold>\<open>InfraredPulseCode\<close>, \<^bold>\<open>InfraredManchester\<close> and
    \<^bold>\<open>InfraredMessages\<close> follow a frame from the encoder's data through the pulses to the decoder's, and
    \<^bold>\<open>InfraredRoundTrip\<close> puts them together: each of the fourteen protocols delivers its messages.
  \<^item> \<^bold>\<open>Crypto1\<close>, \<^bold>\<open>Crypto1Frames\<close>: \<open>lib/nfc/protocols/mf_classic/crypto1.c\<close>. The cipher in its two half words refines
    a shift register of 48 bits; frames are encrypted and decrypted in step.
  \<^item> \<^bold>\<open>MfClassic\<close>, \<^bold>\<open>MfClassicFile\<close>, \<^bold>\<open>MfClassicCard\<close>: \<open>lib/nfc/protocols/mf_classic/mf_classic.c\<close> over
    \<open>iso14443_3a.c\<close>. The memory of a card, what is known of it, its layout, access conditions and value blocks,
    every change of it byte by byte, and the lines of its file. The trimming of a string is the parameter \<open>trim\<close>.
  \<^item> \<^bold>\<open>MfClassicListener\<close>, \<^bold>\<open>MfClassicHandlers\<close>, \<^bold>\<open>MfClassicEmulation\<close>: \<open>mf_classic_listener.c\<close> over
    \<open>iso14443_3a_listener.c\<close>, the emulated card. What each handler does, then the card as the radio drives it: its invariant
    and its two ways to fail, what may change or be seen of the memory, and the authentication against the reader's side of the cipher. The random
    bytes of a nonce are the parameter \<open>rnd\<close>.
  \<^item> \<^bold>\<open>Iso14443Poller\<close>: \<open>iso14443_3a_poller_i.c\<close> and \<open>iso14443_3a_poller.c\<close>, the reader's side: activation ends with the card's
    number. The radio and the cards in its field are the parameter \<open>radio\<close>.

  Conventions. A value of a fixed-width C type is a word of that width where bits or wrap-around matter,
  and a natural number otherwise (lengths, counters, times), with the bound written out where the
  code relies on it. A function that can stop the program (\<open>furi_check\<close>, \<open>furi_crash\<close>) or that
  would access memory outside an object returns an option, and \<open>None\<close> is that outcome; that a call is
  safe is a theorem. Signed arithmetic that leaves its type is \<open>None\<close> as well: the build does not pass \<open>-fwrapv\<close>. \<open>malloc\<close> returns zeroed memory, as in the firmware's heap.

  Loops. Counting loops are \<open>for_loop\<close> and \<open>fold\<close>; the others are recursive functions with a
  measure: the worker's loops, for example, end because each turn takes bytes or events off the finite script
  of the line (\<open>expansion_worker_balanced\<close>). The loops of the infrared decoder and the pulses an infrared encoder makes are partial
  functions, \<open>None\<close> where they do not end; that they end is part of \<open>infrared_decoders_safe\<close> and of
  \<open>infrared_round_trip\<close>. Only the anticollision loop of the poller has a bound on its turns, nine, which suffices
  for the three levels of two turns that a card can have (\<open>iso14443_3a_activation\<close>).

  Not modelled. The thread library, the queues and FreeRTOS are steps of relations; the serial
  line and what the RPC service makes of its data are an environment argument of the worker. Transmissions of whole frames are
  atomic there. The other NFC protocols, the MIFARE Classic poller and the radio layer \<open>nfc.c\<close> are left out. Hardware access, the vendored libraries (u8g2, FatFs, mjs, CMSIS), code that
  stands on the empty submodules (M*LIB containers, nanopb, FreeRTOS) and user interfaces
  are left out; the manifest lists every part with its reason.
\<close>

end
